(* ===== verification/RT_Prelude.thy ===== *)
theory RT_Prelude
  imports Main "HOL-Library.Word" "HOL-Library.Monad_Syntax"
begin

text \<open>
  Shared vocabulary of the development: the machine types of the 32 bit target, the partial
  result of kernel code, the error codes of \<^verbatim>\<open>include/rtdef.h\<close>, and the list and word facts
  that several components use.

  An operation of the kernel is a function from a state to an \<open>option\<close>.  \<open>None\<close> means that
  the code does not come back: an \<open>RT_ASSERT\<close> failed, and \<open>rt_assert_handler\<close> spins for ever,
  or the code would read through a pointer that is not an object.
\<close>

unbundle bit_operations_syntax

type_synonym u8 = "8 word"
type_synonym u16 = "16 word"
type_synonym u32 = "32 word"

type_synonym rt_err_t = int

subsection \<open>Error codes\<close>

definition RT_EOK :: rt_err_t where "RT_EOK = 0"
definition RT_ERROR :: rt_err_t where "RT_ERROR = 1"
definition RT_ETIMEOUT :: rt_err_t where "RT_ETIMEOUT = 2"
definition RT_EFULL :: rt_err_t where "RT_EFULL = 3"
definition RT_EEMPTY :: rt_err_t where "RT_EEMPTY = 4"
definition RT_ENOMEM :: rt_err_t where "RT_ENOMEM = 5"
definition RT_ENOSYS :: rt_err_t where "RT_ENOSYS = 6"
definition RT_EBUSY :: rt_err_t where "RT_EBUSY = 7"
definition RT_EIO :: rt_err_t where "RT_EIO = 8"
definition RT_EINTR :: rt_err_t where "RT_EINTR = 9"
definition RT_EINVAL :: rt_err_t where "RT_EINVAL = 10"

lemmas rt_err_defs = RT_EOK_def RT_ERROR_def RT_ETIMEOUT_def RT_EFULL_def RT_EEMPTY_def
  RT_ENOMEM_def RT_ENOSYS_def RT_EBUSY_def RT_EIO_def RT_EINTR_def RT_EINVAL_def

subsection \<open>Assertions\<close>

text \<open>
  \<open>RT_ASSERT(EX)\<close> of \<^verbatim>\<open>include/rtdebug.h\<close> with \<open>RT_DEBUG\<close> defined, as \<^verbatim>\<open>rtconfig.h\<close> does:
  a false expression enters \<open>rt_assert_handler\<close>, which does not return.
\<close>

definition RT_ASSERT :: "bool \<Rightarrow> unit option" where
  "RT_ASSERT ex = (if ex then Some () else None)"

lemma RT_ASSERT_bind [simp]: "RT_ASSERT ex \<bind> f = (if ex then f () else None)"
  by (simp add: RT_ASSERT_def)

lemma RT_ASSERT_eq [simp]: "RT_ASSERT ex = Some u \<longleftrightarrow> ex"
  by (simp add: RT_ASSERT_def)

subsection \<open>Lists\<close>

lemma removeAll_notin [simp]: "x \<notin> set xs \<Longrightarrow> removeAll x xs = xs"
  by (rule removeAll_id)

lemma distinct_hd_removeAll: "distinct (x # xs) \<Longrightarrow> removeAll x (x # xs) = xs"
  by simp

text \<open>\<open>ins_before n x\<close> links \<open>x\<close> in front of the element \<open>n\<close>.\<close>

fun ins_before :: "'a \<Rightarrow> 'a \<Rightarrow> 'a list \<Rightarrow> 'a list" where
  "ins_before n x [] = []"
| "ins_before n x (y # ys) = (if y = n then x # y # ys else y # ins_before n x ys)"

lemma ins_before_notin [simp]: "n \<notin> set xs \<Longrightarrow> ins_before n x xs = xs"
  by (induction xs) auto

lemma set_ins_before: "n \<in> set xs \<Longrightarrow> set (ins_before n x xs) = insert x (set xs)"
  by (induction xs) auto

lemma set_ins_before_subset: "set (ins_before n x xs) \<subseteq> insert x (set xs)"
  by (induction xs) auto

lemma distinct_ins_before: "distinct xs \<Longrightarrow> x \<notin> set xs \<Longrightarrow> distinct (ins_before n x xs)"
proof (induction xs)
  case (Cons y ys)
  then show ?case using set_ins_before_subset [of n x ys] by auto
qed simp

lemma ins_before_append:
  "n \<notin> set xs \<Longrightarrow> ins_before n x (xs @ n # ys) = xs @ x # n # ys"
  by (induction xs) auto

subsection \<open>Bit fields in a status byte\<close>

lemma field_set_get: "v AND m = v \<Longrightarrow> (v OR (x AND NOT m)) AND m = (v :: 'a::len word)"
  by (metis (no_types, lifting) and.assoc and.left_commute bit.conj_cancel_left
      bit.conj_disj_distrib2 or.right_neutral and_zero_eq)

lemma field_set_get_set:
  "v AND m = v \<Longrightarrow> (v OR ((w OR (x AND NOT m)) AND NOT m)) = (v OR (x AND NOT m))"
  if "w AND m = w" for v w x m :: "'a::len word"
proof -
  have "w AND NOT m = 0" using that
    by (metis and.assoc bit.conj_cancel_right and_zero_eq)
  then show ?thesis by (simp add: bit.conj_disj_distrib2 and.assoc)
qed

lemma bit_mask_shift [simp]: "bit (push_bit n (1 :: 'a::len word)) i \<longleftrightarrow> i = n \<and> n < LENGTH('a)"
  by (auto simp: bit_simps)

lemma word_eq_0_iff_bit: "(w :: 'a::len word) = 0 \<longleftrightarrow> (\<forall>i < LENGTH('a). \<not> bit w i)"
  by (auto intro: bit_word_eqI)

end
