(* ===== verification/RT_List.thy ===== *)
theory RT_List
  imports RT_Prelude
begin

text \<open>
  The intrusive doubly linked list of \<^verbatim>\<open>include/rtservice.h\<close>, at two levels.  The pointer
  level keeps the \<open>next\<close> and \<open>prev\<close> members of every node and performs the assignments of the
  C functions one by one.  The sequence level maps every list head to the nodes linked on it, in
  order; this is the level the other components are written at.  The refinement lemmas show that
  the assignments of the C functions compute the sequence operations, for any number of lists
  that share the memory.
\<close>

subsection \<open>Pointer level\<close>

record 'n links =
  next_of :: "'n \<Rightarrow> 'n"
  prev_of :: "'n \<Rightarrow> 'n"

definition set_next :: "'n \<Rightarrow> 'n \<Rightarrow> 'n links \<Rightarrow> 'n links" where
  "set_next x v m = m\<lparr>next_of := (next_of m)(x := v)\<rparr>"

definition set_prev :: "'n \<Rightarrow> 'n \<Rightarrow> 'n links \<Rightarrow> 'n links" where
  "set_prev x v m = m\<lparr>prev_of := (prev_of m)(x := v)\<rparr>"

definition rt_list_init :: "'n \<Rightarrow> 'n links \<Rightarrow> 'n links" where
  "rt_list_init l m = set_prev l l (set_next l l m)"

definition rt_list_insert_after :: "'n \<Rightarrow> 'n \<Rightarrow> 'n links \<Rightarrow> 'n links" where
  "rt_list_insert_after l n m =
     (let m1 = set_prev (next_of m l) n m;
          m2 = set_next n (next_of m1 l) m1;
          m3 = set_next l n m2
      in set_prev n l m3)"

definition rt_list_insert_before :: "'n \<Rightarrow> 'n \<Rightarrow> 'n links \<Rightarrow> 'n links" where
  "rt_list_insert_before l n m =
     (let m1 = set_next (prev_of m l) n m;
          m2 = set_prev n (prev_of m1 l) m1;
          m3 = set_prev l n m2
      in set_next n l m3)"

definition rt_list_remove :: "'n \<Rightarrow> 'n links \<Rightarrow> 'n links" where
  "rt_list_remove n m =
     (let m1 = set_prev (next_of m n) (prev_of m n) m;
          m2 = set_next (prev_of m1 n) (next_of m1 n) m1;
          m3 = set_prev n n m2
      in set_next n (prev_of m3 n) m3)"

definition rt_list_isempty :: "'n \<Rightarrow> 'n links \<Rightarrow> bool" where
  "rt_list_isempty l m \<longleftrightarrow> next_of m l = l"

text \<open>
  The counting loop of \<open>rt_list_len\<close>; on a corrupted list that never comes back to its head the
  loop does not end.
\<close>

partial_function (option) rt_list_len_loop :: "'n \<Rightarrow> 'n links \<Rightarrow> 'n \<Rightarrow> nat \<Rightarrow> nat option" where
  "rt_list_len_loop l m p len =
     (if next_of m p \<noteq> l then rt_list_len_loop l m (next_of m p) (Suc len) else Some len)"

definition rt_list_len :: "'n \<Rightarrow> 'n links \<Rightarrow> nat option" where
  "rt_list_len l m = rt_list_len_loop l m l 0"

subsection \<open>What a memory represents\<close>

text \<open>\<open>chain m a xs b\<close>: from \<open>a\<close> the \<open>next\<close> pointers run through \<open>xs\<close> to \<open>b\<close>, and back.\<close>

fun chain :: "'n links \<Rightarrow> 'n \<Rightarrow> 'n list \<Rightarrow> 'n \<Rightarrow> bool" where
  "chain m a [] b \<longleftrightarrow> next_of m a = b \<and> prev_of m b = a"
| "chain m a (x # xs) b \<longleftrightarrow> next_of m a = x \<and> prev_of m x = a \<and> chain m x xs b"

definition dlist :: "'n links \<Rightarrow> 'n \<Rightarrow> 'n list \<Rightarrow> bool" where
  "dlist m h xs \<longleftrightarrow> chain m h xs h \<and> distinct (h # xs)"

definition unlinked :: "'n links \<Rightarrow> 'n \<Rightarrow> bool" where
  "unlinked m n \<longleftrightarrow> next_of m n = n \<and> prev_of m n = n"

lemma chain_append:
  "chain m a (xs @ y # ys) b \<longleftrightarrow> chain m a xs y \<and> chain m y ys b"
  by (induction xs arbitrary: a) auto

lemma chain_cong:
  assumes "\<And>x. x \<in> insert a (set xs) \<Longrightarrow> next_of m' x = next_of m x"
    and "\<And>x. x \<in> insert b (set xs) \<Longrightarrow> prev_of m' x = prev_of m x"
  shows "chain m' a xs b = chain m a xs b"
  using assms by (induction xs arbitrary: a) auto

lemma chain_next: "chain m a xs b \<Longrightarrow> next_of m a = (case xs of [] \<Rightarrow> b | x # _ \<Rightarrow> x)"
  by (cases xs) auto

lemma chain_prev: "chain m a xs b \<Longrightarrow> prev_of m b = (if xs = [] then a else last xs)"
  by (induction xs arbitrary: a) auto

lemma dlist_head_next: "dlist m h xs \<Longrightarrow> next_of m h = (case xs of [] \<Rightarrow> h | x # _ \<Rightarrow> x)"
  by (auto simp: dlist_def chain_next)

lemma dlist_head_prev: "dlist m h xs \<Longrightarrow> prev_of m h = (if xs = [] then h else last xs)"
  by (auto simp: dlist_def chain_prev)

lemma dlist_isempty: "dlist m h xs \<Longrightarrow> rt_list_isempty h m \<longleftrightarrow> xs = []"
  by (auto simp: rt_list_isempty_def dlist_head_next dlist_def split: list.splits)

lemma dlist_init: "dlist (rt_list_init h m) h []"
  by (simp add: dlist_def rt_list_init_def set_prev_def set_next_def)

text \<open>Updating nodes of one list leaves a list on other nodes alone.\<close>

lemma dlist_frame:
  assumes "dlist m h xs"
    and "\<And>x. x \<in> insert h (set xs) \<Longrightarrow> next_of m' x = next_of m x \<and> prev_of m' x = prev_of m x"
  shows "dlist m' h xs"
  using assms chain_cong [of h xs m' m h] by (simp add: dlist_def)

text \<open>The four assignments of each function in closed form.\<close>

lemma insert_after_links:
  assumes "n \<noteq> l" "n \<noteq> next_of m l"
  shows "rt_list_insert_after l n m =
    m\<lparr>next_of := (next_of m)(n := next_of m l, l := n),
      prev_of := (prev_of m)(next_of m l := n, n := l)\<rparr>"
  using assms by (simp add: rt_list_insert_after_def set_prev_def set_next_def Let_def)

lemma insert_before_links:
  assumes "n \<noteq> l" "n \<noteq> prev_of m l"
  shows "rt_list_insert_before l n m =
    m\<lparr>next_of := (next_of m)(prev_of m l := n, n := l),
      prev_of := (prev_of m)(n := prev_of m l, l := n)\<rparr>"
  using assms by (simp add: rt_list_insert_before_def set_prev_def set_next_def Let_def)

lemma remove_links:
  assumes "next_of m n \<noteq> n" "prev_of m n \<noteq> n"
  shows "rt_list_remove n m =
    m\<lparr>next_of := (next_of m)(prev_of m n := next_of m n, n := n),
      prev_of := (prev_of m)(next_of m n := prev_of m n, n := n)\<rparr>"
  using assms by (simp add: rt_list_remove_def set_prev_def set_next_def Let_def fun_upd_twist)

lemma remove_unlinked: "unlinked m n \<Longrightarrow> rt_list_remove n m = m"
  by (cases m) (auto simp: unlinked_def rt_list_remove_def set_prev_def set_next_def Let_def)

lemma chain_snoc_upd:
  assumes "chain m a xs b" "n \<notin> insert a (insert b (set xs))" "distinct (a # xs)" "b \<notin> set xs"
  shows "chain (m\<lparr>next_of := (next_of m)(last (a # xs) := n, n := b),
                  prev_of := (prev_of m)(n := last (a # xs), b := n)\<rparr>) a (xs @ [n]) b"
proof (cases xs rule: rev_cases)
  case Nil
  with assms show ?thesis by auto
next
  case (snoc ys y)
  let ?m = "m\<lparr>next_of := (next_of m)(last (a # xs) := n, n := b),
              prev_of := (prev_of m)(n := last (a # xs), b := n)\<rparr>"
  have "chain m a ys y" using assms(1) snoc by (simp add: chain_append)
  moreover have "chain ?m a ys y = chain m a ys y"
    using assms snoc by (intro chain_cong) auto
  ultimately show ?thesis using assms snoc by (auto simp: chain_append)
qed

lemma dlist_insert_after_head:
  assumes "dlist m h xs" "n \<notin> insert h (set xs)"
  shows "dlist (rt_list_insert_after h n m) h (n # xs)"
proof (cases xs)
  case Nil
  with assms show ?thesis by (auto simp: dlist_def insert_after_links)
next
  case (Cons y ys)
  let ?m = "rt_list_insert_after h n m"
  have m: "?m = m\<lparr>next_of := (next_of m)(n := y, h := n), prev_of := (prev_of m)(y := n, n := h)\<rparr>"
    using assms Cons by (subst insert_after_links) (auto simp: dlist_def)
  have "chain ?m y ys h = chain m y ys h"
    using assms Cons unfolding m by (intro chain_cong) (auto simp: dlist_def)
  with assms Cons m show ?thesis by (auto simp: dlist_def)
qed

lemma dlist_insert_before_head:
  assumes "dlist m h xs" "n \<notin> insert h (set xs)"
  shows "dlist (rt_list_insert_before h n m) h (xs @ [n])"
proof -
  have p: "prev_of m h = last (h # xs)"
    using dlist_head_prev [OF assms(1)] by simp
  have "rt_list_insert_before h n m =
      m\<lparr>next_of := (next_of m)(last (h # xs) := n, n := h),
        prev_of := (prev_of m)(n := last (h # xs), h := n)\<rparr>"
    using assms(2) p by (subst insert_before_links) auto
  then show ?thesis
    using assms chain_snoc_upd [of m h xs h n] by (auto simp: dlist_def)
qed

lemma dlist_insert_before_node:
  assumes "dlist m h (xs @ y # ys)" "n \<notin> insert h (set (xs @ y # ys))"
  shows "dlist (rt_list_insert_before y n m) h (xs @ n # y # ys)"
proof -
  have c: "chain m h xs y" "chain m y ys h" and d: "distinct (h # xs @ y # ys)"
    using assms(1) by (auto simp: dlist_def chain_append)
  have p: "prev_of m y = last (h # xs)" using chain_prev [OF c(1)] by simp
  let ?m = "m\<lparr>next_of := (next_of m)(last (h # xs) := n, n := y),
              prev_of := (prev_of m)(n := last (h # xs), y := n)\<rparr>"
  have m: "rt_list_insert_before y n m = ?m"
    using assms(2) p d by (subst insert_before_links) auto
  have l: "last (h # xs) \<in> insert h (set xs)" by (cases xs rule: rev_cases) auto
  have "chain ?m h (xs @ [n]) y"
    using c(1) assms(2) d by (intro chain_snoc_upd) auto
  moreover have "chain ?m y ys h = chain m y ys h"
    using assms(2) d l by (intro chain_cong) auto
  ultimately show ?thesis
    using c(2) d assms(2) m by (auto simp: dlist_def chain_append)
qed

lemma chain_skip_upd:
  assumes "chain m a xs y" "chain m y ys b" "distinct (a # xs @ y # ys)" "b \<notin> set xs" "b \<noteq> y" "b \<notin> set ys"
  shows "chain (m\<lparr>next_of := (next_of m)(prev_of m y := next_of m y, y := y),
                  prev_of := (prev_of m)(next_of m y := prev_of m y, y := y)\<rparr>) a (xs @ ys) b"
proof -
  let ?m = "m\<lparr>next_of := (next_of m)(prev_of m y := next_of m y, y := y),
              prev_of := (prev_of m)(next_of m y := prev_of m y, y := y)\<rparr>"
  have p: "prev_of m y = last (a # xs)" using chain_prev [OF assms(1)] by simp
  have q: "next_of m y = (case ys of [] \<Rightarrow> b | z # _ \<Rightarrow> z)" using chain_next [OF assms(2)] .
  have tail: "chain ?m z zs b" if "ys = z # zs" for z zs
  proof -
    have "last (a # xs) \<in> insert a (set xs)" by (cases xs rule: rev_cases) auto
    then have "chain ?m z zs b = chain m z zs b"
      using assms p q that by (intro chain_cong) auto
    then show ?thesis using assms(2) that by simp
  qed
  show ?thesis
  proof (cases xs rule: rev_cases)
    case Nil
    with assms p q tail show ?thesis by (cases ys) auto
  next
    case (snoc zs z)
    have "chain ?m a zs z = chain m a zs z"
      using assms p q snoc by (intro chain_cong) (auto split: list.splits)
    moreover have "chain m a zs z" using assms(1) snoc by (simp add: chain_append)
    ultimately have "chain ?m a zs z" by simp
    then show ?thesis using assms p q snoc tail by (cases ys) (auto simp: chain_append)
  qed
qed

lemma dlist_remove:
  assumes "dlist m h (xs @ y # ys)"
  shows "dlist (rt_list_remove y m) h (xs @ ys) \<and> unlinked (rt_list_remove y m) y"
proof -
  have c: "chain m h xs y" "chain m y ys h" and d: "distinct (h # xs @ y # ys)"
    using assms by (auto simp: dlist_def chain_append)
  have p: "prev_of m y \<noteq> y" using chain_prev [OF c(1)] d by (cases xs rule: rev_cases) auto
  have q: "next_of m y \<noteq> y" using chain_next [OF c(2)] d by (auto split: list.splits)
  show ?thesis
    using chain_skip_upd [OF c d] d by (simp add: remove_links [OF q p] dlist_def unlinked_def)
qed

subsection \<open>Sequence level\<close>

text \<open>
  A memory represents a family of lists: each head of \<open>H\<close> the sequence \<open>ls h\<close>, no node on two
  lists, and the heads themselves never linked.
\<close>

definition represents :: "'n set \<Rightarrow> 'n links \<Rightarrow> ('n \<Rightarrow> 'n list) \<Rightarrow> bool" where
  "represents H m ls \<longleftrightarrow>
     (\<forall>h \<in> H. dlist m h (ls h) \<and> set (ls h) \<inter> H = {}) \<and>
     (\<forall>h \<in> H. \<forall>h' \<in> H. h \<noteq> h' \<longrightarrow> set (ls h) \<inter> set (ls h') = {})"

definition linked :: "('h \<Rightarrow> 'n list) \<Rightarrow> 'n \<Rightarrow> bool" where
  "linked ls n \<longleftrightarrow> (\<exists>h. n \<in> set (ls h))"

definition seq_insert_after_head :: "'h \<Rightarrow> 'n \<Rightarrow> ('h \<Rightarrow> 'n list) \<Rightarrow> ('h \<Rightarrow> 'n list)" where
  "seq_insert_after_head h n ls = ls(h := n # ls h)"

definition seq_insert_before_head :: "'h \<Rightarrow> 'n \<Rightarrow> ('h \<Rightarrow> 'n list) \<Rightarrow> ('h \<Rightarrow> 'n list)" where
  "seq_insert_before_head h n ls = ls(h := ls h @ [n])"

definition seq_insert_before_node :: "'n \<Rightarrow> 'n \<Rightarrow> ('h \<Rightarrow> 'n list) \<Rightarrow> ('h \<Rightarrow> 'n list)" where
  "seq_insert_before_node y n ls = (\<lambda>h. ins_before y n (ls h))"

definition seq_remove :: "'n \<Rightarrow> ('h \<Rightarrow> 'n list) \<Rightarrow> ('h \<Rightarrow> 'n list)" where
  "seq_remove n ls = (\<lambda>h. removeAll n (ls h))"

lemma seq_remove_apply [simp]: "seq_remove n ls h = removeAll n (ls h)"
  by (simp add: seq_remove_def)

lemma representsD:
  assumes "represents H m ls" "h \<in> H"
  shows "dlist m h (ls h)" "set (ls h) \<inter> H = {}" "\<And>h'. h' \<in> H \<Longrightarrow> h' \<noteq> h \<Longrightarrow> set (ls h) \<inter> set (ls h') = {}"
  using assms unfolding represents_def by blast+

text \<open>
  Changing one list: the new memory agrees with the old one outside the nodes of that list and
  one node \<open>n\<close> that is on no other list.
\<close>

lemma represents_update:
  assumes rep: "represents H m ls" and h: "h \<in> H" and n: "n \<notin> H"
    and others: "\<And>h'. h' \<in> H \<Longrightarrow> h' \<noteq> h \<Longrightarrow> n \<notin> set (ls h')"
    and new: "dlist m' h xs" "set xs \<subseteq> insert n (set (ls h))"
    and frame: "\<And>x. x \<notin> insert h (insert n (set (ls h))) \<Longrightarrow>
      next_of m' x = next_of m x \<and> prev_of m' x = prev_of m x"
  shows "represents H m' (ls(h := xs))"
proof -
  have same: "dlist m' h' (ls h')" if "h' \<in> H" "h' \<noteq> h" for h'
  proof (rule dlist_frame [OF representsD(1) [OF rep that(1)]])
    fix x assume x: "x \<in> insert h' (set (ls h'))"
    have "x \<noteq> h" using x that h representsD(2) [OF rep that(1)] by auto
    moreover have "x \<noteq> n" using x that n others by auto
    moreover have "x \<notin> set (ls h)"
      using x that h representsD(2) [OF rep h] representsD(3) [OF rep h, of h'] by auto
    ultimately show "next_of m' x = next_of m x \<and> prev_of m' x = prev_of m x"
      by (intro frame) auto
  qed
  have "set xs \<inter> H = {}" using new(2) n representsD(2) [OF rep h] by auto
  moreover have "set xs \<inter> set (ls h') = {}" if "h' \<in> H" "h' \<noteq> h" for h'
    using new(2) others [OF that] representsD(3) [OF rep h that] by auto
  ultimately show ?thesis
    using new(1) same rep unfolding represents_def by (auto simp: Int_commute)
qed

lemma last_in_insert: "last (h # xs) \<in> insert h (set xs)"
  by (cases xs rule: rev_cases) auto

lemma represents_insert_after_head:
  assumes "represents H m ls" "h \<in> H" "n \<notin> H" "\<forall>h \<in> H. n \<notin> set (ls h)"
  shows "represents H (rt_list_insert_after h n m) (seq_insert_after_head h n ls)"
  unfolding seq_insert_after_head_def
proof (rule represents_update [OF assms(1,2,3)])
  have d: "dlist m h (ls h)" by (rule representsD [OF assms(1,2)])
  have n: "n \<notin> insert h (set (ls h))" using assms by auto
  show "dlist (rt_list_insert_after h n m) h (n # ls h)"
    using d n by (rule dlist_insert_after_head)
  fix x assume "x \<notin> insert h (insert n (set (ls h)))"
  then show "next_of (rt_list_insert_after h n m) x = next_of m x \<and>
      prev_of (rt_list_insert_after h n m) x = prev_of m x"
    using n dlist_head_next [OF d] by (subst (1 2) insert_after_links) (auto split: list.splits)
qed (use assms in auto)

lemma represents_insert_before_head:
  assumes "represents H m ls" "h \<in> H" "n \<notin> H" "\<forall>h \<in> H. n \<notin> set (ls h)"
  shows "represents H (rt_list_insert_before h n m) (seq_insert_before_head h n ls)"
  unfolding seq_insert_before_head_def
proof (rule represents_update [OF assms(1,2,3)])
  have d: "dlist m h (ls h)" by (rule representsD [OF assms(1,2)])
  have n: "n \<notin> insert h (set (ls h))" using assms by auto
  show "dlist (rt_list_insert_before h n m) h (ls h @ [n])"
    using d n by (rule dlist_insert_before_head)
  fix x assume "x \<notin> insert h (insert n (set (ls h)))"
  then show "next_of (rt_list_insert_before h n m) x = next_of m x \<and>
      prev_of (rt_list_insert_before h n m) x = prev_of m x"
    using n dlist_head_prev [OF d] last_in_insert [of h "ls h"]
    by (subst (1 2) insert_before_links) (auto split: if_splits)
qed (use assms in auto)

lemma represents_insert_before_node:
  assumes "represents H m ls" "h \<in> H" "y \<in> set (ls h)" "n \<notin> H" "\<forall>h \<in> H. n \<notin> set (ls h)"
  shows "represents H (rt_list_insert_before y n m) (ls(h := ins_before y n (ls h)))"
proof (rule represents_update [OF assms(1,2,4)])
  have d: "dlist m h (ls h)" by (rule representsD [OF assms(1,2)])
  obtain xs ys where l: "ls h = xs @ y # ys" "y \<notin> set xs"
    using assms(3) split_list_first by metis
  have n: "n \<notin> insert h (set (ls h))" using assms by auto
  show "dlist (rt_list_insert_before y n m) h (ins_before y n (ls h))"
    using d n l by (simp add: ins_before_append dlist_insert_before_node)
  show "set (ins_before y n (ls h)) \<subseteq> insert n (set (ls h))"
    by (rule set_ins_before_subset)
  have c: "chain m h xs y" using d l by (simp add: dlist_def chain_append)
  have p: "prev_of m y = last (h # xs)" using chain_prev [OF c] by simp
  fix x assume "x \<notin> insert h (insert n (set (ls h)))"
  then show "next_of (rt_list_insert_before y n m) x = next_of m x \<and>
      prev_of (rt_list_insert_before y n m) x = prev_of m x"
    using n p l last_in_insert [of h xs] by (subst (1 2) insert_before_links) auto
qed (use assms in auto)

lemma represents_remove:
  assumes "represents H m ls" "h \<in> H" "n \<in> set (ls h)"
  shows "represents H (rt_list_remove n m) (ls(h := removeAll n (ls h))) \<and>
    unlinked (rt_list_remove n m) n"
proof
  have d: "dlist m h (ls h)" by (rule representsD [OF assms(1,2)])
  obtain xs ys where l: "ls h = xs @ n # ys" "n \<notin> set xs"
    using assms(3) split_list_first by metis
  have ys: "n \<notin> set ys" using d l by (auto simp: dlist_def)
  have r: "dlist (rt_list_remove n m) h (xs @ ys)" "unlinked (rt_list_remove n m) n"
    using dlist_remove [of m h xs n ys] d l by auto
  have c: "chain m h xs n" "chain m n ys h" and ds: "distinct (h # xs @ n # ys)"
    using d l by (auto simp: dlist_def chain_append)
  have p: "prev_of m n = last (h # xs)" using chain_prev [OF c(1)] by simp
  have q: "next_of m n = (case ys of [] \<Rightarrow> h | z # _ \<Rightarrow> z)" using chain_next [OF c(2)] .
  have lq: "last (h # xs) \<in> insert h (set xs)" by (rule last_in_insert)
  have ne: "prev_of m n \<noteq> n" "next_of m n \<noteq> n"
    using p q lq ds by (auto split: list.splits)
  show "represents H (rt_list_remove n m) (ls(h := removeAll n (ls h)))"
  proof (rule represents_update [OF assms(1,2)])
    show "n \<notin> H" using representsD(2) [OF assms(1,2)] assms(3) by auto
    show "n \<notin> set (ls h')" if "h' \<in> H" "h' \<noteq> h" for h'
      using representsD(3) [OF assms(1,2) that] assms(3) by auto
    show "dlist (rt_list_remove n m) h (removeAll n (ls h))" using r l ys by simp
    fix x assume "x \<notin> insert h (insert n (set (ls h)))"
    then show "next_of (rt_list_remove n m) x = next_of m x \<and>
        prev_of (rt_list_remove n m) x = prev_of m x"
      using p q lq l by (subst (1 2) remove_links [OF ne(2,1)]) (auto split: list.splits)
  qed auto
  show "unlinked (rt_list_remove n m) n" by (rule r)
qed

lemma len_loop_chain:
  "chain m p xs l \<Longrightarrow> l \<notin> set xs \<Longrightarrow> rt_list_len_loop l m p k = Some (k + length xs)"
proof (induction xs arbitrary: p k)
  case Nil
  then show ?case by (simp add: rt_list_len_loop.simps)
next
  case (Cons x xs)
  then show ?case by (subst rt_list_len_loop.simps) auto
qed

lemma dlist_len: "dlist m h xs \<Longrightarrow> rt_list_len h m = Some (length xs)"
  by (auto simp: dlist_def rt_list_len_def len_loop_chain)

end
