(* ===== verification/RT_State.thy ===== *)
theory RT_State
  imports RT_List
begin

text \<open>
  The state of the kernel: the C structures as records, the pointers that name them, and the
  global variables of the files under \<^verbatim>\<open>rt-thread/src\<close>.  The build is the one of
  \<^verbatim>\<open>rtconfig.h\<close>: one core, 32 priorities, hooks compiled in but not set, soft timers, no signals.

  An embedded structure is named by an address constructor: \<open>Thread_timer t\<close> is
  \<open>&(t->thread_timer)\<close>.  The two statically allocated kernel threads have constructors of their
  own.  The \<open>parent\<close> object of a structure lies at its start, so a structure and its object header
  have the same pointer, as the casts in the source use it.

  The \<open>tlist\<close> nodes of the threads are linked at the sequence level of \<open>RT_List\<close>: \<open>tlists\<close> maps
  each head to the threads linked on it.  The timer rows and the object containers likewise.
\<close>

datatype ptr =
    RT_NULL
  | Ptr nat
  | Timer_thread          \<comment> \<open>\<open>static struct rt_thread timer_thread\<close> of timer.c\<close>
  | Idle_thread           \<comment> \<open>\<open>static struct rt_thread idle[0]\<close> of idle.c\<close>
  | System_heap           \<comment> \<open>\<open>static struct rt_memheap _heap\<close> of memheap.c\<close>
  | Thread_timer ptr      \<comment> \<open>the embedded \<open>thread_timer\<close>\<close>
  | Heap_lock ptr         \<comment> \<open>the embedded \<open>lock\<close> of a memory heap\<close>

subsection \<open>Object headers\<close>

record rt_object =
  obj_name :: string
  obj_type :: u8
  obj_flag :: u8

definition RT_NAME_MAX :: nat where "RT_NAME_MAX = 8"

definition RT_Object_Class_Null :: u8 where "RT_Object_Class_Null = 0"
definition RT_Object_Class_Thread :: u8 where "RT_Object_Class_Thread = 1"
definition RT_Object_Class_Semaphore :: u8 where "RT_Object_Class_Semaphore = 2"
definition RT_Object_Class_Mutex :: u8 where "RT_Object_Class_Mutex = 3"
definition RT_Object_Class_Event :: u8 where "RT_Object_Class_Event = 4"
definition RT_Object_Class_MailBox :: u8 where "RT_Object_Class_MailBox = 5"
definition RT_Object_Class_MessageQueue :: u8 where "RT_Object_Class_MessageQueue = 6"
definition RT_Object_Class_MemHeap :: u8 where "RT_Object_Class_MemHeap = 7"
definition RT_Object_Class_MemPool :: u8 where "RT_Object_Class_MemPool = 8"
definition RT_Object_Class_Device :: u8 where "RT_Object_Class_Device = 9"
definition RT_Object_Class_Timer :: u8 where "RT_Object_Class_Timer = 10"
definition RT_Object_Class_Module :: u8 where "RT_Object_Class_Module = 11"
definition RT_Object_Class_Unknown :: u8 where "RT_Object_Class_Unknown = 12"
definition RT_Object_Class_Static :: u8 where "RT_Object_Class_Static = 0x80"

lemmas class_defs = RT_Object_Class_Null_def RT_Object_Class_Thread_def
  RT_Object_Class_Semaphore_def RT_Object_Class_Mutex_def RT_Object_Class_Event_def
  RT_Object_Class_MailBox_def RT_Object_Class_MessageQueue_def RT_Object_Class_MemHeap_def
  RT_Object_Class_MemPool_def RT_Object_Class_Device_def RT_Object_Class_Timer_def
  RT_Object_Class_Module_def RT_Object_Class_Unknown_def RT_Object_Class_Static_def

subsection \<open>Threads and timers\<close>

definition RT_THREAD_INIT :: u8 where "RT_THREAD_INIT = 0x00"
definition RT_THREAD_READY :: u8 where "RT_THREAD_READY = 0x01"
definition RT_THREAD_SUSPEND :: u8 where "RT_THREAD_SUSPEND = 0x02"
definition RT_THREAD_RUNNING :: u8 where "RT_THREAD_RUNNING = 0x03"
definition RT_THREAD_CLOSE :: u8 where "RT_THREAD_CLOSE = 0x04"
definition RT_THREAD_STAT_MASK :: u8 where "RT_THREAD_STAT_MASK = 0x0f"

lemmas stat_defs = RT_THREAD_INIT_def RT_THREAD_READY_def RT_THREAD_SUSPEND_def
  RT_THREAD_RUNNING_def RT_THREAD_CLOSE_def

definition RT_THREAD_PRIORITY_MAX :: nat where "RT_THREAD_PRIORITY_MAX = 32"

record rt_thread =
  th_sp :: u32
  th_entry :: u32
  th_parameter :: u32
  th_stack_addr :: u32
  th_stack_size :: u32
  th_error :: rt_err_t
  th_stat :: u8
  th_current_priority :: u8
  th_init_priority :: u8
  th_number_mask :: u32
  th_event_set :: u32
  th_event_info :: u8
  th_init_tick :: u32
  th_remaining_tick :: u32
  th_cleanup :: u32
  th_user_data :: u32

definition RT_TIMER_FLAG_ACTIVATED :: u8 where "RT_TIMER_FLAG_ACTIVATED = 0x1"
definition RT_TIMER_FLAG_ONE_SHOT :: u8 where "RT_TIMER_FLAG_ONE_SHOT = 0x0"
definition RT_TIMER_FLAG_PERIODIC :: u8 where "RT_TIMER_FLAG_PERIODIC = 0x2"
definition RT_TIMER_FLAG_SOFT_TIMER :: u8 where "RT_TIMER_FLAG_SOFT_TIMER = 0x4"

lemmas timer_flag_defs = RT_TIMER_FLAG_ACTIVATED_def RT_TIMER_FLAG_ONE_SHOT_def
  RT_TIMER_FLAG_PERIODIC_def RT_TIMER_FLAG_SOFT_TIMER_def

definition RT_TICK_MAX :: u32 where "RT_TICK_MAX = 0xffffffff"

text \<open>
  The callback of a timer: \<open>rt_thread_timeout\<close> for the timer built into a thread, otherwise a
  function of the application, which the timer component takes as a parameter.
\<close>

datatype timeout_fn = Rt_thread_timeout | Application nat

record rt_timer =
  tm_timeout_func :: timeout_fn
  tm_parameter :: ptr
  tm_init_tick :: u32
  tm_timeout_tick :: u32

subsection \<open>IPC objects\<close>

definition RT_IPC_FLAG_FIFO :: u8 where "RT_IPC_FLAG_FIFO = 0x00"
definition RT_IPC_FLAG_PRIO :: u8 where "RT_IPC_FLAG_PRIO = 0x01"

record rt_mutex =
  mx_value :: u16
  mx_original_priority :: u8
  mx_hold :: u8
  mx_owner :: ptr

text \<open>A mailbox; \<open>mb_msg_pool\<close> is the content of the array that \<open>msg_pool\<close> points to.\<close>

record rt_mailbox =
  mb_msg_pool :: "u32 list"
  mb_size :: u16
  mb_entry :: u16
  mb_in_offset :: u16
  mb_out_offset :: u16

text \<open>
  A message queue.  The pool is cut into \<open>max_msgs\<close> slots of a \<open>next\<close> pointer and \<open>msg_size\<close>
  bytes; a pointer to a slot is its index, and \<open>None\<close> is \<open>RT_NULL\<close>.
\<close>

record rt_messagequeue =
  mq_next :: "nat \<Rightarrow> nat option"
  mq_data :: "nat \<Rightarrow> u8 list"
  mq_msg_size :: u16
  mq_max_msgs :: u16
  mq_entry :: u16
  mq_head :: "nat option"
  mq_tail :: "nat option"
  mq_free :: "nat option"

subsection \<open>The kernel\<close>

datatype tlist_head =
    Ready nat            \<comment> \<open>\<open>rt_thread_priority_table[i]\<close>\<close>
  | Defunct              \<comment> \<open>\<open>rt_thread_defunct\<close>\<close>
  | Suspend_thread ptr   \<comment> \<open>\<open>ipc->suspend_thread\<close>\<close>
  | Suspend_sender ptr   \<comment> \<open>\<open>mb->suspend_sender_thread\<close>\<close>

datatype timer_head = Hard_list | Soft_list

record kstate =
  objs :: "ptr \<Rightarrow> rt_object"
  threads :: "ptr \<Rightarrow> rt_thread"
  timers :: "ptr \<Rightarrow> rt_timer"
  sems :: "ptr \<Rightarrow> u16"
  mutexes :: "ptr \<Rightarrow> rt_mutex"
  events :: "ptr \<Rightarrow> u32"
  mailboxes :: "ptr \<Rightarrow> rt_mailbox"
  msgqueues :: "ptr \<Rightarrow> rt_messagequeue"
  tlists :: "tlist_head \<Rightarrow> ptr list"
  trows :: "timer_head \<Rightarrow> ptr list"
  object_lists :: "nat \<Rightarrow> ptr list"
  ready_group :: u32        \<comment> \<open>\<open>rt_thread_ready_priority_group\<close>\<close>
  lock_nest :: u16          \<comment> \<open>\<open>rt_scheduler_lock_nest\<close>\<close>
  current_thread :: ptr     \<comment> \<open>\<open>rt_current_thread\<close>\<close>
  current_prio :: u8        \<comment> \<open>\<open>rt_current_priority\<close>\<close>
  interrupt_nest :: u8      \<comment> \<open>\<open>rt_interrupt_nest\<close>\<close>
  tick :: u32               \<comment> \<open>\<open>rt_tick\<close>\<close>
  ram :: "u32 \<Rightarrow> u8"        \<comment> \<open>the bytes of the thread stacks\<close>
  rt_errno :: rt_err_t     \<comment> \<open>\<open>__rt_errno\<close> of kservice.c\<close>

text \<open>Assignments to a member, \<open>p->member = v\<close>.\<close>

abbreviation upd_obj :: "ptr \<Rightarrow> (rt_object \<Rightarrow> rt_object) \<Rightarrow> kstate \<Rightarrow> kstate" where
  "upd_obj p f \<equiv> objs_update (\<lambda>m. m(p := f (m p)))"

abbreviation upd_thread :: "ptr \<Rightarrow> (rt_thread \<Rightarrow> rt_thread) \<Rightarrow> kstate \<Rightarrow> kstate" where
  "upd_thread p f \<equiv> threads_update (\<lambda>m. m(p := f (m p)))"

abbreviation upd_timer :: "ptr \<Rightarrow> (rt_timer \<Rightarrow> rt_timer) \<Rightarrow> kstate \<Rightarrow> kstate" where
  "upd_timer p f \<equiv> timers_update (\<lambda>m. m(p := f (m p)))"

abbreviation upd_mutex :: "ptr \<Rightarrow> (rt_mutex \<Rightarrow> rt_mutex) \<Rightarrow> kstate \<Rightarrow> kstate" where
  "upd_mutex p f \<equiv> mutexes_update (\<lambda>m. m(p := f (m p)))"

abbreviation upd_mailbox :: "ptr \<Rightarrow> (rt_mailbox \<Rightarrow> rt_mailbox) \<Rightarrow> kstate \<Rightarrow> kstate" where
  "upd_mailbox p f \<equiv> mailboxes_update (\<lambda>m. m(p := f (m p)))"

abbreviation upd_mq :: "ptr \<Rightarrow> (rt_messagequeue \<Rightarrow> rt_messagequeue) \<Rightarrow> kstate \<Rightarrow> kstate" where
  "upd_mq p f \<equiv> msgqueues_update (\<lambda>m. m(p := f (m p)))"

abbreviation set_stat :: "ptr \<Rightarrow> u8 \<Rightarrow> kstate \<Rightarrow> kstate" where
  "set_stat t v \<equiv> upd_thread t (th_stat_update (\<lambda>_. v))"

abbreviation set_error :: "ptr \<Rightarrow> rt_err_t \<Rightarrow> kstate \<Rightarrow> kstate" where
  "set_error t e \<equiv> upd_thread t (th_error_update (\<lambda>_. e))"

text \<open>\<open>thread->stat & RT_THREAD_STAT_MASK\<close>, and the assignment that keeps the other bits.\<close>

abbreviation stat_of :: "kstate \<Rightarrow> ptr \<Rightarrow> u8" where
  "stat_of s t \<equiv> th_stat (threads s t) AND RT_THREAD_STAT_MASK"

abbreviation set_stat_field :: "ptr \<Rightarrow> u8 \<Rightarrow> kstate \<Rightarrow> kstate" where
  "set_stat_field t v \<equiv>
     upd_thread t (th_stat_update (\<lambda>st. v OR (st AND NOT RT_THREAD_STAT_MASK)))"

abbreviation prio_of :: "kstate \<Rightarrow> ptr \<Rightarrow> nat" where
  "prio_of s t \<equiv> unat (th_current_priority (threads s t))"

text \<open>\<open>RT_DEBUG_NOT_IN_INTERRUPT\<close> and \<open>RT_DEBUG_IN_THREAD_CONTEXT\<close> of rtdebug.h.\<close>

definition not_in_interrupt :: "kstate \<Rightarrow> unit option" where
  "not_in_interrupt s = RT_ASSERT (interrupt_nest s = 0)"

definition in_thread_context :: "kstate \<Rightarrow> unit option" where
  "in_thread_context s = do {
     RT_ASSERT (current_thread s \<noteq> RT_NULL);
     not_in_interrupt s
   }"

lemma not_in_interrupt_bind [simp]:
  "not_in_interrupt s \<bind> f = (if interrupt_nest s = 0 then f () else None)"
  by (simp add: not_in_interrupt_def)

lemma in_thread_context_bind [simp]:
  "in_thread_context s \<bind> f =
     (if current_thread s \<noteq> RT_NULL \<and> interrupt_nest s = 0 then f () else None)"
  by (simp add: in_thread_context_def not_in_interrupt_def)

subsection \<open>Alignment\<close>

text \<open>\<open>RT_ALIGN\<close> to the 4 bytes of \<open>RT_ALIGN_SIZE\<close>, and \<open>RT_ALIGN_DOWN\<close> to it.\<close>

definition RT_ALIGN4 :: "u32 \<Rightarrow> u32" where
  "RT_ALIGN4 sz = (sz + 4 - 1) AND NOT (4 - 1)"

definition RT_ALIGN_DOWN4 :: "u32 \<Rightarrow> u32" where
  "RT_ALIGN_DOWN4 sz = sz AND NOT (4 - 1)"

lemma align_dvd: "4 dvd unat (x AND NOT 3 :: u32)"
proof -
  have "(x AND NOT 3) AND 3 = 0" by (simp add: and.assoc)
  then have "take_bit 2 (x AND NOT 3) = 0" by (simp add: take_bit_eq_mask mask_numeral)
  then have "take_bit 2 (unat (x AND NOT 3)) = 0"
    by (metis unsigned_take_bit_eq unsigned_0)
  then show ?thesis by (simp add: take_bit_eq_mod dvd_eq_mod_eq_0)
qed

lemma align_down: "unat (x AND NOT 3 :: u32) = unat x - unat x mod 4"
proof -
  have "x = (x AND NOT 3) + (x AND 3)"
    by (subst disjunctive_add_eq_or) (simp_all add: and.assoc and.left_commute flip: bit.conj_disj_distrib)
  then have "x AND NOT 3 = x - (x AND 3)" by (metis add_diff_cancel_right')
  moreover have "unat (x AND 3) = unat x mod 4"
    using take_bit_eq_mask [of 2 "unat x"] by (simp add: unsigned_and_eq take_bit_eq_mod mask_eq_exp_minus_1)
  ultimately show ?thesis by (simp add: unat_sub word_le_nat_alt)
qed

lemma RT_ALIGN4_eq: "RT_ALIGN4 n = (n + 3) AND NOT 3"
  by (simp add: RT_ALIGN4_def add_diff_eq [symmetric])

lemma RT_ALIGN4_dvd: "4 dvd unat (RT_ALIGN4 n)"
  unfolding RT_ALIGN4_eq by (rule align_dvd)

subsection \<open>The states of a thread\<close>

lemma stat_field_mask [simp]:
  "(RT_THREAD_READY OR (x AND NOT RT_THREAD_STAT_MASK)) AND RT_THREAD_STAT_MASK = RT_THREAD_READY"
  "(RT_THREAD_RUNNING OR (x AND NOT RT_THREAD_STAT_MASK)) AND RT_THREAD_STAT_MASK = RT_THREAD_RUNNING"
  "(RT_THREAD_SUSPEND OR (x AND NOT RT_THREAD_STAT_MASK)) AND RT_THREAD_STAT_MASK = RT_THREAD_SUSPEND"
  by (rule field_set_get; simp add: stat_defs RT_THREAD_STAT_MASK_def)+

lemma stat_masked [simp]:
  "RT_THREAD_INIT AND RT_THREAD_STAT_MASK = RT_THREAD_INIT"
  "RT_THREAD_READY AND RT_THREAD_STAT_MASK = RT_THREAD_READY"
  "RT_THREAD_SUSPEND AND RT_THREAD_STAT_MASK = RT_THREAD_SUSPEND"
  "RT_THREAD_RUNNING AND RT_THREAD_STAT_MASK = RT_THREAD_RUNNING"
  "RT_THREAD_CLOSE AND RT_THREAD_STAT_MASK = RT_THREAD_CLOSE"
  by (simp_all add: stat_defs RT_THREAD_STAT_MASK_def)

lemma stat_distinct [simp]:
  "RT_THREAD_INIT \<noteq> RT_THREAD_READY" "RT_THREAD_READY \<noteq> RT_THREAD_INIT"
  "RT_THREAD_INIT \<noteq> RT_THREAD_SUSPEND" "RT_THREAD_SUSPEND \<noteq> RT_THREAD_INIT"
  "RT_THREAD_INIT \<noteq> RT_THREAD_RUNNING" "RT_THREAD_RUNNING \<noteq> RT_THREAD_INIT"
  "RT_THREAD_INIT \<noteq> RT_THREAD_CLOSE" "RT_THREAD_CLOSE \<noteq> RT_THREAD_INIT"
  "RT_THREAD_READY \<noteq> RT_THREAD_SUSPEND" "RT_THREAD_SUSPEND \<noteq> RT_THREAD_READY"
  "RT_THREAD_READY \<noteq> RT_THREAD_RUNNING" "RT_THREAD_RUNNING \<noteq> RT_THREAD_READY"
  "RT_THREAD_READY \<noteq> RT_THREAD_CLOSE" "RT_THREAD_CLOSE \<noteq> RT_THREAD_READY"
  "RT_THREAD_SUSPEND \<noteq> RT_THREAD_RUNNING" "RT_THREAD_RUNNING \<noteq> RT_THREAD_SUSPEND"
  "RT_THREAD_SUSPEND \<noteq> RT_THREAD_CLOSE" "RT_THREAD_CLOSE \<noteq> RT_THREAD_SUSPEND"
  "RT_THREAD_RUNNING \<noteq> RT_THREAD_CLOSE" "RT_THREAD_CLOSE \<noteq> RT_THREAD_RUNNING"
  by (simp_all add: stat_defs)

end
