(* ===== verification/RT_Ffs.thy ===== *)
theory RT_Ffs
  imports RT_Prelude
begin

text \<open>
  \<open>__rt_ffs\<close> of \<^verbatim>\<open>rt-thread/src/kservice.c\<close>, the software version that the build uses
  (\<open>RT_USING_CPU_FFS\<close> is not set): four lookups of a byte in a table of the lowest set bit.
  The scheduler finds the most urgent ready priority with it.
\<close>

definition lowest_bit_bitmap :: "nat list" where
  "lowest_bit_bitmap =
     [0, 0, 1, 0, 2, 0, 1, 0, 3, 0, 1, 0, 2, 0, 1, 0,
      4, 0, 1, 0, 2, 0, 1, 0, 3, 0, 1, 0, 2, 0, 1, 0,
      5, 0, 1, 0, 2, 0, 1, 0, 3, 0, 1, 0, 2, 0, 1, 0,
      4, 0, 1, 0, 2, 0, 1, 0, 3, 0, 1, 0, 2, 0, 1, 0,
      6, 0, 1, 0, 2, 0, 1, 0, 3, 0, 1, 0, 2, 0, 1, 0,
      4, 0, 1, 0, 2, 0, 1, 0, 3, 0, 1, 0, 2, 0, 1, 0,
      5, 0, 1, 0, 2, 0, 1, 0, 3, 0, 1, 0, 2, 0, 1, 0,
      4, 0, 1, 0, 2, 0, 1, 0, 3, 0, 1, 0, 2, 0, 1, 0,
      7, 0, 1, 0, 2, 0, 1, 0, 3, 0, 1, 0, 2, 0, 1, 0,
      4, 0, 1, 0, 2, 0, 1, 0, 3, 0, 1, 0, 2, 0, 1, 0,
      5, 0, 1, 0, 2, 0, 1, 0, 3, 0, 1, 0, 2, 0, 1, 0,
      4, 0, 1, 0, 2, 0, 1, 0, 3, 0, 1, 0, 2, 0, 1, 0,
      6, 0, 1, 0, 2, 0, 1, 0, 3, 0, 1, 0, 2, 0, 1, 0,
      4, 0, 1, 0, 2, 0, 1, 0, 3, 0, 1, 0, 2, 0, 1, 0,
      5, 0, 1, 0, 2, 0, 1, 0, 3, 0, 1, 0, 2, 0, 1, 0,
      4, 0, 1, 0, 2, 0, 1, 0, 3, 0, 1, 0, 2, 0, 1, 0]"

definition rt_ffs :: "u32 \<Rightarrow> nat" where
  "rt_ffs value =
     (if value = 0 then 0
      else if value AND 0xff \<noteq> 0
      then lowest_bit_bitmap ! unat (value AND 0xff) + 1
      else if value AND 0xff00 \<noteq> 0
      then lowest_bit_bitmap ! unat (drop_bit 8 (value AND 0xff00)) + 9
      else if value AND 0xff0000 \<noteq> 0
      then lowest_bit_bitmap ! unat (drop_bit 16 (value AND 0xff0000)) + 17
      else lowest_bit_bitmap ! unat (drop_bit 24 (value AND 0xff000000)) + 25)"

text \<open>
  The table is the ruler sequence: the second half of every power of two repeats the first half,
  with the next bit number at its start.
\<close>

lemma length_bitmap [simp]: "length lowest_bit_bitmap = 256"
  by (simp add: lowest_bit_bitmap_def)

fun ruler :: "nat \<Rightarrow> nat list" where
  "ruler 0 = [0]"
| "ruler (Suc k) = ruler k @ k # tl (ruler k)"

lemma bitmap_ruler: "lowest_bit_bitmap = ruler 8"
  by code_simp

lemma length_ruler [simp]: "length (ruler k) = 2 ^ k"
  by (induction k) auto

lemma ruler_entry:
  "0 < b \<Longrightarrow> b < 2 ^ k \<Longrightarrow>
     bit b (ruler k ! b) \<and> ruler k ! b < k \<and> (\<forall>j < ruler k ! b. \<not> bit b j)"
proof (induction k arbitrary: b)
  case 0
  then show ?case by simp
next
  case (Suc k)
  show ?case
  proof (cases "b < 2 ^ k")
    case True
    with Suc show ?thesis by (auto simp: nth_append less_Suc_eq)
  next
    case False
    then obtain c where b: "b = 2 ^ k + c" and c: "c < 2 ^ k"
      using Suc.prems le_Suc_ex [of "2 ^ k" b] by auto
    show ?thesis
    proof (cases "c = 0")
      case True
      then show ?thesis using b by (auto simp: nth_append bit_exp_iff)
    next
      case False
      have e: "ruler (Suc k) ! b = ruler k ! c"
        using b c False by (cases c) (auto simp: nth_append nth_tl)
      have "bit b j \<longleftrightarrow> bit c j" if "j < k" for j
      proof -
        have "take_bit k b = take_bit k c" by (simp add: b take_bit_eq_mod)
        then show ?thesis using that by (metis bit_take_bit_iff)
      qed
      then show ?thesis using Suc.IH [of c] c False e by auto
    qed
  qed
qed

lemma bitmap_entry:
  assumes "0 < b" "b < 256"
  shows "bit b (lowest_bit_bitmap ! b)" "\<And>j. j < lowest_bit_bitmap ! b \<Longrightarrow> \<not> bit b j"
    "lowest_bit_bitmap ! b < 8"
  using ruler_entry [of b 8] assms by (simp_all add: bitmap_ruler)

lemma bit_ff: "bit (0xff :: u32) j \<longleftrightarrow> j < 8"
proof -
  have "(0xff :: u32) = mask 8" by (simp add: mask_eq_exp_minus_1)
  then show ?thesis by (simp only: bit_mask_iff) auto
qed

text \<open>One byte of the word, at offset \<open>k\<close>.\<close>

lemma byte_lowest:
  fixes v :: u32
  assumes "k + 8 \<le> 32" and m: "m = push_bit k (0xff :: u32)" and nz: "v AND m \<noteq> 0"
  defines "b \<equiv> unat (drop_bit k (v AND m))"
  shows "0 < b" "b < 256" "bit v (lowest_bit_bitmap ! b + k)"
    "\<And>j. k \<le> j \<Longrightarrow> j < lowest_bit_bitmap ! b + k \<Longrightarrow> \<not> bit v j"
proof -
  have mb: "bit m i \<longleftrightarrow> k \<le> i \<and> i < k + 8" for i
    using assms(1) bit_ff [of "i - k"] unfolding m by (auto simp: bit_push_bit_iff)
  have bb: "bit b i \<longleftrightarrow> i < 8 \<and> bit v (k + i)" for i
    unfolding b_def by (auto simp: bit_unsigned_iff bit_drop_bit_eq bit_and_iff mb
        dest: bit_imp_le_length)
  show lt: "b < 256"
  proof -
    have "take_bit 8 b = b"
      by (rule bit_eqI) (auto simp: bit_take_bit_iff bb)
    then show ?thesis using take_bit_nat_less_exp [of 8 b] by simp
  qed
  obtain i where "bit (v AND m) i"
    using nz by (auto simp: word_eq_0_iff_bit)
  then have i: "bit v i" "k \<le> i" "i < k + 8" by (auto simp: bit_and_iff mb)
  then have "bit b (i - k)" by (simp add: bb)
  then show pos: "0 < b" by (metis bit_0_eq bot_apply bot_bool_def gr0I)
  show "bit v (lowest_bit_bitmap ! b + k)"
    using bitmap_entry(1) [OF pos lt] by (simp add: bb add.commute)
  fix j assume "k \<le> j" "j < lowest_bit_bitmap ! b + k"
  then have "\<not> bit b (j - k)" using bitmap_entry(2) [OF pos lt, of "j - k"] by auto
  moreover have "lowest_bit_bitmap ! b < 8" by (rule bitmap_entry [OF pos lt])
  ultimately show "\<not> bit v j" using \<open>k \<le> j\<close> \<open>j < lowest_bit_bitmap ! b + k\<close> by (auto simp: bb)
qed

lemma byte_zero:
  fixes v :: u32
  assumes "k + 8 \<le> 32" "v AND push_bit k (0xff :: u32) = 0" "k \<le> j" "j < k + 8"
  shows "\<not> bit v j"
proof
  assume "bit v j"
  then have "bit (v AND push_bit k (0xff :: u32)) j"
    using assms(1,3,4) bit_ff [of "j - k"] by (simp add: bit_and_iff bit_push_bit_iff)
  with assms(2) show False by simp
qed

lemma u32_bytes:
  "(0xff :: u32) = push_bit 0 0xff" "(0xff00 :: u32) = push_bit 8 0xff"
  "(0xff0000 :: u32) = push_bit 16 0xff" "(0xff000000 :: u32) = push_bit 24 0xff"
  by simp_all

lemma rt_ffs_zero [simp]: "rt_ffs 0 = 0"
  by (simp add: rt_ffs_def)

lemma low_zero:
  fixes v :: u32
  shows "v AND 0xff = 0 \<Longrightarrow> j < 8 \<Longrightarrow> \<not> bit v j"
    and "v AND 0xff00 = 0 \<Longrightarrow> 8 \<le> j \<Longrightarrow> j < 16 \<Longrightarrow> \<not> bit v j"
    and "v AND 0xff0000 = 0 \<Longrightarrow> 16 \<le> j \<Longrightarrow> j < 24 \<Longrightarrow> \<not> bit v j"
    and "v AND 0xff000000 = 0 \<Longrightarrow> 24 \<le> j \<Longrightarrow> j < 32 \<Longrightarrow> \<not> bit v j"
  using byte_zero [of 0 v j] byte_zero [of 8 v j] byte_zero [of 16 v j] byte_zero [of 24 v j]
  by simp_all

lemma lowest_from:
  fixes v :: u32
  assumes "bit v (t + k)" "\<And>j. k \<le> j \<Longrightarrow> j < t + k \<Longrightarrow> \<not> bit v j"
    "\<And>j. j < k \<Longrightarrow> \<not> bit v j" "n = t + Suc k"
  shows "0 < n \<and> bit v (n - 1) \<and> (\<forall>j < n - 1. \<not> bit v j)"
proof -
  have "\<not> bit v j" if "j < t + k" for j
    using assms(2,3) that by (cases "j < k") auto
  then show ?thesis using assms(1,4) by simp
qed

lemma rt_ffs_correct:
  assumes "v \<noteq> 0"
  shows "0 < rt_ffs v \<and> bit v (rt_ffs v - 1) \<and> (\<forall>j < rt_ffs v - 1. \<not> bit v j)"
proof -
  consider "v AND 0xff \<noteq> 0"
    | "v AND 0xff = 0" "v AND 0xff00 \<noteq> 0"
    | "v AND 0xff = 0" "v AND 0xff00 = 0" "v AND 0xff0000 \<noteq> 0"
    | "v AND 0xff = 0" "v AND 0xff00 = 0" "v AND 0xff0000 = 0"
    by blast
  then show ?thesis
  proof cases
    case 1
    note b = byte_lowest [of 0 "0xff" v, OF _ u32_bytes(1) 1]
    show ?thesis
      by (rule lowest_from [of v _ 0, OF b(3,4)]) (use assms 1 in \<open>simp_all add: rt_ffs_def\<close>)
  next
    case 2
    note b = byte_lowest [of 8 "0xff00" v, OF _ u32_bytes(2) 2(2)]
    show ?thesis
      by (rule lowest_from [of v _ 8, OF b(3,4)])
        (use assms 2 low_zero(1) [OF 2(1)] in \<open>simp_all add: rt_ffs_def\<close>)
  next
    case 3
    note b = byte_lowest [of 16 "0xff0000" v, OF _ u32_bytes(3) 3(3)]
    have "\<not> bit v j" if "j < 16" for j
      using low_zero(1) [OF 3(1), of j] low_zero(2) [OF 3(2), of j] that by linarith
    then show ?thesis
      by (intro lowest_from [of v _ 16, OF b(3,4)]) (use assms 3 in \<open>simp_all add: rt_ffs_def\<close>)
  next
    case 4
    have low: "\<not> bit v j" if "j < 24" for j
      using low_zero(1) [OF 4(1), of j] low_zero(2) [OF 4(2), of j] low_zero(3) [OF 4(3), of j] that
      by linarith
    have "v AND 0xff000000 \<noteq> 0"
    proof
      assume "v AND 0xff000000 = 0"
      then have "\<not> bit v j" if "j < 32" for j
        using low [of j] low_zero(4) [of v j] that by linarith
      then show False using assms by (simp add: word_eq_0_iff_bit)
    qed
    note b = byte_lowest [of 24 "0xff000000" v, OF _ u32_bytes(4) this]
    show ?thesis
      by (rule lowest_from [of v _ 24, OF b(3,4)]) (use assms 4 low in \<open>simp_all add: rt_ffs_def\<close>)
  qed
qed

text \<open>So the result is one more than the number of trailing zeros.\<close>

lemma rt_ffs_least: "v \<noteq> 0 \<Longrightarrow> rt_ffs v = Suc (LEAST i. bit v i)"
proof -
  assume "v \<noteq> 0"
  note c = rt_ffs_correct [OF this]
  have "(LEAST i. bit v i) = rt_ffs v - 1"
    by (rule Least_equality) (use c in \<open>auto simp: not_less [symmetric]\<close>)
  then show ?thesis using c by simp
qed

end
