(* ===== verification/RT_Scheduler.thy ===== *)
theory RT_Scheduler
  imports RT_State RT_Ffs
begin

text \<open>
  The priority scheduler, \<^verbatim>\<open>rt-thread/src/scheduler.c\<close> for one core and 32 priorities: a list
  of ready threads for each priority, a bit per non-empty list, and the running thread, which is
  on no list.  \<open>rt_schedule\<close> ends in a context switch to \<open>rt_current_thread\<close>; interrupts are off
  while it runs, so one call is one step.
\<close>

subsection \<open>Stack check\<close>

text \<open>
  A broken stack is reported, and the loop \<open>while (level);\<close> does not end: the check runs with
  interrupts off, so the saved level is not zero.
\<close>

definition rt_scheduler_stack_check :: "ptr \<Rightarrow> kstate \<Rightarrow> unit option" where
  "rt_scheduler_stack_check thread s = do {
     RT_ASSERT (thread \<noteq> RT_NULL);
     let th = threads s thread;
     if ram s (th_stack_addr th) \<noteq> 0x23 \<or>
        th_sp th \<le> th_stack_addr th \<or>
        th_sp th > th_stack_addr th + th_stack_size th
     then None
     else Some ()
   }"

subsection \<open>The ready table\<close>

definition get_highest_priority_thread :: "kstate \<Rightarrow> (ptr \<times> nat) option" where
  "get_highest_priority_thread s =
     (if ready_group s = 0 then None
      else let highest_ready_priority = rt_ffs (ready_group s) - 1
           in case tlists s (Ready highest_ready_priority) of
                [] \<Rightarrow> None
              | thread # _ \<Rightarrow> Some (thread, highest_ready_priority))"

definition rt_schedule_insert_thread :: "ptr \<Rightarrow> kstate \<Rightarrow> kstate option" where
  "rt_schedule_insert_thread thread s = do {
     RT_ASSERT (thread \<noteq> RT_NULL);
     if thread = current_thread s
     then Some (set_stat_field thread RT_THREAD_RUNNING s)
     else if prio_of s thread < RT_THREAD_PRIORITY_MAX
     then Some
       (ready_group_update (\<lambda>g. g OR th_number_mask (threads s thread))
         (tlists_update (seq_insert_before_head (Ready (prio_of s thread)) thread)
           (set_stat_field thread RT_THREAD_READY s)))
     else None
   }"

definition rt_schedule_remove_thread :: "ptr \<Rightarrow> kstate \<Rightarrow> kstate option" where
  "rt_schedule_remove_thread thread s = do {
     RT_ASSERT (thread \<noteq> RT_NULL);
     let s1 = tlists_update (seq_remove thread) s;
     if prio_of s thread < RT_THREAD_PRIORITY_MAX
     then Some
       (if tlists s1 (Ready (prio_of s thread)) = []
        then ready_group_update (\<lambda>g. g AND NOT (th_number_mask (threads s thread))) s1
        else s1)
     else None
   }"

subsection \<open>Scheduling\<close>

definition rt_system_scheduler_init :: "kstate \<Rightarrow> kstate" where
  "rt_system_scheduler_init s =
     s\<lparr>lock_nest := 0,
       tlists := (\<lambda>h. case h of
           Ready i \<Rightarrow> if i < RT_THREAD_PRIORITY_MAX then [] else tlists s h
         | Defunct \<Rightarrow> []
         | _ \<Rightarrow> tlists s h),
       ready_group := 0\<rparr>"

definition rt_system_scheduler_start :: "kstate \<Rightarrow> kstate option" where
  "rt_system_scheduler_start s = do {
     (to_thread, highest_ready_priority) \<leftarrow> get_highest_priority_thread s;
     let s1 = s\<lparr>current_thread := to_thread\<rparr>;
     s2 \<leftarrow> rt_schedule_remove_thread to_thread s1;
     Some (set_stat to_thread RT_THREAD_RUNNING s2)
   }"

text \<open>The branch that leaves the running thread, lines 444 to 509, and the whole function.\<close>

definition schedule_switch :: "ptr \<Rightarrow> nat \<Rightarrow> bool \<Rightarrow> kstate \<Rightarrow> kstate option" where
  "schedule_switch to_thread highest_ready_priority need_insert_from_thread s = do {
     let from_thread = current_thread s;
     let s1 = s\<lparr>current_prio := of_nat highest_ready_priority, current_thread := to_thread\<rparr>;
     s2 \<leftarrow> (if need_insert_from_thread then rt_schedule_insert_thread from_thread s1 else Some s1);
     s3 \<leftarrow> rt_schedule_remove_thread to_thread s2;
     let s4 = set_stat_field to_thread RT_THREAD_RUNNING s3;
     rt_scheduler_stack_check to_thread s4;
     Some s4
   }"

definition rt_schedule :: "kstate \<Rightarrow> kstate option" where
  "rt_schedule s =
     (if lock_nest s = 0 then
        if ready_group s \<noteq> 0 then do {
          (first, highest_ready_priority) \<leftarrow> get_highest_priority_thread s;
          let current = current_thread s;
          RT_ASSERT (current \<noteq> RT_NULL);
          let running = (stat_of s current = RT_THREAD_RUNNING);
          let keep = (running \<and> prio_of s current < highest_ready_priority);
          let to_thread = (if keep then current else first);
          if to_thread \<noteq> current
          then schedule_switch to_thread highest_ready_priority (running \<and> \<not> keep) s
          else do {
            s1 \<leftarrow> rt_schedule_remove_thread current s;
            Some (set_stat_field current RT_THREAD_RUNNING s1)
          }
        }
        else Some s
      else Some s)"

text \<open>\<open>rt_scheduler_lock_nest\<close> is an \<open>rt_int16_t\<close>; the comparison of \<open>rt_exit_critical\<close> is signed.\<close>

definition rt_enter_critical :: "kstate \<Rightarrow> kstate" where
  "rt_enter_critical s = s\<lparr>lock_nest := lock_nest s + 1\<rparr>"

definition rt_exit_critical :: "kstate \<Rightarrow> kstate option" where
  "rt_exit_critical s =
     (let s1 = s\<lparr>lock_nest := lock_nest s - 1\<rparr>
      in if sint (lock_nest s1) \<le> 0
         then let s2 = s1\<lparr>lock_nest := 0\<rparr>
              in if current_thread s2 \<noteq> RT_NULL then rt_schedule s2 else Some s2
         else Some s1)"

definition rt_critical_level :: "kstate \<Rightarrow> u16" where
  "rt_critical_level s = lock_nest s"

subsection \<open>Invariant\<close>

text \<open>
  A thread that was started: its priority is in the table, and its mask is the bit of its
  priority.
\<close>

definition mask_ok :: "kstate \<Rightarrow> ptr \<Rightarrow> bool" where
  "mask_ok s t \<longleftrightarrow> t \<noteq> RT_NULL \<and> prio_of s t < RT_THREAD_PRIORITY_MAX \<and>
     th_number_mask (threads s t) = push_bit (prio_of s t) 1"

text \<open>No thread is linked twice: the \<open>tlist\<close> node of a thread is on at most one list.\<close>

definition tlists_ok :: "kstate \<Rightarrow> bool" where
  "tlists_ok s \<longleftrightarrow> (\<forall>h. distinct (tlists s h)) \<and>
     (\<forall>h h' t. t \<in> set (tlists s h) \<longrightarrow> t \<in> set (tlists s h') \<longrightarrow> h = h')"

definition ready_ok :: "kstate \<Rightarrow> bool" where
  "ready_ok s \<longleftrightarrow>
     (\<forall>p. bit (ready_group s) p \<longleftrightarrow> tlists s (Ready p) \<noteq> []) \<and>
     (\<forall>p t. t \<in> set (tlists s (Ready p)) \<longrightarrow>
        mask_ok s t \<and> prio_of s t = p \<and> stat_of s t = RT_THREAD_READY)"

definition table_inv :: "kstate \<Rightarrow> bool" where
  "table_inv s \<longleftrightarrow> tlists_ok s \<and> ready_ok s"

definition sched_inv :: "kstate \<Rightarrow> bool" where
  "sched_inv s \<longleftrightarrow> table_inv s \<and> (\<forall>p. current_thread s \<notin> set (tlists s (Ready p)))"

lemma tlists_okD:
  assumes "tlists_ok s"
  shows "distinct (tlists s h)"
    "t \<in> set (tlists s h) \<Longrightarrow> t \<in> set (tlists s h') \<Longrightarrow> h = h'"
  using assms unfolding tlists_ok_def by blast+

lemma ready_okD:
  assumes "ready_ok s"
  shows "bit (ready_group s) p \<longleftrightarrow> tlists s (Ready p) \<noteq> []"
    "t \<in> set (tlists s (Ready p)) \<Longrightarrow> mask_ok s t"
    "t \<in> set (tlists s (Ready p)) \<Longrightarrow> prio_of s t = p"
    "t \<in> set (tlists s (Ready p)) \<Longrightarrow> stat_of s t = RT_THREAD_READY"
  using assms unfolding ready_ok_def by blast+

lemma ready_prio_bound: "ready_ok s \<Longrightarrow> t \<in> set (tlists s (Ready p)) \<Longrightarrow> p < 32"
  using ready_okD(2,3) [of s t p] by (auto simp: mask_ok_def RT_THREAD_PRIORITY_MAX_def)

lemma mask_okD:
  assumes "mask_ok s t"
  shows "t \<noteq> RT_NULL" "prio_of s t < RT_THREAD_PRIORITY_MAX" "prio_of s t < 32"
    "th_number_mask (threads s t) = push_bit (prio_of s t) 1"
  using assms by (auto simp: mask_ok_def RT_THREAD_PRIORITY_MAX_def)

text \<open>The highest ready priority is the least index of a non-empty list.\<close>

lemma get_highest_correct:
  assumes "ready_ok s" "ready_group s \<noteq> 0"
  shows "\<exists>t ts p. get_highest_priority_thread s = Some (t, p) \<and>
    tlists s (Ready p) = t # ts \<and> (\<forall>q < p. tlists s (Ready q) = [])"
proof -
  let ?p = "rt_ffs (ready_group s) - 1"
  have b: "bit (ready_group s) ?p" and l: "\<forall>q < ?p. \<not> bit (ready_group s) q"
    using rt_ffs_correct [OF assms(2)] by auto
  then obtain t ts where "tlists s (Ready ?p) = t # ts"
    using ready_okD(1) [OF assms(1)] by (meson neq_Nil_conv)
  moreover have "\<forall>q < ?p. tlists s (Ready q) = []"
    using l ready_okD(1) [OF assms(1)] by blast
  ultimately show ?thesis
    using assms(2) by (auto simp: get_highest_priority_thread_def Let_def)
qed

lemma group_zero: "ready_ok s \<Longrightarrow> ready_group s = 0 \<longleftrightarrow> (\<forall>p. tlists s (Ready p) = [])"
  using ready_okD(1) [of s] by (metis bit_0_eq bot_apply bot_bool_def bit_word_eqI)

subsection \<open>Linking and unlinking a thread\<close>

lemma bit_set_mask:
  "p < 32 \<Longrightarrow> bit (g OR (2 :: u32) ^ p) q \<longleftrightarrow> bit g q \<or> q = p"
  by (auto simp: bit_or_iff bit_exp_iff)

lemma bit_clear_mask:
  "bit (g AND NOT ((2 :: u32) ^ p)) q \<longleftrightarrow> bit g q \<and> q \<noteq> p"
  by (auto simp: bit_and_iff bit_not_iff bit_exp_iff dest: bit_imp_le_length)

lemma insert_thread_eq:
  assumes "t \<noteq> RT_NULL" "t \<noteq> current_thread s" "prio_of s t < RT_THREAD_PRIORITY_MAX"
  shows "rt_schedule_insert_thread t s = Some
    (ready_group_update (\<lambda>g. g OR th_number_mask (threads s t))
      (tlists_update (seq_insert_before_head (Ready (prio_of s t)) t)
        (set_stat_field t RT_THREAD_READY s)))"
  using assms by (simp add: rt_schedule_insert_thread_def)

lemma insert_thread_current:
  "current_thread s \<noteq> RT_NULL \<Longrightarrow> rt_schedule_insert_thread (current_thread s) s =
     Some (set_stat_field (current_thread s) RT_THREAD_RUNNING s)"
  by (simp add: rt_schedule_insert_thread_def)

lemma insert_thread_inv:
  assumes inv: "table_inv s" and m: "mask_ok s t" and nc: "t \<noteq> current_thread s"
    and free: "\<not> linked (tlists s) t"
  shows "\<exists>s'. rt_schedule_insert_thread t s = Some s' \<and> table_inv s' \<and>
    tlists s' = seq_insert_before_head (Ready (prio_of s t)) t (tlists s) \<and>
    threads s' = (threads s)(t := (threads s t)
      \<lparr>th_stat := RT_THREAD_READY OR (th_stat (threads s t) AND NOT RT_THREAD_STAT_MASK)\<rparr>)"
proof -
  note m' = mask_okD [OF m]
  have free': "t \<notin> set (tlists s h)" for h using free by (auto simp: linked_def)
  note r = inv [unfolded table_inv_def, THEN conjunct2]
  define s' where "s' = ready_group_update (\<lambda>g. g OR th_number_mask (threads s t))
      (tlists_update (seq_insert_before_head (Ready (prio_of s t)) t)
        (set_stat_field t RT_THREAD_READY s))"
  have e: "rt_schedule_insert_thread t s = Some s'"
    using m' nc by (simp add: insert_thread_eq s'_def)
  have tl: "tlists_ok s'"
    using inv free' unfolding table_inv_def tlists_ok_def s'_def seq_insert_before_head_def
    by (auto split: if_splits)
  have "ready_ok s'"
    unfolding ready_ok_def
  proof (intro conjI allI impI)
    fix p
    show "bit (ready_group s') p = (tlists s' (Ready p) \<noteq> [])"
      using ready_okD(1) [OF r, of p] m'(3,4)
      by (auto simp: s'_def seq_insert_before_head_def bit_set_mask)
  next
    fix p u assume u: "u \<in> set (tlists s' (Ready p))"
    show "mask_ok s' u" "prio_of s' u = p" "stat_of s' u = RT_THREAD_READY"
      using u ready_okD(2-4) [OF r, of u p] free' [of "Ready p"] m nc
      by (auto simp: s'_def seq_insert_before_head_def mask_ok_def split: if_splits)
  qed
  with e tl show ?thesis by (auto simp: table_inv_def s'_def)
qed

lemma remove_thread_eq:
  assumes "mask_ok s t"
  shows "rt_schedule_remove_thread t s = Some
    (s\<lparr>tlists := seq_remove t (tlists s),
       ready_group := (if removeAll t (tlists s (Ready (prio_of s t))) = []
         then ready_group s AND NOT (push_bit (prio_of s t) 1) else ready_group s)\<rparr>)"
  using mask_okD [OF assms] by (simp add: rt_schedule_remove_thread_def)

lemma remove_thread_inv:
  assumes inv: "table_inv s" and m: "mask_ok s t"
  shows "\<exists>s'. rt_schedule_remove_thread t s = Some s' \<and> table_inv s' \<and>
    tlists s' = seq_remove t (tlists s) \<and> \<not> linked (tlists s') t \<and>
    (\<exists>g. s' = s\<lparr>tlists := seq_remove t (tlists s), ready_group := g\<rparr>)"
proof -
  note r = inv [unfolded table_inv_def, THEN conjunct2]
  define g where "g = (if removeAll t (tlists s (Ready (prio_of s t))) = []
    then ready_group s AND NOT (push_bit (prio_of s t) 1) else ready_group s)"
  define s' where "s' = s\<lparr>tlists := seq_remove t (tlists s), ready_group := g\<rparr>"
  have e: "rt_schedule_remove_thread t s = Some s'"
    using m by (simp add: remove_thread_eq s'_def g_def)
  have tl: "tlists_ok s'"
    using inv unfolding table_inv_def tlists_ok_def s'_def by (auto simp: distinct_removeAll)
  have other: "t \<notin> set (tlists s (Ready p))" if "p \<noteq> prio_of s t" for p
    using ready_okD(3) [OF r] that by auto
  have "ready_ok s'"
    unfolding ready_ok_def
  proof (intro conjI allI impI)
    fix p
    show "bit (ready_group s') p = (tlists s' (Ready p) \<noteq> [])"
    proof (cases "p = prio_of s t")
      case True
      have "bit (ready_group s) p" if "removeAll t (tlists s (Ready p)) \<noteq> []"
        using that ready_okD(1) [OF r, of p] by auto
      then show ?thesis using True by (auto simp: s'_def g_def bit_clear_mask)
    next
      case False
      then show ?thesis
        using ready_okD(1) [OF r, of p] other [OF False] by (auto simp: s'_def g_def bit_clear_mask)
    qed
  next
    fix p u assume u: "u \<in> set (tlists s' (Ready p))"
    show "mask_ok s' u" "prio_of s' u = p" "stat_of s' u = RT_THREAD_READY"
      using u ready_okD(2-4) [OF r, of u p] by (auto simp: s'_def mask_ok_def)
  qed
  with e tl show ?thesis by (auto simp: table_inv_def s'_def linked_def)
qed

text \<open>The invariant looks only at part of the state.\<close>

lemma table_inv_cong:
  assumes inv: "table_inv s"
    and same: "tlists s' = tlists s" "ready_group s' = ready_group s"
    and th: "\<And>t p. t \<in> set (tlists s (Ready p)) \<Longrightarrow>
      th_stat (threads s' t) = th_stat (threads s t) \<and>
      th_current_priority (threads s' t) = th_current_priority (threads s t) \<and>
      th_number_mask (threads s' t) = th_number_mask (threads s t)"
  shows "table_inv s'"
proof -
  have "tlists_ok s'" using inv same by (simp add: table_inv_def tlists_ok_def)
  moreover have "ready_ok s'"
    unfolding ready_ok_def
  proof (intro conjI allI impI)
    note r = inv [unfolded table_inv_def, THEN conjunct2]
    show "bit (ready_group s') p = (tlists s' (Ready p) \<noteq> [])" for p
      using ready_okD(1) [OF r] same by simp
    fix p t assume "t \<in> set (tlists s' (Ready p))"
    then have t: "t \<in> set (tlists s (Ready p))" using same by simp
    show "mask_ok s' t" "prio_of s' t = p" "stat_of s' t = RT_THREAD_READY"
      using ready_okD(2-4) [OF r t] th [OF t] same by (simp_all add: mask_ok_def)
  qed
  ultimately show ?thesis by (simp add: table_inv_def)
qed

lemma sched_inv_cong:
  assumes "sched_inv s" "tlists s' = tlists s" "ready_group s' = ready_group s"
    "current_thread s' = current_thread s"
    "\<And>t p. t \<in> set (tlists s (Ready p)) \<Longrightarrow>
      th_stat (threads s' t) = th_stat (threads s t) \<and>
      th_current_priority (threads s' t) = th_current_priority (threads s t) \<and>
      th_number_mask (threads s' t) = th_number_mask (threads s t)"
  shows "sched_inv s'"
  using assms table_inv_cong [of s s'] by (simp add: sched_inv_def)

lemma sched_inv_thread_off_ready:
  assumes "sched_inv s" "\<And>p. t \<notin> set (tlists s (Ready p))"
  shows "sched_inv (upd_thread t f s)"
  using assms(1) by (rule sched_inv_cong) (use assms(2) in auto)

lemma ready_not_linked: "\<not> linked (tlists s) t \<Longrightarrow> t \<notin> set (tlists s (Ready p))"
  by (auto simp: linked_def)

subsection \<open>What the scheduler may change\<close>

text \<open>
  Only the scheduler's own variables and the status byte of threads: every other member and
  global keeps its value.
\<close>

definition thread_frame :: "rt_thread \<Rightarrow> rt_thread \<Rightarrow> bool" where
  "thread_frame a b \<longleftrightarrow>
     th_sp b = th_sp a \<and>
     th_entry b = th_entry a \<and>
     th_parameter b = th_parameter a \<and>
     th_stack_addr b = th_stack_addr a \<and>
     th_stack_size b = th_stack_size a \<and>
     th_error b = th_error a \<and>
     th_current_priority b = th_current_priority a \<and>
     th_init_priority b = th_init_priority a \<and>
     th_number_mask b = th_number_mask a \<and>
     th_event_set b = th_event_set a \<and>
     th_event_info b = th_event_info a \<and>
     th_init_tick b = th_init_tick a \<and>
     th_remaining_tick b = th_remaining_tick a \<and>
     th_cleanup b = th_cleanup a \<and>
     th_user_data b = th_user_data a"

definition sched_frame :: "kstate \<Rightarrow> kstate \<Rightarrow> bool" where
  "sched_frame s s' \<longleftrightarrow>
     objs s' = objs s \<and>
     timers s' = timers s \<and>
     sems s' = sems s \<and>
     mutexes s' = mutexes s \<and>
     events s' = events s \<and>
     mailboxes s' = mailboxes s \<and>
     msgqueues s' = msgqueues s \<and>
     trows s' = trows s \<and>
     object_lists s' = object_lists s \<and>
     lock_nest s' = lock_nest s \<and>
     interrupt_nest s' = interrupt_nest s \<and>
     tick s' = tick s \<and>
     ram s' = ram s \<and>
     (\<forall>t. thread_frame (threads s t) (threads s' t))"

lemma thread_frame_refl [simp]: "thread_frame a a"
  by (simp add: thread_frame_def)

lemma thread_frame_trans: "thread_frame a b \<Longrightarrow> thread_frame b c \<Longrightarrow> thread_frame a c"
  by (simp add: thread_frame_def)

lemma thread_frame_stat [simp]: "thread_frame a (th_stat_update f a)"
  by (simp add: thread_frame_def)

lemma sched_frame_refl [simp]: "sched_frame s s"
  by (simp add: sched_frame_def)

lemma sched_frame_trans:
  assumes "sched_frame s s'" "sched_frame s' s''"
  shows "sched_frame s s''"
proof -
  have "thread_frame (threads s t) (threads s'' t)" for t
    using assms by (meson sched_frame_def thread_frame_trans)
  then show ?thesis using assms by (simp add: sched_frame_def)
qed

lemma sched_frame_fields:
  assumes "sched_frame s s'"
  shows "objs s' = objs s"
    "timers s' = timers s"
    "sems s' = sems s"
    "mutexes s' = mutexes s"
    "events s' = events s"
    "mailboxes s' = mailboxes s"
    "msgqueues s' = msgqueues s"
    "trows s' = trows s"
    "object_lists s' = object_lists s"
    "lock_nest s' = lock_nest s"
    "interrupt_nest s' = interrupt_nest s"
    "tick s' = tick s"
    "ram s' = ram s"
  using assms by (simp_all add: sched_frame_def)

lemma sched_frame_thread:
  assumes "sched_frame s s'"
  shows "th_sp (threads s' t) = th_sp (threads s t)"
    "th_entry (threads s' t) = th_entry (threads s t)"
    "th_parameter (threads s' t) = th_parameter (threads s t)"
    "th_stack_addr (threads s' t) = th_stack_addr (threads s t)"
    "th_stack_size (threads s' t) = th_stack_size (threads s t)"
    "th_error (threads s' t) = th_error (threads s t)"
    "th_current_priority (threads s' t) = th_current_priority (threads s t)"
    "th_init_priority (threads s' t) = th_init_priority (threads s t)"
    "th_number_mask (threads s' t) = th_number_mask (threads s t)"
    "th_event_set (threads s' t) = th_event_set (threads s t)"
    "th_event_info (threads s' t) = th_event_info (threads s t)"
    "th_init_tick (threads s' t) = th_init_tick (threads s t)"
    "th_remaining_tick (threads s' t) = th_remaining_tick (threads s t)"
    "th_cleanup (threads s' t) = th_cleanup (threads s t)"
    "th_user_data (threads s' t) = th_user_data (threads s t)"
  using assms by (simp_all add: sched_frame_def thread_frame_def)

lemma sched_frame_insert:
  "rt_schedule_insert_thread t s = Some s' \<Longrightarrow> sched_frame s s'"
  by (auto simp: rt_schedule_insert_thread_def sched_frame_def split: if_splits)

lemma sched_frame_remove:
  "rt_schedule_remove_thread t s = Some s' \<Longrightarrow> sched_frame s s'"
  by (auto simp: rt_schedule_remove_thread_def sched_frame_def Let_def split: if_splits)

lemma sched_frame_set_stat [simp]: "sched_frame s (set_stat_field t v s)"
  by (simp add: sched_frame_def)

lemma sched_frame_current [simp]:
  "sched_frame s (s\<lparr>current_prio := p, current_thread := t\<rparr>)"
  by (simp add: sched_frame_def)

lemma sched_frame_switch:
  assumes "schedule_switch to p ins s = Some s'"
  shows "sched_frame s s'"
proof -
  let ?s1 = "s\<lparr>current_prio := of_nat p, current_thread := to\<rparr>"
  from assms obtain s2 s3 where
      s2: "(if ins then rt_schedule_insert_thread (current_thread s) ?s1 else Some ?s1) = Some s2"
      and s3: "rt_schedule_remove_thread to s2 = Some s3"
      and s': "s' = set_stat_field to RT_THREAD_RUNNING s3"
    by (auto simp: schedule_switch_def Let_def bind_eq_Some_conv)
  have "sched_frame ?s1 s2"
    using s2 by (auto split: if_splits dest: sched_frame_insert)
  then have "sched_frame s s2" by (rule sched_frame_trans [OF sched_frame_current])
  then show ?thesis
    unfolding s' by (rule sched_frame_trans [OF sched_frame_trans [OF _ sched_frame_remove [OF s3]]]) simp
qed

lemma sched_frame_schedule:
  assumes "rt_schedule s = Some s'"
  shows "sched_frame s s'"
proof (cases "lock_nest s = 0 \<and> ready_group s \<noteq> 0")
  case False
  with assms show ?thesis by (auto simp: rt_schedule_def split: if_splits)
next
  case True
  from assms True obtain first p where
    "get_highest_priority_thread s = Some (first, p)"
    by (auto simp: rt_schedule_def bind_eq_Some_conv)
  with assms True consider
      to ins where "schedule_switch to p ins s = Some s'"
    | s1 where "rt_schedule_remove_thread (current_thread s) s = Some s1"
        "s' = set_stat_field (current_thread s) RT_THREAD_RUNNING s1"
    by (simp add: rt_schedule_def Let_def bind_eq_Some_conv split: if_splits)
  then show ?thesis
    by cases (auto intro: sched_frame_switch sched_frame_trans [OF sched_frame_remove])
qed

subsection \<open>Correctness of \<open>rt_schedule\<close>\<close>

definition stack_ok :: "kstate \<Rightarrow> ptr \<Rightarrow> bool" where
  "stack_ok s t \<longleftrightarrow> ram s (th_stack_addr (threads s t)) = 0x23 \<and>
     th_stack_addr (threads s t) < th_sp (threads s t) \<and>
     th_sp (threads s t) \<le> th_stack_addr (threads s t) + th_stack_size (threads s t)"

lemma stack_check_ok: "stack_ok s t \<Longrightarrow> t \<noteq> RT_NULL \<Longrightarrow> rt_scheduler_stack_check t s = Some ()"
  by (auto simp: stack_ok_def rt_scheduler_stack_check_def Let_def)

lemma stack_ok_frame: "sched_frame s s' \<Longrightarrow> stack_ok s' t = stack_ok s t"
  by (simp add: stack_ok_def sched_frame_fields sched_frame_thread)

lemma mask_ok_frame: "sched_frame s s' \<Longrightarrow> mask_ok s' t = mask_ok s t"
  by (simp add: mask_ok_def sched_frame_thread)

text \<open>What a caller of \<open>rt_schedule\<close> in thread context relies on.\<close>

definition running_ok :: "kstate \<Rightarrow> bool" where
  "running_ok s \<longleftrightarrow> mask_ok s (current_thread s) \<and>
     (stat_of s (current_thread s) = RT_THREAD_RUNNING \<longrightarrow>
        \<not> linked (tlists s) (current_thread s) \<and> stack_ok s (current_thread s)) \<and>
     (\<forall>p. \<forall>t \<in> set (tlists s (Ready p)). stack_ok s t)"

lemma schedule_none: "lock_nest s \<noteq> 0 \<or> ready_group s = 0 \<Longrightarrow> rt_schedule s = Some s"
  by (auto simp: rt_schedule_def)

lemma schedule_keep:
  assumes inv: "sched_inv s" and run: "running_ok s" and unlocked: "lock_nest s = 0"
    and top: "get_highest_priority_thread s = Some (first, p)" "ready_group s \<noteq> 0"
    and keep: "stat_of s (current_thread s) = RT_THREAD_RUNNING" "prio_of s (current_thread s) < p"
  shows "\<exists>s'. rt_schedule s = Some s' \<and> sched_inv s' \<and> running_ok s' \<and>
    current_thread s' = current_thread s \<and> tlists s' = tlists s \<and>
    stat_of s' (current_thread s) = RT_THREAD_RUNNING"
proof -
  let ?c = "current_thread s"
  have m: "mask_ok s ?c" and free: "\<not> linked (tlists s) ?c"
    using run keep(1) by (auto simp: running_ok_def)
  have tinv: "table_inv s" using inv by (simp add: sched_inv_def)
  obtain s1 g where s1: "rt_schedule_remove_thread ?c s = Some s1" "table_inv s1"
    "tlists s1 = seq_remove ?c (tlists s)" "s1 = s\<lparr>tlists := seq_remove ?c (tlists s), ready_group := g\<rparr>"
    using remove_thread_inv [OF tinv m] by auto
  have tl: "tlists s1 = tlists s"
    using s1(3) free by (auto simp: seq_remove_def linked_def fun_eq_iff)
  define s' where "s' = set_stat_field ?c RT_THREAD_RUNNING s1"
  have e: "rt_schedule s = Some s'"
    using unlocked top keep m s1(1)
    by (simp add: rt_schedule_def Let_def s'_def mask_ok_def)
  have "sched_inv s1" using s1 inv tl by (simp add: sched_inv_def)
  then have i: "sched_inv s'"
    unfolding s'_def using ready_not_linked [of s1 ?c] free tl
    by (intro sched_inv_thread_off_ready) auto
  have f: "sched_frame s s'" by (rule sched_frame_schedule [OF e])
  have c: "current_thread s' = ?c" using s1 by (simp add: s'_def)
  have "running_ok s'"
    unfolding running_ok_def stack_ok_frame [OF f] mask_ok_frame [OF f] c
    using run tl keep(1) by (simp add: running_ok_def free s'_def)
  with e i tl c show ?thesis by (simp add: s'_def)
qed

lemma remove_thread_inv':
  assumes "table_inv s" "mask_ok s t" "rt_schedule_remove_thread t s = Some s'"
  shows "table_inv s'" "tlists s' = seq_remove t (tlists s)" "threads s' = threads s"
    "current_thread s' = current_thread s" "\<not> linked (tlists s') t" "sched_frame s s'"
  using remove_thread_inv [OF assms(1,2)] assms(3) sched_frame_remove [OF assms(3)] by auto

lemma insert_thread_inv':
  assumes "table_inv s" "mask_ok s t" "t \<noteq> current_thread s" "\<not> linked (tlists s) t"
    "rt_schedule_insert_thread t s = Some s'"
  shows "table_inv s'" "tlists s' = seq_insert_before_head (Ready (prio_of s t)) t (tlists s)"
    "current_thread s' = current_thread s" "sched_frame s s'" "stat_of s' t = RT_THREAD_READY"
    "\<And>u. u \<noteq> t \<Longrightarrow> threads s' u = threads s u"
  using insert_thread_inv [OF assms(1-4)] assms(5) sched_frame_insert [OF assms(5)]
  by (auto simp: rt_schedule_insert_thread_def split: if_splits)

lemma switch_correct:
  assumes inv: "sched_inv s" and run: "running_ok s"
    and top: "tlists s (Ready p) = to # ts"
    and ins: "ins \<longleftrightarrow> stat_of s (current_thread s) = RT_THREAD_RUNNING"
  shows "\<exists>s'. schedule_switch to p ins s = Some s' \<and> sched_inv s' \<and> running_ok s' \<and>
    current_thread s' = to \<and> stat_of s' to = RT_THREAD_RUNNING \<and>
    tlists s' = seq_remove to (if ins
      then seq_insert_before_head (Ready (prio_of s (current_thread s))) (current_thread s) (tlists s)
      else tlists s)"
proof -
  let ?c = "current_thread s"
  define s1 where "s1 = s\<lparr>current_prio := of_nat p, current_thread := to\<rparr>"
  define tl where "tl = (if ins then seq_insert_before_head (Ready (prio_of s ?c)) ?c (tlists s)
    else tlists s)"
  have r: "ready_ok s" using inv by (simp add: sched_inv_def table_inv_def)
  have to: "to \<in> set (tlists s (Ready p))" using top by simp
  have mto: "mask_ok s to" by (rule ready_okD(2) [OF r to])
  have toc: "to \<noteq> ?c" using inv to by (auto simp: sched_inv_def)
  have mc: "mask_ok s ?c" using run by (simp add: running_ok_def)
  have t1: "table_inv s1"
    using inv by (intro table_inv_cong [of s s1]) (auto simp: s1_def sched_inv_def)
  have f1: "sched_frame s s1" by (simp add: s1_def)
  have "\<exists>s2. (if ins then rt_schedule_insert_thread ?c s1 else Some s1) = Some s2 \<and> table_inv s2 \<and>
      tlists s2 = tl \<and> current_thread s2 = to \<and> sched_frame s s2"
  proof (cases ins)
    case True
    have "\<not> linked (tlists s) ?c" using True run ins by (simp add: running_ok_def)
    then have pre: "mask_ok s1 ?c" "?c \<noteq> current_thread s1" "\<not> linked (tlists s1) ?c"
      using mc toc by (simp_all add: s1_def mask_ok_def)
    obtain s2 where s2: "rt_schedule_insert_thread ?c s1 = Some s2"
      using insert_thread_inv [OF t1 pre] by blast
    note i = insert_thread_inv' [OF t1 pre s2]
    show ?thesis
      using True s2 i sched_frame_trans [OF f1 i(4)] by (simp add: s1_def tl_def)
  next
    case False
    then show ?thesis using t1 f1 by (simp add: s1_def tl_def)
  qed
  then obtain s2 where s2: "(if ins then rt_schedule_insert_thread ?c s1 else Some s1) = Some s2"
    "table_inv s2" "tlists s2 = tl" "current_thread s2 = to" "sched_frame s s2" by auto
  have m2: "mask_ok s2 to" using mto by (simp add: mask_ok_frame [OF s2(5)])
  obtain s3 where s3: "rt_schedule_remove_thread to s2 = Some s3"
    using remove_thread_inv [OF s2(2) m2] by blast
  note r3 = remove_thread_inv' [OF s2(2) m2 s3]
  define s' where "s' = set_stat_field to RT_THREAD_RUNNING s3"
  have f: "sched_frame s s'"
    unfolding s'_def by (rule sched_frame_trans [OF sched_frame_trans [OF s2(5) r3(6)]]) simp
  have ok: "stack_ok s t" if "t \<in> set (tlists s (Ready q))" for t q
    using run that by (auto simp: running_ok_def)
  have nr: "to \<notin> set (tlists s3 (Ready q))" for q using r3(5) by (auto simp: linked_def)
  have e: "schedule_switch to p ins s = Some s'"
  proof -
    have "rt_scheduler_stack_check to s' = Some ()"
      using stack_check_ok [of s' to] ok [OF to] mask_okD(1) [OF mto] stack_ok_frame [OF f] by simp
    then show ?thesis
      unfolding schedule_switch_def Let_def s1_def [symmetric] s2(1) by (simp add: s3 s'_def)
  qed
  have c: "current_thread s' = to" using r3(4) s2(4) by (simp add: s'_def)
  have t3: "table_inv s'"
    using r3(1) by (rule table_inv_cong) (use nr in \<open>auto simp: s'_def\<close>)
  have i: "sched_inv s'" using t3 nr c by (simp add: sched_inv_def s'_def)
  have l: "tlists s' = seq_remove to tl" using r3(2) s2(3) by (simp add: s'_def)
  have "running_ok s'"
    unfolding running_ok_def stack_ok_frame [OF f] mask_ok_frame [OF f] c
  proof (intro conjI allI ballI impI)
    show "\<not> linked (tlists s') to" by (simp add: l linked_def)
    show "stack_ok s to" using ok to by blast
    fix q t assume "t \<in> set (tlists s' (Ready q))"
    then have "t \<in> set (tlists s (Ready q)) \<or> ins \<and> t = ?c"
      by (auto simp: l tl_def seq_insert_before_head_def split: if_splits)
    then show "stack_ok s t" using ok run ins by (auto simp: running_ok_def)
  qed (rule mto)
  with e i c l show ?thesis by (auto simp: s'_def tl_def)
qed

text \<open>The scheduling contract: a running thread, and no ready thread more urgent than it.\<close>

definition most_urgent_runs :: "kstate \<Rightarrow> bool" where
  "most_urgent_runs s \<longleftrightarrow> stat_of s (current_thread s) = RT_THREAD_RUNNING \<and>
     (\<forall>p. \<forall>t \<in> set (tlists s (Ready p)). prio_of s (current_thread s) \<le> p)"

lemma schedule_total:
  assumes inv: "sched_inv s" and run: "running_ok s"
  shows "\<exists>s'. rt_schedule s = Some s' \<and> sched_inv s' \<and> running_ok s' \<and>
    (lock_nest s = 0 \<longrightarrow>
      ready_group s \<noteq> 0 \<or> stat_of s (current_thread s) = RT_THREAD_RUNNING \<longrightarrow> most_urgent_runs s')"
proof (cases "lock_nest s = 0 \<and> ready_group s \<noteq> 0")
  case False
  have r: "ready_ok s" using inv by (simp add: sched_inv_def table_inv_def)
  have "most_urgent_runs s" if "ready_group s = 0" "stat_of s (current_thread s) = RT_THREAD_RUNNING"
    using that group_zero [OF r] by (simp add: most_urgent_runs_def)
  then show ?thesis using False inv run schedule_none [of s] by auto
next
  case True
  let ?c = "current_thread s"
  have r: "ready_ok s" using inv by (simp add: sched_inv_def table_inv_def)
  obtain to ts p where top: "get_highest_priority_thread s = Some (to, p)"
    and l: "tlists s (Ready p) = to # ts" and low: "\<forall>q < p. tlists s (Ready q) = []"
    using get_highest_correct [OF r] True by auto
  have above: "p \<le> q" if "t \<in> set (tlists s (Ready q))" for t q
    using low that by (cases "q < p") auto
  have cn: "?c \<noteq> RT_NULL" using run by (auto simp: running_ok_def mask_ok_def)
  have toc: "to \<noteq> ?c" using inv l by (auto simp: sched_inv_def dest: spec [of _ p])
  show ?thesis
  proof (cases "stat_of s ?c = RT_THREAD_RUNNING \<and> prio_of s ?c < p")
    case keep: True
    obtain s' where s': "rt_schedule s = Some s'" "sched_inv s'" "running_ok s'"
      "current_thread s' = ?c" "tlists s' = tlists s" "stat_of s' ?c = RT_THREAD_RUNNING"
      using schedule_keep [OF inv run _ top] True keep by auto
    have "most_urgent_runs s'"
      using s' keep above sched_frame_thread [OF sched_frame_schedule [OF s'(1)]]
      by (fastforce simp: most_urgent_runs_def)
    with s' show ?thesis by blast
  next
    case leave: False
    define ins where "ins = (stat_of s ?c = RT_THREAD_RUNNING)"
    have e: "rt_schedule s = schedule_switch to p ins s"
      using True top cn toc leave by (auto simp: rt_schedule_def Let_def ins_def)
    obtain s' where s': "rt_schedule s = Some s'" "sched_inv s'" "running_ok s'"
      "current_thread s' = to" "stat_of s' to = RT_THREAD_RUNNING"
      "tlists s' = seq_remove to (if ins
        then seq_insert_before_head (Ready (prio_of s ?c)) ?c (tlists s) else tlists s)"
      using switch_correct [OF inv run l ins_def] unfolding e by auto
    have pto: "prio_of s' to = p"
      using ready_okD(3) [OF r, of to p] l sched_frame_thread [OF sched_frame_schedule [OF s'(1)]]
      by simp
    have "p \<le> q" if "t \<in> set (tlists s' (Ready q))" for t q
      using that above leave unfolding s'(6)
      by (auto simp: seq_insert_before_head_def ins_def split: if_splits)
    then have "most_urgent_runs s'" using s' pto by (auto simp: most_urgent_runs_def)
    with s' show ?thesis by blast
  qed
qed

end
