(* ===== verification/RT_Klib.thy ===== *)
theory RT_Klib
  imports RT_Prelude
begin

text \<open>
  The memory and string routines of \<^verbatim>\<open>rt-thread/src/kservice.c\<close>, in the variants the build
  uses (\<open>RT_USING_TINY_SIZE\<close> is not set).  The memory routines work on a byte memory; addresses
  and counts are natural numbers, so a buffer that wraps round the end of the address space is
  outside the model.  \<open>long\<close> has four bytes and the target is little endian.  The string
  routines read C strings, given as the characters in front of the terminating NUL; a buffer
  that holds a NUL ends there as well.
\<close>

type_synonym bytes = "nat \<Rightarrow> u8"

abbreviation (input) LBLOCKSIZE :: nat where "LBLOCKSIZE \<equiv> 4"

text \<open>A store and a load of an aligned \<open>long\<close>.\<close>

definition store_long :: "nat \<Rightarrow> u32 \<Rightarrow> bytes \<Rightarrow> bytes" where
  "store_long a w m = m(a := ucast w, a + 1 := ucast (drop_bit 8 w),
     a + 2 := ucast (drop_bit 16 w), a + 3 := ucast (drop_bit 24 w))"

definition copy_long :: "nat \<Rightarrow> nat \<Rightarrow> bytes \<Rightarrow> bytes" where
  "copy_long d s m = m(d := m s, d + 1 := m (s + 1), d + 2 := m (s + 2), d + 3 := m (s + 3))"

subsection \<open>\<open>rt_memset\<close>\<close>

fun memset_bytes :: "nat \<Rightarrow> u8 \<Rightarrow> nat \<Rightarrow> bytes \<Rightarrow> bytes" where
  "memset_bytes a d 0 m = m"
| "memset_bytes a d (Suc n) m = memset_bytes (a + 1) d n (m(a := d))"

fun memset_longs :: "nat \<Rightarrow> u32 \<Rightarrow> nat \<Rightarrow> bytes \<Rightarrow> nat \<times> nat \<times> bytes" where
  "memset_longs a buffer count m =
     (if count \<ge> LBLOCKSIZE
      then memset_longs (a + 4) buffer (count - LBLOCKSIZE) (store_long a buffer m)
      else (a, count, m))"

fun memset_blocks :: "nat \<Rightarrow> u32 \<Rightarrow> nat \<Rightarrow> bytes \<Rightarrow> nat \<times> nat \<times> bytes" where
  "memset_blocks a buffer count m =
     (if count \<ge> LBLOCKSIZE * 4
      then memset_blocks (a + 16) buffer (count - 4 * LBLOCKSIZE)
        (store_long (a + 12) buffer (store_long (a + 8) buffer
          (store_long (a + 4) buffer (store_long a buffer m))))
      else (a, count, m))"

declare memset_longs.simps [simp del] memset_blocks.simps [simp del]

definition rt_memset :: "nat \<Rightarrow> u32 \<Rightarrow> nat \<Rightarrow> bytes \<Rightarrow> bytes" where
  "rt_memset s c count m =
     (let d = c AND 0xff
      in if \<not> count < LBLOCKSIZE \<and> s mod LBLOCKSIZE = 0
         then let buffer = push_bit 8 d OR d;
                  buffer = buffer OR push_bit 16 buffer;
                  (a1, n1, m1) = memset_blocks s buffer count m;
                  (a2, n2, m2) = memset_longs a1 buffer n1 m1
              in memset_bytes a2 (ucast d) n2 m2
         else memset_bytes s (ucast d) count m)"

definition fill :: "nat \<Rightarrow> nat \<Rightarrow> u8 \<Rightarrow> bytes \<Rightarrow> bytes" where
  "fill a n d m = (\<lambda>x. if a \<le> x \<and> x < a + n then d else m x)"

lemma fill_0 [simp]: "fill a 0 d m = m"
  by (rule ext) (auto simp: fill_def)

lemma fill_fill: "fill (a + n) k d (fill a n d m) = fill a (n + k) d m"
  by (auto simp: fill_def)

lemma memset_bytes_fill: "memset_bytes a d n m = fill a n d m"
proof (induction n arbitrary: a m)
  case (Suc n)
  have "m(a := d) = fill a 1 d m" by (auto simp: fill_def)
  then show ?case using Suc fill_fill [of a 1 n d m] by simp
qed simp

definition splat :: "u8 \<Rightarrow> u32 \<Rightarrow> bool" where
  "splat d w \<longleftrightarrow> ucast w = d \<and> ucast (drop_bit 8 w) = d \<and> ucast (drop_bit 16 w) = d \<and>
     ucast (drop_bit 24 w) = d"

lemma store_long_fill: "splat d w \<Longrightarrow> store_long a w m = fill a 4 d m"
  by (auto simp: store_long_def splat_def fill_def fun_eq_iff)

lemma memset_longs_fill:
  "splat d w \<Longrightarrow> memset_longs a w n m = (a', n', m') \<Longrightarrow>
     \<exists>k \<le> n. a' = a + k \<and> n' = n - k \<and> m' = fill a k d m"
proof (induction a w n m rule: memset_longs.induct)
  case (1 a w n m)
  show ?case
  proof (cases "LBLOCKSIZE \<le> n")
    case True
    then obtain k where "k \<le> n - 4" "a' = a + 4 + k" "n' = n - 4 - k"
        "m' = fill (a + 4) k d (fill a 4 d m)"
      using 1 by (auto simp: memset_longs.simps [of a w n m] store_long_fill)
    then show ?thesis
      using True by (intro exI [of _ "4 + k"]) (auto simp: fill_fill)
  next
    case False
    then show ?thesis
      using 1(3) by (intro exI [of _ 0]) (simp add: memset_longs.simps [of a w n m])
  qed
qed

lemma memset_blocks_fill:
  "splat d w \<Longrightarrow> memset_blocks a w n m = (a', n', m') \<Longrightarrow>
     \<exists>k \<le> n. a' = a + k \<and> n' = n - k \<and> m' = fill a k d m"
proof (induction a w n m rule: memset_blocks.induct)
  case (1 a w n m)
  have four: "store_long (a + 12) w (store_long (a + 8) w (store_long (a + 4) w (store_long a w m)))
      = fill a 16 d m"
    using 1(2) fill_fill [of a 4 4 d m] fill_fill [of a 8 4 d m] fill_fill [of a 12 4 d m]
    by (simp add: store_long_fill)
  show ?case
  proof (cases "LBLOCKSIZE * 4 \<le> n")
    case True
    then obtain k where "k \<le> n - 16" "a' = a + 16 + k" "n' = n - 16 - k"
        "m' = fill (a + 16) k d (fill a 16 d m)"
      using 1 four by (auto simp: memset_blocks.simps [of a w n m])
    then show ?thesis
      using True by (intro exI [of _ "16 + k"]) (auto simp: fill_fill)
  next
    case False
    then show ?thesis
      using 1(3) by (intro exI [of _ 0]) (simp add: memset_blocks.simps [of a w n m])
  qed
qed

lemma splat_buffer:
  fixes c :: u32
  defines "d \<equiv> c AND 0xff"
  shows "splat (ucast d) ((push_bit 8 d OR d) OR push_bit 16 (push_bit 8 d OR d))"
proof -
  have d: "d = take_bit 8 c" by (simp add: d_def take_bit_eq_mask mask_eq_exp_minus_1)
  show ?thesis unfolding splat_def d
    by (intro conjI; rule bit_word_eqI)
      (auto simp: bit_ucast_iff bit_or_iff bit_push_bit_iff bit_take_bit_iff bit_drop_bit_eq
        dest: bit_imp_le_length)
qed

lemma rt_memset_fill: "rt_memset s c count m = fill s count (ucast c) m"
proof -
  define d where "d = c AND 0xff"
  have dc: "(ucast d :: u8) = ucast c"
    by (rule bit_word_eqI) (auto simp: d_def bit_ucast_iff bit_and_iff take_bit_eq_mask
        [of 8 c, symmetric, unfolded mask_eq_exp_minus_1, simplified] bit_take_bit_iff)
  define b where "b = (push_bit 8 d OR d) OR push_bit 16 (push_bit 8 d OR d)"
  have sp: "splat (ucast d) b" unfolding b_def d_def by (rule splat_buffer)
  obtain a1 n1 m1 where 1: "memset_blocks s b count m = (a1, n1, m1)" by (cases "memset_blocks s b count m")
  obtain a2 n2 m2 where 2: "memset_longs a1 b n1 m1 = (a2, n2, m2)" by (cases "memset_longs a1 b n1 m1")
  obtain k where k: "k \<le> count" "a1 = s + k" "n1 = count - k" "m1 = fill s k (ucast d) m"
    using memset_blocks_fill [OF sp 1] by auto
  obtain j where j: "j \<le> n1" "a2 = a1 + j" "n2 = n1 - j" "m2 = fill a1 j (ucast d) m1"
    using memset_longs_fill [OF sp 2] by auto
  have "memset_bytes a2 (ucast d) n2 m2 = fill s count (ucast d) m"
    using k j by (simp add: memset_bytes_fill fill_fill add.assoc)
  then show ?thesis
    unfolding rt_memset_def Let_def d_def [symmetric] b_def [symmetric] 1 prod.case 2
    by (simp add: memset_bytes_fill dc)
qed

subsection \<open>\<open>rt_memcpy\<close>, \<open>rt_memmove\<close> and \<open>rt_memcmp\<close>\<close>

fun copy_forward :: "nat \<Rightarrow> nat \<Rightarrow> nat \<Rightarrow> bytes \<Rightarrow> bytes" where
  "copy_forward d s 0 m = m"
| "copy_forward d s (Suc n) m = copy_forward (d + 1) (s + 1) n (m(d := m s))"

fun copy_backward :: "nat \<Rightarrow> nat \<Rightarrow> nat \<Rightarrow> bytes \<Rightarrow> bytes" where
  "copy_backward d s 0 m = m"
| "copy_backward d s (Suc n) m = copy_backward d s n (m(d + n := m (s + n)))"

fun memcpy_longs :: "nat \<Rightarrow> nat \<Rightarrow> nat \<Rightarrow> bytes \<Rightarrow> nat \<times> nat \<times> nat \<times> bytes" where
  "memcpy_longs d s len m =
     (if len \<ge> 4 then memcpy_longs (d + 4) (s + 4) (len - 4) (copy_long d s m)
      else (d, s, len, m))"

fun memcpy_blocks :: "nat \<Rightarrow> nat \<Rightarrow> nat \<Rightarrow> bytes \<Rightarrow> nat \<times> nat \<times> nat \<times> bytes" where
  "memcpy_blocks d s len m =
     (if len \<ge> 16
      then memcpy_blocks (d + 16) (s + 16) (len - 16)
        (copy_long (d + 12) (s + 12) (copy_long (d + 8) (s + 8)
          (copy_long (d + 4) (s + 4) (copy_long d s m))))
      else (d, s, len, m))"

declare memcpy_longs.simps [simp del] memcpy_blocks.simps [simp del]

definition rt_memcpy :: "nat \<Rightarrow> nat \<Rightarrow> nat \<Rightarrow> bytes \<Rightarrow> bytes" where
  "rt_memcpy dst src count m =
     (if \<not> count < 16 \<and> src mod 4 = 0 \<and> dst mod 4 = 0
      then let (d1, s1, n1, m1) = memcpy_blocks dst src count m;
               (d2, s2, n2, m2) = memcpy_longs d1 s1 n1 m1
           in copy_forward d2 s2 n2 m2
      else copy_forward dst src count m)"

definition rt_memmove :: "nat \<Rightarrow> nat \<Rightarrow> nat \<Rightarrow> bytes \<Rightarrow> bytes" where
  "rt_memmove dest src n m =
     (if src < dest \<and> dest < src + n then copy_backward dest src n m
      else copy_forward dest src n m)"

fun rt_memcmp :: "nat \<Rightarrow> nat \<Rightarrow> nat \<Rightarrow> bytes \<Rightarrow> int" where
  "rt_memcmp cs ct 0 m = 0"
| "rt_memcmp cs ct (Suc n) m =
     (let res = uint (m cs) - uint (m ct)
      in if res \<noteq> 0 then res else rt_memcmp (cs + 1) (ct + 1) n m)"

text \<open>The specification: the bytes of the source as they were before the call.\<close>

definition moved :: "nat \<Rightarrow> nat \<Rightarrow> nat \<Rightarrow> bytes \<Rightarrow> bytes" where
  "moved d s n m = (\<lambda>x. if d \<le> x \<and> x < d + n then m (s + (x - d)) else m x)"

lemma moved_0 [simp]: "moved d s 0 m = m"
  by (rule ext) (auto simp: moved_def)

text \<open>Copying upwards is right when the destination does not start inside the source.\<close>

definition upward :: "nat \<Rightarrow> nat \<Rightarrow> nat \<Rightarrow> bool" where
  "upward d s n \<longleftrightarrow> d \<le> s \<or> s + n \<le> d"

lemma moved_moved:
  "upward d s (n + k) \<Longrightarrow> moved (d + n) (s + n) k (moved d s n m) = moved d s (n + k) m"
  by (rule ext) (auto simp: moved_def upward_def)

lemma copy_long_moved: "copy_long d s m = moved d s 4 m"
proof
  fix x
  consider "x = d" | "x = d + 1" | "x = d + 2" | "x = d + 3" | "x < d" | "d + 4 \<le> x" by linarith
  then show "copy_long d s m x = moved d s 4 m x"
    by cases (auto simp: copy_long_def moved_def)
qed

lemma copy_forward_moved: "upward d s n \<Longrightarrow> copy_forward d s n m = moved d s n m"
proof (induction n arbitrary: d s m)
  case (Suc n)
  have "m(d := m s) = moved d s 1 m" by (rule ext) (auto simp: moved_def)
  moreover have "upward (d + 1) (s + 1) n" using Suc.prems by (auto simp: upward_def)
  ultimately show ?case using Suc moved_moved [of d s 1 n m] by simp
qed simp

lemma copy_backward_moved: "s < d \<Longrightarrow> copy_backward d s n m = moved d s n m"
proof (induction n arbitrary: m)
  case (Suc n)
  have "moved d s n (m(d + n := m (s + n))) = moved d s (Suc n) m"
    using Suc.prems by (intro ext) (auto simp: moved_def less_Suc_eq)
  then show ?case using Suc by simp
qed simp

lemma rt_memmove_moved: "rt_memmove d s n m = moved d s n m"
  by (auto simp: rt_memmove_def copy_backward_moved copy_forward_moved upward_def)

lemma memcpy_longs_moved:
  "upward d s n \<Longrightarrow> memcpy_longs d s n m = (d', s', n', m') \<Longrightarrow>
     \<exists>k \<le> n. d' = d + k \<and> s' = s + k \<and> n' = n - k \<and> m' = moved d s k m"
proof (induction d s n m rule: memcpy_longs.induct)
  case (1 d s n m)
  show ?case
  proof (cases "4 \<le> n")
    case True
    then have u: "upward (d + 4) (s + 4) (n - 4)" using 1(2) by (auto simp: upward_def)
    then obtain k where k: "k \<le> n - 4" "d' = d + 4 + k" "s' = s + 4 + k" "n' = n - 4 - k"
        "m' = moved (d + 4) (s + 4) k (moved d s 4 m)"
      using 1 True by (auto simp: memcpy_longs.simps [of d s n m] copy_long_moved)
    have "upward d s (4 + k)" using k(1) True 1(2) by (auto simp: upward_def)
    then show ?thesis
      using True k by (intro exI [of _ "4 + k"]) (auto simp: moved_moved)
  next
    case False
    then show ?thesis
      using 1(3) by (intro exI [of _ 0]) (simp add: memcpy_longs.simps [of d s n m])
  qed
qed

lemma memcpy_blocks_moved:
  "upward d s n \<Longrightarrow> memcpy_blocks d s n m = (d', s', n', m') \<Longrightarrow>
     \<exists>k \<le> n. d' = d + k \<and> s' = s + k \<and> n' = n - k \<and> m' = moved d s k m"
proof (induction d s n m rule: memcpy_blocks.induct)
  case (1 d s n m)
  show ?case
  proof (cases "16 \<le> n")
    case True
    then have w: "upward d s 8" "upward d s 12" "upward d s 16" using 1(2) by (auto simp: upward_def)
    have four: "copy_long (d + 12) (s + 12) (copy_long (d + 8) (s + 8)
        (copy_long (d + 4) (s + 4) (copy_long d s m))) = moved d s 16 m"
      using moved_moved [of d s 4 4 m] moved_moved [of d s 8 4 m] moved_moved [of d s 12 4 m] w
      by (simp add: copy_long_moved)
    have u: "upward (d + 16) (s + 16) (n - 16)" using 1(2) True by (auto simp: upward_def)
    then obtain k where k: "k \<le> n - 16" "d' = d + 16 + k" "s' = s + 16 + k" "n' = n - 16 - k"
        "m' = moved (d + 16) (s + 16) k (moved d s 16 m)"
      using 1 True four by (auto simp: memcpy_blocks.simps [of d s n m])
    have "upward d s (16 + k)" using k(1) True 1(2) by (auto simp: upward_def)
    then show ?thesis
      using True k by (intro exI [of _ "16 + k"]) (auto simp: moved_moved)
  next
    case False
    then show ?thesis
      using 1(3) by (intro exI [of _ 0]) (simp add: memcpy_blocks.simps [of d s n m])
  qed
qed

lemma memcpy_moved:
  assumes "upward d s n"
  shows "rt_memcpy d s n m = moved d s n m"
proof -
  obtain d1 s1 n1 m1 where 1: "memcpy_blocks d s n m = (d1, s1, n1, m1)"
    by (cases "memcpy_blocks d s n m")
  obtain d2 s2 n2 m2 where 2: "memcpy_longs d1 s1 n1 m1 = (d2, s2, n2, m2)"
    by (cases "memcpy_longs d1 s1 n1 m1")
  obtain k where k: "k \<le> n" "d1 = d + k" "s1 = s + k" "n1 = n - k" "m1 = moved d s k m"
    using memcpy_blocks_moved [OF assms 1] by auto
  have u1: "upward d1 s1 n1" using assms k by (auto simp: upward_def)
  obtain j where j: "j \<le> n1" "d2 = d1 + j" "s2 = s1 + j" "n2 = n1 - j" "m2 = moved d1 s1 j m1"
    using memcpy_longs_moved [OF u1 2] by auto
  have u: "upward d s (k + j)" "upward d2 s2 n2" "upward d s (k + j + n2)"
    using assms k j by (auto simp: upward_def)
  have "m2 = moved d s (k + j) m" using moved_moved [OF u(1)] k j by simp
  then have "copy_forward d2 s2 n2 m2 = moved d s n m"
    using copy_forward_moved [OF u(2)] moved_moved [OF u(3)] k j by (simp add: add.assoc)
  then show ?thesis
    using assms by (simp add: rt_memcpy_def 1 2 copy_forward_moved)
qed

lemma rt_memcpy_moved: "upward d s n \<Longrightarrow> rt_memcpy d s n m = moved d s n m"
  by (rule memcpy_moved)

lemma rt_memcmp_zero: "rt_memcmp cs ct n m = 0 \<longleftrightarrow> (\<forall>i < n. m (cs + i) = m (ct + i))"
proof (induction n arbitrary: cs ct)
  case (Suc n)
  show ?case by (auto simp: Let_def Suc All_less_Suc2 word_uint_eq_iff)
qed simp

subsection \<open>Strings\<close>

text \<open>The difference of two characters, and its value in a \<open>signed char\<close>.\<close>

definition char_diff :: "char \<Rightarrow> char \<Rightarrow> int" where
  "char_diff c d = int (of_char c) - int (of_char d)"

definition as_schar :: "int \<Rightarrow> int" where
  "as_schar v = sint (word_of_int v :: u8)"

abbreviation NUL :: char where "NUL \<equiv> CHR 0x00"

fun rt_strnlen :: "string \<Rightarrow> nat \<Rightarrow> nat" where
  "rt_strnlen [] maxlen = 0"
| "rt_strnlen (c # cs) 0 = 0"
| "rt_strnlen (c # cs) (Suc n) = (if c \<noteq> NUL then Suc (rt_strnlen cs n) else 0)"

fun rt_strlen :: "string \<Rightarrow> nat" where
  "rt_strlen [] = 0"
| "rt_strlen (c # cs) = (if c \<noteq> NUL then Suc (rt_strlen cs) else 0)"

text \<open>The \<open>n\<close> characters that \<open>rt_strncpy\<close> leaves in \<open>dst\<close>.\<close>

fun rt_strncpy :: "string \<Rightarrow> nat \<Rightarrow> string" where
  "rt_strncpy src 0 = []"
| "rt_strncpy [] (Suc n) = replicate (Suc n) NUL"
| "rt_strncpy (c # cs) (Suc n) =
     (if c = NUL then replicate (Suc n) NUL else c # rt_strncpy cs n)"

fun rt_strncmp :: "string \<Rightarrow> string \<Rightarrow> nat \<Rightarrow> int" where
  "rt_strncmp cs ct 0 = 0"
| "rt_strncmp [] [] (Suc n) = as_schar (char_diff NUL NUL)"
| "rt_strncmp [] (d # ds) (Suc n) = as_schar (char_diff NUL d)"
| "rt_strncmp (c # cs) [] (Suc n) = as_schar (char_diff c NUL)"
| "rt_strncmp (c # cs) (d # ds) (Suc n) =
     (let res = as_schar (char_diff c d)
      in if res \<noteq> 0 \<or> c = NUL then res else rt_strncmp cs ds n)"

fun rt_strcmp :: "string \<Rightarrow> string \<Rightarrow> int" where
  "rt_strcmp [] [] = 0"
| "rt_strcmp [] (d # ds) = char_diff NUL d"
| "rt_strcmp (c # cs) [] = char_diff c NUL"
| "rt_strcmp (c # cs) (d # ds) =
     (if c \<noteq> NUL \<and> c = d then rt_strcmp cs ds else char_diff c d)"

definition lower :: "char \<Rightarrow> int" where
  "lower c = (let ca = int (of_char c)
     in if 0x41 \<le> ca \<and> ca \<le> 0x5a then ca + (0x61 - 0x41) else ca)"

fun rt_strcasecmp :: "string \<Rightarrow> string \<Rightarrow> u32" where
  "rt_strcasecmp [] [] = 0"
| "rt_strcasecmp [] (d # ds) = word_of_int (lower NUL - lower d)"
| "rt_strcasecmp (c # cs) [] = word_of_int (lower c - lower NUL)"
| "rt_strcasecmp (c # cs) (d # ds) =
     (if lower c = lower d \<and> lower c \<noteq> 0 then rt_strcasecmp cs ds
      else word_of_int (lower c - lower d))"

text \<open>\<open>rt_strstr\<close> returns the offset of the first occurrence.\<close>

fun strstr_from :: "string \<Rightarrow> string \<Rightarrow> nat \<Rightarrow> nat \<Rightarrow> nat option" where
  "strstr_from s1 s2 off l1 =
     (if l1 \<ge> length s2 then
        if take (length s2) (drop off s1) = s2 then Some off
        else if l1 = 0 then None else strstr_from s1 s2 (off + 1) (l1 - 1)
      else None)"

declare strstr_from.simps [simp del]

definition rt_strstr :: "string \<Rightarrow> string \<Rightarrow> nat option" where
  "rt_strstr s1 s2 =
     (if length s2 = 0 then Some 0 else strstr_from s1 s2 0 (length s1))"

definition c_string :: "string \<Rightarrow> bool" where
  "c_string s \<longleftrightarrow> NUL \<notin> set s"

lemma char_diff_schar_zero [simp]: "as_schar (char_diff c d) = 0 \<longleftrightarrow> c = d"
proof -
  have b: "0 \<le> int (of_char c) \<and> int (of_char c) < 256" for c :: char
  proof -
    have "(of_char c :: nat) mod 256 < 256" by simp
    then show ?thesis by (simp only: of_char_mod_256) simp
  qed
  have "as_schar v = 0 \<longleftrightarrow> (word_of_int v :: u8) = 0" for v
    by (metis as_schar_def signed_0 signed_word_eqI)
  moreover have "(word_of_int v :: u8) = 0 \<longleftrightarrow> 256 dvd v" for v :: int
    by (simp add: word_of_int_eq_0_iff)
  ultimately have "as_schar (char_diff c d) = 0 \<longleftrightarrow> 256 dvd (int (of_char c) - int (of_char d))"
    by (simp add: char_diff_def)
  also have "\<dots> \<longleftrightarrow> int (of_char c) = int (of_char d)"
    using b [of c] b [of d] by (simp only: mod_eq_dvd_iff [symmetric]) simp
  also have "\<dots> \<longleftrightarrow> c = d" by (metis of_char_eq_iff of_nat_eq_iff)
  finally show ?thesis .
qed

lemma length_strncpy [simp]: "length (rt_strncpy s n) = n"
  by (induction s n rule: rt_strncpy.induct) auto

lemma strncpy_c_string: "c_string s \<Longrightarrow> rt_strncpy s n = take n s @ replicate (n - length s) NUL"
  by (induction s n rule: rt_strncpy.induct) (auto simp: c_string_def)

text \<open>
  Looking a name up in a name field: a copied name matches exactly the names that agree with it
  on the first \<open>n\<close> characters.
\<close>

lemma strncmp_strncpy:
  "c_string a \<Longrightarrow> c_string b \<Longrightarrow> rt_strncmp (rt_strncpy a n) b n = 0 \<longleftrightarrow> take n a = take n b"
proof (induction a n arbitrary: b rule: rt_strncpy.induct)
  case (2 n)
  then show ?case by (cases b) (auto simp: c_string_def Let_def)
next
  case (3 c cs n)
  then show ?case by (cases b) (auto simp: c_string_def Let_def)
qed simp

end
