(* ===== verification/RT_Object.thy ===== *)
theory RT_Object
  imports RT_Scheduler RT_Klib
begin

text \<open>
  The kernel objects, \<^verbatim>\<open>rt-thread/src/object.c\<close>: every kernel structure starts with a header
  (name, class, flags) and is linked on the list of its class.

  \<open>rt_object_init\<close> leaves a critical section in its middle, which may switch threads.  Its two
  halves are definitions of their own, so a run that interleaves other threads there composes the
  halves itself; the second half reads and writes nothing but the object and its class list.
\<close>

text \<open>\<open>rt_object_container\<close>: the classes in the order of the array.\<close>

definition object_classes :: "u8 list" where
  "object_classes =
     [RT_Object_Class_Thread, RT_Object_Class_Semaphore, RT_Object_Class_Mutex,
      RT_Object_Class_Event, RT_Object_Class_MailBox, RT_Object_Class_MessageQueue,
      RT_Object_Class_MemHeap, RT_Object_Class_MemPool, RT_Object_Class_Device,
      RT_Object_Class_Timer]"

fun find_class :: "u8 list \<Rightarrow> u8 \<Rightarrow> nat \<Rightarrow> nat option" where
  "find_class [] type index = None"
| "find_class (c # cs) type index = (if c = type then Some index else find_class cs type (index + 1))"

definition rt_object_get_information :: "u8 \<Rightarrow> nat option" where
  "rt_object_get_information type = find_class object_classes type 0"

definition rt_object_get_type :: "ptr \<Rightarrow> kstate \<Rightarrow> u8 option" where
  "rt_object_get_type object s = do {
     RT_ASSERT (object \<noteq> RT_NULL);
     Some (obj_type (objs s object) AND NOT RT_Object_Class_Static)
   }"

definition rt_object_is_systemobject :: "ptr \<Rightarrow> kstate \<Rightarrow> bool option" where
  "rt_object_is_systemobject object s = do {
     RT_ASSERT (object \<noteq> RT_NULL);
     Some (obj_type (objs s object) AND RT_Object_Class_Static \<noteq> 0)
   }"

text \<open>The frequent assertion \<open>RT_ASSERT(rt_object_get_type(p) == class)\<close>.\<close>

definition assert_type :: "ptr \<Rightarrow> u8 \<Rightarrow> kstate \<Rightarrow> unit option" where
  "assert_type object cls s = do {
     ty \<leftarrow> rt_object_get_type object s;
     RT_ASSERT (ty = cls)
   }"

definition assert_static :: "ptr \<Rightarrow> bool \<Rightarrow> kstate \<Rightarrow> unit option" where
  "assert_static object b s = do {
     st \<leftarrow> rt_object_is_systemobject object s;
     RT_ASSERT (st = b)
   }"

text \<open>First half: the object must not be on its class list yet.\<close>

definition rt_object_init_check :: "ptr \<Rightarrow> u8 \<Rightarrow> kstate \<Rightarrow> (nat \<times> kstate) option" where
  "rt_object_init_check object type s = do {
     information \<leftarrow> rt_object_get_information type;
     let s1 = rt_enter_critical s;
     RT_ASSERT (\<forall>obj \<in> set (object_lists s1 information). obj \<noteq> object);
     s2 \<leftarrow> rt_exit_critical s1;
     Some (information, s2)
   }"

text \<open>Second half: fill in the header and link the object at the front.\<close>

definition rt_object_init_attach :: "ptr \<Rightarrow> u8 \<Rightarrow> string \<Rightarrow> nat \<Rightarrow> kstate \<Rightarrow> kstate" where
  "rt_object_init_attach object type name information s =
     (let s1 = upd_obj object (\<lambda>ob. ob\<lparr>obj_type := type OR RT_Object_Class_Static,
            obj_name := rt_strncpy name RT_NAME_MAX\<rparr>) s
      in s1\<lparr>object_lists := (object_lists s1)(information := object # object_lists s1 information)\<rparr>)"

definition rt_object_init :: "ptr \<Rightarrow> u8 \<Rightarrow> string \<Rightarrow> kstate \<Rightarrow> kstate option" where
  "rt_object_init object type name s = do {
     (information, s1) \<leftarrow> rt_object_init_check object type s;
     Some (rt_object_init_attach object type name information s1)
   }"

definition rt_object_detach :: "ptr \<Rightarrow> kstate \<Rightarrow> kstate option" where
  "rt_object_detach object s = do {
     RT_ASSERT (object \<noteq> RT_NULL);
     let s1 = upd_obj object (obj_type_update (\<lambda>_. 0)) s;
     Some (s1\<lparr>object_lists := (\<lambda>i. removeAll object (object_lists s1 i))\<rparr>)
   }"

text \<open>
  Objects from the heap.  \<open>mem\<close> is what \<open>RT_KERNEL_MALLOC\<close> returned; the new structure is cleared,
  and \<open>zero_object\<close> is that \<open>rt_memset\<close>, for the classes whose structure is part of the state.
\<close>

definition zero_thread :: rt_thread where
  "zero_thread = \<lparr>th_sp = 0, th_entry = 0, th_parameter = 0, th_stack_addr = 0, th_stack_size = 0,
     th_error = 0, th_stat = 0, th_current_priority = 0, th_init_priority = 0, th_number_mask = 0,
     th_event_set = 0, th_event_info = 0, th_init_tick = 0, th_remaining_tick = 0, th_cleanup = 0,
     th_user_data = 0\<rparr>"

definition zero_object :: "ptr \<Rightarrow> u8 \<Rightarrow> kstate \<Rightarrow> kstate" where
  "zero_object p type s =
     (if type = RT_Object_Class_Thread then upd_thread p (\<lambda>_. zero_thread) s
      else if type = RT_Object_Class_Semaphore then sems_update (\<lambda>m. m(p := 0)) s
      else if type = RT_Object_Class_Mutex then upd_mutex p (\<lambda>_. \<lparr>mx_value = 0,
        mx_original_priority = 0, mx_hold = 0, mx_owner = RT_NULL\<rparr>) s
      else if type = RT_Object_Class_Event then events_update (\<lambda>m. m(p := 0)) s
      else if type = RT_Object_Class_MailBox then upd_mailbox p (\<lambda>_. \<lparr>mb_msg_pool = [],
        mb_size = 0, mb_entry = 0, mb_in_offset = 0, mb_out_offset = 0\<rparr>) s
      else if type = RT_Object_Class_MessageQueue then upd_mq p (\<lambda>q. \<lparr>mq_next = mq_next q,
        mq_data = mq_data q, mq_msg_size = 0, mq_max_msgs = 0, mq_entry = 0, mq_head = None,
        mq_tail = None, mq_free = None\<rparr>) s
      else s)"

definition rt_object_allocate :: "ptr \<Rightarrow> u8 \<Rightarrow> string \<Rightarrow> kstate \<Rightarrow> (ptr \<times> kstate) option" where
  "rt_object_allocate mem type name s = do {
     not_in_interrupt s;
     information \<leftarrow> rt_object_get_information type;
     if mem = RT_NULL then Some (RT_NULL, s)
     else do {
       let s1 = zero_object mem type s;
       let s2 = upd_obj mem (\<lambda>_. \<lparr>obj_name = rt_strncpy name RT_NAME_MAX, obj_type = type,
         obj_flag = 0\<rparr>) s1;
       Some (mem, s2\<lparr>object_lists :=
         (object_lists s2)(information := mem # object_lists s2 information)\<rparr>)
     }
   }"

text \<open>\<open>RT_KERNEL_FREE\<close> gives the block back to the heap, which is not part of this state.\<close>

definition rt_object_delete :: "ptr \<Rightarrow> kstate \<Rightarrow> kstate option" where
  "rt_object_delete object s = do {
     RT_ASSERT (object \<noteq> RT_NULL);
     RT_ASSERT (obj_type (objs s object) AND RT_Object_Class_Static = 0);
     let s1 = upd_obj object (obj_type_update (\<lambda>_. 0)) s;
     Some (s1\<lparr>object_lists := (\<lambda>i. removeAll object (object_lists s1 i))\<rparr>)
   }"

fun find_name :: "(ptr \<Rightarrow> rt_object) \<Rightarrow> string \<Rightarrow> ptr list \<Rightarrow> ptr" where
  "find_name obs name [] = RT_NULL"
| "find_name obs name (ob # obl) =
     (if rt_strncmp (obj_name (obs ob)) name RT_NAME_MAX = 0 then ob else find_name obs name obl)"

text \<open>\<open>name = None\<close> is a null pointer.\<close>

definition rt_object_find :: "string option \<Rightarrow> u8 \<Rightarrow> kstate \<Rightarrow> (ptr \<times> kstate) option" where
  "rt_object_find name type s =
     (case name of None \<Rightarrow> Some (RT_NULL, s)
      | Some nm \<Rightarrow>
        if type > RT_Object_Class_Unknown then Some (RT_NULL, s)
        else do {
          not_in_interrupt s;
          let s1 = rt_enter_critical s;
          information \<leftarrow> rt_object_get_information type;
          let object = find_name (objs s1) nm (object_lists s1 information);
          s2 \<leftarrow> rt_exit_critical s1;
          Some (object, s2)
        })"

subsection \<open>Facts for the callers\<close>

definition has_type :: "kstate \<Rightarrow> ptr \<Rightarrow> u8 \<Rightarrow> bool" where
  "has_type s p c \<longleftrightarrow> p \<noteq> RT_NULL \<and> obj_type (objs s p) AND NOT RT_Object_Class_Static = c"

lemma rt_object_get_type_bind [simp]:
  "rt_object_get_type p s \<bind> f =
     (if p \<noteq> RT_NULL then f (obj_type (objs s p) AND NOT RT_Object_Class_Static) else None)"
  by (simp add: rt_object_get_type_def)

lemma assert_type_bind [simp]:
  "assert_type p c s \<bind> f = (if has_type s p c then f () else None)"
  by (simp add: assert_type_def has_type_def)

lemma assert_static_bind [simp]:
  "assert_static p b s \<bind> f =
     (if p \<noteq> RT_NULL \<and> (obj_type (objs s p) AND RT_Object_Class_Static \<noteq> 0) = b then f () else None)"
  by (simp add: assert_static_def rt_object_is_systemobject_def)

lemma is_systemobject_bind [simp]:
  "rt_object_is_systemobject p s \<bind> f =
     (if p \<noteq> RT_NULL then f (obj_type (objs s p) AND RT_Object_Class_Static \<noteq> 0) else None)"
  by (simp add: rt_object_is_systemobject_def)

text \<open>Every class of the array is found at its own index.\<close>

lemma get_information_index: "i < 10 \<Longrightarrow> rt_object_get_information (object_classes ! i) = Some i"
proof -
  have "list_all (\<lambda>i. rt_object_get_information (object_classes ! i) = Some i) [0..<10]"
    by code_simp
  then show "i < 10 \<Longrightarrow> ?thesis" by (simp add: list_all_iff)
qed

lemma enter_exit_critical:
  assumes "sint (lock_nest s) \<ge> 0"
  shows "rt_exit_critical (rt_enter_critical s) =
    (if lock_nest s = 0 \<and> current_thread s \<noteq> RT_NULL then rt_schedule s else Some s)"
proof -
  have z: "sint (lock_nest s) \<le> 0 \<longleftrightarrow> lock_nest s = 0"
    using assms signed_eq_0_iff [of "lock_nest s"] by (metis order_antisym order_refl)
  have same: "s\<lparr>lock_nest := 0\<rparr> = s" if "lock_nest s = 0"
    using that by (cases s) simp
  have "s\<lparr>lock_nest := lock_nest s\<rparr> = s" by (cases s) simp
  then show ?thesis
    by (auto simp: rt_exit_critical_def rt_enter_critical_def Let_def z same)
qed

text \<open>
  In a state where the scheduler works, creating and looking up objects never hangs: each only
  passes one scheduling point.
\<close>

definition sched_ready :: "kstate \<Rightarrow> bool" where
  "sched_ready s \<longleftrightarrow> sched_inv s \<and> sint (lock_nest s) \<ge> 0 \<and>
     (current_thread s \<noteq> RT_NULL \<longrightarrow> running_ok s)"

lemma critical_total:
  assumes "sched_ready s"
  shows "\<exists>s'. rt_exit_critical (rt_enter_critical s) = Some s' \<and> sched_frame s s' \<and> sched_ready s'"
proof (cases "lock_nest s = 0 \<and> current_thread s \<noteq> RT_NULL")
  case True
  then obtain s' where s': "rt_schedule s = Some s'" "sched_inv s'" "running_ok s'"
    using assms schedule_total [of s] by (auto simp: sched_ready_def)
  have f: "sched_frame s s'" by (rule sched_frame_schedule [OF s'(1)])
  then have "sched_ready s'"
    using s' assms by (simp add: sched_ready_def sched_frame_fields)
  then show ?thesis
    using True assms s' f by (auto simp: enter_exit_critical sched_ready_def)
next
  case False
  then show ?thesis
    using assms by (auto simp: enter_exit_critical sched_ready_def)
qed

lemma init_check_total:
  assumes "sched_ready s" "rt_object_get_information c = Some i" "ob \<notin> set (object_lists s i)"
  shows "\<exists>s'. rt_object_init_check ob c s = Some (i, s') \<and> sched_frame s s' \<and> sched_ready s'"
  using critical_total [OF assms(1)] assms(2,3)
  by (auto simp: rt_object_init_check_def Let_def rt_enter_critical_def)

lemma object_init_total:
  assumes "sched_ready s" "rt_object_get_information c = Some i" "ob \<notin> set (object_lists s i)"
  shows "\<exists>s'. rt_object_init ob c name s = Some s' \<and>
    object_lists s' = (object_lists s)(i := ob # object_lists s i) \<and>
    objs s' = (objs s)(ob := (objs s ob)\<lparr>obj_type := c OR RT_Object_Class_Static,
      obj_name := rt_strncpy name RT_NAME_MAX\<rparr>) \<and> sched_ready s'"
proof -
  obtain s1 where s1: "rt_object_init_check ob c s = Some (i, s1)" "sched_frame s s1" "sched_ready s1"
    using init_check_total [OF assms] by blast
  let ?s = "rt_object_init_attach ob c name i s1"
  have "sched_inv ?s"
    by (rule sched_inv_cong [of s1]) (use s1(3) in \<open>auto simp: sched_ready_def rt_object_init_attach_def Let_def\<close>)
  then have "sched_ready ?s"
    using s1(3) by (simp add: sched_ready_def rt_object_init_attach_def Let_def running_ok_def
        mask_ok_def stack_ok_def)
  then show ?thesis
    using s1 by (auto simp: rt_object_init_def rt_object_init_attach_def Let_def sched_frame_fields)
qed

lemma find_total:
  assumes "sched_ready s" "interrupt_nest s = 0" "rt_object_get_information c = Some i"
    "c \<le> RT_Object_Class_Unknown"
  shows "\<exists>s'. rt_object_find (Some name) c s =
    Some (find_name (objs s) name (object_lists s i), s') \<and> sched_frame s s' \<and> sched_ready s'"
  using critical_total [OF assms(1)] assms(2-4)
  by (auto simp: rt_object_find_def Let_def rt_enter_critical_def)

lemma class_le_unknown: "rt_object_get_information c = Some i \<Longrightarrow> c \<le> RT_Object_Class_Unknown"
  by (auto simp: rt_object_get_information_def object_classes_def class_defs split: if_splits)

lemma init_find:
  assumes "sched_ready s" "interrupt_nest s = 0" "rt_object_get_information c = Some i"
    "ob \<notin> set (object_lists s i)" "c_string name"
  shows "\<exists>s1 s2. rt_object_init ob c name s = Some s1 \<and> rt_object_find (Some name) c s1 = Some (ob, s2)"
proof -
  obtain s1 where s1: "rt_object_init ob c name s = Some s1"
    "object_lists s1 = (object_lists s)(i := ob # object_lists s i)"
    "objs s1 = (objs s)(ob := (objs s ob)\<lparr>obj_type := c OR RT_Object_Class_Static,
      obj_name := rt_strncpy name RT_NAME_MAX\<rparr>)" "sched_ready s1"
    using object_init_total [OF assms(1,3,4)] by blast
  have n: "interrupt_nest s1 = 0"
    using s1(1) assms(2) init_check_total [OF assms(1,3,4)]
    by (auto simp: rt_object_init_def rt_object_init_attach_def Let_def sched_frame_fields)
  show ?thesis
    using find_total [OF s1(4) n assms(3) class_le_unknown [OF assms(3)], of name] s1 assms(5)
    by (auto simp: strncmp_strncpy)
qed

end
