(* ===== verification/RT_Timer.thy ===== *)
theory RT_Timer
  imports RT_Object
begin

text \<open>
  The part of \<^verbatim>\<open>rt-thread/src/timer.c\<close> that does not need threads: initialising, detaching,
  stopping and controlling a timer, and the place of a timer on its list.  The skip list has one
  level (\<open>RT_TIMER_SKIP_LIST_LEVEL\<close> is 1), so a timer list is a sequence; the counter
  \<open>random_nr\<close>, which only chooses the height of a timer, is left out.
\<close>

definition rt_timer_init_fields :: "ptr \<Rightarrow> timeout_fn \<Rightarrow> ptr \<Rightarrow> u32 \<Rightarrow> u8 \<Rightarrow> kstate \<Rightarrow> kstate" where
  "rt_timer_init_fields timer timeout parameter time flag s =
     upd_timer timer (\<lambda>tm. tm\<lparr>tm_timeout_func := timeout, tm_parameter := parameter,
         tm_timeout_tick := 0, tm_init_tick := time\<rparr>)
       (upd_obj timer (obj_flag_update (\<lambda>_. flag AND NOT RT_TIMER_FLAG_ACTIVATED)) s)"

definition rt_timer_init :: "ptr \<Rightarrow> string \<Rightarrow> timeout_fn \<Rightarrow> ptr \<Rightarrow> u32 \<Rightarrow> u8 \<Rightarrow> kstate \<Rightarrow> kstate option" where
  "rt_timer_init timer name timeout parameter time flag s = do {
     RT_ASSERT (timer \<noteq> RT_NULL);
     s1 \<leftarrow> rt_object_init timer RT_Object_Class_Timer name s;
     Some (rt_timer_init_fields timer timeout parameter time flag s1)
   }"

definition rt_timer_remove :: "ptr \<Rightarrow> kstate \<Rightarrow> kstate" where
  "rt_timer_remove timer s = trows_update (seq_remove timer) s"

definition rt_timer_detach :: "ptr \<Rightarrow> kstate \<Rightarrow> (rt_err_t \<times> kstate) option" where
  "rt_timer_detach timer s = do {
     RT_ASSERT (timer \<noteq> RT_NULL);
     assert_type timer RT_Object_Class_Timer s;
     assert_static timer True s;
     let s1 = rt_timer_remove timer s;
     s2 \<leftarrow> rt_object_detach timer s1;
     Some (RT_EOK, s2)
   }"

definition rt_timer_stop :: "ptr \<Rightarrow> kstate \<Rightarrow> (rt_err_t \<times> kstate) option" where
  "rt_timer_stop timer s = do {
     RT_ASSERT (timer \<noteq> RT_NULL);
     assert_type timer RT_Object_Class_Timer s;
     if obj_flag (objs s timer) AND RT_TIMER_FLAG_ACTIVATED = 0
     then Some (- RT_ERROR, s)
     else Some (RT_EOK, upd_obj timer (obj_flag_update (\<lambda>f. f AND NOT RT_TIMER_FLAG_ACTIVATED))
       (rt_timer_remove timer s))
   }"

datatype timer_cmd = Set_time | Get_time | Set_oneshot | Set_periodic | Other_timer_cmd

text \<open>\<open>arg\<close> is the word that the argument points to; the new word is returned with the state.\<close>

definition rt_timer_control :: "ptr \<Rightarrow> timer_cmd \<Rightarrow> u32 \<Rightarrow> kstate \<Rightarrow> (rt_err_t \<times> u32 \<times> kstate) option" where
  "rt_timer_control timer cmd arg s = do {
     RT_ASSERT (timer \<noteq> RT_NULL);
     assert_type timer RT_Object_Class_Timer s;
     Some (case cmd of
         Get_time \<Rightarrow> (RT_EOK, tm_init_tick (timers s timer), s)
       | Set_time \<Rightarrow> (RT_EOK, arg, upd_timer timer (tm_init_tick_update (\<lambda>_. arg)) s)
       | Set_oneshot \<Rightarrow> (RT_EOK, arg,
           upd_obj timer (obj_flag_update (\<lambda>f. f AND NOT RT_TIMER_FLAG_PERIODIC)) s)
       | Set_periodic \<Rightarrow> (RT_EOK, arg,
           upd_obj timer (obj_flag_update (\<lambda>f. f OR RT_TIMER_FLAG_PERIODIC)) s)
       | Other_timer_cmd \<Rightarrow> (RT_EOK, arg, s))
   }"

text \<open>The inner loop of \<open>rt_timer_start\<close>: where a timer with timeout \<open>new\<close> is linked in.\<close>

abbreviation half_range :: u32 where "half_range \<equiv> RT_TICK_MAX div 2"

fun timer_insert :: "(ptr \<Rightarrow> u32) \<Rightarrow> ptr \<Rightarrow> ptr list \<Rightarrow> ptr list" where
  "timer_insert tmo timer [] = [timer]"
| "timer_insert tmo timer (t # ts) =
     (if tmo t - tmo timer = 0 then t # timer_insert tmo timer ts
      else if tmo t - tmo timer < half_range then timer # t # ts
      else t # timer_insert tmo timer ts)"

definition rt_timer_list_next_timeout :: "timer_head \<Rightarrow> kstate \<Rightarrow> u32" where
  "rt_timer_list_next_timeout h s =
     (case trows s h of [] \<Rightarrow> RT_TICK_MAX | timer # _ \<Rightarrow> tm_timeout_tick (timers s timer))"

definition rt_timer_next_timeout_tick :: "kstate \<Rightarrow> u32" where
  "rt_timer_next_timeout_tick s = rt_timer_list_next_timeout Hard_list s"

definition rt_system_timer_init :: "kstate \<Rightarrow> kstate" where
  "rt_system_timer_init s = s\<lparr>trows := (trows s)(Hard_list := [])\<rparr>"

definition rt_tick_get :: "kstate \<Rightarrow> u32" where
  "rt_tick_get s = tick s"

definition rt_tick_set :: "u32 \<Rightarrow> kstate \<Rightarrow> kstate" where
  "rt_tick_set t s = s\<lparr>tick := t\<rparr>"

subsection \<open>Order of a timer list\<close>

text \<open>
  Ticks wrap round.  Seen from a tick \<open>base\<close> that no timer of the list precedes, the distance to
  a timeout is a plain number; the code compares by the sign of a wrapped difference, which is
  right as long as all distances are below half of the range.
\<close>

definition due :: "u32 \<Rightarrow> u32 \<Rightarrow> nat" where
  "due base t = unat (t - base)"

definition window :: "u32 \<Rightarrow> (ptr \<Rightarrow> u32) \<Rightarrow> ptr list \<Rightarrow> bool" where
  "window base tmo ts \<longleftrightarrow> (\<forall>t \<in> set ts. due base (tmo t) < unat half_range)"

definition timers_sorted :: "u32 \<Rightarrow> (ptr \<Rightarrow> u32) \<Rightarrow> ptr list \<Rightarrow> bool" where
  "timers_sorted base tmo ts \<longleftrightarrow> sorted_wrt (\<lambda>a b. due base (tmo a) \<le> due base (tmo b)) ts"

lemma half_range_unat: "unat half_range = 2147483647"
  by (simp add: RT_TICK_MAX_def)

lemma due_diff:
  assumes "due base a < unat half_range" "due base b < unat half_range"
  shows "a - b = 0 \<longleftrightarrow> due base a = due base b"
    "a - b \<noteq> 0 \<Longrightarrow> a - b < half_range \<longleftrightarrow> due base b < due base a"
proof -
  have ab: "a - b = (a - base) - (b - base)" by simp
  show eq: "a - b = 0 \<longleftrightarrow> due base a = due base b"
    by (simp add: due_def word_unat_eq_iff [symmetric])
  assume ne: "a - b \<noteq> 0"
  show "a - b < half_range \<longleftrightarrow> due base b < due base a"
  proof (cases "due base b < due base a")
    case True
    then have "b - base \<le> a - base" by (simp add: due_def word_le_nat_alt)
    then have "unat (a - b) = due base a - due base b"
      unfolding ab due_def by (rule unat_sub)
    then show ?thesis using True assms by (simp add: word_less_nat_alt)
  next
    case False
    then have "due base a < due base b" using ne eq by auto
    moreover have "unat (a - b) = unat ((a - base) - (b - base))" by simp
    ultimately have "unat (a - b) = 2 ^ 32 + due base a - due base b"
      using unat_sub_if' [of "a - base" "b - base"] by (simp add: due_def word_le_nat_alt)
    then have "\<not> a - b < half_range"
      using assms half_range_unat by (simp add: word_less_nat_alt)
    then show ?thesis using False by simp
  qed
qed

lemma set_timer_insert [simp]: "set (timer_insert tmo timer ts) = insert timer (set ts)"
  by (induction ts) auto

lemma length_timer_insert [simp]: "length (timer_insert tmo timer ts) = Suc (length ts)"
  by (induction ts) auto

lemma distinct_timer_insert: "distinct ts \<Longrightarrow> timer \<notin> set ts \<Longrightarrow> distinct (timer_insert tmo timer ts)"
  by (induction ts) auto

lemma timer_insert_sorted:
  assumes "timers_sorted base tmo ts" "window base tmo (timer # ts)"
  shows "timers_sorted base tmo (timer_insert tmo timer ts)"
  using assms
proof (induction ts)
  case Nil
  then show ?case by (simp add: timers_sorted_def)
next
  case (Cons t ts)
  have w: "due base (tmo t) < unat half_range" "due base (tmo timer) < unat half_range"
    using Cons.prems(2) by (auto simp: window_def)
  note d = due_diff [OF w]
  have ih: "timers_sorted base tmo (timer_insert tmo timer ts)"
    using Cons by (auto simp: timers_sorted_def window_def)
  have le: "\<forall>u \<in> set ts. due base (tmo t) \<le> due base (tmo u)"
    using Cons.prems(1) by (simp add: timers_sorted_def)
  show ?case
  proof (cases "due base (tmo timer) < due base (tmo t)")
    case True
    then have "timer_insert tmo timer (t # ts) = timer # t # ts" using d by auto
    then show ?thesis using True le Cons.prems(1) by (auto simp: timers_sorted_def)
  next
    case False
    then have "timer_insert tmo timer (t # ts) = t # timer_insert tmo timer ts" using d by auto
    then show ?thesis using False le ih by (auto simp: timers_sorted_def)
  qed
qed

text \<open>Timers with the same timeout keep the order in which they were started.\<close>

lemma timer_insert_after_equal:
  assumes "timers_sorted base tmo ts" "window base tmo (timer # ts)" "timer \<notin> set ts"
  shows "timer_insert tmo timer ts =
    filter (\<lambda>t. due base (tmo t) \<le> due base (tmo timer)) ts @ timer #
    filter (\<lambda>t. \<not> due base (tmo t) \<le> due base (tmo timer)) ts"
  using assms
proof (induction ts)
  case (Cons t ts)
  have w: "due base (tmo t) < unat half_range" "due base (tmo timer) < unat half_range"
    using Cons.prems(2) by (auto simp: window_def)
  note d = due_diff [OF w]
  have ih: "timer_insert tmo timer ts =
      filter (\<lambda>t. due base (tmo t) \<le> due base (tmo timer)) ts @ timer #
      filter (\<lambda>t. \<not> due base (tmo t) \<le> due base (tmo timer)) ts"
    using Cons by (auto simp: timers_sorted_def window_def)
  have le: "\<forall>u \<in> set ts. due base (tmo t) \<le> due base (tmo u)"
    using Cons.prems(1) by (simp add: timers_sorted_def)
  show ?case
  proof (cases "due base (tmo timer) < due base (tmo t)")
    case True
    then have "\<forall>u \<in> set ts. \<not> due base (tmo u) \<le> due base (tmo timer)"
      using le by force
    then show ?thesis using True d by (auto simp: filter_id_conv filter_empty_conv)
  next
    case False
    then show ?thesis using d ih by auto
  qed
qed simp

lemma expired_iff:
  assumes "due base t < unat half_range" "due base now < unat half_range"
  shows "now - t < half_range \<longleftrightarrow> due base t \<le> due base now"
  using due_diff [OF assms(2,1)] half_range_unat
  by (cases "now - t = 0") (auto simp: word_less_nat_alt)

end
