(* ===== verification/RT_Thread.thy ===== *)
theory RT_Thread
  imports RT_Timer
begin

text \<open>
  Threads and the started timers: \<^verbatim>\<open>rt-thread/src/thread.c\<close>, \<open>rt_timer_start\<close> and the timer
  checks of \<^verbatim>\<open>timer.c\<close>, the tick of \<^verbatim>\<open>clock.c\<close>, the interrupt nesting of \<^verbatim>\<open>irq.c\<close>, and the
  initial stack frame of \<^verbatim>\<open>libcpu/arm/cortex-m3/cpuport.c\<close>.

  A function that waits is cut at its call of \<open>rt_schedule\<close>: the definition with the name of the
  C function stops there, and the one with the suffix \<open>_wakeup\<close> is the rest, which the thread
  executes when it runs again.
\<close>

subsection \<open>Initial stack\<close>

definition put_word :: "u32 \<Rightarrow> u32 \<Rightarrow> (u32 \<Rightarrow> u8) \<Rightarrow> (u32 \<Rightarrow> u8)" where
  "put_word a w m = m(a := ucast w, a + 1 := ucast (drop_bit 8 w),
     a + 2 := ucast (drop_bit 16 w), a + 3 := ucast (drop_bit 24 w))"

text \<open>\<open>sizeof(struct stack_frame)\<close> is 64: \<open>r4\<close> to \<open>r11\<close>, then the frame of the exception.\<close>

fun put_words :: "u32 \<Rightarrow> u32 list \<Rightarrow> (u32 \<Rightarrow> u8) \<Rightarrow> (u32 \<Rightarrow> u8)" where
  "put_words a [] m = m"
| "put_words a (w # ws) m = put_words (a + 4) ws (put_word a w m)"

definition rt_hw_stack_init ::
  "u32 \<Rightarrow> u32 \<Rightarrow> u32 \<Rightarrow> u32 \<Rightarrow> (u32 \<Rightarrow> u8) \<Rightarrow> u32 \<times> (u32 \<Rightarrow> u8)" where
  "rt_hw_stack_init tentry parameter stack_addr texit m =
     (let stk = stack_addr + 4;
          stk = stk AND NOT 7;
          stk = stk - 64;
          m1 = put_words stk (replicate 16 0xdeadbeef) m;
          m2 = put_words (stk + 32) [parameter, 0, 0, 0, 0, texit, tentry, 0x01000000] m1
      in (stk, m2))"

subsection \<open>Suspending and resuming\<close>

definition rt_thread_self :: "kstate \<Rightarrow> ptr" where
  "rt_thread_self s = current_thread s"

definition rt_thread_suspend :: "ptr \<Rightarrow> kstate \<Rightarrow> (rt_err_t \<times> kstate) option" where
  "rt_thread_suspend thread s = do {
     RT_ASSERT (thread \<noteq> RT_NULL);
     assert_type thread RT_Object_Class_Thread s;
     let stat = stat_of s thread;
     if stat \<noteq> RT_THREAD_READY \<and> stat \<noteq> RT_THREAD_RUNNING then Some (- RT_ERROR, s)
     else do {
       RT_ASSERT (stat = RT_THREAD_RUNNING \<longrightarrow> thread = rt_thread_self s);
       s1 \<leftarrow> rt_schedule_remove_thread thread s;
       let s2 = set_stat_field thread RT_THREAD_SUSPEND s1;
       (r, s3) \<leftarrow> rt_timer_stop (Thread_timer thread) s2;
       Some (RT_EOK, s3)
     }
   }"

definition rt_thread_resume :: "ptr \<Rightarrow> kstate \<Rightarrow> (rt_err_t \<times> kstate) option" where
  "rt_thread_resume thread s = do {
     RT_ASSERT (thread \<noteq> RT_NULL);
     assert_type thread RT_Object_Class_Thread s;
     if stat_of s thread \<noteq> RT_THREAD_SUSPEND then Some (- RT_ERROR, s)
     else do {
       let s1 = tlists_update (seq_remove thread) s;
       (r, s2) \<leftarrow> rt_timer_stop (Thread_timer thread) s1;
       s3 \<leftarrow> rt_schedule_insert_thread thread s2;
       Some (RT_EOK, s3)
     }
   }"

definition rt_thread_timeout :: "ptr \<Rightarrow> kstate \<Rightarrow> kstate option" where
  "rt_thread_timeout parameter s = do {
     let thread = parameter;
     RT_ASSERT (thread \<noteq> RT_NULL);
     RT_ASSERT (stat_of s thread = RT_THREAD_SUSPEND);
     assert_type thread RT_Object_Class_Thread s;
     let s1 = set_error thread (- RT_ETIMEOUT) s;
     let s2 = tlists_update (seq_remove thread) s1;
     s3 \<leftarrow> rt_schedule_insert_thread thread s2;
     rt_schedule s3
   }"

subsection \<open>Creating and ending a thread\<close>

text \<open>\<open>rt_thread_init\<close>; \<open>texit\<close> is the address of \<open>rt_thread_exit\<close>, which the linker chooses.\<close>

definition thread_init_fields ::
  "u32 \<Rightarrow> ptr \<Rightarrow> u32 \<Rightarrow> u32 \<Rightarrow> u32 \<Rightarrow> u32 \<Rightarrow> u8 \<Rightarrow> u32 \<Rightarrow> kstate \<Rightarrow> kstate option" where
  "thread_init_fields texit thread entry parameter stack_start stack_size priority ticks s = do {
     let ram1 = (\<lambda>a. if a - stack_start < stack_size then 0x23 else ram s a);
     let (sp, ram2) = rt_hw_stack_init entry parameter (stack_start + stack_size - 4) texit ram1;
     RT_ASSERT (unat priority < RT_THREAD_PRIORITY_MAX);
     Some (upd_thread thread (\<lambda>th. th\<lparr>th_entry := entry, th_parameter := parameter,
       th_stack_addr := stack_start, th_stack_size := stack_size, th_sp := sp,
       th_init_priority := priority, th_current_priority := priority, th_number_mask := 0,
       th_init_tick := ticks, th_remaining_tick := ticks, th_error := RT_EOK,
       th_stat := RT_THREAD_INIT, th_cleanup := 0, th_user_data := 0\<rparr>) (s\<lparr>ram := ram2\<rparr>))
   }"

definition rt_thread_init_common ::
  "u32 \<Rightarrow> ptr \<Rightarrow> u32 \<Rightarrow> u32 \<Rightarrow> u32 \<Rightarrow> u32 \<Rightarrow> u8 \<Rightarrow> u32 \<Rightarrow> kstate \<Rightarrow> (rt_err_t \<times> kstate) option" where
  "rt_thread_init_common texit thread entry parameter stack_start stack_size priority ticks s = do {
     s1 \<leftarrow> thread_init_fields texit thread entry parameter stack_start stack_size priority ticks s;
     s2 \<leftarrow> rt_timer_init (Thread_timer thread) (obj_name (objs s1 thread)) Rt_thread_timeout thread 0
       RT_TIMER_FLAG_ONE_SHOT s1;
     Some (RT_EOK, s2)
   }"

definition rt_thread_init ::
  "u32 \<Rightarrow> ptr \<Rightarrow> string \<Rightarrow> u32 \<Rightarrow> u32 \<Rightarrow> u32 \<Rightarrow> u32 \<Rightarrow> u8 \<Rightarrow> u32 \<Rightarrow> kstate \<Rightarrow> (rt_err_t \<times> kstate) option" where
  "rt_thread_init texit thread name entry parameter stack_start stack_size priority ticks s = do {
     RT_ASSERT (thread \<noteq> RT_NULL);
     RT_ASSERT (stack_start \<noteq> 0);
     s1 \<leftarrow> rt_object_init thread RT_Object_Class_Thread name s;
     rt_thread_init_common texit thread entry parameter stack_start stack_size priority ticks s1
   }"

text \<open>\<open>rt_thread_create\<close>; \<open>mem\<close> and \<open>stack\<close> are what the two calls of \<open>RT_KERNEL_MALLOC\<close> returned.\<close>

definition rt_thread_create ::
  "ptr \<Rightarrow> u32 \<Rightarrow> u32 \<Rightarrow> string \<Rightarrow> u32 \<Rightarrow> u32 \<Rightarrow> u32 \<Rightarrow> u8 \<Rightarrow> u32 \<Rightarrow> kstate \<Rightarrow> (ptr \<times> kstate) option" where
  "rt_thread_create mem stack texit name entry parameter stack_size priority ticks s = do {
     (thread, s1) \<leftarrow> rt_object_allocate mem RT_Object_Class_Thread name s;
     if thread = RT_NULL then Some (RT_NULL, s1)
     else if stack = 0 then do { s2 \<leftarrow> rt_object_delete thread s1; Some (RT_NULL, s2) }
     else do {
       (r, s2) \<leftarrow> rt_thread_init_common texit thread entry parameter stack stack_size priority ticks s1;
       Some (thread, s2)
     }
   }"

definition rt_thread_startup :: "ptr \<Rightarrow> kstate \<Rightarrow> (rt_err_t \<times> kstate) option" where
  "rt_thread_startup thread s = do {
     RT_ASSERT (thread \<noteq> RT_NULL);
     RT_ASSERT (stat_of s thread = RT_THREAD_INIT);
     assert_type thread RT_Object_Class_Thread s;
     let prio = th_init_priority (threads s thread);
     let s1 = upd_thread thread (\<lambda>th. th\<lparr>th_current_priority := prio,
         th_number_mask := push_bit (unat prio) 1, th_stat := RT_THREAD_SUSPEND\<rparr>) s;
     (r, s2) \<leftarrow> rt_thread_resume thread s1;
     s3 \<leftarrow> (if rt_thread_self s2 \<noteq> RT_NULL then rt_schedule s2 else Some s2);
     Some (RT_EOK, s3)
   }"

definition rt_thread_exit :: "kstate \<Rightarrow> kstate option" where
  "rt_thread_exit s = do {
     let thread = rt_thread_self s;
     s1 \<leftarrow> rt_schedule_remove_thread thread s;
     let s2 = set_stat thread RT_THREAD_CLOSE s1;
     (r, s3) \<leftarrow> rt_timer_detach (Thread_timer thread) s2;
     static \<leftarrow> rt_object_is_systemobject thread s3;
     s4 \<leftarrow> (if static \<and> th_cleanup (threads s3 thread) = 0
       then rt_object_detach thread s3
       else Some (tlists_update (seq_insert_after_head Defunct thread) s3));
     rt_schedule s4
   }"

definition rt_thread_detach :: "ptr \<Rightarrow> kstate \<Rightarrow> (rt_err_t \<times> kstate) option" where
  "rt_thread_detach thread s = do {
     RT_ASSERT (thread \<noteq> RT_NULL);
     assert_type thread RT_Object_Class_Thread s;
     assert_static thread True s;
     s1 \<leftarrow> (if stat_of s thread \<noteq> RT_THREAD_INIT then rt_schedule_remove_thread thread s else Some s);
     (r, s2) \<leftarrow> rt_timer_detach (Thread_timer thread) s1;
     let s3 = set_stat thread RT_THREAD_CLOSE s2;
     static \<leftarrow> rt_object_is_systemobject thread s3;
     s4 \<leftarrow> (if static \<and> th_cleanup (threads s3 thread) = 0
       then rt_object_detach thread s3
       else Some (tlists_update (seq_insert_after_head Defunct thread) s3));
     Some (RT_EOK, s4)
   }"

definition rt_thread_delete :: "ptr \<Rightarrow> kstate \<Rightarrow> (rt_err_t \<times> kstate) option" where
  "rt_thread_delete thread s = do {
     RT_ASSERT (thread \<noteq> RT_NULL);
     assert_type thread RT_Object_Class_Thread s;
     assert_static thread False s;
     s1 \<leftarrow> (if stat_of s thread \<noteq> RT_THREAD_INIT then rt_schedule_remove_thread thread s else Some s);
     (r, s2) \<leftarrow> rt_timer_detach (Thread_timer thread) s1;
     let s3 = set_stat thread RT_THREAD_CLOSE s2;
     Some (RT_EOK, tlists_update (seq_insert_after_head Defunct thread) s3)
   }"

subsection \<open>Control\<close>

datatype thread_cmd = Change_priority u8 | Startup | Close | Other_thread_cmd

definition change_priority :: "ptr \<Rightarrow> u8 \<Rightarrow> kstate \<Rightarrow> kstate" where
  "change_priority thread prio s =
     upd_thread thread (\<lambda>th. th\<lparr>th_current_priority := prio,
       th_number_mask := push_bit (unat prio) 1\<rparr>) s"

definition rt_thread_control :: "ptr \<Rightarrow> thread_cmd \<Rightarrow> kstate \<Rightarrow> (rt_err_t \<times> kstate) option" where
  "rt_thread_control thread cmd s = do {
     RT_ASSERT (thread \<noteq> RT_NULL);
     assert_type thread RT_Object_Class_Thread s;
     case cmd of
       Change_priority arg \<Rightarrow>
         if stat_of s thread = RT_THREAD_READY then do {
           s1 \<leftarrow> rt_schedule_remove_thread thread s;
           s2 \<leftarrow> rt_schedule_insert_thread thread (change_priority thread arg s1);
           Some (RT_EOK, s2)
         }
         else Some (RT_EOK, change_priority thread arg s)
     | Startup \<Rightarrow> rt_thread_startup thread s
     | Close \<Rightarrow> rt_thread_delete thread s
     | Other_thread_cmd \<Rightarrow> Some (RT_EOK, s)
   }"

definition rt_thread_yield :: "kstate \<Rightarrow> (rt_err_t \<times> kstate) option" where
  "rt_thread_yield s = do { s1 \<leftarrow> rt_schedule s; Some (RT_EOK, s1) }"

text \<open>\<open>rt_thread_find\<close> looks the name up on the list of threads.\<close>

definition rt_thread_find :: "string \<Rightarrow> kstate \<Rightarrow> (ptr \<times> kstate) option" where
  "rt_thread_find name s = do {
     let s1 = (if rt_thread_self s \<noteq> RT_NULL then rt_enter_critical s else s);
     information \<leftarrow> rt_object_get_information RT_Object_Class_Thread;
     let object = find_name (objs s1) name (object_lists s1 information);
     s2 \<leftarrow> (if rt_thread_self s1 \<noteq> RT_NULL then rt_exit_critical s1 else Some s1);
     Some (object, s2)
   }"

subsection \<open>Starting a timer\<close>

text \<open>
  The critical part of \<open>rt_timer_start\<close>; a soft timer then wakes the timer thread if that sleeps.
\<close>

definition timer_arm :: "ptr \<Rightarrow> kstate \<Rightarrow> kstate" where
  "timer_arm timer s =
     (let s1 = upd_timer timer (\<lambda>tm. tm\<lparr>tm_timeout_tick := rt_tick_get s + tm_init_tick tm\<rparr>) s;
          timer_list = (if obj_flag (objs s1 timer) AND RT_TIMER_FLAG_SOFT_TIMER \<noteq> 0
            then Soft_list else Hard_list);
          s2 = s1\<lparr>trows := (trows s1)(timer_list :=
            timer_insert (\<lambda>t. tm_timeout_tick (timers s1 t)) timer (trows s1 timer_list))\<rparr>
      in upd_obj timer (obj_flag_update (\<lambda>f. f OR RT_TIMER_FLAG_ACTIVATED)) s2)"

definition rt_timer_start :: "ptr \<Rightarrow> kstate \<Rightarrow> (rt_err_t \<times> kstate) option" where
  "rt_timer_start timer s = do {
     RT_ASSERT (timer \<noteq> RT_NULL);
     assert_type timer RT_Object_Class_Timer s;
     let s1 = upd_obj timer (obj_flag_update (\<lambda>f. f AND NOT RT_TIMER_FLAG_ACTIVATED))
       (rt_timer_remove timer s);
     RT_ASSERT (tm_init_tick (timers s1 timer) < half_range);
     let s2 = timer_arm timer s1;
     if obj_flag (objs s2 timer) AND RT_TIMER_FLAG_SOFT_TIMER \<noteq> 0 \<and>
        stat_of s2 Timer_thread = RT_THREAD_SUSPEND
     then do {
       (r, s3) \<leftarrow> rt_thread_resume Timer_thread s2;
       s4 \<leftarrow> rt_schedule s3;
       Some (RT_EOK, s4)
     }
     else Some (RT_EOK, s2)
   }"

subsection \<open>Sleeping\<close>

definition rt_thread_sleep :: "u32 \<Rightarrow> kstate \<Rightarrow> kstate option" where
  "rt_thread_sleep ticks s = do {
     let thread = rt_thread_self s;
     RT_ASSERT (thread \<noteq> RT_NULL);
     assert_type thread RT_Object_Class_Thread s;
     (r1, s1) \<leftarrow> rt_thread_suspend thread s;
     (r2, ticks2, s2) \<leftarrow> rt_timer_control (Thread_timer thread) Set_time ticks s1;
     (r3, s3) \<leftarrow> rt_timer_start (Thread_timer thread) s2;
     rt_schedule s3
   }"

definition rt_thread_sleep_wakeup :: "ptr \<Rightarrow> kstate \<Rightarrow> rt_err_t \<times> kstate" where
  "rt_thread_sleep_wakeup thread s =
     (RT_EOK, if th_error (threads s thread) = - RT_ETIMEOUT then set_error thread RT_EOK s else s)"

definition RT_TICK_PER_SECOND :: int where "RT_TICK_PER_SECOND = 1000"

text \<open>\<open>ms\<close> is a signed 32 bit number; division and remainder of a non-negative number truncate.\<close>

definition rt_tick_from_millisecond :: "u32 \<Rightarrow> u32" where
  "rt_tick_from_millisecond ms =
     (if sint ms < 0 then word_of_int (- 1)
      else word_of_int (RT_TICK_PER_SECOND * (sint ms div 1000)) +
           word_of_int ((RT_TICK_PER_SECOND * (sint ms mod 1000) + 999) div 1000))"

definition rt_thread_mdelay :: "u32 \<Rightarrow> kstate \<Rightarrow> kstate option" where
  "rt_thread_mdelay ms s = rt_thread_sleep (rt_tick_from_millisecond ms) s"

subsection \<open>Timer checks and the tick\<close>

text \<open>
  \<open>app\<close> is the code of the application's callbacks.  A callback may do anything to the state, and
  a periodic timer with a period of zero ticks is due again at once, so the loop need not end.
\<close>

definition run_timeout :: "(nat \<Rightarrow> ptr \<Rightarrow> kstate \<Rightarrow> kstate option) \<Rightarrow> ptr \<Rightarrow> kstate \<Rightarrow> kstate option" where
  "run_timeout app t s =
     (case tm_timeout_func (timers s t) of
        Rt_thread_timeout \<Rightarrow> rt_thread_timeout (tm_parameter (timers s t)) s
      | Application n \<Rightarrow> app n (tm_parameter (timers s t)) s)"

text \<open>What follows the callback: a periodic timer that is still active is started again.\<close>

definition timer_rearm :: "ptr \<Rightarrow> kstate \<Rightarrow> kstate option" where
  "timer_rearm t s =
     (let s1 = upd_obj t (obj_flag_update (\<lambda>f. f AND NOT RT_TIMER_FLAG_ACTIVATED)) s
      in if obj_flag (objs s t) AND RT_TIMER_FLAG_PERIODIC \<noteq> 0 \<and>
            obj_flag (objs s t) AND RT_TIMER_FLAG_ACTIVATED \<noteq> 0
         then do { (r, s2) \<leftarrow> rt_timer_start t s1; Some s2 }
         else Some s1)"

partial_function (option) timer_check_loop ::
  "(nat \<Rightarrow> ptr \<Rightarrow> kstate \<Rightarrow> kstate option) \<Rightarrow> u32 \<Rightarrow> kstate \<Rightarrow> kstate option" where
  "timer_check_loop app current_tick s =
     (case trows s Hard_list of
        [] \<Rightarrow> Some s
      | t # _ \<Rightarrow>
        if current_tick - tm_timeout_tick (timers s t) < half_range then do {
          s1 \<leftarrow> run_timeout app t (rt_timer_remove t s);
          s2 \<leftarrow> timer_rearm t s1;
          timer_check_loop app (rt_tick_get s1) s2
        }
        else Some s)"

definition rt_timer_check :: "(nat \<Rightarrow> ptr \<Rightarrow> kstate \<Rightarrow> kstate option) \<Rightarrow> kstate \<Rightarrow> kstate option" where
  "rt_timer_check app s = timer_check_loop app (rt_tick_get s) s"

text \<open>
  The soft timers run in the timer thread, with the scheduler locked outside the callbacks.  The
  loop walks with a saved pointer \<open>n\<close>; \<open>Soft_list\<close> ends the walk when \<open>n\<close> is the list head.  A row
  that has been taken off the list, by the callback of the timer before it, points to itself.
\<close>

definition next_row :: "ptr list \<Rightarrow> ptr \<Rightarrow> ptr option" where
  "next_row ts t =
     (if t \<in> set ts then (case dropWhile (\<lambda>u. u \<noteq> t) ts of _ # u # _ \<Rightarrow> Some u | _ \<Rightarrow> None)
      else Some t)"

partial_function (option) soft_timer_loop ::
  "(nat \<Rightarrow> ptr \<Rightarrow> kstate \<Rightarrow> kstate option) \<Rightarrow> u32 \<Rightarrow> ptr option \<Rightarrow> kstate \<Rightarrow> kstate option" where
  "soft_timer_loop app current_tick n s =
     (case n of
        None \<Rightarrow> Some s
      | Some t \<Rightarrow>
        if current_tick - tm_timeout_tick (timers s t) < half_range then do {
          let n' = next_row (trows s Soft_list) t;
          s1 \<leftarrow> rt_exit_critical (rt_timer_remove t s);
          s2 \<leftarrow> run_timeout app t s1;
          let s3 = rt_enter_critical s2;
          s4 \<leftarrow> timer_rearm t s3;
          soft_timer_loop app (rt_tick_get s2) n' s4
        }
        else Some s)"

definition rt_soft_timer_check :: "(nat \<Rightarrow> ptr \<Rightarrow> kstate \<Rightarrow> kstate option) \<Rightarrow> kstate \<Rightarrow> kstate option" where
  "rt_soft_timer_check app s = do {
     let current_tick = rt_tick_get s;
     let s1 = rt_enter_critical s;
     s2 \<leftarrow> soft_timer_loop app current_tick
       (case trows s1 Soft_list of [] \<Rightarrow> None | t # _ \<Rightarrow> Some t) s1;
     rt_exit_critical s2
   }"

definition rt_tick_increase :: "(nat \<Rightarrow> ptr \<Rightarrow> kstate \<Rightarrow> kstate option) \<Rightarrow> kstate \<Rightarrow> kstate option" where
  "rt_tick_increase app s = do {
     let s1 = s\<lparr>tick := tick s + 1\<rparr>;
     let thread = rt_thread_self s1;
     RT_ASSERT (thread \<noteq> RT_NULL);
     let s2 = upd_thread thread (th_remaining_tick_update (\<lambda>r. r - 1)) s1;
     s3 \<leftarrow> (if th_remaining_tick (threads s2 thread) = 0
       then do {
         (r, s) \<leftarrow> rt_thread_yield (upd_thread thread
           (\<lambda>th. th\<lparr>th_remaining_tick := th_init_tick th\<rparr>) s2);
         Some s
       }
       else Some s2);
     rt_timer_check app s3
   }"

definition rt_interrupt_enter :: "kstate \<Rightarrow> kstate" where
  "rt_interrupt_enter s = s\<lparr>interrupt_nest := interrupt_nest s + 1\<rparr>"

definition rt_interrupt_leave :: "kstate \<Rightarrow> kstate" where
  "rt_interrupt_leave s = s\<lparr>interrupt_nest := interrupt_nest s - 1\<rparr>"

definition rt_interrupt_get_nest :: "kstate \<Rightarrow> u8" where
  "rt_interrupt_get_nest s = interrupt_nest s"

subsection \<open>The error number, \<^verbatim>\<open>src/kservice.c\<close>\<close>

definition rt_get_errno :: "kstate \<Rightarrow> rt_err_t" where
  "rt_get_errno s =
     (if interrupt_nest s \<noteq> 0 then rt_errno s
      else let tid = rt_thread_self s in
        if tid = RT_NULL then rt_errno s else th_error (threads s tid))"

definition rt_set_errno :: "rt_err_t \<Rightarrow> kstate \<Rightarrow> kstate" where
  "rt_set_errno error s =
     (if interrupt_nest s \<noteq> 0 then s\<lparr>rt_errno := error\<rparr>
      else let tid = rt_thread_self s in
        if tid = RT_NULL then s\<lparr>rt_errno := error\<rparr> else set_error tid error s)"

definition RT_WAITING_FOREVER :: u32 where "RT_WAITING_FOREVER = 0xffffffff"

end
