(* ===== verification/RT_Kernel.thy ===== *)
theory RT_Kernel
  imports RT_Thread
begin

text \<open>
  The invariant of the running kernel and the contract of the operations the IPC objects use:
  every scheduler, thread and timer operation that an IPC call makes is total in a state that
  satisfies \<open>kernel_ok\<close>, keeps it, and changes no more than \<open>kernel_frame\<close> allows.
\<close>

named_theorems kernel_simps

definition thread_ok :: "kstate \<Rightarrow> ptr \<Rightarrow> bool" where
  "thread_ok s t \<longleftrightarrow> mask_ok s t \<and> stack_ok s t \<and> has_type s t RT_Object_Class_Thread \<and>
     has_type s (Thread_timer t) RT_Object_Class_Timer \<and>
     obj_flag (objs s (Thread_timer t)) AND RT_TIMER_FLAG_SOFT_TIMER = 0"

definition wait_head :: "tlist_head \<Rightarrow> bool" where
  "wait_head h = (case h of Suspend_thread _ \<Rightarrow> True | Suspend_sender _ \<Rightarrow> True | _ \<Rightarrow> False)"

lemma wait_head_simps [simp]:
  "\<not> wait_head (Ready p)" "\<not> wait_head Defunct" "wait_head (Suspend_thread q)" "wait_head (Suspend_sender q)"
  by (simp_all add: wait_head_def)

text \<open>
  Threads on a list other than the defunct one are complete, threads on a waiting list are
  suspended, and the current thread, which may itself be on a waiting list until the next
  \<open>rt_schedule\<close>, is on no list while it is running.
\<close>

definition kernel_ok :: "kstate \<Rightarrow> bool" where
  "kernel_ok s \<longleftrightarrow> sched_inv s \<and> 0 \<le> sint (lock_nest s) \<and> thread_ok s (current_thread s) \<and>
     (\<forall>h t. t \<in> set (tlists s h) \<longrightarrow> h \<noteq> Defunct \<longrightarrow> thread_ok s t) \<and>
     (\<forall>h t. t \<in> set (tlists s h) \<longrightarrow> wait_head h \<longrightarrow> stat_of s t = RT_THREAD_SUSPEND) \<and>
     (stat_of s (current_thread s) = RT_THREAD_RUNNING \<longrightarrow> \<not> linked (tlists s) (current_thread s))"

lemma kernel_okD:
  assumes "kernel_ok s"
  shows "sched_inv s" "0 \<le> sint (lock_nest s)" "thread_ok s (current_thread s)"
    "t \<in> set (tlists s h) \<Longrightarrow> h \<noteq> Defunct \<Longrightarrow> thread_ok s t"
    "t \<in> set (tlists s h) \<Longrightarrow> wait_head h \<Longrightarrow> stat_of s t = RT_THREAD_SUSPEND"
    "stat_of s (current_thread s) = RT_THREAD_RUNNING \<Longrightarrow> \<not> linked (tlists s) (current_thread s)"
    "table_inv s" "tlists_ok s" "ready_ok s" "\<And>p. current_thread s \<notin> set (tlists s (Ready p))"
  using assms unfolding kernel_ok_def sched_inv_def table_inv_def by blast+

lemma thread_okD:
  assumes "thread_ok s t"
  shows "mask_ok s t" "stack_ok s t" "has_type s t RT_Object_Class_Thread"
    "has_type s (Thread_timer t) RT_Object_Class_Timer" "t \<noteq> RT_NULL"
    "obj_flag (objs s (Thread_timer t)) AND RT_TIMER_FLAG_SOFT_TIMER = 0"
  using assms by (auto simp: thread_ok_def mask_ok_def)

lemma kernel_ok_running: "kernel_ok s \<Longrightarrow> running_ok s"
  unfolding running_ok_def by (metis kernel_okD(3,4,6) thread_okD(1,2) tlist_head.distinct(1))

lemma kernel_ok_ready: "kernel_ok s \<Longrightarrow> sched_ready s"
  by (simp add: sched_ready_def kernel_ok_running kernel_okD)

lemma kernel_ok_current: "kernel_ok s \<Longrightarrow> current_thread s \<noteq> RT_NULL"
  using kernel_okD(3) thread_okD(5) by metis

subsection \<open>Frame\<close>

text \<open>
  What the thread and timer operations leave alone.  They may change status bytes, lists of
  threads and timers, the thread timers and their flags, and which thread is current.
\<close>

definition kernel_frame :: "kstate \<Rightarrow> kstate \<Rightarrow> bool" where
  "kernel_frame s s' \<longleftrightarrow>
     (\<forall>p. obj_type (objs s' p) = obj_type (objs s p) \<and> obj_name (objs s' p) = obj_name (objs s p)) \<and>
     (\<forall>p. (\<forall>t. p \<noteq> Thread_timer t) \<longrightarrow> objs s' p = objs s p) \<and>
     (\<forall>t. obj_flag (objs s' (Thread_timer t)) AND RT_TIMER_FLAG_SOFT_TIMER =
          obj_flag (objs s (Thread_timer t)) AND RT_TIMER_FLAG_SOFT_TIMER) \<and>
     sems s' = sems s \<and> mutexes s' = mutexes s \<and> events s' = events s \<and>
     mailboxes s' = mailboxes s \<and> msgqueues s' = msgqueues s \<and>
     object_lists s' = object_lists s \<and> lock_nest s' = lock_nest s \<and>
     interrupt_nest s' = interrupt_nest s \<and> tick s' = tick s \<and> ram s' = ram s \<and>
     (\<forall>t. thread_frame (threads s t) (threads s' t))"

lemma kernel_frame_refl [simp]: "kernel_frame s s"
  by (simp add: kernel_frame_def)

lemma kernel_frame_trans:
  assumes "kernel_frame s s'" "kernel_frame s' s''"
  shows "kernel_frame s s''"
proof -
  have "thread_frame (threads s t) (threads s'' t)" for t
    using assms by (meson kernel_frame_def thread_frame_trans)
  then show ?thesis using assms by (simp add: kernel_frame_def)
qed

lemma sched_kernel_frame: "sched_frame s s' \<Longrightarrow> kernel_frame s s'"
  by (simp add: sched_frame_def kernel_frame_def)

lemma kernel_frame_fields:
  assumes "kernel_frame s s'"
  shows "sems s' = sems s" "mutexes s' = mutexes s" "events s' = events s"
    "mailboxes s' = mailboxes s" "msgqueues s' = msgqueues s" "object_lists s' = object_lists s"
    "lock_nest s' = lock_nest s" "interrupt_nest s' = interrupt_nest s" "tick s' = tick s"
    "ram s' = ram s" "obj_type (objs s' p) = obj_type (objs s p)"
    "obj_name (objs s' p) = obj_name (objs s p)"
    "(\<And>t. p \<noteq> Thread_timer t) \<Longrightarrow> objs s' p = objs s p"
    "th_error (threads s' t) = th_error (threads s t)"
    "th_current_priority (threads s' t) = th_current_priority (threads s t)"
    "th_event_set (threads s' t) = th_event_set (threads s t)"
    "th_event_info (threads s' t) = th_event_info (threads s t)"
  using assms by (simp_all add: kernel_frame_def thread_frame_def)

lemma kernel_frame_has_type: "kernel_frame s s' \<Longrightarrow> has_type s' p c = has_type s p c"
  by (simp add: has_type_def kernel_frame_fields)

lemma thread_ok_frame:
  assumes "kernel_frame s s'"
  shows "thread_ok s' t = thread_ok s t" "mask_ok s' t = mask_ok s t" "stack_ok s' t = stack_ok s t"
proof -
  note th = kernel_frame_has_type [OF assms]
  show "mask_ok s' t = mask_ok s t" "stack_ok s' t = stack_ok s t"
    using assms by (simp_all add: mask_ok_def stack_ok_def kernel_frame_def thread_frame_def)
  then show "thread_ok s' t = thread_ok s t"
    using assms by (simp add: thread_ok_def th) (simp add: kernel_frame_def)
qed

text \<open>
  Keeping the invariant: a new state within the frame whose lists satisfy the scheduler's
  invariant, and whose waiting threads are suspended.
\<close>

lemma kernel_ok_frameI:
  assumes ok: "kernel_ok s" and f: "kernel_frame s s'" and i: "sched_inv s'"
    and new: "\<And>h t. h \<noteq> Defunct \<Longrightarrow> t \<in> set (tlists s' h) \<Longrightarrow> thread_ok s t"
    and wait: "\<And>h t. wait_head h \<Longrightarrow> t \<in> set (tlists s' h) \<Longrightarrow> stat_of s' t = RT_THREAD_SUSPEND"
    and cur: "thread_ok s (current_thread s')"
      "stat_of s' (current_thread s') = RT_THREAD_RUNNING \<Longrightarrow> \<not> linked (tlists s') (current_thread s')"
  shows "kernel_ok s'"
  unfolding kernel_ok_def thread_ok_frame [OF f] kernel_frame_fields(7) [OF f]
  using assms kernel_okD(2) [OF ok] by blast

text \<open>The objects that no scheduler invariant mentions.\<close>

lemma kernel_ok_object_upd [simp]:
  "kernel_ok (sems_update f1 s) = kernel_ok s"
  "kernel_ok (mutexes_update f2 s) = kernel_ok s"
  "kernel_ok (events_update f3 s) = kernel_ok s"
  "kernel_ok (mailboxes_update f4 s) = kernel_ok s"
  "kernel_ok (msgqueues_update f5 s) = kernel_ok s"
  by (simp_all add: kernel_ok_def sched_inv_def table_inv_def tlists_ok_def ready_ok_def mask_ok_def
      thread_ok_def stack_ok_def has_type_def)

lemma kernel_ok_thread_upd:
  assumes "\<And>th. thread_frame th (f th \<lparr>th_error := th_error th, th_event_set := th_event_set th,
      th_event_info := th_event_info th\<rparr>)" "\<And>th. th_stat (f th) = th_stat th"
  shows "kernel_ok (upd_thread t f s) = kernel_ok s"
proof -
  let ?s = "upd_thread t f s"
  have th: "th_stat (threads ?s u) = th_stat (threads s u)" "th_sp (threads ?s u) = th_sp (threads s u)"
    "th_stack_addr (threads ?s u) = th_stack_addr (threads s u)"
    "th_stack_size (threads ?s u) = th_stack_size (threads s u)"
    "th_current_priority (threads ?s u) = th_current_priority (threads s u)"
    "th_number_mask (threads ?s u) = th_number_mask (threads s u)" for u
    using assms by (simp_all add: thread_frame_def)
  have rest: "tlists ?s = tlists s" "ready_group ?s = ready_group s" "lock_nest ?s = lock_nest s"
    "current_thread ?s = current_thread s" "objs ?s = objs s" "ram ?s = ram s"
    by simp_all
  show ?thesis
    unfolding kernel_ok_def sched_inv_def table_inv_def tlists_ok_def ready_ok_def mask_ok_def
      thread_ok_def stack_ok_def has_type_def th rest ..
qed

lemma kernel_ok_set_error [simp]: "kernel_ok (set_error t e s) = kernel_ok s"
  by (rule kernel_ok_thread_upd) (simp_all add: thread_frame_def)

lemma kernel_ok_set_event [simp]:
  "kernel_ok (upd_thread t (th_event_set_update f) s) = kernel_ok s"
  "kernel_ok (upd_thread t (th_event_info_update g) s) = kernel_ok s"
  by (rule kernel_ok_thread_upd; simp add: thread_frame_def)+

subsection \<open>\<open>rt_schedule\<close>\<close>

text \<open>Which threads a switch touches.\<close>

lemma insert_thread_others:
  "rt_schedule_insert_thread t s = Some s' \<Longrightarrow> u \<noteq> t \<Longrightarrow> threads s' u = threads s u"
  by (auto simp: rt_schedule_insert_thread_def split: if_splits)

lemma remove_thread_threads:
  "rt_schedule_remove_thread t s = Some s' \<Longrightarrow> threads s' = threads s"
  by (auto simp: rt_schedule_remove_thread_def Let_def split: if_splits)

lemma switch_others:
  assumes "schedule_switch to p ins s = Some s'" "u \<noteq> to" "ins \<Longrightarrow> u \<noteq> current_thread s"
  shows "threads s' u = threads s u"
proof -
  let ?s1 = "s\<lparr>current_prio := of_nat p, current_thread := to\<rparr>"
  from assms(1) obtain s2 s3 where
      s2: "(if ins then rt_schedule_insert_thread (current_thread s) ?s1 else Some ?s1) = Some s2"
      and s3: "rt_schedule_remove_thread to s2 = Some s3"
      and s': "s' = set_stat_field to RT_THREAD_RUNNING s3"
    by (auto simp: schedule_switch_def Let_def bind_eq_Some_conv)
  have "threads s2 u = threads s u"
    using s2 insert_thread_others [of "current_thread s" ?s1 s2 u] assms(3) by (auto split: if_splits)
  then show ?thesis using s' remove_thread_threads [OF s3] assms(2) by simp
qed

lemma schedule_cases:
  assumes ok: "kernel_ok s"
  obtains (keep) s' where "rt_schedule s = Some s'" "current_thread s' = current_thread s"
      "tlists s' = tlists s" "\<And>u. stat_of s' u = stat_of s u" "sched_inv s'"
    | (switch) s' to ts p where "rt_schedule s = Some s'" "lock_nest s = 0"
      "tlists s (Ready p) = to # ts" "current_thread s' = to" "stat_of s' to = RT_THREAD_RUNNING"
      "tlists s' = seq_remove to (if stat_of s (current_thread s) = RT_THREAD_RUNNING
        then seq_insert_before_head (Ready (prio_of s (current_thread s))) (current_thread s) (tlists s)
        else tlists s)"
      "\<And>u. u \<noteq> to \<Longrightarrow> u \<noteq> current_thread s \<or> stat_of s (current_thread s) \<noteq> RT_THREAD_RUNNING \<Longrightarrow>
        stat_of s' u = stat_of s u" "sched_inv s'"
proof (cases "lock_nest s = 0 \<and> ready_group s \<noteq> 0")
  case False
  show thesis by (rule keep [of s]) (use False ok schedule_none kernel_okD in auto)
next
  case True
  note inv = kernel_okD(1) [OF ok] and run = kernel_ok_running [OF ok]
  let ?c = "current_thread s"
  obtain to ts p where top: "get_highest_priority_thread s = Some (to, p)"
    and l: "tlists s (Ready p) = to # ts"
    using get_highest_correct [OF kernel_okD(9) [OF ok]] True by auto
  have toc: "to \<noteq> ?c" using kernel_okD(10) [OF ok, of p] l by auto
  show thesis
  proof (cases "stat_of s ?c = RT_THREAD_RUNNING \<and> prio_of s ?c < p")
    case kp: True
    obtain s' where s': "rt_schedule s = Some s'" "sched_inv s'"
      "current_thread s' = ?c" "tlists s' = tlists s" "stat_of s' ?c = RT_THREAD_RUNNING"
      using schedule_keep [OF inv run _ top] True kp by auto
    have "stat_of s' u = stat_of s u" for u
    proof (cases "u = ?c")
      case False
      then have "threads s' u = threads s u"
        using s'(1) True top toc kp
        by (auto simp: rt_schedule_def Let_def bind_eq_Some_conv split: if_splits
            dest: remove_thread_threads)
      then show ?thesis by simp
    qed (use s' kp in auto)
    then show thesis using s' by (intro keep [of s']) auto
  next
    case leave: False
    define ins where "ins = (stat_of s ?c = RT_THREAD_RUNNING)"
    have e: "rt_schedule s = schedule_switch to p ins s"
      using True top toc leave kernel_ok_current [OF ok] by (auto simp: rt_schedule_def Let_def ins_def)
    obtain s' where s': "rt_schedule s = Some s'" "sched_inv s'"
      "current_thread s' = to" "stat_of s' to = RT_THREAD_RUNNING"
      "tlists s' = seq_remove to (if ins
        then seq_insert_before_head (Ready (prio_of s ?c)) ?c (tlists s) else tlists s)"
      using switch_correct [OF inv run l ins_def] unfolding e by auto
    have others: "stat_of s' u = stat_of s u" if "u \<noteq> to" "u \<noteq> ?c \<or> stat_of s ?c \<noteq> RT_THREAD_RUNNING" for u
      using switch_others [OF s'(1) [unfolded e] that(1)] that(2) by (auto simp: ins_def)
    show thesis by (rule switch [of s' p to ts]) (use s' True l others in \<open>auto simp: ins_def\<close>)
  qed
qed

lemma schedule_kernel_ok:
  assumes ok: "kernel_ok s"
  shows "\<exists>s'. rt_schedule s = Some s' \<and> kernel_ok s' \<and> kernel_frame s s' \<and>
    (\<forall>h. wait_head h \<longrightarrow> tlists s' h = tlists s h)"
  using ok
proof (cases rule: schedule_cases)
  case (keep s')
  have f: "kernel_frame s s'" by (rule sched_kernel_frame [OF sched_frame_schedule [OF keep(1)]])
  have "kernel_ok s'"
    by (rule kernel_ok_frameI [OF ok f keep(5)]) (use keep kernel_okD [OF ok] in auto)
  then show ?thesis using keep f by auto
next
  case (switch s' to ts p)
  let ?c = "current_thread s"
  have f: "kernel_frame s s'" by (rule sched_kernel_frame [OF sched_frame_schedule [OF switch(1)]])
  have to: "to \<in> set (tlists s (Ready p))" using switch(3) by simp
  have only: "to \<notin> set (tlists s h)" if "h \<noteq> Ready p" for h
    using tlists_okD(2) [OF kernel_okD(8) [OF ok] to] that by blast
  have wait: "tlists s' h = tlists s h" if "wait_head h" for h
  proof -
    have "h \<noteq> Ready q" for q using that by auto
    then show ?thesis using switch(6) only [of h] by (auto simp: seq_insert_before_head_def)
  qed
  have "kernel_ok s'"
  proof (rule kernel_ok_frameI [OF ok f switch(8)])
    fix h t assume h: "h \<noteq> Defunct" and "t \<in> set (tlists s' h)"
    then have "t = ?c \<or> t \<in> set (tlists s h)"
      using switch(6) by (auto simp: seq_insert_before_head_def split: if_splits)
    then show "thread_ok s t" using h kernel_okD(3,4) [OF ok] by blast
  next
    fix h t assume h: "wait_head h" and t: "t \<in> set (tlists s' h)"
    then have t: "t \<in> set (tlists s h)" using wait by simp
    have "t \<noteq> to" using only [of h] h t by (cases h) auto
    moreover have "t \<noteq> ?c" if "stat_of s ?c = RT_THREAD_RUNNING"
      using kernel_okD(5) [OF ok t h] that by auto
    ultimately show "stat_of s' t = RT_THREAD_SUSPEND"
      using switch(7) kernel_okD(5) [OF ok t h] by metis
  next
    show "thread_ok s (current_thread s')" using switch(4) to kernel_okD(4) [OF ok] by blast
    show "\<not> linked (tlists s') (current_thread s')" using switch(4,6) by (auto simp: linked_def)
  qed
  then show ?thesis using switch(1) f wait by auto
qed

subsection \<open>Thread timers\<close>

lemma soft_bit_activated [simp]:
  "(f AND NOT RT_TIMER_FLAG_ACTIVATED) AND RT_TIMER_FLAG_SOFT_TIMER = f AND RT_TIMER_FLAG_SOFT_TIMER"
  "(f OR RT_TIMER_FLAG_ACTIVATED) AND RT_TIMER_FLAG_SOFT_TIMER = f AND RT_TIMER_FLAG_SOFT_TIMER"
proof -
  have "NOT RT_TIMER_FLAG_ACTIVATED AND RT_TIMER_FLAG_SOFT_TIMER = RT_TIMER_FLAG_SOFT_TIMER"
    "RT_TIMER_FLAG_ACTIVATED AND RT_TIMER_FLAG_SOFT_TIMER = 0"
    by (simp_all add: timer_flag_defs)
  then show "(f AND NOT RT_TIMER_FLAG_ACTIVATED) AND RT_TIMER_FLAG_SOFT_TIMER =
      f AND RT_TIMER_FLAG_SOFT_TIMER"
    "(f OR RT_TIMER_FLAG_ACTIVATED) AND RT_TIMER_FLAG_SOFT_TIMER = f AND RT_TIMER_FLAG_SOFT_TIMER"
    by (simp_all only: and.assoc bit.conj_disj_distrib2 or.right_neutral)
qed

text \<open>An operation that only touches a thread timer keeps threads, thread lists and the invariant.\<close>

definition timer_only :: "kstate \<Rightarrow> kstate \<Rightarrow> bool" where
  "timer_only s s' \<longleftrightarrow> kernel_frame s s' \<and> threads s' = threads s \<and> tlists s' = tlists s \<and>
     ready_group s' = ready_group s \<and> current_thread s' = current_thread s"

lemma timer_only_refl [simp]: "timer_only s s"
  by (simp add: timer_only_def)

lemma timer_only_trans: "timer_only s s' \<Longrightarrow> timer_only s' s'' \<Longrightarrow> timer_only s s''"
  by (auto simp: timer_only_def elim: kernel_frame_trans)

lemma timer_only_simps:
  assumes "timer_only s s'"
  shows "kernel_frame s s'" "threads s' = threads s" "tlists s' = tlists s"
    "ready_group s' = ready_group s" "current_thread s' = current_thread s"
  using assms by (simp_all add: timer_only_def)

lemma timer_only_sched_inv: "timer_only s s' \<Longrightarrow> sched_inv s' = sched_inv s"
  by (simp add: timer_only_def sched_inv_def table_inv_def tlists_ok_def ready_ok_def mask_ok_def)

lemma timer_only_kernel_ok: "timer_only s s' \<Longrightarrow> kernel_ok s \<Longrightarrow> kernel_ok s'"
  by (rule kernel_ok_frameI [of s])
    (auto simp: timer_only_sched_inv timer_only_simps kernel_okD)

lemma thread_timer_stop:
  assumes "has_type s (Thread_timer t) RT_Object_Class_Timer"
  shows "\<exists>r s'. rt_timer_stop (Thread_timer t) s = Some (r, s') \<and> timer_only s s' \<and>
    timers s' = timers s"
  using assms
  by (simp add: rt_timer_stop_def rt_timer_remove_def timer_only_def kernel_frame_def)

lemma thread_timer_start:
  assumes "has_type s (Thread_timer t) RT_Object_Class_Timer" "time < half_range"
    "obj_flag (objs s (Thread_timer t)) AND RT_TIMER_FLAG_SOFT_TIMER = 0"
  shows "\<exists>s1 s'. rt_timer_control (Thread_timer t) Set_time time s = Some (RT_EOK, time, s1) \<and>
    rt_timer_start (Thread_timer t) s1 = Some (RT_EOK, s') \<and> timer_only s s' \<and>
    Thread_timer t \<in> set (trows s' Hard_list) \<and>
    tm_timeout_tick (timers s' (Thread_timer t)) = tick s + time"
proof -
  define s1 where "s1 = upd_timer (Thread_timer t) (tm_init_tick_update (\<lambda>_. time)) s"
  have 1: "rt_timer_control (Thread_timer t) Set_time time s = Some (RT_EOK, time, s1)"
    using assms by (simp add: rt_timer_control_def s1_def has_type_def)
  have "has_type s1 (Thread_timer t) RT_Object_Class_Timer"
    using assms by (simp add: s1_def has_type_def)
  then show ?thesis
    using assms 1
    by (simp add: rt_timer_start_def Let_def timer_arm_def rt_timer_remove_def s1_def timer_only_def
        kernel_frame_def rt_tick_get_def)
qed

subsection \<open>Suspending the current thread\<close>

lemma suspend_current:
  assumes ok: "kernel_ok s" and run: "stat_of s (current_thread s) = RT_THREAD_RUNNING"
  shows "\<exists>s'. rt_thread_suspend (current_thread s) s = Some (RT_EOK, s') \<and> kernel_ok s' \<and>
    kernel_frame s s' \<and> tlists s' = tlists s \<and> current_thread s' = current_thread s \<and>
    stat_of s' (current_thread s) = RT_THREAD_SUSPEND \<and>
    (\<forall>u. u \<noteq> current_thread s \<longrightarrow> threads s' u = threads s u) \<and> timers s' = timers s"
proof -
  let ?c = "current_thread s"
  note t = thread_okD [OF kernel_okD(3) [OF ok]]
  have free: "\<not> linked (tlists s) ?c" by (rule kernel_okD(6) [OF ok run])
  obtain s1 g where s1: "rt_schedule_remove_thread ?c s = Some s1" "table_inv s1"
    "s1 = s\<lparr>tlists := seq_remove ?c (tlists s), ready_group := g\<rparr>"
    using remove_thread_inv [OF kernel_okD(7) [OF ok] t(1)] by blast
  have tl: "tlists s1 = tlists s" using s1(3) free by (auto simp: linked_def fun_eq_iff)
  define s2 where "s2 = set_stat_field ?c RT_THREAD_SUSPEND s1"
  have f2: "kernel_frame s s2" by (simp add: s2_def s1 kernel_frame_def)
  have "sched_inv s1" using s1(2,3) tl kernel_okD(10) [OF ok] by (simp add: sched_inv_def)
  then have i2: "sched_inv s2"
    unfolding s2_def by (rule sched_inv_thread_off_ready) (simp add: tl kernel_okD(10) [OF ok])
  have k2: "kernel_ok s2"
    by (rule kernel_ok_frameI [OF ok f2 i2])
      (use tl s1(3) kernel_okD [OF ok] in \<open>auto simp: s2_def\<close>)
  have ty: "has_type s2 (Thread_timer ?c) RT_Object_Class_Timer"
    using t(4) kernel_frame_has_type [OF f2] by simp
  obtain r s3 where s3: "rt_timer_stop (Thread_timer ?c) s2 = Some (r, s3)" "timer_only s2 s3"
    "timers s3 = timers s2"
    using thread_timer_stop [OF ty] by blast
  have "rt_thread_suspend ?c s = Some (RT_EOK, s3)"
    using t run s1(1) s3(1) by (simp add: rt_thread_suspend_def rt_thread_self_def s2_def)
  moreover have "kernel_ok s3" by (rule timer_only_kernel_ok [OF s3(2) k2])
  moreover have "kernel_frame s s3" using f2 s3(2) by (auto simp: timer_only_def elim: kernel_frame_trans)
  ultimately show ?thesis
    using s3 s1(3) tl by (auto simp: timer_only_def s2_def)
qed

text \<open>Linking a suspended thread that is on no list into a waiting list, at any place.\<close>

lemma kernel_ok_link:
  assumes ok: "kernel_ok s" and free: "\<not> linked (tlists s) t" and t: "thread_ok s t"
    and st: "stat_of s t = RT_THREAD_SUSPEND" and w: "wait_head q"
    and new: "set xs = insert t (set (tlists s q))" "distinct xs"
  shows "kernel_ok (s\<lparr>tlists := (tlists s)(q := xs)\<rparr>)"
proof (rule kernel_ok_frameI [OF ok])
  let ?s = "s\<lparr>tlists := (tlists s)(q := xs)\<rparr>"
  have q: "q \<noteq> Ready p" for p using w by auto
  have free': "t \<notin> set (tlists s h)" for h using free by (auto simp: linked_def)
  have "tlists_ok ?s"
    using kernel_okD(8) [OF ok] new free' unfolding tlists_ok_def by (auto split: if_splits)
  moreover have "ready_ok ?s"
    using kernel_okD(9) [OF ok] q q [symmetric] unfolding ready_ok_def mask_ok_def by simp blast
  ultimately show "sched_inv ?s"
    using kernel_okD(10) [OF ok] q q [symmetric] by (simp add: sched_inv_def table_inv_def)
  show "thread_ok s u" if "h \<noteq> Defunct" "u \<in> set (tlists ?s h)" for h u
    using that t new(1) kernel_okD(4) [OF ok, of u h] kernel_okD(4) [OF ok, of u q] w
    by (auto split: if_splits simp: wait_head_def)
  show "stat_of ?s u = RT_THREAD_SUSPEND" if "wait_head h" "u \<in> set (tlists ?s h)" for h u
    using that st new(1) kernel_okD(5) [OF ok, of u] w by (auto split: if_splits)
  show "\<not> linked (tlists ?s) (current_thread ?s)"
    if "stat_of ?s (current_thread ?s) = RT_THREAD_RUNNING"
    using that kernel_okD(6) [OF ok] st new(1) by (auto simp: linked_def split: if_splits)
qed (use kernel_okD(3) [OF ok] in \<open>simp_all add: kernel_frame_def\<close>)

subsection \<open>Making a waiting thread ready\<close>

text \<open>
  The common part of \<open>rt_thread_resume\<close> and \<open>rt_thread_timeout\<close>: unlink, then give the thread to
  the scheduler.  The current thread, not yet switched away, just goes on running.
\<close>

definition ready_lists :: "ptr \<Rightarrow> kstate \<Rightarrow> tlist_head \<Rightarrow> ptr list" where
  "ready_lists t s = (if t = current_thread s then seq_remove t (tlists s)
     else seq_insert_before_head (Ready (prio_of s t)) t (seq_remove t (tlists s)))"

lemma unlink_insert:
  assumes ok: "kernel_ok s" and t: "thread_ok s t" and st: "stat_of s t = RT_THREAD_SUSPEND"
    and s1: "timer_only (tlists_update (seq_remove t) s) s1"
  shows "\<exists>s'. rt_schedule_insert_thread t s1 = Some s' \<and> kernel_ok s' \<and> kernel_frame s s' \<and>
    tlists s' = ready_lists t s \<and> current_thread s' = current_thread s \<and>
    (\<forall>u. u \<noteq> t \<longrightarrow> threads s' u = threads s u) \<and>
    stat_of s' t = (if t = current_thread s then RT_THREAD_RUNNING else RT_THREAD_READY)"
proof -
  let ?u = "tlists_update (seq_remove t) s"
  note o = timer_only_simps [OF s1]
  have nr: "t \<notin> set (tlists s (Ready p))" for p
    using ready_okD(4) [OF kernel_okD(9) [OF ok], of t p] st by auto
  have f1: "kernel_frame s s1"
    using o(1) by (rule kernel_frame_trans [rotated]) (simp add: kernel_frame_def)
  have rm: "removeAll t (tlists s (Ready p)) = tlists s (Ready p)" for p using nr by simp
  have "table_inv ?u"
    using kernel_okD(8,9) [OF ok] rm
    by (auto simp: table_inv_def tlists_ok_def ready_ok_def mask_ok_def distinct_removeAll)
  then have t1: "table_inv s1"
    using o by (auto simp: table_inv_def tlists_ok_def ready_ok_def mask_ok_def)
  have m1: "mask_ok s1 t" using thread_okD(1) [OF t] thread_ok_frame(2) [OF f1] by simp
  have free: "\<not> linked (tlists s1) t" using o(3) by (auto simp: linked_def)
  have "\<exists>s'. rt_schedule_insert_thread t s1 = Some s' \<and> table_inv s' \<and> sched_frame s1 s' \<and>
      tlists s' = ready_lists t s \<and> current_thread s' = current_thread s \<and>
      (\<forall>u. u \<noteq> t \<longrightarrow> threads s' u = threads s u) \<and>
      stat_of s' t = (if t = current_thread s then RT_THREAD_RUNNING else RT_THREAD_READY)"
  proof (cases "t = current_thread s")
    case True
    let ?v = "set_stat_field t RT_THREAD_RUNNING s1"
    have e: "rt_schedule_insert_thread t s1 = Some ?v"
      using True o(5) thread_okD(5) [OF t] by (simp add: rt_schedule_insert_thread_def)
    have "table_inv ?v"
      by (rule table_inv_cong [OF t1]) (use free in \<open>auto simp: linked_def\<close>)
    then show ?thesis using e True o by (simp add: ready_lists_def)
  next
    case False
    then have ne: "t \<noteq> current_thread s1" using o(5) by simp
    obtain s' where s': "rt_schedule_insert_thread t s1 = Some s'"
      using insert_thread_inv [OF t1 m1 ne free] by blast
    show ?thesis
      using insert_thread_inv' [OF t1 m1 ne free s'] s' o False by (simp add: ready_lists_def)
  qed
  then obtain s' where s': "rt_schedule_insert_thread t s1 = Some s'" "table_inv s'" "sched_frame s1 s'"
    "tlists s' = ready_lists t s" "current_thread s' = current_thread s"
    "\<forall>u. u \<noteq> t \<longrightarrow> threads s' u = threads s u"
    "stat_of s' t = (if t = current_thread s then RT_THREAD_RUNNING else RT_THREAD_READY)" by blast
  have f: "kernel_frame s s'" by (rule kernel_frame_trans [OF f1 sched_kernel_frame [OF s'(3)]])
  have sub: "u \<in> set (tlists s h) \<and> u \<noteq> t \<or> u = t \<and> h = Ready (prio_of s t) \<and> t \<noteq> current_thread s"
    if "u \<in> set (tlists s' h)" for u h
    using that by (auto simp: s'(4) ready_lists_def seq_insert_before_head_def split: if_splits)
  have i: "sched_inv s'"
    using s'(2) sub kernel_okD(10) [OF ok] by (fastforce simp: sched_inv_def s'(5))
  have "kernel_ok s'"
  proof (rule kernel_ok_frameI [OF ok f i])
    show "thread_ok s u" if "h \<noteq> Defunct" "u \<in> set (tlists s' h)" for h u
      using sub [OF that(2)] that(1) t kernel_okD(4) [OF ok] by blast
    show "stat_of s' u = RT_THREAD_SUSPEND" if "wait_head h" "u \<in> set (tlists s' h)" for h u
      using sub [OF that(2)] that(1) s'(6) kernel_okD(5) [OF ok] by auto
    show "\<not> linked (tlists s') (current_thread s')"
      if r: "stat_of s' (current_thread s') = RT_THREAD_RUNNING"
    proof (cases "current_thread s = t")
      case False
      then have "stat_of s (current_thread s) = RT_THREAD_RUNNING" using r s'(5,6) by simp
      then have "\<not> linked (tlists s) (current_thread s)" by (rule kernel_okD(6) [OF ok])
      then show ?thesis using sub s'(5) False by (auto simp: linked_def)
    qed (use sub s'(5) in \<open>auto simp: linked_def\<close>)
  qed (simp add: s'(5) kernel_okD(3) [OF ok])
  then show ?thesis using s' f by blast
qed

lemma resume_waiting:
  assumes ok: "kernel_ok s" and t: "thread_ok s t" and st: "stat_of s t = RT_THREAD_SUSPEND"
  shows "\<exists>s'. rt_thread_resume t s = Some (RT_EOK, s') \<and> kernel_ok s' \<and> kernel_frame s s' \<and>
    tlists s' = ready_lists t s \<and> current_thread s' = current_thread s \<and>
    (\<forall>u. u \<noteq> t \<longrightarrow> threads s' u = threads s u) \<and>
    stat_of s' t = (if t = current_thread s then RT_THREAD_RUNNING else RT_THREAD_READY)"
proof -
  let ?u = "tlists_update (seq_remove t) s"
  note t' = thread_okD [OF t]
  have "has_type ?u (Thread_timer t) RT_Object_Class_Timer" using t'(4) by (simp add: has_type_def)
  then obtain r s1 where s1: "rt_timer_stop (Thread_timer t) ?u = Some (r, s1)" "timer_only ?u s1"
    using thread_timer_stop by blast
  obtain s' where "rt_schedule_insert_thread t s1 = Some s'" "kernel_ok s'" "kernel_frame s s'"
    "tlists s' = ready_lists t s" "current_thread s' = current_thread s"
    "\<forall>u. u \<noteq> t \<longrightarrow> threads s' u = threads s u"
    "stat_of s' t = (if t = current_thread s then RT_THREAD_RUNNING else RT_THREAD_READY)"
    using unlink_insert [OF ok t st s1(2)] by blast
  then show ?thesis
    using t' st s1(1) by (auto simp: rt_thread_resume_def)
qed

text \<open>A thread that is not suspended is refused, with nothing changed.\<close>

lemma resume_refused:
  assumes "has_type s t RT_Object_Class_Thread" "stat_of s t \<noteq> RT_THREAD_SUSPEND"
  shows "rt_thread_resume t s = Some (- RT_ERROR, s)"
  using assms by (simp add: rt_thread_resume_def has_type_def)

lemma timeout_waiting:
  assumes ok: "kernel_ok s" and t: "thread_ok s t" and st: "stat_of s t = RT_THREAD_SUSPEND"
  shows "\<exists>s'. rt_thread_timeout t s = Some s' \<and> kernel_ok s' \<and>
    th_error (threads s' t) = - RT_ETIMEOUT \<and> kernel_frame (set_error t (- RT_ETIMEOUT) s) s' \<and>
    (\<forall>h. wait_head h \<longrightarrow> tlists s' h = removeAll t (tlists s h))"
proof -
  let ?e = "set_error t (- RT_ETIMEOUT) s"
  have k: "kernel_ok ?e" using ok by simp
  have te: "thread_ok ?e t"
    using t by (simp add: thread_ok_def mask_ok_def stack_ok_def has_type_def)
  obtain s1 where s1: "rt_schedule_insert_thread t (tlists_update (seq_remove t) ?e) = Some s1"
    "kernel_ok s1" "kernel_frame ?e s1" "tlists s1 = ready_lists t ?e"
    using unlink_insert [OF k te, of "tlists_update (seq_remove t) ?e"] st by auto
  obtain s' where s': "rt_schedule s1 = Some s'" "kernel_ok s'" "kernel_frame s1 s'"
    "\<forall>h. wait_head h \<longrightarrow> tlists s' h = tlists s1 h"
    using schedule_kernel_ok [OF s1(2)] by blast
  have f: "kernel_frame ?e s'" by (rule kernel_frame_trans [OF s1(3) s'(3)])
  have "th_error (threads s' t) = - RT_ETIMEOUT" using kernel_frame_fields(14) [OF f, of t] by simp
  moreover have "tlists s' h = removeAll t (tlists s h)" if "wait_head h" for h
    using s'(4) s1(4) that by (auto simp: ready_lists_def seq_insert_before_head_def)
  ultimately show ?thesis
    using s' f thread_okD [OF t] st s1(1) by (auto simp: rt_thread_timeout_def Let_def has_type_def)
qed

subsection \<open>Changing a priority\<close>

lemma thread_ok_change:
  assumes "thread_ok s t" "unat p < RT_THREAD_PRIORITY_MAX"
  shows "thread_ok (change_priority t p s) u = thread_ok s u"
  using assms by (auto simp: change_priority_def thread_ok_def mask_ok_def stack_ok_def has_type_def)

lemma change_off_ready:
  assumes ok: "kernel_ok s" and t: "thread_ok s t" and p: "unat p < RT_THREAD_PRIORITY_MAX"
    and off: "\<And>q. t \<notin> set (tlists s (Ready q))"
  shows "kernel_ok (change_priority t p s)"
proof -
  let ?s = "change_priority t p s"
  have rest: "tlists ?s = tlists s" "lock_nest ?s = lock_nest s" "current_thread ?s = current_thread s"
    by (simp_all add: change_priority_def)
  have st: "stat_of ?s u = stat_of s u" for u by (simp add: change_priority_def)
  have "sched_inv ?s"
    unfolding change_priority_def
    by (rule sched_inv_thread_off_ready [OF kernel_okD(1) [OF ok] off])
  then show ?thesis
    using ok unfolding kernel_ok_def thread_ok_change [OF t p] rest st by blast
qed

text \<open>Everything but one thread's priority stays; a ready thread moves to its new list.\<close>

definition prio_only :: "ptr \<Rightarrow> u8 \<Rightarrow> kstate \<Rightarrow> kstate \<Rightarrow> bool" where
  "prio_only t p s s' \<longleftrightarrow> objs s' = objs s \<and> mutexes s' = mutexes s \<and>
     current_thread s' = current_thread s \<and> interrupt_nest s' = interrupt_nest s \<and>
     (\<forall>u. stat_of s' u = stat_of s u) \<and> (\<forall>u. th_error (threads s' u) = th_error (threads s u)) \<and>
     (\<forall>u. th_current_priority (threads s' u) = (if u = t then p else th_current_priority (threads s u))) \<and>
     (\<forall>h. wait_head h \<longrightarrow> tlists s' h = tlists s h)"

lemma control_priority:
  assumes ok: "kernel_ok s" and t: "thread_ok s t" and p: "unat p < RT_THREAD_PRIORITY_MAX"
    and c: "t = current_thread s \<Longrightarrow> stat_of s t \<noteq> RT_THREAD_READY"
  shows "\<exists>s'. rt_thread_control t (Change_priority p) s = Some (RT_EOK, s') \<and> kernel_ok s' \<and>
    prio_only t p s s'"
proof (cases "stat_of s t = RT_THREAD_READY")
  case False
  have off: "t \<notin> set (tlists s (Ready q))" for q
    using ready_okD(4) [OF kernel_okD(9) [OF ok], of t q] False by auto
  show ?thesis
    using change_off_ready [OF ok t p off] False thread_okD [OF t]
    by (auto simp: rt_thread_control_def change_priority_def prio_only_def)
next
  case True
  note t' = thread_okD [OF t]
  have tc: "t \<noteq> current_thread s" using c True by auto
  obtain s1 g where s1: "rt_schedule_remove_thread t s = Some s1" "table_inv s1"
    "\<not> linked (tlists s1) t" "s1 = s\<lparr>tlists := seq_remove t (tlists s), ready_group := g\<rparr>"
    using remove_thread_inv [OF kernel_okD(7) [OF ok] t'(1)] by blast
  have f1: "kernel_frame s s1" by (simp add: s1(4) kernel_frame_def)
  have k1: "kernel_ok s1"
  proof (rule kernel_ok_frameI [OF ok f1])
    show "sched_inv s1" using s1(2) kernel_okD(10) [OF ok] by (simp add: sched_inv_def s1(4))
    show "\<not> linked (tlists s1) (current_thread s1)"
      if "stat_of s1 (current_thread s1) = RT_THREAD_RUNNING"
      using that kernel_okD(6) [OF ok] by (auto simp: s1(4) linked_def)
  qed (use kernel_okD [OF ok] in \<open>auto simp: s1(4)\<close>)
  let ?s2 = "change_priority t p s1"
  have t1: "thread_ok s1 t" using t thread_ok_frame(1) [OF f1] by simp
  have k2: "kernel_ok ?s2"
    by (rule change_off_ready [OF k1 t1 p]) (use s1(3) in \<open>auto simp: linked_def\<close>)
  have t2: "thread_ok ?s2 t" using t1 thread_ok_change [OF t1 p] by simp
  have pre: "t \<noteq> current_thread ?s2" "\<not> linked (tlists ?s2) t"
    using tc s1(3) by (simp_all add: s1(4) change_priority_def)
  note m2 = thread_okD(1) [OF t2]
  obtain s3 where s3: "rt_schedule_insert_thread t ?s2 = Some s3"
    using insert_thread_inv [OF kernel_okD(7) [OF k2] m2 pre] by blast
  note i3 = insert_thread_inv' [OF kernel_okD(7) [OF k2] m2 pre s3]
  have sub: "u \<in> set (tlists ?s2 h) \<and> u \<noteq> t \<or> u = t \<and> h = Ready (prio_of ?s2 t)"
    if "u \<in> set (tlists s3 h)" for u h
    using that pre(2) by (auto simp: i3(2) seq_insert_before_head_def linked_def split: if_splits)
  have k3: "kernel_ok s3"
  proof (rule kernel_ok_frameI [OF k2 sched_kernel_frame [OF i3(4)]])
    show "sched_inv s3"
      using i3(1,3) sub kernel_okD(10) [OF k2] pre(1) by (fastforce simp: sched_inv_def)
    show "thread_ok ?s2 u" if "h \<noteq> Defunct" "u \<in> set (tlists s3 h)" for h u
      using sub [OF that(2)] that(1) t2 kernel_okD(4) [OF k2] by blast
    show "stat_of s3 u = RT_THREAD_SUSPEND" if "wait_head h" "u \<in> set (tlists s3 h)" for h u
      using sub [OF that(2)] that(1) i3(6) kernel_okD(5) [OF k2] by auto
    show "\<not> linked (tlists s3) (current_thread s3)"
      if "stat_of s3 (current_thread s3) = RT_THREAD_RUNNING"
    proof -
      have "stat_of ?s2 (current_thread ?s2) = RT_THREAD_RUNNING"
        using that i3(3,6) pre(1) by simp
      then have "\<not> linked (tlists ?s2) (current_thread ?s2)" by (rule kernel_okD(6) [OF k2])
      then show ?thesis using sub i3(3) pre(1) unfolding linked_def by metis
    qed
  qed (use i3(3) kernel_okD(3) [OF k2] in simp)
  have e: "rt_thread_control t (Change_priority p) s = Some (RT_EOK, s3)"
    using True t' s1(1) s3 by (simp add: rt_thread_control_def)
  have wl: "tlists s3 h = tlists s h" if "wait_head h" for h
  proof -
    have "t \<notin> set (tlists s h)" using kernel_okD(5) [OF ok _ that, of t] True by auto
    then show ?thesis
      using that by (auto simp: i3(2) seq_insert_before_head_def change_priority_def s1(4))
  qed
  have st: "stat_of s3 u = stat_of s u" for u
    using i3(5,6) True by (cases "u = t") (simp_all add: change_priority_def s1(4))
  have "prio_only t p s s3"
    using wl st i3(3) sched_frame_fields [OF i3(4)] sched_frame_thread [OF i3(4)]
    by (simp add: prio_only_def) (simp add: change_priority_def s1(4))
  then show ?thesis using e k3 by blast
qed

lemma control_thread_ok:
  assumes t: "thread_ok s t" and p: "unat p < RT_THREAD_PRIORITY_MAX"
    and e: "rt_thread_control t (Change_priority p) s = Some (r, s')"
  shows "thread_ok s' u = thread_ok s u"
proof (cases "stat_of s t = RT_THREAD_READY")
  case False
  then show ?thesis
    using e thread_okD [OF t] thread_ok_change [OF t p, of u] by (simp add: rt_thread_control_def)
next
  case True
  obtain s1 s2 where s1: "rt_schedule_remove_thread t s = Some s1"
    and s2: "rt_schedule_insert_thread t (change_priority t p s1) = Some s2" "s' = s2"
    using e True thread_okD [OF t] by (auto simp: rt_thread_control_def bind_eq_Some_conv)
  have f1: "kernel_frame s s1" by (rule sched_kernel_frame [OF sched_frame_remove [OF s1]])
  have f2: "kernel_frame (change_priority t p s1) s2"
    by (rule sched_kernel_frame [OF sched_frame_insert [OF s2(1)]])
  have "thread_ok s1 t" using t thread_ok_frame(1) [OF f1] by simp
  then show ?thesis
    using thread_ok_frame(1) [OF f2, of u] thread_ok_frame(1) [OF f1, of u] thread_ok_change [OF _ p, of s1 t u]
      s2(2) by simp
qed

text \<open>
  The scheduling contract: after \<open>rt_schedule\<close> the running thread is one of the most urgent, and a
  running thread that is as urgent as another goes behind it, at the end of its list.
\<close>

text \<open>C1. With the scheduler unlocked and a thread that is ready or running, rt_schedule comes back, a
  thread is running then and no ready thread is more urgent than it, and the kernel invariant is
  kept.\<close>

lemma schedule_most_urgent:
  assumes ok: "kernel_ok s" and unlocked: "lock_nest s = 0"
    and some: "ready_group s \<noteq> 0 \<or> stat_of s (current_thread s) = RT_THREAD_RUNNING"
  shows "\<exists>s'. rt_schedule s = Some s' \<and> kernel_ok s' \<and> most_urgent_runs s'"
  using schedule_total [OF kernel_okD(1) [OF ok] kernel_ok_running [OF ok]] schedule_kernel_ok [OF ok]
    unlocked some by auto

text \<open>C2. With the scheduler unlocked and the running thread among the most urgent, rt_thread_yield
  switches to the first ready thread of its priority and puts the running thread at the end of
  that list: threads of one priority take turns.\<close>

lemma yield_round_robin:
  assumes ok: "kernel_ok s" and unlocked: "lock_nest s = 0"
    and run: "stat_of s (current_thread s) = RT_THREAD_RUNNING"
    and peers: "tlists s (Ready (prio_of s (current_thread s))) = t # ts"
    and top: "\<forall>q < prio_of s (current_thread s). tlists s (Ready q) = []"
  shows "\<exists>s'. rt_thread_yield s = Some (RT_EOK, s') \<and> kernel_ok s' \<and> current_thread s' = t \<and>
    tlists s' (Ready (prio_of s (current_thread s))) = ts @ [current_thread s]"
proof -
  let ?c = "current_thread s" and ?p = "prio_of s (current_thread s)"
  have r: "ready_ok s" by (rule kernel_okD(9) [OF ok])
  have g: "ready_group s \<noteq> 0" using group_zero [OF r] peers by fastforce
  obtain first us q where h: "get_highest_priority_thread s = Some (first, q)"
    "tlists s (Ready q) = first # us" "\<forall>j < q. tlists s (Ready j) = []"
    using get_highest_correct [OF r g] by blast
  have q: "q = ?p" using h(2,3) peers top by (metis linorder_neqE_nat list.distinct(1))
  then have ft: "first = t" "us = ts" using h(2) peers by auto
  have tc: "t \<noteq> ?c" using kernel_okD(10) [OF ok, of ?p] peers by auto
  have tin: "t \<in> set (tlists s (Ready ?p))" "t \<notin> set ts"
    using peers tlists_okD(1) [OF kernel_okD(8) [OF ok], of "Ready ?p"] by auto
  have e: "rt_schedule s = schedule_switch t ?p True s"
    using unlocked g h(1) q ft tc run kernel_ok_current [OF ok] by (auto simp: rt_schedule_def Let_def)
  obtain s' where s': "schedule_switch t ?p True s = Some s'" "current_thread s' = t"
    "tlists s' = seq_remove t (seq_insert_before_head (Ready ?p) ?c (tlists s))"
    using switch_correct [OF kernel_okD(1) [OF ok] kernel_ok_running [OF ok] peers, of True] run by auto
  have "kernel_ok s'" using schedule_kernel_ok [OF ok] e s'(1) by auto
  then show ?thesis
    using e s' peers tc tin by (auto simp: rt_thread_yield_def seq_insert_before_head_def)
qed

text \<open>With the scheduler locked nothing moves.\<close>

lemma schedule_locked: "lock_nest s \<noteq> 0 \<Longrightarrow> rt_schedule s = Some s"
  by (rule schedule_none) simp

end
