(* ===== verification/RT_Timeout.thy ===== *)
theory RT_Timeout
  imports RT_Kernel
begin

text \<open>
  What the started timers do: the order \<open>rt_timer_start\<close> keeps, which callbacks \<open>rt_timer_check\<close>
  runs, and sleeping.
\<close>

subsection \<open>Starting\<close>

text \<open>
  The pending timers of a list: each is due less than half of the tick range from now, and they
  are in the order in which they are due.
\<close>

definition pending_ok :: "timer_head \<Rightarrow> kstate \<Rightarrow> bool" where
  "pending_ok h s \<longleftrightarrow> distinct (trows s h) \<and>
     window (tick s) (\<lambda>t. tm_timeout_tick (timers s t)) (trows s h) \<and>
     timers_sorted (tick s) (\<lambda>t. tm_timeout_tick (timers s t)) (trows s h)"

lemma timers_sorted_cong:
  assumes "\<And>t. t \<in> set ts \<Longrightarrow> tmo t = tmo' t"
  shows "timers_sorted base tmo ts = timers_sorted base tmo' ts" "window base tmo ts = window base tmo' ts"
  using assms unfolding timers_sorted_def window_def by (induction ts) auto

lemma removeAll_pending:
  assumes "timers_sorted base tmo ts" "window base tmo ts"
  shows "timers_sorted base tmo (removeAll t ts)" "window base tmo (removeAll t ts)"
  using assms by (auto simp: timers_sorted_def window_def removeAll_filter_not_eq sorted_wrt_filter)

text \<open>C12. rt_timer_start puts a hard timer on the list at its place in order of timeout, active, due
  at the current tick plus its time.\<close>

lemma timer_start_pending:
  assumes ty: "has_type s t RT_Object_Class_Timer" and time: "tm_init_tick (timers s t) < half_range"
    and hard: "obj_flag (objs s t) AND RT_TIMER_FLAG_SOFT_TIMER = 0" and ok: "pending_ok Hard_list s"
  shows "\<exists>s'. rt_timer_start t s = Some (RT_EOK, s') \<and> pending_ok Hard_list s' \<and>
    set (trows s' Hard_list) = insert t (set (trows s Hard_list)) \<and>
    tm_timeout_tick (timers s' t) = tick s + tm_init_tick (timers s t) \<and>
    obj_flag (objs s' t) AND RT_TIMER_FLAG_ACTIVATED \<noteq> 0"
proof -
  define tmo where "tmo = (\<lambda>u. tm_timeout_tick (timers s u))"
  define tmo' where "tmo' = tmo(t := tick s + tm_init_tick (timers s t))"
  let ?ts = "removeAll t (trows s Hard_list)"
  define s' where "s' = timer_arm t (upd_obj t (obj_flag_update (\<lambda>f. f AND NOT RT_TIMER_FLAG_ACTIVATED))
    (rt_timer_remove t s))"
  have fl: "obj_flag (objs s' t) AND RT_TIMER_FLAG_SOFT_TIMER = 0"
    using hard by (simp add: s'_def timer_arm_def Let_def rt_timer_remove_def)
  have e: "rt_timer_start t s = Some (RT_EOK, s')"
    using ty time fl by (simp add: rt_timer_start_def has_type_def s'_def rt_timer_remove_def)
  have tm: "(\<lambda>u. tm_timeout_tick (timers s' u)) = tmo'"
    by (auto simp: s'_def timer_arm_def Let_def rt_timer_remove_def tmo'_def tmo_def rt_tick_get_def)
  have row: "trows s' Hard_list = timer_insert tmo' t ?ts" and tk: "tick s' = tick s"
    using hard tm by (simp_all add: s'_def timer_arm_def Let_def rt_timer_remove_def)
  have old: "timers_sorted (tick s) tmo' ?ts" "window (tick s) tmo' ?ts"
    using removeAll_pending [of "tick s" tmo "trows s Hard_list" t] ok
      timers_sorted_cong [of ?ts tmo tmo' "tick s"]
    by (auto simp: pending_ok_def tmo_def tmo'_def)
  have "due (tick s) (tmo' t) < unat half_range"
    using time by (simp add: due_def tmo'_def word_less_nat_alt)
  then have w: "window (tick s) tmo' (t # ?ts)"
    using old(2) unfolding window_def by (metis set_ConsD)
  have "window (tick s) tmo' (timer_insert tmo' t ?ts)"
    using w unfolding window_def by (metis list.simps(15) set_timer_insert)
  then have "pending_ok Hard_list s'"
    using timer_insert_sorted [OF old(1) w] w ok unfolding pending_ok_def row tk tm
    by (simp add: distinct_timer_insert distinct_removeAll)
  moreover have "obj_flag (objs s' t) AND RT_TIMER_FLAG_ACTIVATED \<noteq> 0"
    by (simp add: s'_def timer_arm_def Let_def rt_timer_remove_def timer_flag_defs
        bit.conj_disj_distrib2 word_eq_0_iff_bit bit_simps)
  ultimately show ?thesis
    using e row fun_cong [OF tm, of t] by (auto simp: tmo'_def)
qed

subsection \<open>Checking\<close>

text \<open>
  What the check does for one expired one-shot timer, and for a list of them.  The timers are gone
  from the list and no longer active when \<open>fire\<close> is done with them.
\<close>

definition fire :: "(nat \<Rightarrow> ptr \<Rightarrow> kstate \<Rightarrow> kstate option) \<Rightarrow> ptr \<Rightarrow> kstate \<Rightarrow> kstate option" where
  "fire app t s = do {
     s1 \<leftarrow> run_timeout app t (rt_timer_remove t s);
     Some (upd_obj t (obj_flag_update (\<lambda>f. f AND NOT RT_TIMER_FLAG_ACTIVATED)) s1)
   }"

fun fire_all :: "(nat \<Rightarrow> ptr \<Rightarrow> kstate \<Rightarrow> kstate option) \<Rightarrow> ptr list \<Rightarrow> kstate \<Rightarrow> kstate option" where
  "fire_all app [] s = Some s"
| "fire_all app (t # ts) s = do { s1 \<leftarrow> fire app t s; fire_all app ts s1 }"

text \<open>A callback that leaves the timers, their flags and the clock alone.\<close>

definition quiet :: "kstate \<Rightarrow> kstate \<Rightarrow> bool" where
  "quiet s s' \<longleftrightarrow> trows s' = trows s \<and> timers s' = timers s \<and> tick s' = tick s \<and>
     (\<forall>t. obj_flag (objs s' t) = obj_flag (objs s t))"

definition quiet_app :: "(nat \<Rightarrow> ptr \<Rightarrow> kstate \<Rightarrow> kstate option) \<Rightarrow> bool" where
  "quiet_app app \<longleftrightarrow> (\<forall>n p s s'. app n p s = Some s' \<longrightarrow> quiet s s')"

lemma quiet_schedule: "sched_frame s s' \<Longrightarrow> quiet s s'"
  by (simp add: quiet_def sched_frame_def)

lemma quiet_trans: "quiet s s' \<Longrightarrow> quiet s' s'' \<Longrightarrow> quiet s s''"
  by (simp add: quiet_def)

lemma quiet_thread_timeout: "rt_thread_timeout t s = Some s' \<Longrightarrow> quiet s s'"
proof -
  assume a: "rt_thread_timeout t s = Some s'"
  let ?u = "tlists_update (seq_remove t) (set_error t (- RT_ETIMEOUT) s)"
  obtain s1 where s1: "rt_schedule_insert_thread t ?u = Some s1" "rt_schedule s1 = Some s'"
    using a by (auto simp: rt_thread_timeout_def Let_def bind_eq_Some_conv split: if_splits)
  have "quiet s ?u" by (simp add: quiet_def)
  then show ?thesis
    using quiet_schedule [OF sched_frame_insert [OF s1(1)]] quiet_schedule [OF sched_frame_schedule [OF s1(2)]]
    by (blast intro: quiet_trans)
qed

lemma quiet_run: "quiet_app app \<Longrightarrow> run_timeout app t s = Some s' \<Longrightarrow> quiet s s'"
  by (auto simp: run_timeout_def quiet_app_def quiet_thread_timeout split: timeout_fn.splits)

lemma timer_check_fires:
  assumes "quiet_app app"
    and "timers_sorted base (\<lambda>t. tm_timeout_tick (timers s t)) (trows s Hard_list)"
    and "window base (\<lambda>t. tm_timeout_tick (timers s t)) (trows s Hard_list)"
    and "due base (tick s) < unat half_range" and "distinct (trows s Hard_list)"
    and "\<forall>t \<in> set (trows s Hard_list). obj_flag (objs s t) AND RT_TIMER_FLAG_PERIODIC = 0"
  shows "rt_timer_check app s =
    fire_all app (filter (\<lambda>t. due base (tm_timeout_tick (timers s t)) \<le> due base (tick s))
      (trows s Hard_list)) s"
  using assms
proof (induction "trows s Hard_list" arbitrary: s)
  case Nil
  then show ?case
    by (simp add: rt_timer_check_def) (subst timer_check_loop.simps, simp)
next
  case (Cons t ts)
  define e where "e = (\<lambda>(s :: kstate) t. due base (tm_timeout_tick (timers s t)) \<le> due base (tick s))"
  note l = Cons.hyps(2) [symmetric]
  have ex: "tick s - tm_timeout_tick (timers s t) < half_range \<longleftrightarrow> e s t"
    using expired_iff [of base "tm_timeout_tick (timers s t)" "tick s"] Cons.prems(3,4)
    by (simp add: e_def l window_def)
  show ?case
  proof (cases "e s t")
    case False
    have "\<not> e s u" if "u \<in> set ts" for u
      using False Cons.prems(2) that by (auto simp: e_def l timers_sorted_def)
    then have "filter (e s) (trows s Hard_list) = []" using False by (simp add: l filter_empty_conv)
    moreover have "rt_timer_check app s = Some s"
      using False ex by (simp add: rt_timer_check_def rt_tick_get_def) (subst timer_check_loop.simps, simp add: l)
    ultimately show ?thesis by (simp add: e_def)
  next
    case True
    have f: "filter (e s) (trows s Hard_list) = t # filter (e s) ts" using True by (simp add: l)
    have step: "rt_timer_check app s = do {
        s1 \<leftarrow> run_timeout app t (rt_timer_remove t s);
        s2 \<leftarrow> timer_rearm t s1;
        timer_check_loop app (rt_tick_get s1) s2 }"
      using True ex by (simp add: rt_timer_check_def rt_tick_get_def) (subst timer_check_loop.simps, simp add: l rt_tick_get_def)
    show ?thesis
    proof (cases "run_timeout app t (rt_timer_remove t s)")
      case None
      then show ?thesis using step f by (simp add: fire_def e_def [abs_def])
    next
      case (Some s1)
      define s2 where "s2 = upd_obj t (obj_flag_update (\<lambda>f. f AND NOT RT_TIMER_FLAG_ACTIVATED)) s1"
      have q: "quiet (rt_timer_remove t s) s1" using quiet_run [OF Cons.prems(1) Some] .
      have rows: "trows s2 Hard_list = ts" and rest: "timers s2 = timers s" "tick s2 = tick s"
        "\<forall>u. u \<noteq> t \<longrightarrow> obj_flag (objs s2 u) = obj_flag (objs s u)"
        using q Cons.prems(5) l by (auto simp: s2_def quiet_def rt_timer_remove_def)
      have p: "obj_flag (objs s1 t) AND RT_TIMER_FLAG_PERIODIC = 0"
        using q Cons.prems(6) l by (simp add: quiet_def rt_timer_remove_def)
      then have r: "timer_rearm t s1 = Some s2" by (simp add: timer_rearm_def s2_def)
      have nt: "t \<notin> set ts" using Cons.prems(5) l by simp
      have fl: "obj_flag (objs s2 u) = obj_flag (objs s u)" if "u \<in> set ts" for u
        using rest(3) nt that by metis
      have "rt_timer_check app s2 = fire_all app (filter (e s2) (trows s2 Hard_list)) s2"
        unfolding e_def
        by (rule Cons.hyps(1))
          (use Cons.prems nt in \<open>auto simp: rows rest(1,2) fl l timers_sorted_def window_def\<close>)
      moreover have "e s2 = e s" using rest by (simp add: e_def)
      moreover have "timer_check_loop app (rt_tick_get s1) s2 = rt_timer_check app s2"
        by (simp add: rt_timer_check_def s2_def rt_tick_get_def)
      moreover have "fire app t s = Some s2" using Some by (simp add: fire_def s2_def)
      ultimately show ?thesis using step f Some r rows by (simp add: e_def [abs_def])
    qed
  qed
qed

text \<open>With callbacks of the application that return, the check returns, and leaves no expired timer.\<close>

lemma fire_all_rows:
  assumes "quiet_app app" "fire_all app ts s = Some s'"
  shows "trows s' h = filter (\<lambda>t. t \<notin> set ts) (trows s h)" "timers s' = timers s" "tick s' = tick s"
proof -
  have "trows s' h = filter (\<lambda>t. t \<notin> set ts) (trows s h) \<and> timers s' = timers s \<and> tick s' = tick s"
    using assms(2)
  proof (induction ts arbitrary: s)
    case (Cons t ts)
    obtain s1 where s1: "run_timeout app t (rt_timer_remove t s) = Some s1"
      "fire_all app ts (upd_obj t (obj_flag_update (\<lambda>f. f AND NOT RT_TIMER_FLAG_ACTIVATED)) s1) = Some s'"
      using Cons.prems by (auto simp: fire_def bind_eq_Some_conv)
    have "filter (\<lambda>u. u \<notin> set ts) (removeAll t xs) = filter (\<lambda>u. u \<noteq> t \<and> u \<notin> set ts) xs" for xs
      by (induction xs) auto
    then show ?case
      using quiet_run [OF assms(1) s1(1)] Cons.IH [OF s1(2)] by (simp add: quiet_def rt_timer_remove_def)
  qed simp
  then show "trows s' h = filter (\<lambda>t. t \<notin> set ts) (trows s h)" "timers s' = timers s" "tick s' = tick s"
    by auto
qed

lemma fire_all_total:
  assumes "quiet_app app" "\<forall>n p s. app n p s \<noteq> None"
    "\<forall>t \<in> set ts. \<exists>n. tm_timeout_func (timers s t) = Application n"
  shows "fire_all app ts s \<noteq> None"
  using assms(3)
proof (induction ts arbitrary: s)
  case (Cons t ts)
  let ?r = "rt_timer_remove t s"
  obtain n where n: "tm_timeout_func (timers ?r t) = Application n"
    using Cons.prems by (auto simp: rt_timer_remove_def)
  obtain s1 where s1: "app n (tm_parameter (timers ?r t)) ?r = Some s1"
    using assms(2) by (meson not_None_eq)
  then have r: "run_timeout app t ?r = Some s1" using n by (simp add: run_timeout_def)
  have "timers s1 = timers s" using quiet_run [OF assms(1) r] by (simp add: quiet_def rt_timer_remove_def)
  then show ?case using r Cons by (simp add: fire_def)
qed simp

text \<open>C11. With one-shot timers of the application whose callbacks return and leave the timers alone,
  rt_timer_check returns and leaves exactly the timers that are not yet due, also when the tick
  has wrapped round.\<close>

lemma timer_check_returns:
  assumes app: "quiet_app app" "\<forall>n p s. app n p s \<noteq> None"
    and "timers_sorted base (\<lambda>t. tm_timeout_tick (timers s t)) (trows s Hard_list)"
    and "window base (\<lambda>t. tm_timeout_tick (timers s t)) (trows s Hard_list)"
    and "due base (tick s) < unat half_range" and "distinct (trows s Hard_list)"
    and "\<forall>t \<in> set (trows s Hard_list). obj_flag (objs s t) AND RT_TIMER_FLAG_PERIODIC = 0 \<and>
      (\<exists>n. tm_timeout_func (timers s t) = Application n)"
  shows "\<exists>s'. rt_timer_check app s = Some s' \<and> trows s' Hard_list =
    filter (\<lambda>t. due base (tick s) < due base (tm_timeout_tick (timers s t))) (trows s Hard_list)"
proof -
  let ?e = "\<lambda>t. due base (tm_timeout_tick (timers s t)) \<le> due base (tick s)"
  have c: "rt_timer_check app s = fire_all app (filter ?e (trows s Hard_list)) s"
    using timer_check_fires [OF app(1) assms(3-6)] assms(7) by simp
  obtain s' where s': "fire_all app (filter ?e (trows s Hard_list)) s = Some s'"
    using fire_all_total [OF app, of "filter ?e (trows s Hard_list)" s] assms(7) by auto
  have "filter (\<lambda>t. t \<notin> set (filter ?e xs)) xs = filter (\<lambda>t. \<not> ?e t) xs" for xs
    by (rule filter_cong) auto
  then show ?thesis using c s' fire_all_rows(1) [OF app(1) s', of Hard_list] by (simp add: not_le)
qed

subsection \<open>Sleeping\<close>

lemma schedule_suspended:
  assumes ok: "kernel_ok s" and t: "stat_of s t = RT_THREAD_SUSPEND" "\<not> linked (tlists s) t"
    and e: "rt_schedule s = Some s'"
  shows "stat_of s' t = RT_THREAD_SUSPEND \<and> \<not> linked (tlists s') t"
  using ok
proof (cases rule: schedule_cases)
  case (keep s1)
  then show "stat_of s' t = RT_THREAD_SUSPEND \<and> \<not> linked (tlists s') t"
    using e t by (simp_all add: linked_def)
next
  case (switch s1 to ts p)
  have "to \<noteq> t" using switch(3) t(2) by (auto simp: linked_def dest: spec [of _ "Ready p"])
  moreover have "t \<noteq> current_thread s \<or> stat_of s (current_thread s) \<noteq> RT_THREAD_RUNNING"
    using t(1) by auto
  ultimately have st: "stat_of s1 t = stat_of s t" using switch(7) [of t] by blast
  have "t \<noteq> current_thread s" if "stat_of s (current_thread s) = RT_THREAD_RUNNING" using t(1) that by auto
  then have "\<not> linked (tlists s1) t"
    using switch(6) t(2) by (auto simp: linked_def seq_insert_before_head_def split: if_splits)
  then show ?thesis using st t(1) e switch(1) by simp
qed

text \<open>When the running thread does not go on, the first of the most urgent ready threads runs.\<close>

lemma schedule_next:
  assumes ok: "kernel_ok s" and unlocked: "lock_nest s = 0"
    and stop: "stat_of s (current_thread s) \<noteq> RT_THREAD_RUNNING"
    and l: "tlists s (Ready p) = t # ts" and top: "\<forall>q < p. tlists s (Ready q) = []"
  shows "\<exists>s'. rt_schedule s = Some s' \<and> kernel_ok s' \<and> current_thread s' = t \<and>
    stat_of s' t = RT_THREAD_RUNNING \<and> tlists s' = seq_remove t (tlists s)"
proof -
  have r: "ready_ok s" by (rule kernel_okD(9) [OF ok])
  have g: "ready_group s \<noteq> 0" using group_zero [OF r] l by fastforce
  obtain first us q where h: "get_highest_priority_thread s = Some (first, q)"
    "tlists s (Ready q) = first # us" "\<forall>j < q. tlists s (Ready j) = []"
    using get_highest_correct [OF r g] by blast
  have q: "q = p" using h(2,3) l top by (metis linorder_neqE_nat list.distinct(1))
  then have ft: "first = t" using h(2) l by simp
  have tc: "t \<noteq> current_thread s" using kernel_okD(10) [OF ok, of p] l by auto
  have e: "rt_schedule s = schedule_switch t p False s"
    using unlocked g h(1) q ft tc stop kernel_ok_current [OF ok] by (auto simp: rt_schedule_def Let_def)
  obtain s' where s': "schedule_switch t p False s = Some s'" "current_thread s' = t"
    "stat_of s' t = RT_THREAD_RUNNING" "tlists s' = seq_remove t (tlists s)"
    using switch_correct [OF kernel_okD(1) [OF ok] kernel_ok_running [OF ok] l, of False] stop by auto
  then show ?thesis using schedule_kernel_ok [OF ok] e by auto
qed

text \<open>C13. With the scheduler unlocked rt_thread_sleep suspends the running thread with its timer on
  the list and due after the given time, and switches to the first of the most urgent ready
  threads, which is running then.\<close>

lemma sleep_current:
  assumes ok: "kernel_ok s" and run: "stat_of s (current_thread s) = RT_THREAD_RUNNING"
    and unlocked: "lock_nest s = 0" and time: "time < half_range"
    and ready: "tlists s (Ready p) = t # ts" "\<forall>q < p. tlists s (Ready q) = []"
  shows "\<exists>s'. rt_thread_sleep time s = Some s' \<and> kernel_ok s' \<and>
    stat_of s' (current_thread s) = RT_THREAD_SUSPEND \<and> \<not> linked (tlists s') (current_thread s) \<and>
    Thread_timer (current_thread s) \<in> set (trows s' Hard_list) \<and>
    tm_timeout_tick (timers s' (Thread_timer (current_thread s))) = tick s + time \<and>
    current_thread s' = t \<and> stat_of s' t = RT_THREAD_RUNNING \<and> tlists s' (Ready p) = ts"
proof -
  let ?c = "current_thread s"
  obtain s1 where s1: "rt_thread_suspend ?c s = Some (RT_EOK, s1)" "kernel_ok s1" "kernel_frame s s1"
    "tlists s1 = tlists s" "current_thread s1 = ?c" "stat_of s1 ?c = RT_THREAD_SUSPEND"
    using suspend_current [OF ok run] by blast
  have free: "\<not> linked (tlists s) ?c" by (rule kernel_okD(6) [OF ok run])
  note th = thread_okD [OF kernel_okD(3) [OF s1(2), unfolded s1(5)]]
  obtain s2 s3 where s3: "rt_timer_control (Thread_timer ?c) Set_time time s1 = Some (RT_EOK, time, s2)"
    "rt_timer_start (Thread_timer ?c) s2 = Some (RT_EOK, s3)" "timer_only s1 s3"
    "Thread_timer ?c \<in> set (trows s3 Hard_list)"
    "tm_timeout_tick (timers s3 (Thread_timer ?c)) = tick s1 + time"
    using thread_timer_start [OF th(4) time th(6)] by blast
  have k3: "kernel_ok s3" by (rule timer_only_kernel_ok [OF s3(3) s1(2)])
  note o = timer_only_simps [OF s3(3)]
  have st3: "stat_of s3 ?c = RT_THREAD_SUSPEND" "\<not> linked (tlists s3) ?c"
    "lock_nest s3 = 0" "stat_of s3 (current_thread s3) \<noteq> RT_THREAD_RUNNING" "tlists s3 = tlists s"
    using s1(4-6) free o unlocked s1(3) by (simp_all add: kernel_frame_def)
  obtain s' where s': "rt_schedule s3 = Some s'" "kernel_ok s'" "current_thread s' = t"
    "stat_of s' t = RT_THREAD_RUNNING" "tlists s' = seq_remove t (tlists s)"
    using schedule_next [OF k3 st3(3,4), of p t ts] ready unfolding st3(5) by blast
  note f = sched_frame_fields [OF sched_frame_schedule [OF s'(1)]]
  have "has_type s ?c RT_Object_Class_Thread" "?c \<noteq> RT_NULL"
    using thread_okD(3,5) [OF kernel_okD(3) [OF ok]] by auto
  then have "rt_thread_sleep time s = Some s'"
    using s1(1) s3(1,2) s'(1) by (simp add: rt_thread_sleep_def rt_thread_self_def)
  moreover have "tlists s' (Ready p) = ts"
    using s'(5) ready(1) tlists_okD(1) [OF kernel_okD(8) [OF ok], of "Ready p"] by simp
  ultimately show ?thesis
    using s' schedule_suspended [OF k3 st3(1,2) s'(1)] s3(4,5) f(2,8) kernel_frame_fields(9) [OF s1(3)]
    by simp
qed

end
