(* ===== verification/RT_Ipc.thy ===== *)
theory RT_Ipc
  imports RT_Kernel
begin

text \<open>
  The waiting lists of IPC objects and the semaphore, \<^verbatim>\<open>rt-thread/src/ipc.c\<close> lines 60 to 514.

  A take that has to wait ends in \<open>Wait\<close>: the thread is linked, its timer runs, and
  \<open>rt_schedule\<close> has chosen who runs now.  What the thread does when it comes back is the function
  with the suffix \<open>_wakeup\<close>.
\<close>

datatype 'a outcome = Ret 'a | Wait

definition rt_ipc_object_init :: "ptr \<Rightarrow> kstate \<Rightarrow> kstate" where
  "rt_ipc_object_init ipc s = tlists_update (\<lambda>l. l(Suspend_thread ipc := [])) s"

text \<open>The place of the thread: behind all (FIFO), or in front of the first less urgent one (PRIO).\<close>

definition rt_ipc_list_suspend :: "tlist_head \<Rightarrow> ptr \<Rightarrow> u8 \<Rightarrow> kstate \<Rightarrow> kstate option" where
  "rt_ipc_list_suspend list thread flag s = do {
     (r, s1) \<leftarrow> rt_thread_suspend thread s;
     Some (if flag = RT_IPC_FLAG_FIFO then tlists_update (seq_insert_before_head list thread) s1
       else if flag = RT_IPC_FLAG_PRIO then
         (case find (\<lambda>sthread. prio_of s1 thread < prio_of s1 sthread) (tlists s1 list) of
            Some sthread \<Rightarrow> tlists_update (seq_insert_before_node sthread thread) s1
          | None \<Rightarrow> tlists_update (seq_insert_before_head list thread) s1)
       else s1)
   }"

definition rt_ipc_list_resume :: "tlist_head \<Rightarrow> kstate \<Rightarrow> kstate option" where
  "rt_ipc_list_resume list s =
     (case tlists s list of
        [] \<Rightarrow> None
      | thread # _ \<Rightarrow> do { (r, s1) \<leftarrow> rt_thread_resume thread s; Some s1 })"

partial_function (option) rt_ipc_list_resume_all :: "tlist_head \<Rightarrow> kstate \<Rightarrow> kstate option" where
  "rt_ipc_list_resume_all list s =
     (case tlists s list of
        [] \<Rightarrow> Some s
      | thread # _ \<Rightarrow> do {
          (r, s1) \<leftarrow> rt_thread_resume thread (set_error thread (- RT_ERROR) s);
          rt_ipc_list_resume_all list s1
        })"

text \<open>
  The steps every blocking call shares: start the timer of the thread if \<open>time > 0\<close> (\<open>time\<close> is an
  \<open>rt_int32_t\<close>), after the thread was suspended on the list.
\<close>

definition wait_timer :: "ptr \<Rightarrow> u32 \<Rightarrow> kstate \<Rightarrow> kstate option" where
  "wait_timer thread time s =
     (if sint time > 0 then do {
        (r, t, s1) \<leftarrow> rt_timer_control (Thread_timer thread) Set_time time s;
        (r, s2) \<leftarrow> rt_timer_start (Thread_timer thread) s1;
        Some s2
      }
      else Some s)"

definition ipc_wait_on :: "tlist_head \<Rightarrow> ptr \<Rightarrow> u8 \<Rightarrow> u32 \<Rightarrow> kstate \<Rightarrow> kstate option" where
  "ipc_wait_on list thread flag time s = do {
     s1 \<leftarrow> rt_ipc_list_suspend list thread flag s;
     wait_timer thread time s1
   }"

text \<open>
  What is left of a timeout when a blocked call tries again.  \<open>start\<close> is the tick at which the thread
  began to wait; \<open>timeout\<close> is signed.
\<close>

definition time_left :: "u32 \<Rightarrow> u32 \<Rightarrow> kstate \<Rightarrow> u32" where
  "time_left timeout start s =
     (if sint timeout > 0
      then let left = timeout - (rt_tick_get s - start) in if sint left < 0 then 0 else left
      else timeout)"

subsection \<open>Semaphore\<close>

definition rt_sem_init :: "ptr \<Rightarrow> string \<Rightarrow> u32 \<Rightarrow> u8 \<Rightarrow> kstate \<Rightarrow> (rt_err_t \<times> kstate) option" where
  "rt_sem_init sem name value flag s = do {
     RT_ASSERT (sem \<noteq> RT_NULL);
     RT_ASSERT (value < 0x10000);
     s1 \<leftarrow> rt_object_init sem RT_Object_Class_Semaphore name s;
     let s2 = rt_ipc_object_init sem s1;
     let s3 = s2\<lparr>sems := (sems s2)(sem := ucast value)\<rparr>;
     Some (RT_EOK, upd_obj sem (obj_flag_update (\<lambda>_. flag)) s3)
   }"

definition rt_sem_detach :: "ptr \<Rightarrow> kstate \<Rightarrow> (rt_err_t \<times> kstate) option" where
  "rt_sem_detach sem s = do {
     RT_ASSERT (sem \<noteq> RT_NULL);
     assert_type sem RT_Object_Class_Semaphore s;
     assert_static sem True s;
     s1 \<leftarrow> rt_ipc_list_resume_all (Suspend_thread sem) s;
     s2 \<leftarrow> rt_object_detach sem s1;
     Some (RT_EOK, s2)
   }"

definition rt_sem_create :: "ptr \<Rightarrow> string \<Rightarrow> u32 \<Rightarrow> u8 \<Rightarrow> kstate \<Rightarrow> (ptr \<times> kstate) option" where
  "rt_sem_create mem name value flag s = do {
     not_in_interrupt s;
     RT_ASSERT (value < 0x10000);
     (sem, s1) \<leftarrow> rt_object_allocate mem RT_Object_Class_Semaphore name s;
     if sem = RT_NULL then Some (sem, s1)
     else do {
       let s2 = rt_ipc_object_init sem s1;
       let s3 = s2\<lparr>sems := (sems s2)(sem := ucast value)\<rparr>;
       Some (sem, upd_obj sem (obj_flag_update (\<lambda>_. flag)) s3)
     }
   }"

definition rt_sem_delete :: "ptr \<Rightarrow> kstate \<Rightarrow> (rt_err_t \<times> kstate) option" where
  "rt_sem_delete sem s = do {
     not_in_interrupt s;
     RT_ASSERT (sem \<noteq> RT_NULL);
     assert_type sem RT_Object_Class_Semaphore s;
     assert_static sem False s;
     s1 \<leftarrow> rt_ipc_list_resume_all (Suspend_thread sem) s;
     s2 \<leftarrow> rt_object_delete sem s1;
     Some (RT_EOK, s2)
   }"

definition rt_sem_take :: "ptr \<Rightarrow> u32 \<Rightarrow> kstate \<Rightarrow> (rt_err_t outcome \<times> kstate) option" where
  "rt_sem_take sem time s = do {
     RT_ASSERT (sem \<noteq> RT_NULL);
     assert_type sem RT_Object_Class_Semaphore s;
     if sems s sem > 0
     then Some (Ret RT_EOK, s\<lparr>sems := (sems s)(sem := sems s sem - 1)\<rparr>)
     else if time = 0 then Some (Ret (- RT_ETIMEOUT), s)
     else do {
       in_thread_context s;
       let thread = rt_thread_self s;
       s1 \<leftarrow> ipc_wait_on (Suspend_thread sem) thread (obj_flag (objs s sem)) time
         (set_error thread RT_EOK s);
       s2 \<leftarrow> rt_schedule s1;
       Some (Wait, s2)
     }
   }"

definition rt_sem_take_wakeup :: "ptr \<Rightarrow> kstate \<Rightarrow> rt_err_t" where
  "rt_sem_take_wakeup thread s =
     (if th_error (threads s thread) \<noteq> RT_EOK then th_error (threads s thread) else RT_EOK)"

definition rt_sem_trytake :: "ptr \<Rightarrow> kstate \<Rightarrow> (rt_err_t outcome \<times> kstate) option" where
  "rt_sem_trytake sem s = rt_sem_take sem 0 s"

definition rt_sem_release :: "ptr \<Rightarrow> kstate \<Rightarrow> (rt_err_t \<times> kstate) option" where
  "rt_sem_release sem s = do {
     RT_ASSERT (sem \<noteq> RT_NULL);
     assert_type sem RT_Object_Class_Semaphore s;
     if tlists s (Suspend_thread sem) \<noteq> [] then do {
       s1 \<leftarrow> rt_ipc_list_resume (Suspend_thread sem) s;
       s2 \<leftarrow> rt_schedule s1;
       Some (RT_EOK, s2)
     }
     else Some (RT_EOK, s\<lparr>sems := (sems s)(sem := sems s sem + 1)\<rparr>)
   }"

text \<open>The commands of the IPC control functions; \<open>Reset arg\<close> is \<open>RT_IPC_CMD_RESET\<close>.\<close>

datatype ipc_cmd = Reset u32 | Other_ipc_cmd

definition rt_sem_control :: "ptr \<Rightarrow> ipc_cmd \<Rightarrow> kstate \<Rightarrow> (rt_err_t \<times> kstate) option" where
  "rt_sem_control sem cmd s = do {
     RT_ASSERT (sem \<noteq> RT_NULL);
     assert_type sem RT_Object_Class_Semaphore s;
     case cmd of
       Reset value \<Rightarrow> do {
         s1 \<leftarrow> rt_ipc_list_resume_all (Suspend_thread sem) s;
         s2 \<leftarrow> rt_schedule (s1\<lparr>sems := (sems s1)(sem := ucast value)\<rparr>);
         Some (RT_EOK, s2)
       }
     | Other_ipc_cmd \<Rightarrow> Some (- RT_ERROR, s)
   }"

subsection \<open>The order of a waiting list\<close>

definition wait_place :: "(ptr \<Rightarrow> nat) \<Rightarrow> u8 \<Rightarrow> ptr \<Rightarrow> ptr list \<Rightarrow> ptr list" where
  "wait_place pr flag t ts = (if flag = RT_IPC_FLAG_FIFO then ts @ [t]
     else takeWhile (\<lambda>u. pr u \<le> pr t) ts @ t # dropWhile (\<lambda>u. pr u \<le> pr t) ts)"

definition prio_sorted :: "(ptr \<Rightarrow> nat) \<Rightarrow> ptr list \<Rightarrow> bool" where
  "prio_sorted pr ts \<longleftrightarrow> sorted_wrt (\<lambda>a b. pr a \<le> pr b) ts"

lemma set_wait_place: "set (wait_place pr flag t ts) = insert t (set ts)"
proof -
  have "set (takeWhile P ts) \<union> set (dropWhile P ts) = set ts" for P
    by (metis set_append takeWhile_dropWhile_id)
  then show ?thesis by (auto simp: wait_place_def)
qed

lemma distinct_wait_place:
  assumes "distinct ts" "t \<notin> set ts"
  shows "distinct (wait_place pr flag t ts)"
proof -
  let ?P = "\<lambda>u. pr u \<le> pr t"
  have "distinct (takeWhile ?P ts @ dropWhile ?P ts)" using assms(1) by simp
  then show ?thesis
    using assms by (auto simp: wait_place_def simp del: takeWhile_dropWhile_id
        dest: set_takeWhileD set_dropWhileD)
qed

lemma wait_place_sorted:
  assumes "prio_sorted pr ts"
  shows "prio_sorted pr (wait_place pr RT_IPC_FLAG_PRIO t ts)"
  using assms
proof (induction ts)
  case Nil
  then show ?case by (simp add: wait_place_def prio_sorted_def RT_IPC_FLAG_PRIO_def RT_IPC_FLAG_FIFO_def)
next
  case (Cons u us)
  then have "prio_sorted pr (wait_place pr RT_IPC_FLAG_PRIO t us)" by (simp add: prio_sorted_def)
  moreover have "set (takeWhile (\<lambda>u. pr u \<le> pr t) us) \<subseteq> set us" "set (dropWhile (\<lambda>u. pr u \<le> pr t) us) \<subseteq> set us"
    by (auto dest: set_takeWhileD set_dropWhileD)
  ultimately show ?case
    using Cons.prems by (fastforce simp: wait_place_def prio_sorted_def RT_IPC_FLAG_PRIO_def RT_IPC_FLAG_FIFO_def)
qed

text \<open>Threads of one priority keep their order of arrival: the new one is behind them.\<close>

lemma wait_place_same_prio:
  assumes "prio_sorted pr ts"
  shows "filter (\<lambda>u. pr u = pr t) (wait_place pr flag t ts) = filter (\<lambda>u. pr u = pr t) ts @ [t]"
proof (cases "flag = RT_IPC_FLAG_FIFO")
  case False
  have "filter (\<lambda>u. pr u = pr t) (dropWhile (\<lambda>u. pr u \<le> pr t) ts) = []"
    using assms
  proof (induction ts)
    case (Cons u us)
    then show ?case by (auto simp: prio_sorted_def filter_empty_conv)
  qed simp
  then have "filter (\<lambda>u. pr u = pr t) ts = filter (\<lambda>u. pr u = pr t) (takeWhile (\<lambda>u. pr u \<le> pr t) ts)"
    by (metis append_Nil2 filter_append takeWhile_dropWhile_id)
  then show ?thesis
    using False \<open>filter _ (dropWhile _ ts) = []\<close> by (simp add: wait_place_def)
qed (simp add: wait_place_def)

lemma find_ins_before:
  "(case find P xs of Some y \<Rightarrow> ins_before y x xs | None \<Rightarrow> xs @ [x]) =
     takeWhile (\<lambda>u. \<not> P u) xs @ x # dropWhile (\<lambda>u. \<not> P u) xs"
proof (induction xs)
  case (Cons a as)
  show ?case
  proof (cases "P a")
    case False
    then have "y \<noteq> a" if "find P as = Some y" for y
      using that by (auto simp: find_Some_iff)
    then show ?thesis using False Cons by (auto split: option.splits)
  qed simp
qed simp

subsection \<open>Waiting\<close>

lemma list_suspend_place:
  assumes ok: "kernel_ok s" and run: "stat_of s (current_thread s) = RT_THREAD_RUNNING"
    and h: "wait_head h" and flag: "flag = RT_IPC_FLAG_FIFO \<or> flag = RT_IPC_FLAG_PRIO"
  shows "\<exists>s'. rt_ipc_list_suspend h (current_thread s) flag s = Some s' \<and> kernel_ok s' \<and>
    kernel_frame s s' \<and> current_thread s' = current_thread s \<and>
    tlists s' = (tlists s)(h := wait_place (prio_of s) flag (current_thread s) (tlists s h)) \<and>
    (\<forall>u. u \<noteq> current_thread s \<longrightarrow> threads s' u = threads s u)"
proof -
  let ?c = "current_thread s"
  obtain s1 where s1: "rt_thread_suspend ?c s = Some (RT_EOK, s1)" "kernel_ok s1" "kernel_frame s s1"
    "tlists s1 = tlists s" "current_thread s1 = ?c" "stat_of s1 ?c = RT_THREAD_SUSPEND"
    "\<forall>u. u \<noteq> ?c \<longrightarrow> threads s1 u = threads s u"
    using suspend_current [OF ok run] by blast
  have free: "\<not> linked (tlists s) ?c" by (rule kernel_okD(6) [OF ok run])
  have t1: "thread_ok s1 ?c" using kernel_okD(3) [OF s1(2)] s1(5) by simp
  have pr: "prio_of s1 u = prio_of s u" for u using kernel_frame_fields(15) [OF s1(3), of u] by simp
  define xs where "xs = wait_place (prio_of s) flag ?c (tlists s h)"
  have only: "y \<notin> set (tlists s h')" if "y \<in> set (tlists s h)" "h' \<noteq> h" for y h'
    using tlists_okD(2) [OF kernel_okD(8) [OF ok] that(1)] that(2) by blast
  have node: "seq_insert_before_node y ?c (tlists s) = (tlists s)(h := ins_before y ?c (tlists s h))"
    if "y \<in> set (tlists s h)" for y
    using only [OF that] by (auto simp: seq_insert_before_node_def fun_eq_iff)
  let ?f = "find (\<lambda>u. prio_of s ?c < prio_of s u) (tlists s h)"
  have e: "rt_ipc_list_suspend h ?c flag s = Some (s1\<lparr>tlists := (tlists s1)(h := xs)\<rparr>)"
  proof (cases "flag = RT_IPC_FLAG_FIFO")
    case True
    then show ?thesis
      using s1(1,4) by (simp add: rt_ipc_list_suspend_def xs_def wait_place_def seq_insert_before_head_def)
  next
    case False
    then have x: "xs = (case ?f of Some y \<Rightarrow> ins_before y ?c (tlists s h) | None \<Rightarrow> tlists s h @ [?c])"
      by (simp add: xs_def wait_place_def find_ins_before not_less)
    show ?thesis
    proof (cases ?f)
      case None
      then show ?thesis
        using False flag s1(1,4) x by (simp add: rt_ipc_list_suspend_def pr seq_insert_before_head_def)
    next
      case (Some y)
      then have "y \<in> set (tlists s h)" by (auto simp: find_Some_iff)
      then show ?thesis
        using False flag s1(1,4) x Some by (simp add: rt_ipc_list_suspend_def pr node)
    qed
  qed
  have new: "set xs = insert ?c (set (tlists s1 h))" "distinct xs"
    using s1(4) free tlists_okD(1) [OF kernel_okD(8) [OF ok]]
    by (auto simp: xs_def set_wait_place linked_def intro!: distinct_wait_place)
  have "kernel_ok (s1\<lparr>tlists := (tlists s1)(h := xs)\<rparr>)"
    by (rule kernel_ok_link [OF s1(2) _ t1 s1(6) h new]) (simp add: s1(4) free)
  moreover have "kernel_frame s (s1\<lparr>tlists := (tlists s1)(h := xs)\<rparr>)"
    by (rule kernel_frame_trans [OF s1(3)]) (simp add: kernel_frame_def)
  ultimately show ?thesis using e s1(4,5,7) by (simp add: xs_def)
qed

text \<open>A timeout that fits the timer: all of \<open>rt_int32_t\<close> but its greatest value.\<close>

definition timeout_ok :: "u32 \<Rightarrow> bool" where
  "timeout_ok time \<longleftrightarrow> time \<noteq> half_range"

lemma timeout_ok_less: "timeout_ok time \<Longrightarrow> 0 < sint time \<Longrightarrow> time < half_range"
proof -
  assume a: "timeout_ok time" "0 < sint time"
  have l: "sint time < 2 ^ 31" using sint_lt [of time] by simp
  have "uint time = take_bit 32 (sint time)" by (simp add: uint_sint)
  also have "\<dots> = sint time" using a(2) l by (intro take_bit_int_eq_self) simp_all
  finally have "uint time < 2147483648" using l by simp
  moreover have "uint time \<noteq> 2147483647"
  proof
    assume "uint time = 2147483647"
    then have "time = half_range"
      by (metis RT_TICK_MAX_def half_range_unat nat_numeral unat_eq_nat_uint word_unat_eq_iff)
    then show False using a(1) by (simp add: timeout_ok_def)
  qed
  ultimately have "uint time < 2147483647" by simp
  then show ?thesis by (simp add: word_less_def RT_TICK_MAX_def)
qed

lemma wait_timer_ok:
  assumes "thread_ok s t" "timeout_ok time"
  shows "\<exists>s'. wait_timer t time s = Some s' \<and> timer_only s s'"
proof (cases "sint time > 0")
  case True
  then show ?thesis
    using thread_timer_start [OF thread_okD(4) [OF assms(1)] timeout_ok_less [OF assms(2) True]
        thread_okD(6) [OF assms(1)]]
    by (auto simp: wait_timer_def)
qed (simp add: wait_timer_def)

lemma ipc_wait_place:
  assumes ok: "kernel_ok s" and run: "stat_of s (current_thread s) = RT_THREAD_RUNNING"
    and h: "wait_head h" and flag: "flag = RT_IPC_FLAG_FIFO \<or> flag = RT_IPC_FLAG_PRIO"
    and time: "timeout_ok time"
  shows "\<exists>s'. ipc_wait_on h (current_thread s) flag time s = Some s' \<and> kernel_ok s' \<and>
    kernel_frame s s' \<and> current_thread s' = current_thread s \<and>
    tlists s' = (tlists s)(h := wait_place (prio_of s) flag (current_thread s) (tlists s h)) \<and>
    (\<forall>u. u \<noteq> current_thread s \<longrightarrow> threads s' u = threads s u)"
proof -
  let ?c = "current_thread s"
  obtain s1 where s1: "rt_ipc_list_suspend h ?c flag s = Some s1" "kernel_ok s1" "kernel_frame s s1"
    "current_thread s1 = ?c" "tlists s1 = (tlists s)(h := wait_place (prio_of s) flag ?c (tlists s h))"
    "\<forall>u. u \<noteq> ?c \<longrightarrow> threads s1 u = threads s u"
    using list_suspend_place [OF ok run h flag] by blast
  obtain s3 where "wait_timer ?c time s1 = Some s3" "timer_only s1 s3"
    using wait_timer_ok [OF _ time] kernel_okD(3) [OF s1(2)] s1(4) by metis
  then show ?thesis
    using s1 timer_only_kernel_ok [of s1 s3] kernel_frame_trans [OF s1(3)]
    by (auto simp: ipc_wait_on_def timer_only_def)
qed

subsection \<open>Waking\<close>

lemma wait_lists_ready_lists:
  "wait_head h \<Longrightarrow> ready_lists t s h = removeAll t (tlists s h)"
  by (auto simp: ready_lists_def seq_insert_before_head_def)

lemma list_resume_first:
  assumes ok: "kernel_ok s" and l: "tlists s h = t # ts" and h: "wait_head h"
  shows "\<exists>s'. rt_ipc_list_resume h s = Some s' \<and> kernel_ok s' \<and> kernel_frame s s' \<and>
    tlists s' = ready_lists t s \<and> tlists s' h = ts \<and> current_thread s' = current_thread s \<and>
    (\<forall>u. u \<noteq> t \<longrightarrow> threads s' u = threads s u) \<and>
    stat_of s' t = (if t = current_thread s then RT_THREAD_RUNNING else RT_THREAD_READY)"
proof -
  have t: "t \<in> set (tlists s h)" using l by simp
  have "h \<noteq> Defunct" using h by auto
  obtain s' where s': "rt_thread_resume t s = Some (RT_EOK, s')" "kernel_ok s'" "kernel_frame s s'"
    "tlists s' = ready_lists t s" "current_thread s' = current_thread s"
    "\<forall>u. u \<noteq> t \<longrightarrow> threads s' u = threads s u"
    "stat_of s' t = (if t = current_thread s then RT_THREAD_RUNNING else RT_THREAD_READY)"
    using resume_waiting [OF ok kernel_okD(4) [OF ok t \<open>h \<noteq> Defunct\<close>] kernel_okD(5) [OF ok t h]]
    by blast
  have "tlists s' h = ts"
    using tlists_okD(1) [OF kernel_okD(8) [OF ok], of h] l s'(4) by (simp add: wait_lists_ready_lists [OF h])
  then show ?thesis using s' l by (auto simp: rt_ipc_list_resume_def)
qed

text \<open>
  \<open>rt_ipc_list_resume_all\<close> ends: it takes the waiting threads off one by one, gives each the error
  \<open>-RT_ERROR\<close>, and touches no other waiting list.
\<close>

definition errors_set :: "ptr set \<Rightarrow> kstate \<Rightarrow> kstate \<Rightarrow> bool" where
  "errors_set T s s' \<longleftrightarrow>
     (\<forall>t. th_error (threads s' t) = (if t \<in> T then - RT_ERROR else th_error (threads s t)))"

definition same_objects :: "kstate \<Rightarrow> kstate \<Rightarrow> bool" where
  "same_objects s s' \<longleftrightarrow> sems s' = sems s \<and> mutexes s' = mutexes s \<and> events s' = events s \<and>
     mailboxes s' = mailboxes s \<and> msgqueues s' = msgqueues s \<and> object_lists s' = object_lists s \<and>
     interrupt_nest s' = interrupt_nest s \<and> lock_nest s' = lock_nest s \<and> tick s' = tick s \<and>
     (\<forall>p. obj_type (objs s' p) = obj_type (objs s p)) \<and>
     (\<forall>p. (\<forall>t. p \<noteq> Thread_timer t) \<longrightarrow> objs s' p = objs s p) \<and>
     (\<forall>t. th_current_priority (threads s' t) = th_current_priority (threads s t))"

lemma same_objects_refl [simp]: "same_objects s s"
  by (simp add: same_objects_def)

lemma same_objects_trans: "same_objects s s' \<Longrightarrow> same_objects s' s'' \<Longrightarrow> same_objects s s''"
  by (simp add: same_objects_def)

lemma kernel_frame_same_objects: "kernel_frame s s' \<Longrightarrow> same_objects s s'"
  by (simp add: same_objects_def kernel_frame_def thread_frame_def)

lemma same_objects_set_error [simp]: "same_objects s (set_error t e s)"
  by (simp add: same_objects_def)

lemma same_objects_has_type: "same_objects s s' \<Longrightarrow> has_type s' p c = has_type s p c"
  by (simp add: same_objects_def has_type_def)

lemma same_objectsD:
  assumes "same_objects s s'"
  shows "sems s' = sems s" "mutexes s' = mutexes s" "events s' = events s"
    "mailboxes s' = mailboxes s" "msgqueues s' = msgqueues s"
    "interrupt_nest s' = interrupt_nest s" "(\<And>t. p \<noteq> Thread_timer t) \<Longrightarrow> objs s' p = objs s p"
  using assms by (simp_all add: same_objects_def)

lemma list_resume_all:
  assumes "kernel_ok s" "wait_head h"
  shows "\<exists>s'. rt_ipc_list_resume_all h s = Some s' \<and> kernel_ok s' \<and> same_objects s s' \<and>
    tlists s' h = [] \<and> errors_set (set (tlists s h)) s s' \<and>
    (\<forall>h'. wait_head h' \<longrightarrow> h' \<noteq> h \<longrightarrow> tlists s' h' = tlists s h') \<and>
    current_thread s' = current_thread s \<and>
    (\<forall>t. t \<in> set (tlists s h) \<longrightarrow>
      stat_of s' t = (if t = current_thread s then RT_THREAD_RUNNING else RT_THREAD_READY)) \<and>
    (\<forall>t. t \<notin> set (tlists s h) \<longrightarrow> threads s' t = threads s t)"
  using assms
proof (induction "tlists s h" arbitrary: s)
  case Nil
  then show ?case
    by (subst rt_ipc_list_resume_all.simps) (simp add: errors_set_def)
next
  case (Cons t ts)
  let ?e = "set_error t (- RT_ERROR) s"
  have k: "kernel_ok ?e" using Cons.prems(1) by simp
  have l: "tlists ?e h = t # ts" using Cons.hyps(2) by simp
  obtain s1 where s1: "rt_ipc_list_resume h ?e = Some s1" "kernel_ok s1" "kernel_frame ?e s1"
    "tlists s1 = ready_lists t ?e" "tlists s1 h = ts" "current_thread s1 = current_thread s"
    "\<forall>u. u \<noteq> t \<longrightarrow> threads s1 u = threads s u"
    "stat_of s1 t = (if t = current_thread s then RT_THREAD_RUNNING else RT_THREAD_READY)"
    using list_resume_first [OF k l Cons.prems(2)] by auto
  obtain r where r: "rt_thread_resume t ?e = Some (r, s1)"
    using s1(1) l by (auto simp: rt_ipc_list_resume_def bind_eq_Some_conv)
  obtain s' where s': "rt_ipc_list_resume_all h s1 = Some s'" "kernel_ok s'" "same_objects s1 s'"
    "tlists s' h = []" "errors_set (set ts) s1 s'"
    "\<forall>h'. wait_head h' \<longrightarrow> h' \<noteq> h \<longrightarrow> tlists s' h' = tlists s1 h'"
    "current_thread s' = current_thread s1"
    "\<forall>t. t \<in> set ts \<longrightarrow>
      stat_of s' t = (if t = current_thread s1 then RT_THREAD_RUNNING else RT_THREAD_READY)"
    "\<forall>t. t \<notin> set ts \<longrightarrow> threads s' t = threads s1 t"
    using Cons.hyps(1) [of s1] s1(2,5) Cons.prems(2) by auto
  note tok = kernel_okD(8) [OF Cons.prems(1)]
  have tin: "t \<in> set (tlists s h)" "t \<notin> set ts"
    using Cons.hyps(2) tlists_okD(1) [OF tok, of h] by (metis list.set_intros(1), metis distinct.simps(2))
  have e: "rt_ipc_list_resume_all h s = Some s'"
    using Cons.hyps(2) r s'(1) by (subst rt_ipc_list_resume_all.simps) (simp flip: Cons.hyps(2))
  have obs: "same_objects s s'"
    by (rule same_objects_trans [OF same_objects_set_error
          same_objects_trans [OF kernel_frame_same_objects [OF s1(3)] s'(3)]])
  have er: "errors_set (set (tlists s h)) s s'"
    unfolding errors_set_def
  proof
    fix u
    have "th_error (threads s1 u) = (if u = t then - RT_ERROR else th_error (threads s u))"
      using kernel_frame_fields(14) [OF s1(3), of u] by simp
    then show "th_error (threads s' u) =
        (if u \<in> set (tlists s h) then - RT_ERROR else th_error (threads s u))"
      using s'(5) Cons.hyps(2) [symmetric] unfolding errors_set_def by (cases "u = t") auto
  qed
  have other: "tlists s' h' = tlists s h'" if "wait_head h'" "h' \<noteq> h" for h'
  proof -
    have "t \<notin> set (tlists s h')" using tlists_okD(2) [OF tok tin(1)] that(2) by blast
    then show ?thesis using s'(6) that s1(4) by (simp add: wait_lists_ready_lists)
  qed
  have st: "stat_of s' u = (if u = current_thread s then RT_THREAD_RUNNING else RT_THREAD_READY)"
    if "u \<in> set (tlists s h)" for u
  proof (cases "u = t")
    case True
    then show ?thesis using s'(9) tin(2) s1(8) by simp
  qed (use that Cons.hyps(2) [symmetric] s'(8) s1(6) in auto)
  have un: "threads s' u = threads s u" if "u \<notin> set (tlists s h)" for u
    using that Cons.hyps(2) [symmetric] s'(9) s1(7) by simp
  show ?case
    by (rule exI [of _ s'], intro conjI allI impI)
      (use e s'(2,4,7) s1(6) obs er other st un in simp_all)
qed

subsection \<open>The semaphore\<close>

text \<open>What the callers of an IPC function guarantee.\<close>

definition ipc_ok :: "kstate \<Rightarrow> ptr \<Rightarrow> u8 \<Rightarrow> bool" where
  "ipc_ok s p c \<longleftrightarrow> kernel_ok s \<and> has_type s p c \<and>
     (obj_flag (objs s p) = RT_IPC_FLAG_FIFO \<or> obj_flag (objs s p) = RT_IPC_FLAG_PRIO)"

definition thread_context :: "kstate \<Rightarrow> bool" where
  "thread_context s \<longleftrightarrow> interrupt_nest s = 0 \<and> stat_of s (current_thread s) = RT_THREAD_RUNNING"

text \<open>A semaphore with a positive value has no waiting thread.\<close>

definition sem_inv :: "kstate \<Rightarrow> ptr \<Rightarrow> bool" where
  "sem_inv s sem \<longleftrightarrow> (sems s sem > 0 \<longrightarrow> tlists s (Suspend_thread sem) = [])"

lemma ipc_okD:
  assumes "ipc_ok s p c"
  shows "kernel_ok s" "has_type s p c"
    "obj_flag (objs s p) = RT_IPC_FLAG_FIFO \<or> obj_flag (objs s p) = RT_IPC_FLAG_PRIO"
    "p \<noteq> RT_NULL"
  using assms by (auto simp: ipc_ok_def has_type_def)

lemma ipc_ok_frame:
  assumes "ipc_ok s p c" "kernel_frame s s'" "kernel_ok s'" "\<And>t. p \<noteq> Thread_timer t"
  shows "ipc_ok s' p c"
  using assms kernel_frame_has_type [OF assms(2)] kernel_frame_fields(13) [OF assms(2), of p]
  by (simp add: ipc_ok_def)

lemma sem_take_value:
  assumes "ipc_ok s sem RT_Object_Class_Semaphore" "sems s sem > 0"
  shows "rt_sem_take sem time s = Some (Ret RT_EOK, s\<lparr>sems := (sems s)(sem := sems s sem - 1)\<rparr>)"
  using ipc_okD [OF assms(1)] assms(2) by (simp add: rt_sem_take_def)

lemma sem_take_poll:
  assumes "ipc_ok s sem RT_Object_Class_Semaphore" "sems s sem = 0"
  shows "rt_sem_take sem 0 s = Some (Ret (- RT_ETIMEOUT), s)"
  using ipc_okD [OF assms(1)] assms(2) by (simp add: rt_sem_take_def)

text \<open>The part of a blocking call that waits, up to and with \<open>rt_schedule\<close>.\<close>

lemma block_current:
  assumes ok: "kernel_ok s" and run: "stat_of s (current_thread s) = RT_THREAD_RUNNING"
    and h: "wait_head h" and flag: "flag = RT_IPC_FLAG_FIFO \<or> flag = RT_IPC_FLAG_PRIO"
    and time: "timeout_ok time"
  shows "\<exists>s1 s'. ipc_wait_on h (current_thread s) flag time s = Some s1 \<and>
    rt_schedule s1 = Some s' \<and> kernel_ok s' \<and> kernel_frame s s' \<and>
    (\<forall>h'. wait_head h' \<longrightarrow> tlists s' h' =
      ((tlists s)(h := wait_place (prio_of s) flag (current_thread s) (tlists s h))) h')"
proof -
  obtain s1 where s1: "ipc_wait_on h (current_thread s) flag time s = Some s1" "kernel_ok s1"
    "kernel_frame s s1"
    "tlists s1 = (tlists s)(h := wait_place (prio_of s) flag (current_thread s) (tlists s h))"
    using ipc_wait_place [OF assms] by blast
  then show ?thesis
    using schedule_kernel_ok [OF s1(2)] by (auto elim: kernel_frame_trans)
qed

lemma sem_take_wait:
  assumes ok: "ipc_ok s sem RT_Object_Class_Semaphore" and ctx: "thread_context s"
    and v: "sems s sem = 0" and time: "time \<noteq> 0" "timeout_ok time"
  shows "\<exists>s'. rt_sem_take sem time s = Some (Wait, s') \<and> kernel_ok s' \<and> sems s' = sems s \<and>
    tlists s' (Suspend_thread sem) = wait_place (prio_of s) (obj_flag (objs s sem))
      (current_thread s) (tlists s (Suspend_thread sem)) \<and>
    (\<forall>p. p \<noteq> sem \<longrightarrow> tlists s' (Suspend_thread p) = tlists s (Suspend_thread p)) \<and>
    rt_sem_take_wakeup (current_thread s) s' = RT_EOK \<and>
    (\<forall>u. u \<noteq> current_thread s \<longrightarrow> th_error (threads s' u) = th_error (threads s u)) \<and>
    ((\<forall>t. sem \<noteq> Thread_timer t) \<longrightarrow> ipc_ok s' sem RT_Object_Class_Semaphore)"
proof -
  let ?e = "set_error (current_thread s) RT_EOK s"
  have k: "kernel_ok ?e" using ipc_okD(1) [OF ok] by simp
  have r: "stat_of ?e (current_thread ?e) = RT_THREAD_RUNNING" using ctx by (simp add: thread_context_def)
  have pr: "prio_of ?e = prio_of s" by auto
  obtain s1 s' where s': "ipc_wait_on (Suspend_thread sem) (current_thread s) (obj_flag (objs s sem)) time ?e = Some s1"
    "rt_schedule s1 = Some s'" "kernel_ok s'" "kernel_frame ?e s'"
    "\<forall>h'. wait_head h' \<longrightarrow> tlists s' h' = ((tlists s)(Suspend_thread sem :=
       wait_place (prio_of s) (obj_flag (objs s sem)) (current_thread s)
         (tlists s (Suspend_thread sem)))) h'"
    using block_current [OF k r wait_head_simps(3) ipc_okD(3) [OF ok] time(2), of sem]
    unfolding pr by auto
  have "th_error (threads s' (current_thread s)) = RT_EOK"
    "\<forall>u. u \<noteq> current_thread s \<longrightarrow> th_error (threads s' u) = th_error (threads s u)"
    using kernel_frame_fields(14) [OF s'(4)] by simp_all
  moreover have "ipc_ok ?e sem RT_Object_Class_Semaphore" using ok by (simp add: ipc_ok_def has_type_def)
  then have "(\<forall>t. sem \<noteq> Thread_timer t) \<longrightarrow> ipc_ok s' sem RT_Object_Class_Semaphore"
    using ipc_ok_frame [OF _ s'(4,3)] by blast
  ultimately show ?thesis
    using s' ipc_okD [OF ok] ctx v time kernel_ok_current [OF ipc_okD(1) [OF ok]]
      kernel_frame_fields(1) [OF s'(4)]
    by (simp add: rt_sem_take_def rt_thread_self_def thread_context_def rt_sem_take_wakeup_def)
qed

lemma sem_release_free:
  assumes "ipc_ok s sem RT_Object_Class_Semaphore" "tlists s (Suspend_thread sem) = []"
  shows "rt_sem_release sem s = Some (RT_EOK, s\<lparr>sems := (sems s)(sem := sems s sem + 1)\<rparr>)"
  using ipc_okD [OF assms(1)] assms(2) by (simp add: rt_sem_release_def)

text \<open>With waiting threads a release hands over to the first; the value does not change.\<close>

lemma sem_release_handover:
  assumes ok: "ipc_ok s sem RT_Object_Class_Semaphore"
    and w: "tlists s (Suspend_thread sem) = t # ts"
  shows "\<exists>s'. rt_sem_release sem s = Some (RT_EOK, s') \<and> kernel_ok s' \<and> kernel_frame s s' \<and>
    tlists s' (Suspend_thread sem) = ts \<and> \<not> (\<exists>h. wait_head h \<and> t \<in> set (tlists s' h))"
proof -
  note k = ipc_okD(1) [OF ok]
  obtain s1 where s1: "rt_ipc_list_resume (Suspend_thread sem) s = Some s1" "kernel_ok s1"
    "kernel_frame s s1" "tlists s1 = ready_lists t s" "tlists s1 (Suspend_thread sem) = ts"
    using list_resume_first [OF k w] by auto
  obtain s' where s': "rt_schedule s1 = Some s'" "kernel_ok s'" "kernel_frame s1 s'"
    "\<forall>h. wait_head h \<longrightarrow> tlists s' h = tlists s1 h"
    using schedule_kernel_ok [OF s1(2)] by blast
  then show ?thesis
    using s1 ipc_okD [OF ok] w kernel_frame_trans [OF s1(3) s'(3)]
    by (auto simp: rt_sem_release_def wait_lists_ready_lists)
qed

lemma sem_control_reset:
  assumes ok: "ipc_ok s sem RT_Object_Class_Semaphore"
  shows "\<exists>s'. rt_sem_control sem (Reset v) s = Some (RT_EOK, s') \<and> kernel_ok s' \<and>
    sems s' sem = ucast v \<and> tlists s' (Suspend_thread sem) = [] \<and>
    (\<forall>t \<in> set (tlists s (Suspend_thread sem)). th_error (threads s' t) = - RT_ERROR)"
proof -
  obtain s1 where s1: "rt_ipc_list_resume_all (Suspend_thread sem) s = Some s1" "kernel_ok s1"
    "same_objects s s1" "tlists s1 (Suspend_thread sem) = []"
    "errors_set (set (tlists s (Suspend_thread sem))) s s1"
    using list_resume_all [OF ipc_okD(1) [OF ok] wait_head_simps(3)] by blast
  let ?s = "s1\<lparr>sems := (sems s1)(sem := ucast v)\<rparr>"
  have "kernel_ok ?s" using s1(2) kernel_ok_object_upd(1) [of "\<lambda>_. (sems s1)(sem := ucast v)" s1] by simp
  then obtain s' where s': "rt_schedule ?s = Some s'" "kernel_ok s'" "kernel_frame ?s s'"
    "\<forall>h. wait_head h \<longrightarrow> tlists s' h = tlists ?s h"
    using schedule_kernel_ok by blast
  have "th_error (threads s' t) = th_error (threads s1 t)" for t
    using kernel_frame_fields(14) [OF s'(3), of t] by simp
  then show ?thesis
    using s' s1 ipc_okD [OF ok] kernel_frame_fields(1) [OF s'(3)]
    by (simp add: rt_sem_control_def errors_set_def)
qed

subsection \<open>Conservation\<close>

text \<open>
  Runs of one semaphore under any interleaving.  \<open>w\<close> are the threads whose take has not come back
  yet: a take that waits puts its thread there, and \<open>rt_sem_take_wakeup\<close> takes it away, when the
  thread runs again.  \<open>g\<close> counts the takes that came back with \<open>RT_EOK\<close>, and \<open>r\<close> the releases.  The
  last rule is a step of other code, which touches neither the value nor the waiting list nor the
  error codes of these threads.
\<close>

inductive sem_run :: "ptr \<Rightarrow> kstate \<Rightarrow> ptr set \<Rightarrow> kstate \<Rightarrow> nat \<Rightarrow> nat \<Rightarrow> bool" for sem s0 where
  sem_start: "sem_run sem s0 {} s0 0 0"
| sem_taking: "sem_run sem s0 w s g r \<Longrightarrow> ipc_ok s sem RT_Object_Class_Semaphore \<Longrightarrow> thread_context s \<Longrightarrow>
    current_thread s \<notin> w \<Longrightarrow> timeout_ok time \<Longrightarrow> rt_sem_take sem time s = Some (res, s') \<Longrightarrow>
    sem_run sem s0 (if res = Wait then insert (current_thread s) w else w) s'
      (if res = Ret RT_EOK then Suc g else g) r"
| sem_returning: "sem_run sem s0 w s g r \<Longrightarrow> kernel_ok s \<Longrightarrow> thread_context s \<Longrightarrow> t = current_thread s \<Longrightarrow>
    t \<in> w \<Longrightarrow> sem_run sem s0 (w - {t}) s (if rt_sem_take_wakeup t s = RT_EOK then Suc g else g) r"
| sem_releasing: "sem_run sem s0 w s g r \<Longrightarrow> ipc_ok s sem RT_Object_Class_Semaphore \<Longrightarrow>
    rt_sem_release sem s = Some (e, s') \<Longrightarrow> sem_run sem s0 w s' g (Suc r)"
| sem_timing_out: "sem_run sem s0 w s g r \<Longrightarrow> kernel_ok s \<Longrightarrow> t \<in> set (tlists s (Suspend_thread sem)) \<Longrightarrow>
    rt_thread_timeout t s = Some s' \<Longrightarrow> sem_run sem s0 w s' g r"
| sem_elsewhere: "sem_run sem s0 w s g r \<Longrightarrow> sems s' sem = sems s sem \<Longrightarrow>
    tlists s' (Suspend_thread sem) = tlists s (Suspend_thread sem) \<Longrightarrow>
    (\<forall>t \<in> w. th_error (threads s' t) = th_error (threads s t)) \<Longrightarrow> sem_run sem s0 w s' g r"

lemma err_distinct [simp]: "- RT_ETIMEOUT \<noteq> RT_EOK" "RT_EOK \<noteq> - RT_ETIMEOUT"
  by (simp_all add: rt_err_defs)

text \<open>The threads a release has woken and whose take has not come back yet.\<close>

definition sem_granted :: "ptr \<Rightarrow> ptr set \<Rightarrow> kstate \<Rightarrow> ptr set" where
  "sem_granted sem w s =
     {t \<in> w. t \<notin> set (tlists s (Suspend_thread sem)) \<and> th_error (threads s t) = RT_EOK}"

text \<open>What holds all along: the threads on the waiting list are in a take, and without error.\<close>

definition sem_waiters_ok :: "ptr \<Rightarrow> ptr set \<Rightarrow> kstate \<Rightarrow> bool" where
  "sem_waiters_ok sem w s \<longleftrightarrow> finite w \<and> set (tlists s (Suspend_thread sem)) \<subseteq> w \<and>
     (\<forall>t \<in> set (tlists s (Suspend_thread sem)). th_error (threads s t) = RT_EOK)"

lemma sem_granted_cong:
  assumes "tlists s' (Suspend_thread sem) = tlists s (Suspend_thread sem)"
    "\<And>t. t \<in> w \<Longrightarrow> th_error (threads s' t) = th_error (threads s t)"
  shows "sem_granted sem w s' = sem_granted sem w s"
  using assms by (auto simp: sem_granted_def)

lemma sem_waiters_cong:
  assumes "tlists s' (Suspend_thread sem) = tlists s (Suspend_thread sem)"
    "\<And>t. t \<in> w \<Longrightarrow> th_error (threads s' t) = th_error (threads s t)"
  shows "sem_waiters_ok sem w s' = sem_waiters_ok sem w s"
proof -
  have "(\<forall>t \<in> L. th_error (threads s' t) = RT_EOK) = (\<forall>t \<in> L. th_error (threads s t) = RT_EOK)"
    if "L \<subseteq> w" for L
    using assms(2) that by (metis subsetD)
  then show ?thesis using assms(1) by (auto simp: sem_waiters_ok_def)
qed

lemma sem_waiting_account:
  assumes l: "set (tlists s' (Suspend_thread sem)) = insert c (set (tlists s (Suspend_thread sem)))"
    and er: "\<And>t. t \<noteq> c \<Longrightarrow> th_error (threads s' t) = th_error (threads s t)"
    and c: "th_error (threads s' c) = RT_EOK" "c \<notin> w" and ok: "sem_waiters_ok sem w s"
  shows "sem_granted sem (insert c w) s' = sem_granted sem w s" "sem_waiters_ok sem (insert c w) s'"
proof -
  have "th_error (threads s' t) = th_error (threads s t)" if "t \<in> w" for t
    using er c(2) that by metis
  then show "sem_granted sem (insert c w) s' = sem_granted sem w s"
    using l c(2) by (auto simp: sem_granted_def)
  show "sem_waiters_ok sem (insert c w) s'"
    using l er c(1) ok unfolding sem_waiters_ok_def by (metis finite_insert insert_iff insert_mono)
qed

lemma sem_waking_account:
  assumes l: "tlists s (Suspend_thread sem) = t # ts" "tlists s' (Suspend_thread sem) = ts" "t \<notin> set ts"
    and er: "\<And>t. th_error (threads s' t) = th_error (threads s t)" and ok: "sem_waiters_ok sem w s"
  shows "card (sem_granted sem w s') = Suc (card (sem_granted sem w s))" "sem_waiters_ok sem w s'"
proof -
  have "sem_granted sem w s' = insert t (sem_granted sem w s)" "t \<notin> sem_granted sem w s"
    using l er ok by (auto simp: sem_granted_def sem_waiters_ok_def)
  moreover have "finite (sem_granted sem w s)" using ok by (simp add: sem_granted_def sem_waiters_ok_def)
  ultimately show "card (sem_granted sem w s') = Suc (card (sem_granted sem w s))" by simp
  show "sem_waiters_ok sem w s'" using l er ok by (auto simp: sem_waiters_ok_def)
qed

lemma sem_timeout_account:
  assumes l: "set (tlists s' (Suspend_thread sem)) = set (tlists s (Suspend_thread sem)) - {t}"
    and er: "\<And>u. u \<noteq> t \<Longrightarrow> th_error (threads s' u) = th_error (threads s u)"
    and t: "th_error (threads s' t) \<noteq> RT_EOK" "t \<in> set (tlists s (Suspend_thread sem))"
    and ok: "sem_waiters_ok sem w s"
  shows "sem_granted sem w s' = sem_granted sem w s" "sem_waiters_ok sem w s'"
proof -
  have "u \<in> sem_granted sem w s' \<longleftrightarrow> u \<in> sem_granted sem w s" for u
    using l er t by (cases "u = t") (auto simp: sem_granted_def)
  then show "sem_granted sem w s' = sem_granted sem w s" by blast
  show "sem_waiters_ok sem w s'" using l er ok by (auto simp: sem_waiters_ok_def)
qed

lemma sem_return_account:
  assumes t: "t \<in> w" "t \<notin> set (tlists s (Suspend_thread sem))" and ok: "sem_waiters_ok sem w s"
  shows "(if rt_sem_take_wakeup t s = RT_EOK then 1 else 0) + card (sem_granted sem (w - {t}) s) =
      card (sem_granted sem w s)" "sem_waiters_ok sem (w - {t}) s"
proof -
  have fin: "finite (sem_granted sem w s)" using ok by (simp add: sem_granted_def sem_waiters_ok_def)
  have m: "sem_granted sem (w - {t}) s = sem_granted sem w s - {t}" by (auto simp: sem_granted_def)
  show "(if rt_sem_take_wakeup t s = RT_EOK then 1 else 0) + card (sem_granted sem (w - {t}) s) =
      card (sem_granted sem w s)"
  proof (cases "th_error (threads s t) = RT_EOK")
    case True
    then have "t \<in> sem_granted sem w s" using t by (simp add: sem_granted_def)
    then show ?thesis using True card.remove [OF fin] m by (simp add: rt_sem_take_wakeup_def)
  next
    case False
    then have "t \<notin> sem_granted sem w s" by (simp add: sem_granted_def)
    then show ?thesis using False m by (simp add: rt_sem_take_wakeup_def)
  qed
  show "sem_waiters_ok sem (w - {t}) s" using t ok by (auto simp: sem_waiters_ok_def)
qed

lemma sem_run_account:
  assumes "sem_run sem s0 w s g r" "tlists s0 (Suspend_thread sem) = []" "unat (sems s0 sem) + r < 2 ^ 16"
  shows "unat (sems s sem) + g + card (sem_granted sem w s) = unat (sems s0 sem) + r \<and>
    sem_inv s sem \<and> sem_waiters_ok sem w s"
  using assms
proof induction
  case sem_start
  then show ?case by (simp add: sem_inv_def sem_waiters_ok_def sem_granted_def)
next
  case (sem_taking w s g r time res s')
  note ok = sem_taking.hyps(2)
  have ih: "unat (sems s sem) + g + card (sem_granted sem w s) = unat (sems s0 sem) + r" "sem_inv s sem"
    "sem_waiters_ok sem w s"
    using sem_taking by auto
  consider "sems s sem > 0" | "sems s sem = 0" "time = 0" | "sems s sem = 0" "time \<noteq> 0"
    by (metis word_gt_0)
  then show ?case
  proof cases
    case 1
    then have u: "unat (sems s sem - 1) = unat (sems s sem) - 1" "0 < unat (sems s sem)"
      by (simp_all add: unat_sub word_le_nat_alt word_less_nat_alt Suc_leI)
    have r: "res = Ret RT_EOK" "s' = s\<lparr>sems := (sems s)(sem := sems s sem - 1)\<rparr>"
      using sem_take_value [OF ok 1, of time] sem_taking.hyps(6) by simp_all
    have "sem_granted sem w s' = sem_granted sem w s" "sem_waiters_ok sem w s' = sem_waiters_ok sem w s"
      by (rule sem_granted_cong sem_waiters_cong; simp add: r)+
    then show ?thesis using r u ih 1 by (auto simp: sem_inv_def)
  next
    case 2
    then show ?thesis using sem_take_poll [OF ok] sem_taking.hyps(6) ih by auto
  next
    case 3
    have t: "res = Wait" "sems s' = sems s" "sem_inv s' sem"
      "sem_granted sem (insert (current_thread s) w) s' = sem_granted sem w s"
      "sem_waiters_ok sem (insert (current_thread s) w) s'"
      using sem_take_wait [OF ok sem_taking.hyps(3) 3(1) 3(2) sem_taking.hyps(5)] sem_taking.hyps(6)
        sem_waiting_account [OF _ _ _ sem_taking.hyps(4) ih(3), of s'] 3(1)
      by (auto simp: sem_inv_def set_wait_place rt_sem_take_wakeup_def split: if_splits)
    then show ?thesis using ih by simp
  qed
next
  case (sem_returning w s g r t)
  have "t \<notin> set (tlists s (Suspend_thread sem))"
    using kernel_okD(6) [OF sem_returning.hyps(2)] sem_returning.hyps(3,4)
    by (auto simp: thread_context_def linked_def)
  then show ?case
    using sem_returning sem_return_account [OF sem_returning.hyps(5), of s sem] by (auto split: if_splits)
next
  case (sem_releasing w s g r e s')
  note ok = sem_releasing.hyps(2)
  have ih: "unat (sems s sem) + g + card (sem_granted sem w s) = unat (sems s0 sem) + r" "sem_inv s sem"
    "sem_waiters_ok sem w s"
    using sem_releasing by auto
  show ?case
  proof (cases "tlists s (Suspend_thread sem)")
    case Nil
    have "Suc (unat (sems s sem)) < 2 ^ 16" using ih sem_releasing.prems by simp
    then have u: "unat (sems s sem + 1) = Suc (unat (sems s sem))" by (simp add: unat_word_ariths)
    have r: "s' = s\<lparr>sems := (sems s)(sem := sems s sem + 1)\<rparr>"
      using sem_release_free [OF ok Nil] sem_releasing.hyps(3) by simp
    have "sem_granted sem w s' = sem_granted sem w s" "sem_waiters_ok sem w s' = sem_waiters_ok sem w s"
      by (rule sem_granted_cong sem_waiters_cong; simp add: r)+
    then show ?thesis using r u ih Nil by (auto simp: sem_inv_def)
  next
    case (Cons t ts)
    obtain s1 where s1: "rt_sem_release sem s = Some (RT_EOK, s1)" "kernel_frame s s1"
      "tlists s1 (Suspend_thread sem) = ts"
      using sem_release_handover [OF ok Cons] by blast
    have s': "s' = s1" using s1(1) sem_releasing.hyps(3) by simp
    have "t \<notin> set ts" using tlists_okD(1) [OF kernel_okD(8) [OF ipc_okD(1) [OF ok]], of "Suspend_thread sem"] Cons by simp
    note a = sem_waking_account [OF Cons s1(3) this kernel_frame_fields(14) [OF s1(2)] ih(3)]
    have "sems s sem = 0" using ih(2) Cons by (auto simp: sem_inv_def word_gt_0)
    then show ?thesis
      using a ih(1) kernel_frame_fields(1) [OF s1(2)] by (simp add: sem_inv_def s')
  qed
next
  case (sem_timing_out w s g r t s')
  have t: "thread_ok s t" "stat_of s t = RT_THREAD_SUSPEND"
    using kernel_okD(4,5) [OF sem_timing_out.hyps(2,3)] by auto
  obtain s1 where s1: "rt_thread_timeout t s = Some s1" "kernel_frame (set_error t (- RT_ETIMEOUT) s) s1"
    "\<forall>h. wait_head h \<longrightarrow> tlists s1 h = removeAll t (tlists s h)"
    using timeout_waiting [OF sem_timing_out.hyps(2) t] by blast
  have s': "s' = s1" using s1(1) sem_timing_out.hyps(4) by simp
  have l: "tlists s' (Suspend_thread sem) = removeAll t (tlists s (Suspend_thread sem))" using s1(3) s' by simp
  have er: "th_error (threads s' u) = (if u = t then - RT_ETIMEOUT else th_error (threads s u))" for u
    using kernel_frame_fields(14) [OF s1(2), of u] s' by simp
  have "sem_granted sem w s' = sem_granted sem w s" "sem_waiters_ok sem w s'"
    using sem_timeout_account [OF _ _ _ sem_timing_out.hyps(3), of s' w] l er sem_timing_out by auto
  then show ?case
    using sem_timing_out l kernel_frame_fields(1) [OF s1(2)] by (auto simp: sem_inv_def s')
next
  case (sem_elsewhere w s g r s')
  have "sem_granted sem w s' = sem_granted sem w s" "sem_waiters_ok sem w s' = sem_waiters_ok sem w s"
    by (rule sem_granted_cong sem_waiters_cong; use sem_elsewhere.hyps in simp)+
  then show ?case using sem_elsewhere by (simp add: sem_inv_def)
qed

text \<open>C3. In every run of takes, releases, timeouts and other code on a semaphore that starts with
  nobody waiting, its value, plus the takes that came back with RT_EOK, plus the threads that
  are off the waiting list without an error but have not come back yet, is the initial value
  plus the releases, as long as that fits 16 bits; a positive value never coexists with a
  waiting thread, and only threads inside of a take wait. A release that loses a wake-up or
  grants twice would break it.\<close>

lemma sem_conservation:
  assumes "sem_run sem s0 w s g r" "tlists s0 (Suspend_thread sem) = []" "unat (sems s0 sem) + r < 2 ^ 16"
  shows "unat (sems s sem) + g +
      card {t \<in> w. t \<notin> set (tlists s (Suspend_thread sem)) \<and> th_error (threads s t) = RT_EOK} =
    unat (sems s0 sem) + r \<and> sem_inv s sem \<and> set (tlists s (Suspend_thread sem)) \<subseteq> w"
  using sem_run_account [OF assms] by (simp add: sem_granted_def sem_waiters_ok_def)

text \<open>Past the range the value wraps round: the count of a full semaphore is lost.\<close>

lemma sem_release_wraps:
  assumes "ipc_ok s sem RT_Object_Class_Semaphore" "tlists s (Suspend_thread sem) = []"
    "sems s sem = 0xffff"
  shows "\<exists>s'. rt_sem_release sem s = Some (RT_EOK, s') \<and> sems s' sem = 0"
  using sem_release_free [OF assms(1,2)] assms(3) by simp

text \<open>
  A semaphore with priority order: the waiting threads stay sorted by priority, and threads of one
  priority stay in their order of arrival.  A release therefore wakes the most urgent thread, and
  among equals the one that has waited longest.
\<close>

text \<open>C4. A take that waits on a priority-ordered semaphore keeps the waiting list sorted by priority
  and puts the thread behind those of its own priority.\<close>

lemma sem_take_order:
  assumes ok: "ipc_ok s sem RT_Object_Class_Semaphore" and ctx: "thread_context s"
    and v: "sems s sem = 0" and time: "time \<noteq> 0" "timeout_ok time"
    and flag: "obj_flag (objs s sem) = RT_IPC_FLAG_PRIO"
    and sorted: "prio_sorted (prio_of s) (tlists s (Suspend_thread sem))"
  shows "\<exists>s'. rt_sem_take sem time s = Some (Wait, s') \<and>
    prio_sorted (prio_of s) (tlists s' (Suspend_thread sem)) \<and>
    filter (\<lambda>u. prio_of s u = prio_of s (current_thread s)) (tlists s' (Suspend_thread sem)) =
    filter (\<lambda>u. prio_of s u = prio_of s (current_thread s)) (tlists s (Suspend_thread sem)) @
      [current_thread s]"
  using sem_take_wait [OF ok ctx v time] wait_place_sorted [OF sorted, of "current_thread s"]
    wait_place_same_prio [OF sorted, of "current_thread s"] flag by auto

end
