(* ===== verification/RT_Mutex.thy ===== *)
theory RT_Mutex
  imports RT_Ipc
begin

text \<open>
  The mutex, \<^verbatim>\<open>rt-thread/src/ipc.c\<close> lines 529 to 899: ownership, nesting, priority
  inheritance, and hand-over to the first waiting thread.
\<close>

definition mutex_init_fields :: "ptr \<Rightarrow> u8 \<Rightarrow> kstate \<Rightarrow> kstate" where
  "mutex_init_fields mutex flag s =
     upd_obj mutex (obj_flag_update (\<lambda>_. flag))
       (upd_mutex mutex (\<lambda>_. \<lparr>mx_value = 1, mx_original_priority = 0xff, mx_hold = 0,
         mx_owner = RT_NULL\<rparr>) (rt_ipc_object_init mutex s))"

definition rt_mutex_init :: "ptr \<Rightarrow> string \<Rightarrow> u8 \<Rightarrow> kstate \<Rightarrow> (rt_err_t \<times> kstate) option" where
  "rt_mutex_init mutex name flag s = do {
     RT_ASSERT (mutex \<noteq> RT_NULL);
     s1 \<leftarrow> rt_object_init mutex RT_Object_Class_Mutex name s;
     Some (RT_EOK, mutex_init_fields mutex flag s1)
   }"

definition rt_mutex_detach :: "ptr \<Rightarrow> kstate \<Rightarrow> (rt_err_t \<times> kstate) option" where
  "rt_mutex_detach mutex s = do {
     RT_ASSERT (mutex \<noteq> RT_NULL);
     assert_type mutex RT_Object_Class_Mutex s;
     assert_static mutex True s;
     s1 \<leftarrow> rt_ipc_list_resume_all (Suspend_thread mutex) s;
     s2 \<leftarrow> rt_object_detach mutex s1;
     Some (RT_EOK, s2)
   }"

definition rt_mutex_create :: "ptr \<Rightarrow> string \<Rightarrow> u8 \<Rightarrow> kstate \<Rightarrow> (ptr \<times> kstate) option" where
  "rt_mutex_create mem name flag s = do {
     not_in_interrupt s;
     (mutex, s1) \<leftarrow> rt_object_allocate mem RT_Object_Class_Mutex name s;
     if mutex = RT_NULL then Some (mutex, s1)
     else Some (mutex, mutex_init_fields mutex flag s1)
   }"

definition rt_mutex_delete :: "ptr \<Rightarrow> kstate \<Rightarrow> (rt_err_t \<times> kstate) option" where
  "rt_mutex_delete mutex s = do {
     not_in_interrupt s;
     RT_ASSERT (mutex \<noteq> RT_NULL);
     assert_type mutex RT_Object_Class_Mutex s;
     assert_static mutex False s;
     s1 \<leftarrow> rt_ipc_list_resume_all (Suspend_thread mutex) s;
     s2 \<leftarrow> rt_object_delete mutex s1;
     Some (RT_EOK, s2)
   }"

text \<open>Priority inheritance (lines 721 to 728), and its end on the last release (lines 833 to 838).\<close>

definition mutex_inherit :: "ptr \<Rightarrow> ptr \<Rightarrow> kstate \<Rightarrow> kstate option" where
  "mutex_inherit owner thread s =
     (if prio_of s thread < prio_of s owner
      then do {
        (r, s') \<leftarrow> rt_thread_control owner (Change_priority (th_current_priority (threads s thread))) s;
        Some s'
      }
      else Some s)"

definition mutex_restore :: "ptr \<Rightarrow> u8 \<Rightarrow> kstate \<Rightarrow> kstate option" where
  "mutex_restore owner original_priority s =
     (if original_priority \<noteq> th_current_priority (threads s owner)
      then do {
        (r, s') \<leftarrow> rt_thread_control owner (Change_priority original_priority) s;
        Some s'
      }
      else Some s)"

text \<open>
  \<open>rt_mutex_take\<close> from the label \<open>__again\<close> on.  The owner of a taken mutex is a thread; a null
  owner would be read through, so it counts as not coming back.
\<close>

definition mutex_again :: "ptr \<Rightarrow> ptr \<Rightarrow> u32 \<Rightarrow> kstate \<Rightarrow> (rt_err_t outcome \<times> kstate) option" where
  "mutex_again mutex thread time s = do {
     let m = mutexes s mutex;
     if mx_value m > 0
     then Some (Ret RT_EOK, upd_mutex mutex (\<lambda>m. m\<lparr>mx_value := mx_value m - 1, mx_owner := thread,
       mx_original_priority := th_current_priority (threads s thread), mx_hold := mx_hold m + 1\<rparr>) s)
     else if time = 0
     then Some (Ret (- RT_ETIMEOUT), set_error thread (- RT_ETIMEOUT) s)
     else do {
       RT_ASSERT (mx_owner m \<noteq> RT_NULL);
       s1 \<leftarrow> mutex_inherit (mx_owner m) thread s;
       s2 \<leftarrow> ipc_wait_on (Suspend_thread mutex) thread (obj_flag (objs s1 mutex)) time s1;
       s3 \<leftarrow> rt_schedule s2;
       Some (Wait, s3)
     }
   }"

definition rt_mutex_take :: "ptr \<Rightarrow> u32 \<Rightarrow> kstate \<Rightarrow> (rt_err_t outcome \<times> kstate) option" where
  "rt_mutex_take mutex time s = do {
     in_thread_context s;
     RT_ASSERT (mutex \<noteq> RT_NULL);
     assert_type mutex RT_Object_Class_Mutex s;
     let thread = rt_thread_self s;
     let s1 = set_error thread RT_EOK s;
     if mx_owner (mutexes s1 mutex) = thread
     then Some (Ret RT_EOK, upd_mutex mutex (mx_hold_update (\<lambda>h. h + 1)) s1)
     else mutex_again mutex thread time s1
   }"

definition rt_mutex_take_wakeup ::
  "ptr \<Rightarrow> ptr \<Rightarrow> u32 \<Rightarrow> kstate \<Rightarrow> (rt_err_t outcome \<times> kstate) option" where
  "rt_mutex_take_wakeup mutex thread time s =
     (let e = th_error (threads s thread)
      in if e \<noteq> RT_EOK
         then if e = - RT_EINTR then mutex_again mutex thread time s else Some (Ret e, s)
         else Some (Ret RT_EOK, s))"

definition rt_mutex_release :: "ptr \<Rightarrow> kstate \<Rightarrow> (rt_err_t \<times> kstate) option" where
  "rt_mutex_release mutex s = do {
     RT_ASSERT (mutex \<noteq> RT_NULL);
     assert_type mutex RT_Object_Class_Mutex s;
     in_thread_context s;
     let thread = rt_thread_self s;
     if thread \<noteq> mx_owner (mutexes s mutex)
     then Some (- RT_ERROR, set_error thread (- RT_ERROR) s)
     else do {
       let s1 = upd_mutex mutex (mx_hold_update (\<lambda>h. h - 1)) s;
       let m = mutexes s1 mutex;
       if mx_hold m = 0 then do {
         s2 \<leftarrow> mutex_restore (mx_owner m) (mx_original_priority m) s1;
         (case tlists s2 (Suspend_thread mutex) of
            thread # _ \<Rightarrow> do {
              let s3 = upd_mutex mutex (\<lambda>m. m\<lparr>mx_owner := thread,
                mx_original_priority := th_current_priority (threads s2 thread),
                mx_hold := mx_hold m + 1\<rparr>) s2;
              s4 \<leftarrow> rt_ipc_list_resume (Suspend_thread mutex) s3;
              s5 \<leftarrow> rt_schedule s4;
              Some (RT_EOK, s5)
            }
          | [] \<Rightarrow> Some (RT_EOK, upd_mutex mutex (\<lambda>m. m\<lparr>mx_value := mx_value m + 1,
              mx_owner := RT_NULL, mx_original_priority := 0xff\<rparr>) s2))
       }
       else Some (RT_EOK, s1)
     }
   }"

definition rt_mutex_control :: "ptr \<Rightarrow> ipc_cmd \<Rightarrow> kstate \<Rightarrow> (rt_err_t \<times> kstate) option" where
  "rt_mutex_control mutex cmd s = do {
     RT_ASSERT (mutex \<noteq> RT_NULL);
     assert_type mutex RT_Object_Class_Mutex s;
     Some (- RT_ERROR, s)
   }"

subsection \<open>Ownership\<close>

text \<open>
  A free mutex has no owner, no holds and no waiting threads; a taken one has a complete thread as
  owner, which does not wait for it, at least one hold, and the value 0.
\<close>

definition mutex_inv :: "kstate \<Rightarrow> ptr \<Rightarrow> bool" where
  "mutex_inv s m \<longleftrightarrow>
     (if mx_owner (mutexes s m) = RT_NULL
      then mx_value (mutexes s m) = 1 \<and> mx_hold (mutexes s m) = 0 \<and>
        tlists s (Suspend_thread m) = []
      else mx_value (mutexes s m) = 0 \<and> 0 < mx_hold (mutexes s m) \<and>
        thread_ok s (mx_owner (mutexes s m)) \<and>
        unat (mx_original_priority (mutexes s m)) < RT_THREAD_PRIORITY_MAX \<and>
        mx_owner (mutexes s m) \<notin> set (tlists s (Suspend_thread m)))"

definition mutex_ok :: "kstate \<Rightarrow> ptr \<Rightarrow> bool" where
  "mutex_ok s m \<longleftrightarrow> ipc_ok s m RT_Object_Class_Mutex \<and> thread_context s \<and> mutex_inv s m"

lemma mutex_okD:
  assumes "mutex_ok s m"
  shows "kernel_ok s" "has_type s m RT_Object_Class_Mutex" "thread_context s" "mutex_inv s m"
    "obj_flag (objs s m) = RT_IPC_FLAG_FIFO \<or> obj_flag (objs s m) = RT_IPC_FLAG_PRIO"
    "m \<noteq> RT_NULL" "current_thread s \<noteq> RT_NULL" "interrupt_nest s = 0"
    "stat_of s (current_thread s) = RT_THREAD_RUNNING"
    "current_thread s \<notin> set (tlists s h)" "thread_ok s (current_thread s)"
  using assms ipc_okD [of s m] kernel_ok_current [of s] kernel_okD(3,6) [of s]
  by (auto simp: mutex_ok_def thread_context_def linked_def)

lemma mutex_take_free:
  assumes ok: "mutex_ok s m" and free: "mx_owner (mutexes s m) = RT_NULL"
  shows "\<exists>s'. rt_mutex_take m time s = Some (Ret RT_EOK, s') \<and> kernel_ok s' \<and> mutex_inv s' m \<and>
    mx_owner (mutexes s' m) = current_thread s \<and> mx_hold (mutexes s' m) = 1 \<and>
    mx_original_priority (mutexes s' m) = th_current_priority (threads s (current_thread s))"
proof -
  let ?c = "current_thread s"
  note d = mutex_okD [OF ok]
  have m: "mx_value (mutexes s m) = 1" "mx_hold (mutexes s m) = 0" "tlists s (Suspend_thread m) = []"
    using d(4) free by (simp_all add: mutex_inv_def)
  define s' where "s' = upd_mutex m (\<lambda>m. m\<lparr>mx_value := mx_value m - 1, mx_owner := ?c,
      mx_original_priority := th_current_priority (threads s ?c), mx_hold := mx_hold m + 1\<rparr>)
      (set_error ?c RT_EOK s)"
  have e: "rt_mutex_take m time s = Some (Ret RT_EOK, s')"
    using d free m by (simp add: rt_mutex_take_def mutex_again_def rt_thread_self_def s'_def Let_def)
  have k: "kernel_ok s'" using d(1) by (simp add: s'_def)
  have "thread_ok s' ?c" using kernel_okD(3) [OF k] by (simp add: s'_def)
  then have "mutex_inv s' m"
    using d(7) m thread_okD(1) [OF d(11)] by (simp add: mutex_inv_def s'_def mask_ok_def)
  then show ?thesis using e k m by (auto simp: s'_def)
qed

lemma mutex_take_nested:
  assumes ok: "mutex_ok s m" and own: "mx_owner (mutexes s m) = current_thread s"
    and room: "mx_hold (mutexes s m) < 0xff"
  shows "\<exists>s'. rt_mutex_take m time s = Some (Ret RT_EOK, s') \<and> kernel_ok s' \<and> mutex_inv s' m \<and>
    mutexes s' m = (mutexes s m)\<lparr>mx_hold := mx_hold (mutexes s m) + 1\<rparr>"
proof -
  note d = mutex_okD [OF ok]
  let ?s = "upd_mutex m (mx_hold_update (\<lambda>h. h + 1)) (set_error (current_thread s) RT_EOK s)"
  have e: "rt_mutex_take m time s = Some (Ret RT_EOK, ?s)"
    using d own by (simp add: rt_mutex_take_def rt_thread_self_def Let_def)
  have k: "kernel_ok ?s" using d(1) by simp
  have "thread_ok ?s (current_thread s)" using kernel_okD(3) [OF k] by simp
  moreover have "0 < mx_hold (mutexes s m) + 1"
    using room by (simp add: word_less_nat_alt unat_word_ariths)
  ultimately have "mutex_inv ?s m" using d(4,7) own by (simp add: mutex_inv_def)
  then show ?thesis using e k by auto
qed

lemma mutex_take_poll:
  assumes ok: "mutex_ok s m" and own: "mx_owner (mutexes s m) \<noteq> current_thread s"
    "mx_owner (mutexes s m) \<noteq> RT_NULL"
  shows "rt_mutex_take m 0 s = Some (Ret (- RT_ETIMEOUT),
    set_error (current_thread s) (- RT_ETIMEOUT) (set_error (current_thread s) RT_EOK s))"
proof -
  note d = mutex_okD [OF ok]
  have "mx_value (mutexes s m) = 0" using d(4) own by (simp add: mutex_inv_def)
  then show ?thesis
    using d own by (simp add: rt_mutex_take_def mutex_again_def rt_thread_self_def Let_def)
qed

lemma wait_place_cong:
  assumes "\<And>u. u \<in> insert t (set ts) \<Longrightarrow> pr u = pr' u"
  shows "wait_place pr flag t ts = wait_place pr' flag t ts"
proof -
  have "takeWhile (\<lambda>u. pr u \<le> pr t) ts = takeWhile (\<lambda>u. pr' u \<le> pr' t) ts"
    "dropWhile (\<lambda>u. pr u \<le> pr t) ts = dropWhile (\<lambda>u. pr' u \<le> pr' t) ts"
    by (rule takeWhile_cong dropWhile_cong; simp add: assms)+
  then show ?thesis by (simp add: wait_place_def)
qed

text \<open>
  Waiting: the owner inherits the priority of a more urgent thread, and nobody else's changes; the
  thread is linked at its place.
\<close>

text \<open>C5. A take of a mutex owned by another thread blocks the caller, raises the owner to the
  caller's priority if that is more urgent and changes nobody else's priority, links the caller
  at its place, and keeps the ownership invariant.\<close>

lemma mutex_take_wait:
  assumes ok: "mutex_ok s m" and own: "mx_owner (mutexes s m) \<noteq> current_thread s"
    "mx_owner (mutexes s m) \<noteq> RT_NULL"
    and time: "time \<noteq> 0" "timeout_ok time"
  shows "\<exists>s'. rt_mutex_take m time s = Some (Wait, s') \<and> kernel_ok s' \<and> mutex_inv s' m \<and>
    mutexes s' = mutexes s \<and> th_error (threads s' (current_thread s)) = RT_EOK \<and>
    prio_of s' (mx_owner (mutexes s m)) =
      min (prio_of s (mx_owner (mutexes s m))) (prio_of s (current_thread s)) \<and>
    (\<forall>u. u \<noteq> mx_owner (mutexes s m) \<longrightarrow> prio_of s' u = prio_of s u) \<and>
    tlists s' (Suspend_thread m) = wait_place (prio_of s) (obj_flag (objs s m)) (current_thread s)
      (tlists s (Suspend_thread m))"
proof -
  let ?c = "current_thread s" and ?o = "mx_owner (mutexes s m)"
  let ?e = "set_error ?c RT_EOK s" and ?p = "th_current_priority (threads s (current_thread s))"
  note d = mutex_okD [OF ok]
  have m: "mx_value (mutexes s m) = 0" "0 < mx_hold (mutexes s m)" "thread_ok s ?o"
    "unat (mx_original_priority (mutexes s m)) < RT_THREAD_PRIORITY_MAX"
    "?o \<notin> set (tlists s (Suspend_thread m))"
    using d(4) own(2) by (simp_all add: mutex_inv_def)
  have te: "thread_ok ?e u = thread_ok s u" for u
    by (auto simp: thread_ok_def mask_ok_def stack_ok_def has_type_def)
  have ke: "kernel_ok ?e" using d(1) by simp
  have pc: "unat ?p < RT_THREAD_PRIORITY_MAX" using thread_okD(1) [OF d(11)] by (simp add: mask_ok_def)
  define up where "up \<longleftrightarrow> prio_of s ?c < prio_of s ?o"
  obtain s1 where s1: "mutex_inherit ?o ?c ?e = Some s1" "kernel_ok s1" "up \<Longrightarrow> prio_only ?o ?p ?e s1"
    "\<not> up \<Longrightarrow> s1 = ?e" "thread_ok s1 ?o"
  proof (cases up)
    case True
    obtain s1 where s1: "rt_thread_control ?o (Change_priority ?p) ?e = Some (RT_EOK, s1)"
      "kernel_ok s1" "prio_only ?o ?p ?e s1"
      using control_priority [OF ke _ pc, of ?o] te m(3) own(1) by auto
    then have "thread_ok s1 ?o" using control_thread_ok [OF _ pc s1(1)] te m(3) by simp
    then show thesis using True s1 by (intro that [of s1]) (auto simp: mutex_inherit_def up_def)
  next
    case False
    then show thesis using ke te m(3) by (intro that [of ?e]) (auto simp: mutex_inherit_def up_def)
  qed
  have st1: "objs s1 = objs s" "mutexes s1 = mutexes s" "current_thread s1 = ?c"
    "interrupt_nest s1 = 0" "stat_of s1 ?c = RT_THREAD_RUNNING" "th_error (threads s1 ?c) = RT_EOK"
    "tlists s1 (Suspend_thread m) = tlists s (Suspend_thread m)"
    using s1(3,4) d(8,9) by (cases up; simp add: prio_only_def)+
  have pr1: "prio_of s1 u = (if u = ?o then min (prio_of s ?o) (prio_of s ?c) else prio_of s u)" for u
    using s1(3,4) by (cases up) (auto simp: prio_only_def up_def)
  have place: "wait_place (prio_of s1) f ?c (tlists s (Suspend_thread m)) =
      wait_place (prio_of s) f ?c (tlists s (Suspend_thread m))" for f
    using own(1) m(5) by (intro wait_place_cong) (auto simp: pr1)
  have run1: "stat_of s1 (current_thread s1) = RT_THREAD_RUNNING" using st1 by simp
  obtain s2 s' where s': "ipc_wait_on (Suspend_thread m) ?c (obj_flag (objs s m)) time s1 = Some s2"
    "rt_schedule s2 = Some s'" "kernel_ok s'" "kernel_frame s1 s'"
    "\<forall>h'. wait_head h' \<longrightarrow> tlists s' h' = ((tlists s1)(Suspend_thread m :=
       wait_place (prio_of s1) (obj_flag (objs s m)) ?c (tlists s1 (Suspend_thread m)))) h'"
    using block_current [OF s1(2) run1 wait_head_simps(3) d(5) time(2), of m] st1(3) by auto
  note f = kernel_frame_fields [OF s'(4)]
  have pr: "prio_of s' u = prio_of s1 u" for u using f(15) [of u] by simp
  have l: "tlists s' (Suspend_thread m) = wait_place (prio_of s) (obj_flag (objs s m)) ?c
      (tlists s (Suspend_thread m))"
    using s'(5) st1(7) place by simp
  have to: "thread_ok s' ?o" using thread_ok_frame(1) [OF s'(4)] s1(5) by simp
  have "mutex_inv s' m"
    using m to own l f(2) st1(2) by (simp add: mutex_inv_def set_wait_place)
  moreover have "rt_mutex_take m time s = Some (Wait, s')"
    using d own m(1) time s1(1) s'(1,2) st1(1)
    by (simp add: rt_mutex_take_def mutex_again_def rt_thread_self_def Let_def)
  ultimately show ?thesis
    using s'(3) f(2,14) st1 l pr pr1 own by simp
qed

subsection \<open>Release\<close>

lemma mutex_release_foreign:
  assumes ok: "mutex_ok s m" and own: "mx_owner (mutexes s m) \<noteq> current_thread s"
  shows "rt_mutex_release m s = Some (- RT_ERROR, set_error (current_thread s) (- RT_ERROR) s)"
  using mutex_okD [OF ok] own by (simp add: rt_mutex_release_def rt_thread_self_def Let_def)

lemma mutex_release_nested:
  assumes ok: "mutex_ok s m" and own: "mx_owner (mutexes s m) = current_thread s"
    and nested: "1 < mx_hold (mutexes s m)"
  shows "\<exists>s'. rt_mutex_release m s = Some (RT_EOK, s') \<and> kernel_ok s' \<and> mutex_inv s' m \<and>
    mutexes s' m = (mutexes s m)\<lparr>mx_hold := mx_hold (mutexes s m) - 1\<rparr>"
proof -
  note d = mutex_okD [OF ok]
  let ?s = "upd_mutex m (mx_hold_update (\<lambda>h. h - 1)) s"
  have k: "kernel_ok ?s" using d(1) by simp
  have t: "thread_ok ?s (current_thread s)" using kernel_okD(3) [OF k] by simp
  have h: "0 < mx_hold (mutexes s m) - 1"
    using nested by (metis less_irrefl right_minus_eq word_gt_0)
  then have h1: "mx_hold (mutexes s m) \<noteq> 1" by auto
  have "mutex_inv ?s m" using d(4,7) own t h by (simp add: mutex_inv_def)
  moreover have "rt_mutex_release m s = Some (RT_EOK, ?s)"
    using d own h1 by (simp add: rt_mutex_release_def rt_thread_self_def Let_def)
  ultimately show ?thesis using k by auto
qed

text \<open>The last release first gives the owner its own priority back.\<close>

lemma mutex_restored:
  assumes ok: "mutex_ok s m" and own: "mx_owner (mutexes s m) = current_thread s"
    and s1: "s1 = upd_mutex m (mx_hold_update (\<lambda>_. h)) s"
  obtains s2 where
    "mutex_restore (current_thread s) (mx_original_priority (mutexes s m)) s1 = Some s2" "kernel_ok s2"
    "prio_only (current_thread s) (mx_original_priority (mutexes s m)) s1 s2"
proof -
  note d = mutex_okD [OF ok]
  let ?p = "mx_original_priority (mutexes s m)"
  have k: "kernel_ok s1" using d(1) s1 by simp
  have t: "thread_ok s1 (current_thread s)" using kernel_okD(3) [OF k] s1 by simp
  have p: "unat ?p < RT_THREAD_PRIORITY_MAX" using d(4,7) own by (simp add: mutex_inv_def)
  have c: "stat_of s1 (current_thread s) \<noteq> RT_THREAD_READY" using d(9) s1 by simp
  show thesis
  proof (cases "?p = th_current_priority (threads s1 (current_thread s))")
    case True
    then show thesis using k by (intro that [of s1]) (simp_all add: prio_only_def mutex_restore_def)
  next
    case False
    from control_priority [OF k t p c] obtain s2 where
      "rt_thread_control (current_thread s) (Change_priority ?p) s1 = Some (RT_EOK, s2)"
      "kernel_ok s2" "prio_only (current_thread s) ?p s1 s2" by blast
    then show thesis using False by (intro that [of s2]) (simp_all add: mutex_restore_def)
  qed
qed

lemma mutex_release_free:
  assumes ok: "mutex_ok s m" and own: "mx_owner (mutexes s m) = current_thread s"
    and last: "mx_hold (mutexes s m) = 1" and none: "tlists s (Suspend_thread m) = []"
  shows "\<exists>s'. rt_mutex_release m s = Some (RT_EOK, s') \<and> kernel_ok s' \<and> mutex_inv s' m \<and>
    mx_owner (mutexes s' m) = RT_NULL \<and>
    th_current_priority (threads s' (current_thread s)) = mx_original_priority (mutexes s m)"
proof -
  note d = mutex_okD [OF ok]
  let ?s1 = "upd_mutex m (mx_hold_update (\<lambda>_. 0)) s"
  have v: "mx_value (mutexes s m) = 0" using d(4,7) own by (simp add: mutex_inv_def)
  have s1: "upd_mutex m (mx_hold_update (\<lambda>h. h - 1)) s = ?s1"
    using last by (intro kstate.fold_congs) auto
  obtain s2 where s2:
      "mutex_restore (current_thread s) (mx_original_priority (mutexes s m)) ?s1 = Some s2" "kernel_ok s2"
      "prio_only (current_thread s) (mx_original_priority (mutexes s m)) ?s1 s2"
    by (rule mutex_restored [OF ok own refl])
  define s' where "s' = upd_mutex m (\<lambda>m. m\<lparr>mx_value := mx_value m + 1, mx_owner := RT_NULL,
    mx_original_priority := 0xff\<rparr>) s2"
  have "mutexes s2 m = (mutexes s m)\<lparr>mx_hold := 0\<rparr>" and l: "tlists s2 (Suspend_thread m) = []"
    and pr: "th_current_priority (threads s2 (current_thread s)) = mx_original_priority (mutexes s m)"
    using s2(3) none by (simp_all add: prio_only_def)
  then have "mutex_inv s' m" "mx_owner (mutexes s' m) = RT_NULL" using v by (simp_all add: mutex_inv_def s'_def)
  moreover have "rt_mutex_release m s = Some (RT_EOK, s')"
    using d own s2(1) l unfolding rt_mutex_release_def s1
    by (simp add: rt_thread_self_def s'_def Let_def)
  ultimately show ?thesis using s2(2) pr by (auto simp: s'_def)
qed

text \<open>C6. The last release with waiting threads gives the mutex to the first one, with its priority
  recorded and one hold, and gives the former owner its original priority back.\<close>

lemma mutex_release_handover:
  assumes ok: "mutex_ok s m" and own: "mx_owner (mutexes s m) = current_thread s"
    and last: "mx_hold (mutexes s m) = 1" and w: "tlists s (Suspend_thread m) = t # ts"
  shows "\<exists>s'. rt_mutex_release m s = Some (RT_EOK, s') \<and> kernel_ok s' \<and> mutex_inv s' m \<and>
    mx_owner (mutexes s' m) = t \<and> mx_hold (mutexes s' m) = 1 \<and>
    mx_original_priority (mutexes s' m) = th_current_priority (threads s t) \<and>
    tlists s' (Suspend_thread m) = ts \<and>
    th_current_priority (threads s' (current_thread s)) = mx_original_priority (mutexes s m)"
proof -
  note d = mutex_okD [OF ok]
  let ?s1 = "upd_mutex m (mx_hold_update (\<lambda>_. 0)) s" and ?c = "current_thread s"
  have v: "mx_value (mutexes s m) = 0" using d(4,7) own by (simp add: mutex_inv_def)
  have s1: "upd_mutex m (mx_hold_update (\<lambda>h. h - 1)) s = ?s1"
    using last by (intro kstate.fold_congs) auto
  obtain s2 where s2:
      "mutex_restore (current_thread s) (mx_original_priority (mutexes s m)) ?s1 = Some s2" "kernel_ok s2"
      "prio_only (current_thread s) (mx_original_priority (mutexes s m)) ?s1 s2"
    by (rule mutex_restored [OF ok own refl])
  have m2: "mutexes s2 m = (mutexes s m)\<lparr>mx_hold := 0\<rparr>" and l: "tlists s2 (Suspend_thread m) = t # ts"
    and pr2: "th_current_priority (threads s2 ?c) = mx_original_priority (mutexes s m)"
    and prt: "u \<noteq> ?c \<Longrightarrow> th_current_priority (threads s2 u) = th_current_priority (threads s u)" for u
    using s2(3) w by (simp_all add: prio_only_def)
  have tin: "t \<in> set (tlists s2 (Suspend_thread m))" using l by simp
  have t2: "thread_ok s2 t" by (rule kernel_okD(4) [OF s2(2) tin]) simp
  have tc: "t \<noteq> ?c" using d(10) [of "Suspend_thread m"] w by auto
  define s3 where "s3 = upd_mutex m (\<lambda>m. m\<lparr>mx_owner := t,
    mx_original_priority := th_current_priority (threads s2 t), mx_hold := mx_hold m + 1\<rparr>) s2"
  have k3: "kernel_ok s3" and l3: "tlists s3 (Suspend_thread m) = t # ts"
    using s2(2) l by (simp_all add: s3_def)
  obtain s4 where s4: "rt_ipc_list_resume (Suspend_thread m) s3 = Some s4" "kernel_ok s4"
    "kernel_frame s3 s4" "tlists s4 (Suspend_thread m) = ts"
    using list_resume_first [OF k3 l3] by auto
  obtain s' where s': "rt_schedule s4 = Some s'" "kernel_ok s'" "kernel_frame s4 s'"
    "\<forall>h. wait_head h \<longrightarrow> tlists s' h = tlists s4 h"
    using schedule_kernel_ok [OF s4(2)] by blast
  have f: "kernel_frame s3 s'" by (rule kernel_frame_trans [OF s4(3) s'(3)])
  have e: "rt_mutex_release m s = Some (RT_EOK, s')"
    using d own s2(1) l s4(1) s'(1) unfolding rt_mutex_release_def s1
    by (simp add: rt_thread_self_def s3_def Let_def)
  have "mutexes s' m = (mutexes s m)\<lparr>mx_owner := t, mx_hold := 1,
      mx_original_priority := th_current_priority (threads s t)\<rparr>"
    using kernel_frame_fields(2) [OF f] m2 prt [OF tc] by (simp add: s3_def)
  moreover have "thread_ok s3 t"
    using t2 by (simp add: s3_def thread_ok_def mask_ok_def stack_ok_def has_type_def)
  then have "thread_ok s' t" using thread_ok_frame(1) [OF f] by simp
  moreover have "t \<notin> set ts"
    using tlists_okD(1) [OF kernel_okD(8) [OF d(1)], of "Suspend_thread m"] w by simp
  moreover have "unat (th_current_priority (threads s t)) < RT_THREAD_PRIORITY_MAX" "t \<noteq> RT_NULL"
    using thread_okD(1) [OF t2] prt [OF tc] by (simp_all add: mask_ok_def)
  moreover have "th_current_priority (threads s' ?c) = mx_original_priority (mutexes s m)"
    using kernel_frame_fields(15) [OF f, of ?c] pr2 by (simp add: s3_def)
  ultimately show ?thesis
    using e s'(2,4) s4(4) v by (simp add: mutex_inv_def)
qed

end
