(* ===== verification/RT_Event.thy ===== *)
theory RT_Event
  imports RT_Ipc
begin

text \<open>The event flags, \<^verbatim>\<open>rt-thread/src/ipc.c\<close> lines 914 to 1276.\<close>

definition RT_EVENT_FLAG_AND :: u8 where "RT_EVENT_FLAG_AND = 0x01"
definition RT_EVENT_FLAG_OR :: u8 where "RT_EVENT_FLAG_OR = 0x02"
definition RT_EVENT_FLAG_CLEAR :: u8 where "RT_EVENT_FLAG_CLEAR = 0x04"

definition event_init_fields :: "ptr \<Rightarrow> u8 \<Rightarrow> kstate \<Rightarrow> kstate" where
  "event_init_fields event flag s =
     events_update (\<lambda>m. m(event := 0))
       (rt_ipc_object_init event (upd_obj event (obj_flag_update (\<lambda>_. flag)) s))"

definition rt_event_init :: "ptr \<Rightarrow> string \<Rightarrow> u8 \<Rightarrow> kstate \<Rightarrow> (rt_err_t \<times> kstate) option" where
  "rt_event_init event name flag s = do {
     RT_ASSERT (event \<noteq> RT_NULL);
     s1 \<leftarrow> rt_object_init event RT_Object_Class_Event name s;
     Some (RT_EOK, event_init_fields event flag s1)
   }"

definition rt_event_detach :: "ptr \<Rightarrow> kstate \<Rightarrow> (rt_err_t \<times> kstate) option" where
  "rt_event_detach event s = do {
     RT_ASSERT (event \<noteq> RT_NULL);
     assert_type event RT_Object_Class_Event s;
     assert_static event True s;
     s1 \<leftarrow> rt_ipc_list_resume_all (Suspend_thread event) s;
     s2 \<leftarrow> rt_object_detach event s1;
     Some (RT_EOK, s2)
   }"

definition rt_event_create :: "ptr \<Rightarrow> string \<Rightarrow> u8 \<Rightarrow> kstate \<Rightarrow> (ptr \<times> kstate) option" where
  "rt_event_create mem name flag s = do {
     not_in_interrupt s;
     (event, s1) \<leftarrow> rt_object_allocate mem RT_Object_Class_Event name s;
     if event = RT_NULL then Some (event, s1)
     else Some (event, event_init_fields event flag s1)
   }"

definition rt_event_delete :: "ptr \<Rightarrow> kstate \<Rightarrow> (rt_err_t \<times> kstate) option" where
  "rt_event_delete event s = do {
     RT_ASSERT (event \<noteq> RT_NULL);
     assert_type event RT_Object_Class_Event s;
     assert_static event False s;
     not_in_interrupt s;
     s1 \<leftarrow> rt_ipc_list_resume_all (Suspend_thread event) s;
     s2 \<leftarrow> rt_object_delete event s1;
     Some (RT_EOK, s2)
   }"

text \<open>
  The body of the loop of \<open>rt_event_send\<close> for one waiting thread; the flag says whether it was
  resumed.  The loop takes \<open>n->next\<close> before it resumes the thread at \<open>n\<close>, with interrupts off, so
  it visits the threads that were on the list when it began.
\<close>

definition event_wake :: "ptr \<Rightarrow> ptr \<Rightarrow> kstate \<Rightarrow> (bool \<times> kstate) option" where
  "event_wake event thread s = do {
     let info = th_event_info (threads s thread);
     let want = th_event_set (threads s thread);
     let set = events s event;
     let (status, s1) =
       (if info AND RT_EVENT_FLAG_AND \<noteq> 0 then (want AND set = want, s)
        else if info AND RT_EVENT_FLAG_OR \<noteq> 0 then
          (if want AND set \<noteq> 0
           then (True, upd_thread thread (th_event_set_update (\<lambda>_. want AND set)) s)
           else (False, s))
        else (False, s));
     if status then do {
       let s2 = (if info AND RT_EVENT_FLAG_CLEAR \<noteq> 0
         then events_update (\<lambda>m. m(event := m event AND NOT (th_event_set (threads s1 thread)))) s1
         else s1);
       (r, s3) \<leftarrow> rt_thread_resume thread s2;
       Some (True, s3)
     }
     else Some (False, s1)
   }"

fun event_send_loop :: "ptr \<Rightarrow> ptr list \<Rightarrow> bool \<Rightarrow> kstate \<Rightarrow> (bool \<times> kstate) option" where
  "event_send_loop event [] need_schedule s = Some (need_schedule, s)"
| "event_send_loop event (thread # ts) need_schedule s = do {
     (status, s1) \<leftarrow> event_wake event thread s;
     event_send_loop event ts (need_schedule \<or> status) s1
   }"

definition rt_event_send :: "ptr \<Rightarrow> u32 \<Rightarrow> kstate \<Rightarrow> (rt_err_t \<times> kstate) option" where
  "rt_event_send event bits s = do {
     RT_ASSERT (event \<noteq> RT_NULL);
     assert_type event RT_Object_Class_Event s;
     if bits = 0 then Some (- RT_ERROR, s)
     else do {
       let s1 = events_update (\<lambda>m. m(event := m event OR bits)) s;
       (need_schedule, s2) \<leftarrow> event_send_loop event (tlists s1 (Suspend_thread event)) False s1;
       s3 \<leftarrow> (if need_schedule then rt_schedule s2 else Some s2);
       Some (RT_EOK, s3)
     }
   }"

text \<open>The result of a receive is the error code and what was stored through \<open>recved\<close>, if anything.\<close>

definition rt_event_recv ::
  "ptr \<Rightarrow> u32 \<Rightarrow> u8 \<Rightarrow> u32 \<Rightarrow> kstate \<Rightarrow> ((rt_err_t \<times> u32 option) outcome \<times> kstate) option" where
  "rt_event_recv event bits option timeout s = do {
     in_thread_context s;
     RT_ASSERT (event \<noteq> RT_NULL);
     assert_type event RT_Object_Class_Event s;
     if bits = 0 then Some (Ret (- RT_ERROR, None), s)
     else do {
       let thread = rt_thread_self s;
       let s1 = set_error thread RT_EOK s;
       RT_ASSERT (option AND RT_EVENT_FLAG_AND \<noteq> 0 \<or> option AND RT_EVENT_FLAG_OR \<noteq> 0);
       let status = (if option AND RT_EVENT_FLAG_AND \<noteq> 0 then events s1 event AND bits = bits
         else events s1 event AND bits \<noteq> 0);
       if status then
         Some (Ret (th_error (threads s1 thread), Some (events s1 event AND bits)),
           if option AND RT_EVENT_FLAG_CLEAR \<noteq> 0
           then events_update (\<lambda>m. m(event := m event AND NOT bits)) s1 else s1)
       else if timeout = 0 then
         Some (Ret (- RT_ETIMEOUT, None), set_error thread (- RT_ETIMEOUT) s1)
       else do {
         let s2 = upd_thread thread (th_event_info_update (\<lambda>_. option))
           (upd_thread thread (th_event_set_update (\<lambda>_. bits)) s1);
         s3 \<leftarrow> ipc_wait_on (Suspend_thread event) thread (obj_flag (objs s2 event)) timeout s2;
         s4 \<leftarrow> rt_schedule s3;
         Some (Wait, s4)
       }
     }
   }"

definition rt_event_recv_wakeup :: "ptr \<Rightarrow> kstate \<Rightarrow> rt_err_t \<times> u32 option" where
  "rt_event_recv_wakeup thread s =
     (let e = th_error (threads s thread)
      in if e \<noteq> RT_EOK then (e, None) else (e, Some (th_event_set (threads s thread))))"

definition rt_event_control :: "ptr \<Rightarrow> ipc_cmd \<Rightarrow> kstate \<Rightarrow> (rt_err_t \<times> kstate) option" where
  "rt_event_control event cmd s = do {
     RT_ASSERT (event \<noteq> RT_NULL);
     assert_type event RT_Object_Class_Event s;
     case cmd of
       Reset v \<Rightarrow> do {
         s1 \<leftarrow> rt_ipc_list_resume_all (Suspend_thread event) s;
         s2 \<leftarrow> rt_schedule (events_update (\<lambda>m. m(event := 0)) s1);
         Some (RT_EOK, s2)
       }
     | Other_ipc_cmd \<Rightarrow> Some (- RT_ERROR, s)
   }"

subsection \<open>Delivery\<close>

text \<open>
  The contract of a send, on plain values: the waiting threads are served in order, each against
  what the threads before it have left of the set.
\<close>

definition event_sat :: "u8 \<Rightarrow> u32 \<Rightarrow> u32 \<Rightarrow> bool" where
  "event_sat info want flags =
     (if info AND RT_EVENT_FLAG_AND \<noteq> 0 then want AND flags = want
      else info AND RT_EVENT_FLAG_OR \<noteq> 0 \<and> want AND flags \<noteq> 0)"

definition event_got :: "u8 \<Rightarrow> u32 \<Rightarrow> u32 \<Rightarrow> u32" where
  "event_got info want flags = (if info AND RT_EVENT_FLAG_AND \<noteq> 0 then want else want AND flags)"

definition event_left :: "u8 \<Rightarrow> u32 \<Rightarrow> u32 \<Rightarrow> u32" where
  "event_left info want flags =
     (if info AND RT_EVENT_FLAG_CLEAR \<noteq> 0 then flags AND NOT (event_got info want flags) else flags)"

fun deliver :: "(ptr \<Rightarrow> u8) \<Rightarrow> (ptr \<Rightarrow> u32) \<Rightarrow> u32 \<Rightarrow> ptr list \<Rightarrow> u32 \<times> (ptr \<times> u32) list" where
  "deliver info want flags [] = (flags, [])"
| "deliver info want flags (t # ts) =
     (if event_sat (info t) (want t) flags
      then (let d = deliver info want (event_left (info t) (want t) flags) ts
            in (fst d, (t, event_got (info t) (want t) flags) # snd d))
      else deliver info want flags ts)"

lemma deliver_subset: "fst ` set (snd (deliver info want set0 ts)) \<subseteq> set ts"
proof (induction ts arbitrary: set0)
  case (Cons t ts)
  show ?case
    using Cons.IH [of set0] Cons.IH [of "event_left (info t) (want t) set0"]
    by (cases "event_sat (info t) (want t) set0") (auto simp: Let_def)
qed simp

lemma deliver_shrinks: "fst (deliver info want set0 ts) AND set0 = fst (deliver info want set0 ts)"
proof (induction ts arbitrary: set0)
  case (Cons t ts)
  have "event_left (info t) (want t) set0 AND set0 = event_left (info t) (want t) set0"
    by (auto simp: event_left_def and.assoc and.commute [of _ set0])
  then have "fst (deliver info want (event_left (info t) (want t) set0) ts) AND set0 =
      fst (deliver info want (event_left (info t) (want t) set0) ts)"
    using Cons.IH [of "event_left (info t) (want t) set0"] by (metis and.assoc)
  then show ?case
    using Cons.IH [of set0]
    by (cases "event_sat (info t) (want t) set0") (simp_all add: Let_def)
qed simp

lemma event_sat_mono:
  assumes "\<not> event_sat info want flags" "flags' AND flags = flags'"
  shows "\<not> event_sat info want flags'"
proof
  assume a: "event_sat info want flags'"
  have e: "want AND flags' = (want AND flags) AND flags'"
    by (metis and.assoc and.commute assms(2))
  show False
  proof (cases "info AND RT_EVENT_FLAG_AND \<noteq> 0")
    case True
    then have "want AND flags' = want" using a by (simp add: event_sat_def)
    then have "want AND flags = want" by (metis and.assoc assms(2))
    then show False using True assms(1) by (simp add: event_sat_def)
  next
    case False
    then have "want AND flags = 0" "want AND flags' \<noteq> 0" using a assms(1) by (auto simp: event_sat_def)
    then show False using e by simp
  qed
qed

lemma deliver_unsat:
  assumes "t \<in> set ts" "distinct ts" "t \<notin> fst ` set (snd (deliver info want set0 ts))"
  shows "\<not> event_sat (info t) (want t) (fst (deliver info want set0 ts))"
  using assms
proof (induction ts arbitrary: set0)
  case (Cons u us)
  show ?case
  proof (cases "event_sat (info u) (want u) set0")
    case True
    then have "t \<noteq> u" using Cons.prems(3) by (auto simp: Let_def)
    then show ?thesis
      using True Cons.IH [of "event_left (info u) (want u) set0"] Cons.prems
      by (auto simp: Let_def)
  next
    case False
    have "t = u \<Longrightarrow> ?thesis"
      using False event_sat_mono [OF _ deliver_shrinks, of "info t" "want t" set0 info want us] by simp
    then show ?thesis using False Cons by auto
  qed
qed simp

subsection \<open>Sending\<close>

definition info_of :: "kstate \<Rightarrow> ptr \<Rightarrow> u8" where "info_of s t = th_event_info (threads s t)"
definition want_of :: "kstate \<Rightarrow> ptr \<Rightarrow> u32" where "want_of s t = th_event_set (threads s t)"

text \<open>A thread that a send has woken is ready, or runs already.\<close>

definition runnable :: "kstate \<Rightarrow> ptr \<Rightarrow> bool" where
  "runnable s t \<longleftrightarrow> stat_of s t = RT_THREAD_READY \<or> stat_of s t = RT_THREAD_RUNNING"

lemma schedule_runnable:
  assumes ok: "kernel_ok s" and e: "rt_schedule s = Some s'" and t: "runnable s t"
  shows "runnable s' t"
  using ok
proof (cases rule: schedule_cases)
  case (keep s1)
  then show ?thesis using e t by (simp add: runnable_def)
next
  case (switch s1 to ts p)
  let ?c = "current_thread s"
  have s': "s' = s1" using e switch(1) by simp
  consider "t = to" | "t \<noteq> to" "t \<noteq> ?c \<or> stat_of s ?c \<noteq> RT_THREAD_RUNNING"
    | "t \<noteq> to" "t = ?c" "stat_of s ?c = RT_THREAD_RUNNING" by blast
  then show ?thesis
  proof cases
    case 1
    then show ?thesis using switch(5) by (simp add: runnable_def s')
  next
    case 2
    then show ?thesis using switch(7) [of t] t by (simp add: runnable_def s')
  next
    case 3
    then have "t \<in> set (tlists s1 (Ready (prio_of s ?c)))"
      using switch(6) by (simp add: seq_insert_before_head_def)
    moreover have "ready_ok s1" using switch(8) by (simp add: sched_inv_def table_inv_def)
    ultimately show ?thesis using ready_okD(4) by (auto simp: runnable_def s')
  qed
qed

lemma event_wake_step:
  assumes ok: "kernel_ok s" and t: "t \<in> set (tlists s (Suspend_thread e))"
  defines "b \<equiv> event_sat (info_of s t) (want_of s t) (events s e)"
  shows "\<exists>s'. event_wake e t s = Some (b, s') \<and> kernel_ok s' \<and>
    events s' e = (if b then event_left (info_of s t) (want_of s t) (events s e) else events s e) \<and>
    tlists s' (Suspend_thread e) =
      (if b then removeAll t (tlists s (Suspend_thread e)) else tlists s (Suspend_thread e)) \<and>
    (b \<longrightarrow> want_of s' t = event_got (info_of s t) (want_of s t) (events s e)) \<and>
    (\<forall>u. th_error (threads s' u) = th_error (threads s u)) \<and>
    (\<forall>u. u \<noteq> t \<longrightarrow> info_of s' u = info_of s u \<and> want_of s' u = want_of s u) \<and>
    (b \<longrightarrow> runnable s' t) \<and> (\<forall>u. runnable s u \<longrightarrow> runnable s' u)"
proof (cases b)
  case False
  then have "event_wake e t s = Some (False, s)"
    by (auto simp: event_wake_def b_def event_sat_def info_of_def want_of_def Let_def split: if_splits)
  then show ?thesis using False ok by auto
next
  case True
  let ?got = "event_got (info_of s t) (want_of s t) (events s e)"
  define s1 where "s1 = (if info_of s t AND RT_EVENT_FLAG_AND \<noteq> 0 then s
    else upd_thread t (th_event_set_update (\<lambda>_. ?got)) s)"
  define s2 where "s2 = (if info_of s t AND RT_EVENT_FLAG_CLEAR \<noteq> 0
    then events_update (\<lambda>m. m(e := m e AND NOT ?got)) s1 else s1)"
  have w1: "want_of s1 t = ?got" by (simp add: s1_def event_got_def want_of_def)
  have k2: "kernel_ok s2" using ok by (simp add: s2_def s1_def)
  have l2: "tlists s2 = tlists s" "current_thread s2 = current_thread s"
    "\<And>u. stat_of s2 u = stat_of s u" "events s2 e = event_left (info_of s t) (want_of s t) (events s e)"
    "\<And>u. th_error (threads s2 u) = th_error (threads s u)" "want_of s2 t = ?got"
    "\<And>u. u \<noteq> t \<Longrightarrow> info_of s2 u = info_of s u" "\<And>u. u \<noteq> t \<Longrightarrow> want_of s2 u = want_of s u"
    using w1 by (auto simp: s2_def s1_def event_left_def info_of_def want_of_def)
  have t2: "t \<in> set (tlists s2 (Suspend_thread e))" using t l2(1) by simp
  obtain s3 where s3: "rt_thread_resume t s2 = Some (RT_EOK, s3)" "kernel_ok s3" "kernel_frame s2 s3"
    "tlists s3 = ready_lists t s2" "\<forall>u. u \<noteq> t \<longrightarrow> threads s3 u = threads s2 u"
    "stat_of s3 t = (if t = current_thread s2 then RT_THREAD_RUNNING else RT_THREAD_READY)"
    using resume_waiting [OF k2 kernel_okD(4) [OF k2 t2] kernel_okD(5) [OF k2 t2]] by auto
  have run: "runnable s3 t" "runnable s u \<Longrightarrow> runnable s3 u" for u
    using s3(5,6) l2(3) by (cases "u = t"; simp add: runnable_def)+
  note f = kernel_frame_fields [OF s3(3)]
  have wake: "event_wake e t s = Some (True, s3)"
  proof (cases "info_of s t AND RT_EVENT_FLAG_AND \<noteq> 0")
    case a: True
    have w: "th_event_set (threads s t) AND events s e = th_event_set (threads s t)"
      using a True by (simp add: b_def event_sat_def info_of_def want_of_def)
    have "event_got (info_of s t) (want_of s t) (events s e) = th_event_set (threads s t)"
      using a by (simp add: event_got_def want_of_def)
    then show ?thesis
      using a w s3(1) by (simp add: event_wake_def Let_def info_of_def s2_def s1_def split: if_splits)
  next
    case o: False
    have w: "info_of s t AND RT_EVENT_FLAG_OR \<noteq> 0" "th_event_set (threads s t) AND events s e \<noteq> 0"
      using o True by (simp_all add: b_def event_sat_def want_of_def)
    have "event_got (info_of s t) (want_of s t) (events s e) = th_event_set (threads s t) AND events s e"
      using o by (simp add: event_got_def want_of_def)
    then show ?thesis
      using o w s3(1) by (simp add: event_wake_def Let_def info_of_def s2_def s1_def split: if_splits)
  qed
  have "tlists s3 (Suspend_thread e) = removeAll t (tlists s (Suspend_thread e))"
    using s3(4) l2(1) by (simp add: wait_lists_ready_lists)
  then show ?thesis
    using True wake s3(2) l2 run f(3,14,16,17) by (simp add: info_of_def want_of_def)
qed

lemma event_loop_deliver:
  assumes "kernel_ok s" "set ts \<subseteq> set (tlists s (Suspend_thread e))" "distinct ts"
  shows "\<exists>b s'. event_send_loop e ts need s = Some (b, s') \<and> kernel_ok s' \<and>
    events s' e = fst (deliver (info_of s) (want_of s) (events s e) ts) \<and>
    tlists s' (Suspend_thread e) = filter (\<lambda>t. t \<notin> fst ` set (snd
      (deliver (info_of s) (want_of s) (events s e) ts))) (tlists s (Suspend_thread e)) \<and>
    (\<forall>(t, got) \<in> set (snd (deliver (info_of s) (want_of s) (events s e) ts)). want_of s' t = got) \<and>
    (\<forall>u. u \<notin> fst ` set (snd (deliver (info_of s) (want_of s) (events s e) ts)) \<longrightarrow>
      info_of s' u = info_of s u \<and> want_of s' u = want_of s u) \<and>
    (\<forall>u. th_error (threads s' u) = th_error (threads s u)) \<and>
    (\<forall>u \<in> fst ` set (snd (deliver (info_of s) (want_of s) (events s e) ts)). runnable s' u) \<and>
    (\<forall>u. runnable s u \<longrightarrow> runnable s' u)"
  using assms
proof (induction ts arbitrary: s need)
  case (Cons t ts)
  let ?b = "event_sat (info_of s t) (want_of s t) (events s e)"
  have tin: "t \<in> set (tlists s (Suspend_thread e))" using Cons.prems(2) by simp
  obtain s1 where s1: "event_wake e t s = Some (?b, s1)" "kernel_ok s1"
    "events s1 e = (if ?b then event_left (info_of s t) (want_of s t) (events s e) else events s e)"
    "tlists s1 (Suspend_thread e) =
      (if ?b then removeAll t (tlists s (Suspend_thread e)) else tlists s (Suspend_thread e))"
    "?b \<longrightarrow> want_of s1 t = event_got (info_of s t) (want_of s t) (events s e)"
    "\<forall>u. th_error (threads s1 u) = th_error (threads s u)"
    "\<forall>u. u \<noteq> t \<longrightarrow> info_of s1 u = info_of s u \<and> want_of s1 u = want_of s u"
    "?b \<longrightarrow> runnable s1 t" "\<forall>u. runnable s u \<longrightarrow> runnable s1 u"
    using event_wake_step [OF Cons.prems(1) tin] by blast
  have ts: "set ts \<subseteq> set (tlists s1 (Suspend_thread e))" "distinct ts" "t \<notin> set ts"
    using Cons.prems s1(4) by auto
  have cong: "deliver (info_of s1) (want_of s1) fl ts = deliver (info_of s) (want_of s) fl ts" for fl
  proof -
    have "deliver (info_of s1) (want_of s1) fl us = deliver (info_of s) (want_of s) fl us"
      if "t \<notin> set us" for us
      using that by (induction us arbitrary: fl) (use s1(7) in \<open>auto simp: Let_def\<close>)
    then show ?thesis using ts(3) by blast
  qed
  let ?d = "deliver (info_of s) (want_of s) (events s1 e) ts"
  obtain b s' where s': "event_send_loop e ts (need \<or> ?b) s1 = Some (b, s')" "kernel_ok s'"
    "events s' e = fst ?d"
    "tlists s' (Suspend_thread e) = filter (\<lambda>t. t \<notin> fst ` set (snd ?d)) (tlists s1 (Suspend_thread e))"
    "\<forall>(t, got) \<in> set (snd ?d). want_of s' t = got"
    "\<forall>u. u \<notin> fst ` set (snd ?d) \<longrightarrow> info_of s' u = info_of s1 u \<and> want_of s' u = want_of s1 u"
    "\<forall>u. th_error (threads s' u) = th_error (threads s1 u)"
    "\<forall>u \<in> fst ` set (snd ?d). runnable s' u" "\<forall>u. runnable s1 u \<longrightarrow> runnable s' u"
    using Cons.IH [OF s1(2) ts(1,2), of "need \<or> ?b"] unfolding cong by blast
  have nt: "t \<notin> fst ` set (snd ?d)" using deliver_subset ts(3) by blast
  have e: "event_send_loop e (t # ts) need s = Some (b, s')" using s1(1) s'(1) by simp
  show ?case
  proof (cases ?b)
    case True
    have d: "deliver (info_of s) (want_of s) (events s e) (t # ts) =
        (fst ?d, (t, event_got (info_of s t) (want_of s t) (events s e)) # snd ?d)"
      using True s1(3) by (simp add: Let_def)
    have "filter (\<lambda>u. u \<notin> fst ` set (snd ?d)) (removeAll t xs) =
        filter (\<lambda>u. u \<notin> insert t (fst ` set (snd ?d))) xs" for xs
      by (induction xs) auto
    then show ?thesis
      unfolding d using True e s' s1 nt by (intro exI [of _ b] exI [of _ s']) auto
  next
    case False
    have d: "deliver (info_of s) (want_of s) (events s e) (t # ts) = ?d" using False s1(3) by simp
    have "info_of s1 u = info_of s u \<and> want_of s1 u = want_of s u" for u
    proof (cases "u = t")
      case True
      have "s1 = s" using False s1(1)
        by (auto simp: event_wake_def event_sat_def info_of_def want_of_def Let_def split: if_splits)
      then show ?thesis by simp
    qed (use s1(7) in blast)
    then show ?thesis
      unfolding d using False e s' s1 by (intro exI [of _ b] exI [of _ s']) auto
  qed
qed auto

lemma schedule_after:
  assumes ok: "kernel_ok s"
  shows "\<exists>s'. (if b then rt_schedule s else Some s) = Some s' \<and> kernel_ok s' \<and> kernel_frame s s' \<and>
    (\<forall>h. wait_head h \<longrightarrow> tlists s' h = tlists s h)"
  using schedule_kernel_ok [OF ok] ok by auto

lemma event_send_deliver:
  assumes ok: "ipc_ok s e RT_Object_Class_Event" and bits: "bits \<noteq> 0"
  defines "d \<equiv> deliver (info_of s) (want_of s) (events s e OR bits) (tlists s (Suspend_thread e))"
  shows "\<exists>s'. rt_event_send e bits s = Some (RT_EOK, s') \<and> kernel_ok s' \<and> events s' e = fst d \<and>
    tlists s' (Suspend_thread e) =
      filter (\<lambda>t. t \<notin> fst ` set (snd d)) (tlists s (Suspend_thread e)) \<and>
    (\<forall>(t, got) \<in> set (snd d). want_of s' t = got) \<and>
    (\<forall>u. u \<notin> fst ` set (snd d) \<longrightarrow> info_of s' u = info_of s u \<and> want_of s' u = want_of s u) \<and>
    (\<forall>u. th_error (threads s' u) = th_error (threads s u)) \<and>
    (\<forall>u \<in> fst ` set (snd d). runnable s' u)"
proof -
  let ?s = "events_update (\<lambda>m. m(e := m e OR bits)) s"
  have k: "kernel_ok ?s" using ipc_okD(1) [OF ok] by simp
  have dd: "deliver (info_of ?s) (want_of ?s) (events ?s e) (tlists ?s (Suspend_thread e)) = d"
    by (simp add: d_def info_of_def [abs_def] want_of_def [abs_def])
  have dist: "distinct (tlists ?s (Suspend_thread e))" by (rule tlists_okD(1) [OF kernel_okD(8) [OF k]])
  obtain b s2 where s2: "event_send_loop e (tlists ?s (Suspend_thread e)) False ?s = Some (b, s2)"
    "kernel_ok s2" "events s2 e = fst d"
    "tlists s2 (Suspend_thread e) = filter (\<lambda>t. t \<notin> fst ` set (snd d)) (tlists s (Suspend_thread e))"
    "\<forall>(t, got) \<in> set (snd d). want_of s2 t = got"
    "\<forall>u. u \<notin> fst ` set (snd d) \<longrightarrow> info_of s2 u = info_of ?s u \<and> want_of s2 u = want_of ?s u"
    "\<forall>u. th_error (threads s2 u) = th_error (threads ?s u)"
    "\<forall>u \<in> fst ` set (snd d). runnable s2 u"
    using event_loop_deliver [OF k subset_refl dist, of False] unfolding dd by auto
  obtain s' where s': "(if b then rt_schedule s2 else Some s2) = Some s'" "kernel_ok s'"
    "kernel_frame s2 s'" "\<forall>h. wait_head h \<longrightarrow> tlists s' h = tlists s2 h"
    using schedule_after [OF s2(2)] by blast
  note f = kernel_frame_fields [OF s'(3)]
  have r: "\<forall>u \<in> fst ` set (snd d). runnable s' u"
    using s2(8) s'(1) schedule_runnable [OF s2(2)] by (cases b) auto
  have "rt_event_send e bits s = Some (RT_EOK, s')"
    using ipc_okD [OF ok] bits s2(1) s'(1) by (simp add: rt_event_send_def)
  moreover have iw: "info_of s' u = info_of s2 u" "want_of s' u = want_of s2 u" for u
    using f(16,17) [of u] by (simp_all add: info_of_def want_of_def)
  moreover have "info_of ?s = info_of s" "want_of ?s = want_of s"
    by (simp_all add: fun_eq_iff info_of_def want_of_def)
  ultimately show ?thesis
    using s' s2 f(3,14) r by (intro exI [of _ s']) (auto simp: iw)
qed

text \<open>No thread is left waiting for flags that are set.\<close>

definition event_inv :: "kstate \<Rightarrow> ptr \<Rightarrow> bool" where
  "event_inv s e \<longleftrightarrow>
     (\<forall>t \<in> set (tlists s (Suspend_thread e)). \<not> event_sat (info_of s t) (want_of s t) (events s e))"

lemma event_send_unsat:
  fixes fl :: u32
  assumes ok: "ipc_ok s e RT_Object_Class_Event"
  defines "d \<equiv> deliver (info_of s) (want_of s) fl (tlists s (Suspend_thread e))"
  assumes "events s' e = fst d"
    and "tlists s' (Suspend_thread e) = filter (\<lambda>t. t \<notin> fst ` set (snd d)) (tlists s (Suspend_thread e))"
    and "\<forall>u. u \<notin> fst ` set (snd d) \<longrightarrow> info_of s' u = info_of s u \<and> want_of s' u = want_of s u"
  shows "event_inv s' e"
proof -
  have "distinct (tlists s (Suspend_thread e))"
    by (rule tlists_okD(1) [OF kernel_okD(8) [OF ipc_okD(1) [OF ok]]])
  then show ?thesis
    using assms(3-5) deliver_unsat [of _ "tlists s (Suspend_thread e)" "info_of s" "want_of s" fl]
    unfolding d_def by (auto simp: event_inv_def)
qed

text \<open>C7. rt_event_send adds the sent flags to the event and serves the waiting threads in their
  order: exactly those whose condition holds of the flags that the earlier ones left leave the
  waiting list, are ready or running, and receive their flags when they come back; the others
  wait on in the same order with their conditions unsatisfied by the flags that remain.\<close>

lemma event_send_inv:
  assumes ok: "ipc_ok s e RT_Object_Class_Event" and bits: "bits \<noteq> 0"
    and d: "deliver (info_of s) (want_of s) (events s e OR bits) (tlists s (Suspend_thread e)) =
      (left, served)"
  shows "\<exists>s'. rt_event_send e bits s = Some (RT_EOK, s') \<and> kernel_ok s' \<and> events s' e = left \<and>
    tlists s' (Suspend_thread e) = filter (\<lambda>t. t \<notin> fst ` set served) (tlists s (Suspend_thread e)) \<and>
    (\<forall>(t, got) \<in> set served. runnable s' t \<and>
      rt_event_recv_wakeup t s' = (let er = th_error (threads s t)
        in (er, if er = RT_EOK then Some got else None))) \<and>
    event_inv s' e"
proof -
  obtain s' where s': "rt_event_send e bits s = Some (RT_EOK, s')" "kernel_ok s'" "events s' e = left"
    "tlists s' (Suspend_thread e) = filter (\<lambda>t. t \<notin> fst ` set served) (tlists s (Suspend_thread e))"
    "\<forall>(t, got) \<in> set served. want_of s' t = got"
    "\<forall>u. u \<notin> fst ` set served \<longrightarrow> info_of s' u = info_of s u \<and> want_of s' u = want_of s u"
    "\<forall>u. th_error (threads s' u) = th_error (threads s u)" "\<forall>u \<in> fst ` set served. runnable s' u"
    using event_send_deliver [OF ok bits] unfolding d fst_conv snd_conv by blast
  moreover have "event_inv s' e"
    using event_send_unsat [OF ok, of s' "events s e OR bits"] s'(3,4,6) by (simp add: d)
  ultimately show ?thesis
    by (intro exI [of _ s']) (auto simp: rt_event_recv_wakeup_def Let_def want_of_def rev_image_eqI)
qed

subsection \<open>Receiving\<close>

definition event_option_ok :: "u8 \<Rightarrow> bool" where
  "event_option_ok opt \<longleftrightarrow> opt AND RT_EVENT_FLAG_AND \<noteq> 0 \<or> opt AND RT_EVENT_FLAG_OR \<noteq> 0"

lemma event_recv_now:
  assumes ok: "ipc_ok s e RT_Object_Class_Event" and ctx: "thread_context s" and inv: "event_inv s e"
    and bits: "bits \<noteq> 0" and opt: "event_option_ok opt" and sat: "event_sat opt bits (events s e)"
  shows "\<exists>s'. rt_event_recv e bits opt time s = Some (Ret (RT_EOK, Some (events s e AND bits)), s') \<and>
    kernel_ok s' \<and> event_inv s' e \<and> tlists s' = tlists s \<and>
    events s' e = (if opt AND RT_EVENT_FLAG_CLEAR \<noteq> 0 then events s e AND NOT bits else events s e)"
proof -
  define s' where "s' = (if opt AND RT_EVENT_FLAG_CLEAR \<noteq> 0
    then events_update (\<lambda>m. m(e := m e AND NOT bits)) (set_error (current_thread s) RT_EOK s)
    else set_error (current_thread s) RT_EOK s)"
  have ev: "events s' e = (if opt AND RT_EVENT_FLAG_CLEAR \<noteq> 0 then events s e AND NOT bits else events s e)"
    and l: "tlists s' = tlists s" and iw: "info_of s' = info_of s" "want_of s' = want_of s"
    by (auto simp: s'_def info_of_def want_of_def fun_eq_iff)
  have "events s' e AND events s e = events s' e"
    by (auto simp: ev and.assoc and.commute [of _ "events s e"])
  then have "event_inv s' e"
    using inv event_sat_mono by (auto simp: event_inv_def l iw)
  moreover have "rt_event_recv e bits opt time s = Some (Ret (RT_EOK, Some (events s e AND bits)), s')"
    using ipc_okD [OF ok] ctx bits opt sat kernel_ok_current [OF ipc_okD(1) [OF ok]]
    by (auto simp: rt_event_recv_def rt_thread_self_def thread_context_def event_option_ok_def
        event_sat_def s'_def Let_def and.commute)
  moreover have "kernel_ok s'" using ipc_okD(1) [OF ok] by (simp add: s'_def)
  ultimately show ?thesis using ev l by blast
qed

lemma event_recv_poll:
  assumes ok: "ipc_ok s e RT_Object_Class_Event" and ctx: "thread_context s"
    and bits: "bits \<noteq> 0" and opt: "event_option_ok opt" and unsat: "\<not> event_sat opt bits (events s e)"
  shows "\<exists>s'. rt_event_recv e bits opt 0 s = Some (Ret (- RT_ETIMEOUT, None), s') \<and>
    events s' = events s \<and> tlists s' = tlists s"
  using ipc_okD [OF ok] ctx bits opt unsat kernel_ok_current [OF ipc_okD(1) [OF ok]]
  by (auto simp: rt_event_recv_def rt_thread_self_def thread_context_def event_option_ok_def
      event_sat_def Let_def and.commute)

lemma event_recv_wait:
  assumes ok: "ipc_ok s e RT_Object_Class_Event" and ctx: "thread_context s" and inv: "event_inv s e"
    and bits: "bits \<noteq> 0" and opt: "event_option_ok opt" and unsat: "\<not> event_sat opt bits (events s e)"
    and time: "time \<noteq> 0" "timeout_ok time"
  shows "\<exists>s'. rt_event_recv e bits opt time s = Some (Wait, s') \<and> kernel_ok s' \<and> event_inv s' e \<and>
    events s' = events s \<and> info_of s' (current_thread s) = opt \<and> want_of s' (current_thread s) = bits \<and>
    tlists s' (Suspend_thread e) = wait_place (prio_of s) (obj_flag (objs s e)) (current_thread s)
      (tlists s (Suspend_thread e))"
proof -
  let ?c = "current_thread s"
  define s2 where "s2 = upd_thread ?c (th_event_info_update (\<lambda>_. opt))
    (upd_thread ?c (th_event_set_update (\<lambda>_. bits)) (set_error ?c RT_EOK s))"
  have k: "kernel_ok s2"
    unfolding s2_def kernel_ok_set_event kernel_ok_set_error by (rule ipc_okD(1) [OF ok])
  have run: "stat_of s2 (current_thread s2) = RT_THREAD_RUNNING" using ctx by (simp add: s2_def thread_context_def)
  have pr: "prio_of s2 = prio_of s" by (auto simp: s2_def)
  have same: "tlists s2 = tlists s" "current_thread s2 = ?c" "objs s2 = objs s" "events s2 = events s"
    by (simp_all add: s2_def)
  obtain s3 s' where s': "ipc_wait_on (Suspend_thread e) ?c (obj_flag (objs s e)) time s2 = Some s3"
    "rt_schedule s3 = Some s'" "kernel_ok s'" "kernel_frame s2 s'"
    "\<forall>h'. wait_head h' \<longrightarrow> tlists s' h' = ((tlists s)(Suspend_thread e :=
       wait_place (prio_of s) (obj_flag (objs s e)) ?c (tlists s (Suspend_thread e)))) h'"
    using block_current [OF k run wait_head_simps(3) ipc_okD(3) [OF ok] time(2), of e]
    unfolding pr same by auto
  note f = kernel_frame_fields [OF s'(4)]
  have iw: "info_of s' u = (if u = ?c then opt else info_of s u)"
    "want_of s' u = (if u = ?c then bits else want_of s u)" for u
    using f(16,17) [of u] by (auto simp: info_of_def want_of_def s2_def)
  have "rt_event_recv e bits opt time s = Some (Wait, s')"
    using ipc_okD [OF ok] ctx bits opt unsat time kernel_ok_current [OF ipc_okD(1) [OF ok]] s'(1,2) same(3)
    by (auto simp: rt_event_recv_def rt_thread_self_def thread_context_def event_option_ok_def
        event_sat_def Let_def and.commute s2_def)
  moreover have "event_inv s' e"
    using inv unsat s'(5) f(3) same(4) by (auto simp: event_inv_def set_wait_place iw)
  ultimately show ?thesis using s'(3,5) f(3) same(4) iw by simp
qed

end
