(* ===== verification/RT_Fifo.thy ===== *)
theory RT_Fifo
  imports RT_Prelude
begin

text \<open>
  The contract of a bounded first-in first-out store, which the mailbox, the message queue and the
  ring buffer provide: a put on a full store and a get on an empty one are refused, everything
  else behaves as a list.  What a client may conclude for any sequence of calls is proved once.
\<close>

datatype 'a fifo_op = Put 'a | Get

text \<open>A run of calls: what was accepted, what was delivered, and the last state.\<close>

fun fifo_run ::
  "('a \<Rightarrow> 's \<Rightarrow> 's option) \<Rightarrow> ('s \<Rightarrow> ('a \<times> 's) option) \<Rightarrow> 'a fifo_op list \<Rightarrow> 's \<Rightarrow> 'a list \<times> 'a list \<times> 's" where
  "fifo_run put get [] s = ([], [], s)"
| "fifo_run put get (Put x # ops) s =
     (case put x s of
        None \<Rightarrow> fifo_run put get ops s
      | Some s' \<Rightarrow> let (ac, de, s'') = fifo_run put get ops s' in (x # ac, de, s''))"
| "fifo_run put get (Get # ops) s =
     (case get s of
        None \<Rightarrow> fifo_run put get ops s
      | Some (x, s') \<Rightarrow> let (ac, de, s'') = fifo_run put get ops s' in (ac, x # de, s''))"

fun puts_valid :: "('a \<Rightarrow> bool) \<Rightarrow> 'a fifo_op list \<Rightarrow> bool" where
  "puts_valid P [] = True"
| "puts_valid P (Put x # ops) = (P x \<and> puts_valid P ops)"
| "puts_valid P (Get # ops) = puts_valid P ops"

locale bounded_fifo =
  fixes inv :: "'s \<Rightarrow> bool"
    and contents :: "'s \<Rightarrow> 'a list"
    and capacity :: "'s \<Rightarrow> nat"
    and valid :: "'s \<Rightarrow> 'a \<Rightarrow> bool"
    and put :: "'a \<Rightarrow> 's \<Rightarrow> 's option"
    and get :: "'s \<Rightarrow> ('a \<times> 's) option"
  assumes bound: "inv s \<Longrightarrow> length (contents s) \<le> capacity s"
    and put_room: "inv s \<Longrightarrow> valid s x \<Longrightarrow> length (contents s) < capacity s \<Longrightarrow>
      \<exists>s'. put x s = Some s' \<and> inv s' \<and> contents s' = contents s @ [x] \<and>
        capacity s' = capacity s \<and> valid s' = valid s"
    and put_full: "inv s \<Longrightarrow> valid s x \<Longrightarrow> length (contents s) = capacity s \<Longrightarrow> put x s = None"
    and get_some: "inv s \<Longrightarrow> contents s = x # xs \<Longrightarrow>
      \<exists>s'. get s = Some (x, s') \<and> inv s' \<and> contents s' = xs \<and>
        capacity s' = capacity s \<and> valid s' = valid s"
    and get_none: "inv s \<Longrightarrow> contents s = [] \<Longrightarrow> get s = None"
begin

lemma put_iff:
  assumes "inv s" "valid s x"
  shows "put x s = None \<longleftrightarrow> length (contents s) = capacity s"
  using bound [OF assms(1)] put_room [OF assms] put_full [OF assms] by fastforce

lemma put_then_get:
  assumes "inv s" "valid s x" "contents s = []" "0 < capacity s"
  shows "\<exists>s' s''. put x s = Some s' \<and> get s' = Some (x, s'') \<and> contents s'' = []"
proof -
  obtain s' where s': "put x s = Some s'" "inv s'" "contents s' = [x]"
    using put_room [OF assms(1,2)] assms(3,4) by auto
  then show ?thesis using get_some [OF s'(2,3)] by auto
qed

text \<open>First in, first out: what came out and what is left are the initial content and what went in.\<close>

lemma run_order:
  assumes "inv s" "puts_valid (valid s) ops" "fifo_run put get ops s = (ac, de, s')"
  shows "inv s' \<and> de @ contents s' = contents s @ ac \<and> capacity s' = capacity s"
  using assms
proof (induction ops arbitrary: s ac de)
  case (Cons op ops)
  show ?case
  proof (cases op)
    case (Put x)
    show ?thesis
    proof (cases "put x s")
      case None
      then show ?thesis using Cons Put by simp
    next
      case (Some s1)
      have v: "valid s x" using Cons.prems(2) Put by simp
      have "length (contents s) \<noteq> capacity s" using put_full [OF Cons.prems(1) v] Some by auto
      then have "length (contents s) < capacity s" using bound [OF Cons.prems(1)] by simp
      then have s1: "inv s1" "contents s1 = contents s @ [x]" "capacity s1 = capacity s" "valid s1 = valid s"
        using put_room [OF Cons.prems(1) v] Some by auto
      obtain ac1 where "fifo_run put get ops s1 = (ac1, de, s')" "ac = x # ac1"
        using Cons.prems(3) Put Some by (auto split: prod.splits)
      then show ?thesis using Cons.IH [OF s1(1)] Cons.prems(2) s1 Put by auto
    qed
  next
    case Get
    show ?thesis
    proof (cases "contents s")
      case Nil
      then show ?thesis using Cons Get get_none by simp
    next
      case (Cons x xs)
      obtain s1 where s1: "get s = Some (x, s1)" "inv s1" "contents s1 = xs" "capacity s1 = capacity s"
        "valid s1 = valid s"
        using get_some [OF Cons.prems(1) Cons] by auto
      obtain de1 where "fifo_run put get ops s1 = (ac, de1, s')" "de = x # de1"
        using Cons.prems(3) Get s1(1) by (auto split: prod.splits)
      then show ?thesis using Cons.IH [OF s1(2)] Cons.prems(2) s1 Get Cons by auto
    qed
  qed
qed auto

end

subsection \<open>Ring storage\<close>

text \<open>The \<open>n\<close> cells from \<open>out\<close> on, wrapping round at the end of the array.\<close>

definition ring :: "'a list \<Rightarrow> nat \<Rightarrow> nat \<Rightarrow> 'a list" where
  "ring pool out n = map (\<lambda>i. pool ! ((out + i) mod length pool)) [0..<n]"

lemma length_ring [simp]: "length (ring pool out n) = n"
  by (simp add: ring_def)

lemma ring_0 [simp]: "ring pool out 0 = []"
  by (simp add: ring_def)

lemma ring_index_inj:
  assumes "i < j" "j < L" "out < (L :: nat)"
  shows "(out + i) mod L \<noteq> (out + j) mod L"
proof
  assume "(out + i) mod L = (out + j) mod L"
  then have "L dvd (out + j) - (out + i)" using assms by (metis add_le_cancel_left less_imp_le mod_eq_dvd_iff_nat)
  then show False using assms by (auto dest: dvd_imp_le)
qed

lemma ring_put:
  assumes "n < length pool" "out < length pool"
  shows "ring (pool[(out + n) mod length pool := x]) out (Suc n) = ring pool out n @ [x]"
proof -
  have "(out + n) mod length pool \<noteq> (out + i) mod length pool" if "i < n" for i
    using ring_index_inj [OF that assms] by simp
  moreover have "(out + n) mod length pool < length pool" using assms(1) by (intro mod_less_divisor) linarith
  ultimately show ?thesis by (simp add: ring_def)
qed

lemma ring_get:
  assumes "0 < n" "out < length pool"
  shows "ring pool out n = pool ! out # ring pool (Suc out mod length pool) (n - 1)"
proof -
  have "[0..<n] = 0 # map Suc [0..<n - 1]" using assms(1) by (simp add: map_Suc_upt upt_conv_Cons)
  moreover have "(Suc out mod length pool + i) mod length pool = (out + Suc i) mod length pool" for i
    by (simp add: mod_simps)
  ultimately show ?thesis using assms(2) by (simp add: ring_def)
qed

lemma ring_step:
  "out < L \<Longrightarrow> (if Suc out \<ge> L then 0 else Suc out) = Suc out mod (L :: nat)"
  by (auto simp: le_Suc_eq)

end
