(* ===== verification/RT_Mailbox.thy ===== *)
theory RT_Mailbox
  imports RT_Ipc RT_Fifo
begin

text \<open>
  The mailbox, \<^verbatim>\<open>rt-thread/src/ipc.c\<close> lines 1293 to 1757: a ring of words, with receivers
  waiting on \<open>Suspend_thread\<close> while it is empty and senders on \<open>Suspend_sender\<close> while it is full.
\<close>

subsection \<open>The ring of messages\<close>

text \<open>
  Lines 1535 to 1541 and 1683 to 1690.  A store outside the array of the application is undefined
  behaviour, the result \<open>None\<close>; the tests for full and empty are those of the loops before.
\<close>

definition mb_push :: "u32 \<Rightarrow> rt_mailbox \<Rightarrow> rt_mailbox option" where
  "mb_push value mb = do {
     RT_ASSERT (unat (mb_in_offset mb) < length (mb_msg_pool mb));
     let mb1 = mb\<lparr>mb_msg_pool := (mb_msg_pool mb)[unat (mb_in_offset mb) := value],
                  mb_in_offset := mb_in_offset mb + 1\<rparr>;
     let mb2 = (if mb_in_offset mb1 \<ge> mb_size mb1 then mb1\<lparr>mb_in_offset := 0\<rparr> else mb1);
     Some (mb2\<lparr>mb_entry := mb_entry mb2 + 1\<rparr>)
   }"

definition mb_pop :: "rt_mailbox \<Rightarrow> (u32 \<times> rt_mailbox) option" where
  "mb_pop mb = do {
     RT_ASSERT (unat (mb_out_offset mb) < length (mb_msg_pool mb));
     let value = mb_msg_pool mb ! unat (mb_out_offset mb);
     let mb1 = mb\<lparr>mb_out_offset := mb_out_offset mb + 1\<rparr>;
     let mb2 = (if mb_out_offset mb1 \<ge> mb_size mb1 then mb1\<lparr>mb_out_offset := 0\<rparr> else mb1);
     Some (value, mb2\<lparr>mb_entry := mb_entry mb2 - 1\<rparr>)
   }"

definition mb_put :: "u32 \<Rightarrow> rt_mailbox \<Rightarrow> rt_mailbox option" where
  "mb_put value mb = (if mb_entry mb = mb_size mb then None else mb_push value mb)"

definition mb_get :: "rt_mailbox \<Rightarrow> (u32 \<times> rt_mailbox) option" where
  "mb_get mb = (if mb_entry mb = 0 then None else mb_pop mb)"

definition mb_inv :: "rt_mailbox \<Rightarrow> bool" where
  "mb_inv mb \<longleftrightarrow> 0 < mb_size mb \<and> length (mb_msg_pool mb) = unat (mb_size mb) \<and>
     mb_entry mb \<le> mb_size mb \<and> mb_out_offset mb < mb_size mb \<and>
     unat (mb_in_offset mb) = (unat (mb_out_offset mb) + unat (mb_entry mb)) mod unat (mb_size mb)"

definition mb_contents :: "rt_mailbox \<Rightarrow> u32 list" where
  "mb_contents mb = ring (mb_msg_pool mb) (unat (mb_out_offset mb)) (unat (mb_entry mb))"

lemma inc_wrap:
  assumes "x < (n :: u16)"
  shows "unat (if x + 1 \<ge> n then 0 else x + 1) = Suc (unat x) mod unat n"
    "unat (x + 1) = Suc (unat x)"
proof -
  have "Suc (unat x) \<le> unat n" using assms by (simp add: word_less_nat_alt Suc_leI)
  moreover have "unat n < 2 ^ 16" using unsigned_less [of n, where 'a = nat] by simp
  ultimately have "Suc (unat x) < 2 ^ 16" by linarith
  then show u: "unat (x + 1) = Suc (unat x)"
    by (simp add: unat_word_ariths)
  show "unat (if x + 1 \<ge> n then 0 else x + 1) = Suc (unat x) mod unat n"
    using ring_step [of "unat x" "unat n"] assms u
    by (cases "unat n \<le> Suc (unat x)") (simp_all add: word_less_nat_alt word_le_nat_alt)
qed

lemma mb_invD:
  assumes "mb_inv mb"
  shows "0 < unat (mb_size mb)" "length (mb_msg_pool mb) = unat (mb_size mb)"
    "unat (mb_entry mb) \<le> unat (mb_size mb)" "unat (mb_out_offset mb) < unat (mb_size mb)"
    "mb_in_offset mb < mb_size mb" "mb_out_offset mb < mb_size mb"
    "unat (mb_in_offset mb) = (unat (mb_out_offset mb) + unat (mb_entry mb)) mod unat (mb_size mb)"
    "unat (mb_in_offset mb) < unat (mb_size mb)"
proof -
  show "0 < unat (mb_size mb)" "length (mb_msg_pool mb) = unat (mb_size mb)"
    "unat (mb_entry mb) \<le> unat (mb_size mb)" "unat (mb_out_offset mb) < unat (mb_size mb)"
    "mb_out_offset mb < mb_size mb"
    and i: "unat (mb_in_offset mb) = (unat (mb_out_offset mb) + unat (mb_entry mb)) mod unat (mb_size mb)"
    using assms by (simp_all add: mb_inv_def word_less_nat_alt word_le_nat_alt)
  then show "unat (mb_in_offset mb) < unat (mb_size mb)" by simp
  then show "mb_in_offset mb < mb_size mb" by (simp add: word_less_nat_alt)
qed

lemma mb_push_spec:
  assumes inv: "mb_inv mb" and room: "mb_entry mb \<noteq> mb_size mb"
  shows "\<exists>mb'. mb_push v mb = Some mb' \<and> mb_inv mb' \<and> mb_contents mb' = mb_contents mb @ [v] \<and>
    mb_size mb' = mb_size mb"
proof -
  note d = mb_invD [OF inv]
  have lt: "mb_entry mb < mb_size mb" using room inv by (simp add: mb_inv_def order_less_le)
  note e = inc_wrap [OF lt] and i = inc_wrap [OF d(5)]
  define j where "j = (if mb_in_offset mb + 1 \<ge> mb_size mb then 0 else mb_in_offset mb + 1)"
  define mb' where "mb' = mb\<lparr>mb_msg_pool := (mb_msg_pool mb)[unat (mb_in_offset mb) := v],
    mb_in_offset := j, mb_entry := mb_entry mb + 1\<rparr>"
  have "mb_push v mb = Some mb'"
    using d(2,8) by (simp add: mb_push_def mb'_def j_def Let_def)
  moreover have "mb_inv mb'"
    using inv d e(2) i(1) lt
    by (simp add: mb_inv_def mb'_def j_def word_less_nat_alt word_le_nat_alt mod_Suc_eq)
  moreover have "mb_contents mb' = mb_contents mb @ [v]"
    using ring_put [of "unat (mb_entry mb)" "mb_msg_pool mb" "unat (mb_out_offset mb)" v] d e(2) lt
    by (simp add: mb_contents_def mb'_def word_less_nat_alt)
  ultimately show ?thesis by (auto simp: mb'_def)
qed

lemma mb_pop_spec:
  assumes inv: "mb_inv mb" and some: "mb_contents mb = v # vs"
  shows "\<exists>mb'. mb_pop mb = Some (v, mb') \<and> mb_inv mb' \<and> mb_contents mb' = vs \<and> mb_size mb' = mb_size mb"
proof -
  note d = mb_invD [OF inv]
  have pos: "0 < unat (mb_entry mb)" using some by (auto simp: mb_contents_def intro: gr0I)
  then have e: "unat (mb_entry mb - 1) = unat (mb_entry mb) - 1"
    by (simp add: unat_sub word_le_nat_alt Suc_leI)
  note o = inc_wrap [OF d(6)]
  define j where "j = (if mb_out_offset mb + 1 \<ge> mb_size mb then 0 else mb_out_offset mb + 1)"
  define mb' where "mb' = mb\<lparr>mb_out_offset := j, mb_entry := mb_entry mb - 1\<rparr>"
  have vs: "mb_contents mb = mb_msg_pool mb ! unat (mb_out_offset mb) #
      ring (mb_msg_pool mb) (Suc (unat (mb_out_offset mb)) mod unat (mb_size mb)) (unat (mb_entry mb) - 1)"
    using ring_get [OF pos, of "unat (mb_out_offset mb)" "mb_msg_pool mb"] d(2,4)
    by (simp add: mb_contents_def)
  have v: "v = mb_msg_pool mb ! unat (mb_out_offset mb)" using vs some by simp
  have "mb_pop mb = Some (v, mb')"
    using d(2,4) by (simp add: mb_pop_def mb'_def j_def Let_def v)
  moreover have "(Suc (unat (mb_out_offset mb)) mod unat (mb_size mb) + (unat (mb_entry mb) - 1)) mod
      unat (mb_size mb) = (unat (mb_out_offset mb) + unat (mb_entry mb)) mod unat (mb_size mb)"
    using pos by (cases "unat (mb_entry mb)") (simp_all add: mod_simps)
  then have "mb_inv mb'"
    using inv d e o(1) by (simp add: mb_inv_def mb'_def j_def word_less_nat_alt word_le_nat_alt)
  moreover have "mb_contents mb' = vs"
    using vs some e o(1) by (simp add: mb_contents_def mb'_def j_def)
  ultimately show ?thesis by (auto simp: mb'_def)
qed

interpretation mailbox: bounded_fifo mb_inv mb_contents "\<lambda>mb. unat (mb_size mb)" "\<lambda>_ _. True" mb_put mb_get
proof
  fix s :: rt_mailbox assume inv: "mb_inv s"
  note d = mb_invD [OF inv]
  show "length (mb_contents s) \<le> unat (mb_size s)" using d(3) by (simp add: mb_contents_def)
  have full: "length (mb_contents s) = unat (mb_size s) \<longleftrightarrow> mb_entry s = mb_size s"
    by (simp add: mb_contents_def word_unat_eq_iff)
  show "\<exists>s'. mb_put x s = Some s' \<and> mb_inv s' \<and> mb_contents s' = mb_contents s @ [x] \<and>
      unat (mb_size s') = unat (mb_size s) \<and> (\<lambda>_. True) = (\<lambda>_. True)"
    if "length (mb_contents s) < unat (mb_size s)" for x
    using mb_push_spec [OF inv, of x] that full by (auto simp: mb_put_def)
  show "mb_put x s = None" if "length (mb_contents s) = unat (mb_size s)" for x
    using that full by (simp add: mb_put_def)
  show "\<exists>s'. mb_get s = Some (x, s') \<and> mb_inv s' \<and> mb_contents s' = xs \<and>
      unat (mb_size s') = unat (mb_size s) \<and> (\<lambda>_. True) = (\<lambda>_. True)"
    if "mb_contents s = x # xs" for x xs
    using mb_pop_spec [OF inv that] that by (auto simp: mb_get_def mb_contents_def)
  show "mb_get s = None" if "mb_contents s = []"
  proof -
    have "unat (mb_entry s) = 0" using that by (metis length_ring list.size(3) mb_contents_def)
    then show ?thesis by (simp add: mb_get_def unat_eq_0)
  qed
qed

subsection \<open>Operations\<close>

definition mb_init_fields :: "ptr \<Rightarrow> u32 list \<Rightarrow> u32 \<Rightarrow> kstate \<Rightarrow> kstate" where
  "mb_init_fields mb msgpool sz s =
     tlists_update (\<lambda>l. l(Suspend_sender mb := []))
       (upd_mailbox mb (\<lambda>_. \<lparr>mb_msg_pool = msgpool, mb_size = ucast sz, mb_entry = 0,
         mb_in_offset = 0, mb_out_offset = 0\<rparr>) (rt_ipc_object_init mb s))"

text \<open>\<open>msgpool\<close> is the content of the array that the application passes.\<close>

definition rt_mb_init ::
  "ptr \<Rightarrow> string \<Rightarrow> u32 list \<Rightarrow> u32 \<Rightarrow> u8 \<Rightarrow> kstate \<Rightarrow> (rt_err_t \<times> kstate) option" where
  "rt_mb_init mb name msgpool sz flag s = do {
     RT_ASSERT (mb \<noteq> RT_NULL);
     s1 \<leftarrow> rt_object_init mb RT_Object_Class_MailBox name s;
     Some (RT_EOK, mb_init_fields mb msgpool sz (upd_obj mb (obj_flag_update (\<lambda>_. flag)) s1))
   }"

definition mb_resume_both :: "ptr \<Rightarrow> kstate \<Rightarrow> kstate option" where
  "mb_resume_both mb s = do {
     s1 \<leftarrow> rt_ipc_list_resume_all (Suspend_thread mb) s;
     rt_ipc_list_resume_all (Suspend_sender mb) s1
   }"

definition rt_mb_detach :: "ptr \<Rightarrow> kstate \<Rightarrow> (rt_err_t \<times> kstate) option" where
  "rt_mb_detach mb s = do {
     RT_ASSERT (mb \<noteq> RT_NULL);
     assert_type mb RT_Object_Class_MailBox s;
     assert_static mb True s;
     s1 \<leftarrow> mb_resume_both mb s;
     s2 \<leftarrow> rt_object_detach mb s1;
     Some (RT_EOK, s2)
   }"

text \<open>\<open>pool\<close> is the content of the block that the second \<open>RT_KERNEL_MALLOC\<close> returned, if any.\<close>

definition rt_mb_create ::
  "ptr \<Rightarrow> u32 list option \<Rightarrow> string \<Rightarrow> u32 \<Rightarrow> u8 \<Rightarrow> kstate \<Rightarrow> (ptr \<times> kstate) option" where
  "rt_mb_create mem pool name sz flag s = do {
     not_in_interrupt s;
     (mb, s1) \<leftarrow> rt_object_allocate mem RT_Object_Class_MailBox name s;
     if mb = RT_NULL then Some (mb, s1)
     else
       let s2 = upd_obj mb (obj_flag_update (\<lambda>_. flag)) s1
       in case pool of
            None \<Rightarrow> do {
              s3 \<leftarrow> rt_object_delete mb (upd_mailbox mb (mb_size_update (\<lambda>_. ucast sz))
                (rt_ipc_object_init mb s2));
              Some (RT_NULL, s3)
            }
          | Some msgpool \<Rightarrow> Some (mb, mb_init_fields mb msgpool sz s2)
   }"

definition rt_mb_delete :: "ptr \<Rightarrow> kstate \<Rightarrow> (rt_err_t \<times> kstate) option" where
  "rt_mb_delete mb s = do {
     not_in_interrupt s;
     RT_ASSERT (mb \<noteq> RT_NULL);
     assert_type mb RT_Object_Class_MailBox s;
     assert_static mb False s;
     s1 \<leftarrow> mb_resume_both mb s;
     s2 \<leftarrow> rt_object_delete mb s1;
     Some (RT_EOK, s2)
   }"

text \<open>
  Both transfer functions loop until there is room (or a message).  \<open>mb_send_from\<close> and
  \<open>mb_recv_from\<close> are the code from the head of the loop on; a thread that comes back from waiting
  computes the time that is left and goes there again.
\<close>

definition mb_send_from :: "ptr \<Rightarrow> u32 \<Rightarrow> u32 \<Rightarrow> ptr \<Rightarrow> kstate \<Rightarrow> (rt_err_t outcome \<times> kstate) option" where
  "mb_send_from mb value timeout thread s =
     (if mb_entry (mailboxes s mb) = mb_size (mailboxes s mb) then
        let s1 = set_error thread RT_EOK s
        in if timeout = 0 then Some (Ret (- RT_EFULL), s1)
           else do {
             in_thread_context s1;
             s2 \<leftarrow> ipc_wait_on (Suspend_sender mb) thread (obj_flag (objs s1 mb)) timeout s1;
             s3 \<leftarrow> rt_schedule s2;
             Some (Wait, s3)
           }
      else do {
        m \<leftarrow> mb_push value (mailboxes s mb);
        let s1 = upd_mailbox mb (\<lambda>_. m) s;
        if tlists s1 (Suspend_thread mb) \<noteq> [] then do {
          s2 \<leftarrow> rt_ipc_list_resume (Suspend_thread mb) s1;
          s3 \<leftarrow> rt_schedule s2;
          Some (Ret RT_EOK, s3)
        }
        else Some (Ret RT_EOK, s1)
      })"

definition rt_mb_send_wait :: "ptr \<Rightarrow> u32 \<Rightarrow> u32 \<Rightarrow> kstate \<Rightarrow> (rt_err_t outcome \<times> kstate) option" where
  "rt_mb_send_wait mb value timeout s = do {
     RT_ASSERT (mb \<noteq> RT_NULL);
     assert_type mb RT_Object_Class_MailBox s;
     let thread = rt_thread_self s;
     if mb_entry (mailboxes s mb) = mb_size (mailboxes s mb) \<and> timeout = 0
     then Some (Ret (- RT_EFULL), s)
     else mb_send_from mb value timeout thread s
   }"

definition mb_send_wakeup ::
  "ptr \<Rightarrow> u32 \<Rightarrow> u32 \<Rightarrow> u32 \<Rightarrow> ptr \<Rightarrow> kstate \<Rightarrow> (rt_err_t outcome \<times> kstate) option" where
  "mb_send_wakeup mb value timeout start thread s =
     (if th_error (threads s thread) \<noteq> RT_EOK then Some (Ret (th_error (threads s thread)), s)
      else mb_send_from mb value (time_left timeout start s) thread s)"

definition rt_mb_send :: "ptr \<Rightarrow> u32 \<Rightarrow> kstate \<Rightarrow> (rt_err_t outcome \<times> kstate) option" where
  "rt_mb_send mb value s = rt_mb_send_wait mb value 0 s"

text \<open>A receive returns the error code and the word stored through \<open>value\<close>, if any.\<close>

definition mb_recv_from ::
  "ptr \<Rightarrow> u32 \<Rightarrow> ptr \<Rightarrow> kstate \<Rightarrow> ((rt_err_t \<times> u32 option) outcome \<times> kstate) option" where
  "mb_recv_from mb timeout thread s =
     (if mb_entry (mailboxes s mb) = 0 then
        let s1 = set_error thread RT_EOK s
        in if timeout = 0 then Some (Ret (- RT_ETIMEOUT, None), set_error thread (- RT_ETIMEOUT) s1)
           else do {
             in_thread_context s1;
             s2 \<leftarrow> ipc_wait_on (Suspend_thread mb) thread (obj_flag (objs s1 mb)) timeout s1;
             s3 \<leftarrow> rt_schedule s2;
             Some (Wait, s3)
           }
      else do {
        (value, m) \<leftarrow> mb_pop (mailboxes s mb);
        let s1 = upd_mailbox mb (\<lambda>_. m) s;
        if tlists s1 (Suspend_sender mb) \<noteq> [] then do {
          s2 \<leftarrow> rt_ipc_list_resume (Suspend_sender mb) s1;
          s3 \<leftarrow> rt_schedule s2;
          Some (Ret (RT_EOK, Some value), s3)
        }
        else Some (Ret (RT_EOK, Some value), s1)
      })"

definition rt_mb_recv :: "ptr \<Rightarrow> u32 \<Rightarrow> kstate \<Rightarrow> ((rt_err_t \<times> u32 option) outcome \<times> kstate) option" where
  "rt_mb_recv mb timeout s = do {
     RT_ASSERT (mb \<noteq> RT_NULL);
     assert_type mb RT_Object_Class_MailBox s;
     let thread = rt_thread_self s;
     if mb_entry (mailboxes s mb) = 0 \<and> timeout = 0 then Some (Ret (- RT_ETIMEOUT, None), s)
     else mb_recv_from mb timeout thread s
   }"

definition mb_recv_wakeup ::
  "ptr \<Rightarrow> u32 \<Rightarrow> u32 \<Rightarrow> ptr \<Rightarrow> kstate \<Rightarrow> ((rt_err_t \<times> u32 option) outcome \<times> kstate) option" where
  "mb_recv_wakeup mb timeout start thread s =
     (if th_error (threads s thread) \<noteq> RT_EOK then Some (Ret (th_error (threads s thread), None), s)
      else mb_recv_from mb (time_left timeout start s) thread s)"

definition rt_mb_control :: "ptr \<Rightarrow> ipc_cmd \<Rightarrow> kstate \<Rightarrow> (rt_err_t \<times> kstate) option" where
  "rt_mb_control mb cmd s = do {
     RT_ASSERT (mb \<noteq> RT_NULL);
     assert_type mb RT_Object_Class_MailBox s;
     case cmd of
       Reset v \<Rightarrow> do {
         s1 \<leftarrow> mb_resume_both mb s;
         s2 \<leftarrow> rt_schedule (upd_mailbox mb
           (\<lambda>m. m\<lparr>mb_entry := 0, mb_in_offset := 0, mb_out_offset := 0\<rparr>) s1);
         Some (RT_EOK, s2)
       }
     | Other_ipc_cmd \<Rightarrow> Some (- RT_ERROR, s)
   }"

subsection \<open>Transfers\<close>

definition mbox_ok :: "kstate \<Rightarrow> ptr \<Rightarrow> bool" where
  "mbox_ok s mb \<longleftrightarrow> ipc_ok s mb RT_Object_Class_MailBox \<and> mb_inv (mailboxes s mb)"

abbreviation mails :: "kstate \<Rightarrow> ptr \<Rightarrow> u32 list" where
  "mails s mb \<equiv> mb_contents (mailboxes s mb)"

lemma mbox_okD:
  assumes "mbox_ok s mb"
  shows "kernel_ok s" "has_type s mb RT_Object_Class_MailBox" "mb_inv (mailboxes s mb)" "mb \<noteq> RT_NULL"
    "obj_flag (objs s mb) = RT_IPC_FLAG_FIFO \<or> obj_flag (objs s mb) = RT_IPC_FLAG_PRIO"
    "current_thread s \<noteq> RT_NULL"
  using assms ipc_okD [of s mb] kernel_ok_current [of s] by (auto simp: mbox_ok_def)

lemma mails_full: "length (mails s mb) = unat (mb_size (mailboxes s mb)) \<longleftrightarrow>
    mb_entry (mailboxes s mb) = mb_size (mailboxes s mb)"
  by (simp add: mb_contents_def word_unat_eq_iff)

lemma mails_empty: "mails s mb = [] \<longleftrightarrow> mb_entry (mailboxes s mb) = 0"
  by (metis length_0_conv length_ring mb_contents_def unat_eq_0)

text \<open>Waking the first thread of a waiting list and rescheduling, if there is one.\<close>

lemma wake_first:
  assumes ok: "kernel_ok s" and h: "wait_head h"
  shows "\<exists>s'. (if tlists s h \<noteq> [] then do {
      s2 \<leftarrow> rt_ipc_list_resume h s;
      s3 \<leftarrow> rt_schedule s2;
      Some (r, s3)
    } else Some (r, s)) = Some (r, s') \<and> kernel_ok s' \<and> kernel_frame s s' \<and>
    tlists s' h = tl (tlists s h) \<and> (\<forall>h'. wait_head h' \<longrightarrow> h' \<noteq> h \<longrightarrow> tlists s' h' = tlists s h')"
proof (cases "tlists s h")
  case Nil
  then show ?thesis using ok by simp
next
  case (Cons t ts)
  obtain s1 where s1: "rt_ipc_list_resume h s = Some s1" "kernel_ok s1" "kernel_frame s s1"
    "tlists s1 = ready_lists t s" "tlists s1 h = ts"
    using list_resume_first [OF ok Cons h] by auto
  obtain s' where s': "rt_schedule s1 = Some s'" "kernel_ok s'" "kernel_frame s1 s'"
    "\<forall>h. wait_head h \<longrightarrow> tlists s' h = tlists s1 h"
    using schedule_kernel_ok [OF s1(2)] by blast
  have "t \<notin> set (tlists s h')" if "h' \<noteq> h" for h'
    using tlists_okD(2) [OF kernel_okD(8) [OF ok], of t h h'] Cons that by auto
  then show ?thesis
    using Cons s1 s' kernel_frame_trans [OF s1(3) s'(3)] h by (simp add: wait_lists_ready_lists)
qed

lemma mb_send_now:
  assumes ok: "mbox_ok s mb" and room: "length (mails s mb) < unat (mb_size (mailboxes s mb))"
  shows "\<exists>s'. rt_mb_send_wait mb v time s = Some (Ret RT_EOK, s') \<and> kernel_ok s' \<and>
    mb_inv (mailboxes s' mb) \<and> mails s' mb = mails s mb @ [v] \<and>
    tlists s' (Suspend_thread mb) = tl (tlists s (Suspend_thread mb)) \<and>
    tlists s' (Suspend_sender mb) = tlists s (Suspend_sender mb)"
proof -
  note d = mbox_okD [OF ok]
  have ne: "mb_entry (mailboxes s mb) \<noteq> mb_size (mailboxes s mb)" using room mails_full [of s mb] by auto
  obtain m where m: "mb_push v (mailboxes s mb) = Some m" "mb_inv m" "mb_contents m = mails s mb @ [v]"
    using mb_push_spec [OF d(3) ne] by blast
  let ?s = "upd_mailbox mb (\<lambda>_. m) s"
  have k: "kernel_ok ?s" using d(1) by simp
  obtain s' where s': "(if tlists ?s (Suspend_thread mb) \<noteq> [] then do {
      s2 \<leftarrow> rt_ipc_list_resume (Suspend_thread mb) ?s; s3 \<leftarrow> rt_schedule s2; Some (Ret RT_EOK, s3)
    } else Some (Ret RT_EOK, ?s)) = Some (Ret RT_EOK, s')" "kernel_ok s'" "kernel_frame ?s s'"
    "tlists s' (Suspend_thread mb) = tl (tlists ?s (Suspend_thread mb))"
    "\<forall>h'. wait_head h' \<longrightarrow> h' \<noteq> Suspend_thread mb \<longrightarrow> tlists s' h' = tlists ?s h'"
    using wake_first [OF k wait_head_simps(3), of mb "Ret RT_EOK :: rt_err_t outcome"] by blast
  have "rt_mb_send_wait mb v time s = Some (Ret RT_EOK, s')"
    using d ne m(1) s'(1) by (simp add: rt_mb_send_wait_def mb_send_from_def)
  then show ?thesis
    using s' m kernel_frame_fields(4) [OF s'(3)] by simp
qed

lemma mb_send_full:
  assumes ok: "mbox_ok s mb" and full: "length (mails s mb) = unat (mb_size (mailboxes s mb))"
  shows "rt_mb_send_wait mb v 0 s = Some (Ret (- RT_EFULL), s)"
  using mbox_okD [OF ok] full by (simp add: rt_mb_send_wait_def mails_full)

lemma mb_send_blocks:
  assumes ok: "mbox_ok s mb" and ctx: "thread_context s"
    and full: "length (mails s mb) = unat (mb_size (mailboxes s mb))"
    and time: "time \<noteq> 0" "timeout_ok time"
  shows "\<exists>s'. rt_mb_send_wait mb v time s = Some (Wait, s') \<and> kernel_ok s' \<and>
    mailboxes s' = mailboxes s \<and>
    tlists s' (Suspend_sender mb) = wait_place (prio_of s) (obj_flag (objs s mb)) (current_thread s)
      (tlists s (Suspend_sender mb))"
proof -
  note d = mbox_okD [OF ok]
  let ?e = "set_error (current_thread s) RT_EOK s"
  have k: "kernel_ok ?e" using d(1) by simp
  have r: "stat_of ?e (current_thread ?e) = RT_THREAD_RUNNING" using ctx by (simp add: thread_context_def)
  have pr: "prio_of ?e = prio_of s" by auto
  obtain s1 s' where s': "ipc_wait_on (Suspend_sender mb) (current_thread s) (obj_flag (objs s mb)) time ?e = Some s1"
    "rt_schedule s1 = Some s'" "kernel_ok s'" "kernel_frame ?e s'"
    "tlists s' (Suspend_sender mb) = wait_place (prio_of s) (obj_flag (objs s mb)) (current_thread s)
      (tlists s (Suspend_sender mb))"
    using block_current [OF k r wait_head_simps(4) d(5) time(2), of mb] unfolding pr by auto
  have "rt_mb_send_wait mb v time s = Some (Wait, s')"
    using d ctx full time s'(1,2)
    by (simp add: rt_mb_send_wait_def mb_send_from_def mails_full rt_thread_self_def thread_context_def Let_def)
  then show ?thesis using s' kernel_frame_fields(4) [OF s'(4)] by simp
qed

lemma mb_recv_now:
  assumes ok: "mbox_ok s mb" and some: "mails s mb = v # vs"
  shows "\<exists>s'. rt_mb_recv mb time s = Some (Ret (RT_EOK, Some v), s') \<and> kernel_ok s' \<and>
    mb_inv (mailboxes s' mb) \<and> mails s' mb = vs \<and>
    tlists s' (Suspend_sender mb) = tl (tlists s (Suspend_sender mb)) \<and>
    tlists s' (Suspend_thread mb) = tlists s (Suspend_thread mb)"
proof -
  note d = mbox_okD [OF ok]
  have ne: "mb_entry (mailboxes s mb) \<noteq> 0" using some mails_empty [of s mb] by auto
  obtain m where m: "mb_pop (mailboxes s mb) = Some (v, m)" "mb_inv m" "mb_contents m = vs"
    using mb_pop_spec [OF d(3) some] by blast
  let ?s = "upd_mailbox mb (\<lambda>_. m) s"
  have k: "kernel_ok ?s" using d(1) by simp
  obtain s' where s': "(if tlists ?s (Suspend_sender mb) \<noteq> [] then do {
      s2 \<leftarrow> rt_ipc_list_resume (Suspend_sender mb) ?s; s3 \<leftarrow> rt_schedule s2; Some (Ret (RT_EOK, Some v), s3)
    } else Some (Ret (RT_EOK, Some v), ?s)) = Some (Ret (RT_EOK, Some v), s')" "kernel_ok s'"
    "kernel_frame ?s s'" "tlists s' (Suspend_sender mb) = tl (tlists ?s (Suspend_sender mb))"
    "\<forall>h'. wait_head h' \<longrightarrow> h' \<noteq> Suspend_sender mb \<longrightarrow> tlists s' h' = tlists ?s h'"
    using wake_first [OF k wait_head_simps(4), of mb "Ret (RT_EOK, Some v) :: (rt_err_t \<times> u32 option) outcome"]
    by blast
  have "rt_mb_recv mb time s = Some (Ret (RT_EOK, Some v), s')"
    using d ne m(1) s'(1) by (simp add: rt_mb_recv_def mb_recv_from_def)
  then show ?thesis
    using s' m kernel_frame_fields(4) [OF s'(3)] by simp
qed

lemma mb_recv_empty:
  assumes ok: "mbox_ok s mb" and empty: "mails s mb = []"
  shows "rt_mb_recv mb 0 s = Some (Ret (- RT_ETIMEOUT, None), s)"
  using mbox_okD [OF ok] empty by (simp add: rt_mb_recv_def mails_empty)

text \<open>A send into an empty mailbox is what the next receive returns.\<close>

lemma mb_send_recv:
  assumes ok: "mbox_ok s mb" and empty: "mails s mb = []" and flag: "\<forall>t. mb \<noteq> Thread_timer t"
  shows "\<exists>s1 s2. rt_mb_send mb v s = Some (Ret RT_EOK, s1) \<and>
    rt_mb_recv mb 0 s1 = Some (Ret (RT_EOK, Some v), s2) \<and> mails s2 mb = []"
proof -
  have room: "length (mails s mb) < unat (mb_size (mailboxes s mb))"
    using mb_invD(1) [OF mbox_okD(3) [OF ok]] empty by simp
  have ne: "mb_entry (mailboxes s mb) \<noteq> mb_size (mailboxes s mb)" using room mails_full [of s mb] by auto
  obtain m where m: "mb_push v (mailboxes s mb) = Some m" "mb_inv m" "mb_contents m = [v]"
    using mb_push_spec [OF mbox_okD(3) [OF ok] ne] empty by auto
  let ?s = "upd_mailbox mb (\<lambda>_. m) s"
  have k: "kernel_ok ?s" using mbox_okD(1) [OF ok] by simp
  obtain s1 where s1: "(if tlists ?s (Suspend_thread mb) \<noteq> [] then do {
      s2 \<leftarrow> rt_ipc_list_resume (Suspend_thread mb) ?s; s3 \<leftarrow> rt_schedule s2; Some (Ret RT_EOK, s3)
    } else Some (Ret RT_EOK, ?s)) = Some (Ret RT_EOK, s1)" "kernel_ok s1" "kernel_frame ?s s1"
    using wake_first [OF k wait_head_simps(3), of mb "Ret RT_EOK :: rt_err_t outcome"] by blast
  have e: "rt_mb_send mb v s = Some (Ret RT_EOK, s1)"
    using mbox_okD [OF ok] ne m(1) s1(1) by (simp add: rt_mb_send_def rt_mb_send_wait_def mb_send_from_def)
  note f = kernel_frame_fields [OF s1(3)]
  have "mbox_ok s1 mb" "mails s1 mb = [v]"
    using mbox_okD [OF ok] s1(2) f(4) m kernel_frame_has_type [OF s1(3), of mb] f(13) [of mb] flag
    by (simp_all add: mbox_ok_def ipc_ok_def has_type_def)
  then show ?thesis using e mb_recv_now [of s1 mb v "[]" 0] by auto
qed

text \<open>First in, first out, for any sequence of sends and receives.\<close>

text \<open>C10. For any sequence of sends and receives a mailbox delivers the accepted words in first-in
  first-out order and keeps the rest.\<close>

lemma mailbox_run_order:
  assumes "mb_inv mb" "fifo_run mb_put mb_get ops mb = (accepted, delivered, mb')"
  shows "mb_inv mb' \<and> delivered @ mb_contents mb' = mb_contents mb @ accepted"
proof -
  have "puts_valid (\<lambda>_. True) ops"
  proof (induction ops)
    case (Cons op ops)
    then show ?case by (cases op) auto
  qed simp
  then show ?thesis using mailbox.run_order [OF assms(1) _ assms(2)] by blast
qed

end
