(* ===== verification/RT_Mq.thy ===== *)
theory RT_Mq
  imports RT_Mailbox
begin

text \<open>
  The message queue, \<^verbatim>\<open>rt-thread/src/ipc.c\<close> lines 1780 to 2325.  The pool is cut into slots, which
  are linked on a free list or on the queue.  A send takes a slot, copies the message with
  interrupts on, and only then links the slot; a receive unlinks a slot, copies, and frees it.
  These stages are definitions of their own, so other threads may act between them.
\<close>

subsection \<open>Slots\<close>

text \<open>The slots of the pool, and how they are linked at the start.\<close>

primrec mq_pool_init :: "nat \<Rightarrow> rt_messagequeue \<Rightarrow> rt_messagequeue" where
  "mq_pool_init 0 q = q"
| "mq_pool_init (Suc temp) q =
     (let q1 = mq_pool_init temp q
      in q1\<lparr>mq_next := (mq_next q1)(temp := mq_free q1), mq_free := Some temp\<rparr>)"

definition mq_setup :: "u32 \<Rightarrow> u32 \<Rightarrow> (nat \<Rightarrow> u8 list) \<Rightarrow> rt_messagequeue \<Rightarrow> rt_messagequeue" where
  "mq_setup msg_size max_msgs slots q =
     (let q1 = q\<lparr>mq_msg_size := ucast (RT_ALIGN4 msg_size), mq_max_msgs := ucast max_msgs,
            mq_data := slots, mq_head := None, mq_tail := None, mq_free := None\<rparr>;
          q2 = mq_pool_init (unat (mq_max_msgs q1)) q1
      in q2\<lparr>mq_entry := 0\<rparr>)"

definition mq_take_free :: "rt_messagequeue \<Rightarrow> (nat \<times> rt_messagequeue) option" where
  "mq_take_free q =
     (case mq_free q of
        None \<Rightarrow> None
      | Some msg \<Rightarrow> Some (msg, q\<lparr>mq_free := mq_next q msg\<rparr>))"

definition mq_fill :: "nat \<Rightarrow> u8 list \<Rightarrow> rt_messagequeue \<Rightarrow> rt_messagequeue" where
  "mq_fill msg buffer q =
     q\<lparr>mq_data := (mq_data q)(msg := buffer @ drop (length buffer) (mq_data q msg))\<rparr>"

text \<open>Lines 2000 and 2007 to 2020: behind the last message.\<close>

definition mq_link_tail :: "nat \<Rightarrow> rt_messagequeue \<Rightarrow> rt_messagequeue" where
  "mq_link_tail msg q =
     (let q1 = (case mq_tail q of
            Some t \<Rightarrow> q\<lparr>mq_next := (mq_next q)(t := Some msg)\<rparr>
          | None \<Rightarrow> q);
          q2 = q1\<lparr>mq_tail := Some msg\<rparr>;
          q3 = (if mq_head q2 = None then q2\<lparr>mq_head := Some msg\<rparr> else q2)
      in q3\<lparr>mq_entry := mq_entry q3 + 1\<rparr>)"

definition mq_clear_next :: "nat \<Rightarrow> rt_messagequeue \<Rightarrow> rt_messagequeue" where
  "mq_clear_next msg q = q\<lparr>mq_next := (mq_next q)(msg := None)\<rparr>"

text \<open>Lines 2096 to 2104: in front of the first message.\<close>

definition mq_link_head :: "nat \<Rightarrow> rt_messagequeue \<Rightarrow> rt_messagequeue" where
  "mq_link_head msg q =
     (let q1 = q\<lparr>mq_next := (mq_next q)(msg := mq_head q)\<rparr>;
          q2 = q1\<lparr>mq_head := Some msg\<rparr>;
          q3 = (if mq_tail q2 = None then q2\<lparr>mq_tail := Some msg\<rparr> else q2)
      in q3\<lparr>mq_entry := mq_entry q3 + 1\<rparr>)"

definition mq_unlink :: "rt_messagequeue \<Rightarrow> (nat \<times> rt_messagequeue) option" where
  "mq_unlink q = do {
     msg \<leftarrow> mq_head q;
     let q1 = q\<lparr>mq_head := mq_next q msg\<rparr>;
     let q2 = (if mq_tail q1 = Some msg then q1\<lparr>mq_tail := None\<rparr> else q1);
     Some (msg, q2\<lparr>mq_entry := mq_entry q2 - 1\<rparr>)
   }"

definition mq_give_free :: "nat \<Rightarrow> rt_messagequeue \<Rightarrow> rt_messagequeue" where
  "mq_give_free msg q = q\<lparr>mq_next := (mq_next q)(msg := mq_free q), mq_free := Some msg\<rparr>"

text \<open>The loop of a reset; it ends when the queue is empty, and need not end on a broken queue.\<close>

partial_function (option) mq_drain :: "rt_messagequeue \<Rightarrow> rt_messagequeue option" where
  "mq_drain q =
     (case mq_head q of
        None \<Rightarrow> Some q
      | Some msg \<Rightarrow>
          let q1 = q\<lparr>mq_head := mq_next q msg\<rparr>;
              q2 = (if mq_tail q1 = Some msg then q1\<lparr>mq_tail := None\<rparr> else q1)
          in mq_drain (mq_give_free msg q2))"

subsection \<open>The slot invariant\<close>

fun mq_chain :: "(nat \<Rightarrow> nat option) \<Rightarrow> nat option \<Rightarrow> nat list \<Rightarrow> bool" where
  "mq_chain nx p [] = (p = None)"
| "mq_chain nx p (m # ms) = (p = Some m \<and> mq_chain nx (nx m) ms)"

text \<open>
  \<open>fs\<close> are the free slots, \<open>ms\<close> the queued ones and \<open>hs\<close> those held by threads that are copying:
  every slot is in exactly one of the three places.
\<close>

definition mq_inv :: "rt_messagequeue \<Rightarrow> nat list \<Rightarrow> nat list \<Rightarrow> nat list \<Rightarrow> bool" where
  "mq_inv q fs ms hs \<longleftrightarrow>
     mq_chain (mq_next q) (mq_free q) fs \<and> mq_chain (mq_next q) (mq_head q) ms \<and>
     mq_tail q = (if ms = [] then None else Some (last ms)) \<and>
     distinct (fs @ ms @ hs) \<and> set (fs @ ms @ hs) = {0..<unat (mq_max_msgs q)} \<and>
     unat (mq_entry q) = length ms \<and>
     (\<forall>m < unat (mq_max_msgs q). length (mq_data q m) = unat (mq_msg_size q))"

lemma mq_chain_upd: "m \<notin> set ms \<Longrightarrow> mq_chain (nx(m := x)) p ms = mq_chain nx p ms"
  by (induction ms arbitrary: p) auto

lemma mq_chain_fun: "mq_chain nx p ms \<Longrightarrow> mq_chain nx p ms' \<Longrightarrow> ms = ms'"
proof (induction ms arbitrary: p ms')
  case (Cons m ms)
  then show ?case by (cases ms') auto
next
  case Nil
  then show ?case by (cases ms') auto
qed

lemma mq_chain_snoc:
  assumes "mq_chain nx p ms" "distinct ms" "m \<notin> set ms" "ms \<noteq> []"
  shows "mq_chain (nx(last ms := Some m, m := None)) p (ms @ [m])"
  using assms
proof (induction ms arbitrary: p)
  case (Cons a as)
  show ?case
  proof (cases as)
    case Nil
    then show ?thesis using Cons.prems by auto
  next
    case (Cons b bs)
    then have "last (a # as) \<noteq> a" using Cons.prems(2) by (metis last.simps last_in_set distinct.simps(2) list.discI)
    then show ?thesis using Cons Cons.IH [of "nx a"] Cons.prems by auto
  qed
qed simp

lemma mq_chain_tail:
  assumes "mq_chain nx p ms" "nx m = None" "distinct ms" "m \<notin> set ms" "ms \<noteq> []"
  shows "mq_chain (nx(last ms := Some m)) p (ms @ [m])"
proof -
  have "nx(last ms := Some m, m := None) = nx(last ms := Some m)"
    using assms(2-5) by (auto simp: fun_eq_iff)
  then show ?thesis using mq_chain_snoc [OF assms(1,3-5)] by simp
qed

lemma mq_invD:
  assumes "mq_inv q fs ms hs"
  shows "mq_chain (mq_next q) (mq_free q) fs" "mq_chain (mq_next q) (mq_head q) ms"
    "mq_tail q = (if ms = [] then None else Some (last ms))" "distinct (fs @ ms @ hs)"
    "set (fs @ ms @ hs) = {0..<unat (mq_max_msgs q)}" "unat (mq_entry q) = length ms"
    "m < unat (mq_max_msgs q) \<Longrightarrow> length (mq_data q m) = unat (mq_msg_size q)"
  using assms by (simp_all add: mq_inv_def)

lemma mq_inv_count:
  assumes "mq_inv q fs ms hs"
  shows "length fs + length ms + length hs = unat (mq_max_msgs q)"
  using mq_invD(4,5) [OF assms] distinct_card [of "fs @ ms @ hs"] by simp

lemma mq_take_free_inv:
  assumes inv: "mq_inv q (m # fs) ms hs"
  shows "mq_take_free q = Some (m, q\<lparr>mq_free := mq_next q m\<rparr>)"
    "mq_inv (q\<lparr>mq_free := mq_next q m\<rparr>) fs ms (m # hs)"
  using mq_invD [OF inv] by (auto simp: mq_take_free_def mq_inv_def)

lemma mq_take_free_none: "mq_inv q [] ms hs \<Longrightarrow> mq_take_free q = None"
  by (simp add: mq_inv_def mq_take_free_def)

lemma mq_fill_inv:
  assumes inv: "mq_inv q fs ms hs" and m: "m \<in> set hs" and len: "length b \<le> unat (mq_msg_size q)"
  shows "mq_inv (mq_fill m b q) fs ms hs"
proof -
  have "m < unat (mq_max_msgs q)" using mq_invD(5) [OF inv] m by auto
  then show ?thesis using inv len by (auto simp: mq_inv_def mq_fill_def)
qed

lemma mq_clear_next_inv:
  assumes inv: "mq_inv q fs ms hs" and m: "m \<in> set hs"
  shows "mq_inv (mq_clear_next m q) fs ms hs"
proof -
  have "m \<notin> set fs" "m \<notin> set ms" using mq_invD(4) [OF inv] m by auto
  then show ?thesis using inv by (simp add: mq_inv_def mq_clear_next_def mq_chain_upd)
qed

lemma mq_entry_room:
  assumes inv: "mq_inv q fs ms (m # hs)"
  shows "unat (mq_entry q + 1) = Suc (length ms)"
proof -
  have "length ms < unat (mq_max_msgs q)" using mq_inv_count [OF inv] by simp
  moreover have "unat (mq_max_msgs q) < 2 ^ 16" using unsigned_less [of "mq_max_msgs q", where 'a = nat] by simp
  ultimately have "Suc (length ms) < 2 ^ 16" by linarith
  then show ?thesis using mq_invD(6) [OF inv] by (simp add: unat_word_ariths)
qed

lemma mq_link_tail_inv:
  assumes inv: "mq_inv q fs ms (m # hs)" and nx: "mq_next q m = None"
  shows "mq_inv (mq_link_tail m q) fs (ms @ [m]) hs"
    "mq_data (mq_link_tail m q) = mq_data q" "mq_msg_size (mq_link_tail m q) = mq_msg_size q"
    "mq_max_msgs (mq_link_tail m q) = mq_max_msgs q"
proof -
  note d = mq_invD [OF inv] and e = mq_entry_room [OF inv]
  show "mq_inv (mq_link_tail m q) fs (ms @ [m]) hs"
  proof (cases "ms = []")
    case True
    then show ?thesis
      using d e nx by (auto simp: mq_inv_def mq_link_tail_def Let_def)
  next
    case False
    then have "last ms \<notin> set fs" using d(4) by auto
    moreover have "mq_head q \<noteq> None" using d(2) False by (cases ms) auto
    moreover have "mq_chain ((mq_next q)(last ms := Some m)) (mq_head q) (ms @ [m])"
      using mq_chain_tail [OF d(2) nx] d(4) False by auto
    ultimately show ?thesis
      using False d e by (auto simp: mq_inv_def mq_link_tail_def Let_def mq_chain_upd)
  qed
qed (auto simp: mq_link_tail_def Let_def split: option.splits)

lemma mq_link_head_inv:
  assumes inv: "mq_inv q fs ms (m # hs)"
  shows "mq_inv (mq_link_head m q) fs (m # ms) hs"
    "mq_data (mq_link_head m q) = mq_data q" "mq_msg_size (mq_link_head m q) = mq_msg_size q"
    "mq_max_msgs (mq_link_head m q) = mq_max_msgs q"
  using mq_invD [OF inv] mq_entry_room [OF inv]
  by (auto simp: mq_inv_def mq_link_head_def Let_def mq_chain_upd)

lemma mq_unlink_inv:
  assumes inv: "mq_inv q fs (m # ms) hs"
  shows "\<exists>q'. mq_unlink q = Some (m, q') \<and> mq_inv q' fs ms (m # hs) \<and> mq_data q' = mq_data q \<and>
    mq_msg_size q' = mq_msg_size q \<and> mq_max_msgs q' = mq_max_msgs q"
proof -
  note d = mq_invD [OF inv]
  have "1 \<le> mq_entry q" using d(6) by (simp add: word_le_nat_alt)
  then have "unat (mq_entry q - 1) = length ms" using d(6) by (simp add: unat_sub)
  moreover have "last ms \<noteq> m" if "ms \<noteq> []" using d(4) that by auto
  ultimately show ?thesis
    using d by (auto simp: mq_inv_def mq_unlink_def Let_def)
qed

lemma mq_give_free_inv:
  assumes inv: "mq_inv q fs ms (m # hs)"
  shows "mq_inv (mq_give_free m q) (m # fs) ms hs"
  using mq_invD [OF inv] by (auto simp: mq_inv_def mq_give_free_def mq_chain_upd)

subsection \<open>Interleaved senders and receivers\<close>

text \<open>
  Where a thread is between two stages of its call, and with which slot and message.  A send has
  taken a slot, cleared its link (only \<open>rt_mq_send\<close> does that), and copied the message; a receive has
  unlinked a slot, and copied out of it.  The message of a receive is what its sender gave.
\<close>

datatype mq_stage =
    Send_taken nat "u8 list"
  | Send_cleared nat "u8 list"
  | Send_copied nat "u8 list"
  | Urgent_taken nat "u8 list"
  | Urgent_copied nat "u8 list"
  | Recv_unlinked nat "u8 list"
  | Recv_copied nat "u8 list" nat "u8 list"

fun stage_slot :: "mq_stage \<Rightarrow> nat" where
  "stage_slot (Send_taken m b) = m"
| "stage_slot (Send_cleared m b) = m"
| "stage_slot (Send_copied m b) = m"
| "stage_slot (Urgent_taken m b) = m"
| "stage_slot (Urgent_copied m b) = m"
| "stage_slot (Recv_unlinked m b) = m"
| "stage_slot (Recv_copied m b sz got) = m"

text \<open>
  The stages of any number of threads in any order.  A state is the queue, the threads that are
  inside of a call, and the messages that were linked and not yet unlinked, which the code does not
  keep: they are there to compare.  Each rule has the conditions the code tests and no other: there
  is a free slot, the message fits, the entry count is not zero.
\<close>

type_synonym mq_system = "rt_messagequeue \<times> mq_stage list \<times> u8 list list"

inductive mq_step :: "mq_system \<Rightarrow> mq_system \<Rightarrow> bool" where
  send_take: "length b \<le> unat (mq_msg_size q) \<Longrightarrow> mq_take_free q = Some (m, q') \<Longrightarrow>
    mq_step (q, ps, xs) (q', Send_taken m b # ps, xs)"
| send_clear: "Send_taken m b \<in> set ps \<Longrightarrow>
    mq_step (q, ps, xs) (mq_clear_next m q, Send_cleared m b # remove1 (Send_taken m b) ps, xs)"
| send_copy: "Send_cleared m b \<in> set ps \<Longrightarrow>
    mq_step (q, ps, xs) (mq_fill m b q, Send_copied m b # remove1 (Send_cleared m b) ps, xs)"
| send_link: "Send_copied m b \<in> set ps \<Longrightarrow>
    mq_step (q, ps, xs) (mq_link_tail m q, remove1 (Send_copied m b) ps, xs @ [b])"
| urgent_take: "length b \<le> unat (mq_msg_size q) \<Longrightarrow> mq_take_free q = Some (m, q') \<Longrightarrow>
    mq_step (q, ps, xs) (q', Urgent_taken m b # ps, xs)"
| urgent_copy: "Urgent_taken m b \<in> set ps \<Longrightarrow>
    mq_step (q, ps, xs) (mq_fill m b q, Urgent_copied m b # remove1 (Urgent_taken m b) ps, xs)"
| urgent_link: "Urgent_copied m b \<in> set ps \<Longrightarrow>
    mq_step (q, ps, xs) (mq_link_head m q, remove1 (Urgent_copied m b) ps, b # xs)"
| recv_unlink: "mq_entry q \<noteq> 0 \<Longrightarrow> mq_unlink q = Some (m, q') \<Longrightarrow>
    mq_step (q, ps, xs) (q', Recv_unlinked m (hd xs) # ps, tl xs)"
| recv_copy: "Recv_unlinked m b \<in> set ps \<Longrightarrow>
    got = take (if sz > unat (mq_msg_size q) then unat (mq_msg_size q) else sz) (mq_data q m) \<Longrightarrow>
    mq_step (q, ps, xs) (q, Recv_copied m b sz got # remove1 (Recv_unlinked m b) ps, xs)"
| recv_free: "Recv_copied m b sz got \<in> set ps \<Longrightarrow>
    mq_step (q, ps, xs) (mq_give_free m q, remove1 (Recv_copied m b sz got) ps, xs)"

inductive mq_reach :: "mq_system \<Rightarrow> mq_system \<Rightarrow> bool" for c0 where
  mq_refl: "mq_reach c0 c0"
| mq_more: "mq_reach c0 c \<Longrightarrow> mq_step c c' \<Longrightarrow> mq_reach c0 c'"

text \<open>Slot \<open>m\<close> holds message \<open>b\<close>, and what is true of the slot of a thread at each stage.\<close>

definition mq_carries :: "rt_messagequeue \<Rightarrow> nat \<Rightarrow> u8 list \<Rightarrow> bool" where
  "mq_carries q m b \<longleftrightarrow> length b \<le> unat (mq_msg_size q) \<and> take (length b) (mq_data q m) = b"

fun stage_ok :: "rt_messagequeue \<Rightarrow> mq_stage \<Rightarrow> bool" where
  "stage_ok q (Send_taken m b) = (length b \<le> unat (mq_msg_size q))"
| "stage_ok q (Send_cleared m b) = (length b \<le> unat (mq_msg_size q) \<and> mq_next q m = None)"
| "stage_ok q (Send_copied m b) = (mq_carries q m b \<and> mq_next q m = None)"
| "stage_ok q (Urgent_taken m b) = (length b \<le> unat (mq_msg_size q))"
| "stage_ok q (Urgent_copied m b) = mq_carries q m b"
| "stage_ok q (Recv_unlinked m b) = mq_carries q m b"
| "stage_ok q (Recv_copied m b sz got) = (mq_carries q m b \<and> take (length b) got = take sz b)"

text \<open>The stages and messages of slots that a step leaves alone stay as they are.\<close>

lemma stage_ok_cong:
  assumes "mq_msg_size q' = mq_msg_size q" "mq_next q' (stage_slot p) = mq_next q (stage_slot p)"
    "mq_data q' (stage_slot p) = mq_data q (stage_slot p)"
  shows "stage_ok q' p = stage_ok q p"
  using assms by (cases p) (simp_all add: mq_carries_def)

lemma stages_ok_frame:
  assumes ok: "\<forall>p \<in> set ps. stage_ok q p" and "mq_msg_size q' = mq_msg_size q"
    and "\<And>m. m \<in> set (map stage_slot ps) \<Longrightarrow> mq_next q' m = mq_next q m \<and> mq_data q' m = mq_data q m"
  shows "\<forall>p \<in> set ps. stage_ok q' p"
  using assms stage_ok_cong [of q' q] by auto

lemma carries_frame:
  assumes "list_all2 (mq_carries q) ms xs" "mq_msg_size q' = mq_msg_size q"
    and "\<And>m. m \<in> set ms \<Longrightarrow> mq_data q' m = mq_data q m"
  shows "list_all2 (mq_carries q') ms xs"
proof -
  have "mq_carries q' m x = mq_carries q m x" if "m \<in> set ms" for m x
    using assms(2,3) that by (simp add: mq_carries_def)
  then show ?thesis using assms(1) list.rel_cong [of ms ms xs xs] by blast
qed

text \<open>
  The invariant of the system: the slots of the queue carry the messages in their order, and every
  thread has a slot of its own, in the state its stage asks for.
\<close>

definition mq_good :: "mq_system \<Rightarrow> nat list \<Rightarrow> nat list \<Rightarrow> bool" where
  "mq_good c fs ms \<longleftrightarrow> (case c of (q, ps, xs) \<Rightarrow> mq_inv q fs ms (map stage_slot ps) \<and>
     list_all2 (mq_carries q) ms xs \<and> (\<forall>p \<in> set ps. stage_ok q p))"

lemma mq_goodD:
  assumes "mq_good (q, ps, xs) fs ms"
  shows "mq_inv q fs ms (map stage_slot ps)" "list_all2 (mq_carries q) ms xs"
    "p \<in> set ps \<Longrightarrow> stage_ok q p"
  using assms by (auto simp: mq_good_def)

lemma set_map_remove1: "p \<in> set ps \<Longrightarrow> set (map f ps) = insert (f p) (set (map f (remove1 p ps)))"
  by (induction ps) auto

lemma distinct_map_remove1:
  "p \<in> set ps \<Longrightarrow> distinct (map f ps) \<longleftrightarrow>
     f p \<notin> set (map f (remove1 p ps)) \<and> distinct (map f (remove1 p ps))"
proof (induction ps)
  case (Cons a ps)
  then show ?case using set_map_remove1 [of p ps f] by (cases "a = p") auto
qed simp

lemma mq_inv_held:
  assumes "mq_inv q fs ms (map stage_slot ps)" "p \<in> set ps"
  shows "mq_inv q fs ms (stage_slot p # map stage_slot (remove1 p ps))"
    "stage_slot p \<notin> set (map stage_slot (remove1 p ps))" "stage_slot p \<notin> set fs" "stage_slot p \<notin> set ms"
    "stage_slot p < unat (mq_max_msgs q)"
proof -
  have d: "distinct (map stage_slot ps) = distinct (stage_slot p # map stage_slot (remove1 p ps))"
    "set (map stage_slot ps) = set (stage_slot p # map stage_slot (remove1 p ps))"
    using distinct_map_remove1 [OF assms(2)] set_map_remove1 [OF assms(2)] by simp_all
  show i: "mq_inv q fs ms (stage_slot p # map stage_slot (remove1 p ps))"
    using assms(1) d unfolding mq_inv_def distinct_append set_append by simp
  show "stage_slot p \<notin> set (map stage_slot (remove1 p ps))" "stage_slot p \<notin> set fs" "stage_slot p \<notin> set ms"
    "stage_slot p < unat (mq_max_msgs q)"
    using mq_invD(4,5) [OF i] by auto
qed

lemma mq_unlink_some: "mq_inv q fs ms hs \<Longrightarrow> mq_unlink q = Some (m, q') \<Longrightarrow> \<exists>ms'. ms = m # ms'"
  by (cases ms) (auto simp: mq_inv_def mq_unlink_def Let_def)

lemma mq_take_some: "mq_inv q fs ms hs \<Longrightarrow> mq_take_free q = Some (m, q') \<Longrightarrow> \<exists>fs'. fs = m # fs'"
  by (cases fs) (auto simp: mq_inv_def mq_take_free_def)

text \<open>One lemma for each kind of stage.\<close>

lemma mq_good_take:
  assumes good: "mq_good (q, ps, xs) fs ms" and len: "length b \<le> unat (mq_msg_size q)"
    and t: "mq_take_free q = Some (m, q')" and p: "p = Send_taken m b \<or> p = Urgent_taken m b"
  shows "\<exists>fs'. mq_good (q', p # ps, xs) fs' ms"
proof -
  have inv: "mq_inv q fs ms (map stage_slot ps)" using good by (simp add: mq_good_def)
  obtain fs' where fs: "fs = m # fs'" using mq_take_some [OF inv t] by blast
  have q': "q' = q\<lparr>mq_free := mq_next q m\<rparr>" using mq_take_free_inv(1) [OF inv [unfolded fs]] t by simp
  have "mq_inv q' fs' ms (m # map stage_slot ps)" using mq_take_free_inv(2) [OF inv [unfolded fs]] q' by simp
  moreover have "\<forall>p \<in> set ps. stage_ok q' p"
    by (rule stages_ok_frame [of ps q]) (use good q' in \<open>auto simp: mq_good_def\<close>)
  moreover have "list_all2 (mq_carries q') ms xs"
    by (rule carries_frame [of q]) (use good q' in \<open>auto simp: mq_good_def\<close>)
  ultimately show ?thesis using p len q' by (auto simp: mq_good_def)
qed

text \<open>A thread changes its own slot only, and goes to its next stage.\<close>

lemma mq_good_own:
  assumes good: "mq_good (q, ps, xs) fs ms" and p: "p \<in> set ps" and same: "stage_slot p' = stage_slot p"
    and inv: "mq_inv q' fs ms (map stage_slot ps)" and size: "mq_msg_size q' = mq_msg_size q"
    and frame: "\<And>m. m \<noteq> stage_slot p \<Longrightarrow> mq_next q' m = mq_next q m \<and> mq_data q' m = mq_data q m"
    and ok: "stage_ok q' p'"
  shows "mq_good (q', p' # remove1 p ps, xs) fs ms"
proof -
  note h = mq_inv_held [OF inv p]
  have "\<forall>p \<in> set (remove1 p ps). stage_ok q' p"
  proof (rule stages_ok_frame [of _ q])
    show "\<forall>p \<in> set (remove1 p ps). stage_ok q p"
      using good by (auto simp: mq_good_def dest: notin_set_remove1)
    show "mq_next q' m = mq_next q m \<and> mq_data q' m = mq_data q m"
      if "m \<in> set (map stage_slot (remove1 p ps))" for m
      using frame h(2) that by metis
  qed (rule size)
  moreover have "list_all2 (mq_carries q') ms xs"
  proof (rule carries_frame [OF mq_goodD(2) [OF good] size])
    show "mq_data q' m = mq_data q m" if "m \<in> set ms" for m
      using frame h(4) that by metis
  qed
  ultimately show ?thesis using h(1) ok same by (simp add: mq_good_def)
qed

lemma mq_good_clear:
  assumes good: "mq_good (q, ps, xs) fs ms" and p: "Send_taken m b \<in> set ps"
  shows "mq_good (mq_clear_next m q, Send_cleared m b # remove1 (Send_taken m b) ps, xs) fs ms"
proof (rule mq_good_own [OF good p])
  have inv: "mq_inv q fs ms (map stage_slot ps)" using good by (simp add: mq_good_def)
  show "mq_inv (mq_clear_next m q) fs ms (map stage_slot ps)"
    by (rule mq_clear_next_inv [OF inv]) (use p in force)
  show "stage_ok (mq_clear_next m q) (Send_cleared m b)"
    using good p by (auto simp: mq_good_def mq_clear_next_def)
qed (auto simp: mq_clear_next_def)

lemma mq_good_copy:
  assumes good: "mq_good (q, ps, xs) fs ms"
    and p: "p \<in> set ps" "p = Send_cleared m b \<and> p' = Send_copied m b \<or> p = Urgent_taken m b \<and> p' = Urgent_copied m b"
  shows "mq_good (mq_fill m b q, p' # remove1 p ps, xs) fs ms"
proof (rule mq_good_own [OF good p(1)])
  have inv: "mq_inv q fs ms (map stage_slot ps)" and ok: "stage_ok q p" using good p(1) by (simp_all add: mq_good_def)
  have len: "length b \<le> unat (mq_msg_size q)" using p(2) ok by auto
  have "m \<in> set (map stage_slot ps)" using p by force
  then show "mq_inv (mq_fill m b q) fs ms (map stage_slot ps)" by (rule mq_fill_inv [OF inv _ len])
  show "stage_ok (mq_fill m b q) p'" using p(2) ok len by (auto simp: mq_fill_def mq_carries_def)
qed (use p(2) in \<open>auto simp: mq_fill_def\<close>)

text \<open>The slot of a thread goes to the queue or to the free list, and the thread out of its call.\<close>

lemma mq_good_leave:
  assumes good: "mq_good (q, ps, xs) fs ms" and p: "p \<in> set ps"
    and inv: "mq_inv q' fs' ms' (map stage_slot (remove1 p ps))" and size: "mq_msg_size q' = mq_msg_size q"
    and data: "mq_data q' = mq_data q"
    and nx: "\<And>m. m \<notin> set ms \<Longrightarrow> m \<noteq> stage_slot p \<Longrightarrow> mq_next q' m = mq_next q m"
    and xs: "list_all2 (mq_carries q) ms' xs'"
  shows "mq_good (q', remove1 p ps, xs') fs' ms'"
proof -
  have q: "mq_inv q fs ms (map stage_slot ps)" using good by (simp add: mq_good_def)
  note h = mq_inv_held [OF q p]
  have "\<forall>p \<in> set (remove1 p ps). stage_ok q' p"
  proof (rule stages_ok_frame [of _ q])
    show "\<forall>p \<in> set (remove1 p ps). stage_ok q p"
      using good by (auto simp: mq_good_def dest: notin_set_remove1)
    show "mq_next q' m = mq_next q m \<and> mq_data q' m = mq_data q m"
      if m: "m \<in> set (map stage_slot (remove1 p ps))" for m
    proof -
      have "m \<notin> set ms" using mq_invD(4) [OF h(1)] m by auto
      moreover have "m \<noteq> stage_slot p" using h(2) m by blast
      ultimately show ?thesis using nx data by simp
    qed
  qed (rule size)
  moreover have "list_all2 (mq_carries q') ms' xs'" by (rule carries_frame [OF xs size]) (simp add: data)
  ultimately show ?thesis using inv by (simp add: mq_good_def)
qed

lemma mq_good_link:
  assumes good: "mq_good (q, ps, xs) fs ms" and p: "Send_copied m b \<in> set ps"
  shows "mq_good (mq_link_tail m q, remove1 (Send_copied m b) ps, xs @ [b]) fs (ms @ [m])"
proof (rule mq_good_leave [OF good p])
  note inv = mq_goodD(1) [OF good] and l = mq_goodD(2) [OF good] and ok = mq_goodD(3) [OF good p]
  have nx: "mq_next q m = None" using ok by simp
  note t = mq_link_tail_inv [OF mq_inv_held(1) [OF inv p, simplified] nx]
  show "mq_inv (mq_link_tail m q) fs (ms @ [m]) (map stage_slot (remove1 (Send_copied m b) ps))" by (rule t(1))
  show "mq_data (mq_link_tail m q) = mq_data q" "mq_msg_size (mq_link_tail m q) = mq_msg_size q"
    by (rule t(2) t(3))+
  show "mq_next (mq_link_tail m q) k = mq_next q k" if "k \<notin> set ms" for k
    using mq_invD(3) [OF inv] that by (auto simp: mq_link_tail_def Let_def split: option.splits if_splits)
  show "list_all2 (mq_carries q) (ms @ [m]) (xs @ [b])" using l ok by (simp add: list_all2_appendI)
qed

lemma mq_good_link_first:
  assumes good: "mq_good (q, ps, xs) fs ms" and p: "Urgent_copied m b \<in> set ps"
  shows "mq_good (mq_link_head m q, remove1 (Urgent_copied m b) ps, b # xs) fs (m # ms)"
proof (rule mq_good_leave [OF good p])
  note inv = mq_goodD(1) [OF good] and l = mq_goodD(2) [OF good] and ok = mq_goodD(3) [OF good p]
  note t = mq_link_head_inv [OF mq_inv_held(1) [OF inv p, simplified]]
  show "mq_inv (mq_link_head m q) fs (m # ms) (map stage_slot (remove1 (Urgent_copied m b) ps))" by (rule t(1))
  show "mq_data (mq_link_head m q) = mq_data q" "mq_msg_size (mq_link_head m q) = mq_msg_size q"
    by (rule t(2) t(3))+
  show "mq_next (mq_link_head m q) k = mq_next q k" if "k \<noteq> stage_slot (Urgent_copied m b)" for k
    using that by (simp add: mq_link_head_def Let_def)
  show "list_all2 (mq_carries q) (m # ms) (b # xs)" using l ok by simp
qed

lemma mq_good_free:
  assumes good: "mq_good (q, ps, xs) fs ms" and p: "Recv_copied m b sz got \<in> set ps"
  shows "mq_good (mq_give_free m q, remove1 (Recv_copied m b sz got) ps, xs) (m # fs) ms"
proof (rule mq_good_leave [OF good p])
  have inv: "mq_inv q fs ms (map stage_slot ps)" and l: "list_all2 (mq_carries q) ms xs"
    using good by (simp_all add: mq_good_def)
  show "mq_inv (mq_give_free m q) (m # fs) ms (map stage_slot (remove1 (Recv_copied m b sz got) ps))"
    by (rule mq_give_free_inv [OF mq_inv_held(1) [OF inv p, simplified]])
  show "mq_next (mq_give_free m q) k = mq_next q k" if "k \<noteq> stage_slot (Recv_copied m b sz got)" for k
    using that by (simp add: mq_give_free_def)
qed (use good in \<open>simp_all add: mq_give_free_def mq_good_def\<close>)

lemma mq_good_unlink:
  assumes good: "mq_good (q, ps, xs) fs ms" and u: "mq_unlink q = Some (m, q')"
  shows "\<exists>ms'. mq_good (q', Recv_unlinked m (hd xs) # ps, tl xs) fs ms'"
proof -
  have inv: "mq_inv q fs ms (map stage_slot ps)" and l: "list_all2 (mq_carries q) ms xs"
    and ok: "\<forall>p \<in> set ps. stage_ok q p" using good by (simp_all add: mq_good_def)
  obtain ms' where ms: "ms = m # ms'" using mq_unlink_some [OF inv u] by blast
  have q': "mq_inv q' fs ms' (m # map stage_slot ps)" "mq_data q' = mq_data q" "mq_msg_size q' = mq_msg_size q"
    using mq_unlink_inv [OF inv [unfolded ms]] u by auto
  have n: "mq_next q' = mq_next q" using u by (auto simp: mq_unlink_def Let_def bind_eq_Some_conv split: if_splits)
  obtain x xs' where xs: "xs = x # xs'" "mq_carries q m x" "list_all2 (mq_carries q) ms' xs'"
    using l by (auto simp: ms list_all2_Cons1)
  have "\<forall>p \<in> set ps. stage_ok q' p" by (rule stages_ok_frame [OF ok]) (use q' n in auto)
  moreover have "mq_carries q' m x" using xs(2) q'(2,3) by (simp add: mq_carries_def)
  moreover have "list_all2 (mq_carries q') ms' xs'" by (rule carries_frame [OF xs(3)]) (use q' in auto)
  ultimately show ?thesis using q'(1) xs(1) by (intro exI [of _ ms']) (simp add: mq_good_def)
qed

lemma mq_good_receive:
  assumes good: "mq_good (q, ps, xs) fs ms" and p: "Recv_unlinked m b \<in> set ps"
    and got: "got = take (if sz > unat (mq_msg_size q) then unat (mq_msg_size q) else sz) (mq_data q m)"
  shows "mq_good (q, Recv_copied m b sz got # remove1 (Recv_unlinked m b) ps, xs) fs ms"
proof (rule mq_good_own [OF good p])
  show "mq_inv q fs ms (map stage_slot ps)" using good by (simp add: mq_good_def)
  have c: "mq_carries q m b" using good p by (auto simp: mq_good_def)
  then have "take (length b) got = take sz b"
    by (auto simp: got mq_carries_def min_def) (metis min_def nat_le_linear take_take)+
  then show "stage_ok q (Recv_copied m b sz got)" using c by simp
qed auto

lemma mq_step_good:
  assumes "mq_step c c'" "mq_good c fs ms"
  shows "\<exists>fs' ms'. mq_good c' fs' ms'"
  using assms
proof induction
  case (send_take b q m q' ps xs)
  then show ?case using mq_good_take by blast
next
  case (urgent_take b q m q' ps xs)
  then show ?case using mq_good_take by blast
next
  case (send_copy m b ps q xs)
  then show ?case using mq_good_copy by blast
next
  case (urgent_copy m b ps q xs)
  then show ?case using mq_good_copy by blast
qed (blast intro: mq_good_clear mq_good_link mq_good_link_first mq_good_unlink mq_good_receive mq_good_free)+

lemma mq_reach_good:
  assumes "mq_reach c0 c" "mq_good c0 fs0 ms0"
  shows "\<exists>fs ms. mq_good c fs ms"
  using assms by induction (auto dest: mq_step_good)

text \<open>C8. Under any interleaving of the stages of senders, urgent senders and receivers, each with
  only the conditions that the code tests, every slot of a message queue is free, queued or held
  by one thread, in one place only, the entry count is the length of the queue, the queued slots
  hold the messages of the senders in their order, a receiver that sees a positive count finds a
  message, and what it copies out is what the sender gave.\<close>

lemma mq_reach_inv:
  assumes "mq_reach (q0, [], xs0) (q, ps, xs)" "mq_inv q0 fs0 ms0 []" "list_all2 (mq_carries q0) ms0 xs0"
  shows "\<exists>fs ms. mq_inv q fs ms (map stage_slot ps) \<and> list_all2 (mq_carries q) ms xs \<and>
    (mq_entry q \<noteq> 0 \<longrightarrow> mq_unlink q \<noteq> None) \<and>
    (\<forall>m b sz got. Recv_copied m b sz got \<in> set ps \<longrightarrow> take (length b) got = take sz b)"
proof -
  obtain fs ms where g: "mq_good (q, ps, xs) fs ms"
    using mq_reach_good [OF assms(1), of fs0 ms0] assms(2,3) by (auto simp: mq_good_def)
  then have i: "mq_inv q fs ms (map stage_slot ps)" by (simp add: mq_good_def)
  have "mq_unlink q \<noteq> None" if "mq_entry q \<noteq> 0"
  proof -
    have "ms \<noteq> []" using mq_invD(6) [OF i] that by (auto simp: unat_eq_0)
    then show ?thesis using mq_invD(2) [OF i] by (cases ms) (auto simp: mq_unlink_def Let_def)
  qed
  then show ?thesis using g by (fastforce simp: mq_good_def)
qed

subsection \<open>Whole transfers\<close>

definition mq_put :: "u8 list \<Rightarrow> rt_messagequeue \<Rightarrow> rt_messagequeue option" where
  "mq_put buffer q =
     (case mq_take_free q of
        None \<Rightarrow> None
      | Some (msg, q1) \<Rightarrow> Some (mq_link_tail msg (mq_fill msg buffer (mq_clear_next msg q1))))"

definition mq_put_urgent :: "u8 list \<Rightarrow> rt_messagequeue \<Rightarrow> rt_messagequeue option" where
  "mq_put_urgent buffer q =
     (case mq_take_free q of
        None \<Rightarrow> None
      | Some (msg, q1) \<Rightarrow> Some (mq_link_head msg (mq_fill msg buffer q1)))"

text \<open>A receive into a buffer of \<open>sz\<close> bytes copies no more than a message.\<close>

definition mq_get :: "nat \<Rightarrow> rt_messagequeue \<Rightarrow> (u8 list \<times> rt_messagequeue) option" where
  "mq_get sz q = do {
     (msg, q1) \<leftarrow> mq_unlink q;
     Some (take (if sz > unat (mq_msg_size q1) then unat (mq_msg_size q1) else sz) (mq_data q1 msg),
       mq_give_free msg q1)
   }"

text \<open>The messages, read along the queue.\<close>

fun mq_walk :: "(nat \<Rightarrow> nat option) \<Rightarrow> nat option \<Rightarrow> nat \<Rightarrow> nat list" where
  "mq_walk nx p 0 = []"
| "mq_walk nx None (Suc n) = []"
| "mq_walk nx (Some m) (Suc n) = m # mq_walk nx (nx m) n"

definition mq_contents :: "rt_messagequeue \<Rightarrow> u8 list list" where
  "mq_contents q = map (mq_data q) (mq_walk (mq_next q) (mq_head q) (unat (mq_entry q)))"

definition mq_ok :: "rt_messagequeue \<Rightarrow> bool" where
  "mq_ok q \<longleftrightarrow> (\<exists>fs ms. mq_inv q fs ms [])"

lemma mq_okI: "mq_inv q fs ms [] \<Longrightarrow> mq_ok q"
  by (auto simp: mq_ok_def)

lemma mq_walk_chain: "mq_chain nx p ms \<Longrightarrow> mq_walk nx p (length ms) = ms"
  by (induction ms arbitrary: p) auto

lemma mq_contents_chain: "mq_inv q fs ms hs \<Longrightarrow> mq_contents q = map (mq_data q) ms"
  by (simp add: mq_contents_def mq_inv_def mq_walk_chain)

text \<open>A message shorter than a slot leaves the old bytes of the slot behind it.\<close>

lemma mq_put_spec:
  assumes inv: "mq_inv q (m # fs) ms []" and len: "length b \<le> unat (mq_msg_size q)"
  shows "\<exists>q'. mq_put b q = Some q' \<and> mq_inv q' fs (ms @ [m]) [] \<and>
    mq_contents q' = mq_contents q @ [b @ drop (length b) (mq_data q m)] \<and>
    mq_msg_size q' = mq_msg_size q \<and> mq_max_msgs q' = mq_max_msgs q"
proof -
  define q1 where "q1 = q\<lparr>mq_free := mq_next q m\<rparr>"
  have t: "mq_take_free q = Some (m, q1)" "mq_inv q1 fs ms [m]"
    using mq_take_free_inv [OF inv] by (simp_all add: q1_def)
  have c: "mq_inv (mq_clear_next m q1) fs ms [m]" using mq_clear_next_inv [OF t(2)] by simp
  define q2 where "q2 = mq_fill m b (mq_clear_next m q1)"
  have f: "mq_inv q2 fs ms [m]"
    unfolding q2_def using len by (intro mq_fill_inv [OF c]) (simp_all add: mq_clear_next_def q1_def)
  have nx: "mq_next q2 m = None" by (simp add: q2_def mq_fill_def mq_clear_next_def)
  note l = mq_link_tail_inv [OF f nx]
  have "m \<notin> set ms" using mq_invD(4) [OF inv] by auto
  then have "mq_contents (mq_link_tail m q2) = mq_contents q @ [b @ drop (length b) (mq_data q m)]"
    unfolding mq_contents_chain [OF l(1)] mq_contents_chain [OF inv] l(2)
    by (auto simp: q2_def mq_fill_def mq_clear_next_def q1_def)
  then show ?thesis
    using t l by (simp add: mq_put_def q2_def mq_fill_def mq_clear_next_def q1_def)
qed

lemma mq_put_urgent_spec:
  assumes inv: "mq_inv q (m # fs) ms []" and len: "length b \<le> unat (mq_msg_size q)"
  shows "\<exists>q'. mq_put_urgent b q = Some q' \<and> mq_inv q' fs (m # ms) [] \<and>
    mq_contents q' = (b @ drop (length b) (mq_data q m)) # mq_contents q \<and>
    mq_msg_size q' = mq_msg_size q \<and> mq_max_msgs q' = mq_max_msgs q"
proof -
  define q1 where "q1 = q\<lparr>mq_free := mq_next q m\<rparr>"
  have t: "mq_take_free q = Some (m, q1)" "mq_inv q1 fs ms [m]"
    using mq_take_free_inv [OF inv] by (simp_all add: q1_def)
  define q2 where "q2 = mq_fill m b q1"
  have f: "mq_inv q2 fs ms [m]"
    unfolding q2_def using len by (intro mq_fill_inv [OF t(2)]) (simp_all add: q1_def)
  note l = mq_link_head_inv [OF f]
  have "m \<notin> set ms" using mq_invD(4) [OF inv] by auto
  then have "mq_contents (mq_link_head m q2) = (b @ drop (length b) (mq_data q m)) # mq_contents q"
    unfolding mq_contents_chain [OF l(1)] mq_contents_chain [OF inv] l(2)
    by (auto simp: q2_def mq_fill_def q1_def)
  then show ?thesis
    using t l by (simp add: mq_put_urgent_def q2_def mq_fill_def q1_def)
qed

lemma mq_get_spec:
  assumes inv: "mq_inv q fs (m # ms) []"
  shows "\<exists>q'. mq_get sz q = Some (take sz (mq_data q m), q') \<and> mq_inv q' (m # fs) ms [] \<and>
    mq_contents q = mq_data q m # mq_contents q' \<and>
    mq_msg_size q' = mq_msg_size q \<and> mq_max_msgs q' = mq_max_msgs q"
proof -
  obtain q1 where q1: "mq_unlink q = Some (m, q1)" "mq_inv q1 fs ms [m]" "mq_data q1 = mq_data q"
    "mq_msg_size q1 = mq_msg_size q" "mq_max_msgs q1 = mq_max_msgs q"
    using mq_unlink_inv [OF inv] by blast
  have g: "mq_inv (mq_give_free m q1) (m # fs) ms []" using mq_give_free_inv [OF q1(2)] .
  have "m \<in> set (fs @ (m # ms) @ [])" by simp
  then have "m < unat (mq_max_msgs q)" unfolding mq_invD(5) [OF inv] by simp
  then have "length (mq_data q m) = unat (mq_msg_size q)" by (rule mq_invD(7) [OF inv])
  then have "unat (mq_msg_size q) < sz \<Longrightarrow> take (unat (mq_msg_size q)) (mq_data q m) = take sz (mq_data q m)"
    by simp
  moreover have "mq_contents (mq_give_free m q1) = map (mq_data q) ms"
    unfolding mq_contents_chain [OF g] using q1(3) by (simp add: mq_give_free_def)
  ultimately show ?thesis
    using q1 g by (simp add: mq_get_def mq_contents_chain [OF inv]) (simp add: mq_give_free_def)
qed

text \<open>Messages of the full slot size make the queue a bounded store.\<close>

lemma mq_free_room:
  assumes "mq_inv q fs ms []" "length (mq_contents q) < unat (mq_max_msgs q)"
  obtains m fs' where "fs = m # fs'"
  using assms mq_inv_count [OF assms(1)] mq_contents_chain [OF assms(1)] by (cases fs) auto

interpretation msg_queue: bounded_fifo mq_ok mq_contents "\<lambda>q. unat (mq_max_msgs q)"
  "\<lambda>q b. length b = unat (mq_msg_size q)" mq_put "\<lambda>q. mq_get (unat (mq_msg_size q)) q"
proof
  fix q :: rt_messagequeue assume "mq_ok q"
  then obtain fs ms where inv: "mq_inv q fs ms []" by (auto simp: mq_ok_def)
  note cnt = mq_inv_count [OF inv] and ct = mq_contents_chain [OF inv]
  show "length (mq_contents q) \<le> unat (mq_max_msgs q)" using cnt ct by simp
  show "\<exists>q'. mq_put b q = Some q' \<and> mq_ok q' \<and> mq_contents q' = mq_contents q @ [b] \<and>
      unat (mq_max_msgs q') = unat (mq_max_msgs q) \<and>
      (\<lambda>b. length b = unat (mq_msg_size q')) = (\<lambda>b. length b = unat (mq_msg_size q))"
    if b: "length b = unat (mq_msg_size q)" and room: "length (mq_contents q) < unat (mq_max_msgs q)" for b
  proof -
    obtain m fs' where fs: "fs = m # fs'" by (rule mq_free_room [OF inv room])
    have "m \<in> set (fs @ ms @ [])" using fs by simp
    then have "m < unat (mq_max_msgs q)" unfolding mq_invD(5) [OF inv] by simp
    then have "drop (length b) (mq_data q m) = []" using mq_invD(7) [OF inv, of m] b by simp
    then show ?thesis using mq_put_spec [OF inv [unfolded fs], of b] b by (auto intro: mq_okI)
  qed
  show "mq_put b q = None" if "length (mq_contents q) = unat (mq_max_msgs q)" for b
    using that cnt ct inv mq_take_free_none [of q ms] by (cases fs) (auto simp: mq_put_def)
  show "\<exists>q'. mq_get (unat (mq_msg_size q)) q = Some (x, q') \<and> mq_ok q' \<and> mq_contents q' = xs \<and>
      unat (mq_max_msgs q') = unat (mq_max_msgs q) \<and>
      (\<lambda>b. length b = unat (mq_msg_size q')) = (\<lambda>b. length b = unat (mq_msg_size q))"
    if c: "mq_contents q = x # xs" for x xs
  proof -
    obtain m ms' where ms: "ms = m # ms'" using c ct by (cases ms) auto
    have "m \<in> set (fs @ ms @ [])" using ms by simp
    then have "m < unat (mq_max_msgs q)" unfolding mq_invD(5) [OF inv] by simp
    then have "take (unat (mq_msg_size q)) (mq_data q m) = mq_data q m"
      using mq_invD(7) [OF inv, of m] by simp
    then show ?thesis
      using mq_get_spec [OF inv [unfolded ms], of "unat (mq_msg_size q)"] c by (auto intro: mq_okI)
  qed
  show "mq_get (unat (mq_msg_size q)) q = None" if "mq_contents q = []"
    using that ct mq_invD(2) [OF inv] by (simp add: mq_get_def mq_unlink_def)
qed

lemma mq_pool_init_inv:
  assumes "mq_free q = None" "mq_head q = None" "mq_tail q = None" "mq_entry q = 0"
  shows "mq_chain (mq_next (mq_pool_init n q)) (mq_free (mq_pool_init n q)) (rev [0..<n]) \<and>
    mq_head (mq_pool_init n q) = None \<and> mq_tail (mq_pool_init n q) = None \<and>
    mq_entry (mq_pool_init n q) = 0 \<and> mq_data (mq_pool_init n q) = mq_data q \<and>
    mq_msg_size (mq_pool_init n q) = mq_msg_size q \<and> mq_max_msgs (mq_pool_init n q) = mq_max_msgs q"
  using assms by (induction n) (auto simp: Let_def mq_chain_upd)

lemma mq_pool_init_entry [simp]:
  "mq_pool_init n (q\<lparr>mq_entry := e\<rparr>) = (mq_pool_init n q)\<lparr>mq_entry := e\<rparr>"
  by (induction n) (simp_all add: Let_def)

lemma mq_pool_init_fields [simp]:
  "mq_msg_size (mq_pool_init n q) = mq_msg_size q" "mq_max_msgs (mq_pool_init n q) = mq_max_msgs q"
  by (induction n) (simp_all add: Let_def)

lemma mq_setup_fields [simp]:
  "mq_msg_size (mq_setup msg_size max_msgs slots q) = ucast (RT_ALIGN4 msg_size)"
  "mq_max_msgs (mq_setup msg_size max_msgs slots q) = ucast max_msgs"
  by (simp_all add: mq_setup_def Let_def)

lemma mq_setup_inv:
  assumes "\<forall>m. length (slots m) = unat (ucast (RT_ALIGN4 msg_size) :: u16)"
  shows "mq_inv (mq_setup msg_size max_msgs slots q) (rev [0..<unat (ucast max_msgs :: u16)]) [] []"
proof -
  let ?q = "q\<lparr>mq_msg_size := ucast (RT_ALIGN4 msg_size), mq_max_msgs := ucast max_msgs,
    mq_data := slots, mq_head := None, mq_tail := None, mq_free := None, mq_entry := 0\<rparr>"
  have e: "mq_setup msg_size max_msgs slots q = mq_pool_init (unat (ucast max_msgs :: u16)) ?q"
    by (simp add: mq_setup_def Let_def del: mq_pool_init_entry add: mq_pool_init_entry [symmetric])
  show ?thesis
    unfolding e using mq_pool_init_inv [of ?q "unat (ucast max_msgs :: u16)"] assms
    by (auto simp: mq_inv_def)
qed

text \<open>A reset frees every slot of the queue, and its loop ends.\<close>

lemma mq_drain_inv:
  assumes "mq_chain (mq_next q) (mq_free q) fs" "mq_chain (mq_next q) (mq_head q) ms"
    "mq_tail q = (if ms = [] then None else Some (last ms))" "distinct (fs @ ms)"
  shows "\<exists>q'. mq_drain q = Some q' \<and> mq_chain (mq_next q') (mq_free q') (rev ms @ fs) \<and>
    mq_head q' = None \<and> mq_tail q' = None \<and> mq_data q' = mq_data q \<and>
    mq_msg_size q' = mq_msg_size q \<and> mq_max_msgs q' = mq_max_msgs q"
  using assms
proof (induction ms arbitrary: q fs)
  case Nil
  then show ?case by (subst mq_drain.simps) simp
next
  case (Cons m ms)
  define q1 where "q1 = q\<lparr>mq_head := mq_next q m\<rparr>"
  define q2 where "q2 = (if mq_tail q1 = Some m then q1\<lparr>mq_tail := None\<rparr> else q1)"
  have l: "mq_tail q2 = (if ms = [] then None else Some (last ms))"
  proof -
    have "last ms \<noteq> m" if "ms \<noteq> []" using Cons.prems(4) that by auto
    then show ?thesis using Cons.prems(3) by (auto simp: q2_def q1_def)
  qed
  have g: "mq_chain (mq_next (mq_give_free m q2)) (mq_free (mq_give_free m q2)) (m # fs)"
    "mq_chain (mq_next (mq_give_free m q2)) (mq_head (mq_give_free m q2)) ms"
    "mq_tail (mq_give_free m q2) = (if ms = [] then None else Some (last ms))"
    "distinct ((m # fs) @ ms)"
    using Cons.prems l by (auto simp: mq_give_free_def q2_def q1_def mq_chain_upd)
  have "mq_drain q = mq_drain (mq_give_free m q2)"
    using Cons.prems(2) by (subst mq_drain.simps) (simp add: Let_def q2_def q1_def)
  then show ?case
    using Cons.IH [OF g] by (auto simp: mq_give_free_def q2_def q1_def)
qed

subsection \<open>Operations\<close>

text \<open>\<open>slots\<close> is what the memory of the pool holds when it is cut into slots.\<close>

definition rt_mq_init ::
  "ptr \<Rightarrow> string \<Rightarrow> (nat \<Rightarrow> u8 list) \<Rightarrow> u32 \<Rightarrow> u32 \<Rightarrow> u8 \<Rightarrow> kstate \<Rightarrow> (rt_err_t \<times> kstate) option" where
  "rt_mq_init mq name slots msg_size pool_size flag s = do {
     RT_ASSERT (mq \<noteq> RT_NULL);
     s1 \<leftarrow> rt_object_init mq RT_Object_Class_MessageQueue name s;
     let s2 = rt_ipc_object_init mq (upd_obj mq (obj_flag_update (\<lambda>_. flag)) s1);
     let aligned = (ucast (ucast (RT_ALIGN4 msg_size) :: u16) :: u32);
     Some (RT_EOK, upd_mq mq (mq_setup msg_size (pool_size div (aligned + 4)) slots) s2)
   }"

definition rt_mq_detach :: "ptr \<Rightarrow> kstate \<Rightarrow> (rt_err_t \<times> kstate) option" where
  "rt_mq_detach mq s = do {
     RT_ASSERT (mq \<noteq> RT_NULL);
     assert_type mq RT_Object_Class_MessageQueue s;
     assert_static mq True s;
     s1 \<leftarrow> rt_ipc_list_resume_all (Suspend_thread mq) s;
     s2 \<leftarrow> rt_object_detach mq s1;
     Some (RT_EOK, s2)
   }"

definition rt_mq_delete :: "ptr \<Rightarrow> kstate \<Rightarrow> (rt_err_t \<times> kstate) option" where
  "rt_mq_delete mq s = do {
     not_in_interrupt s;
     RT_ASSERT (mq \<noteq> RT_NULL);
     assert_type mq RT_Object_Class_MessageQueue s;
     assert_static mq False s;
     s1 \<leftarrow> rt_ipc_list_resume_all (Suspend_thread mq) s;
     s2 \<leftarrow> rt_object_delete mq s1;
     Some (RT_EOK, s2)
   }"

definition rt_mq_create ::
  "ptr \<Rightarrow> (nat \<Rightarrow> u8 list) option \<Rightarrow> string \<Rightarrow> u32 \<Rightarrow> u32 \<Rightarrow> u8 \<Rightarrow> kstate \<Rightarrow> (ptr \<times> kstate) option" where
  "rt_mq_create mem pool name msg_size max_msgs flag s = do {
     not_in_interrupt s;
     (mq, s1) \<leftarrow> rt_object_allocate mem RT_Object_Class_MessageQueue name s;
     if mq = RT_NULL then Some (mq, s1)
     else
       let s2 = rt_ipc_object_init mq (upd_obj mq (obj_flag_update (\<lambda>_. flag)) s1)
       in case pool of
            None \<Rightarrow> do {
              (r, s3) \<leftarrow> rt_mq_delete mq (upd_mq mq (\<lambda>q. q\<lparr>mq_msg_size := ucast (RT_ALIGN4 msg_size),
                mq_max_msgs := ucast max_msgs\<rparr>) s2);
              Some (RT_NULL, s3)
            }
          | Some slots \<Rightarrow> Some (mq, upd_mq mq (mq_setup msg_size max_msgs slots) s2)
   }"

text \<open>
  \<open>rt_mq_send\<close> and \<open>rt_mq_urgent\<close> for a call that is not interrupted between its critical
  sections; \<open>put\<close> is the transfer.  \<open>buffer\<close> is the \<open>size\<close> bytes the caller points to.
\<close>

definition mq_send_with ::
  "(u8 list \<Rightarrow> rt_messagequeue \<Rightarrow> rt_messagequeue option) \<Rightarrow> ptr \<Rightarrow> u8 list \<Rightarrow> kstate \<Rightarrow> (rt_err_t \<times> kstate) option" where
  "mq_send_with put mq buffer s = do {
     RT_ASSERT (mq \<noteq> RT_NULL);
     assert_type mq RT_Object_Class_MessageQueue s;
     RT_ASSERT (length buffer \<noteq> 0);
     if length buffer > unat (mq_msg_size (msgqueues s mq)) then Some (- RT_ERROR, s)
     else case put buffer (msgqueues s mq) of
         None \<Rightarrow> Some (- RT_EFULL, s)
       | Some q \<Rightarrow>
           let s1 = upd_mq mq (\<lambda>_. q) s
           in if tlists s1 (Suspend_thread mq) \<noteq> [] then do {
                s2 \<leftarrow> rt_ipc_list_resume (Suspend_thread mq) s1;
                s3 \<leftarrow> rt_schedule s2;
                Some (RT_EOK, s3)
              }
              else Some (RT_EOK, s1)
   }"

definition rt_mq_send :: "ptr \<Rightarrow> u8 list \<Rightarrow> kstate \<Rightarrow> (rt_err_t \<times> kstate) option" where
  "rt_mq_send mq buffer s = mq_send_with mq_put mq buffer s"

definition rt_mq_urgent :: "ptr \<Rightarrow> u8 list \<Rightarrow> kstate \<Rightarrow> (rt_err_t \<times> kstate) option" where
  "rt_mq_urgent mq buffer s = mq_send_with mq_put_urgent mq buffer s"

text \<open>A receive returns the error code and the bytes copied to \<open>buffer\<close>, if any.\<close>

definition mq_recv_from ::
  "ptr \<Rightarrow> nat \<Rightarrow> u32 \<Rightarrow> ptr \<Rightarrow> kstate \<Rightarrow> ((rt_err_t \<times> u8 list option) outcome \<times> kstate) option" where
  "mq_recv_from mq sz timeout thread s =
     (if mq_entry (msgqueues s mq) = 0 then do {
        in_thread_context s;
        let s1 = set_error thread RT_EOK s;
        if timeout = 0 then Some (Ret (- RT_ETIMEOUT, None), set_error thread (- RT_ETIMEOUT) s1)
        else do {
          s2 \<leftarrow> ipc_wait_on (Suspend_thread mq) thread (obj_flag (objs s1 mq)) timeout s1;
          s3 \<leftarrow> rt_schedule s2;
          Some (Wait, s3)
        }
      }
      else do {
        (bytes, q) \<leftarrow> mq_get sz (msgqueues s mq);
        Some (Ret (RT_EOK, Some bytes), upd_mq mq (\<lambda>_. q) s)
      })"

definition rt_mq_recv ::
  "ptr \<Rightarrow> nat \<Rightarrow> u32 \<Rightarrow> kstate \<Rightarrow> ((rt_err_t \<times> u8 list option) outcome \<times> kstate) option" where
  "rt_mq_recv mq sz timeout s = do {
     RT_ASSERT (mq \<noteq> RT_NULL);
     assert_type mq RT_Object_Class_MessageQueue s;
     RT_ASSERT (sz \<noteq> 0);
     let thread = rt_thread_self s;
     if mq_entry (msgqueues s mq) = 0 \<and> timeout = 0 then Some (Ret (- RT_ETIMEOUT, None), s)
     else mq_recv_from mq sz timeout thread s
   }"

text \<open>The part of \<open>rt_mq_recv\<close> after \<open>rt_schedule\<close>; \<open>start\<close> is the tick when the wait began.\<close>

definition mq_recv_wakeup ::
  "ptr \<Rightarrow> nat \<Rightarrow> u32 \<Rightarrow> u32 \<Rightarrow> ptr \<Rightarrow> kstate \<Rightarrow> ((rt_err_t \<times> u8 list option) outcome \<times> kstate) option" where
  "mq_recv_wakeup mq sz timeout start thread s =
     (if th_error (threads s thread) \<noteq> RT_EOK then Some (Ret (th_error (threads s thread), None), s)
      else mq_recv_from mq sz (time_left timeout start s) thread s)"

definition rt_mq_control :: "ptr \<Rightarrow> ipc_cmd \<Rightarrow> kstate \<Rightarrow> (rt_err_t \<times> kstate) option" where
  "rt_mq_control mq cmd s = do {
     RT_ASSERT (mq \<noteq> RT_NULL);
     assert_type mq RT_Object_Class_MessageQueue s;
     case cmd of
       Reset v \<Rightarrow> do {
         s1 \<leftarrow> rt_ipc_list_resume_all (Suspend_thread mq) s;
         q \<leftarrow> mq_drain (msgqueues s1 mq);
         s2 \<leftarrow> rt_schedule (upd_mq mq (\<lambda>_. q\<lparr>mq_entry := 0\<rparr>) s1);
         Some (RT_EOK, s2)
       }
     | Other_ipc_cmd \<Rightarrow> Some (- RT_ERROR, s)
   }"

subsection \<open>Sending and receiving\<close>

definition queue_ok :: "kstate \<Rightarrow> ptr \<Rightarrow> bool" where
  "queue_ok s mq \<longleftrightarrow> ipc_ok s mq RT_Object_Class_MessageQueue \<and> mq_ok (msgqueues s mq)"

lemma queue_okD:
  assumes "queue_ok s mq"
  shows "kernel_ok s" "has_type s mq RT_Object_Class_MessageQueue" "mq \<noteq> RT_NULL"
    "obj_flag (objs s mq) = RT_IPC_FLAG_FIFO \<or> obj_flag (objs s mq) = RT_IPC_FLAG_PRIO"
    "current_thread s \<noteq> RT_NULL" "mq_ok (msgqueues s mq)"
  using assms ipc_okD [of s mq] kernel_ok_current [of s] by (auto simp: queue_ok_def)

lemma mq_send_with_ok:
  assumes ok: "queue_ok s mq" and b: "b \<noteq> []" "length b \<le> unat (mq_msg_size (msgqueues s mq))"
    and put: "put b (msgqueues s mq) = Some q"
  shows "\<exists>s'. mq_send_with put mq b s = Some (RT_EOK, s') \<and> kernel_ok s' \<and> msgqueues s' mq = q \<and>
    tlists s' (Suspend_thread mq) = tl (tlists s (Suspend_thread mq))"
proof -
  note d = queue_okD [OF ok]
  let ?s = "upd_mq mq (\<lambda>_. q) s"
  have k: "kernel_ok ?s" using d(1) by simp
  obtain s' where s': "(if tlists ?s (Suspend_thread mq) \<noteq> [] then do {
      s2 \<leftarrow> rt_ipc_list_resume (Suspend_thread mq) ?s; s3 \<leftarrow> rt_schedule s2; Some (RT_EOK, s3)
    } else Some (RT_EOK, ?s)) = Some (RT_EOK, s')" "kernel_ok s'" "kernel_frame ?s s'"
    "tlists s' (Suspend_thread mq) = tl (tlists ?s (Suspend_thread mq))"
    using wake_first [OF k wait_head_simps(3), of mq RT_EOK] by blast
  have "mq_send_with put mq b s = Some (RT_EOK, s')"
    using d b put s'(1) by (simp add: mq_send_with_def Let_def not_less)
  then show ?thesis using s' kernel_frame_fields(5) [OF s'(3)] by simp
qed

lemma mq_send_full:
  assumes ok: "queue_ok s mq" and b: "b \<noteq> []" "length b \<le> unat (mq_msg_size (msgqueues s mq))"
    and full: "length (mq_contents (msgqueues s mq)) = unat (mq_max_msgs (msgqueues s mq))"
  shows "rt_mq_send mq b s = Some (- RT_EFULL, s)" "rt_mq_urgent mq b s = Some (- RT_EFULL, s)"
proof -
  obtain fs ms where inv: "mq_inv (msgqueues s mq) fs ms []"
    using queue_okD(6) [OF ok] by (auto simp: mq_ok_def)
  have "fs = []" using mq_inv_count [OF inv] mq_contents_chain [OF inv] full by simp
  then have "mq_take_free (msgqueues s mq) = None" using inv mq_take_free_none by blast
  then show "rt_mq_send mq b s = Some (- RT_EFULL, s)" "rt_mq_urgent mq b s = Some (- RT_EFULL, s)"
    using queue_okD [OF ok] b
    by (simp_all add: rt_mq_send_def rt_mq_urgent_def mq_send_with_def mq_put_def mq_put_urgent_def not_less)
qed

lemma mq_send_big:
  assumes "queue_ok s mq" "unat (mq_msg_size (msgqueues s mq)) < length b"
  shows "rt_mq_send mq b s = Some (- RT_ERROR, s)"
  using queue_okD [OF assms(1)] assms(2) by (auto simp: rt_mq_send_def mq_send_with_def)

lemma mq_send_urgent_now:
  assumes ok: "queue_ok s mq" and b: "b \<noteq> []" "length b = unat (mq_msg_size (msgqueues s mq))"
    and room: "length (mq_contents (msgqueues s mq)) < unat (mq_max_msgs (msgqueues s mq))"
  shows "\<exists>s'. rt_mq_send mq b s = Some (RT_EOK, s') \<and> kernel_ok s' \<and> mq_ok (msgqueues s' mq) \<and>
      mq_contents (msgqueues s' mq) = mq_contents (msgqueues s mq) @ [b]"
    "\<exists>s'. rt_mq_urgent mq b s = Some (RT_EOK, s') \<and> kernel_ok s' \<and> mq_ok (msgqueues s' mq) \<and>
      mq_contents (msgqueues s' mq) = b # mq_contents (msgqueues s mq)"
proof -
  obtain fs ms where inv: "mq_inv (msgqueues s mq) fs ms []"
    using queue_okD(6) [OF ok] by (auto simp: mq_ok_def)
  obtain m fs' where fs: "fs = m # fs'" by (rule mq_free_room [OF inv room])
  have "m \<in> set (fs @ ms @ [])" using fs by simp
  then have "m < unat (mq_max_msgs (msgqueues s mq))" unfolding mq_invD(5) [OF inv] by simp
  then have dr: "drop (length b) (mq_data (msgqueues s mq) m) = []" using mq_invD(7) [OF inv, of m] b by simp
  have le: "length b \<le> unat (mq_msg_size (msgqueues s mq))" using b by simp
  note inv' = inv [unfolded fs]
  obtain q where "mq_put b (msgqueues s mq) = Some q" "mq_ok q" "mq_contents q = mq_contents (msgqueues s mq) @ [b]"
    using mq_put_spec [OF inv' le] dr by (auto intro: mq_okI)
  then show "\<exists>s'. rt_mq_send mq b s = Some (RT_EOK, s') \<and> kernel_ok s' \<and> mq_ok (msgqueues s' mq) \<and>
      mq_contents (msgqueues s' mq) = mq_contents (msgqueues s mq) @ [b]"
    using mq_send_with_ok [where put = mq_put, OF ok b(1) le] unfolding rt_mq_send_def by metis
  obtain q where "mq_put_urgent b (msgqueues s mq) = Some q" "mq_ok q"
    "mq_contents q = b # mq_contents (msgqueues s mq)"
    using mq_put_urgent_spec [OF inv' le] dr by (auto intro: mq_okI)
  then show "\<exists>s'. rt_mq_urgent mq b s = Some (RT_EOK, s') \<and> kernel_ok s' \<and> mq_ok (msgqueues s' mq) \<and>
      mq_contents (msgqueues s' mq) = b # mq_contents (msgqueues s mq)"
    using mq_send_with_ok [where put = mq_put_urgent, OF ok b(1) le] unfolding rt_mq_urgent_def by metis
qed

lemma mq_recv_now:
  assumes ok: "queue_ok s mq" and sz: "sz \<noteq> 0" and some: "mq_contents (msgqueues s mq) = b # bs"
  shows "\<exists>s'. rt_mq_recv mq sz time s = Some (Ret (RT_EOK, Some (take sz b)), s') \<and> kernel_ok s' \<and>
    mq_ok (msgqueues s' mq) \<and> mq_contents (msgqueues s' mq) = bs \<and> tlists s' = tlists s"
proof -
  note d = queue_okD [OF ok]
  obtain fs ms where inv: "mq_inv (msgqueues s mq) fs ms []" using d(6) by (auto simp: mq_ok_def)
  obtain m ms' where ms: "ms = m # ms'" using some mq_contents_chain [OF inv] by (cases ms) auto
  obtain q where q: "mq_get sz (msgqueues s mq) = Some (take sz b, q)" "mq_ok q" "mq_contents q = bs"
    using mq_get_spec [OF inv [unfolded ms], of sz] some by (auto intro: mq_okI)
  have "mq_entry (msgqueues s mq) \<noteq> 0" using mq_invD(6) [OF inv] ms by auto
  then have "rt_mq_recv mq sz time s = Some (Ret (RT_EOK, Some (take sz b)), upd_mq mq (\<lambda>_. q) s)"
    using d sz q(1) by (simp add: rt_mq_recv_def mq_recv_from_def)
  then show ?thesis using q d(1) by auto
qed

lemma mq_recv_empty:
  assumes ok: "queue_ok s mq" and sz: "sz \<noteq> 0" and empty: "mq_contents (msgqueues s mq) = []"
  shows "rt_mq_recv mq sz 0 s = Some (Ret (- RT_ETIMEOUT, None), s)"
proof -
  obtain fs ms where inv: "mq_inv (msgqueues s mq) fs ms []"
    using queue_okD(6) [OF ok] by (auto simp: mq_ok_def)
  have "mq_entry (msgqueues s mq) = 0"
    using mq_invD(6) [OF inv] mq_contents_chain [OF inv] empty by (simp add: unat_eq_0)
  then show ?thesis using queue_okD [OF ok] sz by (simp add: rt_mq_recv_def)
qed

lemma mq_control_reset:
  assumes ok: "queue_ok s mq"
  shows "\<exists>s'. rt_mq_control mq (Reset v) s = Some (RT_EOK, s') \<and> kernel_ok s' \<and>
    mq_ok (msgqueues s' mq) \<and> mq_contents (msgqueues s' mq) = [] \<and> tlists s' (Suspend_thread mq) = []"
proof -
  note d = queue_okD [OF ok]
  obtain s1 where s1: "rt_ipc_list_resume_all (Suspend_thread mq) s = Some s1" "kernel_ok s1"
    "same_objects s s1" "tlists s1 (Suspend_thread mq) = []"
    using list_resume_all [OF d(1) wait_head_simps(3)] by blast
  obtain fs ms where inv: "mq_inv (msgqueues s mq) fs ms []" using d(6) by (auto simp: mq_ok_def)
  have dist: "distinct (fs @ ms)" using mq_invD(4) [OF inv] by simp
  obtain q where q: "mq_drain (msgqueues s mq) = Some q" "mq_chain (mq_next q) (mq_free q) (rev ms @ fs)"
    "mq_head q = None" "mq_tail q = None" "mq_data q = mq_data (msgqueues s mq)"
    "mq_msg_size q = mq_msg_size (msgqueues s mq)" "mq_max_msgs q = mq_max_msgs (msgqueues s mq)"
    using mq_drain_inv [OF mq_invD(1,2,3) [OF inv] dist] by blast
  have qi: "mq_inv (q\<lparr>mq_entry := 0\<rparr>) (rev ms @ fs) [] []"
    using q mq_invD(4,5,7) [OF inv] by (auto simp: mq_inv_def)
  let ?s = "upd_mq mq (\<lambda>_. q\<lparr>mq_entry := 0\<rparr>) s1"
  have "kernel_ok ?s" using s1(2) by simp
  then obtain s' where s': "rt_schedule ?s = Some s'" "kernel_ok s'" "kernel_frame ?s s'"
    "\<forall>h. wait_head h \<longrightarrow> tlists s' h = tlists ?s h"
    using schedule_kernel_ok by blast
  have "rt_mq_control mq (Reset v) s = Some (RT_EOK, s')"
    using d s1(1) q(1) s'(1) same_objectsD(5) [OF s1(3)] by (simp add: rt_mq_control_def)
  moreover have "msgqueues s' mq = q\<lparr>mq_entry := 0\<rparr>" using kernel_frame_fields(5) [OF s'(3)] by simp
  ultimately show ?thesis
    using s'(2,4) s1(4) qi mq_contents_chain [OF qi] by (auto intro: mq_okI)
qed

text \<open>First in, first out, for any sequence of full-size sends and receives.\<close>

text \<open>C9. For any sequence of full-size sends and receives a message queue delivers the accepted
  messages in first-in first-out order and keeps the rest.\<close>

lemma mq_run_order:
  assumes "mq_ok q" "puts_valid (\<lambda>b. length b = unat (mq_msg_size q)) ops"
    "fifo_run mq_put (\<lambda>q. mq_get (unat (mq_msg_size q)) q) ops q = (accepted, delivered, q')"
  shows "mq_ok q' \<and> delivered @ mq_contents q' = mq_contents q @ accepted"
  using msg_queue.run_order [OF assms] by blast

text \<open>A send appends, an urgent send goes in front.\<close>

lemma mq_urgent_overtakes:
  assumes ok: "queue_ok s mq" and b: "b \<noteq> []" "length b = unat (mq_msg_size (msgqueues s mq))"
    and room: "length (mq_contents (msgqueues s mq)) < unat (mq_max_msgs (msgqueues s mq))"
  shows "(\<exists>s'. rt_mq_send mq b s = Some (RT_EOK, s') \<and> kernel_ok s' \<and>
      mq_contents (msgqueues s' mq) = mq_contents (msgqueues s mq) @ [b]) \<and>
    (\<exists>s'. rt_mq_urgent mq b s = Some (RT_EOK, s') \<and> kernel_ok s' \<and>
      mq_contents (msgqueues s' mq) = b # mq_contents (msgqueues s mq))"
  using mq_send_urgent_now [OF assms] by blast

end
