(* ===== verification/RT_Demo.thy ===== *)
theory RT_Demo
  imports RT_Mutex RT_Event RT_Mq
begin

text \<open>
  A small running system on which the properties are applied: thread 1 (priority 10) runs, the
  idle thread (priority 31) is ready, threads 2 (priority 12) and 3 (priority 8) are suspended, and
  there is one IPC object of each class, with priority order: \<open>Ptr 10\<close> to \<open>Ptr 14\<close>.  \<open>Ptr 15\<close> is a memory
  heap with a free lock, \<open>Ptr 16\<close> a memory pool, \<open>Ptr 17\<close> a device.
\<close>

definition demo_thread :: "u8 \<Rightarrow> u8 \<Rightarrow> rt_thread" where
  "demo_thread prio stat = zero_thread\<lparr>th_sp := 0x1010, th_stack_addr := 0x1000, th_stack_size := 0x100,
     th_stat := stat, th_current_priority := prio, th_init_priority := prio,
     th_number_mask := push_bit (unat prio) 1\<rparr>"

definition demo_object :: "u8 \<Rightarrow> u8 \<Rightarrow> rt_object" where
  "demo_object type flag = \<lparr>obj_name = ''demo'', obj_type = type OR RT_Object_Class_Static, obj_flag = flag\<rparr>"

definition demo :: kstate where
  "demo = \<lparr>
     objs = (\<lambda>p. case p of Thread_timer t \<Rightarrow> demo_object RT_Object_Class_Timer 0
       | Heap_lock h \<Rightarrow> demo_object RT_Object_Class_Semaphore RT_IPC_FLAG_FIFO
       | _ \<Rightarrow> ((\<lambda>_. demo_object RT_Object_Class_Thread 0)
          (Ptr 10 := demo_object RT_Object_Class_Semaphore RT_IPC_FLAG_PRIO,
           Ptr 11 := demo_object RT_Object_Class_Mutex RT_IPC_FLAG_PRIO,
           Ptr 12 := demo_object RT_Object_Class_Event RT_IPC_FLAG_PRIO,
           Ptr 13 := demo_object RT_Object_Class_MailBox RT_IPC_FLAG_PRIO,
           Ptr 14 := demo_object RT_Object_Class_MessageQueue RT_IPC_FLAG_PRIO,
           Ptr 15 := demo_object RT_Object_Class_MemHeap 0,
           Ptr 16 := demo_object RT_Object_Class_MemPool 0,
           Ptr 17 := demo_object RT_Object_Class_Device 0)) p),
     threads = (\<lambda>p. demo_thread 20 RT_THREAD_INIT)
       (Ptr 1 := demo_thread 10 RT_THREAD_RUNNING,
        Ptr 2 := demo_thread 12 RT_THREAD_SUSPEND,
        Ptr 3 := demo_thread 8 RT_THREAD_SUSPEND,
        Idle_thread := demo_thread 31 RT_THREAD_READY),
     timers = (\<lambda>p. \<lparr>tm_timeout_func = Rt_thread_timeout, tm_parameter = p, tm_init_tick = 0,
       tm_timeout_tick = 0\<rparr>),
     sems = (\<lambda>p. case p of Heap_lock h \<Rightarrow> 1 | _ \<Rightarrow> 0),
     mutexes = (\<lambda>_. \<lparr>mx_value = 1, mx_original_priority = 0xff, mx_hold = 0, mx_owner = RT_NULL\<rparr>),
     events = (\<lambda>_. 0),
     mailboxes = (\<lambda>_. \<lparr>mb_msg_pool = [0, 0], mb_size = 2, mb_entry = 0, mb_in_offset = 0,
       mb_out_offset = 0\<rparr>),
     msgqueues = (\<lambda>_. mq_setup 4 2 (\<lambda>_. [0, 0, 0, 0]) \<lparr>mq_next = (\<lambda>_. None), mq_data = (\<lambda>_. []),
       mq_msg_size = 0, mq_max_msgs = 0, mq_entry = 0, mq_head = None, mq_tail = None, mq_free = None\<rparr>),
     tlists = (\<lambda>h. if h = Ready 31 then [Idle_thread] else []),
     trows = (\<lambda>_. []),
     object_lists = (\<lambda>_. []),
     ready_group = push_bit 31 1,
     lock_nest = 0,
     current_thread = Ptr 1,
     current_prio = 10,
     interrupt_nest = 0,
     tick = 0,
     ram = (\<lambda>_. 0x23),
     rt_errno = 0\<rparr>"

lemma demo_state [simp]:
  "tlists demo h = (if h = Ready 31 then [Idle_thread] else [])"
  "current_thread demo = Ptr 1" "lock_nest demo = 0" "interrupt_nest demo = 0"
  "sems demo (Ptr i) = 0" "sems demo (Heap_lock q) = 1" "events demo p = 0" "tick demo = 0"
  "trows demo r = []" "object_lists demo i = []" "ram demo a = 0x23"
  by (simp_all add: demo_def)

lemma demo_threads [simp]:
  "threads demo (Ptr 1) = demo_thread 10 RT_THREAD_RUNNING"
  "threads demo (Ptr (Suc 0)) = demo_thread 10 RT_THREAD_RUNNING"
  "threads demo (Ptr 2) = demo_thread 12 RT_THREAD_SUSPEND"
  "threads demo (Ptr 3) = demo_thread 8 RT_THREAD_SUSPEND"
  "threads demo Idle_thread = demo_thread 31 RT_THREAD_READY"
  by (simp_all add: demo_def)

lemma demo_thread_fields [simp]:
  "th_stat (demo_thread p st) = st" "th_current_priority (demo_thread p st) = p"
  "th_number_mask (demo_thread p st) = push_bit (unat p) 1" "th_error (demo_thread p st) = 0"
  "th_sp (demo_thread p st) = 0x1010" "th_stack_addr (demo_thread p st) = 0x1000"
  "th_stack_size (demo_thread p st) = 0x100"
  by (simp_all add: demo_thread_def zero_thread_def)

lemma demo_types [simp]:
  "has_type demo (Ptr 10) RT_Object_Class_Semaphore" "has_type demo (Ptr 11) RT_Object_Class_Mutex"
  "has_type demo (Ptr 12) RT_Object_Class_Event" "has_type demo (Ptr 13) RT_Object_Class_MailBox"
  "has_type demo (Ptr 14) RT_Object_Class_MessageQueue"
  "has_type demo (Ptr 15) RT_Object_Class_MemHeap" "has_type demo (Ptr 16) RT_Object_Class_MemPool"
  "has_type demo (Thread_timer t) RT_Object_Class_Timer" "has_type demo (Heap_lock h) RT_Object_Class_Semaphore"
  "has_type demo (Ptr 17) RT_Object_Class_Device"
  by (simp_all add: has_type_def demo_def demo_object_def class_defs)

lemma demo_flags [simp]:
  "obj_flag (objs demo (Ptr 10)) = RT_IPC_FLAG_PRIO" "obj_flag (objs demo (Ptr 11)) = RT_IPC_FLAG_PRIO"
  "obj_flag (objs demo (Ptr 12)) = RT_IPC_FLAG_PRIO" "obj_flag (objs demo (Ptr 13)) = RT_IPC_FLAG_PRIO"
  "obj_flag (objs demo (Ptr 14)) = RT_IPC_FLAG_PRIO"
  "obj_flag (objs demo (Heap_lock h)) = RT_IPC_FLAG_FIFO"
  by (simp_all add: demo_def demo_object_def)

lemma demo_thread_ok [simp]:
  "thread_ok demo (Ptr 1)" "thread_ok demo (Ptr (Suc 0))" "thread_ok demo (Ptr 2)" "thread_ok demo (Ptr 3)"
  "thread_ok demo Idle_thread"
  by (simp_all add: thread_ok_def mask_ok_def stack_ok_def RT_THREAD_PRIORITY_MAX_def)
    (simp_all add: has_type_def demo_def demo_object_def class_defs timer_flag_defs)

lemma demo_group [simp]: "bit (ready_group demo) p \<longleftrightarrow> p = 31"
proof -
  have g: "ready_group demo = push_bit 31 1" by (simp add: demo_def)
  show ?thesis unfolding g bit_mask_shift by simp
qed

lemma demo_kernel_ok [simp]: "kernel_ok demo"
proof -
  have "sched_inv demo"
    using demo_thread_ok(5)
    by (auto simp: sched_inv_def table_inv_def tlists_ok_def ready_ok_def thread_ok_def)
  then show ?thesis by (auto simp: kernel_ok_def linked_def)
qed

text \<open>Threads 2 and 3 waiting on a list.\<close>

definition waiting :: "tlist_head \<Rightarrow> ptr list \<Rightarrow> kstate \<Rightarrow> kstate" where
  "waiting q ts s = s\<lparr>tlists := (tlists s)(q := ts)\<rparr>"

lemma demo_waiting_ok [simp]:
  assumes "wait_head q"
  shows "kernel_ok (waiting q [Ptr 2] demo)" "kernel_ok (waiting q [Ptr 3, Ptr 2] demo)"
proof -
  have q: "q \<noteq> Ready 31" using assms by auto
  show k: "kernel_ok (waiting q [Ptr 2] demo)"
    unfolding waiting_def by (rule kernel_ok_link [OF demo_kernel_ok _ _ _ assms]) (use q in \<open>auto simp: linked_def\<close>)
  have e: "waiting q [Ptr 3, Ptr 2] demo = waiting q [Ptr 3, Ptr 2] (waiting q [Ptr 2] demo)"
    by (simp add: waiting_def)
  have t: "thread_ok (waiting q [Ptr 2] demo) (Ptr 3)"
    using demo_thread_ok(4) unfolding waiting_def thread_ok_def mask_ok_def stack_ok_def has_type_def by simp
  show "kernel_ok (waiting q [Ptr 3, Ptr 2] demo)"
    unfolding e unfolding waiting_def [of q "[Ptr 3, Ptr 2]"]
    by (rule kernel_ok_link [OF k _ t _ assms]) (use q in \<open>auto simp: linked_def waiting_def\<close>)
qed

lemma waiting_state [simp]:
  "tlists (waiting q ts s) = (tlists s)(q := ts)" "threads (waiting q ts s) = threads s"
  "objs (waiting q ts s) = objs s" "current_thread (waiting q ts s) = current_thread s"
  "sems (waiting q ts s) = sems s" "mutexes (waiting q ts s) = mutexes s"
  "events (waiting q ts s) = events s" "mailboxes (waiting q ts s) = mailboxes s"
  "msgqueues (waiting q ts s) = msgqueues s" "interrupt_nest (waiting q ts s) = interrupt_nest s"
  "has_type (waiting q ts s) p c = has_type s p c"
  by (simp_all add: waiting_def has_type_def)

lemma demo_context [simp]: "thread_context demo" "thread_context (waiting q ts demo)"
  by (simp_all add: thread_context_def)

lemma demo_ipc_ok [simp]:
  "ipc_ok demo (Ptr 10) RT_Object_Class_Semaphore" "ipc_ok demo (Ptr 11) RT_Object_Class_Mutex"
  "ipc_ok demo (Ptr 12) RT_Object_Class_Event" "ipc_ok demo (Ptr 13) RT_Object_Class_MailBox"
  "ipc_ok demo (Ptr 14) RT_Object_Class_MessageQueue" "ipc_ok demo (Heap_lock h) RT_Object_Class_Semaphore"
  by (simp_all add: ipc_ok_def)

text \<open>The mutex of the example, owned by thread 4 (priority 20), with thread 3 waiting or not.\<close>

definition owned :: "ptr \<Rightarrow> u8 \<Rightarrow> kstate \<Rightarrow> kstate" where
  "owned t h s = upd_mutex (Ptr 11) (\<lambda>_. \<lparr>mx_value = 0, mx_original_priority = 20, mx_hold = h,
     mx_owner = t\<rparr>) s"

lemma owned_ok [simp]:
  "kernel_ok (owned t h s) = kernel_ok s" "has_type (owned t h s) p c = has_type s p c"
  "thread_ok (owned t h s) u = thread_ok s u" "tlists (owned t h s) = tlists s"
  "objs (owned t h s) = objs s" "threads (owned t h s) = threads s"
  "current_thread (owned t h s) = current_thread s" "interrupt_nest (owned t h s) = interrupt_nest s"
  "mutexes (owned t h s) (Ptr 11) = \<lparr>mx_value = 0, mx_original_priority = 20, mx_hold = h, mx_owner = t\<rparr>"
  by (simp_all add: owned_def has_type_def thread_ok_def mask_ok_def stack_ok_def)

lemma demo_thread4_ok [simp]: "thread_ok demo (Ptr 4)"
  by (simp_all add: thread_ok_def mask_ok_def stack_ok_def RT_THREAD_PRIORITY_MAX_def)
    (simp_all add: has_type_def demo_def demo_object_def demo_thread_def zero_thread_def class_defs timer_flag_defs)

lemma owned_mutex_ok:
  assumes "h \<noteq> 0" "t = Ptr 1 \<or> t = Ptr 4"
  shows "mutex_ok (owned t h demo) (Ptr 11)"
    "mutex_ok (owned t h (waiting (Suspend_thread (Ptr 11)) [Ptr 3, Ptr 2] demo)) (Ptr 11)"
proof -
  let ?w = "waiting (Suspend_thread (Ptr 11)) [Ptr 3, Ptr 2] demo"
  have w: "thread_ok ?w u = thread_ok demo u" for u
    by (simp add: thread_ok_def mask_ok_def stack_ok_def) (simp add: waiting_def)
  show "mutex_ok (owned t h demo) (Ptr 11)" "mutex_ok (owned t h ?w) (Ptr 11)"
    using assms
    by (auto simp: mutex_ok_def ipc_ok_def thread_context_def mutex_inv_def RT_THREAD_PRIORITY_MAX_def w
        word_gt_0)
qed

end
