(* ===== verification/RT_Memheap.thy ===== *)
theory RT_Memheap
  imports RT_Ipc RT_Klib
begin

text \<open>
  The memory heap, \<^verbatim>\<open>rt-thread/src/memheap.c\<close>, which \<^verbatim>\<open>rtconfig.h\<close> selects as the system heap.
  A pool is cut into blocks, each behind a header of 24 bytes; the headers are linked in order of
  address, the free ones also on the free list of the heap.  The last header, of a block of
  length 0, is always in use.

  The members of the headers are functions of the address of the header, \<open>next\<close> and \<open>prev\<close> and
  \<open>next_free\<close> and \<open>prev_free\<close> being two memories of links as in \<open>RT_List\<close>.  The bytes of the blocks
  are the separate \<open>payload\<close>; \<open>heap_inv\<close> shows that no header lies inside a block.
\<close>

definition RT_MEMHEAP_MAGIC :: u32 where "RT_MEMHEAP_MAGIC = 0x1ea01ea0"
definition RT_MEMHEAP_MASK :: u32 where "RT_MEMHEAP_MASK = 0xfffffffe"
definition RT_MEMHEAP_USED :: u32 where "RT_MEMHEAP_USED = 1"
definition RT_MEMHEAP_MINIALLOC :: u32 where "RT_MEMHEAP_MINIALLOC = 12"
definition RT_MEMHEAP_SIZE :: u32 where "RT_MEMHEAP_SIZE = 24"

lemmas memheap_consts = RT_MEMHEAP_MAGIC_def RT_MEMHEAP_MASK_def RT_MEMHEAP_USED_def
  RT_MEMHEAP_MINIALLOC_def RT_MEMHEAP_SIZE_def

text \<open>\<open>mh_free_header\<close> is the address of the embedded header of the free list.\<close>

record rt_memheap =
  mh_start_addr :: u32
  mh_pool_size :: u32
  mh_available_size :: u32
  mh_max_used_size :: u32
  mh_block_list :: u32
  mh_free_list :: u32
  mh_free_header :: u32

record memory =
  it_magic :: "u32 \<Rightarrow> u32"
  it_pool :: "u32 \<Rightarrow> ptr"
  it_block :: "u32 links"
  it_free :: "u32 links"
  memheaps :: "ptr \<Rightarrow> rt_memheap"
  payload :: bytes

abbreviation upd_heap :: "ptr \<Rightarrow> (rt_memheap \<Rightarrow> rt_memheap) \<Rightarrow> memory \<Rightarrow> memory" where
  "upd_heap p f \<equiv> memheaps_update (\<lambda>h. h(p := f (h p)))"

abbreviation set_magic :: "u32 \<Rightarrow> u32 \<Rightarrow> memory \<Rightarrow> memory" where
  "set_magic a v \<equiv> it_magic_update (\<lambda>f. f(a := v))"

abbreviation set_pool :: "u32 \<Rightarrow> ptr \<Rightarrow> memory \<Rightarrow> memory" where
  "set_pool a p \<equiv> it_pool_update (\<lambda>f. f(a := p))"

definition memheap_is_used :: "memory \<Rightarrow> u32 \<Rightarrow> bool" where
  "memheap_is_used m a \<longleftrightarrow> it_magic m a AND RT_MEMHEAP_USED \<noteq> 0"

definition memitem_size :: "memory \<Rightarrow> u32 \<Rightarrow> u32" where
  "memitem_size m a = next_of (it_block m) a - a - RT_MEMHEAP_SIZE"

definition heap_request :: "u32 \<Rightarrow> u32" where
  "heap_request n = (if RT_ALIGN4 n < RT_MEMHEAP_MINIALLOC then RT_MEMHEAP_MINIALLOC else RT_ALIGN4 n)"

subsection \<open>The assignments to the links\<close>

text \<open>\<open>new\<close> behind \<open>y\<close>, as in lines 210 to 213 on the block list and 222 to 225 on the free list.\<close>

definition item_link_after :: "u32 \<Rightarrow> u32 \<Rightarrow> u32 links \<Rightarrow> u32 links" where
  "item_link_after y new l =
     (let l1 = set_prev new y l;
          l2 = set_next new (next_of l1 y) l1;
          l3 = set_prev (next_of l2 y) new l2
      in set_next y new l3)"

text \<open>Lines 216 and 217.\<close>

definition item_unlink :: "u32 \<Rightarrow> u32 links \<Rightarrow> u32 links" where
  "item_unlink a l =
     (let l1 = set_prev (next_of l a) (prev_of l a) l
      in set_next (prev_of l1 a) (next_of l1 a) l1)"

definition free_push :: "ptr \<Rightarrow> u32 \<Rightarrow> memory \<Rightarrow> memory" where
  "free_push heap a m = it_free_update (item_link_after (mh_free_list (memheaps m heap)) a) m"

definition free_unlink :: "u32 \<Rightarrow> memory \<Rightarrow> memory" where
  "free_unlink a = it_free_update (item_unlink a)"

definition free_reset :: "u32 \<Rightarrow> memory \<Rightarrow> memory" where
  "free_reset a = it_free_update (\<lambda>l. set_prev a 0 (set_next a 0 l))"

text \<open>The count of the available bytes and the high water mark.\<close>

definition heap_take :: "ptr \<Rightarrow> u32 \<Rightarrow> memory \<Rightarrow> memory" where
  "heap_take heap n = upd_heap heap (\<lambda>h.
     let h1 = h\<lparr>mh_available_size := mh_available_size h - n\<rparr>
     in if mh_pool_size h1 - mh_available_size h1 > mh_max_used_size h1
        then h1\<lparr>mh_max_used_size := mh_pool_size h1 - mh_available_size h1\<rparr> else h1)"

definition heap_give :: "ptr \<Rightarrow> u32 \<Rightarrow> memory \<Rightarrow> memory" where
  "heap_give heap n = upd_heap heap (mh_available_size_update (\<lambda>a. a + n))"

text \<open>A new free header at \<open>new\<close> behind \<open>header\<close>.\<close>

definition item_split :: "ptr \<Rightarrow> u32 \<Rightarrow> u32 \<Rightarrow> memory \<Rightarrow> memory" where
  "item_split heap header new m =
     it_block_update (item_link_after header new)
       (set_pool new heap (set_magic new RT_MEMHEAP_MAGIC m))"

subsection \<open>Allocation\<close>

text \<open>Lines 170 to 180: first fit on the free list.\<close>

partial_function (option) memheap_search :: "u32 \<Rightarrow> u32 \<Rightarrow> memory \<Rightarrow> u32 \<Rightarrow> u32 \<Rightarrow> (u32 \<times> u32) option" where
  "memheap_search sz free_list m header free_size =
     (if header \<noteq> free_list \<and> free_size < sz then
        let free_size = memitem_size m header
        in memheap_search sz free_list m
             (if free_size < sz then next_of (it_free m) header else header) free_size
      else Some (header, free_size))"

text \<open>Lines 187 to 258: the found block is split, or taken as it is, and marked as used.\<close>

definition memheap_take_block :: "ptr \<Rightarrow> u32 \<Rightarrow> u32 \<Rightarrow> u32 \<Rightarrow> memory \<Rightarrow> memory" where
  "memheap_take_block heap sz header free_size m =
     (let m1 = (if free_size \<ge> sz + RT_MEMHEAP_SIZE + RT_MEMHEAP_MINIALLOC
        then let new = header + sz + RT_MEMHEAP_SIZE;
                 m = item_split heap header new m;
                 m = free_reset header (free_unlink header m);
                 m = free_push heap new m
             in heap_take heap (sz + RT_MEMHEAP_SIZE) m
        else free_reset header (free_unlink header (heap_take heap free_size m)))
      in set_magic header (it_magic m1 header OR RT_MEMHEAP_USED) m1)"

definition memheap_alloc_block :: "ptr \<Rightarrow> u32 \<Rightarrow> memory \<Rightarrow> (u32 \<times> memory) option" where
  "memheap_alloc_block heap sz m = do {
     let free_list = mh_free_list (memheaps m heap);
     (header, free_size) \<leftarrow> memheap_search sz free_list m (next_of (it_free m) free_list) 0;
     Some (if free_size \<ge> sz
       then (header + RT_MEMHEAP_SIZE, memheap_take_block heap sz header free_size m)
       else (0, m))
   }"

subsection \<open>Release\<close>

text \<open>Lines 535 to 591: the block is marked free and merged with its free neighbours.\<close>

definition memheap_free_block :: "ptr \<Rightarrow> u32 \<Rightarrow> memory \<Rightarrow> memory" where
  "memheap_free_block heap header m =
     (let m = set_magic header (it_magic m header AND NOT RT_MEMHEAP_USED) m;
          m = heap_give heap (memitem_size m header) m;
          left = prev_of (it_block m) header;
          (header, insert_header, m) =
            (if \<not> memheap_is_used m left
             then (left, False, it_block_update (\<lambda>l.
               let l1 = set_next (prev_of l header) (next_of l header) l
               in set_prev (next_of l1 header) (prev_of l1 header) l1)
               (heap_give heap RT_MEMHEAP_SIZE m))
             else (header, True, m));
          right = next_of (it_block m) header;
          m = (if \<not> memheap_is_used m right
             then free_unlink right (it_block_update (\<lambda>l.
               let l1 = set_prev (next_of l right) header l
               in set_next header (next_of l1 right) l1)
               (heap_give heap RT_MEMHEAP_SIZE m))
             else m)
      in if insert_header then free_push heap header m else m)"

subsection \<open>Reallocation\<close>

text \<open>
  Lines 328 to 397: a block grows into the free block behind it.  The result tells whether it
  did; \<open>oldsize\<close> was read before the lock was taken.
\<close>

definition memheap_grow_block :: "ptr \<Rightarrow> u32 \<Rightarrow> u32 \<Rightarrow> u32 \<Rightarrow> memory \<Rightarrow> (bool \<times> memory) option" where
  "memheap_grow_block heap header oldsize newsize m = do {
     let nxt = next_of (it_block m) header;
     RT_ASSERT (nxt > header);
     if memheap_is_used m nxt then Some (False, m)
     else do {
       let nextsize = memitem_size m nxt;
       RT_ASSERT (nxt > 0);
       if nextsize + oldsize > newsize + RT_MEMHEAP_MINIALLOC
       then let m1 = heap_take heap (newsize - oldsize) m;
                m2 = it_block_update (item_unlink nxt) (free_unlink nxt m1);
                new = header + RT_MEMHEAP_SIZE + newsize
            in Some (True, free_push heap new (item_split heap header new m2))
       else Some (False, m)
     }
   }"

text \<open>Lines 432 to 485: the tail of a block becomes a free block, merged with a free one behind it.\<close>

definition memheap_shrink_block :: "ptr \<Rightarrow> u32 \<Rightarrow> u32 \<Rightarrow> memory \<Rightarrow> memory" where
  "memheap_shrink_block heap header newsize m =
     (let new = header + newsize + RT_MEMHEAP_SIZE;
          m1 = item_split heap header new m;
          right = next_of (it_block m1) new;
          m2 = (if \<not> memheap_is_used m1 right
            then free_unlink right (it_block_update (\<lambda>l.
              let l1 = set_prev (next_of l right) new l
              in set_next new (next_of l1 right) l1)
              (heap_give heap (- memitem_size m1 right) m1))
            else m1);
          m3 = free_push heap new m2
      in heap_give heap (memitem_size m3 new) m3)"

subsection \<open>The heap object and its lock\<close>

text \<open>
  The functions of the API work on the memory and on the kernel with the semaphore
  \<open>Heap_lock heap\<close>.  Where \<open>rt_sem_take\<close> blocks, the result is \<open>Wait\<close>, and the thread goes on in the
  definition with the suffix \<open>_locked\<close> with the result of the take.  An address 0 is \<open>RT_NULL\<close>.
\<close>

text \<open>The members of a new heap, the first block over the whole pool and the last header.\<close>

definition memheap_layout :: "ptr \<Rightarrow> u32 \<Rightarrow> u32 \<Rightarrow> memory \<Rightarrow> memory" where
  "memheap_layout heap start_addr sz m =
     (let pool_size = sz AND NOT 3;
          available = pool_size - 2 * RT_MEMHEAP_SIZE;
          hdr = mh_free_header (memheaps m heap);
          m1 = upd_heap heap (\<lambda>h. h\<lparr>mh_start_addr := start_addr, mh_pool_size := pool_size,
            mh_available_size := available, mh_max_used_size := pool_size - available,
            mh_free_list := hdr, mh_block_list := start_addr\<rparr>) m;
          m2 = set_pool hdr heap (set_magic hdr RT_MEMHEAP_MAGIC m1);
          m3 = it_block_update (\<lambda>l. set_prev hdr 0 (set_next hdr 0 l)) m2;
          m4 = it_free_update (\<lambda>l. set_prev hdr hdr (set_next hdr hdr l)) m3;
          m5 = set_pool start_addr heap (set_magic start_addr RT_MEMHEAP_MAGIC m4);
          tail = start_addr + available + RT_MEMHEAP_SIZE;
          m6 = it_block_update (\<lambda>l. set_prev start_addr tail (set_next start_addr tail l)) m5;
          m7 = free_push heap start_addr (it_free_update
            (\<lambda>l. set_prev start_addr start_addr (set_next start_addr start_addr l)) m6);
          m8 = set_pool tail heap (set_magic tail (RT_MEMHEAP_MAGIC OR RT_MEMHEAP_USED) m7);
          m9 = it_block_update (\<lambda>l. set_prev tail start_addr (set_next tail start_addr l)) m8
      in free_reset tail m9)"

definition rt_memheap_init ::
  "ptr \<Rightarrow> string \<Rightarrow> u32 \<Rightarrow> u32 \<Rightarrow> memory \<Rightarrow> kstate \<Rightarrow> (rt_err_t \<times> memory \<times> kstate) option" where
  "rt_memheap_init heap name start_addr sz m s = do {
     RT_ASSERT (heap \<noteq> RT_NULL);
     s1 \<leftarrow> rt_object_init heap RT_Object_Class_MemHeap name s;
     (r, s2) \<leftarrow> rt_sem_init (Heap_lock heap) name 1 RT_IPC_FLAG_FIFO s1;
     Some (RT_EOK, memheap_layout heap start_addr sz m, s2)
   }"

definition rt_memheap_detach :: "ptr \<Rightarrow> kstate \<Rightarrow> (rt_err_t \<times> kstate) option" where
  "rt_memheap_detach heap s = do {
     RT_ASSERT (heap \<noteq> RT_NULL);
     assert_type heap RT_Object_Class_MemHeap s;
     assert_static heap True s;
     s1 \<leftarrow> rt_object_detach (Heap_lock heap) s;
     s2 \<leftarrow> rt_object_detach heap s1;
     Some (RT_EOK, s2)
   }"

definition memheap_alloc_locked ::
  "ptr \<Rightarrow> u32 \<Rightarrow> rt_err_t \<Rightarrow> memory \<Rightarrow> kstate \<Rightarrow> (u32 outcome \<times> memory \<times> kstate) option" where
  "memheap_alloc_locked heap sz result m s =
     (if result \<noteq> RT_EOK then Some (Ret 0, m, rt_set_errno result s)
      else do {
        (p, m') \<leftarrow> memheap_alloc_block heap sz m;
        (r, s') \<leftarrow> rt_sem_release (Heap_lock heap) s;
        Some (Ret p, m', s')
      })"

definition rt_memheap_alloc ::
  "ptr \<Rightarrow> u32 \<Rightarrow> memory \<Rightarrow> kstate \<Rightarrow> (u32 outcome \<times> memory \<times> kstate) option" where
  "rt_memheap_alloc heap n m s = do {
     RT_ASSERT (heap \<noteq> RT_NULL);
     assert_type heap RT_Object_Class_MemHeap s;
     let sz = heap_request n;
     if sz < mh_available_size (memheaps m heap) then do {
       (w, s1) \<leftarrow> rt_sem_take (Heap_lock heap) RT_WAITING_FOREVER s;
       case w of
         Wait \<Rightarrow> Some (Wait, m, s1)
       | Ret result \<Rightarrow> memheap_alloc_locked heap sz result m s1
     }
     else Some (Ret 0, m, s)
   }"

text \<open>A release; lines 502 to 524 are the checks, the definition with \<open>_locked\<close> the rest.\<close>

definition memheap_free_locked ::
  "u32 \<Rightarrow> rt_err_t \<Rightarrow> memory \<Rightarrow> kstate \<Rightarrow> (unit outcome \<times> memory \<times> kstate) option" where
  "memheap_free_locked header result m s =
     (if result \<noteq> RT_EOK then Some (Ret (), m, rt_set_errno result s)
      else do {
        let heap = it_pool m header;
        let m' = memheap_free_block heap header m;
        (r, s') \<leftarrow> rt_sem_release (Heap_lock heap) s;
        Some (Ret (), m', s')
      })"

definition rt_memheap_free :: "u32 \<Rightarrow> memory \<Rightarrow> kstate \<Rightarrow> (unit outcome \<times> memory \<times> kstate) option" where
  "rt_memheap_free p m s =
     (if p = 0 then Some (Ret (), m, s)
      else do {
        let header = p - RT_MEMHEAP_SIZE;
        RT_ASSERT (it_magic m header AND RT_MEMHEAP_MASK = RT_MEMHEAP_MAGIC);
        RT_ASSERT (memheap_is_used m header);
        RT_ASSERT (it_magic m (next_of (it_block m) header) AND RT_MEMHEAP_MASK = RT_MEMHEAP_MAGIC);
        let heap = it_pool m header;
        RT_ASSERT (heap \<noteq> RT_NULL);
        assert_type heap RT_Object_Class_MemHeap s;
        (w, s1) \<leftarrow> rt_sem_take (Heap_lock heap) RT_WAITING_FOREVER s;
        case w of
          Wait \<Rightarrow> Some (Wait, m, s1)
        | Ret result \<Rightarrow> memheap_free_locked header result m s1
      })"

text \<open>
  Reallocation.  \<open>memheap_realloc_copy\<close> is the part after the allocation of another block, lines
  410 to 416; \<open>memheap_realloc_grow\<close> and \<open>memheap_realloc_shrink\<close> are the parts under the lock.
\<close>

definition memheap_realloc_copy ::
  "u32 \<Rightarrow> u32 \<Rightarrow> u32 \<Rightarrow> u32 \<Rightarrow> memory \<Rightarrow> kstate \<Rightarrow> (u32 outcome \<times> memory \<times> kstate) option" where
  "memheap_realloc_copy p oldsize newsize new m s =
     (if new \<noteq> 0 then do {
        let n = (if oldsize < newsize then oldsize else newsize);
        (w, m', s') \<leftarrow> rt_memheap_free p
          (payload_update (rt_memcpy (unat new) (unat p) (unat n)) m) s;
        Some (case w of Wait \<Rightarrow> Wait | Ret _ \<Rightarrow> Ret new, m', s')
      }
      else Some (Ret 0, m, s))"

definition memheap_realloc_grow ::
  "ptr \<Rightarrow> u32 \<Rightarrow> u32 \<Rightarrow> u32 \<Rightarrow> rt_err_t \<Rightarrow> memory \<Rightarrow> kstate \<Rightarrow> (u32 outcome \<times> memory \<times> kstate) option" where
  "memheap_realloc_grow heap p oldsize newsize result m s =
     (if result \<noteq> RT_EOK then Some (Ret 0, m, rt_set_errno result s)
      else do {
        (grown, m1) \<leftarrow> memheap_grow_block heap (p - RT_MEMHEAP_SIZE) oldsize newsize m;
        (r, s1) \<leftarrow> rt_sem_release (Heap_lock heap) s;
        if grown then Some (Ret p, m1, s1)
        else do {
          (w, m2, s2) \<leftarrow> rt_memheap_alloc heap newsize m1 s1;
          case w of
            Wait \<Rightarrow> Some (Wait, m2, s2)
          | Ret new \<Rightarrow> memheap_realloc_copy p oldsize newsize new m2 s2
        }
      })"

definition memheap_realloc_shrink ::
  "ptr \<Rightarrow> u32 \<Rightarrow> u32 \<Rightarrow> rt_err_t \<Rightarrow> memory \<Rightarrow> kstate \<Rightarrow> (u32 outcome \<times> memory \<times> kstate) option" where
  "memheap_realloc_shrink heap p newsize result m s =
     (if result \<noteq> RT_EOK then Some (Ret 0, m, rt_set_errno result s)
      else do {
        let m' = memheap_shrink_block heap (p - RT_MEMHEAP_SIZE) newsize m;
        (r, s') \<leftarrow> rt_sem_release (Heap_lock heap) s;
        Some (Ret p, m', s')
      })"

definition rt_memheap_realloc ::
  "ptr \<Rightarrow> u32 \<Rightarrow> u32 \<Rightarrow> memory \<Rightarrow> kstate \<Rightarrow> (u32 outcome \<times> memory \<times> kstate) option" where
  "rt_memheap_realloc heap p n m s = do {
     RT_ASSERT (heap \<noteq> RT_NULL);
     assert_type heap RT_Object_Class_MemHeap s;
     if n = 0 then do {
       (w, m', s') \<leftarrow> rt_memheap_free p m s;
       Some (case w of Wait \<Rightarrow> Wait | Ret _ \<Rightarrow> Ret 0, m', s')
     }
     else do {
       let newsize = heap_request n;
       if p = 0 then rt_memheap_alloc heap newsize m s
       else do {
         let oldsize = memitem_size m (p - RT_MEMHEAP_SIZE);
         if newsize > oldsize then do {
           (w, s1) \<leftarrow> rt_sem_take (Heap_lock heap) RT_WAITING_FOREVER s;
           case w of
             Wait \<Rightarrow> Some (Wait, m, s1)
           | Ret result \<Rightarrow> memheap_realloc_grow heap p oldsize newsize result m s1
         }
         else if newsize + RT_MEMHEAP_SIZE + RT_MEMHEAP_MINIALLOC \<ge> oldsize then Some (Ret p, m, s)
         else do {
           (w, s1) \<leftarrow> rt_sem_take (Heap_lock heap) RT_WAITING_FOREVER s;
           case w of
             Wait \<Rightarrow> Some (Wait, m, s1)
           | Ret result \<Rightarrow> memheap_realloc_shrink heap p newsize result m s1
         }
       }
     }
   }"

subsection \<open>The system heap\<close>

definition rt_system_heap_init :: "u32 \<Rightarrow> u32 \<Rightarrow> memory \<Rightarrow> kstate \<Rightarrow> (memory \<times> kstate) option" where
  "rt_system_heap_init begin_addr end_addr m s = do {
     (r, m', s') \<leftarrow> rt_memheap_init System_heap ''heap'' begin_addr (end_addr - begin_addr) m s;
     Some (m', s')
   }"

text \<open>The loop of \<open>rt_malloc\<close> over the other heaps.\<close>

fun malloc_other :: "u32 \<Rightarrow> ptr list \<Rightarrow> memory \<Rightarrow> kstate \<Rightarrow> (u32 outcome \<times> memory \<times> kstate) option" where
  "malloc_other n [] m s = Some (Ret 0, m, s)"
| "malloc_other n (heap # hs) m s = do {
     RT_ASSERT (heap \<noteq> RT_NULL);
     assert_type heap RT_Object_Class_MemHeap s;
     if heap = System_heap then malloc_other n hs m s
     else do {
       (w, m', s') \<leftarrow> rt_memheap_alloc heap n m s;
       if w = Ret 0 then malloc_other n hs m' s' else Some (w, m', s')
     }
   }"

definition rt_malloc :: "u32 \<Rightarrow> memory \<Rightarrow> kstate \<Rightarrow> (u32 outcome \<times> memory \<times> kstate) option" where
  "rt_malloc n m s = do {
     (w, m', s') \<leftarrow> rt_memheap_alloc System_heap n m s;
     if w = Ret 0 then do {
       i \<leftarrow> rt_object_get_information RT_Object_Class_MemHeap;
       malloc_other n (object_lists s' i) m' s'
     }
     else Some (w, m', s')
   }"

definition rt_free :: "u32 \<Rightarrow> memory \<Rightarrow> kstate \<Rightarrow> (unit outcome \<times> memory \<times> kstate) option" where
  "rt_free rmem m s = rt_memheap_free rmem m s"

text \<open>The part of \<open>rt_realloc\<close> after the allocation in another heap.\<close>

definition realloc_moved ::
  "u32 \<Rightarrow> u32 \<Rightarrow> u32 \<Rightarrow> memory \<Rightarrow> kstate \<Rightarrow> (u32 outcome \<times> memory \<times> kstate) option" where
  "realloc_moved rmem newsize new m s =
     (if new \<noteq> 0 \<and> rmem \<noteq> 0 then do {
        let oldsize = memitem_size m (rmem - RT_MEMHEAP_SIZE);
        let n = (if newsize > oldsize then oldsize else newsize);
        (w, m', s') \<leftarrow> rt_free rmem (payload_update (rt_memcpy (unat new) (unat rmem) (unat n)) m) s;
        Some (case w of Wait \<Rightarrow> Wait | Ret _ \<Rightarrow> Ret new, m', s')
      }
      else Some (Ret new, m, s))"

definition rt_realloc :: "u32 \<Rightarrow> u32 \<Rightarrow> memory \<Rightarrow> kstate \<Rightarrow> (u32 outcome \<times> memory \<times> kstate) option" where
  "rt_realloc rmem newsize m s =
     (if rmem = 0 then rt_malloc newsize m s
      else if newsize = 0 then do {
        (w, m', s') \<leftarrow> rt_free rmem m s;
        Some (case w of Wait \<Rightarrow> Wait | Ret _ \<Rightarrow> Ret 0, m', s')
      }
      else do {
        (w, m1, s1) \<leftarrow> rt_memheap_realloc (it_pool m (rmem - RT_MEMHEAP_SIZE)) rmem newsize m s;
        if w = Ret 0 then do {
          (w2, m2, s2) \<leftarrow> rt_malloc newsize m1 s1;
          case w2 of
            Wait \<Rightarrow> Some (Wait, m2, s2)
          | Ret new \<Rightarrow> realloc_moved rmem newsize new m2 s2
        }
        else Some (w, m1, s1)
      })"

definition rt_calloc :: "u32 \<Rightarrow> u32 \<Rightarrow> memory \<Rightarrow> kstate \<Rightarrow> (u32 outcome \<times> memory \<times> kstate) option" where
  "rt_calloc count sz m s = do {
     let total = count * sz;
     (w, m', s') \<leftarrow> rt_malloc total m s;
     Some (w, case w of
         Ret p \<Rightarrow> if p \<noteq> 0 then payload_update (rt_memset (unat p) 0 (unat total)) m' else m'
       | Wait \<Rightarrow> m', s')
   }"

end
