(* ===== verification/RT_Heap_Inv.thy ===== *)
theory RT_Heap_Inv
  imports RT_Memheap
begin

text \<open>
  Why the memory heap works: the headers tile the pool, the free list holds exactly the free
  blocks, no two free blocks are neighbours, and the heap counts the free bytes.  Every operation
  keeps this, and changes the set of allocated blocks in the one way its caller expects.
\<close>

subsection \<open>Circular lists\<close>

definition cyc :: "'n links \<Rightarrow> 'n list \<Rightarrow> bool" where
  "cyc l as \<longleftrightarrow> as \<noteq> [] \<and> dlist l (hd as) (tl as)"

lemma cyc_Cons: "cyc l (a # as) = dlist l a as"
  by (simp add: cyc_def)

lemma cyc_distinct: "cyc l as \<Longrightarrow> distinct as"
  by (cases as) (auto simp: cyc_def dlist_def)

lemma cyc_rotate1: "cyc l (a # as) \<longleftrightarrow> cyc l (as @ [a])"
  by (cases as) (auto simp: cyc_Cons dlist_def chain_append)

lemma cyc_rotate: "cyc l (xs @ ys) \<longleftrightarrow> cyc l (ys @ xs)"
proof (induction xs arbitrary: ys)
  case (Cons x xs)
  then show ?case using cyc_rotate1 [of l x "xs @ ys"] by (simp add: Cons [of "ys @ [x]"])
qed simp

lemma cyc_step:
  assumes "cyc l (xs @ a # b # ys)"
  shows "next_of l a = b" "prev_of l b = a"
proof -
  have "cyc l (a # b # ys @ xs)" using assms cyc_rotate [of l xs "a # b # ys"] by simp
  then show "next_of l a = b" "prev_of l b = a" by (auto simp: cyc_Cons dlist_def)
qed

lemma cyc_ends:
  assumes "cyc l as"
  shows "next_of l (last as) = hd as" "prev_of l (hd as) = last as"
proof -
  obtain a bs where as: "as = a # bs" using assms by (cases as) (auto simp: cyc_def)
  have "chain l a bs a" using assms as by (simp add: cyc_Cons dlist_def)
  moreover have "chain l a bs a \<Longrightarrow> next_of l (last (a # bs)) = a"
    by (cases bs rule: rev_cases) (auto simp: chain_append)
  ultimately show "next_of l (last as) = hd as" "prev_of l (hd as) = last as"
    using as chain_prev [of l a bs a] by auto
qed

lemma link_after_insert:
  assumes "n \<noteq> y" "n \<noteq> next_of l y"
  shows "item_link_after y n l = rt_list_insert_after y n l"
  using assms by (simp add: insert_after_links item_link_after_def set_prev_def set_next_def Let_def fun_upd_twist)

lemma cyc_insert:
  assumes "cyc l (xs @ y # ys)" "n \<notin> set (xs @ y # ys)"
  shows "cyc (item_link_after y n l) (xs @ y # n # ys)"
proof -
  have c: "cyc l (y # ys @ xs)" using assms(1) cyc_rotate [of l xs "y # ys"] by simp
  have "next_of l y \<in> insert y (set (ys @ xs))"
    using dlist_head_next [of l y "ys @ xs"] c unfolding cyc_Cons by (cases "ys @ xs") auto
  then have "item_link_after y n l = rt_list_insert_after y n l"
    using assms(2) by (intro link_after_insert) auto
  moreover have "cyc (rt_list_insert_after y n l) (y # n # ys @ xs)"
    using c assms(2) by (auto simp: cyc_Cons intro: dlist_insert_after_head)
  ultimately show ?thesis using cyc_rotate [of _ xs "y # n # ys"] by simp
qed

lemma cyc_frame:
  assumes "cyc l as"
    and "\<And>x. x \<in> set as \<Longrightarrow> next_of l' x = next_of l x \<and> prev_of l' x = prev_of l x"
  shows "cyc l' as"
proof -
  obtain a bs where "as = a # bs" using assms(1) by (cases as) (auto simp: cyc_def)
  then show ?thesis using assms dlist_frame [of l a bs l'] by (auto simp: cyc_Cons)
qed

text \<open>Taking a node out, with its own links left as they are.\<close>

lemma cyc_unlink:
  assumes "cyc l (xs @ z # ys)" "xs @ ys \<noteq> []"
  shows "cyc (item_unlink z l) (xs @ ys)"
proof -
  obtain w ws where w: "ys @ xs = w # ws" using assms(2) by (cases "ys @ xs") auto
  have "cyc l (z # ys @ xs)" using assms(1) cyc_rotate [of l xs "z # ys"] by simp
  then have "cyc l (w # ws @ [z])" using cyc_rotate1 [of l z "w # ws"] w by simp
  then have c: "dlist l w (ws @ z # [])" by (simp add: cyc_Cons)
  have ne: "next_of l z \<noteq> z" "prev_of l z \<noteq> z"
    using c chain_prev [of l w ws z] by (auto simp: dlist_def chain_append split: if_splits)
  have d: "cyc (rt_list_remove z l) (w # ws)" using dlist_remove [OF c] by (simp add: cyc_Cons)
  have z: "z \<notin> set (w # ws)" using c by (auto simp: dlist_def)
  have "cyc (item_unlink z l) (w # ws)"
    by (rule cyc_frame [OF d])
      (use ne z in \<open>auto simp: remove_links item_unlink_def set_prev_def set_next_def Let_def\<close>)
  then show ?thesis using w cyc_rotate [of _ xs ys] by simp
qed

subsection \<open>First fit\<close>

lemma search_chain:
  assumes "chain (it_free m) a fs h" "h \<notin> set fs" "fsz < sz"
  shows "\<exists>f. memheap_search sz h m (next_of (it_free m) a) fsz =
    Some (case find (\<lambda>x. sz \<le> memitem_size m x) fs of Some x \<Rightarrow> (x, memitem_size m x) | None \<Rightarrow> (h, f))
    \<and> (find (\<lambda>x. sz \<le> memitem_size m x) fs = None \<longrightarrow> f < sz)"
  using assms
proof (induction fs arbitrary: a fsz)
  case Nil
  then show ?case by (auto simp: memheap_search.simps)
next
  case (Cons x xs)
  then have x: "next_of (it_free m) a = x" "x \<noteq> h" by auto
  show ?case
  proof (cases "memitem_size m x < sz")
    case True
    have "memheap_search sz h m x fsz = memheap_search sz h m (next_of (it_free m) x) (memitem_size m x)"
      using Cons.prems x(2) True by (subst memheap_search.simps) (simp add: Let_def)
    moreover have "\<not> sz \<le> memitem_size m x" using True by simp
    ultimately show ?thesis using Cons.IH [of x "memitem_size m x"] Cons.prems True x(1) by auto
  next
    case False
    have "memheap_search sz h m x fsz = memheap_search sz h m x (memitem_size m x)"
      using Cons.prems x(2) False by (subst memheap_search.simps) (simp add: Let_def)
    also have "\<dots> = Some (x, memitem_size m x)"
      using False by (subst memheap_search.simps) simp
    finally show ?thesis using False x(1) by (simp add: not_less)
  qed
qed

subsection \<open>The invariant\<close>

text \<open>Two headers with room for a header and the least allocation between them.\<close>

definition far :: "u32 \<Rightarrow> u32 \<Rightarrow> bool" where
  "far a b \<longleftrightarrow> unat a + 36 \<le> unat b"

definition tiling :: "rt_memheap \<Rightarrow> u32 list \<Rightarrow> bool" where
  "tiling H as \<longleftrightarrow> sorted_wrt far as \<and> 2 \<le> length as \<and> (\<forall>a \<in> set as. 4 dvd unat a) \<and>
     hd as = mh_start_addr H \<and> 0 < unat (hd as) \<and>
     unat (last as) + 24 = unat (mh_start_addr H) + unat (mh_pool_size H) \<and> unat (last as) + 24 \<le> 2 ^ 32"

definition freelist :: "memory \<Rightarrow> rt_memheap \<Rightarrow> u32 list \<Rightarrow> u32 list \<Rightarrow> bool" where
  "freelist m H as fs \<longleftrightarrow> cyc (it_free m) (mh_free_list H # fs) \<and>
     set fs = {a \<in> set as. \<not> memheap_is_used m a} \<and>
     (unat (mh_free_list H) < unat (mh_start_addr H) \<or>
      unat (mh_start_addr H) + unat (mh_pool_size H) \<le> unat (mh_free_list H))"

definition adj :: "(u32 \<Rightarrow> bool) \<Rightarrow> u32 list \<Rightarrow> bool" where
  "adj U as \<longleftrightarrow> successively (\<lambda>a b. U a \<or> U b) as"

definition marks :: "ptr \<Rightarrow> memory \<Rightarrow> u32 list \<Rightarrow> bool" where
  "marks h m as \<longleftrightarrow>
     (\<forall>a \<in> set as. it_magic m a AND RT_MEMHEAP_MASK = RT_MEMHEAP_MAGIC \<and> it_pool m a = h) \<and>
     memheap_is_used m (last as) \<and>
     adj (memheap_is_used m) as"

text \<open>The free bytes, and the allocated blocks as pairs of address and length.\<close>

fun room :: "(u32 \<Rightarrow> bool) \<Rightarrow> u32 list \<Rightarrow> nat" where
  "room U (a # b # as) = (if U a then 0 else unat b - unat a - 24) + room U (b # as)"
| "room U as = 0"

fun regions :: "(u32 \<Rightarrow> bool) \<Rightarrow> u32 list \<Rightarrow> (nat \<times> nat) set" where
  "regions U (a # b # as) = (if U a then {(unat a + 24, unat b - unat a - 24)} else {}) \<union> regions U (b # as)"
| "regions U as = {}"

definition heap_inv :: "ptr \<Rightarrow> u32 list \<Rightarrow> u32 list \<Rightarrow> memory \<Rightarrow> bool" where
  "heap_inv h as fs m \<longleftrightarrow>
     tiling (memheaps m h) as \<and> cyc (it_block m) as \<and> freelist m (memheaps m h) as fs \<and> marks h m as \<and>
     unat (mh_available_size (memheaps m h)) = room (memheap_is_used m) as"

definition heap_ok :: "ptr \<Rightarrow> memory \<Rightarrow> bool" where
  "heap_ok h m \<longleftrightarrow> (\<exists>as fs. heap_inv h as fs m)"

lemma far_trans: "far a b \<Longrightarrow> far b c \<Longrightarrow> far a c"
  by (simp add: far_def)

lemma tiling_fresh:
  assumes "tiling H (xs @ a # b # ys)" "far a n" "far n b"
  shows "n \<notin> set (xs @ a # b # ys)"
  using assms by (auto simp: tiling_def sorted_wrt_append far_def)

lemma tiling_pool:
  assumes "tiling H as" "x \<in> set as"
  shows "unat (mh_start_addr H) \<le> unat x \<and> unat x + 24 \<le> unat (mh_start_addr H) + unat (mh_pool_size H)"
proof -
  obtain xs ys where as: "as = xs @ x # ys" using assms(2) by (meson split_list)
  have "unat (hd as) \<le> unat x"
    using assms(1) as by (cases xs) (auto simp: tiling_def far_def sorted_wrt_append)
  moreover have "unat x \<le> unat (last as)"
    using assms(1) as by (cases ys rule: rev_cases) (auto simp: tiling_def far_def sorted_wrt_append)
  ultimately show ?thesis using assms(1) by (auto simp: tiling_def)
qed

text \<open>
  All four look at neighbours only.  A change between the headers \<open>a\<close> and \<open>b\<close> of
  \<open>xs @ a # mid @ b # ys\<close> is seen only there.
\<close>

lemma sorted_far_mid:
  "sorted_wrt far (xs @ a # mid @ b # ys) \<longleftrightarrow>
     sorted_wrt far (xs @ [a]) \<and> sorted_wrt far (a # mid @ [b]) \<and> sorted_wrt far (b # ys)"
  by (auto simp: sorted_wrt_append dest: far_trans) (meson far_trans)+

lemma room_split: "room U (xs @ a # ys) = room U (xs @ [a]) + room U (a # ys)"
  by (induction U xs rule: room.induct) auto

lemma regions_split: "regions U (xs @ a # ys) = regions U (xs @ [a]) \<union> regions U (a # ys)"
  by (induction U xs rule: regions.induct) auto

lemma room_cong: "(\<And>x. x \<in> set xs \<Longrightarrow> U' x = U x) \<Longrightarrow> room U' (xs @ [a]) = room U (xs @ [a])"
  by (induction U xs rule: room.induct) auto

lemma regions_cong: "(\<And>x. x \<in> set xs \<Longrightarrow> U' x = U x) \<Longrightarrow> regions U' (xs @ [a]) = regions U (xs @ [a])"
  by (induction U xs rule: regions.induct) auto

lemma room_cong_all: "(\<And>x. x \<in> set as \<Longrightarrow> U' x = U x) \<Longrightarrow> room U' as = room U as"
  by (induction U as rule: room.induct) auto

lemma regions_cong_all: "(\<And>x. x \<in> set as \<Longrightarrow> U' x = U x) \<Longrightarrow> regions U' as = regions U as"
  by (induction U as rule: regions.induct) auto

lemma room_mid:
  assumes "\<And>x. x \<in> set xs \<union> set (b # ys) \<Longrightarrow> U' x = U x"
  shows "room U' (xs @ a # mid @ b # ys) = room U (xs @ [a]) + room U' (a # mid @ [b]) + room U (b # ys)"
  using assms room_split [of U' xs a "mid @ b # ys"] room_split [of U' "a # mid" b ys]
    room_cong [of xs U' U a] room_cong_all [of "b # ys" U' U] by auto

lemma regions_mid:
  assumes "\<And>x. x \<in> set xs \<union> set (b # ys) \<Longrightarrow> U' x = U x"
  shows "regions U' (xs @ a # mid @ b # ys) =
    regions U (xs @ [a]) \<union> regions U (b # ys) \<union> regions U' (a # mid @ [b])"
  using assms regions_split [of U' xs a "mid @ b # ys"] regions_split [of U' "a # mid" b ys]
    regions_cong [of xs U' U a] regions_cong_all [of "b # ys" U' U] by auto

lemma adj_cong_all: "(\<And>x. x \<in> set as \<Longrightarrow> U' x = U x) \<Longrightarrow> adj U' as = adj U as"
  unfolding adj_def by (auto intro!: successively_cong)

lemma adj_split:
  "adj U (xs @ a # ys) \<longleftrightarrow> adj U xs \<and> adj U (a # ys) \<and> (xs = [] \<or> U (last xs) \<or> U a)"
  by (auto simp: adj_def successively_append_iff)

lemma adj_mid:
  assumes same: "\<And>x. x \<in> set xs \<union> set (b # ys) \<Longrightarrow> U' x = U x" and old: "adj U (xs @ a # mid @ b # ys)"
    and new: "adj U' (a # mid' @ [b])" and left: "xs = [] \<or> U (last xs) \<or> U' a"
  shows "adj U' (xs @ a # mid' @ b # ys)"
proof -
  have "adj U xs" "adj U (b # ys)"
    using old adj_split [of U xs a] adj_split [of U "a # mid" b] by auto
  then have "adj U' xs" "adj U' (b # ys)"
    using adj_cong_all [of xs U' U] adj_cong_all [of "b # ys" U' U] same by auto
  moreover have "xs = [] \<or> U' (last xs) \<or> U' a" using left same last_in_set by blast
  ultimately show ?thesis
    using new adj_split [of U' xs a] adj_split [of U' "a # mid'" b ys] adj_split [of U' "a # mid'" b "[]"]
    by auto
qed

lemma room_bound:
  assumes "sorted_wrt far as"
  shows "as \<noteq> [] \<Longrightarrow> room U as + unat (hd as) \<le> unat (last as)"
    "2 \<le> length as \<Longrightarrow> room U as + unat (hd as) + 24 \<le> unat (last as)"
  using assms
proof (induction U as rule: room.induct)
  case (1 U a b as)
  { case 1
    then show ?case using "1.IH"(1) by (auto simp: far_def) }
  { case 2
    then show ?case using "1.IH"(1) by (auto simp: far_def) }
qed auto

lemma regions_addr: "(p, k) \<in> regions U as \<Longrightarrow> \<exists>x \<in> set (butlast as). p = unat x + 24 \<and> U x"
  by (induction U as rule: regions.induct) (auto split: if_splits)

lemma heap_invD:
  assumes "heap_inv h as fs m"
  shows "tiling (memheaps m h) as" "cyc (it_block m) as" "freelist m (memheaps m h) as fs" "marks h m as"
    "unat (mh_available_size (memheaps m h)) = room (memheap_is_used m) as"
  using assms by (simp_all add: heap_inv_def)

text \<open>A header other than the last has a successor, and the length of its block is what lies between.\<close>

lemma heap_block:
  assumes "heap_inv h as fs m" "a \<in> set as" "a \<noteq> last as"
  obtains xs b ys where "as = xs @ a # b # ys" "next_of (it_block m) a = b" "prev_of (it_block m) b = a" "far a b"
    "unat (memitem_size m a) = unat b - unat a - 24"
proof -
  obtain xs zs where as: "as = xs @ a # zs" using assms(2) by (meson split_list)
  obtain b ys where zs: "zs = b # ys" using as assms(3) by (cases zs) auto
  have n: "next_of (it_block m) a = b" "prev_of (it_block m) b = a"
    using cyc_step [of "it_block m" xs a b ys] heap_invD(2) [OF assms(1)] as zs by auto
  have f: "far a b" using heap_invD(1) [OF assms(1)] as zs by (simp add: tiling_def sorted_wrt_append)
  have "memitem_size m a = b - (a + 24)" using n by (simp add: memitem_size_def RT_MEMHEAP_SIZE_def)
  moreover have "unat (a + 24) = unat a + 24"
    using f unsigned_less [of b, where 'a = nat] by (simp add: far_def unat_word_ariths)
  moreover have "a + 24 \<le> b" using calculation(2) f by (simp add: word_le_nat_alt far_def)
  ultimately have "unat (memitem_size m a) = unat b - unat a - 24" by (simp add: unat_sub)
  then show thesis using that as zs n f by blast
qed

lemma free_not_last:
  assumes "heap_inv h as fs m" "a \<in> set fs"
  shows "a \<in> set as" "a \<noteq> last as" "\<not> memheap_is_used m a"
  using assms heap_invD [OF assms(1)] by (auto simp: freelist_def marks_def)

lemma memheap_size_surj:
  "\<exists>mx. (if c then H\<lparr>mh_available_size := av, mh_max_used_size := v\<rparr> else H\<lparr>mh_available_size := av\<rparr>) =
    H\<lparr>mh_available_size := av, mh_max_used_size := mx\<rparr>" for H :: rt_memheap
  by (cases H) auto

lemma is_used_set_magic:
  "memheap_is_used (set_magic a v m) = (memheap_is_used m)(a := v AND RT_MEMHEAP_USED \<noteq> 0)"
  by (auto simp: memheap_is_used_def fun_eq_iff)

lemma magic_bits [simp]:
  "RT_MEMHEAP_MAGIC AND RT_MEMHEAP_USED = 0" "RT_MEMHEAP_MAGIC AND RT_MEMHEAP_MASK = RT_MEMHEAP_MAGIC"
  "(x OR RT_MEMHEAP_USED) AND RT_MEMHEAP_USED = RT_MEMHEAP_USED"
  "(x AND NOT RT_MEMHEAP_USED) AND RT_MEMHEAP_USED = 0"
  "RT_MEMHEAP_USED \<noteq> 0"
  by (simp_all add: memheap_consts bit.conj_disj_distrib2 and.assoc)

lemma magic_mask [simp]:
  "(x OR RT_MEMHEAP_USED) AND RT_MEMHEAP_MASK = x AND RT_MEMHEAP_MASK"
  "(x AND NOT RT_MEMHEAP_USED) AND RT_MEMHEAP_MASK = x AND RT_MEMHEAP_MASK"
proof -
  have m: "RT_MEMHEAP_MASK = NOT RT_MEMHEAP_USED" by (simp add: memheap_consts)
  show "(x OR RT_MEMHEAP_USED) AND RT_MEMHEAP_MASK = x AND RT_MEMHEAP_MASK"
    "(x AND NOT RT_MEMHEAP_USED) AND RT_MEMHEAP_MASK = x AND RT_MEMHEAP_MASK"
    by (simp_all add: m bit.conj_disj_distrib2 and.assoc)
qed

text \<open>The operations on the links of the free list.\<close>

lemma freelist_unlink:
  assumes "cyc l (FH # us @ a # vs)"
  shows "cyc (item_unlink a l) (FH # us @ vs)"
  using cyc_unlink [of l "FH # us" a vs] assms by simp

lemma cyc_reset:
  assumes "cyc l as" "a \<notin> set as"
  shows "cyc (set_prev a p (set_next a q l)) as"
  by (rule cyc_frame [OF assms(1)]) (use assms(2) in \<open>auto simp: set_prev_def set_next_def\<close>)

lemma cyc_push:
  assumes "cyc l (FH # fs)" "n \<notin> set (FH # fs)"
  shows "cyc (item_link_after FH n l) (FH # n # fs)"
  using cyc_insert [of l "[]" FH fs n] assms by simp

lemma header_outside:
  assumes "freelist m H as fs" "tiling H as" "unat (mh_start_addr H) \<le> unat n"
    "unat n < unat (mh_start_addr H) + unat (mh_pool_size H)"
  shows "n \<noteq> mh_free_list H"
  using assms by (auto simp: freelist_def)

subsection \<open>Changing the pool between two headers\<close>

text \<open>
  The common part of all operations: between the headers \<open>a\<close> and \<open>b\<close> the headers \<open>mid\<close> are replaced
  by \<open>mid'\<close>, the marks of \<open>a\<close> and of those change, and the free list and the count follow.
\<close>

lemma heap_splice:
  assumes inv: "heap_inv h (xs @ a # mid @ b # ys) fs m"
    and tile: "sorted_wrt far (a # mid' @ [b])" "\<forall>x \<in> set mid'. 4 dvd unat x"
    and block: "cyc (it_block m') (xs @ a # mid' @ b # ys)"
    and heap: "memheaps m' h = (memheaps m h)\<lparr>mh_available_size := av, mh_max_used_size := mx\<rparr>"
    and free: "cyc (it_free m') (mh_free_list (memheaps m h) # fs')"
      "set fs' = set fs - set (a # mid) \<union> {x \<in> set (a # mid'). \<not> memheap_is_used m' x}"
    and same: "\<And>x. x \<in> set xs \<union> set (b # ys) \<Longrightarrow> it_magic m' x = it_magic m x \<and> it_pool m' x = it_pool m x"
    and new: "\<And>x. x \<in> set (a # mid') \<Longrightarrow>
      it_magic m' x AND RT_MEMHEAP_MASK = RT_MEMHEAP_MAGIC \<and> it_pool m' x = h"
    and adj: "adj (memheap_is_used m') (a # mid' @ [b])"
      "xs = [] \<or> memheap_is_used m (last xs) \<or> memheap_is_used m' a"
    and count: "unat av + room (memheap_is_used m) (a # mid @ [b]) =
      unat (mh_available_size (memheaps m h)) + room (memheap_is_used m') (a # mid' @ [b])"
  shows "heap_inv h (xs @ a # mid' @ b # ys) fs' m'"
proof -
  let ?H = "memheaps m h" and ?U = "memheap_is_used m" and ?U' = "memheap_is_used m'"
  note I = heap_invD [OF inv]
  have U: "?U' x = ?U x" if "x \<in> set xs \<union> set (b # ys)" for x
    using same [OF that] by (simp add: memheap_is_used_def)
  have hd: "hd (xs @ a # mid' @ b # ys) = hd (xs @ a # mid @ b # ys)" by (cases xs) auto
  have last: "last (xs @ a # mid' @ b # ys) = last (xs @ a # mid @ b # ys)" by simp
  have T: "tiling (memheaps m' h) (xs @ a # mid' @ b # ys)"
    using I(1) tile unfolding tiling_def hd last sorted_far_mid [of xs a] by (auto simp: heap)
  have M: "marks h m' (xs @ a # mid' @ b # ys)"
    unfolding marks_def
  proof (intro conjI ballI)
    fix x assume "x \<in> set (xs @ a # mid' @ b # ys)"
    then show "it_magic m' x AND RT_MEMHEAP_MASK = RT_MEMHEAP_MAGIC" "it_pool m' x = h"
      using same [of x] new [of x] I(4) by (auto simp: marks_def)
  next
    show "?U' (last (xs @ a # mid' @ b # ys))"
      using I(4) U [of "last (b # ys)"] by (auto simp: marks_def)
    show "adj ?U' (xs @ a # mid' @ b # ys)"
      using adj_mid [of xs b ys ?U' ?U a mid mid'] U I(4) adj by (auto simp: marks_def)
  qed
  have d: "distinct (xs @ a # mid @ b # ys)" "distinct (xs @ a # mid' @ b # ys)"
    using cyc_distinct I(2) block by blast+
  have "set fs' = {x \<in> set (xs @ a # mid' @ b # ys). \<not> ?U' x}"
    unfolding free(2) using I(3) U d by (auto simp: freelist_def)
  then have F: "freelist m' (memheaps m' h) (xs @ a # mid' @ b # ys) fs'"
    using I(3) free(1) by (simp add: freelist_def heap)
  have "unat av = room ?U' (xs @ a # mid' @ b # ys)"
    using count I(5) room_mid [of xs b ys ?U' ?U a mid'] room_mid [of xs b ys ?U ?U a mid] U by simp
  then show ?thesis using T block F M by (simp add: heap_inv_def heap)
qed

text \<open>When the count grows it does not wrap: the free bytes fit into the pool.\<close>

lemma heap_splice_more:
  assumes inv: "heap_inv h (xs @ a # mid @ b # ys) fs m"
    and tile: "sorted_wrt far (a # mid' @ [b])" "\<forall>x \<in> set mid'. 4 dvd unat x"
    and block: "cyc (it_block m') (xs @ a # mid' @ b # ys)"
    and heap: "memheaps m' h = (memheaps m h)\<lparr>mh_available_size := mh_available_size (memheaps m h) + of_nat n\<rparr>"
    and free: "cyc (it_free m') (mh_free_list (memheaps m h) # fs')"
      "set fs' = set fs - set (a # mid) \<union> {x \<in> set (a # mid'). \<not> memheap_is_used m' x}"
    and same: "\<And>x. x \<in> set xs \<union> set (b # ys) \<Longrightarrow> it_magic m' x = it_magic m x \<and> it_pool m' x = it_pool m x"
    and new: "\<And>x. x \<in> set (a # mid') \<Longrightarrow>
      it_magic m' x AND RT_MEMHEAP_MASK = RT_MEMHEAP_MAGIC \<and> it_pool m' x = h"
    and adj: "adj (memheap_is_used m') (a # mid' @ [b])"
      "xs = [] \<or> memheap_is_used m (last xs) \<or> memheap_is_used m' a"
    and count: "n + room (memheap_is_used m) (a # mid @ [b]) = room (memheap_is_used m') (a # mid' @ [b])"
  shows "heap_inv h (xs @ a # mid' @ b # ys) fs' m'"
proof -
  let ?U = "memheap_is_used m" and ?U' = "memheap_is_used m'" and ?av = "mh_available_size (memheaps m h)"
  note I = heap_invD [OF inv]
  have U: "?U' x = ?U x" if "x \<in> set xs \<union> set (b # ys)" for x
    using same [OF that] by (simp add: memheap_is_used_def)
  have sw: "sorted_wrt far (xs @ a # mid' @ b # ys)"
    using I(1) tile(1) unfolding tiling_def sorted_far_mid [of xs a] by blast
  have "room ?U' (xs @ a # mid' @ b # ys) =
      room ?U (xs @ [a]) + room ?U' (a # mid' @ [b]) + room ?U (b # ys)"
    using U by (rule room_mid)
  moreover have "room ?U (xs @ a # mid @ b # ys) =
      room ?U (xs @ [a]) + room ?U (a # mid @ [b]) + room ?U (b # ys)"
    by (rule room_mid) simp
  ultimately have "unat ?av + n = room ?U' (xs @ a # mid' @ b # ys)"
    using count I(5) by simp
  moreover have "unat (last (xs @ a # mid' @ b # ys)) + 24 \<le> 2 ^ 32"
    using I(1) by (simp add: tiling_def)
  ultimately have "unat ?av + n < 2 ^ 32"
    using room_bound(1) [OF sw, of ?U'] by simp
  then have av: "unat (?av + of_nat n) = unat ?av + n" by (simp add: unat_word_ariths unat_of_nat)
  show ?thesis
    by (rule heap_splice [OF inv tile block _ free same new adj,
          where av = "?av + of_nat n" and mx = "mh_max_used_size (memheaps m h)"])
      (use heap count av in auto)
qed

lemma regions_splice:
  assumes "cyc l (xs @ a # mid @ b # ys)"
    and same: "\<And>x. x \<in> set xs \<union> set (b # ys) \<Longrightarrow> U' x = U x"
  shows "regions U' (xs @ a # mid' @ b # ys) =
    regions U (xs @ a # mid @ b # ys) - regions U (a # mid @ [b]) \<union> regions U' (a # mid' @ [b])"
proof -
  have d: "distinct (xs @ a # mid @ b # ys)" by (rule cyc_distinct [OF assms(1)])
  have "(regions U (xs @ [a]) \<union> regions U (b # ys)) \<inter> regions U (a # mid @ [b]) = {}"
  proof (rule ccontr)
    assume "\<not> ?thesis"
    then obtain p k where pk: "(p, k) \<in> regions U (xs @ [a]) \<union> regions U (b # ys)" "(p, k) \<in> regions U (a # mid @ [b])"
      by auto
    obtain y where "y \<in> set (a # mid)" "p = unat y + 24" using regions_addr [OF pk(2)] by (auto simp: butlast_append)
    moreover obtain x where "x \<in> set xs \<union> set (b # ys)" "p = unat x + 24"
      using pk(1) regions_addr [of p k U "xs @ [a]"] regions_addr [of p k U "b # ys"] in_set_butlastD [of _ "b # ys"]
      by auto
    ultimately show False using d by (auto dest!: unsigned_word_eqI)
  qed
  then show ?thesis
    using regions_mid [of xs b ys U' U a mid'] regions_mid [of xs b ys U U a mid] same by auto
qed

subsection \<open>Allocation\<close>

lemma take_block_fields:
  fixes h sz a m
  defines "m' \<equiv> memheap_take_block h sz a (memitem_size m a) m"
    and "FH \<equiv> mh_free_list (memheaps m h)" and "n \<equiv> a + sz + RT_MEMHEAP_SIZE"
  assumes s: "memitem_size m a \<ge> sz + RT_MEMHEAP_SIZE + RT_MEMHEAP_MINIALLOC" and na: "n \<noteq> a"
  shows "it_block m' = item_link_after a n (it_block m)"
    "it_free m' = item_link_after FH n (set_prev a 0 (set_next a 0 (item_unlink a (it_free m))))"
    "it_magic m' = (it_magic m)(n := RT_MEMHEAP_MAGIC, a := it_magic m a OR RT_MEMHEAP_USED)"
    "it_pool m' = (it_pool m)(n := h)"
    "\<exists>mx. memheaps m' = (memheaps m)(h := (memheaps m h)\<lparr>
       mh_available_size := mh_available_size (memheaps m h) - (sz + RT_MEMHEAP_SIZE), mh_max_used_size := mx\<rparr>)"
    "payload m' = payload m"
  using s na unfolding m'_def FH_def n_def
  by (auto simp: memheap_take_block_def Let_def item_split_def free_reset_def free_unlink_def free_push_def
      heap_take_def intro: exI [of _ "mh_max_used_size (memheaps m h)"])

lemma take_whole_fields:
  fixes h sz a m
  defines "m' \<equiv> memheap_take_block h sz a (memitem_size m a) m"
  assumes s: "\<not> memitem_size m a \<ge> sz + RT_MEMHEAP_SIZE + RT_MEMHEAP_MINIALLOC"
  shows "it_block m' = it_block m"
    "it_free m' = set_prev a 0 (set_next a 0 (item_unlink a (it_free m)))"
    "it_magic m' = (it_magic m)(a := it_magic m a OR RT_MEMHEAP_USED)"
    "it_pool m' = it_pool m"
    "\<exists>mx. memheaps m' = (memheaps m)(h := (memheaps m h)\<lparr>
       mh_available_size := mh_available_size (memheaps m h) - memitem_size m a, mh_max_used_size := mx\<rparr>)"
    "payload m' = payload m"
  using s unfolding m'_def
  by (auto simp: memheap_take_block_def Let_def free_reset_def free_unlink_def heap_take_def
      intro: exI [of _ "mh_max_used_size (memheaps m h)"])

text \<open>A free block is on the free list, its neighbours are in use.\<close>

lemma free_block:
  assumes "heap_inv h as fs m" "a \<in> set fs"
  obtains xs b ys us vs where "as = xs @ a # b # ys" "fs = us @ a # vs"
    "next_of (it_block m) a = b" "far a b" "unat (memitem_size m a) = unat b - unat a - 24"
    "\<not> memheap_is_used m a" "memheap_is_used m b" "xs = [] \<or> memheap_is_used m (last xs)"
    "cyc (it_free m) (mh_free_list (memheaps m h) # us @ a # vs)"
    "unat (memitem_size m a) \<le> unat (mh_available_size (memheaps m h))" "4 dvd unat a"
proof -
  note a = free_not_last [OF assms] and I = heap_invD [OF assms(1)]
  obtain xs b ys where as: "as = xs @ a # b # ys" and b: "next_of (it_block m) a = b" "far a b"
    and len: "unat (memitem_size m a) = unat b - unat a - 24"
    using heap_block [OF assms(1) a(1,2)] by metis
  obtain us vs where fs: "fs = us @ a # vs" using assms(2) by (meson split_list)
  have "adj (memheap_is_used m) (xs @ a # b # ys)" using I(4) as by (simp add: marks_def)
  then have n: "memheap_is_used m b" "xs = [] \<or> memheap_is_used m (last xs)"
    using a(3) adj_split [of "memheap_is_used m" xs a] adj_split [of "memheap_is_used m" "[a]" b] by auto
  have "room (memheap_is_used m) (a # b # ys) \<le> unat (mh_available_size (memheaps m h))"
    using I(5) room_split [of "memheap_is_used m" xs a "b # ys"] as by simp
  then have "unat (memitem_size m a) \<le> unat (mh_available_size (memheaps m h))" using len a(3) by simp
  then show thesis using that as fs b len a n I(1,3) by (auto simp: freelist_def tiling_def)
qed

lemma take_block_split:
  assumes inv: "heap_inv h as fs m" and a: "a \<in> set fs"
    and sz: "12 \<le> unat sz" "4 dvd unat sz" "unat sz + 36 \<le> unat (memitem_size m a)"
  defines "m' \<equiv> memheap_take_block h sz a (memitem_size m a) m"
  shows "\<exists>as' fs'. heap_inv h as' fs' m' \<and>
    regions (memheap_is_used m') as' = insert (unat a + 24, unat sz) (regions (memheap_is_used m) as)"
proof -
  let ?H = "memheaps m h" and ?U = "memheap_is_used m" and ?n = "a + sz + RT_MEMHEAP_SIZE"
  obtain xs b ys us vs where as: "as = xs @ a # b # ys" and fs: "fs = us @ a # vs"
    and b: "far a b" "unat (memitem_size m a) = unat b - unat a - 24"
    and u: "\<not> ?U a" "?U b" "xs = [] \<or> ?U (last xs)"
    and cf: "cyc (it_free m) (mh_free_list ?H # us @ a # vs)"
    and av: "unat (memitem_size m a) \<le> unat (mh_available_size ?H)" and a4: "4 dvd unat a"
    using free_block [OF inv a] by metis
  note I = heap_invD [OF inv [unfolded as]]
  have un: "unat ?n = unat a + unat sz + 24"
    using sz(3) b unsigned_less [of b, where 'a = nat]
    by (simp add: RT_MEMHEAP_SIZE_def unat_word_ariths far_def)
  have fr: "far a ?n" "far ?n b" using sz b by (auto simp: far_def un)
  have us: "unat (sz + RT_MEMHEAP_SIZE + RT_MEMHEAP_MINIALLOC) = unat sz + 36"
    "unat (sz + RT_MEMHEAP_SIZE) = unat sz + 24"
    using sz(3) unsigned_less [of "memitem_size m a", where 'a = nat]
    by (simp_all add: memheap_consts unat_word_ariths)
  have big: "memitem_size m a \<ge> sz + RT_MEMHEAP_SIZE + RT_MEMHEAP_MINIALLOC"
    using sz(3) us(1) by (simp add: word_le_nat_alt)
  have fresh: "?n \<notin> set (xs @ a # b # ys)" by (rule tiling_fresh [OF I(1) fr])
  then have na: "?n \<noteq> a" by auto
  note F = take_block_fields [OF big na, of h, folded m'_def]
  obtain mx where H: "memheaps m' h = ?H\<lparr>mh_available_size := mh_available_size ?H - (sz + RT_MEMHEAP_SIZE),
      mh_max_used_size := mx\<rparr>"
    using F(5) by fastforce
  have U: "memheap_is_used m' = ?U(?n := False, a := True)"
    by (auto simp: fun_eq_iff memheap_is_used_def F(3))
  have out: "?n \<noteq> mh_free_list ?H"
    using header_outside [OF I(3,1), of ?n] tiling_pool [OF I(1), of a] tiling_pool [OF I(1), of b] un fr
    by (auto simp: far_def)
  have d: "distinct (mh_free_list ?H # us @ a # vs)" "set (us @ vs) \<subseteq> set as"
    using cyc_distinct [OF cf] heap_invD(3) [OF inv] fs by (auto simp: freelist_def)
  have nx: "a \<notin> set xs \<union> set (b # ys)" using cyc_distinct [OF I(2)] by auto
  have "heap_inv h (xs @ a # [?n] @ b # ys) (?n # us @ vs) m'"
  proof (rule heap_splice [OF _ _ _ _ H, where mid = "[]" and fs = fs])
    show "cyc (it_free m') (mh_free_list ?H # ?n # us @ vs)"
      unfolding F(2) using cf d fresh out as by (intro cyc_push cyc_reset freelist_unlink) auto
    show "cyc (it_block m') (xs @ a # [?n] @ b # ys)"
      unfolding F(1) using cyc_insert [OF I(2) fresh] by simp
    show "unat (mh_available_size ?H - (sz + RT_MEMHEAP_SIZE)) + room ?U (a # [] @ [b]) =
        unat (mh_available_size ?H) + room (memheap_is_used m') (a # [?n] @ [b])"
      using u us un sz(3) b av na by (simp add: unat_sub word_le_nat_alt U)
  qed (use inv as fs d nx fresh na u fr a4 sz(2) un I(4) in
      \<open>auto simp: U F(3,4) marks_def adj_def dest: far_trans\<close>)
  moreover have "regions (memheap_is_used m') (xs @ a # [?n] @ b # ys) =
      insert (unat a + 24, unat sz) (regions ?U (xs @ a # [] @ b # ys))"
    using fresh nx u(1) un na
    by (subst regions_splice [where U = ?U and mid = "[]" and l = "it_block m"]) (auto simp: U I(2))
  ultimately show ?thesis using as by auto
qed

lemma take_block_whole:
  assumes inv: "heap_inv h as fs m" and a: "a \<in> set fs"
    and sz: "unat sz \<le> unat (memitem_size m a)" "unat (memitem_size m a) < unat sz + 36"
  defines "m' \<equiv> memheap_take_block h sz a (memitem_size m a) m"
  shows "\<exists>as' fs'. heap_inv h as' fs' m' \<and> regions (memheap_is_used m') as' =
    insert (unat a + 24, unat (memitem_size m a)) (regions (memheap_is_used m) as)"
proof -
  let ?H = "memheaps m h" and ?U = "memheap_is_used m"
  obtain xs b ys us vs where as: "as = xs @ a # b # ys" and fs: "fs = us @ a # vs"
    and b: "far a b" "unat (memitem_size m a) = unat b - unat a - 24"
    and u: "\<not> ?U a" "?U b" "xs = [] \<or> ?U (last xs)"
    and cf: "cyc (it_free m) (mh_free_list ?H # us @ a # vs)"
    and av: "unat (memitem_size m a) \<le> unat (mh_available_size ?H)" and a4: "4 dvd unat a"
    using free_block [OF inv a] by metis
  note I = heap_invD [OF inv [unfolded as]]
  have "unat (mh_available_size ?H) < 2 ^ 32 - 48"
    using I(5) room_bound [of "xs @ a # b # ys" ?U] I(1) by (auto simp: tiling_def)
  then have "unat (sz + RT_MEMHEAP_SIZE + RT_MEMHEAP_MINIALLOC) = unat sz + 36"
    using sz av by (simp add: memheap_consts unat_word_ariths)
  then have small: "\<not> memitem_size m a \<ge> sz + RT_MEMHEAP_SIZE + RT_MEMHEAP_MINIALLOC"
    using sz(2) by (simp add: word_le_nat_alt)
  note F = take_whole_fields [OF small, of h, folded m'_def]
  obtain mx where H: "memheaps m' h = ?H\<lparr>mh_available_size := mh_available_size ?H - memitem_size m a,
      mh_max_used_size := mx\<rparr>"
    using F(5) by fastforce
  have U: "memheap_is_used m' = ?U(a := True)"
    by (auto simp: fun_eq_iff memheap_is_used_def F(3))
  have d: "distinct (mh_free_list ?H # us @ a # vs)" by (rule cyc_distinct [OF cf])
  have nx: "a \<notin> set xs \<union> set (b # ys)" using cyc_distinct [OF I(2)] by auto
  have "heap_inv h (xs @ a # [] @ b # ys) (us @ vs) m'"
  proof (rule heap_splice [OF _ _ _ _ H, where mid = "[]" and fs = fs])
    show "cyc (it_free m') (mh_free_list ?H # us @ vs)"
      unfolding F(2) using cf d by (intro cyc_reset freelist_unlink) auto
    show "cyc (it_block m') (xs @ a # [] @ b # ys)" unfolding F(1) using I(2) by simp
    show "unat (mh_available_size ?H - memitem_size m a) + room ?U (a # [] @ [b]) =
        unat (mh_available_size ?H) + room (memheap_is_used m') (a # [] @ [b])"
      using u b av by (simp add: unat_sub word_le_nat_alt U)
  qed (use inv as fs d nx u b I(4) in \<open>auto simp: U F(3,4) marks_def adj_def\<close>)
  moreover have "regions (memheap_is_used m') (xs @ a # [] @ b # ys) =
      insert (unat a + 24, unat (memitem_size m a)) (regions ?U (xs @ a # [] @ b # ys))"
    using nx u(1) b
    by (subst regions_splice [where U = ?U and mid = "[]" and l = "it_block m"]) (auto simp: U I(2))
  ultimately show ?thesis using as by auto
qed

text \<open>
  An allocation returns a block that is at least as long as asked for, adds exactly that block to
  the allocated ones, and fails only when no free block is long enough.
\<close>

lemma alloc_block:
  assumes inv: "heap_inv h as fs m" and sz: "12 \<le> unat sz" "4 dvd unat sz"
  shows "\<exists>p m'. memheap_alloc_block h sz m = Some (p, m') \<and> payload m' = payload m \<and>
    (if \<exists>a \<in> set fs. sz \<le> memitem_size m a
     then p \<noteq> 0 \<and> 4 dvd unat p \<and> (\<exists>as' fs' k. heap_inv h as' fs' m' \<and> unat sz \<le> k \<and>
       regions (memheap_is_used m') as' = insert (unat p, k) (regions (memheap_is_used m) as) \<and>
       (unat p, k) \<notin> regions (memheap_is_used m) as)
     else p = 0 \<and> m' = m)"
proof -
  let ?FH = "mh_free_list (memheaps m h)"
  have c: "chain (it_free m) ?FH fs ?FH" "?FH \<notin> set fs"
    using heap_invD(3) [OF inv] by (auto simp: freelist_def cyc_Cons dlist_def)
  have pos: "0 < sz" using sz(1) by (simp add: word_less_nat_alt)
  let ?f = "find (\<lambda>x. sz \<le> memitem_size m x) fs"
  obtain f where sf: "memheap_search sz ?FH m (next_of (it_free m) ?FH) 0 =
      Some (case ?f of Some x \<Rightarrow> (x, memitem_size m x) | None \<Rightarrow> (?FH, f)) \<and> (?f = None \<longrightarrow> f < sz)"
    using search_chain [OF c pos] by (rule exE)
  note s = sf [THEN conjunct1] and f = sf [THEN conjunct2]
  show ?thesis
  proof (cases ?f)
    case None
    then have "memheap_alloc_block h sz m = Some (0, m)"
      using s f None by (auto simp: memheap_alloc_block_def Let_def)
    then show ?thesis using None by (auto simp: find_None_iff)
  next
    case (Some a)
    then have a: "a \<in> set fs" "sz \<le> memitem_size m a" by (auto simp: find_Some_iff)
    obtain b where b: "far a b" "4 dvd unat a" using free_block [OF inv a(1)] by metis
    have p: "unat (a + RT_MEMHEAP_SIZE) = unat a + 24"
      using b unsigned_less [of b, where 'a = nat] by (simp add: RT_MEMHEAP_SIZE_def unat_word_ariths far_def)
    then have "a + RT_MEMHEAP_SIZE \<noteq> 0" "4 dvd unat (a + RT_MEMHEAP_SIZE)"
      using b(2) by (auto simp: unat_eq_0 dvd_add)
    moreover have "payload (memheap_take_block h sz a (memitem_size m a) m) = payload m"
      by (simp add: memheap_take_block_def Let_def item_split_def free_reset_def free_unlink_def
          free_push_def heap_take_def)
    moreover have "\<exists>as' fs' k. heap_inv h as' fs' (memheap_take_block h sz a (memitem_size m a) m) \<and>
        unat sz \<le> k \<and> regions (memheap_is_used (memheap_take_block h sz a (memitem_size m a) m)) as' =
        insert (unat a + 24, k) (regions (memheap_is_used m) as)"
    proof (cases "unat sz + 36 \<le> unat (memitem_size m a)")
      case True
      then show ?thesis using take_block_split [OF inv a(1) sz True] by blast
    next
      case False
      then show ?thesis using take_block_whole [OF inv a(1)] a(2) by (fastforce simp: word_le_nat_alt)
    qed
    moreover have "memheap_alloc_block h sz m =
        Some (a + RT_MEMHEAP_SIZE, memheap_take_block h sz a (memitem_size m a) m)"
      using s Some a(2) by (simp add: memheap_alloc_block_def Let_def)
    moreover have "(unat a + 24, k) \<notin> regions (memheap_is_used m) as" for k
      using free_not_last(3) [OF inv a(1)] by (auto dest!: regions_addr unsigned_word_eqI)
    ultimately show ?thesis using a p by metis
  qed
qed

subsection \<open>Release\<close>

text \<open>
  A used block between \<open>h0\<close> and \<open>b0\<close> becomes free together with its free neighbours; \<open>n\<close> is what the
  heap counts for it.
\<close>

lemma free_splice:
  fixes n :: nat
  assumes inv: "heap_inv h (xs @ h0 # mid @ b0 # ys) fs m"
    and a: "a \<in> set (h0 # mid)" "\<forall>x \<in> set (h0 # mid). memheap_is_used m x \<longleftrightarrow> x = a"
    and nb: "memheap_is_used m b0" "xs = [] \<or> memheap_is_used m (last xs)"
    and block: "cyc (it_block m') (xs @ h0 # b0 # ys)"
    and mg: "it_magic m' = (it_magic m)(a := it_magic m a AND NOT RT_MEMHEAP_USED)" "it_pool m' = it_pool m"
    and H: "memheaps m' h = (memheaps m h)
      \<lparr>mh_available_size := mh_available_size (memheaps m h) + of_nat n\<rparr>"
    and n: "n + room (memheap_is_used m) (h0 # mid @ [b0]) = unat b0 - unat h0 - 24"
    and fr: "cyc (it_free m') (mh_free_list (memheaps m h) # fs')" "set fs' = insert h0 (set fs - set mid)"
  shows "heap_inv h (xs @ h0 # b0 # ys) fs' m' \<and> regions (memheap_is_used m') (xs @ h0 # b0 # ys) =
    regions (memheap_is_used m) (xs @ h0 # mid @ b0 # ys) - regions (memheap_is_used m) (h0 # mid @ [b0])"
proof -
  let ?U = "memheap_is_used m"
  note I = heap_invD [OF inv]
  have U: "memheap_is_used m' = ?U(a := False)"
    by (auto simp: fun_eq_iff memheap_is_used_def mg(1))
  have d: "distinct (xs @ h0 # mid @ b0 # ys)" by (rule cyc_distinct [OF I(2)])
  then have ax: "a \<notin> set xs \<union> set (b0 # ys)" using a(1) by auto
  have U0: "\<not> memheap_is_used m' h0" using a(2) by (simp add: U)
  have far0: "far h0 b0" using I(1) sorted_far_mid [of xs h0 mid b0 ys]
    by (auto simp: tiling_def sorted_wrt_append)
  have "heap_inv h (xs @ h0 # [] @ b0 # ys) fs' m'"
  proof (rule heap_splice_more [OF inv _ _ _ H fr(1)])
    show "set fs' = set fs - set (h0 # mid) \<union> {x \<in> set (h0 # []). \<not> memheap_is_used m' x}"
      using fr(2) U0 d by auto
  qed (use block ax mg nb I(4) far0 U0 n in \<open>auto simp: marks_def adj_def U\<close>)
  moreover have "regions (memheap_is_used m') (h0 # [] @ [b0]) = {}" using U0 by simp
  moreover have "memheap_is_used m' x = ?U x" if "x \<in> set xs \<union> set (b0 # ys)" for x
    using ax that by (auto simp: U)
  note regions_splice [OF I(2) this, where mid' = "[]"]
  ultimately show ?thesis by simp
qed

lemma free_block_fields:
  fixes h a m
  defines "m' \<equiv> memheap_free_block h a m" and "l \<equiv> prev_of (it_block m) a" and "b \<equiv> next_of (it_block m) a"
    and "U \<equiv> memheap_is_used m" and "H \<equiv> memheaps m h"
  assumes l: "l \<noteq> a" "next_of (it_block m) l = a" and b: "b \<noteq> a" "prev_of (it_block m) b = a"
    and lb: "\<not> U l \<Longrightarrow> l \<noteq> b"
  shows "it_magic m' = (it_magic m)(a := it_magic m a AND NOT RT_MEMHEAP_USED)" "it_pool m' = it_pool m"
    "it_block m' = (let B = (if U l then it_block m else item_unlink a (it_block m))
       in if U b then B else item_unlink b B)"
    "it_free m' = (let F = (if U b then it_free m else item_unlink b (it_free m))
       in if U l then item_link_after (mh_free_list H) a F else F)"
    "memheaps m' h = H\<lparr>mh_available_size := mh_available_size H + memitem_size m a +
       (if U l then 0 else 24) + (if U b then 0 else 24)\<rparr>"
    "payload m' = payload m"
  using assms unfolding m'_def U_def H_def
  by (auto simp: memheap_free_block_def Let_def heap_give_def free_push_def free_unlink_def item_unlink_def
      set_next_def set_prev_def is_used_set_magic memitem_size_def RT_MEMHEAP_SIZE_def
      memheap_is_used_def split: prod.splits)

text \<open>A block in use that is not the last header, with its neighbours.\<close>

lemma used_block:
  assumes inv: "heap_inv h as fs m" and a: "a \<in> set as" "a \<noteq> last as"
  obtains xs b ys where "as = xs @ a # b # ys" "next_of (it_block m) a = b" "prev_of (it_block m) b = a"
    "far a b" "unat (memitem_size m a) = unat b - unat a - 24"
    "(xs = [] \<and> memheap_is_used m (prev_of (it_block m) a) \<and> prev_of (it_block m) a \<noteq> a) \<or>
     (\<exists>us. xs = us @ [prev_of (it_block m) a])"
    "next_of (it_block m) (prev_of (it_block m) a) = a"
    "\<not> memheap_is_used m b \<Longrightarrow> \<exists>c zs. ys = c # zs \<and> memheap_is_used m c"
proof -
  let ?l = "prev_of (it_block m) a"
  note I = heap_invD [OF inv]
  obtain xs b ys where as: "as = xs @ a # b # ys"
    and b: "next_of (it_block m) a = b" "prev_of (it_block m) b = a" "far a b"
    and len: "unat (memitem_size m a) = unat b - unat a - 24"
    using heap_block [OF inv a] by metis
  have l: "(xs = [] \<and> memheap_is_used m ?l \<and> ?l \<noteq> a) \<or> (\<exists>us. xs = us @ [?l])"
    and nl: "next_of (it_block m) ?l = a"
  proof -
    show "(xs = [] \<and> memheap_is_used m ?l \<and> ?l \<noteq> a) \<or> (\<exists>us. xs = us @ [?l])"
    proof (cases xs rule: rev_cases)
      case Nil
      then have "?l = last as" using cyc_ends(2) [OF I(2)] as by simp
      then show ?thesis using Nil a(2) I(4) by (simp add: marks_def)
    next
      case (snoc us u)
      then show ?thesis using cyc_step(2) [of "it_block m" us u a "b # ys"] I(2) as by simp
    qed
    show "next_of (it_block m) ?l = a"
    proof (cases xs rule: rev_cases)
      case Nil
      then show ?thesis using cyc_ends [OF I(2)] as by simp
    next
      case (snoc us u)
      then show ?thesis using cyc_step [of "it_block m" us u a "b # ys"] I(2) as by simp
    qed
  qed
  have adj: "adj (memheap_is_used m) (xs @ a # b # ys)" and ul: "memheap_is_used m (last (b # ys))"
    using I(4) as by (auto simp: marks_def)
  have "\<exists>c zs. ys = c # zs \<and> memheap_is_used m c" if "\<not> memheap_is_used m b"
    using that ul adj adj_split [of "memheap_is_used m" "xs @ [a, b]"]
    by (cases ys) auto
  then show thesis using that [OF as b len l nl] by blast
qed

lemma free_block_ok:
  assumes inv: "heap_inv h as fs m" and a: "a \<in> set as" "a \<noteq> last as" "memheap_is_used m a"
  shows "\<exists>as' fs'. heap_inv h as' fs' (memheap_free_block h a m) \<and>
    regions (memheap_is_used (memheap_free_block h a m)) as' =
      regions (memheap_is_used m) as - {(unat a + 24, unat (memitem_size m a))}"
proof -
  let ?U = "memheap_is_used m" and ?l = "prev_of (it_block m) a" and ?FH = "mh_free_list (memheaps m h)"
    and ?m = "memheap_free_block h a m"
  note I = heap_invD [OF inv]
  obtain xs b ys where as: "as = xs @ a # b # ys"
    and b: "next_of (it_block m) a = b" "prev_of (it_block m) b = a" "far a b"
    and len': "unat (memitem_size m a) = unat b - unat a - 24"
    and l: "(xs = [] \<and> ?U ?l \<and> ?l \<noteq> a) \<or> (\<exists>us. xs = us @ [?l])" "next_of (it_block m) ?l = a"
    and r: "\<not> ?U b \<Longrightarrow> \<exists>c zs. ys = c # zs \<and> ?U c"
    using used_block [OF inv a(1,2)] by metis
  obtain k where len: "k = unat b - unat a - 24" "memitem_size m a = of_nat k" "unat (memitem_size m a) = k"
    by (rule that [OF len']) simp_all
  have d: "distinct (xs @ a # b # ys)" using cyc_distinct [OF I(2)] as by simp
  have F: "it_magic ?m = (it_magic m)(a := it_magic m a AND NOT RT_MEMHEAP_USED)" "it_pool ?m = it_pool m"
    "it_block ?m = (let B = (if ?U ?l then it_block m else item_unlink a (it_block m))
       in if ?U b then B else item_unlink b B)"
    "it_free ?m = (let F = (if ?U b then it_free m else item_unlink b (it_free m))
       in if ?U ?l then item_link_after ?FH a F else F)"
    "memheaps ?m h = (memheaps m h)\<lparr>mh_available_size := mh_available_size (memheaps m h) + memitem_size m a +
       (if ?U ?l then 0 else 24) + (if ?U b then 0 else 24)\<rparr>"
    using free_block_fields [of m a h] b(1,2) l d by auto
  have cf: "cyc (it_free m) (?FH # fs)" "set fs = {x \<in> set as. \<not> ?U x}" using I(3) by (auto simp: freelist_def)
  have dfs: "distinct (?FH # fs)" by (rule cyc_distinct [OF cf(1)])
  have afs: "a \<notin> set (?FH # fs)"
    using cf(2) a(3) header_outside [OF I(3,1), of a] tiling_pool [OF I(1) a(1)] by auto
  have cb: "cyc (it_block m) (xs @ a # b # ys)" using I(2) as by simp
  have drop: "\<exists>fs'. cyc (item_unlink b (it_free m)) (?FH # fs') \<and> set fs' = set fs - {b}" if "\<not> ?U b"
  proof -
    have "b \<in> set fs" using that as cf(2) by simp
    then obtain us vs where fs: "fs = us @ b # vs" by (meson split_list)
    then show ?thesis using freelist_unlink [of "it_free m" ?FH us b vs] cf(1) dfs by (intro exI [of _ "us @ vs"]) auto
  qed
  have left: "us = [] \<or> ?U (last us)" "far ?l a" "?l \<in> set fs" "?l \<noteq> b"
    if "xs = us @ [?l]" "\<not> ?U ?l" for us
    using that I(1,4) as cf(2) d adj_split [of ?U us ?l "a # b # ys"]
    by (auto simp: marks_def tiling_def sorted_wrt_append)
  consider "?U ?l" "?U b" | "?U ?l" "\<not> ?U b" | "\<not> ?U ?l" "?U b" | "\<not> ?U ?l" "\<not> ?U b" by blast
  then show ?thesis
  proof cases
    case 1
    note F = F [simplified 1 len(2) Let_def simp_thms if_True if_False]
    have "xs = [] \<or> ?U (last xs)" using l(1) 1 by auto
    then have "heap_inv h (xs @ a # b # ys) (a # fs) ?m \<and> regions (memheap_is_used ?m) (xs @ a # b # ys) =
        regions ?U (xs @ a # [] @ b # ys) - regions ?U (a # [] @ [b])"
      using inv as a(3) 1 cb len(1) F cyc_push [OF cf(1) afs]
      by (intro free_splice [where fs = fs and a = a and n = k]) simp_all
    then show ?thesis using as len(1,3) a(3) by (intro exI [of _ "xs @ a # b # ys"] exI [of _ "a # fs"]) simp
  next
    case 2
    note F = F [simplified 2 len(2) Let_def simp_thms if_True if_False]
    obtain c zs where c: "ys = c # zs" "?U c" using r [OF 2(2)] by auto
    obtain fs' where fs': "cyc (item_unlink b (it_free m)) (?FH # fs')" "set fs' = set fs - {b}"
      using drop [OF 2(2)] by auto
    have f: "far b c" using I(1) as c(1) by (simp add: tiling_def sorted_wrt_append)
    have "heap_inv h (xs @ a # c # zs) (a # fs') ?m \<and> regions (memheap_is_used ?m) (xs @ a # c # zs) =
        regions ?U (xs @ a # [b] @ c # zs) - regions ?U (a # [b] @ [c])"
    proof (rule free_splice [where fs = fs and a = a and n = "k + 24"])
      show "cyc (it_block ?m) (xs @ a # c # zs)"
        using cyc_unlink [of "it_block m" "xs @ [a]" b ys] cb c F by simp
      show "cyc (it_free ?m) (?FH # a # fs')" using F afs fs' by (simp add: cyc_push)
      show "set (a # fs') = insert a (set fs - set [b])" using fs'(2) by simp
      show "k + 24 + room ?U (a # [b] @ [c]) = unat c - unat a - 24"
        using len(1) f b(3) a(3) 2 by (simp add: far_def)
      show "xs = [] \<or> ?U (last xs)" using l(1) 2 by auto
    qed (use inv as c F 2 a(3) d in \<open>auto simp: add.assoc\<close>)
    then show ?thesis using as len(1,3) a(3) c 2
      by (intro exI [of _ "xs @ a # c # zs"] exI [of _ "a # fs'"]) simp
  next
    case 3
    note F = F [simplified 3 len(2) Let_def simp_thms if_True if_False]
    obtain us where us: "xs = us @ [?l]" using l(1) 3 by auto
    note left = left [OF us 3(1)]
    have "heap_inv h (us @ ?l # b # ys) fs ?m \<and> regions (memheap_is_used ?m) (us @ ?l # b # ys) =
        regions ?U (us @ ?l # [a] @ b # ys) - regions ?U (?l # [a] @ [b])"
    proof (rule free_splice [where fs = fs and a = a and n = "k + 24"])
      show "cyc (it_block ?m) (us @ ?l # b # ys)"
        using cyc_unlink [of "it_block m" "us @ [?l]" a "b # ys"] cb us F by simp
      show "set fs = insert ?l (set fs - set [a])" using left(3) afs by auto
      show "k + 24 + room ?U (?l # [a] @ [b]) = unat b - unat ?l - 24"
        using len(1) left(2) b(3) a(3) 3 by (simp add: far_def)
    qed (use inv as us F 3 a(3) d cf left in \<open>auto simp: add.assoc\<close>)
    then show ?thesis using as us len(1,3) a(3) 3
      by (intro exI [of _ "us @ ?l # b # ys"] exI [of _ fs]) simp
  next
    case 4
    note F = F [simplified 4 len(2) Let_def simp_thms if_True if_False]
    obtain us where us: "xs = us @ [?l]" using l(1) 4 by auto
    note left = left [OF us 4(1)]
    obtain c zs where c: "ys = c # zs" "?U c" using r [OF 4(2)] by auto
    obtain fs' where fs': "cyc (item_unlink b (it_free m)) (?FH # fs')" "set fs' = set fs - {b}"
      using drop [OF 4(2)] by auto
    have f: "far b c" using I(1) as c(1) by (simp add: tiling_def sorted_wrt_append)
    have "heap_inv h (us @ ?l # c # zs) fs' ?m \<and> regions (memheap_is_used ?m) (us @ ?l # c # zs) =
        regions ?U (us @ ?l # [a, b] @ c # zs) - regions ?U (?l # [a, b] @ [c])"
    proof (rule free_splice [where fs = fs and a = a and n = "k + 48"])
      have "cyc (item_unlink a (it_block m)) (us @ ?l # b # ys)"
        using cyc_unlink [of "it_block m" "us @ [?l]" a "b # ys"] cb us by simp
      then show "cyc (it_block ?m) (us @ ?l # c # zs)"
        using cyc_unlink [of "item_unlink a (it_block m)" "us @ [?l]" b ys] c(1) F by simp
      show "cyc (it_free ?m) (?FH # fs')" using F fs' by simp
      show "set fs' = insert ?l (set fs - set [a, b])" using fs'(2) left(3,4) afs by auto
      show "k + 48 + room ?U (?l # [a, b] @ [c]) = unat c - unat ?l - 24"
        using len(1) left(2) b(3) f a(3) 4 by (simp add: far_def)
    qed (use inv as us c F 4 a(3) d left in \<open>auto simp: add.assoc\<close>)
    then show ?thesis using as us len(1,3) a(3) c 4
      by (intro exI [of _ "us @ ?l # c # zs"] exI [of _ fs']) simp
  qed
qed

subsection \<open>Reallocation in place\<close>

lemma header_split_unat:
  assumes "unat a + unat sz + 24 \<le> unat (b :: u32)"
  shows "unat (a + sz + RT_MEMHEAP_SIZE) = unat a + unat sz + 24"
    "a + RT_MEMHEAP_SIZE + sz = a + sz + RT_MEMHEAP_SIZE"
  using assms unsigned_less [of b, where 'a = nat]
  by (simp_all add: RT_MEMHEAP_SIZE_def unat_word_ariths)

text \<open>
  A block grows in place exactly when the block behind it is free and leaves more than the least
  allocation; otherwise nothing changes.
\<close>

lemma grow_block_ok:
  assumes inv: "heap_inv h as fs m" and a: "a \<in> set as" "a \<noteq> last as" "memheap_is_used m a"
    and sz: "12 \<le> unat sz" "4 dvd unat sz" "unat sz + 12 < 2 ^ 32" "memitem_size m a < sz"
  shows "\<exists>grown m'. memheap_grow_block h a (memitem_size m a) sz m = Some (grown, m') \<and>
    (if grown then \<exists>as' fs'. heap_inv h as' fs' m' \<and> payload m' = payload m \<and>
       regions (memheap_is_used m') as' = regions (memheap_is_used m) as -
         {(unat a + 24, unat (memitem_size m a))} \<union> {(unat a + 24, unat sz)}
     else m' = m)"
proof -
  let ?U = "memheap_is_used m" and ?H = "memheaps m h" and ?n = "a + sz + RT_MEMHEAP_SIZE"
  note I = heap_invD [OF inv]
  obtain xs b ys where as: "as = xs @ a # b # ys" and b: "next_of (it_block m) a = b" "far a b"
    and len: "unat (memitem_size m a) = unat b - unat a - 24"
    and r: "\<not> ?U b \<Longrightarrow> \<exists>c zs. ys = c # zs \<and> ?U c"
    using used_block [OF inv a(1,2)] by metis
  have nxt: "b > a" "b > 0" using b(2) by (auto simp: far_def word_less_nat_alt)
  let ?fit = "memitem_size m b + memitem_size m a > sz + RT_MEMHEAP_MINIALLOC"
  show ?thesis
  proof (cases "\<not> ?U b \<and> ?fit")
    case False
    then show ?thesis using b(1) nxt by (auto simp: memheap_grow_block_def Let_def)
  next
    case True
    obtain c zs where c: "ys = c # zs" "?U c" using r True by auto
    have bs: "b \<in> set fs" using True I(3) as by (simp add: freelist_def)
    obtain us vs where fs: "fs = us @ b # vs" and cf: "cyc (it_free m) (mh_free_list ?H # us @ b # vs)"
      and av: "unat (memitem_size m b) \<le> unat (mh_available_size ?H)"
      using free_block [OF inv bs] by metis
    have d: "distinct (xs @ a # b # c # zs)" using cyc_distinct [OF I(2)] as c by simp
    have lb: "far b c" "unat (memitem_size m b) = unat c - unat b - 24"
    proof -
      obtain xs2 c2 ys2 where 2: "as = xs2 @ b # c2 # ys2" "far b c2" "unat (memitem_size m b) = unat c2 - unat b - 24"
        "next_of (it_block m) b = c2"
        using free_block [OF inv bs] by metis
      moreover have "next_of (it_block m) b = c" using cyc_step [of "it_block m" "xs @ [a]" b c zs] I(2) as c by simp
      ultimately show "far b c" "unat (memitem_size m b) = unat c - unat b - 24" by auto
    qed
    have "unat (sz + RT_MEMHEAP_MINIALLOC) = unat sz + 12"
      using sz(3) by (simp add: RT_MEMHEAP_MINIALLOC_def unat_word_ariths)
    moreover have "unat (memitem_size m b + memitem_size m a) = unat c - unat b - 24 + (unat b - unat a - 24)"
      using len lb b(2) unsigned_less [of c, where 'a = nat] by (simp add: unat_word_ariths far_def)
    ultimately have fit: "unat sz + 12 < unat c - unat b - 24 + (unat b - unat a - 24)"
      using True by (simp add: word_less_nat_alt)
    have old: "unat b - unat a - 24 < unat sz" using sz(4) len by (simp add: word_less_nat_alt)
    note n = header_split_unat [of a sz c, OF less_imp_le]
    have un: "unat ?n = unat a + unat sz + 24" and n': "a + RT_MEMHEAP_SIZE + sz = ?n"
      using n fit lb(1) b(2) by (auto simp: far_def)
    have fr: "far a ?n" "far ?n c" "unat b < unat ?n"
      using sz(1) fit lb(1) b(2) old by (auto simp: far_def un)
    let ?m1 = "heap_take h (sz - memitem_size m a) m"
    define m' where "m' = free_push h ?n (item_split h a ?n (it_block_update (item_unlink b) (free_unlink b ?m1)))"
    have g: "memheap_grow_block h a (memitem_size m a) sz m = Some (True, m')"
      using b(1) nxt True by (simp add: memheap_grow_block_def Let_def m'_def ac_simps)
    obtain mx where H: "memheaps m' h = ?H\<lparr>mh_available_size := mh_available_size ?H - (sz - memitem_size m a),
        mh_max_used_size := mx\<rparr>"
      by (simp add: m'_def free_push_def item_split_def free_unlink_def heap_take_def Let_def)
        (metis (no_types) memheap_size_surj)
    have F: "it_block m' = item_link_after a ?n (item_unlink b (it_block m))"
      "it_free m' = item_link_after (mh_free_list ?H) ?n (item_unlink b (it_free m))"
      "it_magic m' = (it_magic m)(?n := RT_MEMHEAP_MAGIC)" "it_pool m' = (it_pool m)(?n := h)"
      "payload m' = payload m"
      by (simp_all add: m'_def free_push_def item_split_def free_unlink_def heap_take_def Let_def)
    have T: "tiling ?H (xs @ a # c # zs)" using I(1) as c lb(1) b(2)
      by (cases xs) (auto simp: tiling_def sorted_wrt_append far_def)
    have "?n \<notin> set (xs @ a # c # zs)" by (rule tiling_fresh [OF T fr(1,2)])
    then have fresh: "?n \<notin> set (xs @ a # b # c # zs)" using fr(3) by auto
    have U: "memheap_is_used m' = ?U(?n := False)" by (auto simp: fun_eq_iff memheap_is_used_def F(3))
    have "heap_inv h (xs @ a # [?n] @ c # zs) (?n # us @ vs) m'"
    proof (rule heap_splice [OF _ _ _ _ H, where mid = "[b]" and fs = fs])
      have "cyc (item_unlink b (it_block m)) (xs @ a # c # zs)"
        using cyc_unlink [of "it_block m" "xs @ [a]" b "c # zs"] I(2) as c by simp
      then show "cyc (it_block m') (xs @ a # [?n] @ c # zs)"
        using cyc_insert [of _ xs a "c # zs" ?n] fresh by (simp add: F(1))
      have "?n \<noteq> mh_free_list ?H"
        using header_outside [OF I(3,1), of ?n] tiling_pool [OF T, of a] tiling_pool [OF T, of c] un fr
        by (auto simp: far_def)
      moreover have sub: "set (us @ vs) \<subseteq> set as" using I(3) fs by (auto simp: freelist_def)
      have "?n \<notin> set (us @ vs)" using subsetD [OF sub, of ?n] fresh as c by auto
      ultimately show "cyc (it_free m') (mh_free_list ?H # ?n # us @ vs)"
        using freelist_unlink [OF cf] unfolding F(2) by (intro cyc_push) auto
      show "set (?n # us @ vs) = set fs - set [a, b] \<union> {x \<in> set (a # [?n]). \<not> memheap_is_used m' x}"
        using fs cyc_distinct [OF cf] a(3) fresh I(3) by (auto simp: U freelist_def)
      have "unat (mh_available_size ?H - (sz - memitem_size m a)) =
          unat (mh_available_size ?H) - (unat sz - (unat b - unat a - 24))"
        using av lb old fit len sz(4) by (simp add: unat_sub word_le_nat_alt less_imp_le)
      then show "unat (mh_available_size ?H - (sz - memitem_size m a)) + room ?U (a # [b] @ [c]) =
          unat (mh_available_size ?H) + room (memheap_is_used m') (a # [?n] @ [c])"
        using a(3) True un lb av fit old fresh b(2) by (simp add: U far_def)
    qed (use inv as c d fresh fr sz(2) un I(1,4) a(3) in
        \<open>auto simp: U F(3,4) marks_def adj_def tiling_def dest: far_trans\<close>)
    moreover have "regions (memheap_is_used m') (xs @ a # [?n] @ c # zs) =
        regions ?U (xs @ a # [b] @ c # zs) - {(unat a + 24, unat b - unat a - 24)} \<union> {(unat a + 24, unat sz)}"
      using fresh a(3) un True I(2) as c
      by (subst regions_splice [where U = ?U and mid = "[b]" and l = "it_block m"]) (auto simp: U)
    ultimately show ?thesis using g as c len F(5) by auto
  qed
qed

lemma shrink_fields:
  fixes h a sz m
  defines "m' \<equiv> memheap_shrink_block h a sz m" and "n \<equiv> a + sz + RT_MEMHEAP_SIZE"
    and "b \<equiv> next_of (it_block m) a" and "H \<equiv> memheaps m h"
  assumes ne: "n \<noteq> a" "n \<noteq> b" "a \<noteq> b"
  shows "it_magic m' = (it_magic m)(n := RT_MEMHEAP_MAGIC)" "it_pool m' = (it_pool m)(n := h)"
    "it_block m' = (let B = item_link_after a n (it_block m)
       in if memheap_is_used m b then B else item_unlink b B)"
    "it_free m' = item_link_after (mh_free_list H) n
       (if memheap_is_used m b then it_free m else item_unlink b (it_free m))"
    "memheaps m' h = H\<lparr>mh_available_size := mh_available_size H +
       (if memheap_is_used m b then b - n - RT_MEMHEAP_SIZE
        else next_of (it_block m) b - n - RT_MEMHEAP_SIZE - memitem_size m b)\<rparr>"
    "payload m' = payload m"
  using assms unfolding m'_def H_def
  by (auto simp: memheap_shrink_block_def Let_def heap_give_def free_push_def free_unlink_def item_unlink_def
      item_split_def item_link_after_def set_next_def set_prev_def is_used_set_magic memitem_size_def
      memheap_is_used_def)

lemma of_nat_diff_unat: "unat b \<le> unat a \<Longrightarrow> of_nat (unat a - unat b) = (a - b :: u32)"
  by (simp add: of_nat_diff)

lemma shrink_block_ok:
  assumes inv: "heap_inv h as fs m" and a: "a \<in> set as" "a \<noteq> last as" "memheap_is_used m a"
    and sz: "12 \<le> unat sz" "4 dvd unat sz" "unat sz + 36 < unat (memitem_size m a)"
  defines "m' \<equiv> memheap_shrink_block h a sz m"
  shows "\<exists>as' fs'. heap_inv h as' fs' m' \<and> payload m' = payload m \<and>
    regions (memheap_is_used m') as' = regions (memheap_is_used m) as -
      {(unat a + 24, unat (memitem_size m a))} \<union> {(unat a + 24, unat sz)}"
proof -
  let ?U = "memheap_is_used m" and ?FH = "mh_free_list (memheaps m h)" and ?n = "a + sz + RT_MEMHEAP_SIZE"
  note I = heap_invD [OF inv]
  obtain xs b ys where as: "as = xs @ a # b # ys" and b: "next_of (it_block m) a = b" "far a b"
    and len: "unat (memitem_size m a) = unat b - unat a - 24"
    and r: "\<not> ?U b \<Longrightarrow> \<exists>c zs. ys = c # zs \<and> ?U c"
    using used_block [OF inv a(1,2)] by metis
  have un: "unat ?n = unat a + unat sz + 24"
    using header_split_unat(1) [of a sz b] sz(3) len by simp
  have fr: "far a ?n" "far ?n b" using sz len by (auto simp: far_def un)
  have T: "tiling (memheaps m h) (xs @ a # b # ys)" and cb: "cyc (it_block m) (xs @ a # b # ys)"
    using I(1,2) as by simp_all
  have fresh: "?n \<notin> set (xs @ a # b # ys)" by (rule tiling_fresh [OF T fr])
  have d: "distinct (xs @ a # b # ys)" by (rule cyc_distinct [OF cb])
  have F: "it_magic m' = (it_magic m)(?n := RT_MEMHEAP_MAGIC)" "it_pool m' = (it_pool m)(?n := h)"
    "it_block m' = (let B = item_link_after a ?n (it_block m) in if ?U b then B else item_unlink b B)"
    "it_free m' = item_link_after ?FH ?n (if ?U b then it_free m else item_unlink b (it_free m))"
    "memheaps m' h = (memheaps m h)\<lparr>mh_available_size := mh_available_size (memheaps m h) +
       (if ?U b then b - ?n - RT_MEMHEAP_SIZE
        else next_of (it_block m) b - ?n - RT_MEMHEAP_SIZE - memitem_size m b)\<rparr>"
    "payload m' = payload m"
    unfolding m'_def b(1) [symmetric] by (rule shrink_fields; use fresh d b(1) in auto)+
  have U: "memheap_is_used m' = ?U(?n := False)" by (auto simp: fun_eq_iff memheap_is_used_def F(1))
  have cf: "cyc (it_free m) (?FH # fs)" "set fs = {x \<in> set as. \<not> ?U x}" using I(3) by (auto simp: freelist_def)
  have nfs: "?n \<notin> set (?FH # fs)"
    using cf(2) fresh as header_outside [OF I(3,1), of ?n] tiling_pool [OF T, of a] tiling_pool [OF T, of b] un fr
    by (auto simp: far_def)
  have cn: "cyc (item_link_after a ?n (it_block m)) (xs @ a # ?n # b # ys)" by (rule cyc_insert [OF cb fresh])
  have mk: "\<forall>x \<in> set as. it_magic m x AND RT_MEMHEAP_MASK = RT_MEMHEAP_MAGIC \<and> it_pool m x = h"
    using I(4) by (simp add: marks_def)
  have a4: "4 dvd unat a" using I(1) a(1) by (simp add: tiling_def)
  show ?thesis
  proof (cases "?U b")
    case True
    note F = F [simplified True Let_def if_True]
    have n: "b - ?n - RT_MEMHEAP_SIZE = of_nat (unat b - unat ?n - 24)"
      using fr(2) of_nat_diff_unat [of ?n b] by (simp add: far_def of_nat_diff RT_MEMHEAP_SIZE_def)
    have "heap_inv h (xs @ a # [?n] @ b # ys) (?n # fs) m'"
    proof (rule heap_splice_more [where mid = "[]" and fs = fs])
      show "memheaps m' h = (memheaps m h)
          \<lparr>mh_available_size := mh_available_size (memheaps m h) + of_nat (unat b - unat ?n - 24)\<rparr>"
        unfolding F(5) n by (rule refl)
      show "cyc (it_free m') (?FH # ?n # fs)" unfolding F(4) by (rule cyc_push [OF cf(1) nfs])
      show "set (?n # fs) = set fs - set [a] \<union> {x \<in> set (a # [?n]). \<not> memheap_is_used m' x}"
        using cf(2) a(3) fresh by (auto simp: U)
      show "unat b - unat ?n - 24 + room ?U (a # [] @ [b]) = room (memheap_is_used m') (a # [?n] @ [b])"
        using a(3) fresh by (simp add: U)
      show "cyc (it_block m') (xs @ a # [?n] @ b # ys)" using cn F(3) by simp
    qed (use inv as mk fresh fr a4 sz(2) un a(3) True in \<open>auto simp: U F(1,2) adj_def dest: far_trans\<close>)
    moreover have "regions (memheap_is_used m') (xs @ a # [?n] @ b # ys) =
        regions ?U (xs @ a # [] @ b # ys) - {(unat a + 24, unat b - unat a - 24)} \<union> {(unat a + 24, unat sz)}"
      using fresh a(3) un cb
      by (subst regions_splice [where U = ?U and mid = "[]" and l = "it_block m"]) (auto simp: U)
    ultimately show ?thesis using as len F(6) by (intro exI [of _ "xs @ a # [?n] @ b # ys"] exI [of _ "?n # fs"]) simp
  next
    case False
    note F = F [simplified False Let_def if_False]
    obtain c zs where c: "ys = c # zs" "?U c" using r False by auto
    have f: "far b c" using I(1) as c(1) by (simp add: tiling_def sorted_wrt_append)
    have nb: "next_of (it_block m) b = c" using cyc_step [of "it_block m" "xs @ [a]" b c zs] cb c by simp
    have "b \<in> set fs" using cf(2) as False by simp
    then obtain us vs where fs: "fs = us @ b # vs" by (meson split_list)
    have dfs: "distinct (?FH # us @ b # vs)" using cyc_distinct [OF cf(1)] fs by simp
    have n: "next_of (it_block m) b - ?n - RT_MEMHEAP_SIZE - memitem_size m b = of_nat (unat b - unat ?n)"
      using fr(2) of_nat_diff_unat [of ?n b] by (simp add: far_def memitem_size_def)
    have "heap_inv h (xs @ a # [?n] @ c # zs) (?n # us @ vs) m'"
    proof (rule heap_splice_more [where mid = "[b]" and fs = fs])
      show "memheaps m' h = (memheaps m h)
          \<lparr>mh_available_size := mh_available_size (memheaps m h) + of_nat (unat b - unat ?n)\<rparr>"
        unfolding F(5) n by (rule refl)
      show "cyc (it_free m') (?FH # ?n # us @ vs)"
        unfolding F(4) using freelist_unlink [of "it_free m" ?FH us b vs] cf(1) fs nfs by (intro cyc_push) auto
      show "set (?n # us @ vs) = set fs - set [a, b] \<union> {x \<in> set (a # [?n]). \<not> memheap_is_used m' x}"
        using cf(2) a(3) fresh fs dfs by (auto simp: U)
      show "unat b - unat ?n + room ?U (a # [b] @ [c]) = room (memheap_is_used m') (a # [?n] @ [c])"
        using a(3) fresh False f fr(2) by (simp add: U far_def)
      show "cyc (it_block m') (xs @ a # [?n] @ c # zs)"
        using cyc_unlink [of _ "xs @ [a, ?n]" b ys] cn c F(3) by simp
    qed (use inv as c mk fresh fr a4 sz(2) un a(3) False f d in \<open>auto simp: U F(1,2) adj_def dest: far_trans\<close>)
    moreover have "regions (memheap_is_used m') (xs @ a # [?n] @ c # zs) =
        regions ?U (xs @ a # [b] @ c # zs) - {(unat a + 24, unat b - unat a - 24)} \<union> {(unat a + 24, unat sz)}"
      using fresh a(3) un cb c False
      by (subst regions_splice [where U = ?U and mid = "[b]" and l = "it_block m"]) (auto simp: U)
    ultimately show ?thesis using as c len F(6)
      by (intro exI [of _ "xs @ a # [?n] @ c # zs"] exI [of _ "?n # us @ vs"]) simp
  qed
qed

subsection \<open>The first layout\<close>

lemma layout_ok:
  assumes a: "4 dvd unat start" "0 < unat start"
    and p: "60 \<le> unat (sz AND NOT 3)" "unat start + unat (sz AND NOT 3) \<le> 2 ^ 32"
    and fh: "unat (mh_free_header (memheaps m h)) < unat start \<or>
      unat start + unat (sz AND NOT 3) \<le> unat (mh_free_header (memheaps m h))"
  shows "heap_inv h [start, start + ((sz AND NOT 3) - 2 * RT_MEMHEAP_SIZE) + RT_MEMHEAP_SIZE] [start]
    (memheap_layout h start sz m)"
proof -
  let ?pool = "sz AND NOT 3"
  let ?t = "start + (?pool - 2 * RT_MEMHEAP_SIZE) + RT_MEMHEAP_SIZE" and ?FH = "mh_free_header (memheaps m h)"
  have av: "unat (?pool - 2 * RT_MEMHEAP_SIZE) = unat ?pool - 48"
    using p(1) by (simp add: unat_sub word_le_nat_alt RT_MEMHEAP_SIZE_def)
  have t: "unat ?t = unat start + unat ?pool - 24"
  proof -
    have sum: "unat (start + w) = unat start + unat ?pool - 24" if "unat w = unat ?pool - 24" for w
      using that p by (simp add: unat_word_ariths)
    have "?t = start + (?pool - RT_MEMHEAP_SIZE)" by (simp add: RT_MEMHEAP_SIZE_def)
    moreover have "unat (?pool - RT_MEMHEAP_SIZE) = unat ?pool - 24"
      using p(1) by (simp add: unat_sub word_le_nat_alt RT_MEMHEAP_SIZE_def)
    ultimately show ?thesis by (simp only: sum)
  qed
  have d4: "4 dvd unat ?pool" by (rule align_dvd)
  have ne: "start \<noteq> ?t" "?FH \<noteq> start" "?FH \<noteq> ?t" using t p(1) fh by auto
  have "memheaps (memheap_layout h start sz m) h = (memheaps m h)\<lparr>mh_start_addr := start, mh_pool_size := ?pool,
      mh_available_size := ?pool - 2 * RT_MEMHEAP_SIZE, mh_max_used_size := ?pool - (?pool - 2 * RT_MEMHEAP_SIZE),
      mh_free_list := ?FH, mh_block_list := start\<rparr>"
    by (simp add: memheap_layout_def Let_def free_push_def free_reset_def)
  moreover have "it_magic (memheap_layout h start sz m) start = RT_MEMHEAP_MAGIC"
    "it_magic (memheap_layout h start sz m) ?t = RT_MEMHEAP_MAGIC OR RT_MEMHEAP_USED"
    "it_pool (memheap_layout h start sz m) start = h" "it_pool (memheap_layout h start sz m) ?t = h"
    using ne by (simp_all add: memheap_layout_def Let_def free_push_def free_reset_def)
  moreover have "cyc (it_block (memheap_layout h start sz m)) [start, ?t]"
    using ne by (simp add: memheap_layout_def Let_def free_push_def free_reset_def cyc_Cons dlist_def
        set_next_def set_prev_def)
  moreover have "cyc (it_free (memheap_layout h start sz m)) [?FH, start]"
    using ne by (auto simp: memheap_layout_def Let_def free_push_def free_reset_def cyc_Cons dlist_def
        set_next_def set_prev_def item_link_after_def)
  moreover have "4 dvd unat ?t" using d4 a(1) t p(1) by (simp add: dvd_diff_nat)
  ultimately show ?thesis
    using a p fh t av ne
    by (auto simp: heap_inv_def tiling_def freelist_def marks_def adj_def far_def memheap_is_used_def)
qed

subsection \<open>Allocated blocks\<close>

lemma regions_cover:
  assumes "sorted_wrt far as" "(p, k) \<in> regions U as"
  shows "unat (hd as) + 24 \<le> p \<and> 12 \<le> k \<and> p + k \<le> unat (last as) \<and>
    (\<forall>x \<in> set as. p + k \<le> unat x \<or> unat x + 24 \<le> p)"
  using assms
proof (induction U as rule: regions.induct)
  case (1 U a b as)
  have ab: "far a b" "\<forall>x \<in> set as. far b x" "sorted_wrt far (b # as)" using "1.prems"(1) by auto
  show ?case
  proof (cases "(p, k) \<in> regions U (b # as)")
    case True
    note "1.IH" [OF ab(3) True]
    then show ?thesis using ab(1,2) by (auto simp: far_def)
  next
    case False
    then have pk: "p = unat a + 24" "k = unat b - unat a - 24" using "1.prems"(2) by (auto split: if_splits)
    have "unat b \<le> unat (last (b # as))" using ab(2) by (cases as rule: rev_cases) (auto simp: far_def)
    then show ?thesis using pk ab by (auto simp: far_def)
  qed
qed auto

text \<open>No two allocated blocks overlap, and no block overlaps a header.\<close>

lemma regions_disjoint:
  assumes "sorted_wrt far as" "(p, k) \<in> regions U as" "(q, j) \<in> regions U as" "(p, k) \<noteq> (q, j)"
  shows "p + k \<le> q \<or> q + j \<le> p"
  using assms
proof (induction U as rule: regions.induct)
  case (1 U a b as)
  have s: "sorted_wrt far (b # as)" and ab: "far a b" using "1.prems"(1) by auto
  have b: "unat b + 24 \<le> x" if "(x, y) \<in> regions U (b # as)" for x y
    using regions_cover [OF s that] by simp
  have first: "x = unat a + 24 \<and> y = unat b - unat a - 24"
    if "(x, y) \<in> regions U (a # b # as)" "(x, y) \<notin> regions U (b # as)" for x y
    using that by (auto split: if_splits)
  consider "(p, k) \<in> regions U (b # as)" "(q, j) \<in> regions U (b # as)"
    | "(p, k) \<notin> regions U (b # as)" "(q, j) \<in> regions U (b # as)"
    | "(p, k) \<in> regions U (b # as)" "(q, j) \<notin> regions U (b # as)"
    | "(p, k) \<notin> regions U (b # as)" "(q, j) \<notin> regions U (b # as)" by blast
  then show ?case
  proof cases
    case 1
    then show ?thesis using "1.IH" [OF s _ _ "1.prems"(4)] by simp
  next
    case 2
    then show ?thesis using first [OF "1.prems"(2) 2(1)] b [OF 2(2)] ab by (simp add: far_def)
  next
    case 3
    then show ?thesis using first [OF "1.prems"(3) 3(2)] b [OF 3(1)] ab by (simp add: far_def)
  next
    case 4
    then show ?thesis using first [OF "1.prems"(2) 4(1)] first [OF "1.prems"(3) 4(2)] "1.prems"(4) by simp
  qed
qed auto

end
