(* ===== verification/RT_Heap.thy ===== *)
theory RT_Heap
  imports RT_Heap_Inv
begin

text \<open>
  What the memory heap promises to its callers.  The allocated blocks are computed from the memory
  by walking the headers; an allocator is specified by how its operations change that set, and the
  memory heap is shown to be one.
\<close>

subsection \<open>The blocks of a memory\<close>

partial_function (option) heap_walk :: "memory \<Rightarrow> u32 \<Rightarrow> u32 \<Rightarrow> u32 list option" where
  "heap_walk m e a =
     (if a = e then Some [a] else do { as \<leftarrow> heap_walk m e (next_of (it_block m) a); Some (a # as) })"

definition heap_blocks :: "ptr \<Rightarrow> memory \<Rightarrow> u32 list" where
  "heap_blocks h m = (let H = memheaps m h in
     case heap_walk m (mh_start_addr H + mh_pool_size H - RT_MEMHEAP_SIZE) (mh_start_addr H) of
       Some as \<Rightarrow> as | None \<Rightarrow> [])"

text \<open>Address and length of the allocated blocks, and of the free ones.\<close>

definition live :: "ptr \<Rightarrow> memory \<Rightarrow> (nat \<times> nat) set" where
  "live h m = regions (memheap_is_used m) (heap_blocks h m)"

definition gaps :: "ptr \<Rightarrow> memory \<Rightarrow> (nat \<times> nat) set" where
  "gaps h m = regions (\<lambda>a. \<not> memheap_is_used m a) (heap_blocks h m)"

lemma heap_walk_chain:
  "chain (it_block m) a as b \<Longrightarrow> distinct (a # as) \<Longrightarrow> heap_walk m (last (a # as)) a = Some (a # as)"
proof (induction as arbitrary: a)
  case Nil
  then show ?case by (simp add: heap_walk.simps)
next
  case (Cons x xs)
  then have "heap_walk m (last (x # xs)) x = Some (x # xs)" by simp
  moreover have "a \<noteq> last (x # xs)" using Cons.prems(2) last_in_set [of "x # xs"] by auto
  ultimately show ?case using Cons.prems(1) by (subst heap_walk.simps) simp
qed

lemma heap_blocks_eq:
  assumes "heap_inv h as fs m"
  shows "heap_blocks h m = as"
proof -
  let ?H = "memheaps m h"
  note I = heap_invD [OF assms]
  obtain a bs where as: "as = a # bs" using I(1) by (cases as) (auto simp: tiling_def)
  have "chain (it_block m) a bs a" "distinct (a # bs)" using I(2) as by (auto simp: cyc_Cons dlist_def)
  then have w: "heap_walk m (last as) a = Some as" using heap_walk_chain as by metis
  have l: "unat (last as) + 24 = unat (mh_start_addr ?H) + unat (mh_pool_size ?H)" "hd as = mh_start_addr ?H"
    using I(1) by (auto simp: tiling_def)
  have "mh_start_addr ?H + mh_pool_size ?H = of_nat (unat (last as) + 24)"
    by (simp only: l(1) of_nat_add) simp
  then have "mh_start_addr ?H + mh_pool_size ?H - RT_MEMHEAP_SIZE = last as"
    by (simp add: RT_MEMHEAP_SIZE_def)
  then show ?thesis using w l(2) as by (simp add: heap_blocks_def Let_def)
qed

lemma live_eq: "heap_inv h as fs m \<Longrightarrow> live h m = regions (memheap_is_used m) as"
  by (simp add: live_def heap_blocks_eq)

lemma gaps_eq: "heap_inv h as fs m \<Longrightarrow> gaps h m = regions (\<lambda>a. \<not> memheap_is_used m a) as"
  by (simp add: gaps_def heap_blocks_eq)

lemma heap_ok_sorted: "heap_ok h m \<Longrightarrow> sorted_wrt far (heap_blocks h m)"
  unfolding heap_ok_def using heap_blocks_eq heap_invD(1) by (metis tiling_def)

lemma regions_mem:
  assumes "heap_inv h as fs m" "a \<in> set as" "a \<noteq> last as"
  shows "(unat a + 24, unat (memitem_size m a)) \<in> regions U as \<longleftrightarrow> U a"
proof
  obtain xs b ys where as: "as = xs @ a # b # ys" and len: "unat (memitem_size m a) = unat b - unat a - 24"
    using heap_block [OF assms] by metis
  show "U a \<Longrightarrow> (unat a + 24, unat (memitem_size m a)) \<in> regions U as"
    using as len regions_split [of U xs a "b # ys"] by simp
  show "U a" if r: "(unat a + 24, unat (memitem_size m a)) \<in> regions U as"
  proof -
    obtain x where "unat a + 24 = unat x + 24" "U x" using regions_addr [OF r] by auto
    then show ?thesis by (metis add_right_cancel unsigned_word_eqI)
  qed
qed

text \<open>A block is named by its address: it has a header of the heap, and one length.\<close>

lemma regions_header:
  assumes inv: "heap_inv h as fs m" and r: "(q, k) \<in> regions U as"
  obtains x where "x \<in> set as" "x \<noteq> last as" "U x" "q = unat x + 24" "k = unat (memitem_size m x)"
proof -
  note I = heap_invD [OF inv]
  obtain x where x: "x \<in> set (butlast as)" "q = unat x + 24" "U x" using regions_addr [OF r] by auto
  have ne: "as \<noteq> []" using I(2) by (auto simp: cyc_def)
  have xm: "x \<in> set as" "x \<noteq> last as"
    using x(1) in_set_butlastD cyc_distinct [OF I(2)] ne
    by (metis, metis append_butlast_last_id distinct_append disjoint_insert(1) list.simps(15) inf.commute)
  have s: "sorted_wrt far as" using I(1) by (simp add: tiling_def)
  have "(unat x + 24, unat (memitem_size m x)) \<in> regions U as" using regions_mem [OF inv xm] x(3) by simp
  moreover have "12 \<le> k" using regions_cover [OF s r] by simp
  moreover have "12 \<le> unat (memitem_size m x)" using regions_cover [OF s calculation(1)] by simp
  ultimately have "k = unat (memitem_size m x)"
    using regions_disjoint [OF s r, of "unat x + 24" "unat (memitem_size m x)"] x(2) by fastforce
  then show thesis using that xm x by blast
qed

lemma regions_at:
  assumes inv: "heap_inv h as fs m" and r: "(unat p, k) \<in> regions U as"
  shows "p - RT_MEMHEAP_SIZE \<in> set as" "p - RT_MEMHEAP_SIZE \<noteq> last as" "U (p - RT_MEMHEAP_SIZE)"
    "unat p = unat (p - RT_MEMHEAP_SIZE) + 24" "k = unat (memitem_size m (p - RT_MEMHEAP_SIZE))"
proof -
  obtain x where x: "x \<in> set as" "x \<noteq> last as" "U x" "unat p = unat x + 24" "k = unat (memitem_size m x)"
    using regions_header [OF inv r] by metis
  have "p = of_nat (unat x + 24)" by (simp only: x(4) [symmetric]) simp
  then have "p - RT_MEMHEAP_SIZE = x" by (simp add: RT_MEMHEAP_SIZE_def)
  then show "p - RT_MEMHEAP_SIZE \<in> set as" "p - RT_MEMHEAP_SIZE \<noteq> last as" "U (p - RT_MEMHEAP_SIZE)"
    "unat p = unat (p - RT_MEMHEAP_SIZE) + 24" "k = unat (memitem_size m (p - RT_MEMHEAP_SIZE))"
    using x by simp_all
qed

lemma live_disjoint:
  assumes "heap_ok h m" "(p, k) \<in> live h m" "(q, j) \<in> live h m" "(p, k) \<noteq> (q, j)"
  shows "p + k \<le> q \<or> q + j \<le> p"
  using regions_disjoint [OF heap_ok_sorted [OF assms(1)]] assms(2,3,4) by (simp add: live_def)

lemma live_pool:
  assumes "heap_ok h m" "(p, k) \<in> live h m"
  shows "unat (mh_start_addr (memheaps m h)) + 24 \<le> p"
    "p + k + 24 \<le> unat (mh_start_addr (memheaps m h)) + unat (mh_pool_size (memheaps m h))" "12 \<le> k"
proof -
  obtain as fs where inv: "heap_inv h as fs m" using assms(1) by (auto simp: heap_ok_def)
  note I = heap_invD [OF inv]
  have "sorted_wrt far as" using I(1) by (simp add: tiling_def)
  note c = regions_cover [OF this assms(2) [unfolded live_eq [OF inv]]]
  then show "unat (mh_start_addr (memheaps m h)) + 24 \<le> p"
    "p + k + 24 \<le> unat (mh_start_addr (memheaps m h)) + unat (mh_pool_size (memheaps m h))" "12 \<le> k"
    using I(1) by (auto simp: tiling_def)
qed

subsection \<open>The operations without contention\<close>

text \<open>The lock is free, as it is between any two operations when no operation is under way.\<close>

definition heap_unlocked :: "kstate \<Rightarrow> ptr \<Rightarrow> bool" where
  "heap_unlocked s h \<longleftrightarrow> has_type s h RT_Object_Class_MemHeap \<and>
     ipc_ok s (Heap_lock h) RT_Object_Class_Semaphore \<and> sems s (Heap_lock h) = 1 \<and>
     tlists s (Suspend_thread (Heap_lock h)) = []"

lemma lock_unlock:
  assumes "heap_unlocked s h"
  obtains s1 where "rt_sem_take (Heap_lock h) t s = Some (Ret RT_EOK, s1)"
    "rt_sem_release (Heap_lock h) s1 = Some (RT_EOK, s)" "has_type s h RT_Object_Class_MemHeap"
    "h \<noteq> RT_NULL"
proof -
  let ?l = "Heap_lock h"
  let ?s = "s\<lparr>sems := (sems s)(?l := sems s ?l - 1)\<rparr>"
  have ok: "ipc_ok s ?l RT_Object_Class_Semaphore" using assms by (simp add: heap_unlocked_def)
  have "rt_sem_take ?l t s = Some (Ret RT_EOK, ?s)"
    using sem_take_value [OF ok] assms by (simp add: heap_unlocked_def)
  moreover have ok': "ipc_ok ?s ?l RT_Object_Class_Semaphore"
    using ok by (simp add: ipc_ok_def has_type_def)
  have "rt_sem_release ?l ?s = Some (RT_EOK, s)"
    using sem_release_free [OF ok'] assms by (simp add: heap_unlocked_def)
  ultimately show thesis
    using that assms by (auto simp: heap_unlocked_def has_type_def)
qed

lemma heap_request_ok: "12 \<le> unat (heap_request n)" "4 dvd unat (heap_request n)"
  using RT_ALIGN4_dvd [of n]
  by (auto simp: heap_request_def RT_ALIGN4_eq RT_MEMHEAP_MINIALLOC_def word_le_nat_alt word_less_nat_alt)

text \<open>The request is not shorter than what was asked for, unless rounding up wraps.\<close>

lemma heap_request_ge:
  assumes "unat n \<le> 2 ^ 32 - 4"
  shows "unat n \<le> unat (heap_request n)"
proof -
  have "unat (n + 3) = unat n + 3" using assms by (simp add: unat_word_ariths)
  then have "unat (RT_ALIGN4 n) = unat n + 3 - (unat n + 3) mod 4" by (simp only: RT_ALIGN4_eq align_down)
  then have "unat n \<le> unat (RT_ALIGN4 n)" by presburger
  then show ?thesis by (auto simp: heap_request_def word_less_nat_alt)
qed

lemma heap_request_wraps:
  assumes "unat n > 2 ^ 32 - 4"
  shows "heap_request n = 12"
proof -
  have "unat n < 2 ^ 32" using unsigned_less [of n, where 'a = nat] by simp
  then have "unat (n + 3) = unat n + 3 - 2 ^ 32"
    using assms by (simp add: unat_word_ariths mod_if)
  then have "unat (n + 3) < 3" using assms \<open>unat n < 2 ^ 32\<close> by simp
  then have "unat (RT_ALIGN4 n) = 0" unfolding RT_ALIGN4_eq align_down by simp
  then show ?thesis by (simp add: heap_request_def RT_MEMHEAP_MINIALLOC_def unat_eq_0)
qed

text \<open>What makes an allocation succeed.\<close>

lemma gaps_fit:
  assumes inv: "heap_inv h as fs m"
  shows "(\<exists>(q, j) \<in> gaps h m. unat sz \<le> j) \<longleftrightarrow> (\<exists>a \<in> set fs. sz \<le> memitem_size m a)" (is "?g \<longleftrightarrow> ?f")
proof
  assume ?g
  then obtain q j where q: "(q, j) \<in> regions (\<lambda>a. \<not> memheap_is_used m a) as" "unat sz \<le> j"
    by (auto simp: gaps_eq [OF inv])
  obtain x where "x \<in> set as" "\<not> memheap_is_used m x" "j = unat (memitem_size m x)"
    using regions_header [OF inv q(1)] by metis
  then show ?f using q(2) heap_invD(3) [OF inv] by (auto simp: freelist_def word_le_nat_alt)
next
  assume ?f
  then obtain a where a: "a \<in> set fs" "sz \<le> memitem_size m a" by auto
  have "(unat a + 24, unat (memitem_size m a)) \<in> gaps h m"
    unfolding gaps_eq [OF inv] using regions_mem [OF inv] free_not_last [OF inv a(1)] by simp
  then show ?g using a(2) by (auto simp: word_le_nat_alt)
qed

definition alloc_fits :: "ptr \<Rightarrow> u32 \<Rightarrow> memory \<Rightarrow> bool" where
  "alloc_fits h n m \<longleftrightarrow> heap_request n < mh_available_size (memheaps m h) \<and>
     (\<exists>(q, j) \<in> gaps h m. unat (heap_request n) \<le> j)"

text \<open>An allocation, on the memory and on the heap object.\<close>

lemma alloc_block_live:
  assumes ok: "heap_ok h m"
  shows "\<exists>p m'. memheap_alloc_block h (heap_request n) m = Some (p, m') \<and> payload m' = payload m \<and>
    (if \<exists>(q, j) \<in> gaps h m. unat (heap_request n) \<le> j
     then p \<noteq> 0 \<and> 4 dvd unat p \<and> heap_ok h m' \<and>
       (\<exists>k. unat (heap_request n) \<le> k \<and> live h m' = insert (unat p, k) (live h m) \<and> (unat p, k) \<notin> live h m)
     else p = 0 \<and> m' = m)"
proof -
  obtain as fs where inv: "heap_inv h as fs m" using ok by (auto simp: heap_ok_def)
  obtain p m' where a: "memheap_alloc_block h (heap_request n) m = Some (p, m')" "payload m' = payload m"
    "if \<exists>a \<in> set fs. heap_request n \<le> memitem_size m a
     then p \<noteq> 0 \<and> 4 dvd unat p \<and> (\<exists>as' fs' k. heap_inv h as' fs' m' \<and> unat (heap_request n) \<le> k \<and>
       regions (memheap_is_used m') as' = insert (unat p, k) (regions (memheap_is_used m) as) \<and>
       (unat p, k) \<notin> regions (memheap_is_used m) as)
     else p = 0 \<and> m' = m"
    using alloc_block [OF inv heap_request_ok] by metis
  show ?thesis
  proof (cases "\<exists>a \<in> set fs. heap_request n \<le> memitem_size m a")
    case True
    then obtain as' fs' k where k: "heap_inv h as' fs' m'" "unat (heap_request n) \<le> k"
      "regions (memheap_is_used m') as' = insert (unat p, k) (regions (memheap_is_used m) as)"
      "(unat p, k) \<notin> regions (memheap_is_used m) as"
      using a(3) by auto
    then show ?thesis
      using a True by (auto simp: gaps_fit [OF inv] live_eq [OF inv] live_eq [OF k(1)] heap_ok_def)
  next
    case False
    then show ?thesis using a by (simp add: gaps_fit [OF inv])
  qed
qed

lemma live_apart:
  assumes ok: "heap_ok h m'" and l: "live h m' = insert (p, k) (live h m)" "(p, k) \<notin> live h m" and q: "(q, j) \<in> live h m"
  shows "p + k \<le> q \<or> q + j \<le> p"
proof -
  have "(p, k) \<in> live h m'" "(q, j) \<in> live h m'" "(p, k) \<noteq> (q, j)" using l q by auto
  then show ?thesis using live_disjoint [OF ok] by blast
qed

lemma heap_alloc_ok:
  assumes ok: "heap_ok h m" and s: "heap_unlocked s h"
  shows "\<exists>p m'. rt_memheap_alloc h n m s = Some (Ret p, m', s) \<and> payload m' = payload m \<and>
    (if alloc_fits h n m
     then p \<noteq> 0 \<and> 4 dvd unat p \<and> heap_ok h m' \<and>
       (\<exists>k. unat (heap_request n) \<le> k \<and> live h m' = insert (unat p, k) (live h m) \<and>
         (\<forall>(q, j) \<in> live h m. unat p + k \<le> q \<or> q + j \<le> unat p))
     else p = 0 \<and> m' = m)"
proof -
  obtain s1 where s1: "rt_sem_take (Heap_lock h) RT_WAITING_FOREVER s = Some (Ret RT_EOK, s1)"
    "rt_sem_release (Heap_lock h) s1 = Some (RT_EOK, s)" "has_type s h RT_Object_Class_MemHeap"
    "h \<noteq> RT_NULL"
    using lock_unlock [OF s] by metis
  obtain p m' where a: "memheap_alloc_block h (heap_request n) m = Some (p, m') \<and> payload m' = payload m \<and>
    (if \<exists>(q, j) \<in> gaps h m. unat (heap_request n) \<le> j
     then p \<noteq> 0 \<and> 4 dvd unat p \<and> heap_ok h m' \<and>
       (\<exists>k. unat (heap_request n) \<le> k \<and> live h m' = insert (unat p, k) (live h m) \<and> (unat p, k) \<notin> live h m)
     else p = 0 \<and> m' = m)"
    using alloc_block_live [OF ok, of n] by (elim exE)
  note a = a [THEN conjunct1] a [THEN conjunct2, THEN conjunct1] a [THEN conjunct2, THEN conjunct2]
  have r: "rt_memheap_alloc h n m s =
      (if heap_request n < mh_available_size (memheaps m h) then Some (Ret p, m', s) else Some (Ret 0, m, s))"
    using s1 a(1) by (simp add: rt_memheap_alloc_def memheap_alloc_locked_def Let_def)
  show ?thesis
  proof (cases "alloc_fits h n m")
    case True
    then have fit: "heap_request n < mh_available_size (memheaps m h)"
      "\<exists>(q, j) \<in> gaps h m. unat (heap_request n) \<le> j" by (auto simp: alloc_fits_def)
    then obtain k where "p \<noteq> 0" "4 dvd unat p" "heap_ok h m'" "unat (heap_request n) \<le> k"
      "live h m' = insert (unat p, k) (live h m)" "(unat p, k) \<notin> live h m"
      using a(3) by (auto split: if_splits)
    note k = this
    have "\<forall>(q, j) \<in> live h m. unat p + k \<le> q \<or> q + j \<le> unat p"
      using live_apart [OF k(3,5,6)] by blast
    then show ?thesis using r fit(1) True a(2) k(1-5) by (intro exI [of _ p] exI [of _ m']) auto
  next
    case False
    then consider "\<not> heap_request n < mh_available_size (memheaps m h)"
      | "\<not> (\<exists>(q, j) \<in> gaps h m. unat (heap_request n) \<le> j)" unfolding alloc_fits_def by blast
    then have "p = 0 \<and> m' = m \<or> \<not> heap_request n < mh_available_size (memheaps m h)"
      using a(3) by cases (simp_all only: if_False simp_thms)
    then show ?thesis using r False a(2) by auto
  qed
qed

text \<open>A release.\<close>

lemma free_block_live:
  assumes ok: "heap_ok h m" and p: "(unat p, k) \<in> live h m"
  shows "heap_ok h (memheap_free_block h (p - RT_MEMHEAP_SIZE) m)"
    "live h (memheap_free_block h (p - RT_MEMHEAP_SIZE) m) = live h m - {(unat p, k)}"
    "payload (memheap_free_block h (p - RT_MEMHEAP_SIZE) m) = payload m"
proof -
  obtain as fs where inv: "heap_inv h as fs m" using ok by (auto simp: heap_ok_def)
  let ?a = "p - RT_MEMHEAP_SIZE"
  note a = regions_at [OF inv p [unfolded live_eq [OF inv]]]
  obtain as' fs' where "heap_inv h as' fs' (memheap_free_block h ?a m)"
    "regions (memheap_is_used (memheap_free_block h ?a m)) as' =
      regions (memheap_is_used m) as - {(unat ?a + 24, unat (memitem_size m ?a))}"
    using free_block_ok [OF inv a(1,2,3)] by metis
  then show "heap_ok h (memheap_free_block h ?a m)"
    "live h (memheap_free_block h ?a m) = live h m - {(unat p, k)}"
    using a by (auto simp: heap_ok_def live_eq live_eq [OF inv])
  show "payload (memheap_free_block h ?a m) = payload m"
    by (simp add: memheap_free_block_def Let_def heap_give_def free_push_def free_unlink_def split: prod.splits)
qed

lemma heap_free_ok:
  assumes ok: "heap_ok h m" and s: "heap_unlocked s h" and p: "(unat p, k) \<in> live h m"
  shows "\<exists>m'. rt_memheap_free p m s = Some (Ret (), m', s) \<and> heap_ok h m' \<and> payload m' = payload m \<and>
    live h m' = live h m - {(unat p, k)}"
proof -
  obtain s1 where s1: "rt_sem_take (Heap_lock h) RT_WAITING_FOREVER s = Some (Ret RT_EOK, s1)"
    "rt_sem_release (Heap_lock h) s1 = Some (RT_EOK, s)" "has_type s h RT_Object_Class_MemHeap"
    "h \<noteq> RT_NULL"
    using lock_unlock [OF s] by metis
  obtain as fs where inv: "heap_inv h as fs m" using ok by (auto simp: heap_ok_def)
  let ?a = "p - RT_MEMHEAP_SIZE"
  note a = regions_at [OF inv p [unfolded live_eq [OF inv]]]
  have "p \<noteq> 0" using a(4) by auto
  moreover obtain xs b ys where "as = xs @ ?a # b # ys" "next_of (it_block m) ?a = b"
    using heap_block [OF inv a(1,2)] by metis
  then have "next_of (it_block m) ?a \<in> set as" by simp
  moreover have "\<forall>x \<in> set as. it_magic m x AND RT_MEMHEAP_MASK = RT_MEMHEAP_MAGIC \<and> it_pool m x = h"
    using heap_invD(4) [OF inv] by (simp add: marks_def)
  ultimately have "rt_memheap_free p m s = Some (Ret (), memheap_free_block h ?a m, s)"
    using a(1,3) s1 by (simp add: rt_memheap_free_def memheap_free_locked_def Let_def)
  then show ?thesis using free_block_live [OF ok p] by simp
qed

text \<open>When everything has been released, the pool is one free block again.\<close>

lemma heap_coalesced:
  assumes ok: "heap_ok h m" and l: "live h m = {}"
  shows "gaps h m = {(unat (mh_start_addr (memheaps m h)) + 24, unat (mh_pool_size (memheaps m h)) - 48)}"
proof -
  obtain as fs where inv: "heap_inv h as fs m" using ok by (auto simp: heap_ok_def)
  note I = heap_invD [OF inv]
  have fr: "\<not> memheap_is_used m x" if "x \<in> set as" "x \<noteq> last as" for x
    using regions_mem [OF inv that] l by (auto simp: live_eq [OF inv])
  have "2 \<le> length as" using I(1) by (simp add: tiling_def)
  then obtain a b cs where as: "as = a # b # cs" by (auto simp: numeral_2_eq_2 Suc_le_length_iff)
  have d: "distinct as" by (rule cyc_distinct [OF I(2)])
  have "cs = []"
  proof (rule ccontr)
    assume "cs \<noteq> []"
    then have "a \<noteq> last as" "b \<noteq> last as" using d as last_in_set [of cs] by auto
    then have "\<not> memheap_is_used m a" "\<not> memheap_is_used m b" using fr as by auto
    then show False using I(4) as by (simp add: marks_def adj_def)
  qed
  then show ?thesis using I(1) as fr [of a] d by (auto simp: gaps_eq [OF inv] tiling_def)
qed

subsection \<open>Reallocation\<close>

text \<open>The heap does not depend on the bytes of the blocks.\<close>

lemma heap_inv_payload [simp]: "heap_inv h as fs (payload_update f m) = heap_inv h as fs m"
proof -
  have "memheap_is_used (payload_update f m) = memheap_is_used m" by (simp add: memheap_is_used_def fun_eq_iff)
  then show ?thesis by (simp add: heap_inv_def freelist_def marks_def)
qed

lemma heap_payload [simp]:
  "heap_ok h (payload_update f m) = heap_ok h m"
  "heap_ok h m \<Longrightarrow> live h (payload_update f m) = live h m"
proof -
  show "heap_ok h (payload_update f m) = heap_ok h m" by (simp add: heap_ok_def)
  show "live h (payload_update f m) = live h m" if ok: "heap_ok h m"
  proof -
    obtain as fs where inv: "heap_inv h as fs m" using ok by (auto simp: heap_ok_def)
    then have "heap_inv h as fs (payload_update f m)" by simp
    then show ?thesis using inv by (simp add: live_eq memheap_is_used_def [abs_def])
  qed
qed

lemma live_length:
  assumes ok: "heap_ok h m" and p: "(unat p, k) \<in> live h m"
  shows "k = unat (memitem_size m (p - RT_MEMHEAP_SIZE))" "k + 48 < 2 ^ 32" "p \<noteq> 0"
proof -
  obtain as fs where inv: "heap_inv h as fs m" using ok by (auto simp: heap_ok_def)
  show "k = unat (memitem_size m (p - RT_MEMHEAP_SIZE))"
    using regions_at(5) [OF inv p [unfolded live_eq [OF inv]]] .
  have "unat (mh_start_addr (memheaps m h)) + unat (mh_pool_size (memheaps m h)) \<le> 2 ^ 32"
    "0 < unat (mh_start_addr (memheaps m h))"
    using heap_invD(1) [OF inv] by (auto simp: tiling_def)
  then show "k + 48 < 2 ^ 32" "p \<noteq> 0" using live_pool [OF ok p] by auto
qed

lemma grow_live:
  assumes ok: "heap_ok h m" and p: "(unat p, k) \<in> live h m"
    and sz: "12 \<le> unat sz" "4 dvd unat sz" "unat sz + 12 < 2 ^ 32" "memitem_size m (p - RT_MEMHEAP_SIZE) < sz"
  shows "\<exists>grown m'. memheap_grow_block h (p - RT_MEMHEAP_SIZE) (memitem_size m (p - RT_MEMHEAP_SIZE)) sz m = Some (grown, m') \<and>
    (if grown then heap_ok h m' \<and> payload m' = payload m \<and>
       live h m' = live h m - {(unat p, k)} \<union> {(unat p, unat sz)}
     else m' = m)"
proof -
  obtain as fs where inv: "heap_inv h as fs m" using ok by (auto simp: heap_ok_def)
  note a = regions_at [OF inv p [unfolded live_eq [OF inv]]]
  show ?thesis
    using grow_block_ok [OF inv a(1,2,3) sz] a(4,5) by (fastforce simp: heap_ok_def live_eq live_eq [OF inv] split: if_splits)
qed

lemma shrink_live:
  assumes ok: "heap_ok h m" and p: "(unat p, k) \<in> live h m"
    and sz: "12 \<le> unat sz" "4 dvd unat sz" "unat sz + 36 < k"
  shows "heap_ok h (memheap_shrink_block h (p - RT_MEMHEAP_SIZE) sz m)"
    "live h (memheap_shrink_block h (p - RT_MEMHEAP_SIZE) sz m) = live h m - {(unat p, k)} \<union> {(unat p, unat sz)}"
    "payload (memheap_shrink_block h (p - RT_MEMHEAP_SIZE) sz m) = payload m"
proof -
  obtain as fs where inv: "heap_inv h as fs m" using ok by (auto simp: heap_ok_def)
  note a = regions_at [OF inv p [unfolded live_eq [OF inv]]]
  obtain as' fs' where "heap_inv h as' fs' (memheap_shrink_block h (p - RT_MEMHEAP_SIZE) sz m)"
    "payload (memheap_shrink_block h (p - RT_MEMHEAP_SIZE) sz m) = payload m"
    "regions (memheap_is_used (memheap_shrink_block h (p - RT_MEMHEAP_SIZE) sz m)) as' =
      regions (memheap_is_used m) as - {(unat (p - RT_MEMHEAP_SIZE) + 24, unat (memitem_size m (p - RT_MEMHEAP_SIZE)))}
      \<union> {(unat (p - RT_MEMHEAP_SIZE) + 24, unat sz)}"
    using shrink_block_ok [OF inv a(1,2,3) sz(1,2)] sz(3) unfolding a(5) by metis
  then show "heap_ok h (memheap_shrink_block h (p - RT_MEMHEAP_SIZE) sz m)"
    "live h (memheap_shrink_block h (p - RT_MEMHEAP_SIZE) sz m) = live h m - {(unat p, k)} \<union> {(unat p, unat sz)}"
    "payload (memheap_shrink_block h (p - RT_MEMHEAP_SIZE) sz m) = payload m"
    using a(4,5) by (auto simp: heap_ok_def live_eq live_eq [OF inv])
qed

text \<open>
  The block \<open>p\<close> of length \<open>k\<close> has become the block \<open>q\<close> of at least \<open>n\<close> bytes, with its content, and
  nothing else has changed.
\<close>

definition resized :: "ptr \<Rightarrow> u32 \<Rightarrow> nat \<Rightarrow> nat \<Rightarrow> memory \<Rightarrow> u32 \<Rightarrow> memory \<Rightarrow> bool" where
  "resized h p k n m q m' \<longleftrightarrow> heap_ok h m' \<and>
     (\<exists>j. n \<le> j \<and> live h m' = live h m - {(unat p, k)} \<union> {(unat q, j)} \<and>
       (\<forall>i. i < min k n \<longrightarrow> payload m' (unat q + i) = payload m (unat p + i)) \<and>
       (\<forall>x. x < unat q \<or> unat q + j \<le> x \<longrightarrow> payload m' x = payload m x))"

lemma resized_mono:
  assumes "resized h p k n' m q m'" "n \<le> n'"
  shows "resized h p k n m q m'"
proof -
  obtain j where "heap_ok h m'" "n' \<le> j" "live h m' = live h m - {(unat p, k)} \<union> {(unat q, j)}"
    "\<forall>i. i < min k n' \<longrightarrow> payload m' (unat q + i) = payload m (unat p + i)"
    "\<forall>x. x < unat q \<or> unat q + j \<le> x \<longrightarrow> payload m' x = payload m x"
    using assms(1) unfolding resized_def by (elim conjE exE)
  then show ?thesis unfolding resized_def using assms(2) by (intro conjI exI [of _ j]) auto
qed

lemma resized_in_place:
  assumes "heap_ok h m'" "live h m' = live h m - {(unat p, k)} \<union> {(unat p, j)}" "n \<le> j" "payload m' = payload m"
  shows "resized h p k n m p m'"
  using assms by (auto simp: resized_def intro!: exI [of _ j])

lemma realloc_copied:
  assumes ok: "heap_ok h m" and s: "heap_unlocked s h" and p: "(unat p, k) \<in> live h m"
    and n: "12 \<le> unat sz" "4 dvd unat sz" "unat sz \<le> 2 ^ 32 - 4"
    and a: "rt_memheap_alloc h sz m s = Some (Ret q, m1, s)" "payload m1 = payload m"
      "if alloc_fits h sz m
       then q \<noteq> 0 \<and> 4 dvd unat q \<and> heap_ok h m1 \<and>
         (\<exists>k. unat (heap_request sz) \<le> k \<and> live h m1 = insert (unat q, k) (live h m) \<and>
           (\<forall>(q', j) \<in> live h m. unat q + k \<le> q' \<or> q' + j \<le> unat q))
       else q = 0 \<and> m1 = m"
  shows "\<exists>m'. memheap_realloc_copy p (of_nat k) sz q m1 s = Some (Ret q, m', s) \<and>
    (if alloc_fits h sz m then q \<noteq> 0 \<and> resized h p k (unat sz) m q m' else q = 0 \<and> m' = m)"
proof (cases "alloc_fits h sz m")
  case False
  then show ?thesis using a by (simp add: memheap_realloc_copy_def)
next
  case True
  then obtain j where q: "q \<noteq> 0" "heap_ok h m1" and j: "unat (heap_request sz) \<le> j"
    "live h m1 = insert (unat q, j) (live h m)"
    "\<forall>(x, y) \<in> live h m. unat q + j \<le> x \<or> x + y \<le> unat q"
    using a(3) by (simp only: if_True) blast
  have szj: "unat sz \<le> j" using heap_request_ge [OF n(3)] j(1) by simp
  have apart: "unat q + j \<le> unat p \<or> unat p + k \<le> unat q" using j(3) p by blast
  have k: "unat (of_nat k :: u32) = k" using live_length(2) [OF ok p] by (simp add: unat_of_nat)
  let ?n = "min k (unat sz)"
  have c: "unat (if (of_nat k :: u32) < sz then of_nat k else sz) = ?n"
    using k by (auto simp: word_less_nat_alt)
  let ?m = "payload_update (rt_memcpy (unat q) (unat p) ?n) m1"
  have mv: "payload ?m = moved (unat q) (unat p) ?n (payload m)"
  proof -
    have "upward (unat q) (unat p) ?n" using apart szj by (auto simp: upward_def min_def)
    then show ?thesis using a(2) by (simp add: memcpy_moved)
  qed
  have lp: "(unat p, k) \<in> live h ?m" using p j(2) q(2) by simp
  have ok1: "heap_ok h ?m" using q(2) by simp
  obtain m' where m': "rt_memheap_free p ?m s = Some (Ret (), m', s)" "heap_ok h m'" "payload m' = payload ?m"
    "live h m' = live h ?m - {(unat p, k)}"
    using heap_free_ok [OF ok1 s lp] by metis
  have "(unat q, j) \<noteq> (unat p, k)" using apart live_pool(3) [OF ok p] by auto
  then have l: "live h m' = live h m - {(unat p, k)} \<union> {(unat q, j)}"
    using m'(4) j(2) q(2) by auto
  have "resized h p k (unat sz) m q m'"
    unfolding resized_def using m'(2) l szj
    by (intro conjI exI [of _ j]) (auto simp: m'(3) mv moved_def)
  moreover have "memheap_realloc_copy p (of_nat k) sz q m1 s = Some (Ret q, m', s)"
    using q(1) m'(1) c by (simp add: memheap_realloc_copy_def Let_def)
  ultimately show ?thesis using True q(1) by auto
qed

text \<open>
  A reallocation keeps the content and the other blocks, or returns \<open>RT_NULL\<close> and changes nothing.
\<close>

lemma heap_request_bound: "unat n \<le> 2 ^ 32 - 16 \<Longrightarrow> unat (heap_request n) \<le> 2 ^ 32 - 13"
proof -
  assume n: "unat n \<le> 2 ^ 32 - 16"
  have "unat (n + 3) = unat n + 3" using n by (simp add: unat_word_ariths)
  then have "unat (RT_ALIGN4 n) \<le> unat n + 3" by (simp only: RT_ALIGN4_eq align_down)
  then show ?thesis using n by (auto simp: heap_request_def RT_MEMHEAP_MINIALLOC_def)
qed

lemma heap_realloc_ok:
  assumes ok: "heap_ok h m" and s: "heap_unlocked s h" and p: "(unat p, k) \<in> live h m"
    and n: "n \<noteq> 0" "unat n \<le> 2 ^ 32 - 16"
  shows "\<exists>q m'. rt_memheap_realloc h p n m s = Some (Ret q, m', s) \<and>
    (if q = 0 then m' = m else resized h p k (unat n) m q m')"
proof -
  obtain s1 where s1: "rt_sem_take (Heap_lock h) RT_WAITING_FOREVER s = Some (Ret RT_EOK, s1)"
    "rt_sem_release (Heap_lock h) s1 = Some (RT_EOK, s)" "has_type s h RT_Object_Class_MemHeap"
    "h \<noteq> RT_NULL"
    using lock_unlock [OF s] by metis
  let ?sz = "heap_request n" and ?a = "p - RT_MEMHEAP_SIZE"
  note sz = heap_request_ok [of n] heap_request_bound [OF n(2)]
  have ge: "unat n \<le> unat ?sz" using heap_request_ge [of n] n(2) by simp
  note k = live_length [OF ok p]
  have weaken: "resized h p k (unat n) m q m'" if "resized h p k (unat ?sz) m q m'" for q m'
    using resized_mono [OF that ge] .
  have ko: "of_nat k = memitem_size m ?a" using k(1) by simp
  consider (grow) "memitem_size m ?a < ?sz" | (keep) "\<not> memitem_size m ?a < ?sz" "k \<le> unat ?sz + 36"
    | (shrink) "\<not> memitem_size m ?a < ?sz" "unat ?sz + 36 < k" by linarith
  then show ?thesis
  proof cases
    case grow
    have g12: "unat ?sz + 12 < 2 ^ 32" using sz(3) by simp
    obtain grown m1 where gg: "memheap_grow_block h ?a (memitem_size m ?a) ?sz m = Some (grown, m1) \<and>
        (if grown then heap_ok h m1 \<and> payload m1 = payload m \<and>
           live h m1 = live h m - {(unat p, k)} \<union> {(unat p, unat ?sz)} else m1 = m)"
      using grow_live [OF ok p sz(1,2) g12 grow] by (elim exE)
    note g = gg [THEN conjunct1] and gr = gg [THEN conjunct2]
    have r: "rt_memheap_realloc h p n m s = memheap_realloc_grow h p (memitem_size m ?a) ?sz RT_EOK m s1"
      using s1 n(1) k(3) grow by (simp add: rt_memheap_realloc_def Let_def)
    show ?thesis
    proof (cases grown)
      case True
      then have "resized h p k (unat ?sz) m p m1" using gr by (intro resized_in_place [of _ _ _ _ _ "unat ?sz"]) simp_all
      then show ?thesis using r g True s1(2) k(3) weaken by (auto simp: memheap_realloc_grow_def Let_def)
    next
      case False
      have n4: "unat ?sz \<le> 2 ^ 32 - 4" using sz(3) by simp
      obtain q m2 where a: "rt_memheap_alloc h ?sz m s = Some (Ret q, m2, s) \<and> payload m2 = payload m \<and>
        (if alloc_fits h ?sz m
         then q \<noteq> 0 \<and> 4 dvd unat q \<and> heap_ok h m2 \<and>
           (\<exists>k. unat (heap_request ?sz) \<le> k \<and> live h m2 = insert (unat q, k) (live h m) \<and>
             (\<forall>(q', j) \<in> live h m. unat q + k \<le> q' \<or> q' + j \<le> unat q))
         else q = 0 \<and> m2 = m)"
        using heap_alloc_ok [OF ok s, of ?sz] by (elim exE)
      note a = a [THEN conjunct1] a [THEN conjunct2, THEN conjunct1] a [THEN conjunct2, THEN conjunct2]
      obtain m' where cc: "memheap_realloc_copy p (of_nat k) ?sz q m2 s = Some (Ret q, m', s) \<and>
          (if alloc_fits h ?sz m then q \<noteq> 0 \<and> resized h p k (unat ?sz) m q m' else q = 0 \<and> m' = m)"
        using realloc_copied [OF ok s p sz(1,2) n4 a] by (elim exE)
      note c = cc [THEN conjunct1] cc [THEN conjunct2]
      have "m1 = m" using gr False by simp
      then have "rt_memheap_realloc h p n m s = Some (Ret q, m', s)"
        using r g False s1(2) a(1) c(1) by (simp add: memheap_realloc_grow_def Let_def ko)
      then show ?thesis using c(2) weaken by (auto split: if_splits)
    qed
  next
    case keep
    have "unat (?sz + RT_MEMHEAP_SIZE + RT_MEMHEAP_MINIALLOC) = unat ?sz + 36"
      using keep(1) k(1,2) by (simp add: memheap_consts unat_word_ariths word_less_nat_alt)
    then have "rt_memheap_realloc h p n m s = Some (Ret p, m, s)"
      using s1(3,4) n(1) k keep by (simp add: rt_memheap_realloc_def Let_def word_le_nat_alt)
    moreover have "resized h p k (unat n) m p m"
      using ok p ge keep(1) k(1) by (intro resized_in_place [of _ _ _ _ _ k]) (auto simp: word_less_nat_alt)
    ultimately show ?thesis using k(3) by auto
  next
    case shrink
    have "unat (?sz + RT_MEMHEAP_SIZE + RT_MEMHEAP_MINIALLOC) = unat ?sz + 36"
      using shrink(1) k(1,2) by (simp add: memheap_consts unat_word_ariths word_less_nat_alt)
    then have "rt_memheap_realloc h p n m s = Some (Ret p, memheap_shrink_block h ?a ?sz m, s)"
      using s1 n(1) k shrink
      by (simp add: rt_memheap_realloc_def memheap_realloc_shrink_def Let_def word_le_nat_alt)
    moreover have "resized h p k (unat ?sz) m p (memheap_shrink_block h ?a ?sz m)"
      using shrink_live [OF ok p sz(1,2) shrink(2)] by (intro resized_in_place [of _ _ _ _ _ "unat ?sz"]) simp_all
    ultimately show ?thesis using k(3) weaken by auto
  qed
qed

end
