(* ===== verification/RT_Alloc.thy ===== *)
theory RT_Alloc
  imports RT_Prelude "HOL-Library.Multiset"
begin

text \<open>
  The contract of an allocator, which the memory heap and the memory pools provide: a successful
  allocation adds one block that overlaps no other, a release takes away the block it names, and
  neither touches anything else.  What a client may conclude for any sequence of calls is proved
  once.  Addresses are words, 0 stands for a refused allocation.
\<close>

datatype alloc_op = Alloc u32 | Release nat

text \<open>
  A client keeps a ledger of the blocks it holds, with the sizes it asked for.  \<open>Release i\<close> gives
  back the block at position \<open>i\<close> of the ledger.
\<close>

type_synonym ledger = "(u32 \<times> u32) list"

fun alloc_run :: "(u32 \<Rightarrow> 'm \<Rightarrow> (u32 \<times> 'm) option) \<Rightarrow> (u32 \<Rightarrow> 'm \<Rightarrow> 'm option) \<Rightarrow>
    alloc_op list \<Rightarrow> ledger \<Rightarrow> 'm \<Rightarrow> (ledger \<times> 'm) option" where
  "alloc_run alloc free [] L m = Some (L, m)"
| "alloc_run alloc free (Alloc n # ops) L m = do {
     (p, m') \<leftarrow> alloc n m;
     alloc_run alloc free ops (if p = 0 then L else (p, n) # L) m'
   }"
| "alloc_run alloc free (Release i # ops) L m =
     (if i < length L then do {
        m' \<leftarrow> free (fst (L ! i)) m;
        alloc_run alloc free ops (take i L @ drop (Suc i) L) m'
      }
      else alloc_run alloc free ops L m)"

fun requests_valid :: "(u32 \<Rightarrow> bool) \<Rightarrow> alloc_op list \<Rightarrow> bool" where
  "requests_valid P [] = True"
| "requests_valid P (Alloc n # ops) = (P n \<and> requests_valid P ops)"
| "requests_valid P (Release i # ops) = requests_valid P ops"

text \<open>No two entries of a ledger overlap.\<close>

definition ledger_apart :: "ledger \<Rightarrow> bool" where
  "ledger_apart L \<longleftrightarrow> sorted_wrt (\<lambda>(p, n) (q, k).
     unat p + unat n \<le> unat q \<or> unat q + unat k \<le> unat p) L"

locale allocator =
  fixes inv :: "'m \<Rightarrow> bool"
    and held :: "'m \<Rightarrow> (nat \<times> nat) set"
    and valid :: "u32 \<Rightarrow> bool"
    and alloc :: "u32 \<Rightarrow> 'm \<Rightarrow> (u32 \<times> 'm) option"
    and free :: "u32 \<Rightarrow> 'm \<Rightarrow> 'm option"
  assumes alloc_law: "inv m \<Longrightarrow> valid n \<Longrightarrow> \<exists>p m'. alloc n m = Some (p, m') \<and> inv m' \<and>
      (if p = 0 then held m' = held m
       else \<exists>k. unat n \<le> k \<and> (unat p, k) \<notin> held m \<and> held m' = insert (unat p, k) (held m))"
    and free_law: "inv m \<Longrightarrow> (unat p, k) \<in> held m \<Longrightarrow>
      \<exists>m'. free p m = Some m' \<and> inv m' \<and> held m' = held m - {(unat p, k)}"
    and apart: "inv m \<Longrightarrow> (a, k) \<in> held m \<Longrightarrow> (b, j) \<in> held m \<Longrightarrow> (a, k) \<noteq> (b, j) \<Longrightarrow>
      a + k \<le> b \<or> b + j \<le> a"
    and length_pos: "inv m \<Longrightarrow> (a, k) \<in> held m \<Longrightarrow> 0 < k"
begin

lemma one_length:
  assumes "inv m" "(p, k) \<in> held m" "(p, j) \<in> held m"
  shows "k = j"
  using apart [OF assms] length_pos [OF assms(1)] assms(2,3) by fastforce

text \<open>The client holds the blocks of its ledger, \<open>len\<close> long, and others hold \<open>rest\<close>.\<close>

definition own :: "(u32 \<Rightarrow> nat) \<Rightarrow> ledger \<Rightarrow> (nat \<times> nat) set" where
  "own len L = (\<lambda>p. (unat p, len p)) ` fst ` set L"

lemma own_Cons [simp]: "own len ((p, n) # L) = insert (unat p, len p) (own len L)"
  by (simp add: own_def)

lemma own_iff [simp]: "(unat p, k) \<in> own len L \<longleftrightarrow> p \<in> fst ` set L \<and> k = len p"
  by (auto simp: own_def image_iff simp flip: word_unat_eq_iff)

lemma own_Nil [simp]: "own len [] = {}"
  by (simp add: own_def)

lemma card_own: "distinct (map fst L) \<Longrightarrow> card (own len L) = length L"
proof -
  assume d: "distinct (map fst L)"
  have "inj_on (\<lambda>p. (unat p, len p)) (fst ` set L)" by (auto simp: inj_on_def simp flip: word_unat_eq_iff)
  then have "card (own len L) = card (set (map fst L))" by (simp add: own_def card_image)
  then show ?thesis using distinct_card [OF d] by simp
qed

lemma own_update: "p \<notin> fst ` set L \<Longrightarrow> own (len(p := k)) L = own len L"
  unfolding own_def by (intro image_cong) auto

definition holds :: "(nat \<times> nat) set \<Rightarrow> ledger \<Rightarrow> 'm \<Rightarrow> (u32 \<Rightarrow> nat) \<Rightarrow> bool" where
  "holds rest L m len \<longleftrightarrow> inv m \<and> distinct (map fst L) \<and> (\<forall>p n. (p, n) \<in> set L \<longrightarrow> unat n \<le> len p) \<and>
     held m = rest \<union> own len L \<and> rest \<inter> own len L = {}"

lemma holds_alloc:
  assumes h: "holds rest L m len" and v: "valid n"
  shows "\<exists>p m' len'. alloc n m = Some (p, m') \<and> holds rest (if p = 0 then L else (p, n) # L) m' len'"
proof -
  obtain p m' where a: "alloc n m = Some (p, m')" "inv m'"
    "if p = 0 then held m' = held m
     else \<exists>k. unat n \<le> k \<and> (unat p, k) \<notin> held m \<and> held m' = insert (unat p, k) (held m)"
    using alloc_law [of m n] h v by (auto simp: holds_def)
  show ?thesis
  proof (cases "p = 0")
    case True
    then show ?thesis using a h by (auto simp: holds_def)
  next
    case False
    then obtain k where k: "unat n \<le> k" "(unat p, k) \<notin> held m" "held m' = insert (unat p, k) (held m)"
      using a(3) by auto
    have new: "p \<notin> fst ` set L"
    proof
      assume "p \<in> fst ` set L"
      then have "(unat p, len p) \<in> held m" using h by (simp add: holds_def)
      then show False using one_length [OF a(2), of "unat p" k "len p"] k by auto
    qed
    then have "(p, x) \<notin> set L" for x by force
    then have "holds rest ((p, n) # L) m' (len(p := k))"
      using h a(2) k new unfolding holds_def by (auto simp: own_update)
    then show ?thesis using a(1) False by auto
  qed
qed

lemma holds_perm: "mset L = mset L' \<Longrightarrow> holds rest L m len = holds rest L' m len"
  using mset_eq_imp_distinct_iff [of "map fst L" "map fst L'"]
  by (simp add: holds_def own_def mset_eq_setD [of L L'])

lemma holds_release_hd:
  assumes h: "holds rest ((p, n) # L) m len"
  shows "\<exists>m'. free p m = Some m' \<and> holds rest L m' len"
proof -
  have "(unat p, len p) \<in> held m" "inv m" using h by (simp_all add: holds_def)
  then obtain m' where m': "free p m = Some m'" "inv m'" "held m' = held m - {(unat p, len p)}"
    using free_law by metis
  have "(unat p, len p) \<notin> own len L" "(unat p, len p) \<notin> rest" using h by (auto simp: holds_def)
  then have "held m' = rest \<union> own len L" using h m'(3) by (auto simp: holds_def)
  then show ?thesis using h m'(1,2) by (auto simp: holds_def)
qed

lemma holds_release:
  assumes h: "holds rest L m len" and i: "i < length L"
  shows "\<exists>m'. free (fst (L ! i)) m = Some m' \<and> holds rest (take i L @ drop (Suc i) L) m' len"
proof -
  have "L = take i L @ L ! i # drop (Suc i) L" using id_take_nth_drop [OF i] .
  then have "mset L = mset (L ! i # take i L @ drop (Suc i) L)" by (metis mset_append mset.simps(2) union_mset_add_mset_right)
  then have "holds rest (L ! i # take i L @ drop (Suc i) L) m len" using holds_perm h by blast
  then show ?thesis using holds_release_hd [of rest "fst (L ! i)" "snd (L ! i)"] by simp
qed

lemma run_holds:
  assumes "holds rest L m len" "requests_valid valid ops"
  shows "\<exists>L' m' len'. alloc_run alloc free ops L m = Some (L', m') \<and> holds rest L' m' len'"
  using assms
proof (induction ops arbitrary: L m len)
  case (Cons op ops)
  show ?case
  proof (cases op)
    case (Alloc n)
    then have "valid n" "requests_valid valid ops" using Cons.prems(2) by simp_all
    then show ?thesis using holds_alloc [OF Cons.prems(1), of n] Cons.IH Alloc by fastforce
  next
    case (Release i)
    then have "requests_valid valid ops" using Cons.prems(2) by simp
    then show ?thesis using holds_release [OF Cons.prems(1), of i] Cons.IH [OF _ \<open>requests_valid valid ops\<close>] Cons.prems(1) Release
      by (cases "i < length L") fastforce+
  qed
qed auto

lemma holds_apart:
  assumes h: "holds rest L m len"
  shows "ledger_apart L"
proof -
  have "unat p + unat n \<le> unat q \<or> unat q + unat k \<le> unat p"
    if ij: "i < j" "j < length L" and e: "L ! i = (p, n)" "L ! j = (q, k)" for i j p n q k
  proof -
    have m: "(p, n) \<in> set L" "(q, k) \<in> set L" using ij e by (metis nth_mem less_trans)+
    have "map fst L ! i \<noteq> map fst L ! j"
      using h ij by (simp add: holds_def nth_eq_iff_index_eq del: nth_map)
    then have "p \<noteq> q" using ij e by simp
    then have "(unat p, len p) \<noteq> (unat q, len q)" by (metis fst_conv unsigned_word_eqI)
    moreover have "(unat p, len p) \<in> held m" "(unat q, len q) \<in> held m" "unat n \<le> len p" "unat k \<le> len q" "inv m"
      using h m by (auto simp: holds_def image_iff intro: bexI [rotated])
    ultimately show ?thesis using apart by fastforce
  qed
  then show ?thesis unfolding ledger_apart_def sorted_wrt_iff_nth_less by (auto split: prod.splits)
qed

lemma own_image: "own len L = (\<lambda>(p, n). (unat p, len p)) ` set L"
  by (auto simp: own_def image_iff split: prod.splits intro!: bexI [rotated])

text \<open>
  Any sequence of allocations and releases comes to an end with disjoint blocks, each at least as long
  as the request; the blocks of the others are as before, and there are no more.
\<close>

lemma run_apart:
  assumes "inv m" "requests_valid valid ops"
  shows "\<exists>L m'. alloc_run alloc free ops [] m = Some (L, m') \<and> inv m' \<and> ledger_apart L \<and>
    held m \<subseteq> held m' \<and> (L = [] \<longrightarrow> held m' = held m) \<and>
    (finite (held m) \<longrightarrow> card (held m') = card (held m) + length L) \<and> distinct (map fst L) \<and>
    (\<exists>len. (\<forall>(p, n) \<in> set L. unat n \<le> len p) \<and>
      held m' = held m \<union> (\<lambda>(p, n). (unat p, len p)) ` set L)"
proof -
  have "holds (held m) [] m (\<lambda>_. 0)" using assms(1) by (simp add: holds_def)
  then obtain L m' len where r: "alloc_run alloc free ops [] m = Some (L, m')" "holds (held m) L m' len"
    using run_holds [OF _ assms(2)] by blast
  have "finite (own len L)" by (simp add: own_def)
  then have "finite (held m) \<longrightarrow> card (held m') = card (held m) + length L"
    using r(2) card_own [of L len] by (simp add: holds_def card_Un_disjoint)
  moreover have "\<forall>(p, n) \<in> set L. unat n \<le> len p" "held m' = held m \<union> (\<lambda>(p, n). (unat p, len p)) ` set L"
    "distinct (map fst L)" "inv m'" "L = [] \<longrightarrow> held m' = held m"
    using r(2) by (auto simp: holds_def own_image)
  ultimately show ?thesis using r(1) holds_apart [OF r(2)] by blast
qed

end

end
