(* ===== verification/RT_Heap_Api.thy ===== *)
theory RT_Heap_Api
  imports RT_Heap RT_Alloc RT_Demo
begin

text \<open>
  The memory heap as an \<open>allocator\<close>, and the properties of its operations.
\<close>

definition heap_alloc :: "ptr \<Rightarrow> kstate \<Rightarrow> u32 \<Rightarrow> memory \<Rightarrow> (u32 \<times> memory) option" where
  "heap_alloc h s n m = (case rt_memheap_alloc h n m s of Some (Ret p, m', s') \<Rightarrow> Some (p, m') | _ \<Rightarrow> None)"

definition heap_release :: "kstate \<Rightarrow> u32 \<Rightarrow> memory \<Rightarrow> memory option" where
  "heap_release s p m = (case rt_memheap_free p m s of Some (Ret _, m', s') \<Rightarrow> Some m' | _ \<Rightarrow> None)"

definition heap_pool :: "ptr \<Rightarrow> memory \<Rightarrow> u32 \<times> u32" where
  "heap_pool h m = (mh_start_addr (memheaps m h), mh_pool_size (memheaps m h))"

text \<open>The operations leave the bounds of the pool alone.\<close>

lemma heap_pool_simps [simp]:
  "heap_pool h (it_magic_update f1 m) = heap_pool h m" "heap_pool h (it_pool_update f2 m) = heap_pool h m"
  "heap_pool h (it_block_update f3 m) = heap_pool h m" "heap_pool h (it_free_update f4 m) = heap_pool h m"
  "heap_pool h (payload_update f5 m) = heap_pool h m"
  "heap_pool h (heap_take g n m) = heap_pool h m" "heap_pool h (heap_give g n m) = heap_pool h m"
  "heap_pool h (free_push g a m) = heap_pool h m" "heap_pool h (free_unlink a m) = heap_pool h m"
  "heap_pool h (free_reset a m) = heap_pool h m" "heap_pool h (item_split g a b m) = heap_pool h m"
  by (simp_all add: heap_pool_def heap_take_def heap_give_def free_push_def free_unlink_def free_reset_def
      item_split_def Let_def)

lemma alloc_block_pool:
  assumes "memheap_alloc_block g sz m = Some (p, m')"
  shows "heap_pool h m' = heap_pool h m"
  using assms
  by (auto simp: memheap_alloc_block_def memheap_take_block_def Let_def split: if_splits bind_splits)

lemma free_block_pool: "heap_pool h (memheap_free_block g a m) = heap_pool h m"
  by (simp add: memheap_free_block_def Let_def split: prod.splits if_splits)

lemma heap_alloc_pool:
  assumes "heap_alloc g s n m = Some (p, m')"
  shows "heap_pool h m' = heap_pool h m"
  using assms alloc_block_pool
  by (fastforce simp: heap_alloc_def rt_memheap_alloc_def memheap_alloc_locked_def Let_def
      split: option.splits if_splits outcome.splits bind_splits prod.splits)

lemma heap_release_pool:
  assumes "heap_release s p m = Some m'"
  shows "heap_pool h m' = heap_pool h m"
  using assms free_block_pool
  by (fastforce simp: heap_release_def rt_memheap_free_def memheap_free_locked_def Let_def
      split: option.splits if_splits outcome.splits bind_splits prod.splits)

text \<open>The laws of the contract.\<close>

lemma heap_alloc_law:
  assumes "heap_ok h m" "heap_unlocked s h" "unat n \<le> 2 ^ 32 - 4"
  shows "\<exists>p m'. heap_alloc h s n m = Some (p, m') \<and> heap_ok h m' \<and>
    (if p = 0 then live h m' = live h m
     else \<exists>k. unat n \<le> k \<and> (unat p, k) \<notin> live h m \<and> live h m' = insert (unat p, k) (live h m))"
proof -
  obtain p m' where a: "rt_memheap_alloc h n m s = Some (Ret p, m', s) \<and> payload m' = payload m \<and>
    (if alloc_fits h n m
     then p \<noteq> 0 \<and> 4 dvd unat p \<and> heap_ok h m' \<and>
       (\<exists>k. unat (heap_request n) \<le> k \<and> live h m' = insert (unat p, k) (live h m) \<and>
         (\<forall>(q, j) \<in> live h m. unat p + k \<le> q \<or> q + j \<le> unat p))
     else p = 0 \<and> m' = m)"
    using heap_alloc_ok [OF assms(1,2), of n] by (elim exE)
  show ?thesis
  proof (cases "alloc_fits h n m")
    case True
    then obtain k where k: "unat (heap_request n) \<le> k" "live h m' = insert (unat p, k) (live h m)"
      "\<forall>(q, j) \<in> live h m. unat p + k \<le> q \<or> q + j \<le> unat p" "p \<noteq> 0" "heap_ok h m'"
      using a by (auto split: if_splits)
    have "12 \<le> k" using live_pool(3) [OF k(5), of "unat p" k] k(2) by simp
    then have "(unat p, k) \<notin> live h m" using k(3) by fastforce
    moreover have "unat n \<le> k" using heap_request_ge [OF assms(3)] k(1) by simp
    ultimately show ?thesis using a k(2,4,5) by (intro exI [of _ p] exI [of _ m']) (auto simp: heap_alloc_def)
  next
    case False
    then show ?thesis using a assms(1) by (auto simp: heap_alloc_def)
  qed
qed

interpretation heap: allocator "\<lambda>m. heap_ok h m \<and> heap_unlocked s h" "live h" "\<lambda>n. unat n \<le> 2 ^ 32 - 4"
  "heap_alloc h s" "heap_release s" for h s
proof unfold_locales
  fix m and n :: u32
  assume "heap_ok h m \<and> heap_unlocked s h" "unat n \<le> 2 ^ 32 - 4"
  then show "\<exists>p m'. heap_alloc h s n m = Some (p, m') \<and> (heap_ok h m' \<and> heap_unlocked s h) \<and>
    (if p = 0 then live h m' = live h m
     else \<exists>k. unat n \<le> k \<and> (unat p, k) \<notin> live h m \<and> live h m' = insert (unat p, k) (live h m))"
    using heap_alloc_law by metis
next
  fix m and p :: u32 and k
  assume "heap_ok h m \<and> heap_unlocked s h" "(unat p, k) \<in> live h m"
  then show "\<exists>m'. heap_release s p m = Some m' \<and> (heap_ok h m' \<and> heap_unlocked s h) \<and>
    live h m' = live h m - {(unat p, k)}"
    using heap_free_ok [of h m s p k] by (auto simp: heap_release_def)
next
  fix m a k b j
  assume "heap_ok h m \<and> heap_unlocked s h" "(a, k) \<in> live h m" "(b, j) \<in> live h m" "(a, k) \<noteq> (b, j)"
  then show "a + k \<le> b \<or> b + j \<le> a" using live_disjoint by blast
next
  fix m a k
  assume "heap_ok h m \<and> heap_unlocked s h" "(a, k) \<in> live h m"
  then show "0 < k" using live_pool(3) by fastforce
qed

lemma heap_run_pool:
  "alloc_run (heap_alloc g s) (heap_release s) ops L m = Some (L', m') \<Longrightarrow> heap_pool h m' = heap_pool h m"
proof (induction ops arbitrary: L m)
  case (Cons op ops)
  then show ?case
    by (cases op) (auto simp: heap_alloc_pool heap_release_pool split: bind_splits if_splits)
qed simp

subsection \<open>Properties\<close>

text \<open>The request without wrap-around: rounded up to words, and twelve bytes at least.\<close>

lemma heap_request_need:
  assumes "unat n \<le> 2 ^ 32 - 4"
  shows "unat (heap_request n) = max 12 (4 * ((unat n + 3) div 4))"
proof -
  have "unat (n + 3) = unat n + 3" using assms by (simp add: unat_word_ariths)
  then have "unat (RT_ALIGN4 n) = unat n + 3 - (unat n + 3) mod 4" by (simp only: RT_ALIGN4_eq align_down)
  then have a: "unat (RT_ALIGN4 n) = 4 * ((unat n + 3) div 4)" by presburger
  then have "RT_ALIGN4 n < RT_MEMHEAP_MINIALLOC \<longleftrightarrow> 4 * ((unat n + 3) div 4) < 12"
    by (simp add: word_less_nat_alt RT_MEMHEAP_MINIALLOC_def)
  then show ?thesis using a by (auto simp: heap_request_def RT_MEMHEAP_MINIALLOC_def)
qed

lemma memheap_init_ok:
  assumes "4 dvd unat start" "0 < unat start"
    and "60 \<le> unat (sz AND NOT 3)" "unat start + unat (sz AND NOT 3) \<le> 2 ^ 32"
    and "unat (mh_free_header (memheaps m h)) < unat start \<or>
      unat start + unat (sz AND NOT 3) \<le> unat (mh_free_header (memheaps m h))"
  shows "heap_ok h (memheap_layout h start sz m)" "live h (memheap_layout h start sz m) = {}"
    "heap_pool h (memheap_layout h start sz m) = (start, sz AND NOT 3)"
proof -
  note inv = layout_ok [OF assms]
  show "heap_ok h (memheap_layout h start sz m)" using inv by (auto simp: heap_ok_def)
  have fr: "\<not> memheap_is_used m' a" if "heap_inv h as (a # fs) m'" for as a fs m'
    using heap_invD(3) [OF that] by (auto simp: freelist_def)
  have "\<not> memheap_is_used (memheap_layout h start sz m) start" by (rule fr [OF inv])
  then show "live h (memheap_layout h start sz m) = {}" by (simp add: live_eq [OF inv])
  show "heap_pool h (memheap_layout h start sz m) = (start, sz AND NOT 3)"
    by (simp add: memheap_layout_def Let_def) (simp add: heap_pool_def)
qed

lemma memheap_init:
  assumes "sched_ready s" "h \<noteq> RT_NULL"
    and "rt_object_get_information RT_Object_Class_MemHeap = Some i" "h \<notin> set (object_lists s i)"
    and "rt_object_get_information RT_Object_Class_Semaphore = Some j" "i \<noteq> j"
      "Heap_lock h \<notin> set (object_lists s j)"
    and "4 dvd unat start" "0 < unat start"
      "60 \<le> unat (sz AND NOT 3)" "unat start + unat (sz AND NOT 3) \<le> 2 ^ 32"
    and "unat (mh_free_header (memheaps m h)) < unat start \<or>
      unat start + unat (sz AND NOT 3) \<le> unat (mh_free_header (memheaps m h))"
  shows "\<exists>m' s'. rt_memheap_init h name start sz m s = Some (RT_EOK, m', s') \<and> heap_ok h m' \<and>
    live h m' = {} \<and> gaps h m' = {(unat start + 24, unat (sz AND NOT 3) - 48)} \<and>
    sems s' (Heap_lock h) = 1 \<and> tlists s' (Suspend_thread (Heap_lock h)) = []"
proof -
  obtain s1 where s1: "rt_object_init h RT_Object_Class_MemHeap name s = Some s1" "sched_ready s1"
    "object_lists s1 = (object_lists s)(i := h # object_lists s i)"
    using object_init_total [OF assms(1,3,4)] by blast
  have "Heap_lock h \<notin> set (object_lists s1 j)" using s1(3) assms(6,7) by auto
  then obtain s2 where s2: "rt_object_init (Heap_lock h) RT_Object_Class_Semaphore name s1 = Some s2"
    using object_init_total [OF s1(2) assms(5)] by blast
  note l = memheap_init_ok [OF assms(8-12)]
  have "gaps h (memheap_layout h start sz m) = {(unat start + 24, unat (sz AND NOT 3) - 48)}"
    using heap_coalesced [OF l(1,2)] l(3) by (simp add: heap_pool_def)
  then show ?thesis
    using l s1(1) s2 assms(2) by (simp add: rt_memheap_init_def rt_sem_init_def rt_ipc_object_init_def)
qed

text \<open>C34. An allocation of at most 2^32 - 4 bytes on a memory heap that nobody holds succeeds exactly
  when a free block has room for the size rounded up to a multiple of 4 and at least 12 bytes
  and the available count says so, returns an aligned block apart from all others and at least
  as large as asked for, and otherwise changes nothing.\<close>

lemma memheap_alloc:
  assumes "heap_ok h m" "heap_unlocked s h" and n: "unat n \<le> 2 ^ 32 - 4"
    and need: "need = max 12 (4 * ((unat n + 3) div 4))"
  shows "\<exists>p m'. rt_memheap_alloc h n m s = Some (Ret p, m', s) \<and> payload m' = payload m \<and>
    (if need < unat (mh_available_size (memheaps m h)) \<and> (\<exists>(q, j) \<in> gaps h m. need \<le> j)
     then p \<noteq> 0 \<and> 4 dvd unat p \<and> heap_ok h m' \<and>
       (\<exists>k. unat n \<le> k \<and> live h m' = insert (unat p, k) (live h m) \<and>
         (\<forall>(q, j) \<in> live h m. unat p + k \<le> q \<or> q + j \<le> unat p))
     else p = 0 \<and> m' = m)"
proof -
  have r: "unat (heap_request n) = need" using heap_request_need [OF n] need by simp
  then have f: "alloc_fits h n m \<longleftrightarrow>
      need < unat (mh_available_size (memheaps m h)) \<and> (\<exists>(q, j) \<in> gaps h m. need \<le> j)"
    by (simp add: alloc_fits_def word_less_nat_alt)
  have le: "unat n \<le> unat (heap_request n)" by (rule heap_request_ge [OF n])
  obtain p m' where a: "rt_memheap_alloc h n m s = Some (Ret p, m', s)" "payload m' = payload m"
    "if alloc_fits h n m
     then p \<noteq> 0 \<and> 4 dvd unat p \<and> heap_ok h m' \<and>
       (\<exists>k. unat (heap_request n) \<le> k \<and> live h m' = insert (unat p, k) (live h m) \<and>
         (\<forall>(q, j) \<in> live h m. unat p + k \<le> q \<or> q + j \<le> unat p))
     else p = 0 \<and> m' = m"
    using heap_alloc_ok [OF assms(1,2), of n] by blast
  show ?thesis
  proof (cases "alloc_fits h n m")
    case True
    then show ?thesis
      using a le unfolding f [symmetric] by (intro exI [of _ p] exI [of _ m']) (auto intro: le_trans)
  next
    case False
    then show ?thesis using a unfolding f [symmetric] by (intro exI [of _ p] exI [of _ m']) simp
  qed
qed

text \<open>C35. A release takes exactly the given block away from the allocated ones, merges it with its
  free neighbours and keeps the invariant of the heap.\<close>

lemma memheap_free:
  assumes "heap_ok h m" "heap_unlocked s h" "(unat p, k) \<in> live h m"
  shows "\<exists>m'. rt_memheap_free p m s = Some (Ret (), m', s) \<and> heap_ok h m' \<and> payload m' = payload m \<and>
    live h m' = live h m - {(unat p, k)}"
  by (rule heap_free_ok [OF assms])

text \<open>C36. For sizes from 1 to 2^32 - 16, a reallocation that succeeds keeps the bytes of the block up
  to the smaller length, leaves all memory outside of the new block alone, and replaces the old
  block by the new one; one that fails changes nothing.\<close>

lemma memheap_realloc:
  assumes "heap_ok h m" "heap_unlocked s h" "(unat p, k) \<in> live h m" "n \<noteq> 0" "unat n \<le> 2 ^ 32 - 16"
  shows "\<exists>q m'. rt_memheap_realloc h p n m s = Some (Ret q, m', s) \<and>
    (if q = 0 then m' = m
     else heap_ok h m' \<and> (\<exists>j. unat n \<le> j \<and> live h m' = live h m - {(unat p, k)} \<union> {(unat q, j)} \<and>
       (\<forall>i. i < min k (unat n) \<longrightarrow> payload m' (unat q + i) = payload m (unat p + i)) \<and>
       (\<forall>x. x < unat q \<or> unat q + j \<le> x \<longrightarrow> payload m' x = payload m x)))"
  using heap_realloc_ok [OF assms] by (simp only: resized_def)

text \<open>C33. In every run of releases and allocations of at most 2^32 - 4 bytes on a fresh memory heap
  the blocks handed out lie apart in their whole length and are at least as long as asked for,
  the allocated blocks of the heap are exactly those, the heap invariant holds after each step,
  and when everything was released the heap is one free block again.\<close>

lemma memheap_run:
  assumes "heap_ok h m" "heap_unlocked s h" "live h m = {}"
    "requests_valid (\<lambda>n. unat n \<le> 2 ^ 32 - 4) ops"
  shows "\<exists>L m'. alloc_run (heap_alloc h s) (heap_release s) ops [] m = Some (L, m') \<and> heap_ok h m' \<and>
    distinct (map fst L) \<and> ledger_apart L \<and>
    (\<exists>len. (\<forall>(p, n) \<in> set L. unat n \<le> len p) \<and> live h m' = (\<lambda>(p, n). (unat p, len p)) ` set L) \<and>
    (\<forall>(a, k) \<in> live h m'. \<forall>(b, j) \<in> live h m'. (a, k) \<noteq> (b, j) \<longrightarrow> a + k \<le> b \<or> b + j \<le> a) \<and>
    (L = [] \<longrightarrow> gaps h m' = gaps h m)"
proof -
  obtain L m' len where r: "alloc_run (heap_alloc h s) (heap_release s) ops [] m = Some (L, m')"
    "heap_ok h m'" "ledger_apart L" "L = [] \<longrightarrow> live h m' = live h m"
    and l: "distinct (map fst L)" "\<forall>(p, n) \<in> set L. unat n \<le> len p"
      "live h m' = live h m \<union> (\<lambda>(p, n). (unat p, len p)) ` set L"
    using heap.run_apart [of h m s ops] assms by blast
  have dis: "\<forall>(a, k) \<in> live h m'. \<forall>(b, j) \<in> live h m'. (a, k) \<noteq> (b, j) \<longrightarrow> a + k \<le> b \<or> b + j \<le> a"
    using live_disjoint [OF r(2)] by blast
  have "gaps h m' = gaps h m" if "L = []"
    using heap_coalesced [OF assms(1,3)] heap_coalesced [OF r(2)] r(4) that assms(3) heap_run_pool [OF r(1), of h]
    by (simp add: heap_pool_def)
  then show ?thesis using r l dis assms(3) by auto
qed

lemma memheap_request_wraps:
  assumes "heap_ok h m" "heap_unlocked s h" "alloc_fits h 12 m" "unat n > 2 ^ 32 - 4"
  shows "\<exists>p m'. rt_memheap_alloc h n m s = Some (Ret p, m', s) \<and> p \<noteq> 0"
proof -
  have "heap_request 12 = 12" by (simp add: heap_request_def RT_ALIGN4_def RT_MEMHEAP_MINIALLOC_def)
  then have "alloc_fits h n m" using assms(3) heap_request_wraps [OF assms(4)] by (simp add: alloc_fits_def)
  then show ?thesis using heap_alloc_ok [OF assms(1,2), of n] by (auto simp only: if_True)
qed

text \<open>
  Growing beyond the address space: \<open>newsize + RT_MEMHEAP_MINIALLOC\<close> wraps, the free block behind passes
  for large enough, and the call succeeds.
\<close>

lemma grow_block_wraps:
  assumes inv: "heap_inv h as fs m" and a: "a \<in> set as" "a \<noteq> last as"
    and fr: "\<not> memheap_is_used m (next_of (it_block m) a)"
    and sz: "unat sz \<ge> 2 ^ 32 - 12" "4 dvd unat sz"
  shows "\<exists>m'. memheap_grow_block h a (memitem_size m a) sz m = Some (True, m')"
proof -
  obtain xs b ys where as: "as = xs @ a # b # ys" "next_of (it_block m) a = b" "far a b"
    "unat (memitem_size m a) = unat b - unat a - 24"
    using heap_block [OF inv a] by metis
  have b: "b \<in> set as" "b \<noteq> last as" using as fr heap_invD(4) [OF inv] by (auto simp: marks_def)
  obtain c where c: "far b c" "unat (memitem_size m b) = unat c - unat b - 24"
    using heap_block [OF inv b] by metis
  have w: "unat sz < 2 ^ 32" using unsigned_less [of sz, where 'a = nat] by simp
  have "unat (sz + RT_MEMHEAP_MINIALLOC) = unat sz + 12 - 2 ^ 32"
    using sz w by (simp add: RT_MEMHEAP_MINIALLOC_def unat_word_ariths mod_if)
  moreover have "unat (memitem_size m b + memitem_size m a) = unat c - unat b - 24 + (unat b - unat a - 24)"
    using as(3,4) c unsigned_less [of c, where 'a = nat] by (simp add: unat_word_ariths far_def)
  ultimately have "memitem_size m b + memitem_size m a > sz + RT_MEMHEAP_MINIALLOC"
    using as(3) c(1) w by (simp add: word_less_nat_alt far_def)
  moreover have "b > a" "b > 0" using as(3) by (auto simp: far_def word_less_nat_alt)
  ultimately show ?thesis using as(2) fr by (simp add: memheap_grow_block_def Let_def)
qed

lemma memheap_realloc_wraps:
  assumes ok: "heap_ok h m" and s: "heap_unlocked s h" and p: "(unat p, k) \<in> live h m"
    and fr: "\<not> memheap_is_used m (next_of (it_block m) (p - RT_MEMHEAP_SIZE))"
    and n: "2 ^ 32 - 12 \<le> unat n" "unat n \<le> 2 ^ 32 - 4"
  shows "\<exists>m'. rt_memheap_realloc h p n m s = Some (Ret p, m', s) \<and>
    unat (mh_pool_size (memheaps m h)) < unat n + 24"
proof -
  let ?sz = "heap_request n" and ?a = "p - RT_MEMHEAP_SIZE"
  obtain s1 where s1: "rt_sem_take (Heap_lock h) RT_WAITING_FOREVER s = Some (Ret RT_EOK, s1)"
    "rt_sem_release (Heap_lock h) s1 = Some (RT_EOK, s)" "has_type s h RT_Object_Class_MemHeap"
    "h \<noteq> RT_NULL"
    using lock_unlock [OF s] by metis
  obtain as fs where inv: "heap_inv h as fs m" using ok by (auto simp: heap_ok_def)
  note a = regions_at [OF inv p [unfolded live_eq [OF inv]]]
  have ge: "2 ^ 32 - 12 \<le> unat ?sz" using heap_request_ge [OF n(2)] n(1) by simp
  obtain m' where "memheap_grow_block h ?a (memitem_size m ?a) ?sz m = Some (True, m')"
    using grow_block_wraps [OF inv a(1,2) fr ge heap_request_ok(2)] by auto
  moreover note k = live_length [OF ok p]
  moreover have "memitem_size m ?a < ?sz" using k(1,2) ge by (simp add: word_less_nat_alt)
  moreover have "n \<noteq> 0" using n by auto
  moreover have "unat (mh_pool_size (memheaps m h)) < unat n + 24"
    using heap_invD(1) [OF inv] n(1) by (auto simp: tiling_def)
  ultimately show ?thesis
    using s1 by (simp add: rt_memheap_realloc_def memheap_realloc_grow_def Let_def)
qed

subsection \<open>A heap of 128 bytes\<close>

definition blank_memory :: memory where
  "blank_memory =
     \<lparr>it_magic = \<lambda>_. 0, it_pool = \<lambda>_. RT_NULL, it_block = \<lparr>next_of = \<lambda>_. 0, prev_of = \<lambda>_. 0\<rparr>,
       it_free = \<lparr>next_of = \<lambda>_. 0, prev_of = \<lambda>_. 0\<rparr>,
       memheaps = \<lambda>_. \<lparr>mh_start_addr = 0, mh_pool_size = 0, mh_available_size = 0, mh_max_used_size = 0,
         mh_block_list = 0, mh_free_list = 0, mh_free_header = 0x100\<rparr>, payload = \<lambda>a. of_nat a\<rparr>"

definition demo_memory :: memory where
  "demo_memory = memheap_layout (Ptr 15) 0x1000 130 blank_memory"

lemma blank_memory [simp]: "mh_free_header (memheaps blank_memory h) = 0x100"
  by (simp add: blank_memory_def)

lemma demo_memory:
  "heap_ok (Ptr 15) demo_memory" "live (Ptr 15) demo_memory = {}"
  "gaps (Ptr 15) demo_memory = {(0x1018, 80)}" "heap_unlocked demo (Ptr 15)"
  "mh_available_size (memheaps demo_memory (Ptr 15)) = 80"
proof -
  show l: "heap_ok (Ptr 15) demo_memory" "live (Ptr 15) demo_memory = {}"
    unfolding demo_memory_def by (rule memheap_init_ok; simp)+
  have "heap_pool (Ptr 15) demo_memory = (0x1000, 128)"
    unfolding demo_memory_def by (subst memheap_init_ok(3)) simp_all
  then show "gaps (Ptr 15) demo_memory = {(0x1018, 80)}"
    using heap_coalesced [OF l] by (simp add: heap_pool_def)
  show "heap_unlocked demo (Ptr 15)"
    using demo_ipc_ok(6) demo_types by (simp add: heap_unlocked_def)
  show "mh_available_size (memheaps demo_memory (Ptr 15)) = 80"
    by (simp add: demo_memory_def memheap_layout_def Let_def free_push_def free_reset_def blank_memory_def RT_MEMHEAP_SIZE_def)
qed


lemma memheap_init_witness:
  "\<exists>s'. rt_memheap_init (Ptr 15) ''heap'' 0x1000 130 blank_memory demo = Some (RT_EOK, demo_memory, s')"
proof -
  have c: "rt_object_get_information RT_Object_Class_MemHeap = Some 6"
    "rt_object_get_information RT_Object_Class_Semaphore = Some 1"
    using get_information_index [of 6] get_information_index [of 1] by (simp_all add: object_classes_def)
  have "\<exists>m' s'. rt_memheap_init (Ptr 15) ''heap'' 0x1000 130 blank_memory demo = Some (RT_EOK, m', s') \<and>
      heap_ok (Ptr 15) m' \<and> live (Ptr 15) m' = {} \<and>
      gaps (Ptr 15) m' = {(unat (0x1000 :: u32) + 24, unat (130 AND NOT 3 :: u32) - 48)} \<and>
      sems s' (Heap_lock (Ptr 15)) = 1 \<and> tlists s' (Suspend_thread (Heap_lock (Ptr 15))) = []"
    by (rule memheap_init [OF kernel_ok_ready [OF demo_kernel_ok] _ c(1) _ c(2)]) simp_all
  then show ?thesis unfolding demo_memory_def by (auto simp: rt_memheap_init_def split: bind_splits)
qed

lemma demo_fits: "unat (heap_request n) < 80 \<Longrightarrow> alloc_fits (Ptr 15) n demo_memory"
  using demo_memory by (simp add: alloc_fits_def word_less_nat_alt)

lemma demo_request [simp]: "heap_request 12 = 12" "heap_request 20 = 20"
  by (simp_all add: heap_request_def RT_ALIGN4_def RT_MEMHEAP_MINIALLOC_def)

lemma memheap_alloc_witness:
  "\<exists>p m'. rt_memheap_alloc (Ptr 15) 12 demo_memory demo = Some (Ret p, m', demo) \<and> p \<noteq> 0 \<and> heap_ok (Ptr 15) m'"
proof -
  have "\<exists>p m'. rt_memheap_alloc (Ptr 15) 12 demo_memory demo = Some (Ret p, m', demo) \<and> payload m' = payload demo_memory \<and>
    (if 12 < unat (mh_available_size (memheaps demo_memory (Ptr 15))) \<and> (\<exists>(q, j) \<in> gaps (Ptr 15) demo_memory. 12 \<le> j)
     then p \<noteq> 0 \<and> 4 dvd unat p \<and> heap_ok (Ptr 15) m' \<and>
       (\<exists>k. unat (12 :: u32) \<le> k \<and> live (Ptr 15) m' = insert (unat p, k) (live (Ptr 15) demo_memory) \<and>
         (\<forall>(q, j) \<in> live (Ptr 15) demo_memory. unat p + k \<le> q \<or> q + j \<le> unat p))
     else p = 0 \<and> m' = demo_memory)"
    by (rule memheap_alloc [OF demo_memory(1,4)]) simp_all
  then show ?thesis by (auto simp: demo_memory)
qed

text \<open>One block of it in use.\<close>

lemma demo_block:
  "\<exists>p k m. rt_memheap_alloc (Ptr 15) 12 demo_memory demo = Some (Ret p, m, demo) \<and> heap_ok (Ptr 15) m \<and>
    12 \<le> k \<and> live (Ptr 15) m = {(unat p, k)}"
proof -
  have "alloc_fits (Ptr 15) 12 demo_memory" by (rule demo_fits) simp
  then show ?thesis using heap_alloc_ok [OF demo_memory(1,4), of 12] demo_memory(2) by auto
qed

lemma memheap_free_witness:
  "\<exists>p m m'. rt_memheap_alloc (Ptr 15) 12 demo_memory demo = Some (Ret p, m, demo) \<and>
    rt_memheap_free p m demo = Some (Ret (), m', demo) \<and> live (Ptr 15) m' = {}"
proof -
  obtain p k m where d: "rt_memheap_alloc (Ptr 15) 12 demo_memory demo = Some (Ret p, m, demo)"
    "heap_ok (Ptr 15) m" "live (Ptr 15) m = {(unat p, k)}"
    using demo_block by auto
  then show ?thesis using memheap_free [OF d(2) demo_memory(4), of p] by auto
qed

lemma memheap_realloc_witness:
  "\<exists>p m q m'. rt_memheap_alloc (Ptr 15) 12 demo_memory demo = Some (Ret p, m, demo) \<and>
    rt_memheap_realloc (Ptr 15) p 20 m demo = Some (Ret q, m', demo) \<and>
    (q \<noteq> 0 \<longrightarrow> (\<forall>i < 12. payload m' (unat q + i) = payload m (unat p + i)))"
proof -
  obtain p k m where d: "rt_memheap_alloc (Ptr 15) 12 demo_memory demo = Some (Ret p, m, demo)"
    "heap_ok (Ptr 15) m" "live (Ptr 15) m = {(unat p, k)}" "12 \<le> k"
    using demo_block by auto
  have "(unat p, k) \<in> live (Ptr 15) m" using d(3) by simp
  then obtain q m' where "rt_memheap_realloc (Ptr 15) p 20 m demo = Some (Ret q, m', demo)"
    "q \<noteq> 0 \<Longrightarrow> \<forall>i < 12. payload m' (unat q + i) = payload m (unat p + i)"
    using memheap_realloc [OF d(2) demo_memory(4), of p k 20] d(4) by (fastforce split: if_splits)
  then show ?thesis using d(1) by blast
qed

lemma memheap_run_witness:
  "\<exists>L m. alloc_run (heap_alloc (Ptr 15) demo) (heap_release demo)
      [Alloc 12, Alloc 20, Release 1, Alloc 12, Release 0] [] demo_memory = Some (L, m) \<and> ledger_apart L"
  using memheap_run [OF demo_memory(1,4,2), of "[Alloc 12, Alloc 20, Release 1, Alloc 12, Release 0]"] by auto

lemma memheap_request_wraps_witness:
  "\<exists>p m. rt_memheap_alloc (Ptr 15) 0xffffffff demo_memory demo = Some (Ret p, m, demo) \<and> p \<noteq> 0"
  using memheap_request_wraps [where n = "0xffffffff", OF demo_memory(1,4) demo_fits] by simp

end
