(* ===== verification/RT_Mempool.thy ===== *)
theory RT_Mempool
  imports RT_Ipc
begin

text \<open>
  Memory pools, \<^verbatim>\<open>rt-thread/src/mempool.c\<close>.  A pool is cut into blocks of one size, each behind a
  pointer: the next free block while the block is free, the pool while it is allocated.

  The blocks and the pool objects are the record \<open>pools\<close>; the list of waiting threads is
  \<open>Suspend_thread mp\<close> of the kernel.  An address 0 is \<open>RT_NULL\<close>.
\<close>

datatype block_word = Next u32 | Owner ptr

record rt_mempool =
  mp_start_address :: u32
  mp_size :: u32
  mp_block_size :: u32
  mp_block_list :: u32
  mp_block_total_count :: u32
  mp_block_free_count :: u32
  mp_suspend_thread_count :: u32

record pools =
  mempools :: "ptr \<Rightarrow> rt_mempool"
  block_at :: "u32 \<Rightarrow> block_word"

abbreviation upd_pool :: "ptr \<Rightarrow> (rt_mempool \<Rightarrow> rt_mempool) \<Rightarrow> pools \<Rightarrow> pools" where
  "upd_pool p f \<equiv> mempools_update (\<lambda>m. m(p := f (m p)))"

abbreviation set_block :: "u32 \<Rightarrow> block_word \<Rightarrow> pools \<Rightarrow> pools" where
  "set_block a w \<equiv> block_at_update (\<lambda>m. m(a := w))"

subsection \<open>Creation\<close>

text \<open>The loop over the blocks, lines 110 to 114, and the store behind it.\<close>

primrec mp_link_blocks :: "u32 \<Rightarrow> u32 \<Rightarrow> nat \<Rightarrow> pools \<Rightarrow> pools" where
  "mp_link_blocks block_ptr stride 0 m = m"
| "mp_link_blocks block_ptr stride (Suc offset) m =
     set_block (block_ptr + of_nat offset * stride)
       (Next (block_ptr + (of_nat offset + 1) * stride))
       (mp_link_blocks block_ptr stride offset m)"

definition mp_setup :: "ptr \<Rightarrow> u32 \<Rightarrow> u32 \<Rightarrow> u32 \<Rightarrow> u32 \<Rightarrow> pools \<Rightarrow> pools" where
  "mp_setup mp start sz block_size count m =
     (let m1 = upd_pool mp (\<lambda>p. p\<lparr>mp_start_address := start, mp_size := sz, mp_block_size := block_size,
            mp_block_total_count := count, mp_block_free_count := count,
            mp_suspend_thread_count := 0\<rparr>) m;
          stride = block_size + 4;
          m2 = mp_link_blocks start stride (unat count) m1;
          m3 = set_block (start + (count - 1) * stride) (Next 0) m2
      in upd_pool mp (mp_block_list_update (\<lambda>_. start)) m3)"

definition rt_mp_init ::
  "ptr \<Rightarrow> string \<Rightarrow> u32 \<Rightarrow> u32 \<Rightarrow> u32 \<Rightarrow> pools \<Rightarrow> kstate \<Rightarrow> (rt_err_t \<times> pools \<times> kstate) option" where
  "rt_mp_init mp name start sz block_size m s = do {
     RT_ASSERT (mp \<noteq> RT_NULL);
     s1 \<leftarrow> rt_object_init mp RT_Object_Class_MemPool name s;
     let sz = RT_ALIGN_DOWN4 sz;
     let block_size = RT_ALIGN4 block_size;
     RT_ASSERT (block_size + 4 \<noteq> 0);
     let s2 = tlists_update (\<lambda>l. l(Suspend_thread mp := [])) s1;
     Some (RT_EOK, mp_setup mp start sz block_size (sz div (block_size + 4)) m, s2)
   }"

text \<open>\<open>mem\<close> and \<open>start\<close> are what the two allocations returned.\<close>

definition rt_mp_create ::
  "ptr \<Rightarrow> u32 \<Rightarrow> string \<Rightarrow> u32 \<Rightarrow> u32 \<Rightarrow> pools \<Rightarrow> kstate \<Rightarrow> (ptr \<times> pools \<times> kstate) option" where
  "rt_mp_create mem start name block_count block_size m s = do {
     not_in_interrupt s;
     (mp, s1) \<leftarrow> rt_object_allocate mem RT_Object_Class_MemPool name s;
     if mp = RT_NULL then Some (RT_NULL, m, s1)
     else do {
       let block_size = RT_ALIGN4 block_size;
       let sz = (block_size + 4) * block_count;
       if start = 0 then do {
         s2 \<leftarrow> rt_object_delete mp s1;
         Some (RT_NULL, upd_pool mp (\<lambda>p. p\<lparr>mp_block_size := block_size, mp_size := sz,
           mp_start_address := 0\<rparr>) m, s2)
       }
       else do {
         let s2 = tlists_update (\<lambda>l. l(Suspend_thread mp := [])) s1;
         Some (mp, mp_setup mp start sz block_size block_count m, s2)
       }
     }
   }"

text \<open>The loops that wake the waiting threads, lines 143 to 165 and 261 to 283.\<close>

partial_function (option) mp_resume_all :: "ptr \<Rightarrow> pools \<Rightarrow> kstate \<Rightarrow> (pools \<times> kstate) option" where
  "mp_resume_all mp m s =
     (case tlists s (Suspend_thread mp) of
        [] \<Rightarrow> Some (m, s)
      | thread # _ \<Rightarrow> do {
          (r, s1) \<leftarrow> rt_thread_resume thread (set_error thread (- RT_ERROR) s);
          mp_resume_all mp (upd_pool mp (mp_suspend_thread_count_update (\<lambda>n. n - 1)) m) s1
        })"

definition rt_mp_detach :: "ptr \<Rightarrow> pools \<Rightarrow> kstate \<Rightarrow> (rt_err_t \<times> pools \<times> kstate) option" where
  "rt_mp_detach mp m s = do {
     RT_ASSERT (mp \<noteq> RT_NULL);
     assert_type mp RT_Object_Class_MemPool s;
     assert_static mp True s;
     (m1, s1) \<leftarrow> mp_resume_all mp m s;
     s2 \<leftarrow> rt_object_detach mp s1;
     Some (RT_EOK, m1, s2)
   }"

text \<open>The memory of the blocks goes back to the heap, which is not part of this state.\<close>

definition rt_mp_delete :: "ptr \<Rightarrow> pools \<Rightarrow> kstate \<Rightarrow> (rt_err_t \<times> pools \<times> kstate) option" where
  "rt_mp_delete mp m s = do {
     not_in_interrupt s;
     RT_ASSERT (mp \<noteq> RT_NULL);
     assert_type mp RT_Object_Class_MemPool s;
     assert_static mp False s;
     (m1, s1) \<leftarrow> mp_resume_all mp m s;
     s2 \<leftarrow> rt_object_delete mp s1;
     Some (RT_EOK, m1, s2)
   }"

subsection \<open>Allocation and release\<close>

text \<open>
  One turn of the loop of \<open>rt_mp_alloc\<close>, lines 317 to 368, and the code behind it: the call either waits,
  cut at \<open>rt_schedule\<close>, or takes the first free block.  A waiting thread goes to the front of the list.
\<close>

definition mp_take :: "ptr \<Rightarrow> pools \<Rightarrow> (u32 \<times> pools) option" where
  "mp_take mp m = do {
     let m1 = upd_pool mp (mp_block_free_count_update (\<lambda>n. n - 1)) m;
     let block_ptr = mp_block_list (mempools m1 mp);
     RT_ASSERT (block_ptr \<noteq> 0);
     case block_at m1 block_ptr of
       Owner q \<Rightarrow> None
     | Next n \<Rightarrow> Some (block_ptr + 4,
         set_block block_ptr (Owner mp) (upd_pool mp (mp_block_list_update (\<lambda>_. n)) m1))
   }"

definition mp_alloc_from ::
  "ptr \<Rightarrow> u32 \<Rightarrow> ptr \<Rightarrow> pools \<Rightarrow> kstate \<Rightarrow> (u32 outcome \<times> pools \<times> kstate) option" where
  "mp_alloc_from mp time thread m s =
     (if mp_block_free_count (mempools m mp) = 0 then
        if time = 0 then Some (Ret 0, m, rt_set_errno (- RT_ETIMEOUT) s)
        else do {
          not_in_interrupt s;
          (r, s1) \<leftarrow> rt_thread_suspend thread (set_error thread RT_EOK s);
          let s2 = tlists_update (seq_insert_after_head (Suspend_thread mp) thread) s1;
          let m1 = upd_pool mp (mp_suspend_thread_count_update (\<lambda>n. n + 1)) m;
          s3 \<leftarrow> wait_timer thread time s2;
          s4 \<leftarrow> rt_schedule s3;
          Some (Wait, m1, s4)
        }
      else do {
        (p, m1) \<leftarrow> mp_take mp m;
        Some (Ret p, m1, s)
      })"

definition rt_mp_alloc :: "ptr \<Rightarrow> u32 \<Rightarrow> pools \<Rightarrow> kstate \<Rightarrow> (u32 outcome \<times> pools \<times> kstate) option" where
  "rt_mp_alloc mp time m s = mp_alloc_from mp time (rt_thread_self s) m s"

text \<open>\<open>start\<close> is \<open>before_sleep\<close>, the tick at which the thread began to wait.\<close>

definition mp_alloc_wakeup ::
  "ptr \<Rightarrow> u32 \<Rightarrow> u32 \<Rightarrow> ptr \<Rightarrow> pools \<Rightarrow> kstate \<Rightarrow> (u32 outcome \<times> pools \<times> kstate) option" where
  "mp_alloc_wakeup mp time start thread m s =
     (if th_error (threads s thread) \<noteq> RT_EOK then Some (Ret 0, m, s)
      else mp_alloc_from mp (time_left time start s) thread m s)"

text \<open>
  A release.  The pool is the one the word in front of the block names; the first entry of its waiting
  list is taken for a thread without a look at whether there is one.
\<close>

definition mp_give :: "ptr \<Rightarrow> u32 \<Rightarrow> pools \<Rightarrow> pools" where
  "mp_give mp block_ptr m =
     (let m1 = upd_pool mp (mp_block_free_count_update (\<lambda>n. n + 1)) m;
          m2 = set_block block_ptr (Next (mp_block_list (mempools m1 mp))) m1
      in upd_pool mp (mp_block_list_update (\<lambda>_. block_ptr)) m2)"

definition rt_mp_free :: "u32 \<Rightarrow> pools \<Rightarrow> kstate \<Rightarrow> (pools \<times> kstate) option" where
  "rt_mp_free block m s =
     (case block_at m (block - 4) of
        Next n \<Rightarrow> None
      | Owner mp \<Rightarrow>
          let m1 = mp_give mp (block - 4) m in
          if mp_suspend_thread_count (mempools m1 mp) > 0 then
            (case tlists s (Suspend_thread mp) of
               [] \<Rightarrow> None
             | thread # _ \<Rightarrow> do {
                 (r, s1) \<leftarrow> rt_thread_resume thread (set_error thread RT_EOK s);
                 let m2 = upd_pool mp (mp_suspend_thread_count_update (\<lambda>n. n - 1)) m1;
                 s2 \<leftarrow> rt_schedule s1;
                 Some (m2, s2)
               })
          else Some (m1, s))"

end
