(* ===== verification/RT_Pool.thy ===== *)
theory RT_Pool
  imports RT_Mempool RT_Alloc RT_Demo
begin

text \<open>
  The invariant of a memory pool, the pool as an \<open>allocator\<close>, and what waiting and waking do.
\<close>

subsection \<open>The blocks\<close>

definition mp_stride :: "rt_mempool \<Rightarrow> u32" where
  "mp_stride P = mp_block_size P + 4"

definition mp_addr :: "rt_mempool \<Rightarrow> nat \<Rightarrow> u32" where
  "mp_addr P i = mp_start_address P + of_nat i * mp_stride P"

definition mp_blocks :: "rt_mempool \<Rightarrow> u32 set" where
  "mp_blocks P = mp_addr P ` {..<unat (mp_block_total_count P)}"

text \<open>The blocks do not run over the end of the address space.\<close>

definition pool_fits :: "rt_mempool \<Rightarrow> bool" where
  "pool_fits P \<longleftrightarrow> 0 < unat (mp_start_address P) \<and> unat (mp_stride P) = unat (mp_block_size P) + 4 \<and>
     unat (mp_start_address P) + unat (mp_block_total_count P) * unat (mp_stride P) \<le> 2 ^ 32"

lemma pool_fitsD:
  assumes "pool_fits P"
  shows "0 < unat (mp_start_address P)" "4 \<le> unat (mp_stride P)"
    "unat (mp_start_address P) + unat (mp_block_total_count P) * unat (mp_stride P) \<le> 2 ^ 32"
  using assms unfolding pool_fits_def by linarith+

lemma pool_geometry [simp]:
  "pool_fits (mp_block_list_update f P) = pool_fits P" "pool_fits (mp_block_free_count_update g P) = pool_fits P"
  "pool_fits (mp_suspend_thread_count_update g P) = pool_fits P"
  "mp_blocks (mp_block_list_update f P) = mp_blocks P" "mp_blocks (mp_block_free_count_update g P) = mp_blocks P"
  "mp_blocks (mp_suspend_thread_count_update g P) = mp_blocks P"
  by (simp_all add: pool_fits_def mp_blocks_def mp_addr_def mp_stride_def)

fun free_chain :: "(u32 \<Rightarrow> block_word) \<Rightarrow> u32 \<Rightarrow> u32 list \<Rightarrow> bool" where
  "free_chain w a [] = (a = 0)"
| "free_chain w a (f # fs) = (a = f \<and> (\<exists>n. w f = Next n \<and> free_chain w n fs))"

definition mp_inv :: "ptr \<Rightarrow> u32 list \<Rightarrow> pools \<Rightarrow> bool" where
  "mp_inv mp fs m \<longleftrightarrow> (let P = mempools m mp in
     pool_fits P \<and> free_chain (block_at m) (mp_block_list P) fs \<and> distinct fs \<and> set fs \<subseteq> mp_blocks P \<and>
     length fs = unat (mp_block_free_count P) \<and> (\<forall>a \<in> mp_blocks P - set fs. block_at m a = Owner mp))"

definition mp_held :: "ptr \<Rightarrow> pools \<Rightarrow> (nat \<times> nat) set" where
  "mp_held mp m = (let P = mempools m mp in
     (\<lambda>a. (unat a + 4, unat (mp_block_size P))) ` {a \<in> mp_blocks P. block_at m a = Owner mp})"

lemma mp_invD:
  assumes "mp_inv mp fs m"
  shows "pool_fits (mempools m mp)" "free_chain (block_at m) (mp_block_list (mempools m mp)) fs" "distinct fs"
    "set fs \<subseteq> mp_blocks (mempools m mp)" "length fs = unat (mp_block_free_count (mempools m mp))"
    "a \<in> mp_blocks (mempools m mp) \<Longrightarrow> a \<notin> set fs \<Longrightarrow> block_at m a = Owner mp"
  using assms by (auto simp: mp_inv_def Let_def)

lemma free_chain_next: "free_chain w a fs \<Longrightarrow> f \<in> set fs \<Longrightarrow> \<exists>n. w f = Next n"
  by (induction fs arbitrary: a) auto

lemma free_chain_cong: "(\<And>f. f \<in> set fs \<Longrightarrow> w f = w' f) \<Longrightarrow> free_chain w a fs = free_chain w' a fs"
  by (induction fs arbitrary: a) auto

lemma mp_owned_iff:
  assumes "mp_inv mp fs m" "a \<in> mp_blocks (mempools m mp)"
  shows "block_at m a = Owner mp \<longleftrightarrow> a \<notin> set fs"
  using mp_invD(6) [OF assms] free_chain_next [OF mp_invD(2) [OF assms(1)], of a] by auto

lemma unat_mp_addr:
  assumes "pool_fits P" "i < unat (mp_block_total_count P)"
  shows "unat (mp_addr P i) = unat (mp_start_address P) + i * unat (mp_stride P)"
proof -
  have "Suc i * unat (mp_stride P) \<le> unat (mp_block_total_count P) * unat (mp_stride P)"
    using assms(2) by (intro mult_le_mono1) simp
  then have b: "unat (mp_start_address P) + i * unat (mp_stride P) < 2 ^ 32"
    using pool_fitsD [OF assms(1)] by simp
  have "unat (of_nat i :: u32) = i"
    using assms(2) unsigned_less [of "mp_block_total_count P", where 'a = nat] by (simp add: unat_of_nat)
  then show ?thesis
    using b by (simp add: mp_addr_def unat_word_ariths mod_simps)
qed

lemma mp_addr_apart:
  assumes "pool_fits P" "i < j" "j < unat (mp_block_total_count P)"
  shows "unat (mp_addr P i) + unat (mp_stride P) \<le> unat (mp_addr P j)"
proof -
  have "Suc i * unat (mp_stride P) \<le> j * unat (mp_stride P)" using assms(2) by (intro mult_le_mono1) simp
  then show ?thesis using unat_mp_addr [OF assms(1)] assms(2,3) by simp
qed

lemma mp_block_bounds:
  assumes "pool_fits P" "a \<in> mp_blocks P"
  shows "unat (mp_start_address P) \<le> unat a" "unat a + unat (mp_stride P) \<le> 2 ^ 32" "a \<noteq> 0"
proof -
  obtain i where i: "i < unat (mp_block_total_count P)" "a = mp_addr P i"
    using assms(2) by (auto simp: mp_blocks_def)
  have "Suc i * unat (mp_stride P) \<le> unat (mp_block_total_count P) * unat (mp_stride P)"
    using i(1) by (intro mult_le_mono1) simp
  then show "unat (mp_start_address P) \<le> unat a" "unat a + unat (mp_stride P) \<le> 2 ^ 32"
    using unat_mp_addr [OF assms(1) i(1)] i(2) pool_fitsD [OF assms(1)] by simp_all
  show "a \<noteq> 0" using unat_mp_addr [OF assms(1) i(1)] i(2) pool_fitsD [OF assms(1)] by auto
qed

lemma mp_blocks_apart:
  assumes "pool_fits P" "a \<in> mp_blocks P" "b \<in> mp_blocks P" "a \<noteq> b"
  shows "unat a + unat (mp_stride P) \<le> unat b \<or> unat b + unat (mp_stride P) \<le> unat a"
proof -
  obtain i j where ij: "i < unat (mp_block_total_count P)" "a = mp_addr P i"
    "j < unat (mp_block_total_count P)" "b = mp_addr P j"
    using assms(2,3) by (auto simp: mp_blocks_def)
  then have "i < j \<or> j < i" using assms(4) by (metis linorder_neqE_nat)
  then show ?thesis using mp_addr_apart [OF assms(1)] ij by blast
qed

lemma mp_addr_inj:
  assumes f: "pool_fits P"
  shows "inj_on (mp_addr P) {..<unat (mp_block_total_count P)}"
proof (rule inj_onI)
  fix i j assume "i \<in> {..<unat (mp_block_total_count P)}" "j \<in> {..<unat (mp_block_total_count P)}"
    and e: "mp_addr P i = mp_addr P j"
  then have ij: "i < unat (mp_block_total_count P)" "j < unat (mp_block_total_count P)" by simp_all
  have "i * unat (mp_stride P) = j * unat (mp_stride P)"
    using unat_mp_addr [OF f ij(1)] unat_mp_addr [OF f ij(2)] unfolding e by linarith
  moreover have "0 < unat (mp_stride P)" using pool_fitsD(2) [OF f] by linarith
  ultimately show "i = j" by simp
qed

lemma card_mp_blocks: "pool_fits P \<Longrightarrow> card (mp_blocks P) = unat (mp_block_total_count P)"
  using mp_addr_inj [of P] by (simp add: mp_blocks_def card_image)

subsection \<open>Taking and giving back a block\<close>

lemma mp_take_ok:
  assumes inv: "mp_inv mp fs m" and n: "mp_block_free_count (mempools m mp) \<noteq> 0"
  shows "\<exists>f fs' m'. fs = f # fs' \<and> mp_take mp m = Some (f + 4, m') \<and> mp_inv mp fs' m' \<and>
    block_at m' = (block_at m)(f := Owner mp) \<and>
    (\<forall>q. mp_block_size (mempools m' q) = mp_block_size (mempools m q) \<and>
      mp_blocks (mempools m' q) = mp_blocks (mempools m q) \<and>
      mp_suspend_thread_count (mempools m' q) = mp_suspend_thread_count (mempools m q))"
proof -
  let ?P = "mempools m mp"
  note I = mp_invD [OF inv]
  have "fs \<noteq> []" using I(5) n by (auto simp: unat_eq_0 [symmetric] simp flip: unat_gt_0)
  then obtain f fs' where fs: "fs = f # fs'" by (cases fs) auto
  obtain nx where nx: "mp_block_list ?P = f" "block_at m f = Next nx" "free_chain (block_at m) nx fs'"
    using I(2) fs by auto
  have f0: "f \<noteq> 0" using mp_block_bounds(3) [OF I(1)] I(4) fs by simp
  let ?m = "set_block f (Owner mp) (upd_pool mp (mp_block_list_update (\<lambda>_. nx))
    (upd_pool mp (mp_block_free_count_update (\<lambda>n. n - 1)) m))"
  have t: "mp_take mp m = Some (f + 4, ?m)"
    using nx(1,2) f0 by (simp add: mp_take_def Let_def)
  have fr: "unat (mp_block_free_count ?P - 1) = unat (mp_block_free_count ?P) - 1"
    using n by (simp add: unat_sub word_le_nat_alt Suc_leI unat_gt_0)
  have b: "mp_blocks (mempools ?m mp) = mp_blocks ?P" by simp
  have "pool_fits (mempools ?m mp)" using I(1) by simp
  moreover have "free_chain (block_at ?m) nx fs' = free_chain (block_at m) nx fs'"
    by (rule free_chain_cong) (use I(3) fs in auto)
  then have "free_chain (block_at ?m) (mp_block_list (mempools ?m mp)) fs'" using nx(3) by simp
  moreover have "block_at ?m a = Owner mp" if "a \<in> mp_blocks ?P" "a \<notin> set fs'" for a
    using I(6) [OF that(1)] that(2) fs by auto
  ultimately have "mp_inv mp fs' ?m"
    using I(3-5) fs fr unfolding mp_inv_def Let_def b by auto
  then show ?thesis using t fs by (intro exI [of _ f] exI [of _ fs'] exI [of _ ?m]) simp
qed

lemma mp_give_ok:
  assumes inv: "mp_inv mp fs m" and a: "a \<in> mp_blocks (mempools m mp)" "block_at m a = Owner mp"
  shows "mp_inv mp (a # fs) (mp_give mp a m)"
proof -
  let ?P = "mempools m mp" and ?m = "mp_give mp a m"
  note I = mp_invD [OF inv]
  have new: "a \<notin> set fs" using mp_owned_iff [OF inv a(1)] a(2) by simp
  have "card (insert a (set fs)) \<le> card (mp_blocks ?P)"
    using a(1) I(4) by (intro card_mono) (auto simp: mp_blocks_def)
  then have "Suc (length fs) \<le> unat (mp_block_total_count ?P)"
    using new I(3) card_mp_blocks [OF I(1)] by (simp add: distinct_card)
  then have fr: "unat (mp_block_free_count ?P + 1) = Suc (unat (mp_block_free_count ?P))"
    using I(5) unsigned_less [of "mp_block_total_count ?P", where 'a = nat] by (simp add: unat_word_ariths)
  have b: "mp_blocks (mempools ?m mp) = mp_blocks ?P" by (simp add: mp_give_def Let_def)
  have m: "block_at ?m = (block_at m)(a := Next (mp_block_list ?P))" "mp_block_list (mempools ?m mp) = a"
    "mp_block_free_count (mempools ?m mp) = mp_block_free_count ?P + 1"
    by (simp_all add: mp_give_def Let_def)
  have "free_chain (block_at ?m) (mp_block_list ?P) fs = free_chain (block_at m) (mp_block_list ?P) fs"
    by (rule free_chain_cong) (use new m(1) in auto)
  then have "free_chain (block_at ?m) a (a # fs)" using I(2) m(1) by simp
  moreover have "pool_fits (mempools ?m mp)" using I(1) by (simp add: mp_give_def Let_def)
  moreover have "block_at ?m x = Owner mp" if "x \<in> mp_blocks ?P" "x \<notin> set (a # fs)" for x
    using I(6) [OF that(1)] that(2) m(1) by simp
  moreover have "distinct (a # fs)" "set (a # fs) \<subseteq> mp_blocks ?P" using I(3,4) new a(1) by simp_all
  moreover have "length (a # fs) = unat (mp_block_free_count (mempools ?m mp))" using I(5) fr m(3) by simp
  ultimately show ?thesis unfolding mp_inv_def Let_def b m(2) by blast
qed

lemma mp_give_pool:
  "mp_block_size (mempools (mp_give mp a m) q) = mp_block_size (mempools m q)"
  "mp_blocks (mempools (mp_give mp a m) q) = mp_blocks (mempools m q)"
  "mp_suspend_thread_count (mempools (mp_give mp a m) q) = mp_suspend_thread_count (mempools m q)"
  "block_at (mp_give mp a m) = (block_at m)(a := Next (mp_block_list (mempools m mp)))"
  by (simp_all add: mp_give_def Let_def)

subsection \<open>A new pool\<close>

lemma block_at_link:
  "block_at (mp_link_blocks b st n m) a =
     (if a \<in> (\<lambda>i. b + of_nat i * st) ` {..<n} then Next (a + st) else block_at m a)"
  by (induction n) (auto simp: lessThan_Suc algebra_simps)

lemma link_mempools [simp]: "mempools (mp_link_blocks b st n m) = mempools m"
  by (induction n) auto

lemma chain_of_addrs:
  assumes "\<And>i. i < n \<Longrightarrow> w (f i) = Next (if Suc i < n then f (Suc i) else 0)" "i \<le> n"
  shows "free_chain w (if i < n then f i else 0) (map f [i..<n])"
  using assms(2)
proof (induction rule: inc_induct)
  case (step i)
  then have "map f [i..<n] = f i # map f [Suc i..<n]" by (simp add: upt_conv_Cons)
  then show ?case using step assms(1) [of i] by auto
qed simp

lemma mp_setup_ok:
  assumes fits: "0 < unat start" "unat (bs + 4) = unat bs + 4"
      "unat start + unat n * unat (bs + 4) \<le> 2 ^ 32" and n: "n \<noteq> 0"
  shows "\<exists>fs. mp_inv mp fs (mp_setup mp start sz bs n m)"
    "mp_held mp (mp_setup mp start sz bs n m) = {}"
proof -
  let ?m = "mp_setup mp start sz bs n m"
  let ?P = "mempools ?m mp"
  have P: "mp_start_address ?P = start" "mp_block_size ?P = bs" "mp_block_total_count ?P = n"
    "mp_block_free_count ?P = n" "mp_block_list ?P = start"
    by (simp_all add: mp_setup_def Let_def)
  have st: "mp_stride ?P = bs + 4" by (simp add: mp_stride_def P)
  have pf: "pool_fits ?P" using fits by (simp add: pool_fits_def P st)
  define k where "k = unat n"
  have k: "0 < k" using n by (simp add: k_def unat_gt_0)
  have inj: "inj_on (mp_addr ?P) {..<k}" using mp_addr_inj [OF pf] by (simp add: P k_def)
  have last: "start + (n - 1) * (bs + 4) = mp_addr ?P (k - 1)"
    using k by (simp add: mp_addr_def P st k_def of_nat_diff)
  have w: "block_at ?m (mp_addr ?P i) = Next (if Suc i < k then mp_addr ?P (Suc i) else 0)" if i: "i < k" for i
  proof -
    have "mp_addr ?P i = mp_addr ?P (k - 1) \<longleftrightarrow> i = k - 1"
      using inj i k by (auto simp: inj_on_def)
    moreover have "mp_addr ?P i \<in> (\<lambda>i. start + of_nat i * (bs + 4)) ` {..<k}"
      using i by (auto simp: mp_addr_def P st)
    moreover have "mp_addr ?P i + (bs + 4) = mp_addr ?P (Suc i)" by (simp add: mp_addr_def P st algebra_simps)
    moreover have "block_at ?m = (block_at (mp_link_blocks start (bs + 4) k
        (upd_pool mp (\<lambda>p. p\<lparr>mp_start_address := start, mp_size := sz, mp_block_size := bs,
            mp_block_total_count := n, mp_block_free_count := n, mp_suspend_thread_count := 0\<rparr>) m)))
        (mp_addr ?P (k - 1) := Next 0)"
      by (simp add: mp_setup_def Let_def k_def last [unfolded mp_setup_def Let_def k_def, simplified])
    ultimately show ?thesis using i k by (auto simp: block_at_link)
  qed
  let ?fs = "map (mp_addr ?P) [0..<k]"
  have "mp_addr ?P 0 = start" by (simp add: mp_addr_def P)
  then have "free_chain (block_at ?m) start ?fs" using chain_of_addrs [of k "block_at ?m" "mp_addr ?P" 0] w k by simp
  moreover have "set ?fs = mp_blocks ?P" by (auto simp: mp_blocks_def P k_def)
  moreover have "distinct ?fs" using inj by (simp add: distinct_map atLeast0LessThan)
  ultimately have inv: "mp_inv mp ?fs ?m"
    unfolding mp_inv_def Let_def P using pf by (simp add: k_def)
  then show "\<exists>fs. mp_inv mp fs ?m" ..
  show "mp_held mp ?m = {}"
    using mp_owned_iff [OF inv] \<open>set ?fs = mp_blocks ?P\<close> by (auto simp: mp_held_def Let_def)
qed

subsection \<open>The pool as an allocator\<close>

definition mp_ready :: "ptr \<Rightarrow> nat \<Rightarrow> pools \<Rightarrow> bool" where
  "mp_ready mp b m \<longleftrightarrow> (\<exists>fs. mp_inv mp fs m) \<and> unat (mp_block_size (mempools m mp)) = b \<and> 0 < b \<and>
     mp_suspend_thread_count (mempools m mp) = 0"

definition pool_alloc :: "ptr \<Rightarrow> u32 \<Rightarrow> pools \<times> kstate \<Rightarrow> (u32 \<times> (pools \<times> kstate)) option" where
  "pool_alloc mp n st = (case rt_mp_alloc mp 0 (fst st) (snd st) of
     Some (Ret p, st') \<Rightarrow> Some (p, st') | _ \<Rightarrow> None)"

definition pool_release :: "u32 \<Rightarrow> pools \<times> kstate \<Rightarrow> (pools \<times> kstate) option" where
  "pool_release p st = rt_mp_free p (fst st) (snd st)"

lemma block_payload:
  assumes "mp_inv mp fs m" "0 < unat (mp_block_size (mempools m mp))" "a \<in> mp_blocks (mempools m mp)"
  shows "unat (a + 4) = unat a + 4" "a + 4 \<noteq> 0"
proof -
  note f = mp_invD(1) [OF assms(1)]
  have "unat (mp_stride (mempools m mp)) = unat (mp_block_size (mempools m mp)) + 4"
    using f by (simp add: pool_fits_def)
  then have "unat a + 4 < 2 ^ 32" using mp_block_bounds(2) [OF f assms(3)] assms(2) by linarith
  then show "unat (a + 4) = unat a + 4" by (simp add: unat_word_ariths)
  then show "a + 4 \<noteq> 0" by auto
qed

lemma mp_held_iff: "(unat a + 4, unat (mp_block_size (mempools m mp))) \<in> mp_held mp m \<longleftrightarrow>
    a \<in> mp_blocks (mempools m mp) \<and> block_at m a = Owner mp"
  by (auto simp: mp_held_def Let_def simp flip: word_unat_eq_iff)

lemma mp_heldD:
  assumes "mp_inv mp fs m" "0 < unat (mp_block_size (mempools m mp))" "(unat p, k) \<in> mp_held mp m"
  shows "p - 4 \<in> mp_blocks (mempools m mp)" "block_at m (p - 4) = Owner mp" "unat p = unat (p - 4) + 4"
    "k = unat (mp_block_size (mempools m mp))"
proof -
  obtain a where a: "a \<in> mp_blocks (mempools m mp)" "block_at m a = Owner mp" "unat p = unat a + 4"
    and k: "k = unat (mp_block_size (mempools m mp))"
    using assms(3) by (auto simp: mp_held_def Let_def)
  have "p = a + 4" using a(3) block_payload(1) [OF assms(1,2) a(1)] by (metis word_unat_eq_iff)
  then show "p - 4 \<in> mp_blocks (mempools m mp)" "block_at m (p - 4) = Owner mp" "unat p = unat (p - 4) + 4"
    "k = unat (mp_block_size (mempools m mp))"
    using a k by simp_all
qed

lemma card_mp_held:
  assumes inv: "mp_inv mp fs m"
  shows "card (mp_held mp m) + unat (mp_block_free_count (mempools m mp)) =
    unat (mp_block_total_count (mempools m mp))"
proof -
  let ?P = "mempools m mp"
  note I = mp_invD [OF inv]
  have e: "{a \<in> mp_blocks ?P. block_at m a = Owner mp} = mp_blocks ?P - set fs"
    using mp_owned_iff [OF inv] by auto
  have "card (mp_held mp m) = card (mp_blocks ?P - set fs)"
    unfolding mp_held_def Let_def e by (rule card_image) (auto simp: inj_on_def simp flip: word_unat_eq_iff)
  also have "\<dots> = card (mp_blocks ?P) - length fs"
    using I(3,4) by (simp add: card_Diff_subset distinct_card)
  moreover have "length fs \<le> card (mp_blocks ?P)"
    using card_mono [OF _ I(4)] I(3) by (simp add: distinct_card mp_blocks_def)
  ultimately show ?thesis using I(5) card_mp_blocks [OF I(1)] by simp
qed

lemma pool_poll:
  assumes inv: "mp_inv mp fs m" and b: "0 < unat (mp_block_size (mempools m mp))"
    and now: "time = 0 \<or> mp_block_free_count (mempools m mp) \<noteq> 0"
  shows "\<exists>p m' s'. rt_mp_alloc mp time m s = Some (Ret p, m', s') \<and>
      mp_suspend_thread_count (mempools m' mp) = mp_suspend_thread_count (mempools m mp) \<and>
      mp_block_size (mempools m' mp) = mp_block_size (mempools m mp) \<and> (\<exists>fs'. mp_inv mp fs' m') \<and>
      (if mp_block_free_count (mempools m mp) = 0 then p = 0 \<and> m' = m \<and> s' = rt_set_errno (- RT_ETIMEOUT) s
       else p \<noteq> 0 \<and> s' = s \<and> (unat p, unat (mp_block_size (mempools m mp))) \<notin> mp_held mp m \<and>
         mp_held mp m' = insert (unat p, unat (mp_block_size (mempools m mp))) (mp_held mp m))"
proof (cases "mp_block_free_count (mempools m mp) = 0")
  case True
  then show ?thesis using inv now by (auto simp: rt_mp_alloc_def mp_alloc_from_def)
next
  case False
  obtain f fs' m' where t: "fs = f # fs'" "mp_take mp m = Some (f + 4, m')" "mp_inv mp fs' m'"
    "block_at m' = (block_at m)(f := Owner mp)"
    "\<forall>q. mp_block_size (mempools m' q) = mp_block_size (mempools m q) \<and>
      mp_blocks (mempools m' q) = mp_blocks (mempools m q) \<and>
      mp_suspend_thread_count (mempools m' q) = mp_suspend_thread_count (mempools m q)"
    using mp_take_ok [OF inv False] by metis
  have f: "f \<in> mp_blocks (mempools m mp)" using mp_invD(4) [OF inv] t(1) by simp
  note p = block_payload [OF inv b f]
  have "mp_held mp m' = insert (unat (f + 4), unat (mp_block_size (mempools m mp))) (mp_held mp m)"
    using t(4,5) f p(1) unfolding mp_held_def Let_def by auto
  moreover have "(unat (f + 4), unat (mp_block_size (mempools m mp))) \<notin> mp_held mp m"
    using mp_owned_iff [OF inv f] t(1) p(1) by (simp add: mp_held_iff)
  ultimately show ?thesis using False t p(2) by (auto simp: rt_mp_alloc_def mp_alloc_from_def)
qed

lemma pool_free_idle:
  assumes inv: "mp_inv mp fs m" and b: "0 < unat (mp_block_size (mempools m mp))"
    and idle: "mp_suspend_thread_count (mempools m mp) = 0" and p: "(unat p, k) \<in> mp_held mp m"
  shows "\<exists>m'. rt_mp_free p m s = Some (m', s) \<and> (\<exists>fs'. mp_inv mp fs' m') \<and>
    mp_held mp m' = mp_held mp m - {(unat p, k)} \<and>
    mp_suspend_thread_count (mempools m' mp) = 0 \<and>
    mp_block_size (mempools m' mp) = mp_block_size (mempools m mp)"
proof -
  note d = mp_heldD [OF inv b p]
  let ?m = "mp_give mp (p - 4) m"
  have "rt_mp_free p m s = Some (?m, s)" using d(2) idle by (simp add: rt_mp_free_def mp_give_pool)
  moreover have "mp_held mp ?m = mp_held mp m - {(unat p, k)}"
    using d(3,4) unfolding mp_held_def Let_def by (auto simp: mp_give_pool simp flip: word_unat_eq_iff)
  ultimately show ?thesis using mp_give_ok [OF inv d(1,2)] idle by (auto simp: mp_give_pool)
qed

interpretation pool: allocator "\<lambda>st. mp_ready mp b (fst st)" "\<lambda>st. mp_held mp (fst st)" "\<lambda>n. unat n \<le> b"
  "pool_alloc mp" "pool_release" for mp b
proof unfold_locales
  fix st :: "pools \<times> kstate" and n :: u32
  assume r: "mp_ready mp b (fst st)" and n: "unat n \<le> b"
  then obtain fs where inv: "mp_inv mp fs (fst st)" and b: "0 < unat (mp_block_size (mempools (fst st) mp))"
    by (auto simp: mp_ready_def)
  from pool_poll [OF inv b, of 0 "snd st"] obtain p m' s' where
    "rt_mp_alloc mp 0 (fst st) (snd st) = Some (Ret p, m', s')" "mp_ready mp b m'"
    "if p = 0 then mp_held mp m' = mp_held mp (fst st)
     else (unat p, b) \<notin> mp_held mp (fst st) \<and> mp_held mp m' = insert (unat p, b) (mp_held mp (fst st))"
    using r unfolding mp_ready_def by (auto split: if_splits) blast+
  then show "\<exists>p st'. pool_alloc mp n st = Some (p, st') \<and> mp_ready mp b (fst st') \<and>
    (if p = 0 then mp_held mp (fst st') = mp_held mp (fst st)
     else \<exists>k. unat n \<le> k \<and> (unat p, k) \<notin> mp_held mp (fst st) \<and>
       mp_held mp (fst st') = insert (unat p, k) (mp_held mp (fst st)))"
    using n by (intro exI [of _ p] exI [of _ "(m', s')"]) (auto simp: pool_alloc_def)
next
  fix st :: "pools \<times> kstate" and p :: u32 and k
  assume "mp_ready mp b (fst st)" "(unat p, k) \<in> mp_held mp (fst st)"
  then show "\<exists>st'. pool_release p st = Some st' \<and> mp_ready mp b (fst st') \<and>
    mp_held mp (fst st') = mp_held mp (fst st) - {(unat p, k)}"
    using pool_free_idle [of mp _ "fst st" p k "snd st"] by (fastforce simp: pool_release_def mp_ready_def)
next
  fix st :: "pools \<times> kstate" and x k y j
  assume r: "mp_ready mp b (fst st)" and xy: "(x, k) \<in> mp_held mp (fst st)" "(y, j) \<in> mp_held mp (fst st)"
    "(x, k) \<noteq> (y, j)"
  obtain fs where inv: "mp_inv mp fs (fst st)" using r by (auto simp: mp_ready_def)
  note f = mp_invD(1) [OF inv]
  have "unat (mp_stride (mempools (fst st) mp)) = unat (mp_block_size (mempools (fst st) mp)) + 4"
    using f by (simp add: pool_fits_def)
  then show "x + k \<le> y \<or> y + j \<le> x"
    using xy mp_blocks_apart [OF f] by (fastforce simp: mp_held_def Let_def)
next
  fix st :: "pools \<times> kstate" and a k
  assume "mp_ready mp b (fst st)" "(a, k) \<in> mp_held mp (fst st)"
  then show "0 < k" by (auto simp: mp_ready_def mp_held_def Let_def)
qed

subsection \<open>Waiting and waking\<close>

text \<open>The current thread waits: it goes to the front of the list.\<close>

lemma mp_alloc_waits:
  assumes ok: "kernel_ok s" and ctx: "thread_context s" and time: "time \<noteq> 0" "timeout_ok time"
    and none: "mp_block_free_count (mempools m mp) = 0"
  shows "\<exists>s'. rt_mp_alloc mp time m s =
      Some (Wait, upd_pool mp (mp_suspend_thread_count_update (\<lambda>n. n + 1)) m, s') \<and> kernel_ok s' \<and>
    tlists s' (Suspend_thread mp) = current_thread s # tlists s (Suspend_thread mp) \<and>
    th_error (threads s' (current_thread s)) = RT_EOK"
proof -
  let ?c = "current_thread s" and ?q = "Suspend_thread mp"
  let ?e = "set_error ?c RT_EOK s"
  have k: "kernel_ok ?e" and r: "stat_of ?e (current_thread ?e) = RT_THREAD_RUNNING"
    using ok ctx by (simp_all add: thread_context_def)
  obtain s1 where s1: "rt_thread_suspend ?c ?e = Some (RT_EOK, s1)" "kernel_ok s1" "kernel_frame ?e s1"
    "tlists s1 = tlists s" "current_thread s1 = ?c" "stat_of s1 ?c = RT_THREAD_SUSPEND"
    using suspend_current [OF k r] by auto
  have free: "\<not> linked (tlists s) ?c" using kernel_okD(6) [OF k r] by simp
  have t1: "thread_ok s1 ?c" using kernel_okD(3) [OF s1(2)] s1(5) by simp
  let ?s2 = "s1\<lparr>tlists := (tlists s1)(?q := ?c # tlists s ?q)\<rparr>"
  have k2: "kernel_ok ?s2"
    by (rule kernel_ok_link [OF s1(2) _ t1 s1(6)])
      (use free s1(4) tlists_okD(1) [OF kernel_okD(8) [OF ok]] in \<open>auto simp: linked_def\<close>)
  have e2: "tlists_update (seq_insert_after_head ?q ?c) s1 = ?s2"
    using s1(4) by (simp add: seq_insert_after_head_def)
  obtain s3 where s3: "wait_timer ?c time ?s2 = Some s3" "timer_only ?s2 s3"
    using wait_timer_ok [OF _ time(2)] kernel_okD(3) [OF k2] s1(5) by auto
  obtain s4 where s4: "rt_schedule s3 = Some s4" "kernel_ok s4" "kernel_frame s3 s4"
    "\<forall>h. wait_head h \<longrightarrow> tlists s4 h = tlists s3 h"
    using schedule_kernel_ok [OF timer_only_kernel_ok [OF s3(2) k2]] by blast
  have "th_error (threads s4 ?c) = th_error (threads s1 ?c)"
    using kernel_frame_fields(14) [OF s4(3), of ?c] s3(2) by (simp add: timer_only_def kernel_frame_def thread_frame_def)
  then have er: "th_error (threads s4 ?c) = RT_EOK" using kernel_frame_fields(14) [OF s1(3), of ?c] by simp
  have "tlists s4 ?q = ?c # tlists s ?q"
    using s4(4) s3(2) by (simp add: timer_only_def)
  moreover have "rt_mp_alloc mp time m s =
      Some (Wait, upd_pool mp (mp_suspend_thread_count_update (\<lambda>n. n + 1)) m, s4)"
    using none time(1) ctx s1(1) e2 s3(1) s4(1)
    by (simp add: rt_mp_alloc_def mp_alloc_from_def rt_thread_self_def thread_context_def Let_def)
  ultimately show ?thesis using s4(2) er by blast
qed

text \<open>A release with a waiting thread wakes it, and the block it then finds is the released one.\<close>

lemma mp_free_hands_over:
  assumes ok: "kernel_ok s" and inv: "mp_inv mp fs m" "0 < unat (mp_block_size (mempools m mp))"
    and p: "(unat p, k) \<in> mp_held mp m" and w: "tlists s (Suspend_thread mp) = t # ts"
    and n: "unat (mp_suspend_thread_count (mempools m mp)) = Suc (length ts)"
  shows "\<exists>m' s' m''. rt_mp_free p m s = Some (m', s') \<and> kernel_ok s' \<and>
    tlists s' (Suspend_thread mp) = ts \<and> unat (mp_suspend_thread_count (mempools m' mp)) = length ts \<and>
    mp_held mp m' = mp_held mp m - {(unat p, k)} \<and>
    mp_alloc_wakeup mp time start t m' s' = Some (Ret p, m'', s') \<and> mp_held mp m'' = mp_held mp m"
proof -
  let ?q = "Suspend_thread mp" and ?e = "set_error t RT_EOK s"
  note d = mp_heldD [OF inv p]
  have l: "tlists ?e ?q = t # ts" using w by simp
  have k: "kernel_ok ?e" using ok by simp
  obtain s1 where s1: "rt_ipc_list_resume ?q ?e = Some s1" "kernel_ok s1" "kernel_frame ?e s1" "tlists s1 ?q = ts"
    using list_resume_first [OF k l wait_head_simps(3)] by auto
  obtain r where r: "rt_thread_resume t ?e = Some (r, s1)"
    using s1(1) l by (auto simp: rt_ipc_list_resume_def bind_eq_Some_conv)
  obtain s2 where s2: "rt_schedule s1 = Some s2" "kernel_ok s2" "kernel_frame s1 s2"
    "\<forall>h. wait_head h \<longrightarrow> tlists s2 h = tlists s1 h"
    using schedule_kernel_ok [OF s1(2)] by blast
  have er: "th_error (threads s2 t) = RT_EOK"
    using kernel_frame_fields(14) [OF s2(3), of t] kernel_frame_fields(14) [OF s1(3), of t] by simp
  define m1 where "m1 = mp_give mp (p - 4) m"
  define m2 where "m2 = upd_pool mp (mp_suspend_thread_count_update (\<lambda>n. n - 1)) m1"
  have n0: "mp_suspend_thread_count (mempools m1 mp) > 0"
    using n by (simp add: m1_def mp_give_pool word_less_nat_alt)
  have fr: "rt_mp_free p m s = Some (m2, s2)"
    using d(2) w r s2(1) n0 by (simp add: rt_mp_free_def m1_def [symmetric] m2_def Let_def)
  have m2: "block_at m2 = (block_at m)(p - 4 := Next (mp_block_list (mempools m mp)))"
    "mp_block_size (mempools m2 mp) = mp_block_size (mempools m mp)" "mp_blocks (mempools m2 mp) = mp_blocks (mempools m mp)"
    by (simp_all add: m2_def m1_def mp_give_pool)
  have c: "unat (mp_suspend_thread_count (mempools m2 mp)) = length ts"
    using n n0 by (simp add: m2_def m1_def mp_give_pool unat_sub word_le_nat_alt word_less_nat_alt)
  have h2: "mp_held mp m2 = mp_held mp m - {(unat p, k)}"
    using d(3,4) unfolding mp_held_def Let_def m2 by (auto simp flip: word_unat_eq_iff)
  have i1: "mp_inv mp ((p - 4) # fs) m1" unfolding m1_def by (rule mp_give_ok [OF inv(1) d(1,2)])
  have i2: "mp_inv mp ((p - 4) # fs) m2"
    using i1 by (simp add: mp_inv_def Let_def m2_def)
  have fr2: "mp_block_free_count (mempools m2 mp) \<noteq> 0"
    using mp_invD(5) [OF i2] by (auto simp: unat_eq_0 [symmetric])
  obtain m3 where m3: "mp_take mp m2 = Some (p, m3)" "block_at m3 = (block_at m2)(p - 4 := Owner mp)"
    "mp_block_size (mempools m3 mp) = mp_block_size (mempools m2 mp)"
    "mp_blocks (mempools m3 mp) = mp_blocks (mempools m2 mp)"
    using mp_take_ok [OF i2 fr2] by auto
  have "mp_held mp m3 = mp_held mp m"
    using d(2) unfolding mp_held_def Let_def m3 m2 by (auto simp: fun_upd_def)
  moreover have "mp_alloc_wakeup mp time start t m2 s2 = Some (Ret p, m3, s2)"
    using er fr2 m3(1) by (simp add: mp_alloc_wakeup_def mp_alloc_from_def)
  ultimately show ?thesis using fr s2(2,4) s1(4) c h2 by (intro exI [of _ m2] exI [of _ s2] exI [of _ m3]) simp
qed

text \<open>The loop of a detach is the one of the other IPC objects, and counts.\<close>

lemma upd_pool_count_id [simp]: "upd_pool mp (mp_suspend_thread_count_update (\<lambda>n. n)) m = m"
proof -
  have "mp_suspend_thread_count_update (\<lambda>n. n) P = P" for P :: rt_mempool by (cases P) simp
  note this [simp]
  show ?thesis by (cases m) simp
qed

lemma mp_resume_all_eq:
  assumes "kernel_ok s"
  shows "mp_resume_all mp m s = map_option
    (\<lambda>s'. (upd_pool mp (mp_suspend_thread_count_update (\<lambda>n. n - of_nat (length (tlists s (Suspend_thread mp))))) m, s'))
    (rt_ipc_list_resume_all (Suspend_thread mp) s)"
  using assms
proof (induction "tlists s (Suspend_thread mp)" arbitrary: s m)
  case Nil
  then show ?case
    by (subst rt_ipc_list_resume_all.simps, subst mp_resume_all.simps) (simp flip: Nil.hyps)
next
  case (Cons t ts)
  let ?q = "Suspend_thread mp" and ?e = "set_error t (- RT_ERROR) s"
  have k: "kernel_ok ?e" and l: "tlists ?e ?q = t # ts" using Cons.prems Cons.hyps(2) by simp_all
  obtain s1 where s1: "rt_ipc_list_resume ?q ?e = Some s1" "kernel_ok s1" "tlists s1 ?q = ts"
    using list_resume_first [OF k l wait_head_simps(3)] by auto
  obtain r where r: "rt_thread_resume t ?e = Some (r, s1)"
    using s1(1) l by (auto simp: rt_ipc_list_resume_def bind_eq_Some_conv)
  show ?case
    using Cons.hyps(1) [OF s1(3) [symmetric] s1(2)] r s1(3) Cons.hyps(2) [symmetric]
    by (subst rt_ipc_list_resume_all.simps, subst mp_resume_all.simps)
      (simp add: option.map_comp o_def algebra_simps)
qed

subsection \<open>Properties\<close>

lemma mempool_alloc:
  assumes "mp_inv mp fs m" "0 < unat (mp_block_size (mempools m mp))"
  shows "\<exists>p m' s'. rt_mp_alloc mp 0 m s = Some (Ret p, m', s') \<and> (\<exists>fs'. mp_inv mp fs' m') \<and>
    (if mp_block_free_count (mempools m mp) = 0 then p = 0 \<and> m' = m \<and> s' = rt_set_errno (- RT_ETIMEOUT) s
     else p \<noteq> 0 \<and> s' = s \<and> (unat p, unat (mp_block_size (mempools m mp))) \<notin> mp_held mp m \<and>
       mp_held mp m' = insert (unat p, unat (mp_block_size (mempools m mp))) (mp_held mp m))"
  using pool_poll [OF assms disjI1 [OF refl], of s] by (elim exE conjE) (intro exI conjI; assumption)

text \<open>C37. In every run of polling allocations and releases on a memory pool no block is handed out
  twice and none is lost: blocks held plus free blocks make the total.\<close>

lemma mempool_run:
  assumes "mp_ready mp b m" "mp_held mp m = {}" "requests_valid (\<lambda>n. unat n \<le> b) ops"
  shows "\<exists>L m' s'. alloc_run (pool_alloc mp) pool_release ops [] (m, s) = Some (L, (m', s')) \<and>
    mp_ready mp b m' \<and> ledger_apart L \<and>
    length L + unat (mp_block_free_count (mempools m' mp)) = unat (mp_block_total_count (mempools m' mp))"
proof -
  obtain L st where r: "alloc_run (pool_alloc mp) pool_release ops [] (m, s) = Some (L, st)"
    "mp_ready mp b (fst st)" "ledger_apart L" "card (mp_held mp (fst st)) = length L"
    using pool.run_apart [of mp b "(m, s)" ops] assms by auto
  obtain fs where "mp_inv mp fs (fst st)" using r(2) by (auto simp: mp_ready_def)
  then show ?thesis
    using card_mp_held [of mp fs "fst st"] r by (intro exI [of _ L] exI [of _ "fst st"] exI [of _ "snd st"]) simp
qed

lemma mempool_release_wakes:
  assumes "kernel_ok s" "mp_inv mp fs m" "0 < unat (mp_block_size (mempools m mp))"
    and "(unat p, k) \<in> mp_held mp m" "tlists s (Suspend_thread mp) = t # ts"
    and "unat (mp_suspend_thread_count (mempools m mp)) = Suc (length ts)"
  shows "\<exists>m' s' m''. rt_mp_free p m s = Some (m', s') \<and> kernel_ok s' \<and>
    tlists s' (Suspend_thread mp) = ts \<and> unat (mp_suspend_thread_count (mempools m' mp)) = length ts \<and>
    mp_held mp m' = mp_held mp m - {(unat p, k)} \<and>
    mp_alloc_wakeup mp time start t m' s' = Some (Ret p, m'', s') \<and> mp_held mp m'' = mp_held mp m"
  by (rule mp_free_hands_over [OF assms])

text \<open>C38. After the only waiting thread of a memory pool timed out the count of waiting threads is
  still 1, so the next release takes the list head for a thread: it has no defined result.\<close>

lemma mempool_timeout_breaks:
  assumes "kernel_ok s" "thread_context s" "time \<noteq> 0" "timeout_ok time"
    and "mp_block_free_count (mempools m mp) = 0" "mp_suspend_thread_count (mempools m mp) = 0"
      "tlists s (Suspend_thread mp) = []"
    and "block_at m (p - 4) = Owner mp"
  shows "\<exists>m1 s1 s2. rt_mp_alloc mp time m s = Some (Wait, m1, s1) \<and>
    rt_thread_timeout (current_thread s) s1 = Some s2 \<and> kernel_ok s2 \<and> rt_mp_free p m1 s2 = None"
proof -
  let ?c = "current_thread s" and ?q = "Suspend_thread mp"
  let ?m = "upd_pool mp (mp_suspend_thread_count_update (\<lambda>n. n + 1)) m"
  obtain s1 where s1: "rt_mp_alloc mp time m s = Some (Wait, ?m, s1)" "kernel_ok s1" "tlists s1 ?q = [?c]"
    using mp_alloc_waits [OF assms(1-5)] assms(7) by auto
  have "?c \<in> set (tlists s1 ?q)" using s1(3) by simp
  then have "thread_ok s1 ?c" "stat_of s1 ?c = RT_THREAD_SUSPEND"
    using kernel_okD(4,5) [OF s1(2)] by force+
  then obtain s2 where s2: "rt_thread_timeout ?c s1 = Some s2" "kernel_ok s2" "tlists s2 ?q = []"
    using timeout_waiting [OF s1(2)] s1(3) by force
  have "rt_mp_free p ?m s2 = None"
    using assms(6,8) s2(3) by (simp add: rt_mp_free_def mp_give_pool Let_def word_less_nat_alt)
  then show ?thesis using s1(1) s2 by blast
qed

lemma mempool_detach:
  assumes "kernel_ok s" "has_type s mp RT_Object_Class_MemPool" "obj_type (objs s mp) AND RT_Object_Class_Static \<noteq> 0"
  shows "\<exists>m' s'. rt_mp_detach mp m s = Some (RT_EOK, m', s') \<and> tlists s' (Suspend_thread mp) = [] \<and>
    (\<forall>t \<in> set (tlists s (Suspend_thread mp)). mp_alloc_wakeup mp time start t m' s' = Some (Ret 0, m', s')) \<and>
    mp_suspend_thread_count (mempools m' mp) =
      mp_suspend_thread_count (mempools m mp) - of_nat (length (tlists s (Suspend_thread mp)))"
proof -
  let ?q = "Suspend_thread mp"
  obtain s1 where s1: "rt_ipc_list_resume_all ?q s = Some s1" "kernel_ok s1" "tlists s1 ?q = []"
    "errors_set (set (tlists s ?q)) s s1"
    using list_resume_all [OF assms(1) wait_head_simps(3)] by blast
  let ?m = "upd_pool mp (mp_suspend_thread_count_update (\<lambda>n. n - of_nat (length (tlists s ?q)))) m"
  have "mp \<noteq> RT_NULL" using assms(2) by (simp add: has_type_def)
  moreover have "mp_resume_all mp m s = Some (?m, s1)" using mp_resume_all_eq [OF assms(1), of mp m] s1(1) by simp
  ultimately obtain s2 where "rt_mp_detach mp m s = Some (RT_EOK, ?m, s2)" "threads s2 = threads s1" "tlists s2 = tlists s1"
    using assms(2,3) by (auto simp: rt_mp_detach_def rt_object_detach_def assert_static_def)
  moreover have "- RT_ERROR \<noteq> RT_EOK" by (simp add: rt_err_defs)
  ultimately show ?thesis
    using s1(3,4) by (intro exI [of _ ?m] exI [of _ s2]) (auto simp: mp_alloc_wakeup_def errors_set_def)
qed

lemma mempool_init:
  assumes "sched_ready s" "mp \<noteq> RT_NULL"
    and "rt_object_get_information RT_Object_Class_MemPool = Some i" "mp \<notin> set (object_lists s i)"
    and "unat (RT_ALIGN4 bs + 4) = unat (RT_ALIGN4 bs) + 4" "0 < unat (RT_ALIGN4 bs)"
    and "unat (RT_ALIGN4 bs) + 4 \<le> unat (RT_ALIGN_DOWN4 sz)"
    and "0 < unat start" "unat start + unat (RT_ALIGN_DOWN4 sz) \<le> 2 ^ 32"
  shows "\<exists>m' s'. rt_mp_init mp name start sz bs m s = Some (RT_EOK, m', s') \<and>
    mp_ready mp (unat (RT_ALIGN4 bs)) m' \<and> mp_held mp m' = {} \<and>
    unat (mp_block_total_count (mempools m' mp)) = unat (RT_ALIGN_DOWN4 sz) div (unat (RT_ALIGN4 bs) + 4)"
proof -
  let ?b = "RT_ALIGN4 bs" and ?z = "RT_ALIGN_DOWN4 sz"
  let ?n = "?z div (?b + 4)"
  let ?m = "mp_setup mp start ?z ?b ?n m"
  obtain s1 where s1: "rt_object_init mp RT_Object_Class_MemPool name s = Some s1"
    using object_init_total [OF assms(1,3,4)] by blast
  have un: "unat ?n = unat ?z div (unat ?b + 4)" using assms(5) by (simp add: unat_div)
  have n0: "?n \<noteq> 0" using un assms(7) by (auto simp: unat_eq_0 [symmetric] div_eq_0_iff)
  have "unat ?n * unat (?b + 4) \<le> unat ?z" using un assms(5) by (metis div_times_less_eq_dividend)
  then have fits: "unat start + unat ?n * unat (?b + 4) \<le> 2 ^ 32" using assms(9) by linarith
  note ok = mp_setup_ok [OF assms(8,5) fits n0, of mp ?z m]
  have f: "mp_block_size (mempools ?m mp) = ?b" "mp_suspend_thread_count (mempools ?m mp) = 0"
    "mp_block_total_count (mempools ?m mp) = ?n"
    by (simp_all add: mp_setup_def Let_def)
  have "?b + 4 \<noteq> 0" using assms(5) by auto
  then have "rt_mp_init mp name start sz bs m s =
      Some (RT_EOK, ?m, tlists_update (\<lambda>l. l(Suspend_thread mp := [])) s1)"
    using s1 assms(2) by (simp add: rt_mp_init_def Let_def)
  moreover have "mp_ready mp (unat ?b) ?m" using ok(1) f(1,2) assms(6) by (auto simp: mp_ready_def)
  ultimately show ?thesis using ok(2) f(3) un by auto
qed

subsection \<open>Pools of two blocks and of one\<close>

definition demo_pools :: pools where
  "demo_pools = mp_setup (Ptr 16) 0x2000 24 8 2 \<lparr>mempools = \<lambda>_. \<lparr>mp_start_address = 0, mp_size = 0,
     mp_block_size = 0, mp_block_list = 0, mp_block_total_count = 0, mp_block_free_count = 0,
     mp_suspend_thread_count = 0\<rparr>, block_at = \<lambda>_. Next 0\<rparr>"

lemma demo_pools: "mp_ready (Ptr 16) 8 demo_pools" "mp_held (Ptr 16) demo_pools = {}"
proof -
  have f: "unat (0x2000 :: u32) > 0" "unat (8 + 4 :: u32) = unat (8 :: u32) + 4"
    "unat (0x2000 :: u32) + unat (2 :: u32) * unat (8 + 4 :: u32) \<le> 2 ^ 32" "(2 :: u32) \<noteq> 0"
    by simp_all
  show "mp_held (Ptr 16) demo_pools = {}" unfolding demo_pools_def by (rule mp_setup_ok(2) [OF f])
  have "\<exists>fs. mp_inv (Ptr 16) fs demo_pools" unfolding demo_pools_def by (rule mp_setup_ok(1) [OF f])
  then show "mp_ready (Ptr 16) 8 demo_pools"
    by (simp add: mp_ready_def) (simp add: demo_pools_def mp_setup_def Let_def)
qed

text \<open>The only block is allocated, \<open>c\<close> threads wait.\<close>

definition full_pool :: "u32 \<Rightarrow> pools" where
  "full_pool c = \<lparr>mempools = \<lambda>_. \<lparr>mp_start_address = 0x2000, mp_size = 12, mp_block_size = 8,
     mp_block_list = 0, mp_block_total_count = 1, mp_block_free_count = 0, mp_suspend_thread_count = c\<rparr>,
     block_at = \<lambda>_. Owner (Ptr 16)\<rparr>"

lemma full_pool:
  "mp_inv (Ptr 16) [] (full_pool c)" "mp_held (Ptr 16) (full_pool c) = {(0x2004, 8)}"
  by (simp_all add: mp_inv_def mp_held_def full_pool_def pool_fits_def mp_stride_def mp_blocks_def mp_addr_def
      lessThan_Suc)

lemma full_pool_fields [simp]:
  "mp_block_size (mempools (full_pool c) q) = 8" "mp_suspend_thread_count (mempools (full_pool c) q) = c"
  "mp_block_free_count (mempools (full_pool c) q) = 0" "block_at (full_pool c) a = Owner (Ptr 16)"
  by (simp_all add: full_pool_def)

lemma mempool_alloc_witness:
  "\<exists>p m. rt_mp_alloc (Ptr 16) 0 demo_pools demo = Some (Ret p, m, demo) \<and> p \<noteq> 0"
proof -
  obtain fs where "mp_inv (Ptr 16) fs demo_pools" "0 < unat (mp_block_size (mempools demo_pools (Ptr 16)))"
    using demo_pools(1) by (auto simp: mp_ready_def)
  moreover have "mp_block_free_count (mempools demo_pools (Ptr 16)) \<noteq> 0"
    by (simp add: demo_pools_def mp_setup_def Let_def)
  ultimately show ?thesis using mempool_alloc [of "Ptr 16" fs demo_pools demo] by auto
qed

lemma mempool_run_witness:
  "\<exists>L m s. alloc_run (pool_alloc (Ptr 16)) pool_release [Alloc 8, Alloc 5, Alloc 1, Release 0] [] (demo_pools, demo) =
      Some (L, (m, s)) \<and> ledger_apart L"
  using mempool_run [OF demo_pools, of "[Alloc 8, Alloc 5, Alloc 1, Release 0]" demo] by auto

lemma mempool_release_wakes_witness:
  "\<exists>m s m'. rt_mp_free 0x2004 (full_pool 1) (waiting (Suspend_thread (Ptr 16)) [Ptr 2] demo) = Some (m, s) \<and>
    mp_alloc_wakeup (Ptr 16) 5 0 (Ptr 2) m s = Some (Ret 0x2004, m', s)"
proof -
  have "kernel_ok (waiting (Suspend_thread (Ptr 16)) [Ptr 2] demo)" by (rule demo_waiting_ok) simp
  from mempool_release_wakes [where p = "0x2004" and k = 8 and t = "Ptr 2" and ts = "[]" and time = 5 and start = 0,
      OF this full_pool(1) [of 1]]
  show ?thesis using full_pool(2) [of 1] by auto
qed

lemma mempool_timeout_breaks_witness:
  "\<exists>m s t. rt_mp_alloc (Ptr 16) 5 (full_pool 0) demo = Some (Wait, m, s) \<and>
    rt_thread_timeout (Ptr 1) s = Some t \<and> rt_mp_free 0x2004 m t = None"
proof -
  have "timeout_ok 5" by (simp add: timeout_ok_def RT_TICK_MAX_def)
  from mempool_timeout_breaks [OF demo_kernel_ok demo_context(1) _ this, of "full_pool 0" "Ptr 16" "0x2004"]
  show ?thesis by auto
qed

lemma mempool_detach_witness:
  "\<exists>m s. rt_mp_detach (Ptr 16) (full_pool 1) (waiting (Suspend_thread (Ptr 16)) [Ptr 2] demo) = Some (RT_EOK, m, s) \<and>
    mp_alloc_wakeup (Ptr 16) 5 0 (Ptr 2) m s = Some (Ret 0, m, s)"
proof -
  have k: "kernel_ok (waiting (Suspend_thread (Ptr 16)) [Ptr 2] demo)" by (rule demo_waiting_ok) simp
  have "obj_type (objs demo (Ptr 16)) AND RT_Object_Class_Static \<noteq> 0"
    by (simp add: demo_def demo_object_def class_defs)
  then show ?thesis using mempool_detach [OF k, of "Ptr 16" "full_pool 1" 5 0] by auto
qed

lemma mempool_init_witness:
  "\<exists>m s. rt_mp_init (Ptr 16) ''mp'' 0x2000 26 7 demo_pools demo = Some (RT_EOK, m, s) \<and> mp_ready (Ptr 16) 8 m"
proof -
  have c: "rt_object_get_information RT_Object_Class_MemPool = Some 7"
    using get_information_index [of 7] by (simp add: object_classes_def)
  have "RT_ALIGN4 7 = 8" "RT_ALIGN_DOWN4 26 = 24" by (simp_all add: RT_ALIGN4_def RT_ALIGN_DOWN4_def)
  then show ?thesis
    using mempool_init [where mp = "Ptr 16" and bs = 7 and sz = 26 and start = "0x2000" and name = "''mp''" and m = demo_pools,
        OF kernel_ok_ready [OF demo_kernel_ok] _ c]
    by auto
qed

end
