(* ===== verification/RT_Ringbuffer.thy ===== *)
theory RT_Ringbuffer
  imports RT_Fifo RT_State
begin

text \<open>
  The ring buffer of the device drivers, \<^verbatim>\<open>rt-thread/components/drivers/src/ringbuffer.c\<close>.  Each of the
  two positions is an index of 15 bits and a mirror bit that flips when the index wraps round, which
  tells a full buffer from an empty one.

  \<open>rb_buffer\<close> is the array that \<open>buffer_ptr\<close> points to.  C computes with \<open>int\<close> where a bit field or a
  16 bit integer occurs, so the comparisons and differences below are those of integers, and an
  assignment to a field cuts the result to its width.
\<close>

record rt_ringbuffer =
  rb_buffer :: "u8 list"
  rb_read_mirror :: bool
  rb_read_index :: "15 word"
  rb_write_mirror :: bool
  rb_write_index :: "15 word"
  rb_buffer_size :: u16

datatype rt_ringbuffer_state = RT_RINGBUFFER_EMPTY | RT_RINGBUFFER_FULL | RT_RINGBUFFER_HALFFULL

text \<open>\<open>memcpy\<close> into the array and out of it; outside of the arrays it is undefined.\<close>

definition copy_in :: "nat \<Rightarrow> u8 list \<Rightarrow> nat \<Rightarrow> nat \<Rightarrow> u8 list \<Rightarrow> u8 list option" where
  "copy_in to src off n buf =
     (if to + n \<le> length buf \<and> off + n \<le> length src
      then Some (take to buf @ take n (drop off src) @ drop (to + n) buf) else None)"

definition copy_out :: "nat \<Rightarrow> nat \<Rightarrow> u8 list \<Rightarrow> u8 list option" where
  "copy_out off n buf = (if off + n \<le> length buf then Some (take n (drop off buf)) else None)"

abbreviation rb_size :: "rt_ringbuffer \<Rightarrow> int" where
  "rb_size rb \<equiv> sint (rb_buffer_size rb)"

definition rt_ringbuffer_status :: "rt_ringbuffer \<Rightarrow> rt_ringbuffer_state" where
  "rt_ringbuffer_status rb =
     (if rb_read_index rb = rb_write_index rb then
        if rb_read_mirror rb = rb_write_mirror rb then RT_RINGBUFFER_EMPTY else RT_RINGBUFFER_FULL
      else RT_RINGBUFFER_HALFFULL)"

definition rt_ringbuffer_data_len :: "rt_ringbuffer \<Rightarrow> u32" where
  "rt_ringbuffer_data_len rb =
     (case rt_ringbuffer_status rb of
        RT_RINGBUFFER_EMPTY \<Rightarrow> 0
      | RT_RINGBUFFER_FULL \<Rightarrow> word_of_int (rb_size rb)
      | RT_RINGBUFFER_HALFFULL \<Rightarrow>
          if rb_write_index rb > rb_read_index rb
          then word_of_int (uint (rb_write_index rb) - uint (rb_read_index rb))
          else word_of_int (rb_size rb - (uint (rb_read_index rb) - uint (rb_write_index rb))))"

definition rt_ringbuffer_space_len :: "rt_ringbuffer \<Rightarrow> u32" where
  "rt_ringbuffer_space_len rb = word_of_int (rb_size rb) - rt_ringbuffer_data_len rb"

definition rt_ringbuffer_init :: "u8 list \<Rightarrow> u16 \<Rightarrow> rt_ringbuffer option" where
  "rt_ringbuffer_init pool sz = do {
     RT_ASSERT (sint sz > 0);
     Some \<lparr>rb_buffer = pool, rb_read_mirror = False, rb_read_index = 0, rb_write_mirror = False,
       rb_write_index = 0, rb_buffer_size = sz AND NOT 3\<rparr>
   }"

definition rt_ringbuffer_reset :: "rt_ringbuffer \<Rightarrow> rt_ringbuffer" where
  "rt_ringbuffer_reset rb = rb\<lparr>rb_read_mirror := False, rb_read_index := 0, rb_write_mirror := False,
     rb_write_index := 0\<rparr>"

text \<open>\<open>rb\<close> and \<open>pool\<close> are the results of the two allocations.\<close>

definition rt_ringbuffer_create :: "bool \<Rightarrow> u8 list option \<Rightarrow> u16 \<Rightarrow> rt_ringbuffer option option" where
  "rt_ringbuffer_create rb pool sz = do {
     RT_ASSERT (sz > 0);
     let sz = sz AND NOT 3;
     if \<not> rb then Some None
     else case pool of
       None \<Rightarrow> Some None
     | Some p \<Rightarrow> do { r \<leftarrow> rt_ringbuffer_init p sz; Some (Some r) }
   }"

definition rt_ringbuffer_get_size :: "rt_ringbuffer \<Rightarrow> u16" where
  "rt_ringbuffer_get_size rb = rb_buffer_size rb"

subsection \<open>Blocks of bytes\<close>

text \<open>
  The copy into the buffer and the new write position.  \<open>rb_write\<close> is the part that \<open>rt_ringbuffer_put\<close>
  and \<open>rt_ringbuffer_put_force\<close> have in common; the first result tells whether the position wrapped.
\<close>

definition rb_write :: "u8 list \<Rightarrow> nat \<Rightarrow> u16 \<Rightarrow> rt_ringbuffer \<Rightarrow> (bool \<times> rt_ringbuffer) option" where
  "rb_write src off len rb =
     (let room = rb_size rb - uint (rb_write_index rb); w = unat (rb_write_index rb)
      in if room > uint len then do {
           buf \<leftarrow> copy_in w src off (unat len) (rb_buffer rb);
           Some (False, rb\<lparr>rb_buffer := buf, rb_write_index := rb_write_index rb + ucast len\<rparr>)
         }
         else do {
           buf1 \<leftarrow> copy_in w src off (nat room) (rb_buffer rb);
           buf2 \<leftarrow> copy_in 0 src (off + nat room) (nat (uint len - room)) buf1;
           Some (True, rb\<lparr>rb_buffer := buf2, rb_write_mirror := \<not> rb_write_mirror rb,
             rb_write_index := word_of_int (uint len - room)\<rparr>)
         })"

definition rt_ringbuffer_put :: "u8 list \<Rightarrow> u16 \<Rightarrow> rt_ringbuffer \<Rightarrow> (u32 \<times> rt_ringbuffer) option" where
  "rt_ringbuffer_put src len rb =
     (let sz = ucast (rt_ringbuffer_space_len rb) :: u16
      in if sz = 0 then Some (0, rb)
         else do {
           let len = (if sz < len then sz else len);
           (wrapped, rb1) \<leftarrow> rb_write src 0 len rb;
           Some (ucast len, rb1)
         })"

definition rt_ringbuffer_put_force :: "u8 list \<Rightarrow> u16 \<Rightarrow> rt_ringbuffer \<Rightarrow> (u32 \<times> rt_ringbuffer) option" where
  "rt_ringbuffer_put_force src len rb = do {
     let space = (ucast (rt_ringbuffer_space_len rb) :: u16);
     let off = (if uint len > rb_size rb then nat (uint len - rb_size rb) else 0);
     let len = (if uint len > rb_size rb then word_of_int (rb_size rb) else len);
     (wrapped, rb1) \<leftarrow> rb_write src off len rb;
     Some (ucast len,
       if len > space then
         if wrapped then rb1\<lparr>rb_read_mirror := \<not> rb_read_mirror rb1, rb_read_index := rb_write_index rb1\<rparr>
         else rb1\<lparr>rb_read_index := rb_write_index rb1\<rparr>
       else rb1)
   }"

definition rt_ringbuffer_get :: "u16 \<Rightarrow> rt_ringbuffer \<Rightarrow> (u32 \<times> u8 list \<times> rt_ringbuffer) option" where
  "rt_ringbuffer_get len rb =
     (let sz = rt_ringbuffer_data_len rb
      in if sz = 0 then Some (0, [], rb)
         else let len = (if sz < ucast len then ucast sz else len);
                  room = rb_size rb - uint (rb_read_index rb); r = unat (rb_read_index rb)
           in if room > uint len then do {
                out \<leftarrow> copy_out r (unat len) (rb_buffer rb);
                Some (ucast len, out, rb\<lparr>rb_read_index := rb_read_index rb + ucast len\<rparr>)
              }
              else do {
                out1 \<leftarrow> copy_out r (nat room) (rb_buffer rb);
                out2 \<leftarrow> copy_out 0 (nat (uint len - room)) (rb_buffer rb);
                Some (ucast len, out1 @ out2, rb\<lparr>rb_read_mirror := \<not> rb_read_mirror rb,
                  rb_read_index := word_of_int (uint len - room)\<rparr>)
              })"

subsection \<open>Single bytes\<close>

text \<open>The store of one byte at an index; beyond the array it is undefined.\<close>

definition rb_store :: "u8 \<Rightarrow> rt_ringbuffer \<Rightarrow> rt_ringbuffer option" where
  "rb_store ch rb = do {
     RT_ASSERT (unat (rb_write_index rb) < length (rb_buffer rb));
     Some (rb\<lparr>rb_buffer := (rb_buffer rb)[unat (rb_write_index rb) := ch]\<rparr>)
   }"

definition rt_ringbuffer_putchar :: "u8 \<Rightarrow> rt_ringbuffer \<Rightarrow> (u32 \<times> rt_ringbuffer) option" where
  "rt_ringbuffer_putchar ch rb =
     (if rt_ringbuffer_space_len rb = 0 then Some (0, rb)
      else do {
        rb1 \<leftarrow> rb_store ch rb;
        Some (1, if uint (rb_write_index rb1) = rb_size rb1 - 1
          then rb1\<lparr>rb_write_mirror := \<not> rb_write_mirror rb1, rb_write_index := 0\<rparr>
          else rb1\<lparr>rb_write_index := rb_write_index rb1 + 1\<rparr>)
      })"

definition rt_ringbuffer_putchar_force :: "u8 \<Rightarrow> rt_ringbuffer \<Rightarrow> (u32 \<times> rt_ringbuffer) option" where
  "rt_ringbuffer_putchar_force ch rb = do {
     let old_state = rt_ringbuffer_status rb;
     rb1 \<leftarrow> rb_store ch rb;
     Some (1, if uint (rb_write_index rb1) = rb_size rb1 - 1
       then let rb2 = rb1\<lparr>rb_write_mirror := \<not> rb_write_mirror rb1, rb_write_index := 0\<rparr>
         in if old_state = RT_RINGBUFFER_FULL
            then rb2\<lparr>rb_read_mirror := \<not> rb_read_mirror rb2, rb_read_index := rb_write_index rb2\<rparr> else rb2
       else let rb2 = rb1\<lparr>rb_write_index := rb_write_index rb1 + 1\<rparr>
         in if old_state = RT_RINGBUFFER_FULL then rb2\<lparr>rb_read_index := rb_write_index rb2\<rparr> else rb2)
   }"

definition rt_ringbuffer_getchar :: "rt_ringbuffer \<Rightarrow> (u32 \<times> u8 option \<times> rt_ringbuffer) option" where
  "rt_ringbuffer_getchar rb =
     (if rt_ringbuffer_data_len rb = 0 then Some (0, None, rb)
      else do {
        RT_ASSERT (unat (rb_read_index rb) < length (rb_buffer rb));
        let ch = rb_buffer rb ! unat (rb_read_index rb);
        Some (1, Some ch, if uint (rb_read_index rb) = rb_size rb - 1
          then rb\<lparr>rb_read_mirror := \<not> rb_read_mirror rb, rb_read_index := 0\<rparr>
          else rb\<lparr>rb_read_index := rb_read_index rb + 1\<rparr>)
      })"

subsection \<open>The invariant\<close>

text \<open>
  \<open>n\<close> bytes are stored; the mirror bits agree exactly when the stored bytes do not wrap round.
\<close>

abbreviation rb_cap :: "rt_ringbuffer \<Rightarrow> nat" where
  "rb_cap rb \<equiv> length (rb_buffer rb)"

definition rb_holds :: "rt_ringbuffer \<Rightarrow> nat \<Rightarrow> bool" where
  "rb_holds rb n \<longleftrightarrow> 0 < rb_cap rb \<and> rb_size rb = int (rb_cap rb) \<and> n \<le> rb_cap rb \<and>
     unat (rb_read_index rb) < rb_cap rb \<and>
     unat (rb_write_index rb) = (unat (rb_read_index rb) + n) mod rb_cap rb \<and>
     (rb_read_mirror rb = rb_write_mirror rb \<longleftrightarrow> unat (rb_read_index rb) + n < rb_cap rb)"

definition rb_contents :: "rt_ringbuffer \<Rightarrow> u8 list" where
  "rb_contents rb = ring (rb_buffer rb) (unat (rb_read_index rb)) (unat (rt_ringbuffer_data_len rb))"

definition rb_inv :: "rt_ringbuffer \<Rightarrow> bool" where
  "rb_inv rb \<longleftrightarrow> (\<exists>n. rb_holds rb n)"

lemma rb_holdsD:
  assumes "rb_holds rb n"
  shows "0 < rb_cap rb" "rb_size rb = int (rb_cap rb)" "n \<le> rb_cap rb" "unat (rb_read_index rb) < rb_cap rb"
    "unat (rb_write_index rb) = (unat (rb_read_index rb) + n) mod rb_cap rb"
    "rb_read_mirror rb = rb_write_mirror rb \<longleftrightarrow> unat (rb_read_index rb) + n < rb_cap rb"
    "rb_cap rb < 2 ^ 15" "unat (rb_write_index rb) < rb_cap rb"
proof -
  show c: "0 < rb_cap rb" "rb_size rb = int (rb_cap rb)" "n \<le> rb_cap rb" "unat (rb_read_index rb) < rb_cap rb"
    "unat (rb_write_index rb) = (unat (rb_read_index rb) + n) mod rb_cap rb"
    "rb_read_mirror rb = rb_write_mirror rb \<longleftrightarrow> unat (rb_read_index rb) + n < rb_cap rb"
    using assms unfolding rb_holds_def by blast+
  show "rb_cap rb < 2 ^ 15" using sint_lt [of "rb_buffer_size rb"] c(2) by simp
  show "unat (rb_write_index rb) < rb_cap rb" unfolding c(5) using c(1) by simp
qed

lemma wrap_once: "a < L \<Longrightarrow> b \<le> L \<Longrightarrow> (a + b) mod L = (if a + b < L then a + b else a + b - (L :: nat))"
  by (auto simp: mod_if)

lemma rb_data_len:
  assumes h: "rb_holds rb n"
  shows "rt_ringbuffer_data_len rb = of_nat n" "unat (rt_ringbuffer_data_len rb) = n"
    "rt_ringbuffer_space_len rb = of_nat (rb_cap rb - n)" "unat (rt_ringbuffer_space_len rb) = rb_cap rb - n"
proof -
  note H = rb_holdsD [OF h]
  let ?r = "unat (rb_read_index rb)" and ?w = "unat (rb_write_index rb)" and ?L = "rb_cap rb"
  have w: "?w = (if ?r + n < ?L then ?r + n else ?r + n - ?L)" using H(5) wrap_once [OF H(4,3)] by simp
  have eq: "rb_read_index rb = rb_write_index rb \<longleftrightarrow> ?r = ?w" by (simp add: word_unat_eq_iff)
  have u: "uint (rb_read_index rb) = int ?r" "uint (rb_write_index rb) = int ?w" by simp_all
  have gt: "rb_write_index rb > rb_read_index rb \<longleftrightarrow> ?r < ?w" by (simp add: word_less_nat_alt)
  have len: "rt_ringbuffer_data_len rb = (if ?r = ?w then if ?r + n < ?L then 0 else word_of_int (int ?L)
      else if ?r < ?w then word_of_int (int ?w - int ?r) else word_of_int (int ?L - (int ?r - int ?w)))"
    unfolding rt_ringbuffer_data_len_def rt_ringbuffer_status_def eq gt u H(2,6) by simp
  have of_n: "word_of_int i = (of_nat n :: u32)" if "i = int n" for i using that by simp
  show d: "rt_ringbuffer_data_len rb = of_nat n"
  proof (cases "?r + n < ?L")
    case True
    then have "?w = ?r + n" using w by simp
    then show ?thesis using len True of_n [of "int ?w - int ?r"] by simp
  next
    case False
    then have e: "?w = ?r + n - ?L" using w by simp
    show ?thesis
    proof (cases "?r = ?w")
      case True
      then have "n = ?L" using e False H(1,3) by linarith
      then show ?thesis using len True False by simp
    next
      case False
      then have "\<not> ?r < ?w" "int ?L - (int ?r - int ?w) = int n"
        using e H(3) \<open>\<not> ?r + n < ?L\<close> by linarith+
      then show ?thesis using len False of_n by simp
    qed
  qed
  show "unat (rt_ringbuffer_data_len rb) = n" unfolding d using H(3,7) by (simp add: unat_of_nat)
  show s: "rt_ringbuffer_space_len rb = of_nat (?L - n)"
    using H(2,3) by (simp add: rt_ringbuffer_space_len_def d of_nat_diff)
  show "unat (rt_ringbuffer_space_len rb) = ?L - n" unfolding s using H(7) by (simp add: unat_of_nat)
qed

lemma rb_contents_eq: "rb_holds rb n \<Longrightarrow> rb_contents rb = ring (rb_buffer rb) (unat (rb_read_index rb)) n"
  by (simp only: rb_contents_def rb_data_len(2))

lemma rb_full_iff: "rb_holds rb n \<Longrightarrow> rt_ringbuffer_status rb = RT_RINGBUFFER_FULL \<longleftrightarrow> n = rb_cap rb"
proof -
  assume h: "rb_holds rb n"
  note H = rb_holdsD [OF h]
  have "unat (rb_write_index rb) =
      (if unat (rb_read_index rb) + n < rb_cap rb then unat (rb_read_index rb) + n
       else unat (rb_read_index rb) + n - rb_cap rb)"
    using H(5) wrap_once [OF H(4,3)] by simp
  then show ?thesis using H(1,3,4,6) by (auto simp: rt_ringbuffer_status_def word_unat_eq_iff)
qed

subsection \<open>Writing and reading\<close>

text \<open>\<open>src\<close> has been stored from position \<open>w\<close> on, going round the end.\<close>

definition stored :: "u8 list \<Rightarrow> nat \<Rightarrow> u8 list \<Rightarrow> u8 list \<Rightarrow> bool" where
  "stored buf w src buf' \<longleftrightarrow> length buf' = length buf \<and>
     (\<forall>i < length src. buf' ! ((w + i) mod length buf) = src ! i) \<and>
     (\<forall>j < length buf. (\<forall>i < length src. j \<noteq> (w + i) mod length buf) \<longrightarrow> buf' ! j = buf ! j)"

lemma ring_stored:
  assumes s: "stored buf ((r + n) mod length buf) src buf'" and r: "r < length buf"
    and fit: "n + length src \<le> length buf"
  shows "ring buf' r (n + length src) = ring buf r n @ src"
proof (rule nth_equalityI)
  fix i assume "i < length (ring buf' r (n + length src))"
  then have i: "i < n + length src" by simp
  have l: "length buf' = length buf" using s by (simp add: stored_def)
  show "ring buf' r (n + length src) ! i = (ring buf r n @ src) ! i"
  proof (cases "i < n")
    case True
    have "(r + i) mod length buf \<noteq> ((r + n) mod length buf + k) mod length buf" if "k < length src" for k
      using ring_index_inj [of i "n + k" "length buf" r] True that fit r by (simp add: mod_simps add.assoc)
    moreover have "(r + i) mod length buf < length buf" by (intro mod_less_divisor) (use r in linarith)
    ultimately have "buf' ! ((r + i) mod length buf) = buf ! ((r + i) mod length buf)"
      using s by (simp add: stored_def)
    then show ?thesis using i True l by (simp add: ring_def nth_append)
  next
    case False
    then have "i - n < length src" using i by linarith
    then have "buf' ! (((r + n) mod length buf + (i - n)) mod length buf) = src ! (i - n)"
      using s unfolding stored_def by blast
    moreover have "((r + n) mod length buf + (i - n)) mod length buf = (r + i) mod length buf"
      using False by (metis add.assoc le_add_diff_inverse mod_add_left_eq not_less)
    ultimately show ?thesis using i False l by (simp add: ring_def nth_append)
  qed
qed simp

lemma copy_in_nth:
  assumes "copy_in to src off n buf = Some buf'"
  shows "length buf' = length buf"
    "j < length buf \<Longrightarrow> buf' ! j = (if to \<le> j \<and> j < to + n then src ! (off + (j - to)) else buf ! j)"
proof -
  have c: "to + n \<le> length buf" "off + n \<le> length src"
    "buf' = take to buf @ take n (drop off src) @ drop (to + n) buf"
    using assms by (auto simp: copy_in_def split: if_splits)
  have l: "length (take to buf) = to" "length (take n (drop off src)) = n" using c by simp_all
  show "length buf' = length buf" using c by simp
  show "buf' ! j = (if to \<le> j \<and> j < to + n then src ! (off + (j - to)) else buf ! j)" if "j < length buf"
  proof (cases "j < to")
    case False
    then show ?thesis
    proof (cases "j < to + n")
      case True
      then have "buf' ! j = take n (drop off src) ! (j - to)" using False True by (simp add: c(3) nth_append l del: length_take)
      moreover have "j - to < n" using True False by linarith
      ultimately show ?thesis using False True c(2) by simp
    next
      case False
      then have "buf' ! j = drop (to + n) buf ! (j - to - n)" by (simp add: c(3) nth_append l del: length_take)
      then show ?thesis using False c(1) that by simp
    qed
  qed (use c(1) l in \<open>simp add: c(3) nth_append del: length_take\<close>)
qed

text \<open>The common part of the writes.\<close>

lemma rb_write_nat:
  assumes sz: "rb_size rb = int L" and w: "unat (rb_write_index rb) = w" "w < L" and k: "unat len = k"
  shows "rb_write src off len rb =
    (if w + k < L then do {
       buf \<leftarrow> copy_in w src off k (rb_buffer rb);
       Some (False, rb\<lparr>rb_buffer := buf, rb_write_index := of_nat (w + k)\<rparr>)
     }
     else do {
       buf1 \<leftarrow> copy_in w src off (L - w) (rb_buffer rb);
       buf2 \<leftarrow> copy_in 0 src (off + (L - w)) (k - (L - w)) buf1;
       Some (True, rb\<lparr>rb_buffer := buf2, rb_write_mirror := \<not> rb_write_mirror rb,
         rb_write_index := of_nat (w + k - L)\<rparr>)
     })"
proof -
  have u: "uint (rb_write_index rb) = int w" "uint len = int k" using w k by auto
  have i: "rb_write_index rb + ucast len = of_nat (w + k)" by (simp flip: w(1) k)
  have r: "int L - int w = int (L - w)" using w(2) by (simp add: of_nat_diff)
  show ?thesis
  proof (cases "w + k < L")
    case True
    then have "int (L - w) > int k" by simp
    then show ?thesis unfolding rb_write_def sz u i r w(1) k Let_def using True by simp
  next
    case False
    then have f: "\<not> int (L - w) > int k" by simp
    have n: "nat (int (L - w)) = L - w" "nat (int k - int (L - w)) = k - (L - w)" by simp_all
    have d: "int k - int (L - w) = int (w + k - L)" using False w(2) by simp
    show ?thesis unfolding rb_write_def sz u r w(1) Let_def n using False f by (simp add: d)
  qed
qed

lemma rb_write_ok:
  assumes h: "rb_holds rb n" and len: "unat len \<le> rb_cap rb" "off + unat len \<le> length src"
  shows "\<exists>buf'. rb_write src off len rb = Some (rb_cap rb \<le> unat (rb_write_index rb) + unat len,
      rb\<lparr>rb_buffer := buf',
        rb_write_mirror := (rb_write_mirror rb \<noteq> (rb_cap rb \<le> unat (rb_write_index rb) + unat len)),
        rb_write_index := of_nat ((unat (rb_write_index rb) + unat len) mod rb_cap rb)\<rparr>) \<and>
    stored (rb_buffer rb) (unat (rb_write_index rb)) (take (unat len) (drop off src)) buf'"
proof -
  note H = rb_holdsD [OF h]
  let ?w = "unat (rb_write_index rb)" and ?L = "rb_cap rb" and ?k = "unat len" and ?buf = "rb_buffer rb"
  note wr = rb_write_nat [OF H(2) refl H(8) refl, of src off len]
  have m: "(?w + ?k) mod ?L = (if ?w + ?k < ?L then ?w + ?k else ?w + ?k - ?L)"
    by (rule wrap_once [OF H(8) len(1)])
  have src: "take ?k (drop off src) ! i = src ! (off + i)" if "i < ?k" for i using that len(2) by simp
  have ls: "length (take ?k (drop off src)) = ?k" using len(2) by simp
  show ?thesis
  proof (cases "?w + ?k < ?L")
    case True
    have fit: "?w + ?k \<le> length ?buf" using True by simp
    then obtain buf' where c: "copy_in ?w src off ?k ?buf = Some buf'" using len(2) by (simp add: copy_in_def)
    note n = copy_in_nth [OF c]
    have "rb_write src off len rb = Some (False, rb\<lparr>rb_buffer := buf', rb_write_index := of_nat (?w + ?k)\<rparr>)"
      unfolding wr using True by (simp only: c if_True bind.bind_lunit)
    moreover have "stored ?buf ?w (take ?k (drop off src)) buf'"
      unfolding stored_def ls
    proof (intro conjI allI impI)
      show "length buf' = length ?buf" by (rule n(1))
      show "buf' ! ((?w + i) mod length ?buf) = take ?k (drop off src) ! i" if i: "i < ?k" for i
        using n(2) [of "?w + i"] i True src [OF i] by simp
      show "buf' ! j = ?buf ! j" if j: "j < length ?buf" "\<forall>i < ?k. j \<noteq> (?w + i) mod length ?buf" for j
      proof -
        have "\<not> (?w \<le> j \<and> j < ?w + ?k)"
        proof
          assume a: "?w \<le> j \<and> j < ?w + ?k"
          then have "j - ?w < ?k" "(?w + (j - ?w)) mod length ?buf = j" using j(1) by (linarith, simp)
          then show False using j(2) by metis
        qed
        then show ?thesis using n(2) [OF j(1)] by (simp only: if_False)
      qed
    qed
    ultimately show ?thesis using True m by (intro exI [of _ buf']) simp
  next
    case False
    let ?r = "?L - ?w"
    have "?w + ?r \<le> length ?buf" "off + ?r \<le> length src" using False H(8) len(2) by linarith+
    then obtain b1 where c1: "copy_in ?w src off ?r ?buf = Some b1" unfolding copy_in_def by simp
    note n1 = copy_in_nth [OF c1]
    have "0 + (?k - ?r) \<le> length b1" "off + ?r + (?k - ?r) \<le> length src" using n1(1) False H(8) len by linarith+
    then obtain b2 where c2: "copy_in 0 src (off + ?r) (?k - ?r) b1 = Some b2" unfolding copy_in_def by simp
    note n2 = copy_in_nth [OF c2]
    have "rb_write src off len rb = Some (True, rb\<lparr>rb_buffer := b2, rb_write_mirror := \<not> rb_write_mirror rb,
        rb_write_index := of_nat (?w + ?k - ?L)\<rparr>)"
      unfolding wr using False by (simp only: c1 c2 if_False bind.bind_lunit)
    moreover have "stored ?buf ?w (take ?k (drop off src)) b2"
      unfolding stored_def ls
    proof (intro conjI allI impI)
      show "length b2 = length ?buf" using n1(1) n2(1) by simp
      show "b2 ! ((?w + i) mod length ?buf) = take ?k (drop off src) ! i" if i: "i < ?k" for i
      proof (cases "?w + i < ?L")
        case True
        then show ?thesis using i n1 n2 False len H(8) by (auto simp: src)
      next
        case o: False
        then have "(?w + i) mod length ?buf = ?w + i - ?L" using wrap_once [OF H(8), of i] i len(1) by simp
        then show ?thesis using i o n1(1) n2 H(8) len by (auto simp: src)
      qed
      show "b2 ! j = ?buf ! j" if j: "j < length ?buf" "\<forall>i < ?k. j \<noteq> (?w + i) mod length ?buf" for j
      proof -
        have "j < ?w"
        proof (rule ccontr)
          assume "\<not> j < ?w"
          then have "j - ?w < ?k" "(?w + (j - ?w)) mod length ?buf = j" using j(1) False by (linarith, simp)
          then show False using j(2) by metis
        qed
        moreover have "\<not> j < ?k - ?r"
        proof
          assume "j < ?k - ?r"
          then have "?r + j < ?k" "(?w + (?r + j)) mod length ?buf = j" using H(8) j(1) by auto
          then show False using j(2) by metis
        qed
        ultimately show ?thesis using n1 n2 j(1) by simp
      qed
    qed
    ultimately show ?thesis using False m by (intro exI [of _ b2]) simp
  qed
qed

text \<open>The state after \<open>k\<close> bytes were written into the free part, and after writing over old ones.\<close>

lemma mod_sum: "(((r :: nat) + n) mod L + k) mod L = (r + (n + k)) mod L"
  by (simp add: mod_simps add.assoc)

lemma rb_written:
  assumes h: "rb_holds rb n" and k: "n + length src \<le> rb_cap rb"
    and s: "stored (rb_buffer rb) (unat (rb_write_index rb)) src buf'"
  defines "w \<equiv> unat (rb_write_index rb) + length src"
  defines "rb' \<equiv> rb\<lparr>rb_buffer := buf', rb_write_mirror := (rb_write_mirror rb \<noteq> (rb_cap rb \<le> w)),
    rb_write_index := of_nat (w mod rb_cap rb)\<rparr>"
  shows "rb_holds rb' (n + length src)" "rb_contents rb' = rb_contents rb @ src" "rb_cap rb' = rb_cap rb"
proof -
  note H = rb_holdsD [OF h]
  let ?r = "unat (rb_read_index rb)" and ?L = "rb_cap rb" and ?k = "length src"
  have l: "length buf' = ?L" using s by (simp add: stored_def)
  have wm: "w mod ?L = (?r + (n + ?k)) mod ?L" unfolding w_def H(5) by (rule mod_sum)
  have lt: "w mod ?L < 2 ^ 15" using H(1,7) by (meson less_trans mod_less_divisor)
  have u: "unat (of_nat (w mod ?L) :: 15 word) = w mod ?L" using lt by (simp add: unat_of_nat)
  have mir: "rb_read_mirror rb = rb_write_mirror rb' \<longleftrightarrow> ?r + (n + ?k) < ?L"
  proof (cases "?r + n < ?L")
    case True
    then have "w = ?r + n + ?k" using H(5) by (simp add: w_def)
    then show ?thesis using True H(6) by (auto simp: rb'_def)
  next
    case False
    then have "unat (rb_write_index rb) = ?r + n - ?L" using H(5) wrap_once [OF H(4,3)] by simp
    then have "\<not> ?L \<le> w" using False H(4) k by (simp add: w_def)
    then show ?thesis using False H(6) by (simp add: rb'_def)
  qed
  show hs: "rb_holds rb' (n + ?k)"
    unfolding rb_holds_def using H(1,2,4) k l u wm mir by (simp add: rb'_def)
  have "ring buf' ?r (n + ?k) = ring (rb_buffer rb) ?r n @ src"
    by (rule ring_stored [OF _ H(4) k]) (use s H(5) in simp)
  then show "rb_contents rb' = rb_contents rb @ src"
    unfolding rb_contents_eq [OF hs] rb_contents_eq [OF h] by (simp add: rb'_def)
  show "rb_cap rb' = ?L" using l by (simp add: rb'_def)
qed

lemma rb_put_ok:
  assumes h: "rb_holds rb n" and len: "unat len \<le> length src"
  defines "k \<equiv> min (unat len) (rb_cap rb - n)"
  shows "\<exists>rb'. rt_ringbuffer_put src len rb = Some (of_nat k, rb') \<and> rb_holds rb' (n + k) \<and>
    rb_contents rb' = rb_contents rb @ take k src \<and> rb_cap rb' = rb_cap rb"
proof -
  note H = rb_holdsD [OF h]
  have c16: "unat (ucast (rt_ringbuffer_space_len rb) :: u16) = rb_cap rb - n"
    unfolding rb_data_len(3) [OF h] using H(7) by (simp add: unsigned_ucast_eq unat_of_nat take_bit_nat_eq_self)
  show ?thesis
  proof (cases "rb_cap rb - n = 0")
    case True
    then have "ucast (rt_ringbuffer_space_len rb) = (0 :: u16)" using c16 by (simp add: unat_eq_0)
    then show ?thesis using True h by (auto simp: rt_ringbuffer_put_def k_def)
  next
    case False
    let ?sz = "ucast (rt_ringbuffer_space_len rb) :: u16"
    let ?len = "if ?sz < len then ?sz else len"
    have nz: "?sz \<noteq> 0" using c16 False by (metis unsigned_0)
    have kl: "unat ?len = k" using c16 by (auto simp: k_def word_less_nat_alt)
    have kb: "unat ?len \<le> rb_cap rb" "0 + unat ?len \<le> length src" "n + k \<le> rb_cap rb"
      using kl len H(3) by (auto simp: k_def)
    obtain buf' where w: "rb_write src 0 ?len rb = Some (rb_cap rb \<le> unat (rb_write_index rb) + unat ?len,
      rb\<lparr>rb_buffer := buf',
        rb_write_mirror := (rb_write_mirror rb \<noteq> (rb_cap rb \<le> unat (rb_write_index rb) + unat ?len)),
        rb_write_index := of_nat ((unat (rb_write_index rb) + unat ?len) mod rb_cap rb)\<rparr>)"
      "stored (rb_buffer rb) (unat (rb_write_index rb)) (take (unat ?len) (drop 0 src)) buf'"
      using rb_write_ok [OF h kb(1,2)] by blast
    have ls: "length (take k src) = k" using kb(2) kl by simp
    have e: "ucast ?len = (of_nat k :: u32)" by (simp flip: kl)
    note r = rb_written [OF h, of "take k src" buf', unfolded ls]
    show ?thesis
      using w r kb(3) nz unfolding rt_ringbuffer_put_def Let_def kl by (auto simp: e [simplified])
  qed
qed

subsection \<open>Reading\<close>

lemma ring_drop:
  assumes "k \<le> n"
  shows "ring buf ((r + k) mod length buf) (n - k) = drop k (ring buf r n)"
  by (rule nth_equalityI) (use assms in \<open>auto simp: ring_def mod_simps add.assoc\<close>)

lemma ring_take: "k \<le> n \<Longrightarrow> take k (ring buf r n) = ring buf r k"
  by (simp add: ring_def take_map)

lemma ring_straight: "r + k \<le> length buf \<Longrightarrow> ring buf r k = take k (drop r buf)"
  by (rule nth_equalityI) (auto simp: ring_def)

lemma ring_round:
  assumes "r < length buf" "length buf \<le> r + k" "k \<le> length buf"
  shows "ring buf r k = take (length buf - r) (drop r buf) @ take (k - (length buf - r)) buf"
proof (rule nth_equalityI)
  show "length (ring buf r k) = length (take (length buf - r) (drop r buf) @ take (k - (length buf - r)) buf)"
    using assms by simp
next
  fix i assume "i < length (ring buf r k)"
  then have i: "i < k" by simp
  show "ring buf r k ! i = (take (length buf - r) (drop r buf) @ take (k - (length buf - r)) buf) ! i"
    using i assms wrap_once [OF assms(1), of i] by (auto simp: ring_def nth_append add.commute)
qed

text \<open>The state after the \<open>k\<close> oldest bytes were taken.\<close>

lemma rb_read:
  assumes h: "rb_holds rb n" and k: "k \<le> n"
  defines "p \<equiv> unat (rb_read_index rb) + k"
  defines "rb' \<equiv> rb\<lparr>rb_read_mirror := (rb_read_mirror rb \<noteq> (rb_cap rb \<le> p)),
    rb_read_index := of_nat (p mod rb_cap rb)\<rparr>"
  shows "rb_holds rb' (n - k)" "rb_contents rb' = drop k (rb_contents rb)" "rb_cap rb' = rb_cap rb"
proof -
  note H = rb_holdsD [OF h]
  let ?r = "unat (rb_read_index rb)" and ?L = "rb_cap rb"
  have lt: "p mod ?L < 2 ^ 15" using H(1,7) by (meson less_trans mod_less_divisor)
  have u: "unat (of_nat (p mod ?L) :: 15 word) = p mod ?L" using lt by (simp add: unat_of_nat)
  have p: "p mod ?L = (if p < ?L then p else p - ?L)"
    using wrap_once [OF H(4), of k] k H(3) by (simp add: p_def)
  have m: "(p mod ?L + (n - k)) mod ?L = (?r + n) mod ?L" unfolding mod_add_left_eq using k by (simp add: p_def)
  have mir: "rb_read_mirror rb' = rb_write_mirror rb \<longleftrightarrow> p mod ?L + (n - k) < ?L"
  proof (cases "p < ?L")
    case True
    then have "p mod ?L + (n - k) = ?r + n" using k by (simp add: p_def)
    then show ?thesis using True H(6) by (auto simp: rb'_def)
  next
    case False
    then have "p mod ?L + (n - k) < ?L" "\<not> ?r + n < ?L" using p k H(3,4) by (auto simp: p_def)
    then show ?thesis using False H(6) by (auto simp: rb'_def)
  qed
  show hs: "rb_holds rb' (n - k)"
    unfolding rb_holds_def using H(1,2,3,5) u m mir by (simp add: rb'_def)
  have "ring (rb_buffer rb) (p mod ?L) (n - k) = drop k (ring (rb_buffer rb) ?r n)"
    unfolding p_def by (rule ring_drop [OF k])
  then show "rb_contents rb' = drop k (rb_contents rb)"
    unfolding rb_contents_eq [OF hs] rb_contents_eq [OF h] using u by (simp add: rb'_def)
  show "rb_cap rb' = ?L" by (simp add: rb'_def)
qed

lemma rb_get_ok:
  fixes len :: u16
  assumes h: "rb_holds rb n"
  defines "k \<equiv> min (unat len) n"
  shows "\<exists>rb'. rt_ringbuffer_get len rb = Some (of_nat k, take k (rb_contents rb), rb') \<and>
    rb_holds rb' (n - k) \<and> rb_contents rb' = drop k (rb_contents rb) \<and> rb_cap rb' = rb_cap rb"
proof (cases "n = 0")
  case True
  then have "rt_ringbuffer_data_len rb = 0" using rb_data_len(1) [OF h] by simp
  then show ?thesis using True h by (auto simp: rt_ringbuffer_get_def k_def)
next
  case False
  note H = rb_holdsD [OF h]
  define r where "r = unat (rb_read_index rb)"
  let ?L = "rb_cap rb" and ?buf = "rb_buffer rb"
  let ?sz = "rt_ringbuffer_data_len rb"
  let ?len = "if ?sz < ucast len then ucast ?sz else len"
  have r: "r < ?L" using H(4) by (simp add: r_def)
  have nz: "?sz \<noteq> 0" using rb_data_len(2) [OF h] False by auto
  have cl: "unat (ucast len :: u32) = unat len" by (simp add: unsigned_ucast_eq take_bit_nat_eq_self_iff less_trans [OF unsigned_less])
  have cs: "unat (ucast ?sz :: u16) = n"
    using rb_data_len(2) [OF h] H(3,7) by (simp add: unsigned_ucast_eq take_bit_nat_eq_self)
  have kl: "unat ?len = k" using cl cs rb_data_len(2) [OF h] by (auto simp: k_def word_less_nat_alt)
  have u: "uint (rb_read_index rb) = int r" "uint ?len = int k" using kl by (auto simp: r_def)
  have e: "ucast ?len = (of_nat k :: u32)" "rb_read_index rb + ucast ?len = of_nat (r + k)"
    by (simp_all flip: kl add: r_def)
  have room: "int ?L - int r = int (?L - r)" using r by (simp add: of_nat_diff)
  have kn: "k \<le> n" "k \<le> ?L" using H(3) by (simp_all add: k_def)
  have out: "take k (rb_contents rb) = ring ?buf r k"
    unfolding rb_contents_eq [OF h] r_def by (rule ring_take [OF kn(1)])
  note st = rb_read [OF h kn(1), folded r_def]
  show ?thesis
  proof (cases "r + k < ?L")
    case True
    have c: "copy_out r k ?buf = Some (ring ?buf r k)" using True by (simp add: copy_out_def ring_straight)
    have "int k < int (?L - r)" "int k < int ?L - int r" using True by linarith+
    then have "rt_ringbuffer_get len rb = Some (of_nat k, ring ?buf r k, rb\<lparr>rb_read_index := of_nat (r + k)\<rparr>)"
      unfolding rt_ringbuffer_get_def Let_def H(2) u e room kl r_def [symmetric] using nz c by simp
    then show ?thesis using st True out by auto
  next
    case False
    have n: "nat (int (?L - r)) = ?L - r" by simp
    have md: "(r + k) mod ?L = k - (?L - r)" using False wrap_once [OF r kn(2)] r by simp
    have d: "int k - int (?L - r) = int ((r + k) mod ?L)" using False md r by simp
    have n2: "nat (int ((r + k) mod ?L)) = k - (?L - r)" using md by simp
    have c: "copy_out r (?L - r) ?buf = Some (take (?L - r) (drop r ?buf))"
      "copy_out 0 (k - (?L - r)) ?buf = Some (take (k - (?L - r)) ?buf)"
      using r kn(2) by (simp_all add: copy_out_def)
    have g: "ring ?buf r k = take (?L - r) (drop r ?buf) @ take (k - (?L - r)) ?buf"
      by (rule ring_round [OF r _ kn(2)]) (use False in simp)
    have "\<not> int k < int (?L - r)" "\<not> int k < int ?L - int r" using False by linarith+
    then have "rt_ringbuffer_get len rb = Some (of_nat k, ring ?buf r k,
        rb\<lparr>rb_read_mirror := \<not> rb_read_mirror rb, rb_read_index := of_nat ((r + k) mod ?L)\<rparr>)"
      unfolding rt_ringbuffer_get_def Let_def H(2) u e room n g d r_def [symmetric] unfolding n2 using nz c by simp
    then show ?thesis using st False out by auto
  qed
qed

subsection \<open>Single bytes\<close>

lemma stored_one: "w < length buf \<Longrightarrow> stored buf w [ch] (buf[w := ch])"
  by (auto simp: stored_def)

text \<open>The position after one byte.\<close>

lemma index_step:
  assumes "rb_holds rb n" "i = rb_read_index rb \<or> i = rb_write_index rb"
  shows "uint i = rb_size rb - 1 \<longleftrightarrow> rb_cap rb \<le> Suc (unat i)"
    "(if uint i = rb_size rb - 1 then 0 else i + 1) = of_nat (Suc (unat i) mod rb_cap rb)"
proof -
  note H = rb_holdsD [OF assms(1)]
  have i: "unat i < rb_cap rb" using assms(2) H(4,8) by auto
  have u: "uint i = int (unat i)" by simp
  show e: "uint i = rb_size rb - 1 \<longleftrightarrow> rb_cap rb \<le> Suc (unat i)" unfolding H(2) u using i by linarith
  show "(if uint i = rb_size rb - 1 then 0 else i + 1) = of_nat (Suc (unat i) mod rb_cap rb)"
  proof (cases "Suc (unat i) < rb_cap rb")
    case True
    then show ?thesis unfolding e by simp
  next
    case False
    then have "Suc (unat i) = rb_cap rb" using i by simp
    then show ?thesis unfolding e by simp
  qed
qed

lemma rb_putchar_ok:
  assumes h: "rb_holds rb n"
  shows "n < rb_cap rb \<Longrightarrow> \<exists>rb'. rt_ringbuffer_putchar ch rb = Some (1, rb') \<and> rb_holds rb' (Suc n) \<and>
      rb_contents rb' = rb_contents rb @ [ch] \<and> rb_cap rb' = rb_cap rb"
    "n = rb_cap rb \<Longrightarrow> rt_ringbuffer_putchar ch rb = Some (0, rb)"
proof -
  note H = rb_holdsD [OF h]
  let ?w = "unat (rb_write_index rb)"
  have sp: "rt_ringbuffer_space_len rb = 0 \<longleftrightarrow> n = rb_cap rb"
    using rb_data_len(4) [OF h] H(3) by (metis diff_is_0_eq' diff_self_eq_0 le_antisym unat_eq_0 diff_diff_cancel diff_zero)
  show "n = rb_cap rb \<Longrightarrow> rt_ringbuffer_putchar ch rb = Some (0, rb)" using sp by (simp add: rt_ringbuffer_putchar_def)
  assume n: "n < rb_cap rb"
  note st = index_step [OF h, of "rb_write_index rb"]
  note r = rb_written [OF h, of "[ch]" "(rb_buffer rb)[?w := ch]", OF _ stored_one [OF H(8)]]
  have "rt_ringbuffer_putchar ch rb = Some (1, rb\<lparr>rb_buffer := (rb_buffer rb)[?w := ch],
      rb_write_mirror := (rb_write_mirror rb \<noteq> (rb_cap rb \<le> Suc ?w)),
      rb_write_index := of_nat (Suc ?w mod rb_cap rb)\<rparr>)"
    using n sp st H(8) by (auto simp: rt_ringbuffer_putchar_def rb_store_def)
  then show "\<exists>rb'. rt_ringbuffer_putchar ch rb = Some (1, rb') \<and> rb_holds rb' (Suc n) \<and>
      rb_contents rb' = rb_contents rb @ [ch] \<and> rb_cap rb' = rb_cap rb"
    using r n by auto
qed

lemma rb_getchar_ok:
  assumes h: "rb_holds rb n"
  shows "n \<noteq> 0 \<Longrightarrow> \<exists>rb'. rt_ringbuffer_getchar rb = Some (1, Some (hd (rb_contents rb)), rb') \<and>
      rb_holds rb' (n - 1) \<and> rb_contents rb' = tl (rb_contents rb) \<and> rb_cap rb' = rb_cap rb"
    "n = 0 \<Longrightarrow> rt_ringbuffer_getchar rb = Some (0, None, rb)"
proof -
  note H = rb_holdsD [OF h]
  let ?r = "unat (rb_read_index rb)"
  have len: "rt_ringbuffer_data_len rb = 0 \<longleftrightarrow> n = 0"
    using rb_data_len(2) [OF h] by (metis unat_eq_0)
  show "n = 0 \<Longrightarrow> rt_ringbuffer_getchar rb = Some (0, None, rb)" using len by (simp add: rt_ringbuffer_getchar_def)
  assume n: "n \<noteq> 0"
  note st = index_step [OF h, of "rb_read_index rb"]
  have "ring (rb_buffer rb) ?r n ! 0 = rb_buffer rb ! ?r" using n H(4) by (simp add: ring_def)
  then have hd: "hd (rb_contents rb) = rb_buffer rb ! ?r"
    using n by (simp add: rb_contents_eq [OF h] hd_conv_nth flip: length_greater_0_conv)
  have "rt_ringbuffer_getchar rb = Some (1, Some (rb_buffer rb ! ?r),
      rb\<lparr>rb_read_mirror := (rb_read_mirror rb \<noteq> (rb_cap rb \<le> Suc ?r)),
        rb_read_index := of_nat (Suc ?r mod rb_cap rb)\<rparr>)"
    using n len st H(4) by (auto simp: rt_ringbuffer_getchar_def Let_def)
  then show "\<exists>rb'. rt_ringbuffer_getchar rb = Some (1, Some (hd (rb_contents rb)), rb') \<and>
      rb_holds rb' (n - 1) \<and> rb_contents rb' = tl (rb_contents rb) \<and> rb_cap rb' = rb_cap rb"
    using rb_read [OF h, of 1] n hd by (auto simp: drop_Suc)
qed

subsection \<open>The buffer of bytes as a bounded store\<close>

definition rb_put :: "u8 \<Rightarrow> rt_ringbuffer \<Rightarrow> rt_ringbuffer option" where
  "rb_put ch rb = (case rt_ringbuffer_putchar ch rb of Some (n, rb') \<Rightarrow> if n = 0 then None else Some rb' | None \<Rightarrow> None)"

definition rb_get :: "rt_ringbuffer \<Rightarrow> (u8 \<times> rt_ringbuffer) option" where
  "rb_get rb = (case rt_ringbuffer_getchar rb of Some (n, Some ch, rb') \<Rightarrow> Some (ch, rb') | _ \<Rightarrow> None)"

lemma rb_length: "rb_holds rb n \<Longrightarrow> length (rb_contents rb) = n"
  by (simp add: rb_contents_eq)

interpretation rb: bounded_fifo rb_inv rb_contents rb_cap "\<lambda>rb ch. True" rb_put rb_get
proof unfold_locales
  fix s assume "rb_inv s"
  then obtain n where h: "rb_holds s n" by (auto simp: rb_inv_def)
  then show "length (rb_contents s) \<le> rb_cap s" using rb_length rb_holdsD(3) by metis
next
  fix s and x :: u8 assume "rb_inv s" and l: "length (rb_contents s) < rb_cap s"
  then obtain n where h: "rb_holds s n" by (auto simp: rb_inv_def)
  have n: "n < rb_cap s" using l rb_length [OF h] by simp
  obtain rb' where "rt_ringbuffer_putchar x s = Some (1, rb')" "rb_holds rb' (Suc n)"
    "rb_contents rb' = rb_contents s @ [x]" "rb_cap rb' = rb_cap s"
    using rb_putchar_ok(1) [OF h n] by blast
  then show "\<exists>s'. rb_put x s = Some s' \<and> rb_inv s' \<and> rb_contents s' = rb_contents s @ [x] \<and>
      rb_cap s' = rb_cap s \<and> (\<lambda>ch :: u8. True) = (\<lambda>ch. True)"
    by (auto simp: rb_put_def rb_inv_def)
next
  fix s and x :: u8 assume "rb_inv s" and l: "length (rb_contents s) = rb_cap s"
  then obtain n where h: "rb_holds s n" by (auto simp: rb_inv_def)
  have "n = rb_cap s" using l rb_length [OF h] by simp
  then show "rb_put x s = None" using rb_putchar_ok(2) [OF h] by (simp add: rb_put_def)
next
  fix s and x :: u8 and xs assume "rb_inv s" and l: "rb_contents s = x # xs"
  then obtain n where h: "rb_holds s n" by (auto simp: rb_inv_def)
  have "n \<noteq> 0" using l rb_length [OF h] by auto
  then show "\<exists>s'. rb_get s = Some (x, s') \<and> rb_inv s' \<and> rb_contents s' = xs \<and> rb_cap s' = rb_cap s \<and>
      (\<lambda>ch :: u8. True) = (\<lambda>ch. True)"
    using rb_getchar_ok(1) [OF h] l by (auto simp: rb_get_def rb_inv_def)
next
  fix s assume "rb_inv s" and l: "rb_contents s = []"
  then obtain n where h: "rb_holds s n" by (auto simp: rb_inv_def)
  have "n = 0" using l rb_length [OF h] by simp
  then show "rb_get s = None" using rb_getchar_ok(2) [OF h] by (simp add: rb_get_def)
qed

lemma uint_unat_less: "uint (x :: u16) < 2 ^ 15 \<longleftrightarrow> unat x < 2 ^ 15"
  using of_nat_less_iff [of "unat x" "2 ^ 15", where 'a = int] by simp

lemma sint_small: "unat (x :: u16) < 2 ^ 15 \<Longrightarrow> sint x = int (unat x)"
proof -
  assume "unat x < 2 ^ 15"
  then have "uint x < 2 ^ 15" by (simp only: uint_unat_less)
  moreover have "0 \<le> uint x" by simp
  ultimately have "signed_take_bit 15 (uint x) = uint x" by (intro signed_take_bit_int_eq_self) linarith+
  then show ?thesis by (simp add: sint_uint)
qed

lemma sint_pos_small: "0 < sint (x :: u16) \<Longrightarrow> unat x < 2 ^ 15"
proof -
  assume p: "0 < sint x"
  have l: "sint x < 2 ^ 15" using sint_lt [of x] by simp
  have "uint x = take_bit 16 (sint x)" by (simp add: uint_sint)
  also have "\<dots> = sint x" using p l by (intro take_bit_int_eq_self) simp_all
  finally have "uint x < 2 ^ 15" using l by simp
  then show ?thesis by (simp only: uint_unat_less)
qed

lemma rb_init_holds:
  assumes "0 < sint sz" "length pool = unat (sz AND NOT 3)" "0 < length pool"
  shows "\<exists>rb. rt_ringbuffer_init pool sz = Some rb \<and> rb_holds rb 0 \<and> rb_buffer rb = pool"
proof -
  have "unat (sz AND NOT 3) \<le> unat sz" using word_and_le2 [of sz "NOT 3"] by (simp add: word_le_nat_alt)
  then have "unat (sz AND NOT 3) < 2 ^ 15" using sint_pos_small [OF assms(1)] by linarith
  then have "sint (sz AND NOT 3) = int (length pool)" using sint_small assms(2) by simp
  then show ?thesis using assms(1,3) by (simp add: rt_ringbuffer_init_def rb_holds_def)
qed

subsection \<open>Writes that overwrite\<close>

lemma rb_putchar_force_ok:
  assumes h: "rb_holds rb n"
  shows "\<exists>rb'. rt_ringbuffer_putchar_force ch rb = Some (1, rb') \<and> rb_inv rb' \<and> rb_cap rb' = rb_cap rb \<and>
    rb_contents rb' = (if n = rb_cap rb then tl (rb_contents rb) else rb_contents rb) @ [ch]"
proof -
  note H = rb_holdsD [OF h]
  let ?w = "unat (rb_write_index rb)" and ?L = "rb_cap rb"
  note st = index_step [OF h, of "rb_write_index rb"]
  let ?wr = "\<lambda>s. s\<lparr>rb_buffer := (rb_buffer s)[?w := ch], rb_write_mirror := (rb_write_mirror s \<noteq> (?L \<le> Suc ?w)),
      rb_write_index := of_nat (Suc ?w mod ?L)\<rparr>"
  show ?thesis
  proof (cases "n = ?L")
    case False
    then have n: "n < ?L" using H(3) by simp
    note r = rb_written [OF h, of "[ch]" "(rb_buffer rb)[?w := ch]", OF _ stored_one [OF H(8)]]
    have "rt_ringbuffer_putchar_force ch rb = Some (1, ?wr rb)"
      using False rb_full_iff [OF h] st H(8) by (auto simp: rt_ringbuffer_putchar_force_def rb_store_def Let_def)
    then show ?thesis using r n False by (auto simp: rb_inv_def)
  next
    case True
    have wr: "rb_write_index rb = rb_read_index rb"
      using H(5) True H(4) by (simp add: word_unat_eq_iff)
    let ?s = "rb\<lparr>rb_read_mirror := (rb_read_mirror rb \<noteq> (?L \<le> Suc ?w)), rb_read_index := of_nat (Suc ?w mod ?L)\<rparr>"
    have s: "rb_holds ?s (?L - 1)" "rb_contents ?s = tl (rb_contents rb)"
      using rb_read [OF h, of 1] True H(1) wr by (simp_all add: drop_Suc)
    have "stored (rb_buffer ?s) (unat (rb_write_index ?s)) [ch] ((rb_buffer rb)[?w := ch])"
      using stored_one [OF H(8)] by simp
    from rb_written [OF s(1) _ this] have r: "rb_holds (?wr ?s) ?L" "rb_contents (?wr ?s) = tl (rb_contents rb) @ [ch]"
      using s(2) H(1) by simp_all
    have "rt_ringbuffer_putchar_force ch rb = Some (1, ?wr ?s)"
      using True rb_full_iff [OF h] st H(8) by (auto simp: rt_ringbuffer_putchar_force_def rb_store_def Let_def)
    then show ?thesis using r True by (auto simp: rb_inv_def)
  qed
qed

text \<open>
  A block that does not fit.  While the stored bytes wrap round, the newest bytes are kept; while they do
  not, the two mirror bits flip together and the buffer counts as empty.
\<close>

lemma int_less_uint: "int L < uint (len :: u16) \<longleftrightarrow> L < unat len"
  using of_nat_less_iff [of L "unat len", where 'a = int] by simp

text \<open>The two outcomes of the code: with room for the block, and without.\<close>

abbreviation rb_moved :: "u8 list \<Rightarrow> nat \<Rightarrow> rt_ringbuffer \<Rightarrow> rt_ringbuffer" where
  "rb_moved buf w rb \<equiv> rb\<lparr>rb_buffer := buf, rb_write_mirror := (rb_write_mirror rb \<noteq> (rb_cap rb \<le> w)),
     rb_write_index := of_nat (w mod rb_cap rb)\<rparr>"

abbreviation rb_both_moved :: "u8 list \<Rightarrow> nat \<Rightarrow> rt_ringbuffer \<Rightarrow> rt_ringbuffer" where
  "rb_both_moved buf w rb \<equiv> rb\<lparr>rb_read_mirror := (rb_read_mirror rb \<noteq> (rb_cap rb \<le> w)),
     rb_read_index := of_nat (w mod rb_cap rb), rb_buffer := buf,
     rb_write_mirror := (rb_write_mirror rb \<noteq> (rb_cap rb \<le> w)),
     rb_write_index := of_nat (w mod rb_cap rb)\<rparr>"

lemma rb_put_force_raw:
  assumes h: "rb_holds rb n" and len: "unat len \<le> length src"
  defines "k \<equiv> min (unat len) (rb_cap rb)" and "skip \<equiv> unat len - rb_cap rb"
  defines "w \<equiv> unat (rb_write_index rb) + k"
  shows "\<exists>buf'. stored (rb_buffer rb) (unat (rb_write_index rb)) (take k (drop skip src)) buf' \<and>
    rt_ringbuffer_put_force src len rb = Some (of_nat k,
      if rb_cap rb < n + k then rb_both_moved buf' w rb else rb_moved buf' w rb)"
proof -
  note H = rb_holdsD [OF h]
  let ?L = "rb_cap rb"
  let ?len = "if uint len > rb_size rb then word_of_int (rb_size rb) else len"
  have c16: "unat (ucast (rt_ringbuffer_space_len rb) :: u16) = ?L - n"
    unfolding rb_data_len(3) [OF h] using H(7) by (simp add: unsigned_ucast_eq unat_of_nat take_bit_nat_eq_self)
  have gt: "uint len > rb_size rb \<longleftrightarrow> ?L < unat len"
    unfolding H(2) by (rule int_less_uint)
  have kl: "unat ?len = k"
  proof (cases "?L < unat len")
    case True
    then show ?thesis unfolding gt unfolding H(2) using H(7) by (simp add: k_def unat_of_nat)
  next
    case False
    then show ?thesis unfolding gt by (simp add: k_def)
  qed
  have off: "(if uint len > rb_size rb then nat (uint len - rb_size rb) else 0) = skip"
  proof -
    have "uint len - rb_size rb = int (unat len) - int ?L" unfolding H(2) by simp
    then have "nat (uint len - rb_size rb) = skip" unfolding skip_def by (simp only: nat_diff_distrib')
    then show ?thesis unfolding gt by (simp add: skip_def)
  qed
  have b: "unat ?len \<le> ?L" "skip + unat ?len \<le> length src"
    unfolding kl using len by (auto simp: k_def skip_def min_def)
  obtain buf' where wr: "rb_write src skip ?len rb = Some (?L \<le> w, rb_moved buf' w rb)"
    "stored (rb_buffer rb) (unat (rb_write_index rb)) (take k (drop skip src)) buf'"
    using rb_write_ok [OF h b] unfolding kl w_def by blast
  have sp: "?len > ucast (rt_ringbuffer_space_len rb) \<longleftrightarrow> ?L < n + k"
    unfolding word_less_nat_alt kl c16 using H(3) by linarith
  have e: "ucast ?len = (of_nat k :: u32)" by (simp only: flip: kl) simp
  have up: "(if ?L \<le> w
      then (rb_moved buf' w rb)\<lparr>rb_read_mirror := \<not> rb_read_mirror (rb_moved buf' w rb),
        rb_read_index := rb_write_index (rb_moved buf' w rb)\<rparr>
      else (rb_moved buf' w rb)\<lparr>rb_read_index := rb_write_index (rb_moved buf' w rb)\<rparr>) = rb_both_moved buf' w rb"
    by (cases rb) simp
  have "rt_ringbuffer_put_force src len rb = Some (of_nat k,
      if ?L < n + k then rb_both_moved buf' w rb else rb_moved buf' w rb)"
    unfolding rt_ringbuffer_put_force_def off Let_def using wr(1)
    by (simp only: bind.bind_lunit prod.case sp e up)
  then show ?thesis using wr(2) by blast
qed

subsection \<open>Properties\<close>

text \<open>Same state as if the oldest bytes had been read before the write.\<close>

lemma rb_force_keeps:
  assumes h: "rb_holds rb n" and k: "length src \<le> rb_cap rb" "rb_cap rb < n + length src"
    and s: "stored (rb_buffer rb) (unat (rb_write_index rb)) src buf'"
    and wrap: "rb_cap rb \<le> unat (rb_read_index rb) + n"
  shows "rb_contents (rb_both_moved buf' (unat (rb_write_index rb) + length src) rb) =
    drop (n + length src - rb_cap rb) (rb_contents rb) @ src"
proof -
  note H = rb_holdsD [OF h]
  let ?L = "rb_cap rb" and ?d = "n + length src - rb_cap rb" and ?w = "unat (rb_write_index rb) + length src"
  have wi: "unat (rb_write_index rb) = unat (rb_read_index rb) + n - ?L"
    using H(5) wrap wrap_once [OF H(4,3)] by simp
  have p: "unat (rb_read_index rb) + ?d = ?w" using wi wrap k(2) by simp
  let ?s = "rb\<lparr>rb_read_mirror := (rb_read_mirror rb \<noteq> (?L \<le> ?w)), rb_read_index := of_nat (?w mod ?L)\<rparr>"
  have d: "?d \<le> n" using k(1) by simp
  note rd = rb_read [OF h d, unfolded p]
  have fit: "n - ?d + length src \<le> rb_cap ?s" using k by simp
  have st: "stored (rb_buffer ?s) (unat (rb_write_index ?s)) src buf'" using s by simp
  show ?thesis using rb_written(2) [OF rd(1) fit st] rd(2) by simp
qed

lemma rb_force_loses:
  assumes h: "rb_holds rb n" and nowrap: "unat (rb_read_index rb) + n < rb_cap rb"
  shows "rb_contents (rb_both_moved buf' w rb) = []"
  using rb_holdsD(6) [OF h] nowrap
  by (simp add: rb_contents_def rt_ringbuffer_data_len_def rt_ringbuffer_status_def)

lemma newest_bytes:
  assumes "n \<le> L" "length c = n" "k \<le> length src"
  shows "drop (n + k - L) (c @ take k src) = drop (n + min k L - L) c @ take (min k L) (drop (k - L) src)"
proof (cases "k \<le> L")
  case False
  then have "n + k - L = n + (k - L)" by simp
  then show ?thesis using False assms(2) by (simp add: drop_take)
qed (use assms in simp)

lemma ringbuffer_put_force:
  assumes h: "rb_holds rb n" and len: "unat len \<le> length src"
  shows "\<exists>rb'. rt_ringbuffer_put_force src len rb = Some (of_nat (min (unat len) (rb_cap rb)), rb') \<and>
    rb_contents rb' =
      (if rb_cap rb < n + min (unat len) (rb_cap rb) \<and> unat (rb_read_index rb) + n < rb_cap rb then []
       else drop (n + unat len - rb_cap rb) (rb_contents rb @ take (unat len) src))"
proof -
  let ?k = "min (unat len) (rb_cap rb)" and ?skip = "unat len - rb_cap rb"
  let ?src = "take ?k (drop ?skip src)" and ?w = "unat (rb_write_index rb) + min (unat len) (rb_cap rb)"
  obtain buf' where s: "stored (rb_buffer rb) (unat (rb_write_index rb)) ?src buf'"
    and p: "rt_ringbuffer_put_force src len rb = Some (of_nat ?k,
      if rb_cap rb < n + ?k then rb_both_moved buf' ?w rb else rb_moved buf' ?w rb)"
    using rb_put_force_raw [OF h len] by blast
  have l: "length ?src = ?k" using len by auto
  note new = newest_bytes [OF rb_holdsD(3) [OF h] rb_length [OF h] len]
  show ?thesis
  proof (cases "rb_cap rb < n + ?k")
    case over: True
    then show ?thesis
      using p rb_force_loses [OF h, where buf' = buf' and w = ?w] rb_force_keeps [OF h _ _ s, unfolded l] new by simp
  next
    case False
    then have "n + length ?src \<le> rb_cap rb" using l by simp
    from rb_written(2) [OF h this s] show ?thesis using p False new unfolding l by simp
  qed
qed

text \<open>C39. For any sequence of single-byte puts and gets a ring buffer delivers the accepted bytes in
  first-in first-out order and keeps the rest, whatever wraps of index and mirror occur.\<close>

lemma ringbuffer_run_order:
  assumes "rb_inv rb" "fifo_run rb_put rb_get ops rb = (ac, de, rb')"
  shows "rb_inv rb' \<and> de @ rb_contents rb' = rb_contents rb @ ac"
proof -
  have "puts_valid (\<lambda>ch. True) ops"
  proof (induction ops)
    case (Cons op ops)
    then show ?case by (cases op) simp_all
  qed simp
  then show ?thesis using rb.run_order [OF assms(1) _ assms(2)] by simp
qed

text \<open>C40. A block of bytes put into an empty ring buffer with room for it is what the next get
  returns, and the buffer is empty again.\<close>

lemma ringbuffer_put_get:
  assumes "rb_inv rb" "rb_contents rb = []" "unat len \<le> length src" "unat len \<le> rb_cap rb" "len \<le> len'"
  shows "\<exists>rb1 rb2. rt_ringbuffer_put src len rb = Some (ucast len, rb1) \<and>
    rt_ringbuffer_get len' rb1 = Some (ucast len, take (unat len) src, rb2) \<and> rb_inv rb2 \<and> rb_contents rb2 = []"
proof -
  obtain n where h: "rb_holds rb n" using assms(1) by (auto simp: rb_inv_def)
  then have n: "n = 0" using rb_length [OF h] assms(2) by simp
  have e: "of_nat (unat len) = (ucast len :: u32)" by simp
  obtain rb1 where r1: "rt_ringbuffer_put src len rb = Some (ucast len, rb1)" "rb_holds rb1 (unat len)"
    "rb_contents rb1 = take (unat len) src"
    using rb_put_ok [OF h assms(3)] assms(2,4) n by (auto simp: min_absorb1)
  have m: "min (unat len') (unat len) = unat len" using assms(5) by (simp add: word_le_nat_alt)
  have l: "length (take (unat len) src) = unat len" using assms(3) by simp
  show ?thesis using rb_get_ok [OF r1(2), of len', unfolded m] r1 l by (auto simp: rb_inv_def)
qed

subsection \<open>A buffer of four bytes\<close>

definition demo_ring :: rt_ringbuffer where
  "demo_ring = \<lparr>rb_buffer = [0, 7, 8, 0], rb_read_mirror = False, rb_read_index = 1,
     rb_write_mirror = False, rb_write_index = 3, rb_buffer_size = 4\<rparr>"

lemma demo_ring: "rb_holds demo_ring 2" "rb_contents demo_ring = [7, 8]"
proof -
  show h: "rb_holds demo_ring 2" by (simp add: rb_holds_def demo_ring_def)
  show "rb_contents demo_ring = [7, 8]"
    unfolding rb_contents_eq [OF h] by (simp add: demo_ring_def ring_def numeral_2_eq_2)
qed

lemma ringbuffer_put_force_witness:
  "\<exists>rb'. rt_ringbuffer_put_force [1, 2, 3] 3 demo_ring = Some (3, rb') \<and> rb_contents rb' = []"
  using ringbuffer_put_force [OF demo_ring(1), of 3 "[1, 2, 3]"] by (simp add: demo_ring_def)

lemma ringbuffer_run_order_witness:
  "rb_contents (snd (snd (fifo_run rb_put rb_get [Put 1, Put 2, Put 3, Get] demo_ring))) = [8, 1, 2]"
proof -
  have i: "rb_inv demo_ring" using demo_ring(1) by (auto simp: rb_inv_def)
  obtain ac de rb' where e: "fifo_run rb_put rb_get [Put 1, Put 2, Put 3, Get] demo_ring = (ac, de, rb')"
    by (rule prod_cases3)
  have "ac = [1, 2] \<and> de = [7]"
    using e by (simp add: rb_put_def rb_get_def rt_ringbuffer_putchar_def rt_ringbuffer_getchar_def rb_store_def
        rt_ringbuffer_space_len_def rt_ringbuffer_data_len_def rt_ringbuffer_status_def demo_ring_def
        word_less_nat_alt)
  then show ?thesis using ringbuffer_run_order [OF i e] demo_ring(2) e by simp
qed

lemma ringbuffer_put_get_witness:
  "\<exists>rb1 rb2. rt_ringbuffer_put [1, 2, 3] 3 (rt_ringbuffer_reset demo_ring) = Some (3, rb1) \<and>
    rt_ringbuffer_get 8 rb1 = Some (3, [1, 2, 3], rb2)"
proof -
  let ?rb = "rt_ringbuffer_reset demo_ring"
  have h: "rb_holds ?rb 0" by (simp add: rb_holds_def demo_ring_def rt_ringbuffer_reset_def)
  have "rb_inv ?rb" "rb_contents ?rb = []" using h rb_length [OF h] by (auto simp: rb_inv_def)
  then show ?thesis
    using ringbuffer_put_get [of ?rb 3 "[1, 2, 3]" 8] by (auto simp: demo_ring_def rt_ringbuffer_reset_def)
qed

end
