(* ===== verification/RT_Printf.thy ===== *)
theory RT_Printf
  imports RT_Klib
begin

unbundle bit_operations_syntax

text \<open>
  The formatted output of \<^verbatim>\<open>rt-thread/src/kservice.c\<close>, as configured (\<open>RT_PRINTF_PRECISION\<close> on,
  \<open>RT_PRINTF_LONGLONG\<close> and \<open>RT_PRINTF_SPECIAL\<close> off).  The buffer lies in the byte memory of
  \<open>RT_Klib\<close>; the pointers \<open>str\<close> and \<open>end\<close> of the code are 32 bit words.  The format is the text in
  front of its NUL and is not part of that memory; the arguments are the words on the argument
  list.  \<open>None\<close> stands for a missing argument, for an overflow of a signed \<open>int\<close> and for a string
  argument without end.  Behind the operations stands \<open>format_text\<close>, the text a format asks for.
\<close>

type_synonym printer = "u32 \<times> bytes"

definition ZEROPAD :: u8 where "ZEROPAD = 1"
definition SIGN :: u8 where "SIGN = 2"
definition PLUS :: u8 where "PLUS = 4"
definition SPACE :: u8 where "SPACE = 8"
definition LEFT :: u8 where "LEFT = 16"
definition SPECIAL :: u8 where "SPECIAL = 32"
definition LARGE :: u8 where "LARGE = 64"

lemmas flag_defs = ZEROPAD_def SIGN_def PLUS_def SPACE_def LEFT_def SPECIAL_def LARGE_def

definition INT_MAX :: int where "INT_MAX = 2147483647"

subsection \<open>Numbers\<close>

definition divide :: "u32 \<Rightarrow> nat \<Rightarrow> nat \<times> u32" where
  "divide n base =
     (if base = 10 then (unat (n mod 10), n div 10) else (unat (n mod 16), n div 16))"

definition isdigit :: "char \<Rightarrow> bool" where
  "isdigit c \<longleftrightarrow> (word_of_int (int (of_char c) - 48) :: u32) < 10"

fun atoi_loop :: "string \<Rightarrow> int \<Rightarrow> (int \<times> string) option" where
  "atoi_loop [] i = Some (i, [])"
| "atoi_loop (c # s) i =
     (if isdigit c
      then if i * 10 + int (of_char c) \<le> INT_MAX then atoi_loop s (i * 10 + int (of_char c) - 48) else None
      else Some (i, c # s))"

definition skip_atoi :: "string \<Rightarrow> (int \<times> string) option" where
  "skip_atoi s = atoi_loop s 0"

text \<open>\<open>if (str < end) *str = c; ++str;\<close>, the only way the code writes to the buffer.\<close>

definition put_char :: "u32 \<Rightarrow> u8 \<Rightarrow> printer \<Rightarrow> printer" where
  "put_char e c st = (case st of (str, m) \<Rightarrow> (str + 1, if str < e then m(unat str := c) else m))"

text \<open>\<open>while (bound < n--)\<close> with one character, and \<open>while (--n > 0)\<close>.\<close>

function pad_while :: "u32 \<Rightarrow> char \<Rightarrow> int \<Rightarrow> int \<Rightarrow> printer \<Rightarrow> int \<times> printer" where
  "pad_while e c bound n st =
     (if bound < n then pad_while e c bound (n - 1) (put_char e (of_char c) st) else (n - 1, st))"
  by pat_completeness auto
termination by (relation "measure (\<lambda>(e, c, bound, n, st). nat (n - bound))") auto

function pad_before :: "u32 \<Rightarrow> int \<Rightarrow> printer \<Rightarrow> int \<times> printer" where
  "pad_before e n st =
     (if n - 1 > 0 then pad_before e (n - 1) (put_char e (of_char CHR '' '') st) else (n - 1, st))"
  by pat_completeness auto
termination by (relation "measure (\<lambda>(e, n, st). nat n)") auto

declare pad_while.simps [simp del] pad_before.simps [simp del]

definition small_digits :: string where "small_digits = ''0123456789abcdef''"
definition large_digits :: string where "large_digits = ''0123456789ABCDEF''"

function number_digits :: "string \<Rightarrow> nat \<Rightarrow> u32 \<Rightarrow> string \<Rightarrow> string" where
  "number_digits digits base num tmp =
     (if num = 0 then tmp
      else case divide num base of (d, num') \<Rightarrow> number_digits digits base num' (tmp @ [digits ! d]))"
  by pat_completeness auto
termination
proof (relation "measure (\<lambda>(digits, base, num, tmp). unat num)", goal_cases)
  case (2 digits base num tmp d num')
  then have "unat num \<noteq> 0" by (simp add: unat_eq_0)
  with 2 show ?case by (auto simp: divide_def unat_div split: if_splits)
qed simp

declare number_digits.simps [simp del]

fun put_back :: "u32 \<Rightarrow> string \<Rightarrow> nat \<Rightarrow> printer \<Rightarrow> printer" where
  "put_back e tmp 0 st = st"
| "put_back e tmp (Suc i) st = put_back e tmp i (put_char e (of_char (tmp ! i)) st)"

definition number_sign :: "u8 \<Rightarrow> u32 \<Rightarrow> char \<times> u32" where
  "number_sign type num =
     (if type AND SIGN \<noteq> 0
      then if num <s 0 then (CHR ''-'', - num)
           else if type AND PLUS \<noteq> 0 then (CHR ''+'', num)
           else if type AND SPACE \<noteq> 0 then (CHR '' '', num)
           else (NUL, num)
      else (NUL, num))"

definition print_number :: "u32 \<Rightarrow> u32 \<Rightarrow> nat \<Rightarrow> int \<Rightarrow> int \<Rightarrow> u8 \<Rightarrow> printer \<Rightarrow> printer" where
  "print_number e num base s precision type st =
     (let precision_bak = precision;
          digits = (if type AND LARGE \<noteq> 0 then large_digits else small_digits);
          type = (if type AND LEFT \<noteq> 0 then type AND NOT ZEROPAD else type);
          c = (if type AND ZEROPAD \<noteq> 0 then CHR ''0'' else CHR '' '');
          (sign, num) = number_sign type num;
          tmp = (if num = 0 then ''0'' else number_digits digits base num []);
          i = int (length tmp);
          precision = (if i > precision then i else precision);
          size = s - precision;
          (size, st) =
            (if type AND (ZEROPAD OR LEFT) = 0
             then pad_while e (CHR '' '') 0 (if sign \<noteq> NUL \<and> size > 0 then size - 1 else size) st
             else (size, st));
          (size, st) = (if sign \<noteq> NUL then (size - 1, put_char e (of_char sign) st) else (size, st));
          (size, st) = (if type AND LEFT = 0 then pad_while e c 0 size st else (size, st));
          st = snd (pad_while e (CHR ''0'') i precision st);
          st = (if precision_bak \<noteq> 0 then put_back e tmp (length tmp) st else st)
      in snd (pad_while e (CHR '' '') 0 size st))"

subsection \<open>One conversion\<close>

text \<open>The character a pointer into the format points to.\<close>

definition peek :: "string \<Rightarrow> char" where
  "peek fmt = (case fmt of [] \<Rightarrow> NUL | c # _ \<Rightarrow> c)"

fun fmt_flags :: "string \<Rightarrow> u8 \<Rightarrow> string \<times> u8" where
  "fmt_flags [] flags = ([], flags)"
| "fmt_flags (c # fmt) flags =
     (if c = CHR ''-'' then fmt_flags fmt (flags OR LEFT)
      else if c = CHR ''+'' then fmt_flags fmt (flags OR PLUS)
      else if c = CHR '' '' then fmt_flags fmt (flags OR SPACE)
      else if c = CHR ''#'' then fmt_flags fmt (flags OR SPECIAL)
      else if c = CHR ''0'' then fmt_flags fmt (flags OR ZEROPAD)
      else (c # fmt, flags))"

text \<open>The next argument, and an argument read as \<open>int\<close>.\<close>

definition va_arg :: "u32 list \<Rightarrow> (u32 \<times> u32 list) option" where
  "va_arg args = (case args of [] \<Rightarrow> None | a # as \<Rightarrow> Some (a, as))"

definition fmt_width ::
  "string \<Rightarrow> u8 \<Rightarrow> u32 list \<Rightarrow> (string \<times> u8 \<times> int \<times> u32 list) option" where
  "fmt_width fmt flags args =
     (if isdigit (peek fmt) then do {
        (w, fmt) \<leftarrow> skip_atoi fmt;
        Some (fmt, flags, w, args)
      }
      else if peek fmt = CHR ''*'' then do {
        (a, args) \<leftarrow> va_arg args;
        let w = sint a;
        if w < 0
        then if - w \<le> INT_MAX then Some (tl fmt, flags OR LEFT, - w, args) else None
        else Some (tl fmt, flags, w, args)
      }
      else Some (fmt, flags, - 1, args))"

definition fmt_precision :: "string \<Rightarrow> u32 list \<Rightarrow> (string \<times> int \<times> u32 list) option" where
  "fmt_precision fmt args =
     (if peek fmt = CHR ''.'' then do {
        let fmt = tl fmt;
        (p, fmt, args) \<leftarrow>
          (if isdigit (peek fmt) then do {
             (p, fmt) \<leftarrow> skip_atoi fmt;
             Some (p, fmt, args)
           }
           else if peek fmt = CHR ''*'' then do {
             (a, args) \<leftarrow> va_arg args;
             Some (sint a, tl fmt, args)
           }
           else Some (- 1, fmt, args));
        Some (fmt, if p < 0 then 0 else p, args)
      }
      else Some (fmt, - 1, args))"

definition fmt_qualifier :: "string \<Rightarrow> string \<times> char" where
  "fmt_qualifier fmt =
     (if peek fmt = CHR ''h'' \<or> peek fmt = CHR ''l'' then (tl fmt, peek fmt) else (fmt, NUL))"

record fmt_spec =
  sp_flags :: u8
  sp_width :: int
  sp_precision :: int
  sp_qualifier :: char

text \<open>What stands between a percent sign and the letter of the conversion.\<close>

definition read_spec :: "string \<Rightarrow> u32 list \<Rightarrow> (string \<times> fmt_spec \<times> u32 list) option" where
  "read_spec fmt args = do {
     let (fmt, flags) = fmt_flags fmt 0;
     (fmt, flags, width, args) \<leftarrow> fmt_width fmt flags args;
     (fmt, precision, args) \<leftarrow> fmt_precision fmt args;
     let (fmt, qualifier) = fmt_qualifier fmt;
     Some (fmt, \<lparr>sp_flags = flags, sp_width = width, sp_precision = precision, sp_qualifier = qualifier\<rparr>, args)
   }"

text \<open>The length of a string in memory; it has to end before the end of the address space.\<close>

function mem_strlen :: "bytes \<Rightarrow> u32 \<Rightarrow> nat option" where
  "mem_strlen m a =
     (if m (unat a) = 0 then Some 0 else if a = - 1 then None else map_option Suc (mem_strlen m (a + 1)))"
  by pat_completeness auto
termination
proof (relation "measure (\<lambda>(m, a). unat (- 1 - a))", goal_cases)
  case (2 m a)
  then have "- 1 - a \<noteq> 0" by auto
  moreover have "- 1 - (a + 1) = (- 1 - a) - 1" by simp
  ultimately show ?case
    using measure_unat [of "- 1 - a"] by simp
qed simp

declare mem_strlen.simps [simp del]

fun put_mem :: "u32 \<Rightarrow> nat \<Rightarrow> nat \<Rightarrow> printer \<Rightarrow> printer" where
  "put_mem e s 0 st = st"
| "put_mem e s (Suc n) st = put_mem e (s + 1) n (put_char e (snd st s) st)"

fun put_text :: "u32 \<Rightarrow> u8 list \<Rightarrow> printer \<Rightarrow> printer" where
  "put_text e [] st = st"
| "put_text e (c # cs) st = put_text e cs (put_char e c st)"

definition null_text :: "u8 list" where "null_text = map of_char ''(NULL)''"

definition put_string :: "u32 \<Rightarrow> fmt_spec \<Rightarrow> u32 \<Rightarrow> printer \<Rightarrow> printer option" where
  "put_string e sp s st = do {
     len \<leftarrow> (if s = 0 then Some (length null_text) else mem_strlen (snd st) s);
     let len = (if sp_precision sp > 0 \<and> int len > sp_precision sp then nat (sp_precision sp) else len);
     let (width, st) =
       (if sp_flags sp AND LEFT = 0 then pad_while e (CHR '' '') (int len) (sp_width sp) st
        else (sp_width sp, st));
     let st = (if s = 0 then put_text e (take len null_text) st else put_mem e (unat s) len st);
     Some (snd (pad_while e (CHR '' '') (int len) width st))
   }"

definition put_one :: "u32 \<Rightarrow> fmt_spec \<Rightarrow> u32 \<Rightarrow> printer \<Rightarrow> printer" where
  "put_one e sp a st =
     (let (width, st) = (if sp_flags sp AND LEFT = 0 then pad_before e (sp_width sp) st else (sp_width sp, st));
          st = put_char e (ucast a) st
      in snd (pad_before e width st))"

text \<open>The number an integer conversion prints; \<open>short\<close> arguments are cut to 16 bits.\<close>

definition fetch_number :: "char \<Rightarrow> u8 \<Rightarrow> u32 \<Rightarrow> u32" where
  "fetch_number qualifier flags a =
     (if qualifier = CHR ''h''
      then if flags AND SIGN \<noteq> 0 then scast (ucast a :: u16) else ucast (ucast a :: u16)
      else a)"

definition int_conversion :: "char \<Rightarrow> (nat \<times> u8) option" where
  "int_conversion c =
     (if c = CHR ''o'' then Some (8, 0)
      else if c = CHR ''X'' then Some (16, LARGE)
      else if c = CHR ''x'' then Some (16, 0)
      else if c = CHR ''d'' \<or> c = CHR ''i'' then Some (10, SIGN)
      else if c = CHR ''u'' then Some (10, 0)
      else None)"

definition print_conv ::
  "u32 \<Rightarrow> char \<Rightarrow> fmt_spec \<Rightarrow> u32 list \<Rightarrow> printer \<Rightarrow> (u32 list \<times> printer) option" where
  "print_conv e c sp args st =
     (if c = CHR ''c'' then do {
        (a, args) \<leftarrow> va_arg args;
        Some (args, put_one e sp a st)
      }
      else if c = CHR ''s'' then do {
        (a, args) \<leftarrow> va_arg args;
        st \<leftarrow> put_string e sp a st;
        Some (args, st)
      }
      else if c = CHR ''p'' then do {
        (a, args) \<leftarrow> va_arg args;
        let (width, flags) = (if sp_width sp = - 1 then (8, sp_flags sp OR ZEROPAD)
                              else (sp_width sp, sp_flags sp));
        Some (args, print_number e a 16 width (sp_precision sp) flags st)
      }
      else if c = CHR ''%'' then Some (args, put_char e (of_char (CHR ''%'')) st)
      else case int_conversion c of
        Some (base, fl) \<Rightarrow> do {
          (a, args) \<leftarrow> va_arg args;
          let flags = sp_flags sp OR fl;
          Some (args, print_number e (fetch_number (sp_qualifier sp) flags a) base
            (sp_width sp) (sp_precision sp) flags st)
        }
      | None \<Rightarrow>
          let st = put_char e (of_char (CHR ''%'')) st
          in Some (args, if c \<noteq> NUL then put_char e (of_char c) st else st))"

text \<open>Behind the letter of the conversion; the end of the format is not stepped over.\<close>

definition after_conv :: "string \<Rightarrow> string" where
  "after_conv fmt = (if peek fmt = NUL then fmt else tl fmt)"

lemma fmt_flags_length: "length (fst (fmt_flags fmt fl)) \<le> length fmt"
  by (induction fmt fl rule: fmt_flags.induct) (auto simp: le_Suc_eq)

lemma atoi_length: "atoi_loop s i = Some (j, t) \<Longrightarrow> length t \<le> length s"
  by (induction s i rule: atoi_loop.induct) (auto split: if_splits simp: le_Suc_eq)

lemma fmt_width_length: "fmt_width fmt fl args = Some (fmt', r) \<Longrightarrow> length fmt' \<le> length fmt"
  by (auto simp: fmt_width_def skip_atoi_def Let_def split: if_splits Option.bind_splits dest: atoi_length)

lemma fmt_precision_length: "fmt_precision fmt args = Some (fmt', r) \<Longrightarrow> length fmt' \<le> length fmt"
  by (force simp: fmt_precision_def skip_atoi_def Let_def split: if_splits Option.bind_splits dest: atoi_length)

lemma fmt_qualifier_length: "length (fst (fmt_qualifier fmt)) \<le> length fmt"
  by (simp add: fmt_qualifier_def)

lemma read_spec_length:
  assumes "read_spec fmt args = Some (fmt', r)"
  shows "length fmt' \<le> length fmt"
proof -
  obtain f1 fl where f1: "fmt_flags fmt 0 = (f1, fl)" by (cases "fmt_flags fmt 0")
  from assms f1 obtain f2 r2 where f2: "fmt_width f1 fl args = Some (f2, r2)"
    by (auto simp: read_spec_def split: Option.bind_splits)
  obtain flags width args' where r2: "r2 = (flags, width, args')" by (cases r2) auto
  from assms f1 f2 r2 obtain f3 r3 where f3: "fmt_precision f2 args' = Some (f3, r3)"
      and f4: "fmt' = fst (fmt_qualifier f3)"
    by (cases "fmt_precision f2 args'") (auto simp: read_spec_def Let_def split_beta)
  have "length fmt' \<le> length f3" using f4 fmt_qualifier_length by simp
  also have "\<dots> \<le> length f2" using f3 fmt_precision_length by blast
  also have "\<dots> \<le> length f1" by (rule fmt_width_length [OF f2])
  also have "\<dots> \<le> length fmt" using fmt_flags_length [of fmt 0] by (simp add: f1)
  finally show ?thesis .
qed

lemma after_conv_length: "length (after_conv fmt) \<le> length fmt"
  by (simp add: after_conv_def)

subsection \<open>\<open>rt_vsnprintf\<close>\<close>

function vsn_loop :: "u32 \<Rightarrow> string \<Rightarrow> u32 list \<Rightarrow> printer \<Rightarrow> printer option" where
  "vsn_loop e fmt args st =
     (if peek fmt = NUL then Some st
      else if peek fmt \<noteq> CHR ''%'' then vsn_loop e (tl fmt) args (put_char e (of_char (peek fmt)) st)
      else case read_spec (tl fmt) args of
        None \<Rightarrow> None
      | Some (fmt', sp, args') \<Rightarrow>
          (case print_conv e (peek fmt') sp args' st of
             None \<Rightarrow> None
           | Some (args'', st') \<Rightarrow> vsn_loop e (after_conv fmt') args'' st'))"
  by pat_completeness auto
termination
proof (relation "measure (\<lambda>(e, fmt, args, st). length fmt)", goal_cases)
  case (2 e fmt args st)
  then show ?case by (cases fmt) (auto simp: peek_def)
next
  case (3 e fmt args st r fmt' q sp args' z args'' st')
  then have "length fmt' \<le> length (tl fmt)" by (auto dest: read_spec_length)
  moreover have "fmt \<noteq> []" using 3 by (auto simp: peek_def)
  ultimately show ?case using after_conv_length [of fmt'] by (cases fmt) auto
qed simp

declare vsn_loop.simps [simp del]

definition rt_vsnprintf :: "u32 \<Rightarrow> u32 \<Rightarrow> string \<Rightarrow> u32 list \<Rightarrow> bytes \<Rightarrow> (int \<times> bytes) option" where
  "rt_vsnprintf buf count fmt args m = do {
     let e = buf + count;
     let (e, count) = (if e < buf then (0xffffffff, 0xffffffff - buf) else (e, count));
     (str, m) \<leftarrow> vsn_loop e fmt args (buf, m);
     let m = (if count > 0 then if str < e then m(unat str := 0) else m(unat (e - 1) := 0) else m);
     Some (sint (str - buf), m)
   }"

definition rt_snprintf :: "u32 \<Rightarrow> u32 \<Rightarrow> string \<Rightarrow> u32 list \<Rightarrow> bytes \<Rightarrow> (int \<times> bytes) option" where
  "rt_snprintf buf count fmt args m = rt_vsnprintf buf count fmt args m"

definition rt_vsprintf :: "u32 \<Rightarrow> string \<Rightarrow> u32 list \<Rightarrow> bytes \<Rightarrow> (int \<times> bytes) option" where
  "rt_vsprintf buf format arg_ptr m = rt_vsnprintf buf (- 1) format arg_ptr m"

definition rt_sprintf :: "u32 \<Rightarrow> string \<Rightarrow> u32 list \<Rightarrow> bytes \<Rightarrow> (int \<times> bytes) option" where
  "rt_sprintf buf format args m = rt_vsprintf buf format args m"

end
