(* ===== verification/RT_Format.thy ===== *)
theory RT_Format
  imports RT_Printf
begin

unbundle bit_operations_syntax

text \<open>
  What the formatted output of \<open>RT_Printf\<close> prints: \<open>format_text\<close> gives the text that the code makes of
  a format, without a buffer, from the layout of each conversion as one list of characters.
  \<open>vsn_loop_text\<close> shows that the loop of \<open>rt_vsnprintf\<close> produces this text, as far as it fits, and
  \<open>snprintf_text\<close> what is in the buffer afterwards.  \<open>RT_Directive\<close> compares it with the text that a
  format should give.
\<close>

subsection \<open>The text of a format\<close>

function radix_text :: "string \<Rightarrow> nat \<Rightarrow> nat \<Rightarrow> string" where
  "radix_text ds b n = (if b < 2 \<or> n < b then [ds ! n] else radix_text ds b (n div b) @ [ds ! (n mod b)])"
  by pat_completeness auto
termination by (relation "measure (\<lambda>(ds, b, n). n)") auto

declare radix_text.simps [simp del]

definition radix_of :: "nat \<Rightarrow> nat" where
  "radix_of base = (if base = 10 then 10 else 16)"

definition sign_text :: "u8 \<Rightarrow> u32 \<Rightarrow> string" where
  "sign_text flags num = (case number_sign flags num of (c, n) \<Rightarrow> if c = NUL then [] else [c])"

definition number_text :: "u32 \<Rightarrow> nat \<Rightarrow> int \<Rightarrow> int \<Rightarrow> u8 \<Rightarrow> string" where
  "number_text num base width prec flags =
     (let ds = radix_text (if flags AND LARGE \<noteq> 0 then large_digits else small_digits) (radix_of base)
                 (unat (snd (number_sign flags num)));
          sgn = sign_text flags num;
          body = replicate (nat (prec - int (length ds))) (CHR ''0'') @ (if prec = 0 then [] else ds);
          gap = nat (width - max (int (length ds)) prec - int (length sgn))
      in if flags AND LEFT \<noteq> 0 then sgn @ body @ replicate gap (CHR '' '')
         else if flags AND ZEROPAD \<noteq> 0 then sgn @ replicate gap (CHR ''0'') @ body
         else replicate gap (CHR '' '') @ sgn @ body)"

definition justify :: "u8 \<Rightarrow> int \<Rightarrow> u8 list \<Rightarrow> u8 list" where
  "justify flags width cs =
     (let gap = replicate (nat (width - int (length cs))) (of_char (CHR '' ''))
      in if flags AND LEFT \<noteq> 0 then cs @ gap else gap @ cs)"

definition mem_text :: "bytes \<Rightarrow> u32 \<Rightarrow> u8 list option" where
  "mem_text m s =
     (if s = 0 then Some null_text
      else map_option (\<lambda>n. map (\<lambda>i. m (unat s + i)) [0..<n]) (mem_strlen m s))"

definition string_text :: "fmt_spec \<Rightarrow> u8 list \<Rightarrow> u8 list" where
  "string_text sp cs =
     justify (sp_flags sp) (sp_width sp) (if sp_precision sp > 0 then take (nat (sp_precision sp)) cs else cs)"

definition conv_text ::
  "(u32 \<Rightarrow> u8 list option) \<Rightarrow> char \<Rightarrow> fmt_spec \<Rightarrow> u32 list \<Rightarrow> (u32 list \<times> u8 list) option" where
  "conv_text strs c sp args =
     (if c = CHR ''c'' then do {
        (a, args) \<leftarrow> va_arg args;
        Some (args, justify (sp_flags sp) (sp_width sp) [ucast a])
      }
      else if c = CHR ''s'' then do {
        (a, args) \<leftarrow> va_arg args;
        cs \<leftarrow> strs a;
        Some (args, string_text sp cs)
      }
      else if c = CHR ''p'' then do {
        (a, args) \<leftarrow> va_arg args;
        Some (args, map of_char
          (if sp_width sp = - 1 then number_text a 16 8 (sp_precision sp) (sp_flags sp OR ZEROPAD)
           else number_text a 16 (sp_width sp) (sp_precision sp) (sp_flags sp)))
      }
      else if c = CHR ''%'' then Some (args, [of_char (CHR ''%'')])
      else case int_conversion c of
        Some (base, fl) \<Rightarrow> do {
          (a, args) \<leftarrow> va_arg args;
          let flags = sp_flags sp OR fl;
          Some (args, map of_char
            (number_text (fetch_number (sp_qualifier sp) flags a) base (sp_width sp) (sp_precision sp) flags))
        }
      | None \<Rightarrow> Some (args, map of_char (if c \<noteq> NUL then [CHR ''%'', c] else ''%'')))"

function format_text :: "(u32 \<Rightarrow> u8 list option) \<Rightarrow> string \<Rightarrow> u32 list \<Rightarrow> u8 list option" where
  "format_text strs fmt args =
     (if peek fmt = NUL then Some []
      else if peek fmt \<noteq> CHR ''%''
      then map_option (\<lambda>t. of_char (peek fmt) # t) (format_text strs (tl fmt) args)
      else case read_spec (tl fmt) args of
        None \<Rightarrow> None
      | Some (fmt', sp, args') \<Rightarrow>
          (case conv_text strs (peek fmt') sp args' of
             None \<Rightarrow> None
           | Some (args'', cs) \<Rightarrow> map_option (\<lambda>t. cs @ t) (format_text strs (after_conv fmt') args'')))"
  by pat_completeness auto

lemma after_spec_shorter:
  assumes "peek fmt \<noteq> NUL" "read_spec (tl fmt) args = Some (fmt', r)"
  shows "length (after_conv fmt') < length fmt"
proof -
  have "length fmt' \<le> length (tl fmt)" by (rule read_spec_length [OF assms(2)])
  moreover have "fmt \<noteq> []" using assms(1) by (auto simp: peek_def)
  ultimately show ?thesis using after_conv_length [of fmt'] by (cases fmt) auto
qed

termination format_text
proof (relation "measure (\<lambda>(strs, fmt, args). length fmt)", goal_cases)
  case (2 strs fmt args)
  then show ?case by (cases fmt) (auto simp: peek_def)
next
  case (3 strs fmt args r fmt' q sp args' z args'' cs)
  then show ?case using after_spec_shorter [of fmt args fmt'] by auto
qed simp

declare format_text.simps [simp del]

text \<open>The pointers that a format prints as strings.\<close>

function string_args :: "string \<Rightarrow> u32 list \<Rightarrow> u32 list" where
  "string_args fmt args =
     (if peek fmt = NUL then []
      else if peek fmt \<noteq> CHR ''%'' then string_args (tl fmt) args
      else case read_spec (tl fmt) args of
        None \<Rightarrow> []
      | Some (fmt', sp, args') \<Rightarrow>
          (if peek fmt' = CHR ''s'' then take 1 args' else []) @
          string_args (after_conv fmt') (if peek fmt' = CHR ''%'' \<or> peek fmt' \<notin> set ''cspoXxdiu'' then args' else tl args'))"
  by pat_completeness auto
termination
proof (relation "measure (\<lambda>(fmt, args). length fmt)", goal_cases)
  case (2 fmt args)
  then show ?case by (cases fmt) (auto simp: peek_def)
next
  case (3 fmt args r fmt' q sp args')
  then show ?case using after_spec_shorter [of fmt args fmt'] by auto
qed simp

declare string_args.simps [simp del]

subsection \<open>Text in the buffer\<close>

definition store_text :: "nat \<Rightarrow> u8 list \<Rightarrow> bytes \<Rightarrow> bytes" where
  "store_text a cs m = (\<lambda>x. if a \<le> x \<and> x < a + length cs then cs ! (x - a) else m x)"

lemma put_text_append: "put_text e (xs @ ys) st = put_text e ys (put_text e xs st)"
  by (induction xs arbitrary: st) auto

lemma put_text_single: "put_char e c st = put_text e [c] st"
  by simp

lemma store_text_Cons: "store_text (Suc a) cs (m(a := c)) = store_text a (c # cs) m"
proof
  fix x
  show "store_text (Suc a) cs (m(a := c)) x = store_text a (c # cs) m x"
  proof (cases "x \<le> a")
    case True
    then show ?thesis by (auto simp: store_text_def)
  next
    case False
    then obtain k where "x = Suc (a + k)" by (metis less_imp_Suc_add not_le)
    then show ?thesis by (simp add: store_text_def)
  qed
qed

lemma put_text_store:
  assumes "unat str + length cs < 2 ^ 32"
  shows "put_text e cs (str, m) =
    (str + of_nat (length cs), store_text (unat str) (take (unat e - unat str) cs) m)"
  using assms
proof (induction cs arbitrary: str m)
  case Nil
  then show ?case by (auto simp: store_text_def fun_eq_iff)
next
  case (Cons c cs)
  have u: "unat (str + 1) = unat str + 1" using Cons.prems by (subst unat_add_lem [THEN iffD1]) auto
  let ?m = "if str < e then m(unat str := c) else m"
  have "put_text e (c # cs) (str, m) = put_text e cs (str + 1, ?m)" by (simp add: put_char_def)
  also have "\<dots> = (str + 1 + of_nat (length cs), store_text (unat (str + 1)) (take (unat e - unat (str + 1)) cs) ?m)"
    by (rule Cons.IH) (use Cons.prems u in simp)
  also have "store_text (unat (str + 1)) (take (unat e - unat (str + 1)) cs) ?m =
      store_text (unat str) (take (unat e - unat str) (c # cs)) m"
  proof (cases "str < e")
    case True
    then have "unat e - unat str = Suc (unat e - unat (str + 1))" by (simp add: u word_less_nat_alt)
    then show ?thesis using True by (simp add: u store_text_Cons)
  next
    case False
    then show ?thesis by (auto simp: store_text_def u word_less_nat_alt fun_eq_iff)
  qed
  finally show ?case by (simp add: add_ac)
qed

lemma pad_while_text:
  "pad_while e c bound n st =
     (min n bound - 1, put_text e (replicate (nat (n - bound)) (of_char c)) st)"
proof (induction "nat (n - bound)" arbitrary: n st)
  case 0
  then show ?case by (subst pad_while.simps) auto
next
  case (Suc k)
  then have "bound < n" "nat (n - 1 - bound) = k" "nat (n - bound) = Suc k" by auto
  moreover have "min (n - 1) bound = min n bound" using \<open>bound < n\<close> by auto
  ultimately show ?case using Suc.hyps(1) [of "n - 1" "put_char e (of_char c) st"]
    by (subst pad_while.simps) simp
qed

lemma pad_before_text:
  "pad_before e n st =
     (min n 1 - 1, put_text e (replicate (nat (n - 1)) (of_char (CHR '' ''))) st)"
proof (induction "nat (n - 1)" arbitrary: n st)
  case 0
  then show ?case by (subst pad_before.simps) auto
next
  case (Suc k)
  then have "1 < n" "nat (n - 1 - 1) = k" "nat (n - 1) = Suc k" by auto
  moreover have "min (n - 1) 1 = min n 1" using \<open>1 < n\<close> by auto
  ultimately show ?case using Suc.hyps(1) [of "n - 1" "put_char e (of_char (CHR '' '')) st"]
    by (subst pad_before.simps) simp
qed

lemma put_back_text:
  "i \<le> length tmp \<Longrightarrow> put_back e tmp i st = put_text e (map of_char (rev (take i tmp))) st"
proof (induction i arbitrary: st)
  case (Suc i)
  then show ?case by (simp add: take_Suc_conv_app_nth put_text_append)
qed simp

subsection \<open>Numbers\<close>

lemma number_digits_text:
  "num \<noteq> 0 \<Longrightarrow> number_digits ds base num tmp = tmp @ rev (radix_text ds (radix_of base) (unat num))"
proof (induction ds base num tmp rule: number_digits.induct)
  case (1 ds base num tmp)
  let ?b = "radix_of base"
  have d: "divide num base = (unat num mod ?b, num div of_nat ?b)"
    by (simp add: divide_def radix_of_def unat_mod)
  have u: "unat (num div of_nat ?b) = unat num div ?b"
    by (simp add: radix_of_def unat_div)
  have b: "\<not> ?b < 2" by (simp add: radix_of_def)
  show ?case
  proof (cases "unat num < ?b")
    case True
    then have "num div of_nat ?b = 0" using u by (simp add: unat_eq_0 [symmetric])
    then show ?thesis using 1(2) True d b
      by (subst number_digits.simps) (simp add: number_digits.simps [of _ _ 0] radix_text.simps [of ds ?b "unat num"])
  next
    case False
    then have "unat num div ?b \<noteq> 0" using b by (simp add: div_eq_0_iff)
    then have n: "num div of_nat ?b \<noteq> 0" using u by (metis unat_0)
    from False b have r: "radix_text ds ?b (unat num) = radix_text ds ?b (unat num div ?b) @ [ds ! (unat num mod ?b)]"
      by (subst radix_text.simps) simp
    show ?thesis
      using 1(1) [OF 1(2) d [symmetric] n] 1(2) d r u by (subst number_digits.simps) simp
  qed
qed

lemma radix_zero: "radix_text ds b 0 = [ds ! 0]"
  by (subst radix_text.simps) auto

lemma number_tmp:
  "ds ! 0 = CHR ''0'' \<Longrightarrow> (if num = 0 then ''0'' else number_digits ds base num []) =
     rev (radix_text ds (radix_of base) (unat num))"
  by (simp add: number_digits_text radix_zero)

lemma flag_tests:
  fixes f :: u8
  shows "(f AND NOT ZEROPAD) AND LEFT = f AND LEFT" "(f AND NOT ZEROPAD) AND SIGN = f AND SIGN"
    "(f AND NOT ZEROPAD) AND PLUS = f AND PLUS" "(f AND NOT ZEROPAD) AND SPACE = f AND SPACE"
    "(f AND NOT ZEROPAD) AND ZEROPAD = 0"
    "f AND (ZEROPAD OR LEFT) = 0 \<longleftrightarrow> f AND ZEROPAD = 0 \<and> f AND LEFT = 0"
proof -
  show "(f AND NOT ZEROPAD) AND LEFT = f AND LEFT" "(f AND NOT ZEROPAD) AND SIGN = f AND SIGN"
    "(f AND NOT ZEROPAD) AND PLUS = f AND PLUS" "(f AND NOT ZEROPAD) AND SPACE = f AND SPACE"
    by (simp_all add: flag_defs and.assoc)
  show "(f AND NOT ZEROPAD) AND ZEROPAD = 0" by (simp add: and.assoc)
  show "f AND (ZEROPAD OR LEFT) = 0 \<longleftrightarrow> f AND ZEROPAD = 0 \<and> f AND LEFT = 0"
    by (simp add: bit.conj_disj_distrib or_eq_0_iff)
qed

lemma number_sign_mask: "number_sign (f AND NOT ZEROPAD) num = number_sign f num"
  by (simp add: number_sign_def flag_tests)

lemma large_mask: "(f AND NOT ZEROPAD) AND LARGE = f AND LARGE"
  by (simp add: flag_defs and.assoc)

lemma print_number_text:
  "print_number e num base s prec flags st = put_text e (map of_char (number_text num base s prec flags)) st"
proof -
  obtain sgn n where sn: "number_sign flags num = (sgn, n)" by (cases "number_sign flags num")
  obtain digits where digits: "digits = (if flags AND LARGE \<noteq> 0 then large_digits else small_digits)"
    by simp
  then have "digits ! 0 = CHR ''0''" by (simp add: large_digits_def small_digits_def)
  note tmp = number_tmp [OF this, of n base]
  obtain ds where ds: "ds = radix_text digits (radix_of base) (unat n)" by simp
  have put: "put_back e (rev ds) (length ds) st' = put_text e (map of_char ds) st'" for st'
    by (subst put_back_text) simp_all
  have mx: "(if int (length ds) > prec then int (length ds) else prec) = max (int (length ds)) prec" by simp
  have zs: "nat (max (int (length ds)) prec - int (length ds)) = nat (prec - int (length ds))" by simp
  note rules = print_number_def number_text_def sn number_sign_mask flag_tests large_mask digits [symmetric]
    tmp ds [symmetric] mx zs put pad_while_text
  show ?thesis
  proof (cases "flags AND LEFT = 0")
    case False
    show ?thesis
      unfolding rules Let_def
      using False
      by (cases "prec = 0"; cases "sgn = NUL")
        (simp_all add: rules Let_def put_text_append [symmetric] put_text_single sign_text_def
          del: put_text.simps)
  next
    case True
    then show ?thesis
      unfolding rules Let_def
      by (cases "prec = 0"; cases "sgn = NUL"; cases "flags AND ZEROPAD = 0")
        (simp_all add: rules Let_def put_text_append [symmetric] put_text_single sign_text_def
          del: put_text.simps)
  qed
qed

subsection \<open>One conversion against the layout\<close>

text \<open>A memory that agrees with the first one outside of the part the output may change.\<close>

definition same_off :: "nat set \<Rightarrow> bytes \<Rightarrow> bytes \<Rightarrow> bool" where
  "same_off W m m' \<longleftrightarrow> (\<forall>a. a \<notin> W \<longrightarrow> m' a = m a)"

text \<open>The string at \<open>s\<close>, with its NUL, lies outside of that part.\<close>

definition string_apart :: "nat set \<Rightarrow> bytes \<Rightarrow> u32 \<Rightarrow> bool" where
  "string_apart W m s \<longleftrightarrow> s = 0 \<or> (\<forall>n. mem_strlen m s = Some n \<longrightarrow> (\<forall>i\<le>n. unat s + i \<notin> W))"

definition buffer_range :: "u32 \<Rightarrow> u32 \<Rightarrow> nat set" where
  "buffer_range buf e = {unat buf..<unat e}"

lemma put_text_range:
  assumes "unat str + length cs < 2 ^ 32" "unat buf \<le> unat str" "put_text e cs (str, m) = (str', m')"
  shows "same_off (buffer_range buf e) m m'" "unat str' = unat str + length cs"
proof -
  show "same_off (buffer_range buf e) m m'"
    using assms(2) assms(3) by (auto simp: put_text_store [OF assms(1)] same_off_def buffer_range_def store_text_def)
  have "str' = str + of_nat (length cs)" using assms(3) by (simp add: put_text_store [OF assms(1)])
  moreover have "unat (of_nat (length cs) :: u32) = length cs"
    by (use assms(1) in \<open>simp add: unat_of_nat\<close>)
  ultimately show "unat str' = unat str + length cs"
    using assms(1) by (simp add: unat_add_lem [THEN iffD1])
qed

lemma same_off_trans: "same_off W m m' \<Longrightarrow> same_off W m' m'' \<Longrightarrow> same_off W m m''"
  by (simp add: same_off_def)

lemma strlen_same:
  "mem_strlen m s = Some n \<Longrightarrow> \<forall>i\<le>n. unat s + i \<notin> W \<Longrightarrow> same_off W m m' \<Longrightarrow> mem_strlen m' s = Some n"
proof (induction m s arbitrary: n rule: mem_strlen.induct)
  case (1 m a)
  have a: "m' (unat a) = m (unat a)" using 1(3,4) by (auto simp: same_off_def)
  show ?case
  proof (cases "m (unat a) = 0")
    case True
    then show ?thesis using 1(2) a by (simp add: mem_strlen.simps [of _ a])
  next
    case False
    with 1(2) obtain k where k: "a \<noteq> - 1" "mem_strlen m (a + 1) = Some k" "n = Suc k"
      by (auto simp: mem_strlen.simps [of _ a] split: if_splits)
    have u: "unat (a + 1) = unat a + 1"
      using k(1) by (simp add: eq_neg_iff_add_eq_0 unatSuc add.commute)
    have "\<forall>i\<le>k. unat (a + 1) + i \<notin> W"
      using 1(3) k(3) by (auto simp: u dest: spec [of _ "Suc _"])
    then have "mem_strlen m' (a + 1) = Some k" using 1(1) [OF False k(1) k(2) _ 1(4)] by blast
    then show ?thesis using False a k by (simp add: mem_strlen.simps [of _ a])
  qed
qed

lemma put_mem_text:
  assumes "\<forall>i<n. s + i \<notin> W" "same_off W m0 m" "W = buffer_range buf e"
    "unat str + n < 2 ^ 32" "unat buf \<le> unat str"
  shows "put_mem e s n (str, m) = put_text e (map (\<lambda>i. m0 (s + i)) [0..<n]) (str, m)"
  using assms
proof (induction n arbitrary: s str m)
  case (Suc n)
  have h: "m s = m0 s" using Suc.prems(1,2) by (auto simp: same_off_def)
  obtain str' m' where st: "put_char e (m0 s) (str, m) = (str', m')" by fastforce
  then have t: "put_text e [m0 s] (str, m) = (str', m')" by simp
  have w: "same_off W m m'" "unat str' = unat str + 1"
    using put_text_range [OF _ Suc.prems(5) t] Suc.prems(3,4) by simp_all
  have "put_mem e (s + 1) n (str', m') = put_text e (map (\<lambda>i. m0 (s + 1 + i)) [0..<n]) (str', m')"
  proof (rule Suc.IH)
    show "\<forall>i<n. s + 1 + i \<notin> W" using Suc.prems(1) by (auto dest: spec [of _ "Suc _"])
    show "same_off W m0 m'" using Suc.prems(2) w(1) by (rule same_off_trans)
  qed (use Suc.prems w in simp_all)
  moreover have "map (\<lambda>i. m0 (s + i)) [0..<Suc n] = m0 s # map (\<lambda>i. m0 (s + 1 + i)) [0..<n]"
    by (simp add: upt_conv_Cons map_Suc_upt [symmetric] del: upt_Suc)
  ultimately show ?case using h st by simp
qed simp

lemma put_one_text:
  "put_one e sp a st = put_text e (justify (sp_flags sp) (sp_width sp) [ucast a]) st"
  by (simp add: put_one_def justify_def Let_def pad_before_text put_text_append [symmetric] put_text_single
      del: put_text.simps)

lemma put_string_text:
  assumes "mem_text m0 a = Some cs" "string_apart (buffer_range buf e) m0 a" "same_off (buffer_range buf e) m0 m"
    "unat buf \<le> unat str" "unat str + length (string_text sp cs) < 2 ^ 32"
  shows "put_string e sp a (str, m) = Some (put_text e (string_text sp cs) (str, m))"
proof -
  obtain t where tdef: "t = (if sp_precision sp > 0 then take (nat (sp_precision sp)) cs else cs)" by simp
  let ?len = "length t"
  let ?pad = "if sp_flags sp AND LEFT = 0 then replicate (nat (sp_width sp - int ?len)) (of_char (CHR '' '') :: u8) else []"
  have len: "(if a = 0 then Some (length null_text) else mem_strlen m a) = Some (length cs)"
  proof (cases "a = 0")
    case False
    with assms(1) obtain n where n: "mem_strlen m0 a = Some n" "length cs = n" by (auto simp: mem_text_def)
    with assms(2) False have "\<forall>i\<le>n. unat a + i \<notin> buffer_range buf e" by (simp add: string_apart_def)
    with n strlen_same [OF n(1) _ assms(3)] False show ?thesis by simp
  qed (use assms(1) in \<open>simp add: mem_text_def\<close>)
  have cut: "(if sp_precision sp > 0 \<and> int (length cs) > sp_precision sp then nat (sp_precision sp) else length cs) = ?len"
    by (auto simp: tdef)
  have st: "string_text sp cs = justify (sp_flags sp) (sp_width sp) t" by (simp add: string_text_def tdef)
  have body: "(if a = 0 then put_text e (take ?len null_text) st' else put_mem e (unat a) ?len st') =
      put_text e t st'" if st': "st' = put_text e ?pad (str, m)" for st'
  proof (cases "a = 0")
    case True
    then show ?thesis using assms(1) by (auto simp: mem_text_def min_def tdef)
  next
    case False
    with assms(1) obtain n where n: "mem_strlen m0 a = Some n" "cs = map (\<lambda>i. m0 (unat a + i)) [0..<n]"
      by (auto simp: mem_text_def)
    with assms(2) False have ap: "\<forall>i<?len. unat a + i \<notin> buffer_range buf e" by (auto simp: string_apart_def tdef)
    have t: "t = map (\<lambda>i. m0 (unat a + i)) [0..<?len]"
      using n(2) by (auto simp: take_map min_def tdef)
    obtain str' m' where sm: "put_text e ?pad (str, m) = (str', m')" by fastforce
    have fits: "unat str + length ?pad + ?len < 2 ^ 32"
      using assms(5) by (auto simp: st justify_def Let_def split: if_splits)
    have w: "same_off (buffer_range buf e) m m'" "unat str' = unat str + length ?pad"
      using put_text_range [OF _ assms(4) sm] fits by auto
    have "put_mem e (unat a) ?len (str', m') = put_text e (map (\<lambda>i. m0 (unat a + i)) [0..<?len]) (str', m')"
      by (rule put_mem_text [OF ap same_off_trans [OF assms(3) w(1)] refl]) (use w fits assms(4) in simp_all)
    then show ?thesis using False t sm st' by simp
  qed
  show ?thesis
    unfolding put_string_def snd_conv len Option.bind.bind_lunit Let_def cut pad_while_text st justify_def
    using body [OF refl]
    by (cases "a = 0"; cases "sp_flags sp AND LEFT = 0") (simp_all add: put_text_append pad_while_text)
qed

lemma print_conv_text:
  assumes "conv_text (mem_text m0) c sp args = Some (args', cs)"
    "c = CHR ''s'' \<Longrightarrow> args \<noteq> [] \<Longrightarrow> string_apart (buffer_range buf e) m0 (hd args)"
    "same_off (buffer_range buf e) m0 m" "unat buf \<le> unat str" "unat str + length cs < 2 ^ 32"
  shows "print_conv e c sp args (str, m) = Some (args', put_text e cs (str, m))"
proof (cases "c = CHR ''s''")
  case True
  with assms(1) obtain a t where a: "args = a # args'" "mem_text m0 a = Some t" "cs = string_text sp t"
    by (auto simp: conv_text_def va_arg_def split: list.splits Option.bind_splits)
  with assms(2) True have "string_apart (buffer_range buf e) m0 a" by simp
  with put_string_text [OF a(2) this assms(3,4)] assms(5) a True show ?thesis
    by (simp add: print_conv_def va_arg_def)
next
  case False
  consider (one) "c = CHR ''c''" | (pointer) "c = CHR ''p''" | (percent) "c = CHR ''%''"
    | (number) base fl where "c \<notin> set ''cp%''" "int_conversion c = Some (base, fl)"
    | (other) "c \<notin> set ''cp%''" "int_conversion c = None"
    by (cases "int_conversion c") auto
  then show ?thesis
  proof cases
    case one
    with assms(1) show ?thesis
      by (cases args) (simp_all add: print_conv_def conv_text_def put_one_text va_arg_def)
  next
    case pointer
    with assms(1) show ?thesis
      by (cases args) (auto simp: print_conv_def conv_text_def print_number_text va_arg_def)
  next
    case percent
    with assms(1) show ?thesis by (auto simp: print_conv_def conv_text_def)
  next
    case number
    with assms(1) False show ?thesis
      by (cases args) (simp_all add: print_conv_def conv_text_def print_number_text va_arg_def Let_def)
  next
    case other
    with assms(1) False show ?thesis
      by (auto simp: print_conv_def conv_text_def)
  qed
qed

subsection \<open>The whole format\<close>

text \<open>Both sides step over the same arguments.\<close>

lemma conv_text_args:
  assumes "conv_text strs c sp args = Some (args', cs)"
  shows "args' = (if c = CHR ''%'' \<or> c \<notin> set ''cspoXxdiu'' then args else tl args)"
    "c = CHR ''s'' \<Longrightarrow> args \<noteq> []"
  using assms
  by (auto simp: conv_text_def va_arg_def int_conversion_def Let_def
      split: list.splits Option.bind_splits if_splits)

theorem vsn_loop_text:
  assumes "format_text (mem_text m0) fmt args = Some t"
    "\<forall>s \<in> set (string_args fmt args). string_apart (buffer_range buf e) m0 s"
    "same_off (buffer_range buf e) m0 m" "unat buf \<le> unat str" "unat str + length t < 2 ^ 32"
  shows "vsn_loop e fmt args (str, m) = Some (put_text e t (str, m))"
  using assms
proof (induction "mem_text m0" fmt args arbitrary: t str m rule: format_text.induct)
  case (1 fmt args)
  note p = "1.prems"
  consider (stop) "peek fmt = NUL" | (plain) "peek fmt \<noteq> NUL" "peek fmt \<noteq> CHR ''%''"
    | (conv) "peek fmt = CHR ''%''" by blast
  then show ?case
  proof cases
    case stop
    with p(1) show ?thesis by (simp add: vsn_loop.simps [of e fmt] format_text.simps [of _ fmt])
  next
    case plain
    with p(1) obtain t' where t: "format_text (mem_text m0) (tl fmt) args = Some t'" "t = of_char (peek fmt) # t'"
      by (auto simp: format_text.simps [of _ fmt])
    obtain str' m' where st: "put_char e (of_char (peek fmt)) (str, m) = (str', m')" by fastforce
    then have "put_text e [of_char (peek fmt)] (str, m) = (str', m')" by simp
    with put_text_range [OF _ p(4) this] p(5) t(2)
    have w: "same_off (buffer_range buf e) m m'" "unat str' = unat str + 1" by simp_all
    have "vsn_loop e (tl fmt) args (str', m') = Some (put_text e t' (str', m'))"
    proof (rule "1.hyps"(1) [OF plain(1)])
      show "same_off (buffer_range buf e) m0 m'" using p(3) w(1) by (rule same_off_trans)
    qed (use plain p t w in \<open>simp_all add: string_args.simps [of fmt]\<close>)
    with plain st t(2) show ?thesis by (simp add: vsn_loop.simps [of e fmt])
  next
    case conv
    then have n: "peek fmt \<noteq> NUL" by simp
    from p(1) conv obtain fmt' sp args' args'' cs t' where r: "read_spec (tl fmt) args = Some (fmt', sp, args')"
        and c: "conv_text (mem_text m0) (peek fmt') sp args' = Some (args'', cs)"
        and f: "format_text (mem_text m0) (after_conv fmt') args'' = Some t'" and t: "t = cs @ t'"
      by (subst (asm) format_text.simps) (auto split: option.splits)
    have s: "string_args fmt args = (if peek fmt' = CHR ''s'' then take 1 args' else []) @ string_args (after_conv fmt') args''"
      using conv r conv_text_args(1) [OF c] by (subst string_args.simps) simp
    have pc: "print_conv e (peek fmt') sp args' (str, m) = Some (args'', put_text e cs (str, m))"
    proof (rule print_conv_text [OF c _ p(3,4)])
      show "string_apart (buffer_range buf e) m0 (hd args')" if "peek fmt' = CHR ''s''" "args' \<noteq> []"
        using p(2) that by (cases args') (simp_all add: s)
    qed (use p(5) t in simp)
    obtain str' m' where st: "put_text e cs (str, m) = (str', m')" by fastforce
    with put_text_range [OF _ p(4) st] p(5) t
    have w: "same_off (buffer_range buf e) m m'" "unat str' = unat str + length cs" by simp_all
    have "vsn_loop e (after_conv fmt') args'' (str', m') = Some (put_text e t' (str', m'))"
    proof (rule "1.hyps"(2) [OF n _ r refl refl c refl f])
      show "same_off (buffer_range buf e) m0 m'" using p(3) w(1) by (rule same_off_trans)
    qed (use conv p t w s in simp_all)
    with conv r pc st t show ?thesis by (simp add: vsn_loop.simps [of e fmt] put_text_append)
  qed
qed

text \<open>What stands in the buffer afterwards: as much of the text as fits, and a NUL.\<close>

definition printed :: "u32 \<Rightarrow> nat \<Rightarrow> u8 list \<Rightarrow> bytes \<Rightarrow> bytes" where
  "printed buf count t m = (if count = 0 then m else store_text (unat buf) (take (count - 1) t @ [0]) m)"

lemma store_text_store: "store_text (a + length xs) ys (store_text a xs m) = store_text a (xs @ ys) m"
  by (auto simp: store_text_def fun_eq_iff nth_append)

lemma store_text_one: "store_text a [c] m = m(a := c)"
  by (auto simp: store_text_def fun_eq_iff)

lemma store_text_replace: "length xs = length ys \<Longrightarrow> store_text a (xs @ zs) (store_text a ys m) = store_text a (xs @ zs) m"
  by (auto simp: store_text_def fun_eq_iff)

lemma rt_vsnprintf_text:
  assumes "unat buf + unat count < 2 ^ 32" "unat buf + length t < 2 ^ 32" "length t < 2 ^ 31"
    and f: "format_text (mem_text m) fmt args = Some t"
    and ap: "\<forall>s \<in> set (string_args fmt args). string_apart {unat buf..<unat buf + unat count} m s"
  shows "rt_vsnprintf buf count fmt args m = Some (int (length t), printed buf (unat count) t m)"
proof -
  have e: "unat (buf + count) = unat buf + unat count" using assms(1) by (subst unat_add_lem [THEN iffD1]) auto
  then have lt: "\<not> buf + count < buf" by (simp add: word_less_nat_alt)
  have w: "buffer_range buf (buf + count) = {unat buf..<unat buf + unat count}" by (simp add: buffer_range_def e)
  have "vsn_loop (buf + count) fmt args (buf, m) = Some (put_text (buf + count) t (buf, m))"
    by (rule vsn_loop_text [OF f, of buf]) (use ap w assms(2) in \<open>simp_all add: same_off_def\<close>)
  then have l: "vsn_loop (buf + count) fmt args (buf, m) =
      Some (buf + of_nat (length t), store_text (unat buf) (take (unat count) t) m)"
    by (simp add: put_text_store [OF assms(2)] e)
  have len: "unat (of_nat (length t) :: u32) = length t" using assms(3) by (simp add: unat_of_nat)
  have sl: "sint (of_nat (length t) :: u32) = int (length t)"
    using assms(3) by (simp add: signed_of_nat signed_take_bit_int_eq_self)
  have b: "unat (buf + of_nat (length t)) = unat buf + length t"
    using assms(2) len by (subst unat_add_lem [THEN iffD1]) auto
  show ?thesis
  proof (cases "count = 0")
    case True
    then show ?thesis using l lt sl by (auto simp: rt_vsnprintf_def printed_def store_text_def fun_eq_iff)
  next
    case False
    then have c: "0 < unat count" "0 < count" by (simp_all add: unat_gt_0 word_neq_0_conv)
    show ?thesis
    proof (cases "length t < unat count")
      case True
      then have "buf + of_nat (length t) < buf + count" by (simp add: word_less_nat_alt b e)
      with True c show ?thesis
        using l lt sl store_text_store [of "unat buf" t "[0]" m] b
        by (simp add: rt_vsnprintf_def printed_def store_text_one)
    next
      case F: False
      then have n: "\<not> buf + of_nat (length t) < buf + count" by (simp add: word_less_nat_alt b e)
      have e1: "unat (buf + count - 1) = unat buf + (unat count - 1)"
        using c e by (metis Nat.add_diff_assoc One_nat_def Suc_leI add_gr_0 unat_1 unat_gt_0 unat_minus_one word_neq_0_conv)
      have tk: "take (unat count) t = take (unat count - 1) t @ [t ! (unat count - 1)]"
        using c F by (metis Suc_diff_1 Suc_le_lessD linorder_not_less take_Suc_conv_app_nth)
      have ln: "length (take (unat count - 1) t) = unat count - 1" using F by simp
      have "(store_text (unat buf) (take (unat count) t) m)(unat buf + (unat count - 1) := 0) =
          store_text (unat buf) (take (unat count - 1) t @ [0]) m"
        using store_text_store [of "unat buf" "take (unat count - 1) t" "[t ! (unat count - 1)]" m]
          store_text_store [of "unat buf" "take (unat count - 1) t" "[0]" m]
        unfolding ln tk store_text_one by (metis fun_upd_upd)
      with n c e1 show ?thesis using l lt sl by (simp add: rt_vsnprintf_def printed_def)
    qed
  qed
qed

lemma printed_outside:
  "a < unat buf \<or> unat buf + count \<le> a \<Longrightarrow> printed buf count t m a = m a"
  by (auto simp: printed_def store_text_def)

lemma printed_nul:
  "0 < count \<Longrightarrow> printed buf count t m (unat buf + min (length t) (count - 1)) = 0"
  by (simp add: printed_def store_text_def nth_append min_def)

lemma printed_text:
  "i < length t \<Longrightarrow> i < count - 1 \<Longrightarrow> printed buf count t m (unat buf + i) = t ! i"
  by (auto simp: printed_def store_text_def nth_append)

lemma snprintf_text:
  assumes "unat buf + unat count < 2 ^ 32" "unat buf + length t < 2 ^ 32" "length t < 2 ^ 31"
    "format_text (mem_text m) fmt args = Some t"
    "\<forall>s \<in> set (string_args fmt args). string_apart {unat buf..<unat buf + unat count} m s"
  shows "rt_snprintf buf count fmt args m = Some (int (length t), printed buf (unat count) t m)"
  using rt_vsnprintf_text [OF assms] by (simp add: rt_snprintf_def)

text \<open>C26. With string arguments apart from the buffer rt_snprintf returns the length of the whole
  text, writes no byte outside of the buffer, and ends what is in it with a NUL if it has room
  for one.\<close>

lemma snprintf_bounds:
  assumes "unat buf + unat count < 2 ^ 32" "unat buf + length t < 2 ^ 32" "length t < 2 ^ 31"
    "format_text (mem_text m) fmt args = Some t"
    "\<forall>s \<in> set (string_args fmt args). string_apart {unat buf..<unat buf + unat count} m s"
  shows "\<exists>m'. rt_snprintf buf count fmt args m = Some (int (length t), m') \<and>
    (\<forall>a. a < unat buf \<or> unat buf + unat count \<le> a \<longrightarrow> m' a = m a) \<and>
    (0 < count \<longrightarrow> m' (unat buf + min (length t) (unat count - 1)) = 0)"
proof -
  have "0 < unat count" if "0 < count" using that by (simp add: word_less_nat_alt)
  then show ?thesis
    using rt_vsnprintf_text [OF assms] printed_outside printed_nul by (auto simp: rt_snprintf_def)
qed

subsection \<open>Octal numbers\<close>

lemma print_number_octal: "print_number e num 8 s prec flags st = print_number e num 16 s prec flags st"
  by (simp add: print_number_text number_text_def radix_of_def)

lemma read_spec_letter:
  "c \<in> set ''oxud'' \<Longrightarrow> read_spec [c] args =
     Some ([c], \<lparr>sp_flags = 0, sp_width = - 1, sp_precision = - 1, sp_qualifier = NUL\<rparr>, args)"
proof -
  assume c: "c \<in> set ''oxud''"
  have "list_all (\<lambda>c. \<not> isdigit c) ''oxud''" by code_simp
  with c have "\<not> isdigit c" by (auto simp only: list_all_iff)
  moreover have "c \<notin> set ''-+ #0*.hl''" using c by auto
  ultimately show ?thesis
    by (simp add: read_spec_def fmt_width_def fmt_precision_def fmt_qualifier_def peek_def)
qed

lemma vsn_loop_letter:
  assumes "c \<in> set ''oxud''" "int_conversion c = Some (base, fl)"
  shows "vsn_loop e [CHR ''%'', c] (a # args) st = Some (print_number e a base (- 1) (- 1) fl st)"
proof -
  let ?sp = "\<lparr>sp_flags = 0, sp_width = - 1, sp_precision = - 1, sp_qualifier = NUL\<rparr>"
  have c: "c \<noteq> NUL" using assms(1) by auto
  have "print_conv e c ?sp (a # args) st = Some (args, print_number e a base (- 1) (- 1) fl st)"
    using assms by (auto simp: print_conv_def va_arg_def fetch_number_def)
  moreover have "vsn_loop e [] args st' = Some st'" for st' by (subst vsn_loop.simps) (simp add: peek_def)
  ultimately show ?thesis
    by (subst vsn_loop.simps) (simp add: peek_def read_spec_letter [OF assms(1)] after_conv_def c)
qed

lemma snprintf_octal: "rt_snprintf buf count ''%o'' [n] m = rt_snprintf buf count ''%x'' [n] m"
  by (simp add: rt_snprintf_def rt_vsnprintf_def vsn_loop_letter [where args = "[]"] int_conversion_def
      print_number_octal)

subsection \<open>Reading a number back\<close>

lemma decimal_digit:
  assumes "d < 10"
  shows "isdigit (small_digits ! d)" "of_char (small_digits ! d) = 48 + d"
proof -
  have "list_all (\<lambda>d. isdigit (small_digits ! d) \<and> of_char (small_digits ! d) = 48 + d) [0..<10]"
    by code_simp
  with assms show "isdigit (small_digits ! d)" "of_char (small_digits ! d) = 48 + d"
    by (simp_all add: list_all_iff)
qed

text \<open>The bound is that of the sum the code forms before it takes \<open>'0'\<close> away.\<close>

lemma atoi_radix:
  "int n + 48 \<le> INT_MAX \<Longrightarrow> \<exists>j. atoi_loop (radix_text small_digits 10 n @ s) 0 = atoi_loop s (int n)"
proof (induction n arbitrary: s rule: less_induct)
  case (less n)
  show ?case
  proof (cases "n < 10")
    case True
    then show ?thesis using less.prems decimal_digit [of n]
      by (subst radix_text.simps) simp
  next
    case False
    then have d: "n div 10 < n" "int (n div 10) + 48 \<le> INT_MAX" using less.prems by auto
    have r: "radix_text small_digits 10 n = radix_text small_digits 10 (n div 10) @ [small_digits ! (n mod 10)]"
      using False by (subst radix_text.simps) simp
    have n: "int (n div 10) * 10 + int (n mod 10) = int n"
      by (metis div_mult_mod_eq of_nat_add of_nat_mult of_nat_numeral)
    have v: "int (n div 10) * 10 + (48 + int (n mod 10)) \<le> INT_MAX"
      using less.prems n by linarith
    show ?thesis
      using less.IH [OF d, of "small_digits ! (n mod 10) # s"] decimal_digit [of "n mod 10"] v by (simp add: r n)
  qed
qed

lemma radix_length: "n < 10 ^ k \<Longrightarrow> 0 < k \<Longrightarrow> length (radix_text ds 10 n) \<le> k"
proof (induction k arbitrary: n)
  case (Suc k)
  show ?case
  proof (cases "n < 10")
    case True
    then show ?thesis by (subst radix_text.simps) simp
  next
    case False
    then have "0 < k" using Suc.prems(1) by (cases k) auto
    moreover have "n div 10 < 10 ^ k" using Suc.prems(1) by (simp add: less_mult_imp_div_less mult.commute)
    ultimately show ?thesis using False Suc.IH [of "n div 10"] by (subst radix_text.simps) simp
  qed
qed simp

text \<open>The digits of a number below the bound, printed and read back from the buffer.\<close>

lemma format_letter:
  assumes "c \<in> set ''oxud''" "int_conversion c = Some (base, fl)"
  shows "format_text strs [CHR ''%'', c] (a # args) = Some (map of_char (number_text a base (- 1) (- 1) fl))"
proof -
  let ?sp = "\<lparr>sp_flags = 0, sp_width = - 1, sp_precision = - 1, sp_qualifier = NUL\<rparr>"
  have c: "c \<noteq> NUL" using assms(1) by auto
  have "conv_text strs c ?sp (a # args) = Some (args, map of_char (number_text a base (- 1) (- 1) fl))"
    using assms by (auto simp: conv_text_def va_arg_def fetch_number_def)
  moreover have "format_text strs [] args = Some []" by (subst format_text.simps) (simp add: peek_def)
  ultimately show ?thesis
    by (subst format_text.simps) (simp add: peek_def read_spec_letter [OF assms(1)] after_conv_def c)
qed

lemma string_args_letter: "c \<in> set ''oxud'' \<Longrightarrow> string_args [CHR ''%'', c] (a # args) = []"
proof -
  assume c: "c \<in> set ''oxud''"
  have "string_args [] xs = []" for xs by (subst string_args.simps) (simp add: peek_def)
  with c show ?thesis
    by (subst string_args.simps) (auto simp: peek_def read_spec_letter [OF c] after_conv_def)
qed

lemma number_text_decimal: "number_text n 10 (- 1) (- 1) 0 = radix_text small_digits 10 (unat n)"
proof -
  have "nat (- 1 - int k) = 0" "nat (- 1 - max (int k) (- 1)) = 0" for k by auto
  then show ?thesis by (simp add: number_text_def number_sign_def sign_text_def radix_of_def Let_def)
qed

lemma mem_strlen_store:
  assumes "\<forall>c\<in>set t. c \<noteq> 0" "unat a + length t < 2 ^ 32"
  shows "mem_strlen (store_text (unat a) (t @ [0]) m) a = Some (length t)"
  using assms
proof (induction t arbitrary: a m)
  case Nil
  then show ?case by (subst mem_strlen.simps) (simp add: store_text_def)
next
  case (Cons c t)
  then have "unat a + Suc (length t) < 2 ^ 32" by simp
  then have n: "a \<noteq> - 1" by (auto simp: unsigned_minus_1_eq_mask mask_eq_exp_minus_1)
  then have u: "unat (a + 1) = Suc (unat a)" by (simp add: eq_neg_iff_add_eq_0 unatSuc add.commute)
  have "mem_strlen (store_text (unat a) (c # t @ [0]) m) (a + 1) = Some (length t)"
    using Cons.IH [of "a + 1" "m(unat a := c)"] Cons.prems
    unfolding u store_text_Cons append_Cons by simp
  moreover have "store_text (unat a) (c # t @ [0]) m (unat a) = c" by (simp add: store_text_def)
  ultimately show ?case using Cons.prems n by (subst mem_strlen.simps) simp
qed

lemma mem_text_store:
  assumes "\<forall>c\<in>set t. c \<noteq> 0" "unat a + length t < 2 ^ 32" "a \<noteq> 0"
  shows "mem_text (store_text (unat a) (t @ [0]) m) a = Some t"
proof -
  have "map (\<lambda>i. store_text (unat a) (t @ [0]) m (unat a + i)) [0..<length t] = t"
    by (rule nth_equalityI) (simp_all add: store_text_def nth_append)
  with assms show ?thesis by (simp add: mem_text_def mem_strlen_store)
qed

lemma radix_digits: "set (radix_text small_digits 10 n) \<subseteq> set small_digits"
proof (induction n rule: less_induct)
  case (less n)
  have d: "small_digits ! k \<in> set small_digits" if "k < 10" for k
    using that by (intro nth_mem) (simp add: small_digits_def)
  show ?case
    using less.IH [of "n div 10"] d [of n] d [of "n mod 10"] by (subst radix_text.simps) auto
qed

text \<open>C28. A number printed with %u into a buffer is a string from which skip_atoi reads the number
  back, for all numbers that skip_atoi reads without overflow.\<close>

lemma print_read_decimal:
  assumes "uint n + 48 \<le> INT_MAX" "buf \<noteq> 0" "unat buf + 11 < 2 ^ 32"
  shows "\<exists>k m' ds. rt_snprintf buf 11 ''%u'' [n] m = Some (k, m') \<and>
    mem_text m' buf = Some (map of_char ds) \<and> skip_atoi ds = Some (uint n, [])"
proof -
  let ?ds = "radix_text small_digits 10 (unat n)"
  let ?t = "map of_char ?ds :: u8 list"
  have "unat n < 10 ^ 10" using unsigned_less [of n, where 'a = nat] by simp
  then have len: "length ?t \<le> 10" using radix_length [of "unat n" 10] by simp
  have f: "format_text (mem_text m) ''%u'' [n] = Some ?t"
    using format_letter [of "CHR ''u''" 10 0 "mem_text m" n "[]"] by (simp add: int_conversion_def number_text_decimal)
  have p: "rt_snprintf buf 11 ''%u'' [n] m = Some (int (length ?t), printed buf 11 ?t m)"
    using rt_vsnprintf_text [OF _ _ _ f, of buf 11] assms(3) len
    by (simp add: rt_snprintf_def string_args_letter)
  have nz: "\<forall>c\<in>set ?t. c \<noteq> 0"
    using radix_digits [of "unat n"] by (auto simp: small_digits_def)
  have "printed buf 11 ?t m = store_text (unat buf) (?t @ [0]) m"
    using len by (simp add: printed_def)
  with mem_text_store [OF nz _ assms(2)] assms(3) len
  have t: "mem_text (printed buf 11 ?t m) buf = Some ?t" by simp
  have "skip_atoi ?ds = Some (uint n, [])"
    using atoi_radix [of "unat n" "[]"] assms(1) by (simp add: skip_atoi_def)
  with p t show ?thesis by blast
qed

subsection \<open>Examples\<close>

lemma format_example:
  "format_text (mem_text (\<lambda>_. 7)) ''%5d|'' [12] = Some (map of_char ''   12|'')" "string_args ''%5d|'' [12] = []"
  by code_simp+

lemma snprintf_example:
  "\<exists>m'. rt_snprintf 0x100 5 ''%5d|'' [12] (\<lambda>_. 7) = Some (6, m') \<and> m' 0x103 = 49 \<and> m' 0x104 = 0 \<and> m' 0x105 = 7"
proof -
  have "rt_snprintf 0x100 5 ''%5d|'' [12] (\<lambda>_. 7) =
      Some (int (length (map of_char ''   12|'' :: u8 list)), printed 0x100 (unat (5 :: u32)) (map of_char ''   12|'') (\<lambda>_. 7))"
    by (rule snprintf_text) (simp_all add: format_example)
  then show ?thesis by (simp add: printed_def store_text_def nth_Cons')
qed

lemma snprintf_bounds_witness:
  "\<exists>m'. rt_snprintf 0x100 5 ''%5d|'' [12] (\<lambda>_. 7) = Some (6, m') \<and> m' 0x104 = 0 \<and> m' 0x105 = 7 \<and> m' 0xff = 7"
proof -
  have "\<exists>m'. rt_snprintf 0x100 5 ''%5d|'' [12] (\<lambda>_. 7) = Some (int (length (map of_char ''   12|'' :: u8 list)), m') \<and>
    (\<forall>a. a < unat (0x100 :: u32) \<or> unat (0x100 :: u32) + unat (5 :: u32) \<le> a \<longrightarrow> m' a = 7) \<and>
    ((0 :: u32) < 5 \<longrightarrow> m' (unat (0x100 :: u32) + min (length (map of_char ''   12|'' :: u8 list)) (unat (5 :: u32) - 1)) = 0)"
    by (rule snprintf_bounds) (simp_all add: format_example)
  then show ?thesis by auto
qed

lemma print_read_decimal_witness:
  "\<exists>k m' ds. rt_snprintf 0x100 11 ''%u'' [1234567] (\<lambda>_. 7) = Some (k, m') \<and>
    mem_text m' 0x100 = Some (map of_char ds) \<and> skip_atoi ds = Some (1234567, [])"
  using print_read_decimal [where n = 1234567 and buf = "0x100" and m = "\<lambda>_. 7"] by (simp add: INT_MAX_def)

end
