(* ===== verification/RT_Directive.thy ===== *)
theory RT_Directive
  imports RT_Format
begin

unbundle bit_operations_syntax

text \<open>
  What a format means, apart from the code that reads it.  A format is a list of directives, written
  down by \<open>spell\<close>; \<open>directives_text\<close> is the text that the C standard prescribes for them.
  \<open>supported\<close> says for which directives \<^verbatim>\<open>rt_snprintf\<close> agrees: it prints octal numbers in base 16, prints
  no digits at a precision of 0, and pads with zeros beside a precision.
\<close>

subsection \<open>Directives\<close>

text \<open>A field width and a precision: absent, a number, or an asterisk for an argument.\<close>

datatype field = Absent | Given nat | Star

datatype directive =
    Plain char
  | Percent
  | Pointer
  | Convert (conv_flags: string) (conv_width: field) (conv_prec: field) (conv_length: string) (conv_letter: char)

definition decimal_text :: "nat \<Rightarrow> string" where
  "decimal_text n = radix_text ''0123456789'' 10 n"

fun spell_width :: "field \<Rightarrow> string" where
  "spell_width Absent = ''''"
| "spell_width (Given n) = decimal_text n"
| "spell_width Star = ''*''"

fun spell_prec :: "field \<Rightarrow> string" where
  "spell_prec Absent = ''''"
| "spell_prec (Given n) = CHR ''.'' # decimal_text n"
| "spell_prec Star = ''.*''"

fun spell_directive :: "directive \<Rightarrow> string" where
  "spell_directive (Plain c) = [c]"
| "spell_directive Percent = ''%%''"
| "spell_directive Pointer = ''%p''"
| "spell_directive (Convert fs w p l c) = CHR ''%'' # fs @ spell_width w @ spell_prec p @ l @ [c]"

definition spell :: "directive list \<Rightarrow> string" where
  "spell ds = concat (map spell_directive ds)"

subsection \<open>Their meaning\<close>

text \<open>A negative width taken from an argument is the flag \<open>-\<close> and a width; a negative precision is none.\<close>

fun width_value :: "field \<Rightarrow> u32 list \<Rightarrow> (bool \<times> nat \<times> u32 list) option" where
  "width_value Absent args = Some (False, 0, args)"
| "width_value (Given n) args = Some (False, n, args)"
| "width_value Star [] = None"
| "width_value Star (a # args) = Some (sint a < 0, nat \<bar>sint a\<bar>, args)"

fun prec_value :: "field \<Rightarrow> u32 list \<Rightarrow> (nat option \<times> u32 list) option" where
  "prec_value Absent args = Some (None, args)"
| "prec_value (Given n) args = Some (Some n, args)"
| "prec_value Star [] = None"
| "prec_value Star (a # args) = Some (if sint a < 0 then None else Some (nat (sint a)), args)"

definition fill_to :: "bool \<Rightarrow> nat \<Rightarrow> 'a \<Rightarrow> 'a list \<Rightarrow> 'a list" where
  "fill_to left w blank t =
     (if left then t @ replicate (w - length t) blank else replicate (w - length t) blank @ t)"

text \<open>The value of an integer argument: \<open>h\<close> makes it a \<open>short\<close>.\<close>

definition int_value :: "bool \<Rightarrow> string \<Rightarrow> u32 \<Rightarrow> int" where
  "int_value sg l a =
     (if l = ''h'' then if sg then sint (ucast a :: u16) else uint (ucast a :: u16)
      else if sg then sint a else uint a)"

definition int_text :: "string \<Rightarrow> bool \<Rightarrow> nat \<Rightarrow> nat option \<Rightarrow> char \<Rightarrow> int \<Rightarrow> string" where
  "int_text fs left w p c v =
     (let sgn = (if v < 0 then ''-''
            else if c \<in> set ''di'' \<and> CHR ''+'' \<in> set fs then ''+''
            else if c \<in> set ''di'' \<and> CHR '' '' \<in> set fs then '' '' else '''');
          base = (if c = CHR ''o'' then 8 else if c \<in> set ''xX'' then 16 else 10);
          letters = (if c = CHR ''X'' then ''0123456789ABCDEF'' else ''0123456789abcdef'');
          ds = (if p = Some 0 \<and> v = 0 then '''' else radix_text letters base (nat \<bar>v\<bar>));
          body = replicate (case_option 0 id p - length ds) (CHR ''0'') @ ds
      in if CHR ''0'' \<in> set fs \<and> p = None \<and> \<not> left
         then sgn @ replicate (w - length (sgn @ body)) (CHR ''0'') @ body
         else fill_to left w (CHR '' '') (sgn @ body))"

fun next_arg :: "u32 list \<Rightarrow> (u32 \<times> u32 list) option" where
  "next_arg [] = None"
| "next_arg (a # args) = Some (a, args)"

lemma next_arg_some: "next_arg xs = Some (a, args) \<longleftrightarrow> xs = a # args"
  by (cases xs) auto

fun directive_text ::
  "(u32 \<Rightarrow> u8 list option) \<Rightarrow> directive \<Rightarrow> u32 list \<Rightarrow> (u8 list \<times> u32 list) option" where
  "directive_text strs (Plain c) args = Some ([of_char c], args)"
| "directive_text strs Percent args = Some ([of_char (CHR ''%'')], args)"
| "directive_text strs Pointer args =
     map_option (\<lambda>(a, args). (map of_char (fill_to False 8 (CHR ''0'') (radix_text ''0123456789abcdef'' 16 (unat a))), args))
       (next_arg args)"
| "directive_text strs (Convert fs w p l c) args = do {
     (neg, w, args) \<leftarrow> width_value w args;
     (p, args) \<leftarrow> prec_value p args;
     (a, args) \<leftarrow> next_arg args;
     let left = (neg \<or> CHR ''-'' \<in> set fs);
     if c = CHR ''c'' then Some (fill_to left w (of_char (CHR '' '')) [ucast a], args)
     else if c = CHR ''s'' then do {
       cs \<leftarrow> strs a;
       Some (fill_to left w (of_char (CHR '' '')) (case p of None \<Rightarrow> cs | Some n \<Rightarrow> take n cs), args)
     }
     else Some (map of_char (int_text fs left w p c (int_value (c \<in> set ''di'') l a)), args)
   }"

fun directives_text :: "(u32 \<Rightarrow> u8 list option) \<Rightarrow> directive list \<Rightarrow> u32 list \<Rightarrow> u8 list option" where
  "directives_text strs [] args = Some []"
| "directives_text strs (d # ds) args = do {
     (t, args) \<leftarrow> directive_text strs d args;
     ts \<leftarrow> directives_text strs ds args;
     Some (t @ ts)
   }"

text \<open>How many arguments a directive takes, and the pointers that are printed as strings.\<close>

fun args_used :: "directive \<Rightarrow> nat" where
  "args_used (Plain c) = 0"
| "args_used Percent = 0"
| "args_used Pointer = 1"
| "args_used (Convert fs w p l c) = count_list [w, p] Star + 1"

fun directive_strings :: "directive list \<Rightarrow> u32 list \<Rightarrow> u32 list" where
  "directive_strings [] args = []"
| "directive_strings (d # ds) args =
     (case d of
        Convert fs w p l c \<Rightarrow> if c = CHR ''s'' then take 1 (drop (args_used d - 1) args) else []
      | _ \<Rightarrow> []) @ directive_strings ds (drop (args_used d) args)"

subsection \<open>Where the code agrees\<close>

text \<open>A number in a format, and an argument taken for one, that \<open>skip_atoi\<close> and \<open>int\<close> can hold.\<close>

fun width_fits :: "field \<Rightarrow> u32 list \<Rightarrow> bool" where
  "width_fits Absent args = True"
| "width_fits (Given n) args = (0 < n \<and> int n + 48 \<le> INT_MAX)"
| "width_fits Star args = (case args of [] \<Rightarrow> True | a # _ \<Rightarrow> a \<noteq> 0x80000000)"

text \<open>A precision is positive.\<close>

fun prec_fits :: "field \<Rightarrow> u32 list \<Rightarrow> bool" where
  "prec_fits Absent args = True"
| "prec_fits (Given n) args = (0 < n \<and> int n + 48 \<le> INT_MAX)"
| "prec_fits Star args = (case args of [] \<Rightarrow> True | a # _ \<Rightarrow> 0 < sint a)"

fun supported :: "directive \<Rightarrow> u32 list \<Rightarrow> bool" where
  "supported (Plain c) args = (c \<noteq> CHR ''%'' \<and> c \<noteq> NUL)"
| "supported Percent args = True"
| "supported Pointer args = True"
| "supported (Convert fs w p l c) args =
     (set fs \<subseteq> set ''-+ 0'' \<and> width_fits w args \<and> prec_fits p (if w = Star then tl args else args) \<and>
      (CHR ''0'' \<in> set fs \<longrightarrow> p = Absent) \<and>
      (c = CHR ''c'' \<and> l = '''' \<and> p = Absent \<and> CHR ''0'' \<notin> set fs \<or>
       c = CHR ''s'' \<and> l = '''' \<and> CHR ''0'' \<notin> set fs \<or>
       c \<in> set ''diuxX'' \<and> l \<in> {'''', ''h'', ''l''}))"

fun all_supported :: "directive list \<Rightarrow> u32 list \<Rightarrow> bool" where
  "all_supported [] args = True"
| "all_supported (d # ds) args = (supported d args \<and> all_supported ds (drop (args_used d) args))"

subsection \<open>Reading what was spelled\<close>

lemma radix_cong:
  assumes "1 < b" "\<And>k. k < b \<Longrightarrow> ds ! k = ds' ! k"
  shows "radix_text ds b n = radix_text ds' b n"
proof (induction n rule: less_induct)
  case (less n)
  show ?case
  proof (cases "n < b")
    case True
    then show ?thesis using assms(2) by (simp add: radix_text.simps [of _ b n])
  next
    case False
    then have "radix_text ds b (n div b) = radix_text ds' b (n div b)" using assms(1) by (intro less) simp
    then show ?thesis using False assms by (simp add: radix_text.simps [of _ b n])
  qed
qed

lemma decimal_small: "decimal_text n = radix_text small_digits 10 n"
  unfolding decimal_text_def small_digits_def by (rule radix_cong) (auto simp: nth_Cons')

lemma radix_first:
  "0 < n \<Longrightarrow> \<exists>k t. 0 < k \<and> k < 10 \<and> radix_text small_digits 10 n = small_digits ! k # t"
proof (induction n rule: less_induct)
  case (less n)
  show ?case
  proof (cases "n < 10")
    case True
    then show ?thesis using less.prems by (subst radix_text.simps) auto
  next
    case False
    then have "0 < n div 10" "n div 10 < n" by auto
    then obtain k t where "0 < k" "k < 10" "radix_text small_digits 10 (n div 10) = small_digits ! k # t"
      using less.IH by blast
    then show ?thesis using False by (subst radix_text.simps) auto
  qed
qed

lemma first_digit:
  assumes "0 < k" "k < (10 :: nat)"
  shows "isdigit (small_digits ! k)" "small_digits ! k \<notin> set ''-+ #0.*''"
proof -
  have "list_all (\<lambda>k. small_digits ! k \<notin> set ''-+ #0.*'') [1..<10]" by code_simp
  then show "small_digits ! k \<notin> set ''-+ #0.*''" using assms by (simp add: list_all_iff)
qed (use decimal_digit assms in blast)

lemma decimal_first:
  assumes "0 < n"
  shows "isdigit (peek (decimal_text n @ r))" "peek (decimal_text n @ r) \<notin> set ''-+ #0.*''"
  using radix_first [OF assms] first_digit by (auto simp: decimal_small peek_def)

lemma skip_decimal:
  assumes "int n + 48 \<le> INT_MAX" "\<not> isdigit (peek r)"
  shows "skip_atoi (decimal_text n @ r) = Some (int n, r)"
  using assms(2) atoi_radix [OF assms(1), of r] by (cases r) (auto simp: skip_atoi_def decimal_small peek_def)

lemma letters_not_digits: "c \<in> set ''.*hlcsdiuxX'' \<Longrightarrow> \<not> isdigit c"
proof -
  have "list_all (\<lambda>c. \<not> isdigit c) ''.*hlcsdiuxX''" by code_simp
  then show "c \<in> set ''.*hlcsdiuxX'' \<Longrightarrow> \<not> isdigit c" unfolding list_all_iff by blast
qed

text \<open>What the bits of the flags say.\<close>

definition flags_say :: "u8 \<Rightarrow> bool \<Rightarrow> bool \<Rightarrow> bool \<Rightarrow> bool \<Rightarrow> bool" where
  "flags_say f l p b z \<longleftrightarrow> (f AND LEFT \<noteq> 0 \<longleftrightarrow> l) \<and> (f AND PLUS \<noteq> 0 \<longleftrightarrow> p) \<and>
     (f AND SPACE \<noteq> 0 \<longleftrightarrow> b) \<and> (f AND ZEROPAD \<noteq> 0 \<longleftrightarrow> z) \<and> f AND SIGN = 0 \<and> f AND LARGE = 0"

lemma flags_say_or:
  assumes "flags_say f l p b z"
  shows "flags_say (f OR LEFT) True p b z" "flags_say (f OR PLUS) l True b z"
    "flags_say (f OR SPACE) l p True z" "flags_say (f OR ZEROPAD) l p b True"
  using assms by (auto simp: flags_say_def flag_defs bit.conj_disj_distrib2 or_eq_0_iff)

lemma flags_spelled:
  assumes "flags_say f l p b z" "set fs \<subseteq> set ''-+ 0''" "peek r \<notin> set ''-+ #0''"
  shows "\<exists>f'. fmt_flags (fs @ r) f = (r, f') \<and> flags_say f' (l \<or> CHR ''-'' \<in> set fs) (p \<or> CHR ''+'' \<in> set fs)
    (b \<or> CHR '' '' \<in> set fs) (z \<or> CHR ''0'' \<in> set fs)"
  using assms(1,2)
proof (induction fs arbitrary: f l p b z)
  case Nil
  then show ?case using assms(3) by (cases r) (auto simp: peek_def)
next
  case (Cons c fs)
  note or = flags_say_or [OF Cons.prems(1)]
  consider "c = CHR ''-''" | "c = CHR ''+''" | "c = CHR '' ''" | "c = CHR ''0''" using Cons.prems(2) by auto
  then show ?case
  proof cases
    case 1
    then show ?thesis using Cons.IH [OF or(1)] Cons.prems(2) by auto
  next
    case 2
    then show ?thesis using Cons.IH [OF or(2)] Cons.prems(2) by auto
  next
    case 3
    then show ?thesis using Cons.IH [OF or(3)] Cons.prems(2) by auto
  next
    case 4
    then show ?thesis using Cons.IH [OF or(4)] Cons.prems(2) by auto
  qed
qed

lemma width_spelled:
  assumes "width_value w args = Some (neg, n, args')" "width_fits w args"
    and "peek r \<in> set ''.hlcsdiuxX''"
  shows "\<exists>i. fmt_width (spell_width w @ r) f args = Some (r, if neg then f OR LEFT else f, i, args') \<and> nat i = n"
    "peek (spell_width w @ r) \<notin> set ''-+ #0''"
proof -
  have nd: "\<not> isdigit (peek r)" using assms(3) by (intro letters_not_digits) auto
  have star: "\<not> isdigit (CHR ''*'')" by (rule letters_not_digits) simp
  show "\<exists>i. fmt_width (spell_width w @ r) f args = Some (r, if neg then f OR LEFT else f, i, args') \<and> nat i = n"
  proof (cases w)
    case Absent
    then show ?thesis using assms nd by (auto simp: fmt_width_def)
  next
    case (Given k)
    then show ?thesis using assms decimal_first(1) [of k r] skip_decimal [OF _ nd, of k] by (simp add: fmt_width_def)
  next
    case Star
    then obtain a where a: "args = a # args'" "neg = (sint a < 0)" "n = nat \<bar>sint a\<bar>" "a \<noteq> 0x80000000"
      using assms(1,2) by (cases args) auto
    have "- sint a \<le> INT_MAX"
    proof -
      have "- (2 ^ 31) \<le> sint a" using sint_ge [of a] by simp
      moreover have "sint a \<noteq> - (2 ^ 31)"
      proof
        assume "sint a = - (2 ^ 31)"
        moreover have "a = word_of_int (sint a)" by simp
        ultimately have "a = word_of_int (- (2 ^ 31))" by (simp only:)
        then show False using a(4) by simp
      qed
      ultimately show ?thesis by (simp add: INT_MAX_def)
    qed
    then show ?thesis
      using Star a star by (auto simp: fmt_width_def va_arg_def peek_def Let_def)
  qed
  show "peek (spell_width w @ r) \<notin> set ''-+ #0''"
  proof (cases w)
    case Absent
    then show ?thesis using assms(3) by auto
  next
    case (Given k)
    then show ?thesis using assms(2) decimal_first(2) [of k r] by auto
  qed (simp add: peek_def)
qed

lemma prec_spelled:
  assumes "prec_value p args = Some (n, args')" "prec_fits p args" "peek r \<in> set ''hlcsdiuxX''"
  shows "fmt_precision (spell_prec p @ r) args = Some (r, (case n of None \<Rightarrow> - 1 | Some k \<Rightarrow> int k), args')"
    "peek (spell_prec p @ r) \<in> set ''.hlcsdiuxX''"
proof -
  have nd: "\<not> isdigit (peek r)" using assms(3) by (intro letters_not_digits) auto
  have star: "\<not> isdigit (CHR ''*'')" by (rule letters_not_digits) simp
  show "fmt_precision (spell_prec p @ r) args = Some (r, (case n of None \<Rightarrow> - 1 | Some k \<Rightarrow> int k), args')"
  proof (cases p)
    case Absent
    then show ?thesis using assms by (auto simp: fmt_precision_def)
  next
    case (Given k)
    then show ?thesis
      using assms decimal_first(1) [of k r] skip_decimal [OF _ nd, of k] by (auto simp: fmt_precision_def peek_def)
  next
    case Star
    then show ?thesis
      using assms star by (cases args) (auto simp: fmt_precision_def va_arg_def peek_def Let_def)
  qed
  show "peek (spell_prec p @ r) \<in> set ''.hlcsdiuxX''" using assms(3) by (cases p) (auto simp: peek_def)
qed

lemma spec_spelled:
  assumes "set fs \<subseteq> set ''-+ 0''" "width_value w args = Some (neg, n, args1)" "width_fits w args"
    and "prec_value p args1 = Some (k, args2)" "prec_fits p args1"
    and "l \<in> {'''', ''h'', ''l''}" "c \<in> set ''csdiuxX''"
  shows "\<exists>sp. read_spec (fs @ spell_width w @ spell_prec p @ l @ c # r) args = Some (c # r, sp, args2) \<and>
    flags_say (sp_flags sp) (neg \<or> CHR ''-'' \<in> set fs) (CHR ''+'' \<in> set fs) (CHR '' '' \<in> set fs) (CHR ''0'' \<in> set fs) \<and>
    nat (sp_width sp) = n \<and> sp_precision sp = (case k of None \<Rightarrow> - 1 | Some k \<Rightarrow> int k) \<and>
    (sp_qualifier sp = CHR ''h'' \<longleftrightarrow> l = ''h'')"
proof -
  have l: "peek (l @ c # r) \<in> set ''hlcsdiuxX''" using assms(6,7) by (auto simp: peek_def)
  note p = prec_spelled [OF assms(4,5) l]
  note w = width_spelled [OF assms(2,3) p(2)]
  have "flags_say 0 False False False False" by (simp add: flags_say_def)
  from flags_spelled [OF this assms(1) w(2)] obtain f where
    f: "fmt_flags (fs @ spell_width w @ spell_prec p @ l @ c # r) 0 = (spell_width w @ spell_prec p @ l @ c # r, f)"
      "flags_say f (CHR ''-'' \<in> set fs) (CHR ''+'' \<in> set fs) (CHR '' '' \<in> set fs) (CHR ''0'' \<in> set fs)"
    by auto
  obtain i where i: "fmt_width (spell_width w @ spell_prec p @ l @ c # r) f args =
      Some (spell_prec p @ l @ c # r, if neg then f OR LEFT else f, i, args1)" "nat i = n"
    using w(1) by blast
  obtain q where q: "fmt_qualifier (l @ c # r) = (c # r, q)" "q = CHR ''h'' \<longleftrightarrow> l = ''h''"
    using assms(6,7) by (auto simp: fmt_qualifier_def peek_def)
  show ?thesis
    using f i p(1) q flags_say_or(1) [OF f(2)] by (auto simp: read_spec_def)
qed

subsection \<open>Numbers\<close>

lemma unat_neg:
  fixes n :: u32
  assumes "sint n < 0"
  shows "unat (- n) = nat (- sint n)"
proof -
  have "- (2 ^ 31) \<le> sint n" using sint_ge [of n] by simp
  then have b: "- sint n < 2 ^ 32" by simp
  have "uint (- n) = uint (word_of_int (- sint n) :: u32)" by simp
  also have "\<dots> = take_bit 32 (- sint n)" by (simp only: uint_word_of_int_eq) simp
  also have "\<dots> = - sint n" using assms b by (intro take_bit_int_eq_self) simp_all
  finally show ?thesis by (metis unat_eq_nat_uint)
qed

lemma sint_nonneg:
  fixes n :: u32
  assumes "\<not> sint n < 0"
  shows "unat n = nat (sint n)"
proof -
  have "sint n < 2 ^ 31" using sint_lt [of n] by simp
  then have "uint n = sint n" using assms by (simp add: uint_sint take_bit_int_eq_self)
  then show ?thesis by (simp add: unat_eq_nat_uint)
qed

lemma sign_said:
  assumes f: "f AND SIGN \<noteq> 0 \<longleftrightarrow> sg" "f AND PLUS \<noteq> 0 \<longleftrightarrow> p" "f AND SPACE \<noteq> 0 \<longleftrightarrow> b"
    and v: "v = (if sg then sint n else uint n)"
  shows "sign_text f n = (if v < 0 then ''-'' else if sg \<and> p then ''+'' else if sg \<and> b then '' '' else [])"
    "unat (snd (number_sign f n)) = nat \<bar>v\<bar>"
proof -
  have lt: "n <s 0 \<longleftrightarrow> sint n < 0" by (simp add: word_sless_alt)
  have s: "number_sign f n = (if sg then if sint n < 0 then (CHR ''-'', - n) else if p then (CHR ''+'', n)
      else if b then (CHR '' '', n) else (NUL, n) else (NUL, n))"
    unfolding number_sign_def f lt by (rule refl)
  show "sign_text f n = (if v < 0 then ''-'' else if sg \<and> p then ''+'' else if sg \<and> b then '' '' else [])"
    unfolding sign_text_def s v by simp
  show "unat (snd (number_sign f n)) = nat \<bar>v\<bar>"
  proof (cases "sg \<and> sint n < 0")
    case True
    then show ?thesis using unat_neg [of n] unfolding s v by simp
  next
    case False
    then have "snd (number_sign f n) = n" unfolding s by auto
    then show ?thesis using False sint_nonneg [of n] unfolding v by (cases sg) auto
  qed
qed

lemma fetch_value:
  assumes "q = CHR ''h'' \<longleftrightarrow> l = ''h''" "f AND SIGN \<noteq> 0 \<longleftrightarrow> sg"
  shows "int_value sg l a = (if sg then sint (fetch_number q f a) else uint (fetch_number q f a))"
proof -
  have up: "sint (scast x :: u32) = sint x" "uint (ucast x :: u32) = uint x" for x :: u16
    by (simp_all add: sint_up_scast is_up uint_up_ucast)
  show ?thesis unfolding int_value_def fetch_number_def using assms by (simp add: up)
qed

lemma nat_gap: "nat (i - int k) = nat i - k"
  by simp

lemma number_text_int:
  assumes f: "f AND LEFT \<noteq> 0 \<longleftrightarrow> left" "f AND PLUS \<noteq> 0 \<longleftrightarrow> CHR ''+'' \<in> set fs" "f AND SPACE \<noteq> 0 \<longleftrightarrow> CHR '' '' \<in> set fs"
      "f AND ZEROPAD \<noteq> 0 \<longleftrightarrow> CHR ''0'' \<in> set fs" "f AND SIGN \<noteq> 0 \<longleftrightarrow> c \<in> set ''di''" "f AND LARGE \<noteq> 0 \<longleftrightarrow> c = CHR ''X''"
    and c: "c \<in> set ''diuxX''" "base = (if c \<in> set ''xX'' then 16 else 10)"
    and p: "p \<noteq> Some 0" "CHR ''0'' \<in> set fs \<Longrightarrow> p = None"
    and v: "v = (if c \<in> set ''di'' then sint n else uint n)"
  shows "number_text n base i (case p of None \<Rightarrow> - 1 | Some k \<Rightarrow> int k) f = int_text fs left (nat i) p c v"
proof -
  let ?ds = "radix_text (if c = CHR ''X'' then large_digits else small_digits) base (nat \<bar>v\<bar>)"
  let ?sgn = "sign_text f n"
  let ?body = "replicate (case_option 0 id p - length ?ds) (CHR ''0'') @ ?ds"
  let ?prec = "case p of None \<Rightarrow> - 1 | Some k \<Rightarrow> int k"
  note s = sign_said [OF f(5,2,3) v]
  have r: "radix_of base = base" using c(2) by (simp add: radix_of_def)
  have o: "c \<noteq> CHR ''o''" using c(1) by auto
  have gap: "nat (i - max (int (length ?ds)) ?prec - int (length ?sgn)) = nat i - length (?sgn @ ?body)"
  proof -
    have "max (int (length ?ds)) ?prec + int (length ?sgn) = int (length (?sgn @ ?body))" by (cases p) auto
    then have "i - max (int (length ?ds)) ?prec - int (length ?sgn) = i - int (length (?sgn @ ?body))" by linarith
    then show ?thesis by (simp only: nat_gap)
  qed
  have body: "replicate (nat (?prec - int (length ?ds))) (CHR ''0'') @ (if ?prec = 0 then [] else ?ds) = ?body"
    using p(1) by (cases p) auto
  have "number_text n base i ?prec f =
      (if left then ?sgn @ ?body @ replicate (nat i - length (?sgn @ ?body)) (CHR '' '')
       else if CHR ''0'' \<in> set fs then ?sgn @ replicate (nat i - length (?sgn @ ?body)) (CHR ''0'') @ ?body
       else replicate (nat i - length (?sgn @ ?body)) (CHR '' '') @ ?sgn @ ?body)"
    unfolding number_text_def Let_def s(2) r f(6) gap body using f(1,4) by simp
  also have "\<dots> = int_text fs left (nat i) p c v"
  proof -
    have b: "(if c = CHR ''o'' then 8 else if c \<in> set ''xX'' then 16 else 10) = base" using c(2) o by simp
    have d: "(if p = Some 0 \<and> v = 0 then [] else xs) = xs" for xs :: string using p(1) by simp
    have z: "CHR ''0'' \<in> set fs \<and> p = None \<and> \<not> left \<longleftrightarrow> \<not> left \<and> CHR ''0'' \<in> set fs" using p(2) by blast
    show ?thesis
      unfolding int_text_def Let_def b d z fill_to_def s(1) [symmetric]
        small_digits_def [symmetric] large_digits_def [symmetric] conj_assoc
      unfolding s(1) by (cases left; cases "CHR ''0'' \<in> set fs") (simp_all only: if_True if_False simp_thms append_assoc)
  qed
  finally show ?thesis .
qed

subsection \<open>Directives against the code\<close>

lemma justify_fill:
  "f AND LEFT \<noteq> 0 \<longleftrightarrow> left \<Longrightarrow> justify f i cs = fill_to left (nat i) (of_char (CHR '' '')) cs"
proof -
  have "nat (i - int (length cs)) = nat i - length cs" by simp
  then show "f AND LEFT \<noteq> 0 \<longleftrightarrow> left \<Longrightarrow> justify f i cs = fill_to left (nat i) (of_char (CHR '' '')) cs"
    by (simp add: justify_def fill_to_def Let_def)
qed

lemma flags_or_sign:
  assumes "flags_say f l p b z" "int_conversion c = Some (base, fl)" "c \<in> set ''diuxX''"
  shows "(f OR fl) AND LEFT \<noteq> 0 \<longleftrightarrow> l" "(f OR fl) AND PLUS \<noteq> 0 \<longleftrightarrow> p" "(f OR fl) AND SPACE \<noteq> 0 \<longleftrightarrow> b"
    "(f OR fl) AND ZEROPAD \<noteq> 0 \<longleftrightarrow> z" "(f OR fl) AND SIGN \<noteq> 0 \<longleftrightarrow> c \<in> set ''di''"
    "(f OR fl) AND LARGE \<noteq> 0 \<longleftrightarrow> c = CHR ''X''" "base = (if c \<in> set ''xX'' then 16 else 10)"
proof -
  have "fl = (if c \<in> set ''di'' then SIGN else if c = CHR ''X'' then LARGE else 0)"
    and base: "base = (if c \<in> set ''xX'' then 16 else 10)"
    using assms(2,3) by (auto simp: int_conversion_def)
  then show "(f OR fl) AND LEFT \<noteq> 0 \<longleftrightarrow> l" "(f OR fl) AND PLUS \<noteq> 0 \<longleftrightarrow> p" "(f OR fl) AND SPACE \<noteq> 0 \<longleftrightarrow> b"
    "(f OR fl) AND ZEROPAD \<noteq> 0 \<longleftrightarrow> z" "(f OR fl) AND SIGN \<noteq> 0 \<longleftrightarrow> c \<in> set ''di''"
    "(f OR fl) AND LARGE \<noteq> 0 \<longleftrightarrow> c = CHR ''X''"
    using assms(1,3) by (auto simp: flags_say_def flag_defs bit.conj_disj_distrib2)
  show "base = (if c \<in> set ''xX'' then 16 else 10)" by (rule base)
qed

text \<open>A conversion, from the text of its directive to what the code prints.\<close>

lemma convert_text:
  assumes d: "directive_text strs (Convert fs w p l c) args = Some (t, args')" and s: "supported (Convert fs w p l c) args"
  shows "\<exists>sp args2. read_spec (fs @ spell_width w @ spell_prec p @ l @ c # r) args = Some (c # r, sp, args2) \<and>
    conv_text strs c sp args2 = Some (args', t) \<and> args2 = drop (count_list [w, p] Star) args"
proof -
  obtain neg n args1 k args2 a where v: "width_value w args = Some (neg, n, args1)"
    "prec_value p args1 = Some (k, args2)" "args2 = a # args'"
    using d by (auto simp: bind_eq_Some_conv next_arg_some Let_def split: if_splits)
  have a1: "args1 = (if w = Star then tl args else args)" using v(1) by (cases w; cases args) auto
  have fits: "set fs \<subseteq> set ''-+ 0''" "width_fits w args" "prec_fits p args1" "CHR ''0'' \<in> set fs \<Longrightarrow> p = Absent"
    "l \<in> {'''', ''h'', ''l''}" "c \<in> set ''csdiuxX''"
    using s a1 by auto
  obtain sp where sp: "read_spec (fs @ spell_width w @ spell_prec p @ l @ c # r) args = Some (c # r, sp, args2)"
    "flags_say (sp_flags sp) (neg \<or> CHR ''-'' \<in> set fs) (CHR ''+'' \<in> set fs) (CHR '' '' \<in> set fs) (CHR ''0'' \<in> set fs)"
    "nat (sp_width sp) = n" "sp_precision sp = (case k of None \<Rightarrow> - 1 | Some k \<Rightarrow> int k)"
    "sp_qualifier sp = CHR ''h'' \<longleftrightarrow> l = ''h''"
    using spec_spelled [OF fits(1) v(1) fits(2) v(2) fits(3,5,6), of r] by blast
  let ?left = "neg \<or> CHR ''-'' \<in> set fs"
  have k: "k \<noteq> Some 0" using v(2) fits(3) by (cases p; cases args1) auto
  have kn: "k = None" if "CHR ''0'' \<in> set fs" using fits(4) [OF that] v(2) by simp
  have left: "sp_flags sp AND LEFT \<noteq> 0 \<longleftrightarrow> ?left" using sp(2) by (simp add: flags_say_def)
  have used: "args2 = drop (count_list [w, p] Star) args"
    using v(1,2) by (cases w; cases p; cases args; cases args1) auto
  consider "c = CHR ''c''" | "c = CHR ''s''" | "c \<in> set ''diuxX''" using fits(6) by auto
  then have "conv_text strs c sp args2 = Some (args', t)"
  proof cases
    case 1
    then have "t = fill_to ?left n (of_char (CHR '' '')) [ucast a]" using d v by simp
    then show ?thesis using 1 v(3) sp(3) justify_fill [OF left] by (simp add: conv_text_def va_arg_def)
  next
    case 2
    then obtain cs where cs: "strs a = Some cs"
      "t = fill_to ?left n (of_char (CHR '' '')) (case k of None \<Rightarrow> cs | Some n \<Rightarrow> take n cs)"
      using d v by (auto simp: bind_eq_Some_conv)
    have "(if sp_precision sp > 0 then take (nat (sp_precision sp)) cs else cs) =
        (case k of None \<Rightarrow> cs | Some n \<Rightarrow> take n cs)"
      using sp(4) k by (cases k) auto
    then show ?thesis using 2 cs v(3) sp(3) justify_fill [OF left] by (simp add: conv_text_def va_arg_def string_text_def)
  next
    case 3
    then have "c \<noteq> CHR ''c''" "c \<noteq> CHR ''s''" "c \<noteq> CHR ''p''" "c \<noteq> CHR ''%''" by auto
    note ne = this
    have t: "t = map of_char (int_text fs ?left n k c (int_value (c \<in> set ''di'') l a))"
      using d v ne by simp
    obtain base fl where i: "int_conversion c = Some (base, fl)" using 3 by (auto simp: int_conversion_def)
    note f = flags_or_sign [OF sp(2) i 3]
    have "number_text (fetch_number (sp_qualifier sp) (sp_flags sp OR fl) a) base (sp_width sp) (sp_precision sp)
        (sp_flags sp OR fl) = int_text fs ?left n k c (int_value (c \<in> set ''di'') l a)"
      using number_text_int [OF f(1-6) 3 f(7) k kn, of _ "fetch_number (sp_qualifier sp) (sp_flags sp OR fl) a" "sp_width sp"]
        fetch_value [OF sp(5) f(5)] sp(3,4) by simp
    then show ?thesis using ne i t v(3) by (simp add: conv_text_def va_arg_def Let_def)
  qed
  then show ?thesis using sp(1) used by blast
qed

lemma directive_args: "directive_text strs d args = Some (t, args') \<Longrightarrow> args' = drop (args_used d) args"
proof (cases d)
  case (Convert fs w p l c)
  assume "directive_text strs d args = Some (t, args')"
  then obtain neg n args1 k args2 a where v: "width_value w args = Some (neg, n, args1)"
    "prec_value p args1 = Some (k, args2)" "args2 = a # args'"
    using Convert by (auto simp: bind_eq_Some_conv next_arg_some Let_def split: if_splits)
  have "args1 = drop (count_list [w] Star) args" using v(1) by (cases w; cases args) auto
  moreover have "args2 = drop (count_list [p] Star) args1" using v(2) by (cases p; cases args1) auto
  moreover have "args' = drop 1 args2" using v(3) by simp
  ultimately show ?thesis using Convert by (simp add: add.commute add.left_commute)
qed (auto simp: next_arg_some)

lemma pointer_text: "number_text a 16 8 (- 1) ZEROPAD = fill_to False 8 (CHR ''0'') (radix_text ''0123456789abcdef'' 16 (unat a))"
proof -
  have f: "ZEROPAD AND LEFT = 0" "ZEROPAD AND ZEROPAD \<noteq> 0" "ZEROPAD AND SIGN = 0" "ZEROPAD AND LARGE = 0"
    by (simp_all add: flag_defs)
  have g: "nat (8 - max (int k) (- 1)) = 8 - k" "nat (- 1 - int k) = 0" for k
    using nat_gap [of 8 k] by simp_all
  show ?thesis
    using f by (simp add: number_text_def sign_text_def number_sign_def Let_def radix_of_def fill_to_def g small_digits_def)
qed

text \<open>One directive in front of a format: its text in front of the text of the rest.\<close>

lemma format_directive:
  assumes d: "directive_text strs d args = Some (t, args')" and s: "supported d args"
  shows "format_text strs (spell_directive d @ r) args = map_option (\<lambda>ts. t @ ts) (format_text strs r args')"
    "string_args (spell_directive d @ r) args = directive_strings [d] args @ string_args r args'"
proof -
  have "format_text strs (spell_directive d @ r) args = map_option (\<lambda>ts. t @ ts) (format_text strs r args') \<and>
    string_args (spell_directive d @ r) args = directive_strings [d] args @ string_args r args'"
  proof (cases d)
    case (Plain c)
    then have c: "c \<noteq> CHR ''%''" "c \<noteq> NUL" "args' = args" "t = [of_char c]" using d s by auto
    then show ?thesis using Plain
      by (subst format_text.simps, subst string_args.simps) (cases "format_text strs r args"; simp add: peek_def)
  next
    case Percent
    have rs: "read_spec (CHR ''%'' # r) args =
        Some (CHR ''%'' # r, \<lparr>sp_flags = 0, sp_width = - 1, sp_precision = - 1, sp_qualifier = NUL\<rparr>, args)"
    proof -
      have "\<not> isdigit (CHR ''%'')" by code_simp
      then show ?thesis by (simp add: read_spec_def fmt_width_def fmt_precision_def fmt_qualifier_def peek_def)
    qed
    have c: "args' = args" "t = [of_char (CHR ''%'')]" using Percent d by auto
    show ?thesis unfolding c using Percent
      by (subst format_text.simps, subst string_args.simps) (simp add: rs peek_def conv_text_def after_conv_def)
  next
    case Pointer
    have rs: "read_spec (CHR ''p'' # r) args =
        Some (CHR ''p'' # r, \<lparr>sp_flags = 0, sp_width = - 1, sp_precision = - 1, sp_qualifier = NUL\<rparr>, args)"
    proof -
      have "\<not> isdigit (CHR ''p'')" by code_simp
      then show ?thesis by (simp add: read_spec_def fmt_width_def fmt_precision_def fmt_qualifier_def peek_def)
    qed
    obtain a where "args = a # args'" "t = map of_char (fill_to False 8 (CHR ''0'') (radix_text ''0123456789abcdef'' 16 (unat a)))"
      using Pointer d by (auto simp: next_arg_some)
    then show ?thesis using Pointer rs
      by (subst format_text.simps, subst string_args.simps)
        (simp add: peek_def conv_text_def va_arg_def after_conv_def pointer_text)
  next
    case (Convert fs w p l c)
    obtain sp args2 where sp: "read_spec (fs @ spell_width w @ spell_prec p @ l @ c # r) args = Some (c # r, sp, args2)"
      "conv_text strs c sp args2 = Some (args', t)" "args2 = drop (count_list [w, p] Star) args"
      using convert_text [OF d [unfolded Convert] s [unfolded Convert]] by blast
    have c: "c \<in> set ''csdiuxX''" using s Convert by auto
    have ac: "after_conv (c # r) = r" using c by (auto simp: after_conv_def peek_def)
    have a': "args' = drop (args_used d) args" by (rule directive_args [OF d])
    have "args' = tl args2" using a' sp(3) Convert by (simp add: drop_Suc tl_drop)
    then show ?thesis
      using Convert sp c ac
      by (subst format_text.simps, subst string_args.simps) (auto simp: peek_def)
  qed
  then show "format_text strs (spell_directive d @ r) args = map_option (\<lambda>ts. t @ ts) (format_text strs r args')"
    "string_args (spell_directive d @ r) args = directive_strings [d] args @ string_args r args'" by blast+
qed

lemma format_spelled:
  assumes "directives_text strs ds args = Some t" "all_supported ds args"
  shows "format_text strs (spell ds) args = Some t" "string_args (spell ds) args = directive_strings ds args"
proof -
  have "format_text strs (spell ds) args = Some t \<and> string_args (spell ds) args = directive_strings ds args"
    using assms
  proof (induction ds arbitrary: args t)
    case Nil
    then show ?case
      by (simp add: spell_def) (subst format_text.simps, subst string_args.simps, simp add: peek_def)
  next
    case (Cons d ds)
    obtain u args' ts where u: "directive_text strs d args = Some (u, args')" "directives_text strs ds args' = Some ts"
      "t = u @ ts"
      using Cons.prems(1) by (auto simp: bind_eq_Some_conv)
    have a': "args' = drop (args_used d) args" by (rule directive_args [OF u(1)])
    have s: "supported d args" "all_supported ds args'" using Cons.prems(2) a' by simp_all
    have sp: "spell (d # ds) = spell_directive d @ spell ds" by (simp add: spell_def)
    show ?case
      using format_directive [OF u(1) s(1), of "spell ds"] Cons.IH [OF u(2) s(2)] u(3) a' unfolding sp by simp
  qed
  then show "format_text strs (spell ds) args = Some t" "string_args (spell ds) args = directive_strings ds args"
    by blast+
qed

subsection \<open>Properties\<close>

text \<open>C27. For a format of plain characters and the directives %c, %s, %d, %i, %u, %x, %X, %p and %%,
  with the flags minus, plus, blank and 0, a positive field width and a positive precision, each
  also taken from an argument, and the lengths h and l - but no 0 flag beside a precision or
  with %c and %s, and no precision with %c - the buffer of rt_snprintf gets the text that the C
  standard prescribes for these directives, a pointer as eight hexadecimal digits, up to one
  byte less than its size and ended with a NUL, and the length of the whole text is returned,
  when the strings printed lie apart from the buffer and the lengths do not overflow. The text
  is defined on the directives, without the code that reads formats.\<close>

lemma snprintf_directives:
  assumes "directives_text (mem_text m) ds args = Some t" "all_supported ds args"
    and "unat buf + unat count < 2 ^ 32" "unat buf + length t < 2 ^ 32" "length t < 2 ^ 31"
    and "\<forall>s \<in> set (directive_strings ds args). string_apart {unat buf..<unat buf + unat count} m s"
  shows "rt_snprintf buf count (spell ds) args m = Some (int (length t),
    if count = 0 then m else store_text (unat buf) (take (unat count - 1) t @ [0]) m)"
proof -
  have "rt_snprintf buf count (spell ds) args m = Some (int (length t), printed buf (unat count) t m)"
    using snprintf_text [OF assms(3-5) format_spelled(1) [OF assms(1,2)]] assms(6)
    unfolding format_spelled(2) [OF assms(1,2)] by blast
  moreover have "unat count = 0 \<longleftrightarrow> count = 0" by (rule unat_eq_zero)
  ultimately show ?thesis by (simp add: printed_def del: unat_eq_0)
qed

text \<open>\<open>"%-6s|%05d|%.3x%%"\<close> with a string, a negative number and a number.\<close>

definition demo_directives :: "directive list" where
  "demo_directives =
     [Convert ''-'' (Given 6) Absent '''' (CHR ''s''), Plain (CHR ''|''),
      Convert ''0'' (Given 5) Absent '''' (CHR ''d''), Plain (CHR ''|''),
      Convert '''' Absent (Given 3) '''' (CHR ''x''), Percent]"

definition demo_text_memory :: bytes where
  "demo_text_memory = (\<lambda>a. if a = 0x300 then of_char (CHR ''h'') else if a = 0x301 then of_char (CHR ''i'') else 0)"

lemma demo_directives_text:
  "spell demo_directives = ''%-6s|%05d|%.3x%%''"
  "directives_text (mem_text demo_text_memory) demo_directives [0x300, - 42, 0xab] = Some (map of_char ''hi    |-0042|0ab%'')"
  "all_supported demo_directives [0x300, - 42, 0xab]" "directive_strings demo_directives [0x300, - 42, 0xab] = [0x300]"
  by code_simp+

lemma demo_string_apart: "string_apart {0x100..<0x120} demo_text_memory 0x300"
proof -
  have "mem_strlen demo_text_memory 0x300 = Some 2" by code_simp
  then show ?thesis by (simp add: string_apart_def)
qed

lemma snprintf_directives_witness:
  "rt_snprintf 0x100 32 ''%-6s|%05d|%.3x%%'' [0x300, - 42, 0xab] demo_text_memory =
    Some (17, store_text 0x100 (map of_char ''hi    |-0042|0ab%'' @ [0]) demo_text_memory)"
  using snprintf_directives [OF demo_directives_text(2,3), of "0x100" 32] demo_string_apart
  by (simp add: demo_directives_text(1,4))

text \<open>Where the code does not agree: octal numbers, a precision of 0, zeros beside a precision.\<close>

lemma snprintf_octal_text:
  "directives_text strs [Convert '''' Absent Absent '''' (CHR ''o'')] [8] = Some (map of_char ''10'')"
  "format_text strs (spell [Convert '''' Absent Absent '''' (CHR ''o'')]) [8] = Some (map of_char ''8'')"
  by code_simp+

lemma snprintf_precision_zero:
  "directives_text strs [Convert '''' Absent (Given 0) '''' (CHR ''d'')] [7] = Some (map of_char ''7'')"
  "format_text strs (spell [Convert '''' Absent (Given 0) '''' (CHR ''d'')]) [7] = Some []"
  by code_simp+

lemma snprintf_zero_precision:
  "directives_text strs [Convert ''0'' (Given 5) (Given 3) '''' (CHR ''d'')] [7] = Some (map of_char ''  007'')"
  "format_text strs (spell [Convert ''0'' (Given 5) (Given 3) '''' (CHR ''d'')]) [7] = Some (map of_char ''00007'')"
  by code_simp+

end
