(* ===== verification/RT_Device.thy ===== *)
theory RT_Device
  imports RT_Format RT_Thread
begin

unbundle bit_operations_syntax

text \<open>
  Devices, \<^verbatim>\<open>rt-thread/src/device.c\<close>, and the console of \<^verbatim>\<open>kservice.c\<close> on top of them.

  The state of the kernel is joined by the device structures, the byte memory of the buffers, the
  console device and the state of the drivers, which belongs to code outside of the kernel.  The
  handlers that a driver installs in the structure (\<open>init\<close>, \<open>open\<close> and so on, or null) are the
  parameter \<open>bd_driver\<close> of a board; a handler may change any part of the state.  Also parameters
  are the addresses of the static buffer \<open>rt_log_buf\<close> and of the names of objects, which
  \<open>rt_kprintf\<close> reads.
\<close>

definition RT_DEVICE_FLAG_STANDALONE :: u16 where "RT_DEVICE_FLAG_STANDALONE = 0x008"
definition RT_DEVICE_FLAG_ACTIVATED :: u16 where "RT_DEVICE_FLAG_ACTIVATED = 0x010"
definition RT_DEVICE_FLAG_STREAM :: u16 where "RT_DEVICE_FLAG_STREAM = 0x040"
definition RT_DEVICE_OFLAG_CLOSE :: u16 where "RT_DEVICE_OFLAG_CLOSE = 0x000"
definition RT_DEVICE_OFLAG_RDWR :: u16 where "RT_DEVICE_OFLAG_RDWR = 0x003"
definition RT_DEVICE_OFLAG_OPEN :: u16 where "RT_DEVICE_OFLAG_OPEN = 0x008"
definition RT_DEVICE_OFLAG_MASK :: u16 where "RT_DEVICE_OFLAG_MASK = 0xf0f"

lemmas device_flag_defs = RT_DEVICE_FLAG_STANDALONE_def RT_DEVICE_FLAG_ACTIVATED_def
  RT_DEVICE_FLAG_STREAM_def RT_DEVICE_OFLAG_CLOSE_def RT_DEVICE_OFLAG_RDWR_def
  RT_DEVICE_OFLAG_OPEN_def RT_DEVICE_OFLAG_MASK_def

record rt_device =
  dv_type :: nat
  dv_flag :: u16
  dv_open_flag :: u16
  dv_ref_count :: u8
  dv_device_id :: u8
  dv_rx_indicate :: u32
  dv_tx_complete :: u32
  dv_user_data :: u32

record 'w dstate =
  ds_kernel :: kstate
  ds_devices :: "ptr \<Rightarrow> rt_device"
  ds_mem :: bytes
  ds_console :: ptr            \<comment> \<open>\<open>_console_device\<close>\<close>
  ds_world :: 'w

type_synonym 'w handler = "'w dstate \<Rightarrow> (rt_err_t \<times> 'w dstate) option"
type_synonym 'w transfer = "u32 \<Rightarrow> u32 \<Rightarrow> u32 \<Rightarrow> 'w dstate \<Rightarrow> (u32 \<times> 'w dstate) option"

record 'w driver =
  drv_init :: "'w handler option"
  drv_open :: "(u16 \<Rightarrow> 'w handler) option"
  drv_close :: "'w handler option"
  drv_read :: "'w transfer option"
  drv_write :: "'w transfer option"
  drv_control :: "(u32 \<Rightarrow> u32 \<Rightarrow> 'w handler) option"

record 'w board =
  bd_driver :: "ptr \<Rightarrow> 'w driver"
  bd_log_buf :: u32
  bd_name :: "ptr \<Rightarrow> u32"

abbreviation upd_device :: "ptr \<Rightarrow> (rt_device \<Rightarrow> rt_device) \<Rightarrow> 'w dstate \<Rightarrow> 'w dstate" where
  "upd_device p f \<equiv> ds_devices_update (\<lambda>m. m(p := f (m p)))"

subsection \<open>Registration\<close>

definition rt_device_find :: "string \<Rightarrow> 'w dstate \<Rightarrow> (ptr \<times> 'w dstate) option" where
  "rt_device_find name s = do {
     let k = ds_kernel s;
     let k1 = (if rt_thread_self k \<noteq> RT_NULL then rt_enter_critical k else k);
     information \<leftarrow> rt_object_get_information RT_Object_Class_Device;
     let object = find_name (objs k1) name (object_lists k1 information);
     k2 \<leftarrow> (if rt_thread_self k1 \<noteq> RT_NULL then rt_exit_critical k1 else Some k1);
     Some (object, s\<lparr>ds_kernel := k2\<rparr>)
   }"

definition rt_device_register :: "ptr \<Rightarrow> string \<Rightarrow> u16 \<Rightarrow> 'w dstate \<Rightarrow> (rt_err_t \<times> 'w dstate) option" where
  "rt_device_register dev name flags s =
     (if dev = RT_NULL then Some (- RT_ERROR, s)
      else do {
        (found, s) \<leftarrow> rt_device_find name s;
        if found \<noteq> RT_NULL then Some (- RT_ERROR, s)
        else do {
          k \<leftarrow> rt_object_init dev RT_Object_Class_Device name (ds_kernel s);
          Some (RT_EOK, upd_device dev (\<lambda>d. d\<lparr>dv_flag := flags, dv_open_flag := 0, dv_ref_count := 0\<rparr>)
            (s\<lparr>ds_kernel := k\<rparr>))
        }
      })"

definition rt_device_unregister :: "ptr \<Rightarrow> 'w dstate \<Rightarrow> (rt_err_t \<times> 'w dstate) option" where
  "rt_device_unregister dev s = do {
     RT_ASSERT (dev \<noteq> RT_NULL);
     assert_type dev RT_Object_Class_Device (ds_kernel s);
     assert_static dev True (ds_kernel s);
     k \<leftarrow> rt_object_detach dev (ds_kernel s);
     Some (RT_EOK, s\<lparr>ds_kernel := k\<rparr>)
   }"

definition rt_device_init_all :: rt_err_t where
  "rt_device_init_all = RT_EOK"

text \<open>\<open>device\<close> is what \<open>rt_malloc\<close> returned.\<close>

definition rt_device_create :: "ptr \<Rightarrow> nat \<Rightarrow> 'w dstate \<Rightarrow> ptr \<times> 'w dstate" where
  "rt_device_create device ty s =
     (if device \<noteq> RT_NULL
      then (device, upd_device device (\<lambda>_. \<lparr>dv_type = ty, dv_flag = 0, dv_open_flag = 0, dv_ref_count = 0,
          dv_device_id = 0, dv_rx_indicate = 0, dv_tx_complete = 0, dv_user_data = 0\<rparr>)
        (ds_kernel_update (upd_obj device
          (\<lambda>_. \<lparr>obj_name = replicate RT_NAME_MAX NUL, obj_type = 0, obj_flag = 0\<rparr>)) s))
      else (device, s))"

text \<open>\<open>rt_free\<close> gives the block back to the heap, which is not part of this state.\<close>

definition rt_device_destroy :: "ptr \<Rightarrow> 'w dstate \<Rightarrow> 'w dstate option" where
  "rt_device_destroy dev s = do {
     RT_ASSERT (dev \<noteq> RT_NULL);
     assert_type dev RT_Object_Class_Device (ds_kernel s);
     assert_static dev False (ds_kernel s);
     k \<leftarrow> rt_object_detach dev (ds_kernel s);
     Some (s\<lparr>ds_kernel := k\<rparr>)
   }"

subsection \<open>Reading and writing\<close>

definition rt_device_read ::
  "'w board \<Rightarrow> ptr \<Rightarrow> u32 \<Rightarrow> u32 \<Rightarrow> u32 \<Rightarrow> 'w dstate \<Rightarrow> (u32 \<times> 'w dstate) option" where
  "rt_device_read b dev pos buffer count s = do {
     RT_ASSERT (dev \<noteq> RT_NULL);
     assert_type dev RT_Object_Class_Device (ds_kernel s);
     if dv_ref_count (ds_devices s dev) = 0
     then Some (0, ds_kernel_update (rt_set_errno (- RT_ERROR)) s)
     else case drv_read (bd_driver b dev) of
       Some h \<Rightarrow> h pos buffer count s
     | None \<Rightarrow> Some (0, ds_kernel_update (rt_set_errno (- RT_ENOSYS)) s)
   }"

definition rt_device_write ::
  "'w board \<Rightarrow> ptr \<Rightarrow> u32 \<Rightarrow> u32 \<Rightarrow> u32 \<Rightarrow> 'w dstate \<Rightarrow> (u32 \<times> 'w dstate) option" where
  "rt_device_write b dev pos buffer count s = do {
     RT_ASSERT (dev \<noteq> RT_NULL);
     assert_type dev RT_Object_Class_Device (ds_kernel s);
     if dv_ref_count (ds_devices s dev) = 0
     then Some (0, ds_kernel_update (rt_set_errno (- RT_ERROR)) s)
     else case drv_write (bd_driver b dev) of
       Some h \<Rightarrow> h pos buffer count s
     | None \<Rightarrow> Some (0, ds_kernel_update (rt_set_errno (- RT_ENOSYS)) s)
   }"

definition rt_device_control ::
  "'w board \<Rightarrow> ptr \<Rightarrow> u32 \<Rightarrow> u32 \<Rightarrow> 'w dstate \<Rightarrow> (rt_err_t \<times> 'w dstate) option" where
  "rt_device_control b dev cmd arg s = do {
     RT_ASSERT (dev \<noteq> RT_NULL);
     assert_type dev RT_Object_Class_Device (ds_kernel s);
     case drv_control (bd_driver b dev) of
       Some h \<Rightarrow> h cmd arg s
     | None \<Rightarrow> Some (- RT_ENOSYS, s)
   }"

definition rt_device_set_rx_indicate :: "ptr \<Rightarrow> u32 \<Rightarrow> 'w dstate \<Rightarrow> (rt_err_t \<times> 'w dstate) option" where
  "rt_device_set_rx_indicate dev rx_ind s = do {
     RT_ASSERT (dev \<noteq> RT_NULL);
     assert_type dev RT_Object_Class_Device (ds_kernel s);
     Some (RT_EOK, upd_device dev (dv_rx_indicate_update (\<lambda>_. rx_ind)) s)
   }"

definition rt_device_set_tx_complete :: "ptr \<Rightarrow> u32 \<Rightarrow> 'w dstate \<Rightarrow> (rt_err_t \<times> 'w dstate) option" where
  "rt_device_set_tx_complete dev tx_done s = do {
     RT_ASSERT (dev \<noteq> RT_NULL);
     assert_type dev RT_Object_Class_Device (ds_kernel s);
     Some (RT_EOK, upd_device dev (dv_tx_complete_update (\<lambda>_. tx_done)) s)
   }"

subsection \<open>The console\<close>

definition rt_console_get_device :: "'w dstate \<Rightarrow> ptr" where
  "rt_console_get_device s = ds_console s"

text \<open>
  Writing to the console in stream mode; without a console device the empty
  \<open>rt_hw_console_output\<close> is called.
\<close>

definition console_write :: "'w board \<Rightarrow> u32 \<Rightarrow> u32 \<Rightarrow> 'w dstate \<Rightarrow> 'w dstate option" where
  "console_write b str count s =
     (if ds_console s = RT_NULL then Some s
      else do {
        let dev = ds_console s;
        let old_flag = dv_open_flag (ds_devices s dev);
        let s = upd_device dev (dv_open_flag_update (\<lambda>f. f OR RT_DEVICE_FLAG_STREAM)) s;
        (n, s) \<leftarrow> rt_device_write b dev 0 str count s;
        let dev = ds_console s;
        RT_ASSERT (dev \<noteq> RT_NULL);
        Some (upd_device dev (dv_open_flag_update (\<lambda>_. old_flag)) s)
      })"

definition rt_kputs :: "'w board \<Rightarrow> u32 \<Rightarrow> 'w dstate \<Rightarrow> 'w dstate option" where
  "rt_kputs b str s =
     (if str = 0 then Some s
      else if ds_console s = RT_NULL then Some s
      else do {
        n \<leftarrow> mem_strlen (ds_mem s) str;
        console_write b str (of_nat n) s
      })"

definition RT_CONSOLEBUF_SIZE :: u32 where "RT_CONSOLEBUF_SIZE = 128"

definition rt_kprintf :: "'w board \<Rightarrow> string \<Rightarrow> u32 list \<Rightarrow> 'w dstate \<Rightarrow> 'w dstate option" where
  "rt_kprintf b fmt args s = do {
     (r, m) \<leftarrow> rt_vsnprintf (bd_log_buf b) (RT_CONSOLEBUF_SIZE - 1) fmt args (ds_mem s);
     let len = (word_of_int r :: u32);
     let len = (if len > RT_CONSOLEBUF_SIZE - 1 then RT_CONSOLEBUF_SIZE - 1 else len);
     console_write b (bd_log_buf b) len (s\<lparr>ds_mem := m\<rparr>)
   }"

subsection \<open>Initialising, opening and closing\<close>

definition init_failed :: "'w board \<Rightarrow> ptr \<Rightarrow> rt_err_t \<Rightarrow> 'w dstate \<Rightarrow> 'w dstate option" where
  "init_failed b dev result s =
     rt_kprintf b (''To initialize device:%s failed. The error code is %d'' @ [CHR 0x0A])
       [bd_name b dev, word_of_int result] s"

abbreviation activate :: "ptr \<Rightarrow> 'w dstate \<Rightarrow> 'w dstate" where
  "activate dev \<equiv> upd_device dev (dv_flag_update (\<lambda>f. f OR RT_DEVICE_FLAG_ACTIVATED))"

abbreviation activated :: "'w dstate \<Rightarrow> ptr \<Rightarrow> bool" where
  "activated s dev \<equiv> dv_flag (ds_devices s dev) AND RT_DEVICE_FLAG_ACTIVATED \<noteq> 0"

definition rt_device_init :: "'w board \<Rightarrow> ptr \<Rightarrow> 'w dstate \<Rightarrow> (rt_err_t \<times> 'w dstate) option" where
  "rt_device_init b dev s = do {
     RT_ASSERT (dev \<noteq> RT_NULL);
     case drv_init (bd_driver b dev) of
       None \<Rightarrow> Some (RT_EOK, s)
     | Some h \<Rightarrow>
         if activated s dev then Some (RT_EOK, s)
         else do {
           (result, s) \<leftarrow> h s;
           if result \<noteq> RT_EOK
           then do {
             s \<leftarrow> init_failed b dev result s;
             Some (result, s)
           }
           else Some (result, activate dev s)
         }
   }"

text \<open>The first part of \<open>rt_device_open\<close>; the flag tells to go on.\<close>

definition open_activate :: "'w board \<Rightarrow> ptr \<Rightarrow> 'w dstate \<Rightarrow> (bool \<times> rt_err_t \<times> 'w dstate) option" where
  "open_activate b dev s =
     (if activated s dev then Some (True, RT_EOK, s)
      else case drv_init (bd_driver b dev) of
        None \<Rightarrow> Some (True, RT_EOK, activate dev s)
      | Some h \<Rightarrow> do {
          (result, s) \<leftarrow> h s;
          if result \<noteq> RT_EOK
          then do {
            s \<leftarrow> init_failed b dev result s;
            Some (False, result, s)
          }
          else Some (True, result, activate dev s)
        })"

definition rt_device_open :: "'w board \<Rightarrow> ptr \<Rightarrow> u16 \<Rightarrow> 'w dstate \<Rightarrow> (rt_err_t \<times> 'w dstate) option" where
  "rt_device_open b dev oflag s = do {
     RT_ASSERT (dev \<noteq> RT_NULL);
     assert_type dev RT_Object_Class_Device (ds_kernel s);
     (go_on, result, s) \<leftarrow> open_activate b dev s;
     if \<not> go_on then Some (result, s)
     else if dv_flag (ds_devices s dev) AND RT_DEVICE_FLAG_STANDALONE \<noteq> 0 \<and>
             dv_open_flag (ds_devices s dev) AND RT_DEVICE_OFLAG_OPEN \<noteq> 0
     then Some (- RT_EBUSY, s)
     else do {
       (result, s) \<leftarrow>
         (case drv_open (bd_driver b dev) of
            Some h \<Rightarrow> h oflag s
          | None \<Rightarrow> Some (result, upd_device dev (dv_open_flag_update (\<lambda>_. oflag AND RT_DEVICE_OFLAG_MASK)) s));
       if result = RT_EOK \<or> result = - RT_ENOSYS
       then do {
         let s = upd_device dev (\<lambda>d. d\<lparr>dv_open_flag := dv_open_flag d OR RT_DEVICE_OFLAG_OPEN,
           dv_ref_count := dv_ref_count d + 1\<rparr>) s;
         RT_ASSERT (dv_ref_count (ds_devices s dev) \<noteq> 0);
         Some (result, s)
       }
       else Some (result, s)
     }
   }"

definition rt_device_close :: "'w board \<Rightarrow> ptr \<Rightarrow> 'w dstate \<Rightarrow> (rt_err_t \<times> 'w dstate) option" where
  "rt_device_close b dev s = do {
     RT_ASSERT (dev \<noteq> RT_NULL);
     assert_type dev RT_Object_Class_Device (ds_kernel s);
     if dv_ref_count (ds_devices s dev) = 0 then Some (- RT_ERROR, s)
     else do {
       let s = upd_device dev (dv_ref_count_update (\<lambda>n. n - 1)) s;
       if dv_ref_count (ds_devices s dev) \<noteq> 0 then Some (RT_EOK, s)
       else do {
         (result, s) \<leftarrow> (case drv_close (bd_driver b dev) of Some h \<Rightarrow> h s | None \<Rightarrow> Some (RT_EOK, s));
         Some (result,
           if result = RT_EOK \<or> result = - RT_ENOSYS
           then upd_device dev (dv_open_flag_update (\<lambda>_. RT_DEVICE_OFLAG_CLOSE)) s else s)
       }
     }
   }"

definition rt_console_set_device :: "'w board \<Rightarrow> string \<Rightarrow> 'w dstate \<Rightarrow> (ptr \<times> 'w dstate) option" where
  "rt_console_set_device b name s = do {
     let old = ds_console s;
     (new, s) \<leftarrow> rt_device_find name s;
     s \<leftarrow> (if new \<noteq> RT_NULL then do {
            (r, s) \<leftarrow> (if ds_console s \<noteq> RT_NULL then rt_device_close b (ds_console s) s else Some (RT_EOK, s));
            (r, s) \<leftarrow> rt_device_open b new (RT_DEVICE_OFLAG_RDWR OR RT_DEVICE_FLAG_STREAM) s;
            Some (s\<lparr>ds_console := new\<rparr>)
          }
          else Some s);
     Some (old, s)
   }"

end
