(* ===== verification/RT_Console.thy ===== *)
theory RT_Console
  imports RT_Device RT_Demo
begin

unbundle bit_operations_syntax

text \<open>
  Properties of the devices of \<open>RT_Device\<close>: the count of references balances opens and closes
  under drivers that keep their hands off it, a failing \<open>close\<close> of a driver blocks a stand-alone
  device, a created device can never be destroyed, and what \<open>rt_kprintf\<close> hands to the console.
\<close>

subsection \<open>What a driver leaves alone\<close>

abbreviation refs :: "'w dstate \<Rightarrow> ptr \<Rightarrow> u8" where
  "refs s dev \<equiv> dv_ref_count (ds_devices s dev)"

abbreviation is_open :: "'w dstate \<Rightarrow> ptr \<Rightarrow> bool" where
  "is_open s dev \<equiv> dv_open_flag (ds_devices s dev) AND RT_DEVICE_OFLAG_OPEN \<noteq> 0"

abbreviation is_device :: "'w dstate \<Rightarrow> ptr \<Rightarrow> bool" where
  "is_device s dev \<equiv> has_type (ds_kernel s) dev RT_Object_Class_Device"

abbreviation good :: "rt_err_t \<Rightarrow> bool" where
  "good r \<equiv> r = RT_EOK \<or> r = - RT_ENOSYS"

definition same_refs :: "ptr \<Rightarrow> 'w dstate \<Rightarrow> 'w dstate \<Rightarrow> bool" where
  "same_refs dev s s' \<longleftrightarrow> is_device s' dev = is_device s dev \<and> refs s' dev = refs s dev"

definition same_books :: "ptr \<Rightarrow> 'w dstate \<Rightarrow> 'w dstate \<Rightarrow> bool" where
  "same_books dev s s' \<longleftrightarrow> same_refs dev s s' \<and> is_open s' dev = is_open s dev"

text \<open>
  The contract of the drivers of a board towards one device.  The init handler does not fail with
  \<open>-RT_ENOSYS\<close>, which \<open>rt_device_open\<close> would return without opening the device although it takes
  this value of the open handler as success.  The open handler may set the open flags when it
  succeeds and changes nothing in the books of the device when it fails.  A close handler succeeds:
  what happens otherwise is shown below.  Writing to any device, which the console may
  be, leaves the device and the choice of the console alone.
\<close>

definition board_ok :: "'w board \<Rightarrow> ptr \<Rightarrow> bool" where
  "board_ok b dev \<longleftrightarrow>
     (\<forall>h s r s'. drv_init (bd_driver b dev) = Some h \<longrightarrow> h s = Some (r, s') \<longrightarrow>
        same_books dev s s' \<and> r \<noteq> - RT_ENOSYS) \<and>
     (\<forall>h fl s r s'. drv_open (bd_driver b dev) = Some h \<longrightarrow> h fl s = Some (r, s') \<longrightarrow>
        same_refs dev s s' \<and> (\<not> good r \<longrightarrow> same_books dev s s')) \<and>
     (\<forall>h s r s'. drv_close (bd_driver b dev) = Some h \<longrightarrow> h s = Some (r, s') \<longrightarrow> good r \<and> same_books dev s s') \<and>
     (\<forall>q h pos buf n s r s'. drv_write (bd_driver b q) = Some h \<longrightarrow> h pos buf n s = Some (r, s') \<longrightarrow>
        same_books dev s s' \<and> ds_console s' = ds_console s)"

lemma same_books_refl [simp]: "same_books dev s s"
  by (simp add: same_books_def same_refs_def)

lemma same_books_trans: "same_books dev s s' \<Longrightarrow> same_books dev s' s'' \<Longrightarrow> same_books dev s s''"
  by (simp add: same_books_def same_refs_def)

lemma stream_keeps_open: "((f :: u16) OR RT_DEVICE_FLAG_STREAM) AND RT_DEVICE_OFLAG_OPEN = f AND RT_DEVICE_OFLAG_OPEN"
  by (simp add: device_flag_defs bit.conj_disj_distrib2)

lemma objs_set_errno: "objs (rt_set_errno e k) = objs k"
  by (simp add: rt_set_errno_def Let_def)

lemma write_books:
  assumes "board_ok b dev" "rt_device_write b q pos buf n s = Some (r, s')"
  shows "same_books dev s s'" "ds_console s' = ds_console s"
proof -
  have "same_books dev s s' \<and> ds_console s' = ds_console s"
  proof (cases "refs s q = 0")
    case True
    then show ?thesis using assms(2)
      by (auto simp: rt_device_write_def same_books_def same_refs_def has_type_def objs_set_errno
          split: if_splits)
  next
    case False
    then show ?thesis
      using assms by (cases "drv_write (bd_driver b q)")
        (auto simp: rt_device_write_def same_books_def same_refs_def has_type_def objs_set_errno board_ok_def
          split: if_splits)
  qed
  then show "same_books dev s s'" "ds_console s' = ds_console s" by blast+
qed

lemma console_books:
  assumes "board_ok b dev" "console_write b str n s = Some s'"
  shows "same_books dev s s'"
proof (cases "ds_console s = RT_NULL")
  case False
  let ?q = "ds_console s"
  let ?s = "upd_device ?q (dv_open_flag_update (\<lambda>f. f OR RT_DEVICE_FLAG_STREAM)) s"
  from False assms(2) obtain r s1 where w: "rt_device_write b ?q 0 str n ?s = Some (r, s1)"
    and s': "s' = upd_device ?q (dv_open_flag_update (\<lambda>_. dv_open_flag (ds_devices s ?q))) s1"
    by (auto simp: console_write_def Let_def RT_ASSERT_bind split: Option.bind_splits if_splits
        dest: write_books(2) [OF assms(1)])
  have "same_books dev s ?s"
    by (simp add: same_books_def same_refs_def stream_keeps_open)
  with write_books(1) [OF assms(1) w] have "same_books dev s s1" by (rule same_books_trans [rotated])
  then show ?thesis by (auto simp: s' same_books_def same_refs_def)
qed (use assms(2) in \<open>simp add: console_write_def\<close>)

lemma init_failed_books:
  assumes "board_ok b dev" "init_failed b dev r s = Some s'"
  shows "same_books dev s s'"
proof -
  from assms(2) obtain m n where "console_write b (bd_log_buf b) n (s\<lparr>ds_mem := m\<rparr>) = Some s'"
    by (auto simp: init_failed_def rt_kprintf_def Let_def split: Option.bind_splits)
  from console_books [OF assms(1) this] show ?thesis by (simp add: same_books_def same_refs_def)
qed

lemma activate_books:
  assumes "board_ok b dev" "open_activate b dev s = Some (g, r, s')"
  shows "same_books dev s s'" "if g then r = RT_EOK else \<not> good r"
proof -
  have "same_books dev s s' \<and> (if g then r = RT_EOK else \<not> good r)"
  proof (cases "activated s dev")
    case False
    show ?thesis
    proof (cases "drv_init (bd_driver b dev)")
      case None
      with False assms(2) show ?thesis
        by (auto simp: open_activate_def same_books_def same_refs_def)
    next
      case (Some h)
      with False assms(2) obtain q s1 where h: "h s = Some (q, s1)"
        by (auto simp: open_activate_def split: Option.bind_splits)
      with Some assms(1) have b: "same_books dev s s1" "q \<noteq> - RT_ENOSYS" by (auto simp: board_ok_def)
      show ?thesis
      proof (cases "q = RT_EOK")
        case True
        with False Some h assms(2) have "s' = activate dev s1" "g" "r = RT_EOK" by (auto simp: open_activate_def)
        with b show ?thesis by (simp add: same_books_def same_refs_def)
      next
        case q: False
        with False Some h assms(2) have "init_failed b dev q s1 = Some s'" "r = q" "\<not> g"
          by (auto simp: open_activate_def split: Option.bind_splits)
        with init_failed_books [OF assms(1)] b q show ?thesis by (auto intro: same_books_trans)
      qed
    qed
  qed (use assms(2) in \<open>simp add: open_activate_def\<close>)
  then show "same_books dev s s'" "if g then r = RT_EOK else \<not> good r" by blast+
qed


text \<open>Opening and closing, under the contract.\<close>

lemma device_open_books:
  assumes b: "board_ok b dev" and o: "rt_device_open b dev fl s = Some (r, s')"
  shows "is_device s dev" "is_device s' dev" "\<not> good r \<Longrightarrow> same_books dev s s'"
    "good r \<Longrightarrow> refs s' dev = refs s dev + 1 \<and> refs s' dev \<noteq> 0 \<and> is_open s' dev"
proof -
  from o obtain g q s1 where d: "is_device s dev" and a: "open_activate b dev s = Some (g, q, s1)"
    by (auto simp: rt_device_open_def split: Option.bind_splits if_splits)
  note s1 = activate_books [OF b a]
  have d1: "is_device s1 dev" using s1(1) d by (simp add: same_books_def same_refs_def)
  have "is_device s' dev \<and> (\<not> good r \<longrightarrow> same_books dev s s') \<and>
      (good r \<longrightarrow> refs s' dev = refs s dev + 1 \<and> refs s' dev \<noteq> 0 \<and> is_open s' dev)"
  proof (cases "g \<and> \<not> (dv_flag (ds_devices s1 dev) AND RT_DEVICE_FLAG_STANDALONE \<noteq> 0 \<and> is_open s1 dev)")
    case False
    with o a d have "s' = s1" "\<not> good r"
      using s1(2) by (auto simp: rt_device_open_def rt_err_defs split: if_splits)
    with s1(1) d1 show ?thesis by simp
  next
    case True
    then obtain fl' s2 where h: "(case drv_open (bd_driver b dev) of Some h \<Rightarrow> h fl s1
        | None \<Rightarrow> Some (q, upd_device dev (dv_open_flag_update (\<lambda>_. fl AND RT_DEVICE_OFLAG_MASK)) s1)) = Some (fl', s2)"
      using o a d by (auto simp: rt_device_open_def split: Option.bind_splits if_splits)
    have q: "good q" using True s1(2) by simp
    have keep: "same_refs dev s1 s2" "\<not> good fl' \<Longrightarrow> same_books dev s1 s2"
      using h b q by (auto simp: same_refs_def board_ok_def split: option.splits)
    have st: "s' = (if good fl' then upd_device dev (\<lambda>d. d\<lparr>dv_open_flag := dv_open_flag d OR RT_DEVICE_OFLAG_OPEN,
           dv_ref_count := dv_ref_count d + 1\<rparr>) s2 else s2)" "r = fl'" "good fl' \<longrightarrow> refs s2 dev + 1 \<noteq> 0"
      using o a d True h by (auto simp: rt_device_open_def RT_ASSERT_bind Let_def split: if_splits)
    show ?thesis
      using st keep d1 s1(1)
      by (auto simp: same_refs_def same_books_def device_flag_defs bit.conj_disj_distrib2)
  qed
  with d show "is_device s dev" "is_device s' dev" "\<not> good r \<Longrightarrow> same_books dev s s'"
    "good r \<Longrightarrow> refs s' dev = refs s dev + 1 \<and> refs s' dev \<noteq> 0 \<and> is_open s' dev" by blast+
qed

lemma device_close_books:
  assumes b: "board_ok b dev" and o: "rt_device_close b dev s = Some (r, s')"
  shows "is_device s dev" "is_device s' dev" "refs s dev = 0 \<Longrightarrow> s' = s \<and> r = - RT_ERROR"
    "refs s dev \<noteq> 0 \<Longrightarrow> good r \<and> refs s' dev = refs s dev - 1 \<and> (is_open s' dev \<longleftrightarrow> is_open s dev \<and> refs s' dev \<noteq> 0)"
proof -
  let ?s = "upd_device dev (dv_ref_count_update (\<lambda>n. n - 1)) s"
  from o have d: "is_device s dev" by (auto simp: rt_device_close_def split: if_splits)
  have "is_device s' dev \<and> (refs s dev = 0 \<longrightarrow> s' = s \<and> r = - RT_ERROR) \<and>
      (refs s dev \<noteq> 0 \<longrightarrow> good r \<and> refs s' dev = refs s dev - 1 \<and>
        (is_open s' dev \<longleftrightarrow> is_open s dev \<and> refs s' dev \<noteq> 0))"
  proof (cases "refs s dev = 0 \<or> refs ?s dev \<noteq> 0")
    case True
    with o d show ?thesis by (auto simp: rt_device_close_def Let_def split: if_splits)
  next
    case False
    then obtain q s1 where h: "(case drv_close (bd_driver b dev) of Some h \<Rightarrow> h ?s | None \<Rightarrow> Some (RT_EOK, ?s)) = Some (q, s1)"
      using o d by (auto simp: rt_device_close_def Let_def split: Option.bind_splits if_splits)
    then have c: "good q" "same_books dev ?s s1"
      using b by (auto simp: board_ok_def split: option.splits)
    have st: "s' = upd_device dev (dv_open_flag_update (\<lambda>_. RT_DEVICE_OFLAG_CLOSE)) s1" "r = q"
      using o d False h c(1) by (auto simp: rt_device_close_def Let_def split: if_splits)
    show ?thesis
      using st c d False by (auto simp: same_books_def same_refs_def device_flag_defs)
  qed
  with d show "is_device s dev" "is_device s' dev" "refs s dev = 0 \<Longrightarrow> s' = s \<and> r = - RT_ERROR"
    "refs s dev \<noteq> 0 \<Longrightarrow> good r \<and> refs s' dev = refs s dev - 1 \<and> (is_open s' dev \<longleftrightarrow> is_open s dev \<and> refs s' dev \<noteq> 0)"
    by blast+
qed

text \<open>
  Runs of opens, closes and other code on a device: \<open>device_run b dev s\<^sub>0 s n c\<close> says that \<open>n\<close> opens and
  \<open>c\<close> closes succeeded on the way from \<open>s\<^sub>0\<close> to \<open>s\<close>.
\<close>

inductive device_run :: "'w board \<Rightarrow> ptr \<Rightarrow> 'w dstate \<Rightarrow> 'w dstate \<Rightarrow> nat \<Rightarrow> nat \<Rightarrow> bool"
  for b dev s0 where
  start: "device_run b dev s0 s0 0 0"
| opened: "device_run b dev s0 s n c \<Longrightarrow> rt_device_open b dev fl s = Some (r, s') \<Longrightarrow>
    device_run b dev s0 s' (if good r then n + 1 else n) c"
| closed: "device_run b dev s0 s n c \<Longrightarrow> rt_device_close b dev s = Some (r, s') \<Longrightarrow>
    device_run b dev s0 s' n (if good r then c + 1 else c)"
| other: "device_run b dev s0 s n c \<Longrightarrow> same_books dev s s' \<Longrightarrow> device_run b dev s0 s' n c"

text \<open>C30. In every run of opens, closes and other code on a device the number of successful opens is
  the number of successful closes plus the reference count, and the device is marked open
  exactly if they differ - provided that close handlers succeed, init handlers do not return
  -RT_ENOSYS and leave flags and count of the device alone, a failing open handler does so too,
  and writing to a device changes neither them nor the console. The property behind this one
  shows what a failing close handler does.\<close>

lemma device_balance:
  assumes "device_run b dev s0 s n c" "board_ok b dev" "refs s0 dev = 0" "\<not> is_open s0 dev"
  shows "n = c + unat (refs s dev) \<and> (is_open s dev \<longleftrightarrow> n \<noteq> c)"
  using assms(1)
proof induction
  case (opened s n c fl r s')
  note o = device_open_books [OF assms(2) opened.hyps(2)]
  show ?case
  proof (cases "good r")
    case True
    with o(4) have "refs s' dev = refs s dev + 1" "refs s' dev \<noteq> 0" "is_open s' dev" by blast+
    moreover from this have "unat (refs s' dev) = unat (refs s dev) + 1"
      by (simp add: unatSuc add.commute)
    ultimately show ?thesis using True opened.IH by simp
  next
    case False
    with o(3) opened.IH show ?thesis by (simp add: same_books_def same_refs_def)
  qed
next
  case (closed s n c r s')
  note o = device_close_books [OF assms(2) closed.hyps(2)]
  show ?case
  proof (cases "refs s dev = 0")
    case True
    with o(3) closed.IH show ?thesis by (simp add: rt_err_defs)
  next
    case False
    with o(4) have "good r" "refs s' dev = refs s dev - 1" "is_open s' dev \<longleftrightarrow> is_open s dev \<and> refs s' dev \<noteq> 0"
      by blast+
    moreover from this False have "unat (refs s' dev) + 1 = unat (refs s dev)"
      by (simp add: unat_minus_one unat_gt_0)
    moreover from this have "refs s' dev \<noteq> 0 \<longleftrightarrow> unat (refs s dev) \<noteq> 1" by (auto simp: unat_eq_0 [symmetric] simp del: unat_eq_0)
    ultimately show ?thesis using False closed.IH by auto
  qed
qed (use assms(3,4) in \<open>auto simp: same_books_def same_refs_def\<close>)


subsection \<open>Faults\<close>

text \<open>A close handler that fails leaves a stand-alone device marked open with no reference to it.\<close>

text \<open>C31. When the close handler of a driver fails, a stand-alone device stays marked open without
  references: every later open returns -RT_EBUSY and every close -RT_ERROR.\<close>

lemma device_close_stuck:
  assumes "is_device s dev" "refs s dev = 1" "is_open s dev" "activated s dev"
    "dv_flag (ds_devices s dev) AND RT_DEVICE_FLAG_STANDALONE \<noteq> 0"
    "drv_close (bd_driver b dev) = Some (\<lambda>s. Some (r, s))" "\<not> good r"
  shows "\<exists>s'. rt_device_close b dev s = Some (r, s') \<and>
    rt_device_open b dev fl s' = Some (- RT_EBUSY, s') \<and> rt_device_close b dev s' = Some (- RT_ERROR, s')"
  using assms
  by (auto simp: rt_device_close_def rt_device_open_def open_activate_def Let_def RT_ASSERT_bind has_type_def)

text \<open>Destroying needs a registered object that is not static, but registering marks it static.\<close>

lemma device_register_type:
  assumes "rt_device_register dev name fl s = Some (RT_EOK, s')"
  shows "dev \<noteq> RT_NULL" "obj_type (objs (ds_kernel s') dev) = RT_Object_Class_Device OR RT_Object_Class_Static"
    "refs s' dev = 0" "\<not> is_open s' dev"
  using assms
  by (auto simp: rt_device_register_def rt_object_init_def rt_object_init_attach_def Let_def rt_err_defs
      split: Option.bind_splits if_splits)

lemma device_destroy_fails:
  assumes "rt_device_create mem ty s0 = (dev, s1)" "dev \<noteq> RT_NULL"
    "rt_device_register dev name fl s1 = Some (RT_EOK, s2)" "rt_device_unregister dev s2 = Some (RT_EOK, s3)"
  shows "rt_device_destroy dev s1 = None \<and> rt_device_destroy dev s2 = None \<and> rt_device_destroy dev s3 = None"
proof -
  have "obj_type (objs (ds_kernel s1) dev) = 0" using assms(1,2) by (auto simp: rt_device_create_def split: if_splits)
  moreover have "obj_type (objs (ds_kernel s3) dev) = 0"
    using assms(4) by (auto simp: rt_device_unregister_def rt_object_detach_def Let_def split: if_splits)
  ultimately show ?thesis
    using device_register_type(2) [OF assms(3)]
    by (simp add: rt_device_destroy_def has_type_def class_defs)
qed

text \<open>A registered device is found under its name.\<close>

lemma device_class: "rt_object_get_information RT_Object_Class_Device = Some 8"
  using get_information_index [of 8] by (simp add: object_classes_def)

lemma device_find_total:
  assumes "sched_ready (ds_kernel s)"
  shows "\<exists>k. rt_device_find name s =
      Some (find_name (objs (ds_kernel s)) name (object_lists (ds_kernel s) 8), s\<lparr>ds_kernel := k\<rparr>) \<and>
    sched_ready k \<and> sched_frame (ds_kernel s) k"
proof (cases "current_thread (ds_kernel s) = RT_NULL")
  case True
  with assms show ?thesis
    by (intro exI [of _ "ds_kernel s"]) (simp add: rt_device_find_def device_class rt_thread_self_def Let_def)
next
  case False
  then show ?thesis using critical_total [OF assms]
    by (auto simp: rt_device_find_def device_class rt_thread_self_def Let_def rt_enter_critical_def)
qed

lemma device_register_find:
  assumes "sched_ready (ds_kernel s)" "c_string name" "dev \<noteq> RT_NULL"
    "dev \<notin> set (object_lists (ds_kernel s) 8)"
    "find_name (objs (ds_kernel s)) name (object_lists (ds_kernel s) 8) = RT_NULL"
  shows "\<exists>s1 s2. rt_device_register dev name fl s = Some (RT_EOK, s1) \<and> rt_device_find name s1 = Some (dev, s2)"
proof -
  obtain k where f: "rt_device_find name s = Some (RT_NULL, s\<lparr>ds_kernel := k\<rparr>)"
    and k: "sched_ready k" "sched_frame (ds_kernel s) k"
    using device_find_total [OF assms(1), of name] assms(5) by auto
  obtain k1 where k1: "rt_object_init dev RT_Object_Class_Device name k = Some k1"
    "object_lists k1 = (object_lists k)(8 := dev # object_lists k 8)"
    "objs k1 = (objs k)(dev := (objs k dev)\<lparr>obj_type := RT_Object_Class_Device OR RT_Object_Class_Static,
      obj_name := rt_strncpy name RT_NAME_MAX\<rparr>)" "sched_ready k1"
    using object_init_total [OF k(1) device_class] assms(4) sched_frame_fields [OF k(2)] by auto
  let ?s1 = "upd_device dev (\<lambda>d. d\<lparr>dv_flag := fl, dv_open_flag := 0, dv_ref_count := 0\<rparr>) (s\<lparr>ds_kernel := k1\<rparr>)"
  have r: "rt_device_register dev name fl s = Some (RT_EOK, ?s1)"
    using assms(3) f k1(1) by (simp add: rt_device_register_def)
  have "sched_ready (ds_kernel ?s1)" using k1(4) by simp
  from device_find_total [OF this, of name] obtain s2 where "rt_device_find name ?s1 = Some (dev, s2)"
    using k1(2,3) assms(2) by (auto simp: strncmp_strncpy)
  with r show ?thesis by blast
qed

subsection \<open>The console\<close>

text \<open>
  A driver for the witnesses and for the statement about \<open>rt_kprintf\<close>: it collects the bytes written
  to it, as a transmitter does.
\<close>

definition bytes_at :: "bytes \<Rightarrow> u32 \<Rightarrow> nat \<Rightarrow> u8 list" where
  "bytes_at m a n = map (\<lambda>i. m (unat a + i)) [0..<n]"

definition transmit :: "u8 list transfer" where
  "transmit pos buffer count s =
     Some (count, ds_world_update (\<lambda>w. w @ bytes_at (ds_mem s) buffer (unat count)) s)"

lemma bytes_at_store: "n \<le> length cs \<Longrightarrow> bytes_at (store_text (unat a) cs m) a n = take n cs"
  by (rule nth_equalityI) (simp_all add: bytes_at_def store_text_def)

text \<open>The length that \<open>rt_kprintf\<close> hands on, and the bytes of that length.\<close>

lemma kprintf_length:
  assumes "length t < 2 ^ 31"
  shows "unat (if (word_of_int (int (length t)) :: u32) > RT_CONSOLEBUF_SIZE - 1 then RT_CONSOLEBUF_SIZE - 1
     else word_of_int (int (length t))) = min (length t) 127"
proof -
  have "unat (word_of_int (int (length t)) :: u32) = length t" using assms by (simp add: unat_of_nat)
  then show ?thesis by (auto simp: RT_CONSOLEBUF_SIZE_def word_less_nat_alt min_def)
qed

lemma kprintf_bytes:
  "take (min (length t) 127) (take 126 t @ [0 :: u8]) = (if length t < 127 then t else take 126 t @ [0])"
  by (auto simp: min_def)

text \<open>C29. rt_kprintf hands a text of less than 127 bytes to the console device as it is; of a longer
  text the device gets 126 bytes and the NUL behind them.\<close>

lemma kprintf_sends:
  assumes dev: "is_device s (ds_console s)" "refs s (ds_console s) \<noteq> 0"
      "drv_write (bd_driver b (ds_console s)) = Some transmit"
    and addr: "unat (bd_log_buf b) + 128 < 2 ^ 32" "unat (bd_log_buf b) + length t < 2 ^ 32" "length t < 2 ^ 31"
    and f: "format_text (mem_text (ds_mem s)) fmt args = Some t"
    and ap: "\<forall>a \<in> set (string_args fmt args).
      string_apart {unat (bd_log_buf b)..<unat (bd_log_buf b) + 127} (ds_mem s) a"
  shows "\<exists>s'. rt_kprintf b fmt args s = Some s' \<and>
    ds_world s' = ds_world s @ (if length t < 127 then t else take 126 t @ [0]) \<and>
    ds_devices s' = ds_devices s"
proof -
  let ?buf = "bd_log_buf b" and ?q = "ds_console s"
  let ?m = "printed ?buf 127 t (ds_mem s)"
  let ?len = "if (word_of_int (int (length t)) :: u32) > RT_CONSOLEBUF_SIZE - 1 then RT_CONSOLEBUF_SIZE - 1
     else word_of_int (int (length t))"
  have v: "rt_vsnprintf ?buf (RT_CONSOLEBUF_SIZE - 1) fmt args (ds_mem s) = Some (int (length t), ?m)"
    using rt_vsnprintf_text [OF _ addr(2,3) f, of "RT_CONSOLEBUF_SIZE - 1"] addr(1) ap
    by (simp add: RT_CONSOLEBUF_SIZE_def)
  have bytes: "bytes_at ?m ?buf (unat ?len) = (if length t < 127 then t else take 126 t @ [0])"
    unfolding kprintf_length [OF addr(3)]
    by (subst kprintf_bytes [symmetric]) (simp add: printed_def bytes_at_store)
  have nn: "?q \<noteq> RT_NULL" using dev(1) by (simp add: has_type_def)
  have "console_write b ?buf ?len (s\<lparr>ds_mem := ?m\<rparr>) =
      Some (s\<lparr>ds_mem := ?m, ds_world := ds_world s @ bytes_at ?m ?buf (unat ?len)\<rparr>)"
    using dev nn
    by (simp add: console_write_def rt_device_write_def transmit_def Let_def RT_ASSERT_bind has_type_def del: if_split)
  then show ?thesis
    using v bytes by (simp add: rt_kprintf_def Let_def del: if_split)
qed

end
