(* ===== verification/RT_Idle.thy ===== *)
theory RT_Idle
  imports RT_Console
begin

text \<open>
  The idle thread, \<^verbatim>\<open>rt-thread/src/idle.c\<close>: its hooks and the cleaning up of threads that ended.
  Addresses of functions are words; what the hooks and the cleanup functions of threads do is a
  parameter.  The block of a thread goes back to the heap, which is not part of the state.
\<close>

subsection \<open>Hooks\<close>

definition RT_IDEL_HOOK_LIST_SIZE :: nat where "RT_IDEL_HOOK_LIST_SIZE = 4"

text \<open>The loops over the array: put a hook into the first free place, or clear the first place of it.\<close>

fun hook_put :: "u32 \<Rightarrow> u32 \<Rightarrow> u32 list \<Rightarrow> (u32 list) option" where
  "hook_put old new [] = None"
| "hook_put old new (h # hs) = (if h = old then Some (new # hs) else map_option (Cons h) (hook_put old new hs))"

definition rt_thread_idle_sethook :: "u32 \<Rightarrow> u32 list \<Rightarrow> rt_err_t \<times> u32 list" where
  "rt_thread_idle_sethook hook hooks =
     (case hook_put 0 hook hooks of Some hs \<Rightarrow> (RT_EOK, hs) | None \<Rightarrow> (- RT_EFULL, hooks))"

definition rt_thread_idle_delhook :: "u32 \<Rightarrow> u32 list \<Rightarrow> rt_err_t \<times> u32 list" where
  "rt_thread_idle_delhook hook hooks =
     (case hook_put hook 0 hooks of Some hs \<Rightarrow> (RT_EOK, hs) | None \<Rightarrow> (- RT_ENOSYS, hooks))"

subsection \<open>Threads that ended\<close>

definition has_defunct_thread :: "kstate \<Rightarrow> bool" where
  "has_defunct_thread s \<longleftrightarrow> tlists s Defunct \<noteq> []"

text \<open>
  One round of the loop from disabling the interrupts; the flag tells whether the loop goes on.
\<close>

definition idle_clean :: "(u32 \<Rightarrow> ptr \<Rightarrow> kstate \<Rightarrow> kstate option) \<Rightarrow> kstate \<Rightarrow> (bool \<times> kstate) option" where
  "idle_clean cleanup s =
     (if has_defunct_thread s then do {
        let thread = hd (tlists s Defunct);
        let s = tlists_update (seq_remove thread) s;
        let s = rt_enter_critical s;
        s \<leftarrow> (if th_cleanup (threads s thread) \<noteq> 0 then cleanup (th_cleanup (threads s thread)) thread s
              else Some s);
        static \<leftarrow> rt_object_is_systemobject thread s;
        if static then do {
          s \<leftarrow> rt_object_detach thread s;
          s \<leftarrow> rt_exit_critical s;
          Some (False, s)
        }
        else do {
          s \<leftarrow> rt_exit_critical s;
          s \<leftarrow> rt_object_delete thread s;
          Some (True, s)
        }
      }
      else Some (False, s))"

partial_function (option) rt_thread_idle_excute ::
  "(u32 \<Rightarrow> ptr \<Rightarrow> kstate \<Rightarrow> kstate option) \<Rightarrow> kstate \<Rightarrow> kstate option" where
  "rt_thread_idle_excute cleanup s =
     (if has_defunct_thread s
      then do {
        not_in_interrupt s;
        (go_on, s) \<leftarrow> idle_clean cleanup s;
        if go_on then rt_thread_idle_excute cleanup s else Some s
      }
      else Some s)"

text \<open>One round of the endless loop of the idle thread: the hooks in order, then the clean-up.\<close>

fun run_hooks :: "(u32 \<Rightarrow> kstate \<Rightarrow> kstate option) \<Rightarrow> u32 list \<Rightarrow> kstate \<Rightarrow> kstate option" where
  "run_hooks call [] s = Some s"
| "run_hooks call (h # hs) s = do {
     s \<leftarrow> (if h \<noteq> 0 then call h s else Some s);
     run_hooks call hs s
   }"

definition idle_round ::
  "(u32 \<Rightarrow> kstate \<Rightarrow> kstate option) \<Rightarrow> (u32 \<Rightarrow> ptr \<Rightarrow> kstate \<Rightarrow> kstate option) \<Rightarrow> u32 list \<Rightarrow> kstate \<Rightarrow> kstate option" where
  "idle_round call cleanup hooks s = do {
     s \<leftarrow> run_hooks call hooks s;
     rt_thread_idle_excute cleanup s
   }"

text \<open>
  Starting the idle thread.  The name is what \<open>rt_sprintf\<close> makes of \<open>tidle%d\<close> and 0, see below;
  \<open>entry\<close>, \<open>stack\<close> and \<open>texit\<close> are the addresses of \<open>rt_thread_idle_entry\<close>, of the static stack and of
  \<open>rt_thread_exit\<close>.
\<close>

definition IDLE_THREAD_STACK_SIZE :: u32 where "IDLE_THREAD_STACK_SIZE = 256"

definition rt_thread_idle_init :: "u32 \<Rightarrow> u32 \<Rightarrow> u32 \<Rightarrow> kstate \<Rightarrow> kstate option" where
  "rt_thread_idle_init texit entry stack s = do {
     (r, s) \<leftarrow> rt_thread_init texit Idle_thread ''tidle0'' entry 0 stack IDLE_THREAD_STACK_SIZE
       (of_nat RT_THREAD_PRIORITY_MAX - 1) 32 s;
     (r, s) \<leftarrow> rt_thread_startup Idle_thread s;
     Some s
   }"

definition rt_thread_idle_gethandler :: ptr where
  "rt_thread_idle_gethandler = Idle_thread"

subsection \<open>What they do\<close>

lemma idle_name: "format_text strs ''tidle%d'' [0] = Some (map of_char ''tidle0'')"
  by code_simp

lemma hook_put_length: "hook_put a c hs = Some hs' \<Longrightarrow> length hs' = length hs"
  by (induction hs arbitrary: hs') (auto split: if_splits)

text \<open>Hooks as a multiset: setting adds one, deleting takes one away, and a full list is reported.\<close>

lemma hook_put_count:
  "hook_put a c hs = Some hs' \<Longrightarrow> a \<noteq> c \<Longrightarrow>
     count_list hs' x + (if x = a then 1 else 0) = count_list hs x + (if x = c then 1 else 0)"
  by (induction hs arbitrary: hs') (auto split: if_splits)

lemma hook_put_none: "hook_put a c hs = None \<longleftrightarrow> a \<notin> set hs"
  by (induction hs) auto

lemma hook_set_delete:
  assumes "rt_thread_idle_sethook h hs = (RT_EOK, hs1)" "h \<noteq> 0"
  shows "\<exists>hs2. rt_thread_idle_delhook h hs1 = (RT_EOK, hs2) \<and> count_list hs2 x = count_list hs x"
proof -
  from assms(1) have p: "hook_put 0 h hs = Some hs1"
    by (auto simp: rt_thread_idle_sethook_def rt_err_defs split: option.splits)
  have "count_list hs1 h > 0" using hook_put_count [OF p, of h] assms(2) by simp
  then have "h \<in> set hs1" by (metis count_notin less_irrefl)
  then obtain hs2 where d: "hook_put h 0 hs1 = Some hs2" by (metis hook_put_none not_None_eq)
  have "count_list hs2 x = count_list hs x"
    using hook_put_count [OF p, of x] hook_put_count [OF d, of x] assms(2) by (auto split: if_splits)
  with d show ?thesis by (simp add: rt_thread_idle_delhook_def)
qed

text \<open>What is left of a thread that was cleaned up: no class, and on no list of objects.\<close>

definition forget :: "ptr \<Rightarrow> kstate \<Rightarrow> kstate" where
  "forget t s = s\<lparr>objs := (objs s)(t := (objs s t)\<lparr>obj_type := 0\<rparr>),
     tlists := seq_remove t (tlists s), object_lists := (\<lambda>i. removeAll t (object_lists s i))\<rparr>"

definition idle_alone :: "kstate \<Rightarrow> bool" where
  "idle_alone s \<longleftrightarrow> ready_group s = 0 \<and> lock_nest s = 0 \<and> interrupt_nest s = 0 \<and> current_thread s = Idle_thread"

lemma idle_clean_forget:
  assumes "idle_alone s" "tlists s Defunct = t # ts" "t \<noteq> RT_NULL" "\<And>f k. cleanup f t k = Some k"
  shows "idle_clean cleanup s = Some (obj_type (objs s t) AND RT_Object_Class_Static = 0, forget t s)"
proof -
  have lock: "rt_exit_critical k = Some (k\<lparr>lock_nest := 0\<rparr>)" if "lock_nest k = 1" "ready_group k = 0" for k
    using that by (auto simp: rt_exit_critical_def Let_def schedule_none)
  have l: "lock_nest s + 1 = 1" using assms(1) by (simp add: idle_alone_def)
  show ?thesis
    using assms
    by (cases s) (auto simp: idle_clean_def has_defunct_thread_def idle_alone_def rt_enter_critical_def Let_def
        rt_object_detach_def rt_object_delete_def forget_def RT_ASSERT_bind lock)
qed

lemma forget_alone: "idle_alone (forget t s) = idle_alone s"
  by (simp add: idle_alone_def forget_def)

lemma forget_defunct:
  "tlists s Defunct = t # ts \<Longrightarrow> distinct (t # ts) \<Longrightarrow> tlists (forget t s) Defunct = ts"
  by (simp add: forget_def seq_remove_def)

text \<open>
  The clean-up of an idle system comes back.  It takes the threads off the list one after the other,
  up to and with the first one that is static, and leaves the threads behind that one on the list.
\<close>

text \<open>C32. When nothing else is ready the clean-up of the idle thread returns; it takes the ended
  threads off the list up to and with the first static one and leaves the threads behind it.\<close>

lemma idle_excute_cleans:
  assumes "idle_alone s" "tlists s Defunct = xs @ ys" "distinct (xs @ ys)" "RT_NULL \<notin> set (xs @ ys)"
    "\<And>f t k. cleanup f t k = Some k"
    "\<forall>t\<in>set xs. obj_type (objs s t) AND RT_Object_Class_Static = 0"
    "ys \<noteq> [] \<Longrightarrow> obj_type (objs s (hd ys)) AND RT_Object_Class_Static \<noteq> 0"
  shows "\<exists>s'. rt_thread_idle_excute cleanup s = Some s' \<and> tlists s' Defunct = tl ys \<and>
    s' = fold forget (xs @ take 1 ys) s"
  using assms
proof (induction xs arbitrary: s)
  case Nil
  show ?case
  proof (cases ys)
    case (Cons y zs)
    have n: "interrupt_nest s = 0" using Nil.prems(1) by (simp add: idle_alone_def)
    have "idle_clean cleanup s = Some (False, forget y s)"
      using idle_clean_forget [of s y zs cleanup] Nil.prems Cons by auto
    then show ?thesis
      using Nil.prems Cons n forget_defunct [of s y zs]
      by (subst rt_thread_idle_excute.simps) (simp add: has_defunct_thread_def)
  qed (use Nil.prems in \<open>subst rt_thread_idle_excute.simps, simp add: has_defunct_thread_def\<close>)
next
  case (Cons x xs)
  have n: "interrupt_nest s = 0" using Cons.prems(1) by (simp add: idle_alone_def)
  have c: "idle_clean cleanup s = Some (True, forget x s)"
    using idle_clean_forget [of s x "xs @ ys" cleanup] Cons.prems by auto
  have x: "x \<notin> set xs" "ys \<noteq> [] \<longrightarrow> hd ys \<noteq> x" using Cons.prems(3) by (cases ys; auto)+
  have other: "objs (forget x s) t = objs s t" if "t \<noteq> x" for t using that by (simp add: forget_def)
  have "\<exists>s'. rt_thread_idle_excute cleanup (forget x s) = Some s' \<and> tlists s' Defunct = tl ys \<and>
      s' = fold forget (xs @ take 1 ys) (forget x s)"
  proof (rule Cons.IH)
    show "idle_alone (forget x s)" using Cons.prems(1) by (simp add: forget_alone)
    show "tlists (forget x s) Defunct = xs @ ys"
      using Cons.prems(2,3) forget_defunct [of s x "xs @ ys"] by simp
    show "distinct (xs @ ys)" "RT_NULL \<notin> set (xs @ ys)" using Cons.prems(3,4) by simp_all
    show "\<forall>t\<in>set xs. obj_type (objs (forget x s) t) AND RT_Object_Class_Static = 0"
    proof
      fix t assume "t \<in> set xs"
      moreover from this x(1) have "t \<noteq> x" by blast
      ultimately show "obj_type (objs (forget x s) t) AND RT_Object_Class_Static = 0"
        using Cons.prems(6) other by simp
    qed
    show "obj_type (objs (forget x s) (hd ys)) AND RT_Object_Class_Static \<noteq> 0" if "ys \<noteq> []"
      using that x(2) Cons.prems(7) other by simp
  qed (rule Cons.prems(5))
  then show ?case
    using Cons.prems(2) n c by (subst rt_thread_idle_excute.simps) (simp add: has_defunct_thread_def)
qed

subsection \<open>Examples\<close>

text \<open>A board whose devices only transmit, and one whose devices fail to close.\<close>

definition demo_board :: "u8 list board" where
  "demo_board = \<lparr>bd_driver = (\<lambda>_. \<lparr>drv_init = None, drv_open = None, drv_close = None, drv_read = None,
     drv_write = Some transmit, drv_control = None\<rparr>), bd_log_buf = 0x200, bd_name = (\<lambda>_. 0)\<rparr>"

definition stuck_board :: "u8 list board" where
  "stuck_board = demo_board\<lparr>bd_driver := (\<lambda>_. \<lparr>drv_init = None, drv_open = None,
     drv_close = Some (\<lambda>s. Some (- RT_EIO, s)), drv_read = None, drv_write = None, drv_control = None\<rparr>)\<rparr>"

definition demo_device :: "u16 \<Rightarrow> u8 \<Rightarrow> rt_device" where
  "demo_device oflag n = \<lparr>dv_type = 0, dv_flag = RT_DEVICE_FLAG_STANDALONE OR RT_DEVICE_FLAG_ACTIVATED,
     dv_open_flag = oflag, dv_ref_count = n, dv_device_id = 0, dv_rx_indicate = 0, dv_tx_complete = 0, dv_user_data = 0\<rparr>"

definition demo_devices :: "u16 \<Rightarrow> u8 \<Rightarrow> u8 list dstate" where
  "demo_devices oflag n = \<lparr>ds_kernel = demo, ds_devices = (\<lambda>_. demo_device oflag n), ds_mem = (\<lambda>_. 0),
     ds_console = Ptr 17, ds_world = []\<rparr>"

lemma kprintf_sends_witness:
  "\<exists>s'. rt_kprintf demo_board ''%5d|'' [12] (demo_devices RT_DEVICE_OFLAG_OPEN 1) = Some s' \<and>
    ds_world s' = map of_char ''   12|''"
proof -
  have f: "format_text (mem_text (\<lambda>_. 0)) ''%5d|'' [12] = Some (map of_char ''   12|'')" "string_args ''%5d|'' [12] = []"
    by code_simp+
  let ?t = "map of_char ''   12|'' :: u8 list" and ?s = "demo_devices RT_DEVICE_OFLAG_OPEN 1"
  have "\<exists>s'. rt_kprintf demo_board ''%5d|'' [12] ?s = Some s' \<and>
    ds_world s' = ds_world ?s @ (if length ?t < 127 then ?t else take 126 ?t @ [0]) \<and> ds_devices s' = ds_devices ?s"
    by (rule kprintf_sends) (simp_all add: demo_devices_def demo_board_def demo_device_def f)
  then show ?thesis by (auto simp: demo_devices_def)
qed

lemma demo_board_ok: "board_ok demo_board dev"
  by (auto simp: board_ok_def demo_board_def transmit_def same_books_def same_refs_def)

lemma device_balance_witness:
  "\<exists>s'. rt_device_open demo_board (Ptr 17) 3 (demo_devices 0 0) = Some (RT_EOK, s') \<and> refs s' (Ptr 17) = 1"
proof -
  let ?s = "demo_devices 0 0"
  obtain s' where o: "rt_device_open demo_board (Ptr 17) 3 ?s = Some (RT_EOK, s')"
    by (simp add: rt_device_open_def open_activate_def demo_devices_def demo_board_def demo_device_def
        device_flag_defs Let_def RT_ASSERT_bind)
  have "device_run demo_board (Ptr 17) ?s s' 1 0"
    using device_run.opened [OF device_run.start o] by simp
  from device_balance [OF this demo_board_ok] have "1 = unat (refs s' (Ptr 17))"
    by (simp add: demo_devices_def demo_device_def)
  then have "refs s' (Ptr 17) = 1" by (metis unat_1 word_unat_eq_iff)
  with o show ?thesis by blast
qed

lemma device_close_stuck_witness:
  "\<exists>s'. rt_device_close stuck_board (Ptr 17) (demo_devices RT_DEVICE_OFLAG_OPEN 1) = Some (- RT_EIO, s') \<and>
    rt_device_open stuck_board (Ptr 17) 3 s' = Some (- RT_EBUSY, s')"
  using device_close_stuck [of "demo_devices RT_DEVICE_OFLAG_OPEN 1" "Ptr 17" stuck_board "- RT_EIO" 3]
  by (auto simp: demo_devices_def demo_device_def stuck_board_def device_flag_defs rt_err_defs)

lemma sched_ready_objs: "sched_ready (objs_update f s) = sched_ready s"
  by (simp add: sched_ready_def sched_inv_def table_inv_def tlists_ok_def ready_ok_def mask_ok_def
      running_ok_def stack_ok_def)

lemma device_destroy_fails_witness:
  "\<exists>s1 s2 :: u8 list dstate. rt_device_create (Ptr 18) 0 (demo_devices 0 0) = (Ptr 18, s1) \<and>
    rt_device_register (Ptr 18) ''uart'' 3 s1 = Some (RT_EOK, s2) \<and> rt_device_destroy (Ptr 18) s2 = None"
proof -
  obtain s1 where c: "rt_device_create (Ptr 18) 0 (demo_devices 0 0) = (Ptr 18, s1)"
    and k: "ds_kernel s1 = upd_obj (Ptr 18) (\<lambda>_. \<lparr>obj_name = replicate RT_NAME_MAX NUL, obj_type = 0, obj_flag = 0\<rparr>) demo"
    by (simp add: rt_device_create_def demo_devices_def)
  have "sched_ready (ds_kernel s1)"
    unfolding k sched_ready_objs by (rule kernel_ok_ready) simp
  then obtain s2 where r: "rt_device_register (Ptr 18) ''uart'' 3 s1 = Some (RT_EOK, s2)"
    using device_register_find [of s1 "''uart''" "Ptr 18" 3] k by (auto simp: c_string_def)
  obtain s3 where u: "rt_device_unregister (Ptr 18) s2 = Some (RT_EOK, s3)"
    using device_register_type [OF r]
    by (simp add: rt_device_unregister_def has_type_def class_defs rt_object_detach_def RT_ASSERT_bind Let_def)
  from device_destroy_fails [OF c _ r u] c r show ?thesis by auto
qed

text \<open>Threads 2 and 3 ended; thread 3 is static, as all objects of the example, so it comes first.\<close>

lemma idle_excute_cleans_witness:
  "\<exists>s s'. tlists s Defunct = [Ptr 2, Ptr 3, Ptr 4] \<and>
    rt_thread_idle_excute (\<lambda>_ _. Some) s = Some s' \<and> tlists s' Defunct = [Ptr 4]"
proof -
  let ?s = "upd_obj (Ptr 2) (obj_type_update (\<lambda>_. RT_Object_Class_Thread))
    (demo\<lparr>ready_group := 0, current_thread := Idle_thread, tlists := (\<lambda>_. [])(Defunct := [Ptr 2, Ptr 3, Ptr 4])\<rparr>)"
  have "\<exists>s'. rt_thread_idle_excute (\<lambda>_ _. Some) ?s = Some s' \<and> tlists s' Defunct = tl [Ptr 3, Ptr 4] \<and>
      s' = fold forget ([Ptr 2] @ take 1 [Ptr 3, Ptr 4]) ?s"
    by (rule idle_excute_cleans) (simp_all add: idle_alone_def demo_def demo_object_def class_defs)
  then obtain s' where "rt_thread_idle_excute (\<lambda>_ _. Some) ?s = Some s'" "tlists s' Defunct = [Ptr 4]" by auto
  moreover have "tlists ?s Defunct = [Ptr 2, Ptr 3, Ptr 4]" by simp
  ultimately show ?thesis by blast
qed

end
