(* ===== verification/Finsh_Vm.thy ===== *)
theory Finsh_Vm
  imports RT_Prelude "HOL-Library.Signed_Division"
begin

text \<open>
  The virtual machine of the finsh shell: \<^verbatim>\<open>rt-thread/components/finsh/finsh_vm.c\<close> and
  \<^verbatim>\<open>finsh_ops.c\<close>.  A slot of the stack is the \<open>union finsh_value\<close>, 32 bits of which a byte
  operation reads and writes the low 8 and a word operation the low 16, leaving the others alone.

  \<open>char\<close> is unsigned on this target, \<open>short\<close> and \<open>long\<close> are signed with 16 and 32 bits, all little
  endian.  \<open>None\<close> stands for undefined behaviour: an access outside of the stack or the text segment,
  a division by zero, a shift by a negative or too large count.  Results beyond the range of the type wrap.
\<close>

datatype width = Byte | Word | Dword

datatype bin_op = Add | Sub | Div | Mod | Mul | And | Or | Xor | Shl | Shr

definition FINSH_STACK_MAX :: nat where "FINSH_STACK_MAX = 64"
definition FINSH_TEXT_MAX :: nat where "FINSH_TEXT_MAX = 128"

subsection \<open>Little endian bytes\<close>

definition FINSH_GET16 :: "u8 \<Rightarrow> u8 \<Rightarrow> u16" where
  "FINSH_GET16 a b = ucast a OR push_bit 8 (ucast b)"

definition FINSH_GET32 :: "u8 \<Rightarrow> u8 \<Rightarrow> u8 \<Rightarrow> u8 \<Rightarrow> u32" where
  "FINSH_GET32 a b c d =
     ucast a OR push_bit 8 (ucast b) OR push_bit 16 (ucast c) OR push_bit 24 (ucast d)"

definition FINSH_SET16 :: "u16 \<Rightarrow> u8 list" where
  "FINSH_SET16 v = [ucast v, ucast (drop_bit 8 v)]"

definition FINSH_SET32 :: "u32 \<Rightarrow> u8 list" where
  "FINSH_SET32 v = [ucast v, ucast (drop_bit 8 v), ucast (drop_bit 16 v), ucast (drop_bit 24 v)]"

lemma get_set_16: "FINSH_GET16 (ucast v) (ucast (drop_bit 8 v)) = v"
  by (rule bit_word_eqI) (auto simp: FINSH_GET16_def bit_simps)

lemma get_set_32:
  "FINSH_GET32 (ucast v) (ucast (drop_bit 8 v)) (ucast (drop_bit 16 v)) (ucast (drop_bit 24 v)) = v"
proof (rule bit_word_eqI)
  fix n :: nat
  assume "n < LENGTH(32)"
  then show "bit (FINSH_GET32 (ucast v) (ucast (drop_bit 8 v)) (ucast (drop_bit 16 v)) (ucast (drop_bit 24 v))) n =
      bit v n"
    by (cases "24 + (n - 24) = n") (auto simp: FINSH_GET32_def bit_simps)
qed

subsection \<open>Slots and memory\<close>

text \<open>The members \<open>char_value\<close>, \<open>short_value\<close> and \<open>long_value\<close> of a slot.\<close>

fun slot_get :: "width \<Rightarrow> u32 \<Rightarrow> int" where
  "slot_get Byte v = uint (ucast v :: u8)"
| "slot_get Word v = sint (ucast v :: u16)"
| "slot_get Dword v = sint v"

fun slot_put :: "width \<Rightarrow> int \<Rightarrow> u32 \<Rightarrow> u32" where
  "slot_put Byte i v = (v AND NOT 0xff) OR ucast (word_of_int i :: u8)"
| "slot_put Word i v = (v AND NOT 0xffff) OR ucast (word_of_int i :: u16)"
| "slot_put Dword i v = word_of_int i"

type_synonym vm_memory = "u32 \<Rightarrow> u8"

fun mem_get :: "width \<Rightarrow> u32 \<Rightarrow> vm_memory \<Rightarrow> int" where
  "mem_get Byte a m = uint (m a)"
| "mem_get Word a m = sint (FINSH_GET16 (m a) (m (a + 1)))"
| "mem_get Dword a m = sint (FINSH_GET32 (m a) (m (a + 1)) (m (a + 2)) (m (a + 3)))"

fun mem_put :: "width \<Rightarrow> int \<Rightarrow> u32 \<Rightarrow> vm_memory \<Rightarrow> vm_memory" where
  "mem_put Byte i a m = m(a := word_of_int i)"
| "mem_put Word i a m =
     (let v = (word_of_int i :: u16) in m(a := ucast v, a + 1 := ucast (drop_bit 8 v)))"
| "mem_put Dword i a m =
     (let v = (word_of_int i :: u32)
      in m(a := ucast v, a + 1 := ucast (drop_bit 8 v), a + 2 := ucast (drop_bit 16 v),
           a + 3 := ucast (drop_bit 24 v)))"

record finsh_vm =
  finsh_sp :: nat
  finsh_pc :: nat
  finsh_vm_stack :: "u32 list"
  text_segment :: "u8 list"
  finsh_memory :: vm_memory

text \<open>The slot \<open>finsh_sp - k\<close>.\<close>

definition slot_at :: "nat \<Rightarrow> finsh_vm \<Rightarrow> u32 option" where
  "slot_at k s =
     (if k \<le> finsh_sp s \<and> finsh_sp s - k < length (finsh_vm_stack s)
      then Some (finsh_vm_stack s ! (finsh_sp s - k)) else None)"

definition set_slot :: "nat \<Rightarrow> u32 \<Rightarrow> finsh_vm \<Rightarrow> finsh_vm" where
  "set_slot k v s = s\<lparr>finsh_vm_stack := (finsh_vm_stack s)[finsh_sp s - k := v]\<rparr>"

text \<open>The operand of \<open>n\<close> bytes behind the opcode.\<close>

definition operand :: "nat \<Rightarrow> finsh_vm \<Rightarrow> u8 list option" where
  "operand n s =
     (if finsh_pc s + n \<le> length (text_segment s) then Some (take n (drop (finsh_pc s) (text_segment s)))
      else None)"

definition operand_byte :: "finsh_vm \<Rightarrow> u8 option" where
  "operand_byte s = do { b \<leftarrow> operand 1 s; Some (b ! 0) }"

definition operand_word :: "finsh_vm \<Rightarrow> u16 option" where
  "operand_word s = do { b \<leftarrow> operand 2 s; Some (FINSH_GET16 (b ! 0) (b ! 1)) }"

definition operand_dword :: "finsh_vm \<Rightarrow> u32 option" where
  "operand_dword s = do { b \<leftarrow> operand 4 s; Some (FINSH_GET32 (b ! 0) (b ! 1) (b ! 2) (b ! 3)) }"

subsection \<open>Operations\<close>

text \<open>The operators of C on the promoted operands.\<close>

fun c_op :: "bin_op \<Rightarrow> int \<Rightarrow> int \<Rightarrow> int option" where
  "c_op Add a b = Some (a + b)"
| "c_op Sub a b = Some (a - b)"
| "c_op Mul a b = Some (a * b)"
| "c_op Div a b = (if b = 0 \<or> a = - (2 ^ 31) \<and> b = - 1 then None else Some (a sdiv b))"
| "c_op Mod a b = (if b = 0 \<or> a = - (2 ^ 31) \<and> b = - 1 then None else Some (a smod b))"
| "c_op And a b = Some (a AND b)"
| "c_op Or a b = Some (a OR b)"
| "c_op Xor a b = Some (a XOR b)"
| "c_op Shl a b = (if 0 \<le> b \<and> b < 32 then Some (a * 2 ^ nat b) else None)"
| "c_op Shr a b = (if 0 \<le> b \<and> b < 32 then Some (a div 2 ^ nat b) else None)"

text \<open>The macros \<open>OP_BIN_BYTE\<close>, \<open>OP_BIN_WORD\<close> and \<open>OP_BIN_DWORD\<close>.\<close>

definition OP_BIN :: "width \<Rightarrow> bin_op \<Rightarrow> finsh_vm \<Rightarrow> finsh_vm option" where
  "OP_BIN w f s = do {
     a \<leftarrow> slot_at 2 s;
     b \<leftarrow> slot_at 1 s;
     r \<leftarrow> c_op f (slot_get w a) (slot_get w b);
     Some ((set_slot 2 (slot_put w r a) s)\<lparr>finsh_sp := finsh_sp s - 1\<rparr>)
   }"

definition OP_no_op :: "finsh_vm \<Rightarrow> finsh_vm option" where
  "OP_no_op s = Some s"

definition OP_add_byte :: "finsh_vm \<Rightarrow> finsh_vm option" where
  "OP_add_byte = OP_BIN Byte Add"
definition OP_add_word :: "finsh_vm \<Rightarrow> finsh_vm option" where
  "OP_add_word = OP_BIN Word Add"
definition OP_add_dword :: "finsh_vm \<Rightarrow> finsh_vm option" where
  "OP_add_dword = OP_BIN Dword Add"
definition OP_sub_byte :: "finsh_vm \<Rightarrow> finsh_vm option" where
  "OP_sub_byte = OP_BIN Byte Sub"
definition OP_sub_word :: "finsh_vm \<Rightarrow> finsh_vm option" where
  "OP_sub_word = OP_BIN Word Sub"
definition OP_sub_dword :: "finsh_vm \<Rightarrow> finsh_vm option" where
  "OP_sub_dword = OP_BIN Dword Sub"
definition OP_div_byte :: "finsh_vm \<Rightarrow> finsh_vm option" where
  "OP_div_byte = OP_BIN Byte Div"
definition OP_div_word :: "finsh_vm \<Rightarrow> finsh_vm option" where
  "OP_div_word = OP_BIN Word Div"
definition OP_div_dword :: "finsh_vm \<Rightarrow> finsh_vm option" where
  "OP_div_dword = OP_BIN Dword Div"
definition OP_mod_byte :: "finsh_vm \<Rightarrow> finsh_vm option" where
  "OP_mod_byte = OP_BIN Byte Mod"
definition OP_mod_word :: "finsh_vm \<Rightarrow> finsh_vm option" where
  "OP_mod_word = OP_BIN Word Mod"
definition OP_mod_dword :: "finsh_vm \<Rightarrow> finsh_vm option" where
  "OP_mod_dword = OP_BIN Dword Mod"
definition OP_mul_byte :: "finsh_vm \<Rightarrow> finsh_vm option" where
  "OP_mul_byte = OP_BIN Byte Mul"
definition OP_mul_word :: "finsh_vm \<Rightarrow> finsh_vm option" where
  "OP_mul_word = OP_BIN Word Mul"
definition OP_mul_dword :: "finsh_vm \<Rightarrow> finsh_vm option" where
  "OP_mul_dword = OP_BIN Dword Mul"
definition OP_and_byte :: "finsh_vm \<Rightarrow> finsh_vm option" where
  "OP_and_byte = OP_BIN Byte And"
definition OP_and_word :: "finsh_vm \<Rightarrow> finsh_vm option" where
  "OP_and_word = OP_BIN Word And"
definition OP_and_dword :: "finsh_vm \<Rightarrow> finsh_vm option" where
  "OP_and_dword = OP_BIN Dword And"
definition OP_or_byte :: "finsh_vm \<Rightarrow> finsh_vm option" where
  "OP_or_byte = OP_BIN Byte Or"
definition OP_or_word :: "finsh_vm \<Rightarrow> finsh_vm option" where
  "OP_or_word = OP_BIN Word Or"
definition OP_or_dword :: "finsh_vm \<Rightarrow> finsh_vm option" where
  "OP_or_dword = OP_BIN Dword Or"
definition OP_xor_byte :: "finsh_vm \<Rightarrow> finsh_vm option" where
  "OP_xor_byte = OP_BIN Byte Xor"
definition OP_xor_word :: "finsh_vm \<Rightarrow> finsh_vm option" where
  "OP_xor_word = OP_BIN Word Xor"
definition OP_xor_dword :: "finsh_vm \<Rightarrow> finsh_vm option" where
  "OP_xor_dword = OP_BIN Dword Xor"
definition OP_shl_byte :: "finsh_vm \<Rightarrow> finsh_vm option" where
  "OP_shl_byte = OP_BIN Byte Shl"
definition OP_shl_word :: "finsh_vm \<Rightarrow> finsh_vm option" where
  "OP_shl_word = OP_BIN Word Shl"
definition OP_shl_dword :: "finsh_vm \<Rightarrow> finsh_vm option" where
  "OP_shl_dword = OP_BIN Dword Shl"
definition OP_shr_byte :: "finsh_vm \<Rightarrow> finsh_vm option" where
  "OP_shr_byte = OP_BIN Byte Shr"
definition OP_shr_word :: "finsh_vm \<Rightarrow> finsh_vm option" where
  "OP_shr_word = OP_BIN Word Shr"
definition OP_shr_dword :: "finsh_vm \<Rightarrow> finsh_vm option" where
  "OP_shr_dword = OP_BIN Dword Shr"

definition OP_bw :: "width \<Rightarrow> finsh_vm \<Rightarrow> finsh_vm option" where
  "OP_bw w s = do {
     a \<leftarrow> slot_at 1 s;
     Some (set_slot 1 (slot_put w (NOT (slot_get w a)) a) s)
   }"

definition OP_bw_byte :: "finsh_vm \<Rightarrow> finsh_vm option" where
  "OP_bw_byte = OP_bw Byte"
definition OP_bw_word :: "finsh_vm \<Rightarrow> finsh_vm option" where
  "OP_bw_word = OP_bw Word"
definition OP_bw_dword :: "finsh_vm \<Rightarrow> finsh_vm option" where
  "OP_bw_dword = OP_bw Dword"

text \<open>\<open>i\<close> goes to the slot at the stack pointer, which moves up; \<open>n\<close> bytes of operand are consumed.\<close>

definition push_slot :: "width \<Rightarrow> int \<Rightarrow> nat \<Rightarrow> finsh_vm \<Rightarrow> finsh_vm option" where
  "push_slot w i n s = do {
     a \<leftarrow> slot_at 0 s;
     Some ((set_slot 0 (slot_put w i a) s)\<lparr>finsh_sp := finsh_sp s + 1, finsh_pc := finsh_pc s + n\<rparr>)
   }"

definition OP_ld_byte :: "finsh_vm \<Rightarrow> finsh_vm option" where
  "OP_ld_byte s = do { v \<leftarrow> operand_byte s; push_slot Byte (uint v) 1 s }"

definition OP_ld_word :: "finsh_vm \<Rightarrow> finsh_vm option" where
  "OP_ld_word s = do { v \<leftarrow> operand_word s; push_slot Word (sint v) 2 s }"

definition OP_ld_dword :: "finsh_vm \<Rightarrow> finsh_vm option" where
  "OP_ld_dword s = do { v \<leftarrow> operand_dword s; push_slot Dword (sint v) 4 s }"

definition OP_ld_value :: "width \<Rightarrow> finsh_vm \<Rightarrow> finsh_vm option" where
  "OP_ld_value w s = do { a \<leftarrow> operand_dword s; push_slot w (mem_get w a (finsh_memory s)) 4 s }"

definition OP_ld_value_byte :: "finsh_vm \<Rightarrow> finsh_vm option" where
  "OP_ld_value_byte = OP_ld_value Byte"
definition OP_ld_value_word :: "finsh_vm \<Rightarrow> finsh_vm option" where
  "OP_ld_value_word = OP_ld_value Word"
definition OP_ld_value_dword :: "finsh_vm \<Rightarrow> finsh_vm option" where
  "OP_ld_value_dword = OP_ld_value Dword"

definition OP_ld_value_stack :: "width \<Rightarrow> finsh_vm \<Rightarrow> finsh_vm option" where
  "OP_ld_value_stack w s = do {
     a \<leftarrow> slot_at 1 s;
     Some (set_slot 1 (slot_put w (mem_get w a (finsh_memory s)) a) s)
   }"

definition OP_ld_value_byte_stack :: "finsh_vm \<Rightarrow> finsh_vm option" where
  "OP_ld_value_byte_stack = OP_ld_value_stack Byte"
definition OP_ld_value_word_stack :: "finsh_vm \<Rightarrow> finsh_vm option" where
  "OP_ld_value_word_stack = OP_ld_value_stack Word"
definition OP_ld_value_dword_stack :: "finsh_vm \<Rightarrow> finsh_vm option" where
  "OP_ld_value_dword_stack = OP_ld_value_stack Dword"

definition OP_st :: "width \<Rightarrow> finsh_vm \<Rightarrow> finsh_vm option" where
  "OP_st w s = do {
     a \<leftarrow> slot_at 2 s;
     b \<leftarrow> slot_at 1 s;
     Some (s\<lparr>finsh_sp := finsh_sp s - 1, finsh_memory := mem_put w (slot_get w b) a (finsh_memory s)\<rparr>)
   }"

definition OP_st_byte :: "finsh_vm \<Rightarrow> finsh_vm option" where
  "OP_st_byte = OP_st Byte"
definition OP_st_word :: "finsh_vm \<Rightarrow> finsh_vm option" where
  "OP_st_word = OP_st Word"
definition OP_st_dword :: "finsh_vm \<Rightarrow> finsh_vm option" where
  "OP_st_dword = OP_st Dword"

definition OP_pop :: "finsh_vm \<Rightarrow> finsh_vm option" where
  "OP_pop s = (if finsh_sp s = 0 then None else Some (s\<lparr>finsh_sp := finsh_sp s - 1\<rparr>))"

text \<open>
  A call.  The functions are the parameter \<open>sys\<close>: the value and the memory a function leaves when it is
  called at an address with a list of arguments.  More than 16 arguments do not fit \<open>parameterv\<close>.
\<close>

type_synonym syscalls = "u32 \<Rightarrow> u32 list \<Rightarrow> vm_memory \<Rightarrow> (u32 \<times> vm_memory) option"

definition OP_call :: "syscalls \<Rightarrow> finsh_vm \<Rightarrow> finsh_vm option" where
  "OP_call sys s = do {
     n \<leftarrow> operand_byte s;
     let parameters = unat n;
     RT_ASSERT (parameters \<le> 16 \<and> parameters < finsh_sp s \<and> finsh_sp s \<le> length (finsh_vm_stack s));
     let sp = finsh_sp s - parameters - 1;
     let parameterv = take parameters (drop (sp + 1) (finsh_vm_stack s));
     (r, m) \<leftarrow> sys (finsh_vm_stack s ! sp) parameterv (finsh_memory s);
     Some (s\<lparr>finsh_vm_stack := (finsh_vm_stack s)[sp := r], finsh_sp := sp + 1,
       finsh_pc := finsh_pc s + 1, finsh_memory := m\<rparr>)
   }"

definition op_table :: "syscalls \<Rightarrow> (finsh_vm \<Rightarrow> finsh_vm option) list" where
  "op_table sys =
    [OP_no_op, OP_add_byte, OP_add_word, OP_add_dword, OP_sub_byte, OP_sub_word, OP_sub_dword,
     OP_div_byte, OP_div_word, OP_div_dword, OP_mod_byte, OP_mod_word, OP_mod_dword,
     OP_mul_byte, OP_mul_word, OP_mul_dword, OP_and_byte, OP_and_word, OP_and_dword,
     OP_or_byte, OP_or_word, OP_or_dword, OP_xor_byte, OP_xor_word, OP_xor_dword,
     OP_bw_byte, OP_bw_word, OP_bw_dword, OP_shl_byte, OP_shl_word, OP_shl_dword,
     OP_shr_byte, OP_shr_word, OP_shr_dword, OP_ld_byte, OP_ld_word, OP_ld_dword,
     OP_ld_value_byte, OP_ld_value_word, OP_ld_value_dword, OP_st_byte, OP_st_word, OP_st_dword,
     OP_pop, OP_call sys, OP_ld_value_byte_stack, OP_ld_value_word_stack, OP_ld_value_dword_stack]"

text \<open>One turn of the loop of \<open>finsh_vm_run\<close>; behind the table there is no function to call.\<close>

definition vm_step :: "syscalls \<Rightarrow> finsh_vm \<Rightarrow> finsh_vm option" where
  "vm_step sys s = do {
     let op = text_segment s ! finsh_pc s;
     RT_ASSERT (unat op < length (op_table sys));
     (op_table sys ! unat op) (s\<lparr>finsh_pc := finsh_pc s + 1\<rparr>)
   }"

partial_function (option) vm_loop :: "syscalls \<Rightarrow> finsh_vm \<Rightarrow> finsh_vm option" where
  "vm_loop sys s =
     (if finsh_pc s < FINSH_TEXT_MAX then do { s' \<leftarrow> vm_step sys s; vm_loop sys s' } else Some s)"

declare vm_loop.simps [code]

definition finsh_vm_run :: "syscalls \<Rightarrow> finsh_vm \<Rightarrow> finsh_vm option" where
  "finsh_vm_run sys s = vm_loop sys (s\<lparr>finsh_sp := 0, finsh_pc := 0\<rparr>)"

definition finsh_stack_bottom :: "finsh_vm \<Rightarrow> u32" where
  "finsh_stack_bottom s = finsh_vm_stack s ! 0"

end
