(* ===== verification/Finsh_Node.thy ===== *)
theory Finsh_Node
  imports Finsh_Vm
begin

text \<open>
  Variables, symbols, errors and syntax trees of the finsh shell:
  \<^verbatim>\<open>rt-thread/components/finsh/finsh_var.c\<close>, \<^verbatim>\<open>finsh_node.c\<close>, \<^verbatim>\<open>finsh_error.c\<close>, \<^verbatim>\<open>finsh.h\<close>
  and the symbol lookup of \<^verbatim>\<open>finsh_vm.c\<close>.

  A child pointer and the chain of siblings behind it are one list of nodes.  Names are C strings.
\<close>

datatype finsh_type = finsh_type_unknown | finsh_type_void | finsh_type_voidp | finsh_type_char
  | finsh_type_uchar | finsh_type_charp | finsh_type_short | finsh_type_ushort | finsh_type_shortp
  | finsh_type_int | finsh_type_uint | finsh_type_intp | finsh_type_long | finsh_type_ulong
  | finsh_type_longp

datatype finsh_error = FINSH_ERROR_OK | FINSH_ERROR_INVALID_TOKEN | FINSH_ERROR_EXPECT_TYPE
  | FINSH_ERROR_UNKNOWN_TYPE | FINSH_ERROR_VARIABLE_EXIST | FINSH_ERROR_EXPECT_OPERATOR
  | FINSH_ERROR_MEMORY_FULL | FINSH_ERROR_UNKNOWN_OP | FINSH_ERROR_UNKNOWN_NODE
  | FINSH_ERROR_EXPECT_CHAR | FINSH_ERROR_UNEXPECT_END | FINSH_ERROR_UNKNOWN_TOKEN
  | FINSH_ERROR_NO_FLOAT | FINSH_ERROR_UNKNOWN_SYMBOL | FINSH_ERROR_NULL_NODE

definition FINSH_NAME_MAX :: nat where "FINSH_NAME_MAX = 16"
definition FINSH_NODE_MAX :: nat where "FINSH_NODE_MAX = 16"
definition FINSH_VARIABLE_MAX :: nat where "FINSH_VARIABLE_MAX = 8"

text \<open>Whether \<open>strncmp\<close> returns 0.\<close>

definition strncmp_eq :: "string \<Rightarrow> string \<Rightarrow> nat \<Rightarrow> bool" where
  "strncmp_eq a b n \<longleftrightarrow> take n a = take n b"

subsection \<open>Symbols\<close>

text \<open>The value of a variable is in memory, behind its name and type.\<close>

record finsh_var =
  var_name :: string
  var_type :: finsh_type

record finsh_sysvar =
  sysvar_struct :: u32
  sysvar_name :: string
  sysvar_type :: finsh_type
  sysvar_var :: u32

record finsh_syscall =
  syscall_struct :: u32
  syscall_name :: string
  syscall_func :: u32

text \<open>\<open>var_base\<close> is the address of the array \<open>global_variable\<close>.\<close>

record finsh_symbols =
  var_base :: u32
  global_variable :: "finsh_var list"
  sysvar_table :: "finsh_sysvar list"
  global_sysvar_list :: "finsh_sysvar list"
  syscall_table :: "finsh_syscall list"
  global_syscall_list :: "finsh_syscall list"

definition no_var :: finsh_var where
  "no_var = \<lparr>var_name = '''', var_type = finsh_type_unknown\<rparr>"

definition finsh_var_init :: "finsh_symbols \<Rightarrow> finsh_symbols" where
  "finsh_var_init y = y\<lparr>global_variable := replicate FINSH_VARIABLE_MAX no_var\<rparr>"

text \<open>The size of \<open>struct finsh_var\<close> is 24, the offset of its value 20.\<close>

definition var_struct :: "finsh_symbols \<Rightarrow> nat \<Rightarrow> u32" where
  "var_struct y i = var_base y + of_nat i * 24"

definition value_offset :: u32 where
  "value_offset = 20"

fun first_index :: "('a \<Rightarrow> bool) \<Rightarrow> 'a list \<Rightarrow> nat option" where
  "first_index p [] = None"
| "first_index p (x # xs) = (if p x then Some 0 else map_option Suc (first_index p xs))"

definition finsh_var_lookup :: "string \<Rightarrow> finsh_symbols \<Rightarrow> nat option" where
  "finsh_var_lookup name y =
     first_index (\<lambda>v. strncmp_eq (var_name v) name FINSH_NAME_MAX) (global_variable y)"

text \<open>\<open>None\<close> is the result -1.\<close>

definition finsh_var_insert :: "string \<Rightarrow> finsh_type \<Rightarrow> finsh_symbols \<Rightarrow> (nat \<times> finsh_symbols) option" where
  "finsh_var_insert name ty y =
     (if finsh_var_lookup name y \<noteq> None then None
      else case first_index (\<lambda>v. var_type v = finsh_type_unknown) (global_variable y) of
        None \<Rightarrow> None
      | Some i \<Rightarrow> Some (i, y\<lparr>global_variable :=
          (global_variable y)[i := \<lparr>var_name = take FINSH_NAME_MAX name, var_type = ty\<rparr>]\<rparr>))"

definition finsh_var_delete :: "string \<Rightarrow> finsh_symbols \<Rightarrow> vm_memory \<Rightarrow> (finsh_symbols \<times> vm_memory) option" where
  "finsh_var_delete name y m =
     (case finsh_var_lookup name y of
        None \<Rightarrow> None
      | Some i \<Rightarrow> Some (y\<lparr>global_variable := (global_variable y)[i := no_var]\<rparr>,
          mem_put Dword 0 (var_struct y i + value_offset) m))"

text \<open>Behind the tables of the linker come the lists of the appended symbols, which match by prefix.\<close>

definition finsh_sysvar_lookup :: "string \<Rightarrow> finsh_symbols \<Rightarrow> finsh_sysvar option" where
  "finsh_sysvar_lookup name y =
     (case find (\<lambda>v. sysvar_name v = name) (sysvar_table y) of
        Some v \<Rightarrow> Some v
      | None \<Rightarrow> find (\<lambda>v. strncmp_eq (sysvar_name v) name (length name)) (global_sysvar_list y))"

definition finsh_syscall_lookup :: "string \<Rightarrow> finsh_symbols \<Rightarrow> finsh_syscall option" where
  "finsh_syscall_lookup name y =
     (case find (\<lambda>c. syscall_name c = name) (syscall_table y) of
        Some c \<Rightarrow> Some c
      | None \<Rightarrow> find (\<lambda>c. strncmp_eq (syscall_name c) name (length name)) (global_syscall_list y))"

text \<open>\<open>struct\<close> is what \<open>rt_malloc\<close> returned for the new item.\<close>

definition finsh_syscall_append :: "u32 \<Rightarrow> string \<Rightarrow> u32 \<Rightarrow> finsh_symbols \<Rightarrow> finsh_symbols" where
  "finsh_syscall_append item name func y =
     (if item \<noteq> 0 then y\<lparr>global_syscall_list :=
        \<lparr>syscall_struct = item, syscall_name = name, syscall_func = func\<rparr> # global_syscall_list y\<rparr> else y)"

definition finsh_sysvar_append :: "u32 \<Rightarrow> string \<Rightarrow> finsh_type \<Rightarrow> u32 \<Rightarrow> finsh_symbols \<Rightarrow> finsh_symbols" where
  "finsh_sysvar_append item name ty var_addr y =
     (if item \<noteq> 0 then y\<lparr>global_sysvar_list :=
        \<lparr>sysvar_struct = item, sysvar_name = name, sysvar_type = ty, sysvar_var = var_addr\<rparr>
          # global_sysvar_list y\<rparr> else y)"

subsection \<open>Nodes\<close>

text \<open>The ten node types of binary operations are \<open>FINSH_NODE_SYS\<close> of the operation.\<close>

datatype node_kind = FINSH_NODE_ID | FINSH_NODE_VALUE_CHAR | FINSH_NODE_VALUE_INT
  | FINSH_NODE_VALUE_LONG | FINSH_NODE_VALUE_STRING | FINSH_NODE_VALUE_NULL | FINSH_NODE_SYS bin_op
  | FINSH_NODE_SYS_BITWISE | FINSH_NODE_SYS_FUNC | FINSH_NODE_SYS_ASSIGN | FINSH_NODE_SYS_CAST
  | FINSH_NODE_SYS_PREINC | FINSH_NODE_SYS_PREDEC | FINSH_NODE_SYS_INC | FINSH_NODE_SYS_DEC
  | FINSH_NODE_SYS_GETVALUE | FINSH_NODE_SYS_GETADDR | FINSH_NODE_SYS_NULL

text \<open>
  The union \<open>id\<close> with the kind of symbol that \<open>idtype\<close> records.  The flag \<open>FINSH_IDTYPE_ADDRESS\<close> is the
  member \<open>is_address\<close> of a node.
\<close>

datatype finsh_id = No_id | Var nat | Sysvar finsh_sysvar | Syscall finsh_syscall

text \<open>The address of the value if the union holds a pointer to a variable.\<close>

fun id_value_address :: "finsh_symbols \<Rightarrow> finsh_id \<Rightarrow> u32" where
  "id_value_address y No_id = value_offset"
| "id_value_address y (Var i) = var_struct y i + value_offset"
| "id_value_address y (Sysvar v) = sysvar_struct v + value_offset"
| "id_value_address y (Syscall c) = syscall_struct c + value_offset"

definition FINSH_DATA_TYPE_VOID :: nat where "FINSH_DATA_TYPE_VOID = 0"
definition FINSH_DATA_TYPE_BYTE :: nat where "FINSH_DATA_TYPE_BYTE = 1"
definition FINSH_DATA_TYPE_WORD :: nat where "FINSH_DATA_TYPE_WORD = 2"
definition FINSH_DATA_TYPE_DWORD :: nat where "FINSH_DATA_TYPE_DWORD = 3"

lemmas data_type_defs = FINSH_DATA_TYPE_VOID_def FINSH_DATA_TYPE_BYTE_def FINSH_DATA_TYPE_WORD_def
  FINSH_DATA_TYPE_DWORD_def

datatype finsh_node = Node (node_type: node_kind) (data_type: nat) (is_address: bool)
  (node_value: u32) (node_id: finsh_id) (child: "finsh_node list")

text \<open>
  The table of nodes: \<open>used\<close> entries of it are taken.  A node is \<open>None\<close> if there was no room.
  The value is the second argument, the pointer to the symbol the third.
\<close>

definition finsh_node_allocate :: "node_kind \<Rightarrow> nat \<Rightarrow> (finsh_node \<times> nat) option" where
  "finsh_node_allocate ty used =
     (if used < FINSH_NODE_MAX then Some (Node ty FINSH_DATA_TYPE_VOID False 0 No_id [], used + 1)
      else None)"

text \<open>The result of a constructor: the node or null, the entries used, and the error.\<close>

type_synonym node_result = "finsh_node option \<times> nat \<times> finsh_error"

definition new_value :: "node_kind \<Rightarrow> u32 \<Rightarrow> nat \<Rightarrow> finsh_error \<Rightarrow> node_result" where
  "new_value ty v used err =
     (case finsh_node_allocate ty used of
        None \<Rightarrow> (None, used, FINSH_ERROR_MEMORY_FULL)
      | Some (Node t d a _ i cs, used') \<Rightarrow> (Some (Node t d a v i cs), used', err))"

definition finsh_node_new_char :: "u8 \<Rightarrow> nat \<Rightarrow> finsh_error \<Rightarrow> node_result" where
  "finsh_node_new_char c = new_value FINSH_NODE_VALUE_CHAR (ucast c)"

definition finsh_node_new_int :: "u32 \<Rightarrow> nat \<Rightarrow> finsh_error \<Rightarrow> node_result" where
  "finsh_node_new_int i = new_value FINSH_NODE_VALUE_INT i"

definition finsh_node_new_long :: "u32 \<Rightarrow> nat \<Rightarrow> finsh_error \<Rightarrow> node_result" where
  "finsh_node_new_long l = new_value FINSH_NODE_VALUE_LONG l"

definition finsh_node_new_ptr :: "u32 \<Rightarrow> nat \<Rightarrow> finsh_error \<Rightarrow> node_result" where
  "finsh_node_new_ptr p = new_value FINSH_NODE_VALUE_NULL p"

definition finsh_node_new_id :: "string \<Rightarrow> finsh_symbols \<Rightarrow> nat \<Rightarrow> finsh_error \<Rightarrow> node_result" where
  "finsh_node_new_id name y used err =
     (let symbol = (case finsh_var_lookup name y of
            Some i \<Rightarrow> Var i
          | None \<Rightarrow> (case finsh_sysvar_lookup name y of
              Some v \<Rightarrow> Sysvar v
            | None \<Rightarrow> (case finsh_syscall_lookup name y of Some c \<Rightarrow> Syscall c | None \<Rightarrow> No_id)))
      in if symbol = No_id then (None, used, FINSH_ERROR_UNKNOWN_SYMBOL)
         else case finsh_node_allocate FINSH_NODE_ID used of
             None \<Rightarrow> (None, used, FINSH_ERROR_MEMORY_FULL)
           | Some (Node t d a v _ cs, used') \<Rightarrow> (Some (Node t d a v symbol cs), used', err))"

subsection \<open>Lemmas\<close>

lemma first_index_less: "first_index p xs = Some i \<Longrightarrow> i < length xs \<and> p (xs ! i)"
  by (induction xs arbitrary: i) (auto split: if_splits)

lemma first_index_none: "first_index p xs = None \<longleftrightarrow> (\<forall>x \<in> set xs. \<not> p x)"
  by (induction xs) auto

lemma first_index_update:
  assumes "first_index p xs = None" "i < length xs" "p x"
  shows "first_index p (xs[i := x]) = Some i"
  using assms by (induction xs arbitrary: i) (auto split: nat.splits if_splits)

lemma first_index_before: "first_index p xs = Some i \<Longrightarrow> j < i \<Longrightarrow> \<not> p (xs ! j)"
proof (induction xs arbitrary: i j)
  case (Cons x xs)
  then show ?case by (cases j) (auto split: if_splits)
qed simp

text \<open>A declared variable is found, also when other names share its first 16 characters.\<close>

lemma var_insert_lookup:
  assumes "finsh_var_insert name ty y = Some (i, y')"
  shows "finsh_var_lookup name y' = Some i" "i < length (global_variable y)"
    "var_type (global_variable y' ! i) = ty"
    "\<And>other j. finsh_var_lookup other y = Some j \<Longrightarrow> var_type (global_variable y ! i) = finsh_type_unknown"
proof -
  have n: "finsh_var_lookup name y = None"
    and f: "first_index (\<lambda>v. var_type v = finsh_type_unknown) (global_variable y) = Some i"
    and y': "y' = y\<lparr>global_variable := (global_variable y)[i := \<lparr>var_name = take FINSH_NAME_MAX name, var_type = ty\<rparr>]\<rparr>"
    using assms by (auto simp: finsh_var_insert_def split: if_splits option.splits)
  note i = first_index_less [OF f]
  then show "i < length (global_variable y)" by simp
  show "finsh_var_lookup name y' = Some i"
    using first_index_update [OF n [unfolded finsh_var_lookup_def]] i
    by (simp add: finsh_var_lookup_def y' strncmp_eq_def)
  show "var_type (global_variable y' ! i) = ty" using i by (simp add: y')
  show "var_type (global_variable y ! i) = finsh_type_unknown" using i by simp
qed

end
