(* ===== verification/Finsh_Compiler.thy ===== *)
theory Finsh_Compiler
  imports Finsh_Node
begin

text \<open>
  The compiler of the finsh shell, \<^verbatim>\<open>rt-thread/components/finsh/finsh_compiler.c\<close>: the types of the
  nodes, the code of a tree for the machine of \<open>Finsh_Vm\<close>, and the run over the statements of a line.

  The bytes that the code stores through \<open>finsh_compile_pc\<close> are a list; \<open>finsh_compiler_run\<close> puts them into
  the text segment.  It does not check that they fit; the result is \<open>None\<close> when they do not.
\<close>

subsection \<open>Opcodes\<close>

fun width_index :: "width \<Rightarrow> u8" where
  "width_index Byte = 0" | "width_index Word = 1" | "width_index Dword = 2"

fun FINSH_OP :: "bin_op \<Rightarrow> width \<Rightarrow> u8" where
  "FINSH_OP Add w = 0x01 + width_index w"
| "FINSH_OP Sub w = 0x04 + width_index w"
| "FINSH_OP Div w = 0x07 + width_index w"
| "FINSH_OP Mod w = 0x0A + width_index w"
| "FINSH_OP Mul w = 0x0D + width_index w"
| "FINSH_OP And w = 0x10 + width_index w"
| "FINSH_OP Or w = 0x13 + width_index w"
| "FINSH_OP Xor w = 0x16 + width_index w"
| "FINSH_OP Shl w = 0x1C + width_index w"
| "FINSH_OP Shr w = 0x1F + width_index w"

definition FINSH_OP_BITWISE :: "width \<Rightarrow> u8" where "FINSH_OP_BITWISE w = 0x19 + width_index w"
definition FINSH_OP_LD :: "width \<Rightarrow> u8" where "FINSH_OP_LD w = 0x22 + width_index w"
definition FINSH_OP_LD_VALUE :: "width \<Rightarrow> u8" where "FINSH_OP_LD_VALUE w = 0x25 + width_index w"
definition FINSH_OP_ST :: "width \<Rightarrow> u8" where "FINSH_OP_ST w = 0x28 + width_index w"
definition FINSH_OP_POP :: u8 where "FINSH_OP_POP = 0x2B"
definition FINSH_OP_SYSCALL :: u8 where "FINSH_OP_SYSCALL = 0x2C"
definition FINSH_OP_LD_VALUE_STACK :: "width \<Rightarrow> u8" where
  "FINSH_OP_LD_VALUE_STACK w = 0x2D + width_index w"

lemmas finsh_op_defs = FINSH_OP_BITWISE_def FINSH_OP_LD_def FINSH_OP_LD_VALUE_def FINSH_OP_ST_def
  FINSH_OP_POP_def FINSH_OP_SYSCALL_def FINSH_OP_LD_VALUE_STACK_def

subsection \<open>Types\<close>

text \<open>The order of the widths.\<close>

fun width_le :: "width \<Rightarrow> width \<Rightarrow> bool" where
  "width_le Byte _ = True"
| "width_le Word w = (w \<noteq> Byte)"
| "width_le Dword w = (w = Dword)"

text \<open>The width at which the compiler loads a variable; there is no case for \<open>finsh_type_voidp\<close>.\<close>

fun load_width :: "finsh_type \<Rightarrow> width option" where
  "load_width ty =
     (if ty \<in> {finsh_type_char, finsh_type_uchar} then Some Byte
      else if ty \<in> {finsh_type_short, finsh_type_ushort} then Some Word
      else if ty \<in> {finsh_type_int, finsh_type_uint, finsh_type_long, finsh_type_ulong, finsh_type_charp,
        finsh_type_shortp, finsh_type_intp, finsh_type_longp} then Some Dword
      else None)"

text \<open>The data type of a variable; \<open>None\<close> is the default case, an error.\<close>

fun var_data_type :: "finsh_type \<Rightarrow> nat option" where
  "var_data_type finsh_type_unknown = None"
| "var_data_type finsh_type_void = Some FINSH_DATA_TYPE_VOID"
| "var_data_type ty =
     (if ty \<in> {finsh_type_char, finsh_type_uchar} then Some FINSH_DATA_TYPE_BYTE
      else if ty \<in> {finsh_type_short, finsh_type_ushort} then Some FINSH_DATA_TYPE_WORD
      else Some FINSH_DATA_TYPE_DWORD)"

definition width_of :: "nat \<Rightarrow> width option" where
  "width_of d =
     (if d = FINSH_DATA_TYPE_BYTE then Some Byte
      else if d = FINSH_DATA_TYPE_WORD then Some Word
      else if d = FINSH_DATA_TYPE_DWORD then Some Dword else None)"

text \<open>The declared type of a symbol, of a function there is none.\<close>

fun id_type :: "finsh_symbols \<Rightarrow> finsh_id \<Rightarrow> finsh_type option" where
  "id_type y (Var i) = Some (var_type (global_variable y ! i))"
| "id_type y (Sysvar v) = Some (sysvar_type v)"
| "id_type y _ = None"

text \<open>The data type of a node without children.\<close>

definition leaf_type :: "finsh_symbols \<Rightarrow> node_kind \<Rightarrow> finsh_id \<Rightarrow> nat \<Rightarrow> finsh_error \<Rightarrow> nat \<times> finsh_error" where
  "leaf_type y t i d err =
     (if t = FINSH_NODE_ID then
        case id_type y i of
          None \<Rightarrow> (d, err)
        | Some ty \<Rightarrow> (case var_data_type ty of
            Some d' \<Rightarrow> (d', err)
          | None \<Rightarrow> (d, FINSH_ERROR_UNKNOWN_TYPE))
      else if t = FINSH_NODE_VALUE_CHAR then (FINSH_DATA_TYPE_BYTE, err)
      else if t \<in> {FINSH_NODE_VALUE_INT, FINSH_NODE_VALUE_LONG, FINSH_NODE_VALUE_STRING, FINSH_NODE_VALUE_NULL}
        then (FINSH_DATA_TYPE_DWORD, err)
      else (d, err))"

text \<open>The flag that is passed on to the first child.\<close>

definition child_mode :: "node_kind \<Rightarrow> bool \<Rightarrow> bool" where
  "child_mode t is_addr =
     (if t \<in> {FINSH_NODE_SYS_ASSIGN, FINSH_NODE_SYS_PREINC, FINSH_NODE_SYS_PREDEC, FINSH_NODE_SYS_GETADDR}
        then True
      else if t = FINSH_NODE_SYS_GETVALUE \<and> is_addr then False
      else is_addr)"

definition is_syscall :: "finsh_id \<Rightarrow> bool" where
  "is_syscall i = (case i of Syscall c \<Rightarrow> True | _ \<Rightarrow> False)"

fun finsh_type_check :: "finsh_symbols \<Rightarrow> finsh_node list \<Rightarrow> bool \<Rightarrow> finsh_error \<Rightarrow> finsh_node list \<times> finsh_error" where
  "finsh_type_check y [] is_addr err = ([], err)"
| "finsh_type_check y (Node t d ad v i ch # sibling) is_addr err =
     (let (ch', err1) = finsh_type_check y ch (child_mode t is_addr) err;
          (sibling', err2) = finsh_type_check y sibling False err1;
          ad' = (if is_syscall i then ad else ad \<or> is_addr);
          (d', err3) = (case ch' of c # _ \<Rightarrow> (data_type c, err2) | [] \<Rightarrow> leaf_type y t i d err2)
      in (Node t d' ad' v i ch' # sibling', err3))"

subsection \<open>Code\<close>

text \<open>The code of an identifier.\<close>

definition load_code :: "finsh_type \<Rightarrow> bool \<Rightarrow> u32 \<Rightarrow> u8 list" where
  "load_code ty ad a =
     (case load_width ty of
        None \<Rightarrow> []
      | Some w \<Rightarrow> (if ad then FINSH_OP_LD Dword else FINSH_OP_LD_VALUE w) # FINSH_SET32 a)"

fun id_code :: "finsh_symbols \<Rightarrow> finsh_id \<Rightarrow> bool \<Rightarrow> u8 list" where
  "id_code y (Syscall c) ad = FINSH_OP_LD Dword # FINSH_SET32 (syscall_func c)"
| "id_code y (Sysvar v) ad = load_code (sysvar_type v) ad (sysvar_var v)"
| "id_code y (Var i) ad = load_code (var_type (global_variable y ! i)) ad (id_value_address y (Var i))"
| "id_code y No_id ad = []"

text \<open>The code of a node whose operation has one opcode for each width.\<close>

definition width_code :: "(width \<Rightarrow> u8 list) \<Rightarrow> nat \<Rightarrow> u8 list" where
  "width_code f d = (case width_of d of None \<Rightarrow> [] | Some w \<Rightarrow> f w)"

fun one_code :: "width \<Rightarrow> u8 list" where
  "one_code Byte = [FINSH_OP_LD Byte, 1]"
| "one_code Word = FINSH_OP_LD Word # FINSH_SET16 1"
| "one_code Dword = FINSH_OP_LD Dword # FINSH_SET32 1"

text \<open>The variable at \<open>a\<close> is loaded, stepped by one and stored at the address below it on the stack.\<close>

definition step_code :: "bin_op \<Rightarrow> u32 \<Rightarrow> width \<Rightarrow> u8 list" where
  "step_code f a w = FINSH_OP_LD_VALUE w # FINSH_SET32 a @ one_code w @ [FINSH_OP f w, FINSH_OP_ST w]"

definition pre_code :: "finsh_symbols \<Rightarrow> bin_op \<Rightarrow> nat \<Rightarrow> finsh_node list \<Rightarrow> u8 list" where
  "pre_code y f d ch =
     (case ch of
        Node t _ _ _ i _ # _ \<Rightarrow>
          if t = FINSH_NODE_ID
          then width_code (\<lambda>w. step_code f (id_value_address y i) w @ [FINSH_OP_LD_VALUE_STACK Dword]) d
          else []
      | [] \<Rightarrow> [])"

definition post_code :: "finsh_symbols \<Rightarrow> bin_op \<Rightarrow> nat \<Rightarrow> finsh_node list \<Rightarrow> u8 list" where
  "post_code y f d ch =
     (case ch of
        Node t _ _ _ i _ # _ \<Rightarrow>
          if t = FINSH_NODE_ID
          then width_code (\<lambda>w. FINSH_OP_LD Dword # FINSH_SET32 (id_value_address y i) @
            step_code f (id_value_address y i) w @ [FINSH_OP_POP]) d
          else []
      | [] \<Rightarrow> [])"

text \<open>
  The switch over the type of a node, behind the code of its children.  The parser leaves no assignment
  without a child unless it reports an error, which keeps the compiler from running.
\<close>

definition node_code :: "finsh_symbols \<Rightarrow> finsh_node \<Rightarrow> finsh_error \<Rightarrow> u8 list \<times> finsh_error" where
  "node_code y n err =
     (let d = data_type n; ch = child n
      in case node_type n of
        FINSH_NODE_ID \<Rightarrow> (id_code y (node_id n) (is_address n), err)
      | FINSH_NODE_VALUE_CHAR \<Rightarrow> ([FINSH_OP_LD Byte, ucast (node_value n)], err)
      | FINSH_NODE_VALUE_INT \<Rightarrow> (FINSH_OP_LD Dword # FINSH_SET32 (node_value n), err)
      | FINSH_NODE_VALUE_LONG \<Rightarrow> (FINSH_OP_LD Dword # FINSH_SET32 (node_value n), err)
      | FINSH_NODE_VALUE_NULL \<Rightarrow> (FINSH_OP_LD Dword # FINSH_SET32 (node_value n), err)
      | FINSH_NODE_VALUE_STRING \<Rightarrow> (FINSH_OP_LD Dword # FINSH_SET32 (node_value n), err)
      | FINSH_NODE_SYS f \<Rightarrow> (width_code (\<lambda>w. [FINSH_OP f w]) d, err)
      | FINSH_NODE_SYS_BITWISE \<Rightarrow> (width_code (\<lambda>w. [FINSH_OP_BITWISE w]) d, err)
      | FINSH_NODE_SYS_FUNC \<Rightarrow>
          (if ch = [] then [] else [FINSH_OP_SYSCALL, of_nat (length ch - 1)], err)
      | FINSH_NODE_SYS_ASSIGN \<Rightarrow>
          (case ch of
             Node FINSH_NODE_ID d' _ _ _ _ # _ \<Rightarrow>
               (case width_of d' of
                  Some w \<Rightarrow> ([FINSH_OP_ST w, FINSH_OP_LD_VALUE_STACK w], err)
                | None \<Rightarrow> ([], FINSH_ERROR_UNKNOWN_TYPE))
           | Node FINSH_NODE_SYS_GETVALUE d' _ _ _ _ # _ \<Rightarrow>
               (case width_of (d' mod 16) of
                  Some w \<Rightarrow> ([FINSH_OP_ST w, FINSH_OP_LD_VALUE_STACK w], err)
                | None \<Rightarrow> ([], FINSH_ERROR_UNKNOWN_TYPE))
           | _ \<Rightarrow> ([], err))
      | FINSH_NODE_SYS_PREINC \<Rightarrow> (pre_code y Add d ch, err)
      | FINSH_NODE_SYS_PREDEC \<Rightarrow> (pre_code y Sub d ch, err)
      | FINSH_NODE_SYS_INC \<Rightarrow> (post_code y Add d ch, err)
      | FINSH_NODE_SYS_DEC \<Rightarrow> (post_code y Sub d ch, err)
      | FINSH_NODE_SYS_NULL \<Rightarrow> (FINSH_SET32 0, err)
      | FINSH_NODE_SYS_GETVALUE \<Rightarrow>
          (if is_address n then [] else width_code (\<lambda>w. [FINSH_OP_LD_VALUE_STACK w]) d, err)
      | FINSH_NODE_SYS_GETADDR \<Rightarrow> ([], err)
      | FINSH_NODE_SYS_CAST \<Rightarrow> ([], FINSH_ERROR_UNKNOWN_NODE))"

fun finsh_compile :: "finsh_symbols \<Rightarrow> finsh_node list \<Rightarrow> finsh_error \<Rightarrow> u8 list \<times> finsh_error" where
  "finsh_compile y [] err = ([], err)"
| "finsh_compile y (Node t d ad v i ch # sibling) err =
     (let (c1, err1) = finsh_compile y ch err;
          (c2, err2) = node_code y (Node t d ad v i ch) err1;
          (c3, err3) = finsh_compile y sibling err2
      in (c1 @ c2 @ c3, err3))"

text \<open>The loop over the statements: the value of each but the last is popped.\<close>

fun compile_statements :: "finsh_symbols \<Rightarrow> finsh_node list \<Rightarrow> finsh_error \<Rightarrow> u8 list \<times> finsh_error" where
  "compile_statements y [] err = ([], err)"
| "compile_statements y (n # sibling) err =
     (let (c1, err1) = finsh_compile y [n] err;
          (c2, err2) = compile_statements y sibling err1
      in (c1 @ (if sibling = [] then [] else [FINSH_OP_POP]) @ c2, err2))"

text \<open>\<open>memset\<close> clears the first slot of the stack only.\<close>

definition finsh_compiler_run ::
  "finsh_symbols \<Rightarrow> finsh_node list \<Rightarrow> finsh_error \<Rightarrow> finsh_vm \<Rightarrow> (finsh_error \<times> finsh_vm) option" where
  "finsh_compiler_run y root err s = do {
     let (root', err1) = finsh_type_check y root False err;
     let (code, err2) = compile_statements y root' err1;
     RT_ASSERT (length code \<le> FINSH_TEXT_MAX);
     Some (err2, s\<lparr>text_segment := code @ replicate (FINSH_TEXT_MAX - length code) 0,
       finsh_vm_stack := (finsh_vm_stack s)[0 := 0]\<rparr>)
   }"

end
