(* ===== verification/Finsh_Machine.thy ===== *)
theory Finsh_Machine
  imports Finsh_Compiler
begin

text \<open>
  Runs of the machine of \<open>Finsh_Vm\<close> over code of \<open>Finsh_Compiler\<close>: what each instruction does, and how
  runs of consecutive pieces of code compose.
\<close>

subsection \<open>Slots and memory\<close>

lemma masks: "(0xff :: u32) = mask 8" "(0xffff :: u32) = mask 16"
  by (simp_all add: mask_eq_exp_minus_1)

lemma low_byte: "ucast ((v AND NOT 0xff) OR ucast b :: u32) = (b :: u8)"
  by (rule bit_word_eqI) (auto simp: masks bit_simps)

lemma low_word: "ucast ((v AND NOT 0xffff) OR ucast b :: u32) = (b :: u16)"
  by (rule bit_word_eqI) (auto simp: masks bit_simps)

lemma ucast_of_int: "ucast (word_of_int i :: u32) = (word_of_int i :: u8)"
  "ucast (word_of_int i :: u32) = (word_of_int i :: u16)"
  by (rule bit_word_eqI; simp add: bit_simps)+

lemma of_sint: "word_of_int (sint x) = x"
  by simp

lemma sint_eq_iff: "sint x = sint z \<longleftrightarrow> x = z"
  using of_sint by metis

lemma slot_get_put: "slot_get w (slot_put w i v) = slot_get w (word_of_int i)"
  by (cases w) (simp_all only: slot_get.simps slot_put.simps low_byte low_word ucast_of_int)

lemma slot_get_get: "slot_get w (word_of_int (slot_get w v)) = slot_get w v"
  by (cases w) (simp_all only: slot_get.simps ucast_of_int word_of_int_uint of_sint)

lemma slot_eq_iff:
  "slot_get Byte a = slot_get Byte b \<longleftrightarrow> (ucast a :: u8) = ucast b"
  "slot_get Word a = slot_get Word b \<longleftrightarrow> (ucast a :: u16) = ucast b"
  "slot_get Dword a = slot_get Dword b \<longleftrightarrow> a = b"
  by (simp_all add: word_uint_eq_iff sint_eq_iff)

lemma ucast_byte_word: "ucast (ucast x :: u16) = (ucast (x :: u32) :: u8)"
  by (rule bit_word_eqI) (simp add: bit_simps)

lemma slot_narrower:
  assumes "width_le w k" "slot_get k a = slot_get k b"
  shows "slot_get w a = slot_get w b"
proof -
  have "(ucast a :: u16) = ucast b \<Longrightarrow> (ucast a :: u8) = ucast b"
    using ucast_byte_word by metis
  then show ?thesis using assms by (cases w; cases k) (simp_all only: slot_eq_iff width_le.simps, simp_all)
qed

lemma mem_get_put: "mem_get w p (mem_put w i p m) = slot_get w (word_of_int i)"
proof (cases w)
  case Dword
  then show ?thesis by (simp add: Let_def get_set_32)
qed (simp_all add: Let_def get_set_16 ucast_of_int)

lemma mem_put_slot: "mem_put w (slot_get w (word_of_int i)) p m = mem_put w i p m"
  by (cases w) (simp_all only: slot_get.simps mem_put.simps ucast_of_int word_of_int_uint of_sint)

lemma mem_get_slot: "slot_get w (word_of_int (mem_get w p m)) = mem_get w p m"
  by (cases w) (simp_all only: slot_get.simps mem_get.simps ucast_of_int word_of_int_uint of_sint)

lemma get_32_low: "ucast (FINSH_GET32 a b c d) = a" "ucast (FINSH_GET32 a b c d) = FINSH_GET16 a b"
  by (rule bit_word_eqI; auto simp: FINSH_GET32_def FINSH_GET16_def bit_simps)+

text \<open>The low bits of a double word at an address are the byte or word there.\<close>

lemma mem_get_dword: "slot_get w (word_of_int (mem_get Dword p m)) = mem_get w p m"
  by (cases w) (simp_all only: slot_get.simps mem_get.simps of_sint get_32_low)

subsection \<open>Runs\<close>

inductive vm_steps :: "syscalls \<Rightarrow> finsh_vm \<Rightarrow> finsh_vm \<Rightarrow> bool" for sys where
  vm_refl: "vm_steps sys s s"
| vm_next: "vm_steps sys s s''"
    if "finsh_pc s < FINSH_TEXT_MAX" "vm_step sys s = Some s'" "vm_steps sys s' s''"

lemma vm_steps_trans: "vm_steps sys s s' \<Longrightarrow> vm_steps sys s' s'' \<Longrightarrow> vm_steps sys s s''"
  by (induction rule: vm_steps.induct) (auto intro: vm_next)

lemma vm_steps_loop: "vm_steps sys s s' \<Longrightarrow> vm_loop sys s = vm_loop sys s'"
  by (induction rule: vm_steps.induct) (auto simp: vm_loop.simps)

text \<open>
  Each instruction that pushes a slot takes at least two bytes of code, so a stack pointer that is at most
  half of the program counter never runs over the stack.
\<close>

definition vm_ok :: "finsh_vm \<Rightarrow> bool" where
  "vm_ok s \<longleftrightarrow> length (finsh_vm_stack s) = FINSH_STACK_MAX \<and> length (text_segment s) = FINSH_TEXT_MAX \<and>
     2 * finsh_sp s \<le> finsh_pc s"

definition code_at :: "u8 list \<Rightarrow> nat \<Rightarrow> u8 list \<Rightarrow> bool" where
  "code_at c p t \<longleftrightarrow> p + length c \<le> length t \<and> take (length c) (drop p t) = c"

lemma code_at_append: "code_at (c @ d) p t \<longleftrightarrow> code_at c p t \<and> code_at d (p + length c) t"
proof (cases "p + length c + length d \<le> length t")
  case True
  then have "length (take (length c) (drop p t)) = length c" by simp
  then show ?thesis
    using True append_eq_append_conv [of "take (length c) (drop p t)" c]
    by (simp add: code_at_def take_add add.commute add.left_commute)
qed (auto simp: code_at_def)

lemma code_at_Cons: "code_at (b # c) p t \<longleftrightarrow> p < length t \<and> t ! p = b \<and> code_at c (Suc p) t"
proof -
  have "take 1 (drop p t) = [t ! p]" if "p < length t"
    using that Cons_nth_drop_Suc [of p t] by (metis One_nat_def take_Suc_Cons take0)
  then have "code_at [b] p t \<longleftrightarrow> p < length t \<and> t ! p = b" by (auto simp: code_at_def)
  then show ?thesis using code_at_append [of "[b]" c p t] by simp
qed

lemma code_at_Nil [simp]: "code_at [] p t \<longleftrightarrow> p \<le> length t"
  by (simp add: code_at_def)

definition vm_at :: "u8 list \<Rightarrow> finsh_vm \<Rightarrow> bool" where
  "vm_at c s \<longleftrightarrow> vm_ok s \<and> code_at c (finsh_pc s) (text_segment s)"

text \<open>The result of an instruction that pushes \<open>i\<close> and takes \<open>n\<close> bytes in all.\<close>

definition pushed :: "width \<Rightarrow> int \<Rightarrow> nat \<Rightarrow> finsh_vm \<Rightarrow> finsh_vm" where
  "pushed w i n s = s\<lparr>finsh_sp := finsh_sp s + 1, finsh_pc := finsh_pc s + n,
     finsh_vm_stack := (finsh_vm_stack s)[finsh_sp s := slot_put w i (finsh_vm_stack s ! finsh_sp s)]\<rparr>"

lemma vm_at_step:
  assumes "vm_at (op # c) s" "unat op < 48"
    and "(op_table sys ! unat op) (s\<lparr>finsh_pc := finsh_pc s + 1\<rparr>) = Some s'"
  shows "vm_steps sys s s'"
proof (rule vm_next)
  show "finsh_pc s < FINSH_TEXT_MAX" using assms(1) by (simp add: vm_at_def vm_ok_def code_at_Cons)
  show "vm_step sys s = Some s'"
    using assms by (simp add: vm_step_def vm_at_def code_at_Cons) (simp add: op_table_def)
qed (rule vm_refl)

subsection \<open>Instructions\<close>

lemma op_bin_lookup: "unat (FINSH_OP f w) < 48" "op_table sys ! unat (FINSH_OP f w) = OP_BIN w f"
  by (cases f; cases w; simp add: op_table_def OP_add_byte_def OP_add_word_def OP_add_dword_def OP_sub_byte_def
      OP_sub_word_def OP_sub_dword_def OP_div_byte_def OP_div_word_def OP_div_dword_def OP_mod_byte_def
      OP_mod_word_def OP_mod_dword_def OP_mul_byte_def OP_mul_word_def OP_mul_dword_def OP_and_byte_def
      OP_and_word_def OP_and_dword_def OP_or_byte_def OP_or_word_def OP_or_dword_def OP_xor_byte_def
      OP_xor_word_def OP_xor_dword_def OP_shl_byte_def OP_shl_word_def OP_shl_dword_def OP_shr_byte_def
      OP_shr_word_def OP_shr_dword_def)+

lemma op_lookup:
  "op_table sys ! unat (FINSH_OP_LD Byte) = OP_ld_byte" "op_table sys ! unat (FINSH_OP_LD Word) = OP_ld_word"
  "op_table sys ! unat (FINSH_OP_LD Dword) = OP_ld_dword"
  "op_table sys ! unat (FINSH_OP_BITWISE w) = OP_bw w"
  "op_table sys ! unat (FINSH_OP_LD_VALUE w) = OP_ld_value w"
  "op_table sys ! unat (FINSH_OP_LD_VALUE_STACK w) = OP_ld_value_stack w"
  "op_table sys ! unat (FINSH_OP_ST w) = OP_st w"
  "op_table sys ! unat FINSH_OP_POP = OP_pop" "op_table sys ! unat FINSH_OP_SYSCALL = OP_call sys"
  by (cases w; simp add: op_table_def finsh_op_defs OP_bw_byte_def OP_bw_word_def OP_bw_dword_def
      OP_ld_value_byte_def OP_ld_value_word_def OP_ld_value_dword_def OP_ld_value_byte_stack_def
      OP_ld_value_word_stack_def OP_ld_value_dword_stack_def OP_st_byte_def OP_st_word_def OP_st_dword_def)+

lemma op_less:
  "unat (FINSH_OP_LD w) < 48" "unat (FINSH_OP_BITWISE w) < 48" "unat (FINSH_OP_LD_VALUE w) < 48"
  "unat (FINSH_OP_LD_VALUE_STACK w) < 48" "unat (FINSH_OP_ST w) < 48" "unat FINSH_OP_POP < 48"
  "unat FINSH_OP_SYSCALL < 48"
  by (cases w; simp add: finsh_op_defs)+

lemma sp_less: "vm_at (op # c) s \<Longrightarrow> finsh_sp s < 64 \<and> length (finsh_vm_stack s) = 64"
  by (auto simp: vm_at_def vm_ok_def code_at_Cons FINSH_STACK_MAX_def FINSH_TEXT_MAX_def)

lemma operand_at:
  "code_at c p (text_segment s) \<Longrightarrow> finsh_pc s = p \<Longrightarrow> operand (length c) s = Some c"
  by (simp add: operand_def code_at_def)

lemma run_ld_byte:
  assumes "vm_at [FINSH_OP_LD Byte, b] s"
  shows "vm_steps sys s (pushed Byte (uint b) 2 s)"
proof (rule vm_at_step [OF assms op_less(1)])
  have "operand 1 (s\<lparr>finsh_pc := finsh_pc s + 1\<rparr>) = Some [b]"
    using operand_at [of "[b]" "finsh_pc s + 1" "s\<lparr>finsh_pc := finsh_pc s + 1\<rparr>"] assms
    by (simp add: vm_at_def code_at_Cons)
  then show "(op_table sys ! unat (FINSH_OP_LD Byte)) (s\<lparr>finsh_pc := finsh_pc s + 1\<rparr>) =
      Some (pushed Byte (uint b) 2 s)"
    using sp_less [OF assms]
    by (simp only: op_lookup) (simp add: OP_ld_byte_def operand_byte_def push_slot_def slot_at_def set_slot_def
        pushed_def)
qed

lemma run_ld_word:
  assumes "vm_at (FINSH_OP_LD Word # FINSH_SET16 v) s"
  shows "vm_steps sys s (pushed Word (sint v) 3 s)"
proof (rule vm_at_step [OF assms op_less(1)])
  have "operand (length (FINSH_SET16 v)) (s\<lparr>finsh_pc := finsh_pc s + 1\<rparr>) = Some (FINSH_SET16 v)"
    by (rule operand_at [where p = "finsh_pc s + 1"]) (use assms in \<open>simp_all add: vm_at_def code_at_Cons\<close>)
  then show "(op_table sys ! unat (FINSH_OP_LD Word)) (s\<lparr>finsh_pc := finsh_pc s + 1\<rparr>) =
      Some (pushed Word (sint v) 3 s)"
    using sp_less [OF assms]
    by (simp only: op_lookup) (simp add: OP_ld_word_def operand_word_def push_slot_def slot_at_def set_slot_def
        pushed_def FINSH_SET16_def get_set_16 numeral_2_eq_2)
qed

lemma set_bytes:
  "length (FINSH_SET16 u) = 2" "length (FINSH_SET32 v) = 4"
  "FINSH_GET32 (FINSH_SET32 v ! 0) (FINSH_SET32 v ! 1) (FINSH_SET32 v ! 2) (FINSH_SET32 v ! 3) = v"
  by (simp_all add: FINSH_SET16_def FINSH_SET32_def get_set_32)

lemma operand_dword_at:
  assumes "vm_at (op # FINSH_SET32 v) s"
  shows "operand_dword (s\<lparr>finsh_pc := finsh_pc s + 1\<rparr>) = Some v"
proof -
  have "operand (length (FINSH_SET32 v)) (s\<lparr>finsh_pc := finsh_pc s + 1\<rparr>) = Some (FINSH_SET32 v)"
    by (rule operand_at [where p = "finsh_pc s + 1"]) (use assms in \<open>simp_all add: vm_at_def code_at_Cons\<close>)
  then show ?thesis by (simp add: operand_dword_def set_bytes [unfolded One_nat_def])
qed

lemma run_ld_dword:
  assumes "vm_at (FINSH_OP_LD Dword # FINSH_SET32 v) s"
  shows "vm_steps sys s (pushed Dword (sint v) 5 s)"
proof (rule vm_at_step [OF assms op_less(1)])
  show "(op_table sys ! unat (FINSH_OP_LD Dword)) (s\<lparr>finsh_pc := finsh_pc s + 1\<rparr>) =
      Some (pushed Dword (sint v) 5 s)"
    using sp_less [OF assms] operand_dword_at [OF assms]
    by (simp only: op_lookup) (simp add: OP_ld_dword_def push_slot_def slot_at_def set_slot_def pushed_def)
qed

lemma run_ld_value:
  assumes "vm_at (FINSH_OP_LD_VALUE w # FINSH_SET32 a) s"
  shows "vm_steps sys s (pushed w (mem_get w a (finsh_memory s)) 5 s)"
proof (rule vm_at_step [OF assms op_less(3)])
  show "(op_table sys ! unat (FINSH_OP_LD_VALUE w)) (s\<lparr>finsh_pc := finsh_pc s + 1\<rparr>) =
      Some (pushed w (mem_get w a (finsh_memory s)) 5 s)"
    using sp_less [OF assms] operand_dword_at [OF assms]
    by (simp only: op_lookup) (simp add: OP_ld_value_def push_slot_def slot_at_def set_slot_def pushed_def)
qed

lemma run_one:
  assumes "vm_at (one_code w) s"
  shows "vm_steps sys s (pushed w 1 (length (one_code w)) s)"
  using assms run_ld_byte [of 1 s] run_ld_word [of 1 s] run_ld_dword [of 1 s]
  by (cases w) (simp_all add: FINSH_SET16_def FINSH_SET32_def eval_nat_numeral)

lemma run_bin:
  assumes "vm_at [FINSH_OP f w] s" "2 \<le> finsh_sp s"
    and "c_op f (slot_get w (finsh_vm_stack s ! (finsh_sp s - 2))) (slot_get w (finsh_vm_stack s ! (finsh_sp s - 1))) = Some r"
  shows "vm_steps sys s (s\<lparr>finsh_sp := finsh_sp s - 1, finsh_pc := finsh_pc s + 1,
    finsh_vm_stack := (finsh_vm_stack s)[finsh_sp s - 2 := slot_put w r (finsh_vm_stack s ! (finsh_sp s - 2))]\<rparr>)"
  using sp_less [OF assms(1)] assms(2,3)
  by (intro vm_at_step [OF assms(1) op_bin_lookup(1)])
    (simp only: op_bin_lookup, simp add: OP_BIN_def slot_at_def set_slot_def less_imp_diff_less)

lemma run_bw:
  assumes "vm_at [FINSH_OP_BITWISE w] s" "0 < finsh_sp s"
  shows "vm_steps sys s (s\<lparr>finsh_pc := finsh_pc s + 1, finsh_vm_stack := (finsh_vm_stack s)[finsh_sp s - 1 :=
    slot_put w (NOT (slot_get w (finsh_vm_stack s ! (finsh_sp s - 1)))) (finsh_vm_stack s ! (finsh_sp s - 1))]\<rparr>)"
  using sp_less [OF assms(1)] assms(2)
  by (intro vm_at_step [OF assms(1) op_less(2)])
    (simp only: op_lookup, simp add: OP_bw_def slot_at_def set_slot_def less_imp_diff_less)

lemma run_ld_stack:
  assumes "vm_at [FINSH_OP_LD_VALUE_STACK w] s" "0 < finsh_sp s"
  shows "vm_steps sys s (s\<lparr>finsh_pc := finsh_pc s + 1, finsh_vm_stack := (finsh_vm_stack s)[finsh_sp s - 1 :=
    slot_put w (mem_get w (finsh_vm_stack s ! (finsh_sp s - 1)) (finsh_memory s)) (finsh_vm_stack s ! (finsh_sp s - 1))]\<rparr>)"
  using sp_less [OF assms(1)] assms(2)
  by (intro vm_at_step [OF assms(1) op_less(4)])
    (simp only: op_lookup, simp add: OP_ld_value_stack_def slot_at_def set_slot_def less_imp_diff_less)

lemma run_st:
  assumes "vm_at [FINSH_OP_ST w] s" "2 \<le> finsh_sp s"
  shows "vm_steps sys s (s\<lparr>finsh_sp := finsh_sp s - 1, finsh_pc := finsh_pc s + 1, finsh_memory :=
    mem_put w (slot_get w (finsh_vm_stack s ! (finsh_sp s - 1))) (finsh_vm_stack s ! (finsh_sp s - 2)) (finsh_memory s)\<rparr>)"
  using sp_less [OF assms(1)] assms(2)
  by (intro vm_at_step [OF assms(1) op_less(5)])
    (simp only: op_lookup, simp add: OP_st_def slot_at_def set_slot_def less_imp_diff_less)

lemma run_pop:
  assumes "vm_at [FINSH_OP_POP] s" "0 < finsh_sp s"
  shows "vm_steps sys s (s\<lparr>finsh_sp := finsh_sp s - 1, finsh_pc := finsh_pc s + 1\<rparr>)"
  using assms(2)
  by (intro vm_at_step [OF assms(1) op_less(6)]) (simp only: op_lookup, simp add: OP_pop_def)

lemma run_syscall:
  assumes "vm_at [FINSH_OP_SYSCALL, of_nat n] s" "n \<le> 16" "n < finsh_sp s"
    and "sys (finsh_vm_stack s ! (finsh_sp s - n - 1)) (take n (drop (finsh_sp s - n) (finsh_vm_stack s)))
      (finsh_memory s) = Some (r, m)"
  shows "vm_steps sys s (s\<lparr>finsh_sp := finsh_sp s - n, finsh_pc := finsh_pc s + 2,
    finsh_vm_stack := (finsh_vm_stack s)[finsh_sp s - n - 1 := r], finsh_memory := m\<rparr>)"
proof (rule vm_at_step [OF assms(1) op_less(7)])
  have "operand 1 (s\<lparr>finsh_pc := finsh_pc s + 1\<rparr>) = Some [of_nat n]"
    using operand_at [of "[of_nat n]" "finsh_pc s + 1" "s\<lparr>finsh_pc := finsh_pc s + 1\<rparr>"] assms(1)
    by (simp add: vm_at_def code_at_Cons)
  moreover have "unat (of_nat n :: u8) = n" using assms(2) by (simp add: unat_of_nat)
  moreover have "finsh_sp s - n - 1 + 1 = finsh_sp s - n" "Suc (finsh_sp s - Suc n) = finsh_sp s - n"
    using assms(3) by simp_all
  ultimately show "(op_table sys ! unat FINSH_OP_SYSCALL) (s\<lparr>finsh_pc := finsh_pc s + 1\<rparr>) =
      Some (s\<lparr>finsh_sp := finsh_sp s - n, finsh_pc := finsh_pc s + 2,
        finsh_vm_stack := (finsh_vm_stack s)[finsh_sp s - n - 1 := r], finsh_memory := m\<rparr>)"
    using sp_less [OF assms(1)] assms(2,3,4)
    by (simp only: op_lookup) (simp add: OP_call_def operand_byte_def)
qed

end
