(* ===== verification/Finsh_Eval.thy ===== *)
theory Finsh_Eval
  imports Finsh_Machine
begin

text \<open>
  What an expression of the finsh shell means, apart from any machine: \<open>node_typing\<close> says which trees the
  compiler translates well, \<open>node_eval\<close> gives their value and effect on memory.

  A typing is a data type, which the compiler uses to choose opcodes, and a known width: how much of the
  slot that holds the value is determined.  The data type of a binary operation is that of its first operand,
  so the second operand must be known at least at that width.  With \<open>a\<close> the address of the value is meant.
\<close>

definition data_type_of :: "width \<Rightarrow> nat" where
  "data_type_of w = (case w of Byte \<Rightarrow> FINSH_DATA_TYPE_BYTE | Word \<Rightarrow> FINSH_DATA_TYPE_WORD
     | Dword \<Rightarrow> FINSH_DATA_TYPE_DWORD)"

definition id_width :: "finsh_symbols \<Rightarrow> finsh_id \<Rightarrow> width option" where
  "id_width y i = (case id_type y i of None \<Rightarrow> None | Some ty \<Rightarrow> load_width ty)"

fun id_address :: "finsh_symbols \<Rightarrow> finsh_id \<Rightarrow> u32" where
  "id_address y (Var i) = id_value_address y (Var i)"
| "id_address y (Sysvar v) = sysvar_var v"
| "id_address y _ = 0"

text \<open>A variable of the shell of a type that has a width.\<close>

definition var_node :: "finsh_symbols \<Rightarrow> finsh_node \<Rightarrow> (u32 \<times> width) option" where
  "var_node y n =
     (case n of
        Node FINSH_NODE_ID _ False _ (Var i) [] \<Rightarrow>
          (case id_width y (Var i) of None \<Rightarrow> None | Some w \<Rightarrow> Some (id_address y (Var i), w))
      | _ \<Rightarrow> None)"

definition addressable :: "finsh_node \<Rightarrow> bool" where
  "addressable n \<longleftrightarrow> node_type n \<in> {FINSH_NODE_ID, FINSH_NODE_SYS_GETVALUE}"

fun node_typing :: "finsh_symbols \<Rightarrow> finsh_node \<Rightarrow> bool \<Rightarrow> (nat \<times> width) option" where
  "node_typing y (Node t d ad v i ch) a =
     (if ad \<or> (t \<noteq> FINSH_NODE_ID \<and> i \<noteq> No_id) then None
      else case t of
        FINSH_NODE_ID \<Rightarrow>
          if ch \<noteq> [] then None
          else if is_syscall i then (if a then None else Some (d, Dword))
          else (case id_width y i of
              None \<Rightarrow> None
            | Some w \<Rightarrow> Some (data_type_of w, if a then Dword else w))
      | FINSH_NODE_VALUE_CHAR \<Rightarrow> if a \<or> ch \<noteq> [] then None else Some (FINSH_DATA_TYPE_BYTE, Byte)
      | FINSH_NODE_VALUE_INT \<Rightarrow> if a \<or> ch \<noteq> [] then None else Some (FINSH_DATA_TYPE_DWORD, Dword)
      | FINSH_NODE_VALUE_LONG \<Rightarrow> if a \<or> ch \<noteq> [] then None else Some (FINSH_DATA_TYPE_DWORD, Dword)
      | FINSH_NODE_VALUE_NULL \<Rightarrow> if a \<or> ch \<noteq> [] then None else Some (FINSH_DATA_TYPE_DWORD, Dword)
      | FINSH_NODE_VALUE_STRING \<Rightarrow> if a \<or> ch \<noteq> [] then None else Some (FINSH_DATA_TYPE_DWORD, Dword)
      | FINSH_NODE_SYS f \<Rightarrow>
          (case ch of
             [m, n] \<Rightarrow> do {
               RT_ASSERT (\<not> a);
               (d1, k1) \<leftarrow> node_typing y m False;
               (d2, k2) \<leftarrow> node_typing y n False;
               w \<leftarrow> width_of d1;
               RT_ASSERT (width_le w k1 \<and> width_le w k2);
               Some (d1, w)
             }
           | _ \<Rightarrow> None)
      | FINSH_NODE_SYS_BITWISE \<Rightarrow>
          (case ch of
             [m] \<Rightarrow> do {
               RT_ASSERT (\<not> a);
               (d1, k1) \<leftarrow> node_typing y m False;
               w \<leftarrow> width_of d1;
               RT_ASSERT (width_le w k1);
               Some (d1, w)
             }
           | _ \<Rightarrow> None)
      | FINSH_NODE_SYS_FUNC \<Rightarrow>
          (case ch of
             f # args \<Rightarrow> do {
               RT_ASSERT (\<not> a \<and> length args \<le> 16);
               (d1, k1) \<leftarrow> node_typing y f False;
               RT_ASSERT (k1 = Dword);
               RT_ASSERT (\<forall>n \<in> set args. map_option snd (node_typing y n False) = Some Dword);
               Some (d1, Dword)
             }
           | [] \<Rightarrow> None)
      | FINSH_NODE_SYS_ASSIGN \<Rightarrow>
          (case ch of
             [m, n] \<Rightarrow> do {
               RT_ASSERT (\<not> a \<and> addressable m);
               (d1, k1) \<leftarrow> node_typing y m True;
               (d2, k2) \<leftarrow> node_typing y n False;
               w \<leftarrow> width_of d1;
               RT_ASSERT (width_le w k2);
               Some (d1, w)
             }
           | _ \<Rightarrow> None)
      | FINSH_NODE_SYS_GETVALUE \<Rightarrow>
          (case ch of
             [m] \<Rightarrow> do {
               (d1, k1) \<leftarrow> node_typing y m False;
               w \<leftarrow> width_of d1;
               RT_ASSERT (k1 = Dword);
               Some (d1, if a then Dword else w)
             }
           | _ \<Rightarrow> None)
      | FINSH_NODE_SYS_GETADDR \<Rightarrow>
          (case ch of
             [m] \<Rightarrow> do {
               RT_ASSERT (\<not> a \<and> addressable m);
               node_typing y m True
             }
           | _ \<Rightarrow> None)
      | FINSH_NODE_SYS_PREINC \<Rightarrow>
          (case ch of [m] \<Rightarrow> if a then None else map_option (\<lambda>(p, w). (data_type_of w, w)) (var_node y m) | _ \<Rightarrow> None)
      | FINSH_NODE_SYS_PREDEC \<Rightarrow>
          (case ch of [m] \<Rightarrow> if a then None else map_option (\<lambda>(p, w). (data_type_of w, w)) (var_node y m) | _ \<Rightarrow> None)
      | FINSH_NODE_SYS_INC \<Rightarrow>
          (case ch of [m] \<Rightarrow> if a then None else map_option (\<lambda>(p, w). (data_type_of w, w)) (var_node y m) | _ \<Rightarrow> None)
      | FINSH_NODE_SYS_DEC \<Rightarrow>
          (case ch of [m] \<Rightarrow> if a then None else map_option (\<lambda>(p, w). (data_type_of w, w)) (var_node y m) | _ \<Rightarrow> None)
      | _ \<Rightarrow> None)"

text \<open>The width of the operations on a node: that of its leftmost leaf.\<close>

fun node_data_type :: "finsh_symbols \<Rightarrow> finsh_node \<Rightarrow> nat" where
  "node_data_type y (Node t d ad v i []) = fst (leaf_type y t i d FINSH_ERROR_OK)"
| "node_data_type y (Node t d ad v i (c # cs)) = node_data_type y c"

subsection \<open>Values\<close>

text \<open>A step by one of a variable: the old and the new value.\<close>

definition step_var :: "bin_op \<Rightarrow> (u32 \<times> width) option \<Rightarrow> vm_memory \<Rightarrow> (int \<times> int \<times> vm_memory) option" where
  "step_var f pw m = do {
     (p, w) \<leftarrow> pw;
     r \<leftarrow> c_op f (mem_get w p m) 1;
     Some (mem_get w p m, r, mem_put w r p m)
   }"

fun node_eval :: "finsh_symbols \<Rightarrow> syscalls \<Rightarrow> finsh_node \<Rightarrow> bool \<Rightarrow> vm_memory \<Rightarrow> (u32 \<times> vm_memory) option"
  and args_eval :: "finsh_symbols \<Rightarrow> syscalls \<Rightarrow> finsh_node list \<Rightarrow> vm_memory \<Rightarrow> (u32 list \<times> vm_memory) option"
where
  "node_eval y sys (Node t d ad v i ch) a m =
     (case t of
        FINSH_NODE_ID \<Rightarrow>
          (case i of
             Syscall c \<Rightarrow> Some (syscall_func c, m)
           | _ \<Rightarrow> if a then Some (id_address y i, m)
               else do { w \<leftarrow> id_width y i; Some (word_of_int (mem_get w (id_address y i) m), m) })
      | FINSH_NODE_SYS f \<Rightarrow>
          (case ch of
             [p, q] \<Rightarrow> do {
               (u, m1) \<leftarrow> node_eval y sys p False m;
               (v, m2) \<leftarrow> node_eval y sys q False m1;
               w \<leftarrow> width_of (node_data_type y p);
               r \<leftarrow> c_op f (slot_get w u) (slot_get w v);
               Some (word_of_int r, m2)
             }
           | _ \<Rightarrow> None)
      | FINSH_NODE_SYS_BITWISE \<Rightarrow>
          (case ch of
             [p] \<Rightarrow> do {
               (u, m1) \<leftarrow> node_eval y sys p False m;
               w \<leftarrow> width_of (node_data_type y p);
               Some (word_of_int (NOT (slot_get w u)), m1)
             }
           | _ \<Rightarrow> None)
      | FINSH_NODE_SYS_FUNC \<Rightarrow>
          (case ch of
             f # args \<Rightarrow> do {
               (u, m1) \<leftarrow> node_eval y sys f False m;
               (vs, m2) \<leftarrow> args_eval y sys args m1;
               sys u vs m2
             }
           | [] \<Rightarrow> None)
      | FINSH_NODE_SYS_ASSIGN \<Rightarrow>
          (case ch of
             [p, q] \<Rightarrow> do {
               (u, m1) \<leftarrow> node_eval y sys p True m;
               (v, m2) \<leftarrow> node_eval y sys q False m1;
               w \<leftarrow> width_of (node_data_type y p);
               Some (word_of_int (slot_get w v), mem_put w (slot_get w v) u m2)
             }
           | _ \<Rightarrow> None)
      | FINSH_NODE_SYS_GETVALUE \<Rightarrow>
          (case ch of
             [p] \<Rightarrow> do {
               (u, m1) \<leftarrow> node_eval y sys p False m;
               if a then Some (u, m1)
               else do {
                 w \<leftarrow> width_of (node_data_type y p);
                 Some (word_of_int (mem_get w u m1), m1)
               }
             }
           | _ \<Rightarrow> None)
      | FINSH_NODE_SYS_GETADDR \<Rightarrow> (case ch of [p] \<Rightarrow> node_eval y sys p True m | _ \<Rightarrow> None)
      | FINSH_NODE_SYS_PREINC \<Rightarrow>
          (case ch of [p] \<Rightarrow> do { (u, r, m') \<leftarrow> step_var Add (var_node y p) m; Some (word_of_int r, m') } | _ \<Rightarrow> None)
      | FINSH_NODE_SYS_PREDEC \<Rightarrow>
          (case ch of [p] \<Rightarrow> do { (u, r, m') \<leftarrow> step_var Sub (var_node y p) m; Some (word_of_int r, m') } | _ \<Rightarrow> None)
      | FINSH_NODE_SYS_INC \<Rightarrow>
          (case ch of [p] \<Rightarrow> do { (u, r, m') \<leftarrow> step_var Add (var_node y p) m; Some (word_of_int u, m') } | _ \<Rightarrow> None)
      | FINSH_NODE_SYS_DEC \<Rightarrow>
          (case ch of [p] \<Rightarrow> do { (u, r, m') \<leftarrow> step_var Sub (var_node y p) m; Some (word_of_int u, m') } | _ \<Rightarrow> None)
      | FINSH_NODE_SYS_NULL \<Rightarrow> None
      | FINSH_NODE_SYS_CAST \<Rightarrow> None
      | _ \<Rightarrow> Some (v, m))"
| "args_eval y sys [] m = Some ([], m)"
| "args_eval y sys (n # ns) m = do {
     (u, m1) \<leftarrow> node_eval y sys n False m;
     (us, m2) \<leftarrow> args_eval y sys ns m1;
     Some (u # us, m2)
   }"

end
