(* ===== verification/Finsh_Correct.thy ===== *)
theory Finsh_Correct
  imports Finsh_Eval
begin

text \<open>
  The compiler of the finsh shell translates every typed tree into code that computes its value.
  \<open>gives\<close> is what such code does to the machine, \<open>translates\<close> what type check and compiler do with a tree.
\<close>

subsection \<open>Pieces of code\<close>

definition ran :: "u8 list \<Rightarrow> finsh_vm \<Rightarrow> finsh_vm \<Rightarrow> bool" where
  "ran c s s' \<longleftrightarrow> vm_ok s' \<and> text_segment s' = text_segment s \<and> finsh_pc s' = finsh_pc s + length c"

lemma vm_at_append: "vm_at (c @ d) s \<longleftrightarrow> vm_at c s \<and> code_at d (finsh_pc s + length c) (text_segment s)"
  by (auto simp: vm_at_def code_at_append)

lemma ran_at: "vm_at (c @ d) s \<Longrightarrow> ran c s s' \<Longrightarrow> vm_at d s'"
  by (simp add: vm_at_append) (simp add: vm_at_def ran_def)

lemma ran_trans: "ran c s s' \<Longrightarrow> ran d s' s'' \<Longrightarrow> ran (c @ d) s s''"
  by (simp add: ran_def)

text \<open>The slots below \<open>n\<close> are the same.\<close>

definition below :: "nat \<Rightarrow> finsh_vm \<Rightarrow> finsh_vm \<Rightarrow> bool" where
  "below n s s' \<longleftrightarrow> (\<forall>j < n. finsh_vm_stack s' ! j = finsh_vm_stack s ! j)"

lemma below_trans: "below n s s' \<Longrightarrow> below n' s' s'' \<Longrightarrow> n \<le> n' \<Longrightarrow> below n s s''"
  by (simp add: below_def)

text \<open>
  The code \<open>c\<close>, begun with memory \<open>m\<close>, pushes a slot that agrees with \<open>v\<close> at the width \<open>k\<close> and leaves the
  memory \<open>m'\<close>.
\<close>

definition gives :: "syscalls \<Rightarrow> u8 list \<Rightarrow> width \<Rightarrow> u32 \<Rightarrow> vm_memory \<Rightarrow> vm_memory \<Rightarrow> bool" where
  "gives sys c k v m m' \<longleftrightarrow>
     (\<forall>s. vm_at c s \<and> finsh_memory s = m \<longrightarrow>
        (\<exists>s'. vm_steps sys s s' \<and> ran c s s' \<and> finsh_sp s' = finsh_sp s + 1 \<and> below (finsh_sp s) s s' \<and>
           slot_get k (finsh_vm_stack s' ! finsh_sp s) = slot_get k v \<and> finsh_memory s' = m'))"

lemma givesI:
  assumes "\<And>s. vm_at c s \<Longrightarrow> finsh_memory s = m \<Longrightarrow>
    \<exists>s'. vm_steps sys s s' \<and> ran c s s' \<and> finsh_sp s' = finsh_sp s + 1 \<and> below (finsh_sp s) s s' \<and>
      slot_get k (finsh_vm_stack s' ! finsh_sp s) = slot_get k v \<and> finsh_memory s' = m'"
  shows "gives sys c k v m m'"
  using assms by (simp add: gives_def)

lemma givesE:
  assumes "gives sys c k v (finsh_memory s) m'" "vm_at c s"
  obtains s' where "vm_steps sys s s'" "ran c s s'" "finsh_sp s' = finsh_sp s + 1" "below (finsh_sp s) s s'"
    "slot_get k (finsh_vm_stack s' ! finsh_sp s) = slot_get k v" "finsh_memory s' = m'"
  using assms unfolding gives_def by metis

lemma gives_narrower: "gives sys c k v m m' \<Longrightarrow> width_le w k \<Longrightarrow> gives sys c w v m m'"
  unfolding gives_def using slot_narrower [of w k] by blast

lemma gives_same: "gives sys c k v m m' \<Longrightarrow> slot_get k v = slot_get k v' \<Longrightarrow> gives sys c k v' m m'"
  by (simp add: gives_def)

lemma pushed_ran:
  assumes "vm_at (op # c) s" "n = length (op # c)" "2 \<le> n"
  shows "ran (op # c) s (pushed w i n s)" "finsh_sp (pushed w i n s) = finsh_sp s + 1"
    "below (finsh_sp s) s (pushed w i n s)" "finsh_memory (pushed w i n s) = finsh_memory s"
    "slot_get w (finsh_vm_stack (pushed w i n s) ! finsh_sp s) = slot_get w (word_of_int i)"
  using assms sp_less [OF assms(1)]
  by (simp_all add: ran_def pushed_def vm_at_def vm_ok_def below_def slot_get_put)

lemma gives_push:
  assumes "\<And>s. vm_at (op # c) s \<Longrightarrow> finsh_memory s = m \<Longrightarrow> vm_steps sys s (pushed w i (length (op # c)) s)" "c \<noteq> []"
  shows "gives sys (op # c) w (word_of_int i) m m"
proof (rule givesI)
  fix s
  assume s: "vm_at (op # c) s" "finsh_memory s = m"
  have "2 \<le> length (op # c)" using assms(2) by (cases c) simp_all
  note p = pushed_ran [OF s(1) refl this, of w i]
  show "\<exists>s'. vm_steps sys s s' \<and> ran (op # c) s s' \<and> finsh_sp s' = finsh_sp s + 1 \<and> below (finsh_sp s) s s' \<and>
      slot_get w (finsh_vm_stack s' ! finsh_sp s) = slot_get w (word_of_int i) \<and> finsh_memory s' = m"
    using assms(1) [OF s] p s(2) by blast
qed

lemma gives_ld_byte: "gives sys [FINSH_OP_LD Byte, b] Byte (ucast b) m m"
  using gives_push [of "FINSH_OP_LD Byte" "[b]" m sys Byte "uint b"] run_ld_byte [of b]
  by (simp add: numeral_2_eq_2)

lemma set32_code: "length (op # FINSH_SET32 v) = 5" "FINSH_SET32 v \<noteq> []"
  by (simp_all add: FINSH_SET32_def)

lemma gives_ld_dword: "gives sys (FINSH_OP_LD Dword # FINSH_SET32 v) Dword v m m"
proof -
  have "gives sys (FINSH_OP_LD Dword # FINSH_SET32 v) Dword (word_of_int (sint v)) m m"
    by (rule gives_push [OF _ set32_code(2)]) (simp only: set32_code run_ld_dword)
  then show ?thesis by simp
qed

lemma gives_ld_value:
  "gives sys (FINSH_OP_LD_VALUE w # FINSH_SET32 a) w (word_of_int (mem_get w a m)) m m"
proof (rule gives_push [OF _ set32_code(2)])
  fix s
  assume "vm_at (FINSH_OP_LD_VALUE w # FINSH_SET32 a) s" "finsh_memory s = m"
  then show "vm_steps sys s (pushed w (mem_get w a m) (length (FINSH_OP_LD_VALUE w # FINSH_SET32 a)) s)"
    using run_ld_value [of w a s sys] unfolding set32_code by simp
qed

lemma gives_one: "gives sys (one_code w) w 1 m m"
proof -
  obtain op c where c: "one_code w = op # c" "c \<noteq> []"
    by (cases w) (simp_all add: FINSH_SET16_def FINSH_SET32_def)
  then show ?thesis using gives_push [of op c m sys w 1] run_one [of w] by simp
qed

subsection \<open>Operators\<close>

lemma ran_one:
  assumes "vm_at c s" "n \<le> finsh_sp s" "length xs = length (finsh_vm_stack s)"
  shows "ran c s (s\<lparr>finsh_sp := n, finsh_pc := finsh_pc s + length c, finsh_vm_stack := xs, finsh_memory := m\<rparr>)"
  using assms by (simp add: ran_def vm_at_def vm_ok_def)

text \<open>Two operands in a row.\<close>

lemma gives_two:
  assumes "gives sys c1 k1 u (finsh_memory s) m1" "gives sys c2 k2 v m1 m2" "vm_at (c1 @ c2) s"
  obtains s2 where "vm_steps sys s s2" "ran (c1 @ c2) s s2" "finsh_sp s2 = finsh_sp s + 2" "below (finsh_sp s) s s2"
    "slot_get k1 (finsh_vm_stack s2 ! finsh_sp s) = slot_get k1 u"
    "slot_get k2 (finsh_vm_stack s2 ! (finsh_sp s + 1)) = slot_get k2 v" "finsh_memory s2 = m2"
proof -
  have "vm_at c1 s" using assms(3) by (simp add: vm_at_append)
  from givesE [OF assms(1) this] obtain s1 where s1: "vm_steps sys s s1" "ran c1 s s1" "finsh_sp s1 = finsh_sp s + 1"
    "below (finsh_sp s) s s1" "slot_get k1 (finsh_vm_stack s1 ! finsh_sp s) = slot_get k1 u" "finsh_memory s1 = m1"
    by blast
  from givesE [OF _ ran_at [OF assms(3) s1(2)]] assms(2) s1(6) obtain s2
    where s2: "vm_steps sys s1 s2" "ran c2 s1 s2" "finsh_sp s2 = finsh_sp s1 + 1"
    "below (finsh_sp s1) s1 s2" "slot_get k2 (finsh_vm_stack s2 ! finsh_sp s1) = slot_get k2 v" "finsh_memory s2 = m2"
    by blast
  show ?thesis
  proof
    show "vm_steps sys s s2" by (rule vm_steps_trans [OF s1(1) s2(1)])
    show "ran (c1 @ c2) s s2" by (rule ran_trans [OF s1(2) s2(2)])
    show "below (finsh_sp s) s s2" using below_trans [OF s1(4) s2(4)] s1(3) by simp
    show "slot_get k1 (finsh_vm_stack s2 ! finsh_sp s) = slot_get k1 u"
      using s1(3,5) s2(4) by (simp add: below_def)
  qed (use s1 s2 in simp_all)
qed

lemma gives_bin:
  assumes "gives sys c1 k1 u m m1" "gives sys c2 k2 v m1 m2" "width_le w k1" "width_le w k2"
    and "c_op f (slot_get w u) (slot_get w v) = Some r"
  shows "gives sys (c1 @ c2 @ [FINSH_OP f w]) w (word_of_int r) m m2"
proof (rule givesI)
  fix s
  assume s: "vm_at (c1 @ c2 @ [FINSH_OP f w]) s" "finsh_memory s = m"
  have at: "vm_at (c1 @ c2) s" using s(1) vm_at_append [of "c1 @ c2" "[FINSH_OP f w]" s] by simp
  obtain s2 where s2: "vm_steps sys s s2" "ran (c1 @ c2) s s2" "finsh_sp s2 = finsh_sp s + 2" "below (finsh_sp s) s s2"
    "slot_get k1 (finsh_vm_stack s2 ! finsh_sp s) = slot_get k1 u"
    "slot_get k2 (finsh_vm_stack s2 ! (finsh_sp s + 1)) = slot_get k2 v" "finsh_memory s2 = m2"
    using gives_two [OF _ assms(2) at] assms(1) s(2) by blast
  have at2: "vm_at [FINSH_OP f w] s2" using ran_at [OF _ s2(2)] s(1) by simp
  let ?s3 = "s2\<lparr>finsh_sp := finsh_sp s + 1, finsh_pc := finsh_pc s2 + length [FINSH_OP f w],
    finsh_vm_stack := (finsh_vm_stack s2)[finsh_sp s := slot_put w r (finsh_vm_stack s2 ! finsh_sp s)],
    finsh_memory := finsh_memory s2\<rparr>"
  have "slot_get w (finsh_vm_stack s2 ! finsh_sp s) = slot_get w u"
    "slot_get w (finsh_vm_stack s2 ! (finsh_sp s + 1)) = slot_get w v"
    using slot_narrower [OF assms(3) s2(5)] slot_narrower [OF assms(4) s2(6)] by simp_all
  then have "vm_steps sys s2 ?s3"
    using run_bin [OF at2, of r sys] assms(5) s2(3) by simp
  moreover have "ran [FINSH_OP f w] s2 ?s3" by (rule ran_one [OF at2]) (simp_all add: s2(3))
  moreover have "below (finsh_sp s) s ?s3" using s2(4) by (simp add: below_def)
  moreover have "finsh_sp s < length (finsh_vm_stack s2)" using sp_less [OF at2] s2(3) by simp
  ultimately show "\<exists>s'. vm_steps sys s s' \<and> ran (c1 @ c2 @ [FINSH_OP f w]) s s' \<and> finsh_sp s' = finsh_sp s + 1 \<and>
      below (finsh_sp s) s s' \<and> slot_get w (finsh_vm_stack s' ! finsh_sp s) = slot_get w (word_of_int r) \<and>
      finsh_memory s' = m2"
    using vm_steps_trans [OF s2(1)] ran_trans [OF s2(2), of "[FINSH_OP f w]" ?s3] s2(7)
    by (intro exI [of _ ?s3]) (simp add: slot_get_put)
qed

text \<open>An operation on the top slot.\<close>

lemma gives_top:
  assumes c: "gives sys c k u m m1"
    and op: "\<And>s. vm_at [op] s \<Longrightarrow> 0 < finsh_sp s \<Longrightarrow> finsh_memory s = m1 \<Longrightarrow>
      slot_get k (finsh_vm_stack s ! (finsh_sp s - 1)) = slot_get k u \<Longrightarrow>
      vm_steps sys s (s\<lparr>finsh_pc := finsh_pc s + 1, finsh_vm_stack := (finsh_vm_stack s)[finsh_sp s - 1 :=
        slot_put w r (finsh_vm_stack s ! (finsh_sp s - 1))]\<rparr>)"
  shows "gives sys (c @ [op]) w (word_of_int r) m m1"
proof (rule givesI)
  fix s
  assume s: "vm_at (c @ [op]) s" "finsh_memory s = m"
  have at: "vm_at c s" using s(1) by (simp add: vm_at_append)
  obtain s1 where s1: "vm_steps sys s s1" "ran c s s1" "finsh_sp s1 = finsh_sp s + 1" "below (finsh_sp s) s s1"
    "slot_get k (finsh_vm_stack s1 ! finsh_sp s) = slot_get k u" "finsh_memory s1 = m1"
    using givesE [OF _ at] c s(2) by metis
  have at1: "vm_at [op] s1" by (rule ran_at [OF s(1) s1(2)])
  let ?s2 = "s1\<lparr>finsh_sp := finsh_sp s + 1, finsh_pc := finsh_pc s1 + length [op],
    finsh_vm_stack := (finsh_vm_stack s1)[finsh_sp s := slot_put w r (finsh_vm_stack s1 ! finsh_sp s)],
    finsh_memory := finsh_memory s1\<rparr>"
  have e: "s1\<lparr>finsh_pc := finsh_pc s1 + 1, finsh_vm_stack := (finsh_vm_stack s1)[finsh_sp s1 - 1 :=
        slot_put w r (finsh_vm_stack s1 ! (finsh_sp s1 - 1))]\<rparr> = ?s2"
    using s1(3) by (cases s1) simp
  have "vm_steps sys s1 ?s2" using op [OF at1] s1(3,5,6) unfolding e by simp
  moreover have "ran [op] s1 ?s2" by (rule ran_one [OF at1]) (simp_all add: s1(3))
  moreover have "below (finsh_sp s) s ?s2" using s1(4) by (simp add: below_def)
  moreover have "finsh_sp s < length (finsh_vm_stack s1)" using sp_less [OF at1] s1(3) by simp
  ultimately show "\<exists>s'. vm_steps sys s s' \<and> ran (c @ [op]) s s' \<and> finsh_sp s' = finsh_sp s + 1 \<and>
      below (finsh_sp s) s s' \<and> slot_get w (finsh_vm_stack s' ! finsh_sp s) = slot_get w (word_of_int r) \<and>
      finsh_memory s' = m1"
    using vm_steps_trans [OF s1(1)] ran_trans [OF s1(2), of "[op]" ?s2] s1(6)
    by (intro exI [of _ ?s2]) (simp add: slot_get_put)
qed

lemma gives_bitwise:
  assumes "gives sys c k u m m1" "width_le w k"
  shows "gives sys (c @ [FINSH_OP_BITWISE w]) w (word_of_int (NOT (slot_get w u))) m m1"
proof (rule gives_top [OF assms(1)])
  fix s
  assume s: "vm_at [FINSH_OP_BITWISE w] s" "0 < finsh_sp s"
    "slot_get k (finsh_vm_stack s ! (finsh_sp s - 1)) = slot_get k u"
  show "vm_steps sys s (s\<lparr>finsh_pc := finsh_pc s + 1, finsh_vm_stack := (finsh_vm_stack s)[finsh_sp s - 1 :=
      slot_put w (NOT (slot_get w u)) (finsh_vm_stack s ! (finsh_sp s - 1))]\<rparr>)"
    using run_bw [OF s(1,2), of sys] unfolding slot_narrower [OF assms(2) s(3)] .
qed

lemma gives_deref:
  assumes "gives sys c Dword u m m1"
  shows "gives sys (c @ [FINSH_OP_LD_VALUE_STACK w]) w (word_of_int (mem_get w u m1)) m m1"
proof (rule gives_top [OF assms])
  fix s
  assume s: "vm_at [FINSH_OP_LD_VALUE_STACK w] s" "0 < finsh_sp s" "finsh_memory s = m1"
    "slot_get Dword (finsh_vm_stack s ! (finsh_sp s - 1)) = slot_get Dword u"
  have "finsh_vm_stack s ! (finsh_sp s - 1) = u" using s(4) by (simp only: slot_eq_iff)
  then show "vm_steps sys s (s\<lparr>finsh_pc := finsh_pc s + 1, finsh_vm_stack := (finsh_vm_stack s)[finsh_sp s - 1 :=
      slot_put w (mem_get w u m1) (finsh_vm_stack s ! (finsh_sp s - 1))]\<rparr>)"
    using run_ld_stack [OF s(1,2), of sys] s(3) by simp
qed

lemma gives_store:
  assumes "gives sys c1 Dword u m m1" "gives sys c2 k v m1 m2" "width_le w k"
  shows "gives sys (c1 @ c2 @ [FINSH_OP_ST w]) Dword u m (mem_put w (slot_get w v) u m2)"
proof (rule givesI)
  fix s
  assume s: "vm_at (c1 @ c2 @ [FINSH_OP_ST w]) s" "finsh_memory s = m"
  have at: "vm_at (c1 @ c2) s" using s(1) vm_at_append [of "c1 @ c2" "[FINSH_OP_ST w]" s] by simp
  obtain s2 where s2: "vm_steps sys s s2" "ran (c1 @ c2) s s2" "finsh_sp s2 = finsh_sp s + 2" "below (finsh_sp s) s s2"
    "slot_get Dword (finsh_vm_stack s2 ! finsh_sp s) = slot_get Dword u"
    "slot_get k (finsh_vm_stack s2 ! (finsh_sp s + 1)) = slot_get k v" "finsh_memory s2 = m2"
    using gives_two [OF _ assms(2) at] assms(1) s(2) by blast
  have at2: "vm_at [FINSH_OP_ST w] s2" using ran_at [OF _ s2(2)] s(1) by simp
  let ?m3 = "mem_put w (slot_get w v) u m2"
  let ?s3 = "s2\<lparr>finsh_sp := finsh_sp s + 1, finsh_pc := finsh_pc s2 + length [FINSH_OP_ST w],
    finsh_vm_stack := finsh_vm_stack s2, finsh_memory := ?m3\<rparr>"
  have e: "finsh_vm_stack s2 ! finsh_sp s = u" using s2(5) by (simp only: slot_eq_iff)
  have v: "slot_get w (finsh_vm_stack s2 ! (finsh_sp s + 1)) = slot_get w v"
    by (rule slot_narrower [OF assms(3) s2(6)])
  have "vm_steps sys s2 ?s3" using run_st [OF at2, of sys] s2(3,7) e v by simp
  moreover have "ran [FINSH_OP_ST w] s2 ?s3" by (rule ran_one [OF at2]) (simp_all add: s2(3))
  moreover have "below (finsh_sp s) s ?s3" using s2(4) by (simp add: below_def)
  ultimately show "\<exists>s'. vm_steps sys s s' \<and> ran (c1 @ c2 @ [FINSH_OP_ST w]) s s' \<and> finsh_sp s' = finsh_sp s + 1 \<and>
      below (finsh_sp s) s s' \<and> slot_get Dword (finsh_vm_stack s' ! finsh_sp s) = slot_get Dword u \<and>
      finsh_memory s' = ?m3"
    using vm_steps_trans [OF s2(1)] ran_trans [OF s2(2), of "[FINSH_OP_ST w]" ?s3] e
    by (intro exI [of _ ?s3]) simp
qed

lemma gives_assign:
  assumes "gives sys c1 Dword u m m1" "gives sys c2 k v m1 m2" "width_le w k"
  shows "gives sys (c1 @ c2 @ [FINSH_OP_ST w, FINSH_OP_LD_VALUE_STACK w]) w (word_of_int (slot_get w v)) m
    (mem_put w (slot_get w v) u m2)"
  using gives_deref [OF gives_store [OF assms], of w] by (simp add: mem_get_put slot_get_get)

text \<open>The value of the code that is popped does not matter.\<close>

lemma gives_pop:
  assumes "gives sys c1 k1 u m m1" "gives sys c2 k2 v m1 m2"
  shows "gives sys (c1 @ c2 @ [FINSH_OP_POP]) k1 u m m2"
proof (rule givesI)
  fix s
  assume s: "vm_at (c1 @ c2 @ [FINSH_OP_POP]) s" "finsh_memory s = m"
  have at: "vm_at (c1 @ c2) s" using s(1) vm_at_append [of "c1 @ c2" "[FINSH_OP_POP]" s] by simp
  obtain s2 where s2: "vm_steps sys s s2" "ran (c1 @ c2) s s2" "finsh_sp s2 = finsh_sp s + 2" "below (finsh_sp s) s s2"
    "slot_get k1 (finsh_vm_stack s2 ! finsh_sp s) = slot_get k1 u" "finsh_memory s2 = m2"
    using gives_two [OF _ assms(2) at] assms(1) s(2) by blast
  have at2: "vm_at [FINSH_OP_POP] s2" using ran_at [OF _ s2(2)] s(1) by simp
  let ?s3 = "s2\<lparr>finsh_sp := finsh_sp s + 1, finsh_pc := finsh_pc s2 + length [FINSH_OP_POP],
    finsh_vm_stack := finsh_vm_stack s2, finsh_memory := finsh_memory s2\<rparr>"
  have "vm_steps sys s2 ?s3" using run_pop [OF at2, of sys] s2(3) by simp
  moreover have "ran [FINSH_OP_POP] s2 ?s3" by (rule ran_one [OF at2]) (simp_all add: s2(3))
  moreover have "below (finsh_sp s) s ?s3" using s2(4) by (simp add: below_def)
  ultimately show "\<exists>s'. vm_steps sys s s' \<and> ran (c1 @ c2 @ [FINSH_OP_POP]) s s' \<and> finsh_sp s' = finsh_sp s + 1 \<and>
      below (finsh_sp s) s s' \<and> slot_get k1 (finsh_vm_stack s' ! finsh_sp s) = slot_get k1 u \<and> finsh_memory s' = m2"
    using vm_steps_trans [OF s2(1)] ran_trans [OF s2(2), of "[FINSH_OP_POP]" ?s3] s2(5,6)
    by (intro exI [of _ ?s3]) simp
qed

subsection \<open>Steps of variables\<close>

lemma slot_one: "slot_get w 1 = 1"
  by (cases w) simp_all

lemma gives_step:
  assumes "gives sys c Dword p m m" "c_op f (mem_get w p m) 1 = Some r"
  shows "gives sys (c @ step_code f p w) Dword p m (mem_put w r p m)"
proof -
  have "width_le w w" by (cases w) simp_all
  then have "gives sys ((FINSH_OP_LD_VALUE w # FINSH_SET32 p) @ one_code w @ [FINSH_OP f w]) w (word_of_int r) m m"
    by (intro gives_bin [OF gives_ld_value gives_one]) (simp_all add: mem_get_slot slot_one assms(2))
  from gives_store [OF assms(1) this \<open>width_le w w\<close>] show ?thesis
    by (simp add: step_code_def mem_put_slot)
qed

lemma gives_pre:
  assumes "gives sys c Dword p m m" "c_op f (mem_get w p m) 1 = Some r"
  shows "gives sys (c @ step_code f p w @ [FINSH_OP_LD_VALUE_STACK Dword]) w (word_of_int r) m (mem_put w r p m)"
proof -
  have "width_le w Dword" by (cases w) simp_all
  from gives_narrower [OF gives_deref [OF gives_step [OF assms], of Dword] this]
  have "gives sys (c @ step_code f p w @ [FINSH_OP_LD_VALUE_STACK Dword]) w
      (word_of_int (mem_get Dword p (mem_put w r p m))) m (mem_put w r p m)"
    by (simp only: append_assoc)
  then show ?thesis by (rule gives_same) (simp only: mem_get_dword mem_get_put)
qed

lemma gives_post:
  assumes "c_op f (mem_get w p m) 1 = Some r"
  shows "gives sys ((FINSH_OP_LD_VALUE w # FINSH_SET32 p) @ (FINSH_OP_LD Dword # FINSH_SET32 p) @ step_code f p w @
    [FINSH_OP_POP]) w (word_of_int (mem_get w p m)) m (mem_put w r p m)"
  using gives_pop [OF gives_ld_value gives_step [OF gives_ld_dword assms]] by simp

subsection \<open>Calls\<close>

definition gives_args :: "syscalls \<Rightarrow> u8 list \<Rightarrow> u32 list \<Rightarrow> vm_memory \<Rightarrow> vm_memory \<Rightarrow> bool" where
  "gives_args sys c vs m m' \<longleftrightarrow>
     (\<forall>s. vm_at c s \<and> finsh_memory s = m \<longrightarrow>
        (\<exists>s'. vm_steps sys s s' \<and> ran c s s' \<and> finsh_sp s' = finsh_sp s + length vs \<and> below (finsh_sp s) s s' \<and>
           (\<forall>j < length vs. finsh_vm_stack s' ! (finsh_sp s + j) = vs ! j) \<and> finsh_memory s' = m'))"

lemma gives_args_Nil: "gives_args sys [] [] m m"
  unfolding gives_args_def
proof (intro allI impI)
  fix s
  assume s: "vm_at [] s \<and> finsh_memory s = m"
  show "\<exists>s'. vm_steps sys s s' \<and> ran [] s s' \<and> finsh_sp s' = finsh_sp s + length ([] :: u32 list) \<and>
      below (finsh_sp s) s s' \<and> (\<forall>j < length []. finsh_vm_stack s' ! (finsh_sp s + j) = [] ! j) \<and> finsh_memory s' = m"
    using s by (intro exI [of _ s]) (auto simp: vm_refl ran_def vm_at_def below_def)
qed

lemma gives_args_Cons:
  assumes c: "gives sys c Dword u m m1" and d: "gives_args sys d vs m1 m2"
  shows "gives_args sys (c @ d) (u # vs) m m2"
  unfolding gives_args_def
proof (intro allI impI)
  fix s
  assume s: "vm_at (c @ d) s \<and> finsh_memory s = m"
  then have at: "vm_at c s" by (simp add: vm_at_append)
  obtain s1 where s1: "vm_steps sys s s1" "ran c s s1" "finsh_sp s1 = finsh_sp s + 1" "below (finsh_sp s) s s1"
    "slot_get Dword (finsh_vm_stack s1 ! finsh_sp s) = slot_get Dword u" "finsh_memory s1 = m1"
    using givesE [OF _ at] c s by metis
  have "vm_at d s1" using ran_at [OF _ s1(2)] s by blast
  then obtain s2 where s2: "vm_steps sys s1 s2" "ran d s1 s2" "finsh_sp s2 = finsh_sp s1 + length vs"
    "below (finsh_sp s1) s1 s2" "\<forall>j < length vs. finsh_vm_stack s2 ! (finsh_sp s1 + j) = vs ! j" "finsh_memory s2 = m2"
    using d s1(6) unfolding gives_args_def by blast
  have u: "finsh_vm_stack s2 ! finsh_sp s = u"
    using s1(3,5) s2(4) by (simp add: below_def slot_eq_iff(3) [unfolded slot_get.simps])
  have "finsh_vm_stack s2 ! (finsh_sp s + j) = (u # vs) ! j" if "j < length (u # vs)" for j
    using u s2(5) s1(3) that by (cases j) simp_all
  then show "\<exists>s'. vm_steps sys s s' \<and> ran (c @ d) s s' \<and> finsh_sp s' = finsh_sp s + length (u # vs) \<and>
      below (finsh_sp s) s s' \<and> (\<forall>j < length (u # vs). finsh_vm_stack s' ! (finsh_sp s + j) = (u # vs) ! j) \<and>
      finsh_memory s' = m2"
    using vm_steps_trans [OF s1(1) s2(1)] ran_trans [OF s1(2) s2(2)] below_trans [OF s1(4) s2(4)] s1(3) s2(3,6)
    by (intro exI [of _ s2]) simp
qed

lemma gives_call:
  assumes c: "gives sys c Dword u m m1" and d: "gives_args sys d vs m1 m2"
    and r: "sys u vs m2 = Some (r, m3)" and n: "length vs \<le> 16"
  shows "gives sys (c @ d @ [FINSH_OP_SYSCALL, of_nat (length vs)]) Dword r m m3"
proof (rule givesI)
  fix s
  assume s: "vm_at (c @ d @ [FINSH_OP_SYSCALL, of_nat (length vs)]) s" "finsh_memory s = m"
  have at: "vm_at (c @ d) s" using s(1) vm_at_append [of "c @ d" _ s] by simp
  obtain s2 where s2: "vm_steps sys s s2" "ran (c @ d) s s2" "finsh_sp s2 = finsh_sp s + length (u # vs)"
    "below (finsh_sp s) s s2" "\<forall>j < length (u # vs). finsh_vm_stack s2 ! (finsh_sp s + j) = (u # vs) ! j"
    "finsh_memory s2 = m2"
    using gives_args_Cons [OF c d] at s(2) unfolding gives_args_def by blast
  let ?call = "[FINSH_OP_SYSCALL, of_nat (length vs)]"
  have at2: "vm_at ?call s2" using ran_at [OF _ s2(2)] s(1) by simp
  have l: "finsh_sp s2 < 64" "length (finsh_vm_stack s2) = 64" using sp_less [OF at2] by simp_all
  have f: "finsh_vm_stack s2 ! (finsh_sp s2 - length vs - 1) = u" using s2(3,5) by force
  have args: "take (length vs) (drop (finsh_sp s2 - length vs) (finsh_vm_stack s2)) = vs"
  proof (rule nth_equalityI)
    fix j
    assume "j < length (take (length vs) (drop (finsh_sp s2 - length vs) (finsh_vm_stack s2)))"
    then have "j < length vs" by simp
    then show "take (length vs) (drop (finsh_sp s2 - length vs) (finsh_vm_stack s2)) ! j = vs ! j"
      using s2(3) s2(5) [rule_format, of "Suc j"] l by simp
  qed (use s2(3) l in simp)
  let ?s3 = "s2\<lparr>finsh_sp := finsh_sp s + 1, finsh_pc := finsh_pc s2 + length ?call,
    finsh_vm_stack := (finsh_vm_stack s2)[finsh_sp s := r], finsh_memory := m3\<rparr>"
  have "vm_steps sys s2 ?s3"
    using run_syscall [OF at2 n, of sys r m3] r f args s2(3,6) by simp
  moreover have "ran ?call s2 ?s3" by (rule ran_one [OF at2]) (simp_all add: s2(3))
  moreover have "below (finsh_sp s) s ?s3" using s2(4) by (simp add: below_def)
  ultimately show "\<exists>s'. vm_steps sys s s' \<and> ran (c @ d @ ?call) s s' \<and> finsh_sp s' = finsh_sp s + 1 \<and>
      below (finsh_sp s) s s' \<and> slot_get Dword (finsh_vm_stack s' ! finsh_sp s) = slot_get Dword r \<and>
      finsh_memory s' = m3"
    using vm_steps_trans [OF s2(1)] ran_trans [OF s2(2), of ?call ?s3] s2(3) l
    by (intro exI [of _ ?s3]) simp
qed

end
