(* ===== verification/Finsh_Translate.thy ===== *)
theory Finsh_Translate
  imports Finsh_Correct
begin

text \<open>
  The translation of typed trees: for every kind of node, the code that type check and compiler make of it
  does what \<open>node_eval\<close> says.
\<close>

definition translates :: "finsh_symbols \<Rightarrow> finsh_node \<Rightarrow> bool \<Rightarrow> finsh_node \<Rightarrow> u8 list \<Rightarrow> bool" where
  "translates y n a n' c \<longleftrightarrow> node_type n' = node_type n \<and> node_id n' = node_id n \<and>
     (\<forall>ns err. finsh_type_check y (n # ns) a err =
        (let (ns', e) = finsh_type_check y ns False err in (n' # ns', e))) \<and>
     (\<forall>ns err. finsh_compile y (n' # ns) err = (let (d, e) = finsh_compile y ns err in (c @ d, e)))"

definition correct :: "finsh_symbols \<Rightarrow> syscalls \<Rightarrow> finsh_node \<Rightarrow> bool \<Rightarrow> nat \<Rightarrow> width \<Rightarrow> bool" where
  "correct y sys n a dt k \<longleftrightarrow>
     (\<exists>n' c. translates y n a n' c \<and> data_type n' = dt \<and> node_data_type y n = dt \<and>
        (\<forall>m v m'. node_eval y sys n a m = Some (v, m') \<longrightarrow> gives sys c k v m m'))"

lemma correctE:
  assumes "correct y sys n a dt k"
  obtains n' c where "translates y n a n' c" "data_type n' = dt" "node_data_type y n = dt"
    "\<And>m v m'. node_eval y sys n a m = Some (v, m') \<Longrightarrow> gives sys c k v m m'"
  using assms unfolding correct_def by blast

lemma translates_node:
  assumes "\<And>err. finsh_type_check y ch (child_mode t a) err = (ch', err)"
    and "\<And>err. finsh_compile y ch' err = (c1, err)"
    and "\<And>err. (case ch' of n # _ \<Rightarrow> (data_type n, err) | [] \<Rightarrow> leaf_type y t i d err) = (dt, err)"
    and "\<And>err. node_code y (Node t dt (\<not> is_syscall i \<and> a) v i ch') err = (c2, err)"
  shows "translates y (Node t d False v i ch) a (Node t dt (\<not> is_syscall i \<and> a) v i ch') (c1 @ c2)"
  unfolding translates_def using assms by (auto simp: Let_def split: prod.split)

lemma translates_one:
  assumes "translates y n a n' c"
  shows "finsh_type_check y [n] a err = ([n'], err)" "finsh_compile y [n'] err = (c, err)"
  using assms by (simp_all add: translates_def)

lemma translates_two:
  assumes "translates y m a m' c1" "translates y n False n' c2"
  shows "finsh_type_check y [m, n] a err = ([m', n'], err)" "finsh_compile y [m', n'] err = (c1 @ c2, err)"
  using assms by (simp_all add: translates_def)

lemma width_code_some: "width_of d = Some w \<Longrightarrow> width_code f d = f w"
  by (simp add: width_code_def)

subsection \<open>Leaves\<close>

lemma correct_value:
  assumes "t \<in> {FINSH_NODE_VALUE_INT, FINSH_NODE_VALUE_LONG, FINSH_NODE_VALUE_STRING, FINSH_NODE_VALUE_NULL}"
  shows "correct y sys (Node t d False v No_id []) False FINSH_DATA_TYPE_DWORD Dword"
proof -
  have "translates y (Node t d False v No_id []) False (Node t FINSH_DATA_TYPE_DWORD (\<not> is_syscall No_id \<and> False) v No_id [])
      ([] @ FINSH_OP_LD Dword # FINSH_SET32 v)"
    by (rule translates_node) (use assms in \<open>auto simp: leaf_type_def node_code_def\<close>)
  then show ?thesis
    using assms gives_ld_dword by (fastforce simp: correct_def leaf_type_def)
qed

lemma correct_char: "correct y sys (Node FINSH_NODE_VALUE_CHAR d False v No_id []) False FINSH_DATA_TYPE_BYTE Byte"
proof -
  have "translates y (Node FINSH_NODE_VALUE_CHAR d False v No_id []) False
      (Node FINSH_NODE_VALUE_CHAR FINSH_DATA_TYPE_BYTE (\<not> is_syscall No_id \<and> False) v No_id [])
      ([] @ [FINSH_OP_LD Byte, ucast v])"
    by (rule translates_node) (simp_all add: leaf_type_def node_code_def)
  moreover have "gives sys [FINSH_OP_LD Byte, ucast v] Byte v m m" for m
    by (rule gives_same [OF gives_ld_byte]) (simp only: slot_eq_iff, rule bit_word_eqI, simp add: bit_simps)
  ultimately show ?thesis by (fastforce simp: correct_def leaf_type_def)
qed

lemma correct_syscall:
  "correct y sys (Node FINSH_NODE_ID d False v (Syscall f) []) False d Dword"
proof -
  have "translates y (Node FINSH_NODE_ID d False v (Syscall f) []) False
      (Node FINSH_NODE_ID d (\<not> is_syscall (Syscall f) \<and> False) v (Syscall f) [])
      ([] @ FINSH_OP_LD Dword # FINSH_SET32 (syscall_func f))"
    by (rule translates_node) (simp_all add: leaf_type_def node_code_def is_syscall_def)
  then show ?thesis using gives_ld_dword by (fastforce simp: correct_def leaf_type_def)
qed

lemma load_width_data_type: "load_width ty = Some w \<Longrightarrow> var_data_type ty = Some (data_type_of w)"
  by (cases ty) (auto simp: data_type_of_def)

lemma width_of_data_type: "width_of (data_type_of w) = Some w"
  by (cases w) (simp_all add: width_of_def data_type_of_def data_type_defs)

lemma id_code_width:
  assumes "id_width y i = Some w"
  shows "id_code y i ad = (if ad then FINSH_OP_LD Dword else FINSH_OP_LD_VALUE w) # FINSH_SET32 (id_address y i)"
    "\<not> is_syscall i" "leaf_type y FINSH_NODE_ID i d err = (data_type_of w, err)"
    "id_type y i \<noteq> None" "i \<noteq> No_id"
  using assms load_width_data_type
  by (cases i; simp add: id_width_def load_code_def leaf_type_def is_syscall_def del: load_width.simps
      split: option.splits)+

lemma correct_id:
  assumes "id_width y i = Some w"
  shows "correct y sys (Node FINSH_NODE_ID d False v i []) a (data_type_of w) (if a then Dword else w)"
proof -
  note i = id_code_width [OF assms]
  have "translates y (Node FINSH_NODE_ID d False v i []) a
      (Node FINSH_NODE_ID (data_type_of w) (\<not> is_syscall i \<and> a) v i []) ([] @ id_code y i a)"
    by (rule translates_node) (simp_all add: i node_code_def)
  moreover have "gives sys (id_code y i a) (if a then Dword else w) u m m'"
    if "node_eval y sys (Node FINSH_NODE_ID d False v i []) a m = Some (u, m')" for m u m'
    using that i(2) gives_ld_dword gives_ld_value assms unfolding i(1)
    by (cases i) (auto simp: is_syscall_def split: if_splits)
  ultimately show ?thesis unfolding correct_def using i(3) by fastforce
qed

subsection \<open>Operators\<close>

lemma correct_bin:
  assumes "correct y sys m False d1 k1" "correct y sys n False d2 k2"
    and "width_of d1 = Some w" "width_le w k1" "width_le w k2"
  shows "correct y sys (Node (FINSH_NODE_SYS f) d False v No_id [m, n]) False d1 w"
proof -
  obtain m' c1 where m: "translates y m False m' c1" "data_type m' = d1" "node_data_type y m = d1"
    "\<And>x u x'. node_eval y sys m False x = Some (u, x') \<Longrightarrow> gives sys c1 k1 u x x'"
    using correctE [OF assms(1)] by blast
  obtain n' c2 where n: "translates y n False n' c2"
    "\<And>x u x'. node_eval y sys n False x = Some (u, x') \<Longrightarrow> gives sys c2 k2 u x x'"
    using correctE [OF assms(2)] by blast
  have "translates y (Node (FINSH_NODE_SYS f) d False v No_id [m, n]) False
      (Node (FINSH_NODE_SYS f) d1 (\<not> is_syscall No_id \<and> False) v No_id [m', n']) ((c1 @ c2) @ [FINSH_OP f w])"
    by (rule translates_node)
      (use translates_two [OF m(1) n(1)] m(2) assms(3) in \<open>simp_all add: child_mode_def node_code_def width_code_some\<close>)
  moreover have "gives sys ((c1 @ c2) @ [FINSH_OP f w]) w u x x'"
    if e: "node_eval y sys (Node (FINSH_NODE_SYS f) d False v No_id [m, n]) False x = Some (u, x')" for x u x'
  proof -
    obtain u1 x1 u2 r where "node_eval y sys m False x = Some (u1, x1)" "node_eval y sys n False x1 = Some (u2, x')"
      "c_op f (slot_get w u1) (slot_get w u2) = Some r" "u = word_of_int r"
      using e m(3) assms(3) by (auto simp: bind_eq_Some_conv)
    then show ?thesis using gives_bin [OF m(4) n(2) assms(4,5)] by simp
  qed
  ultimately show ?thesis unfolding correct_def using m(3) by fastforce
qed

lemma correct_bitwise:
  assumes "correct y sys m False d1 k1" "width_of d1 = Some w" "width_le w k1"
  shows "correct y sys (Node FINSH_NODE_SYS_BITWISE d False v No_id [m]) False d1 w"
proof -
  obtain m' c1 where m: "translates y m False m' c1" "data_type m' = d1" "node_data_type y m = d1"
    "\<And>x u x'. node_eval y sys m False x = Some (u, x') \<Longrightarrow> gives sys c1 k1 u x x'"
    using correctE [OF assms(1)] by blast
  have "translates y (Node FINSH_NODE_SYS_BITWISE d False v No_id [m]) False
      (Node FINSH_NODE_SYS_BITWISE d1 (\<not> is_syscall No_id \<and> False) v No_id [m']) (c1 @ [FINSH_OP_BITWISE w])"
    by (rule translates_node)
      (use translates_one [OF m(1)] m(2) assms(2) in \<open>simp_all add: child_mode_def node_code_def width_code_some\<close>)
  moreover have "gives sys (c1 @ [FINSH_OP_BITWISE w]) w u x x'"
    if e: "node_eval y sys (Node FINSH_NODE_SYS_BITWISE d False v No_id [m]) False x = Some (u, x')" for x u x'
  proof -
    obtain u1 where "node_eval y sys m False x = Some (u1, x')" "u = word_of_int (NOT (slot_get w u1))"
      using e m(3) assms(2) by (auto simp: bind_eq_Some_conv)
    then show ?thesis using gives_bitwise [OF m(4) assms(3)] by simp
  qed
  ultimately show ?thesis unfolding correct_def using m(3) by fastforce
qed

lemma correct_getvalue:
  assumes "correct y sys m False d1 Dword" "width_of d1 = Some w"
  shows "correct y sys (Node FINSH_NODE_SYS_GETVALUE d False v No_id [m]) a d1 (if a then Dword else w)"
proof -
  obtain m' c1 where m: "translates y m False m' c1" "data_type m' = d1" "node_data_type y m = d1"
    "\<And>x u x'. node_eval y sys m False x = Some (u, x') \<Longrightarrow> gives sys c1 Dword u x x'"
    using correctE [OF assms(1)] by blast
  let ?c = "if a then [] else [FINSH_OP_LD_VALUE_STACK w]"
  have "translates y (Node FINSH_NODE_SYS_GETVALUE d False v No_id [m]) a
      (Node FINSH_NODE_SYS_GETVALUE d1 (\<not> is_syscall No_id \<and> a) v No_id [m']) (c1 @ ?c)"
    by (rule translates_node)
      (use translates_one [OF m(1)] m(2) assms(2) in
        \<open>simp_all add: child_mode_def node_code_def width_code_some is_syscall_def\<close>)
  moreover have "gives sys (c1 @ ?c) (if a then Dword else w) u x x'"
    if e: "node_eval y sys (Node FINSH_NODE_SYS_GETVALUE d False v No_id [m]) a x = Some (u, x')" for x u x'
  proof -
    obtain u1 where u1: "node_eval y sys m False x = Some (u1, x')"
      "u = (if a then u1 else word_of_int (mem_get w u1 x'))"
      using e m(3) assms(2) by (auto simp: bind_eq_Some_conv split: if_splits)
    show ?thesis
    proof (cases a)
      case True
      then show ?thesis using m(4) [OF u1(1)] u1(2) by simp
    next
      case False
      then show ?thesis using gives_deref [OF m(4) [OF u1(1)], of w] u1(2) by simp
    qed
  qed
  ultimately show ?thesis unfolding correct_def using m(3) by fastforce
qed

lemma correct_getaddr:
  assumes "correct y sys m True d1 k"
  shows "correct y sys (Node FINSH_NODE_SYS_GETADDR d False v No_id [m]) False d1 k"
proof -
  obtain m' c1 where m: "translates y m True m' c1" "data_type m' = d1" "node_data_type y m = d1"
    "\<And>x u x'. node_eval y sys m True x = Some (u, x') \<Longrightarrow> gives sys c1 k u x x'"
    using correctE [OF assms(1)] by blast
  have "translates y (Node FINSH_NODE_SYS_GETADDR d False v No_id [m]) False
      (Node FINSH_NODE_SYS_GETADDR d1 (\<not> is_syscall No_id \<and> False) v No_id [m']) (c1 @ [])"
    by (rule translates_node)
      (use translates_one [OF m(1)] m(2) in \<open>simp_all add: child_mode_def node_code_def\<close>)
  then show ?thesis unfolding correct_def using m(3,4) by fastforce
qed

lemma correct_assign:
  assumes "correct y sys m True d1 Dword" "correct y sys n False d2 k2" "addressable m"
    and "width_of d1 = Some w" "width_le w k2"
  shows "correct y sys (Node FINSH_NODE_SYS_ASSIGN d False v No_id [m, n]) False d1 w"
proof -
  obtain m' c1 where m: "translates y m True m' c1" "data_type m' = d1" "node_data_type y m = d1"
    "\<And>x u x'. node_eval y sys m True x = Some (u, x') \<Longrightarrow> gives sys c1 Dword u x x'"
    using correctE [OF assms(1)] by blast
  obtain n' c2 where n: "translates y n False n' c2"
    "\<And>x u x'. node_eval y sys n False x = Some (u, x') \<Longrightarrow> gives sys c2 k2 u x x'"
    using correctE [OF assms(2)] by blast
  have k: "node_type m' \<in> {FINSH_NODE_ID, FINSH_NODE_SYS_GETVALUE}"
    using m(1) assms(3) by (simp add: translates_def addressable_def)
  have d: "width_of (d1 mod 16) = Some w"
    using assms(4) by (auto simp: width_of_def data_type_defs split: if_splits)
  have "node_code y (Node FINSH_NODE_SYS_ASSIGN d1 (\<not> is_syscall No_id \<and> False) v No_id [m', n']) err =
      ([FINSH_OP_ST w, FINSH_OP_LD_VALUE_STACK w], err)" for err
    using k assms(4) m(2) d by (cases m') (auto simp: node_code_def)
  then have "translates y (Node FINSH_NODE_SYS_ASSIGN d False v No_id [m, n]) False
      (Node FINSH_NODE_SYS_ASSIGN d1 (\<not> is_syscall No_id \<and> False) v No_id [m', n'])
      ((c1 @ c2) @ [FINSH_OP_ST w, FINSH_OP_LD_VALUE_STACK w])"
    by (intro translates_node) (use translates_two [OF m(1) n(1)] m(2) in \<open>simp_all add: child_mode_def\<close>)
  moreover have "gives sys ((c1 @ c2) @ [FINSH_OP_ST w, FINSH_OP_LD_VALUE_STACK w]) w u x x'"
    if e: "node_eval y sys (Node FINSH_NODE_SYS_ASSIGN d False v No_id [m, n]) False x = Some (u, x')" for x u x'
  proof -
    obtain u1 x1 u2 x2 where "node_eval y sys m True x = Some (u1, x1)" "node_eval y sys n False x1 = Some (u2, x2)"
      "u = word_of_int (slot_get w u2)" "x' = mem_put w (slot_get w u2) u1 x2"
      using e m(3) assms(4) by (auto simp: bind_eq_Some_conv)
    then show ?thesis using gives_assign [OF m(4) n(2) assms(5)] by simp
  qed
  ultimately show ?thesis unfolding correct_def using m(3) by fastforce
qed

subsection \<open>Steps of variables\<close>

lemma var_nodeE:
  assumes "var_node y m = Some (p, w)"
  obtains d v i where "m = Node FINSH_NODE_ID d False v (Var i) []" "id_width y (Var i) = Some w"
    "p = id_value_address y (Var i)"
  using assms unfolding var_node_def
  by (auto split: finsh_node.splits node_kind.splits bool.splits finsh_id.splits list.splits option.splits)

lemma step_varE:
  assumes "step_var f (Some (p, w)) m = Some (u, r, m')"
  shows "u = mem_get w p m" "c_op f (mem_get w p m) 1 = Some r" "m' = mem_put w r p m"
  using assms by (auto simp: step_var_def bind_eq_Some_conv)

lemma correct_pre:
  assumes m: "var_node y m = Some (p, w)"
    and t: "(t, f) \<in> {(FINSH_NODE_SYS_PREINC, Add), (FINSH_NODE_SYS_PREDEC, Sub)}"
  shows "correct y sys (Node t d False v No_id [m]) False (data_type_of w) w"
proof -
  obtain d' v' i where e: "m = Node FINSH_NODE_ID d' False v' (Var i) []" "id_width y (Var i) = Some w"
    "p = id_value_address y (Var i)"
    using var_nodeE [OF m] by blast
  note i = id_code_width [OF e(2)]
  let ?m = "Node FINSH_NODE_ID (data_type_of w) True v' (Var i) []"
  have "translates y m True ?m ([] @ id_code y (Var i) True)"
    unfolding e(1) using translates_node [of y "[]" FINSH_NODE_ID True "[]" "[]" "Var i" d' "data_type_of w" v'] i
    by (simp add: node_code_def is_syscall_def)
  note tm = translates_one [OF this]
  have "translates y (Node t d False v No_id [m]) False (Node t (data_type_of w) (\<not> is_syscall No_id \<and> False) v No_id [?m])
      (([] @ id_code y (Var i) True) @ step_code f p w @ [FINSH_OP_LD_VALUE_STACK Dword])"
    by (rule translates_node)
      (use tm t e(3) in \<open>auto simp: child_mode_def node_code_def pre_code_def width_code_some width_of_data_type\<close>)
  moreover have "gives sys (([] @ id_code y (Var i) True) @ step_code f p w @ [FINSH_OP_LD_VALUE_STACK Dword]) w u x x'"
    if e0: "node_eval y sys (Node t d False v No_id [m]) False x = Some (u, x')" for x u x'
  proof -
    obtain u' r where "step_var f (Some (p, w)) x = Some (u', r, x')" "u = word_of_int r"
      using e0 t m by (auto simp: bind_eq_Some_conv)
    with step_varE [OF this(1)] show ?thesis
      using gives_pre [OF gives_ld_dword, of f w p x r sys] i(1) e(3) by simp
  qed
  moreover have "node_data_type y (Node t d False v No_id [m]) = data_type_of w" using i(3) by (simp add: e(1))
  ultimately show ?thesis unfolding correct_def by fastforce
qed

lemma correct_post:
  assumes m: "var_node y m = Some (p, w)"
    and t: "(t, f) \<in> {(FINSH_NODE_SYS_INC, Add), (FINSH_NODE_SYS_DEC, Sub)}"
  shows "correct y sys (Node t d False v No_id [m]) False (data_type_of w) w"
proof -
  obtain d' v' i where e: "m = Node FINSH_NODE_ID d' False v' (Var i) []" "id_width y (Var i) = Some w"
    "p = id_value_address y (Var i)"
    using var_nodeE [OF m] by blast
  note i = id_code_width [OF e(2)]
  let ?m = "Node FINSH_NODE_ID (data_type_of w) False v' (Var i) []"
  have "translates y m False ?m ([] @ id_code y (Var i) False)"
    unfolding e(1) using translates_node [of y "[]" FINSH_NODE_ID False "[]" "[]" "Var i" d' "data_type_of w" v'] i
    by (simp add: node_code_def child_mode_def)
  note tm = translates_one [OF this]
  let ?c = "(FINSH_OP_LD Dword # FINSH_SET32 p) @ step_code f p w @ [FINSH_OP_POP]"
  have "translates y (Node t d False v No_id [m]) False (Node t (data_type_of w) (\<not> is_syscall No_id \<and> False) v No_id [?m])
      (([] @ id_code y (Var i) False) @ ?c)"
    by (rule translates_node)
      (use tm t e(3) in \<open>auto simp: child_mode_def node_code_def post_code_def width_code_some width_of_data_type\<close>)
  moreover have "gives sys (([] @ id_code y (Var i) False) @ ?c) w u x x'"
    if e0: "node_eval y sys (Node t d False v No_id [m]) False x = Some (u, x')" for x u x'
  proof -
    obtain u' r where "step_var f (Some (p, w)) x = Some (u', r, x')" "u = word_of_int u'"
      using e0 t m by (auto simp: bind_eq_Some_conv)
    with step_varE [OF this(1)] show ?thesis
      using gives_post [of f w p x r sys] i(1) e(3) by simp
  qed
  moreover have "node_data_type y (Node t d False v No_id [m]) = data_type_of w" using i(3) by (simp add: e(1))
  ultimately show ?thesis unfolding correct_def by fastforce
qed

subsection \<open>Calls\<close>

lemma args_correct:
  assumes "\<forall>n \<in> set ns. \<exists>d. correct y sys n False d Dword"
  shows "\<exists>ns' c. (\<forall>err. finsh_type_check y ns False err = (ns', err)) \<and>
    (\<forall>err. finsh_compile y ns' err = (c, err)) \<and> length ns' = length ns \<and>
    (\<forall>m vs m'. args_eval y sys ns m = Some (vs, m') \<longrightarrow> length vs = length ns \<and> gives_args sys c vs m m')"
  using assms
proof (induction ns)
  case Nil
  then show ?case using gives_args_Nil by (intro exI [of _ "[]"]) simp
next
  case (Cons n ns)
  obtain ns' c where ns: "\<And>err. finsh_type_check y ns False err = (ns', err)"
    "\<And>err. finsh_compile y ns' err = (c, err)" "length ns' = length ns"
    "\<And>m vs m'. args_eval y sys ns m = Some (vs, m') \<Longrightarrow> length vs = length ns \<and> gives_args sys c vs m m'"
    using Cons.IH Cons.prems by auto
  obtain n' c1 where n: "translates y n False n' c1"
    "\<And>m v m'. node_eval y sys n False m = Some (v, m') \<Longrightarrow> gives sys c1 Dword v m m'"
    using Cons.prems correctE [of y sys n False _ Dword] by (metis list.set_intros(1))
  have "finsh_type_check y (n # ns) False err = (n' # ns', err)" "finsh_compile y (n' # ns') err = (c1 @ c, err)" for err
    using n(1) ns(1,2) by (simp_all add: translates_def)
  moreover have "length vs = length (n # ns) \<and> gives_args sys (c1 @ c) vs m m'"
    if e0: "args_eval y sys (n # ns) m = Some (vs, m')" for m vs m'
  proof -
    obtain u m1 us where "node_eval y sys n False m = Some (u, m1)" "args_eval y sys ns m1 = Some (us, m')" "vs = u # us"
      using e0 by (auto simp: bind_eq_Some_conv)
    then show ?thesis using gives_args_Cons [OF n(2)] ns(4) by simp
  qed
  ultimately show ?case using ns(3) by (intro exI [of _ "n' # ns'"] exI [of _ "c1 @ c"]) simp
qed

lemma correct_call:
  assumes "correct y sys f False d1 Dword" "\<forall>n \<in> set args. \<exists>d. correct y sys n False d Dword" "length args \<le> 16"
  shows "correct y sys (Node FINSH_NODE_SYS_FUNC d False v No_id (f # args)) False d1 Dword"
proof -
  obtain f' c1 where f: "translates y f False f' c1" "data_type f' = d1" "node_data_type y f = d1"
    "\<And>x u x'. node_eval y sys f False x = Some (u, x') \<Longrightarrow> gives sys c1 Dword u x x'"
    using correctE [OF assms(1)] by blast
  obtain ns c2 where ns: "\<And>err. finsh_type_check y args False err = (ns, err)"
    "\<And>err. finsh_compile y ns err = (c2, err)" "length ns = length args"
    "\<And>m vs m'. args_eval y sys args m = Some (vs, m') \<Longrightarrow> length vs = length args \<and> gives_args sys c2 vs m m'"
    using args_correct [OF assms(2)] by blast
  let ?call = "[FINSH_OP_SYSCALL, of_nat (length args)]"
  have "translates y (Node FINSH_NODE_SYS_FUNC d False v No_id (f # args)) False
      (Node FINSH_NODE_SYS_FUNC d1 (\<not> is_syscall No_id \<and> False) v No_id (f' # ns)) ((c1 @ c2) @ ?call)"
    by (rule translates_node)
      (use f(1,2) ns(1,2,3) in \<open>simp_all add: translates_def child_mode_def node_code_def\<close>)
  moreover have "gives sys ((c1 @ c2) @ ?call) Dword u x x'"
    if e0: "node_eval y sys (Node FINSH_NODE_SYS_FUNC d False v No_id (f # args)) False x = Some (u, x')" for x u x'
  proof -
    obtain u1 x1 vs x2 where e: "node_eval y sys f False x = Some (u1, x1)" "args_eval y sys args x1 = Some (vs, x2)"
      "sys u1 vs x2 = Some (u, x')"
      using e0 by (auto simp: bind_eq_Some_conv)
    have l: "length vs = length args" "gives_args sys c2 vs x1 x2" using ns(4) [OF e(2)] by simp_all
    show ?thesis using gives_call [where vs = vs, OF f(4) [OF e(1)] l(2) e(3)] l(1) assms(3) by simp
  qed
  ultimately show ?thesis unfolding correct_def using f(3) by fastforce
qed

subsection \<open>All typed trees\<close>

text \<open>An address is a double word.\<close>

lemma address_dword:
  assumes "node_typing y m True = Some (d1, k1)" "addressable m"
  shows "k1 = Dword"
  using assms
  by (cases m) (auto simp: addressable_def bind_eq_Some_conv split: if_splits option.splits list.splits)

lemma node_correct: "node_typing y n a = Some (dt, k) \<Longrightarrow> correct y sys n a dt k"
proof (induction n arbitrary: a dt k)
  case (Node t d ad v i ch)
  have ad: "\<not> ad" and no: "t \<noteq> FINSH_NODE_ID \<Longrightarrow> i = No_id"
    using Node.prems by (auto split: if_splits)
  note nt = Node.prems [unfolded node_typing.simps, simplified ad]
  note ih = Node.IH
  show ?case
  proof (cases t)
    case FINSH_NODE_ID
    then show ?thesis
      using nt ad correct_id [of y i _ sys d v a] correct_syscall [of y sys d v]
      by (cases i) (auto simp: is_syscall_def split: if_splits option.splits)
  next
    case (FINSH_NODE_SYS f)
    then obtain m n k1 d2 k2 where c: "ch = [m, n]" "\<not> a" "node_typing y m False = Some (dt, k1)"
      "node_typing y n False = Some (d2, k2)" "width_of dt = Some k" "width_le k k1" "width_le k k2"
      using nt by (auto simp: bind_eq_Some_conv split: list.splits if_splits)
    have "m \<in> set ch" "n \<in> set ch" using c(1) by simp_all
    from correct_bin [OF ih [OF this(1) c(3)] ih [OF this(2) c(4)] c(5-7)] show ?thesis
      using c(1,2) FINSH_NODE_SYS ad no by simp
  next
    case FINSH_NODE_SYS_BITWISE
    then obtain m k1 where c: "ch = [m]" "\<not> a" "node_typing y m False = Some (dt, k1)"
      "width_of dt = Some k" "width_le k k1"
      using nt by (auto simp: bind_eq_Some_conv split: list.splits if_splits)
    have "m \<in> set ch" using c(1) by simp
    from correct_bitwise [OF ih [OF this c(3)] c(4,5)] show ?thesis
      using c(1,2) FINSH_NODE_SYS_BITWISE ad no by simp
  next
    case FINSH_NODE_SYS_FUNC
    then obtain f args where c: "ch = f # args" "\<not> a" "length args \<le> 16"
      "node_typing y f False = Some (dt, Dword)" "k = Dword"
      "\<forall>n \<in> set args. map_option snd (node_typing y n False) = Some Dword"
      using nt by (auto simp: bind_eq_Some_conv split: list.splits if_splits)
    have f: "f \<in> set ch" using c(1) by simp
    have "\<exists>d. correct y sys n False d Dword" if n: "n \<in> set args" for n
    proof -
      obtain dn where "node_typing y n False = Some (dn, Dword)" using c(6) n by fastforce
      then show ?thesis using ih [of n False dn Dword] n c(1) by auto
    qed
    then show ?thesis
      using correct_call [OF ih [OF f c(4)] _ c(3)] c(1,2,5) FINSH_NODE_SYS_FUNC ad no by simp
  next
    case FINSH_NODE_SYS_ASSIGN
    then obtain m n k1 d2 k2 where c: "ch = [m, n]" "\<not> a" "addressable m" "node_typing y m True = Some (dt, k1)"
      "node_typing y n False = Some (d2, k2)" "width_of dt = Some k" "width_le k k2"
      using nt by (auto simp: bind_eq_Some_conv split: list.splits if_splits)
    have k1: "k1 = Dword" using address_dword [OF c(4,3)] .
    have "m \<in> set ch" "n \<in> set ch" using c(1) by simp_all
    from correct_assign [OF ih [OF this(1) c(4) [unfolded k1]] ih [OF this(2) c(5)] c(3,6,7)] show ?thesis
      using c(1,2) FINSH_NODE_SYS_ASSIGN ad no by simp
  next
    case FINSH_NODE_SYS_GETVALUE
    then obtain m w where c: "ch = [m]" "node_typing y m False = Some (dt, Dword)" "width_of dt = Some w"
      "k = (if a then Dword else w)"
      using nt by (auto simp: bind_eq_Some_conv split: list.splits if_splits)
    have "m \<in> set ch" using c(1) by simp
    from correct_getvalue [OF ih [OF this c(2)] c(3), of d v a] show ?thesis
      using c(1,4) FINSH_NODE_SYS_GETVALUE ad no by simp
  next
    case FINSH_NODE_SYS_GETADDR
    then obtain m where c: "ch = [m]" "\<not> a" "node_typing y m True = Some (dt, k)"
      using nt by (auto split: list.splits if_splits)
    have "m \<in> set ch" using c(1) by simp
    from correct_getaddr [OF ih [OF this c(3)]] show ?thesis
      using c(1,2) FINSH_NODE_SYS_GETADDR ad no by simp
  next
    case FINSH_NODE_SYS_PREINC
    then show ?thesis using nt ad no
      by (auto split: list.splits if_splits intro: correct_pre)
  next
    case FINSH_NODE_SYS_PREDEC
    then show ?thesis using nt ad no
      by (auto split: list.splits if_splits intro: correct_pre)
  next
    case FINSH_NODE_SYS_INC
    then show ?thesis using nt ad no
      by (auto split: list.splits if_splits intro: correct_post)
  next
    case FINSH_NODE_SYS_DEC
    then show ?thesis using nt ad no
      by (auto split: list.splits if_splits intro: correct_post)
  qed (use nt ad no in \<open>auto split: if_splits intro: correct_value correct_char\<close>)
qed

end
