(* ===== verification/Finsh_Run.thy ===== *)
theory Finsh_Run
  imports Finsh_Translate
begin

text \<open>
  From the syntax trees of a line to the bottom of the stack: the compiler and the machine together against
  the meaning of the statements.
\<close>

subsection \<open>Statements\<close>

fun statements_typing :: "finsh_symbols \<Rightarrow> finsh_node list \<Rightarrow> width option" where
  "statements_typing y [] = None"
| "statements_typing y [n] = map_option snd (node_typing y n False)"
| "statements_typing y (n # ns) = do { _ \<leftarrow> node_typing y n False; statements_typing y ns }"

text \<open>The value is that of the last statement.\<close>

fun statements_eval :: "finsh_symbols \<Rightarrow> syscalls \<Rightarrow> finsh_node list \<Rightarrow> vm_memory \<Rightarrow> (u32 \<times> vm_memory) option" where
  "statements_eval y sys [] m = None"
| "statements_eval y sys [n] m = node_eval y sys n False m"
| "statements_eval y sys (n # ns) m = do { (u, m1) \<leftarrow> node_eval y sys n False m; statements_eval y sys ns m1 }"

lemma gives_sequence:
  assumes "gives sys c1 k1 u m m1" "gives sys c2 k2 v m1 m2"
  shows "gives sys (c1 @ [FINSH_OP_POP] @ c2) k2 v m m2"
proof (rule givesI)
  fix s
  assume s: "vm_at (c1 @ [FINSH_OP_POP] @ c2) s" "finsh_memory s = m"
  have at: "vm_at c1 s" using s(1) by (simp add: vm_at_append)
  obtain s1 where s1: "vm_steps sys s s1" "ran c1 s s1" "finsh_sp s1 = finsh_sp s + 1" "below (finsh_sp s) s s1"
    "finsh_memory s1 = m1"
    using givesE [OF _ at] assms(1) s(2) by metis
  have at1: "vm_at ([FINSH_OP_POP] @ c2) s1" by (rule ran_at [OF s(1) s1(2)])
  then have pop: "vm_at [FINSH_OP_POP] s1" by (simp only: vm_at_append)
  let ?s2 = "s1\<lparr>finsh_sp := finsh_sp s, finsh_pc := finsh_pc s1 + length [FINSH_OP_POP],
    finsh_vm_stack := finsh_vm_stack s1, finsh_memory := finsh_memory s1\<rparr>"
  have "vm_steps sys s1 ?s2" using run_pop [OF pop, of sys] s1(3) by simp
  moreover have r2: "ran [FINSH_OP_POP] s1 ?s2" by (rule ran_one [OF pop]) (simp_all add: s1(3))
  ultimately have st: "vm_steps sys s ?s2" using vm_steps_trans [OF s1(1)] by blast
  have at2: "vm_at c2 ?s2" by (rule ran_at [OF at1 r2])
  have mem: "finsh_memory ?s2 = m1" "finsh_sp ?s2 = finsh_sp s" using s1(5) by simp_all
  obtain s3 where s3: "vm_steps sys ?s2 s3" "ran c2 ?s2 s3" "finsh_sp s3 = finsh_sp s + 1" "below (finsh_sp s) ?s2 s3"
    "slot_get k2 (finsh_vm_stack s3 ! finsh_sp s) = slot_get k2 v" "finsh_memory s3 = m2"
    using givesE [OF assms(2) [folded mem(1)] at2] unfolding mem(2) by blast
  have "below (finsh_sp s) s s3" using s1(4) s3(4) by (simp add: below_def)
  then show "\<exists>s'. vm_steps sys s s' \<and> ran (c1 @ [FINSH_OP_POP] @ c2) s s' \<and> finsh_sp s' = finsh_sp s + 1 \<and>
      below (finsh_sp s) s s' \<and> slot_get k2 (finsh_vm_stack s' ! finsh_sp s) = slot_get k2 v \<and> finsh_memory s' = m2"
    using vm_steps_trans [OF st s3(1)] ran_trans [OF s1(2) ran_trans [OF r2 s3(2)]] s3(3,5,6) by blast
qed

lemma statements_correct:
  assumes "statements_typing y ns = Some k"
  shows "\<exists>ns' c. (\<forall>err. finsh_type_check y ns False err = (ns', err)) \<and>
    (\<forall>err. compile_statements y ns' err = (c, err)) \<and> (ns' = [] \<longleftrightarrow> ns = []) \<and>
    (\<forall>m v m'. statements_eval y sys ns m = Some (v, m') \<longrightarrow> gives sys c k v m m')"
  using assms
proof (induction ns rule: statements_typing.induct)
  case (2 y n)
  then obtain dt where "node_typing y n False = Some (dt, k)" by auto
  from node_correct [OF this, of sys] obtain n' c where n: "translates y n False n' c"
    "\<And>m v m'. node_eval y sys n False m = Some (v, m') \<Longrightarrow> gives sys c k v m m'"
    by (rule correctE) blast
  show ?case
    using translates_one [OF n(1)] n(2) by (intro exI [of _ "[n']"] exI [of _ c]) simp
next
  case (3 y n n2 ns)
  let ?ns = "n2 # ns"
  obtain d1 k1 where "node_typing y n False = Some (d1, k1)" and k: "statements_typing y ?ns = Some k"
    using "3.prems" by (auto simp: bind_eq_Some_conv)
  from node_correct [OF this(1), of sys] obtain n' c1 where n: "translates y n False n' c1"
    "\<And>m v m'. node_eval y sys n False m = Some (v, m') \<Longrightarrow> gives sys c1 k1 v m m'"
    by (rule correctE) blast
  obtain ns' c where ns: "\<And>err. finsh_type_check y ?ns False err = (ns', err)"
    "\<And>err. compile_statements y ns' err = (c, err)" "ns' \<noteq> []"
    "\<And>m v m'. statements_eval y sys ?ns m = Some (v, m') \<Longrightarrow> gives sys c k v m m'"
    using "3.IH" [OF _ k] \<open>node_typing y n False = _\<close> by blast
  have "gives sys (c1 @ [FINSH_OP_POP] @ c) k v m m'" if e: "statements_eval y sys (n # ?ns) m = Some (v, m')" for m v m'
  proof -
    obtain u m1 where "node_eval y sys n False m = Some (u, m1)" "statements_eval y sys ?ns m1 = Some (v, m')"
      using e by (auto simp: bind_eq_Some_conv)
    then show ?thesis using gives_sequence [OF n(2) ns(4)] by blast
  qed
  moreover have "finsh_type_check y (n # ?ns) False err = (n' # ns', err)" for err
    using n(1) ns(1) by (simp add: translates_def del: finsh_type_check.simps)
  moreover have "compile_statements y (n' # ns') err = (c1 @ [FINSH_OP_POP] @ c, err)" for err
    using translates_one(2) [OF n(1)] ns(2,3) by simp
  ultimately show ?case by (intro exI [of _ "n' # ns'"] exI [of _ "c1 @ [FINSH_OP_POP] @ c"]) simp
qed simp

subsection \<open>The end of the text segment\<close>

lemma loop_no_op:
  assumes "length (text_segment s) = FINSH_TEXT_MAX" "finsh_pc s \<le> FINSH_TEXT_MAX"
    and "\<And>i. finsh_pc s \<le> i \<Longrightarrow> i < FINSH_TEXT_MAX \<Longrightarrow> text_segment s ! i = 0"
  shows "vm_loop sys s = Some (s\<lparr>finsh_pc := FINSH_TEXT_MAX\<rparr>)"
  using assms
proof (induction "FINSH_TEXT_MAX - finsh_pc s" arbitrary: s)
  case 0
  then show ?case by (subst vm_loop.simps) simp
next
  case (Suc n)
  then have pc: "finsh_pc s < FINSH_TEXT_MAX" "text_segment s ! finsh_pc s = 0" by simp_all
  let ?s = "s\<lparr>finsh_pc := Suc (finsh_pc s)\<rparr>"
  have "vm_step sys s = Some ?s" using pc(2) by (simp add: vm_step_def op_table_def OP_no_op_def)
  moreover have "vm_loop sys ?s = Some (?s\<lparr>finsh_pc := FINSH_TEXT_MAX\<rparr>)"
    by (rule Suc.hyps(1)) (use Suc.hyps(2) Suc.prems pc(1) in auto)
  ultimately show ?case using pc(1) by (subst vm_loop.simps) simp
qed

lemma nth_behind: "length c \<le> i \<Longrightarrow> i < FINSH_TEXT_MAX \<Longrightarrow> (c @ replicate (FINSH_TEXT_MAX - length c) 0) ! i = 0"
  by (simp add: nth_append)

lemma code_runs:
  assumes "gives sys c k v (finsh_memory s) m'" "length c \<le> FINSH_TEXT_MAX"
    and "length (finsh_vm_stack s) = FINSH_STACK_MAX"
    and "text_segment s = c @ replicate (FINSH_TEXT_MAX - length c) 0"
  shows "\<exists>s'. finsh_vm_run sys s = Some s' \<and> slot_get k (finsh_stack_bottom s') = slot_get k v \<and>
    finsh_sp s' = 1 \<and> finsh_memory s' = m' \<and> length (finsh_vm_stack s') = FINSH_STACK_MAX"
proof -
  let ?s = "s\<lparr>finsh_sp := 0, finsh_pc := 0\<rparr>"
  have at: "vm_at c ?s" using assms(2-4) by (simp add: vm_at_def vm_ok_def code_at_def)
  have g: "gives sys c k v (finsh_memory ?s) m'" using assms(1) by simp
  from givesE [OF g at] obtain s1 where s1: "vm_steps sys ?s s1" "ran c ?s s1" "finsh_sp s1 = finsh_sp ?s + 1"
    "slot_get k (finsh_vm_stack s1 ! finsh_sp ?s) = slot_get k v" "finsh_memory s1 = m'"
    by blast
  have t: "text_segment s1 = c @ replicate (FINSH_TEXT_MAX - length c) 0" "finsh_pc s1 = length c"
    "length (finsh_vm_stack s1) = FINSH_STACK_MAX"
    using s1(2) assms(4) by (simp_all add: ran_def vm_ok_def)
  have "vm_loop sys s1 = Some (s1\<lparr>finsh_pc := FINSH_TEXT_MAX\<rparr>)"
    by (rule loop_no_op) (use t assms(2) in \<open>simp_all add: nth_append\<close>)
  then have "finsh_vm_run sys s = Some (s1\<lparr>finsh_pc := FINSH_TEXT_MAX\<rparr>)"
    unfolding finsh_vm_run_def using vm_steps_loop [OF s1(1)] by simp
  then show ?thesis using s1(3,4,5) t(3) by (simp add: finsh_stack_bottom_def)
qed

subsection \<open>Properties\<close>

lemma finsh_line_compiled:
  assumes "statements_typing y root = Some k" "statements_eval y sys root (finsh_memory s) = Some (v, m')"
    and "length (finsh_vm_stack s) = FINSH_STACK_MAX"
    and "finsh_compiler_run y root FINSH_ERROR_OK s = Some (err, s1)"
  shows "err = FINSH_ERROR_OK \<and> (\<exists>s2. finsh_vm_run sys s1 = Some s2 \<and>
    slot_get k (finsh_stack_bottom s2) = slot_get k v \<and> finsh_memory s2 = m')"
proof -
  obtain ns' c where ns: "\<And>err. finsh_type_check y root False err = (ns', err)"
    "\<And>err. compile_statements y ns' err = (c, err)" "gives sys c k v (finsh_memory s) m'"
    using statements_correct [OF assms(1), of sys] assms(2) by blast
  have s1: "err = FINSH_ERROR_OK" "length c \<le> FINSH_TEXT_MAX"
    "s1 = s\<lparr>text_segment := c @ replicate (FINSH_TEXT_MAX - length c) 0, finsh_vm_stack := (finsh_vm_stack s)[0 := 0]\<rparr>"
    using assms(4) ns(1,2) by (auto simp: finsh_compiler_run_def split: if_splits)
  have "gives sys c k v (finsh_memory s1) m'" using ns(3) s1(3) by simp
  from code_runs [OF this s1(2)] show ?thesis using s1 assms(3) by auto
qed

text \<open>C17. For a tree with a typing and a defined evaluation the type check gives the root the data
  type of the typing and sets no error, the compiler sets none either, and the code runs to its
  end without leaving the stack: it pushes one slot and leaves the slots below alone.\<close>

lemma finsh_typed:
  assumes "node_typing y n False = Some (dt, k)"
  shows "\<exists>n' c. finsh_type_check y [n] False err = ([n'], err) \<and> data_type n' = dt \<and>
    finsh_compile y [n'] err = (c, err) \<and>
    (\<forall>s. vm_at c s \<and> node_eval y sys n False (finsh_memory s) \<noteq> None \<longrightarrow>
      (\<exists>s'. vm_steps sys s s' \<and> vm_ok s' \<and> finsh_pc s' = finsh_pc s + length c \<and>
        finsh_sp s' = finsh_sp s + 1 \<and> (\<forall>j < finsh_sp s. finsh_vm_stack s' ! j = finsh_vm_stack s ! j)))"
proof -
  obtain n' c where n: "translates y n False n' c" "data_type n' = dt"
    "\<And>m v m'. node_eval y sys n False m = Some (v, m') \<Longrightarrow> gives sys c k v m m'"
    using node_correct [OF assms, of sys] by (rule correctE) blast
  have "\<exists>s'. vm_steps sys s s' \<and> vm_ok s' \<and> finsh_pc s' = finsh_pc s + length c \<and>
      finsh_sp s' = finsh_sp s + 1 \<and> (\<forall>j < finsh_sp s. finsh_vm_stack s' ! j = finsh_vm_stack s ! j)"
    if at: "vm_at c s" and ev: "node_eval y sys n False (finsh_memory s) \<noteq> None" for s
  proof -
    obtain v m' where "node_eval y sys n False (finsh_memory s) = Some (v, m')" using ev by auto
    from givesE [OF n(3) [OF this] at] show ?thesis by (auto simp: ran_def below_def)
  qed
  then show ?thesis using translates_one [OF n(1)] n(2) by blast
qed

text \<open>
  An integer plus a character: the character is loaded into the low byte of a slot that still holds what an
  earlier line left there, and the addition reads the whole slot.
\<close>

definition int_plus_char :: "u32 \<Rightarrow> u32 \<Rightarrow> finsh_node" where
  "int_plus_char i ch =
     Node (FINSH_NODE_SYS Add) 0 False 0 No_id
       [Node FINSH_NODE_VALUE_INT 0 False i No_id [], Node FINSH_NODE_VALUE_CHAR 0 False ch No_id []]"

text \<open>C19. The value of an int plus a char depends on what an earlier line left in the second slot of
  the stack: the upper bytes of that slot are added too.\<close>

lemma finsh_stale_bytes:
  assumes "length (finsh_vm_stack s) = FINSH_STACK_MAX"
  shows "\<exists>s1 s2. finsh_compiler_run y [int_plus_char i ch] FINSH_ERROR_OK s = Some (FINSH_ERROR_OK, s1) \<and>
    finsh_vm_run sys s1 = Some s2 \<and>
    finsh_stack_bottom s2 = i + ((finsh_vm_stack s ! 1 AND NOT 0xff) OR ucast (ucast ch :: u8))"
proof -
  let ?ld = "FINSH_OP_LD Dword # FINSH_SET32 i" and ?ch = "[FINSH_OP_LD Byte, ucast ch]"
  let ?add = "[FINSH_OP Add Dword]"
  let ?c = "?ld @ ?ch @ ?add"
  let ?s1 = "s\<lparr>text_segment := ?c @ replicate (FINSH_TEXT_MAX - length ?c) 0, finsh_vm_stack := (finsh_vm_stack s)[0 := 0]\<rparr>"
  have l: "length ?c = 8" by (simp add: FINSH_SET32_def)
  have w: "width_of FINSH_DATA_TYPE_DWORD = Some Dword" by (simp add: width_of_def data_type_defs)
  have "finsh_compiler_run y [int_plus_char i ch] FINSH_ERROR_OK s = Some (FINSH_ERROR_OK, ?s1)"
    using l by (simp add: finsh_compiler_run_def int_plus_char_def leaf_type_def node_code_def width_code_some [OF w]
        FINSH_TEXT_MAX_def child_mode_def)
  moreover
  let ?t0 = "?s1\<lparr>finsh_sp := 0, finsh_pc := 0\<rparr>"
  let ?t1 = "pushed Dword (sint i) 5 ?t0"
  let ?t2 = "pushed Byte (uint (ucast ch :: u8)) 2 ?t1"
  have at0: "vm_at ?c ?t0"
    using assms l by (simp add: vm_at_def vm_ok_def code_at_def FINSH_TEXT_MAX_def)
  have ld: "vm_at ?ld ?t0" using at0 by (simp only: vm_at_append)
  have r1: "ran ?ld ?t0 ?t1" by (rule pushed_ran(1) [OF ld]) (simp_all add: FINSH_SET32_def)
  have at1: "vm_at (?ch @ ?add) ?t1" by (rule ran_at [OF at0 r1])
  then have lb: "vm_at ?ch ?t1" by (simp only: vm_at_append)
  have r2: "ran ?ch ?t1 ?t2" by (rule pushed_ran(1) [OF lb]) simp_all
  have at2: "vm_at ?add ?t2" by (rule ran_at [OF at1 r2])
  define x where "x = (finsh_vm_stack s ! 1 AND NOT 0xff) OR ucast (ucast ch :: u8)"
  have len: "length (finsh_vm_stack s) = 64" using assms by (simp add: FINSH_STACK_MAX_def)
  have t2: "finsh_sp ?t2 = 2" "finsh_vm_stack ?t2 ! 0 = i" "finsh_vm_stack ?t2 ! 1 = x" "finsh_pc ?t2 = 7"
    using len by (simp_all add: pushed_def x_def)
  let ?t3 = "?t2\<lparr>finsh_sp := 1, finsh_pc := 8, finsh_vm_stack := (finsh_vm_stack ?t2)[0 := i + x]\<rparr>"
  have "vm_steps sys ?t2 ?t3"
    using run_bin [OF at2, of "sint i + sint x" sys] t2 by simp
  then have steps: "vm_steps sys ?t0 ?t3"
    using vm_steps_trans [OF run_ld_dword [OF ld] vm_steps_trans [OF run_ld_byte [OF lb]]] by blast
  have seg: "text_segment ?t3 = ?c @ replicate (FINSH_TEXT_MAX - length ?c) 0" by (simp add: pushed_def)
  have "vm_loop sys ?t3 = Some (?t3\<lparr>finsh_pc := FINSH_TEXT_MAX\<rparr>)"
  proof (rule loop_no_op)
    fix j
    assume "finsh_pc ?t3 \<le> j" "j < FINSH_TEXT_MAX"
    then show "text_segment ?t3 ! j = 0" unfolding seg by (intro nth_behind) (simp_all only: l, simp)
  qed (use l in \<open>simp_all add: pushed_def FINSH_TEXT_MAX_def\<close>)
  then have "finsh_vm_run sys ?s1 = Some (?t3\<lparr>finsh_pc := FINSH_TEXT_MAX\<rparr>)"
    unfolding finsh_vm_run_def using vm_steps_loop [OF steps] by simp
  moreover have "finsh_stack_bottom (?t3\<lparr>finsh_pc := FINSH_TEXT_MAX\<rparr>) = i + x"
    using len by (simp add: finsh_stack_bottom_def pushed_def)
  ultimately show ?thesis unfolding x_def by blast
qed

end
