(* ===== verification/Finsh_Token.thy ===== *)
theory Finsh_Token
  imports Finsh_Node "HOL-Library.Char_ord"
begin

text \<open>
  The tokens of the finsh shell, \<^verbatim>\<open>rt-thread/components/finsh/finsh_token.c\<close>.

  The member \<open>line\<close> of the tokeniser is a C string, the buffer \<open>string\<close> an array of 128 characters.  Reading
  the end of the line sets \<open>eof\<close> and puts the position back to 0.  \<open>None\<close> is a write behind the end of one of the
  buffers.  A loop over characters ends at the latest at the end of the line, where the character is NUL.
\<close>

definition FINSH_STRING_MAX :: nat where "FINSH_STRING_MAX = 128"

datatype finsh_token_type = finsh_token_type_none
  | finsh_token_type_left_paren | finsh_token_type_right_paren | finsh_token_type_comma
  | finsh_token_type_semicolon | finsh_token_type_mul | finsh_token_type_add | finsh_token_type_inc
  | finsh_token_type_sub | finsh_token_type_dec | finsh_token_type_div | finsh_token_type_mod
  | finsh_token_type_assign | finsh_token_type_and | finsh_token_type_or | finsh_token_type_xor
  | finsh_token_type_bitwise | finsh_token_type_shl | finsh_token_type_shr | finsh_token_type_comments
  | finsh_token_type_void | finsh_token_type_char | finsh_token_type_short | finsh_token_type_int
  | finsh_token_type_long | finsh_token_type_unsigned
  | finsh_token_type_value_char | finsh_token_type_value_int | finsh_token_type_value_long
  | finsh_token_type_value_string | finsh_token_type_value_null
  | finsh_token_type_identifier | finsh_token_type_bad | finsh_token_type_eof

abbreviation NUL :: char where "NUL \<equiv> CHR 0x00"

record finsh_token =
  tk_eof :: bool
  tk_replay :: bool
  tk_position :: nat
  tk_current :: finsh_token_type
  tk_value :: u32
  tk_string :: string
  tk_line :: string

definition finsh_token_init :: "string \<Rightarrow> finsh_token" where
  "finsh_token_init line = \<lparr>tk_eof = False, tk_replay = False, tk_position = 0,
     tk_current = finsh_token_type_none, tk_value = 0, tk_string = replicate FINSH_STRING_MAX NUL,
     tk_line = line\<rparr>"

subsection \<open>Characters\<close>

abbreviation code_of :: "char \<Rightarrow> nat" where
  "code_of c \<equiv> of_char c"

definition is_digit :: "char \<Rightarrow> bool" where
  "is_digit ch \<longleftrightarrow> CHR ''0'' \<le> ch \<and> ch \<le> CHR ''9''"

definition lower_case :: "char \<Rightarrow> nat" where
  "lower_case ch = code_of ch OR 0x20"

definition is_alpha :: "char \<Rightarrow> bool" where
  "is_alpha ch \<longleftrightarrow> 97 \<le> lower_case ch \<and> lower_case ch - 97 < 26"

definition is_xdigit :: "char \<Rightarrow> bool" where
  "is_xdigit ch \<longleftrightarrow> is_digit ch \<or> (97 \<le> lower_case ch \<and> lower_case ch - 97 < 6)"

definition is_separator :: "char \<Rightarrow> bool" where
  "is_separator ch \<longleftrightarrow> \<not> ((CHR ''a'' \<le> ch \<and> ch \<le> CHR ''z'') \<or> (CHR ''A'' \<le> ch \<and> ch \<le> CHR ''Z'') \<or>
     (CHR ''0'' \<le> ch \<and> ch \<le> CHR ''9'') \<or> ch = CHR ''_'')"

definition token_next_char :: "finsh_token \<Rightarrow> char \<times> finsh_token" where
  "token_next_char self =
     (if tk_eof self then (NUL, self)
      else if tk_position self \<ge> length (tk_line self) \<or> tk_line self ! tk_position self = CHR 0x0A
      then (NUL, self\<lparr>tk_eof := True, tk_position := 0\<rparr>)
      else (tk_line self ! tk_position self, self\<lparr>tk_position := tk_position self + 1\<rparr>))"

definition token_prev_char :: "finsh_token \<Rightarrow> finsh_token" where
  "token_prev_char self =
     (if tk_eof self then self
      else if tk_position self = 0 then self
      else self\<lparr>tk_position := tk_position self - 1\<rparr>)"

text \<open>
  The loops \<open>while (p(ch)) { ...; ch = token_next_char(self); }\<close>: the characters that were accepted, the one that
  was not, and the tokeniser behind it.
\<close>

function scan :: "(char \<Rightarrow> bool) \<Rightarrow> char \<Rightarrow> finsh_token \<Rightarrow> string \<times> char \<times> finsh_token" where
  "scan p ch self =
     (if p ch \<and> \<not> tk_eof self then
        let (ch', self') = token_next_char self; (s, c, t) = scan p ch' self' in (ch # s, c, t)
      else ([], ch, self))"
  by pat_completeness auto

termination
  by (relation "measure (\<lambda>(p, ch, t). if tk_eof t then 0 else Suc (length (tk_line t) - tk_position t))")
    (auto simp: token_next_char_def split: if_splits)

declare scan.simps [simp del]

subsection \<open>Names\<close>

text \<open>A C string at the start of a buffer.\<close>

definition put_string :: "string \<Rightarrow> string \<Rightarrow> string option" where
  "put_string s buf = (if length s < length buf then Some (s @ NUL # drop (length s + 1) buf) else None)"

definition c_str :: "string \<Rightarrow> string option" where
  "c_str buf = (if NUL \<in> set buf then Some (takeWhile (\<lambda>c. c \<noteq> NUL) buf) else None)"

definition token_get_string :: "finsh_token \<Rightarrow> finsh_token option" where
  "token_get_string self = do {
     let (ch, t) = token_next_char self;
     if tk_eof t then Some t
     else do {
       buf \<leftarrow> put_string [] (tk_string t);
       if is_digit ch then Some (token_prev_char (t\<lparr>tk_string := buf\<rparr>))
       else do {
         let (s, c, t') = scan (\<lambda>c. \<not> is_separator c) ch t;
         buf' \<leftarrow> put_string s (tk_string t);
         Some (token_prev_char (t'\<lparr>tk_eof := False, tk_string := buf'\<rparr>))
       }
     }
   }"

definition finsh_name_table :: "(string \<times> finsh_token_type) list" where
  "finsh_name_table =
    [(''void'', finsh_token_type_void), (''char'', finsh_token_type_char), (''short'', finsh_token_type_short),
     (''int'', finsh_token_type_int), (''long'', finsh_token_type_long), (''unsigned'', finsh_token_type_unsigned),
     (''NULL'', finsh_token_type_value_null), (''null'', finsh_token_type_value_null)]"

definition token_match_name :: "string \<Rightarrow> finsh_token_type option" where
  "token_match_name str = map_of finsh_name_table str"

definition token_trim_space :: "finsh_token \<Rightarrow> finsh_token" where
  "token_trim_space self =
     (let (ch, t) = token_next_char self;
          (_, _, t') = scan (\<lambda>c. c \<in> {CHR '' '', CHR 0x09, CHR 0x0D}) ch t
      in token_prev_char t')"

subsection \<open>Characters and strings\<close>

text \<open>
  The default case reads digits into a buffer of four, each after the next character has been read, and converts
  the text behind them, which is empty.
\<close>

definition token_proc_char :: "finsh_token \<Rightarrow> finsh_error \<Rightarrow> (char \<times> finsh_token \<times> finsh_error) option" where
  "token_proc_char self err = do {
     let (ch, t) = token_next_char self;
     (ch, t) \<leftarrow>
       (if ch = CHR 0x5C then
          let (ch, t) = token_next_char t
          in if ch = CHR ''n'' then Some (CHR 0x0A, t)
             else if ch = CHR ''t'' then Some (CHR 0x09, t)
             else if ch = CHR ''v'' then Some (CHR 0x0B, t)
             else if ch = CHR ''b'' then Some (CHR 0x08, t)
             else if ch = CHR ''r'' then Some (CHR 0x0D, t)
             else if ch = CHR 0x5C then Some (CHR 0x5C, t)
             else if ch = CHR 0x27 then Some (CHR 0x27, t)
             else let (s, c, t') = scan is_digit ch t
               in if length s < 4 then Some (NUL, token_prev_char t') else None
        else Some (ch, t));
     let (q, t') = token_next_char t;
     if q \<noteq> CHR 0x27 then Some (ch, token_prev_char t', FINSH_ERROR_EXPECT_CHAR)
     else Some (ch, t', err)
   }"

text \<open>The value of a hexadecimal digit and of an octal digit in an escape sequence.\<close>

definition xdigit_value :: "char \<Rightarrow> int" where
  "xdigit_value ch = (if ch < CHR ''A'' then int (code_of ch) - 48 else int (lower_case ch) - 97 + 10)"

definition is_octal :: "char \<Rightarrow> bool" where
  "is_octal ch \<longleftrightarrow> CHR ''0'' \<le> ch \<and> ch \<le> CHR ''7''"

definition token_proc_escape :: "finsh_token \<Rightarrow> int \<times> finsh_token" where
  "token_proc_escape self =
     (let (ch, t) = token_next_char self
      in if ch = CHR ''n'' then (10, t)
         else if ch = CHR ''t'' then (9, t)
         else if ch = CHR ''v'' then (11, t)
         else if ch = CHR ''b'' then (8, t)
         else if ch = CHR ''r'' then (13, t)
         else if ch = CHR ''f'' then (12, t)
         else if ch = CHR ''a'' then (7, t)
         else if ch = CHR 0x22 then (34, t)
         else if ch = CHR ''x'' \<or> ch = CHR ''X'' then
           let (ch, t) = token_next_char t; (s, c, t') = scan is_xdigit ch t
           in (foldl (\<lambda>r d. r * 16 + xdigit_value d) 0 s, token_prev_char t')
         else if is_octal ch then
           let (s, c, t') = scan is_octal ch t
           in (foldl (\<lambda>r d. r * 8 + (int (code_of d) - 48)) 0 s, token_prev_char t')
         else (0, t))"

text \<open>\<open>n\<close> is the room left in the buffer \<open>string\<close>, \<open>s\<close> what has been stored there.\<close>

fun token_proc_string :: "nat \<Rightarrow> string \<Rightarrow> finsh_token \<Rightarrow> finsh_error \<Rightarrow> finsh_token \<times> finsh_error" where
  "token_proc_string 0 s self err = (self\<lparr>tk_string := s @ drop (length s) (tk_string self)\<rparr>, err)"
| "token_proc_string (Suc n) s self err =
     (let (ch, t) = token_next_char self
      in if tk_eof t then (t\<lparr>tk_string := s @ drop (length s) (tk_string t)\<rparr>, FINSH_ERROR_UNEXPECT_END)
         else if ch = CHR 0x5C then
           let (r, t') = token_proc_escape t in token_proc_string n (s @ [char_of (nat (r mod 256))]) t' err
         else if ch = CHR 0x22 then (t\<lparr>tk_string := s @ NUL # drop (length s + 1) (tk_string t)\<rparr>, err)
         else token_proc_string n (s @ [ch]) t err)"

subsection \<open>Numbers\<close>

text \<open>The digits go into a number of two words, of which the low one is the result.\<close>

definition spec_digit :: "char \<Rightarrow> u32" where
  "spec_digit ch =
     (if CHR ''a'' \<le> ch \<and> ch \<le> CHR ''f'' then of_nat (code_of ch) - 97 + 10
      else if CHR ''A'' \<le> ch \<and> ch \<le> CHR ''F'' then of_nat (code_of ch) - 65 + 10
      else of_nat (code_of ch) - 48)"

definition token_spec_number :: "string \<Rightarrow> nat \<Rightarrow> u32" where
  "token_spec_number s b =
     (let shift = (if b = 16 then 4 else if b = 8 then 3 else 1)
      in fst (foldl (\<lambda>(bn0, bn1) ch.
           (push_bit shift bn0 OR spec_digit ch, push_bit shift bn1 OR drop_bit (32 - shift) bn0)) (0, 0) s))"

text \<open>The value and type, and a suffix.  Digits of a prefixed number go through a buffer of 128 characters.\<close>

definition number_suffix :: "char \<Rightarrow> u32 \<Rightarrow> finsh_token \<Rightarrow> finsh_token" where
  "number_suffix ch v t =
     (if ch = CHR ''l'' \<or> ch = CHR ''L'' then t\<lparr>tk_value := v, tk_current := finsh_token_type_value_long\<rparr>
      else token_prev_char (t\<lparr>tk_value := v, tk_current := finsh_token_type_value_int\<rparr>))"

definition prefixed_number :: "(char \<Rightarrow> bool) \<Rightarrow> nat \<Rightarrow> char \<Rightarrow> finsh_token \<Rightarrow> finsh_token option" where
  "prefixed_number p b ch t =
     (let (s, c, t') = scan p ch t
      in if length s < 128 then Some (number_suffix c (token_spec_number s b) t') else None)"

definition token_proc_number :: "finsh_token \<Rightarrow> finsh_token option" where
  "token_proc_number self =
     (let (ch, t) = token_next_char self
      in if ch = CHR ''0'' then
           let (ch, t) = token_next_char t
           in if ch = CHR ''x'' \<or> ch = CHR ''X'' then
                let (ch, t) = token_next_char t in prefixed_number (\<lambda>c. is_digit c \<or> is_alpha c) 16 ch t
              else if ch = CHR ''b'' \<or> ch = CHR ''B'' then
                let (ch, t) = token_next_char t in prefixed_number (\<lambda>c. c = CHR ''0'' \<or> c = CHR ''1'') 2 ch t
              else if is_octal ch then prefixed_number is_octal 8 ch t
              else Some ((token_prev_char t)\<lparr>tk_value := 0, tk_current := finsh_token_type_value_int\<rparr>)
         else let (s, c, t') = scan is_digit ch t
           in Some (number_suffix c (foldl (\<lambda>v d. v * 10 + (of_nat (code_of d) - 48)) 0 s) t'))"

subsection \<open>Tokens\<close>

definition set_current :: "finsh_token_type \<Rightarrow> finsh_token \<Rightarrow> finsh_token" where
  "set_current k t = t\<lparr>tk_current := k\<rparr>"

text \<open>An operator of two equal characters, or one that is something else alone.\<close>

definition double_char :: "char \<Rightarrow> finsh_token_type \<Rightarrow> finsh_token_type \<Rightarrow> finsh_token \<Rightarrow> finsh_token" where
  "double_char c two one t =
     (let (ch, t') = token_next_char t
      in if ch = c then set_current two t' else set_current one (token_prev_char t'))"

definition token_operator :: "finsh_token \<Rightarrow> finsh_error \<Rightarrow> (finsh_token \<times> finsh_error) option" where
  "token_operator self err =
     (let (ch, t) = token_next_char self
      in if ch = CHR ''('' then Some (set_current finsh_token_type_left_paren t, err)
         else if ch = CHR '')'' then Some (set_current finsh_token_type_right_paren t, err)
         else if ch = CHR '','' then Some (set_current finsh_token_type_comma t, err)
         else if ch = CHR '';'' then Some (set_current finsh_token_type_semicolon t, err)
         else if ch = CHR ''&'' then Some (set_current finsh_token_type_and t, err)
         else if ch = CHR ''*'' then Some (set_current finsh_token_type_mul t, err)
         else if ch = CHR ''+'' then Some (double_char ch finsh_token_type_inc finsh_token_type_add t, err)
         else if ch = CHR ''-'' then Some (double_char ch finsh_token_type_dec finsh_token_type_sub t, err)
         else if ch = CHR ''/'' then Some (double_char ch finsh_token_type_eof finsh_token_type_div t, err)
         else if ch = CHR ''<'' then Some (double_char ch finsh_token_type_shl finsh_token_type_bad t, err)
         else if ch = CHR ''>'' then Some (double_char ch finsh_token_type_shr finsh_token_type_bad t, err)
         else if ch = CHR ''|'' then Some (set_current finsh_token_type_or t, err)
         else if ch = CHR ''%'' then Some (set_current finsh_token_type_mod t, err)
         else if ch = CHR ''~'' then Some (set_current finsh_token_type_bitwise t, err)
         else if ch = CHR ''^'' then Some (set_current finsh_token_type_xor t, err)
         else if ch = CHR ''='' then Some (set_current finsh_token_type_assign t, err)
         else if ch = CHR 0x27 then do {
           (c, t, err) \<leftarrow> token_proc_char t err;
           Some (t\<lparr>tk_value := (tk_value t AND NOT 0xff) OR of_nat (code_of c),
             tk_current := finsh_token_type_value_char\<rparr>, err)
         }
         else if ch = CHR 0x22 then
           let (t, err) = token_proc_string FINSH_STRING_MAX [] t err
           in Some (set_current finsh_token_type_value_string t, err)
         else if is_digit ch then do { t \<leftarrow> token_proc_number (token_prev_char t); Some (t, err) }
         else Some (set_current finsh_token_type_bad t, FINSH_ERROR_UNKNOWN_TOKEN))"

definition token_run :: "finsh_token \<Rightarrow> finsh_error \<Rightarrow> (finsh_token \<times> finsh_error) option" where
  "token_run self err = do {
     t \<leftarrow> token_get_string (token_trim_space self);
     if tk_eof t then Some (set_current finsh_token_type_eof t, err)
     else if tk_string t ! 0 \<noteq> NUL then do {
       s \<leftarrow> c_str (tk_string t);
       Some (set_current (case token_match_name s of Some k \<Rightarrow> k | None \<Rightarrow> finsh_token_type_identifier) t, err)
     }
     else token_operator t err
   }"

definition finsh_token_token :: "finsh_token \<Rightarrow> finsh_error \<Rightarrow> (finsh_token_type \<times> finsh_token \<times> finsh_error) option" where
  "finsh_token_token self err = do {
     (t, err) \<leftarrow> (if tk_replay self then Some (self\<lparr>tk_replay := False\<rparr>, err) else token_run self err);
     Some (tk_current t, t, err)
   }"

definition finsh_token_replay :: "finsh_token \<Rightarrow> finsh_token" where
  "finsh_token_replay t = t\<lparr>tk_replay := True\<rparr>"

end
