(* ===== verification/Finsh_Heap.thy ===== *)
theory Finsh_Heap
  imports Finsh_Node
begin

unbundle bit_operations_syntax

text \<open>
  The heap for the strings of the finsh shell, \<^verbatim>\<open>rt-thread/components/finsh/finsh_heap.c\<close>.  The blocks lie
  in the memory of the machine, each behind a header of its length and the pointer to the next block of its
  list, so a line that writes there changes them.  The walks along the lists are partial functions; \<open>None\<close> is
  a walk that does not end.
\<close>

definition FINSH_HEAP_MAX :: u32 where "FINSH_HEAP_MAX = 128"
definition HEAP_ALIGNMENT :: u32 where "HEAP_ALIGNMENT = 4"

text \<open>\<open>sizeof(struct finsh_block_header)\<close>\<close>

definition block_header_size :: u32 where "block_header_size = 8"

text \<open>\<open>heap_base\<close> is the address of the array \<open>finsh_heap\<close>.\<close>

record finsh_heap =
  heap_base :: u32
  free_list :: u32
  allocate_list :: u32

datatype block_list = Free_list | Allocate_list

fun list_head :: "block_list \<Rightarrow> finsh_heap \<Rightarrow> u32" where
  "list_head Free_list h = free_list h"
| "list_head Allocate_list h = allocate_list h"

fun set_head :: "block_list \<Rightarrow> u32 \<Rightarrow> finsh_heap \<Rightarrow> finsh_heap" where
  "set_head Free_list a h = h\<lparr>free_list := a\<rparr>"
| "set_head Allocate_list a h = h\<lparr>allocate_list := a\<rparr>"

definition block_length :: "u32 \<Rightarrow> vm_memory \<Rightarrow> u32" where
  "block_length a m = word_of_int (mem_get Dword a m)"

definition block_next :: "u32 \<Rightarrow> vm_memory \<Rightarrow> u32" where
  "block_next a m = word_of_int (mem_get Dword (a + 4) m)"

definition set_length :: "u32 \<Rightarrow> u32 \<Rightarrow> vm_memory \<Rightarrow> vm_memory" where
  "set_length a n m = mem_put Dword (uint n) a m"

definition set_block_next :: "u32 \<Rightarrow> u32 \<Rightarrow> vm_memory \<Rightarrow> vm_memory" where
  "set_block_next a n m = mem_put Dword (uint n) (a + 4) m"

definition finsh_block_get_header :: "u32 \<Rightarrow> u32" where
  "finsh_block_get_header data = data - block_header_size"

definition finsh_block_get_data :: "u32 \<Rightarrow> u32" where
  "finsh_block_get_data header = header + block_header_size"

definition HEAP_ALIGN_SIZE :: "u32 \<Rightarrow> u32" where
  "HEAP_ALIGN_SIZE n = (n + HEAP_ALIGNMENT - 1) AND NOT (HEAP_ALIGNMENT - 1)"

text \<open>\<open>memset\<close> to zero.\<close>

fun clear_bytes :: "u32 \<Rightarrow> nat \<Rightarrow> vm_memory \<Rightarrow> vm_memory" where
  "clear_bytes a 0 m = m"
| "clear_bytes a (Suc n) m = clear_bytes (a + 1) n (m(a := 0))"

definition finsh_heap_init :: "finsh_heap \<Rightarrow> vm_memory \<Rightarrow> finsh_heap \<times> vm_memory" where
  "finsh_heap_init h m =
     (let m = clear_bytes (heap_base h) (unat FINSH_HEAP_MAX) m;
          m = set_length (heap_base h) (FINSH_HEAP_MAX - block_header_size) m;
          m = set_block_next (heap_base h) 0 m
      in (h\<lparr>free_list := heap_base h, allocate_list := 0\<rparr>, m))"

subsection \<open>Lists of blocks\<close>

text \<open>The first block that is not too short, from \<open>a\<close> on, or null.\<close>

partial_function (option) find_block :: "(u32 \<Rightarrow> bool) \<Rightarrow> vm_memory \<Rightarrow> u32 \<Rightarrow> u32 option" where
  "find_block short m a =
     (if a = 0 then Some 0 else if short (block_length a m) then find_block short m (block_next a m) else Some a)"

text \<open>The last block before \<open>header\<close>, and the block in front of \<open>header\<close> on a list, or null.\<close>

partial_function (option) insert_point :: "u32 \<Rightarrow> vm_memory \<Rightarrow> u32 \<Rightarrow> u32 option" where
  "insert_point header m a =
     (if block_next a m > header \<or> block_next a m = 0 then Some a else insert_point header m (block_next a m))"

partial_function (option) block_before :: "u32 \<Rightarrow> vm_memory \<Rightarrow> u32 \<Rightarrow> u32 option" where
  "block_before header m a =
     (if a = 0 then Some 0 else if block_next a m = header then Some a
      else block_before header m (block_next a m))"

declare find_block.simps [code] insert_point.simps [code] block_before.simps [code]

definition finsh_block_insert ::
  "block_list \<Rightarrow> u32 \<Rightarrow> finsh_heap \<Rightarrow> vm_memory \<Rightarrow> (finsh_heap \<times> vm_memory) option" where
  "finsh_block_insert l header h m =
     (let head = list_head l h
      in if head = 0 then Some (set_head l header h, m)
         else if head > header then Some (set_head l header h, set_block_next header head m)
         else do {
           node \<leftarrow> insert_point header m head;
           let m = (if block_next node m \<noteq> 0 then set_block_next header (block_next node m) m else m);
           Some (h, set_block_next node header m)
         })"

definition finsh_block_remove ::
  "block_list \<Rightarrow> u32 \<Rightarrow> finsh_heap \<Rightarrow> vm_memory \<Rightarrow> (finsh_heap \<times> vm_memory) option" where
  "finsh_block_remove l header h m =
     (let head = list_head l h
      in if head = header then Some (set_head l (block_next header m) h, set_block_next header 0 m)
         else do {
           node \<leftarrow> block_before header m head;
           Some (h, if node \<noteq> 0 then set_block_next node (block_next header m) m else m)
         })"

definition finsh_block_split :: "u32 \<Rightarrow> u32 \<Rightarrow> vm_memory \<Rightarrow> vm_memory" where
  "finsh_block_split header count m =
     (let nxt = header + block_header_size + count;
          m = set_length nxt (block_length header m - block_header_size - count) m;
          m = set_length header count m;
          m = set_block_next nxt (block_next header m) m
      in set_block_next header nxt m)"

text \<open>The block at \<open>a\<close> ends where the block at \<open>b\<close> begins.\<close>

definition block_meets :: "u32 \<Rightarrow> u32 \<Rightarrow> vm_memory \<Rightarrow> bool" where
  "block_meets a b m \<longleftrightarrow> a + block_length a m + block_header_size = b"

definition finsh_block_merge ::
  "block_list \<Rightarrow> u32 \<Rightarrow> finsh_heap \<Rightarrow> vm_memory \<Rightarrow> vm_memory option" where
  "finsh_block_merge l header h m = do {
     let next_node = block_next header m;
     prev_node \<leftarrow> (if list_head l h = header then Some 0 else block_before header m (list_head l h));
     Some
       (if prev_node \<noteq> 0 \<and> block_meets prev_node header m
        then if next_node \<noteq> 0 \<and> block_meets header next_node m
          then let m = set_length prev_node (block_length prev_node m + (block_length header m +
                     block_length next_node m + 2 * block_header_size)) m
               in set_block_next prev_node (block_next next_node m) m
          else let m = set_length prev_node (block_length prev_node m + (block_length header m + block_header_size)) m
               in set_block_next prev_node (block_next header m) m
        else if next_node \<noteq> 0 \<and> block_meets header next_node m
          then let m = set_length header (block_length header m + (block_length next_node m + block_header_size)) m
               in set_block_next header (block_next next_node m) m
          else m)
   }"

subsection \<open>Operations\<close>

definition finsh_heap_free :: "u32 \<Rightarrow> finsh_heap \<Rightarrow> vm_memory \<Rightarrow> (finsh_heap \<times> vm_memory) option" where
  "finsh_heap_free ptr h m = do {
     let header = finsh_block_get_header ptr;
     (h, m) \<leftarrow> finsh_block_remove Allocate_list header h m;
     (h, m) \<leftarrow> finsh_block_insert Free_list header h m;
     m \<leftarrow> finsh_block_merge Free_list header h m;
     Some (h, m)
   }"

text \<open>A block is in use if a variable of any type has its address as value.\<close>

definition block_in_use :: "finsh_symbols \<Rightarrow> u32 \<Rightarrow> vm_memory \<Rightarrow> bool" where
  "block_in_use y header m \<longleftrightarrow>
     list_ex (\<lambda>i. var_type (global_variable y ! i) \<noteq> finsh_type_unknown \<and>
       word_of_int (mem_get Dword (var_struct y i + value_offset) m) = finsh_block_get_data header) [0..<FINSH_VARIABLE_MAX]"

partial_function (option) gc_loop ::
  "finsh_symbols \<Rightarrow> u32 \<Rightarrow> finsh_heap \<Rightarrow> vm_memory \<Rightarrow> (finsh_heap \<times> vm_memory) option" where
  "gc_loop y header h m =
     (if header = 0 then Some (h, m)
      else do {
        let temp = header;
        let header = block_next header m;
        (h, m) \<leftarrow> (if block_in_use y temp m then Some (h, m) else finsh_heap_free (finsh_block_get_data temp) h m);
        gc_loop y header h m
      })"

declare gc_loop.simps [code]

definition finsh_heap_gc :: "finsh_symbols \<Rightarrow> finsh_heap \<Rightarrow> vm_memory \<Rightarrow> (finsh_heap \<times> vm_memory) option" where
  "finsh_heap_gc y h m = gc_loop y (allocate_list h) h m"

text \<open>Null if there is no room.\<close>

definition finsh_heap_allocate ::
  "finsh_symbols \<Rightarrow> u32 \<Rightarrow> finsh_heap \<Rightarrow> vm_memory \<Rightarrow> (u32 \<times> finsh_heap \<times> vm_memory) option" where
  "finsh_heap_allocate y count h m = do {
     let count = HEAP_ALIGN_SIZE count;
     header \<leftarrow> find_block (\<lambda>n. n \<le> count + block_header_size) m (free_list h);
     (header, h, m) \<leftarrow>
       (if header = 0 then do {
          (h, m) \<leftarrow> finsh_heap_gc y h m;
          header \<leftarrow> find_block (\<lambda>n. n < count + block_header_size) m (free_list h);
          Some (header, h, m)
        }
        else Some (header, h, m));
     if header = 0 then Some (0, h, m)
     else do {
       let m = finsh_block_split header count m;
       (h, m) \<leftarrow> finsh_block_remove Free_list header h m;
       let m = set_block_next header 0 m;
       (h, m) \<leftarrow> finsh_block_insert Allocate_list header h m;
       let m = clear_bytes (finsh_block_get_data header) (unat count) m;
       Some (finsh_block_get_data header, h, m)
     }
   }"

end
