(* ===== verification/Finsh_Parser.thy ===== *)
theory Finsh_Parser
  imports Finsh_Token Finsh_Heap
begin

text \<open>
  The parser of the finsh shell, \<^verbatim>\<open>rt-thread/components/finsh/finsh_parser.c\<close>, by recursive descent with
  one token of replay.  The functions for expressions call each other; they are the cases of the one partial
  function \<open>parse\<close>, named by the phrase to parse, so that not coming back is the value \<open>None\<close>, as undefined
  behaviour is.  A node pointer with its chain of siblings is a list, null the empty list.
\<close>

text \<open>The blocks of the heap \<open>ps_heap\<close> lie in the memory \<open>ps_memory\<close>.\<close>

record finsh_parser =
  ps_token :: finsh_token
  ps_error :: finsh_error
  ps_symbols :: finsh_symbols
  ps_nodes :: nat
  ps_memory :: vm_memory
  ps_heap :: finsh_heap

definition next_token :: "finsh_parser \<Rightarrow> (finsh_token_type \<times> finsh_parser) option" where
  "next_token p = do {
     (k, t, e) \<leftarrow> finsh_token_token (ps_token p) (ps_error p);
     Some (k, p\<lparr>ps_token := t, ps_error := e\<rparr>)
   }"

definition replay :: "finsh_parser \<Rightarrow> finsh_parser" where
  "replay p = p\<lparr>ps_token := finsh_token_replay (ps_token p)\<rparr>"

definition finsh_error_set :: "finsh_error \<Rightarrow> finsh_parser \<Rightarrow> finsh_parser" where
  "finsh_error_set e p = p\<lparr>ps_error := e\<rparr>"

definition check_token :: "finsh_token_type \<Rightarrow> finsh_token_type \<Rightarrow> finsh_parser \<Rightarrow> finsh_parser" where
  "check_token k ty p = (if k \<noteq> ty then replay (finsh_error_set FINSH_ERROR_INVALID_TOKEN p) else p)"

definition match_token :: "finsh_token_type \<Rightarrow> finsh_parser \<Rightarrow> finsh_parser option" where
  "match_token ty p = do { (k, p) \<leftarrow> next_token p; Some (check_token k ty p) }"

definition is_base_type :: "finsh_token_type \<Rightarrow> bool" where
  "is_base_type k \<longleftrightarrow> k \<in> {finsh_token_type_void, finsh_token_type_char, finsh_token_type_short,
     finsh_token_type_int, finsh_token_type_long}"

subsection \<open>Nodes\<close>

definition with_node :: "(nat \<Rightarrow> finsh_error \<Rightarrow> node_result) \<Rightarrow> finsh_parser \<Rightarrow> finsh_node list \<times> finsh_parser" where
  "with_node f p =
     (let (n, used, err) = f (ps_nodes p) (ps_error p)
      in (case n of None \<Rightarrow> [] | Some n \<Rightarrow> [n], p\<lparr>ps_nodes := used, ps_error := err\<rparr>))"

definition make_sys_node ::
  "node_kind \<Rightarrow> finsh_node list \<Rightarrow> finsh_node list \<Rightarrow> finsh_parser \<Rightarrow> finsh_node list \<times> finsh_parser" where
  "make_sys_node ty node1 node2 p =
     (case finsh_node_allocate ty (ps_nodes p) of
        None \<Rightarrow> ([], finsh_error_set FINSH_ERROR_NULL_NODE p)
      | Some (Node t d a v i cs, used) \<Rightarrow>
          (case node1 of
             [] \<Rightarrow> ([Node t d a v i cs], finsh_error_set FINSH_ERROR_NULL_NODE (p\<lparr>ps_nodes := used\<rparr>))
           | n # _ \<Rightarrow> ([Node t d a v i (n # node2)], p\<lparr>ps_nodes := used\<rparr>)))"

fun copy_string :: "u32 \<Rightarrow> string \<Rightarrow> vm_memory \<Rightarrow> vm_memory" where
  "copy_string a [] m = m(a := 0)"
| "copy_string a (c # s) m = copy_string (a + 1) s (m(a := of_nat (code_of c)))"

text \<open>Without room for the text the copy goes through a null pointer.\<close>

definition finsh_node_new_string :: "string \<Rightarrow> finsh_parser \<Rightarrow> (finsh_node list \<times> finsh_parser) option" where
  "finsh_node_new_string s p =
     (case finsh_node_allocate FINSH_NODE_VALUE_STRING (ps_nodes p) of
        None \<Rightarrow> Some ([], finsh_error_set FINSH_ERROR_MEMORY_FULL p)
      | Some (Node t d a v i cs, used) \<Rightarrow> do {
          (ptr, h, m) \<leftarrow> finsh_heap_allocate (ps_symbols p) (of_nat (length s) + 1) (ps_heap p) (ps_memory p);
          RT_ASSERT (ptr \<noteq> 0);
          Some ([Node t d a ptr i cs], p\<lparr>ps_nodes := used, ps_heap := h, ps_memory := copy_string ptr s m\<rparr>)
        })"

text \<open>The number of a type in \<open>enum finsh_type\<close>.\<close>

definition type_number :: "finsh_type \<Rightarrow> nat" where
  "type_number ty = (case ty of finsh_type_unknown \<Rightarrow> 0 | finsh_type_void \<Rightarrow> 1 | finsh_type_voidp \<Rightarrow> 2
     | finsh_type_char \<Rightarrow> 3 | finsh_type_uchar \<Rightarrow> 4 | finsh_type_charp \<Rightarrow> 5 | finsh_type_short \<Rightarrow> 6
     | finsh_type_ushort \<Rightarrow> 7 | finsh_type_shortp \<Rightarrow> 8 | finsh_type_int \<Rightarrow> 9 | finsh_type_uint \<Rightarrow> 10
     | finsh_type_intp \<Rightarrow> 11 | finsh_type_long \<Rightarrow> 12 | finsh_type_ulong \<Rightarrow> 13 | finsh_type_longp \<Rightarrow> 14)"

subsection \<open>Types and identifiers\<close>

definition base_type :: "finsh_token_type \<Rightarrow> finsh_type" where
  "base_type k = (case k of finsh_token_type_void \<Rightarrow> finsh_type_void | finsh_token_type_char \<Rightarrow> finsh_type_char
     | finsh_token_type_short \<Rightarrow> finsh_type_short | finsh_token_type_int \<Rightarrow> finsh_type_int
     | finsh_token_type_long \<Rightarrow> finsh_type_long | _ \<Rightarrow> finsh_type_unknown)"

definition unsigned_type :: "finsh_token_type \<Rightarrow> finsh_type" where
  "unsigned_type k = (case k of finsh_token_type_char \<Rightarrow> finsh_type_uchar
     | finsh_token_type_short \<Rightarrow> finsh_type_ushort | finsh_token_type_int \<Rightarrow> finsh_type_uint
     | finsh_token_type_long \<Rightarrow> finsh_type_ulong | _ \<Rightarrow> finsh_type_unknown)"

definition pointer_type :: "finsh_type \<Rightarrow> finsh_type" where
  "pointer_type ty =
     (if ty = finsh_type_void then finsh_type_voidp
      else if ty \<in> {finsh_type_char, finsh_type_uchar} then finsh_type_charp
      else if ty \<in> {finsh_type_short, finsh_type_ushort} then finsh_type_shortp
      else if ty \<in> {finsh_type_int, finsh_type_uint} then finsh_type_intp
      else if ty \<in> {finsh_type_long, finsh_type_ulong} then finsh_type_longp
      else finsh_type_voidp)"

text \<open>The part of \<open>proc_type\<close> that looks for a pointer.\<close>

definition proc_pointer :: "finsh_type \<Rightarrow> finsh_parser \<Rightarrow> (finsh_type \<times> finsh_parser) option" where
  "proc_pointer ty p = do {
     (k, p) \<leftarrow> next_token p;
     Some (if k = finsh_token_type_mul then (pointer_type ty, p) else (ty, replay p))
   }"

definition proc_type :: "finsh_parser \<Rightarrow> (finsh_type \<times> finsh_parser) option" where
  "proc_type p = do {
     (k, p) \<leftarrow> next_token p;
     if is_base_type k then proc_pointer (base_type k) p
     else if k = finsh_token_type_unsigned then do {
       (k, p) \<leftarrow> next_token p;
       if is_base_type k then
         if k = finsh_token_type_void
         then Some (finsh_type_unknown, finsh_error_set FINSH_ERROR_UNKNOWN_TYPE (replay p))
         else proc_pointer (unsigned_type k) p
       else proc_pointer finsh_type_unknown (finsh_error_set FINSH_ERROR_EXPECT_TYPE (replay p))
     }
     else Some (finsh_type_unknown, finsh_error_set FINSH_ERROR_UNKNOWN_TYPE (replay p))
   }"

text \<open>
  The buffer \<open>id\<close> of the callers has 17 characters, of which \<open>strncpy\<close> writes 16; the last one is not
  initialised there and is taken for NUL here.
\<close>

definition proc_identifier :: "finsh_parser \<Rightarrow> (string \<times> finsh_parser) option" where
  "proc_identifier p = do {
     p \<leftarrow> match_token finsh_token_type_identifier p;
     s \<leftarrow> c_str (tk_string (ps_token p));
     Some (take FINSH_NAME_MAX s, p)
   }"

subsection \<open>Expressions\<close>

text \<open>The six levels of binary operators, whose functions differ in the tokens and the next level only.\<close>

datatype binary_level = Inclusive_or | Exclusive_or | And_level | Shift | Additive | Multiplicative

fun binary_op :: "binary_level \<Rightarrow> finsh_token_type \<Rightarrow> bin_op option" where
  "binary_op Inclusive_or k = (if k = finsh_token_type_or then Some Or else None)"
| "binary_op Exclusive_or k = (if k = finsh_token_type_xor then Some Xor else None)"
| "binary_op And_level k = (if k = finsh_token_type_and then Some And else None)"
| "binary_op Shift k =
     (if k = finsh_token_type_shl then Some Shl else if k = finsh_token_type_shr then Some Shr else None)"
| "binary_op Additive k =
     (if k = finsh_token_type_sub then Some Sub else if k = finsh_token_type_add then Some Add else None)"
| "binary_op Multiplicative k =
     (if k = finsh_token_type_mul then Some Mul else if k = finsh_token_type_div then Some Div
      else if k = finsh_token_type_mod then Some Mod else None)"

datatype phrase = Assign_expr | Binary binary_level | Binary_loop binary_level "finsh_node list"
  | Cast_expr | Unary_expr | Postfix_expr | Postfix_loop "finsh_node list" | Primary_expr
  | Param_list | Param_loop "finsh_node list"

fun operand_of :: "binary_level \<Rightarrow> phrase" where
  "operand_of Inclusive_or = Binary Exclusive_or"
| "operand_of Exclusive_or = Binary And_level"
| "operand_of And_level = Binary Shift"
| "operand_of Shift = Binary Additive"
| "operand_of Additive = Binary Multiplicative"
| "operand_of Multiplicative = Cast_expr"

fun unary_kind :: "finsh_token_type \<Rightarrow> node_kind option" where
  "unary_kind finsh_token_type_inc = Some FINSH_NODE_SYS_PREINC"
| "unary_kind finsh_token_type_dec = Some FINSH_NODE_SYS_PREDEC"
| "unary_kind finsh_token_type_bitwise = Some FINSH_NODE_SYS_BITWISE"
| "unary_kind finsh_token_type_mul = Some FINSH_NODE_SYS_GETVALUE"
| "unary_kind finsh_token_type_and = Some FINSH_NODE_SYS_GETADDR"
| "unary_kind _ = None"

text \<open>\<open>proc_primary_expr\<close> but for the expression in parentheses.\<close>

definition proc_literal :: "finsh_token_type \<Rightarrow> finsh_parser \<Rightarrow> (finsh_node list \<times> finsh_parser) option" where
  "proc_literal k p =
     (let v = tk_value (ps_token p)
      in case k of
        finsh_token_type_identifier \<Rightarrow> do {
          (name, p) \<leftarrow> proc_identifier (replay p);
          Some (with_node (finsh_node_new_id name (ps_symbols p)) p)
        }
      | finsh_token_type_value_int \<Rightarrow> Some (with_node (finsh_node_new_int v) p)
      | finsh_token_type_value_long \<Rightarrow> Some (with_node (finsh_node_new_long v) p)
      | finsh_token_type_value_char \<Rightarrow> Some (with_node (finsh_node_new_char (ucast v)) p)
      | finsh_token_type_value_string \<Rightarrow> do {
          s \<leftarrow> c_str (tk_string (ps_token p));
          finsh_node_new_string s p
        }
      | finsh_token_type_value_null \<Rightarrow> Some (with_node (finsh_node_new_ptr 0) p)
      | _ \<Rightarrow> Some ([], finsh_error_set FINSH_ERROR_INVALID_TOKEN p))"

fun set_data_type :: "nat \<Rightarrow> finsh_node \<Rightarrow> finsh_node" where
  "set_data_type d (Node t _ a v i cs) = Node t d a v i cs"

partial_function (option) parse :: "phrase \<Rightarrow> finsh_parser \<Rightarrow> (finsh_node list \<times> finsh_parser) option" where
  "parse nt p = (case nt of
     Assign_expr \<Rightarrow> do {
       (lhs, p) \<leftarrow> parse (Binary Inclusive_or) p;
       (k, p) \<leftarrow> next_token p;
       if k = finsh_token_type_assign then do {
         (assign, p) \<leftarrow> parse Assign_expr p;
         Some (make_sys_node FINSH_NODE_SYS_ASSIGN lhs assign p)
       }
       else Some (lhs, replay p)
     }
   | Binary l \<Rightarrow> do {
       (lhs, p) \<leftarrow> parse (operand_of l) p;
       parse (Binary_loop l lhs) p
     }
   | Binary_loop l lhs \<Rightarrow> do {
       (k, p) \<leftarrow> next_token p;
       case binary_op l k of
         None \<Rightarrow> Some (lhs, replay p)
       | Some f \<Rightarrow> do {
           (rhs, p) \<leftarrow> parse (operand_of l) p;
           if rhs = [] then parse (Binary_loop l lhs) (finsh_error_set FINSH_ERROR_EXPECT_OPERATOR p)
           else (case make_sys_node (FINSH_NODE_SYS f) lhs rhs p of (n, p) \<Rightarrow> parse (Binary_loop l n) p)
         }
     }
   | Cast_expr \<Rightarrow> do {
       (k, p) \<leftarrow> next_token p;
       if k = finsh_token_type_left_paren then do {
         (ty, p) \<leftarrow> proc_type p;
         p \<leftarrow> match_token finsh_token_type_right_paren p;
         (cast, p) \<leftarrow> parse Cast_expr p;
         (case cast of
            n # ns \<Rightarrow> Some (set_data_type (type_number ty) n # ns, p)
          | [] \<Rightarrow> parse Unary_expr (replay p))
       }
       else parse Unary_expr (replay p)
     }
   | Unary_expr \<Rightarrow> do {
       (k, p) \<leftarrow> next_token p;
       if k = finsh_token_type_add then parse Cast_expr p
       else if k = finsh_token_type_sub then do {
         (cast, p) \<leftarrow> parse Cast_expr p;
         (case with_node (finsh_node_new_long 0) p of
            (zero, p) \<Rightarrow> Some (make_sys_node (FINSH_NODE_SYS Sub) zero cast p))
       }
       else (case unary_kind k of
           Some ty \<Rightarrow> do {
             (cast, p) \<leftarrow> parse Cast_expr p;
             Some (make_sys_node ty cast [] p)
           }
         | None \<Rightarrow> parse Postfix_expr (replay p))
     }
   | Postfix_expr \<Rightarrow> do {
       (postfix, p) \<leftarrow> parse Primary_expr p;
       parse (Postfix_loop postfix) p
     }
   | Postfix_loop postfix \<Rightarrow> do {
       (k, p) \<leftarrow> next_token p;
       if k = finsh_token_type_inc then
         (case make_sys_node FINSH_NODE_SYS_INC postfix [] p of (n, p) \<Rightarrow> parse (Postfix_loop n) p)
       else if k = finsh_token_type_dec then
         (case make_sys_node FINSH_NODE_SYS_DEC postfix [] p of (n, p) \<Rightarrow> parse (Postfix_loop n) p)
       else if k = finsh_token_type_left_paren then do {
         (k, p) \<leftarrow> next_token p;
         (params, p) \<leftarrow>
           (if k \<noteq> finsh_token_type_right_paren then do {
              (params, p) \<leftarrow> parse Param_list (replay p);
              p \<leftarrow> match_token finsh_token_type_right_paren p;
              Some (params, p)
            }
            else Some ([], p));
         (case make_sys_node FINSH_NODE_SYS_FUNC postfix params p of (n, p) \<Rightarrow> parse (Postfix_loop n) p)
       }
       else Some (postfix, replay p)
     }
   | Primary_expr \<Rightarrow> do {
       (k, p) \<leftarrow> next_token p;
       if k = finsh_token_type_left_paren then do {
         (expr, p) \<leftarrow> parse Assign_expr p;
         p \<leftarrow> match_token finsh_token_type_right_paren p;
         Some (expr, p)
       }
       else proc_literal k p
     }
   | Param_list \<Rightarrow> do {
       (assign, p) \<leftarrow> parse Assign_expr p;
       if assign = [] then Some ([], p) else parse (Param_loop assign) p
     }
   | Param_loop params \<Rightarrow> do {
       (k, p) \<leftarrow> next_token p;
       if k = finsh_token_type_comma then do {
         (assign, p) \<leftarrow> parse Assign_expr p;
         parse (Param_loop (params @ assign))
           (if assign = [] then finsh_error_set FINSH_ERROR_EXPECT_OPERATOR p else p)
       }
       else Some (params, replay p)
     })"

declare parse.simps [code]

definition proc_assign_expr :: "finsh_parser \<Rightarrow> (finsh_node list \<times> finsh_parser) option" where
  "proc_assign_expr = parse Assign_expr"
definition proc_inclusive_or_expr :: "finsh_parser \<Rightarrow> (finsh_node list \<times> finsh_parser) option" where
  "proc_inclusive_or_expr = parse (Binary Inclusive_or)"
definition proc_exclusive_or_expr :: "finsh_parser \<Rightarrow> (finsh_node list \<times> finsh_parser) option" where
  "proc_exclusive_or_expr = parse (Binary Exclusive_or)"
definition proc_and_expr :: "finsh_parser \<Rightarrow> (finsh_node list \<times> finsh_parser) option" where
  "proc_and_expr = parse (Binary And_level)"
definition proc_shift_expr :: "finsh_parser \<Rightarrow> (finsh_node list \<times> finsh_parser) option" where
  "proc_shift_expr = parse (Binary Shift)"
definition proc_additive_expr :: "finsh_parser \<Rightarrow> (finsh_node list \<times> finsh_parser) option" where
  "proc_additive_expr = parse (Binary Additive)"
definition proc_multiplicative_expr :: "finsh_parser \<Rightarrow> (finsh_node list \<times> finsh_parser) option" where
  "proc_multiplicative_expr = parse (Binary Multiplicative)"
definition proc_cast_expr :: "finsh_parser \<Rightarrow> (finsh_node list \<times> finsh_parser) option" where
  "proc_cast_expr = parse Cast_expr"
definition proc_unary_expr :: "finsh_parser \<Rightarrow> (finsh_node list \<times> finsh_parser) option" where
  "proc_unary_expr = parse Unary_expr"
definition proc_postfix_expr :: "finsh_parser \<Rightarrow> (finsh_node list \<times> finsh_parser) option" where
  "proc_postfix_expr = parse Postfix_expr"
definition proc_primary_expr :: "finsh_parser \<Rightarrow> (finsh_node list \<times> finsh_parser) option" where
  "proc_primary_expr = parse Primary_expr"
definition proc_param_list :: "finsh_parser \<Rightarrow> (finsh_node list \<times> finsh_parser) option" where
  "proc_param_list = parse Param_list"
definition proc_expr :: "finsh_parser \<Rightarrow> (finsh_node list \<times> finsh_parser) option" where
  "proc_expr = proc_assign_expr"

subsection \<open>Statements\<close>

definition proc_expr_statement :: "finsh_parser \<Rightarrow> (finsh_node list \<times> finsh_parser) option" where
  "proc_expr_statement p = do {
     (k, p) \<leftarrow> next_token p;
     if k \<noteq> finsh_token_type_semicolon then do {
       (expr, p) \<leftarrow> proc_expr (replay p);
       p \<leftarrow> match_token finsh_token_type_semicolon p;
       Some (expr, p)
     }
     else Some ([], p)
   }"

text \<open>The name of a declarator, which becomes a variable.\<close>

definition proc_declarator :: "finsh_type \<Rightarrow> finsh_parser \<Rightarrow> (string \<times> finsh_parser) option" where
  "proc_declarator ty p = do {
     (name, p) \<leftarrow> proc_identifier p;
     Some (name, case finsh_var_insert name ty (ps_symbols p) of
         None \<Rightarrow> finsh_error_set FINSH_ERROR_VARIABLE_EXIST p
       | Some (_, y) \<Rightarrow> p\<lparr>ps_symbols := y\<rparr>)
   }"

text \<open>
  An initialiser behind \<open>=\<close>: the assignments so far get another one at their end.  \<open>lost\<close> tells that the pointer to
  the end of the chain is null while the chain is not empty.
\<close>

definition proc_initialiser ::
  "string \<Rightarrow> finsh_node list \<Rightarrow> bool \<Rightarrow> finsh_parser \<Rightarrow> (finsh_node list \<times> bool \<times> finsh_token_type \<times> finsh_parser) option"
where
  "proc_initialiser name nodes lost p = do {
     (assign, p) \<leftarrow> proc_assign_expr p;
     if assign = [] then Some (nodes, lost, finsh_token_type_assign, p)
     else do {
       let (idnode, p) = with_node (finsh_node_new_id name (ps_symbols p)) p;
       let (n, p) = make_sys_node FINSH_NODE_SYS_ASSIGN idnode assign p;
       RT_ASSERT (\<not> lost);
       (k, p) \<leftarrow> next_token p;
       Some (nodes @ n, nodes \<noteq> [] \<and> n = [], k, p)
     }
   }"

text \<open>The loop over the declarators behind a comma; \<open>k\<close> is the token read last.\<close>

partial_function (option) declarator_loop ::
  "finsh_type \<Rightarrow> finsh_node list \<Rightarrow> bool \<Rightarrow> finsh_token_type \<Rightarrow> finsh_parser \<Rightarrow> (finsh_node list \<times> finsh_parser) option"
where
  "declarator_loop ty nodes lost k p =
     (if k = finsh_token_type_comma then do {
        (name, p) \<leftarrow> proc_declarator ty p;
        (k, p) \<leftarrow> next_token p;
        if k = finsh_token_type_assign then do {
          (nodes, lost, k, p) \<leftarrow> proc_initialiser name nodes lost p;
          declarator_loop ty nodes lost k p
        }
        else declarator_loop ty nodes lost k p
      }
      else Some (nodes, check_token k finsh_token_type_semicolon p))"

declare declarator_loop.simps [code]

definition proc_variable_decl :: "finsh_parser \<Rightarrow> (finsh_node list \<times> finsh_parser) option" where
  "proc_variable_decl p = do {
     (ty, p) \<leftarrow> proc_type p;
     (name, p) \<leftarrow> proc_declarator ty p;
     (k, p) \<leftarrow> next_token p;
     if k = finsh_token_type_comma then declarator_loop ty [] False k p
     else if k = finsh_token_type_assign then do {
       (nodes, lost, k, p) \<leftarrow> proc_initialiser name [] False p;
       declarator_loop ty nodes lost k p
     }
     else if k = finsh_token_type_semicolon then Some ([], p)
     else Some ([], finsh_error_set FINSH_ERROR_EXPECT_TYPE p)
   }"

text \<open>
  The loop of \<open>finsh_parser_run\<close>.  The root is the chain \<open>pre @ post\<close>, and \<open>node\<close> points to the last element of
  \<open>pre\<close>: the next statement becomes the sibling of that one, in place of \<open>post\<close>.
\<close>

definition extend_root :: "finsh_node list \<Rightarrow> finsh_node list \<Rightarrow> finsh_node list \<times> finsh_node list" where
  "extend_root pre new = (case new of [] \<Rightarrow> (pre, []) | n # ns \<Rightarrow> (pre @ [n], ns))"

definition proc_statement ::
  "finsh_token_type \<Rightarrow> finsh_node list \<Rightarrow> finsh_parser \<Rightarrow> (finsh_node list \<times> finsh_parser) option" where
  "proc_statement k pre p =
     (if k = finsh_token_type_identifier then proc_expr_statement (replay p)
      else if is_base_type k \<or> k = finsh_token_type_unsigned then proc_variable_decl (replay p)
      else do {
        (new, p) \<leftarrow> proc_expr_statement (replay p);
        if pre \<noteq> [] \<and> new = [] then do { (k, p) \<leftarrow> next_token p; Some (new, p) }
        else Some (new, p)
      })"

partial_function (option) statement_loop ::
  "finsh_token_type \<Rightarrow> finsh_node list \<Rightarrow> finsh_node list \<Rightarrow> finsh_parser \<Rightarrow> (finsh_node list \<times> finsh_parser) option"
where
  "statement_loop k pre post p =
     (if k \<noteq> finsh_token_type_eof \<and> k \<noteq> finsh_token_type_bad then do {
        (new, p) \<leftarrow> proc_statement k pre p;
        (case extend_root pre new of (pre, post) \<Rightarrow>
          if pre = [] then Some ([], p)
          else do {
            (k, p) \<leftarrow> next_token p;
            statement_loop k pre post p
          })
      }
      else Some (pre @ post, p))"

declare statement_loop.simps [code]

definition finsh_parser_run :: "string \<Rightarrow> finsh_parser \<Rightarrow> (finsh_node list \<times> finsh_parser) option" where
  "finsh_parser_run line p = do {
     (k, p) \<leftarrow> next_token (p\<lparr>ps_token := finsh_token_init line\<rparr>);
     statement_loop k [] [] p
   }"

end
