(* ===== verification/Finsh_Shell.thy ===== *)
theory Finsh_Shell
  imports Finsh_Run Finsh_Parser
begin

text \<open>
  A line of the finsh shell: \<open>finsh_run_line\<close> of \<^verbatim>\<open>rt-thread/components/finsh/shell.c\<close> with
  \<^verbatim>\<open>finsh_init.c\<close> and the texts of \<^verbatim>\<open>finsh_error.c\<close>.  The line goes through the parser, the
  compiler and the machine; each of the last two runs only if no error has been set before.

  The memory of the machine is that of the parser's state, \<open>ps_memory\<close>.
\<close>

subsection \<open>Errors and start values\<close>

definition finsh_error_string_table :: "string list" where
  "finsh_error_string_table =
     [''No error'', ''Invalid token'', ''Expect a type'', ''Unknown type'', ''Variable exist'',
      ''Expect a operater'', ''Memory full'', ''Unknown operator'', ''Unknown node'', ''Expect a character'',
      ''Unexpect end'', ''Unknown token'', ''Float not supported'', ''Unknown symbol'', ''Null node'']"

definition error_number :: "finsh_error \<Rightarrow> nat" where
  "error_number e = (case e of FINSH_ERROR_OK \<Rightarrow> 0 | FINSH_ERROR_INVALID_TOKEN \<Rightarrow> 1
     | FINSH_ERROR_EXPECT_TYPE \<Rightarrow> 2 | FINSH_ERROR_UNKNOWN_TYPE \<Rightarrow> 3 | FINSH_ERROR_VARIABLE_EXIST \<Rightarrow> 4
     | FINSH_ERROR_EXPECT_OPERATOR \<Rightarrow> 5 | FINSH_ERROR_MEMORY_FULL \<Rightarrow> 6 | FINSH_ERROR_UNKNOWN_OP \<Rightarrow> 7
     | FINSH_ERROR_UNKNOWN_NODE \<Rightarrow> 8 | FINSH_ERROR_EXPECT_CHAR \<Rightarrow> 9 | FINSH_ERROR_UNEXPECT_END \<Rightarrow> 10
     | FINSH_ERROR_UNKNOWN_TOKEN \<Rightarrow> 11 | FINSH_ERROR_NO_FLOAT \<Rightarrow> 12 | FINSH_ERROR_UNKNOWN_SYMBOL \<Rightarrow> 13
     | FINSH_ERROR_NULL_NODE \<Rightarrow> 14)"

definition finsh_error_string :: "finsh_error \<Rightarrow> string" where
  "finsh_error_string e = finsh_error_string_table ! error_number e"

definition finsh_error_init :: "finsh_parser \<Rightarrow> finsh_parser" where
  "finsh_error_init p = p\<lparr>ps_error := FINSH_ERROR_OK\<rparr>"

definition finsh_node_init :: "finsh_parser \<Rightarrow> finsh_parser" where
  "finsh_node_init p = p\<lparr>ps_nodes := 0\<rparr>"

definition finsh_parser_init :: "finsh_parser \<Rightarrow> finsh_parser" where
  "finsh_parser_init p = p\<lparr>ps_token := finsh_token_init ''''\<rparr>"

definition finsh_flush :: "finsh_parser \<Rightarrow> finsh_parser" where
  "finsh_flush p = finsh_error_init (finsh_node_init (finsh_parser_init p))"

text \<open>Clearing the variables also clears their values in memory.\<close>

definition finsh_init :: "finsh_parser \<Rightarrow> finsh_parser" where
  "finsh_init p =
     (let p = finsh_node_init (finsh_parser_init p);
          p = p\<lparr>ps_symbols := finsh_var_init (ps_symbols p),
            ps_memory := clear_bytes (var_base (ps_symbols p)) (FINSH_VARIABLE_MAX * 24) (ps_memory p)\<rparr>;
          p = finsh_error_init p;
          (h, m) = finsh_heap_init (ps_heap p) (ps_memory p)
      in p\<lparr>ps_heap := h, ps_memory := m\<rparr>)"

text \<open>As \<open>finsh_init\<close>, but the parser stays as it is.\<close>

definition finsh_reset :: "finsh_parser \<Rightarrow> finsh_parser" where
  "finsh_reset p = (finsh_init p)\<lparr>ps_token := ps_token p\<rparr>"

subsection \<open>A line\<close>

text \<open>
  What is printed: the text of an error, the value as a number and perhaps a character, or nothing, when the error
  comes from the compiler.
\<close>

datatype line_output = Line_error string | Line_char u32 | Line_number u32 | Line_nothing

definition finsh_value :: "u32 \<Rightarrow> line_output" where
  "finsh_value v =
     (let ch = ucast v :: u8 in if ch > 0x20 \<and> ch < 0x7e then Line_char v else Line_number v)"

definition finsh_run_line ::
  "syscalls \<Rightarrow> string \<Rightarrow> finsh_parser \<Rightarrow> finsh_vm \<Rightarrow> (line_output \<times> finsh_parser \<times> finsh_vm) option" where
  "finsh_run_line sys line p s = do {
     (root, p) \<leftarrow> finsh_parser_run line p;
     if ps_error p \<noteq> FINSH_ERROR_OK then
       Some (Line_error (finsh_error_string (ps_error p)), finsh_flush p, s)
     else do {
       (err, s) \<leftarrow> finsh_compiler_run (ps_symbols p) root (ps_error p) s;
       let p = finsh_error_set err p;
       if err \<noteq> FINSH_ERROR_OK then Some (Line_nothing, finsh_flush p, s)
       else do {
         s \<leftarrow> finsh_vm_run sys (s\<lparr>finsh_memory := ps_memory p\<rparr>);
         Some (finsh_value (finsh_stack_bottom s), finsh_flush (p\<lparr>ps_memory := finsh_memory s\<rparr>), s)
       }
     }
   }"

end
