(* ===== verification/Msh.thy ===== *)
theory Msh
  imports Finsh_Shell
begin

text \<open>
  The module shell, the default shell of this build: \<^verbatim>\<open>rt-thread/components/finsh/msh.c\<close> and
  \<^verbatim>\<open>msh_file.c\<close>.  A command line is a character array from the pointer \<open>cmd\<close> on; a read or a write
  outside of it is \<open>None\<close>.  Arguments are offsets into the line, in which the split writes NULs.

  Commands, files and directories are parameters: what a command does to the world of type \<open>'w\<close>, to the mode
  of the shell and to the log is the function \<open>env_call\<close>, which gets the offsets of its arguments and the line.
\<close>

definition FINSH_ARG_MAX :: nat where "FINSH_ARG_MAX = 10"

text \<open>\<open>RT_CONSOLEBUF_SIZE\<close>\<close>

definition line_buf_size :: nat where "line_buf_size = 128"

abbreviation TAB :: char where "TAB \<equiv> CHR 0x09"
abbreviation LF :: char where "LF \<equiv> CHR 0x0A"
abbreviation CR :: char where "CR \<equiv> CHR 0x0D"
abbreviation QUOTE :: char where "QUOTE \<equiv> CHR 0x22"
abbreviation BACKSLASH :: char where "BACKSLASH \<equiv> CHR 0x5C"

text \<open>
  What is printed has one entry for a call of \<open>rt_kprintf\<close>, the text the console gets.  The texts
  that describe commands are not in the model of the symbols, \<open>Help\<close> stands for a list of
  names with them.  \<open>Result\<close> is what a line of the C shell prints.
\<close>

datatype msh_event = Print string | Help "string list" | Result line_output

record 'w msh =
  msh_used :: bool
  msh_log :: "msh_event list"
  msh_world :: 'w

record 'w msh_env =
  env_table :: "finsh_syscall list"
  env_call :: "u32 \<Rightarrow> nat list \<Rightarrow> string \<Rightarrow> 'w msh \<Rightarrow> (int \<times> 'w msh) option"
  env_room :: "nat \<Rightarrow> 'w \<Rightarrow> bool"
  env_open :: "string \<Rightarrow> 'w \<Rightarrow> string option"
  env_opendir :: "string \<Rightarrow> 'w \<Rightarrow> string list option"
  env_getcwd :: "'w \<Rightarrow> string"

text \<open>\<open>rt_kprintf\<close> sends at most 126 characters of a text, and a NUL behind them if that cuts it.\<close>

definition console_text :: "string \<Rightarrow> string" where
  "console_text t = (if length t < 127 then t else take 126 t @ [NUL])"

definition say :: "string \<Rightarrow> 'w msh \<Rightarrow> 'w msh" where
  "say t w = w\<lparr>msh_log := msh_log w @ [Print (console_text t)]\<rparr>"

definition msh_is_used :: "'w msh \<Rightarrow> bool" where
  "msh_is_used w = msh_used w"

definition msh_exit :: "'w msh \<Rightarrow> int \<times> 'w msh" where
  "msh_exit w = (0, w\<lparr>msh_used := False\<rparr>)"

definition msh_enter :: "'w msh \<Rightarrow> int \<times> 'w msh" where
  "msh_enter w = (0, w\<lparr>msh_used := True\<rparr>)"

text \<open>The commands of the table, without the prefix of their symbols.\<close>

definition is_command :: "finsh_syscall \<Rightarrow> bool" where
  "is_command c \<longleftrightarrow> strncmp_eq (syscall_name c) ''__cmd_'' 6"

definition command_name :: "finsh_syscall \<Rightarrow> string" where
  "command_name c = drop 6 (syscall_name c)"

definition msh_help :: "finsh_syscall list \<Rightarrow> 'w msh \<Rightarrow> int \<times> 'w msh" where
  "msh_help tab w =
     (let w = say (''RT-Thread shell commands:'' @ [LF]) w;
          w = w\<lparr>msh_log := msh_log w @ [Help (map command_name (filter is_command tab))]\<rparr>
      in (0, say [LF] w))"

subsection \<open>Characters and C strings of a line\<close>

definition char_at :: "string \<Rightarrow> nat \<Rightarrow> char option" where
  "char_at s i = (if i < length s then Some (s ! i) else None)"

definition put_char_at :: "string \<Rightarrow> nat \<Rightarrow> char \<Rightarrow> string option" where
  "put_char_at s i c = (if i < length s then Some (s[i := c]) else None)"

text \<open>The C string at an offset; \<open>None\<close> if no NUL follows in the line.\<close>

definition text_at :: "string \<Rightarrow> nat \<Rightarrow> string option" where
  "text_at s i =
     (if NUL \<in> set (drop i s) then Some (takeWhile (\<lambda>c. c \<noteq> NUL) (drop i s)) else None)"

definition is_blank :: "char \<Rightarrow> bool" where
  "is_blank c \<longleftrightarrow> c = CHR '' '' \<or> c = TAB"

subsection \<open>Splitting a line\<close>

text \<open>\<open>cmd\<close> and \<open>position\<close> go together, as the offset \<open>i\<close>.\<close>

function strip_blanks :: "nat \<Rightarrow> nat \<Rightarrow> string \<Rightarrow> (nat \<times> string) option" where
  "strip_blanks len i s = do {
     c \<leftarrow> char_at s i;
     if is_blank c \<and> i < len then strip_blanks len (i + 1) (s[i := NUL]) else Some (i, s)
   }"
  by auto
termination by (relation "measure (\<lambda>(len, i, s). len - i)") auto

function skip_string :: "nat \<Rightarrow> nat \<Rightarrow> string \<Rightarrow> nat option" where
  "skip_string len i s = do {
     c \<leftarrow> char_at s i;
     if c \<noteq> QUOTE \<and> i < len then
       if c = BACKSLASH then do {
         d \<leftarrow> char_at s (i + 1);
         skip_string len (if d = QUOTE then i + 2 else i + 1) s
       }
       else skip_string len (i + 1) s
     else Some i
   }"
  by auto
termination by (relation "measure (\<lambda>(len, i, s). len - i)") auto

function skip_word :: "nat \<Rightarrow> nat \<Rightarrow> string \<Rightarrow> nat option" where
  "skip_word len i s = do {
     c \<leftarrow> char_at s i;
     if \<not> is_blank c \<and> i < len then skip_word len (i + 1) s else Some i
   }"
  by auto
termination by (relation "measure (\<lambda>(len, i, s). len - i)") auto

declare strip_blanks.simps [simp del] skip_string.simps [simp del] skip_word.simps [simp del]

fun say_arguments :: "string \<Rightarrow> nat list \<Rightarrow> 'w msh \<Rightarrow> 'w msh option" where
  "say_arguments s [] w = Some w"
| "say_arguments s (a # as) w = do {
     t \<leftarrow> text_at s a;
     say_arguments s as (say (t @ '' '') w)
   }"

definition say_too_many :: "string \<Rightarrow> nat list \<Rightarrow> 'w msh \<Rightarrow> 'w msh option" where
  "say_too_many s argv w = do {
     w \<leftarrow> say_arguments s argv (say (''Too many args ! We only Use:'' @ [LF]) w);
     Some (say [LF] w)
   }"

function split_loop ::
  "nat \<Rightarrow> nat \<Rightarrow> nat list \<Rightarrow> string \<Rightarrow> 'w msh \<Rightarrow> (nat list \<times> string \<times> 'w msh) option" where
  "split_loop len i argv s w =
     (if i < len then do {
        (i, s) \<leftarrow> strip_blanks len i s;
        if length argv \<ge> FINSH_ARG_MAX then do { w \<leftarrow> say_too_many s argv w; Some (argv, s, w) }
        else if i \<ge> len then Some (argv, s, w)
        else do {
          c \<leftarrow> char_at s i;
          if c = QUOTE then do {
            j \<leftarrow> skip_string len (i + 1) s;
            if j \<ge> len then Some (argv @ [i + 1], s, w)
            else split_loop len (j + 1) (argv @ [i + 1]) (s[j := NUL]) w
          }
          else do {
            j \<leftarrow> skip_word len i s;
            if j \<ge> len then Some (argv @ [i], s, w) else split_loop len j (argv @ [i]) s w
          }
        }
      }
      else Some (argv, s, w))"
  by auto
termination by (relation "measure (\<lambda>(len, i, argv, s, w). FINSH_ARG_MAX - length argv)") auto

declare split_loop.simps [simp del]

definition msh_split :: "nat \<Rightarrow> string \<Rightarrow> 'w msh \<Rightarrow> (nat list \<times> string \<times> 'w msh) option" where
  "msh_split len s w = split_loop len 0 [] s w"

subsection \<open>Executing a line\<close>

text \<open>
  The function of the command whose name is the first \<open>n\<close> characters of the line, or null.  The character behind
  them in a name is read once they agree.
\<close>

fun msh_get_cmd :: "finsh_syscall list \<Rightarrow> string \<Rightarrow> nat \<Rightarrow> u32 option" where
  "msh_get_cmd [] s n = Some 0"
| "msh_get_cmd (c # cs) s n =
     (if is_command c \<and> strncmp_eq (command_name c) (takeWhile (\<lambda>c. c \<noteq> NUL) s) n then
        if length (command_name c) < n then None
        else if length (command_name c) = n then Some (syscall_func c)
        else msh_get_cmd cs s n
      else msh_get_cmd cs s n)"

text \<open>The result is that of the command, or nothing, when the line is not a command, with the line.\<close>

definition msh_exec_cmd ::
  "'w msh_env \<Rightarrow> nat \<Rightarrow> string \<Rightarrow> 'w msh \<Rightarrow> (int option \<times> string \<times> 'w msh) option" where
  "msh_exec_cmd env len s w = do {
     n \<leftarrow> skip_word len 0 s;
     if n = 0 then Some (None, s, w)
     else do {
       f \<leftarrow> msh_get_cmd (env_table env) s n;
       if f = 0 then Some (None, s, w)
       else do {
         (argv, s, w) \<leftarrow> msh_split len s w;
         if argv = [] then Some (None, s, w)
         else do {
           (r, w) \<leftarrow> env_call env f argv s w;
           Some (Some r, s, w)
         }
       }
     }
   }"

text \<open>\<open>msh_exec\<close> moves its pointer over the blanks in front of the command; the length, a \<open>rt_size_t\<close>, wraps.\<close>

function trim_line :: "u32 \<Rightarrow> string \<Rightarrow> (u32 \<times> string) option" where
  "trim_line len s = do {
     c \<leftarrow> char_at s 0;
     if is_blank c then trim_line (len - 1) (tl s) else Some (len, s)
   }"
  by auto
termination by (relation "measure (\<lambda>(len, s). length s)") (auto simp: char_at_def split: if_splits)

declare trim_line.simps [simp del]

fun first_word :: "string \<Rightarrow> string option" where
  "first_word [] = None"
| "first_word (c # s) = (if c = CHR '' '' \<or> c = NUL then Some [] else map_option (Cons c) (first_word s))"

definition not_found :: "string \<Rightarrow> 'w msh \<Rightarrow> (int \<times> 'w msh) option" where
  "not_found s w = do {
     t \<leftarrow> first_word s;
     Some (-1, say (t @ '': command not found.'' @ [LF]) w)
   }"

subsection \<open>Scripts\<close>

fun contains_text :: "string \<Rightarrow> string \<Rightarrow> bool" where
  "contains_text t [] \<longleftrightarrow> t = []"
| "contains_text t (c # s) \<longleftrightarrow> take (length t) (c # s) = t \<or> contains_text t s"

text \<open>
  The text of the script a line names, if there is one: \<open>cmd_line\<close> up to its first blank is copied, so the
  name ends at a NUL of it.
\<close>

definition script_text :: "'w msh_env \<Rightarrow> nat \<Rightarrow> string \<Rightarrow> 'w \<Rightarrow> string option option" where
  "script_text env len s w =
     (if len = 0 then Some None
      else do {
        n \<leftarrow> skip_word len 0 s;
        let name = takeWhile (\<lambda>c. c \<noteq> NUL) (take n s);
        if \<not> env_room env (n + 32) w then Some None
        else if contains_text ''.sh'' name \<or> contains_text ''.SH'' name then
          (case env_open env name w of
             Some text \<Rightarrow> Some (Some text)
           | None \<Rightarrow> Some (env_open env (''/bin/'' @ name) w))
        else Some None
      })"

definition is_line_end :: "char \<Rightarrow> bool" where
  "is_line_end c \<longleftrightarrow> c = LF \<or> c = CR"

text \<open>
  The next line of a script, what is left of the file, and the length \<open>msh_readline\<close> returns.  The buffer
  of \<open>max_len\<close> characters gets a NUL behind the line unless the line fills it; what is behind that in
  the buffer is \<open>old\<close>.
\<close>

definition msh_readline :: "nat \<Rightarrow> string \<Rightarrow> string \<Rightarrow> nat \<times> string \<times> string" where
  "msh_readline max_len old file =
     (case dropWhile is_line_end file of
        [] \<Rightarrow> (0, old, [])
      | c # file \<Rightarrow>
          (let body = takeWhile (\<lambda>c. \<not> is_line_end c) (take (max_len - 1) file);
               k = 1 + length body;
               rest = drop (length body) file
           in if k < max_len then (k, c # body @ NUL # drop (k + 1) old, tl rest) else (k, c # body, rest)))"

definition is_comment :: "nat \<Rightarrow> string \<Rightarrow> bool" where
  "is_comment n s =
     (case dropWhile is_blank (take n s) of [] \<Rightarrow> False | c # _ \<Rightarrow> c = CHR ''#'')"

text \<open>\<open>msh_exec\<close> and \<open>msh_exec_script\<close>: the loop over the lines of a script is \<open>Inr\<close>.\<close>

partial_function (option) msh_run ::
  "'w msh_env \<Rightarrow> u32 \<times> string + string \<times> string \<Rightarrow> 'w msh \<Rightarrow> (int \<times> 'w msh) option" where
  "msh_run env job w =
     (case job of
        Inl (len, s) \<Rightarrow> do {
          (len, s) \<leftarrow> trim_line len s;
          if len = 0 then Some (0, w)
          else do {
            (r, s, w) \<leftarrow> msh_exec_cmd env (unat len) s w;
            case r of
              Some r \<Rightarrow> Some (r, w)
            | None \<Rightarrow> do {
                script \<leftarrow> script_text env (unat len) s (msh_world w);
                case script of
                  None \<Rightarrow> not_found s w
                | Some file \<Rightarrow>
                    if env_room env line_buf_size (msh_world w)
                    then msh_run env (Inr (replicate line_buf_size NUL, file)) w
                    else None
              }
          }
        }
      | Inr (old, file) \<Rightarrow>
          (let (n, buf, file) = msh_readline line_buf_size old file
           in if n = 0 then Some (0, w)
              else if is_comment n buf then msh_run env (Inr (buf, file)) w
              else do {
                (_, w) \<leftarrow> msh_run env (Inl (of_nat n, buf)) w;
                msh_run env (Inr (buf, file)) w
              }))"

declare msh_run.simps [code]

definition msh_exec :: "'w msh_env \<Rightarrow> u32 \<Rightarrow> string \<Rightarrow> 'w msh \<Rightarrow> (int \<times> 'w msh) option" where
  "msh_exec env len s w = msh_run env (Inl (len, s)) w"

end
