(* ===== verification/Finsh_Complete.thy ===== *)
theory Finsh_Complete
  imports Msh
begin

text \<open>
  The completion of a line: \<open>msh_auto_complete\<close> and \<open>msh_auto_complete_path\<close> of
  \<^verbatim>\<open>rt-thread/components/finsh/msh.c\<close> and \<open>list_prefix\<close> of \<^verbatim>\<open>cmd.c\<close>.  They write
  into the line from the offset of the name they complete on.
\<close>

fun str_common :: "string \<Rightarrow> string \<Rightarrow> nat" where
  "str_common (a # as) (b # bs) = (if a = b then Suc (str_common as bs) else 0)"
| "str_common _ _ = 0"

fun str_is_prefix :: "string \<Rightarrow> string \<Rightarrow> bool" where
  "str_is_prefix [] s \<longleftrightarrow> True"
| "str_is_prefix (p # ps) [] \<longleftrightarrow> False"
| "str_is_prefix (p # ps) (c # s) \<longleftrightarrow> p = c \<and> str_is_prefix ps s"

text \<open>\<open>name_ptr\<close> and \<open>min_length\<close> after the names that match.\<close>

fun common_length :: "string \<Rightarrow> string list \<Rightarrow> nat \<Rightarrow> nat" where
  "common_length name [] n = n"
| "common_length name (x # xs) n =
     (let l = str_common name x in common_length name xs (if l < n then l else n))"

fun common_name :: "string list \<Rightarrow> (string \<times> nat) option" where
  "common_name [] = None"
| "common_name (x # xs) = Some (x, common_length x (x # xs) (length x))"

text \<open>A copy of \<open>t\<close> into the line.\<close>

definition write_text :: "nat \<Rightarrow> string \<Rightarrow> string \<Rightarrow> string option" where
  "write_text i t line =
     (if i + length t \<le> length line then Some (take i line @ t @ drop (i + length t) line) else None)"

definition say_lines :: "string list \<Rightarrow> 'w msh \<Rightarrow> 'w msh" where
  "say_lines ts w = fold (\<lambda>t. say (t @ [LF])) ts w"

subsection \<open>Paths\<close>

text \<open>The part of a path up to its last slash, and the rest.\<close>

definition parent_path :: "string \<Rightarrow> string" where
  "parent_path path = rev (dropWhile (\<lambda>c. c \<noteq> CHR ''/'') (rev path))"

definition base_name :: "string \<Rightarrow> string" where
  "base_name path = rev (takeWhile (\<lambda>c. c \<noteq> CHR ''/'') (rev path))"

text \<open>The directory that is searched, in a buffer of 256 characters.\<close>

definition search_dir :: "string \<Rightarrow> string \<Rightarrow> string option" where
  "search_dir cwd path = do {
     base \<leftarrow>
       (if path \<noteq> [] \<and> hd path = CHR ''/'' then Some []
        else if cwd = [] then None
        else if last cwd \<noteq> CHR ''/'' then Some (cwd @ ''/'')
        else Some cwd);
     let dir = base @ parent_path path;
     if length dir < 256 then Some dir else None
   }"

definition msh_auto_complete_path ::
  "'w msh_env \<Rightarrow> nat \<Rightarrow> string \<Rightarrow> 'w msh \<Rightarrow> (string \<times> 'w msh) option" where
  "msh_auto_complete_path env p line w = do {
     path \<leftarrow> text_at line p;
     if \<not> env_room env 256 (msh_world w) then Some (line, w)
     else do {
       dir \<leftarrow> search_dir (env_getcwd env (msh_world w)) path;
       (case env_opendir env dir (msh_world w) of
          None \<Rightarrow> Some (line, w)
        | Some names \<Rightarrow>
            let base = base_name path;
                found = filter (\<lambda>d. strncmp_eq base d (length base)) names
            in if base = [] then Some (line, say_lines names w)
               else case common_name found of
                   None \<Rightarrow> Some (line, w)
                 | Some (name, n) \<Rightarrow>
                     if n = 0 then Some (line, w)
                     else do {
                       let w = (if n < length name then say_lines found w else w);
                       line \<leftarrow> write_text (p + length (parent_path path)) (take n name @ [NUL]) line;
                       Some (line, w)
                     })
     }
   }"

subsection \<open>Commands\<close>

text \<open>The last blank of the line behind its first character.\<close>

fun last_space :: "nat \<Rightarrow> string \<Rightarrow> nat option" where
  "last_space 0 s = None"
| "last_space (Suc i) s = (if i + 1 < length s \<and> s ! (i + 1) = CHR '' '' then Some (i + 1) else last_space i s)"

definition msh_auto_complete ::
  "'w msh_env \<Rightarrow> string \<Rightarrow> 'w msh \<Rightarrow> (string \<times> 'w msh) option" where
  "msh_auto_complete env line w = do {
     prefix \<leftarrow> text_at line 0;
     if prefix = [] then Some (line, snd (msh_help (env_table env) w))
     else do {
       (line, w) \<leftarrow>
         (case last_space (length prefix) prefix of
            Some i \<Rightarrow> msh_auto_complete_path env (i + 1) line w
          | None \<Rightarrow> Some (line, w));
       prefix \<leftarrow> text_at line 0;
       let found = filter (\<lambda>name. strncmp_eq prefix name (length prefix))
             (map command_name (filter is_command (env_table env)));
       let w = say_lines found w;
       (case common_name found of
          None \<Rightarrow> Some (line, w)
        | Some (name, n) \<Rightarrow> do {
            line \<leftarrow> write_text 0 (take n name) line;
            Some (line, w)
          })
     }
   }"

definition list_prefix ::
  "finsh_symbols \<Rightarrow> string \<Rightarrow> 'w msh \<Rightarrow> (string \<times> 'w msh) option" where
  "list_prefix y line w = do {
     prefix \<leftarrow> text_at line 0;
     let found =
       filter (str_is_prefix prefix)
         (filter (\<lambda>name. \<not> str_is_prefix ''__'' name) (map syscall_name (syscall_table y)) @
          map syscall_name (global_syscall_list y) @
          map sysvar_name (sysvar_table y) @ map sysvar_name (global_sysvar_list y));
     let w = w\<lparr>msh_log := msh_log w @ [Help found]\<rparr>;
     (case (if prefix = [] then None else common_name found) of
        None \<Rightarrow> Some (line, w)
      | Some (name, n) \<Rightarrow> do {
          line \<leftarrow> write_text 0 (take n name) line;
          Some (line, w)
        })
   }"

end
