(* ===== verification/Finsh_Editor.thy ===== *)
theory Finsh_Editor
  imports Finsh_Complete
begin

text \<open>
  The line editor of the shell, \<open>finsh_thread_entry\<close> of \<^verbatim>\<open>rt-thread/components/finsh/shell.c\<close>,
  as a step for every character it receives, with the prompt, the history and the dispatch of a
  finished line to the module shell or to the C shell.  An access outside of the line or of the history is
  \<open>None\<close>.
\<close>

definition FINSH_CMD_SIZE :: nat where "FINSH_CMD_SIZE = 80"
definition FINSH_HISTORY_LINES :: nat where "FINSH_HISTORY_LINES = 5"

abbreviation BS :: char where "BS \<equiv> CHR 0x08"
abbreviation DEL :: char where "DEL \<equiv> CHR 0x7F"
abbreviation ESC :: char where "ESC \<equiv> CHR 0x1B"

datatype input_stat = WAIT_NORMAL | WAIT_SPEC_KEY | WAIT_FUNC_KEY

record 'w finsh_shell =
  sh_stat :: input_stat
  echo_mode :: bool
  prompt_mode :: bool
  current_history :: u16
  history_count :: u16
  cmd_history :: "string list"
  sh_line :: string
  line_position :: u8
  line_curpos :: u8
  prompt_custom :: "string option"
  sh_parser :: finsh_parser
  sh_vm :: finsh_vm
  sh_msh :: "'w msh"

definition shell_say :: "string \<Rightarrow> 'w finsh_shell \<Rightarrow> 'w finsh_shell" where
  "shell_say t sh = sh\<lparr>sh_msh := say t (sh_msh sh)\<rparr>"

definition shell_world :: "'w finsh_shell \<Rightarrow> 'w" where
  "shell_world sh = msh_world (sh_msh sh)"

subsection \<open>Modes\<close>

text \<open>\<open>echo_mode\<close> and \<open>prompt_mode\<close> are fields of one bit.\<close>

definition finsh_set_echo :: "u32 \<Rightarrow> 'w finsh_shell \<Rightarrow> 'w finsh_shell" where
  "finsh_set_echo echo sh = sh\<lparr>echo_mode := bit echo 0\<rparr>"

definition finsh_get_echo :: "'w finsh_shell \<Rightarrow> u32" where
  "finsh_get_echo sh = (if echo_mode sh then 1 else 0)"

definition finsh_set_prompt_mode :: "u32 \<Rightarrow> 'w finsh_shell \<Rightarrow> 'w finsh_shell" where
  "finsh_set_prompt_mode mode sh = sh\<lparr>prompt_mode := bit mode 0\<rparr>"

definition finsh_get_prompt_mode :: "'w finsh_shell \<Rightarrow> u32" where
  "finsh_get_prompt_mode sh = (if prompt_mode sh then 1 else 0)"

subsection \<open>Prompt\<close>

definition finsh_set_prompt :: "'w msh_env \<Rightarrow> string option \<Rightarrow> 'w finsh_shell \<Rightarrow> 'w finsh_shell" where
  "finsh_set_prompt env prompt sh =
     (let sh = sh\<lparr>prompt_custom := None\<rparr>
      in case prompt of
          None \<Rightarrow> sh
        | Some t \<Rightarrow> if env_room env (length t + 1) (shell_world sh) then sh\<lparr>prompt_custom := Some t\<rparr> else sh)"

text \<open>
  The static buffer has \<open>line_buf_size + 1\<close> characters; with a working directory that leaves no room for the
  last character and the NUL behind it the code writes beyond it.
\<close>

definition finsh_get_prompt :: "'w msh_env \<Rightarrow> 'w finsh_shell \<Rightarrow> string option" where
  "finsh_get_prompt env sh =
     (if \<not> prompt_mode sh then Some []
      else case prompt_custom sh of
          Some t \<Rightarrow> Some (take line_buf_size t)
        | None \<Rightarrow>
            let p = (if msh_is_used (sh_msh sh) then ''msh '' else ''finsh '');
                t = p @ env_getcwd env (shell_world sh)
            in if length t < line_buf_size then Some (t @ ''>'') else None)"

text \<open>The prompt is the format of \<open>rt_kprintf\<close>; a conversion in it would read an argument that is not there.\<close>

definition say_prompt :: "'w msh_env \<Rightarrow> 'w finsh_shell \<Rightarrow> 'w finsh_shell option" where
  "say_prompt env sh = do {
     p \<leftarrow> finsh_get_prompt env sh;
     if CHR ''%'' \<in> set p then None else Some (shell_say p sh)
   }"

text \<open>The prompt and the line, as one text.\<close>

definition say_prompt_line :: "'w msh_env \<Rightarrow> 'w finsh_shell \<Rightarrow> 'w finsh_shell option" where
  "say_prompt_line env sh = do {
     p \<leftarrow> finsh_get_prompt env sh;
     t \<leftarrow> text_at (sh_line sh) 0;
     Some (shell_say (p @ t) sh)
   }"

subsection \<open>History\<close>

definition shell_handle_history :: "'w msh_env \<Rightarrow> 'w finsh_shell \<Rightarrow> 'w finsh_shell option" where
  "shell_handle_history env sh = say_prompt_line env (shell_say (ESC # ''[2K'' @ [CR]) sh)"

text \<open>The first characters of the line, on zeros.\<close>

definition history_entry :: "'w finsh_shell \<Rightarrow> string" where
  "history_entry sh =
     take (unat (line_position sh)) (sh_line sh) @ replicate (FINSH_CMD_SIZE - unat (line_position sh)) NUL"

definition shell_push_history :: "'w finsh_shell \<Rightarrow> 'w finsh_shell" where
  "shell_push_history sh =
     (let sh =
        (if line_position sh \<noteq> 0 then
           if unat (history_count sh) \<ge> FINSH_HISTORY_LINES then
             if cmd_history sh ! (FINSH_HISTORY_LINES - 1) \<noteq> sh_line sh
             then sh\<lparr>cmd_history := tl (cmd_history sh) @ [history_entry sh],
               history_count := of_nat FINSH_HISTORY_LINES\<rparr>
             else sh
           else if history_count sh = 0 \<or> cmd_history sh ! unat (history_count sh - 1) \<noteq> sh_line sh
             then sh\<lparr>current_history := history_count sh,
               cmd_history := (cmd_history sh)[unat (history_count sh) := history_entry sh],
               history_count := history_count sh + 1\<rparr>
             else sh
         else sh)
      in sh\<lparr>current_history := history_count sh\<rparr>)"

text \<open>The line becomes the current entry of the history.\<close>

definition recall_line :: "'w msh_env \<Rightarrow> 'w finsh_shell \<Rightarrow> 'w finsh_shell option" where
  "recall_line env sh =
     (if unat (current_history sh) < length (cmd_history sh) then do {
        let sh = sh\<lparr>sh_line := cmd_history sh ! unat (current_history sh)\<rparr>;
        t \<leftarrow> text_at (sh_line sh) 0;
        shell_handle_history env (sh\<lparr>line_curpos := of_nat (length t), line_position := of_nat (length t)\<rparr>)
      }
      else None)"

subsection \<open>Keys\<close>

definition key_up :: "'w msh_env \<Rightarrow> 'w finsh_shell \<Rightarrow> 'w finsh_shell option" where
  "key_up env sh =
     (if current_history sh > 0 then recall_line env (sh\<lparr>current_history := current_history sh - 1\<rparr>)
      else Some (sh\<lparr>current_history := 0\<rparr>))"

definition key_down :: "'w msh_env \<Rightarrow> 'w finsh_shell \<Rightarrow> 'w finsh_shell option" where
  "key_down env sh =
     (if uint (current_history sh) < uint (history_count sh) - 1
      then recall_line env (sh\<lparr>current_history := current_history sh + 1\<rparr>)
      else if history_count sh \<noteq> 0 then recall_line env (sh\<lparr>current_history := history_count sh - 1\<rparr>)
      else Some sh)"

definition key_left :: "'w finsh_shell \<Rightarrow> 'w finsh_shell option" where
  "key_left sh =
     (if line_curpos sh \<noteq> 0 then Some (shell_say [BS] sh\<lparr>line_curpos := line_curpos sh - 1\<rparr>) else Some sh)"

definition key_right :: "'w finsh_shell \<Rightarrow> 'w finsh_shell option" where
  "key_right sh =
     (if line_curpos sh < line_position sh then do {
        c \<leftarrow> char_at (sh_line sh) (unat (line_curpos sh));
        Some (shell_say [c] sh\<lparr>line_curpos := line_curpos sh + 1\<rparr>)
      }
      else Some sh)"

text \<open>\<open>n\<close> times a backspace, one call of \<open>rt_kprintf\<close> each.\<close>

definition say_back :: "nat \<Rightarrow> 'w finsh_shell \<Rightarrow> 'w finsh_shell" where
  "say_back n sh = (shell_say [BS] ^^ n) sh"

definition shell_auto_complete :: "'w msh_env \<Rightarrow> 'w finsh_shell \<Rightarrow> 'w finsh_shell option" where
  "shell_auto_complete env sh = do {
     let sh = shell_say [LF] sh;
     (line, w) \<leftarrow>
       (if msh_is_used (sh_msh sh) then msh_auto_complete env (sh_line sh) (sh_msh sh)
        else list_prefix (ps_symbols (sh_parser sh)) (sh_line sh) (sh_msh sh));
     say_prompt_line env (sh\<lparr>sh_line := line, sh_msh := w\<rparr>)
   }"

definition key_tab :: "'w msh_env \<Rightarrow> 'w finsh_shell \<Rightarrow> 'w finsh_shell option" where
  "key_tab env sh = do {
     sh \<leftarrow> shell_auto_complete env (say_back (unat (line_curpos sh)) sh);
     t \<leftarrow> text_at (sh_line sh) 0;
     Some (sh\<lparr>line_curpos := of_nat (length t), line_position := of_nat (length t)\<rparr>)
   }"

text \<open>\<open>rt_memmove\<close> inside the line.\<close>

definition move_text :: "nat \<Rightarrow> nat \<Rightarrow> nat \<Rightarrow> string \<Rightarrow> string option" where
  "move_text dst src n line =
     (if src + n \<le> length line then write_text dst (take n (drop src line)) line else None)"

definition key_backspace :: "'w finsh_shell \<Rightarrow> 'w finsh_shell option" where
  "key_backspace sh =
     (if line_curpos sh = 0 then Some sh
      else do {
        let sh = sh\<lparr>line_position := line_position sh - 1, line_curpos := line_curpos sh - 1\<rparr>;
        let pos = unat (line_position sh);
        let cur = unat (line_curpos sh);
        if pos > cur then do {
          line \<leftarrow> move_text cur (cur + 1) (pos - cur) (sh_line sh);
          line \<leftarrow> put_char_at line pos NUL;
          t \<leftarrow> text_at line cur;
          Some (say_back (pos - cur + 1) (shell_say (BS # t @ ''  '' @ [BS]) (sh\<lparr>sh_line := line\<rparr>)))
        }
        else do {
          let sh = shell_say (BS # '' '' @ [BS]) sh;
          line \<leftarrow> put_char_at (sh_line sh) pos NUL;
          Some (sh\<lparr>sh_line := line\<rparr>)
        }
      })"

subsection \<open>A finished line\<close>

text \<open>
  \<open>finsh_run_line\<close> reads the line up to its first NUL; if there is none it reads on behind the line.
\<close>

definition run_c_line :: "syscalls \<Rightarrow> 'w finsh_shell \<Rightarrow> 'w finsh_shell option" where
  "run_c_line sys sh = do {
     let sh = (if echo_mode sh then shell_say [LF] sh else sh);
     t \<leftarrow> text_at (sh_line sh) 0;
     (r, p, s) \<leftarrow> finsh_run_line sys t (sh_parser sh) (sh_vm sh);
     let w = sh_msh sh;
     Some (sh\<lparr>sh_parser := p, sh_vm := s, sh_msh := w\<lparr>msh_log := msh_log w @ [Result r]\<rparr>\<rparr>)
   }"

definition dispatch_line :: "'w msh_env \<Rightarrow> syscalls \<Rightarrow> 'w finsh_shell \<Rightarrow> 'w finsh_shell option" where
  "dispatch_line env sys sh =
     (if msh_is_used (sh_msh sh) then do {
        let sh = (if echo_mode sh then shell_say [LF] sh else sh);
        (r, w) \<leftarrow> msh_exec env (ucast (line_position sh)) (sh_line sh) (sh_msh sh);
        Some (sh\<lparr>sh_msh := w\<rparr>)
      }
      else do {
        line \<leftarrow> put_char_at (sh_line sh) (unat (line_position sh)) (CHR '';'');
        let sh = sh\<lparr>sh_line := line\<rparr>;
        if line_position sh \<noteq> 0 then run_c_line sys sh
        else Some (if echo_mode sh then shell_say [LF] sh else sh)
      })"

definition key_enter :: "'w msh_env \<Rightarrow> syscalls \<Rightarrow> 'w finsh_shell \<Rightarrow> 'w finsh_shell option" where
  "key_enter env sys sh = do {
     sh \<leftarrow> dispatch_line env sys (shell_push_history sh);
     sh \<leftarrow> say_prompt env sh;
     Some (sh\<lparr>sh_line := replicate FINSH_CMD_SIZE NUL, line_curpos := 0, line_position := 0\<rparr>)
   }"

definition key_char :: "char \<Rightarrow> 'w finsh_shell \<Rightarrow> 'w finsh_shell option" where
  "key_char ch sh = do {
     let sh = (if unat (line_position sh) \<ge> FINSH_CMD_SIZE then sh\<lparr>line_position := 0\<rparr> else sh);
     let pos = unat (line_position sh);
     let cur = unat (line_curpos sh);
     sh \<leftarrow>
       (if cur < pos then do {
          line \<leftarrow> move_text (cur + 1) cur (pos - cur) (sh_line sh);
          line \<leftarrow> put_char_at line cur ch;
          let sh = sh\<lparr>sh_line := line\<rparr>;
          sh \<leftarrow> (if echo_mode sh then do { t \<leftarrow> text_at line cur; Some (shell_say t sh) } else Some sh);
          Some (say_back (pos - cur) sh)
        }
        else do {
          line \<leftarrow> put_char_at (sh_line sh) pos ch;
          let sh = sh\<lparr>sh_line := line\<rparr>;
          Some (if echo_mode sh then shell_say [ch] sh else sh)
        });
     let sh = sh\<lparr>line_position := line_position sh + 1, line_curpos := line_curpos sh + 1\<rparr>;
     Some (if unat (line_position sh) \<ge> FINSH_CMD_SIZE then sh\<lparr>line_position := 0, line_curpos := 0\<rparr> else sh)
   }"

subsection \<open>The loop\<close>

text \<open>A character that is not part of the sequence of a control key.\<close>

definition plain_char :: "'w msh_env \<Rightarrow> syscalls \<Rightarrow> char \<Rightarrow> 'w finsh_shell \<Rightarrow> 'w finsh_shell option" where
  "plain_char env sys ch sh =
     (if ch = NUL \<or> ch = CHR 0xFF then Some sh
      else if ch = TAB then key_tab env sh
      else if ch = DEL \<or> ch = BS then key_backspace sh
      else if ch = CR \<or> ch = LF then key_enter env sys sh
      else key_char ch sh)"

definition shell_char :: "'w msh_env \<Rightarrow> syscalls \<Rightarrow> char \<Rightarrow> 'w finsh_shell \<Rightarrow> 'w finsh_shell option" where
  "shell_char env sys ch sh =
     (if ch = ESC then Some (sh\<lparr>sh_stat := WAIT_SPEC_KEY\<rparr>)
      else case sh_stat sh of
          WAIT_SPEC_KEY \<Rightarrow>
            if ch = CHR ''['' then Some (sh\<lparr>sh_stat := WAIT_FUNC_KEY\<rparr>)
            else plain_char env sys ch (sh\<lparr>sh_stat := WAIT_NORMAL\<rparr>)
        | WAIT_FUNC_KEY \<Rightarrow>
            (let sh = sh\<lparr>sh_stat := WAIT_NORMAL\<rparr>
             in if ch = CHR ''A'' then key_up env sh
                else if ch = CHR ''B'' then key_down env sh
                else if ch = CHR ''D'' then key_left sh
                else if ch = CHR ''C'' then key_right sh
                else plain_char env sys ch sh)
        | WAIT_NORMAL \<Rightarrow> plain_char env sys ch sh)"

text \<open>The shell on the characters it receives, after the start of its thread.\<close>

fun shell_run :: "'w msh_env \<Rightarrow> syscalls \<Rightarrow> string \<Rightarrow> 'w finsh_shell \<Rightarrow> 'w finsh_shell option" where
  "shell_run env sys [] sh = Some sh"
| "shell_run env sys (c # cs) sh = do {
     sh \<leftarrow> shell_char env sys c sh;
     shell_run env sys cs sh
   }"

definition finsh_thread_start :: "'w msh_env \<Rightarrow> 'w finsh_shell \<Rightarrow> 'w finsh_shell option" where
  "finsh_thread_start env sh =
     (let sh = sh\<lparr>echo_mode := True, sh_parser := finsh_init (sh_parser sh)\<rparr> in say_prompt env sh)"

text \<open>The cleared structure of \<open>finsh_system_init\<close>; \<open>finsh_set_prompt_mode(1)\<close>.\<close>

definition shell_init :: "finsh_parser \<Rightarrow> finsh_vm \<Rightarrow> 'w msh \<Rightarrow> 'w finsh_shell" where
  "shell_init p s w = finsh_set_prompt_mode 1
     \<lparr>sh_stat = WAIT_NORMAL, echo_mode = False, prompt_mode = False, current_history = 0, history_count = 0,
      cmd_history = replicate FINSH_HISTORY_LINES (replicate FINSH_CMD_SIZE NUL),
      sh_line = replicate FINSH_CMD_SIZE NUL, line_position = 0, line_curpos = 0, prompt_custom = None,
      sh_parser = p, sh_vm = s, sh_msh = w\<rparr>"

end
