(* ===== verification/Msh_Words.thy ===== *)
theory Msh_Words
  imports Msh
begin

text \<open>
  The command lines of the module shell: a line written from a list of arguments is split into these arguments,
  and executing it calls the command it names with them.
\<close>

lemma char_at_append [simp]: "char_at (pre @ c # s) (length pre) = Some c"
  by (simp add: char_at_def)

lemma char_at_Cons [simp]: "char_at (c # s) 0 = Some c" "char_at (c # s) (Suc i) = char_at s i"
  by (simp_all add: char_at_def)

lemma text_at_append:
  "NUL \<notin> set t \<Longrightarrow> i = length pre \<Longrightarrow> text_at (pre @ t @ NUL # z) i = Some t"
  by (simp add: text_at_def) (subst takeWhile_append2, auto)

lemma unat_of_nat_u32: "n < 2 ^ 32 \<Longrightarrow> unat (of_nat n :: u32) = n"
  by (simp add: unat_of_nat)

subsection \<open>Loops over a line\<close>

lemma strip_blanks_run:
  assumes "list_all is_blank g" "length pre + length g \<le> len" "rest \<noteq> []"
    "length pre + length g < len \<Longrightarrow> \<not> is_blank (hd rest)"
  shows "strip_blanks len (length pre) (pre @ g @ rest) =
    Some (length pre + length g, pre @ replicate (length g) NUL @ rest)"
  using assms
proof (induction g arbitrary: pre)
  case Nil
  then obtain c r where r: "rest = c # r" by (cases rest) auto
  then show ?case using Nil by (subst strip_blanks.simps) auto
next
  case (Cons c g)
  have "strip_blanks len (length (pre @ [NUL])) ((pre @ [NUL]) @ g @ rest) =
    Some (length (pre @ [NUL]) + length g, (pre @ [NUL]) @ replicate (length g) NUL @ rest)"
    using Cons.prems by (intro Cons.IH) auto
  then show ?case using Cons.prems by (subst strip_blanks.simps) (simp add: list_update_append)
qed

lemma skip_word_run:
  assumes "list_all (\<lambda>c. \<not> is_blank c) v" "length pre + length v \<le> len" "rest \<noteq> []"
    "length pre + length v < len \<Longrightarrow> is_blank (hd rest)"
  shows "skip_word len (length pre) (pre @ v @ rest) = Some (length pre + length v)"
  using assms
proof (induction v arbitrary: pre)
  case Nil
  then obtain c r where r: "rest = c # r" by (cases rest) auto
  then show ?case using Nil by (subst skip_word.simps) auto
next
  case (Cons c v)
  have "skip_word len (length (pre @ [c])) ((pre @ [c]) @ v @ rest) = Some (length (pre @ [c]) + length v)"
    using Cons.prems by (intro Cons.IH) auto
  then show ?case using Cons.prems by (subst skip_word.simps) simp
qed

lemma skip_string_run:
  assumes "list_all (\<lambda>c. c \<noteq> QUOTE \<and> c \<noteq> BACKSLASH) v" "length pre + length v < len"
  shows "skip_string len (length pre) (pre @ v @ QUOTE # rest) = Some (length pre + length v)"
  using assms
proof (induction v arbitrary: pre)
  case Nil
  then show ?case by (subst skip_string.simps) auto
next
  case (Cons c v)
  have "skip_string len (length (pre @ [c])) ((pre @ [c]) @ v @ QUOTE # rest) = Some (length (pre @ [c]) + length v)"
    using Cons.prems by (intro Cons.IH) auto
  then show ?case using Cons.prems by (subst skip_string.simps) simp
qed

subsection \<open>Lines from arguments\<close>

text \<open>
  A line is a list of arguments, each behind a gap of blanks, and blanks at the end.  An argument that is empty or
  holds a blank is put between quotation marks.
\<close>

definition argument :: "string \<Rightarrow> bool" where
  "argument w \<longleftrightarrow> list_all (\<lambda>c. c \<noteq> NUL \<and> c \<noteq> QUOTE \<and> c \<noteq> BACKSLASH) w"

definition quoted :: "string \<Rightarrow> bool" where
  "quoted w \<longleftrightarrow> w = [] \<or> list_ex is_blank w"

definition arg_text :: "string \<Rightarrow> string" where
  "arg_text w = (if quoted w then QUOTE # w @ [QUOTE] else w)"

fun args_text :: "(string \<times> string) list \<Rightarrow> string" where
  "args_text [] = []"
| "args_text ((g, w) # as) = g @ arg_text w @ args_text as"

definition gaps_ok :: "(string \<times> string) list \<Rightarrow> bool" where
  "gaps_ok as \<longleftrightarrow> list_all (\<lambda>(g, w). list_all is_blank g \<and> argument w) as \<and> list_all (\<lambda>(g, w). g \<noteq> []) (tl as)"

text \<open>The line after the split, and the offsets of the arguments.\<close>

fun split_text :: "(string \<times> string) list \<Rightarrow> string" where
  "split_text [] = []"
| "split_text ((g, w) # as) =
     replicate (length g) NUL @ (if quoted w then QUOTE # w @ [NUL] else w) @ split_text as"

fun split_args :: "nat \<Rightarrow> (string \<times> string) list \<Rightarrow> nat list" where
  "split_args n [] = []"
| "split_args n ((g, w) # as) =
     (n + length g + (if quoted w then 1 else 0)) # split_args (n + length g + length (arg_text w)) as"

lemma arg_text_ne [simp]: "arg_text w \<noteq> []"
  by (auto simp: arg_text_def quoted_def)

lemma length_split_text [simp]: "length (split_text as) = length (args_text as)"
  by (induction as rule: split_text.induct) (auto simp: arg_text_def)

lemma not_blank_arg: "\<not> is_blank (hd (arg_text w @ r))"
  by (cases w) (auto simp: arg_text_def quoted_def is_blank_def)

lemma not_blank_NUL [simp]: "\<not> is_blank NUL" "\<not> is_blank QUOTE"
  by (auto simp: is_blank_def)

lemma hd_args_text:
  assumes "list_all (\<lambda>(g, w). g \<noteq> [] \<and> list_all is_blank g) as" "list_all is_blank trail" "args_text as @ trail \<noteq> []"
  shows "is_blank (hd (args_text as @ trail @ z))"
proof (cases as)
  case Nil
  then show ?thesis using assms by (cases trail) auto
next
  case (Cons a as')
  then show ?thesis using assms by (cases a; cases "fst a") auto
qed

lemma split_loop_string:
  assumes "i < len" "strip_blanks len i s = Some (j, s')" "length argv < FINSH_ARG_MAX" "j < len"
    "char_at s' j = Some QUOTE" "skip_string len (j + 1) s' = Some k" "k < len"
  shows "split_loop len i argv s w = split_loop len (k + 1) (argv @ [j + 1]) (s'[k := NUL]) w"
  using assms by (subst split_loop.simps) simp

lemma split_loop_word:
  assumes "i < len" "strip_blanks len i s = Some (j, s')" "length argv < FINSH_ARG_MAX" "j < len"
    "char_at s' j = Some c" "c \<noteq> QUOTE" "skip_word len j s' = Some k"
  shows "split_loop len i argv s w =
    (if len \<le> k then Some (argv @ [j], s', w) else split_loop len k (argv @ [j]) s' w)"
  using assms by (subst split_loop.simps) simp

lemma split_loop_run:
  assumes "gaps_ok as" "as \<noteq> [] \<Longrightarrow> fst (hd as) \<noteq> [] \<or> argv = []" "list_all is_blank trail"
    "length argv + length as \<le> FINSH_ARG_MAX" "length argv + length as = FINSH_ARG_MAX \<Longrightarrow> trail = []"
    "len = length pre + length (args_text as) + length trail"
  shows "split_loop len (length pre) argv (pre @ args_text as @ trail @ NUL # z) w =
    Some (argv @ split_args (length pre) as,
      pre @ split_text as @ replicate (length trail) NUL @ NUL # z, w)"
  using assms
proof (induction as arbitrary: pre argv)
  case Nil
  show ?case
  proof (cases trail)
    case Nil
    then show ?thesis using Nil.prems by (subst split_loop.simps) simp
  next
    case (Cons c cs)
    have "strip_blanks len (length pre) (pre @ trail @ NUL # z) =
      Some (length pre + length trail, pre @ replicate (length trail) NUL @ NUL # z)"
      using Nil.prems by (intro strip_blanks_run) auto
    then show ?thesis using Nil.prems(4-6) Cons by (subst split_loop.simps) auto
  qed
next
  case (Cons a as)
  obtain g v where a: "a = (g, v)" by (cases a)
  let ?rest = "args_text as @ trail @ NUL # z"
  let ?pre = "pre @ replicate (length g) NUL"
  have g: "list_all is_blank g" "argument v" "list_all (\<lambda>(g, w). list_all is_blank g \<and> argument w) as"
      "list_all (\<lambda>(g, w). g \<noteq> []) as"
    using Cons.prems(1) unfolding gaps_ok_def a by auto
  then have ok: "list_all is_blank g" "argument v" "gaps_ok as" "as \<noteq> [] \<Longrightarrow> fst (hd as) \<noteq> []"
    by (cases as; auto simp: gaps_ok_def)+
  have gaps: "list_all (\<lambda>(g, w). g \<noteq> [] \<and> list_all is_blank g) as"
    using g(3,4) by (auto simp: list_all_iff)
  have lt: "length pre < len" using Cons.prems(6) a by (cases "arg_text v") auto
  have strip: "strip_blanks len (length pre) (pre @ g @ arg_text v @ ?rest) =
      Some (length pre + length g, pre @ replicate (length g) NUL @ arg_text v @ ?rest)"
    using ok(1) Cons.prems(6) not_blank_arg [of v] by (intro strip_blanks_run) (auto simp: a)
  have few: "length argv < FINSH_ARG_MAX" using Cons.prems(4) by simp
  have inner: "length pre + length g < len" using Cons.prems(6) a by (cases "arg_text v") auto
  show ?case
  proof (cases "quoted v")
    case True
    let ?s = "pre @ replicate (length g) NUL @ QUOTE # v @ QUOTE # ?rest"
    let ?k = "length pre + length g + 1 + length v"
    have "skip_string len (length (?pre @ [QUOTE])) ((?pre @ [QUOTE]) @ v @ QUOTE # ?rest) =
      Some (length (?pre @ [QUOTE]) + length v)"
      using ok(2) Cons.prems(6) True
      by (intro skip_string_run) (auto simp: a arg_text_def argument_def list_all_iff)
    then have skip: "skip_string len (length pre + length g + 1) ?s = Some ?k" by simp
    have "split_loop len (length (?pre @ QUOTE # v @ [NUL])) (argv @ [length pre + length g + 1])
        ((?pre @ QUOTE # v @ [NUL]) @ args_text as @ trail @ NUL # z) w =
      Some ((argv @ [length pre + length g + 1]) @ split_args (length (?pre @ QUOTE # v @ [NUL])) as,
        (?pre @ QUOTE # v @ [NUL]) @ split_text as @ replicate (length trail) NUL @ NUL # z, w)"
      using Cons.prems ok True by (intro Cons.IH) (auto simp: a arg_text_def)
    moreover have "?s[?k := NUL] = (?pre @ QUOTE # v @ [NUL]) @ ?rest"
      using list_update_length [of "pre @ replicate (length g) NUL @ QUOTE # v" QUOTE ?rest NUL] by (simp add: add.assoc)
    moreover have "char_at ?s (length pre + length g) = Some QUOTE"
      using char_at_append [of ?pre QUOTE] by simp
    then have "split_loop len (length pre) argv (pre @ g @ arg_text v @ ?rest) w =
      split_loop len (?k + 1) (argv @ [length pre + length g + 1]) (?s[?k := NUL]) w"
      using lt strip few inner skip True Cons.prems(6) a
      by (intro split_loop_string [where s' = ?s]) (auto simp: arg_text_def)
    moreover have "length (?pre @ QUOTE # v @ [NUL]) = ?k + 1" by simp
    ultimately show ?thesis using True by (simp add: a arg_text_def add.assoc)
  next
    case False
    obtain c u where v: "v = c # u" using False by (cases v) (auto simp: quoted_def)
    let ?s = "pre @ replicate (length g) NUL @ v @ ?rest"
    let ?k = "length pre + length g + length v"
    have "skip_word len (length ?pre) (?pre @ v @ ?rest) = Some (length ?pre + length v)"
      using False ok gaps Cons.prems(3,6) hd_args_text [of as trail "NUL # z"]
      by (intro skip_word_run) (auto simp: a arg_text_def quoted_def list_all_iff list_ex_iff)
    then have skip: "skip_word len (length pre + length g) ?s = Some ?k" by simp
    have c: "char_at ?s (length pre + length g) = Some c" "c \<noteq> QUOTE"
      using char_at_append [of ?pre c "u @ ?rest"] ok(2) by (auto simp: v argument_def)
    have "split_loop len (length (?pre @ v)) (argv @ [length pre + length g])
        ((?pre @ v) @ args_text as @ trail @ NUL # z) w =
      Some ((argv @ [length pre + length g]) @ split_args (length (?pre @ v)) as,
        (?pre @ v) @ split_text as @ replicate (length trail) NUL @ NUL # z, w)"
      using Cons.prems ok False by (intro Cons.IH) (auto simp: a arg_text_def)
    moreover have "split_loop len (length pre) argv (pre @ g @ arg_text v @ ?rest) w =
      (if len \<le> ?k then Some (argv @ [length pre + length g], ?s, w)
       else split_loop len ?k (argv @ [length pre + length g]) ?s w)"
      using lt strip few inner skip False a c by (intro split_loop_word [where c = c]) (auto simp: arg_text_def)
    moreover have "length (?pre @ v) = ?k" by simp
    moreover have "as = [] \<and> trail = []" if "len \<le> ?k"
      using that Cons.prems(6) False arg_text_def [of v] by (cases as) (auto simp: a)
    ultimately show ?thesis using False by (auto simp: a arg_text_def add.assoc)
  qed
qed

lemma text_at_args:
  assumes "list_all (\<lambda>(g, w). argument w) as" "list_all (\<lambda>(g, w). g \<noteq> []) (tl as)"
  shows "map (text_at (pre @ split_text as @ replicate k NUL @ NUL # z)) (split_args (length pre) as) =
    map (Some \<circ> snd) as"
  using assms
proof (induction as arbitrary: pre)
  case (Cons a as)
  obtain g v where a: "a = (g, v)" by (cases a)
  let ?q = "if quoted v then [QUOTE] else []"
  let ?pre = "pre @ replicate (length g) NUL @ ?q @ v @ (if quoted v then [NUL] else [])"
  let ?rest = "split_text as @ replicate k NUL @ NUL # z"
  obtain r where r: "(if quoted v then [NUL] else []) @ ?rest = NUL # r"
  proof (cases "quoted v")
    case False
    have "hd ?rest = NUL"
      using Cons.prems by (cases as; cases k; auto simp: gr0_conv_Suc neq_Nil_conv split: prod.splits)
    then show ?thesis using that [of "tl ?rest"] False by (cases ?rest) auto
  qed simp
  have "text_at ((pre @ replicate (length g) NUL @ ?q) @ v @ NUL # r) (length pre + length g + length ?q) = Some v"
    using Cons.prems(1) a by (intro text_at_append) (auto simp: argument_def list_all_iff)
  moreover have "map (text_at (?pre @ ?rest)) (split_args (length ?pre) as) = map (Some \<circ> snd) as"
    using Cons.prems by (intro Cons.IH) (cases as; auto simp: a list_all_iff)+
  ultimately show ?case using r [symmetric] by (auto simp: a arg_text_def ac_simps)
qed simp

text \<open>The split of a line of at most ten arguments; ten arguments with blanks behind them count as too many.\<close>

lemma msh_split_line:
  assumes "gaps_ok as" "list_all is_blank trail" "length as < FINSH_ARG_MAX \<or> length as = FINSH_ARG_MAX \<and> trail = []"
  shows "\<exists>argv s. msh_split (length (args_text as @ trail)) (args_text as @ trail @ NUL # z) w = Some (argv, s, w) \<and>
    map (text_at s) argv = map (Some \<circ> snd) as"
proof -
  let ?s = "split_text as @ replicate (length trail) NUL @ NUL # z"
  have "msh_split (length (args_text as @ trail)) (args_text as @ trail @ NUL # z) w = Some (split_args 0 as, ?s, w)"
    using split_loop_run [of as "[]" trail "length (args_text as @ trail)" "[]" z w] assms
    by (auto simp: msh_split_def)
  moreover have "map (text_at ?s) (split_args 0 as) = map (Some \<circ> snd) as"
    using text_at_args [of as "[]" "length trail" z] assms(1) by (auto simp: gaps_ok_def list_all_iff)
  ultimately show ?thesis by blast
qed

subsection \<open>Calling a command\<close>

lemma trim_line_run:
  assumes "list_all is_blank g" "\<not> is_blank (hd s)" "s \<noteq> []" "length g \<le> n"
  shows "trim_line (of_nat n) (g @ s) = Some (of_nat (n - length g), s)"
  using assms
proof (induction g arbitrary: n)
  case Nil
  then show ?case by (cases s; subst trim_line.simps) auto
next
  case (Cons c g)
  then obtain m where n: "n = Suc m" by (cases n) auto
  then show ?case using Cons.IH [of m] Cons.prems by (subst trim_line.simps) simp
qed

lemma strncmp_prefix:
  "length v = n \<Longrightarrow> strncmp_eq name (v @ r) n \<longleftrightarrow> take n name = v"
  by (simp add: strncmp_eq_def)

lemma msh_get_cmd_find:
  assumes "NUL \<notin> set v"
  shows "msh_get_cmd tab (v @ r) (length v) =
    Some (case find (\<lambda>c. is_command c \<and> command_name c = v) tab of None \<Rightarrow> 0 | Some c \<Rightarrow> syscall_func c)"
proof (induction tab)
  case (Cons c tab)
  have t: "takeWhile (\<lambda>c. c \<noteq> NUL) (v @ r) = v @ takeWhile (\<lambda>c. c \<noteq> NUL) r"
    using assms by (subst takeWhile_append2) auto
  have "length (command_name c) = length v \<Longrightarrow> take (length v) (command_name c) = command_name c" by simp
  moreover have "\<not> length (command_name c) < length v" if "take (length v) (command_name c) = v"
    using arg_cong [OF that, of length] by simp
  ultimately show ?case using Cons.IH unfolding msh_get_cmd.simps t strncmp_prefix [OF refl] by auto
qed simp

text \<open>
  A line of at most ten arguments whose first names a command calls the function of that command with
  these arguments, whatever the blanks between them.
\<close>

lemma msh_exec_calls:
  assumes line: "line = args_text ((g, cmd) # args) @ trail" "gaps_ok ((g, cmd) # args)" "\<not> quoted cmd"
      "list_all is_blank trail" "length line < 2 ^ 32"
    and few: "Suc (length args) < FINSH_ARG_MAX \<or> Suc (length args) = FINSH_ARG_MAX \<and> trail = []"
    and command: "find (\<lambda>c. is_command c \<and> command_name c = cmd) (env_table env) = Some c" "syscall_func c \<noteq> 0"
  shows "\<exists>argv s. map (text_at s) argv = map Some (cmd # map snd args) \<and>
    msh_exec env (of_nat (length line)) (line @ NUL # z) w = env_call env (syscall_func c) argv s w"
proof -
  let ?as = "([], cmd) # args"
  let ?t = "args_text ?as @ trail"
  have g: "list_all is_blank g" "gaps_ok ?as" using line(2) by (auto simp: gaps_ok_def)
  have cmd: "arg_text cmd = cmd" "cmd \<noteq> []" "NUL \<notin> set cmd" "list_all (\<lambda>c. \<not> is_blank c) cmd"
    using line(2,3) by (auto simp: arg_text_def quoted_def gaps_ok_def argument_def list_all_iff list_ex_iff)
  obtain argv s where split: "msh_split (length ?t) (?t @ NUL # z) w = Some (argv, s, w)"
      "map (text_at s) argv = map (Some \<circ> snd) ?as"
    using msh_split_line [OF g(2) line(4), of z w] few by auto
  have trim: "trim_line (of_nat (length line)) (line @ NUL # z) = Some (of_nat (length ?t), ?t @ NUL # z)"
    using trim_line_run [of g "?t @ NUL # z" "length line"] g(1) not_blank_arg [of cmd "args_text args @ trail @ NUL # z"]
    by (simp add: line(1))
  have "unat (of_nat (length ?t) :: u32) = length ?t" using line(1,5) by (intro unat_of_nat_u32) simp
  moreover have "length ?t \<noteq> 0" using cmd by simp
  ultimately have len: "unat (of_nat (length ?t) :: u32) = length ?t" "(of_nat (length ?t) :: u32) \<noteq> 0"
    by (metis unat_0)+
  have gaps: "list_all (\<lambda>(g, w). g \<noteq> [] \<and> list_all is_blank g) args"
    using line(2) by (auto simp: gaps_ok_def list_all_iff)
  have word: "skip_word (length ?t) 0 (?t @ NUL # z) = Some (length cmd)"
    using skip_word_run [of cmd "[]" "length ?t" "args_text args @ trail @ NUL # z"] cmd gaps line(4)
      hd_args_text [of args trail "NUL # z"] by auto
  have get: "msh_get_cmd (env_table env) (?t @ NUL # z) (length cmd) = Some (syscall_func c)"
    using msh_get_cmd_find [OF cmd(3), of "env_table env" "args_text args @ trail @ NUL # z"] command cmd(1) by simp
  have "argv \<noteq> []" using split(2) by auto
  then have "msh_exec_cmd env (length ?t) (?t @ NUL # z) w = do {
      (r, w) \<leftarrow> env_call env (syscall_func c) argv s w; Some (Some r, s, w) }"
    using word get split(1) cmd(2) command(2) unfolding msh_exec_cmd_def by simp
  then have "msh_exec env (of_nat (length line)) (line @ NUL # z) w = env_call env (syscall_func c) argv s w"
    using trim len unfolding msh_exec_def
    by (subst msh_run.simps) (auto simp: bind_assoc split_beta split: bind_splits)
  then show ?thesis using split(2) by (intro exI [of _ argv] exI [of _ s]) (simp add: o_def)
qed

subsection \<open>Every line is read within its bounds\<close>

definition ended :: "nat \<Rightarrow> string \<Rightarrow> bool" where
  "ended len s \<longleftrightarrow> len < length s \<and> s ! len = NUL"

lemma ended_update: "ended len s \<Longrightarrow> i < len \<Longrightarrow> ended len (s[i := c])"
  by (auto simp: ended_def)

lemma ended_char: "ended len s \<Longrightarrow> i \<le> len \<Longrightarrow> char_at s i = Some (s ! i)"
  by (simp add: ended_def char_at_def)

lemma ended_text_at: "ended len s \<Longrightarrow> i \<le> len \<Longrightarrow> \<exists>t. text_at s i = Some t"
  using nth_mem [of "len - i" "drop i s"] by (auto simp: text_at_def ended_def)

lemma strip_blanks_ends:
  "ended len s \<Longrightarrow> i \<le> len \<Longrightarrow> \<exists>j s'. strip_blanks len i s = Some (j, s') \<and> j \<le> len \<and> ended len s'"
proof (induction len i s rule: strip_blanks.induct)
  case (1 len i s)
  then show ?case
    by (subst strip_blanks.simps) (auto simp: ended_char ended_update)
qed

lemma skip_word_ends: "ended len s \<Longrightarrow> i \<le> len \<Longrightarrow> \<exists>j. skip_word len i s = Some j \<and> i \<le> j \<and> j \<le> len"
proof (induction len i s rule: skip_word.induct)
  case (1 len i s)
  then show ?case by (subst skip_word.simps) (auto simp: ended_char dest: Suc_leD)
qed

lemma skip_string_ends: "ended len s \<Longrightarrow> i \<le> len \<Longrightarrow> \<exists>j. skip_string len i s = Some j \<and> j \<le> len"
proof (induction len i s rule: skip_string.induct)
  case (1 len i s)
  show ?case
  proof (cases "s ! i = BACKSLASH \<and> i < len")
    case True
    then have c: "char_at s i = Some BACKSLASH" "char_at s (i + 1) = Some (s ! (i + 1))"
      using 1(3) by (auto simp: ended_char)
    have "s ! (i + 1) = QUOTE \<Longrightarrow> i + 1 \<noteq> len" using 1(3) by (auto simp: ended_def)
    then have "\<exists>j. skip_string len (if s ! (i + 1) = QUOTE then i + 2 else i + 1) s = Some j \<and> j \<le> len"
      using 1(1) [OF c(1) _ refl c(2) 1(3)] True 1(4) by auto
    then show ?thesis using c True by (subst skip_string.simps) auto
  next
    case False
    then show ?thesis using 1 by (subst skip_string.simps) (auto simp: ended_char)
  qed
qed

lemma msh_used_say [simp]: "msh_used (say t w) = msh_used w"
  by (simp add: say_def)

lemma say_arguments_ends:
  "ended len s \<Longrightarrow> list_all (\<lambda>a. a \<le> len) argv \<Longrightarrow>
    \<exists>w'. say_arguments s argv w = Some w' \<and> msh_used w' = msh_used w"
proof (induction argv arbitrary: w)
  case (Cons a as)
  then obtain t where "text_at s a = Some t" using ended_text_at [of len s a] by auto
  then show ?case using Cons.IH [of "say (t @ '' '') w"] Cons.prems by auto
qed simp

lemma split_loop_ends:
  "ended len s \<Longrightarrow> i \<le> len \<Longrightarrow> list_all (\<lambda>a. a \<le> len) argv \<Longrightarrow>
    \<exists>argv' s' w'. split_loop len i argv s w = Some (argv', s', w') \<and> ended len s' \<and>
      msh_used w' = msh_used w"
proof (induction len i argv s w rule: split_loop.induct)
  case (1 len i argv s w)
  obtain j s' where strip: "strip_blanks len i s = Some (j, s')" "j \<le> len" "ended len s'"
    using strip_blanks_ends 1(3,4) by blast
  obtain w' where many: "say_too_many s' argv w = Some w'" "msh_used w' = msh_used w"
    using say_arguments_ends [OF strip(3) 1(5), of "say (''Too many args ! We only Use:'' @ [LF]) w"]
    by (auto simp: say_too_many_def)
  obtain k l where skip: "skip_word len j s' = Some k" "k \<le> len" and skip_s: "j < len \<Longrightarrow> skip_string len (j + 1) s' = Some l \<and> l \<le> len"
    using skip_word_ends [OF strip(3,2)] skip_string_ends [OF strip(3), of "j + 1"] by (metis Suc_eq_plus1 Suc_leI)
  show ?case
    using 1 strip many skip skip_s
    by (subst split_loop.simps) (auto simp: ended_char ended_update)
qed

lemma first_word_ends: "NUL \<in> set s \<Longrightarrow> \<exists>t. first_word s = Some t"
  by (induction s) auto

lemma not_found_ends: "ended len s \<Longrightarrow> \<exists>w'. not_found s w = Some (-1, w') \<and> msh_used w' = msh_used w"
  using first_word_ends [of s] nth_mem [of len s] by (auto simp: not_found_def ended_def)

lemma script_text_ends:
  assumes "ended len s" "\<forall>p w. env_open env p w = None"
  shows "script_text env len s w = Some None"
proof -
  obtain n where "skip_word len 0 s = Some n" using skip_word_ends [OF assms(1), of 0] by auto
  then show ?thesis using assms(2) by (simp add: script_text_def Let_def)
qed

lemma msh_exec_cmd_ends:
  assumes t: "NUL \<notin> set t" and call: "\<forall>f argv s w. \<exists>r w'. env_call env f argv s w = Some (r, w') \<and> msh_used w' = msh_used w"
  shows "\<exists>r s w'. msh_exec_cmd env (length t) (t @ NUL # z) w = Some (r, s, w') \<and> ended (length t) s \<and>
    msh_used w' = msh_used w"
proof -
  let ?s = "t @ NUL # z"
  have s: "ended (length t) ?s" by (simp add: ended_def)
  obtain n where n: "skip_word (length t) 0 ?s = Some n" "n \<le> length t" using skip_word_ends [OF s, of 0] by auto
  have "NUL \<notin> set (take n t)" using t in_set_takeD by fast
  then obtain f where f: "msh_get_cmd (env_table env) ?s n = Some f"
    using msh_get_cmd_find [of "take n t" "env_table env" "drop n t @ NUL # z"] n(2)
    by (simp add: append.assoc [symmetric] del: append.assoc)
  obtain argv s' w' where sp: "msh_split (length t) ?s w = Some (argv, s', w')" "ended (length t) s'"
      "msh_used w' = msh_used w"
    using split_loop_ends [OF s, of 0 "[]" w] by (auto simp: msh_split_def)
  obtain r v where "env_call env f argv s' w' = Some (r, v)" "msh_used v = msh_used w'" using call by blast
  then show ?thesis using n(1) f sp s by (simp add: msh_exec_cmd_def)
qed

text \<open>A line without a script is executed to the end if commands return and keep the mode of the shell.\<close>

lemma msh_exec_ends:
  assumes t: "NUL \<notin> set t" "length t < 2 ^ 32" 
    and call: "\<forall>f argv s w. \<exists>r w'. env_call env f argv s w = Some (r, w') \<and> msh_used w' = msh_used w"
    and no_script: "\<forall>p w. env_open env p w = None"
  shows "\<exists>r w'. msh_exec env (of_nat (length t)) (t @ NUL # z) w = Some (r, w') \<and> msh_used w' = msh_used w"
proof -
  define u where "u = dropWhile is_blank t"
  have split: "t = takeWhile is_blank t @ u" by (simp add: u_def)
  have "\<not> is_blank (hd (u @ NUL # z))" using hd_dropWhile [of is_blank t] by (cases u) (simp_all add: u_def [symmetric])
  moreover have "length t - length (takeWhile is_blank t) = length u" using arg_cong [OF split, of length] by simp
  moreover have "list_all is_blank (takeWhile is_blank t)" by (auto simp: list_all_iff dest: set_takeWhileD)
  ultimately have trim: "trim_line (of_nat (length t)) (t @ NUL # z) = Some (of_nat (length u), u @ NUL # z)"
    using trim_line_run [of "takeWhile is_blank t" "u @ NUL # z" "length t"] split
    by (simp add: length_takeWhile_le append.assoc [symmetric] del: append.assoc)
  have u: "NUL \<notin> set u" "length u < 2 ^ 32"
    using t set_dropWhileD [of NUL is_blank t] length_dropWhile_le [of is_blank t] by (auto simp: u_def)
  obtain r s w' where exec: "msh_exec_cmd env (length u) (u @ NUL # z) w = Some (r, s, w')" "ended (length u) s"
      "msh_used w' = msh_used w"
    using msh_exec_cmd_ends [OF u(1) call] by blast
  obtain w2 where "not_found s w' = Some (-1, w2)" "msh_used w2 = msh_used w'" using not_found_ends [OF exec(2)] by blast
  then show ?thesis
    using trim exec script_text_ends [OF exec(2) no_script] unat_of_nat_u32 [OF u(2)] unfolding msh_exec_def
    by (subst msh_run.simps) (auto split: option.splits)
qed

end
