(* ===== verification/Finsh_Editing.thy ===== *)
theory Finsh_Editing
  imports Finsh_Editor Msh_Words
begin

text \<open>
  What the line editor does, as an editor on the text in front of the cursor and behind it with the lines of
  the history, and what the user sees, as a terminal that gets the characters the shell prints.
\<close>

subsection \<open>The abstract editor\<close>

text \<open>\<open>ed_left\<close> is the text in front of the cursor, \<open>ed_right\<close> that behind it.\<close>

record edit =
  ed_left :: string
  ed_right :: string
  ed_past :: "string list"
  ed_index :: nat
  ed_keys :: input_stat

definition ed_text :: "edit \<Rightarrow> string" where
  "ed_text e = ed_left e @ ed_right e"

definition printable :: "char \<Rightarrow> bool" where
  "printable c \<longleftrightarrow> 0x20 \<le> (of_char c :: nat) \<and> (of_char c :: nat) < 0x7f"

definition ed_recall :: "nat \<Rightarrow> edit \<Rightarrow> edit" where
  "ed_recall i e = e\<lparr>ed_left := ed_past e ! i, ed_right := [], ed_index := i\<rparr>"

text \<open>The keys that edit a line; nothing for other keys and for a line that gets too long.\<close>

definition ed_plain :: "char \<Rightarrow> edit \<Rightarrow> edit option" where
  "ed_plain c e =
     (if c = BS \<or> c = DEL then Some (e\<lparr>ed_left := butlast (ed_left e)\<rparr>)
      else if printable c \<and> length (ed_text e) + 1 < FINSH_CMD_SIZE then Some (e\<lparr>ed_left := ed_left e @ [c]\<rparr>)
      else None)"

definition ed_up :: "edit \<Rightarrow> edit" where
  "ed_up e = (if ed_index e = 0 then e else ed_recall (ed_index e - 1) e)"

definition ed_down :: "edit \<Rightarrow> edit" where
  "ed_down e =
     (if ed_past e = [] then e else ed_recall (min (ed_index e + 1) (length (ed_past e) - 1)) e)"

definition ed_go_left :: "edit \<Rightarrow> edit" where
  "ed_go_left e =
     (if ed_left e = [] then e
      else e\<lparr>ed_left := butlast (ed_left e), ed_right := last (ed_left e) # ed_right e\<rparr>)"

definition ed_go_right :: "edit \<Rightarrow> edit" where
  "ed_go_right e =
     (case ed_right e of [] \<Rightarrow> e | c # r \<Rightarrow> e\<lparr>ed_left := ed_left e @ [c], ed_right := r\<rparr>)"

definition ed_char :: "char \<Rightarrow> edit \<Rightarrow> edit option" where
  "ed_char c e =
     (if c = ESC then Some (e\<lparr>ed_keys := WAIT_SPEC_KEY\<rparr>)
      else case ed_keys e of
          WAIT_SPEC_KEY \<Rightarrow>
            if c = CHR ''['' then Some (e\<lparr>ed_keys := WAIT_FUNC_KEY\<rparr>) else ed_plain c (e\<lparr>ed_keys := WAIT_NORMAL\<rparr>)
        | WAIT_FUNC_KEY \<Rightarrow>
            (let e = e\<lparr>ed_keys := WAIT_NORMAL\<rparr>
             in if c = CHR ''A'' then Some (ed_up e)
                else if c = CHR ''B'' then Some (ed_down e)
                else if c = CHR ''D'' then Some (ed_go_left e)
                else if c = CHR ''C'' then Some (ed_go_right e)
                else ed_plain c e)
        | WAIT_NORMAL \<Rightarrow> ed_plain c e)"

fun ed_run :: "string \<Rightarrow> edit \<Rightarrow> edit option" where
  "ed_run [] e = Some e"
| "ed_run (c # cs) e = do { e \<leftarrow> ed_char c e; ed_run cs e }"

text \<open>A finished line goes into the history unless it is empty or the same as the last one.\<close>

definition ed_push :: "string \<Rightarrow> string list \<Rightarrow> string list" where
  "ed_push t past =
     (if t = [] \<or> past \<noteq> [] \<and> last past = t then past
      else (if length past = FINSH_HISTORY_LINES then tl past else past) @ [t])"

subsection \<open>The terminal\<close>

text \<open>The line on the screen and the column of the cursor; the number counts the characters of an escape sequence.\<close>

type_synonym term_state = "nat \<times> (nat \<Rightarrow> char) \<times> nat"

fun term_char :: "char \<Rightarrow> term_state \<Rightarrow> term_state" where
  "term_char c (k, scr, n) =
     (if k = 1 then (if c = CHR ''['' then 2 else 0, scr, n)
      else if k = 2 then (if c = CHR ''2'' then 3 else 0, scr, n)
      else if k = 3 then (0, if c = CHR ''K'' then \<lambda>_. CHR '' '' else scr, n)
      else if c = ESC then (1, scr, n)
      else if c = BS then (0, scr, n - 1)
      else if c = CR then (0, scr, 0)
      else if c = LF then (0, \<lambda>_. CHR '' '', 0)
      else (0, scr(n := c), n + 1))"

definition term_text :: "string \<Rightarrow> term_state \<Rightarrow> term_state" where
  "term_text = fold term_char"

text \<open>The screen that shows a text, with the cursor in it.\<close>

definition shown :: "string \<Rightarrow> nat \<Rightarrow> term_state" where
  "shown t n = (0, \<lambda>i. if i < length t then t ! i else CHR '' '', n)"

subsection \<open>Representation\<close>

definition padded :: "string \<Rightarrow> string" where
  "padded t = t @ replicate (FINSH_CMD_SIZE - length t) NUL"

definition line_ok :: "string \<Rightarrow> bool" where
  "line_ok t \<longleftrightarrow> length t < FINSH_CMD_SIZE \<and> list_all printable t"

definition shell_rep :: "'w finsh_shell \<Rightarrow> edit \<Rightarrow> bool" where
  "shell_rep sh e \<longleftrightarrow>
     echo_mode sh \<and> sh_stat sh = ed_keys e \<and>
     line_ok (ed_text e) \<and> sh_line sh = padded (ed_text e) \<and>
     unat (line_position sh) = length (ed_text e) \<and> unat (line_curpos sh) = length (ed_left e) \<and>
     length (ed_past e) \<le> FINSH_HISTORY_LINES \<and> list_all line_ok (ed_past e) \<and>
     length (cmd_history sh) = FINSH_HISTORY_LINES \<and>
     take (length (ed_past e)) (cmd_history sh) = map padded (ed_past e) \<and>
     unat (history_count sh) = length (ed_past e) \<and> unat (current_history sh) = ed_index e \<and>
     ed_index e \<le> length (ed_past e)"

text \<open>
  Two states of the shell between which it printed a text that turns one screen into the other; all else of
  the world is the same.
\<close>

definition prints :: "'w finsh_shell \<Rightarrow> 'w finsh_shell \<Rightarrow> string list \<Rightarrow> bool" where
  "prints sh sh' out \<longleftrightarrow> sh_msh sh' = (sh_msh sh)\<lparr>msh_log := msh_log (sh_msh sh) @ map Print out\<rparr> \<and>
     prompt_mode sh' = prompt_mode sh \<and> prompt_custom sh' = prompt_custom sh \<and>
     sh_parser sh' = sh_parser sh \<and> sh_vm sh' = sh_vm sh"

definition edits ::
  "'w finsh_shell \<Rightarrow> edit \<Rightarrow> string \<Rightarrow> 'w finsh_shell \<Rightarrow> edit \<Rightarrow> string \<Rightarrow> bool" where
  "edits sh e pre sh' e' pre' \<longleftrightarrow> shell_rep sh' e' \<and>
     (\<exists>out. prints sh sh' out \<and>
       term_text (concat out) (shown (pre @ ed_text e) (length (pre @ ed_left e))) =
         shown (pre' @ ed_text e') (length (pre' @ ed_left e')))"

subsection \<open>Facts on the terminal\<close>

lemma printable_not [simp]:
  "\<not> printable NUL" "\<not> printable TAB" "\<not> printable LF" "\<not> printable CR" "\<not> printable BS" "\<not> printable DEL"
  "\<not> printable ESC" "\<not> printable (CHR 0xFF)" "printable (CHR '' '')" "printable (CHR ''%'')" "printable (CHR ''['')"
  by (simp_all add: printable_def)

lemma printable_list_NUL: "list_all printable t \<Longrightarrow> NUL \<notin> set t"
  by (auto simp: list_all_iff)

lemma term_text_simps [simp]:
  "term_text [] s = s" "term_text (c # cs) s = term_text cs (term_char c s)"
  "term_text (a @ b) s = term_text b (term_text a s)"
  by (simp_all add: term_text_def)

declare term_char.simps [simp del]

lemma term_char_control [simp]:
  "term_char BS (0, scr, n) = (0, scr, n - 1)" "term_char CR (0, scr, n) = (0, scr, 0)"
  "term_char LF (0, scr, n) = (0, \<lambda>_. CHR '' '', 0)" "term_char ESC (0, scr, n) = (1, scr, n)"
  "term_char (CHR ''['') (1, scr, n) = (2, scr, n)" "term_char (CHR ''2'') (2, scr, n) = (3, scr, n)"
  "term_char (CHR ''K'') (3, scr, n) = (0, \<lambda>_. CHR '' '', n)"
  "term_char (CHR ''['') (Suc 0, scr, n) = (2, scr, n)"
  by (simp_all add: term_char.simps)

lemma term_char_printable: "printable c \<Longrightarrow> term_char c (0, scr, n) = (0, scr(n := c), n + 1)"
  by (auto simp: term_char.simps)

lemma term_text_printable:
  "list_all printable t \<Longrightarrow>
    term_text t (0, scr, n) = (0, \<lambda>i. if n \<le> i \<and> i < n + length t then t ! (i - n) else scr i, n + length t)"
proof (induction t arbitrary: scr n)
  case (Cons c t)
  have "(\<lambda>i. if Suc n \<le> i \<and> i < Suc (n + length t) then t ! (i - Suc n) else (scr(n := c)) i) =
    (\<lambda>i. if n \<le> i \<and> i < n + length (c # t) then (c # t) ! (i - n) else scr i)"
    by (rule ext) (auto simp: nth_Cons')
  then show ?case using Cons by (simp add: term_char_printable)
qed (auto simp: fun_eq_iff)

lemma term_back: "term_text (replicate k BS) (0, scr, n) = (0, scr, n - k)"
  by (induction k arbitrary: n) auto

lemma concat_singles: "concat (replicate k [c]) = replicate k c"
  by (induction k) auto

text \<open>A text over what is on the screen from \<open>a\<close> on.\<close>

lemma shown_over:
  assumes "list_all printable t" "length b \<le> length t"
  shows "term_text t (shown (a @ b) (length a)) = shown (a @ t) (length (a @ t))"
proof -
  have "(\<lambda>i. if length a \<le> i \<and> i < length a + length t then t ! (i - length a)
      else if i < length a + length b then (a @ b) ! i else CHR '' '') =
    (\<lambda>i. if i < length a + length t then (a @ t) ! i else CHR '' '')"
    using assms(2) by (intro ext) (auto simp: nth_append)
  then show ?thesis using assms(1) by (simp add: shown_def term_text_printable)
qed

lemma shown_back: "term_text (replicate k BS) (shown t n) = shown t (n - k)"
  by (simp add: shown_def term_back)

lemma shown_insert:
  assumes "list_all printable t" "length b \<le> length t" "n = length (a @ t) - k"
  shows "term_text (t @ replicate k BS) (shown (a @ b) (length a)) = shown (a @ t) n"
  unfolding term_text_simps(3) shown_over [OF assms(1,2)] shown_back assms(3) ..

lemma shown_blanks: "shown (t @ replicate k (CHR '' '')) n = shown t n"
  by (auto simp: shown_def nth_append)

lemma shown_clear: "term_text (ESC # ''[2K'' @ [CR]) (shown t n) = shown [] 0"
  by (simp add: shown_def)

subsection \<open>Facts on the state\<close>

lemma u8_inc: "unat (x :: u8) < 255 \<Longrightarrow> unat (x + 1) = unat x + 1"
  by (simp add: unat_word_ariths)

lemma u16_inc: "unat (x :: u16) < 65535 \<Longrightarrow> unat (x + 1) = unat x + 1"
  by (simp add: unat_word_ariths)

lemma word_dec: "x \<noteq> 0 \<Longrightarrow> unat (x - 1 :: 'a::len word) = unat x - 1"
  by (rule unat_minus_one)

lemma word_zero_unat: "x = 0 \<longleftrightarrow> unat (x :: 'a::len word) = 0"
  by (simp add: unat_eq_0)

lemma console_text_short [simp]: "length t < 127 \<Longrightarrow> console_text t = t"
  by (simp add: console_text_def)

lemma prints_refl [simp]: "prints sh sh []"
  by (simp add: prints_def)

lemma prints_trans: "prints a b out \<Longrightarrow> prints b c out' \<Longrightarrow> prints a c (out @ out')"
  by (auto simp: prints_def)

lemma prints_say: "length t < 127 \<Longrightarrow> prints sh (shell_say t sh) [t]"
  by (simp add: prints_def shell_say_def say_def)

lemma say_back_eq:
  "say_back n sh = sh\<lparr>sh_msh := (sh_msh sh)\<lparr>msh_log := msh_log (sh_msh sh) @ map Print (replicate n [BS])\<rparr>\<rparr>"
  unfolding say_back_def
proof (induction n)
  case (Suc n)
  then show ?case by (simp add: shell_say_def say_def replicate_append_same)
qed simp

lemma prints_back: "prints sh (say_back n sh) (replicate n [BS])"
  by (simp add: prints_def say_back_eq)

lemma shell_say_fields [simp]:
  "sh_line (shell_say t sh) = sh_line sh" "line_position (shell_say t sh) = line_position sh"
  "line_curpos (shell_say t sh) = line_curpos sh" "echo_mode (shell_say t sh) = echo_mode sh"
  "sh_stat (shell_say t sh) = sh_stat sh" "cmd_history (shell_say t sh) = cmd_history sh"
  "history_count (shell_say t sh) = history_count sh" "current_history (shell_say t sh) = current_history sh"
  "prompt_mode (shell_say t sh) = prompt_mode sh" "prompt_custom (shell_say t sh) = prompt_custom sh"
  by (simp_all add: shell_say_def)

lemma say_back_fields [simp]:
  "sh_line (say_back n sh) = sh_line sh" "line_position (say_back n sh) = line_position sh"
  "line_curpos (say_back n sh) = line_curpos sh" "echo_mode (say_back n sh) = echo_mode sh"
  "sh_stat (say_back n sh) = sh_stat sh" "cmd_history (say_back n sh) = cmd_history sh"
  "history_count (say_back n sh) = history_count sh" "current_history (say_back n sh) = current_history sh"
  by (simp_all add: say_back_eq)

lemma edits_refl: "shell_rep sh e \<Longrightarrow> edits sh e pre sh e pre"
  by (auto simp: edits_def intro!: exI [of _ "[]"])

lemma edits_stat:
  "shell_rep sh e \<Longrightarrow> edits sh e pre (sh\<lparr>sh_stat := k\<rparr>) (e\<lparr>ed_keys := k\<rparr>) pre"
  by (auto simp: edits_def shell_rep_def prints_def ed_text_def intro!: exI [of _ "[]"])

lemma edits_trans:
  "edits a e pre b e' pre' \<Longrightarrow> edits b e' pre' c e'' pre'' \<Longrightarrow> edits a e pre c e'' pre''"
  unfolding edits_def
  by (metis concat_append prints_trans term_text_simps(3))

subsection \<open>Typing\<close>

lemma line_okD:
  assumes "line_ok t" shows "length t < 80" "list_all printable t" "NUL \<notin> set t"
  using assms printable_list_NUL by (auto simp: line_ok_def FINSH_CMD_SIZE_def)

lemma padded_split:
  "length t < 80 \<Longrightarrow> padded t = t @ NUL # replicate (79 - length t) NUL"
  by (simp add: padded_def FINSH_CMD_SIZE_def Suc_diff_le flip: replicate_Suc)

lemma length_padded [simp]: "length t \<le> 80 \<Longrightarrow> length (padded t) = 80"
  by (simp add: padded_def FINSH_CMD_SIZE_def)

lemma text_at_padded:
  assumes "line_ok (a @ b)" shows "text_at (padded (a @ b)) (length a) = Some b"
  using line_okD [OF assms] text_at_append [of b "length a" a "replicate (79 - length (a @ b)) NUL"]
  by (simp add: padded_split)

lemma key_char_edits:
  assumes rep: "shell_rep sh e" and c: "printable c" and room: "length (ed_text e) + 1 < FINSH_CMD_SIZE"
    and e': "e' = e\<lparr>ed_left := ed_left e @ [c]\<rparr>"
  shows "\<exists>sh'. key_char c sh = Some sh' \<and> edits sh e pre sh' e' pre"
proof -
  let ?l = "ed_left e" and ?r = "ed_right e"
  let ?k = "78 - length ?l - length ?r"
  have n: "length ?l + length ?r < 79" using room by (simp add: ed_text_def FINSH_CMD_SIZE_def)
  have line: "sh_line sh = ?l @ ?r @ NUL # NUL # replicate ?k NUL"
  proof -
    have "80 - (length ?l + length ?r) = Suc (Suc ?k)" using n by simp
    then show ?thesis using rep by (simp add: shell_rep_def ed_text_def padded_def FINSH_CMD_SIZE_def)
  qed
  have pos: "unat (line_position sh) = length ?l + length ?r" "unat (line_curpos sh) = length ?l" "echo_mode sh"
    using rep by (auto simp: shell_rep_def ed_text_def)
  have inc: "unat (line_position sh + 1) = length ?l + length ?r + 1" "unat (line_curpos sh + 1) = length ?l + 1"
    using pos n by (simp_all add: u8_inc)
  have new: "padded (ed_text e') = ?l @ c # ?r @ NUL # replicate ?k NUL" "line_ok (ed_text e')"
    using rep room c n
    by (auto simp: shell_rep_def e' ed_text_def padded_def FINSH_CMD_SIZE_def line_ok_def Suc_diff_le simp flip: replicate_Suc)
  let ?sh = "\<lambda>sh. sh\<lparr>line_position := line_position sh + 1, line_curpos := line_curpos sh + 1\<rparr>"
  have rep': "shell_rep (?sh s) e'" if "sh_line s = padded (ed_text e')" "echo_mode s"
    "sh_stat s = sh_stat sh" "line_position s = line_position sh" "line_curpos s = line_curpos sh"
    "cmd_history s = cmd_history sh" "history_count s = history_count sh" "current_history s = current_history sh" for s
    using that rep new inc by (simp add: shell_rep_def e' ed_text_def)
  show ?thesis
  proof (cases "?r = []")
    case True
    let ?s = "shell_say [c] (sh\<lparr>sh_line := padded (ed_text e')\<rparr>)"
    have put: "put_char_at (sh_line sh) (length ?l) c = Some (padded (ed_text e'))"
      using True by (simp add: line put_char_at_def new(1))
    have "key_char c sh = Some (?sh ?s)"
      using True pos inc n put by (simp add: key_char_def FINSH_CMD_SIZE_def del: One_nat_def)
    moreover have "shell_rep (?sh ?s) e'" by (rule rep') (use pos in simp_all)
    moreover have "prints sh (?sh ?s) [[c]]" by (simp add: prints_def shell_say_def say_def)
    moreover have "term_text [c] (shown (pre @ ?l) (length (pre @ ?l))) = shown (pre @ ?l @ [c]) (length (pre @ ?l @ [c]))"
      using shown_over [of "[c]" "[]" "pre @ ?l"] c by simp
    ultimately show ?thesis using True by (auto simp: edits_def e' ed_text_def intro!: exI [of _ "[[c]]"])
  next
    case False
    let ?s = "say_back (length ?r) (shell_say (c # ?r) (sh\<lparr>sh_line := padded (ed_text e')\<rparr>))"
    obtain x r where r: "?r = x # r" using False by (cases ?r) auto
    have move: "move_text (length ?l + 1) (length ?l) (length ?r) (sh_line sh) = Some (?l @ x # ?r @ NUL # replicate ?k NUL)"
      by (simp add: line r move_text_def write_text_def)
    have put: "put_char_at (?l @ x # ?r @ NUL # replicate ?k NUL) (length ?l) c = Some (padded (ed_text e'))"
      by (simp add: put_char_at_def new(1))
    have cs: "text_at (padded (ed_text e')) (length ?l) = Some (c # ?r)"
      using text_at_padded [of ?l "c # ?r"] new(2) by (simp add: e' ed_text_def)
    have len: "length (c # ?r) < 127" using n by simp
    have "key_char c sh = Some (?sh ?s)"
      using False pos inc n move put cs by (simp add: key_char_def FINSH_CMD_SIZE_def)
    moreover have "shell_rep (?sh ?s) e'" by (rule rep') (use pos in simp_all)
    moreover have "prints sh (?sh ?s) ((c # ?r) # replicate (length ?r) [BS])"
      using len by (simp add: prints_def shell_say_def say_def say_back_eq)
    moreover have "term_text ((c # ?r) @ replicate (length ?r) BS) (shown (pre @ ?l @ ?r) (length (pre @ ?l))) =
        shown (pre @ ?l @ c # ?r) (length (pre @ ?l @ [c]))"
      using shown_insert [of "c # ?r" ?r "length (pre @ ?l @ [c])" "pre @ ?l" "length ?r"] c rep
      by (simp add: shell_rep_def line_ok_def ed_text_def del: term_text_simps(2))
    ultimately show ?thesis
      by (auto simp: edits_def e' ed_text_def concat_singles simp del: term_text_simps(2)
          intro!: exI [of _ "(c # ?r) # replicate (length ?r) [BS]"])
  qed
qed

subsection \<open>Deleting and moving\<close>

lemma butlast_split: "xs \<noteq> [] \<Longrightarrow> \<exists>ys y. xs = ys @ [y]"
  by (metis append_butlast_last_id)

lemma key_backspace_edits:
  assumes rep: "shell_rep sh e" and e': "e' = e\<lparr>ed_left := butlast (ed_left e)\<rparr>"
  shows "\<exists>sh'. key_backspace sh = Some sh' \<and> edits sh e pre sh' e' pre"
proof (cases "ed_left e = []")
  case True
  then have "line_curpos sh = 0" "e' = e" using rep by (auto simp: shell_rep_def word_zero_unat e')
  then show ?thesis using rep by (auto simp: key_backspace_def edits_def intro!: exI [of _ "[]"])
next
  case False
  then obtain l x where l: "ed_left e = l @ [x]" using butlast_split by blast
  let ?r = "ed_right e"
  let ?zs = "replicate (79 - length l - length ?r) NUL"
  have n: "length l + length ?r < 79" using rep by (simp add: shell_rep_def ed_text_def line_ok_def FINSH_CMD_SIZE_def l)
  have ok: "line_ok (l @ ?r)" "list_all printable (l @ x # ?r)"
    using rep by (auto simp: shell_rep_def ed_text_def line_ok_def l)
  have line: "sh_line sh = l @ x # ?r @ ?zs"
    using rep by (simp add: shell_rep_def ed_text_def padded_def FINSH_CMD_SIZE_def l)
  have new: "padded (l @ ?r) = l @ ?r @ NUL # ?zs"
    using n by (simp add: padded_def FINSH_CMD_SIZE_def flip: replicate_Suc)
  have pos: "unat (line_position sh) = length l + 1 + length ?r" "unat (line_curpos sh) = length l + 1"
    using rep by (simp_all add: shell_rep_def ed_text_def l)
  have cur: "line_curpos sh \<noteq> 0" "line_position sh \<noteq> 0" using pos by (auto simp: word_zero_unat)
  have dec: "unat (line_position sh - 1) = length l + length ?r" "unat (line_curpos sh - 1) = length l"
    using pos word_dec [OF cur(1)] word_dec [OF cur(2)] by simp_all
  have e': "e' = e\<lparr>ed_left := l\<rparr>" using e' l by simp
  let ?sh = "sh\<lparr>line_position := line_position sh - 1, line_curpos := line_curpos sh - 1\<rparr>"
  have rep': "shell_rep s e'" if "sh_line s = padded (l @ ?r)" "echo_mode s = echo_mode sh"
    "sh_stat s = sh_stat sh" "line_position s = line_position sh - 1" "line_curpos s = line_curpos sh - 1"
    "cmd_history s = cmd_history sh" "history_count s = history_count sh" "current_history s = current_history sh" for s
    using that rep ok dec by (simp add: shell_rep_def e' ed_text_def)
  show ?thesis
  proof (cases "?r = []")
    case True
    let ?s = "shell_say (BS # '' '' @ [BS]) ?sh\<lparr>sh_line := padded (l @ ?r)\<rparr>"
    have "put_char_at (sh_line sh) (length l) NUL = Some (padded (l @ ?r))"
      using True new by (simp add: line put_char_at_def)
    then have "key_backspace sh = Some ?s"
      using True dec cur by (simp add: key_backspace_def)
    moreover have "shell_rep ?s e'" by (rule rep') simp_all
    moreover have "prints sh ?s [BS # '' '' @ [BS]]" by (simp add: prints_def shell_say_def say_def)
    moreover have "term_text (BS # '' '' @ [BS]) (shown (pre @ l @ [x]) (length (pre @ l @ [x]))) =
        shown (pre @ l) (length (pre @ l))"
      using shown_insert [of "'' ''" "[x]" "length (pre @ l)" "pre @ l" 1] shown_blanks [of "pre @ l" 1]
      by (simp add: shown_def term_char_printable)
    ultimately show ?thesis using True by (auto simp: edits_def e' ed_text_def l intro!: exI [of _ "[BS # '' '' @ [BS]]"])
  next
    case False
    let ?t = "BS # ?r @ ''  '' @ [BS]"
    let ?s = "say_back (length ?r + 1) (shell_say ?t (?sh\<lparr>sh_line := padded (l @ ?r)\<rparr>))"
    have "move_text (length l) (length l + 1) (length ?r) (sh_line sh) =
        Some (l @ ?r @ drop (length ?r) (x # ?r @ ?zs))"
      by (simp add: line move_text_def write_text_def)
    moreover have "put_char_at (l @ ?r @ drop (length ?r) (x # ?r @ ?zs)) (length l + length ?r) NUL = Some (padded (l @ ?r))"
    proof -
      obtain y where "drop (length ?r) (x # ?r @ ?zs) = y # ?zs"
        using False by (cases ?r rule: rev_cases) auto
      then show ?thesis by (simp add: put_char_at_def new list_update_append)
    qed
    moreover have "text_at (padded (l @ ?r)) (length l) = Some ?r" using text_at_padded [OF ok(1)] .
    ultimately have "key_backspace sh = Some ?s"
      using False dec cur by (simp add: key_backspace_def)
    moreover have "shell_rep ?s e'" by (rule rep') simp_all
    moreover have "prints sh ?s (?t # replicate (length ?r + 1) [BS])"
      using n by (simp add: prints_def shell_say_def say_def say_back_eq)
    moreover have "term_text (?t @ replicate (length ?r + 1) BS) (shown (pre @ l @ x # ?r) (length (pre @ l @ [x]))) =
        shown (pre @ l @ ?r) (length (pre @ l))"
    proof -
      have "term_text (?t @ replicate (length ?r + 1) BS) (shown (pre @ l @ x # ?r) (length (pre @ l @ [x]))) =
        term_text ((?r @ ''  '') @ replicate (length ?r + 2) BS) (shown ((pre @ l) @ x # ?r) (length (pre @ l)))"
        by (simp add: shown_def)
      also have "\<dots> = shown ((pre @ l @ ?r) @ replicate 2 (CHR '' '')) (length (pre @ l))"
        using shown_insert [of "?r @ ''  ''" "x # ?r" "length (pre @ l)" "pre @ l" "length ?r + 2"] ok(2)
        by (simp add: numeral_2_eq_2 del: term_text_simps)
      finally show ?thesis by (simp only: shown_blanks)
    qed
    ultimately show ?thesis
      by (auto simp: edits_def e' ed_text_def l concat_singles simp del: term_text_simps(2) replicate_Suc
          intro!: exI [of _ "?t # replicate (length ?r + 1) [BS]"])
  qed
qed

lemma key_left_edits:
  assumes rep: "shell_rep sh e"
  shows "\<exists>sh'. key_left sh = Some sh' \<and> edits sh e pre sh' (ed_go_left e) pre"
proof (cases "ed_left e = []")
  case True
  then have "line_curpos sh = 0" using rep by (auto simp: shell_rep_def word_zero_unat)
  then show ?thesis using rep True by (auto simp: key_left_def edits_def ed_go_left_def intro!: exI [of _ "[]"])
next
  case False
  then obtain l x where l: "ed_left e = l @ [x]" using butlast_split by blast
  have cur: "line_curpos sh \<noteq> 0" "unat (line_curpos sh) = length l + 1"
    using rep l by (auto simp: shell_rep_def word_zero_unat)
  let ?s = "shell_say [BS] sh\<lparr>line_curpos := line_curpos sh - 1\<rparr>"
  have "shell_rep ?s (ed_go_left e)"
    using rep cur word_dec [OF cur(1)] by (simp add: shell_rep_def ed_go_left_def ed_text_def l)
  moreover have "prints sh ?s [[BS]]" by (simp add: prints_def shell_say_def say_def)
  ultimately show ?thesis using cur
    by (auto simp: key_left_def edits_def ed_go_left_def ed_text_def l shown_def intro!: exI [of _ "[[BS]]"])
qed

lemma key_right_edits:
  assumes rep: "shell_rep sh e"
  shows "\<exists>sh'. key_right sh = Some sh' \<and> edits sh e pre sh' (ed_go_right e) pre"
proof (cases "ed_right e")
  case Nil
  then have "\<not> line_curpos sh < line_position sh" using rep by (simp add: shell_rep_def ed_text_def word_less_nat_alt)
  then show ?thesis using rep Nil by (auto simp: key_right_def edits_def ed_go_right_def intro!: exI [of _ "[]"])
next
  case (Cons c r)
  let ?l = "ed_left e"
  have cur: "line_curpos sh < line_position sh" "unat (line_curpos sh) = length ?l" "unat (line_curpos sh) < 255"
    using rep Cons by (auto simp: shell_rep_def ed_text_def line_ok_def FINSH_CMD_SIZE_def word_less_nat_alt)
  have ch: "char_at (sh_line sh) (length ?l) = Some c"
    using rep Cons by (simp add: shell_rep_def ed_text_def padded_def)
  let ?s = "shell_say [c] sh\<lparr>line_curpos := line_curpos sh + 1\<rparr>"
  have "shell_rep ?s (ed_go_right e)"
    using rep cur u8_inc [OF cur(3)] by (simp add: shell_rep_def ed_go_right_def ed_text_def Cons)
  moreover have "prints sh ?s [[c]]" by (simp add: prints_def shell_say_def say_def)
  moreover have "term_text [c] (shown (pre @ ?l @ c # r) (length (pre @ ?l))) = shown (pre @ ?l @ c # r) (length (pre @ ?l @ [c]))"
  proof -
    have "printable c" using rep Cons by (simp add: shell_rep_def ed_text_def line_ok_def)
    then show ?thesis by (auto simp: shown_def term_char_printable fun_eq_iff nth_append)
  qed
  ultimately show ?thesis using cur ch
    by (auto simp: key_right_def edits_def ed_go_right_def ed_text_def Cons intro!: exI [of _ "[[c]]"])
qed

subsection \<open>History\<close>

text \<open>A prompt that the terminal shows as it is, and that leaves room for a line in the buffer of \<open>rt_kprintf\<close>.\<close>

definition prompt_ok :: "'w msh_env \<Rightarrow> 'w finsh_shell \<Rightarrow> string \<Rightarrow> bool" where
  "prompt_ok env sh p \<longleftrightarrow> finsh_get_prompt env sh = Some p \<and> list_all printable p \<and> length p < 48"

lemma prompt_prints: "prints sh sh' out \<Longrightarrow> finsh_get_prompt env sh' = finsh_get_prompt env sh"
  unfolding prints_def finsh_get_prompt_def msh_is_used_def shell_world_def by (simp cong: option.case_cong)

lemma prompt_ok_prints: "prints sh sh' out \<Longrightarrow> prompt_ok env sh' p = prompt_ok env sh p"
  using prompt_prints [of sh sh' out env] by (simp add: prompt_ok_def)

lemma recall_line_edits:
  assumes rep: "shell_rep sh e" and p: "prompt_ok env sh p" and i: "i < length (ed_past e)" "unat j = i"
  shows "\<exists>sh'. recall_line env (sh\<lparr>current_history := j\<rparr>) = Some sh' \<and> edits sh e pre sh' (ed_recall i e) p"
proof -
  let ?t = "ed_past e ! i"
  have ok: "line_ok ?t" using rep i by (auto simp: shell_rep_def list_all_length)
  note t = line_okD [OF ok]
  have h: "length (ed_past e) \<le> 5" "length (cmd_history sh) = 5"
      "take (length (ed_past e)) (cmd_history sh) = map padded (ed_past e)"
    using rep by (auto simp: shell_rep_def FINSH_HISTORY_LINES_def)
  then have entry: "cmd_history sh ! i = padded ?t" using i by (metis nth_map nth_take)
  have cs: "text_at (padded ?t) 0 = Some ?t" using text_at_padded [of "[]" ?t] ok by simp
  have len: "unat (of_nat (length ?t) :: u8) = length ?t" using t(1) by (simp add: unat_of_nat)
  let ?q = "sh\<lparr>current_history := j, sh_line := padded ?t, line_curpos := of_nat (length ?t),
      line_position := of_nat (length ?t)\<rparr>"
  let ?s = "shell_say (p @ ?t) (shell_say (ESC # ''[2K'' @ [CR]) ?q)"
  have q: "finsh_get_prompt env (shell_say x ?q) = finsh_get_prompt env sh" for x
    unfolding finsh_get_prompt_def msh_is_used_def shell_world_def shell_say_def say_def by (simp cong: option.case_cong)
  have "recall_line env (sh\<lparr>current_history := j\<rparr>) = Some ?s"
    using i h entry cs p q by (simp add: recall_line_def shell_handle_history_def say_prompt_line_def prompt_ok_def)
  moreover have "shell_rep ?s (ed_recall i e)"
    using rep ok i len by (simp add: shell_rep_def ed_recall_def ed_text_def)
  moreover have "prints sh ?s [ESC # ''[2K'' @ [CR], p @ ?t]"
    using p t by (simp add: prints_def shell_say_def say_def prompt_ok_def)
  moreover have "term_text ((ESC # ''[2K'' @ [CR]) @ p @ ?t) (shown x n) = shown (p @ ?t) (length (p @ ?t))" for x n
    unfolding term_text_simps(3) [of "ESC # ''[2K'' @ [CR]"] shown_clear
    using shown_over [of "p @ ?t" "[]" "[]"] p t by (simp add: prompt_ok_def del: term_text_simps)
  ultimately show ?thesis
    by (auto simp: edits_def ed_recall_def ed_text_def simp del: term_text_simps
        intro!: exI [of _ "[ESC # ''[2K'' @ [CR], p @ ?t]"])
qed

lemma key_up_edits:
  assumes rep: "shell_rep sh e" and p: "prompt_ok env sh p"
  shows "\<exists>sh' pre'. key_up env sh = Some sh' \<and> edits sh e pre sh' (ed_up e) pre' \<and> pre' \<in> {pre, p}"
proof (cases "ed_index e = 0")
  case True
  then have "current_history sh = 0" using rep by (simp add: shell_rep_def word_zero_unat)
  then have "edits sh e pre (sh\<lparr>current_history := 0\<rparr>) e pre"
    using rep by (auto simp: edits_def prints_def shell_rep_def intro!: exI [of _ "[]"])
  then show ?thesis using True \<open>current_history sh = 0\<close> by (auto simp: key_up_def ed_up_def)
next
  case False
  then have cur: "current_history sh \<noteq> 0" "unat (current_history sh) = ed_index e"
    using rep by (auto simp: shell_rep_def word_zero_unat)
  have "ed_index e - 1 < length (ed_past e)" using rep False by (auto simp: shell_rep_def)
  then show ?thesis
    using recall_line_edits [OF rep p, of "ed_index e - 1" "current_history sh - 1" pre] False cur word_dec [OF cur(1)]
    by (auto simp: key_up_def ed_up_def word_gt_0)
qed

lemma key_down_edits:
  assumes rep: "shell_rep sh e" and p: "prompt_ok env sh p"
  shows "\<exists>sh' pre'. key_down env sh = Some sh' \<and> edits sh e pre sh' (ed_down e) pre' \<and> pre' \<in> {pre, p}"
proof -
  have n: "unat (history_count sh) = length (ed_past e)" "unat (current_history sh) = ed_index e"
      "ed_index e \<le> length (ed_past e)" "length (ed_past e) \<le> 5"
    using rep by (auto simp: shell_rep_def FINSH_HISTORY_LINES_def)
  have u: "uint (current_history sh) = int (ed_index e)" "uint (history_count sh) = int (length (ed_past e))"
    using n by (simp_all add: uint_nat)
  show ?thesis
  proof (cases "ed_past e = []")
    case True
    then have "history_count sh = 0" using n by (simp add: word_zero_unat)
    then show ?thesis using edits_refl [OF rep] u True by (auto simp: key_down_def ed_down_def)
  next
    case False
    show ?thesis
    proof (cases "ed_index e + 1 < length (ed_past e)")
      case True
      then have "unat (current_history sh + 1) = ed_index e + 1" using n by (simp add: u16_inc)
      then show ?thesis
        using recall_line_edits [OF rep p, of "ed_index e + 1" "current_history sh + 1" pre] True False u
        by (auto simp: key_down_def ed_down_def min_def)
    next
      case False': False
      have c: "history_count sh \<noteq> 0" using False n by (auto simp: word_zero_unat)
      have "min (ed_index e + 1) (length (ed_past e) - 1) = length (ed_past e) - 1" using False' by simp
      then show ?thesis
        using recall_line_edits [OF rep p, of "length (ed_past e) - 1" "history_count sh - 1" pre] False False' u c n
          word_dec [OF c]
        by (auto simp: key_down_def ed_down_def)
    qed
  qed
qed

subsection \<open>Any number of keys\<close>

lemma plain_char_edits:
  assumes rep: "shell_rep sh e" and ed: "ed_plain c e = Some e'"
  shows "\<exists>sh'. plain_char env sys c sh = Some sh' \<and> edits sh e pre sh' e' pre"
proof (cases "c = BS \<or> c = DEL")
  case True
  then have "e' = e\<lparr>ed_left := butlast (ed_left e)\<rparr>" using ed by (auto simp: ed_plain_def)
  then show ?thesis using key_backspace_edits [OF rep] True by (auto simp: plain_char_def)
next
  case False
  then have c: "printable c" "length (ed_text e) + 1 < FINSH_CMD_SIZE" "e' = e\<lparr>ed_left := ed_left e @ [c]\<rparr>"
    using ed by (auto simp: ed_plain_def split: if_splits)
  have "c \<notin> {NUL, CHR 0xFF, TAB, CR, LF}" using c(1) by auto
  then have "plain_char env sys c sh = key_char c sh" using False by (auto simp: plain_char_def)
  then show ?thesis using key_char_edits [OF rep c] by simp
qed

lemma shell_char_edits:
  assumes rep: "shell_rep sh e" and p: "prompt_ok env sh p" and ed: "ed_char c e = Some e'"
  shows "\<exists>sh' pre'. shell_char env sys c sh = Some sh' \<and> edits sh e pre sh' e' pre' \<and> pre' \<in> {pre, p}"
proof (cases "c = ESC")
  case True
  then show ?thesis using ed edits_stat [OF rep] by (auto simp: shell_char_def ed_char_def)
next
  case esc: False
  have st: "sh_stat sh = ed_keys e" using rep by (simp add: shell_rep_def)
  let ?sh = "sh\<lparr>sh_stat := WAIT_NORMAL\<rparr>" and ?e = "e\<lparr>ed_keys := WAIT_NORMAL\<rparr>"
  have norm: "edits sh e pre ?sh ?e pre" by (rule edits_stat [OF rep])
  then have rep': "shell_rep ?sh ?e" by (simp add: edits_def)
  have p': "prompt_ok env ?sh p" using p prompt_ok_prints [of sh ?sh "[]"] by (simp add: prints_def)
  have plain: "\<exists>sh'. plain_char env sys c ?sh = Some sh' \<and> edits sh e pre sh' e' pre" if "ed_plain c ?e = Some e'"
    using plain_char_edits [OF rep' that] edits_trans [OF norm] by blast
  show ?thesis
  proof (cases "ed_keys e")
    case WAIT_NORMAL
    then show ?thesis using plain_char_edits [OF rep, of c e' env sys pre] esc ed st by (auto simp: shell_char_def ed_char_def)
  next
    case WAIT_SPEC_KEY
    then show ?thesis using plain esc ed st edits_stat [OF rep] by (auto simp: shell_char_def ed_char_def split: if_splits)
  next
    case WAIT_FUNC_KEY
    consider "c = CHR ''A''" | "c = CHR ''B''" | "c = CHR ''D''" | "c = CHR ''C''"
      | "c \<notin> {CHR ''A'', CHR ''B'', CHR ''D'', CHR ''C''}" by auto
    then show ?thesis
    proof cases
      case 1
      then show ?thesis using key_up_edits [OF rep' p', of pre] edits_trans [OF norm] esc ed st WAIT_FUNC_KEY
        by (fastforce simp: shell_char_def ed_char_def)
    next
      case 2
      then show ?thesis using key_down_edits [OF rep' p', of pre] edits_trans [OF norm] esc ed st WAIT_FUNC_KEY
        by (fastforce simp: shell_char_def ed_char_def)
    next
      case 3
      then show ?thesis using key_left_edits [OF rep', of pre] edits_trans [OF norm] esc ed st WAIT_FUNC_KEY
        by (fastforce simp: shell_char_def ed_char_def)
    next
      case 4
      then show ?thesis using key_right_edits [OF rep', of pre] edits_trans [OF norm] esc ed st WAIT_FUNC_KEY
        by (fastforce simp: shell_char_def ed_char_def)
    next
      case 5
      then show ?thesis using plain esc ed st WAIT_FUNC_KEY by (auto simp: shell_char_def ed_char_def)
    qed
  qed
qed

lemma edits_rep: "edits sh e pre sh' e' pre' \<Longrightarrow> shell_rep sh' e'"
  by (simp add: edits_def)

lemma edits_prompt: "edits sh e pre sh' e' pre' \<Longrightarrow> prompt_ok env sh p \<Longrightarrow> prompt_ok env sh' p"
  unfolding edits_def using prompt_ok_prints by blast

lemma shell_run_edits:
  assumes "shell_rep sh e" "prompt_ok env sh p" "ed_run cs e = Some e'"
  shows "\<exists>sh' pre'. shell_run env sys cs sh = Some sh' \<and> edits sh e pre sh' e' pre' \<and> pre' \<in> {pre, p}"
  using assms
proof (induction cs arbitrary: sh e pre)
  case Nil
  then show ?case using edits_refl by auto
next
  case (Cons c cs)
  obtain e1 where e1: "ed_char c e = Some e1" "ed_run cs e1 = Some e'"
    using Cons.prems(3) by (auto split: bind_splits)
  obtain s1 pre1 where s1: "shell_char env sys c sh = Some s1" "edits sh e pre s1 e1 pre1" "pre1 \<in> {pre, p}"
    using shell_char_edits [OF Cons.prems(1,2) e1(1)] by blast
  obtain s2 pre2 where s2: "shell_run env sys cs s1 = Some s2" "edits s1 e1 pre1 s2 e' pre2" "pre2 \<in> {pre1, p}"
    using Cons.IH [OF edits_rep [OF s1(2)] edits_prompt [OF s1(2) Cons.prems(2)] e1(2), of pre1] by blast
  then show ?case using s1 edits_trans [OF s1(2) s2(2)] by auto
qed

end
