(* ===== verification/Finsh_Session.thy ===== *)
theory Finsh_Session
  imports Finsh_Editing
begin

text \<open>
  Whole lines at the module shell: a line is typed and edited, the return key runs it, its text goes into the
  history, and the line is empty again.
\<close>

definition ed_enter :: "edit \<Rightarrow> edit" where
  "ed_enter e =
     (let past = ed_push (ed_text e) (ed_past e)
      in e\<lparr>ed_left := [], ed_right := [], ed_past := past, ed_index := length past\<rparr>)"

text \<open>Lines, each the keys in front of a return key.\<close>

fun ed_lines :: "string list \<Rightarrow> edit \<Rightarrow> edit option" where
  "ed_lines [] e = Some e"
| "ed_lines (ks # kss) e = do {
     e \<leftarrow> ed_run ks e;
     if ed_keys e = WAIT_NORMAL then ed_lines kss (ed_enter e) else None
   }"

definition with_returns :: "string list \<Rightarrow> string" where
  "with_returns kss = concat (map (\<lambda>ks. ks @ [CR]) kss)"

subsection \<open>The history\<close>

lemma padded_eq: "line_ok a \<Longrightarrow> line_ok b \<Longrightarrow> padded a = padded b \<longleftrightarrow> a = b"
  by (metis append_Nil text_at_padded option.inject)

lemma ed_push_ok:
  "line_ok t \<Longrightarrow> length past \<le> FINSH_HISTORY_LINES \<Longrightarrow> list_all line_ok past \<Longrightarrow>
    length (ed_push t past) \<le> FINSH_HISTORY_LINES \<and> list_all line_ok (ed_push t past)"
  by (cases past) (auto simp: ed_push_def FINSH_HISTORY_LINES_def)

lemma history_entry_padded: "shell_rep sh e \<Longrightarrow> history_entry sh = padded (ed_text e)"
  by (simp add: shell_rep_def history_entry_def padded_def)

text \<open>The history after a push, as far as it is used.\<close>

definition history_rep :: "'w finsh_shell \<Rightarrow> string list \<Rightarrow> bool" where
  "history_rep sh past \<longleftrightarrow> length (cmd_history sh) = FINSH_HISTORY_LINES \<and>
     take (length past) (cmd_history sh) = map padded past \<and> unat (history_count sh) = length past \<and>
     current_history sh = history_count sh"

lemma push_history_rep:
  assumes rep: "shell_rep sh e"
  shows "history_rep (shell_push_history sh) (ed_push (ed_text e) (ed_past e))"
proof -
  let ?t = "ed_text e" and ?past = "ed_past e"
  have r: "line_ok ?t" "sh_line sh = padded ?t" "unat (line_position sh) = length ?t" "length ?past \<le> 5"
      "list_all line_ok ?past" "length (cmd_history sh) = 5" "take (length ?past) (cmd_history sh) = map padded ?past"
      "unat (history_count sh) = length ?past"
    using rep by (auto simp: shell_rep_def FINSH_HISTORY_LINES_def)
  have pos: "line_position sh = 0 \<longleftrightarrow> ?t = []" and cnt: "history_count sh = 0 \<longleftrightarrow> ?past = []"
    using r(3,8) by (auto simp: word_zero_unat)
  have last: "cmd_history sh ! (length ?past - 1) = padded (last ?past)" if "?past \<noteq> []"
    using r(7) that by (metis diff_less last_conv_nth length_greater_0_conv length_map map_eq_conv nth_map nth_take zero_less_one)
  have same: "padded (last ?past) = padded ?t \<longleftrightarrow> last ?past = ?t" if "?past \<noteq> []"
    using padded_eq r(1,5) that by (metis last_in_set list_all_iff)
  show ?thesis
  proof (cases "?t = []")
    case True
    then show ?thesis using r pos
      by (simp add: shell_push_history_def history_rep_def ed_push_def FINSH_HISTORY_LINES_def)
  next
    case t: False
    show ?thesis
    proof (cases "length ?past = 5")
      case True
      then have full: "cmd_history sh = map padded ?past" "?past \<noteq> []" using r(6,7) by auto
      then have "tl (cmd_history sh) = map padded (tl ?past)" by (simp add: map_tl)
      then show ?thesis
        using r t pos True full last same history_entry_padded [OF rep]
        by (simp add: shell_push_history_def history_rep_def ed_push_def FINSH_HISTORY_LINES_def)
    next
      case False
      then have few: "length ?past < 5" using r(4) by simp
      have inc: "unat (history_count sh + 1) = length ?past + 1" using r(8) few by (simp add: u16_inc)
      have dec: "unat (history_count sh - 1) = length ?past - 1" if "?past \<noteq> []"
        using word_dec [of "history_count sh"] that cnt r(8) by simp
      have new: "take (length ?past + 1) ((cmd_history sh)[length ?past := padded ?t]) = map padded (?past @ [?t])"
        using few r(6,7) by (simp add: take_Suc_conv_app_nth)
      show ?thesis
        using r t pos cnt few last same history_entry_padded [OF rep] inc dec new
        by (cases "?past = []") (auto simp: shell_push_history_def history_rep_def ed_push_def FINSH_HISTORY_LINES_def)
    qed
  qed
qed

lemma push_history_fields [simp]:
  "sh_line (shell_push_history sh) = sh_line sh" "line_position (shell_push_history sh) = line_position sh"
  "echo_mode (shell_push_history sh) = echo_mode sh" "sh_stat (shell_push_history sh) = sh_stat sh"
  "sh_msh (shell_push_history sh) = sh_msh sh" "prompt_mode (shell_push_history sh) = prompt_mode sh"
  "prompt_custom (shell_push_history sh) = prompt_custom sh"
  by (simp_all add: shell_push_history_def Let_def)

subsection \<open>Return\<close>

text \<open>The prompt of a shell in the modes of \<open>sh\<close> is one whatever a command does to the world.\<close>

definition prompts :: "'w msh_env \<Rightarrow> 'w finsh_shell \<Rightarrow> bool" where
  "prompts env sh \<longleftrightarrow>
     (\<forall>w. \<exists>p. prompt_ok env (sh\<lparr>sh_msh := w\<rparr>) p \<and> CHR ''%'' \<notin> set p)"

lemma prompts_modes:
  assumes "prompt_mode sh' = prompt_mode sh" "prompt_custom sh' = prompt_custom sh"
  shows "prompts env sh' = prompts env sh"
  using assms unfolding prompts_def prompt_ok_def finsh_get_prompt_def shell_world_def by (simp cong: option.case_cong)

lemma key_enter_msh:
  assumes rep: "shell_rep sh e" and used: "msh_used (sh_msh sh)" and p: "prompts env sh"
    and exec: "msh_exec env (of_nat (length (ed_text e))) (padded (ed_text e)) (say [LF] (sh_msh sh)) = Some (r, w)"
  shows "\<exists>sh' p. key_enter env sys sh = Some sh' \<and> shell_rep sh' (ed_enter e) \<and> sh_msh sh' = say p w \<and> prompts env sh'"
proof -
  let ?t = "ed_text e" and ?s = "(shell_say [LF] (shell_push_history sh))\<lparr>sh_msh := w\<rparr>"
  have r: "echo_mode sh" "sh_line sh = padded ?t" "unat (line_position sh) = length ?t"
    using rep by (auto simp: shell_rep_def)
  have "ucast (line_position sh) = (of_nat (length ?t) :: u32)" using r(3) [symmetric] by simp
  then have d: "dispatch_line env sys (shell_push_history sh) = Some ?s"
    using used r exec by (simp add: dispatch_line_def msh_is_used_def shell_say_def)
  have "prompts env ?s" using p prompts_modes [of ?s sh env] by simp
  then obtain q where q: "finsh_get_prompt env (?s\<lparr>sh_msh := w\<rparr>) = Some q" "CHR ''%'' \<notin> set q"
    unfolding prompts_def prompt_ok_def by blast
  let ?sh = "(shell_say q ?s)\<lparr>sh_line := replicate FINSH_CMD_SIZE NUL, line_curpos := 0, line_position := 0\<rparr>"
  have "key_enter env sys sh = Some ?sh" using d q by (simp add: key_enter_def say_prompt_def)
  moreover have "shell_rep ?sh (ed_enter e)"
    using rep push_history_rep [OF rep] ed_push_ok [of ?t "ed_past e"]
    by (simp add: shell_rep_def history_rep_def ed_enter_def Let_def ed_text_def padded_def line_ok_def)
  moreover have "prompts env ?sh" using p prompts_modes [of ?sh sh env] by simp
  ultimately show ?thesis by (auto simp: shell_say_def)
qed

subsection \<open>Sessions\<close>

lemma shell_run_append: "shell_run env sys (a @ b) sh = shell_run env sys a sh \<bind> shell_run env sys b"
  by (induction a arbitrary: sh) (auto split: bind_splits)

lemma shell_char_return: "sh_stat sh = WAIT_NORMAL \<Longrightarrow> shell_char env sys CR sh = key_enter env sys sh"
  by (simp add: shell_char_def plain_char_def)

lemma edits_modes:
  assumes "edits sh e pre sh' e' pre'"
  shows "prompts env sh' = prompts env sh" "msh_used (sh_msh sh') = msh_used (sh_msh sh)"
  using assms prompts_modes [of sh' sh] by (auto simp: edits_def prints_def)

lemma prompts_ok: "prompts env sh \<Longrightarrow> \<exists>p. prompt_ok env sh p"
proof -
  assume "prompts env sh"
  then obtain p where "prompt_ok env (sh\<lparr>sh_msh := sh_msh sh\<rparr>) p" unfolding prompts_def by blast
  then show ?thesis by auto
qed

lemma padded_ended: "line_ok t \<Longrightarrow> \<exists>z. padded t = t @ NUL # z"
  using padded_split line_okD(1) by blast

text \<open>C21. The line editor of the shell refines an editor on the text in front of the cursor and
  behind it: after any keys - characters, backspace, cursor keys, history - that keep the line
  below 80 characters, the line holds the text of that editor, and a terminal that gets what the
  shell printed shows the text behind the prompt with the cursor at its place.\<close>

lemma shell_edits:
  assumes "shell_rep sh e" "prompt_ok env sh p" "ed_run ks e = Some e'"
  shows "\<exists>sh' pre' out. shell_run env sys ks sh = Some sh' \<and> shell_rep sh' e' \<and> pre' \<in> {pre, p} \<and>
    sh_msh sh' = (sh_msh sh)\<lparr>msh_log := msh_log (sh_msh sh) @ map Print out\<rparr> \<and>
    term_text (concat out) (shown (pre @ ed_text e) (length (pre @ ed_left e))) =
      shown (pre' @ ed_text e') (length (pre' @ ed_left e'))"
  using shell_run_edits [OF assms, of sys pre] unfolding edits_def prints_def by blast

text \<open>C22. In any session of typed and edited lines, with a prompt of fewer than 48 printable
  characters and no percent sign, commands that return and keep the mode of the shell, without
  scripts and with every line below 80 characters, no key reads or writes outside of the line
  and the history, and the history holds the last five lines that differ from the one before.\<close>

lemma shell_session:
  assumes "shell_rep sh e" "msh_used (sh_msh sh)" "prompts env sh"
    and call: "\<forall>f argv s w. \<exists>r w'. env_call env f argv s w = Some (r, w') \<and> msh_used w' = msh_used w"
    and no_script: "\<forall>p w. env_open env p w = None"
    and "ed_lines kss e = Some e'"
  shows "\<exists>sh'. shell_run env sys (with_returns kss) sh = Some sh' \<and> shell_rep sh' e'"
  using assms(1-3,6)
proof (induction kss arbitrary: sh e)
  case Nil
  then show ?case by (simp add: with_returns_def)
next
  case (Cons ks kss)
  obtain e1 where e1: "ed_run ks e = Some e1" "ed_keys e1 = WAIT_NORMAL" "ed_lines kss (ed_enter e1) = Some e'"
    using Cons.prems(4) by (auto split: bind_splits if_splits)
  obtain p where p: "prompt_ok env sh p" using prompts_ok Cons.prems(3) by blast
  obtain s1 pre1 where s1: "shell_run env sys ks sh = Some s1" "edits sh e [] s1 e1 pre1"
    using shell_run_edits [OF Cons.prems(1) p e1(1), of sys "[]"] by blast
  have r1: "shell_rep s1 e1" "prompts env s1" "msh_used (sh_msh s1)"
    using edits_rep [OF s1(2)] edits_modes [OF s1(2)] Cons.prems(2,3) by auto
  have t: "line_ok (ed_text e1)" "sh_stat s1 = WAIT_NORMAL" using r1(1) e1(2) by (auto simp: shell_rep_def)
  obtain z where z: "padded (ed_text e1) = ed_text e1 @ NUL # z" using padded_ended t(1) by blast
  have n: "NUL \<notin> set (ed_text e1)" "length (ed_text e1) < 2 ^ 32" using line_okD [OF t(1)] by auto
  obtain r w where exec: "msh_exec env (of_nat (length (ed_text e1))) (padded (ed_text e1)) (say [LF] (sh_msh s1)) = Some (r, w)"
      "msh_used w"
    using msh_exec_ends [OF n call no_script, of z "say [LF] (sh_msh s1)"] r1(3) unfolding z by auto
  obtain s2 q where s2: "key_enter env sys s1 = Some s2" "shell_rep s2 (ed_enter e1)" "sh_msh s2 = say q w" "prompts env s2"
    using key_enter_msh [OF r1(1,3,2) exec(1), of sys] by blast
  have "\<exists>sh'. shell_run env sys (with_returns kss) s2 = Some sh' \<and> shell_rep sh' e'"
    using Cons.IH [OF s2(2) _ s2(4) e1(3)] s2(3) exec(2) by simp
  then show ?case using s1(1) s2(1) shell_char_return [OF t(2), of env sys]
    by (auto simp: with_returns_def shell_run_append)
qed

text \<open>C23. A line typed and edited to the name of a command and at most nine arguments, with any
  blanks between them and quotation marks round those that are empty or hold blanks, calls that
  command with exactly these arguments, and leaves an empty line.\<close>

lemma shell_calls:
  assumes rep: "shell_rep sh e" "msh_used (sh_msh sh)" "prompts env sh"
    and ed: "ed_run ks e = Some e'" "ed_keys e' = WAIT_NORMAL"
    and line: "ed_text e' = args_text ((g, cmd) # args) @ trail" "gaps_ok ((g, cmd) # args)" "\<not> quoted cmd"
      "list_all is_blank trail"
      "Suc (length args) < FINSH_ARG_MAX \<or> Suc (length args) = FINSH_ARG_MAX \<and> trail = []"
    and command: "find (\<lambda>c. is_command c \<and> command_name c = cmd) (env_table env) = Some c" "syscall_func c \<noteq> 0"
    and returns: "\<forall>argv s w. env_call env (syscall_func c) argv s w \<noteq> None"
  shows "\<exists>sh' out argv s r w p. shell_run env sys (ks @ [CR]) sh = Some sh' \<and> shell_rep sh' (ed_enter e') \<and>
    env_call env (syscall_func c) argv s
      ((sh_msh sh)\<lparr>msh_log := msh_log (sh_msh sh) @ map Print out\<rparr>) = Some (r, w) \<and>
    map (text_at s) argv = map Some (cmd # map snd args) \<and> sh_msh sh' = say p w"
proof -
  obtain p where p: "prompt_ok env sh p" using prompts_ok rep(3) by blast
  obtain s1 pre1 out where s1: "shell_run env sys ks sh = Some s1" "edits sh e [] s1 e' pre1" "prints sh s1 out"
    using shell_run_edits [OF rep(1) p ed(1), of sys "[]"] unfolding edits_def by blast
  have r1: "shell_rep s1 e'" "prompts env s1" "msh_used (sh_msh s1)"
    using edits_rep [OF s1(2)] edits_modes [OF s1(2)] rep(2,3) by auto
  have t: "line_ok (ed_text e')" "sh_stat s1 = WAIT_NORMAL" using r1(1) ed(2) by (auto simp: shell_rep_def)
  obtain z where z: "padded (ed_text e') = ed_text e' @ NUL # z" using padded_ended t(1) by blast
  have n: "length (ed_text e') < 2 ^ 32" using line_okD [OF t(1)] by auto
  let ?w = "say [LF] (sh_msh s1)"
  obtain argv s where call: "map (text_at s) argv = map Some (cmd # map snd args)"
      "msh_exec env (of_nat (length (ed_text e'))) (padded (ed_text e')) ?w = env_call env (syscall_func c) argv s ?w"
    using msh_exec_calls [OF line(1-4) n line(5) command, of z ?w] unfolding z by blast
  obtain r w where ret: "env_call env (syscall_func c) argv s ?w = Some (r, w)" using returns by fastforce
  have exec: "msh_exec env (of_nat (length (ed_text e'))) (padded (ed_text e')) ?w = Some (r, w)"
    using call(2) ret by simp
  obtain s2 q where s2: "key_enter env sys s1 = Some s2" "shell_rep s2 (ed_enter e')" "sh_msh s2 = say q w"
    using key_enter_msh [OF r1(1,3,2) exec, of sys] by blast
  have "?w = (sh_msh sh)\<lparr>msh_log := msh_log (sh_msh sh) @ map Print (out @ [[LF]])\<rparr>"
    using s1(3) by (simp add: prints_def say_def)
  then show ?thesis
    using s1(1) s2 call(1) ret shell_char_return [OF t(2), of env sys] unfolding shell_run_append
    by (intro exI [of _ s2] exI [of _ "out @ [[LF]]"] exI [of _ argv] exI [of _ s] exI [of _ r] exI [of _ w] exI [of _ q]) simp
qed

end
