(* ===== verification/Finsh_Tab.thy ===== *)
theory Finsh_Tab
  imports Finsh_Session "HOL-Library.Sublist"
begin

text \<open>The tab key in the module shell: the name of a command is completed as far as all commands agree that begin so.\<close>

subsection \<open>The longest common prefix\<close>

lemma str_common_prefix: "prefix u a \<Longrightarrow> prefix u b \<longleftrightarrow> length u \<le> str_common a b"
proof (induction a b arbitrary: u rule: str_common.induct)
  case (1 a as b bs)
  then show ?case by (cases u) auto
qed auto

lemma common_length_prefix:
  "prefix u x \<Longrightarrow> length u \<le> common_length x xs n \<longleftrightarrow> length u \<le> n \<and> (\<forall>y \<in> set xs. prefix u y)"
  by (induction xs arbitrary: n) (auto simp: str_common_prefix Let_def)

lemma prefix_take: "prefix u (take n x) \<longleftrightarrow> prefix u x \<and> length u \<le> n"
proof
  assume "prefix u (take n x)"
  then show "prefix u x \<and> length u \<le> n"
    using take_is_prefix [of n x] prefix_order.trans [of u "take n x" x] prefix_length_le [of u "take n x"] by simp
next
  assume "prefix u x \<and> length u \<le> n"
  then show "prefix u (take n x)" by (auto elim!: prefixE)
qed

lemma common_name_prefix:
  assumes "common_name xs = Some (x, n)"
  shows "prefix u (take n x) \<longleftrightarrow> (\<forall>y \<in> set xs. prefix u y)" "x \<in> set xs"
proof -
  obtain ys where xs: "xs = x # ys" "n = common_length x xs (length x)" using assms by (cases xs) auto
  have "prefix u (take n x) \<longleftrightarrow> prefix u x \<and> length u \<le> n"
    by (rule prefix_take)
  also have "\<dots> \<longleftrightarrow> (\<forall>y \<in> set xs. prefix u y)"
    using common_length_prefix [of u x xs "length x"] xs prefix_length_le by auto
  finally show "prefix u (take n x) \<longleftrightarrow> (\<forall>y \<in> set xs. prefix u y)" .
qed (use assms in \<open>cases xs; auto\<close>)

lemma common_name_none: "common_name xs = None \<longleftrightarrow> xs = []"
  by (cases xs) auto

subsection \<open>The key\<close>

definition commands_with :: "string \<Rightarrow> 'w msh_env \<Rightarrow> string list" where
  "commands_with t env = filter (prefix t) (map command_name (filter is_command (env_table env)))"

lemma strncmp_prefix_eq: "strncmp_eq t name (length t) \<longleftrightarrow> prefix t name"
  unfolding strncmp_eq_def prefix_def by (metis append_eq_conv_conj append_take_drop_id take_all_iff order_refl)

lemma last_space_none: "CHR '' '' \<notin> set (tl s) \<Longrightarrow> last_space n s = None"
proof (induction n)
  case (Suc n)
  have "n + 1 < length s \<Longrightarrow> s ! (n + 1) \<in> set (tl s)"
    using nth_mem [of n "tl s"] by (simp add: nth_tl)
  then show ?case using Suc by auto
qed simp

lemma say_lines_log:
  "list_all (\<lambda>t. length t < 80) ts \<Longrightarrow>
    say_lines ts w = w\<lparr>msh_log := msh_log w @ map Print (map (\<lambda>t. t @ [LF]) ts)\<rparr>"
  unfolding say_lines_def
proof (induction ts arbitrary: w)
  case (Cons t ts)
  then show ?case by (simp add: say_def)
qed simp

lemma term_lines:
  "list_all (list_all printable) ts \<Longrightarrow>
    term_text (concat (map (\<lambda>t. t @ [LF]) ts)) (shown [] 0) = shown [] 0"
proof (induction ts)
  case (Cons t ts)
  then have "term_text (t @ [LF]) (shown [] 0) = shown [] 0"
    by (simp add: shown_def term_text_printable)
  moreover have "term_text (concat (map (\<lambda>t. t @ [LF]) (t # ts))) (shown [] 0) =
      term_text (concat (map (\<lambda>t. t @ [LF]) ts)) (term_text (t @ [LF]) (shown [] 0))"
    by (simp add: term_text_def)
  ultimately show ?case using Cons by simp
qed simp

lemma tab_line:
  assumes t: "line_ok t" and t': "line_ok t'" "prefix t t'"
  shows "write_text 0 t' (padded t) = Some (padded t')"
proof -
  have "length t \<le> length t'" using t'(2) by (rule prefix_length_le)
  then show ?thesis using line_okD(1) [OF t'(1)] by (simp add: write_text_def padded_def FINSH_CMD_SIZE_def)
qed

text \<open>The names that are listed, and what the line becomes.\<close>

definition completed :: "string \<Rightarrow> string list \<Rightarrow> string" where
  "completed t found = (case common_name found of None \<Rightarrow> t | Some (x, n) \<Rightarrow> take n x)"

lemma completed_ok:
  assumes "line_ok t" "list_all line_ok found" "list_all (prefix t) found"
  shows "line_ok (completed t found)" "prefix t (completed t found)"
proof -
  have "line_ok (take n x)" if "line_ok x" for n x
    using that by (auto simp: line_ok_def list_all_iff dest: in_set_takeD)
  then show "line_ok (completed t found)" "prefix t (completed t found)"
    using assms common_name_prefix [of found]
    by (auto simp: completed_def list_all_iff split: option.splits)
qed

lemma msh_auto_complete_commands:
  assumes t: "line_ok t" "t \<noteq> []" "CHR '' '' \<notin> set (tl t)" and names: "list_all line_ok (commands_with t env)"
  shows "msh_auto_complete env (padded t) w =
    Some (padded (completed t (commands_with t env)), say_lines (commands_with t env) w)"
proof -
  let ?found = "commands_with t env"
  have c: "text_at (padded t) 0 = Some t" using text_at_padded [of "[]" t] t(1) by simp
  have found: "filter (\<lambda>name. strncmp_eq t name (length t)) (map command_name (filter is_command (env_table env))) = ?found"
    by (simp add: commands_with_def strncmp_prefix_eq)
  have "list_all (prefix t) ?found" by (auto simp: commands_with_def list_all_iff)
  note ok = completed_ok [OF t(1) names this]
  show ?thesis
    using c t(2) last_space_none [OF t(3)] found tab_line [OF t(1) ok]
    by (auto simp: msh_auto_complete_def completed_def split: option.splits)
qed

text \<open>C24. The tab key behind the beginning of the name of a command makes the line the longest text
  with which all commands begin that begin so, and the terminal shows it behind the prompt.\<close>

lemma tab_completes:
  assumes rep: "shell_rep sh e" and used: "msh_used (sh_msh sh)" and p: "prompt_ok env sh p"
    and t: "ed_text e \<noteq> []" "CHR '' '' \<notin> set (tl (ed_text e))"
    and names: "list_all line_ok (commands_with (ed_text e) env)"
  shows "\<exists>sh' t' out. key_tab env sh = Some sh' \<and> shell_rep sh' (e\<lparr>ed_left := t', ed_right := []\<rparr>) \<and>
    (if commands_with (ed_text e) env = [] then t' = ed_text e
     else \<forall>u. prefix u t' \<longleftrightarrow> (\<forall>name \<in> set (commands_with (ed_text e) env). prefix u name)) \<and>
    sh_msh sh' = (sh_msh sh)\<lparr>msh_log := msh_log (sh_msh sh) @ map Print out\<rparr> \<and>
    term_text (concat out) (shown (pre @ ed_text e) (length (pre @ ed_left e))) = shown (p @ t') (length (p @ t'))"
proof -
  let ?t = "ed_text e" and ?found = "commands_with (ed_text e) env" and ?cur = "unat (line_curpos sh)"
  define t' where "t' = completed ?t ?found"
  have r: "line_ok ?t" "sh_line sh = padded ?t" using rep by (auto simp: shell_rep_def)
  have pre_ok: "list_all (prefix ?t) ?found" by (auto simp: commands_with_def list_all_iff)
  have ok: "line_ok t'" unfolding t'_def by (rule completed_ok(1) [OF r(1) names pre_ok])
  note t'_ok = line_okD [OF ok]
  have short: "list_all (\<lambda>t. length t < 80) ?found" "list_all (list_all printable) ?found"
    using names by (auto simp: list_all_iff line_ok_def FINSH_CMD_SIZE_def)
  let ?out = "replicate ?cur [BS] @ [[LF]] @ map (\<lambda>t. t @ [LF]) ?found"
  let ?q = "sh\<lparr>sh_line := padded t', sh_msh := (sh_msh sh)\<lparr>msh_log := msh_log (sh_msh sh) @ map Print ?out\<rparr>\<rparr>"
  let ?s = "(shell_say (p @ t') ?q)\<lparr>line_curpos := of_nat (length t'), line_position := of_nat (length t')\<rparr>"
  have start: "shell_say [LF] (say_back ?cur sh) =
      sh\<lparr>sh_msh := (sh_msh sh)\<lparr>msh_log := msh_log (sh_msh sh) @ map Print (replicate ?cur [BS] @ [[LF]])\<rparr>\<rparr>"
    by (simp add: say_back_eq shell_say_def say_def)
  have compl: "msh_auto_complete env (padded ?t) (sh_msh (shell_say [LF] (say_back ?cur sh))) =
      Some (padded t', (sh_msh sh)\<lparr>msh_log := msh_log (sh_msh sh) @ map Print ?out\<rparr>)"
    using msh_auto_complete_commands [OF r(1) t names] by (simp add: start t'_def say_lines_log [OF short(1)])
  have q: "finsh_get_prompt env ?q = Some p"
    using p prompt_prints [of sh ?q ?out env] by (simp add: prints_def prompt_ok_def)
  have cs: "text_at (padded t') 0 = Some t'" using text_at_padded [of "[]" t'] ok by simp
  have mid: "sh_line (shell_say [LF] (say_back ?cur sh)) = padded ?t"
      "msh_is_used (sh_msh (shell_say [LF] (say_back ?cur sh)))"
      "(shell_say [LF] (say_back ?cur sh))\<lparr>sh_line := padded t',
        sh_msh := (sh_msh sh)\<lparr>msh_log := msh_log (sh_msh sh) @ map Print ?out\<rparr>\<rparr> = ?q"
    using r(2) used by (simp_all add: start msh_is_used_def)
  have "key_tab env sh = Some ?s"
    unfolding key_tab_def shell_auto_complete_def Let_def mid(1) compl using mid(2,3) q cs by (simp add: say_prompt_line_def)
  moreover have "shell_rep ?s (e\<lparr>ed_left := t', ed_right := []\<rparr>)"
    using rep ok t'_ok(1) by (simp add: shell_rep_def ed_text_def unat_of_nat)
  moreover have "if ?found = [] then t' = ?t else \<forall>u. prefix u t' \<longleftrightarrow> (\<forall>name \<in> set ?found. prefix u name)"
    using common_name_prefix(1) [of ?found] common_name_none [of ?found]
    by (auto simp: t'_def completed_def split: option.splits)
  moreover have "sh_msh ?s = (sh_msh sh)\<lparr>msh_log := msh_log (sh_msh sh) @ map Print (?out @ [p @ t'])\<rparr>"
    using p t'_ok(1) by (simp add: shell_say_def say_def prompt_ok_def)
  moreover have "term_text (concat (?out @ [p @ t'])) (shown x n) = shown (p @ t') (length (p @ t'))" for x n
  proof -
    have "term_text (concat (replicate ?cur [BS] @ [[LF]])) (shown x n) = shown [] 0"
      by (simp add: concat_singles shown_def term_back)
    moreover have "term_text (p @ t') (shown [] 0) = shown (p @ t') (length (p @ t'))"
      using shown_over [of "p @ t'" "[]" "[]"] p t'_ok by (simp add: prompt_ok_def del: term_text_simps)
    moreover have "concat (?out @ [p @ t']) = concat (replicate ?cur [BS] @ [[LF]]) @
        concat (map (\<lambda>t. t @ [LF]) ?found) @ (p @ t')" by simp
    ultimately show ?thesis using term_lines [OF short(2)] by (simp only: term_text_simps(3))
  qed
  ultimately show ?thesis by blast
qed

end
