(* ===== verification/Finsh_Grammar.thy ===== *)
theory Finsh_Grammar
  imports Finsh_Parser
begin

text \<open>
  The grammar that the comments of \<^verbatim>\<open>rt-thread/components/finsh/finsh_parser.c\<close> give for expressions, as
  derivations of a list of lexemes, and the proof that the recursive descent finds every derivation: with
  the levels of the binary operators, their association to the left and that of the assignment to the right.

  The rule for an expression in parentheses is left out: \<open>proc_cast_expr\<close> reads the parenthesis first and expects
  a type behind it.
\<close>

subsection \<open>Lexemes\<close>

text \<open>A token with what the tokeniser has stored for it.\<close>

datatype lexeme = Op finsh_token_type | Name string | Int_literal u32 | Long_literal u32 | Char_literal u8

fun lexeme_type :: "lexeme \<Rightarrow> finsh_token_type" where
  "lexeme_type (Op k) = k"
| "lexeme_type (Name s) = finsh_token_type_identifier"
| "lexeme_type (Int_literal v) = finsh_token_type_value_int"
| "lexeme_type (Long_literal v) = finsh_token_type_value_long"
| "lexeme_type (Char_literal c) = finsh_token_type_value_char"

fun lexeme_stored :: "lexeme \<Rightarrow> finsh_token \<Rightarrow> bool" where
  "lexeme_stored (Op k) t = True"
| "lexeme_stored (Name s) t = (c_str (tk_string t) = Some s)"
| "lexeme_stored (Int_literal v) t = (tk_value t = v)"
| "lexeme_stored (Long_literal v) t = (tk_value t = v)"
| "lexeme_stored (Char_literal c) t = (ucast (tk_value t) = c)"

definition holds :: "lexeme \<Rightarrow> finsh_token \<Rightarrow> bool" where
  "holds L t \<longleftrightarrow> tk_current t = lexeme_type L \<and> lexeme_stored L t \<and> \<not> tk_replay t"

text \<open>The tokens to come.\<close>

inductive reads :: "finsh_token \<Rightarrow> lexeme list \<Rightarrow> bool" where
  reads_Nil: "reads t []"
| reads_Cons: "(\<And>e. finsh_token_token t e = Some (lexeme_type L, t', e)) \<Longrightarrow> holds L t' \<Longrightarrow> reads t' Ls \<Longrightarrow>
    reads t (L # Ls)"

inductive_cases reads_ConsE: "reads t (L # Ls)"

lemma holds_replay: "holds L t \<Longrightarrow> reads t Ls \<Longrightarrow> reads (finsh_token_replay t) (L # Ls)"
  by (rule reads_Cons [where t' = t]) (auto simp: finsh_token_token_def finsh_token_replay_def holds_def)

lemma next_token_reads:
  assumes "reads (ps_token p) (L # Ls)"
  obtains t where "next_token p = Some (lexeme_type L, p\<lparr>ps_token := t\<rparr>)" "holds L t" "reads t Ls"
  using assms by (rule reads_ConsE) (auto simp: next_token_def)

lemma replay_token [simp]: "replay (p\<lparr>ps_token := t\<rparr>) = p\<lparr>ps_token := finsh_token_replay t\<rparr>"
  by (simp add: replay_def)

lemma match_token_reads:
  assumes "reads (ps_token p) (Op k # Ls)"
  obtains t where "match_token k p = Some (p\<lparr>ps_token := t\<rparr>)" "reads t Ls"
  using assms by (rule next_token_reads) (auto simp: match_token_def check_token_def)

subsection \<open>The functions of the parser\<close>

lemma parse_assign: "parse Assign_expr p = do {
    (lhs, p) \<leftarrow> parse (Binary Inclusive_or) p;
    (k, p) \<leftarrow> next_token p;
    if k = finsh_token_type_assign then do {
      (assign, p) \<leftarrow> parse Assign_expr p;
      Some (make_sys_node FINSH_NODE_SYS_ASSIGN lhs assign p)
    }
    else Some (lhs, replay p)
  }"
  by (subst parse.simps) simp

lemma parse_binary: "parse (Binary l) p = do { (lhs, p) \<leftarrow> parse (operand_of l) p; parse (Binary_loop l lhs) p }"
  by (subst parse.simps) simp

lemma parse_binary_loop: "parse (Binary_loop l lhs) p = do {
    (k, p) \<leftarrow> next_token p;
    case binary_op l k of
      None \<Rightarrow> Some (lhs, replay p)
    | Some f \<Rightarrow> do {
        (rhs, p) \<leftarrow> parse (operand_of l) p;
        if rhs = [] then parse (Binary_loop l lhs) (finsh_error_set FINSH_ERROR_EXPECT_OPERATOR p)
        else (case make_sys_node (FINSH_NODE_SYS f) lhs rhs p of (n, p) \<Rightarrow> parse (Binary_loop l n) p)
      }
  }"
  by (subst parse.simps) simp

lemma parse_cast: "parse Cast_expr p = do {
    (k, p) \<leftarrow> next_token p;
    if k = finsh_token_type_left_paren then do {
      (ty, p) \<leftarrow> proc_type p;
      p \<leftarrow> match_token finsh_token_type_right_paren p;
      (cast, p) \<leftarrow> parse Cast_expr p;
      (case cast of
         n # ns \<Rightarrow> Some (set_data_type (type_number ty) n # ns, p)
       | [] \<Rightarrow> parse Unary_expr (replay p))
    }
    else parse Unary_expr (replay p)
  }"
  by (subst parse.simps) simp

lemma parse_unary: "parse Unary_expr p = do {
    (k, p) \<leftarrow> next_token p;
    if k = finsh_token_type_add then parse Cast_expr p
    else if k = finsh_token_type_sub then do {
      (cast, p) \<leftarrow> parse Cast_expr p;
      (case with_node (finsh_node_new_long 0) p of
         (zero, p) \<Rightarrow> Some (make_sys_node (FINSH_NODE_SYS Sub) zero cast p))
    }
    else (case unary_kind k of
        Some ty \<Rightarrow> do {
          (cast, p) \<leftarrow> parse Cast_expr p;
          Some (make_sys_node ty cast [] p)
        }
      | None \<Rightarrow> parse Postfix_expr (replay p))
  }"
  by (subst parse.simps) simp

lemma parse_postfix: "parse Postfix_expr p = do { (postfix, p) \<leftarrow> parse Primary_expr p; parse (Postfix_loop postfix) p }"
  by (subst parse.simps) simp

lemma parse_postfix_loop: "parse (Postfix_loop postfix) p = do {
    (k, p) \<leftarrow> next_token p;
    if k = finsh_token_type_inc then
      (case make_sys_node FINSH_NODE_SYS_INC postfix [] p of (n, p) \<Rightarrow> parse (Postfix_loop n) p)
    else if k = finsh_token_type_dec then
      (case make_sys_node FINSH_NODE_SYS_DEC postfix [] p of (n, p) \<Rightarrow> parse (Postfix_loop n) p)
    else if k = finsh_token_type_left_paren then do {
      (k, p) \<leftarrow> next_token p;
      (params, p) \<leftarrow>
        (if k \<noteq> finsh_token_type_right_paren then do {
           (params, p) \<leftarrow> parse Param_list (replay p);
           p \<leftarrow> match_token finsh_token_type_right_paren p;
           Some (params, p)
         }
         else Some ([], p));
      (case make_sys_node FINSH_NODE_SYS_FUNC postfix params p of (n, p) \<Rightarrow> parse (Postfix_loop n) p)
    }
    else Some (postfix, replay p)
  }"
  by (subst parse.simps) simp

lemma parse_primary: "parse Primary_expr p = do {
    (k, p) \<leftarrow> next_token p;
    if k = finsh_token_type_left_paren then do {
      (expr, p) \<leftarrow> parse Assign_expr p;
      p \<leftarrow> match_token finsh_token_type_right_paren p;
      Some (expr, p)
    }
    else proc_literal k p
  }"
  by (subst parse.simps) simp

lemma parse_params: "parse Param_list p = do {
    (assign, p) \<leftarrow> parse Assign_expr p;
    if assign = [] then Some ([], p) else parse (Param_loop assign) p
  }"
  by (subst parse.simps) simp

lemma parse_param_loop: "parse (Param_loop params) p = do {
    (k, p) \<leftarrow> next_token p;
    if k = finsh_token_type_comma then do {
      (assign, p) \<leftarrow> parse Assign_expr p;
      parse (Param_loop (params @ assign))
        (if assign = [] then finsh_error_set FINSH_ERROR_EXPECT_OPERATOR p else p)
    }
    else Some (params, replay p)
  }"
  by (subst parse.simps) simp

subsection \<open>Derivations\<close>

text \<open>A new node of the table.\<close>

abbreviation fresh_node :: "node_kind \<Rightarrow> finsh_node list \<Rightarrow> finsh_node" where
  "fresh_node t cs \<equiv> Node t FINSH_DATA_TYPE_VOID False 0 No_id cs"

text \<open>The tree of a literal or of a name that is known.\<close>

fun leaf_node :: "finsh_symbols \<Rightarrow> lexeme \<Rightarrow> finsh_node option" where
  "leaf_node y (Name s) = fst (finsh_node_new_id (take FINSH_NAME_MAX s) y 0 FINSH_ERROR_OK)"
| "leaf_node y (Int_literal v) = fst (finsh_node_new_int v 0 FINSH_ERROR_OK)"
| "leaf_node y (Long_literal v) = fst (finsh_node_new_long v 0 FINSH_ERROR_OK)"
| "leaf_node y (Char_literal c) = fst (finsh_node_new_char c 0 FINSH_ERROR_OK)"
| "leaf_node y (Op k) = (if k = finsh_token_type_value_null then fst (finsh_node_new_ptr 0 0 FINSH_ERROR_OK) else None)"

text \<open>A base type, perhaps behind \<open>unsigned\<close>, and perhaps a star.\<close>

inductive type_name :: "finsh_token_type list \<Rightarrow> finsh_type \<Rightarrow> bool" where
  base: "is_base_type k \<Longrightarrow> type_name [k] (base_type k)"
| unsigned: "is_base_type k \<Longrightarrow> k \<noteq> finsh_token_type_void \<Longrightarrow> type_name [finsh_token_type_unsigned, k] (unsigned_type k)"
| pointer: "is_base_type k \<Longrightarrow> type_name [k, finsh_token_type_mul] (pointer_type (base_type k))"
| unsigned_pointer: "is_base_type k \<Longrightarrow> k \<noteq> finsh_token_type_void \<Longrightarrow>
    type_name [finsh_token_type_unsigned, k, finsh_token_type_mul] (pointer_type (unsigned_type k))"

text \<open>
  \<open>derives y ph Ls ns k\<close>: the lexemes \<open>Ls\<close> are the phrase \<open>ph\<close> with the trees \<open>ns\<close>, which take \<open>k\<close> entries
  of the table of nodes.
\<close>

inductive derives :: "finsh_symbols \<Rightarrow> phrase \<Rightarrow> lexeme list \<Rightarrow> finsh_node list \<Rightarrow> nat \<Rightarrow> bool" for y where
  leaf: "leaf_node y L = Some n \<Longrightarrow> derives y Primary_expr [L] [n] 1"
| primary: "derives y Primary_expr Ls ns k \<Longrightarrow> derives y Postfix_expr Ls ns k"
| inc: "derives y Postfix_expr Ls [n] k \<Longrightarrow>
    derives y Postfix_expr (Ls @ [Op finsh_token_type_inc]) [fresh_node FINSH_NODE_SYS_INC [n]] (k + 1)"
| dec: "derives y Postfix_expr Ls [n] k \<Longrightarrow>
    derives y Postfix_expr (Ls @ [Op finsh_token_type_dec]) [fresh_node FINSH_NODE_SYS_DEC [n]] (k + 1)"
| call: "derives y Postfix_expr Ls [n] k \<Longrightarrow>
    derives y Postfix_expr (Ls @ [Op finsh_token_type_left_paren, Op finsh_token_type_right_paren])
      [fresh_node FINSH_NODE_SYS_FUNC [n]] (k + 1)"
| call_with: "derives y Postfix_expr Ls [n] k \<Longrightarrow> derives y Param_list Ps ns j \<Longrightarrow>
    derives y Postfix_expr (Ls @ Op finsh_token_type_left_paren # Ps @ [Op finsh_token_type_right_paren])
      [fresh_node FINSH_NODE_SYS_FUNC (n # ns)] (k + j + 1)"
| postfix: "derives y Postfix_expr Ls ns k \<Longrightarrow> derives y Unary_expr Ls ns k"
| plus: "derives y Cast_expr Ls ns k \<Longrightarrow> derives y Unary_expr (Op finsh_token_type_add # Ls) ns k"
| minus: "derives y Cast_expr Ls [n] k \<Longrightarrow>
    derives y Unary_expr (Op finsh_token_type_sub # Ls)
      [fresh_node (FINSH_NODE_SYS Sub) [fresh_node FINSH_NODE_VALUE_LONG [], n]] (k + 2)"
| prefix: "unary_kind t = Some ty \<Longrightarrow> derives y Cast_expr Ls [n] k \<Longrightarrow>
    derives y Unary_expr (Op t # Ls) [fresh_node ty [n]] (k + 1)"
| unary: "derives y Unary_expr Ls ns k \<Longrightarrow> derives y Cast_expr Ls ns k"
| cast: "type_name Ts ty \<Longrightarrow> derives y Cast_expr Ls [n] k \<Longrightarrow>
    derives y Cast_expr (Op finsh_token_type_left_paren # map Op Ts @ Op finsh_token_type_right_paren # Ls)
      [set_data_type (type_number ty) n] k"
| operand: "derives y (operand_of l) Ls [n] k \<Longrightarrow> derives y (Binary l) Ls [n] k"
| binary: "derives y (Binary l) Ls [m] k \<Longrightarrow> binary_op l t = Some f \<Longrightarrow> derives y (operand_of l) Rs [n] j \<Longrightarrow>
    derives y (Binary l) (Ls @ Op t # Rs) [fresh_node (FINSH_NODE_SYS f) [m, n]] (k + j + 1)"
| inclusive_or: "derives y (Binary Inclusive_or) Ls ns k \<Longrightarrow> derives y Assign_expr Ls ns k"
| assign: "derives y (Binary Inclusive_or) Ls [m] k \<Longrightarrow> derives y Assign_expr Rs [n] j \<Longrightarrow>
    derives y Assign_expr (Ls @ Op finsh_token_type_assign # Rs) [fresh_node FINSH_NODE_SYS_ASSIGN [m, n]] (k + j + 1)"
| param: "derives y Assign_expr Ls [n] k \<Longrightarrow> derives y Param_list Ls [n] k"
| params: "derives y Param_list Ls ns k \<Longrightarrow> derives y Assign_expr Rs [n] j \<Longrightarrow>
    derives y Param_list (Ls @ Op finsh_token_type_comma # Rs) (ns @ [n]) (k + j)"

end
