(* ===== verification/Finsh_Descent.thy ===== *)
theory Finsh_Descent
  imports Finsh_Grammar
begin

text \<open>
  The parser of the finsh shell finds every derivation of \<open>Finsh_Grammar\<close>: what each phrase leaves behind, for the
  phrases with a loop from any number of rounds on, by induction on the derivation.
\<close>

subsection \<open>The token behind a phrase\<close>

definition postfix_stops :: "finsh_token_type \<Rightarrow> bool" where
  "postfix_stops t \<longleftrightarrow> t \<notin> {finsh_token_type_inc, finsh_token_type_dec, finsh_token_type_left_paren}"

text \<open>The levels that a level contains.\<close>

fun tighter :: "binary_level \<Rightarrow> binary_level list" where
  "tighter Multiplicative = [Multiplicative]"
| "tighter Additive = [Additive, Multiplicative]"
| "tighter Shift = [Shift, Additive, Multiplicative]"
| "tighter And_level = [And_level, Shift, Additive, Multiplicative]"
| "tighter Exclusive_or = [Exclusive_or, And_level, Shift, Additive, Multiplicative]"
| "tighter Inclusive_or = [Inclusive_or, Exclusive_or, And_level, Shift, Additive, Multiplicative]"

definition level_stops :: "binary_level \<Rightarrow> finsh_token_type \<Rightarrow> bool" where
  "level_stops l t \<longleftrightarrow> postfix_stops t \<and> (\<forall>l' \<in> set (tighter l). binary_op l' t = None)"

fun stops :: "phrase \<Rightarrow> finsh_token_type \<Rightarrow> bool" where
  "stops (Binary l) t \<longleftrightarrow> level_stops l t"
| "stops Assign_expr t \<longleftrightarrow> t \<noteq> finsh_token_type_assign \<and> level_stops Inclusive_or t"
| "stops Param_list t \<longleftrightarrow> t \<notin> {finsh_token_type_comma, finsh_token_type_assign} \<and> level_stops Inclusive_or t"
| "stops Primary_expr t \<longleftrightarrow> True"
| "stops _ t \<longleftrightarrow> postfix_stops t"

lemmas stops_defs = level_stops_def postfix_stops_def

lemma stops_operand: "stops (Binary l) t \<Longrightarrow> stops (operand_of l) t \<and> binary_op l t = None"
  by (cases l) (auto simp: level_stops_def)

lemma op_stops_operand: "binary_op l t = Some f \<Longrightarrow> stops (operand_of l) t"
  by (cases l) (auto simp: stops_defs split: if_splits)

lemma assign_stops: "stops (Binary Inclusive_or) finsh_token_type_assign"
  by (simp add: stops_defs)

lemma comma_stops: "stops Assign_expr finsh_token_type_comma"
  by (simp add: stops_defs)

lemma right_paren_stops: "stops Param_list finsh_token_type_right_paren"
  by (simp add: stops_defs)

lemma semicolon_stops: "stops Assign_expr finsh_token_type_semicolon"
  by (simp add: stops_defs)

subsection \<open>The first lexeme of a phrase\<close>

definition starts_leaf :: "finsh_symbols \<Rightarrow> lexeme list \<Rightarrow> bool" where
  "starts_leaf y Ls \<longleftrightarrow> (case Ls of [] \<Rightarrow> False | L # _ \<Rightarrow> leaf_node y L \<noteq> None)"

lemma starts_leaf_append: "starts_leaf y Ls \<Longrightarrow> starts_leaf y (Ls @ Rs)"
  by (cases Ls) (simp_all add: starts_leaf_def)

lemma postfix_starts: "derives y ph Ls ns k \<Longrightarrow> ph \<in> {Primary_expr, Postfix_expr} \<Longrightarrow> starts_leaf y Ls"
  by (induction rule: derives.induct) (auto simp: starts_leaf_append, simp add: starts_leaf_def)

lemma leaf_type_cases:
  "leaf_node y L \<noteq> None \<Longrightarrow> lexeme_type L \<in> {finsh_token_type_identifier, finsh_token_type_value_int,
     finsh_token_type_value_long, finsh_token_type_value_char, finsh_token_type_value_null}"
  by (cases L) (auto split: if_splits)

definition starts_unary :: "finsh_symbols \<Rightarrow> lexeme list \<Rightarrow> bool" where
  "starts_unary y Ls \<longleftrightarrow> starts_leaf y Ls \<or>
     (\<exists>t Ls'. Ls = Op t # Ls' \<and> (t \<in> {finsh_token_type_add, finsh_token_type_sub} \<or> unary_kind t \<noteq> None))"

lemma unary_starts: "derives y Unary_expr Ls ns k \<Longrightarrow> starts_unary y Ls"
  by (cases rule: derives.cases) (auto simp: starts_unary_def dest: postfix_starts)

subsection \<open>What a phrase leaves behind\<close>

text \<open>The parser with the tokens \<open>Rs\<close> to come and \<open>k\<close> more nodes than in \<open>p\<close>.\<close>

definition behind :: "finsh_parser \<Rightarrow> nat \<Rightarrow> lexeme list \<Rightarrow> finsh_parser \<Rightarrow> bool" where
  "behind p k Rs p' \<longleftrightarrow> (\<exists>t. p' = p\<lparr>ps_nodes := ps_nodes p + k, ps_token := t\<rparr> \<and> reads t Rs)"

lemma behind_trans: "behind p k Ls p1 \<Longrightarrow> behind p1 j Rs p2 \<Longrightarrow> behind p (k + j) Rs p2"
  by (auto simp: behind_def add.assoc)

lemma behind_reads: "behind p k Ls p' \<Longrightarrow> reads (ps_token p') Ls"
  by (auto simp: behind_def)

lemma behind_keeps: "behind p k Ls p' \<Longrightarrow> ps_symbols p' = ps_symbols p \<and> ps_nodes p' = ps_nodes p + k"
  by (auto simp: behind_def)

lemma behind_next:
  assumes "behind p k (L # Ls) p'"
  obtains p1 where "next_token p' = Some (lexeme_type L, p1)" "behind p k Ls p1"
    "behind p k (L # Ls) (replay p1)" "holds L (ps_token p1)"
proof -
  obtain t where p': "p' = p\<lparr>ps_nodes := ps_nodes p + k, ps_token := t\<rparr>" "reads t (L # Ls)"
    using assms by (auto simp: behind_def)
  have "reads (ps_token p') (L # Ls)" using p' by simp
  then obtain u where u: "next_token p' = Some (lexeme_type L, p'\<lparr>ps_token := u\<rparr>)" "holds L u" "reads u Ls"
    by (rule next_token_reads)
  show thesis
    by (rule that [OF u(1)]) (use p'(1) u(2,3) holds_replay [OF u(2,3)] in \<open>auto simp: behind_def replay_def\<close>)
qed

lemma behind_match:
  assumes "behind p k (Op t # Ls) p'"
  obtains p1 where "match_token t p' = Some p1" "behind p k Ls p1"
  using assms by (rule behind_next) (auto simp: match_token_def check_token_def)

lemma make_node:
  assumes "behind p k Ls p'" "ps_nodes p + k < FINSH_NODE_MAX"
  shows "\<exists>p1. make_sys_node ty [m] ns p' = ([fresh_node ty (m # ns)], p1) \<and> behind p (k + 1) Ls p1"
proof -
  have "ps_nodes p' = ps_nodes p + k" using behind_keeps [OF assms(1)] by simp
  then have "make_sys_node ty [m] ns p' = ([fresh_node ty (m # ns)], p'\<lparr>ps_nodes := ps_nodes p + k + 1\<rparr>)"
    using assms(2) by (simp add: make_sys_node_def finsh_node_allocate_def)
  moreover obtain t where "p' = p\<lparr>ps_nodes := ps_nodes p + k, ps_token := t\<rparr>" "reads t Ls"
    using assms(1) by (auto simp: behind_def)
  then have "behind p (k + 1) Ls (p'\<lparr>ps_nodes := ps_nodes p + k + 1\<rparr>)"
    unfolding behind_def by (intro exI [of _ t]) simp
  ultimately show ?thesis by blast
qed

text \<open>The phrase is parsed; the parser stops in front of a lexeme that does not go on with it.\<close>

definition parsed :: "finsh_symbols \<Rightarrow> phrase \<Rightarrow> lexeme list \<Rightarrow> finsh_node list \<Rightarrow> nat \<Rightarrow> bool" where
  "parsed y ph Ls ns k \<longleftrightarrow> (\<forall>q i p L Rs. behind q i (Ls @ L # Rs) p \<longrightarrow> ps_symbols q = y \<longrightarrow>
     ps_nodes q + i + k \<le> FINSH_NODE_MAX \<longrightarrow> stops ph (lexeme_type L) \<longrightarrow>
     (\<exists>p'. parse ph p = Some (ns, p') \<and> behind q (i + k) (L # Rs) p'))"

lemma parsedE:
  assumes "parsed y ph Ls ns k" "behind q i (Ls @ L # Rs) p" "ps_symbols q = y"
    "ps_nodes q + i + k \<le> FINSH_NODE_MAX" "stops ph (lexeme_type L)"
  obtains p' where "parse ph p = Some (ns, p')" "behind q (i + k) (L # Rs) p'"
  using assms unfolding parsed_def by blast

text \<open>The phrases with a loop: where their operand may end, and the loop.\<close>

fun looping :: "phrase \<Rightarrow> (phrase \<times> (finsh_node list \<Rightarrow> phrase)) option" where
  "looping (Binary l) = Some (operand_of l, Binary_loop l)"
| "looping Postfix_expr = Some (Primary_expr, Postfix_loop)"
| "looping Param_list = Some (Assign_expr, Param_loop)"
| "looping _ = None"

text \<open>The parser comes to the loop of the phrase with the trees so far.\<close>

definition reached :: "finsh_symbols \<Rightarrow> phrase \<Rightarrow> lexeme list \<Rightarrow> finsh_node list \<Rightarrow> nat \<Rightarrow> bool" where
  "reached y ph Ls ns k \<longleftrightarrow> (\<forall>op loop q i p L Rs. looping ph = Some (op, loop) \<longrightarrow> behind q i (Ls @ L # Rs) p \<longrightarrow>
     ps_symbols q = y \<longrightarrow> ps_nodes q + i + k \<le> FINSH_NODE_MAX \<longrightarrow> stops op (lexeme_type L) \<longrightarrow>
     (\<exists>p'. parse ph p = parse (loop ns) p' \<and> behind q (i + k) (L # Rs) p'))"

lemma reachedE:
  assumes "reached y ph Ls ns k" "looping ph = Some (op, loop)" "behind q i (Ls @ L # Rs) p" "ps_symbols q = y"
    "ps_nodes q + i + k \<le> FINSH_NODE_MAX" "stops op (lexeme_type L)"
  obtains p' where "parse ph p = parse (loop ns) p'" "behind q (i + k) (L # Rs) p'"
  using assms unfolding reached_def by blast

text \<open>A loop ends where the phrase does.\<close>

lemma loop_ends:
  assumes "looping ph = Some (op, loop)" "stops ph (lexeme_type L)" "behind q i (L # Rs) p"
  shows "\<exists>p'. parse (loop ns) p = Some (ns, p') \<and> behind q i (L # Rs) p'"
proof -
  obtain p1 where p1: "next_token p = Some (lexeme_type L, p1)" "behind q i (L # Rs) (replay p1)"
    using assms(3) by (rule behind_next)
  show ?thesis
    using assms(1,2) p1 stops_operand
    by (cases ph) (auto simp: parse_binary_loop parse_postfix_loop parse_param_loop postfix_stops_def)
qed

lemma reached_parsed:
  assumes "reached y ph Ls ns k" "looping ph = Some (op, loop)" "\<And>t. stops ph t \<Longrightarrow> stops op t"
  shows "parsed y ph Ls ns k"
  unfolding parsed_def
proof (intro allI impI)
  fix q i p L Rs
  assume a: "behind q i (Ls @ L # Rs) p" "ps_symbols q = y" "ps_nodes q + i + k \<le> FINSH_NODE_MAX"
    "stops ph (lexeme_type L)"
  obtain p1 where p1: "parse ph p = parse (loop ns) p1" "behind q (i + k) (L # Rs) p1"
    using reachedE [OF assms(1,2) a(1-3) assms(3) [OF a(4)]] .
  show "\<exists>p'. parse ph p = Some (ns, p') \<and> behind q (i + k) (L # Rs) p'"
    unfolding p1(1) by (rule loop_ends [OF assms(2) a(4) p1(2)])
qed


lemma looped:
  assumes "reached y ph Ls ns k" "looping ph \<noteq> None"
  shows "parsed y ph Ls ns k \<and> reached y ph Ls ns k"
proof -
  obtain op loop where l: "looping ph = Some (op, loop)" using assms(2) by auto
  have "stops op t" if "stops ph t" for t
    using l that stops_operand by (cases ph) fastforce+
  then show ?thesis using reached_parsed [OF assms(1) l] assms(1) by blast
qed

lemma unlooped: "parsed y ph Ls ns k \<Longrightarrow> looping ph = None \<Longrightarrow> parsed y ph Ls ns k \<and> reached y ph Ls ns k"
  by (simp add: reached_def)

subsection \<open>Leaves\<close>

lemma next_replay: "holds L (ps_token p) \<Longrightarrow> next_token (replay p) = Some (lexeme_type L, p)"
  by (simp add: next_token_def replay_def finsh_token_token_def finsh_token_replay_def holds_def)

lemma new_value_some:
  "used < FINSH_NODE_MAX \<Longrightarrow> new_value ty v used err = (fst (new_value ty v 0 FINSH_ERROR_OK), used + 1, err)"
  by (simp add: new_value_def finsh_node_allocate_def FINSH_NODE_MAX_def)

lemma new_id_some:
  assumes "fst (finsh_node_new_id name y 0 FINSH_ERROR_OK) = Some n" "used < FINSH_NODE_MAX"
  shows "finsh_node_new_id name y used err = (Some n, used + 1, err)"
  using assms by (auto simp: finsh_node_new_id_def Let_def finsh_node_allocate_def split: if_splits)

lemma behind_node:
  assumes "behind q i Ls p" "f (ps_nodes p) (ps_error p) = (Some n, ps_nodes p + 1, ps_error p)"
  shows "\<exists>p'. with_node f p = ([n], p') \<and> behind q (i + 1) Ls p'"
proof -
  obtain t where t: "p = q\<lparr>ps_nodes := ps_nodes q + i, ps_token := t\<rparr>" "reads t Ls"
    using assms(1) by (auto simp: behind_def)
  have "with_node f p = ([n], p\<lparr>ps_nodes := ps_nodes p + 1, ps_error := ps_error p\<rparr>)"
    using assms(2) by (simp add: with_node_def)
  moreover have "behind q (i + 1) Ls (p\<lparr>ps_nodes := ps_nodes p + 1, ps_error := ps_error p\<rparr>)"
    unfolding behind_def by (intro exI [of _ t]) (use t in simp)
  ultimately show ?thesis by blast
qed

lemma parsed_leaf:
  assumes "leaf_node y L = Some n"
  shows "parsed y Primary_expr [L] [n] 1"
  unfolding parsed_def
proof (intro allI impI)
  fix q i p L' Rs
  assume a: "behind q i ([L] @ L' # Rs) p" "ps_symbols q = y" "ps_nodes q + i + 1 \<le> FINSH_NODE_MAX"
  have "behind q i (L # L' # Rs) p" using a(1) by simp
  then obtain p1 where p1: "next_token p = Some (lexeme_type L, p1)" "behind q i (L' # Rs) p1" "holds L (ps_token p1)"
    by (rule behind_next)
  have room: "ps_nodes p1 < FINSH_NODE_MAX" "ps_symbols p1 = y" using behind_keeps [OF p1(2)] a(2,3) by simp_all
  have new: "\<exists>p'. with_node f p1 = ([n], p') \<and> behind q (i + 1) (L' # Rs) p'"
    if "f (ps_nodes p1) (ps_error p1) = (Some n, ps_nodes p1 + 1, ps_error p1)" for f
    using behind_node [OF p1(2), of f n] that by simp
  have val: "\<exists>p'. with_node (new_value ty v) p1 = ([n], p') \<and> behind q (i + 1) (L' # Rs) p'"
    if "fst (new_value ty v 0 FINSH_ERROR_OK) = Some n" for ty v
    by (rule new) (use new_value_some [OF room(1)] that in simp)
  have "\<exists>p'. proc_literal (lexeme_type L) p1 = Some ([n], p') \<and> behind q (i + 1) (L' # Rs) p'"
  proof (cases L)
    case (Name s)
    have "match_token finsh_token_type_identifier (replay p1) = Some p1"
      using next_replay [OF p1(3)] Name by (simp add: match_token_def check_token_def)
    moreover have "c_str (tk_string (ps_token p1)) = Some s" using p1(3) Name by (simp add: holds_def)
    ultimately have "proc_identifier (replay p1) = Some (take FINSH_NAME_MAX s, p1)"
      by (simp add: proc_identifier_def)
    then show ?thesis
      using new [of "finsh_node_new_id (take FINSH_NAME_MAX s) y"] new_id_some [OF _ room(1)] assms Name room(2)
      by (simp add: proc_literal_def)
  qed (use p1(3) val assms in \<open>auto simp: proc_literal_def holds_def finsh_node_new_char_def
        finsh_node_new_int_def finsh_node_new_long_def finsh_node_new_ptr_def Let_def split: if_splits\<close>)
  moreover have "lexeme_type L \<noteq> finsh_token_type_left_paren" using leaf_type_cases [of y L] assms by auto
  ultimately show "\<exists>p'. parse Primary_expr p = Some ([n], p') \<and> behind q (i + 1) (L' # Rs) p'"
    using p1(1) by (simp add: parse_primary)
qed


subsection \<open>Postfix operators\<close>

lemma reached_primary:
  assumes "parsed y Primary_expr Ls ns k"
  shows "reached y Postfix_expr Ls ns k"
  unfolding reached_def
proof (intro allI impI)
  fix op loop q i p L Rs
  assume a: "looping Postfix_expr = Some (op, loop)" "behind q i (Ls @ L # Rs) p" "ps_symbols q = y"
    "ps_nodes q + i + k \<le> FINSH_NODE_MAX"
  obtain p' where "parse Primary_expr p = Some (ns, p')" "behind q (i + k) (L # Rs) p'"
    using parsedE [OF assms a(2-4)] by auto
  then show "\<exists>p'. parse Postfix_expr p = parse (loop ns) p' \<and> behind q (i + k) (L # Rs) p'"
    using a(1) by (auto simp: parse_postfix)
qed

text \<open>One more round of the loop of \<open>proc_postfix_expr\<close>.\<close>

lemma reached_postfix:
  assumes "reached y Postfix_expr Ls [n] k"
    and "\<And>q i p L Rs. behind q i (Op t # Os @ L # Rs) p \<Longrightarrow> ps_symbols q = y \<Longrightarrow>
      ps_nodes q + i + j + 1 \<le> FINSH_NODE_MAX \<Longrightarrow>
      \<exists>p'. parse (Postfix_loop [n]) p = parse (Postfix_loop ns) p' \<and> behind q (i + j + 1) (L # Rs) p'"
  shows "reached y Postfix_expr (Ls @ Op t # Os) ns (k + j + 1)"
  unfolding reached_def
proof (intro allI impI)
  fix op loop q i p L Rs
  assume a: "looping Postfix_expr = Some (op, loop)" "behind q i ((Ls @ Op t # Os) @ L # Rs) p" "ps_symbols q = y"
    "ps_nodes q + i + (k + j + 1) \<le> FINSH_NODE_MAX"
  have b: "behind q i (Ls @ Op t # Os @ L # Rs) p" using a(2) by simp
  obtain p1 where p1: "parse Postfix_expr p = parse (loop [n]) p1" "behind q (i + k) (Op t # Os @ L # Rs) p1"
    using reachedE [OF assms(1) a(1) b a(3)] a(1,4) by auto
  then show "\<exists>p'. parse Postfix_expr p = parse (loop ns) p' \<and> behind q (i + (k + j + 1)) (L # Rs) p'"
    using assms(2) [OF p1(2) a(3)] a(1,4) by (simp add: ac_simps)
qed

lemma reached_step:
  assumes "reached y Postfix_expr Ls [n] k"
    and "(t, ty) \<in> {(finsh_token_type_inc, FINSH_NODE_SYS_INC), (finsh_token_type_dec, FINSH_NODE_SYS_DEC)}"
  shows "reached y Postfix_expr (Ls @ [Op t]) [fresh_node ty [n]] (k + 1)"
proof -
  have *: "\<exists>p'. parse (Postfix_loop [n]) p = parse (Postfix_loop [fresh_node ty [n]]) p' \<and> behind q (i + 0 + 1) (L # Rs) p'"
    if b: "behind q i (Op t # [] @ L # Rs) p" and room: "ps_nodes q + i + 0 + 1 \<le> FINSH_NODE_MAX" for q i p L Rs
  proof -
    obtain p1 where p1: "next_token p = Some (t, p1)" "behind q i (L # Rs) p1"
      using behind_next [OF b] by auto
    obtain p2 where p2: "make_sys_node ty [n] [] p1 = ([fresh_node ty [n]], p2)" "behind q (i + 1) (L # Rs) p2"
      using make_node [OF p1(2), of ty n "[]"] room by auto
    show ?thesis using assms(2) p1(1) p2 by (auto simp: parse_postfix_loop)
  qed
  show ?thesis using reached_postfix [OF assms(1), of t "[]" 0 "[fresh_node ty [n]]"] * by simp
qed

lemma reached_call:
  assumes "reached y Postfix_expr Ls [n] k"
  shows "reached y Postfix_expr (Ls @ [Op finsh_token_type_left_paren, Op finsh_token_type_right_paren])
    [fresh_node FINSH_NODE_SYS_FUNC [n]] (k + 1)"
proof -
  let ?r = "Op finsh_token_type_right_paren" and ?f = "fresh_node FINSH_NODE_SYS_FUNC [n]"
  have *: "\<exists>p'. parse (Postfix_loop [n]) p = parse (Postfix_loop [?f]) p' \<and> behind q (i + 0 + 1) (L # Rs) p'"
    if b: "behind q i (Op finsh_token_type_left_paren # [?r] @ L # Rs) p"
      and room: "ps_nodes q + i + 0 + 1 \<le> FINSH_NODE_MAX" for q i p L Rs
  proof -
    obtain p1 where p1: "next_token p = Some (finsh_token_type_left_paren, p1)" "behind q i (?r # L # Rs) p1"
      using behind_next [OF b] by auto
    obtain p2 where p2: "next_token p1 = Some (finsh_token_type_right_paren, p2)" "behind q i (L # Rs) p2"
      using behind_next [OF p1(2)] by auto
    obtain p3 where p3: "make_sys_node FINSH_NODE_SYS_FUNC [n] [] p2 = ([?f], p3)" "behind q (i + 1) (L # Rs) p3"
      using make_node [OF p2(2), of FINSH_NODE_SYS_FUNC n "[]"] room by auto
    show ?thesis using p1(1) p2(1) p3 by (auto simp: parse_postfix_loop)
  qed
  show ?thesis using reached_postfix [OF assms, of finsh_token_type_left_paren "[?r]" 0 "[?f]"] * by simp
qed

lemma params_start: "derives y ph Ls ns k \<Longrightarrow> \<exists>L Ls'. Ls = L # Ls' \<and> lexeme_type L \<noteq> finsh_token_type_right_paren"
proof (induction rule: derives.induct)
  case (leaf L n)
  then show ?case using leaf_type_cases [of y L] by auto
qed auto

lemma reached_call_with:
  assumes "reached y Postfix_expr Ls [n] k" "parsed y Param_list Ps ns j" "derives y Param_list Ps ns j"
  shows "reached y Postfix_expr (Ls @ Op finsh_token_type_left_paren # Ps @ [Op finsh_token_type_right_paren])
    [fresh_node FINSH_NODE_SYS_FUNC (n # ns)] (k + j + 1)"
proof (rule reached_postfix [OF assms(1)])
  let ?r = "Op finsh_token_type_right_paren" and ?f = "fresh_node FINSH_NODE_SYS_FUNC (n # ns)"
  fix q i p L Rs
  assume b: "behind q i (Op finsh_token_type_left_paren # (Ps @ [?r]) @ L # Rs) p"
    and y: "ps_symbols q = y" and room: "ps_nodes q + i + j + 1 \<le> FINSH_NODE_MAX"
  obtain p1 where p1: "next_token p = Some (finsh_token_type_left_paren, p1)" "behind q i (Ps @ ?r # L # Rs) p1"
    using behind_next [OF b] by auto
  obtain P Ps' where P: "Ps = P # Ps'" "lexeme_type P \<noteq> finsh_token_type_right_paren"
    using params_start [OF assms(3)] by blast
  obtain p2 where p2: "next_token p1 = Some (lexeme_type P, p2)" "behind q i (Ps @ ?r # L # Rs) (replay p2)"
    using behind_next p1(2) P(1) by (metis append_Cons)
  obtain p3 where p3: "parse Param_list (replay p2) = Some (ns, p3)" "behind q (i + j) (?r # L # Rs) p3"
    using parsedE [OF assms(2) p2(2) y] room right_paren_stops by auto
  obtain p4 where p4: "match_token finsh_token_type_right_paren p3 = Some p4" "behind q (i + j) (L # Rs) p4"
    using behind_match [OF p3(2)] .
  obtain p5 where p5: "make_sys_node FINSH_NODE_SYS_FUNC [n] ns p4 = ([?f], p5)" "behind q (i + j + 1) (L # Rs) p5"
    using make_node [OF p4(2), of FINSH_NODE_SYS_FUNC n ns] room by auto
  show "\<exists>p'. parse (Postfix_loop [n]) p = parse (Postfix_loop [?f]) p' \<and> behind q (i + j + 1) (L # Rs) p'"
    using p1(1) p2(1) P(2) p3(1) p4(1) p5 by (auto simp: parse_postfix_loop)
qed


subsection \<open>Prefix operators and casts\<close>

lemma parsed_postfix:
  assumes "parsed y Postfix_expr Ls ns k" "starts_leaf y Ls"
  shows "parsed y Unary_expr Ls ns k"
  unfolding parsed_def
proof (intro allI impI)
  fix q i p L Rs
  assume a: "behind q i (Ls @ L # Rs) p" "ps_symbols q = y" "ps_nodes q + i + k \<le> FINSH_NODE_MAX"
    "stops Unary_expr (lexeme_type L)"
  obtain F Fs where F: "Ls = F # Fs" "leaf_node y F \<noteq> None" using assms(2) by (cases Ls) (auto simp: starts_leaf_def)
  obtain p1 where p1: "next_token p = Some (lexeme_type F, p1)" "behind q i (Ls @ L # Rs) (replay p1)"
    using behind_next a(1) F(1) by (metis append_Cons)
  obtain p2 where p2: "parse Postfix_expr (replay p1) = Some (ns, p2)" "behind q (i + k) (L # Rs) p2"
    using parsedE [OF assms(1) p1(2) a(2,3)] a(4) by auto
  show "\<exists>p'. parse Unary_expr p = Some (ns, p') \<and> behind q (i + k) (L # Rs) p'"
    using leaf_type_cases [OF F(2)] p1(1) p2 by (auto simp: parse_unary)
qed

text \<open>The operand of a prefix operator.\<close>

lemma prefix_operand:
  assumes "parsed y Cast_expr Ls ns k" "behind q i ((Op t # Ls) @ L # Rs) p" "ps_symbols q = y"
    "ps_nodes q + i + k \<le> FINSH_NODE_MAX" "stops Unary_expr (lexeme_type L)"
  obtains p1 p2 where "next_token p = Some (t, p1)" "parse Cast_expr p1 = Some (ns, p2)" "behind q (i + k) (L # Rs) p2"
proof -
  obtain p1 where p1: "next_token p = Some (t, p1)" "behind q i (Ls @ L # Rs) p1"
    using assms(2) by (auto elim: behind_next)
  obtain p2 where "parse Cast_expr p1 = Some (ns, p2)" "behind q (i + k) (L # Rs) p2"
    using parsedE [OF assms(1) p1(2) assms(3,4)] assms(5) by auto
  then show thesis using that p1(1) by blast
qed

lemma parsed_plus:
  assumes "parsed y Cast_expr Ls ns k"
  shows "parsed y Unary_expr (Op finsh_token_type_add # Ls) ns k"
  unfolding parsed_def
proof (intro allI impI)
  fix q i p L Rs
  assume a: "behind q i ((Op finsh_token_type_add # Ls) @ L # Rs) p" "ps_symbols q = y"
    "ps_nodes q + i + k \<le> FINSH_NODE_MAX" "stops Unary_expr (lexeme_type L)"
  obtain p1 p2 where "next_token p = Some (finsh_token_type_add, p1)" "parse Cast_expr p1 = Some (ns, p2)"
    "behind q (i + k) (L # Rs) p2"
    using prefix_operand [OF assms a] .
  then show "\<exists>p'. parse Unary_expr p = Some (ns, p') \<and> behind q (i + k) (L # Rs) p'"
    by (simp add: parse_unary)
qed

lemma parsed_minus:
  assumes "parsed y Cast_expr Ls [n] k"
  shows "parsed y Unary_expr (Op finsh_token_type_sub # Ls)
    [fresh_node (FINSH_NODE_SYS Sub) [fresh_node FINSH_NODE_VALUE_LONG [], n]] (k + 2)"
  unfolding parsed_def
proof (intro allI impI)
  let ?z = "fresh_node FINSH_NODE_VALUE_LONG []"
  let ?n = "fresh_node (FINSH_NODE_SYS Sub) [?z, n]"
  fix q i p L Rs
  assume a: "behind q i ((Op finsh_token_type_sub # Ls) @ L # Rs) p" "ps_symbols q = y"
    "ps_nodes q + i + (k + 2) \<le> FINSH_NODE_MAX" "stops Unary_expr (lexeme_type L)"
  have room: "ps_nodes q + i + k \<le> FINSH_NODE_MAX" using a(3) by simp
  obtain p1 p2 where p1: "next_token p = Some (finsh_token_type_sub, p1)" "parse Cast_expr p1 = Some ([n], p2)"
    and p2: "behind q (i + k) (L # Rs) p2"
    using prefix_operand [OF assms a(1,2) room a(4)] .
  have "ps_nodes p2 < FINSH_NODE_MAX" using behind_keeps [OF p2] a(3) by simp
  then have "finsh_node_new_long 0 (ps_nodes p2) (ps_error p2) = (Some ?z, ps_nodes p2 + 1, ps_error p2)"
    by (simp add: finsh_node_new_long_def new_value_def finsh_node_allocate_def)
  then obtain p3 where p3: "with_node (finsh_node_new_long 0) p2 = ([?z], p3)" "behind q (i + k + 1) (L # Rs) p3"
    using behind_node [OF p2, of "finsh_node_new_long 0" ?z] by blast
  obtain p4 where "make_sys_node (FINSH_NODE_SYS Sub) [?z] [n] p3 = ([?n], p4)" "behind q (i + k + 1 + 1) (L # Rs) p4"
    using make_node [OF p3(2), of "FINSH_NODE_SYS Sub" ?z "[n]"] a(3) by auto
  then show "\<exists>p'. parse Unary_expr p = Some ([?n], p') \<and> behind q (i + (k + 2)) (L # Rs) p'"
    using p1 p3(1) by (simp add: parse_unary)
qed

lemma unary_kind_not:
  "unary_kind t = Some ty \<Longrightarrow> t \<notin> {finsh_token_type_add, finsh_token_type_sub, finsh_token_type_left_paren}"
  by auto

lemma parsed_prefix:
  assumes "parsed y Cast_expr Ls [n] k" "unary_kind t = Some ty"
  shows "parsed y Unary_expr (Op t # Ls) [fresh_node ty [n]] (k + 1)"
  unfolding parsed_def
proof (intro allI impI)
  fix q i p L Rs
  assume a: "behind q i ((Op t # Ls) @ L # Rs) p" "ps_symbols q = y" "ps_nodes q + i + (k + 1) \<le> FINSH_NODE_MAX"
    "stops Unary_expr (lexeme_type L)"
  have room: "ps_nodes q + i + k \<le> FINSH_NODE_MAX" using a(3) by simp
  obtain p1 p2 where p1: "next_token p = Some (t, p1)" "parse Cast_expr p1 = Some ([n], p2)"
    and p2: "behind q (i + k) (L # Rs) p2"
    using prefix_operand [OF assms(1) a(1,2) room a(4)] .
  obtain p3 where "make_sys_node ty [n] [] p2 = ([fresh_node ty [n]], p3)" "behind q (i + k + 1) (L # Rs) p3"
    using make_node [OF p2, of ty n "[]"] a(3) by auto
  then show "\<exists>p'. parse Unary_expr p = Some ([fresh_node ty [n]], p') \<and> behind q (i + (k + 1)) (L # Rs) p'"
    using p1 assms(2) unary_kind_not [OF assms(2)] by (simp add: parse_unary del: unary_kind.simps)
qed

lemma unary_no_paren:
  assumes "starts_unary y Ls"
  obtains F Fs where "Ls = F # Fs" "lexeme_type F \<noteq> finsh_token_type_left_paren"
proof (cases "starts_leaf y Ls")
  case True
  then show thesis using leaf_type_cases [of y "hd Ls"] that by (cases Ls) (auto simp: starts_leaf_def)
next
  case False
  then obtain t Ls' where "Ls = Op t # Ls'" "t \<in> {finsh_token_type_add, finsh_token_type_sub} \<or> unary_kind t \<noteq> None"
    using assms by (auto simp: starts_unary_def)
  then show thesis using that [of "Op t" Ls'] by (cases "t = finsh_token_type_left_paren") auto
qed

lemma parsed_unary:
  assumes "parsed y Unary_expr Ls ns k" "starts_unary y Ls"
  shows "parsed y Cast_expr Ls ns k"
  unfolding parsed_def
proof (intro allI impI)
  fix q i p L Rs
  assume a: "behind q i (Ls @ L # Rs) p" "ps_symbols q = y" "ps_nodes q + i + k \<le> FINSH_NODE_MAX"
    "stops Cast_expr (lexeme_type L)"
  obtain F Fs where F: "Ls = F # Fs" "lexeme_type F \<noteq> finsh_token_type_left_paren"
    using unary_no_paren [OF assms(2)] .
  obtain p1 where p1: "next_token p = Some (lexeme_type F, p1)" "behind q i (Ls @ L # Rs) (replay p1)"
    using behind_next a(1) F(1) by (metis append_Cons)
  obtain p2 where p2: "parse Unary_expr (replay p1) = Some (ns, p2)" "behind q (i + k) (L # Rs) p2"
    using parsedE [OF assms(1) p1(2) a(2,3)] a(4) by auto
  show "\<exists>p'. parse Cast_expr p = Some (ns, p') \<and> behind q (i + k) (L # Rs) p'"
    using F(2) p1(1) p2 by (simp add: parse_cast)
qed


lemma pointer_star:
  assumes "behind q i (Op finsh_token_type_mul # Rs) p"
  shows "\<exists>p'. proc_pointer ty p = Some (pointer_type ty, p') \<and> behind q i Rs p'"
proof -
  obtain p1 where "next_token p = Some (finsh_token_type_mul, p1)" "behind q i Rs p1"
    using assms by (auto elim: behind_next)
  then show ?thesis by (simp add: proc_pointer_def)
qed

lemma no_pointer:
  assumes "behind q i (Op finsh_token_type_right_paren # Rs) p"
  shows "\<exists>p'. proc_pointer ty p = Some (ty, p') \<and> behind q i (Op finsh_token_type_right_paren # Rs) p'"
proof -
  obtain p1 where "next_token p = Some (finsh_token_type_right_paren, p1)"
    "behind q i (Op finsh_token_type_right_paren # Rs) (replay p1)"
    using assms by (auto elim: behind_next)
  then show ?thesis by (simp add: proc_pointer_def)
qed

lemma base_type_not_unsigned: "is_base_type k \<Longrightarrow> k \<noteq> finsh_token_type_unsigned"
  by (auto simp: is_base_type_def)

lemma proc_type_base:
  assumes "behind q i (Op k # Rs) p" "is_base_type k"
  obtains p1 where "proc_type p = proc_pointer (base_type k) p1" "behind q i Rs p1"
proof -
  obtain p1 where "next_token p = Some (k, p1)" "behind q i Rs p1" using assms(1) by (auto elim: behind_next)
  then show thesis using that assms(2) by (simp add: proc_type_def)
qed

lemma proc_type_unsigned:
  assumes "behind q i (Op finsh_token_type_unsigned # Op k # Rs) p" "is_base_type k" "k \<noteq> finsh_token_type_void"
  obtains p2 where "proc_type p = proc_pointer (unsigned_type k) p2" "behind q i Rs p2"
proof -
  obtain p1 where p1: "next_token p = Some (finsh_token_type_unsigned, p1)" "behind q i (Op k # Rs) p1"
    using assms(1) by (auto elim: behind_next)
  obtain p2 where p2: "next_token p1 = Some (k, p2)" "behind q i Rs p2"
    using p1(2) by (auto elim: behind_next)
  have "\<not> is_base_type finsh_token_type_unsigned" by (simp add: is_base_type_def)
  then show thesis using that p1(1) p2 assms(2,3) by (simp add: proc_type_def)
qed

lemma proc_type_name:
  assumes "type_name Ts ty" "behind q i (map Op Ts @ Op finsh_token_type_right_paren # Rs) p"
  shows "\<exists>p'. proc_type p = Some (ty, p') \<and> behind q i (Op finsh_token_type_right_paren # Rs) p'"
  using assms
proof (cases rule: type_name.cases)
  case (base k)
  with assms(2) obtain p1 where "proc_type p = proc_pointer (base_type k) p1"
    "behind q i (Op finsh_token_type_right_paren # Rs) p1" by (auto elim: proc_type_base)
  then show ?thesis using no_pointer base by simp
next
  case (unsigned k)
  with assms(2) obtain p1 where "proc_type p = proc_pointer (unsigned_type k) p1"
    "behind q i (Op finsh_token_type_right_paren # Rs) p1" by (auto elim: proc_type_unsigned)
  then show ?thesis using no_pointer unsigned by simp
next
  case (pointer k)
  with assms(2) obtain p1 where "proc_type p = proc_pointer (base_type k) p1"
    "behind q i (Op finsh_token_type_mul # Op finsh_token_type_right_paren # Rs) p1" by (auto elim: proc_type_base)
  then show ?thesis using pointer_star pointer by simp
next
  case (unsigned_pointer k)
  with assms(2) obtain p1 where "proc_type p = proc_pointer (unsigned_type k) p1"
    "behind q i (Op finsh_token_type_mul # Op finsh_token_type_right_paren # Rs) p1"
    by (auto elim: proc_type_unsigned)
  then show ?thesis using pointer_star unsigned_pointer by simp
qed

lemma parsed_cast:
  assumes "type_name Ts ty" "parsed y Cast_expr Ls [n] k"
  shows "parsed y Cast_expr (Op finsh_token_type_left_paren # map Op Ts @ Op finsh_token_type_right_paren # Ls)
    [set_data_type (type_number ty) n] k"
  unfolding parsed_def
proof (intro allI impI)
  let ?r = "Op finsh_token_type_right_paren"
  fix q i p L Rs
  assume a: "behind q i ((Op finsh_token_type_left_paren # map Op Ts @ ?r # Ls) @ L # Rs) p" "ps_symbols q = y"
    "ps_nodes q + i + k \<le> FINSH_NODE_MAX" "stops Cast_expr (lexeme_type L)"
  obtain p1 where p1: "next_token p = Some (finsh_token_type_left_paren, p1)"
    "behind q i (map Op Ts @ ?r # Ls @ L # Rs) p1"
    using a(1) by (auto elim: behind_next)
  obtain p2 where p2: "proc_type p1 = Some (ty, p2)" "behind q i (?r # Ls @ L # Rs) p2"
    using proc_type_name [OF assms(1) p1(2)] by blast
  obtain p3 where p3: "match_token finsh_token_type_right_paren p2 = Some p3" "behind q i (Ls @ L # Rs) p3"
    using behind_match [OF p2(2)] .
  obtain p4 where "parse Cast_expr p3 = Some ([n], p4)" "behind q (i + k) (L # Rs) p4"
    using parsedE [OF assms(2) p3(2) a(2-4)] .
  then show "\<exists>p'. parse Cast_expr p = Some ([set_data_type (type_number ty) n], p') \<and> behind q (i + k) (L # Rs) p'"
    using p1(1) p2(1) p3(1) by (subst parse_cast) simp
qed

subsection \<open>Binary operators, assignments and parameters\<close>

lemma reached_operand:
  assumes "parsed y (operand_of l) Ls ns k"
  shows "reached y (Binary l) Ls ns k"
  unfolding reached_def
proof (intro allI impI)
  fix op loop q i p L Rs
  assume a: "looping (Binary l) = Some (op, loop)" "behind q i (Ls @ L # Rs) p" "ps_symbols q = y"
    "ps_nodes q + i + k \<le> FINSH_NODE_MAX" "stops op (lexeme_type L)"
  have "stops (operand_of l) (lexeme_type L)" using a(1,5) by simp
  then obtain p' where "parse (operand_of l) p = Some (ns, p')" "behind q (i + k) (L # Rs) p'"
    using parsedE [OF assms a(2-4)] by blast
  then show "\<exists>p'. parse (Binary l) p = parse (loop ns) p' \<and> behind q (i + k) (L # Rs) p'"
    using a(1) by (auto simp: parse_binary)
qed

lemma reached_binary:
  assumes "reached y (Binary l) Ls [m] k" "binary_op l t = Some f" "parsed y (operand_of l) Rs [n] j"
  shows "reached y (Binary l) (Ls @ Op t # Rs) [fresh_node (FINSH_NODE_SYS f) [m, n]] (k + j + 1)"
  unfolding reached_def
proof (intro allI impI)
  let ?n = "fresh_node (FINSH_NODE_SYS f) [m, n]"
  fix op loop q i p L Ts
  assume a: "looping (Binary l) = Some (op, loop)" "behind q i ((Ls @ Op t # Rs) @ L # Ts) p" "ps_symbols q = y"
    "ps_nodes q + i + (k + j + 1) \<le> FINSH_NODE_MAX" "stops op (lexeme_type L)"
  have op: "op = operand_of l" "loop = Binary_loop l" using a(1) by simp_all
  have b: "behind q i (Ls @ Op t # Rs @ L # Ts) p" using a(2) by simp
  have st: "stops op (lexeme_type (Op t))" using op(1) op_stops_operand [OF assms(2)] by simp
  have r1: "ps_nodes q + i + k \<le> FINSH_NODE_MAX" and r2: "ps_nodes q + (i + k) + j \<le> FINSH_NODE_MAX"
    using a(4) by simp_all
  obtain p1 where p1: "parse (Binary l) p = parse (loop [m]) p1" "behind q (i + k) (Op t # Rs @ L # Ts) p1"
    using reachedE [OF assms(1) a(1) b a(3) r1 st] .
  obtain p2 where p2: "next_token p1 = Some (t, p2)" "behind q (i + k) (Rs @ L # Ts) p2"
    using p1(2) by (auto elim: behind_next)
  obtain p3 where p3: "parse (operand_of l) p2 = Some ([n], p3)" "behind q (i + k + j) (L # Ts) p3"
    using parsedE [OF assms(3) p2(2) a(3) r2] a(5) op(1) by blast
  obtain p4 where p4: "make_sys_node (FINSH_NODE_SYS f) [m] [n] p3 = ([?n], p4)" "behind q (i + k + j + 1) (L # Ts) p4"
    using make_node [OF p3(2), of "FINSH_NODE_SYS f" m "[n]"] a(4) by auto
  have "parse (loop [m]) p1 = parse (loop [?n]) p4"
    unfolding op(2) using p2(1) assms(2) p3(1) p4(1) by (subst parse_binary_loop) simp
  then show "\<exists>p'. parse (Binary l) p = parse (loop [?n]) p' \<and> behind q (i + (k + j + 1)) (L # Ts) p'"
    using p1(1) p4(2) by (auto simp: ac_simps)
qed

lemma parsed_or:
  assumes "parsed y (Binary Inclusive_or) Ls ns k"
  shows "parsed y Assign_expr Ls ns k"
  unfolding parsed_def
proof (intro allI impI)
  fix q i p L Rs
  assume a: "behind q i (Ls @ L # Rs) p" "ps_symbols q = y" "ps_nodes q + i + k \<le> FINSH_NODE_MAX"
    "stops Assign_expr (lexeme_type L)"
  have st: "stops (Binary Inclusive_or) (lexeme_type L)" "lexeme_type L \<noteq> finsh_token_type_assign"
    using a(4) by simp_all
  obtain p1 where p1: "parse (Binary Inclusive_or) p = Some (ns, p1)" "behind q (i + k) (L # Rs) p1"
    using parsedE [OF assms a(1-3) st(1)] .
  obtain p2 where "next_token p1 = Some (lexeme_type L, p2)" "behind q (i + k) (L # Rs) (replay p2)"
    using p1(2) by (auto elim: behind_next)
  then show "\<exists>p'. parse Assign_expr p = Some (ns, p') \<and> behind q (i + k) (L # Rs) p'"
    using p1(1) st(2) by (subst parse_assign) simp
qed

lemma parsed_assign:
  assumes "parsed y (Binary Inclusive_or) Ls [m] k" "parsed y Assign_expr Rs [n] j"
  shows "parsed y Assign_expr (Ls @ Op finsh_token_type_assign # Rs) [fresh_node FINSH_NODE_SYS_ASSIGN [m, n]] (k + j + 1)"
  unfolding parsed_def
proof (intro allI impI)
  let ?n = "fresh_node FINSH_NODE_SYS_ASSIGN [m, n]"
  fix q i p L Ts
  assume a: "behind q i ((Ls @ Op finsh_token_type_assign # Rs) @ L # Ts) p" "ps_symbols q = y"
    "ps_nodes q + i + (k + j + 1) \<le> FINSH_NODE_MAX" "stops Assign_expr (lexeme_type L)"
  have b: "behind q i (Ls @ Op finsh_token_type_assign # Rs @ L # Ts) p" using a(1) by simp
  have r1: "ps_nodes q + i + k \<le> FINSH_NODE_MAX" and r2: "ps_nodes q + (i + k) + j \<le> FINSH_NODE_MAX"
    using a(3) by simp_all
  obtain p1 where p1: "parse (Binary Inclusive_or) p = Some ([m], p1)"
    "behind q (i + k) (Op finsh_token_type_assign # Rs @ L # Ts) p1"
    using parsedE [OF assms(1) b a(2) r1] assign_stops by auto
  obtain p2 where p2: "next_token p1 = Some (finsh_token_type_assign, p2)" "behind q (i + k) (Rs @ L # Ts) p2"
    using p1(2) by (auto elim: behind_next)
  obtain p3 where p3: "parse Assign_expr p2 = Some ([n], p3)" "behind q (i + k + j) (L # Ts) p3"
    using parsedE [OF assms(2) p2(2) a(2) r2 a(4)] .
  obtain p4 where "make_sys_node FINSH_NODE_SYS_ASSIGN [m] [n] p3 = ([?n], p4)" "behind q (i + k + j + 1) (L # Ts) p4"
    using make_node [OF p3(2), of FINSH_NODE_SYS_ASSIGN m "[n]"] a(3) by auto
  then show "\<exists>p'. parse Assign_expr p = Some ([?n], p') \<and> behind q (i + (k + j + 1)) (L # Ts) p'"
    using p1(1) p2(1) p3(1) by (subst parse_assign) (auto simp: ac_simps)
qed

lemma reached_param:
  assumes "parsed y Assign_expr Ls [n] k"
  shows "reached y Param_list Ls [n] k"
  unfolding reached_def
proof (intro allI impI)
  fix op loop q i p L Rs
  assume a: "looping Param_list = Some (op, loop)" "behind q i (Ls @ L # Rs) p" "ps_symbols q = y"
    "ps_nodes q + i + k \<le> FINSH_NODE_MAX" "stops op (lexeme_type L)"
  have "stops Assign_expr (lexeme_type L)" using a(1,5) by auto
  then obtain p' where "parse Assign_expr p = Some ([n], p')" "behind q (i + k) (L # Rs) p'"
    using parsedE [OF assms a(2-4)] by blast
  then show "\<exists>p'. parse Param_list p = parse (loop [n]) p' \<and> behind q (i + k) (L # Rs) p'"
    using a(1) by (auto simp: parse_params)
qed

lemma reached_params:
  assumes "reached y Param_list Ls ns k" "parsed y Assign_expr Rs [n] j"
  shows "reached y Param_list (Ls @ Op finsh_token_type_comma # Rs) (ns @ [n]) (k + j)"
  unfolding reached_def
proof (intro allI impI)
  fix op loop q i p L Ts
  assume a: "looping Param_list = Some (op, loop)" "behind q i ((Ls @ Op finsh_token_type_comma # Rs) @ L # Ts) p"
    "ps_symbols q = y" "ps_nodes q + i + (k + j) \<le> FINSH_NODE_MAX" "stops op (lexeme_type L)"
  have op: "op = Assign_expr" "loop = Param_loop" using a(1) by simp_all
  have b: "behind q i (Ls @ Op finsh_token_type_comma # Rs @ L # Ts) p" using a(2) by simp
  have r1: "ps_nodes q + i + k \<le> FINSH_NODE_MAX" and r2: "ps_nodes q + (i + k) + j \<le> FINSH_NODE_MAX"
    using a(4) by simp_all
  have st: "stops op (lexeme_type (Op finsh_token_type_comma))" using comma_stops op(1) by simp
  obtain p1 where p1: "parse Param_list p = parse (loop ns) p1"
    "behind q (i + k) (Op finsh_token_type_comma # Rs @ L # Ts) p1"
    using reachedE [OF assms(1) a(1) b a(3) r1 st] .
  obtain p2 where p2: "next_token p1 = Some (finsh_token_type_comma, p2)" "behind q (i + k) (Rs @ L # Ts) p2"
    using p1(2) by (auto elim: behind_next)
  obtain p3 where p3: "parse Assign_expr p2 = Some ([n], p3)" "behind q (i + k + j) (L # Ts) p3"
    using parsedE [OF assms(2) p2(2) a(3) r2] a(5) op(1) by blast
  have "parse (loop ns) p1 = parse (loop (ns @ [n])) p3"
    unfolding op(2) using p2(1) p3(1) by (subst parse_param_loop) simp
  then show "\<exists>p'. parse Param_list p = parse (loop (ns @ [n])) p' \<and> behind q (i + (k + j)) (L # Ts) p'"
    using p1(1) p3(2) by (auto simp: ac_simps)
qed

subsection \<open>Every derivation is found\<close>

lemma derivation_parsed:
  assumes "derives y ph Ls ns k"
  shows "parsed y ph Ls ns k \<and> reached y ph Ls ns k"
  using assms
proof (induction rule: derives.induct)
  case (leaf L n)
  then show ?case by (intro unlooped parsed_leaf) simp_all
next
  case (primary Ls ns k)
  then show ?case by (intro looped reached_primary) simp_all
next
  case (inc Ls n k)
  then show ?case by (intro looped reached_step) simp_all
next
  case (dec Ls n k)
  then show ?case by (intro looped reached_step) simp_all
next
  case (call Ls n k)
  then show ?case by (intro looped reached_call) simp_all
next
  case (call_with Ls n k Ps ns j)
  then show ?case by (intro looped reached_call_with) simp_all
next
  case (postfix Ls ns k)
  then show ?case using postfix_starts by (intro unlooped parsed_postfix) auto
next
  case (plus Ls ns k)
  then show ?case by (intro unlooped parsed_plus) simp_all
next
  case (minus Ls n k)
  then show ?case by (intro unlooped parsed_minus) simp_all
next
  case (prefix t ty Ls n k)
  then show ?case by (intro unlooped parsed_prefix) simp_all
next
  case (unary Ls ns k)
  then show ?case using unary_starts by (intro unlooped parsed_unary) auto
next
  case (cast Ts ty Ls n k)
  then show ?case by (intro unlooped parsed_cast) simp_all
next
  case (operand l Ls n k)
  then show ?case by (intro looped reached_operand) simp_all
next
  case (binary l Ls m k t f Rs n j)
  then show ?case by (intro looped reached_binary) simp_all
next
  case (inclusive_or Ls ns k)
  then show ?case by (intro unlooped parsed_or) simp_all
next
  case (assign Ls m k Rs n j)
  then show ?case by (intro unlooped parsed_assign) simp_all
next
  case (param Ls n k)
  then show ?case by (intro looped reached_param) simp_all
next
  case (params Ls ns k Rs n j)
  then show ?case by (intro looped reached_params) simp_all
qed


subsection \<open>Statements\<close>

text \<open>Expressions, each with a semicolon behind it.\<close>

inductive statements :: "finsh_symbols \<Rightarrow> lexeme list \<Rightarrow> finsh_node list \<Rightarrow> nat \<Rightarrow> bool" for y where
  no_statement: "statements y [] [] 0"
| statement: "derives y Assign_expr Ls [n] k \<Longrightarrow> statements y Rs ns j \<Longrightarrow>
    statements y (Ls @ Op finsh_token_type_semicolon # Rs) (n # ns) (k + j)"

lemma expression_starts: "derives y ph Ls ns k \<Longrightarrow> \<exists>L Ls'. Ls = L # Ls' \<and> lexeme_type L \<notin>
    {finsh_token_type_semicolon, finsh_token_type_eof, finsh_token_type_bad, finsh_token_type_unsigned} \<and>
    \<not> is_base_type (lexeme_type L)"
proof (induction rule: derives.induct)
  case (leaf L n)
  then show ?case using leaf_type_cases [of y L] by (auto simp: is_base_type_def)
next
  case (prefix t ty Ls n k)
  then show ?case by (cases t) (auto simp: is_base_type_def)
qed (auto simp: is_base_type_def)

text \<open>One statement of the loop of \<open>finsh_parser_run\<close>, whose first token has been read.\<close>

lemma statement_parsed:
  assumes "derives y Assign_expr Ls [n] k" "ps_symbols q = y" "ps_nodes q + i + k \<le> FINSH_NODE_MAX"
    and "Ls = L # Ls'" "behind q i (Ls @ Op finsh_token_type_semicolon # Rs) (replay p)"
  shows "\<exists>p'. proc_statement (lexeme_type L) pre p = Some ([n], p') \<and> behind q (i + k) Rs p'"
proof -
  obtain F Fs where F: "Ls = F # Fs" "lexeme_type F \<notin> {finsh_token_type_semicolon, finsh_token_type_eof,
      finsh_token_type_bad, finsh_token_type_unsigned}" "\<not> is_base_type (lexeme_type F)"
    using expression_starts [OF assms(1)] by blast
  then have L: "lexeme_type L \<notin> {finsh_token_type_semicolon, finsh_token_type_unsigned}" "\<not> is_base_type (lexeme_type L)"
    using assms(4) by auto
  obtain p1 where p1: "next_token (replay p) = Some (lexeme_type L, p1)"
    "behind q i (Ls @ Op finsh_token_type_semicolon # Rs) (replay p1)"
    using behind_next assms(4,5) by (metis append_Cons)
  have parsed: "parsed y Assign_expr Ls [n] k" using derivation_parsed [OF assms(1)] by simp
  obtain p2 where p2: "parse Assign_expr (replay p1) = Some ([n], p2)"
    "behind q (i + k) (Op finsh_token_type_semicolon # Rs) p2"
    using parsedE [OF parsed p1(2) assms(2,3)] semicolon_stops by auto
  obtain p3 where p3: "match_token finsh_token_type_semicolon p2 = Some p3" "behind q (i + k) Rs p3"
    using behind_match [OF p2(2)] .
  have "proc_expr_statement (replay p) = Some ([n], p3)"
    using p1(1) L(1) p2(1) p3(1) by (simp add: proc_expr_statement_def proc_expr_def proc_assign_expr_def)
  then show ?thesis using L p3(2) by (auto simp: proc_statement_def)
qed

lemma statements_parsed:
  assumes "statements y Ls ns k" "ps_symbols q = y" "ps_nodes q + i + k \<le> FINSH_NODE_MAX" "pre @ ns \<noteq> []"
    and "behind q i (Ls @ [Op finsh_token_type_eof]) p"
  shows "\<exists>t p1 p'. next_token p = Some (t, p1) \<and> statement_loop t pre [] p1 = Some (pre @ ns, p') \<and> behind q (i + k) [] p'"
  using assms
proof (induction arbitrary: pre i p rule: statements.induct)
  case no_statement
  then obtain p1 where p1: "next_token p = Some (finsh_token_type_eof, p1)" "behind q i [] p1"
    by (auto elim: behind_next)
  then show ?case by (auto simp: statement_loop.simps)
next
  case (statement Ls n k Rs ns j)
  obtain F Fs where F: "Ls = F # Fs" "lexeme_type F \<notin> {finsh_token_type_eof, finsh_token_type_bad}"
    using expression_starts [OF statement.hyps(1)] by blast
  let ?all = "Ls @ Op finsh_token_type_semicolon # Rs @ [Op finsh_token_type_eof]"
  obtain p1 where p1: "next_token p = Some (lexeme_type F, p1)" "behind q i ?all (replay p1)"
    using statement.prems(4) F(1) by (auto elim: behind_next)
  have room: "ps_nodes q + i + k \<le> FINSH_NODE_MAX" "ps_nodes q + (i + k) + j \<le> FINSH_NODE_MAX"
    using statement.prems(2) by simp_all
  obtain p2 where p2: "proc_statement (lexeme_type F) pre p1 = Some ([n], p2)"
    "behind q (i + k) (Rs @ [Op finsh_token_type_eof]) p2"
    using statement_parsed [OF statement.hyps(1) statement.prems(1) room(1) F(1) p1(2)] by blast
  obtain t p3 p4 where p3: "next_token p2 = Some (t, p3)"
    "statement_loop t (pre @ [n]) [] p3 = Some ((pre @ [n]) @ ns, p4)" "behind q (i + k + j) [] p4"
    using statement.IH [OF statement.prems(1) room(2) _ p2(2), of "pre @ [n]"] by auto
  have "statement_loop (lexeme_type F) pre [] p1 = Some (pre @ n # ns, p4)"
    using F(2) p2(1) p3(1,2) by (subst statement_loop.simps) (simp add: extend_root_def)
  then show ?case using p1(1) p3(3) by (auto simp: ac_simps)
qed

end
