(* ===== verification/Finsh_Sticky.thy ===== *)
theory Finsh_Sticky
  imports Finsh_Descent
begin

text \<open>
  An error of the finsh shell stays: no function of the tokeniser or of the parser puts \<open>global_errno\<close> back to
  \<open>FINSH_ERROR_OK\<close>, whatever the line.  With it, an expression in parentheses is always an error.
\<close>

definition failed :: "finsh_parser \<Rightarrow> bool" where
  "failed p \<longleftrightarrow> ps_error p \<noteq> FINSH_ERROR_OK"

named_theorems sticks

lemma char_sticks: "token_proc_char t e = Some (c, t', e') \<Longrightarrow> e \<noteq> FINSH_ERROR_OK \<Longrightarrow> e' \<noteq> FINSH_ERROR_OK"
  by (auto simp: token_proc_char_def Let_def bind_eq_Some_conv split: if_splits prod.splits)

lemma string_sticks: "token_proc_string n s t e = (t', e') \<Longrightarrow> e \<noteq> FINSH_ERROR_OK \<Longrightarrow> e' \<noteq> FINSH_ERROR_OK"
proof (induction n arbitrary: s t)
  case (Suc n)
  obtain ch t1 where n: "token_next_char t = (ch, t1)" by (cases "token_next_char t")
  obtain r t2 where esc: "token_proc_escape t1 = (r, t2)" by (cases "token_proc_escape t1")
  show ?case using Suc n esc by (auto split: if_splits)
qed simp

lemma operator_sticks:
  assumes "token_operator t e = Some (t', e')" "e \<noteq> FINSH_ERROR_OK"
  shows "e' \<noteq> FINSH_ERROR_OK"
  using assms unfolding token_operator_def
  by (auto simp: Let_def bind_eq_Some_conv dest: char_sticks string_sticks split: if_splits prod.splits)

lemma next_token_sticks [sticks]:
  assumes "next_token p = Some (k, p')" "failed p"
  shows "failed p'"
proof -
  obtain t e where t: "finsh_token_token (ps_token p) (ps_error p) = Some (k, t, e)" "ps_error p' = e"
    using assms(1) by (auto simp: next_token_def bind_eq_Some_conv)
  have run: "e1 \<noteq> FINSH_ERROR_OK" if "token_run t0 e0 = Some (t1, e1)" "e0 \<noteq> FINSH_ERROR_OK" for t0 t1 e0 e1
    using that operator_sticks by (auto simp: token_run_def bind_eq_Some_conv split: if_splits)
  have "e \<noteq> FINSH_ERROR_OK"
    using t(1) assms(2) run by (auto simp: failed_def finsh_token_token_def bind_eq_Some_conv split: if_splits)
  then show ?thesis using t(2) by (simp add: failed_def)
qed

lemma replay_sticks [simp]: "failed (replay p) \<longleftrightarrow> failed p"
  by (simp add: replay_def failed_def)

lemma error_sticks [simp]: "failed (finsh_error_set e p) \<longleftrightarrow> e \<noteq> FINSH_ERROR_OK"
  by (simp add: finsh_error_set_def failed_def)

lemma nodes_sticks [simp]: "failed (p\<lparr>ps_nodes := u\<rparr>) \<longleftrightarrow> failed p"
  by (simp add: failed_def)

lemma match_token_sticks [sticks]: "match_token k p = Some p' \<Longrightarrow> failed p \<Longrightarrow> failed p'"
  by (auto simp: match_token_def check_token_def bind_eq_Some_conv dest: next_token_sticks split: if_splits)

lemma make_sys_node_sticks [sticks]: "make_sys_node ty m n p = (r, p') \<Longrightarrow> failed p \<Longrightarrow> failed p'"
  by (auto simp: make_sys_node_def finsh_node_allocate_def split: if_splits list.splits)

lemma new_value_sticks: "new_value ty v u e = (n, u', e') \<Longrightarrow> e \<noteq> FINSH_ERROR_OK \<Longrightarrow> e' \<noteq> FINSH_ERROR_OK"
  by (auto simp: new_value_def split: option.splits finsh_node.splits prod.splits)

lemma new_id_sticks: "finsh_node_new_id s y u e = (n, u', e') \<Longrightarrow> e \<noteq> FINSH_ERROR_OK \<Longrightarrow> e' \<noteq> FINSH_ERROR_OK"
  by (auto simp: finsh_node_new_id_def finsh_node_allocate_def Let_def split: if_splits)

lemma with_node_sticks:
  assumes "with_node f p = (n, p')" "failed p"
    "\<And>u e n u' e'. f u e = (n, u', e') \<Longrightarrow> e \<noteq> FINSH_ERROR_OK \<Longrightarrow> e' \<noteq> FINSH_ERROR_OK"
  shows "failed p'"
proof -
  obtain m u e where f: "f (ps_nodes p) (ps_error p) = (m, u, e)" using prod_cases3 by blast
  then show ?thesis using assms(1,2) assms(3) [OF f] by (auto simp: with_node_def failed_def)
qed

lemma with_value_sticks [sticks]: "with_node (new_value ty v) p = (n, p') \<Longrightarrow> failed p \<Longrightarrow> failed p'"
  by (rule with_node_sticks, assumption+, rule new_value_sticks)

lemma with_id_sticks [sticks]: "with_node (finsh_node_new_id s y) p = (n, p') \<Longrightarrow> failed p \<Longrightarrow> failed p'"
  by (rule with_node_sticks, assumption+, rule new_id_sticks)

lemma new_string_sticks [sticks]: "finsh_node_new_string s p = Some (n, p') \<Longrightarrow> failed p \<Longrightarrow> failed p'"
  by (auto simp: finsh_node_new_string_def bind_eq_Some_conv failed_def finsh_error_set_def
      split: option.splits finsh_node.splits prod.splits list.splits if_splits)

lemma pointer_sticks [sticks]: "proc_pointer ty p = Some (ty', p') \<Longrightarrow> failed p \<Longrightarrow> failed p'"
  by (auto simp: proc_pointer_def bind_eq_Some_conv dest: next_token_sticks split: if_splits)

lemma type_sticks [sticks]: "proc_type p = Some (ty, p') \<Longrightarrow> failed p \<Longrightarrow> failed p'"
  by (auto simp: proc_type_def bind_eq_Some_conv dest: next_token_sticks pointer_sticks split: if_splits)

lemma identifier_sticks [sticks]: "proc_identifier p = Some (s, p') \<Longrightarrow> failed p \<Longrightarrow> failed p'"
  by (auto simp: proc_identifier_def bind_eq_Some_conv dest: match_token_sticks)

lemma literal_sticks [sticks]:
  assumes "proc_literal k p = Some (n, p')" "failed p"
  shows "failed p'"
  using assms
  by (cases k) (auto simp: proc_literal_def Let_def bind_eq_Some_conv finsh_node_new_int_def finsh_node_new_long_def
      finsh_node_new_char_def finsh_node_new_ptr_def dest: sticks)

text \<open>Every parser in the result has an error.\<close>

definition all_failed :: "('a \<times> finsh_parser) option \<Rightarrow> bool" where
  "all_failed x \<longleftrightarrow> (\<forall>v p. x = Some (v, p) \<longrightarrow> failed p)"

lemma all_failed_simps [simp]: "all_failed None" "all_failed (Some vp) \<longleftrightarrow> failed (snd vp)"
  by (cases vp; simp add: all_failed_def)+

lemma all_failed_bind:
  assumes "all_failed m" "\<And>v p. failed p \<Longrightarrow> all_failed (f (v, p))"
  shows "all_failed (m \<bind> f)"
  using assms by (cases m) (auto simp: all_failed_def)

lemma all_failed_match:
  assumes "failed p" "\<And>p'. failed p' \<Longrightarrow> all_failed (f p')"
  shows "all_failed (match_token k p \<bind> f)"
  using assms match_token_sticks by (cases "match_token k p") auto

lemma all_failed_node:
  assumes "failed p" "\<And>n p'. failed p' \<Longrightarrow> all_failed (f n p')"
  shows "all_failed (case make_sys_node ty m ns p of (n, p') \<Rightarrow> f n p')"
  using assms make_sys_node_sticks by (cases "make_sys_node ty m ns p") auto

lemma all_failed_sticks:
  "failed p \<Longrightarrow> all_failed (next_token p)" "failed p \<Longrightarrow> all_failed (proc_type p)"
  "failed p \<Longrightarrow> all_failed (proc_literal k p)" "failed p \<Longrightarrow> failed (snd (make_sys_node ty m n p))"
  "failed p \<Longrightarrow> failed (snd (with_node (new_value ty v) p))"
  by (auto simp: all_failed_def dest: sticks) (metis prod.collapse sticks)+

lemma parse_sticks:
  assumes "parse nt p = Some (n, p')" "failed p"
  shows "failed p'"
proof -
  have "failed p \<longrightarrow> failed (snd (n, p'))"
  proof (rule parse.raw_induct [where P = "\<lambda>nt p r. failed p \<longrightarrow> failed (snd r)", OF _ assms(1)], goal_cases)
    case (1 rec nt p r)
    have ih: "all_failed (rec nt p)" if "failed p" for nt p
      using "1"(1) that by (fastforce simp: all_failed_def)
    note bind = all_failed_bind all_failed_match all_failed_node all_failed_sticks ih
    show ?case
    proof
      assume p: "failed p"
      have "all_failed (Some r)"
        unfolding "1"(2) [symmetric]
        by (cases nt) (auto intro!: bind simp: p finsh_node_new_long_def split_beta split: option.splits list.splits)
      then show "failed (snd r)" by simp
    qed
  qed
  then show ?thesis using assms(2) by simp
qed


subsection \<open>Statements\<close>

lemma parse_all_failed: "failed p \<Longrightarrow> all_failed (parse nt p)"
  using parse_sticks by (fastforce simp: all_failed_def)

lemma expr_statement_failed: "failed p \<Longrightarrow> all_failed (proc_expr_statement p)"
  unfolding proc_expr_statement_def proc_expr_def proc_assign_expr_def
  by (auto intro!: all_failed_bind all_failed_match all_failed_sticks parse_all_failed)

lemma declarator_failed: "failed p \<Longrightarrow> all_failed (proc_declarator ty p)"
  unfolding proc_declarator_def
  by (rule all_failed_bind)
    (auto simp: all_failed_def failed_def finsh_error_set_def dest: identifier_sticks [unfolded failed_def] split: option.splits)

lemma initialiser_failed:
  assumes "proc_initialiser name nodes lost p = Some (nodes', lost', k, p')" "failed p"
  shows "failed p'"
proof -
  obtain assign p1 where a: "parse Assign_expr p = Some (assign, p1)" and p1: "failed p1"
    and r: "(if assign = [] then Some (nodes, lost, finsh_token_type_assign, p1)
      else do {
        let (idnode, p) = with_node (finsh_node_new_id name (ps_symbols p1)) p1;
        let (n, p) = make_sys_node FINSH_NODE_SYS_ASSIGN idnode assign p;
        RT_ASSERT (\<not> lost);
        (k, p) \<leftarrow> next_token p;
        Some (nodes @ n, nodes \<noteq> [] \<and> n = [], k, p)
      }) = Some (nodes', lost', k, p')"
    using assms parse_sticks by (fastforce simp: proc_initialiser_def proc_assign_expr_def bind_eq_Some_conv)
  obtain idnode p2 where n: "with_node (finsh_node_new_id name (ps_symbols p1)) p1 = (idnode, p2)" by fastforce
  obtain m p3 where m: "make_sys_node FINSH_NODE_SYS_ASSIGN idnode assign p2 = (m, p3)" by fastforce
  have "failed p3" using make_sys_node_sticks [OF m] with_id_sticks [OF n p1] by simp
  then show ?thesis using r p1 n m by (auto simp: bind_eq_Some_conv dest: next_token_sticks split: if_splits)
qed

lemma declarators_failed:
  assumes "declarator_loop ty nodes lost k p = Some (ns, p')" "failed p"
  shows "failed p'"
proof -
  have "failed p \<longrightarrow> failed (snd (ns, p'))"
  proof (rule declarator_loop.raw_induct [where P = "\<lambda>ty nodes lost k p r. failed p \<longrightarrow> failed (snd r)", OF _ assms(1)], goal_cases)
    case (1 rec ty nodes lost k p r)
    have ih: "failed p'" if "rec ty nodes lost k p = Some (n, p')" "failed p" for ty nodes lost k p n p'
      using "1"(1) [OF that(1)] that(2) by simp
    have decl: "failed p'" if "proc_declarator ty p = Some (n, p')" "failed p" for ty p n p'
      using declarator_failed [OF that(2), of ty] that(1) by (simp add: all_failed_def)
    show ?case
      using "1"(2)
      by (cases r) (auto simp: bind_eq_Some_conv check_token_def dest: ih decl initialiser_failed next_token_sticks split: if_splits)
  qed
  then show ?thesis using assms(2) by simp
qed

lemma variable_decl_failed: "failed p \<Longrightarrow> all_failed (proc_variable_decl p)"
  unfolding proc_variable_decl_def
proof (intro all_failed_bind all_failed_sticks(2) declarator_failed, assumption)
  fix ty and p1 :: finsh_parser
  assume p1: "failed p1"
  show "all_failed (case (ty, p1) of (ty, p) \<Rightarrow> do {
      (name, p) \<leftarrow> proc_declarator ty p;
      (k, p) \<leftarrow> next_token p;
      if k = finsh_token_type_comma then declarator_loop ty [] False k p
      else if k = finsh_token_type_assign then do {
        (nodes, lost, k, p) \<leftarrow> proc_initialiser name [] False p;
        declarator_loop ty nodes lost k p
      }
      else if k = finsh_token_type_semicolon then Some ([], p)
      else Some ([], finsh_error_set FINSH_ERROR_EXPECT_TYPE p)
    })"
    unfolding prod.case
  proof (intro all_failed_bind declarator_failed p1, unfold prod.case, intro all_failed_bind all_failed_sticks, assumption)
    fix name and k and p3 :: finsh_parser
    assume p3: "failed p3"
    show "all_failed (case (k, p3) of (k, p) \<Rightarrow>
        if k = finsh_token_type_comma then declarator_loop ty [] False k p
        else if k = finsh_token_type_assign then do {
          (nodes, lost, k, p) \<leftarrow> proc_initialiser name [] False p;
          declarator_loop ty nodes lost k p
        }
        else if k = finsh_token_type_semicolon then Some ([], p)
        else Some ([], finsh_error_set FINSH_ERROR_EXPECT_TYPE p))"
      using p3 by (auto simp: all_failed_def bind_eq_Some_conv dest: declarators_failed initialiser_failed)
  qed
qed

lemma statement_failed: "failed p \<Longrightarrow> all_failed (proc_statement k pre p)"
  unfolding proc_statement_def
  by (auto intro!: all_failed_bind all_failed_sticks expr_statement_failed variable_decl_failed)

lemma statements_failed:
  assumes "statement_loop k pre post p = Some (ns, p')" "failed p"
  shows "failed p'"
proof -
  have "failed p \<longrightarrow> failed (snd (ns, p'))"
  proof (rule statement_loop.raw_induct [where P = "\<lambda>k pre post p r. failed p \<longrightarrow> failed (snd r)", OF _ assms(1)], goal_cases)
    case (1 rec k pre post p r)
    have ih: "failed p'" if "rec k pre post p = Some (n, p')" "failed p" for k pre post p n p'
      using "1"(1) [OF that(1)] that(2) by simp
    have st: "failed p'" if "proc_statement k pre p = Some (n, p')" "failed p" for k pre p n p'
      using statement_failed [OF that(2), of k pre] that(1) by (simp add: all_failed_def)
    show ?case
      using "1"(2)
      by (cases r) (auto simp: bind_eq_Some_conv split_beta dest: ih st next_token_sticks split: if_splits)
  qed
  then show ?thesis using assms(2) by simp
qed

subsection \<open>Parentheses\<close>

text \<open>In place of an operand, a parenthesis without a type behind it is an error.\<close>

lemma paren_failed:
  assumes "reads (ps_token p) (Op finsh_token_type_left_paren # L # Ls)"
    and "\<not> is_base_type (lexeme_type L)" "lexeme_type L \<noteq> finsh_token_type_unsigned"
  shows "all_failed (parse Cast_expr p)"
proof -
  obtain p1 where p1: "next_token p = Some (finsh_token_type_left_paren, p1)" "reads (ps_token p1) (L # Ls)"
    using assms(1) by (rule next_token_reads) auto
  obtain p2 where "next_token p1 = Some (lexeme_type L, p2)"
    using p1(2) by (rule next_token_reads) auto
  then have "proc_type p1 = Some (finsh_type_unknown, finsh_error_set FINSH_ERROR_UNKNOWN_TYPE (replay p2))"
    using assms(2,3) by (simp add: proc_type_def)
  then show ?thesis
    using p1(1)
    by (subst parse_cast) (auto intro!: all_failed_bind all_failed_match parse_all_failed split: list.splits)
qed

lemma operand_failed: "all_failed (parse (operand_of l) p) \<Longrightarrow> all_failed (parse (Binary l) p)"
  by (subst parse_binary) (auto intro!: all_failed_bind parse_all_failed)

lemma paren_assign_failed:
  assumes "reads (ps_token p) (Op finsh_token_type_left_paren # L # Ls)"
    and "\<not> is_base_type (lexeme_type L)" "lexeme_type L \<noteq> finsh_token_type_unsigned"
  shows "all_failed (parse Assign_expr p)"
proof -
  have "all_failed (parse (Binary Multiplicative) p)" using paren_failed [OF assms] operand_failed by force
  then have "all_failed (parse (Binary Shift) p)" using operand_failed [of Additive] operand_failed [of Shift] by simp
  then have "all_failed (parse (Binary Inclusive_or) p)"
    using operand_failed [of And_level] operand_failed [of Exclusive_or] operand_failed [of Inclusive_or] by simp
  then show ?thesis
    by (subst parse_assign)
      (auto intro!: all_failed_bind all_failed_sticks parse_all_failed)
qed

end
