(* ===== verification/Finsh_Text.thy ===== *)
theory Finsh_Text
  imports Finsh_Grammar
begin

text \<open>
  The text of lexemes, and the proof that the tokeniser of \<^verbatim>\<open>rt-thread/components/finsh/finsh_token.c\<close> reads
  them back from a line in which a blank follows each of them.
\<close>

subsection \<open>Positions in a line\<close>

text \<open>The tokeniser is in front of the text \<open>r\<close>.\<close>

definition at :: "finsh_token \<Rightarrow> string \<Rightarrow> bool" where
  "at t r \<longleftrightarrow> \<not> tk_eof t \<and> \<not> tk_replay t \<and> tk_position t \<le> length (tk_line t) \<and>
     drop (tk_position t) (tk_line t) = r \<and> length (tk_string t) = FINSH_STRING_MAX"

abbreviation moved :: "nat \<Rightarrow> finsh_token \<Rightarrow> finsh_token" where
  "moved n t \<equiv> t\<lparr>tk_position := tk_position t + n\<rparr>"

definition newline :: char where "newline = CHR 0x0A"

lemma at_next:
  assumes "at t (c # r)" "c \<noteq> newline"
  shows "token_next_char t = (c, moved 1 t)" "at (moved 1 t) r"
proof -
  have l: "tk_position t < length (tk_line t)" "tk_line t ! tk_position t = c" "drop (Suc (tk_position t)) (tk_line t) = r"
    using assms(1) by (auto simp: at_def drop_Suc nth_via_drop tl_drop [symmetric]) (metis drop_all not_le neq_Nil_conv list.distinct(1))
  then show "token_next_char t = (c, moved 1 t)" "at (moved 1 t) r"
    using assms by (auto simp: token_next_char_def at_def newline_def)
qed

lemma at_prev: "at t r \<Longrightarrow> token_prev_char (moved (Suc n) t) = moved n t"
  by (simp add: token_prev_char_def at_def)

lemma at_moved:
  assumes "at t (s @ r)"
  shows "at (moved (length s) t) r"
proof -
  have d: "drop (tk_position t) (tk_line t) = s @ r" using assms by (simp add: at_def)
  then have "length (tk_line t) - tk_position t = length s + length r" by (metis length_append length_drop)
  moreover have "drop (length s) (drop (tk_position t) (tk_line t)) = r" unfolding d by simp
  ultimately show ?thesis using assms by (auto simp: at_def add.commute)
qed

lemma scan_stop: "\<not> p c \<Longrightarrow> scan p c t = ([], c, t)"
  by (simp add: scan.simps)

lemma scan_at:
  assumes "at t (s @ d # r)" "\<forall>c \<in> set s. p c \<and> c \<noteq> newline" "p c" "\<not> p d" "d \<noteq> newline"
  shows "scan p c t = (c # s, d, moved (Suc (length s)) t)"
  using assms
proof (induction s arbitrary: t c)
  case Nil
  have "\<not> tk_eof t" using Nil.prems(1) by (simp add: at_def)
  then show ?case
    using Nil.prems(3,4) at_next(1) [of t d r] Nil.prems(1,5) scan_stop [of p d] by (subst scan.simps) simp
next
  case (Cons a s)
  have a: "p a" "a \<noteq> newline" "at t (a # s @ d # r)" using Cons.prems(1,2) by simp_all
  have "\<not> tk_eof t" using Cons.prems(1) by (simp add: at_def)
  moreover have "scan p a (moved 1 t) = (a # s, d, moved (Suc (length s)) (moved 1 t))"
    by (rule Cons.IH) (use at_next [OF a(3,2)] Cons.prems a(1) in auto)
  ultimately show ?case
    using at_next [OF a(3,2)] Cons.prems(3) by (subst scan.simps) simp
qed


text \<open>Blanks in front of a word are skipped.\<close>

abbreviation blank :: char where "blank \<equiv> CHR '' ''"

definition white :: "char \<Rightarrow> bool" where
  "white c \<longleftrightarrow> c \<in> {blank, CHR 0x09, CHR 0x0D}"

lemma trim_at:
  assumes "at t (bs @ c # r)" "set bs \<subseteq> {blank}" "\<not> white c" "c \<noteq> newline"
  shows "token_trim_space t = moved (length bs) t" "at (moved (length bs) t) (c # r)"
proof -
  have w: "(\<lambda>c. c \<in> {blank, CHR 0x09, CHR 0x0D}) = white" by (auto simp: white_def)
  show "at (moved (length bs) t) (c # r)" using at_moved [OF assms(1)] .
  show "token_trim_space t = moved (length bs) t"
  proof (cases bs)
    case Nil
    then show ?thesis
      using at_next(1) [of t c r] assms scan_stop [of white c] at_prev [of t "c # r" 0]
      unfolding token_trim_space_def w by simp
  next
    case (Cons b bs')
    have b: "b = blank" "b \<noteq> newline" "white b" using assms(2) Cons by (auto simp: newline_def white_def)
    have n: "token_next_char t = (b, moved 1 t)" "at (moved 1 t) (bs' @ c # r)"
      using at_next [of t b "bs' @ c # r"] assms(1) Cons b(2) by simp_all
    have "\<forall>c \<in> set bs'. white c \<and> c \<noteq> newline" using assms(2) Cons by (auto simp: newline_def white_def)
    then have "scan white b (moved 1 t) = (b # bs', c, moved (Suc (length bs')) (moved 1 t))"
      using scan_at [OF n(2) _ b(3) assms(3,4)] by blast
    then show ?thesis
      using n(1) at_prev [OF assms(1), of "Suc (length bs')"] Cons unfolding token_trim_space_def w by simp
  qed
qed

subsection \<open>The text of a lexeme\<close>

definition op_text :: "(finsh_token_type \<times> string) list" where
  "op_text =
    [(finsh_token_type_left_paren, ''(''), (finsh_token_type_right_paren, '')''), (finsh_token_type_comma, '',''),
     (finsh_token_type_semicolon, '';''), (finsh_token_type_and, ''&''), (finsh_token_type_mul, ''*''),
     (finsh_token_type_add, ''+''), (finsh_token_type_inc, ''++''), (finsh_token_type_sub, ''-''),
     (finsh_token_type_dec, ''--''), (finsh_token_type_div, ''/''), (finsh_token_type_shl, ''<<''),
     (finsh_token_type_shr, ''>>''), (finsh_token_type_or, ''|''), (finsh_token_type_mod, ''%''),
     (finsh_token_type_bitwise, ''~''), (finsh_token_type_xor, ''^''), (finsh_token_type_assign, ''='')]"

definition is_name :: "string \<Rightarrow> bool" where
  "is_name s \<longleftrightarrow> s \<noteq> [] \<and> \<not> is_digit (hd s) \<and> (\<forall>c \<in> set s. \<not> is_separator c) \<and> length s < FINSH_STRING_MAX"

definition decimal :: "string \<Rightarrow> u32" where
  "decimal s = foldl (\<lambda>v d. v * 10 + (of_nat (code_of d) - 48)) 0 s"

definition is_decimal :: "string \<Rightarrow> bool" where
  "is_decimal s \<longleftrightarrow> s \<noteq> [] \<and> (\<forall>c \<in> set s. is_digit c) \<and> hd s \<noteq> CHR ''0''"

inductive spelled :: "lexeme \<Rightarrow> string \<Rightarrow> bool" where
  spelled_op: "(k, s) \<in> set op_text \<Longrightarrow> spelled (Op k) s"
| spelled_word: "(s, k) \<in> set finsh_name_table \<Longrightarrow> spelled (Op k) s"
| spelled_name: "is_name s \<Longrightarrow> token_match_name s = None \<Longrightarrow> spelled (Name s) s"
| spelled_zero: "spelled (Int_literal 0) ''0''"
| spelled_int: "is_decimal s \<Longrightarrow> spelled (Int_literal (decimal s)) s"
| spelled_long: "is_decimal s \<Longrightarrow> spelled (Long_literal (decimal s)) (s @ ''l'')"
| spelled_char: "c \<notin> {CHR 0x5C, newline, NUL} \<Longrightarrow>
    spelled (Char_literal (of_nat (code_of c))) (CHR 0x27 # c # [CHR 0x27])"

text \<open>A line in which a blank follows each lexeme.\<close>

definition line_text :: "string list \<Rightarrow> string" where
  "line_text ws = concat (map (\<lambda>w. w @ [blank]) ws)"

subsection \<open>Words\<close>

text \<open>The tokeniser behind the blanks, with the first character of its buffer cleared.\<close>

definition cleared :: "finsh_token \<Rightarrow> finsh_token" where
  "cleared t = t\<lparr>tk_string := NUL # drop 1 (tk_string t)\<rparr>"

lemma at_cleared: "at t r \<Longrightarrow> at (cleared t) r"
  by (auto simp: at_def cleared_def FINSH_STRING_MAX_def)

lemma put_empty: "at t r \<Longrightarrow> put_string [] (tk_string t) = Some (NUL # drop 1 (tk_string t))"
  by (simp add: put_string_def at_def FINSH_STRING_MAX_def)

lemma at_not_eof: "at t r \<Longrightarrow> \<not> tk_eof t"
  by (simp add: at_def)

text \<open>A word that is not a name leaves the tokeniser in front of it.\<close>

lemma get_no_string:
  assumes "at t (c # r)" "c \<noteq> newline" "is_digit c \<or> is_separator c"
  shows "token_get_string t = Some (cleared t)"
proof -
  note n = at_next [OF assms(1,2)]
  have eof: "\<not> tk_eof t" using assms(1) by (rule at_not_eof)
  have prv: "token_prev_char ((moved 1 t)\<lparr>tk_string := b\<rparr>) = t\<lparr>tk_string := b\<rparr>" for b
    using eof by (simp add: token_prev_char_def)
  have prv2: "token_prev_char ((moved 1 t)\<lparr>tk_eof := False, tk_string := b\<rparr>) = t\<lparr>tk_string := b\<rparr>" for b
    using eof by (cases t) (simp add: token_prev_char_def)
  show ?thesis
  proof (cases "is_digit c")
    case True
    then show ?thesis using n put_empty [OF assms(1)] eof prv by (simp add: token_get_string_def cleared_def)
  next
    case False
    then have "scan (\<lambda>c. \<not> is_separator c) c (moved 1 t) = ([], c, moved 1 t)" using assms(3) scan_stop by auto
    then show ?thesis
      using n put_empty [OF assms(1)] eof prv2 False by (simp add: token_get_string_def cleared_def)
  qed
qed

lemma get_name:
  assumes "at t (s @ blank # r)" "is_name s"
  shows "\<exists>b. token_get_string t = Some (moved (length s) t\<lparr>tk_string := b\<rparr>) \<and> c_str b = Some s \<and> b ! 0 \<noteq> NUL \<and>
    length b = FINSH_STRING_MAX"
proof -
  obtain c s' where s: "s = c # s'" using assms(2) by (cases s) (auto simp: is_name_def)
  have sep: "is_separator newline" "is_separator blank" "is_separator NUL"
    by (simp_all add: is_separator_def newline_def less_eq_char_def)
  have c: "\<not> is_digit c" "\<not> is_separator c" "c \<noteq> newline" "\<forall>d \<in> set s'. \<not> is_separator d \<and> d \<noteq> newline"
    "NUL \<notin> set s" "c \<noteq> NUL" "length s < FINSH_STRING_MAX"
    using assms(2) sep s by (auto simp: is_name_def)
  have n: "token_next_char t = (c, moved 1 t)" "at (moved 1 t) (s' @ blank # r)"
    using at_next [of t c "s' @ blank # r"] assms(1) s c(3) by simp_all
  have eof: "\<not> tk_eof t" and len: "length (tk_string t) = FINSH_STRING_MAX" using assms(1) by (simp_all add: at_def)
  have "scan (\<lambda>c. \<not> is_separator c) c (moved 1 t) = (c # s', blank, moved (Suc (length s')) (moved 1 t))"
    by (rule scan_at [OF n(2) c(4)]) (use c sep in \<open>simp_all add: newline_def\<close>)
  then have sc: "scan (\<lambda>c. \<not> is_separator c) c (moved 1 t) = (s, blank, moved (Suc (length s)) t)" using s by simp
  let ?b = "s @ NUL # drop (length s + 1) (tk_string t)"
  have put: "put_string s (tk_string t) = Some ?b" using c(7) len by (simp add: put_string_def)
  have prv: "token_prev_char ((moved (Suc (length s)) t)\<lparr>tk_eof := False, tk_string := b\<rparr>) =
      moved (length s) t\<lparr>tk_string := b\<rparr>" for b
    using eof by (cases t) (simp add: token_prev_char_def)
  have "token_get_string t = Some (moved (length s) t\<lparr>tk_string := ?b\<rparr>)"
    using n put_empty [OF assms(1)] c(1) sc put eof prv by (simp add: token_get_string_def)
  moreover have "c_str ?b = Some s" using c(5) by (auto simp: c_str_def takeWhile_append)
  moreover have "?b ! 0 \<noteq> NUL" using s c(6) by simp
  moreover have "length ?b = FINSH_STRING_MAX" using c(7) len by simp
  ultimately show ?thesis by blast
qed


subsection \<open>Operators and literals\<close>

lemma at_current: "at t r \<Longrightarrow> at (set_current k t) r"
  by (simp add: at_def set_current_def)

lemma current_set [simp]: "tk_current (set_current k t) = k"
  by (simp add: set_current_def)

lemma at_step: "at t (c # r) \<Longrightarrow> c \<noteq> newline \<Longrightarrow> at (set_current k (moved 1 t)) r"
  by (rule at_current) (rule at_next(2))

text \<open>\<open>gets k r t t'\<close>: the tokeniser has read a token of type \<open>k\<close> and is in front of \<open>r\<close>.\<close>

definition gets :: "finsh_token_type \<Rightarrow> string \<Rightarrow> (finsh_error \<Rightarrow> (finsh_token \<times> finsh_error) option) \<Rightarrow> bool" where
  "gets k r f \<longleftrightarrow> (\<exists>t'. (\<forall>e. f e = Some (t', e)) \<and> tk_current t' = k \<and> at t' r)"

lemma getsI: "(\<And>e. f e = Some (t', e)) \<Longrightarrow> tk_current t' = k \<Longrightarrow> at t' r \<Longrightarrow> gets k r f"
  by (auto simp: gets_def)

lemma double_one:
  assumes "at t (blank # r)" "c \<noteq> blank"
  shows "double_char c two one t = set_current one t"
proof -
  have "token_next_char t = (blank, moved 1 t)" by (rule at_next [OF assms(1)]) (simp add: newline_def)
  then show ?thesis using at_prev [OF assms(1), of 0] assms(2) by (simp add: double_char_def)
qed

lemma double_two: "at t (c # r) \<Longrightarrow> c \<noteq> newline \<Longrightarrow> double_char c two one t = set_current two (moved 1 t)"
  by (simp add: double_char_def at_next(1))

lemma single_operator:
  assumes "at t (c # r)" "c \<noteq> newline" "\<And>e. token_operator t e = Some (set_current k (moved 1 t), e)"
  shows "gets k r (token_operator t)"
  by (rule getsI [where t' = "set_current k (moved 1 t)"]) (use assms at_step in auto)

lemma alone_operator:
  assumes "at t (c # blank # r)" "c \<noteq> newline" "c \<noteq> blank"
    "\<And>e. token_operator t e = Some (double_char c two k (moved 1 t), e)"
  shows "gets k (blank # r) (token_operator t)"
  using assms(2,4) double_one [OF at_next(2) [OF assms(1,2)] assms(3)]
  by (intro single_operator [OF assms(1)]) simp_all

lemma doubled_operator:
  assumes "at t (c # c # r)" "c \<noteq> newline" "\<And>e. token_operator t e = Some (double_char c k one (moved 1 t), e)"
  shows "gets k r (token_operator t)"
proof -
  note n = at_next(2) [OF assms(1,2)]
  show ?thesis
    by (rule getsI [where t' = "set_current k (moved 1 (moved 1 t))"])
      (use assms(3) double_two [OF n assms(2)] at_step [OF n assms(2)] in auto)
qed

lemma operator_next:
  assumes "at t (c # r)" "c \<noteq> newline"
  shows "token_next_char t = (c, moved 1 t)"
  using at_next(1) [OF assms] .

lemma token_operator_one:
  assumes "token_next_char t = (c, t1)"
  shows "c = CHR ''('' \<Longrightarrow> token_operator t e = Some (set_current finsh_token_type_left_paren t1, e)"
    "c = CHR '')'' \<Longrightarrow> token_operator t e = Some (set_current finsh_token_type_right_paren t1, e)"
    "c = CHR '','' \<Longrightarrow> token_operator t e = Some (set_current finsh_token_type_comma t1, e)"
    "c = CHR '';'' \<Longrightarrow> token_operator t e = Some (set_current finsh_token_type_semicolon t1, e)"
    "c = CHR ''&'' \<Longrightarrow> token_operator t e = Some (set_current finsh_token_type_and t1, e)"
    "c = CHR ''*'' \<Longrightarrow> token_operator t e = Some (set_current finsh_token_type_mul t1, e)"
    "c = CHR ''|'' \<Longrightarrow> token_operator t e = Some (set_current finsh_token_type_or t1, e)"
    "c = CHR ''%'' \<Longrightarrow> token_operator t e = Some (set_current finsh_token_type_mod t1, e)"
    "c = CHR ''~'' \<Longrightarrow> token_operator t e = Some (set_current finsh_token_type_bitwise t1, e)"
    "c = CHR ''^'' \<Longrightarrow> token_operator t e = Some (set_current finsh_token_type_xor t1, e)"
    "c = CHR ''='' \<Longrightarrow> token_operator t e = Some (set_current finsh_token_type_assign t1, e)"
  by (simp_all add: token_operator_def assms)

lemma token_operator_two:
  assumes "token_next_char t = (c, t1)"
  shows "c = CHR ''+'' \<Longrightarrow> token_operator t e = Some (double_char c finsh_token_type_inc finsh_token_type_add t1, e)"
    "c = CHR ''-'' \<Longrightarrow> token_operator t e = Some (double_char c finsh_token_type_dec finsh_token_type_sub t1, e)"
    "c = CHR ''/'' \<Longrightarrow> token_operator t e = Some (double_char c finsh_token_type_eof finsh_token_type_div t1, e)"
    "c = CHR ''<'' \<Longrightarrow> token_operator t e = Some (double_char c finsh_token_type_shl finsh_token_type_bad t1, e)"
    "c = CHR ''>'' \<Longrightarrow> token_operator t e = Some (double_char c finsh_token_type_shr finsh_token_type_bad t1, e)"
  by (simp_all add: token_operator_def assms)

lemma operator_word:
  assumes "(k, s) \<in> set op_text" "at t (s @ blank # r)"
  shows "gets k (blank # r) (token_operator t)"
proof -
  obtain c s' where s: "s = c # s'" "c \<noteq> newline" "c \<noteq> blank"
    using assms(1) by (auto simp: op_text_def newline_def)
  have n: "token_next_char t = (c, moved 1 t)" using at_next(1) assms(2) s by simp
  note one = single_operator [OF _ s(2)] and alone = alone_operator [OF _ s(2,3)] and two = doubled_operator [OF _ s(2)]
  have "s' = [] \<and> (\<forall>e. token_operator t e = Some (set_current k (moved 1 t), e)) \<or>
      s' = [] \<and> (\<exists>x. \<forall>e. token_operator t e = Some (double_char c x k (moved 1 t), e)) \<or>
      s' = [c] \<and> (\<exists>x. \<forall>e. token_operator t e = Some (double_char c k x (moved 1 t), e))"
    using assms(1) unfolding op_text_def s(1) list.set insert_iff empty_iff prod.inject list.inject
    by (elim disjE conjE FalseE) (simp_all add: token_operator_one [OF n] token_operator_two [OF n] exI)
  then consider
      "s' = []" "\<And>e. token_operator t e = Some (set_current k (moved 1 t), e)"
    | x where "s' = []" "\<And>e. token_operator t e = Some (double_char c x k (moved 1 t), e)"
    | x where "s' = [c]" "\<And>e. token_operator t e = Some (double_char c k x (moved 1 t), e)"
    by blast
  then show ?thesis using assms(2) s(1) by cases (auto intro: one alone two)
qed


lemma digit_not_operator:
  "is_digit c \<Longrightarrow> c \<noteq> newline \<and> c \<notin> set ''(),;&*+-/<>|%~^='' \<and> c \<noteq> CHR 0x27 \<and> c \<noteq> CHR 0x22"
  by (auto simp: is_digit_def newline_def less_eq_char_def)

lemma digit_operator:
  assumes "at t (c # r)" "is_digit c"
  shows "token_operator t e = do { t \<leftarrow> token_proc_number t; Some (t, e) }"
proof -
  have c: "c \<noteq> newline" "c \<notin> set ''(),;&*+-/<>|%~^=''" "c \<noteq> CHR 0x27" "c \<noteq> CHR 0x22"
    using digit_not_operator [OF assms(2)] by auto
  have "token_prev_char (moved 1 t) = t" using at_prev [OF assms(1), of 0] by simp
  then show ?thesis
    using at_next(1) [OF assms(1) c(1)] c(2-4) assms(2) by (simp add: token_operator_def)
qed

lemma at_value: "at (t\<lparr>tk_value := v, tk_current := k\<rparr>) r \<longleftrightarrow> at t r"
  by (simp add: at_def)

lemma zero_word:
  assumes "at t (CHR ''0'' # blank # r)"
  shows "\<exists>t'. (\<forall>e. token_operator t e = Some (t', e)) \<and> holds (Int_literal 0) t' \<and> at t' (blank # r)"
proof -
  note n = at_next [OF assms] 
  have n1: "token_next_char t = (CHR ''0'', moved 1 t)" "at (moved 1 t) (blank # r)"
    using n by (simp_all add: newline_def)
  have n2: "token_next_char (moved 1 t) = (blank, moved 1 (moved 1 t))"
    by (rule at_next(1) [OF n1(2)]) (simp add: newline_def)
  have p: "token_prev_char (moved 1 (moved 1 t)) = moved 1 t" using at_prev [OF n1(2), of 0] by simp
  let ?t = "(moved 1 t)\<lparr>tk_value := 0, tk_current := finsh_token_type_value_int\<rparr>"
  have "token_proc_number t = Some ?t"
    using n1(1) n2 p by (simp add: token_proc_number_def is_octal_def less_eq_char_def)
  then have "token_operator t e = Some (?t, e)" for e
    using digit_operator [OF assms, of e] by (simp add: is_digit_def less_eq_char_def)
  moreover have "at ?t (blank # r)" using n1(2) by (simp add: at_value)
  moreover have "holds (Int_literal 0) ?t" using n1(2) by (simp add: holds_def at_def)
  ultimately show ?thesis by blast
qed

text \<open>The digits of a number up to the character behind them.\<close>

lemma decimal_number:
  assumes "at t (s @ d # r)" "is_decimal s" "\<not> is_digit d" "d \<noteq> newline"
  shows "token_proc_number t = Some (number_suffix d (decimal s) (moved (Suc (length s)) t))"
    "is_digit (hd s)"
proof -
  obtain c s' where s: "s = c # s'" using assms(2) by (cases s) (auto simp: is_decimal_def)
  have nl: "is_digit x \<Longrightarrow> x \<noteq> newline" for x by (auto simp: is_digit_def newline_def less_eq_char_def)
  have c: "is_digit c" "c \<noteq> newline" "c \<noteq> CHR ''0''" "\<forall>x \<in> set s'. is_digit x \<and> x \<noteq> newline"
    using assms(2) s nl by (auto simp: is_decimal_def)
  then show "is_digit (hd s)" using s by simp
  have n: "token_next_char t = (c, moved 1 t)" "at (moved 1 t) (s' @ d # r)"
    using at_next [of t c "s' @ d # r"] assms(1) s c(2) by simp_all
  have "scan is_digit c (moved 1 t) = (c # s', d, moved (Suc (length s')) (moved 1 t))"
    by (rule scan_at [OF n(2) c(4,1) assms(3,4)])
  then show "token_proc_number t = Some (number_suffix d (decimal s) (moved (Suc (length s)) t))"
    using n(1) c(3) s by (simp add: token_proc_number_def decimal_def)
qed

lemma int_word:
  assumes "at t (s @ blank # r)" "is_decimal s"
  shows "\<exists>t'. (\<forall>e. token_operator t e = Some (t', e)) \<and> holds (Int_literal (decimal s)) t' \<and> at t' (blank # r)"
proof -
  have b: "\<not> is_digit blank" "blank \<noteq> newline" by (simp_all add: is_digit_def newline_def less_eq_char_def)
  obtain c s' where s: "s = c # s'" using assms(2) by (cases s) (auto simp: is_decimal_def)
  note num = decimal_number [OF assms b]
  let ?t = "moved (length s) t\<lparr>tk_value := decimal s, tk_current := finsh_token_type_value_int\<rparr>"
  have eof: "\<not> tk_eof t" using at_not_eof [OF assms(1)] .
  have "number_suffix blank (decimal s) (moved (Suc (length s)) t) = ?t"
    using eof by (simp add: number_suffix_def token_prev_char_def)
  then have "token_operator t e = Some (?t, e)" for e
    using digit_operator [of t c "s' @ blank # r" e] assms(1) num s by simp
  moreover have a: "at (moved (length s) t) (blank # r)" using at_moved [OF assms(1)] .
  moreover have "at ?t (blank # r)" using a by (simp add: at_value)
  moreover have "holds (Int_literal (decimal s)) ?t" using a by (simp add: holds_def at_def)
  ultimately show ?thesis by blast
qed

lemma long_word:
  assumes "at t (s @ CHR ''l'' # blank # r)" "is_decimal s"
  shows "\<exists>t'. (\<forall>e. token_operator t e = Some (t', e)) \<and> holds (Long_literal (decimal s)) t' \<and> at t' (blank # r)"
proof -
  have b: "\<not> is_digit (CHR ''l'')" "CHR ''l'' \<noteq> newline" by (simp_all add: is_digit_def newline_def less_eq_char_def)
  obtain c s' where s: "s = c # s'" using assms(2) by (cases s) (auto simp: is_decimal_def)
  note num = decimal_number [OF assms b]
  let ?t = "moved (Suc (length s)) t\<lparr>tk_value := decimal s, tk_current := finsh_token_type_value_long\<rparr>"
  have "number_suffix (CHR ''l'') (decimal s) (moved (Suc (length s)) t) = ?t"
    by (simp add: number_suffix_def)
  then have "token_operator t e = Some (?t, e)" for e
    using digit_operator [of t c "s' @ CHR ''l'' # blank # r" e] assms(1) num s by simp
  moreover have a: "at (moved (Suc (length s)) t) (blank # r)"
    using at_moved [of t "s @ ''l''" "blank # r"] assms(1) by simp
  moreover have "at ?t (blank # r)" using a by (simp add: at_value)
  moreover have "holds (Long_literal (decimal s)) ?t" using a by (simp add: holds_def at_def)
  ultimately show ?thesis by blast
qed

lemma low_byte_char: "ucast ((v AND NOT 0xff) OR of_nat n :: u32) = (of_nat n :: u8)"
proof -
  have "ucast ((v AND NOT (mask 8)) OR x :: u32) = (ucast x :: u8)" for x
    by (rule bit_word_eqI) (auto simp: bit_simps)
  moreover have "(0xff :: u32) = mask 8" by (simp add: mask_eq_exp_minus_1)
  moreover have "(ucast (of_nat n :: u32) :: u8) = of_nat n" by (rule bit_word_eqI) (auto simp: bit_simps)
  ultimately show ?thesis by (simp only:)
qed

lemma char_word:
  assumes "at t (CHR 0x27 # c # CHR 0x27 # r)" "c \<notin> {CHR 0x5C, newline, NUL}"
  shows "\<exists>t'. (\<forall>e. token_operator t e = Some (t', e)) \<and> holds (Char_literal (of_nat (code_of c))) t' \<and> at t' r"
proof -
  have q: "CHR 0x27 \<noteq> newline" by (simp add: newline_def)
  note n1 = at_next [OF assms(1) q]
  have n2: "token_next_char (moved 1 t) = (c, moved 1 (moved 1 t))" "at (moved 1 (moved 1 t)) (CHR 0x27 # r)"
    using at_next [OF n1(2)] assms(2) by simp_all
  note n3 = at_next [OF n2(2) q]
  let ?t3 = "moved 1 (moved 1 (moved 1 t))"
  let ?t = "?t3\<lparr>tk_value := (tk_value t AND NOT 0xff) OR of_nat (code_of c), tk_current := finsh_token_type_value_char\<rparr>"
  have "token_proc_char (moved 1 t) e = Some (c, ?t3, e)" for e
    using n2(1) n3(1) assms(2) by (simp add: token_proc_char_def)
  then have "token_operator t e = Some (?t, e)" for e
    using n1(1) by (simp add: token_operator_def)
  moreover have "at ?t r" using n3(2) by (simp only: at_value)
  moreover have "holds (Char_literal (of_nat (code_of c))) ?t"
    using n3(2) low_byte_char [of "tk_value t" "code_of c"] by (simp add: holds_def at_def)
  ultimately show ?thesis by blast
qed


subsection \<open>A word\<close>

text \<open>Behind the word, in front of the blank, the tokeniser holds the lexeme.\<close>

definition reads_word :: "lexeme \<Rightarrow> string \<Rightarrow> finsh_token \<Rightarrow> bool" where
  "reads_word L r t \<longleftrightarrow> (\<exists>t'. (\<forall>e. token_run t e = Some (t', e)) \<and> holds L t' \<and> at t' r)"

lemma operator_run:
  assumes "token_trim_space t = t1" "at t1 (c # r)" "c \<noteq> newline" "is_digit c \<or> is_separator c"
    and "\<exists>t'. (\<forall>e. token_operator (cleared t1) e = Some (t', e)) \<and> holds L t' \<and> at t' r'"
  shows "reads_word L r' t"
proof -
  obtain t' where t': "\<And>e. token_operator (cleared t1) e = Some (t', e)" "holds L t'" "at t' r'" using assms(5) by blast
  have "token_get_string t1 = Some (cleared t1)" by (rule get_no_string [OF assms(2-4)])
  moreover have "\<not> tk_eof (cleared t1)" using at_not_eof [OF at_cleared [OF assms(2)]] .
  moreover have "tk_string (cleared t1) ! 0 = NUL" by (simp add: cleared_def)
  ultimately have "token_run t e = Some (t', e)" for e
    using t'(1) assms(1) by (simp add: token_run_def)
  then show ?thesis using t' unfolding reads_word_def by blast
qed

lemma name_run:
  assumes "token_trim_space t = t1" "at t1 (s @ blank # r)" "is_name s"
    and "case token_match_name s of Some k \<Rightarrow> L = Op k | None \<Rightarrow> L = Name s"
  shows "reads_word L (blank # r) t"
proof -
  let ?k = "case token_match_name s of Some k \<Rightarrow> k | None \<Rightarrow> finsh_token_type_identifier"
  obtain b where b: "token_get_string t1 = Some (moved (length s) t1\<lparr>tk_string := b\<rparr>)" "c_str b = Some s"
    "b ! 0 \<noteq> NUL" "length b = FINSH_STRING_MAX"
    using get_name [OF assms(2,3)] by blast
  let ?t = "set_current ?k (moved (length s) t1\<lparr>tk_string := b\<rparr>)"
  have a: "at (moved (length s) t1) (blank # r)" using at_moved [OF assms(2)] .
  then have "at ?t (blank # r)" using b(4) by (simp add: at_def set_current_def)
  moreover have "token_run t e = Some (?t, e)" for e
    using b(1-3) a assms(1) by (simp add: token_run_def at_def)
  moreover have "holds L ?t"
    using assms(4) b(2) a by (cases "token_match_name s") (simp_all add: holds_def set_current_def at_def)
  ultimately show ?thesis unfolding reads_word_def by blast
qed

lemma name_table_checked: "list_all (\<lambda>(s, k). is_name s \<and> token_match_name s = Some k) finsh_name_table"
  by code_simp

lemma name_table_names: "(s, k) \<in> set finsh_name_table \<Longrightarrow> is_name s \<and> token_match_name s = Some k"
  using name_table_checked by (auto simp: list_all_iff)

lemma op_text_checked: "list_all (\<lambda>(k, s). s \<noteq> [] \<and> is_separator (hd s) \<and> \<not> white (hd s) \<and> hd s \<noteq> newline) op_text"
  by code_simp

lemma op_text_starts: "(k, s) \<in> set op_text \<Longrightarrow> \<exists>c s'. s = c # s' \<and> is_separator c \<and> \<not> white c \<and> c \<noteq> newline"
  using op_text_checked by (cases s) (auto simp: list_all_iff)

lemma digit_starts: "is_digit c \<Longrightarrow> \<not> white c \<and> c \<noteq> newline"
  by (auto simp: is_digit_def white_def newline_def less_eq_char_def)

lemma name_starts: "is_name s \<Longrightarrow> \<exists>c s'. s = c # s' \<and> \<not> white c \<and> c \<noteq> newline"
  by (cases s) (auto simp: is_name_def white_def newline_def is_separator_def less_eq_char_def)

lemma decimal_starts: "is_decimal s \<Longrightarrow> \<exists>c s'. s = c # s' \<and> is_digit c \<and> \<not> white c \<and> c \<noteq> newline"
  using digit_starts by (cases s) (auto simp: is_decimal_def)

lemma gets_operator:
  assumes "gets k r (token_operator t)"
  shows "\<exists>t'. (\<forall>e. token_operator t e = Some (t', e)) \<and> holds (Op k) t' \<and> at t' r"
proof -
  obtain t' where t': "\<And>e. token_operator t e = Some (t', e)" "tk_current t' = k" "at t' r"
    using assms by (auto simp: gets_def)
  have "holds (Op k) t'" using t'(2,3) by (simp add: holds_def at_def)
  then show ?thesis using t' by blast
qed

lemma word_read:
  assumes "spelled L w" "at t (bs @ w @ blank # r)" "set bs \<subseteq> {blank}"
  shows "reads_word L (blank # r) t"
proof -
  let ?t1 = "moved (length bs) t"
  have trim: "token_trim_space t = ?t1" "at ?t1 (w @ blank # r)"
    if "w = c # w'" "\<not> white c" "c \<noteq> newline" for c w'
    using trim_at [of t bs c "w' @ blank # r"] assms(2,3) that by simp_all
  have c: "at (cleared ?t1) (w @ blank # r)" if "at ?t1 (w @ blank # r)" using at_cleared [OF that] .
  have digit: "reads_word L (blank # r) t"
    if d: "w = d # w'" "is_digit d"
      and s: "at ?t1 (w @ blank # r) \<Longrightarrow>
        \<exists>t'. (\<forall>e. token_operator (cleared ?t1) e = Some (t', e)) \<and> holds L t' \<and> at t' (blank # r)" for d w'
  proof -
    have st: "\<not> white d" "d \<noteq> newline" using digit_starts [OF d(2)] by simp_all
    note tr = trim [OF d(1) st]
    have "at ?t1 (d # w' @ blank # r)" using tr(2) d(1) by simp
    then show ?thesis using operator_run [OF tr(1) _ st(2)] d(2) s [OF tr(2)] by blast
  qed
  from assms(1) show ?thesis
  proof cases
    case (spelled_op k)
    then obtain d w' where d: "w = d # w'" "is_separator d" "\<not> white d" "d \<noteq> newline" using op_text_starts by blast
    note tr = trim [OF d(1,3,4)]
    have "at ?t1 (d # w' @ blank # r)" using tr(2) d(1) by simp
    then show ?thesis
      using operator_run [OF tr(1) _ d(4)] d(2) gets_operator [OF operator_word [OF spelled_op(2) c [OF tr(2)]]]
        spelled_op(1) by blast
  next
    case (spelled_word k)
    note nm = name_table_names [OF spelled_word(2)]
    then obtain d w' where d: "w = d # w'" "\<not> white d" "d \<noteq> newline" using name_starts by blast
    show ?thesis using name_run [OF trim [OF d]] nm spelled_word(1) by simp
  next
    case spelled_name
    then obtain d w' where d: "w = d # w'" "\<not> white d" "d \<noteq> newline" using name_starts by blast
    show ?thesis using name_run [OF trim [OF d]] spelled_name by simp
  next
    case spelled_zero
    show ?thesis
      by (rule digit [of "CHR ''0''" "[]"]) (use spelled_zero c zero_word in \<open>auto simp: is_digit_def less_eq_char_def\<close>)
  next
    case (spelled_int)
    then obtain d w' where d: "w = d # w'" "is_digit d" using decimal_starts by blast
    show ?thesis by (rule digit [OF d]) (use spelled_int c int_word in auto)
  next
    case (spelled_long s)
    then obtain d w' where d: "w = d # w'" "is_digit d" using decimal_starts [of s] by auto
    show ?thesis by (rule digit [OF d]) (use spelled_long c long_word in auto)
  next
    case (spelled_char ch)
    have q: "\<not> white (CHR 0x27)" "CHR 0x27 \<noteq> newline" "is_separator (CHR 0x27)"
      by (simp_all add: white_def newline_def is_separator_def less_eq_char_def)
    have w: "w = CHR 0x27 # ch # [CHR 0x27]" using spelled_char(2) .
    note tr = trim [OF w q(1,2)]
    have "at ?t1 (CHR 0x27 # ch # CHR 0x27 # blank # r)" using tr(2) w by simp
    then show ?thesis
      using operator_run [OF tr(1) _ q(2)] q(3) char_word [OF at_cleared spelled_char(3)] spelled_char(1) by blast
  qed
qed


subsection \<open>A line\<close>

lemma at_end:
  assumes "at t []"
  shows "token_next_char t = (NUL, t\<lparr>tk_eof := True, tk_position := 0\<rparr>)"
  using assms by (simp add: at_def token_next_char_def)

lemma eof_chars: "tk_eof t \<Longrightarrow> token_next_char t = (NUL, t)" "tk_eof t \<Longrightarrow> token_prev_char t = t"
  by (simp_all add: token_next_char_def token_prev_char_def)

lemma end_read:
  assumes "at t bs" "bs \<in> {[], [blank]}"
  shows "reads t [Op finsh_token_type_eof]"
proof -
  let ?fin = "\<lambda>n. (moved n t)\<lparr>tk_eof := True, tk_position := 0\<rparr>"
  have w: "(\<lambda>c. c \<in> {blank, CHR 0x09, CHR 0x0D}) = white" by (auto simp: white_def)
  have nw: "\<not> white NUL" by (simp add: white_def)
  have "token_trim_space t = ?fin (length bs)"
  proof (cases "bs = []")
    case True
    then show ?thesis
      using at_end [of t] assms(1) scan_stop [of white, OF nw] eof_chars unfolding token_trim_space_def w by simp
  next
    case False
    then have b: "bs = [blank]" using assms(2) by simp
    have n: "token_next_char t = (blank, moved 1 t)" "at (moved 1 t) []"
      using at_next [of t blank "[]"] assms(1) b by (simp_all add: newline_def)
    have "scan white blank (moved 1 t) = ([blank], NUL, ?fin 1)"
      using at_end [OF n(2)] scan_stop [of white, OF nw] at_not_eof [OF n(2)]
      by (subst scan.simps) (simp add: white_def)
    then show ?thesis using n(1) b eof_chars unfolding token_trim_space_def w by simp
  qed
  moreover have "token_get_string (?fin (length bs)) = Some (?fin (length bs))"
    by (simp add: token_get_string_def eof_chars)
  ultimately have "token_run t e = Some (set_current finsh_token_type_eof (?fin (length bs)), e)" for e
    by (simp add: token_run_def)
  moreover have "\<not> tk_replay t" using assms(1) by (simp add: at_def)
  ultimately show ?thesis
    by (intro reads_Cons [OF _ _ reads_Nil]) (auto simp: finsh_token_token_def holds_def set_current_def)
qed

lemma line_read:
  assumes "list_all2 spelled Ls ws" "at t (bs @ line_text ws)" "bs \<in> {[], [blank]}"
  shows "reads t (Ls @ [Op finsh_token_type_eof])"
  using assms
proof (induction arbitrary: t bs rule: list_all2_induct)
  case Nil
  then show ?case using end_read [of t bs] by (simp add: line_text_def)
next
  case (Cons L Ls w ws)
  have "at t (bs @ w @ blank # line_text ws)" using Cons.prems(1) by (simp add: line_text_def)
  then have "reads_word L (blank # line_text ws) t" 
    by (rule word_read [OF Cons.hyps(1)]) (use Cons.prems(2) in auto)
  then obtain t' where t': "\<And>e. token_run t e = Some (t', e)" "holds L t'" "at t' ([blank] @ line_text ws)"
    by (auto simp: reads_word_def)
  have "\<not> tk_replay t" using Cons.prems(1) by (simp add: at_def)
  then have "finsh_token_token t e = Some (lexeme_type L, t', e)" for e
    using t'(1,2) by (simp add: finsh_token_token_def holds_def)
  moreover have "reads t' (Ls @ [Op finsh_token_type_eof])" using Cons.IH [OF t'(3)] by simp
  ultimately show ?case using t'(2) by (auto intro: reads_Cons)
qed

lemma line_reads:
  assumes "list_all2 spelled Ls ws"
  shows "reads (finsh_token_init (line_text ws)) (Ls @ [Op finsh_token_type_eof])"
proof (rule line_read [OF assms])
  show "at (finsh_token_init (line_text ws)) ([] @ line_text ws)" by (simp add: at_def finsh_token_init_def)
qed simp

end
