(* ===== verification/Finsh_Bounds.thy ===== *)
theory Finsh_Bounds
  imports Finsh_Compiler
begin

text \<open>
  How long the code of a line gets.  The compiler does not compare its position with the end of the
  text segment, so this bound is what keeps it inside: every node costs at most twelve bytes, and
  ten nodes always fit.
\<close>

fun node_count :: "finsh_node list \<Rightarrow> nat" where
  "node_count [] = 0"
| "node_count (Node t d ad v i ch # ns) = 1 + node_count ch + node_count ns"

text \<open>
  The bytes below twelve that each root of a list leaves unused.  A step of a variable takes 18 bytes
  and so draws on what its identifier leaves.
\<close>

fun unused :: "finsh_node list \<Rightarrow> nat" where
  "unused [] = 0"
| "unused (n # ns) = (if node_type n = FINSH_NODE_ID then 7 else 1) + unused ns"

lemma width_code_length: "(\<And>w. length (f w) \<le> k) \<Longrightarrow> length (width_code f d) \<le> k"
  by (simp add: width_code_def split: option.splits)

lemma step_code_length: "length (step_code f a w) \<le> 12"
  by (cases w) (simp_all add: step_code_def FINSH_SET16_def FINSH_SET32_def)

lemma load_code_length: "length (load_code ty ad a) \<le> 5"
  by (simp add: load_code_def FINSH_SET32_def split: option.splits)

lemma id_code_length: "length (id_code y i ad) \<le> 5"
  by (cases i) (simp_all add: load_code_length FINSH_SET32_def)

lemma pre_code_length: "length (pre_code y f d ch) \<le> 11 + unused ch"
proof (cases ch)
  case (Cons c cs)
  obtain t d' ad v i ch' where c: "c = Node t d' ad v i ch'" by (cases c)
  have "length (width_code (\<lambda>w. step_code f (id_value_address y i) w @ [FINSH_OP_LD_VALUE_STACK Dword]) d) \<le> 13"
    by (rule width_code_length) (use step_code_length in \<open>simp add: le_Suc_eq\<close>)
  then show ?thesis by (auto simp: Cons c pre_code_def)
qed (simp add: pre_code_def)

lemma post_code_length: "length (post_code y f d ch) \<le> 11 + unused ch"
proof (cases ch)
  case (Cons c cs)
  obtain t d' ad v i ch' where c: "c = Node t d' ad v i ch'" by (cases c)
  have "length (FINSH_OP_LD Dword # FINSH_SET32 a @ step_code f a w @ [FINSH_OP_POP]) \<le> 18" for a w
    using step_code_length [of f a w] by (simp add: FINSH_SET32_def)
  then have "length (width_code (\<lambda>w. FINSH_OP_LD Dword # FINSH_SET32 (id_value_address y i) @
      step_code f (id_value_address y i) w @ [FINSH_OP_POP]) d) \<le> 18"
    by (rule width_code_length)
  then show ?thesis by (auto simp: Cons c post_code_def)
qed (simp add: post_code_def)

lemma node_code_length:
  "length (fst (node_code y (Node t d ad v i ch) err)) + (if t = FINSH_NODE_ID then 7 else 1) \<le> 12 + unused ch"
proof -
  have w: "length (width_code (\<lambda>w. [f w]) d) \<le> 11 + unused ch" for f :: "width \<Rightarrow> u8"
    by (rule width_code_length) simp
  show ?thesis
    using w [of "FINSH_OP f" for f] w [of FINSH_OP_BITWISE] w [of FINSH_OP_LD_VALUE_STACK] id_code_length [of y i ad]
      pre_code_length [of y _ d ch] post_code_length [of y _ d ch]
    by (cases t) (auto simp: node_code_def Let_def FINSH_SET32_def le_SucI trans_le_add1
        split: list.splits finsh_node.splits node_kind.splits option.splits)
qed

lemma compile_length: "length (fst (finsh_compile y ns err)) + unused ns \<le> 12 * node_count ns"
proof (induction y ns err rule: finsh_compile.induct)
  case (2 y t d ad v i ch sibling err)
  obtain c1 e1 where c1: "finsh_compile y ch err = (c1, e1)" by fastforce
  obtain c2 e2 where c2: "node_code y (Node t d ad v i ch) e1 = (c2, e2)" by fastforce
  obtain c3 e3 where c3: "finsh_compile y sibling e2 = (c3, e3)" by fastforce
  have "length c1 + unused ch \<le> 12 * node_count ch" using 2(1) c1 by simp
  moreover have "length c3 + unused sibling \<le> 12 * node_count sibling" using 2(2) c1 c2 c3 by simp
  moreover have "length c2 + (if t = FINSH_NODE_ID then 7 else 1) \<le> 12 + unused ch"
    using node_code_length [of y t d ad v i ch e1] c2 by simp
  ultimately show ?case by (simp add: c1 c2 c3)
qed simp

lemma statements_length: "length (fst (compile_statements y ns err)) \<le> 12 * node_count ns"
proof (induction y ns err rule: compile_statements.induct)
  case (2 y n sibling err)
  obtain c1 e1 where c1: "finsh_compile y [n] err = (c1, e1)" by fastforce
  obtain c2 e2 where c2: "compile_statements y sibling e1 = (c2, e2)" by fastforce
  have "length c1 + unused [n] \<le> 12 * node_count [n]" using compile_length [of y "[n]" err] c1 by simp
  moreover have "1 \<le> unused [n]" by simp
  moreover have "length c2 \<le> 12 * node_count sibling" using 2 c1 c2 by simp
  moreover have "node_count (n # sibling) = node_count [n] + node_count sibling" by (cases n) simp
  ultimately show ?case by (auto simp: c1 c2)
qed simp

lemma type_check_count: "node_count (fst (finsh_type_check y ns is_addr err)) = node_count ns"
  by (induction y ns is_addr err rule: finsh_type_check.induct) (auto simp: Let_def split: prod.splits list.splits)

text \<open>C20. Every tree of at most ten nodes compiles into the text segment: no line that the parser
  accepts with so few nodes can write past it.\<close>

lemma finsh_text_fits:
  assumes "node_count root \<le> 10"
  shows "\<exists>err' s'. finsh_compiler_run y root err s = Some (err', s') \<and> length (text_segment s') = FINSH_TEXT_MAX"
proof -
  obtain root' e1 where t: "finsh_type_check y root False err = (root', e1)" by fastforce
  obtain code e2 where c: "compile_statements y root' e1 = (code, e2)" by fastforce
  have "length code \<le> FINSH_TEXT_MAX"
    using statements_length [of y root' e1] type_check_count [of y root False err] assms t c
    by (simp add: FINSH_TEXT_MAX_def)
  then show ?thesis by (simp add: finsh_compiler_run_def t c RT_ASSERT_bind)
qed

end
