(* ===== verification/Finsh_Lines.thy ===== *)
theory Finsh_Lines
  imports Finsh_Shell Finsh_Sticky Finsh_Text Finsh_Bounds
begin

text \<open>
  Lines of the finsh shell from their text on: the syntax trees of a line of expressions, the value that the
  shell prints for it, and the errors that keep a line from being run.
\<close>

subsection \<open>Syntax trees of a line\<close>

lemma line_parsed:
  assumes "list_all2 spelled Ls ws" "statements y Ls ns k" "ns \<noteq> []"
    and "ps_symbols p = y" "ps_nodes p + k \<le> FINSH_NODE_MAX"
  shows "\<exists>t. finsh_parser_run (line_text ws) p = Some (ns, p\<lparr>ps_nodes := ps_nodes p + k, ps_token := t\<rparr>)"
proof -
  let ?q = "p\<lparr>ps_token := finsh_token_init (line_text ws)\<rparr>"
  have "behind ?q 0 (Ls @ [Op finsh_token_type_eof]) ?q"
    using line_reads [OF assms(1)] by (auto simp: behind_def)
  then obtain t p1 p' where r: "next_token ?q = Some (t, p1)" "statement_loop t [] [] p1 = Some (ns, p')"
    "behind ?q k [] p'"
    using statements_parsed [OF assms(2), of ?q 0 "[]" ?q] assms(3-5) by auto
  then show ?thesis by (auto simp: finsh_parser_run_def behind_def)
qed

subsection \<open>The value of a line\<close>

lemma line_value:
  assumes "list_all2 spelled Ls ws" "statements y Ls ns k" "k \<le> FINSH_NODE_MAX"
    and "ps_symbols p = y" "ps_nodes p = 0" "ps_error p = FINSH_ERROR_OK" "ps_memory p = finsh_memory s"
    and "statements_typing y ns = Some w" "statements_eval y sys ns (finsh_memory s) = Some (v, m')"
    and "length (finsh_vm_stack s) = FINSH_STACK_MAX" "finsh_compiler_run y ns FINSH_ERROR_OK s \<noteq> None"
  shows "\<exists>s'. finsh_run_line sys (line_text ws) p s =
      Some (finsh_value (finsh_stack_bottom s'), finsh_flush (p\<lparr>ps_memory := m'\<rparr>), s') \<and>
    slot_get w (finsh_stack_bottom s') = slot_get w v \<and> finsh_memory s' = m'"
proof -
  have ne: "ns \<noteq> []" using assms(8) by auto
  obtain t where t: "finsh_parser_run (line_text ws) p = Some (ns, p\<lparr>ps_nodes := ps_nodes p + k, ps_token := t\<rparr>)"
    using line_parsed [OF assms(1,2) ne assms(4)] assms(3,5) by auto
  obtain err s1 where c: "finsh_compiler_run y ns FINSH_ERROR_OK s = Some (err, s1)" using assms(11) by auto
  obtain s2 where err: "err = FINSH_ERROR_OK" and s2: "finsh_vm_run sys s1 = Some s2"
    "slot_get w (finsh_stack_bottom s2) = slot_get w v" "finsh_memory s2 = m'"
    using finsh_line_compiled [OF assms(8-10) c] by blast
  have "finsh_memory s1 = finsh_memory s"
    using c by (auto simp: finsh_compiler_run_def Let_def split: prod.splits if_splits)
  then have "s1\<lparr>finsh_memory := ps_memory p\<rparr> = s1" using assms(7) by simp
  then have "finsh_run_line sys (line_text ws) p s =
      Some (finsh_value (finsh_stack_bottom s2), finsh_flush (p\<lparr>ps_memory := m'\<rparr>), s2)"
    using t c err s2(1,3) assms(4,6)
    by (simp add: finsh_run_line_def finsh_error_set_def finsh_flush_def finsh_error_init_def finsh_node_init_def
        finsh_parser_init_def)
  then show ?thesis using s2(2,3) by blast
qed


subsection \<open>Lines that are not run\<close>

lemma parser_run_failed: "failed p \<Longrightarrow> finsh_parser_run line p = Some (ns, p') \<Longrightarrow> failed p'"
  by (auto simp: finsh_parser_run_def bind_eq_Some_conv failed_def
      dest!: next_token_sticks [unfolded failed_def] statements_failed [unfolded failed_def])

lemma line_failed:
  assumes "finsh_run_line sys line p s = Some (out, p', s')"
    and "\<And>ns p1. finsh_parser_run line p = Some (ns, p1) \<Longrightarrow> failed p1"
  shows "\<exists>msg. out = Line_error msg" "s' = s"
  using assms by (auto simp: finsh_run_line_def failed_def bind_eq_Some_conv)

lemma paren_line_failed:
  assumes "reads (finsh_token_init line) (Op finsh_token_type_left_paren # L # Ls)"
    and "\<not> is_base_type (lexeme_type L)" "lexeme_type L \<noteq> finsh_token_type_unsigned"
    and "finsh_parser_run line p = Some (ns, p')"
  shows "failed p'"
proof -
  let ?q = "p\<lparr>ps_token := finsh_token_init line\<rparr>" and ?all = "Op finsh_token_type_left_paren # L # Ls"
  have "behind ?q 0 ?all ?q" using assms(1) by (auto simp: behind_def)
  then obtain p1 where p1: "next_token ?q = Some (finsh_token_type_left_paren, p1)" "behind ?q 0 ?all (replay p1)"
    by (auto elim: behind_next)
  obtain p2 where p2: "next_token (replay p1) = Some (finsh_token_type_left_paren, p2)" "behind ?q 0 ?all (replay p2)"
    using p1(2) by (auto elim: behind_next)
  have "all_failed (parse Assign_expr (replay p2))"
    by (rule paren_assign_failed [OF behind_reads [OF p2(2)] assms(2,3)])
  then have "all_failed (proc_expr_statement (replay p1))"
    using p2(1) unfolding proc_expr_statement_def proc_expr_def proc_assign_expr_def
    by (auto intro!: all_failed_bind all_failed_match)
  then have st: "all_failed (proc_statement finsh_token_type_left_paren [] p1)"
    by (auto simp: proc_statement_def is_base_type_def intro!: all_failed_bind)
  have "statement_loop finsh_token_type_left_paren [] [] p1 = Some (ns, p')"
    using assms(4) p1(1) by (simp add: finsh_parser_run_def)
  then obtain new p3 where n: "proc_statement finsh_token_type_left_paren [] p1 = Some (new, p3)"
    and r: "(case extend_root [] new of (pre, post) \<Rightarrow>
      if pre = [] then Some ([], p3) else do { (k, p) \<leftarrow> next_token p3; statement_loop k pre post p }) = Some (ns, p')"
    by (subst (asm) statement_loop.simps) (auto simp: bind_eq_Some_conv)
  have "failed p3" using st n by (simp add: all_failed_def)
  then show ?thesis
    using r by (auto simp: split_beta bind_eq_Some_conv dest: next_token_sticks statements_failed split: if_splits)
qed

subsection \<open>Example lines\<close>

definition demo_symbols :: finsh_symbols where
  "demo_symbols = \<lparr>var_base = 0x20000000,
     global_variable = \<lparr>var_name = ''a'', var_type = finsh_type_int\<rparr> # replicate 7 no_var,
     sysvar_table = [], global_sysvar_list = [], syscall_table = [], global_syscall_list = []\<rparr>"

definition demo_parser :: finsh_parser where
  "demo_parser = \<lparr>ps_token = finsh_token_init '''', ps_error = FINSH_ERROR_OK, ps_symbols = demo_symbols,
     ps_nodes = 0, ps_memory = (\<lambda>_. 0), ps_heap = \<lparr>heap_base = 0x20001000, free_list = 0, allocate_list = 0\<rparr>\<rparr>"

definition demo_vm :: finsh_vm where
  "demo_vm = \<lparr>finsh_sp = 0, finsh_pc = 0, finsh_vm_stack = replicate FINSH_STACK_MAX 0,
     text_segment = replicate FINSH_TEXT_MAX 0, finsh_memory = (\<lambda>_. 0)\<rparr>"

lemmas demo_line_defs = demo_symbols_def demo_parser_def demo_vm_def

text \<open>\<open>a = 1 + 2 * 3;\<close>\<close>

definition demo_words :: "string list" where
  "demo_words = [''a'', ''='', ''1'', ''+'', ''2'', ''*'', ''3'', '';'']"

definition int_leaf :: "u32 \<Rightarrow> finsh_node" where
  "int_leaf v = Node FINSH_NODE_VALUE_INT FINSH_DATA_TYPE_VOID False v No_id []"

definition demo_tree :: finsh_node where
  "demo_tree = fresh_node FINSH_NODE_SYS_ASSIGN
     [Node FINSH_NODE_ID FINSH_DATA_TYPE_VOID False 0 (Var 0) [],
      fresh_node (FINSH_NODE_SYS Add) [int_leaf 1, fresh_node (FINSH_NODE_SYS Mul) [int_leaf 2, int_leaf 3]]]"

definition demo_lexemes :: "lexeme list" where
  "demo_lexemes = [Name ''a'', Op finsh_token_type_assign, Int_literal 1, Op finsh_token_type_add, Int_literal 2,
     Op finsh_token_type_mul, Int_literal 3, Op finsh_token_type_semicolon]"

lemma leaf_derives: "leaf_node y L = Some n \<Longrightarrow> derives y Cast_expr [L] [n] 1"
  by (rule unary, rule postfix, rule primary, rule leaf)

lemma cast_derives: "derives y Cast_expr Ls [n] k \<Longrightarrow> derives y (Binary Multiplicative) Ls [n] k"
  by (rule operand) simp

lemma level_derives:
  assumes "derives y (Binary Additive) Ls [n] k"
  shows "derives y Assign_expr Ls [n] k" "derives y (Binary Inclusive_or) Ls [n] k"
proof -
  have "derives y (Binary And_level) Ls [n] k"
    using operand [of y And_level Ls n k] operand [of y Shift Ls n k] assms by simp
  then show "derives y (Binary Inclusive_or) Ls [n] k"
    using operand [of y Inclusive_or Ls n k] operand [of y Exclusive_or Ls n k] by simp
  then show "derives y Assign_expr Ls [n] k" by (rule inclusive_or)
qed

lemma demo_derives: "statements demo_symbols demo_lexemes [demo_tree] 7"
proof -
  have i: "derives demo_symbols Cast_expr [Int_literal v] [int_leaf v] 1" for v
    by (rule leaf_derives) (simp add: int_leaf_def finsh_node_new_int_def new_value_def finsh_node_allocate_def FINSH_NODE_MAX_def)
  have a: "derives demo_symbols Cast_expr [Name ''a''] [Node FINSH_NODE_ID FINSH_DATA_TYPE_VOID False 0 (Var 0) []] 1"
    by (rule leaf_derives) (simp add: finsh_node_new_id_def finsh_var_lookup_def demo_symbols_def strncmp_eq_def
        finsh_node_allocate_def FINSH_NODE_MAX_def FINSH_NAME_MAX_def)
  have up: "derives demo_symbols (Binary Additive) Ls [n] k" if "derives demo_symbols (Binary Multiplicative) Ls [n] k" for Ls n k
    using operand [of demo_symbols Additive Ls n k] that by simp
  have "derives demo_symbols (Binary Multiplicative) [Int_literal 2, Op finsh_token_type_mul, Int_literal 3]
      [fresh_node (FINSH_NODE_SYS Mul) [int_leaf 2, int_leaf 3]] 3"
    using binary [OF cast_derives [OF i [of 2]], of finsh_token_type_mul Mul "[Int_literal 3]" "int_leaf 3" 1] i by (simp add: numeral_3_eq_3)
  then have "derives demo_symbols (Binary Additive)
      [Int_literal 1, Op finsh_token_type_add, Int_literal 2, Op finsh_token_type_mul, Int_literal 3]
      [fresh_node (FINSH_NODE_SYS Add) [int_leaf 1, fresh_node (FINSH_NODE_SYS Mul) [int_leaf 2, int_leaf 3]]] 5"
    using binary [OF up [OF cast_derives [OF i [of 1]]], of finsh_token_type_add Add] by (simp add: eval_nat_numeral)
  from assign [OF level_derives(2) [OF up [OF cast_derives [OF a]]] level_derives(1) [OF this]]
  have "derives demo_symbols Assign_expr (butlast demo_lexemes) [demo_tree] 7"
    by (simp add: demo_lexemes_def demo_tree_def)
  from statement [OF this no_statement] show ?thesis by (simp add: demo_lexemes_def)
qed

lemma demo_spelled: "list_all2 spelled demo_lexemes demo_words"
proof -
  have "is_name ''a''" "token_match_name ''a'' = None" by code_simp+
  then have "spelled (Name ''a'') ''a''" by (rule spelled_name)
  moreover have "spelled (Op k) s" if "(k, s) \<in> set op_text" for k s using that by (rule spelled_op)
  moreover have "spelled (Int_literal 1) ''1''" "spelled (Int_literal 2) ''2''" "spelled (Int_literal 3) ''3''"
    using spelled_int [of "''1''"] spelled_int [of "''2''"] spelled_int [of "''3''"]
    by (simp_all add: is_decimal_def is_digit_def less_eq_char_def decimal_def)
  ultimately show ?thesis by (simp add: demo_lexemes_def demo_words_def op_text_def)
qed

lemma demo_text: "line_text demo_words = ''a = 1 + 2 * 3 ; ''"
  by (simp add: line_text_def demo_words_def)

lemma demo_typed: "statements_typing demo_symbols [demo_tree] = Some Dword"
  by code_simp

lemma demo_compiled: "case finsh_compiler_run demo_symbols [demo_tree] FINSH_ERROR_OK demo_vm of None \<Rightarrow> False | Some _ \<Rightarrow> True"
  by code_simp

lemma demo_value:
  "statements_eval demo_symbols sys [demo_tree] m = Some (7, mem_put Dword 7 0x20000014 m)"
  by (simp add: demo_tree_def int_leaf_def demo_symbols_def id_width_def leaf_type_def width_of_def data_type_defs
      value_offset_def var_struct_def)

subsection \<open>Properties\<close>

text \<open>C16. Writing lexemes as text, a blank behind each, and reading the text with the tokeniser gives
  the lexemes back with their values, and then the end of the line.\<close>

lemma finsh_tokens:
  assumes "list_all2 spelled Ls ws"
  shows "reads (finsh_token_init (line_text ws)) (Ls @ [Op finsh_token_type_eof])"
  by (rule line_reads [OF assms])

lemma finsh_tokens_witness: "reads (finsh_token_init ''a = 1 + 2 * 3 ; '') (demo_lexemes @ [Op finsh_token_type_eof])"
  using finsh_tokens [OF demo_spelled] unfolding demo_text .

text \<open>C15. For a line of non-empty expression statements of names the parser knows, decimal int and
  long literals, character literals and null, each lexeme with a blank behind it, that the
  grammar in the comments derives without parenthesised expressions, string literals and other
  bases, and whose nodes fit in what is left of the 16 entries of the node table, the parser
  finds the syntax tree of the derivation: binary operators by their levels and to the left,
  assignments to the right, prefix and postfix operators, casts and calls; it takes one entry
  for each node and sets no error.\<close>

lemma finsh_tree:
  assumes "list_all2 spelled Ls ws" "statements y Ls ns k" "ns \<noteq> []"
    and "ps_symbols p = y" "ps_nodes p + k \<le> FINSH_NODE_MAX"
  shows "\<exists>t. finsh_parser_run (line_text ws) p = Some (ns, p\<lparr>ps_nodes := ps_nodes p + k, ps_token := t\<rparr>)"
  by (rule line_parsed [OF assms])

lemma finsh_tree_witness:
  "\<exists>t. finsh_parser_run ''a = 1 + 2 * 3 ; '' demo_parser = Some ([demo_tree], demo_parser\<lparr>ps_nodes := 7, ps_token := t\<rparr>)"
  using finsh_tree [OF demo_spelled demo_derives, of demo_parser]
  by (simp add: demo_text demo_parser_def FINSH_NODE_MAX_def)

text \<open>C14. For a line of well-typed expressions of at most 16 nodes, with a blank behind each token,
  whose evaluation is defined and whose code fits, the shell leaves the memory that the
  reference semantics of the syntax trees gives and prints its value: the exact one for a value
  of four bytes; for a char or a short the printed word has the low byte or half-word of the
  value, and stale bytes of the stack above it. Tokeniser, parser, compiler and machine together
  agree with the reference.\<close>

lemma finsh_expression_value:
  assumes "list_all2 spelled Ls ws" "statements y Ls ns k" "k \<le> FINSH_NODE_MAX"
    and "ps_symbols p = y" "ps_nodes p = 0" "ps_error p = FINSH_ERROR_OK" "ps_memory p = finsh_memory s"
    and "statements_typing y ns = Some w" "statements_eval y sys ns (finsh_memory s) = Some (v, m')"
    and "length (finsh_vm_stack s) = FINSH_STACK_MAX" "finsh_compiler_run y ns FINSH_ERROR_OK s \<noteq> None"
  shows "\<exists>x s'. finsh_run_line sys (line_text ws) p s =
      Some (finsh_value x, finsh_flush (p\<lparr>ps_memory := m'\<rparr>), s') \<and>
    slot_get w x = slot_get w v \<and> (w = Dword \<longrightarrow> x = v) \<and> finsh_memory s' = m'"
proof -
  obtain s' where s': "finsh_run_line sys (line_text ws) p s =
      Some (finsh_value (finsh_stack_bottom s'), finsh_flush (p\<lparr>ps_memory := m'\<rparr>), s')"
    "slot_get w (finsh_stack_bottom s') = slot_get w v" "finsh_memory s' = m'"
    using line_value [OF assms] by blast
  moreover have "finsh_stack_bottom s' = v" if "w = Dword" using s'(2) that by (simp only: slot_eq_iff)
  ultimately show ?thesis by blast
qed

lemma finsh_expression_value_witness:
  "\<exists>s'. finsh_run_line (\<lambda>_ _ _. None) ''a = 1 + 2 * 3 ; '' demo_parser demo_vm =
      Some (finsh_value 7, finsh_flush (demo_parser\<lparr>ps_memory := mem_put Dword 7 0x20000014 (\<lambda>_. 0)\<rparr>), s') \<and>
    finsh_memory s' = mem_put Dword 7 0x20000014 (\<lambda>_. 0)"
proof -
  have "finsh_compiler_run demo_symbols [demo_tree] FINSH_ERROR_OK demo_vm \<noteq> None"
    using demo_compiled by (cases "finsh_compiler_run demo_symbols [demo_tree] FINSH_ERROR_OK demo_vm") simp_all
  moreover have m: "statements_eval demo_symbols (\<lambda>_ _ _. None) [demo_tree] (finsh_memory demo_vm) =
      Some (7, mem_put Dword 7 0x20000014 (\<lambda>_. 0))"
    using demo_value [of _ "\<lambda>_. 0"] by (simp add: demo_vm_def del: statements_eval.simps mem_put.simps)
  ultimately have "\<exists>x s'. finsh_run_line (\<lambda>_ _ _. None) (line_text demo_words) demo_parser demo_vm =
      Some (finsh_value x, finsh_flush (demo_parser\<lparr>ps_memory := mem_put Dword 7 0x20000014 (\<lambda>_. 0)\<rparr>), s') \<and>
    slot_get Dword x = slot_get Dword 7 \<and> (Dword = Dword \<longrightarrow> x = 7) \<and>
    finsh_memory s' = mem_put Dword 7 0x20000014 (\<lambda>_. 0)"
    by (intro finsh_expression_value [OF demo_spelled demo_derives _ _ _ _ _ demo_typed, OF _ _ _ _ _ m])
      (simp_all add: demo_parser_def demo_vm_def FINSH_NODE_MAX_def)
  then show ?thesis unfolding demo_text by blast
qed

text \<open>
  A character behind a number: the code for \<open>'a'\<close> writes the low byte of the slot only, and the shell
  prints the slot, so it prints 865, which is 1000 with its low byte replaced by 97.
\<close>

lemma finsh_char_value_stale:
  "map_option fst (finsh_run_line (\<lambda>_ _ _. None) ''1000; 'a';'' demo_parser demo_vm) = Some (finsh_value 865)"
  by code_simp

text \<open>C18. A line that begins with a parenthesis without a type behind it is never run: if the shell
  comes back it has printed an error and the machine is as before, although the comments give a
  grammar with parentheses.\<close>

lemma finsh_paren_error:
  assumes "reads (finsh_token_init line) (Op finsh_token_type_left_paren # L # Ls)"
    and "\<not> is_base_type (lexeme_type L)" "lexeme_type L \<noteq> finsh_token_type_unsigned"
  shows "case finsh_run_line sys line p s of
      None \<Rightarrow> True
    | Some (out, p', s') \<Rightarrow> s' = s \<and> (case out of Line_error msg \<Rightarrow> True | _ \<Rightarrow> False)"
proof (cases "finsh_run_line sys line p s")
  case (Some r)
  then obtain out p' s' where r: "finsh_run_line sys line p s = Some (out, p', s')" by (cases r) auto
  from line_failed [OF this] paren_line_failed [OF assms] show ?thesis using r by auto
qed simp

lemma paren_words:
  "list_all2 spelled [Op finsh_token_type_left_paren, Int_literal 1, Op finsh_token_type_add, Int_literal 2,
      Op finsh_token_type_right_paren, Op finsh_token_type_mul, Int_literal 3, Op finsh_token_type_semicolon]
    [''('', ''1'', ''+'', ''2'', '')'', ''*'', ''3'', '';'']"
  using demo_spelled spelled_op [of finsh_token_type_left_paren "''(''"] spelled_op [of finsh_token_type_right_paren "'')''"]
  by (simp add: op_text_def demo_lexemes_def demo_words_def)

lemma finsh_paren_error_witness:
  "map_option fst (finsh_run_line (\<lambda>_ _ _. None) ''( 1 + 2 ) * 3 ; '' demo_parser demo_vm) = Some (Line_error ''Null node'') \<and>
    (case finsh_run_line (\<lambda>_ _ _. None) ''( 1 + 2 ) * 3 ; '' demo_parser demo_vm of
      None \<Rightarrow> True
    | Some (out, p', s') \<Rightarrow> s' = demo_vm \<and> (case out of Line_error msg \<Rightarrow> True | _ \<Rightarrow> False))"
proof
  show "map_option fst (finsh_run_line (\<lambda>_ _ _. None) ''( 1 + 2 ) * 3 ; '' demo_parser demo_vm) = Some (Line_error ''Null node'')"
    by code_simp
  have "line_text [''('', ''1'', ''+'', ''2'', '')'', ''*'', ''3'', '';''] = ''( 1 + 2 ) * 3 ; ''"
    by (simp add: line_text_def)
  from line_reads [OF paren_words, unfolded this]
  show "case finsh_run_line (\<lambda>_ _ _. None) ''( 1 + 2 ) * 3 ; '' demo_parser demo_vm of
      None \<Rightarrow> True
    | Some (out, p', s') \<Rightarrow> s' = demo_vm \<and> (case out of Line_error msg \<Rightarrow> True | _ \<Rightarrow> False)"
    by (intro finsh_paren_error [where L = "Int_literal 1"]) (simp_all add: is_base_type_def)
qed

lemma finsh_typed_witness:
  "\<exists>n' c. finsh_type_check demo_symbols [demo_tree] False FINSH_ERROR_OK = ([n'], FINSH_ERROR_OK) \<and> data_type n' = 3 \<and>
    finsh_compile demo_symbols [n'] FINSH_ERROR_OK = (c, FINSH_ERROR_OK) \<and>
    (\<forall>s. vm_at c s \<and> node_eval demo_symbols (\<lambda>_ _ _. None) demo_tree False (finsh_memory s) \<noteq> None \<longrightarrow>
      (\<exists>s'. vm_steps (\<lambda>_ _ _. None) s s' \<and> vm_ok s' \<and> finsh_pc s' = finsh_pc s + length c \<and>
        finsh_sp s' = finsh_sp s + 1 \<and> (\<forall>j < finsh_sp s. finsh_vm_stack s' ! j = finsh_vm_stack s ! j)))"
proof -
  have "node_typing demo_symbols demo_tree False = Some (3, Dword)" by code_simp
  from finsh_typed [OF this] show ?thesis .
qed

lemma finsh_stale_bytes_witness:
  "\<exists>s1 s2. finsh_compiler_run demo_symbols [int_plus_char 1 65] FINSH_ERROR_OK
      (demo_vm\<lparr>finsh_vm_stack := (finsh_vm_stack demo_vm)[1 := 0x100]\<rparr>) = Some (FINSH_ERROR_OK, s1) \<and>
    finsh_vm_run (\<lambda>_ _ _. None) s1 = Some s2 \<and> finsh_stack_bottom s2 = 322"
proof -
  let ?s = "demo_vm\<lparr>finsh_vm_stack := (finsh_vm_stack demo_vm)[1 := 0x100]\<rparr>"
  have "length (finsh_vm_stack ?s) = FINSH_STACK_MAX" by (simp add: demo_vm_def)
  from finsh_stale_bytes [OF this, of demo_symbols 1 65] show ?thesis
    by (simp add: demo_vm_def FINSH_STACK_MAX_def)
qed

text \<open>The code of one line: it fits for the example, and for \<open>a++; a++; a++; a++; a++; a++;\<close> it does not.\<close>

lemma finsh_text_fits_witness:
  "\<exists>err' s'. finsh_compiler_run demo_symbols [demo_tree] FINSH_ERROR_OK demo_vm = Some (err', s') \<and>
    length (text_segment s') = FINSH_TEXT_MAX"
  by (rule finsh_text_fits) (simp add: demo_tree_def int_leaf_def)

definition step_tree :: finsh_node where
  "step_tree = fresh_node FINSH_NODE_SYS_INC [Node FINSH_NODE_ID FINSH_DATA_TYPE_VOID False 0 (Var 0) []]"

lemma finsh_text_overflow:
  "finsh_compiler_run demo_symbols (replicate 6 step_tree) FINSH_ERROR_OK demo_vm = None"
  "node_count (replicate 6 step_tree) = 12"
proof -
  have "length (fst (compile_statements demo_symbols (fst (finsh_type_check demo_symbols (replicate 6 step_tree) False
      FINSH_ERROR_OK)) FINSH_ERROR_OK)) = 143"
    "snd (finsh_type_check demo_symbols (replicate 6 step_tree) False FINSH_ERROR_OK) = FINSH_ERROR_OK"
    by code_simp+
  then show "finsh_compiler_run demo_symbols (replicate 6 step_tree) FINSH_ERROR_OK demo_vm = None"
    by (simp add: finsh_compiler_run_def split_beta RT_ASSERT_def FINSH_TEXT_MAX_def del: replicate.simps)
  show "node_count (replicate 6 step_tree) = 12" by code_simp
qed

end
