(* ===== verification/Finsh_Typing.thy ===== *)
theory Finsh_Typing
  imports Finsh_Tab Finsh_Lines
begin

text \<open>
  The start of the shell, the lines and settings for which its code does not do what it means to, and examples.
\<close>

subsection \<open>Start\<close>

definition no_edit :: edit where
  "no_edit = \<lparr>ed_left = [], ed_right = [], ed_past = [], ed_index = 0, ed_keys = WAIT_NORMAL\<rparr>"

lemma shell_start_rep:
  assumes "finsh_thread_start env (shell_init p s w) = Some sh"
  shows "shell_rep sh no_edit"
  using assms
  by (auto simp: finsh_thread_start_def shell_init_def finsh_set_prompt_mode_def say_prompt_def shell_rep_def no_edit_def
      ed_text_def line_ok_def padded_def FINSH_CMD_SIZE_def FINSH_HISTORY_LINES_def Let_def bind_eq_Some_conv split: if_splits)

subsection \<open>Lines that are too long\<close>

lemma ed_run_text:
  "list_all printable t \<Longrightarrow> length (ed_text e) + length t < FINSH_CMD_SIZE \<Longrightarrow> ed_keys e = WAIT_NORMAL \<Longrightarrow>
    ed_run t e = Some (e\<lparr>ed_left := ed_left e @ t\<rparr>)"
proof (induction t arbitrary: e)
  case (Cons c t)
  have "c \<noteq> ESC" "c \<noteq> BS" "c \<noteq> DEL" using Cons.prems(1) by auto
  then have "ed_char c e = Some (e\<lparr>ed_left := ed_left e @ [c]\<rparr>)"
    using Cons.prems by (simp add: ed_char_def ed_plain_def)
  moreover have "ed_run t (e\<lparr>ed_left := ed_left e @ [c]\<rparr>) = Some (e\<lparr>ed_left := ed_left e @ c # t\<rparr>)"
    using Cons.IH [of "e\<lparr>ed_left := ed_left e @ [c]\<rparr>"] Cons.prems by (simp add: ed_text_def)
  ultimately show ?case by simp
qed simp

text \<open>With its last character a line is not cleared, only its length and the cursor are.\<close>

lemma key_char_last:
  assumes rep: "shell_rep sh e" and e: "ed_right e = []" "length (ed_left e) = 79"
  shows "\<exists>sh'. key_char c sh = Some sh' \<and> sh_line sh' = ed_left e @ [c] \<and> line_position sh' = 0 \<and>
    line_curpos sh' = 0 \<and> sh_stat sh' = sh_stat sh \<and> echo_mode sh' \<and> sh_msh sh' = say [c] (sh_msh sh)"
proof -
  have r: "echo_mode sh" "sh_line sh = ed_left e @ [NUL]" "unat (line_position sh) = 79" "unat (line_curpos sh) = 79"
    using rep e by (simp_all add: shell_rep_def ed_text_def padded_def FINSH_CMD_SIZE_def)
  have "unat (line_position sh + 1) = 80" using r(3) by (simp add: u8_inc)
  moreover have "put_char_at (sh_line sh) 79 c = Some (ed_left e @ [c])"
    using r(2) e(2) by (simp add: put_char_at_def list_update_append)
  ultimately show ?thesis using r by (simp add: key_char_def FINSH_CMD_SIZE_def shell_say_def)
qed

lemma trim_line_blanks: "list_all is_blank s \<Longrightarrow> trim_line n s = None"
  by (induction s arbitrary: n) (subst trim_line.simps, simp add: char_at_def)+

text \<open>C25. Eighty blanks and the return key make the shell read behind its line: a full line is given
  up but not cleared, and the loop that skips blanks has no bound.\<close>

lemma shell_blanks_overrun:
  assumes rep: "shell_rep sh e" "ed_text e = []" "ed_keys e = WAIT_NORMAL" and used: "msh_used (sh_msh sh)"
    and p: "prompt_ok env sh p"
  shows "shell_run env sys (replicate 80 (CHR '' '') @ [CR]) sh = None"
proof -
  let ?b = "replicate 79 (CHR '' '')"
  have "ed_run ?b e = Some (e\<lparr>ed_left := ed_left e @ ?b\<rparr>)"
    using rep by (intro ed_run_text) (auto simp: FINSH_CMD_SIZE_def list_all_iff)
  moreover have "ed_left e = []" "ed_right e = []" using rep(2) by (simp_all add: ed_text_def)
  ultimately obtain s1 pre where s1: "shell_run env sys ?b sh = Some s1" "edits sh e [] s1 (e\<lparr>ed_left := ?b\<rparr>) pre"
    using shell_run_edits [OF rep(1) p, of ?b _ sys "[]"] by auto
  have r1: "shell_rep s1 (e\<lparr>ed_left := ?b\<rparr>)" "msh_used (sh_msh s1)"
    using edits_rep [OF s1(2)] edits_modes(2) [OF s1(2)] used by auto
  obtain s2 where s2: "key_char (CHR '' '') s1 = Some s2" "sh_line s2 = ?b @ [CHR '' '']" "line_position s2 = 0"
      "sh_stat s2 = sh_stat s1" "sh_msh s2 = say '' '' (sh_msh s1)"
    using key_char_last [OF r1(1), of "CHR '' ''"] \<open>ed_right e = []\<close> by auto
  have st: "sh_stat s1 = WAIT_NORMAL" using r1(1) rep(3) by (simp add: shell_rep_def)
  have "trim_line 0 (?b @ [CHR '' '']) = None"
    by (rule trim_line_blanks) (simp add: list_all_iff is_blank_def)
  then have "msh_exec env 0 (?b @ [CHR '' '']) w = None" for w
    unfolding msh_exec_def by (subst msh_run.simps) simp
  then have "key_enter env sys s2 = None"
    using s2 r1(2) by (simp add: key_enter_def dispatch_line_def msh_is_used_def)
  moreover have "shell_char env sys (CHR '' '') s1 = Some s2"
    using s2(1) st by (simp add: shell_char_def plain_char_def)
  moreover have "shell_char env sys CR s2 = key_enter env sys s2"
    using s2(4) st by (simp add: shell_char_return)
  moreover have "replicate 80 (CHR '' '') @ [CR] = ?b @ [CHR '' '', CR]"
    using replicate_add [of 79 1 "CHR '' ''"] by simp
  ultimately show ?thesis using s1(1) by (simp add: shell_run_append)
qed

text \<open>The text of a line that was too long stays behind the next one: its last argument does not end.\<close>

lemma stale_argument:
  "msh_split 2 (''ls'' @ replicate 78 (CHR ''x'')) w = Some ([0], ''ls'' @ replicate 78 (CHR ''x''), w) \<and>
    text_at (''ls'' @ replicate 78 (CHR ''x'')) 0 = None"
proof -
  have "skip_word 2 0 (''ls'' @ replicate 78 (CHR ''x'')) = Some 2" by code_simp
  moreover have "strip_blanks 2 0 (''ls'' @ replicate 78 (CHR ''x'')) = Some (0, ''ls'' @ replicate 78 (CHR ''x''))"
    by (subst strip_blanks.simps) (simp add: char_at_def is_blank_def)
  ultimately show ?thesis
    by (simp add: msh_split_def split_loop.simps [of 2 0] char_at_def FINSH_ARG_MAX_def text_at_def)
qed

text \<open>A full line of the C shell has no NUL behind it.\<close>

lemma c_line_full:
  assumes rep: "shell_rep sh e" and mode: "\<not> msh_used (sh_msh sh)" and full: "length (ed_text e) = 79"
  shows "key_enter env sys sh = None"
proof -
  have r: "list_all printable (ed_text e)" "sh_line sh = ed_text e @ [NUL]" "unat (line_position sh) = 79"
    using rep full by (simp_all add: shell_rep_def padded_def FINSH_CMD_SIZE_def line_ok_def)
  have pos: "line_position sh \<noteq> 0" using r(3) by auto
  have put: "put_char_at (sh_line sh) 79 (CHR '';'') = Some (ed_text e @ '';'')"
    using r(2) full by (simp add: put_char_at_def list_update_append)
  have "text_at (ed_text e @ '';'') 0 = None" using printable_list_NUL [OF r(1)] by (simp add: text_at_def)
  then show ?thesis
    using mode r pos put by (simp add: key_enter_def dispatch_line_def msh_is_used_def run_c_line_def Let_def)
qed

text \<open>A character typed into the middle of a full line: the echo prints on behind the line.\<close>

lemma insert_full_line:
  assumes rep: "shell_rep sh e" and full: "length (ed_text e) = 79" and r: "ed_right e \<noteq> []" and c: "printable c"
  shows "key_char c sh = None"
proof -
  let ?l = "ed_left e" and ?r = "ed_right e"
  have r: "echo_mode sh" "sh_line sh = ?l @ ?r @ [NUL]" "unat (line_position sh) = 79" "unat (line_curpos sh) = length ?l"
      "list_all printable ?r" "length ?l + length ?r = 79"
    using rep full r by (simp_all add: shell_rep_def padded_def FINSH_CMD_SIZE_def line_ok_def ed_text_def)
  have "0 < length ?r" using \<open>ed_right e \<noteq> []\<close> by simp
  then have short: "length ?l < 79" using r(6) by linarith
  obtain x t where x: "?r = x # t" using \<open>ed_right e \<noteq> []\<close> by (cases ?r) auto
  have n: "79 - length ?l = length ?r" using r(6) by simp
  have move: "move_text (length ?l + 1) (length ?l) (length ?r) (sh_line sh) = Some (?l @ x # ?r)"
    by (simp add: r(2) x move_text_def write_text_def)
  have put: "put_char_at (?l @ x # ?r) (length ?l) c = Some (?l @ c # ?r)" by (simp add: put_char_at_def)
  have "text_at (?l @ c # ?r) (length ?l) = None"
    using printable_list_NUL [OF r(5)] c by (auto simp: text_at_def)
  then show ?thesis using r short n move put by (simp add: key_char_def FINSH_CMD_SIZE_def)
qed

subsection \<open>Settings and arguments\<close>

lemma prompt_mode_two: "finsh_get_prompt_mode (finsh_set_prompt_mode 2 sh) = 0"
  by (simp add: finsh_get_prompt_mode_def finsh_set_prompt_mode_def bit_simps)

text \<open>Ten arguments and a blank behind them are said to be too many.\<close>

lemma ten_arguments_blank:
  "map_option (\<lambda>(argv, s, w). (length argv, msh_log w \<noteq> []))
     (msh_split 20 (concat (replicate 10 ''a '') @ [NUL]) \<lparr>msh_used = True, msh_log = [], msh_world = ()\<rparr>) = Some (10, True)"
  by code_simp

subsection \<open>An example shell\<close>

text \<open>Commands that note their arguments as the world.\<close>

definition demo_env :: "string option list msh_env" where
  "demo_env = \<lparr>env_table = [\<lparr>syscall_struct = 0, syscall_name = ''__cmd_echo'', syscall_func = 0x100\<rparr>,
       \<lparr>syscall_struct = 0, syscall_name = ''__cmd_echidna'', syscall_func = 0x200\<rparr>],
     env_call = (\<lambda>f argv s w. Some (int (length argv), w\<lparr>msh_world := map (text_at s) argv\<rparr>)),
     env_room = (\<lambda>n w. True), env_open = (\<lambda>p w. None), env_opendir = (\<lambda>p w. None), env_getcwd = (\<lambda>w. ''/'')\<rparr>"

definition demo_shell :: "string option list finsh_shell" where
  "demo_shell = shell_say ''msh />''
     ((shell_init demo_parser demo_vm \<lparr>msh_used = True, msh_log = [], msh_world = []\<rparr>)
       \<lparr>echo_mode := True, sh_parser := finsh_init demo_parser\<rparr>)"

lemma demo_started:
  "finsh_thread_start demo_env (shell_init demo_parser demo_vm \<lparr>msh_used = True, msh_log = [], msh_world = []\<rparr>) =
    Some demo_shell"
  by (simp add: finsh_thread_start_def demo_shell_def say_prompt_def finsh_get_prompt_def shell_init_def
      finsh_set_prompt_mode_def msh_is_used_def demo_env_def line_buf_size_def Let_def shell_world_def)

lemma demo_shell_rep: "shell_rep demo_shell no_edit"
  using shell_start_rep [OF demo_started] .

lemma demo_prompts: "prompts demo_env demo_shell" "prompt_ok demo_env demo_shell ''msh />''" "msh_used (sh_msh demo_shell)"
  by (auto simp: prompts_def prompt_ok_def finsh_get_prompt_def demo_shell_def shell_init_def finsh_set_prompt_mode_def
      shell_say_def say_def msh_is_used_def demo_env_def line_buf_size_def Let_def printable_def)

lemma demo_calls:
  "\<forall>f argv s w. \<exists>r w'. env_call demo_env f argv s w = Some (r, w') \<and> msh_used w' = msh_used w"
  "\<forall>argv s w. env_call demo_env f argv s w \<noteq> None" "\<forall>p w. env_open demo_env p w = None"
  by (simp_all add: demo_env_def)

text \<open>\<open>eco\<close>, two keys to the left, \<open>x\<close>, backspace, and an \<open>h\<close> one to the right.\<close>

definition demo_keys :: string where
  "demo_keys = ''eco'' @ [ESC] @ ''[D'' @ [ESC] @ ''[D'' @ ''x'' @ [BS, ESC] @ ''[C'' @ ''h''"

lemma demo_edited: "ed_run demo_keys no_edit = Some (no_edit\<lparr>ed_left := ''ech'', ed_right := ''o''\<rparr>)"
  by code_simp

lemma shell_edits_witness:
  "\<exists>sh' pre' out. shell_run demo_env (\<lambda>_ _ _. None) demo_keys demo_shell = Some sh' \<and>
    shell_rep sh' (no_edit\<lparr>ed_left := ''ech'', ed_right := ''o''\<rparr>) \<and> pre' \<in> {''msh />'', ''msh />''} \<and>
    sh_msh sh' = (sh_msh demo_shell)\<lparr>msh_log := msh_log (sh_msh demo_shell) @ map Print out\<rparr> \<and>
    term_text (concat out) (shown (''msh />'' @ ed_text no_edit) (length (''msh />'' @ ed_left no_edit))) =
      shown (pre' @ ed_text (no_edit\<lparr>ed_left := ''ech'', ed_right := ''o''\<rparr>))
        (length (pre' @ ed_left (no_edit\<lparr>ed_left := ''ech'', ed_right := ''o''\<rparr>)))"
  by (rule shell_edits [OF demo_shell_rep demo_prompts(2) demo_edited])

lemma demo_lines:
  "ed_lines [demo_keys, ''help'', [], ''help''] no_edit =
    Some (no_edit\<lparr>ed_past := [''echo'', ''help''], ed_index := 2\<rparr>)"
  by code_simp

lemma shell_session_witness:
  "\<exists>sh'. shell_run demo_env (\<lambda>_ _ _. None) (with_returns [demo_keys, ''help'', [], ''help'']) demo_shell = Some sh' \<and>
    shell_rep sh' (no_edit\<lparr>ed_past := [''echo'', ''help''], ed_index := 2\<rparr>)"
  by (rule shell_session [OF demo_shell_rep demo_prompts(3,1) demo_calls(1,3) demo_lines])

text \<open>\<open>echo  a "b c"\<close>\<close>

definition demo_line :: string where
  "demo_line = ''echo  a '' @ [QUOTE] @ ''b c'' @ [QUOTE]"

lemma demo_line_edited: "ed_run demo_line no_edit = Some (no_edit\<lparr>ed_left := demo_line\<rparr>)"
  by code_simp

lemma demo_line_args: "demo_line = args_text (([], ''echo'') # [(''  '', ''a''), ('' '', ''b c'')]) @ []"
  by (simp add: demo_line_def arg_text_def quoted_def is_blank_def)

lemma demo_line_gaps: "gaps_ok (([], ''echo'') # [(''  '', ''a''), ('' '', ''b c'')])" "\<not> quoted ''echo''"
  by (auto simp: gaps_ok_def argument_def quoted_def is_blank_def)

lemma demo_command:
  "find (\<lambda>c. is_command c \<and> command_name c = ''echo'') (env_table demo_env) =
    Some \<lparr>syscall_struct = 0, syscall_name = ''__cmd_echo'', syscall_func = 0x100\<rparr>"
  by (simp add: demo_env_def is_command_def command_name_def strncmp_eq_def)

lemma shell_calls_witness:
  "\<exists>sh' out argv s r w p. shell_run demo_env (\<lambda>_ _ _. None) (demo_line @ [CR]) demo_shell = Some sh' \<and>
    shell_rep sh' (ed_enter (no_edit\<lparr>ed_left := demo_line\<rparr>)) \<and>
    env_call demo_env (syscall_func \<lparr>syscall_struct = 0, syscall_name = ''__cmd_echo'', syscall_func = 0x100\<rparr>) argv s
      ((sh_msh demo_shell)\<lparr>msh_log := msh_log (sh_msh demo_shell) @ map Print out\<rparr>) = Some (r, w) \<and>
    map (text_at s) argv = map Some (''echo'' # map snd [(''  '', ''a''), ('' '', ''b c'')]) \<and> sh_msh sh' = say p w"
proof (rule shell_calls [OF demo_shell_rep demo_prompts(3,1) demo_line_edited])
  show "ed_text (no_edit\<lparr>ed_left := demo_line\<rparr>) = args_text (([], ''echo'') # [(''  '', ''a''), ('' '', ''b c'')]) @ []"
    using demo_line_args by (simp add: ed_text_def no_edit_def)
qed (use demo_line_gaps demo_command demo_calls in \<open>simp_all add: no_edit_def FINSH_ARG_MAX_def\<close>)

lemma demo_ec_typed: "ed_run ''ec'' no_edit = Some (no_edit\<lparr>ed_left := ''ec''\<rparr>)"
  by code_simp

lemma demo_candidates: "commands_with ''ec'' demo_env = [''echo'', ''echidna'']"
  by (simp add: commands_with_def demo_env_def is_command_def command_name_def strncmp_eq_def)

lemma tab_completes_witness:
  "\<exists>sh sh' t' out. key_tab demo_env sh = Some sh' \<and>
    shell_rep sh' (no_edit\<lparr>ed_left := t', ed_right := []\<rparr>) \<and>
    (\<forall>u. prefix u t' \<longleftrightarrow> prefix u ''echo'' \<and> prefix u ''echidna'') \<and>
    sh_msh sh' = (sh_msh sh)\<lparr>msh_log := msh_log (sh_msh sh) @ map Print out\<rparr> \<and>
    term_text (concat out) (shown ''msh />ec'' (length ''msh />ec'')) = shown (''msh />'' @ t') (length (''msh />'' @ t'))"
proof -
  let ?e = "no_edit\<lparr>ed_left := ''ec''\<rparr>"
  obtain sh pre where sh: "edits demo_shell no_edit [] sh ?e pre"
    using shell_run_edits [OF demo_shell_rep demo_prompts(2) demo_ec_typed, of "\<lambda>_ _ _. None" "[]"] by blast
  have "ed_text ?e = ''ec''" by (simp add: ed_text_def no_edit_def)
  then show ?thesis
    using tab_completes [OF edits_rep [OF sh], of demo_env "''msh />''" "''msh />''"] edits_modes(2) [OF sh] demo_prompts
      edits_prompt [OF sh demo_prompts(2)] demo_candidates
    by (auto simp: line_ok_def FINSH_CMD_SIZE_def printable_def no_edit_def)
qed

lemma shell_blanks_overrun_witness:
  "shell_run demo_env (\<lambda>_ _ _. None) (replicate 80 (CHR '' '') @ [CR]) demo_shell = None"
  by (rule shell_blanks_overrun [OF demo_shell_rep _ _ demo_prompts(3,2)]) (simp_all add: no_edit_def ed_text_def)

end
