(* ===== verification/Spec2Isabelle.thy ===== *)
theory Spec2Isabelle
  imports RT_Timeout RT_Demo RT_Heap_Api RT_Pool RT_Ringbuffer RT_Directive RT_Idle Finsh_Typing
begin

text \<open>
  The kernel of RT-Thread and its C shell as configured for the EFM32GG380 board
  (\<^verbatim>\<open>src/rtconfig.h\<close>: one core, 32 priorities, timers in the tick interrupt and in a timer
  thread, debug assertions on).

  Parts of the program and where they are modelled.  All paths are under \<^verbatim>\<open>src/rt-thread/\<close>.

  \<^item> \<open>RT_List\<close>: the doubly linked lists of \<^verbatim>\<open>include/rtservice.h\<close> in a memory of next and prev
    pointers, and the refinement of every operation to sequences.  The other theories keep one
    sequence per list head and use the sequence operations this theory justifies.
  \<^item> \<open>RT_State\<close>: the state of the kernel.  \<open>objs\<close> holds the common part of every object
    (\<open>struct rt_object\<close>), \<open>threads\<close>, \<open>timers\<close>, \<open>sems\<close>, \<open>mutexes\<close>, \<open>events\<close>, \<open>mailboxes\<close>,
    \<open>mqueues\<close> the structs of \<^verbatim>\<open>include/rtdef.h\<close> by address, \<open>tlists\<close> the lists that link threads
    (ready lists, lists of waiting threads, the list of defunct threads), \<open>trows\<close> the two lists of
    started timers, and the rest the static variables of the source files.
  \<^item> \<open>RT_Ffs\<close> and \<open>RT_Klib\<close>: \<open>__rt_ffs\<close> and the memory and string functions of \<^verbatim>\<open>src/kservice.c\<close>.
  \<^item> \<open>RT_Scheduler\<close>: \<^verbatim>\<open>src/scheduler.c\<close>, the ready table and the choice of the running thread.
  \<^item> \<open>RT_Object\<close>: \<^verbatim>\<open>src/object.c\<close>.  \<open>RT_Timer\<close> and \<open>RT_Thread\<close>: \<^verbatim>\<open>src/timer.c\<close>, \<^verbatim>\<open>src/thread.c\<close>,
    \<^verbatim>\<open>src/clock.c\<close>, \<^verbatim>\<open>src/irq.c\<close> and the initial stack frame of
    \<^verbatim>\<open>libcpu/arm/cortex-m3/cpuport.c\<close>.
  \<^item> \<open>RT_Kernel\<close>: the invariant \<open>kernel_ok\<close> that ties these together (the ready table mirrors the
    states of the threads, every thread is on the lists its state asks for, one thread runs) and
    the proofs that the operations of threads and the scheduler keep it.
  \<^item> \<open>RT_Ipc\<close>, \<open>RT_Mutex\<close>, \<open>RT_Event\<close>, \<open>RT_Mailbox\<close>, \<open>RT_Mq\<close>: \<^verbatim>\<open>src/ipc.c\<close>, in the order of the file.
    Each has the operations, an invariant of the object (\<open>sem_inv\<close>, \<open>mutex_inv\<close>, \<open>event_inv\<close>,
    \<open>mb_inv\<close>, \<open>mq_inv\<close>) and what every operation does to it.
  \<^item> \<open>RT_Fifo\<close>: the contract \<open>bounded_fifo\<close> of a store that keeps at most a given number of values
    in order, with its lemmas about sequences of puts and gets.  The word store of a mailbox and
    the slots of a message queue are its interpretations.
  \<^item> \<open>RT_Timeout\<close>: the list of started timers, \<open>rt_timer_start\<close>, \<open>rt_timer_check\<close> and
    \<open>rt_thread_sleep\<close> against it.
  \<^item> \<open>RT_Memheap\<close>: \<^verbatim>\<open>src/memheap.c\<close>, the heap of the system.  The headers of the blocks are
    functions of their address (\<open>memory\<close>).  \<open>RT_Heap_Inv\<close> has the invariant \<open>heap_inv\<close> (the headers
    tile the pool, the free list holds exactly the free ones, no two free blocks are adjacent, the
    count of available bytes is right) and its preservation; \<open>RT_Heap\<close> the abstraction to the sets
    \<open>live\<close> and \<open>gaps\<close> of allocated and free ranges, and the calls with their lock on top.
  \<^item> \<open>RT_Mempool\<close> and \<open>RT_Pool\<close>: \<^verbatim>\<open>src/mempool.c\<close>, its invariant \<open>mp_inv\<close> and the blocks \<open>mp_held\<close>.
  \<^item> \<open>RT_Alloc\<close>: the contract \<open>allocator\<close> that both keep, with runs of allocations and releases
    proved to keep the blocks apart.  \<open>RT_Heap_Api\<close> and \<open>RT_Pool\<close> interpret it.
  \<^item> \<open>RT_Ringbuffer\<close>: \<^verbatim>\<open>components/drivers/src/ringbuffer.c\<close>, a third \<open>bounded_fifo\<close>.
  \<^item> \<open>RT_Printf\<close>: the printf family of \<^verbatim>\<open>src/kservice.c\<close>; \<open>RT_Format\<close> has \<open>format_text\<close>, the text
    that the code makes of a format, and the proof that the buffer gets it; \<open>RT_Directive\<close> the text that
    the directives of a format ask for, defined without the code, and the proof that it is the same.
  \<^item> \<open>RT_Device\<close>: \<^verbatim>\<open>src/device.c\<close> and the console of \<^verbatim>\<open>src/kservice.c\<close>.  Its state \<open>dstate\<close> adds the
    devices, the byte memory and the state of the drivers to that of the kernel; the handlers of the
    drivers are a parameter.  \<open>RT_Console\<close> has its properties, and \<open>RT_Idle\<close> is \<^verbatim>\<open>src/idle.c\<close>.
  \<^item> \<open>Finsh_Vm\<close>, \<open>Finsh_Node\<close>, \<open>Finsh_Compiler\<close>, \<open>Finsh_Token\<close>, \<open>Finsh_Parser\<close>: the C shell under
    \<^verbatim>\<open>components/finsh\<close>, a theory each for the virtual machine (\<^verbatim>\<open>finsh_vm.c\<close>, \<^verbatim>\<open>finsh_ops.c\<close>), the
    syntax trees with the variables and symbols (\<^verbatim>\<open>finsh_node.c\<close>, \<^verbatim>\<open>finsh_var.c\<close>), the compiler
    (\<^verbatim>\<open>finsh_compiler.c\<close>), the tokens (\<^verbatim>\<open>finsh_token.c\<close>) and the parser (\<^verbatim>\<open>finsh_parser.c\<close>).
    \<open>Finsh_Heap\<close> is the heap of string constants (\<^verbatim>\<open>finsh_heap.c\<close>), \<open>Finsh_Bounds\<close> bounds the size of
    the code, and \<open>Finsh_Shell\<close> composes them as \<open>finsh_run_line\<close> of \<^verbatim>\<open>shell.c\<close> does, with \<^verbatim>\<open>finsh_init.c\<close> and
    \<^verbatim>\<open>finsh_error.c\<close>.
  \<^item> \<open>Finsh_Machine\<close>, \<open>Finsh_Eval\<close>, \<open>Finsh_Correct\<close>, \<open>Finsh_Translate\<close>, \<open>Finsh_Run\<close>: how the machine
    executes code, the reference evaluation \<open>node_eval\<close> of a typed tree, and the proof that compiled
    trees compute it.
  \<^item> \<open>Finsh_Grammar\<close>, \<open>Finsh_Descent\<close>, \<open>Finsh_Text\<close>, \<open>Finsh_Sticky\<close>: the grammar of the comments of
    the parser as a relation \<open>derives\<close>, the proof that the parser finds every derivation, text
    against tokens, and what the shell does with an error.  \<open>Finsh_Lines\<close> has the properties of
    whole lines.
  \<^item> \<open>Msh\<close>: the module shell, \<^verbatim>\<open>msh.c\<close> and \<^verbatim>\<open>msh_file.c\<close>; \<open>Finsh_Complete\<close>: the completion of
    lines, also of \<^verbatim>\<open>cmd.c\<close>; \<open>Finsh_Editor\<close>: the loop of \<open>finsh_thread_entry\<close>, a step \<open>shell_char\<close> for every
    character.  Their state \<open>finsh_shell\<close> is the struct of \<^verbatim>\<open>shell.h\<close> with the mode of the shell, a log of what it
    prints, and a world that commands change.
  \<^item> \<open>Msh_Words\<close>, \<open>Finsh_Editing\<close>, \<open>Finsh_Session\<close>, \<open>Finsh_Tab\<close>, \<open>Finsh_Typing\<close>: the arguments of a line, the
    editor as the text \<open>edit\<close> in front of the cursor and behind it with a terminal that shows it, whole sessions,
    completion, and the lines that are too long, with examples.
  \<^item> \<open>RT_Demo\<close>: a small system with concrete objects, in which this theory evaluates the properties.

  How the model follows the code.

  \<^item> A function of the source is a definition with its name, from state to \<open>option\<close>.  \<open>None\<close> stands
    for a failing \<open>RT_ASSERT\<close>, an access through a null pointer, or not coming back.  An error
    code is a value, as in the source.
  \<^item> Machine integers keep their width as words, so every wrap of the source is in the model.
  \<^item> A function that blocks is cut at its call of \<open>rt_schedule\<close>: the definition with the name of the
    function is the part before and returns \<open>Wait\<close>, the one with the suffix \<open>_wakeup\<close> is the part
    the thread executes when it runs again.  Between the two, anything else may happen.
  \<^item> Code between disabling and enabling interrupts is one step.  The sends and receives of message
    queues enable interrupts in between; they are cut into the stages \<open>mq_take_free\<close>, \<open>mq_clear_next\<close>,
    \<open>mq_fill\<close>, \<open>mq_link_tail\<close> and so on.  \<open>mq_stage\<close> says how far a thread has come, and \<open>mq_reach\<close>
    interleaves the stages of any number of threads, on no other conditions than the code tests.
  \<^item> Callbacks of timers belong to the application: they are the parameter \<open>app\<close> of the timer check,
    except the timeout of a thread, which is \<open>rt_thread_timeout\<close>.  The result of \<open>rt_malloc\<close> is a
    parameter of the create functions.
  \<^item> \<open>rt_timer_check\<close> and the draining loop of a message queue may run forever in the source, so they are
    partial functions with the value \<open>None\<close> for that; that they return is proved where they do.
    The same holds for the loops of the parser and of the virtual machine.
  \<^item> The functions of the system that a line of the shell calls are a parameter of the machine.  The commands of
    the module shell, files and directories are the parameter \<open>msh_env\<close>; a command may do anything to the world
    and to the mode of the shell, and the properties say which of it they exclude.

  What the groups of lemmas show.

  \<^item> Scheduling: the running thread is a most urgent one after every scheduling point, threads of one
    priority take turns, all operations on threads keep \<open>kernel_ok\<close>.
  \<^item> Semaphores: values are neither lost nor invented over any run, up to the wrap of the 16 bit
    counter; waiting is in order of priority.  In a run (\<open>sem_run\<close>) a take counts as granted when it
    returns \<open>RT_EOK\<close>, at once or in \<open>rt_sem_take_wakeup\<close>, and a thread that a release has woken is on
    no waiting list any more and without error.
  \<^item> Mutexes: one owner, nested holds, inheritance of priority and its end, hand-over to the first
    waiting thread.
  \<^item> Events: a send serves the waiting threads in their order (\<open>deliver\<close>): exactly those whose condition
    holds of what the earlier ones left are made ready, with the flags they receive.
  \<^item> Mailboxes and message queues: first-in first-out delivery with bounds, no slot lost or shared, also
    when threads are interrupted in the middle of a send or a receive.
  \<^item> Timers: order of the list across the wrap of the tick, which timers fire, sleeping threads.
  \<^item> Heap and pools: allocated blocks are apart, large enough and inside of their pool, a release
    frees exactly its block, a heap without blocks is one gap, waiting threads of a pool are served.
    The properties of the heap ask for requests of at most 2^32 - 4 bytes, where the alignment of the
    size does not wrap; \<open>memheap_request_wraps\<close> has what happens above.
  \<^item> Ring buffer: order of the bytes over all wraps, and what an overwriting put loses.
  \<^item> Lists, objects, bit search, memory functions: their functional behaviour.
  \<^item> Formatted output: the bounds of the buffer, the text of a format as directives ask for it, numbers
    read back.  Octal conversions, a precision of 0 and a 0 flag beside a precision do not give what
    the C standard asks for; they are left out of \<open>supported\<close> and have lemmas of their own.
  \<^item> Devices and console: opens and closes in balance under the contract \<open>board_ok\<close> of the handlers, what
    the console is sent, failing drivers.
  \<^item> Idle thread: which ended threads one call cleans up.
  \<^item> C shell: a line of typed expressions is read, parsed and compiled to code whose value is that of
    the reference evaluation; what goes wrong with parentheses and with operands of mixed width.  The lines
    have a blank behind each lexeme, at most 16 nodes, the size of the node table, and integers in decimal;
    strings, other bases, declarations and empty statements are in the model but not in these properties.
    Of a value of type \<open>char\<close> or \<open>short\<close> only the low bytes are right: the shell prints the whole
    slot of the stack (\<open>finsh_char_value_stale\<close>).
  \<^item> Shell: what the keys do to the line and what the terminal shows, that lines of less than 80 characters
    never make it leave its buffers, which command a line calls with which arguments, and completion.

  Not modelled: signals and several cores (not configured), the
  allocators \<^verbatim>\<open>mem.c\<close> and \<^verbatim>\<open>slab.c\<close> (not compiled), the drivers and with them the
  device the shell reads from, the bodies of commands, the file systems, the network and the packages around the kernel.
\<close>

subsection \<open>The properties on the example system\<close>

lemma schedule_most_urgent_witness:
  "\<exists>s'. rt_schedule demo = Some s' \<and> kernel_ok s' \<and> most_urgent_runs s'"
  by (rule schedule_most_urgent) simp_all

lemma yield_round_robin_witness:
  "\<exists>s s'. rt_thread_yield s = Some (RT_EOK, s') \<and> current_thread s' = Idle_thread"
proof -
  let ?d = "change_priority (Ptr 1) 31 demo"
  have k: "kernel_ok ?d"
    by (rule change_off_ready) (simp_all add: RT_THREAD_PRIORITY_MAX_def)
  have "\<exists>s'. rt_thread_yield ?d = Some (RT_EOK, s') \<and> kernel_ok s' \<and> current_thread s' = Idle_thread \<and>
      tlists s' (Ready (prio_of ?d (current_thread ?d))) = [] @ [current_thread ?d]"
    by (rule yield_round_robin [OF k]) (simp_all add: change_priority_def)
  then show ?thesis by blast
qed

text \<open>Thread 1 waits for the semaphore and gets what a release hands over.\<close>

lemma sem_conservation_witness:
  "\<exists>s1 s2. rt_sem_take (Ptr 10) 5 demo = Some (Wait, s1) \<and> rt_sem_release (Ptr 10) s1 = Some (RT_EOK, s2) \<and>
    unat (sems s2 (Ptr 10)) = 0 \<and> tlists s2 (Suspend_thread (Ptr 10)) = [] \<and> rt_sem_take_wakeup (Ptr 1) s2 = RT_EOK"
proof -
  have t: "(5 :: u32) \<noteq> 0" "timeout_ok 5" by (simp_all add: timeout_ok_def RT_TICK_MAX_def)
  obtain s1 where s1: "rt_sem_take (Ptr 10) 5 demo = Some (Wait, s1)" "sems s1 = sems demo"
    "tlists s1 (Suspend_thread (Ptr 10)) = [Ptr 1]" "ipc_ok s1 (Ptr 10) RT_Object_Class_Semaphore"
    using sem_take_wait [OF demo_ipc_ok(1) demo_context(1) _ t] by (auto simp: wait_place_def)
  obtain s2 where s2: "rt_sem_release (Ptr 10) s1 = Some (RT_EOK, s2)" "kernel_frame s1 s2"
    "tlists s2 (Suspend_thread (Ptr 10)) = []"
    using sem_release_handover [OF s1(4,3)] by blast
  have "sem_run (Ptr 10) demo {Ptr 1} s1 0 0"
    using sem_taking [OF sem_start demo_ipc_ok(1) demo_context(1) _ t(2) s1(1)] by simp
  then have run: "sem_run (Ptr 10) demo {Ptr 1} s2 0 1"
    using sem_releasing [OF _ s1(4) s2(1)] by fastforce
  have v: "unat (sems s2 (Ptr 10)) = 0" using kernel_frame_fields(1) [OF s2(2)] s1(2) by simp
  have "card {t \<in> {Ptr 1}. th_error (threads s2 t) = RT_EOK} = 1"
    using sem_conservation [OF run] s2(3) v by simp
  then have "{t \<in> {Ptr 1}. th_error (threads s2 t) = RT_EOK} \<noteq> {}" by (metis card.empty zero_neq_one)
  then have "rt_sem_take_wakeup (Ptr 1) s2 = RT_EOK" by (simp add: rt_sem_take_wakeup_def)
  then show ?thesis using s1(1) s2(1,3) v by blast
qed

lemma sem_take_order_witness:
  "\<exists>s'. rt_sem_take (Ptr 10) 5 (waiting (Suspend_thread (Ptr 10)) [Ptr 3, Ptr 2] demo) = Some (Wait, s') \<and>
    filter (\<lambda>u. prio_of demo u = 10) (tlists s' (Suspend_thread (Ptr 10))) = [Ptr 1]"
proof -
  let ?s = "waiting (Suspend_thread (Ptr 10)) [Ptr 3, Ptr 2] demo"
  have "ipc_ok ?s (Ptr 10) RT_Object_Class_Semaphore" by (simp add: ipc_ok_def)
  then have "\<exists>s'. rt_sem_take (Ptr 10) 5 ?s = Some (Wait, s') \<and>
      prio_sorted (prio_of ?s) (tlists s' (Suspend_thread (Ptr 10))) \<and>
      filter (\<lambda>u. prio_of ?s u = prio_of ?s (current_thread ?s)) (tlists s' (Suspend_thread (Ptr 10))) =
      filter (\<lambda>u. prio_of ?s u = prio_of ?s (current_thread ?s)) (tlists ?s (Suspend_thread (Ptr 10))) @
        [current_thread ?s]"
    by (rule sem_take_order) (simp_all add: timeout_ok_def prio_sorted_def RT_TICK_MAX_def)
  then show ?thesis by auto
qed

lemma sem_control_reset_witness:
  "\<exists>s'. rt_sem_control (Ptr 10) (Reset 7) (waiting (Suspend_thread (Ptr 10)) [Ptr 3, Ptr 2] demo) =
    Some (RT_EOK, s') \<and> sems s' (Ptr 10) = 7 \<and> th_error (threads s' (Ptr 2)) = - RT_ERROR"
proof -
  let ?s = "waiting (Suspend_thread (Ptr 10)) [Ptr 3, Ptr 2] demo"
  have "ipc_ok ?s (Ptr 10) RT_Object_Class_Semaphore" by (simp add: ipc_ok_def)
  from sem_control_reset [OF this, of 7] show ?thesis by auto
qed

lemma sem_release_wraps_witness:
  "\<exists>s'. rt_sem_release (Ptr 10) (demo\<lparr>sems := \<lambda>_. 0xffff\<rparr>) = Some (RT_EOK, s') \<and> sems s' (Ptr 10) = 0"
proof -
  let ?s = "demo\<lparr>sems := \<lambda>_. 0xffff\<rparr>"
  have "has_type ?s (Ptr 10) RT_Object_Class_Semaphore"
    using demo_types(1) by (simp add: has_type_def)
  then have "ipc_ok ?s (Ptr 10) RT_Object_Class_Semaphore" by (simp add: ipc_ok_def)
  then show ?thesis by (rule sem_release_wraps) simp_all
qed

lemma mutex_take_free_witness:
  "\<exists>s'. rt_mutex_take (Ptr 11) 5 demo = Some (Ret RT_EOK, s') \<and> mx_owner (mutexes s' (Ptr 11)) = Ptr 1"
proof -
  have "mx_owner (mutexes demo (Ptr 11)) = RT_NULL" by (simp add: demo_def)
  moreover have "mutex_ok demo (Ptr 11)"
    by (simp add: mutex_ok_def mutex_inv_def) (simp add: demo_def)
  ultimately show ?thesis using mutex_take_free [of demo "Ptr 11" 5] by auto
qed

lemma mutex_take_nested_witness:
  "\<exists>s'. rt_mutex_take (Ptr 11) 5 (owned (Ptr 1) 1 demo) = Some (Ret RT_EOK, s') \<and>
    mx_hold (mutexes s' (Ptr 11)) = 2"
  using mutex_take_nested [OF owned_mutex_ok(1) [of 1 "Ptr 1"], of 5] by auto

lemma mutex_take_wait_witness:
  "\<exists>s'. rt_mutex_take (Ptr 11) 5 (owned (Ptr 4) 1 demo) = Some (Wait, s') \<and>
    prio_of s' (Ptr 4) = 10 \<and> tlists s' (Suspend_thread (Ptr 11)) = [Ptr 1]"
proof -
  let ?s = "owned (Ptr 4) 1 demo"
  have p: "prio_of demo (Ptr 4) = 20" by (simp add: demo_def)
  have "mutex_ok ?s (Ptr 11)" by (rule owned_mutex_ok) simp_all
  then have "\<exists>s'. rt_mutex_take (Ptr 11) 5 ?s = Some (Wait, s') \<and> kernel_ok s' \<and> mutex_inv s' (Ptr 11) \<and>
      mutexes s' = mutexes ?s \<and> th_error (threads s' (current_thread ?s)) = RT_EOK \<and>
      prio_of s' (mx_owner (mutexes ?s (Ptr 11))) =
        min (prio_of ?s (mx_owner (mutexes ?s (Ptr 11)))) (prio_of ?s (current_thread ?s)) \<and>
      (\<forall>u. u \<noteq> mx_owner (mutexes ?s (Ptr 11)) \<longrightarrow> prio_of s' u = prio_of ?s u) \<and>
      tlists s' (Suspend_thread (Ptr 11)) = wait_place (prio_of ?s) (obj_flag (objs ?s (Ptr 11)))
        (current_thread ?s) (tlists ?s (Suspend_thread (Ptr 11)))"
    by (rule mutex_take_wait) (simp_all add: timeout_ok_def RT_TICK_MAX_def)
  then show ?thesis using p by (auto simp: wait_place_def)
qed

lemma mutex_release_foreign_witness:
  "rt_mutex_release (Ptr 11) (owned (Ptr 4) 1 demo) =
    Some (- RT_ERROR, set_error (Ptr 1) (- RT_ERROR) (owned (Ptr 4) 1 demo))"
  using mutex_release_foreign [OF owned_mutex_ok(1) [of 1 "Ptr 4"]] by simp

lemma mutex_release_nested_witness:
  "\<exists>s'. rt_mutex_release (Ptr 11) (owned (Ptr 1) 2 demo) = Some (RT_EOK, s') \<and>
    mx_hold (mutexes s' (Ptr 11)) = 1"
  using mutex_release_nested [OF owned_mutex_ok(1) [of 2 "Ptr 1"]] by auto

lemma mutex_release_free_witness:
  "\<exists>s'. rt_mutex_release (Ptr 11) (owned (Ptr 1) 1 demo) = Some (RT_EOK, s') \<and>
    mx_owner (mutexes s' (Ptr 11)) = RT_NULL \<and> th_current_priority (threads s' (Ptr 1)) = 20"
  using mutex_release_free [OF owned_mutex_ok(1) [of 1 "Ptr 1"]] by auto

lemma mutex_release_handover_witness:
  "\<exists>s'. rt_mutex_release (Ptr 11) (owned (Ptr 1) 1 (waiting (Suspend_thread (Ptr 11)) [Ptr 3, Ptr 2] demo)) =
      Some (RT_EOK, s') \<and>
    mx_owner (mutexes s' (Ptr 11)) = Ptr 3 \<and> tlists s' (Suspend_thread (Ptr 11)) = [Ptr 2]"
  using mutex_release_handover [OF owned_mutex_ok(2) [of 1 "Ptr 1"], of "Ptr 3" "[Ptr 2]"] by auto

text \<open>Thread 2 waits for both of two flags, thread 3 for one of three.\<close>

definition wanting :: "kstate \<Rightarrow> kstate" where
  "wanting s = upd_thread (Ptr 2) (th_event_info_update (\<lambda>_. RT_EVENT_FLAG_AND))
     (upd_thread (Ptr 2) (th_event_set_update (\<lambda>_. 3))
       (upd_thread (Ptr 3) (th_event_info_update (\<lambda>_. RT_EVENT_FLAG_OR OR RT_EVENT_FLAG_CLEAR))
         (upd_thread (Ptr 3) (th_event_set_update (\<lambda>_. 7))
           (waiting (Suspend_thread (Ptr 12)) [Ptr 3, Ptr 2] s))))"

lemma wanting_ok: "ipc_ok (wanting demo) (Ptr 12) RT_Object_Class_Event"
proof -
  have "kernel_ok (wanting demo)"
    unfolding wanting_def kernel_ok_set_event by (rule demo_waiting_ok) simp
  then show ?thesis
    using demo_types(3) by (simp add: ipc_ok_def wanting_def has_type_def)
qed

lemma wanting_deliver:
  "deliver (info_of (wanting demo)) (want_of (wanting demo)) (events (wanting demo) (Ptr 12) OR 9)
     (tlists (wanting demo) (Suspend_thread (Ptr 12))) = (8, [(Ptr 3, 1)])"
  by (simp add: wanting_def info_of_def want_of_def event_sat_def event_left_def event_got_def
      RT_EVENT_FLAG_OR_def RT_EVENT_FLAG_CLEAR_def RT_EVENT_FLAG_AND_def)

text \<open>The send of two flags serves thread 3, which takes one of them away; thread 2 waits on.\<close>

lemma event_send_inv_witness:
  "\<exists>s'. rt_event_send (Ptr 12) 9 (wanting demo) = Some (RT_EOK, s') \<and> events s' (Ptr 12) = 8 \<and>
    tlists s' (Suspend_thread (Ptr 12)) = [Ptr 2] \<and> runnable s' (Ptr 3) \<and>
    rt_event_recv_wakeup (Ptr 3) s' = (RT_EOK, Some 1)"
proof -
  have l: "tlists (wanting demo) (Suspend_thread (Ptr 12)) = [Ptr 3, Ptr 2]"
    and e: "th_error (threads (wanting demo) (Ptr 3)) = RT_EOK"
    by (simp_all add: wanting_def rt_err_defs)
  show ?thesis using event_send_inv [OF wanting_ok _ wanting_deliver] unfolding l by (auto simp: e)
qed

lemma event_recv_now_witness:
  "\<exists>s'. rt_event_recv (Ptr 12) 6 (RT_EVENT_FLAG_OR OR RT_EVENT_FLAG_CLEAR) 0 (demo\<lparr>events := \<lambda>_. 3\<rparr>) =
      Some (Ret (RT_EOK, Some 2), s') \<and> events s' (Ptr 12) = 1"
proof -
  let ?s = "demo\<lparr>events := \<lambda>_. 3\<rparr>" and ?o = "RT_EVENT_FLAG_OR OR RT_EVENT_FLAG_CLEAR"
  have o: "event_option_ok ?o" "?o AND RT_EVENT_FLAG_CLEAR \<noteq> 0" "?o AND RT_EVENT_FLAG_AND = 0"
    by (simp_all add: event_option_ok_def RT_EVENT_FLAG_OR_def RT_EVENT_FLAG_CLEAR_def RT_EVENT_FLAG_AND_def)
  have ok: "ipc_ok ?s (Ptr 12) RT_Object_Class_Event" "thread_context ?s"
    using demo_types(3) demo_context(1) by (simp_all add: ipc_ok_def has_type_def thread_context_def)
  have "event_inv ?s (Ptr 12)" by (simp add: event_inv_def)
  moreover have "event_sat ?o 6 (events ?s (Ptr 12))" using o by (simp add: event_sat_def event_option_ok_def)
  ultimately show ?thesis
    using event_recv_now [OF ok, of 6 ?o 0] o by auto
qed

lemma event_recv_wait_witness:
  "\<exists>s'. rt_event_recv (Ptr 12) 6 RT_EVENT_FLAG_AND 9 demo = Some (Wait, s') \<and> event_inv s' (Ptr 12) \<and>
    tlists s' (Suspend_thread (Ptr 12)) = [Ptr 1]"
proof -
  have o: "event_option_ok RT_EVENT_FLAG_AND" "\<not> event_sat RT_EVENT_FLAG_AND 6 (events demo (Ptr 12))"
    by (simp_all add: event_option_ok_def event_sat_def RT_EVENT_FLAG_AND_def)
  have "event_inv demo (Ptr 12)" by (simp add: event_inv_def)
  from event_recv_wait [OF demo_ipc_ok(3) demo_context(1) this _ o(1) o(2), of 9] show ?thesis
    by (auto simp: timeout_ok_def RT_TICK_MAX_def wait_place_def)
qed

lemma demo_mbox_ok: "mbox_ok demo (Ptr 13)" "mails demo (Ptr 13) = []"
  by (simp_all add: mbox_ok_def mb_contents_def) (simp_all add: demo_def mb_inv_def)

lemma mb_send_recv_witness:
  "\<exists>s1 s2. rt_mb_send (Ptr 13) 42 demo = Some (Ret RT_EOK, s1) \<and>
    rt_mb_recv (Ptr 13) 0 s1 = Some (Ret (RT_EOK, Some 42), s2) \<and> mails s2 (Ptr 13) = []"
  by (rule mb_send_recv) (simp_all add: demo_mbox_ok)

lemma mb_send_blocks_witness:
  "\<exists>s s'. length (mails s (Ptr 13)) = 1 \<and> rt_mb_send_wait (Ptr 13) 42 9 s = Some (Wait, s') \<and>
    tlists s' (Suspend_sender (Ptr 13)) = [Ptr 1]"
proof -
  let ?s = "upd_mailbox (Ptr 13) (\<lambda>_. \<lparr>mb_msg_pool = [7], mb_size = 1, mb_entry = 1, mb_in_offset = 0,
    mb_out_offset = 0\<rparr>) demo"
  have ok: "mbox_ok ?s (Ptr 13)"
    using demo_types(4) by (simp add: mbox_ok_def ipc_ok_def has_type_def mb_inv_def)
  have c: "thread_context ?s" using demo_context(1) by (simp add: thread_context_def)
  have l: "length (mails ?s (Ptr 13)) = 1" by (simp add: mb_contents_def)
  have t: "(9 :: u32) \<noteq> 0" "timeout_ok 9" by (simp_all add: timeout_ok_def RT_TICK_MAX_def)
  have full: "length (mails ?s (Ptr 13)) = unat (mb_size (mailboxes ?s (Ptr 13)))" using l by simp
  obtain s' where "rt_mb_send_wait (Ptr 13) 42 9 ?s = Some (Wait, s')"
    "tlists s' (Suspend_sender (Ptr 13)) = wait_place (prio_of ?s) (obj_flag (objs ?s (Ptr 13)))
      (current_thread ?s) (tlists ?s (Suspend_sender (Ptr 13)))"
    using mb_send_blocks [OF ok c full t, of 42] by blast
  then show ?thesis using l by (intro exI [of _ ?s] exI [of _ s']) (simp add: wait_place_def)
qed

lemma mailbox_run_order_witness:
  "mb_contents (snd (snd (fifo_run mb_put mb_get [Put 1, Put 2, Get] (mailboxes demo (Ptr 13))))) = [2]"
proof -
  let ?m = "mailboxes demo (Ptr 13)"
  have e: "fifo_run mb_put mb_get [Put 1, Put 2, Get] ?m = ([1, 2], [1], \<lparr>mb_msg_pool = [1, 2],
      mb_size = 2, mb_entry = 1, mb_in_offset = 0, mb_out_offset = 1\<rparr>)"
    by (simp add: demo_def mb_put_def mb_push_def mb_get_def mb_pop_def Let_def word_le_nat_alt)
  have "mb_inv ?m" "mb_contents ?m = []"
    using demo_mbox_ok by (simp_all add: mbox_ok_def)
  from mailbox_run_order [OF this(1) e] this(2) show ?thesis unfolding e by simp
qed

lemma demo_queue: "mq_inv (msgqueues demo (Ptr 14)) [1, 0] [] []"
proof -
  have e: "msgqueues demo (Ptr 14) = mq_setup 4 2 (\<lambda>_. [0, 0, 0, 0]) \<lparr>mq_next = (\<lambda>_. None),
      mq_data = (\<lambda>_. []), mq_msg_size = 0, mq_max_msgs = 0, mq_entry = 0, mq_head = None,
      mq_tail = None, mq_free = None\<rparr>" by (simp add: demo_def)
  have "mq_inv (msgqueues demo (Ptr 14)) (rev [0..<unat (ucast (2 :: u32) :: u16)]) [] []"
    unfolding e by (rule mq_setup_inv) (simp add: RT_ALIGN4_def)
  moreover have "unat (ucast (2 :: u32) :: u16) = 2" by simp
  moreover have "rev [0..<2] = [1, 0 :: nat]" by (simp add: upt_rec)
  ultimately show ?thesis by simp
qed

lemma demo_queue_fields:
  "mq_msg_size (msgqueues demo (Ptr 14)) = 4" "mq_max_msgs (msgqueues demo (Ptr 14)) = 2"
  "mq_contents (msgqueues demo (Ptr 14)) = []"
proof -
  show "mq_contents (msgqueues demo (Ptr 14)) = []" using mq_contents_chain [OF demo_queue] by simp
  show "mq_msg_size (msgqueues demo (Ptr 14)) = 4" "mq_max_msgs (msgqueues demo (Ptr 14)) = 2"
    by (simp_all add: demo_def RT_ALIGN4_def)
qed

lemma demo_queue_ok: "queue_ok demo (Ptr 14)" "mq_ok (msgqueues demo (Ptr 14))"
  using demo_queue by (auto simp: queue_ok_def intro: mq_okI)

text \<open>A send has taken slot 1 and cleared its link when an urgent message overtakes it in slot 0.\<close>

lemma mq_reach_inv_witness:
  "\<exists>q. mq_reach (msgqueues demo (Ptr 14), [], []) (q, [Send_cleared 1 [1, 2]], [[9]]) \<and>
    (\<exists>fs m. mq_inv q fs [m] [1] \<and> mq_carries q m [9]) \<and> mq_unlink q \<noteq> None"
proof -
  let ?q = "msgqueues demo (Ptr 14)"
  let ?q1 = "?q\<lparr>mq_free := mq_next ?q 1\<rparr>"
  let ?q2 = "?q1\<lparr>mq_free := mq_next ?q1 0\<rparr>"
  let ?q3 = "mq_link_head 0 (mq_fill 0 [9] (mq_clear_next 1 ?q2))"
  have sz: "unat (mq_msg_size ?q) = 4" by (simp add: demo_def RT_ALIGN4_def)
  note t = mq_take_free_inv [OF demo_queue]
  have "mq_reach (?q, [], []) (?q1, [Send_taken 1 [1, 2]], [])"
    by (rule mq_more [OF mq_refl send_take [OF _ t(1)]]) (simp add: sz)
  then have "mq_reach (?q, [], []) (?q2, [Urgent_taken 0 [9], Send_taken 1 [1, 2]], [])"
    by (rule mq_more [OF _ urgent_take [OF _ mq_take_free_inv(1) [OF t(2)]]]) (simp add: sz)
  then have "mq_reach (?q, [], []) (mq_clear_next 1 ?q2, [Send_cleared 1 [1, 2], Urgent_taken 0 [9]], [])"
    using mq_more send_clear [of 1 "[1, 2]" "[Urgent_taken 0 [9], Send_taken 1 [1, 2]]" ?q2 "[]"] by fastforce
  then have "mq_reach (?q, [], []) (mq_fill 0 [9] (mq_clear_next 1 ?q2), [Urgent_copied 0 [9], Send_cleared 1 [1, 2]], [])"
    using mq_more urgent_copy [of 0 "[9]" "[Send_cleared 1 [1, 2], Urgent_taken 0 [9]]" "mq_clear_next 1 ?q2" "[]"]
    by fastforce
  then have r: "mq_reach (?q, [], []) (?q3, [Send_cleared 1 [1, 2]], [[9]])"
    using mq_more urgent_link [of 0 "[9]" "[Urgent_copied 0 [9], Send_cleared 1 [1, 2]]" _ "[]"] by fastforce
  have "mq_entry ?q3 \<noteq> 0"
    by (simp add: demo_def mq_setup_def mq_link_head_def mq_fill_def mq_clear_next_def Let_def)
  then show ?thesis using mq_reach_inv [OF r demo_queue] r by (auto simp: list_all2_Cons2)
qed

lemma mq_urgent_overtakes_witness:
  "\<exists>s'. rt_mq_urgent (Ptr 14) [1, 2, 3, 4] demo = Some (RT_EOK, s') \<and>
    mq_contents (msgqueues s' (Ptr 14)) = [[1, 2, 3, 4]]"
  using mq_urgent_overtakes [OF demo_queue_ok(1), of "[1, 2, 3, 4]"] demo_queue_fields by auto

lemma mq_control_reset_witness:
  "\<exists>s'. rt_mq_control (Ptr 14) (Reset 0) demo = Some (RT_EOK, s') \<and> kernel_ok s' \<and>
    mq_contents (msgqueues s' (Ptr 14)) = []"
  using mq_control_reset [OF demo_queue_ok(1), of 0] by blast

lemma mq_run_order_witness:
  "\<exists>ac de q'. fifo_run mq_put (\<lambda>q. mq_get (unat (mq_msg_size q)) q) [Put [1, 2, 3, 4], Get]
      (msgqueues demo (Ptr 14)) = (ac, de, q') \<and> de @ mq_contents q' = ac"
proof -
  obtain ac de q' where e: "fifo_run mq_put (\<lambda>q. mq_get (unat (mq_msg_size q)) q) [Put [1, 2, 3, 4], Get]
      (msgqueues demo (Ptr 14)) = (ac, de, q')" by (rule prod_cases3)
  have v: "puts_valid (\<lambda>b. length b = unat (mq_msg_size (msgqueues demo (Ptr 14)))) [Put [1 :: u8, 2, 3, 4], Get]"
    by (simp add: demo_queue_fields)
  have "de @ mq_contents q' = mq_contents (msgqueues demo (Ptr 14)) @ ac"
    using mq_run_order [OF demo_queue_ok(2) v e] by (rule conjunct2)
  then show ?thesis using e by (simp add: demo_queue_fields)
qed

lemma demo_timer_hard: "obj_flag (objs demo (Thread_timer t)) AND f = 0"
  by (simp add: demo_def demo_object_def)

lemma timer_start_pending_witness:
  "\<exists>s'. rt_timer_start (Thread_timer (Ptr 2)) demo = Some (RT_EOK, s') \<and>
    set (trows s' Hard_list) = {Thread_timer (Ptr 2)} \<and>
    obj_flag (objs s' (Thread_timer (Ptr 2))) AND RT_TIMER_FLAG_ACTIVATED \<noteq> 0"
proof -
  have "tm_init_tick (timers demo (Thread_timer (Ptr 2))) < half_range" by (simp add: demo_def RT_TICK_MAX_def)
  moreover have "pending_ok Hard_list demo" by (simp add: pending_ok_def timers_sorted_def window_def)
  ultimately show ?thesis
    using timer_start_pending [OF demo_types(8)] demo_timer_hard by force
qed

text \<open>Two pending timers of the application at tick 10: one due at 9, one due at 12.\<close>

definition ticking :: kstate where
  "ticking = demo\<lparr>tick := 10, trows := (\<lambda>_. [])(Hard_list := [Thread_timer (Ptr 2), Thread_timer (Ptr 3)]),
     timers := (\<lambda>t. \<lparr>tm_timeout_func = Application 0, tm_parameter = RT_NULL, tm_init_tick = 0,
       tm_timeout_tick = (if t = Thread_timer (Ptr 2) then 9 else 12)\<rparr>)\<rparr>"

lemma timer_check_returns_witness:
  "\<exists>s'. rt_timer_check (\<lambda>n p s. Some s) ticking = Some s' \<and> trows s' Hard_list = [Thread_timer (Ptr 3)]"
proof -
  let ?app = "\<lambda>(n :: nat) (p :: ptr) s. Some s"
  have "quiet_app ?app" by (simp add: quiet_app_def quiet_def)
  moreover have "\<forall>t. obj_flag (objs ticking (Thread_timer t)) AND RT_TIMER_FLAG_PERIODIC = 0"
    using demo_timer_hard by (simp add: ticking_def)
  ultimately have "\<exists>s'. rt_timer_check ?app ticking = Some s' \<and> trows s' Hard_list =
      filter (\<lambda>t. due 0 (tick ticking) < due 0 (tm_timeout_tick (timers ticking t))) (trows ticking Hard_list)"
    by (intro timer_check_returns)
      (simp_all add: ticking_def timers_sorted_def window_def due_def RT_TICK_MAX_def)
  then show ?thesis by (simp add: ticking_def due_def)
qed

lemma sleep_current_witness:
  "\<exists>s'. rt_thread_sleep 5 demo = Some s' \<and> stat_of s' (Ptr 1) = RT_THREAD_SUSPEND \<and>
    tm_timeout_tick (timers s' (Thread_timer (Ptr 1))) = 5 \<and> current_thread s' = Idle_thread"
proof -
  have "\<forall>q < 31. tlists demo (Ready q) = []" by simp
  from sleep_current [OF demo_kernel_ok _ _ _ _ this, of 5] show ?thesis by (auto simp: RT_TICK_MAX_def)
qed

lemma init_find_witness:
  "\<exists>s1 s2. rt_object_init (Ptr 77) RT_Object_Class_Event ''evt'' demo = Some s1 \<and>
    rt_object_find (Some ''evt'') RT_Object_Class_Event s1 = Some (Ptr 77, s2)"
proof -
  have "rt_object_get_information RT_Object_Class_Event = Some 3"
    using get_information_index [of 3] by (simp add: object_classes_def)
  moreover have "c_string ''evt''" by (simp add: c_string_def)
  ultimately show ?thesis
    using init_find [OF kernel_ok_ready [OF demo_kernel_ok]] by simp
qed

lemma rt_memcpy_moved_witness: "rt_memcpy 8 100 20 (\<lambda>a. of_nat a) 27 = 119"
  using rt_memcpy_moved [of 8 100 20 "\<lambda>a. of_nat a"] by (simp add: upward_def moved_def)

text \<open>Two lists in memory: head 0 with the nodes 1 and 2, head 10 empty.\<close>

definition two_lists :: "nat links" where
  "two_lists = \<lparr>next_of = (\<lambda>n. n)(0 := 1, 1 := 2, 2 := 0), prev_of = (\<lambda>n. n)(0 := 2, 1 := 0, 2 := 1)\<rparr>"

lemma two_lists: "represents {0, 10} two_lists ((\<lambda>_. [])(0 := [1, 2]))"
  by (auto simp: represents_def dlist_def two_lists_def)

lemma represents_insert_before_node_witness:
  "represents {0, 10} (rt_list_insert_before 2 7 two_lists) ((\<lambda>_. [])(0 := [1, 7, 2 :: nat]))"
  using represents_insert_before_node [OF two_lists, of 0 2 7] by simp

lemma represents_insert_before_head_witness:
  "represents {0, 10} (rt_list_insert_before 10 7 two_lists) ((\<lambda>_. [])(0 := [1, 2], 10 := [7 :: nat]))"
  using represents_insert_before_head [OF two_lists, of 10 7] by (simp add: seq_insert_before_head_def)

lemma represents_remove_witness:
  "represents {0, 10} (rt_list_remove 1 two_lists) ((\<lambda>_. [])(0 := [2 :: nat]))"
  using represents_remove [OF two_lists, of 0 1] by simp

lemma rt_ffs_least_witness: "rt_ffs 0x30 = Suc (LEAST i. bit (0x30 :: u32) i)"
  using rt_ffs_least [of "0x30"] by simp

end
